(* ===== verification/Prelude.thy ===== *)
theory Prelude
  imports Complex_Main
begin

text \<open>
  Shared vocabulary of the development: the result type of a request (an HTTP error or a
  value), the option/sum combinators the handlers are written with, the collections of facts
  the component theories add to, and generic lemmas on maps and lists.
\<close>

named_theorems handler_simps \<open>definitions and equations that unfold a handler's control flow\<close>
named_theorems step_intros \<open>introduction facts for single steps of the state machines\<close>
named_theorems money_simps \<open>exactness facts about amounts in paise\<close>

subsection \<open>Errors as values\<close>

text \<open>
  An error thrown by a service: the HTTP status and the application code
  (\<open>httpError\<close>/\<open>createHttpError\<close> in \<open>api/src/lib/errors.ts\<close>). Where the code throws a plain
  \<open>Error\<close> with only an \<open>httpStatus\<close>, the code is the empty string.
\<close>

record app_error =
  http_status :: nat
  app_code :: string

abbreviation http_err :: "nat \<Rightarrow> string \<Rightarrow> app_error" where
  "http_err st c \<equiv> \<lparr>http_status = st, app_code = c\<rparr>"

type_synonym 'a res = "app_error + 'a"

definition guard_err :: "bool \<Rightarrow> app_error \<Rightarrow> unit res" where
  "guard_err bad e = (if bad then Inl e else Inr ())"

definition bind_res :: "'a res \<Rightarrow> ('a \<Rightarrow> 'b res) \<Rightarrow> 'b res" where
  "bind_res r f = (case r of Inl e \<Rightarrow> Inl e | Inr a \<Rightarrow> f a)"

lemma guard_err_simps [simp]:
  "guard_err True e = Inl e" "guard_err False e = Inr ()"
  by (simp_all add: guard_err_def)

lemma guard_err_Inr [simp]: "guard_err b e = Inr u \<longleftrightarrow> \<not> b"
  by (simp add: guard_err_def)

lemma bind_res_simps [simp]:
  "bind_res (Inl e) f = Inl e" "bind_res (Inr a) f = f a"
  by (simp_all add: bind_res_def)

lemma bind_res_Inr: "bind_res r f = Inr b \<longleftrightarrow> (\<exists>a. r = Inr a \<and> f a = Inr b)"
  by (cases r) auto

lemma bind_guard_Inr [simp]: "bind_res (guard_err c e) f = Inr b \<longleftrightarrow> \<not> c \<and> f () = Inr b"
  by (simp add: guard_err_def)

subsection \<open>Nullable values\<close>

text \<open>\<open>a ?? b\<close>: the left operand unless it is null/undefined.\<close>

definition coalesce :: "'a option \<Rightarrow> 'a \<Rightarrow> 'a" where
  "coalesce x d = (case x of Some v \<Rightarrow> v | None \<Rightarrow> d)"

lemma coalesce_simps [simp]: "coalesce (Some v) d = v" "coalesce None d = d"
  by (simp_all add: coalesce_def)

definition orelse :: "'a option \<Rightarrow> 'a option \<Rightarrow> 'a option" where
  "orelse x y = (case x of Some v \<Rightarrow> Some v | None \<Rightarrow> y)"

lemma orelse_simps [simp]: "orelse (Some v) y = Some v" "orelse None y = y" "orelse x None = x"
  by (simp_all add: orelse_def split: option.split)

subsection \<open>Tables\<close>

text \<open>
  A table is a map from its key to the row. \<open>upd_where\<close> is a single-row
  \<open>UPDATE ... WHERE key = k AND p(row)\<close>: the new table and the row count (0 or 1).
\<close>

definition upd_where :: "('k \<rightharpoonup> 'r) \<Rightarrow> 'k \<Rightarrow> ('r \<Rightarrow> bool) \<Rightarrow> ('r \<Rightarrow> 'r) \<Rightarrow> ('k \<rightharpoonup> 'r) \<times> nat" where
  "upd_where t k p f = (case t k of
      Some r \<Rightarrow> if p r then (t(k \<mapsto> f r), 1) else (t, 0)
    | None \<Rightarrow> (t, 0))"

lemma upd_where_hit: "t k = Some r \<Longrightarrow> p r \<Longrightarrow> upd_where t k p f = (t(k \<mapsto> f r), 1)"
  by (simp add: upd_where_def)

lemma upd_where_count: "snd (upd_where t k p f) = 1 \<longleftrightarrow> (\<exists>r. t k = Some r \<and> p r)"
  by (auto simp: upd_where_def split: option.splits)

lemma upd_where_miss: "snd (upd_where t k p f) = 0 \<Longrightarrow> fst (upd_where t k p f) = t"
  by (auto simp: upd_where_def split: option.splits if_splits)

lemma upd_where_other: "j \<noteq> k \<Longrightarrow> fst (upd_where t k p f) j = t j"
  by (auto simp: upd_where_def split: option.splits)

lemma upd_where_le1: "snd (upd_where t k p f) \<le> 1"
  by (auto simp: upd_where_def split: option.splits)

text \<open>\<open>UPDATE ... WHERE p(row)\<close> over a whole table.\<close>

definition upd_all :: "('k \<rightharpoonup> 'r) \<Rightarrow> ('k \<Rightarrow> 'r \<Rightarrow> bool) \<Rightarrow> ('r \<Rightarrow> 'r) \<Rightarrow> ('k \<rightharpoonup> 'r)" where
  "upd_all t p f = (\<lambda>k. case t k of Some r \<Rightarrow> Some (if p k r then f r else r) | None \<Rightarrow> None)"

lemma upd_all_dom [simp]: "upd_all t p f k = None \<longleftrightarrow> t k = None"
  by (auto simp: upd_all_def split: option.splits)

lemma upd_all_Some: "upd_all t p f k = Some r' \<longleftrightarrow> (\<exists>r. t k = Some r \<and> r' = (if p k r then f r else r))"
  by (auto simp: upd_all_def split: option.splits)

lemma sum_list_snoc [simp]: "sum_list (xs @ [x]) = sum_list xs + (x :: 'a :: comm_monoid_add)"
  by simp

subsection \<open>Ordered selections\<close>

text \<open>\<open>ORDER BY f LIMIT 1\<close>: the first row with the least key.\<close>

fun order_limit1 :: "('a \<Rightarrow> 'k :: linorder) \<Rightarrow> 'a list \<Rightarrow> 'a option" where
  "order_limit1 f [] = None"
| "order_limit1 f (x # xs) = (case order_limit1 f xs of
     None \<Rightarrow> Some x
   | Some y \<Rightarrow> if f y < f x then Some y else Some x)"

lemma order_limit1_None [simp]: "order_limit1 f xs = None \<longleftrightarrow> xs = []"
  by (cases xs) (auto split: option.splits)

lemma order_limit1_Some: "order_limit1 f xs = Some x \<Longrightarrow> x \<in> set xs \<and> (\<forall>y \<in> set xs. f x \<le> f y)"
proof (induction xs arbitrary: x)
  case (Cons a xs)
  show ?case
  proof (cases "order_limit1 f xs")
    case None
    then show ?thesis using Cons.prems by simp
  next
    case (Some y)
    then show ?thesis using Cons.IH [OF Some] Cons.prems by (auto split: if_splits)
  qed
qed simp

text \<open>Nulls last: the key of a nullable column ascending.\<close>

definition nulls_last :: "'a option \<Rightarrow> nat" where
  "nulls_last x = (if x = None then 1 else 0)"

lemma case_res_mono:
  assumes "case x of (Inl e, d) \<Rightarrow> A e d | (Inr r, d) \<Rightarrow> B r d"
    and "\<And>e d. A e d \<Longrightarrow> A' e d" "\<And>r d. B r d \<Longrightarrow> B' r d"
  shows "case x of (Inl e, d) \<Rightarrow> A' e d | (Inr r, d) \<Rightarrow> B' r d"
  using assms by (cases x; cases "fst x") auto

lemma order_limit1_ex: "x \<in> set xs \<Longrightarrow> \<exists>y. order_limit1 f xs = Some y"
  by (cases "order_limit1 f xs") auto

end
