(* ===== verification/Otp.thy ===== *)
theory Otp
  imports Prelude
begin

text \<open>
  The one-time codes of a login (\<open>api/src/lib/otp.ts\<close>): the Redis keys of a phone and role, the fixed-window counters that limit requests and
  guesses, and the five Redis steps of a guess. Other requests may run between any two of them. The lemmas bound how many guesses
  are ever looked at, and show that a code signs in once.
\<close>

subsection \<open>Redis\<close>

datatype principal_role = UserRole | DriverRole | AdminRole

type_synonym otp_key = "string \<times> principal_role"

text \<open>\<open>OtpState\<close> with the expiry of its key; times are milliseconds. A key is gone from its expiry on.\<close>

record code_state =
  cs_hash :: string
  cs_expires :: int
  cs_locked :: "int option"
  cs_until :: int

text \<open>A counter, and its expiry if it has one.\<close>

record counter =
  ct_count :: int
  ct_until :: "int option"

record otp_redis =
  ox_codes :: "otp_key \<rightharpoonup> code_state"
  ox_tries :: "otp_key \<rightharpoonup> counter"
  ox_rates :: "otp_key \<rightharpoonup> counter"
  ox_locks :: "otp_key \<rightharpoonup> int"

definition OTP_TTL_SECONDS :: int where "OTP_TTL_SECONDS = 300"
definition OTP_MAX_ATTEMPTS :: int where "OTP_MAX_ATTEMPTS = 10"
definition OTP_LOCK_DURATION_MINUTES :: int where "OTP_LOCK_DURATION_MINUTES = 5"
definition OTP_RATE_LIMIT_WINDOW_MINUTES :: int where "OTP_RATE_LIMIT_WINDOW_MINUTES = 5"
definition OTP_RATE_LIMIT_MAX_REQUESTS :: int where "OTP_RATE_LIMIT_MAX_REQUESTS = 10"

definition code_at :: "int \<Rightarrow> otp_key \<Rightarrow> otp_redis \<Rightarrow> code_state option" where
  "code_at now k db = (case ox_codes db k of Some c \<Rightarrow> if now < cs_until c then Some c else None | None \<Rightarrow> None)"

definition counter_at :: "int \<Rightarrow> counter option \<Rightarrow> counter option" where
  "counter_at now c = (case c of None \<Rightarrow> None
     | Some x \<Rightarrow> (case ct_until x of Some t \<Rightarrow> if now < t then Some x else None | None \<Rightarrow> Some x))"

text \<open>
  \<open>incrWithTtl\<close>: \<open>INCR\<close> and \<open>TTL\<close> in one transaction, then the expiry for a key that has none. The transaction may be discarded, or the process
  may die before the expiry is set; the next hit sets it then.
\<close>

datatype redis_fault = Fine | Discarded | Dies

definition incrWithTtl :: "redis_fault \<Rightarrow> int \<Rightarrow> int \<Rightarrow> counter option \<Rightarrow> int res \<times> counter option" where
  "incrWithTtl f now ttl c =
     (if f = Discarded then (Inl (http_err 500 ''''), c)
      else let x = (case counter_at now c of Some x \<Rightarrow> x | None \<Rightarrow> \<lparr>ct_count = 0, ct_until = None\<rparr>); n = ct_count x + 1
           in if f = Dies then (Inl (http_err 500 ''''), Some \<lparr>ct_count = n, ct_until = ct_until x\<rparr>)
              else (Inr n, Some \<lparr>ct_count = n, ct_until = Some (coalesce (ct_until x) (now + ttl))\<rparr>))"

subsection \<open>Requesting a code\<close>

definition storeOtp :: "(string \<Rightarrow> string) \<Rightarrow> int \<Rightarrow> otp_key \<Rightarrow> string \<Rightarrow> otp_redis \<Rightarrow> otp_redis" where
  "storeOtp hash now k otp db = db\<lparr>ox_codes := (ox_codes db)(k \<mapsto>
     \<lparr>cs_hash = hash otp, cs_expires = now + OTP_TTL_SECONDS * 1000, cs_locked = None, cs_until = now + OTP_TTL_SECONDS * 1000\<rparr>)\<rparr>"

definition isVerifyLocked :: "int \<Rightarrow> otp_key \<Rightarrow> otp_redis \<Rightarrow> bool" where
  "isVerifyLocked now k db \<longleftrightarrow> (case ox_locks db k of Some t \<Rightarrow> now < t | None \<Rightarrow> False)
     \<or> (case code_at now k db of Some c \<Rightarrow> (case cs_locked c of Some t \<Rightarrow> now < t | None \<Rightarrow> False) | None \<Rightarrow> False)"

definition checkRateLimit :: "redis_fault \<Rightarrow> int \<Rightarrow> otp_key \<Rightarrow> otp_redis \<Rightarrow> (bool \<times> int) res \<times> otp_redis" where
  "checkRateLimit f now k db =
     (case incrWithTtl f now (OTP_RATE_LIMIT_WINDOW_MINUTES * 60 * 1000) (ox_rates db k) of
        (r, c) \<Rightarrow> (bind_res r (\<lambda>n. Inr (n \<le> OTP_RATE_LIMIT_MAX_REQUESTS, max 0 (OTP_RATE_LIMIT_MAX_REQUESTS - n))), db\<lparr>ox_rates := (ox_rates db)(k := c)\<rparr>))"

text \<open>\<open>requestOtp\<close> of \<open>auth.service.ts\<close>; \<open>otp\<close> is the code just drawn, or the fixed one of the review account.\<close>

definition requestOtp :: "(string \<Rightarrow> string) \<Rightarrow> redis_fault \<Rightarrow> int \<Rightarrow> otp_key \<Rightarrow> string \<Rightarrow> otp_redis \<Rightarrow> string res \<times> otp_redis" where
  "requestOtp hash f now k otp db =
     (case checkRateLimit f now k db of
        (Inl err, db) \<Rightarrow> (Inl err, db)
      | (Inr (allowed, _), db) \<Rightarrow>
          if \<not> allowed then (Inl (http_err 429 ''AUTH_OTP_RATE_LIMITED''), db)
          else if isVerifyLocked now k db then (Inl (http_err 429 ''AUTH_OTP_LOCKED''), db)
          else (Inr otp, storeOtp hash now k otp db))"

subsection \<open>A guess\<close>

datatype otp_answer = OtpSuccess | OtpExpired | OtpLocked | OtpWrong int

text \<open>The state read before the guess is counted, or the answer. A state past its own expiry is deleted.\<close>

definition open_code :: "int \<Rightarrow> otp_key \<Rightarrow> otp_redis \<Rightarrow> (otp_answer + code_state) \<times> otp_redis" where
  "open_code now k db =
     (if isVerifyLocked now k db then (Inl OtpLocked, db)
      else case code_at now k db of None \<Rightarrow> (Inl OtpExpired, db)
        | Some c \<Rightarrow> if cs_expires c \<le> now then (Inl OtpExpired, db\<lparr>ox_codes := (ox_codes db)(k := None)\<rparr>) else (Inr c, db))"

definition count_guess :: "redis_fault \<Rightarrow> int \<Rightarrow> otp_key \<Rightarrow> otp_redis \<Rightarrow> int res \<times> otp_redis" where
  "count_guess f now k db =
     (case incrWithTtl f now (OTP_LOCK_DURATION_MINUTES * 60 * 1000) (ox_tries db k) of (r, c) \<Rightarrow> (r, db\<lparr>ox_tries := (ox_tries db)(k := c)\<rparr>))"

definition lock_otp :: "int \<Rightarrow> otp_key \<Rightarrow> otp_redis \<Rightarrow> otp_redis" where
  "lock_otp now k db = db\<lparr>ox_locks := (ox_locks db)(k \<mapsto> now + OTP_LOCK_DURATION_MINUTES * 60 * 1000)\<rparr>"

text \<open>\<open>n\<close>: the number of this guess; \<open>None\<close> when it is right.\<close>

definition judge_guess :: "(string \<Rightarrow> string) \<Rightarrow> int \<Rightarrow> otp_key \<Rightarrow> code_state \<Rightarrow> string \<Rightarrow> int \<Rightarrow> otp_redis \<Rightarrow> otp_answer option \<times> otp_redis" where
  "judge_guess hash now k c otp n db =
     (if OTP_MAX_ATTEMPTS < n then (Some OtpLocked, lock_otp now k db)
      else if hash otp \<noteq> cs_hash c then
        (if OTP_MAX_ATTEMPTS \<le> n then (Some OtpLocked, lock_otp now k db) else (Some (OtpWrong (OTP_MAX_ATTEMPTS - n)), db))
      else (None, db))"

text \<open>\<open>DEL\<close>: whether the key was there.\<close>

definition claim_code :: "int \<Rightarrow> otp_key \<Rightarrow> otp_redis \<Rightarrow> bool \<times> otp_redis" where
  "claim_code now k db = (code_at now k db \<noteq> None, db\<lparr>ox_codes := (ox_codes db)(k := None)\<rparr>)"

definition reset_guesses :: "otp_key \<Rightarrow> otp_redis \<Rightarrow> otp_redis" where
  "reset_guesses k db = db\<lparr>ox_tries := (ox_tries db)(k := None)\<rparr>"

text \<open>The steps in a row.\<close>

definition consumeOtp :: "(string \<Rightarrow> string) \<Rightarrow> redis_fault \<Rightarrow> int \<Rightarrow> otp_key \<Rightarrow> string \<Rightarrow> otp_redis \<Rightarrow> otp_answer res \<times> otp_redis" where
  "consumeOtp hash f now k otp db =
     (case open_code now k db of (Inl a, db) \<Rightarrow> (Inr a, db)
      | (Inr c, db) \<Rightarrow>
          (case count_guess f now k db of (Inl err, db) \<Rightarrow> (Inl err, db)
           | (Inr n, db) \<Rightarrow>
               (case judge_guess hash now k c otp n db of (Some a, db) \<Rightarrow> (Inr a, db)
                | (None, db) \<Rightarrow>
                    (case claim_code now k db of (False, db) \<Rightarrow> (Inr OtpExpired, db)
                     | (True, db) \<Rightarrow> (Inr OtpSuccess, reset_guesses k db)))))"

subsection \<open>Fixed windows\<close>

text \<open>
  What holds of a counter of width \<open>W\<close> and limit \<open>L\<close> at the time \<open>now\<close>, when \<open>g\<close> hits were granted and \<open>r\<close> resets made in
  \<open>[t, t + W)\<close>. The life of a counter starts at some \<open>b\<close> and lasts for \<open>W\<close> at least, so \<open>[t, t + W)\<close> meets two lives and one more for each reset.
\<close>

definition window_inv :: "int \<Rightarrow> int \<Rightarrow> int \<Rightarrow> int \<Rightarrow> counter option \<Rightarrow> int \<Rightarrow> int \<Rightarrow> bool" where
  "window_inv L W t now c g r \<longleftrightarrow> 0 \<le> g \<and> 0 \<le> r \<and> g \<le> L * (2 + r) \<and> (now < t \<longrightarrow> g = 0 \<and> r = 0)
     \<and> (now < t + W \<longrightarrow> (case counter_at now c of None \<Rightarrow> g \<le> L * (1 + r)
          | Some x \<Rightarrow> 0 \<le> ct_count x \<and> (\<exists>b \<le> now. (\<forall>u. ct_until x = Some u \<longrightarrow> b + W \<le> u)
              \<and> g \<le> (if b < t then L * r else L * (1 + r)) + min L (ct_count x))))"

definition in_window :: "int \<Rightarrow> int \<Rightarrow> int \<Rightarrow> int" where
  "in_window W t now = (if t \<le> now \<and> now < t + W then 1 else 0)"

lemma counter_at_later: "now \<le> now' \<Longrightarrow> counter_at now' c = Some x \<Longrightarrow> counter_at now c = Some x"
  by (auto simp: counter_at_def split: option.splits if_splits)

lemma window_empty: "0 \<le> L \<Longrightarrow> window_inv L W t now None 0 0"
  by (simp add: window_inv_def counter_at_def)

lemma window_later:
  assumes inv: "window_inv L W t now c g r" and le: "now \<le> now'"
  shows "window_inv L W t now' c g r"
proof (cases "now' < t + W")
  case True
  then have now: "now < t + W" using le by simp
  show ?thesis
  proof (cases "counter_at now' c")
    case (Some x)
    have "counter_at now c = Some x" using counter_at_later [OF le Some] .
    then obtain b where b: "b \<le> now" "0 \<le> ct_count x" "\<forall>u. ct_until x = Some u \<longrightarrow> b + W \<le> u"
        "g \<le> (if b < t then L * r else L * (1 + r)) + min L (ct_count x)"
      using inv now unfolding window_inv_def by auto
    have "b \<le> now'" using b(1) le by simp
    then show ?thesis using inv le b(2-4) unfolding window_inv_def Some option.case by (intro conjI impI exI [of _ b]) auto
  next
    case None
    have "g \<le> L * (1 + r)"
    proof (cases "counter_at now c")
      case None
      then show ?thesis using inv now unfolding window_inv_def by simp
    next
      case (Some x)
      then obtain b where b: "b \<le> now" "\<forall>u. ct_until x = Some u \<longrightarrow> b + W \<le> u"
          "g \<le> (if b < t then L * r else L * (1 + r)) + min L (ct_count x)"
        using inv now unfolding window_inv_def by auto
      obtain u where "ct_until x = Some u" "u \<le> now'"
        using None Some by (auto simp: counter_at_def split: option.splits if_splits)
      then have "b < t" using b(2) True by auto
      then have "g \<le> L * r + min L (ct_count x)" using b(3) by simp
      moreover have "min L (ct_count x) \<le> L" by simp
      ultimately show ?thesis unfolding distrib_left by linarith
    qed
    then show ?thesis using inv None le unfolding window_inv_def by simp
  qed
qed (use inv le in \<open>simp add: window_inv_def\<close>)

lemma window_reset:
  assumes inv: "window_inv L W t now c g r" and L: "0 \<le> L"
  shows "window_inv L W t now None g (r + in_window W t now)"
proof -
  have a: "g \<le> L * (2 + r)" "0 \<le> g" "0 \<le> r" "now < t \<longrightarrow> g = 0 \<and> r = 0" using inv by (simp_all add: window_inv_def)
  then have "0 \<le> L * r" "g \<le> L * 2 + L * r" using L by (simp_all add: distrib_left)
  then show ?thesis using a L by (auto simp: window_inv_def in_window_def counter_at_def distrib_left)
qed

text \<open>A hit is granted when it answers a number of at most \<open>L\<close>.\<close>

lemma window_hit:
  assumes inv: "window_inv L W t now c g r" and L: "1 \<le> L" "0 < W" and hit: "incrWithTtl f now W c = (x, c')"
  shows "window_inv L W t now c' (g + (case x of Inr n \<Rightarrow> if n \<le> L then in_window W t now else 0 | Inl e \<Rightarrow> 0)) r"
proof (cases "f = Discarded")
  case True
  then show ?thesis using hit inv by (auto simp: incrWithTtl_def)
next
  case False
  define y where "y = (case counter_at now c of Some y \<Rightarrow> y | None \<Rightarrow> \<lparr>ct_count = 0, ct_until = None\<rparr>)"
  define u where "u = (if f = Dies then ct_until y else Some (coalesce (ct_until y) (now + W)))"
  let ?n = "ct_count y + 1"
  define d where "d = (if f = Dies \<or> L < ?n then 0 else in_window W t now)"
  have c': "c' = Some \<lparr>ct_count = ?n, ct_until = u\<rparr>" and x: "x = (if f = Dies then Inl (http_err 500 '''') else Inr ?n)"
    using hit False by (auto simp: incrWithTtl_def Let_def y_def u_def)
  have base: "0 \<le> g" "0 \<le> r" "g \<le> L * (2 + r)" "now < t \<longrightarrow> g = 0 \<and> r = 0" using inv by (simp_all add: window_inv_def)
  have lr: "0 \<le> L * r" using L base(2) by simp
  have d: "0 \<le> d" "d \<le> 1" "now < t \<or> t + W \<le> now \<Longrightarrow> d = 0" "L < ?n \<Longrightarrow> d = 0" by (auto simp: d_def in_window_def)
  have alive: "counter_at now c' = Some \<lparr>ct_count = ?n, ct_until = u\<rparr>"
    using L(2) by (auto simp: c' counter_at_def u_def y_def coalesce_def split: option.splits if_splits)
  have new: "window_inv L W t now c' (g + d) r"
  proof (cases "now < t + W")
    case False
    then show ?thesis using base d by (simp add: window_inv_def)
  next
    case True
    have "\<exists>b \<le> now. 0 \<le> ct_count y \<and> (\<forall>v. u = Some v \<longrightarrow> b + W \<le> v) \<and> g + d \<le> (if b < t then L * r else L * (1 + r)) + min L ?n"
    proof (cases "counter_at now c")
      case None
      then have y: "y = \<lparr>ct_count = 0, ct_until = None\<rparr>" by (simp add: y_def)
      have "g \<le> L * (1 + r)" using inv None True by (simp add: window_inv_def)
      then show ?thesis using base d(2,3) L lr by (intro exI [of _ now]) (auto simp: y u_def coalesce_def distrib_left)
    next
      case (Some z)
      then have y: "y = z" by (simp add: y_def)
      then obtain b where b: "b \<le> now" "0 \<le> ct_count y" "\<forall>v. ct_until y = Some v \<longrightarrow> b + W \<le> v"
          "g \<le> (if b < t then L * r else L * (1 + r)) + min L (ct_count y)"
        using inv Some True unfolding window_inv_def by auto
      have "\<forall>v. u = Some v \<longrightarrow> b + W \<le> v" using b(1,3) by (auto simp: u_def coalesce_def split: option.splits if_splits)
      moreover have "min L (ct_count y) + d \<le> min L ?n" using d(2,4) by (auto simp: min_def)
      ultimately show ?thesis using b by (intro exI [of _ b]) auto
    qed
    moreover from this have "g + d \<le> L * (2 + r)"
    proof -
      obtain b where "g + d \<le> (if b < t then L * r else L * (1 + r)) + min L ?n" using calculation by blast
      moreover have "min L ?n \<le> L" by simp
      ultimately show ?thesis using L lr by (auto simp: distrib_left split: if_splits)
    qed
    ultimately show ?thesis using base d True by (auto simp: window_inv_def alive)
  qed
  have "(case x of Inr n \<Rightarrow> if n \<le> L then in_window W t now else 0 | Inl e \<Rightarrow> 0) = d" by (auto simp: x d_def)
  then show ?thesis using new by simp
qed

subsection \<open>All interleavings\<close>

text \<open>What happens is written down: requests that pass the rate limit, codes stored, guesses that will be looked at, codes taken, counters reset.\<close>

datatype login_event = Asked otp_key int | Stored otp_key | Granted otp_key int | Won otp_key | Cleared otp_key int

record login_world =
  lw_now :: int
  lw_redis :: otp_redis
  lw_log :: "login_event list"

definition tally :: "(login_event \<Rightarrow> bool) \<Rightarrow> login_world \<Rightarrow> int" where
  "tally p w = int (length (filter p (lw_log w)))"

definition asked_in :: "otp_key \<Rightarrow> int \<Rightarrow> login_event \<Rightarrow> bool" where
  "asked_in k t e = (case e of Asked j u \<Rightarrow> j = k \<and> t \<le> u \<and> u < t + 300000 | _ \<Rightarrow> False)"

definition granted_in :: "otp_key \<Rightarrow> int \<Rightarrow> login_event \<Rightarrow> bool" where
  "granted_in k t e = (case e of Granted j u \<Rightarrow> j = k \<and> t \<le> u \<and> u < t + 300000 | _ \<Rightarrow> False)"

definition cleared_in :: "otp_key \<Rightarrow> int \<Rightarrow> login_event \<Rightarrow> bool" where
  "cleared_in k t e = (case e of Cleared j u \<Rightarrow> j = k \<and> t \<le> u \<and> u < t + 300000 | _ \<Rightarrow> False)"

definition asked_of :: "otp_key \<Rightarrow> login_event \<Rightarrow> bool" where
  "asked_of k e = (case e of Asked j u \<Rightarrow> j = k | _ \<Rightarrow> False)"

definition cleared_of :: "otp_key \<Rightarrow> login_event \<Rightarrow> bool" where
  "cleared_of k e = (case e of Cleared j u \<Rightarrow> j = k | _ \<Rightarrow> False)"

definition happened :: "login_event list \<Rightarrow> otp_redis \<Rightarrow> login_world \<Rightarrow> login_world" where
  "happened es db w = w\<lparr>lw_redis := db, lw_log := lw_log w @ es\<rparr>"

text \<open>
  Each step is one Redis command of some request. A judgement may use any state read earlier and any number; a code is stored once for each
  request that passed the limit, and the counter is reset once for each code taken.
\<close>

inductive login_step :: "(string \<Rightarrow> string) \<Rightarrow> login_world \<Rightarrow> login_world \<Rightarrow> bool" for hash where
  later: "lw_now w \<le> t \<Longrightarrow> login_step hash w (w\<lparr>lw_now := t\<rparr>)"
| rating: "checkRateLimit f (lw_now w) k (lw_redis w) = (x, db) \<Longrightarrow>
    login_step hash w (happened (case x of Inr (True, m) \<Rightarrow> [Asked k (lw_now w)] | _ \<Rightarrow> []) db w)"
| storing: "tally ((=) (Stored k)) w < tally (asked_of k) w \<Longrightarrow>
    login_step hash w (happened [Stored k] (storeOtp hash (lw_now w) k otp (lw_redis w)) w)"
| reading: "login_step hash w (happened [] (snd (open_code (lw_now w) k (lw_redis w))) w)"
| guessing: "count_guess f (lw_now w) k (lw_redis w) = (x, db) \<Longrightarrow>
    login_step hash w (happened (case x of Inr n \<Rightarrow> if n \<le> OTP_MAX_ATTEMPTS then [Granted k (lw_now w)] else [] | Inl e \<Rightarrow> []) db w)"
| judging: "login_step hash w (happened [] (snd (judge_guess hash (lw_now w) k c otp n (lw_redis w))) w)"
| taking: "claim_code (lw_now w) k (lw_redis w) = (won, db) \<Longrightarrow> login_step hash w (happened (if won then [Won k] else []) db w)"
| clearing: "tally (cleared_of k) w < tally ((=) (Won k)) w \<Longrightarrow>
    login_step hash w (happened [Cleared k (lw_now w)] (reset_guesses k (lw_redis w)) w)"

definition fresh_login :: "int \<Rightarrow> login_world" where
  "fresh_login t = \<lparr>lw_now = t, lw_redis = \<lparr>ox_codes = Map.empty, ox_tries = Map.empty, ox_rates = Map.empty, ox_locks = Map.empty\<rparr>, lw_log = []\<rparr>"

definition login_inv :: "otp_key \<Rightarrow> int \<Rightarrow> login_world \<Rightarrow> bool" where
  "login_inv k t w \<longleftrightarrow>
     window_inv 10 300000 t (lw_now w) (ox_tries (lw_redis w) k) (tally (granted_in k t) w) (tally (cleared_in k t) w)
   \<and> window_inv 10 300000 t (lw_now w) (ox_rates (lw_redis w) k) (tally (asked_in k t) w) 0
   \<and> tally ((=) (Stored k)) w \<le> tally (asked_of k) w
   \<and> tally ((=) (Won k)) w + (if ox_codes (lw_redis w) k = None then 0 else 1) \<le> tally ((=) (Stored k)) w
   \<and> tally (cleared_of k) w \<le> tally ((=) (Won k)) w"

lemma tally_happened [simp]: "tally p (happened es db w) = tally p w + int (length (filter p es))" "tally p (w\<lparr>lw_now := t\<rparr>) = tally p w"
  by (simp_all add: tally_def happened_def)

lemma happened_sel [simp]: "lw_now (happened es db w) = lw_now w" "lw_redis (happened es db w) = db"
  by (simp_all add: happened_def)

lemmas event_defs = asked_in_def granted_in_def cleared_in_def asked_of_def cleared_of_def

lemmas otp_limits = OTP_TTL_SECONDS_def OTP_MAX_ATTEMPTS_def OTP_LOCK_DURATION_MINUTES_def OTP_RATE_LIMIT_WINDOW_MINUTES_def OTP_RATE_LIMIT_MAX_REQUESTS_def

lemma rating_keeps:
  assumes "login_inv k t w" "checkRateLimit f (lw_now w) j (lw_redis w) = (x, db)"
  shows "login_inv k t (happened (case x of Inr (True, m) \<Rightarrow> [Asked j (lw_now w)] | _ \<Rightarrow> []) db w)"
proof -
  obtain y c where y: "incrWithTtl f (lw_now w) 300000 (ox_rates (lw_redis w) j) = (y, c)" by (rule prod.exhaust)
  then have x: "x = bind_res y (\<lambda>n. Inr (n \<le> 10, max 0 (10 - n)))" "db = (lw_redis w)\<lparr>ox_rates := (ox_rates (lw_redis w))(j := c)\<rparr>"
    using assms(2) by (auto simp: checkRateLimit_def otp_limits)
  show ?thesis
  proof (cases "j = k")
    case True
    have "window_inv 10 300000 t (lw_now w) c (tally (asked_in k t) w + (case y of Inr n \<Rightarrow> if n \<le> 10 then in_window 300000 t (lw_now w) else 0 | Inl e \<Rightarrow> 0)) 0"
      by (rule window_hit [OF _ _ _ y]) (use assms(1) True in \<open>simp_all add: login_inv_def\<close>)
    then show ?thesis using assms(1) True x
      by (cases y) (auto simp: login_inv_def event_defs in_window_def split: if_splits)
  next
    case False
    then show ?thesis using assms(1) x by (cases y) (auto simp: login_inv_def event_defs)
  qed
qed

lemma guessing_keeps:
  assumes "login_inv k t w" "count_guess f (lw_now w) j (lw_redis w) = (x, db)"
  shows "login_inv k t (happened (case x of Inr n \<Rightarrow> if n \<le> OTP_MAX_ATTEMPTS then [Granted j (lw_now w)] else [] | Inl e \<Rightarrow> []) db w)"
proof -
  obtain c where y: "incrWithTtl f (lw_now w) 300000 (ox_tries (lw_redis w) j) = (x, c)" and db: "db = (lw_redis w)\<lparr>ox_tries := (ox_tries (lw_redis w))(j := c)\<rparr>"
    using assms(2) by (auto simp: count_guess_def otp_limits split: prod.splits)
  show ?thesis
  proof (cases "j = k")
    case True
    have "window_inv 10 300000 t (lw_now w) c (tally (granted_in k t) w + (case x of Inr n \<Rightarrow> if n \<le> 10 then in_window 300000 t (lw_now w) else 0 | Inl e \<Rightarrow> 0)) (tally (cleared_in k t) w)"
      by (rule window_hit [OF _ _ _ y]) (use assms(1) True in \<open>simp_all add: login_inv_def\<close>)
    then show ?thesis using assms(1) True db
      by (cases x) (auto simp: login_inv_def event_defs in_window_def otp_limits split: if_splits)
  next
    case False
    then show ?thesis using assms(1) db by (cases x) (auto simp: login_inv_def event_defs)
  qed
qed

lemma clearing_keeps:
  assumes inv: "login_inv k t w" and more: "tally (cleared_of j) w < tally ((=) (Won j)) w"
  shows "login_inv k t (happened [Cleared j (lw_now w)] (reset_guesses j (lw_redis w)) w)"
proof (cases "j = k")
  case True
  have "window_inv 10 300000 t (lw_now w) None (tally (granted_in k t) w) (tally (cleared_in k t) w + in_window 300000 t (lw_now w))"
    by (rule window_reset [where c = "ox_tries (lw_redis w) k"]) (use inv in \<open>simp_all add: login_inv_def\<close>)
  then show ?thesis using inv more True by (auto simp: login_inv_def event_defs reset_guesses_def in_window_def split: if_splits)
qed (use inv in \<open>simp add: login_inv_def event_defs reset_guesses_def\<close>)

lemma login_step_inv: "login_step hash w w' \<Longrightarrow> login_inv k t w \<Longrightarrow> login_inv k t w'"
proof (induction rule: login_step.induct)
  case (later w t')
  then show ?case using window_later [OF _ later(1)] by (simp add: login_inv_def)
next
  case (rating f w j x db)
  then show ?case by (rule rating_keeps [rotated])
next
  case (storing j w otp)
  then show ?case by (auto simp: login_inv_def event_defs storeOtp_def split: if_splits)
next
  case (reading w j)
  then show ?case by (auto simp: login_inv_def open_code_def split: option.split if_splits)
next
  case (guessing f w j x db)
  then show ?case by (rule guessing_keeps [rotated])
next
  case (judging w j c otp n)
  then show ?case by (auto simp: login_inv_def judge_guess_def lock_otp_def)
next
  case (taking w j won db)
  then show ?case by (auto simp: login_inv_def event_defs claim_code_def code_at_def split: if_splits option.splits)
next
  case (clearing j w)
  then show ?case by (rule clearing_keeps [rotated])
qed

lemma fresh_login_inv: "login_inv k t (fresh_login t0)"
  by (simp add: login_inv_def fresh_login_def tally_def window_empty)

text \<open>
  C23. Codes cannot be guessed by trying. Over every interleaving of Redis commands and processes that die, in any five minutes at most twenty requests of
  a phone pass the limit and at most twenty guesses are compared with a code, and ten more for each sign-in; a guess beyond the tenth
  of a window is refused without being looked at. There are no more sign-ins than codes were stored, nor codes than requests allowed.
\<close>

theorem login_guesses_bounded:
  assumes "(login_step hash)\<^sup>*\<^sup>* (fresh_login t0) w"
  shows "tally (asked_in k t) w \<le> 20 \<and> tally (granted_in k t) w \<le> 20 + 10 * tally (cleared_in k t) w
    \<and> tally (cleared_of k) w \<le> tally ((=) (Won k)) w \<and> tally ((=) (Won k)) w \<le> tally ((=) (Stored k)) w
    \<and> tally ((=) (Stored k)) w \<le> tally (asked_of k) w
    \<and> (\<forall>n c otp. OTP_MAX_ATTEMPTS < n \<longrightarrow> fst (judge_guess hash (lw_now w) k c otp n (lw_redis w)) = Some OtpLocked)"
proof -
  have "login_inv k t w"
    using assms by (induction rule: rtranclp_induct) (auto intro: fresh_login_inv login_step_inv)
  then show ?thesis by (auto simp: login_inv_def window_inv_def judge_guess_def split: if_splits)
qed

lemma login_guesses_bounded_witness:
  "\<exists>w. (login_step id)\<^sup>*\<^sup>* (fresh_login 0) w \<and> tally (asked_in (''1'', UserRole) 0) w = 1 \<and> tally (granted_in (''1'', UserRole) 0) w = 1
     \<and> tally (granted_in (''1'', UserRole) 0) w \<le> 20 + 10 * tally (cleared_in (''1'', UserRole) 0) w
     \<and> tally ((=) (Won (''1'', UserRole))) w \<le> tally ((=) (Stored (''1'', UserRole))) w"
proof -
  let ?k = "(''1'', UserRole)" and ?w = "fresh_login 0"
  obtain x db where r: "checkRateLimit Fine 0 ?k (lw_redis ?w) = (x, db)" by (rule prod.exhaust)
  have x: "x = Inr (True, 9)" using r by (auto simp: checkRateLimit_def incrWithTtl_def fresh_login_def counter_at_def otp_limits)
  let ?w1 = "happened [Asked ?k 0] db ?w"
  have s1: "login_step id ?w ?w1"
    using login_step.rating [of Fine ?w ?k x db id] r x by (simp add: fresh_login_def)
  obtain y db2 where g: "count_guess Fine 0 ?k (lw_redis ?w1) = (y, db2)" by (rule prod.exhaust)
  have tries: "ox_tries (lw_redis ?w1) ?k = None" using r by (auto simp: checkRateLimit_def incrWithTtl_def fresh_login_def split: prod.splits)
  have y: "y = Inr 1" using g tries by (auto simp: count_guess_def incrWithTtl_def counter_at_def)
  let ?w2 = "happened [Granted ?k 0] db2 ?w1"
  have s2: "login_step id ?w1 ?w2"
    using login_step.guessing [of Fine ?w1 ?k y db2 id] g y by (simp add: fresh_login_def otp_limits)
  have run: "(login_step id)\<^sup>*\<^sup>* ?w ?w2" using s1 s2 by (simp add: converse_rtranclp_into_rtranclp)
  have "tally (asked_in ?k 0) ?w2 = 1" "tally (granted_in ?k 0) ?w2 = 1"
    by (simp_all add: tally_def happened_def fresh_login_def event_defs)
  then show ?thesis using login_guesses_bounded [OF run, of ?k 0] run by blast
qed

subsection \<open>One guess alone\<close>

text \<open>When a sign-in succeeds, and what is left: the code is gone, and the guesses are forgotten.\<close>

lemma sign_in_iff:
  "fst (consumeOtp hash Fine now k otp db) = Inr OtpSuccess \<longleftrightarrow> \<not> isVerifyLocked now k db
     \<and> (\<exists>c. code_at now k db = Some c \<and> now < cs_expires c \<and> hash otp = cs_hash c)
     \<and> (case counter_at now (ox_tries db k) of Some x \<Rightarrow> ct_count x | None \<Rightarrow> 0) < 10"
proof (cases "code_at now k db")
  case None
  then show ?thesis by (simp add: consumeOtp_def open_code_def)
next
  case (Some c)
  have same: "code_at now k (db\<lparr>ox_tries := m\<rparr>) = code_at now k db" for m by (simp add: code_at_def)
  show ?thesis
    using Some by (auto simp: consumeOtp_def open_code_def count_guess_def incrWithTtl_def judge_guess_def claim_code_def same otp_limits Let_def
        split: option.splits)
qed

lemma signed_in_once:
  assumes "consumeOtp hash f now k otp db = (Inr OtpSuccess, db')"
  shows "fst (consumeOtp hash f' now' k otp' db') = Inr OtpExpired \<or> fst (consumeOtp hash f' now' k otp' db') = Inr OtpLocked"
proof -
  have "ox_codes db' k = None"
    using assms by (auto simp: consumeOtp_def claim_code_def reset_guesses_def open_code_def judge_guess_def
        split: sum.splits option.splits prod.splits bool.splits if_splits)
  then show ?thesis by (simp add: consumeOtp_def open_code_def code_at_def)
qed

end
