(* ===== verification/JSNum.thy ===== *)
theory JSNum
  imports Prelude
begin

text \<open>
  JavaScript numbers and PostgreSQL \<open>NUMERIC(_, 2)\<close> columns. A finite JavaScript number is the
  rational it denotes; every arithmetic operation of the code is followed by \<open>fl\<close>, the IEEE
  rounding to binary64 (53-bit significand, ties to even). The exponent range is not bounded,
  so overflow to infinity, subnormals, negative zero and NaN are outside the model: where the
  code tests for them the model takes an \<open>option\<close>. Money columns are integers of paise;
  \<open>from_paise\<close> is \<open>parseFloat\<close> of such a column and \<open>to_paise\<close> is what the column holds after a
  JavaScript number was bound to it (printed shortest, then rounded by the cast).
\<close>

type_synonym num = rat
type_synonym paise = int

subsection \<open>Rounding to binary64\<close>

text \<open>The number of base-\<open>b\<close> digits of a non-negative integer.\<close>

function digits_of :: "int \<Rightarrow> int \<Rightarrow> int" where
  "digits_of b x = (if 1 < b \<and> 0 < x then 1 + digits_of b (x div b) else 0)"
  by pat_completeness auto
termination
  by (relation "measure (\<lambda>(b, x). nat x)") (auto simp: int_div_less_self)

declare digits_of.simps [simp del]

text \<open>The \<open>e\<close> with \<open>b ^ e \<le> x < b ^ (e + 1)\<close>, for positive \<open>x\<close>.\<close>

definition iexpo :: "int \<Rightarrow> rat \<Rightarrow> int" where
  "iexpo b x = (if 1 \<le> x then digits_of b \<lfloor>x\<rfloor> - 1 else - digits_of b (\<lceil>1 / x\<rceil> - 1))"

text \<open>Round to an integer, ties to even.\<close>

definition rne :: "rat \<Rightarrow> int" where
  "rne y =
     (let f = \<lfloor>y\<rfloor>; d = y - of_int f
      in if d < 1 / 2 then f else if 1 / 2 < d then f + 1 else if even f then f else f + 1)"

definition ulp :: "rat \<Rightarrow> rat" where
  "ulp x = 2 powi (iexpo 2 \<bar>x\<bar> - 52)"

definition fl :: "rat \<Rightarrow> num" where
  "fl x = (if x = 0 then 0 else of_int (rne (x / ulp x)) * ulp x)"

definition fadd :: "num \<Rightarrow> num \<Rightarrow> num" where "fadd a b = fl (a + b)"
definition fsub :: "num \<Rightarrow> num \<Rightarrow> num" where "fsub a b = fl (a - b)"
definition fmul :: "num \<Rightarrow> num \<Rightarrow> num" where "fmul a b = fl (a * b)"
definition fdiv :: "num \<Rightarrow> num \<Rightarrow> num" where "fdiv a b = fl (a / b)"

text \<open>\<open>Math.round\<close>: nearest integer, ties towards plus infinity.\<close>

definition js_round :: "num \<Rightarrow> int" where
  "js_round x = \<lfloor>x + 1 / 2\<rfloor>"

subsection \<open>Decimal conversions\<close>

text \<open>\<open>Number.prototype.toPrecision(n)\<close>, as the decimal it prints.\<close>

definition to_precision :: "nat \<Rightarrow> num \<Rightarrow> rat" where
  "to_precision n x =
     (if x = 0 then 0
      else let s = 10 powi (iexpo 10 \<bar>x\<bar> - (int n - 1))
           in sgn x * (of_int \<lfloor>\<bar>x\<bar> / s + 1 / 2\<rfloor> * s))"

text \<open>\<open>String(x)\<close>: the shortest decimal that reads back as \<open>x\<close> (17 digits always do).\<close>

definition js_decimal :: "num \<Rightarrow> rat" where
  "js_decimal x =
     (case find (\<lambda>n. fl (to_precision n x) = x) [1..<18] of
        Some n \<Rightarrow> to_precision n x | None \<Rightarrow> x)"

text \<open>PostgreSQL rounds a numeric half away from zero.\<close>

definition round_away :: "rat \<Rightarrow> int" where
  "round_away y = (if 0 \<le> y then \<lfloor>y + 1 / 2\<rfloor> else - \<lfloor>- y + 1 / 2\<rfloor>)"

definition from_paise :: "paise \<Rightarrow> num" where
  "from_paise k = fl (of_int k / 100)"

definition to_paise :: "num \<Rightarrow> paise" where
  "to_paise x = round_away (100 * js_decimal x)"

subsection \<open>Exponents\<close>

lemma digits_of_bounds:
  assumes "1 < b"
  shows "0 < x \<Longrightarrow> 0 < digits_of b x \<and> of_int b powi (digits_of b x - 1) \<le> (of_int x :: rat)
           \<and> of_int x + 1 \<le> (of_int b :: rat) powi digits_of b x"
  using assms
proof (induction b x rule: digits_of.induct)
  case (1 b x)
  let ?r = "of_int :: int \<Rightarrow> rat"
  have eq: "digits_of b x = 1 + digits_of b (x div b)"
    using "1.prems" by (simp add: digits_of.simps [of b x])
  have b0: "?r b \<noteq> 0" "0 < ?r b" using "1.prems" by auto
  have x: "x = b * (x div b) + x mod b" and m: "0 \<le> x mod b" "x mod b < b" using "1.prems" by auto
  show ?case
  proof (cases "0 < x div b")
    case True
    with 1 have IH: "0 < digits_of b (x div b)" "?r b powi (digits_of b (x div b) - 1) \<le> ?r (x div b)"
        "?r (x div b) + 1 \<le> ?r b powi digits_of b (x div b)" by auto
    let ?d = "digits_of b (x div b)"
    have "b * (x div b) \<le> x" using x m by linarith
    then have le: "?r b * ?r (x div b) \<le> ?r x" by (metis of_int_le_iff of_int_mult)
    have "?r b powi ?d = ?r b * ?r b powi (?d - 1)"
      using b0 power_int_add [of "?r b" 1 "?d - 1"] by simp
    also have "\<dots> \<le> ?r b * ?r (x div b)" using IH(2) b0 by (intro mult_left_mono) auto
    finally have lo: "?r b powi (digits_of b x - 1) \<le> ?r x" using le by (simp add: eq)
    have "x + 1 \<le> b * (x div b + 1)" using x m unfolding distrib_left by linarith
    then have "?r x + 1 \<le> ?r b * (?r (x div b) + 1)"
      by (metis of_int_1 of_int_add of_int_le_iff of_int_mult)
    also have "\<dots> \<le> ?r b * ?r b powi ?d" using IH(3) b0 by (intro mult_left_mono) auto
    also have "\<dots> = ?r b powi digits_of b x" using b0 eq power_int_add [of "?r b" 1 ?d] by simp
    finally show ?thesis using lo IH(1) eq by simp
  next
    case False
    then have d0: "digits_of b (x div b) = 0" by (simp add: digits_of.simps [of b "x div b"])
    from False "1.prems" have "x < b" using pos_imp_zdiv_pos_iff [of b x] by linarith
    then have "?r (x + 1) \<le> ?r b" by (simp only: of_int_le_iff)
    with "1.prems" d0 eq show ?thesis by simp
  qed
qed

lemma iexpo_bounds:
  assumes x: "0 < x" and b: "1 < b"
  shows "of_int b powi iexpo b x \<le> x \<and> x < of_int b powi (iexpo b x + 1)"
proof (cases "1 \<le> x")
  case True
  then have "0 < \<lfloor>x\<rfloor>" by simp
  from digits_of_bounds [OF b this] True show ?thesis
    unfolding iexpo_def using floor_correct [of x] by (auto intro: order_trans)
next
  case False
  with x have inv: "1 < 1 / x" by simp
  define m where "m = \<lceil>1 / x\<rceil> - 1"
  have m: "0 < m" using inv by (simp add: m_def)
  let ?k = "digits_of b m"
  have bpos: "0 < (of_int b :: rat)" using b by simp
  have e: "iexpo b x = - ?k" using False by (simp add: iexpo_def m_def)
  have lt: "of_int m < 1 / x" and le: "1 / x \<le> of_int m + 1" unfolding m_def by (simp_all; linarith)+
  have up: "1 / x \<le> of_int b powi ?k" and low: "of_int b powi (?k - 1) < 1 / x"
    using digits_of_bounds [OF b m] lt le by linarith+
  from up x bpos have "of_int b powi (- ?k) \<le> x"
    by (simp add: power_int_minus divide_simps) (simp add: mult.commute)
  moreover from low x bpos have "x < 1 / of_int b powi (?k - 1)"
    by (simp add: field_simps)
  then have "x < of_int b powi (- ?k + 1)"
    using bpos by (simp add: power_int_minus [symmetric] divide_inverse algebra_simps)
  ultimately show ?thesis by (simp add: e)
qed

lemma iexpo_le_iff:
  assumes x: "0 < x" and b: "1 < b"
  shows "of_int b powi k \<le> x \<longleftrightarrow> k \<le> iexpo b x"
proof
  have b1: "1 < (of_int b :: rat)" using b by simp
  assume "of_int b powi k \<le> x"
  also have "x < of_int b powi (iexpo b x + 1)" using iexpo_bounds [OF x b] ..
  finally have "k < iexpo b x + 1"
    using b1 by (meson less_imp_le not_le power_int_increasing)
  then show "k \<le> iexpo b x" by simp
next
  assume "k \<le> iexpo b x"
  then have "of_int b powi k \<le> (of_int b powi iexpo b x :: rat)"
    using b by (intro power_int_increasing) auto
  also have "\<dots> \<le> x" using iexpo_bounds [OF x b] ..
  finally show "of_int b powi k \<le> x" .
qed

lemma iexpo_mono: "0 < x \<Longrightarrow> x \<le> y \<Longrightarrow> 1 < b \<Longrightarrow> iexpo b x \<le> iexpo b y"
  using iexpo_le_iff [of y b "iexpo b x"] iexpo_bounds [of x b] by fastforce

lemma powi2_pos [simp]: "0 < (2 :: rat) powi k"
  by simp

lemma ulp_pos [simp]: "0 < ulp x"
  by (simp add: ulp_def)

lemma ulp_nonzero [simp]: "ulp x \<noteq> 0"
  using ulp_pos [of x] by linarith

lemma ulp_minus [simp]: "ulp (- x) = ulp x"
  by (simp add: ulp_def)

lemma scaled_bounds:
  assumes "0 < x"
  shows "2 ^ 52 \<le> x / ulp x" and "x / ulp x < 2 ^ 53"
proof -
  let ?e = "iexpo 2 x"
  have b: "2 powi ?e \<le> x" "x < 2 powi (?e + 1)"
    using iexpo_bounds [of x 2] assms by auto
  have u: "ulp x = 2 powi (?e - 52)" using assms by (simp add: ulp_def)
  have "2 ^ 52 * ulp x = (2 :: rat) powi (52 + (?e - 52))"
    unfolding u by (subst power_int_add) auto
  with b(1) show "2 ^ 52 \<le> x / ulp x"
    by (simp add: le_divide_eq)
  have "2 ^ 53 * ulp x = (2 :: rat) powi (53 + (?e - 52))"
    unfolding u by (subst power_int_add) auto
  with b(2) show "x / ulp x < 2 ^ 53"
    by (simp add: divide_less_eq add.commute)
qed

subsection \<open>Rounding to an integer\<close>

lemma rne_near: "\<bar>of_int (rne y) - y\<bar> \<le> 1 / 2"
proof -
  have "of_int \<lfloor>y\<rfloor> \<le> y" "y < of_int \<lfloor>y\<rfloor> + 1" by linarith+
  then show ?thesis unfolding rne_def Let_def by (auto simp: abs_le_iff)
qed

lemma rne_of_int [simp]: "rne (of_int k) = k"
  by (simp add: rne_def)

lemma rne_mono: "x \<le> y \<Longrightarrow> rne x \<le> rne y"
proof -
  assume le: "x \<le> y"
  then have f: "\<lfloor>x\<rfloor> \<le> \<lfloor>y\<rfloor>" by (rule floor_mono)
  have up: "rne x \<le> \<lfloor>x\<rfloor> + 1" and lo: "\<lfloor>y\<rfloor> \<le> rne y" by (auto simp: rne_def Let_def)
  show ?thesis
  proof (cases "\<lfloor>x\<rfloor> = \<lfloor>y\<rfloor>")
    case True
    with le show ?thesis by (auto simp: rne_def Let_def)
  next
    case False
    with f up lo show ?thesis by linarith
  qed
qed

lemma rne_minus: "rne (- y) = - rne y"
proof (cases "y \<in> \<int>")
  case True
  then obtain k where "y = of_int k" by (auto elim: Ints_cases)
  then show ?thesis using rne_of_int [of "- k"] by simp
next
  case False
  have ne: "y \<noteq> of_int \<lfloor>y\<rfloor>" using False by (metis Ints_of_int)
  have "of_int \<lfloor>y\<rfloor> \<le> y" "y < of_int \<lfloor>y\<rfloor> + 1" by linarith+
  with ne have "of_int \<lfloor>y\<rfloor> < y" by linarith
  with \<open>y < of_int \<lfloor>y\<rfloor> + 1\<close> have fl: "\<lfloor>- y\<rfloor> = - \<lfloor>y\<rfloor> - 1" by (intro floor_unique) auto
  show ?thesis
    unfolding rne_def fl Let_def by (auto simp: even_minus)
qed

subsection \<open>Binary64 rounding\<close>

lemma fl_0 [simp]: "fl 0 = 0"
  by (simp add: fl_def)

lemma fl_minus: "fl (- x) = - fl x"
  by (simp add: fl_def rne_minus)

text \<open>The rounding error is at most half a unit in the last place.\<close>

lemma fl_error: "\<bar>fl x - x\<bar> \<le> \<bar>x\<bar> / 2 ^ 53"
proof (cases "x = 0")
  case False
  have "fl x - x = (of_int (rne (x / ulp x)) - x / ulp x) * ulp x"
    using False by (simp add: fl_def algebra_simps)
  then have "\<bar>fl x - x\<bar> = \<bar>of_int (rne (x / ulp x)) - x / ulp x\<bar> * ulp x"
    by (simp add: abs_mult less_imp_le)
  also have "\<dots> \<le> 1 / 2 * ulp x"
    using rne_near [of "x / ulp x"] by (intro mult_right_mono) (auto simp: less_imp_le)
  also have "\<dots> \<le> \<bar>x\<bar> / 2 ^ 53"
  proof -
    have "2 ^ 52 \<le> \<bar>x\<bar> / ulp \<bar>x\<bar>" using False by (intro scaled_bounds) auto
    then have "2 ^ 52 * ulp \<bar>x\<bar> \<le> \<bar>x\<bar>" by (simp add: le_divide_eq)
    moreover have "ulp \<bar>x\<bar> = ulp x" by (simp add: ulp_def)
    ultimately show ?thesis by simp
  qed
  finally show ?thesis .
qed simp

text \<open>Numbers with a 53-bit significand are exact, integers up to \<open>2 ^ 53\<close> among them.\<close>

lemma fl_exact:
  assumes m: "\<bar>m\<bar> \<le> 2 ^ 53"
  shows "fl (of_int m * 2 powi k) = of_int m * 2 powi k"
proof (cases "m = 0")
  case False
  define x where "x = (of_int m * 2 powi k :: rat)"
  have ax: "\<bar>x\<bar> = of_int \<bar>m\<bar> * 2 powi k" by (simp add: x_def abs_mult)
  have pos: "0 < \<bar>x\<bar>" using False by (simp add: ax)
  let ?e = "iexpo 2 \<bar>x\<bar>"
  have b: "2 powi ?e \<le> \<bar>x\<bar>" using iexpo_bounds [OF pos, of 2] by simp
  have "\<exists>j. x / ulp x = of_int j"
  proof (cases "\<bar>m\<bar> = 2 ^ 53")
    case True
    have "(2 :: rat) powi (53 + k) = 2 ^ 53 * 2 powi k" by (subst power_int_add) auto
    then have "\<bar>x\<bar> = 2 powi (53 + k)" by (simp add: ax True)
    moreover have "?e = 53 + k"
    proof (rule antisym)
      show "53 + k \<le> ?e" using iexpo_le_iff [OF pos, of 2 "53 + k"] calculation by simp
      have "(2 :: rat) powi ?e \<le> 2 powi (53 + k)" using b calculation by simp
      then show "?e \<le> 53 + k" using power_int_strict_increasing [of "53 + k" ?e "2 :: rat"] by fastforce
    qed
    then have "ulp x = 2 powi (1 + k)" by (simp add: ulp_def add.commute)
    then have "ulp x = 2 * 2 powi k" by (simp add: power_int_add)
    then have "x / ulp x = of_int m / 2" by (simp add: x_def)
    moreover have "m = 2 ^ 53 \<or> m = - (2 ^ 53)" using True by linarith
    then have "m = 2 * (m div 2)" by auto
    ultimately show ?thesis by (metis of_int_mult of_int_numeral nonzero_mult_div_cancel_left zero_neq_numeral)
  next
    case False
    then have "\<bar>m\<bar> < 2 ^ 53" using m by simp
    then have "(of_int \<bar>m\<bar> :: rat) < 2 ^ 53" by (metis of_int_less_iff of_int_numeral of_int_power)
    then have "\<bar>x\<bar> < 2 ^ 53 * 2 powi k" unfolding ax by (intro mult_strict_right_mono) auto
    also have "\<dots> = 2 powi (53 + k)" by (subst power_int_add) auto
    finally have "2 powi ?e < (2 :: rat) powi (53 + k)" using b by linarith
    then have "?e < 53 + k" using power_int_increasing [of "53 + k" ?e "2 :: rat"] by fastforce
    then have "0 \<le> k - (?e - 52)" by simp
    then obtain n where n: "k - (?e - 52) = int n" using zero_le_imp_eq_int by blast
    then have "k = int n + (?e - 52)" by simp
    then have "(2 :: rat) powi k = 2 powi (int n + (?e - 52))" by (rule arg_cong)
    then have "(2 :: rat) powi k = 2 ^ n * ulp x" by (simp add: power_int_add ulp_def)
    then have "x = of_int m * 2 ^ n * ulp x" by (simp only: x_def mult.assoc)
    then have "x / ulp x = of_int (m * 2 ^ n)" by (simp add: nonzero_divide_eq_eq)
    then show ?thesis ..
  qed
  then obtain j where j: "x / ulp x = of_int j" ..
  then have "fl x = of_int j * ulp x" using pos by (auto simp: fl_def)
  also have "\<dots> = x" using j by (metis nonzero_eq_divide_eq ulp_nonzero)
  finally show ?thesis unfolding x_def .
qed simp

lemma fl_int: "\<bar>k\<bar> \<le> 2 ^ 53 \<Longrightarrow> fl (of_int k) = of_int k"
  using fl_exact [of k 0] by simp

lemma fl_one [simp]: "fl 1 = 1"
  using fl_int [of 1] by simp

lemma fl_idem: "fl (fl x) = fl x"
proof (cases "x = 0")
  case False
  have "\<bar>rne (x / ulp x)\<bar> \<le> 2 ^ 53"
  proof -
    have "\<bar>x / ulp x\<bar> = \<bar>x\<bar> / ulp \<bar>x\<bar>" by (simp add: ulp_def abs_divide)
    also have "\<dots> < 2 ^ 53" using False by (intro scaled_bounds) auto
    finally have "\<bar>x / ulp x\<bar> < 2 ^ 53" .
    then have "x / ulp x \<le> of_int (2 ^ 53)" "of_int (- (2 ^ 53)) \<le> x / ulp x"
      by (simp_all only: abs_less_iff of_int_minus of_int_power of_int_numeral) linarith+
    from this [THEN rne_mono] show ?thesis unfolding rne_of_int by linarith
  qed
  from fl_exact [OF this] False show ?thesis by (simp add: fl_def ulp_def)
qed simp


lemma fl_nonneg: "0 \<le> x \<Longrightarrow> 0 \<le> fl x"
proof (cases "x = 0")
  case False
  assume "0 \<le> x"
  with False have "0 \<le> x / ulp x" by (simp add: less_imp_le)
  then have "0 \<le> rne (x / ulp x)" using rne_mono [of 0 "x / ulp x"] rne_of_int [of 0] by simp
  with False show ?thesis by (simp add: fl_def less_imp_le)
qed simp

lemma fl_mono_pos:
  assumes x: "0 < x" and le: "x \<le> y"
  shows "fl x \<le> fl y"
proof -
  have y: "0 < y" using assms by simp
  let ?a = "iexpo 2 x" and ?b = "iexpo 2 y"
  have ab: "?a \<le> ?b" by (rule iexpo_mono [OF x le]) simp
  have ux: "ulp x = 2 powi (?a - 52)" and uy: "ulp y = 2 powi (?b - 52)"
    using x y by (simp_all add: ulp_def)
  show ?thesis
  proof (cases "?a = ?b")
    case True
    then have u: "ulp x = ulp y" by (simp add: ux uy)
    have "x / ulp x \<le> y / ulp x" using le by (simp add: divide_right_mono less_imp_le)
    then have "rne (x / ulp x) \<le> rne (y / ulp y)" unfolding u by (rule rne_mono)
    then have "(of_int (rne (x / ulp x)) :: rat) \<le> of_int (rne (y / ulp y))" by simp
    then have "of_int (rne (x / ulp x)) * ulp x \<le> of_int (rne (y / ulp y)) * ulp x"
      by (intro mult_right_mono) (simp_all add: less_imp_le)
    with x y u show ?thesis by (simp add: fl_def)
  next
    case False
    with ab have lt: "?a + 1 \<le> ?b" by simp
    have "x / ulp x \<le> of_int (2 ^ 53)" "of_int (2 ^ 52) \<le> y / ulp y"
      using scaled_bounds [OF x] scaled_bounds [OF y] by simp_all
    from this [THEN rne_mono] have r: "rne (x / ulp x) \<le> 2 ^ 53" "2 ^ 52 \<le> rne (y / ulp y)"
      unfolding rne_of_int .
    have "fl x \<le> 2 ^ 53 * ulp x"
      using r(1) x of_int_le_iff [of "rne (x / ulp x)" "2 ^ 53", where 'a = rat]
      by (auto simp: fl_def intro!: mult_right_mono less_imp_le)
    also have "\<dots> = 2 powi (?a + 1)"
      unfolding ux using power_int_add [of "2 :: rat" 53 "?a - 52"] by (simp add: add.commute)
    also have "\<dots> \<le> 2 powi ?b" using lt by (intro power_int_increasing) auto
    also have "\<dots> = 2 ^ 52 * ulp y"
      unfolding uy using power_int_add [of "2 :: rat" 52 "?b - 52"] by (simp add: add.commute)
    also have "\<dots> \<le> fl y"
      using r(2) y of_int_le_iff [of "2 ^ 52" "rne (y / ulp y)", where 'a = rat]
      by (auto simp: fl_def intro!: mult_right_mono less_imp_le)
    finally show ?thesis .
  qed
qed

lemma fl_mono: "x \<le> y \<Longrightarrow> fl x \<le> fl y"
proof -
  assume le: "x \<le> y"
  consider "0 < x" | "x \<le> 0" "0 \<le> y" | "y < 0" by linarith
  then show ?thesis
  proof cases
    case 1
    then show ?thesis using le by (rule fl_mono_pos)
  next
    case 2
    from fl_nonneg [of "- x"] fl_nonneg [of y] 2 show ?thesis by (simp add: fl_minus)
  next
    case 3
    from fl_mono_pos [of "- y" "- x"] 3 le show ?thesis by (simp add: fl_minus)
  qed
qed

lemma fl_nonpos: "x \<le> 0 \<Longrightarrow> fl x \<le> 0"
  using fl_mono [of x 0] by simp

lemma fl_eq_0 [simp]: "fl x = 0 \<longleftrightarrow> x = 0"
proof
  assume "fl x = 0"
  with fl_error [of x] show "x = 0" by (cases "x = 0") (auto simp: field_simps)
qed simp

lemma fl_pos: "0 < x \<Longrightarrow> 0 < fl x"
  using fl_nonneg [of x] fl_eq_0 [of x] by linarith

subsection \<open>Math.round\<close>

lemma js_round_mono: "x \<le> y \<Longrightarrow> js_round x \<le> js_round y"
  unfolding js_round_def by (intro floor_mono) simp

lemma js_round_near: "\<bar>y - of_int k\<bar> < 1 / 2 \<Longrightarrow> js_round y = k"
  unfolding js_round_def by (intro floor_unique) linarith+

lemma js_round_of_int [simp]: "js_round (of_int k) = k"
  by (intro js_round_near) simp

lemma js_round_0 [simp]: "js_round 0 = 0"
  using js_round_of_int [of 0] by simp

lemma js_round_nonneg: "0 \<le> x \<Longrightarrow> 0 \<le> js_round x"
  using js_round_mono [of 0 x] by simp

lemma js_round_error: "\<bar>of_int (js_round x) - x\<bar> \<le> 1 / 2"
  unfolding js_round_def by linarith

lemma round_away_near: "\<bar>y - of_int k\<bar> < 1 / 2 \<Longrightarrow> round_away y = k"
proof -
  assume a: "\<bar>y - of_int k\<bar> < 1 / 2"
  have "\<lfloor>y + 1 / 2\<rfloor> = k" using a by (intro floor_unique; linarith)
  moreover have "\<lfloor>- y + 1 / 2\<rfloor> = - k" using a unfolding of_int_minus by (intro floor_unique; linarith)
  ultimately show ?thesis by (simp add: round_away_def)
qed


subsection \<open>Amounts in rupees and paise\<close>

text \<open>
  The code's idiom \<open>Math.round(x * 100) / 100\<close> (\<open>round2\<close> of \<open>lib/fare.ts\<close>, inlined in the
  wallet code).
\<close>

definition round2 :: "num \<Rightarrow> num" where
  "round2 n = fdiv (of_int (js_round (fmul n 100))) 100"

text \<open>
  Amounts up to \<open>10 ^ 12\<close> rupees, far beyond what a \<open>NUMERIC(12, 2)\<close> column holds: within this
  range adding, subtracting and re-rounding amounts in binary64 is exact in paise.
\<close>

definition paise_ok :: "paise \<Rightarrow> bool" where
  "paise_ok k \<longleftrightarrow> \<bar>k\<bar> \<le> 10 ^ 14"

lemma round2_from_paise: "round2 x = from_paise (js_round (fmul x 100))"
  by (simp add: round2_def from_paise_def fdiv_def)

lemma from_paise_0 [simp]: "from_paise 0 = 0"
  by (simp add: from_paise_def)

lemma from_paise_eq_0 [simp]: "from_paise k = 0 \<longleftrightarrow> k = 0"
  by (simp add: from_paise_def)

lemma from_paise_mono: "j \<le> k \<Longrightarrow> from_paise j \<le> from_paise k"
  unfolding from_paise_def by (intro fl_mono) (simp add: divide_right_mono)

lemma from_paise_nonneg: "0 \<le> k \<Longrightarrow> 0 \<le> from_paise k"
  using from_paise_mono [of 0 k] by simp

lemma from_paise_minus: "from_paise (- k) = - from_paise k"
  using fl_minus [of "of_int k / 100"] by (simp add: from_paise_def)

lemma from_paise_error:
  assumes "paise_ok k"
  shows "\<bar>from_paise k - of_int k / 100\<bar> \<le> 1 / 8000"
proof -
  have "\<bar>of_int k / 100 :: rat\<bar> \<le> 10 ^ 12"
    using assms of_int_le_iff [of "\<bar>k\<bar>" "10 ^ 14", where 'a = rat] by (simp add: paise_ok_def)
  with fl_error [of "of_int k / 100"] show ?thesis unfolding from_paise_def by simp
qed

lemma cents_near:
  assumes x: "\<bar>x - of_int k / 100\<bar> \<le> 1 / 1000" and k: "paise_ok k"
  shows "js_round (fmul x 100) = k"
proof (rule js_round_near)
  have "\<bar>of_int k :: rat\<bar> \<le> 10 ^ 14"
    using k of_int_le_iff [of "\<bar>k\<bar>" "10 ^ 14", where 'a = rat] by (simp add: paise_ok_def)
  moreover have d: "\<bar>x * 100 - of_int k\<bar> \<le> 1 / 10" using x by linarith
  ultimately have "\<bar>x * 100\<bar> \<le> 10 ^ 14 + 1" by linarith
  with fl_error [of "x * 100"] have "\<bar>fmul x 100 - x * 100\<bar> \<le> 1 / 10" unfolding fmul_def by simp
  with d show "\<bar>fmul x 100 - of_int k\<bar> < 1 / 2" by linarith
qed

lemma round2_near: "\<bar>x - of_int k / 100\<bar> \<le> 1 / 1000 \<Longrightarrow> paise_ok k \<Longrightarrow> round2 x = from_paise k"
  by (simp add: round2_from_paise cents_near)

lemma round2_paise [money_simps]: "paise_ok k \<Longrightarrow> round2 (from_paise k) = from_paise k"
  using from_paise_error [of k] by (intro round2_near) auto

lemma fadd_paise_near:
  assumes "paise_ok a" "paise_ok b" "paise_ok (a + b)"
  shows "\<bar>fadd (from_paise a) (from_paise b) - of_int (a + b) / 100\<bar> \<le> 1 / 1000"
proof -
  let ?s = "from_paise a + from_paise b"
  have e: "\<bar>?s - of_int (a + b) / 100\<bar> \<le> 1 / 4000"
    using from_paise_error [OF assms(1)] from_paise_error [OF assms(2)]
    unfolding of_int_add add_divide_distrib by linarith
  have "\<bar>of_int (a + b) / 100 :: rat\<bar> \<le> 10 ^ 12"
    using assms(3) of_int_le_iff [of "\<bar>a + b\<bar>" "10 ^ 14", where 'a = rat] by (simp add: paise_ok_def)
  with e have "\<bar>?s\<bar> \<le> 10 ^ 12 + 1" by linarith
  with fl_error [of ?s] have "\<bar>fl ?s - ?s\<bar> \<le> 1 / 4000" by simp
  with e show ?thesis unfolding fadd_def by linarith
qed

text \<open>Wallet arithmetic in binary64 is exact in paise.\<close>

lemma round2_fadd_paise [money_simps]:
  "paise_ok a \<Longrightarrow> paise_ok b \<Longrightarrow> paise_ok (a + b) \<Longrightarrow>
   round2 (fadd (from_paise a) (from_paise b)) = from_paise (a + b)"
  by (intro round2_near fadd_paise_near) auto

lemma fsub_fadd: "fsub a b = fadd a (- b)"
  by (simp add: fsub_def fadd_def)

lemma paise_ok_minus [simp]: "paise_ok (- k) = paise_ok k"
  by (simp add: paise_ok_def)

lemma paise_ok_0 [simp]: "paise_ok 0"
  by (simp add: paise_ok_def)

lemma round2_fsub_paise [money_simps]:
  "paise_ok a \<Longrightarrow> paise_ok b \<Longrightarrow> paise_ok (a - b) \<Longrightarrow>
   round2 (fsub (from_paise a) (from_paise b)) = from_paise (a - b)"
  using round2_fadd_paise [of a "- b"] by (simp add: fsub_fadd from_paise_minus)

lemma from_paise_less:
  assumes "paise_ok j" "paise_ok k"
  shows "from_paise j < from_paise k \<longleftrightarrow> j < k"
proof
  assume "j < k"
  then have "j + 1 \<le> k" by simp
  then have "(of_int j :: rat) + 1 \<le> of_int k" by (metis of_int_le_iff of_int_add of_int_1)
  with from_paise_error [OF assms(1)] from_paise_error [OF assms(2)]
  show "from_paise j < from_paise k" by linarith
next
  assume "from_paise j < from_paise k"
  with from_paise_mono [of k j] show "j < k" by (simp add: not_le [symmetric]) fastforce
qed

lemma from_paise_le: "paise_ok j \<Longrightarrow> paise_ok k \<Longrightarrow> from_paise j \<le> from_paise k \<longleftrightarrow> j \<le> k"
  using from_paise_less [of k j] by (simp add: not_less [symmetric])

lemma from_paise_inj: "paise_ok j \<Longrightarrow> paise_ok k \<Longrightarrow> from_paise j = from_paise k \<longleftrightarrow> j = k"
  using from_paise_less [of k j] from_paise_less [of j k] by (metis linorder_neqE not_less_iff_gr_or_eq)

text \<open>What is written to a money column and read back is the same number of paise.\<close>

lemma js_decimal_error: "\<bar>js_decimal x - x\<bar> \<le> \<bar>js_decimal x\<bar> / 2 ^ 53"
proof (cases "find (\<lambda>n. fl (to_precision n x) = x) [1..<18]")
  case (Some n)
  then have "fl (to_precision n x) = x" by (auto simp: find_Some_iff)
  moreover have "js_decimal x = to_precision n x" using Some by (simp add: js_decimal_def)
  ultimately show ?thesis using fl_error [of "to_precision n x"] by (simp add: abs_minus_commute)
qed (simp add: js_decimal_def)

lemma to_paise_near:
  assumes x: "\<bar>x - of_int k / 100\<bar> \<le> 1 / 1000" and k: "paise_ok k"
  shows "to_paise x = k"
  unfolding to_paise_def
proof (rule round_away_near)
  let ?d = "js_decimal x"
  have "\<bar>of_int k / 100 :: rat\<bar> \<le> 10 ^ 12"
    using k of_int_le_iff [of "\<bar>k\<bar>" "10 ^ 14", where 'a = rat] by (simp add: paise_ok_def)
  with x have "\<bar>x\<bar> \<le> 10 ^ 12 + 1" by linarith
  moreover have "\<bar>?d - x\<bar> * 2 ^ 53 \<le> \<bar>?d\<bar>" using js_decimal_error [of x] by (simp add: le_divide_eq)
  moreover have "\<bar>?d\<bar> \<le> \<bar>x\<bar> + \<bar>?d - x\<bar>" by linarith
  moreover have "a \<le> 1 / 1000" if "b \<le> 10 ^ 12 + 1" "a * 2 ^ 53 \<le> c" "c \<le> b + a" for a b c :: rat
    using that by simp
  ultimately have "\<bar>?d - x\<bar> \<le> 1 / 1000" by blast
  with x show "\<bar>100 * ?d - of_int k\<bar> < 1 / 2" by linarith
qed

lemma to_from_paise [money_simps]: "paise_ok k \<Longrightarrow> to_paise (from_paise k) = k"
  using from_paise_error [of k] by (intro to_paise_near) auto

lemma round2_mono: "x \<le> y \<Longrightarrow> round2 x \<le> round2 y"
  unfolding round2_from_paise fmul_def
  by (intro from_paise_mono js_round_mono fl_mono) simp

lemma round2_0 [simp]: "round2 0 = 0"
  by (simp add: round2_def fmul_def fdiv_def)

lemma round2_nonneg: "0 \<le> x \<Longrightarrow> 0 \<le> round2 x"
  using round2_mono [of 0 x] by simp

lemma fadd_mono: "a \<le> c \<Longrightarrow> b \<le> d \<Longrightarrow> fadd a b \<le> fadd c d"
  unfolding fadd_def by (intro fl_mono add_mono)

lemma fsub_mono: "a \<le> c \<Longrightarrow> d \<le> b \<Longrightarrow> fsub a b \<le> fsub c d"
  unfolding fsub_def by (intro fl_mono) simp

lemma fmul_mono: "0 \<le> a \<Longrightarrow> a \<le> c \<Longrightarrow> 0 \<le> b \<Longrightarrow> b \<le> d \<Longrightarrow> fmul a b \<le> fmul c d"
  unfolding fmul_def by (intro fl_mono mult_mono) auto

lemma fadd_nonneg: "0 \<le> a \<Longrightarrow> 0 \<le> b \<Longrightarrow> 0 \<le> fadd a b"
  unfolding fadd_def by (intro fl_nonneg) simp

lemma fmul_nonneg: "0 \<le> a \<Longrightarrow> 0 \<le> b \<Longrightarrow> 0 \<le> fmul a b"
  unfolding fmul_def by (intro fl_nonneg) simp

lemma fdiv_nonneg: "0 \<le> a \<Longrightarrow> 0 \<le> b \<Longrightarrow> 0 \<le> fdiv a b"
  unfolding fdiv_def by (intro fl_nonneg) simp

lemmas float_nonneg = fl_nonneg fadd_nonneg fmul_nonneg fdiv_nonneg round2_nonneg from_paise_nonneg


subsection \<open>Sums of amounts\<close>

text \<open>
  \<open>near n x k\<close>: the number \<open>x\<close> is within \<open>n / 8000\<close> rupees of \<open>k\<close> paise. Each amount and each
  addition costs one unit; re-rounding is exact as long as no more than eight were spent.
\<close>

definition near :: "rat \<Rightarrow> num \<Rightarrow> paise \<Rightarrow> bool" where
  "near n x k \<longleftrightarrow> \<bar>x - of_int k / 100\<bar> \<le> n / 8000 \<and> paise_ok k"

definition cents :: "num \<Rightarrow> paise" where
  "cents x = js_round (fmul x 100)"

text \<open>A non-negative amount of a money column, at most \<open>10 ^ 10\<close> rupees.\<close>

definition is_amount :: "num \<Rightarrow> bool" where
  "is_amount x \<longleftrightarrow> x = from_paise (cents x) \<and> 0 \<le> cents x \<and> cents x \<le> 10 ^ 12"

lemma near_paise: "paise_ok k \<Longrightarrow> near 1 (from_paise k) k"
  using from_paise_error [of k] by (simp add: near_def)

lemma near_fadd:
  assumes x: "near m x j" and y: "near n y k" and mn: "m + n \<le> 100" and ok: "paise_ok (j + k)"
  shows "near (m + n + 1) (fadd x y) (j + k)"
proof -
  have e: "\<bar>x + y - of_int (j + k) / 100\<bar> \<le> (m + n) / 8000"
    using x y unfolding near_def of_int_add add_divide_distrib by linarith
  have "\<bar>of_int (j + k) / 100 :: rat\<bar> \<le> 10 ^ 12"
    using ok of_int_le_iff [of "\<bar>j + k\<bar>" "10 ^ 14", where 'a = rat] by (simp add: paise_ok_def)
  moreover have "(m + n) / 8000 \<le> 1" using mn by simp
  ultimately have "\<bar>x + y\<bar> \<le> 10 ^ 12 + 1" using e by linarith
  with fl_error [of "x + y"] have "\<bar>fl (x + y) - (x + y)\<bar> \<le> 1 / 8000" by simp
  with e have "\<bar>fl (x + y) - of_int (j + k) / 100\<bar> \<le> (m + n) / 8000 + 1 / 8000" by linarith
  then show ?thesis using ok by (simp add: near_def fadd_def add_divide_distrib)
qed

lemma near_minus: "near n x k \<Longrightarrow> near n (- x) (- k)"
  unfolding near_def paise_ok_minus of_int_minus by linarith

lemma near_fsub:
  assumes "near m x j" "near n y k" "m + n \<le> 100" "paise_ok (j - k)"
  shows "near (m + n + 1) (fsub x y) (j - k)"
  using near_fadd [OF assms(1) near_minus [OF assms(2)] assms(3)] assms(4) by (simp add: fsub_fadd)

lemma near_max:
  assumes "near n x j" "near n y k"
  shows "near n (max x y) (max j k)"
proof -
  have jk: "(of_int (max j k) :: rat) / 100 = max (of_int j / 100) (of_int k / 100)"
    by (simp add: max_def divide_right_mono)
  have "\<bar>x - of_int j / 100\<bar> \<le> n / 8000" "\<bar>y - of_int k / 100\<bar> \<le> n / 8000"
    using assms by (auto simp: near_def)
  then have "\<bar>max x y - max (of_int j / 100) (of_int k / 100)\<bar> \<le> n / 8000"
    unfolding max_def by (split if_split)+ linarith
  then show ?thesis using assms unfolding near_def jk by (auto simp: max_def)
qed

lemma near_0: "0 \<le> n \<Longrightarrow> near n 0 0"
  by (simp add: near_def)

lemma near_weaken: "near m x k \<Longrightarrow> m \<le> n \<Longrightarrow> near n x k"
  unfolding near_def by (auto intro: order_trans simp: divide_right_mono)

lemma near_cents: "near n x k \<Longrightarrow> n \<le> 8 \<Longrightarrow> cents x = k"
  unfolding cents_def near_def by (intro cents_near) (auto intro: order_trans)

lemma near_round2: "near n x k \<Longrightarrow> n \<le> 8 \<Longrightarrow> round2 x = from_paise k"
  using near_cents [of n x k] by (simp add: round2_from_paise cents_def)

lemma cents_from_paise [simp]: "paise_ok k \<Longrightarrow> cents (from_paise k) = k"
  by (rule near_cents [OF near_paise]) simp_all

lemma round2_cents: "round2 x = from_paise (cents x)"
  by (simp add: round2_from_paise cents_def)

lemma cents_0 [simp]: "cents 0 = 0"
  by (simp add: cents_def fmul_def)

lemma cents_mono: "x \<le> y \<Longrightarrow> cents x \<le> cents y"
  unfolding cents_def fmul_def by (intro js_round_mono fl_mono) simp

lemma paise_ok_le: "\<bar>k\<bar> \<le> b \<Longrightarrow> b \<le> 10 ^ 14 \<Longrightarrow> paise_ok k"
  by (simp add: paise_ok_def)

text \<open>Bounding the rupee value bounds the paise.\<close>

lemma from_paise_bound:
  assumes "\<bar>from_paise k\<bar> \<le> from_paise b" "0 \<le> b" "b \<le> 10 ^ 13"
  shows "\<bar>k\<bar> \<le> b"
proof (rule ccontr)
  assume "\<not> \<bar>k\<bar> \<le> b"
  then have "b + 1 \<le> \<bar>k\<bar>" by simp
  then have "from_paise (b + 1) \<le> from_paise \<bar>k\<bar>" by (rule from_paise_mono)
  moreover have "from_paise \<bar>k\<bar> = \<bar>from_paise k\<bar>"
    using from_paise_nonneg [of k] from_paise_nonneg [of "- k"]
    by (cases "0 \<le> k") (simp_all add: from_paise_minus)
  moreover have "from_paise b < from_paise (b + 1)"
    using assms(2,3) by (subst from_paise_less) (auto simp: paise_ok_def)
  ultimately show False using assms(1) by linarith
qed

lemma fl_from_paise [simp]: "fl (from_paise k) = from_paise k"
  by (simp add: from_paise_def fl_idem)

lemma fl_round2 [simp]: "fl (round2 x) = round2 x"
  by (simp add: round2_from_paise)

lemma fadd_ge: "fl x = x \<Longrightarrow> 0 \<le> y \<Longrightarrow> x \<le> fadd x y"
  unfolding fadd_def using fl_mono [of x "x + y"] by simp

lemma is_amount_nonneg: "is_amount x \<Longrightarrow> 0 \<le> x"
  unfolding is_amount_def using from_paise_nonneg [of "cents x"] by simp

lemma is_amount_round2 [simp]: "is_amount x \<Longrightarrow> round2 x = x"
  by (simp add: is_amount_def round2_cents)

lemma is_amount_ok: "is_amount x \<Longrightarrow> paise_ok (cents x)"
  by (simp add: is_amount_def paise_ok_def)

lemma is_amount_near: "is_amount x \<Longrightarrow> near 1 x (cents x)"
  using near_paise [of "cents x"] is_amount_ok [of x] by (simp add: is_amount_def)

lemma is_amount_fl: "is_amount x \<Longrightarrow> fl x = x"
  unfolding is_amount_def by (metis fl_from_paise)

lemma is_amount_0 [simp]: "is_amount 0"
  by (simp add: is_amount_def)

end
