(* ===== verification/Fare.thy ===== *)
theory Fare
  imports JSNum
begin

text \<open>
  The fare engine, \<open>api/src/lib/fare.ts\<close>, and the booked window of a round trip,
  \<open>api/src/lib/trip-window.ts\<close>. Optional properties and SQL nulls are \<open>option\<close>s; every
  arithmetic operation is the binary64 one. The lemmas show that the lines of a breakdown add
  up to its total in paise, that the guaranteed minimum holds, that totals grow with distance,
  time and surge, and that overage and overtime only ever add to the quote.
\<close>

subsection \<open>Constants (\<open>constants/limits.ts\<close>)\<close>

definition ROUND_TRIP_OVERTIME_GRACE_MIN :: num where "ROUND_TRIP_OVERTIME_GRACE_MIN = 5"
definition ROUND_TRIP_OVERTIME_REVIEW_MIN :: num where "ROUND_TRIP_OVERTIME_REVIEW_MIN = 60"
definition ROUND_TRIP_HOURLY_MAX_HOURS :: num where "ROUND_TRIP_HOURLY_MAX_HOURS = 24"
definition RENTAL_OVERAGE_GRACE_KM :: num where "RENTAL_OVERAGE_GRACE_KM = 2"
definition RENTAL_OVERAGE_GRACE_MIN :: num where "RENTAL_OVERAGE_GRACE_MIN = 5"
definition RENTAL_MAX_PLAUSIBLE_AVG_KMH :: num where "RENTAL_MAX_PLAUSIBLE_AVG_KMH = 60"

subsection \<open>Inputs and the breakdown\<close>

datatype ride_type = one_way | round_trip | rental

record rate_card =
  rate_per_km :: num
  rate_per_min :: num
  min_fare :: num
  rc_base_fare :: "num option"
  return_rate_per_km :: "num option"
  hour_rate :: "num option"
  km_per_day :: "num option"
  driver_allowance_per_day :: "num option"

record fare_input =
  fi_rate_card :: rate_card
  fi_ride_type :: ride_type
  fi_is_return_cab :: bool
  fi_estimated_km :: num
  fi_estimated_min :: num
  fi_stop_count :: num
  fi_charge_per_stop :: num
  fi_trip_hours :: num
  fi_pricing_version :: "int option"
  fi_surge_multiplier :: num
  fi_overage_km :: "num option"
  fi_overage_min :: "num option"
  fi_extra_per_km :: "num option"
  fi_extra_per_min :: "num option"
  fi_package_fare :: "num option"

record fare_breakdown =
  base_fare :: num
  distance_fare :: num
  time_fare :: num
  stop_fare :: num
  hour_surcharge :: num
  overage_fare :: num
  surge_fare :: num
  subtotal :: num
  total :: num
  bd_overage_km :: "num option"
  waiting_fare :: "num option"

definition isHourlyRoundTrip :: "int option \<Rightarrow> num \<Rightarrow> num option \<Rightarrow> bool" where
  "isHourlyRoundTrip pricing_version trip_hours hr \<longleftrightarrow>
     pricing_version = Some 2 \<and> 0 < trip_hours \<and> trip_hours \<le> ROUND_TRIP_HOURLY_MAX_HOURS
     \<and> 0 < coalesce hr 0"

subsection \<open>\<open>calculateFare\<close>, one definition per branch\<close>

text \<open>The rental branch with a fixed package.\<close>

definition rental_package_fare :: "num \<Rightarrow> fare_input \<Rightarrow> fare_breakdown" where
  "rental_package_fare package_fare i =
     (let rentalOverageKm = coalesce (fi_overage_km i) 0;
          rentalOverageMin = coalesce (fi_overage_min i) 0;
          extra_per_km = coalesce (fi_extra_per_km i) 0;
          extra_per_min = coalesce (fi_extra_per_min i) 0;
          ov = round2 (fadd (fmul rentalOverageKm extra_per_km) (fmul rentalOverageMin extra_per_min));
          st = round2 (fadd package_fare ov);
          sg = round2 (fmul st (fsub (fi_surge_multiplier i) 1));
          tot = round2 (fadd st sg)
      in \<lparr>base_fare = package_fare, distance_fare = 0, time_fare = 0, stop_fare = 0,
          hour_surcharge = 0, overage_fare = ov, surge_fare = sg, subtotal = st, total = tot,
          bd_overage_km = None, waiting_fare = None\<rparr>)"

text \<open>The per-km rate: a return cab uses its own rate when the card has a non-zero one.\<close>

definition per_km_rate :: "fare_input \<Rightarrow> num" where
  "per_km_rate i = (case return_rate_per_km (fi_rate_card i) of
       Some r \<Rightarrow> if fi_is_return_cab i \<and> r \<noteq> 0 then r else rate_per_km (fi_rate_card i)
     | None \<Rightarrow> rate_per_km (fi_rate_card i))"

definition flat_base :: "fare_input \<Rightarrow> num" where
  "flat_base i = round2 (coalesce (rc_base_fare (fi_rate_card i)) 0)"

text \<open>The hourly (same-day) round trip.\<close>

definition hourly_round_trip_fare :: "fare_input \<Rightarrow> fare_breakdown" where
  "hourly_round_trip_fare i =
     (let rc = fi_rate_card i; per_km = per_km_rate i; fb = flat_base i;
          wf = round2 (fmul (fi_trip_hours i) (coalesce (hour_rate rc) 0));
          df = round2 (fmul (fi_estimated_km i) per_km);
          sf = round2 (fmul (fi_stop_count i) (fi_charge_per_stop i));
          floored = round2 (max df (min_fare rc));
          st = round2 (fadd (fadd (fadd floored fb) wf) sf);
          sg = round2 (fmul st (fsub (fi_surge_multiplier i) 1))
      in \<lparr>base_fare = round2 (fadd fb (max (fsub (min_fare rc) df) 0)), distance_fare = df,
          time_fare = 0, stop_fare = sf, hour_surcharge = 0, overage_fare = 0, surge_fare = sg,
          subtotal = st, total = round2 (fadd st sg),
          bd_overage_km = None, waiting_fare = Some wf\<rparr>)"

text \<open>The per-day round-trip package.\<close>

definition trip_days :: "num \<Rightarrow> int" where
  "trip_days trip_hours = max 1 \<lceil>fdiv trip_hours 24\<rceil>"

definition daily_round_trip_fare :: "fare_input \<Rightarrow> fare_breakdown" where
  "daily_round_trip_fare i =
     (let rc = fi_rate_card i; per_km = per_km_rate i; fb = flat_base i;
          days = (of_int (trip_days (fi_trip_hours i)) :: num);
          packageKm = round2 (fmul days (coalesce (km_per_day rc) 0));
          overageKmRaw = max 0 (fsub (fi_estimated_km i) packageKm);
          overageKm = round2 overageKmRaw;
          df = round2 (fmul packageKm per_km);
          ov = round2 (fmul overageKmRaw per_km);
          sf = round2 (fmul (fi_stop_count i) (fi_charge_per_stop i));
          allowance = round2 (fmul days (coalesce (driver_allowance_per_day rc) 0));
          metered = round2 (fadd df ov);
          floored = round2 (max metered (min_fare rc));
          st = round2 (fadd (fadd (fadd floored fb) sf) allowance);
          sg = round2 (fmul st (fsub (fi_surge_multiplier i) 1))
      in \<lparr>base_fare = round2 (fadd fb (max (fsub (min_fare rc) metered) 0)), distance_fare = df,
          time_fare = 0, stop_fare = sf, hour_surcharge = allowance, overage_fare = ov,
          surge_fare = sg, subtotal = st, total = round2 (fadd st sg),
          bd_overage_km = Some overageKm, waiting_fare = None\<rparr>)"

text \<open>One-way, and a rental without a package.\<close>

definition one_way_fare :: "fare_input \<Rightarrow> fare_breakdown" where
  "one_way_fare i =
     (let rc = fi_rate_card i; per_km = per_km_rate i; fb = flat_base i;
          df = round2 (fmul (fi_estimated_km i) per_km);
          tf = round2 (fmul (fi_estimated_min i) (rate_per_min rc));
          sf = round2 (fmul (fi_stop_count i) (fi_charge_per_stop i));
          metered = round2 (fadd df tf);
          floored = round2 (max metered (min_fare rc));
          st = round2 (fadd (fadd floored fb) sf);
          sg = round2 (fmul st (fsub (fi_surge_multiplier i) 1))
      in \<lparr>base_fare = round2 (fadd fb (max (fsub (min_fare rc) metered) 0)), distance_fare = df,
          time_fare = tf, stop_fare = sf, hour_surcharge = 0, overage_fare = 0,
          surge_fare = sg, subtotal = st, total = round2 (fadd st sg),
          bd_overage_km = None, waiting_fare = None\<rparr>)"

definition calculateFare :: "fare_input \<Rightarrow> fare_breakdown" where
  "calculateFare i =
     (case (fi_ride_type i, fi_package_fare i) of
        (rental, Some pf) \<Rightarrow> rental_package_fare pf i
      | (round_trip, _) \<Rightarrow>
          if isHourlyRoundTrip (Some (coalesce (fi_pricing_version i) 1)) (fi_trip_hours i)
               (hour_rate (fi_rate_card i))
          then hourly_round_trip_fare i else daily_round_trip_fare i
      | _ \<Rightarrow> one_way_fare i)"

subsection \<open>Rental overage and settlement\<close>

definition rentalOverage :: "num \<times> num \<Rightarrow> num option \<Rightarrow> num \<Rightarrow> num \<times> num \<Rightarrow> num \<times> num" where
  "rentalOverage pkg actualKm actualMin grace =
     (let (km_limit, duration_minutes) = pkg; (grace_km, grace_min) = grace in
      (case actualKm of None \<Rightarrow> 0
         | Some km \<Rightarrow> round2 (max 0 (fsub (fsub km km_limit) grace_km)),
       round2 (max 0 (fsub (fsub actualMin duration_minutes) grace_min))))"

record rental_pkg =
  km_limit :: num
  duration_minutes :: num
  pkg_extra_per_km :: num
  pkg_extra_per_min :: num

datatype review_note = KmOverageFromGps | KmOverageNotBilled | OvertimeOver num

record rental_settlement =
  measured_km :: "num option"
  rs_overage_km :: num
  rs_overage_min :: num
  rs_overage_fare :: num
  rs_total :: num
  rs_review :: "review_note option"

definition settleRentalFare ::
  "rental_pkg \<Rightarrow> num \<Rightarrow> num \<Rightarrow> num option \<Rightarrow> num \<Rightarrow> num \<times> num \<Rightarrow> num \<Rightarrow> rental_settlement" where
  "settleRentalFare pkg base surge gps_km elapsed_min grace max_avg_kmh =
     (let maxKm = fmul (fdiv elapsed_min 60) max_avg_kmh;
          measured = (case gps_km of Some km \<Rightarrow> if km \<le> maxKm then Some km else None | None \<Rightarrow> None);
          (okm, omin) = rentalOverage (km_limit pkg, duration_minutes pkg) measured elapsed_min grace;
          fare = calculateFare
            \<lparr>fi_rate_card = \<lparr>rate_per_km = 0, rate_per_min = 0, min_fare = 0, rc_base_fare = None,
               return_rate_per_km = None, hour_rate = None, km_per_day = None,
               driver_allowance_per_day = None\<rparr>,
             fi_ride_type = rental, fi_is_return_cab = False, fi_estimated_km = 0,
             fi_estimated_min = 0, fi_stop_count = 0, fi_charge_per_stop = 0, fi_trip_hours = 0,
             fi_pricing_version = None, fi_surge_multiplier = surge,
             fi_overage_km = Some okm, fi_overage_min = Some omin,
             fi_extra_per_km = Some (pkg_extra_per_km pkg),
             fi_extra_per_min = Some (pkg_extra_per_min pkg), fi_package_fare = Some base\<rparr>;
          review = (if 0 < okm then Some KmOverageFromGps
                    else if measured = None \<and> km_limit pkg < maxKm then Some KmOverageNotBilled
                    else None)
      in \<lparr>measured_km = measured, rs_overage_km = okm, rs_overage_min = omin,
          rs_overage_fare = overage_fare fare, rs_total = total fare, rs_review = review\<rparr>)"

subsection \<open>Round-trip overtime\<close>

text \<open>Times are milliseconds since the epoch.\<close>

record overtime =
  overtime_min :: int
  overtime_fare :: int
  ot_review :: "review_note option"

definition elapsed_minutes :: "int \<Rightarrow> int \<Rightarrow> num" where
  "elapsed_minutes started_at completed_at = fdiv (of_int (completed_at - started_at)) 60000"

definition settleRoundTripOvertime ::
  "int \<Rightarrow> int \<Rightarrow> num \<Rightarrow> num \<Rightarrow> num option \<Rightarrow> num option \<Rightarrow> overtime" where
  "settleRoundTripOvertime started_at completed_at booked_hours rate grace_min review_min =
     (let grace = coalesce grace_min ROUND_TRIP_OVERTIME_GRACE_MIN;
          reviewMin = coalesce review_min ROUND_TRIP_OVERTIME_REVIEW_MIN;
          elapsedMin = elapsed_minutes started_at completed_at;
          ot = max 0 \<lceil>fsub (fsub elapsedMin (fmul booked_hours 60)) grace\<rceil>
      in \<lparr>overtime_min = ot,
          overtime_fare = js_round (fdiv (fmul (of_int ot) rate) 60),
          ot_review = (if reviewMin < of_int ot then Some (OvertimeOver reviewMin) else None)\<rparr>)"

subsection \<open>\<open>estimateFare\<close>\<close>

record estimate_params =
  ep_rate_card :: rate_card
  ep_ride_type :: ride_type
  ep_is_return_cab :: bool
  ep_distance_km :: num
  ep_duration_min :: num
  ep_stop_count :: "num option"
  ep_charge_per_stop :: "num option"
  ep_trip_hours :: "num option"
  ep_pricing_version :: "int option"
  ep_surge_multiplier :: "num option"
  ep_package_fare :: "num option"
  ep_extra_per_km :: "num option"
  ep_extra_per_min :: "num option"

definition estimateFare :: "estimate_params \<Rightarrow> fare_breakdown" where
  "estimateFare p = calculateFare
     \<lparr>fi_rate_card = ep_rate_card p, fi_ride_type = ep_ride_type p,
      fi_is_return_cab = ep_is_return_cab p, fi_estimated_km = ep_distance_km p,
      fi_estimated_min = ep_duration_min p, fi_stop_count = coalesce (ep_stop_count p) 0,
      fi_charge_per_stop = coalesce (ep_charge_per_stop p) 0,
      fi_trip_hours = coalesce (ep_trip_hours p) 0,
      fi_pricing_version = ep_pricing_version p,
      fi_surge_multiplier = coalesce (ep_surge_multiplier p) 1,
      fi_overage_km = None, fi_overage_min = None,
      fi_extra_per_km = Some (coalesce (ep_extra_per_km p) 0),
      fi_extra_per_min = Some (coalesce (ep_extra_per_min p) 0),
      fi_package_fare = ep_package_fare p\<rparr>"

subsection \<open>The booked window of a ride (\<open>lib/trip-window.ts\<close>)\<close>

record trip_window_row =
  tw_ride_type :: ride_type
  tw_completed :: bool
  tw_started_at :: "int option"
  tw_trip_hours :: "num option"
  tw_pricing_version :: "int option"
  tw_hour_rate :: "num option"
  tw_overtime_min :: "int option"
  tw_overtime_fare :: "num option"

record trip_window =
  bookedUntil :: "int option"
  overtimeRate :: "num option"
  overtimeGraceMin :: "num option"
  overtimeMin :: "int option"
  overtimeFare :: "num option"

definition no_window :: trip_window where
  "no_window = \<lparr>bookedUntil = None, overtimeRate = None, overtimeGraceMin = None,
     overtimeMin = None, overtimeFare = None\<rparr>"

text \<open>\<open>new Date(x)\<close> truncates its argument towards zero (\<open>TimeClip\<close>); times here are positive.\<close>

definition tripWindowFields :: "trip_window_row \<Rightarrow> trip_window" where
  "tripWindowFields row =
     (let hours = coalesce (tw_trip_hours row) 0; rate = tw_hour_rate row
      in if tw_ride_type row \<noteq> round_trip \<or> \<not> isHourlyRoundTrip (tw_pricing_version row) hours rate
         then no_window
         else \<lparr>bookedUntil = (case tw_started_at row of None \<Rightarrow> None
                 | Some ms \<Rightarrow> Some \<lfloor>fadd (of_int ms) (fmul hours 3600000)\<rfloor>),
               overtimeRate = rate,
               overtimeGraceMin = Some ROUND_TRIP_OVERTIME_GRACE_MIN,
               overtimeMin = (if tw_completed row then tw_overtime_min row else None),
               overtimeFare = (if tw_completed row then tw_overtime_fare row else None)\<rparr>)"

lemmas fare_defs = calculateFare_def rental_package_fare_def hourly_round_trip_fare_def
  daily_round_trip_fare_def one_way_fare_def


subsection \<open>The lines of a breakdown\<close>

definition fare_lines :: "fare_breakdown \<Rightarrow> num list" where
  "fare_lines b = [base_fare b, distance_fare b, time_fare b, stop_fare b, hour_surcharge b,
     overage_fare b, coalesce (waiting_fare b) 0, surge_fare b]"

definition lines_in_range :: "fare_breakdown \<Rightarrow> bool" where
  "lines_in_range b \<longleftrightarrow> list_all (\<lambda>x. \<bar>x\<bar> \<le> 10 ^ 10) (fare_lines b)"

text \<open>What the rate card's money columns hold.\<close>

definition card_amounts :: "rate_card \<Rightarrow> bool" where
  "card_amounts rc \<longleftrightarrow> is_amount (min_fare rc) \<and> is_amount (coalesce (rc_base_fare rc) 0)"

lemma ten_billion: "from_paise (10 ^ 12) = 10 ^ 10"
  unfolding from_paise_def using fl_int [of "10 ^ 10"] by simp

lemma line_cents: "\<bar>round2 x\<bar> \<le> 10 ^ 10 \<Longrightarrow> \<bar>cents x\<bar> \<le> 10 ^ 12"
  unfolding round2_cents ten_billion [symmetric] by (rule from_paise_bound) simp_all

lemma line_ok: "\<bar>round2 x\<bar> \<le> 10 ^ 10 \<Longrightarrow> paise_ok (cents x)"
  using line_cents [of x] by (simp add: paise_ok_def)

lemma line_near: "\<bar>round2 x\<bar> \<le> 10 ^ 10 \<Longrightarrow> near 1 (round2 x) (cents x)"
  using line_ok [of x] by (simp add: round2_cents near_paise)

lemma line_cents_round2: "\<bar>round2 x\<bar> \<le> 10 ^ 10 \<Longrightarrow> cents (round2 x) = cents x"
  using line_ok [of x] by (simp add: round2_cents)

text \<open>
  The arithmetic shared by the metered branches: a metered amount is floored at the minimum
  fare, the flat base is added, then up to two further lines and the surge. \<open>m\<close>, \<open>M\<close>, \<open>B\<close>,
  \<open>s\<close>, \<open>t\<close> and \<open>g\<close> are the amounts in paise.
\<close>

lemma metered_sum:
  assumes m: "near n m' m" "n \<le> 3" and M: "is_amount mf" and B: "is_amount fb"
    and s: "near 1 s' s" and t: "near 1 t' t"
    and small: "\<bar>m\<bar> \<le> 10 ^ 13" "\<bar>s\<bar> \<le> 10 ^ 13" "\<bar>t\<bar> \<le> 10 ^ 13"
    and mr: "metered = round2 m'"
  defines "st \<equiv> round2 (fadd (fadd (fadd (round2 (max metered mf)) fb) s') t')"
    and "bl \<equiv> round2 (fadd fb (max (fsub mf metered) 0))"
  shows "st = from_paise (max m (cents mf) + cents fb + s + t)"
    and "cents bl = cents fb + max (cents mf - m) 0"
proof -
  have okm: "paise_ok m" using m(1) by (simp add: near_def)
  have met: "near 1 metered m" using near_round2 [OF m(1)] m(2) near_paise [OF okm] by (simp add: mr)
  have Mb: "0 \<le> cents mf" "cents mf \<le> 10 ^ 12" and Bb: "0 \<le> cents fb" "cents fb \<le> 10 ^ 12"
    using M B by (simp_all add: is_amount_def)
  have Mn: "near 1 mf (cents mf)" and Bn: "near 1 fb (cents fb)" using M B by (simp_all add: is_amount_near)
  have mx: "near 1 (max metered mf) (max m (cents mf))" using met Mn by (rule near_max)
  then have fl1: "near 1 (round2 (max metered mf)) (max m (cents mf))"
    using near_round2 [OF mx] near_paise [of "max m (cents mf)"] by (simp add: near_def)
  note sum3 = near_fadd [OF near_fadd [OF near_fadd [OF fl1 Bn] s] t]
  have "near 7 (fadd (fadd (fadd (round2 (max metered mf)) fb) s') t') (max m (cents mf) + cents fb + s + t)"
    using sum3 small Mb Bb by (simp add: paise_ok_def)
  then show "st = from_paise (max m (cents mf) + cents fb + s + t)"
    unfolding st_def by (rule near_round2) simp
  have "near 3 (fsub mf metered) (cents mf - m)"
    using near_fsub [OF Mn met] small Mb by (simp add: paise_ok_def)
  then have "near 3 (max (fsub mf metered) 0) (max (cents mf - m) 0)"
    by (rule near_max) (simp add: near_0)
  from near_fadd [OF Bn this] have "near 5 (fadd fb (max (fsub mf metered) 0)) (cents fb + max (cents mf - m) 0)"
    using small Mb Bb by (simp add: paise_ok_def)
  then have "bl = from_paise (cents fb + max (cents mf - m) 0)" and ok: "paise_ok (cents fb + max (cents mf - m) 0)"
    unfolding bl_def by (auto intro: near_round2 simp: near_def)
  then show "cents bl = cents fb + max (cents mf - m) 0" by simp
qed

lemma total_of_subtotal:
  assumes "st = from_paise k" "\<bar>k\<bar> \<le> 10 ^ 13 * 6" "\<bar>round2 g\<bar> \<le> 10 ^ 10"
  shows "cents (round2 (fadd st (round2 g))) = k + cents g"
proof -
  have ok: "paise_ok k" using assms(2) by (simp add: paise_ok_def)
  have "near 1 st k" using assms(1) near_paise [OF ok] by simp
  from near_fadd [OF this line_near [OF assms(3)]] line_cents [OF assms(3)] assms(2)
  have n: "near 3 (fadd st (round2 g)) (k + cents g)" by (simp add: paise_ok_def)
  then show ?thesis using near_round2 [OF n] by (simp add: near_def)
qed


definition amounts_ok :: "fare_input \<Rightarrow> bool" where
  "amounts_ok i \<longleftrightarrow> card_amounts (fi_rate_card i) \<and> is_amount (coalesce (fi_package_fare i) 0)"

lemma in_range_simps:
  "lines_in_range b \<longleftrightarrow> \<bar>base_fare b\<bar> \<le> 10 ^ 10 \<and> \<bar>distance_fare b\<bar> \<le> 10 ^ 10 \<and> \<bar>time_fare b\<bar> \<le> 10 ^ 10
     \<and> \<bar>stop_fare b\<bar> \<le> 10 ^ 10 \<and> \<bar>hour_surcharge b\<bar> \<le> 10 ^ 10 \<and> \<bar>overage_fare b\<bar> \<le> 10 ^ 10
     \<and> \<bar>coalesce (waiting_fare b) 0\<bar> \<le> 10 ^ 10 \<and> \<bar>surge_fare b\<bar> \<le> 10 ^ 10"
  by (simp add: lines_in_range_def fare_lines_def)

lemma flat_base_amount: "amounts_ok i \<Longrightarrow> is_amount (flat_base i)"
  by (simp add: amounts_ok_def card_amounts_def flat_base_def)

lemma fadd_0_fadd: "fadd (fadd a b) 0 = fadd a b"
  by (simp add: fadd_def fl_idem)

lemma round2_line: "\<bar>round2 x\<bar> \<le> 10 ^ 10 \<Longrightarrow> round2 (round2 x) = round2 x"
  using line_ok [of x] by (simp add: round2_cents)

lemma line_small: "\<bar>round2 x\<bar> \<le> 10 ^ 10 \<Longrightarrow> \<bar>cents x\<bar> \<le> 10 ^ 13"
  using line_cents [of x] by simp

lemma subtotal_small:
  assumes "is_amount a" "is_amount b" "\<bar>m\<bar> \<le> 10 ^ 13" "\<bar>s\<bar> \<le> 10 ^ 13" "\<bar>t\<bar> \<le> 10 ^ 13"
  shows "\<bar>max m (cents a) + cents b + s + t\<bar> \<le> 10 ^ 13 * 6"
  using assms unfolding is_amount_def max_def by simp arith

text \<open>The lines of each branch, each in terms of the earlier ones.\<close>

lemma one_way_fields:
  "base_fare (one_way_fare i) = round2 (fadd (flat_base i) (max (fsub (min_fare (fi_rate_card i))
     (round2 (fadd (distance_fare (one_way_fare i)) (time_fare (one_way_fare i))))) 0))"
  "distance_fare (one_way_fare i) = round2 (fmul (fi_estimated_km i) (per_km_rate i))"
  "time_fare (one_way_fare i) = round2 (fmul (fi_estimated_min i) (rate_per_min (fi_rate_card i)))"
  "stop_fare (one_way_fare i) = round2 (fmul (fi_stop_count i) (fi_charge_per_stop i))"
  "hour_surcharge (one_way_fare i) = 0" "overage_fare (one_way_fare i) = 0" "waiting_fare (one_way_fare i) = None"
  "subtotal (one_way_fare i) = round2 (fadd (fadd (round2 (max (round2 (fadd (distance_fare (one_way_fare i))
     (time_fare (one_way_fare i)))) (min_fare (fi_rate_card i)))) (flat_base i)) (stop_fare (one_way_fare i)))"
  "surge_fare (one_way_fare i) = round2 (fmul (subtotal (one_way_fare i)) (fsub (fi_surge_multiplier i) 1))"
  "total (one_way_fare i) = round2 (fadd (subtotal (one_way_fare i)) (surge_fare (one_way_fare i)))"
  unfolding one_way_fare_def Let_def by (simp_all only: fare_breakdown.simps)

lemma hourly_fields:
  "base_fare (hourly_round_trip_fare i) = round2 (fadd (flat_base i) (max (fsub (min_fare (fi_rate_card i))
     (distance_fare (hourly_round_trip_fare i))) 0))"
  "distance_fare (hourly_round_trip_fare i) = round2 (fmul (fi_estimated_km i) (per_km_rate i))"
  "stop_fare (hourly_round_trip_fare i) = round2 (fmul (fi_stop_count i) (fi_charge_per_stop i))"
  "waiting_fare (hourly_round_trip_fare i) = Some (round2 (fmul (fi_trip_hours i) (coalesce (hour_rate (fi_rate_card i)) 0)))"
  "time_fare (hourly_round_trip_fare i) = 0" "hour_surcharge (hourly_round_trip_fare i) = 0" "overage_fare (hourly_round_trip_fare i) = 0"
  "subtotal (hourly_round_trip_fare i) = round2 (fadd (fadd (fadd (round2 (max (distance_fare (hourly_round_trip_fare i))
     (min_fare (fi_rate_card i)))) (flat_base i)) (coalesce (waiting_fare (hourly_round_trip_fare i)) 0))
     (stop_fare (hourly_round_trip_fare i)))"
  "surge_fare (hourly_round_trip_fare i) = round2 (fmul (subtotal (hourly_round_trip_fare i)) (fsub (fi_surge_multiplier i) 1))"
  "total (hourly_round_trip_fare i) = round2 (fadd (subtotal (hourly_round_trip_fare i)) (surge_fare (hourly_round_trip_fare i)))"
  unfolding hourly_round_trip_fare_def Let_def by (simp_all only: fare_breakdown.simps coalesce_simps)

definition package_km :: "fare_input \<Rightarrow> num" where
  "package_km i = round2 (fmul (of_int (trip_days (fi_trip_hours i))) (coalesce (km_per_day (fi_rate_card i)) 0))"

lemma daily_fields:
  "base_fare (daily_round_trip_fare i) = round2 (fadd (flat_base i) (max (fsub (min_fare (fi_rate_card i))
     (round2 (fadd (distance_fare (daily_round_trip_fare i)) (overage_fare (daily_round_trip_fare i))))) 0))"
  "distance_fare (daily_round_trip_fare i) = round2 (fmul (package_km i) (per_km_rate i))"
  "overage_fare (daily_round_trip_fare i) = round2 (fmul (max 0 (fsub (fi_estimated_km i) (package_km i))) (per_km_rate i))"
  "stop_fare (daily_round_trip_fare i) = round2 (fmul (fi_stop_count i) (fi_charge_per_stop i))"
  "hour_surcharge (daily_round_trip_fare i) = round2 (fmul (of_int (trip_days (fi_trip_hours i)))
     (coalesce (driver_allowance_per_day (fi_rate_card i)) 0))"
  "time_fare (daily_round_trip_fare i) = 0" "waiting_fare (daily_round_trip_fare i) = None"
  "subtotal (daily_round_trip_fare i) = round2 (fadd (fadd (fadd (round2 (max (round2 (fadd
     (distance_fare (daily_round_trip_fare i)) (overage_fare (daily_round_trip_fare i)))) (min_fare (fi_rate_card i))))
     (flat_base i)) (stop_fare (daily_round_trip_fare i))) (hour_surcharge (daily_round_trip_fare i)))"
  "surge_fare (daily_round_trip_fare i) = round2 (fmul (subtotal (daily_round_trip_fare i)) (fsub (fi_surge_multiplier i) 1))"
  "total (daily_round_trip_fare i) = round2 (fadd (subtotal (daily_round_trip_fare i)) (surge_fare (daily_round_trip_fare i)))"
  unfolding daily_round_trip_fare_def package_km_def Let_def by (simp_all only: fare_breakdown.simps)

lemma package_fields:
  "base_fare (rental_package_fare pf i) = pf"
  "overage_fare (rental_package_fare pf i) = round2 (fadd (fmul (coalesce (fi_overage_km i) 0) (coalesce (fi_extra_per_km i) 0))
     (fmul (coalesce (fi_overage_min i) 0) (coalesce (fi_extra_per_min i) 0)))"
  "distance_fare (rental_package_fare pf i) = 0" "time_fare (rental_package_fare pf i) = 0"
  "stop_fare (rental_package_fare pf i) = 0" "hour_surcharge (rental_package_fare pf i) = 0"
  "waiting_fare (rental_package_fare pf i) = None"
  "subtotal (rental_package_fare pf i) = round2 (fadd pf (overage_fare (rental_package_fare pf i)))"
  "surge_fare (rental_package_fare pf i) = round2 (fmul (subtotal (rental_package_fare pf i)) (fsub (fi_surge_multiplier i) 1))"
  "total (rental_package_fare pf i) = round2 (fadd (subtotal (rental_package_fare pf i)) (surge_fare (rental_package_fare pf i)))"
  unfolding rental_package_fare_def Let_def by (simp_all only: fare_breakdown.simps)

text \<open>Totals on top of a subtotal known in paise.\<close>

lemma lines_total:
  assumes "st = from_paise k" "\<bar>k\<bar> \<le> 10 ^ 13 * 6" "sg = round2 g" "\<bar>sg\<bar> \<le> 10 ^ 10"
  shows "cents (round2 (fadd st sg)) = k + cents sg"
  using total_of_subtotal [of st k g] line_cents_round2 [of g] assms by simp

lemma line_paise: "x = round2 y \<Longrightarrow> \<bar>x\<bar> \<le> 10 ^ 10 \<Longrightarrow> near 1 x (cents x) \<and> \<bar>cents x\<bar> \<le> 10 ^ 12"
  using line_near [of y] line_cents [of y] line_cents_round2 [of y] by simp

lemma one_way_lines:
  assumes ok: "amounts_ok i" and r: "lines_in_range (one_way_fare i)"
  shows "sum_list (map cents (fare_lines (one_way_fare i))) = cents (total (one_way_fare i))"
proof -
  let ?b = "one_way_fare i" and ?mf = "min_fare (fi_rate_card i)"
  have d: "near 1 (distance_fare ?b) (cents (distance_fare ?b))" "\<bar>cents (distance_fare ?b)\<bar> \<le> 10 ^ 12"
    and t: "near 1 (time_fare ?b) (cents (time_fare ?b))" "\<bar>cents (time_fare ?b)\<bar> \<le> 10 ^ 12"
    and s: "near 1 (stop_fare ?b) (cents (stop_fare ?b))" "\<bar>cents (stop_fare ?b)\<bar> \<le> 10 ^ 12"
    using line_paise one_way_fields(2-4) r by (auto simp: in_range_simps)
  have mf: "is_amount ?mf" using ok by (simp add: amounts_ok_def card_amounts_def)
  note fb = flat_base_amount [OF ok]
  have m: "near 3 (fadd (distance_fare ?b) (time_fare ?b)) (cents (distance_fare ?b) + cents (time_fare ?b))"
    using near_fadd [OF d(1) t(1)] d(2) t(2) by (simp add: paise_ok_def)
  have sm: "\<bar>cents (distance_fare ?b) + cents (time_fare ?b)\<bar> \<le> 10 ^ 13" "\<bar>cents (stop_fare ?b)\<bar> \<le> 10 ^ 13"
     "\<bar>0 :: int\<bar> \<le> 10 ^ 13" using d(2) t(2) s(2) by simp_all
  note ms = metered_sum [OF m _ mf fb s(1) near_0 sm refl]
  note k = subtotal_small [OF mf fb sm]
  show ?thesis
    using lines_total [OF ms(1) k one_way_fields(9) [unfolded one_way_fields(8)]] ms(2) r
    by (simp add: fare_lines_def fadd_0_fadd in_range_simps one_way_fields(1,5-8,10))
qed

lemma hourly_lines:
  assumes ok: "amounts_ok i" and r: "lines_in_range (hourly_round_trip_fare i)"
  shows "sum_list (map cents (fare_lines (hourly_round_trip_fare i))) = cents (total (hourly_round_trip_fare i))"
proof -
  let ?b = "hourly_round_trip_fare i" and ?mf = "min_fare (fi_rate_card i)"
  let ?w = "coalesce (waiting_fare ?b) 0"
  have wf: "?w = round2 (fmul (fi_trip_hours i) (coalesce (hour_rate (fi_rate_card i)) 0))"
    by (simp add: hourly_fields(4))
  have d: "near 1 (distance_fare ?b) (cents (distance_fare ?b))" "\<bar>cents (distance_fare ?b)\<bar> \<le> 10 ^ 12"
    and w: "near 1 ?w (cents ?w)" "\<bar>cents ?w\<bar> \<le> 10 ^ 12"
    and s: "near 1 (stop_fare ?b) (cents (stop_fare ?b))" "\<bar>cents (stop_fare ?b)\<bar> \<le> 10 ^ 12"
    using line_paise hourly_fields(2,3) wf r by (auto simp: in_range_simps)
  have mf: "is_amount ?mf" using ok by (simp add: amounts_ok_def card_amounts_def)
  note fb = flat_base_amount [OF ok]
  have sm: "\<bar>cents (distance_fare ?b)\<bar> \<le> 10 ^ 13" "\<bar>cents ?w\<bar> \<le> 10 ^ 13" "\<bar>cents (stop_fare ?b)\<bar> \<le> 10 ^ 13"
    using d(2) w(2) s(2) by simp_all
  have rr: "distance_fare ?b = round2 (distance_fare ?b)"
    using round2_line [of "fmul (fi_estimated_km i) (per_km_rate i)"] r by (simp add: hourly_fields(2) in_range_simps)
  note ms = metered_sum [OF d(1) _ mf fb w(1) s(1) sm rr]
  note k = subtotal_small [OF mf fb sm]
  show ?thesis
    using lines_total [OF ms(1) k hourly_fields(9) [unfolded hourly_fields(8)]] ms(2) r
    by (simp add: fare_lines_def in_range_simps hourly_fields(1,5-8,10))
qed

lemma daily_lines:
  assumes ok: "amounts_ok i" and r: "lines_in_range (daily_round_trip_fare i)"
  shows "sum_list (map cents (fare_lines (daily_round_trip_fare i))) = cents (total (daily_round_trip_fare i))"
proof -
  let ?b = "daily_round_trip_fare i" and ?mf = "min_fare (fi_rate_card i)"
  have d: "near 1 (distance_fare ?b) (cents (distance_fare ?b))" "\<bar>cents (distance_fare ?b)\<bar> \<le> 10 ^ 12"
    and o: "near 1 (overage_fare ?b) (cents (overage_fare ?b))" "\<bar>cents (overage_fare ?b)\<bar> \<le> 10 ^ 12"
    and s: "near 1 (stop_fare ?b) (cents (stop_fare ?b))" "\<bar>cents (stop_fare ?b)\<bar> \<le> 10 ^ 12"
    and a: "near 1 (hour_surcharge ?b) (cents (hour_surcharge ?b))" "\<bar>cents (hour_surcharge ?b)\<bar> \<le> 10 ^ 12"
    using line_paise daily_fields(2-5) r by (auto simp: in_range_simps)
  have mf: "is_amount ?mf" using ok by (simp add: amounts_ok_def card_amounts_def)
  note fb = flat_base_amount [OF ok]
  have m: "near 3 (fadd (distance_fare ?b) (overage_fare ?b)) (cents (distance_fare ?b) + cents (overage_fare ?b))"
    using near_fadd [OF d(1) o(1)] d(2) o(2) by (simp add: paise_ok_def)
  have sm: "\<bar>cents (distance_fare ?b) + cents (overage_fare ?b)\<bar> \<le> 10 ^ 13" "\<bar>cents (stop_fare ?b)\<bar> \<le> 10 ^ 13"
     "\<bar>cents (hour_surcharge ?b)\<bar> \<le> 10 ^ 13" using d(2) o(2) s(2) a(2) by simp_all
  note ms = metered_sum [OF m _ mf fb s(1) a(1) sm refl]
  note k = subtotal_small [OF mf fb sm]
  show ?thesis
    using lines_total [OF ms(1) k daily_fields(9) [unfolded daily_fields(8)]] ms(2) r
    by (simp add: fare_lines_def in_range_simps daily_fields(1,6-8,10))
qed

lemma package_lines:
  assumes pf: "is_amount pf" and r: "lines_in_range (rental_package_fare pf i)"
  shows "sum_list (map cents (fare_lines (rental_package_fare pf i))) = cents (total (rental_package_fare pf i))"
proof -
  let ?b = "rental_package_fare pf i"
  have o: "near 1 (overage_fare ?b) (cents (overage_fare ?b))" "\<bar>cents (overage_fare ?b)\<bar> \<le> 10 ^ 12"
    using line_paise package_fields(2) r by (auto simp: in_range_simps)
  have pfb: "0 \<le> cents pf" "cents pf \<le> 10 ^ 12" using pf by (simp_all add: is_amount_def)
  have "near 3 (fadd pf (overage_fare ?b)) (cents pf + cents (overage_fare ?b))"
    using near_fadd [OF is_amount_near [OF pf] o(1)] o(2) pfb by (simp add: paise_ok_def)
  then have st: "subtotal ?b = from_paise (cents pf + cents (overage_fare ?b))"
    using near_round2 [of 3] by (simp add: package_fields(8))
  have k: "\<bar>cents pf + cents (overage_fare ?b)\<bar> \<le> 10 ^ 13 * 6" using o(2) pfb by simp
  show ?thesis using lines_total [OF st k package_fields(9)] r
    by (simp add: fare_lines_def in_range_simps package_fields(1,3-7,10))
qed

lemma calculateFare_cases:
  obtains (package) pf where "fi_ride_type i = rental" "fi_package_fare i = Some pf" "calculateFare i = rental_package_fare pf i"
  | (hourly) "fi_ride_type i = round_trip" "0 \<le> fi_trip_hours i" "0 \<le> coalesce (hour_rate (fi_rate_card i)) 0" "calculateFare i = hourly_round_trip_fare i"
  | (daily) "fi_ride_type i = round_trip" "calculateFare i = daily_round_trip_fare i"
  | (metered) "fi_ride_type i \<noteq> round_trip" "fi_ride_type i = rental \<Longrightarrow> fi_package_fare i = None" "calculateFare i = one_way_fare i"
proof (cases "fi_ride_type i")
  case round_trip
  show ?thesis
  proof (cases "isHourlyRoundTrip (Some (coalesce (fi_pricing_version i) 1)) (fi_trip_hours i) (hour_rate (fi_rate_card i))")
    case True
    then have "0 \<le> fi_trip_hours i" "0 \<le> coalesce (hour_rate (fi_rate_card i)) 0"
      by (simp_all add: isHourlyRoundTrip_def)
    then show ?thesis using hourly round_trip True by (simp add: calculateFare_def)
  next
    case False
    then show ?thesis using daily round_trip by (simp add: calculateFare_def)
  qed
next
  case rental
  then show ?thesis using package metered unfolding calculateFare_def by (cases "fi_package_fare i") simp_all
next
  case one_way
  then show ?thesis using metered unfolding calculateFare_def by simp
qed

text \<open>
  C36. The lines of a fare breakdown add up to its total to the paisa, in every branch of
  \<open>calculateFare\<close>: the base line (flat base and minimum-fare top-up), the distance, time,
  stop, allowance, overage and waiting lines and the surge line. The money columns hold amounts
  with two decimals and no line exceeds \<open>10 ^ 10\<close> rupees.
\<close>

theorem breakdown_adds_up:
  assumes "amounts_ok i" "lines_in_range (calculateFare i)"
  shows "sum_list (map cents (fare_lines (calculateFare i))) = cents (total (calculateFare i))"
proof (cases i rule: calculateFare_cases)
  case (package pf)
  then show ?thesis using assms package_lines [of pf i] by (simp add: amounts_ok_def)
qed (use assms hourly_lines daily_lines one_way_lines in simp_all)

subsection \<open>The guaranteed minimum and monotonicity\<close>

definition nonneg_input :: "fare_input \<Rightarrow> bool" where
  "nonneg_input i \<longleftrightarrow> 0 \<le> fi_estimated_km i \<and> 0 \<le> fi_estimated_min i \<and> 0 \<le> fi_stop_count i
     \<and> 0 \<le> fi_charge_per_stop i \<and> 1 \<le> fi_surge_multiplier i
     \<and> 0 \<le> rate_per_km (fi_rate_card i) \<and> 0 \<le> rate_per_min (fi_rate_card i)
     \<and> 0 \<le> coalesce (return_rate_per_km (fi_rate_card i)) 0 \<and> 0 \<le> coalesce (hour_rate (fi_rate_card i)) 0
     \<and> 0 \<le> fi_trip_hours i
     \<and> 0 \<le> coalesce (driver_allowance_per_day (fi_rate_card i)) 0
     \<and> 0 \<le> coalesce (fi_overage_km i) 0 \<and> 0 \<le> coalesce (fi_overage_min i) 0
     \<and> 0 \<le> coalesce (fi_extra_per_km i) 0 \<and> 0 \<le> coalesce (fi_extra_per_min i) 0"

lemma line_nonneg: "0 \<le> a \<Longrightarrow> 0 \<le> b \<Longrightarrow> 0 \<le> round2 (fmul a b)"
  by (intro round2_nonneg fmul_nonneg)

lemma stop_line_nonneg: "nonneg_input i \<Longrightarrow> 0 \<le> round2 (fmul (fi_stop_count i) (fi_charge_per_stop i))"
  by (intro line_nonneg) (simp_all add: nonneg_input_def)

lemma waiting_line_nonneg:
  "nonneg_input i \<Longrightarrow> 0 \<le> round2 (fmul (fi_trip_hours i) (coalesce (hour_rate (fi_rate_card i)) 0))"
  by (intro line_nonneg) (simp_all add: nonneg_input_def)

lemma allowance_line_nonneg:
  "nonneg_input i \<Longrightarrow> 0 \<le> round2 (fmul (of_int (trip_days (fi_trip_hours i)))
     (coalesce (driver_allowance_per_day (fi_rate_card i)) 0))"
  by (intro line_nonneg) (simp_all add: nonneg_input_def trip_days_def)

lemma per_km_nonneg: "nonneg_input i \<Longrightarrow> 0 \<le> per_km_rate i"
  by (auto simp: per_km_rate_def nonneg_input_def split: option.split)

text \<open>The part of \<open>nonneg_input\<close> the minimum needs: nothing about the kilometre and minute rates.\<close>

definition floor_input :: "fare_input \<Rightarrow> bool" where
  "floor_input i \<longleftrightarrow> 0 \<le> fi_stop_count i \<and> 0 \<le> fi_charge_per_stop i \<and> 1 \<le> fi_surge_multiplier i
     \<and> 0 \<le> coalesce (driver_allowance_per_day (fi_rate_card i)) 0"

lemma nonneg_floor: "nonneg_input i \<Longrightarrow> floor_input i"
  by (simp add: nonneg_input_def floor_input_def)

lemma surge_nonneg: "floor_input i \<Longrightarrow> 0 \<le> fsub (fi_surge_multiplier i) 1"
  by (simp add: floor_input_def fsub_def fl_nonneg)

text \<open>Lines added to a floored amount keep it above the minimum.\<close>

lemma floored_ge: "is_amount mf \<Longrightarrow> mf \<le> round2 (max m mf)"
  using round2_mono [of mf "max m mf"] by simp

lemma round2_keeps: "is_amount mf \<Longrightarrow> mf \<le> x \<Longrightarrow> mf \<le> round2 x"
  using round2_mono [of mf x] by simp

lemma fadd_keeps: "is_amount mf \<Longrightarrow> mf \<le> x \<Longrightarrow> 0 \<le> y \<Longrightarrow> mf \<le> fadd x y"
  using fadd_mono [of mf x 0 y] by (simp add: fadd_def is_amount_fl)

lemma surged_keeps:
  assumes "is_amount mf" "mf \<le> st" "floor_input i" "sg = round2 (fmul st (fsub (fi_surge_multiplier i) 1))"
  shows "mf \<le> round2 (fadd st sg)"
  using assms is_amount_nonneg [of mf] surge_nonneg [of i]
  by (intro round2_keeps fadd_keeps) (auto intro!: round2_nonneg fmul_nonneg)

text \<open>
  C37. Outside fixed-package rentals the total never falls below the rate card's minimum fare,
  whatever the distance and duration, and the stops, allowance, waiting and surge only come
  on top of it.
\<close>

theorem total_ge_min_fare:
  assumes ok: "amounts_ok i" and nn: "floor_input i"
    and np: "fi_ride_type i = rental \<Longrightarrow> fi_package_fare i = None"
  shows "min_fare (fi_rate_card i) \<le> total (calculateFare i)"
proof -
  have mf: "is_amount (min_fare (fi_rate_card i))" using ok by (simp add: amounts_ok_def card_amounts_def)
  note fb = is_amount_nonneg [OF flat_base_amount [OF ok]]
  have lines: "0 \<le> round2 (fmul (fi_stop_count i) (fi_charge_per_stop i))"
    "0 \<le> round2 (fmul (of_int (trip_days (fi_trip_hours i))) (coalesce (driver_allowance_per_day (fi_rate_card i)) 0))"
    by (rule line_nonneg; use nn in \<open>simp add: floor_input_def trip_days_def\<close>)+
  note keep = floored_ge fadd_keeps round2_keeps mf fb lines
  show ?thesis
  proof (cases i rule: calculateFare_cases)
    case hourly
    then have "0 \<le> round2 (fmul (fi_trip_hours i) (coalesce (hour_rate (fi_rate_card i)) 0))"
      by (intro line_nonneg)
    note keep = keep this
    have "min_fare (fi_rate_card i) \<le> subtotal (hourly_round_trip_fare i)"
      unfolding hourly_fields(8) hourly_fields(3,4) coalesce_simps by (intro keep)
    from surged_keeps [OF mf this nn hourly_fields(9)] show ?thesis using hourly by (simp add: hourly_fields(10))
  next
    case daily
    have "min_fare (fi_rate_card i) \<le> subtotal (daily_round_trip_fare i)"
      unfolding daily_fields(8) daily_fields(4,5) by (intro keep)
    from surged_keeps [OF mf this nn daily_fields(9)] show ?thesis using daily by (simp add: daily_fields(10))
  next
    case metered
    have "min_fare (fi_rate_card i) \<le> subtotal (one_way_fare i)"
      unfolding one_way_fields(8) one_way_fields(4) by (intro keep)
    from surged_keeps [OF mf this nn one_way_fields(9)] show ?thesis using metered by (simp add: one_way_fields(10))
  qed (use np in simp)
qed

definition demo_card :: rate_card where
  "demo_card = \<lparr>rate_per_km = 12, rate_per_min = 3 / 2, min_fare = 150, rc_base_fare = Some 40,
     return_rate_per_km = None, hour_rate = Some 120, km_per_day = Some 250,
     driver_allowance_per_day = Some 300\<rparr>"

definition demo_trip :: fare_input where
  "demo_trip = \<lparr>fi_rate_card = demo_card, fi_ride_type = one_way, fi_is_return_cab = False,
     fi_estimated_km = fl (87 / 10), fi_estimated_min = fl (213 / 10), fi_stop_count = 1,
     fi_charge_per_stop = 20, fi_trip_hours = 0, fi_pricing_version = None,
     fi_surge_multiplier = fl (12 / 10), fi_overage_km = None, fi_overage_min = None,
     fi_extra_per_km = None, fi_extra_per_min = None, fi_package_fare = None\<rparr>"

lemma demo_trip_ok: "amounts_ok demo_trip" "nonneg_input demo_trip" "lines_in_range (calculateFare demo_trip)"
  by code_simp+

lemma breakdown_adds_up_witness:
  "sum_list (map cents (fare_lines (calculateFare demo_trip))) = cents (total (calculateFare demo_trip))"
  by (rule breakdown_adds_up [OF demo_trip_ok(1,3)])

lemma total_ge_min_fare_witness: "min_fare (fi_rate_card demo_trip) \<le> total (calculateFare demo_trip)"
  by (rule total_ge_min_fare [OF demo_trip_ok(1) nonneg_floor [OF demo_trip_ok(2)]]) (simp add: demo_trip_def)

text \<open>Monotonicity.\<close>

lemma surged_mono:
  assumes "st \<le> st'" "0 \<le> st" "1 \<le> s" "s \<le> s'"
  shows "round2 (fadd st (round2 (fmul st (fsub s 1)))) \<le> round2 (fadd st' (round2 (fmul st' (fsub s' 1))))"
  using assms by (intro round2_mono fadd_mono fmul_mono fsub_mono) (simp_all add: fsub_def fl_nonneg)

lemma metered_nonneg:
  assumes "is_amount mf" "is_amount fb" "0 \<le> a" "0 \<le> b"
  shows "0 \<le> round2 (fadd (fadd (fadd (round2 (max m mf)) fb) a) b)"
  using assms is_amount_nonneg [of mf] is_amount_nonneg [of fb]
  by (intro round2_nonneg fadd_nonneg) (auto simp: max_def)

definition longer_trip :: "fare_input \<Rightarrow> num \<Rightarrow> num \<Rightarrow> num \<Rightarrow> fare_input" where
  "longer_trip i km mins s = i\<lparr>fi_estimated_km := km, fi_estimated_min := mins, fi_surge_multiplier := s\<rparr>"

lemma longer_trip_simps:
  "per_km_rate (longer_trip i km mins s) = per_km_rate i" "flat_base (longer_trip i km mins s) = flat_base i"
  "package_km (longer_trip i km mins s) = package_km i" "fi_rate_card (longer_trip i km mins s) = fi_rate_card i"
  "fi_stop_count (longer_trip i km mins s) = fi_stop_count i"
  "fi_charge_per_stop (longer_trip i km mins s) = fi_charge_per_stop i"
  "fi_trip_hours (longer_trip i km mins s) = fi_trip_hours i" "fi_estimated_km (longer_trip i km mins s) = km"
  "fi_estimated_min (longer_trip i km mins s) = mins" "fi_surge_multiplier (longer_trip i km mins s) = s"
  "overage_fare (rental_package_fare pf (longer_trip i km mins s)) = overage_fare (rental_package_fare pf i)"
  by (simp_all add: longer_trip_def per_km_rate_def flat_base_def package_km_def package_fields split: option.split)

lemma one_way_mono:
  assumes "amounts_ok i" "nonneg_input i" "fi_estimated_km i \<le> km" "fi_estimated_min i \<le> mins" "fi_surge_multiplier i \<le> s"
  shows "total (one_way_fare i) \<le> total (one_way_fare (longer_trip i km mins s))"
proof -
  let ?j = "longer_trip i km mins s"
  have nn: "0 \<le> fi_estimated_km i" "0 \<le> fi_estimated_min i" "0 \<le> rate_per_min (fi_rate_card i)" "1 \<le> fi_surge_multiplier i"
    using assms(2) by (simp_all add: nonneg_input_def)
  have mf: "is_amount (min_fare (fi_rate_card i))" using assms(1) by (simp add: amounts_ok_def card_amounts_def)
  have d: "distance_fare (one_way_fare i) \<le> distance_fare (one_way_fare ?j)"
    "time_fare (one_way_fare i) \<le> time_fare (one_way_fare ?j)"
    unfolding one_way_fields longer_trip_simps using nn assms(3,4) per_km_nonneg [OF assms(2)]
    by (auto intro!: round2_mono fmul_mono)
  have "subtotal (one_way_fare i) \<le> subtotal (one_way_fare ?j)"
    unfolding one_way_fields(8) one_way_fields(4) longer_trip_simps
    by (intro round2_mono fadd_mono max.mono d order_refl)
  moreover have "0 \<le> subtotal (one_way_fare i)"
    using metered_nonneg [OF mf flat_base_amount [OF assms(1)] stop_line_nonneg [OF assms(2)], of 0]
    unfolding one_way_fields(8) one_way_fields(4) by (simp add: fadd_0_fadd)
  ultimately show ?thesis
    unfolding one_way_fields(10) one_way_fields(9) longer_trip_simps using nn(4) assms(5) by (intro surged_mono)
qed

lemma hourly_mono:
  assumes "amounts_ok i" "nonneg_input i" "fi_estimated_km i \<le> km" "fi_surge_multiplier i \<le> s"
  shows "total (hourly_round_trip_fare i) \<le> total (hourly_round_trip_fare (longer_trip i km mins s))"
proof -
  let ?j = "longer_trip i km mins s"
  have nn: "0 \<le> fi_estimated_km i" "1 \<le> fi_surge_multiplier i" using assms(2) by (simp_all add: nonneg_input_def)
  have mf: "is_amount (min_fare (fi_rate_card i))" using assms(1) by (simp add: amounts_ok_def card_amounts_def)
  have d: "distance_fare (hourly_round_trip_fare i) \<le> distance_fare (hourly_round_trip_fare ?j)"
    unfolding hourly_fields longer_trip_simps using nn assms(3) per_km_nonneg [OF assms(2)]
    by (auto intro!: round2_mono fmul_mono)
  have "subtotal (hourly_round_trip_fare i) \<le> subtotal (hourly_round_trip_fare ?j)"
    unfolding hourly_fields(8) hourly_fields(3,4) longer_trip_simps
    by (intro round2_mono fadd_mono max.mono d order_refl)
  moreover have "0 \<le> subtotal (hourly_round_trip_fare i)"
    unfolding hourly_fields(8) hourly_fields(3,4) coalesce_simps
    by (rule metered_nonneg [OF mf flat_base_amount [OF assms(1)] waiting_line_nonneg [OF assms(2)] stop_line_nonneg [OF assms(2)]])
  ultimately show ?thesis
    unfolding hourly_fields(10) hourly_fields(9) longer_trip_simps using nn(2) assms(4) by (intro surged_mono)
qed

lemma daily_mono:
  assumes "amounts_ok i" "nonneg_input i" "fi_estimated_km i \<le> km" "fi_surge_multiplier i \<le> s"
  shows "total (daily_round_trip_fare i) \<le> total (daily_round_trip_fare (longer_trip i km mins s))"
proof -
  let ?j = "longer_trip i km mins s"
  have nn: "1 \<le> fi_surge_multiplier i" using assms(2) by (simp_all add: nonneg_input_def)
  have mf: "is_amount (min_fare (fi_rate_card i))" using assms(1) by (simp add: amounts_ok_def card_amounts_def)
  have d: "overage_fare (daily_round_trip_fare i) \<le> overage_fare (daily_round_trip_fare ?j)"
    unfolding daily_fields longer_trip_simps using assms(3) per_km_nonneg [OF assms(2)]
    by (intro round2_mono fmul_mono max.mono fsub_mono) auto
  have "subtotal (daily_round_trip_fare i) \<le> subtotal (daily_round_trip_fare ?j)"
    unfolding daily_fields(8) daily_fields(2,4,5) longer_trip_simps
    by (intro round2_mono fadd_mono max.mono d order_refl)
  moreover have "0 \<le> subtotal (daily_round_trip_fare i)"
    unfolding daily_fields(8) daily_fields(4,5)
    by (rule metered_nonneg [OF mf flat_base_amount [OF assms(1)] stop_line_nonneg [OF assms(2)] allowance_line_nonneg [OF assms(2)]])
  ultimately show ?thesis
    unfolding daily_fields(10) daily_fields(9) longer_trip_simps using nn assms(4) by (intro surged_mono)
qed

lemma package_mono:
  assumes "is_amount pf" "nonneg_input i" "fi_surge_multiplier i \<le> s"
  shows "total (rental_package_fare pf i) \<le> total (rental_package_fare pf (longer_trip i km mins s))"
proof -
  have "0 \<le> overage_fare (rental_package_fare pf i)" using assms(2)
    unfolding package_fields by (intro round2_nonneg fadd_nonneg fmul_nonneg) (simp_all add: nonneg_input_def)
  then have "0 \<le> subtotal (rental_package_fare pf i)"
    unfolding package_fields(8) using is_amount_nonneg [OF assms(1)] by (intro round2_nonneg fadd_nonneg)
  moreover have "subtotal (rental_package_fare pf (longer_trip i km mins s)) = subtotal (rental_package_fare pf i)"
    unfolding package_fields(8) longer_trip_simps ..
  ultimately show ?thesis using assms(2,3)
    unfolding package_fields(9,10) longer_trip_simps by (auto intro!: surged_mono simp: nonneg_input_def)
qed

lemma calculateFare_longer:
  "calculateFare (longer_trip i km mins s) = (case (fi_ride_type i, fi_package_fare i) of
        (rental, Some pf) \<Rightarrow> rental_package_fare pf (longer_trip i km mins s)
      | (round_trip, _) \<Rightarrow>
          if isHourlyRoundTrip (Some (coalesce (fi_pricing_version i) 1)) (fi_trip_hours i)
               (hour_rate (fi_rate_card i))
          then hourly_round_trip_fare (longer_trip i km mins s) else daily_round_trip_fare (longer_trip i km mins s)
      | _ \<Rightarrow> one_way_fare (longer_trip i km mins s))"
  unfolding calculateFare_def by (simp add: longer_trip_def)

text \<open>
  C38. A longer, slower or more surged trip never costs less: the total is monotone in the
  kilometres, the minutes and the surge multiplier, through every rounding step.
\<close>

theorem total_monotone:
  assumes "amounts_ok i" "nonneg_input i"
    and "fi_estimated_km i \<le> km" "fi_estimated_min i \<le> mins" "fi_surge_multiplier i \<le> s"
  shows "total (calculateFare i) \<le> total (calculateFare (longer_trip i km mins s))"
proof -
  have "is_amount pf" if "fi_package_fare i = Some pf" for pf
    using assms(1) that by (simp add: amounts_ok_def)
  then show ?thesis
    using one_way_mono [OF assms] hourly_mono [OF assms(1,2,3,5)] daily_mono [OF assms(1,2,3,5)]
      package_mono [OF _ assms(2,5)]
    unfolding calculateFare_longer unfolding calculateFare_def [of i]
    by (cases "fi_ride_type i"; cases "fi_package_fare i") simp_all
qed

lemma total_monotone_witness:
  "total (calculateFare demo_trip) \<le> total (calculateFare (longer_trip demo_trip 10 30 2))"
  by (rule total_monotone [OF demo_trip_ok(1,2)]) code_simp+

subsection \<open>Rental settlement\<close>

lemma settle_rental_fields:
  fixes pkg base surge gps el grace mx
  defines "r \<equiv> settleRentalFare pkg base surge gps el grace mx"
    and "maxKm \<equiv> fmul (fdiv el 60) mx"
  shows "measured_km r = (case gps of Some km \<Rightarrow> if km \<le> maxKm then Some km else None | None \<Rightarrow> None)"
    and "rs_overage_km r = (case measured_km r of None \<Rightarrow> 0
       | Some km \<Rightarrow> round2 (max 0 (fsub (fsub km (km_limit pkg)) (fst grace))))"
    and "rs_overage_min r = round2 (max 0 (fsub (fsub el (duration_minutes pkg)) (snd grace)))"
    and "rs_overage_fare r = round2 (fadd (fmul (rs_overage_km r) (pkg_extra_per_km pkg))
       (fmul (rs_overage_min r) (pkg_extra_per_min pkg)))"
    and "rs_total r = (let st = round2 (fadd base (rs_overage_fare r))
       in round2 (fadd st (round2 (fmul st (fsub surge 1)))))"
    and "rs_review r = (if 0 < rs_overage_km r then Some KmOverageFromGps
       else if measured_km r = None \<and> km_limit pkg < maxKm then Some KmOverageNotBilled else None)"
  unfolding r_def maxKm_def settleRentalFare_def rentalOverage_def Let_def calculateFare_def
    rental_package_fare_def
  by (simp_all add: case_prod_beta split: option.split)

lemma over_zero: "x \<le> l + g \<Longrightarrow> fl g = g \<Longrightarrow> round2 (max 0 (fsub (fsub x l) g)) = 0"
proof -
  assume a: "x \<le> l + g" "fl g = g"
  have "fl (x - l) \<le> g" using fl_mono [of "x - l" g] a by simp
  then have "fsub (fsub x l) g \<le> 0" unfolding fsub_def by (intro fl_nonpos) simp
  then show ?thesis by (simp add: max_def)
qed

lemma over_pos: "0 < round2 (max 0 (fsub (fsub x l) g)) \<Longrightarrow> fl g = g \<Longrightarrow> l + g < x"
  using over_zero [of x l g] by (cases "x \<le> l + g") auto

text \<open>
  A rider is charged for extra rental kilometres only on a trusted measurement: there is a
  GPS distance, it does not exceed the maximum plausible distance for the elapsed time, it lies
  beyond the package limit plus grace, and the ride is flagged for review. Where the GPS reading
  is missing or implausible the settlement bills no kilometre and is flagged as soon as the trip
  was long enough to have passed the limit.
\<close>

theorem rental_km_overage_trusted:
  fixes pkg base surge gps el grace mx
  defines "r \<equiv> settleRentalFare pkg base surge gps el grace mx"
  assumes g: "fl (fst grace) = fst grace"
  shows "(0 < rs_overage_km r \<longrightarrow> (\<exists>km. gps = Some km \<and> km \<le> fmul (fdiv el 60) mx
            \<and> km_limit pkg + fst grace < km \<and> rs_review r = Some KmOverageFromGps))
    \<and> (\<forall>km. gps = None \<or> gps = Some km \<and> fmul (fdiv el 60) mx < km \<longrightarrow>
         rs_overage_km r = 0 \<and> measured_km r = None
         \<and> (rs_review r = Some KmOverageNotBilled \<longleftrightarrow> km_limit pkg < fmul (fdiv el 60) mx))"
proof -
  note f = settle_rental_fields [of pkg base surge gps el grace mx, folded r_def]
  have "\<exists>km. gps = Some km \<and> km \<le> fmul (fdiv el 60) mx \<and> km_limit pkg + fst grace < km \<and> rs_review r = Some KmOverageFromGps"
    if pos: "0 < rs_overage_km r"
  proof -
    obtain km where km: "measured_km r = Some km" using pos f(2) by (cases "measured_km r") auto
    then have "gps = Some km" "km \<le> fmul (fdiv el 60) mx" using f(1) by (auto split: option.splits if_splits)
    then show ?thesis using over_pos [of km] g pos f(2,6) km by auto
  qed
  moreover have "rs_overage_km r = 0 \<and> measured_km r = None
      \<and> (rs_review r = Some KmOverageNotBilled \<longleftrightarrow> km_limit pkg < fmul (fdiv el 60) mx)"
    if "gps = None \<or> gps = Some km \<and> fmul (fdiv el 60) mx < km" for km
    using that f(1,2,6) by auto
  ultimately show ?thesis by blast
qed

definition demo_pkg :: rental_pkg where
  "demo_pkg = \<lparr>km_limit = 40, duration_minutes = 240, pkg_extra_per_km = 12, pkg_extra_per_min = 2\<rparr>"

lemma rental_km_overage_trusted_witness:
  "\<exists>km. Some 55 = Some km \<and> km \<le> fmul (fdiv 200 60) 60 \<and> km_limit demo_pkg + fst ((2, 5) :: num \<times> num) < km
     \<and> rs_review (settleRentalFare demo_pkg 999 1 (Some 55) 200 (2, 5) 60) = Some KmOverageFromGps"
proof -
  have "0 < round2 (max 0 (fsub (fsub 55 40) 2))" "(55 :: num) \<le> fmul (fdiv 200 60) 60" by code_simp+
  then have "0 < rs_overage_km (settleRentalFare demo_pkg 999 1 (Some 55) 200 (2, 5) 60)"
    unfolding settle_rental_fields(2) settle_rental_fields(1) by (simp only: if_True option.case demo_pkg_def rental_pkg.simps fst_conv)
  moreover have "fl (fst ((2, 5) :: num \<times> num)) = fst ((2, 5) :: num \<times> num)" by code_simp
  ultimately show ?thesis using rental_km_overage_trusted [of "(2, 5)" demo_pkg 999 1 "Some 55" 200 60] by blast
qed

lemma estimate_package:
  assumes "ep_ride_type q = rental" "ep_package_fare q = Some base"
  shows "\<exists>i. estimateFare q = rental_package_fare base i \<and> fi_overage_km i = None \<and> fi_overage_min i = None
     \<and> fi_surge_multiplier i = coalesce (ep_surge_multiplier q) 1"
  unfolding estimateFare_def calculateFare_def fare_input.simps assms prod.case ride_type.case option.case
  by (rule exI, intro conjI, rule refl) simp_all

text \<open>
  Inside the package plus grace, a rental ends at exactly the fare it was quoted at.
\<close>

theorem rental_within_package_is_quote:
  fixes pkg base surge gps el grace mx
  defines "r \<equiv> settleRentalFare pkg base surge gps el grace mx"
  assumes g: "fl (fst grace) = fst grace" "fl (snd grace) = snd grace"
    and el: "el \<le> duration_minutes pkg + snd grace"
    and km: "\<And>km. gps = Some km \<Longrightarrow> km \<le> km_limit pkg + fst grace"
    and q: "ep_ride_type q = rental" "ep_package_fare q = Some base" "coalesce (ep_surge_multiplier q) 1 = surge"
  shows "rs_overage_fare r = 0 \<and> rs_total r = total (estimateFare q)"
proof -
  note f = settle_rental_fields [of pkg base surge gps el grace mx, folded r_def]
  have "rs_overage_km r = 0" using f(1,2) km over_zero [OF _ g(1)] by (auto split: option.splits)
  moreover have "rs_overage_min r = 0" using f(3) over_zero [OF el g(2)] by simp
  ultimately have "rs_overage_fare r = 0" using f(4) by (simp add: fmul_def fadd_def)
  moreover obtain i where i: "estimateFare q = rental_package_fare base i" "fi_overage_km i = None"
      "fi_overage_min i = None" "fi_surge_multiplier i = surge"
    using estimate_package [OF q(1,2)] q(3) by blast
  moreover have "overage_fare (rental_package_fare base i) = 0"
    unfolding package_fields(2) i(2,3) coalesce_simps by (simp add: fmul_def fadd_def)
  ultimately show ?thesis unfolding f(5) i(1) package_fields(10,9,8) i(4) Let_def by simp
qed

definition demo_rental_quote :: estimate_params where
  "demo_rental_quote = \<lparr>ep_rate_card = demo_card, ep_ride_type = rental, ep_is_return_cab = False,
     ep_distance_km = 0, ep_duration_min = 0, ep_stop_count = None, ep_charge_per_stop = None,
     ep_trip_hours = None, ep_pricing_version = None, ep_surge_multiplier = None,
     ep_package_fare = Some 999, ep_extra_per_km = Some 12, ep_extra_per_min = Some 2\<rparr>"

lemma rental_within_package_is_quote_witness:
  "rs_overage_fare (settleRentalFare demo_pkg 999 1 (Some 41) 245 (2, 5) 60) = 0
   \<and> rs_total (settleRentalFare demo_pkg 999 1 (Some 41) 245 (2, 5) 60) = total (estimateFare demo_rental_quote)"
proof (rule rental_within_package_is_quote)
  show "fl (fst (2, 5)) = fst (2, 5 :: num)" "fl (snd (2 :: num, 5)) = snd (2 :: num, 5)" by code_simp+
qed (simp_all add: demo_pkg_def demo_rental_quote_def)

subsection \<open>Round-trip overtime and the booked window\<close>

lemma fl_rel: "0 \<le> x \<Longrightarrow> x * (1 - 1 / 2 ^ 53) \<le> fl x"
  using fl_error [of x] by (simp add: algebra_simps abs_if split: if_splits)

lemma fl_drop: "0 \<le> x \<Longrightarrow> x \<le> 10 ^ 8 \<Longrightarrow> x - 10 ^ 8 * (1 / 2 ^ 53) \<le> fl x"
  using fl_rel [of x] by (simp add: algebra_simps)

lemma fl_of_nat_le: "x \<le> of_int k \<Longrightarrow> \<bar>k\<bar> \<le> 2 ^ 53 \<Longrightarrow> fl x \<le> of_int k"
  using fl_mono [of x "of_int k"] fl_int [of k] by simp

text \<open>
  The overtime minutes in exact arithmetic: for a whole number of booked hours every binary64
  step is either exact or off by less than the sixty-thousandth part that would matter.
\<close>

lemma elapsed_ceiling:
  fixes d h g n :: int
  assumes d: "0 \<le> d" "d \<le> 10 ^ 12" and h: "0 \<le> h" "h \<le> 1000" and g: "0 \<le> g" "g \<le> 1000" and n: "0 \<le> n" "n \<le> 10 ^ 9"
  shows "fsub (fsub (fdiv (of_int d) 60000) (of_int (60 * h))) (of_int g) \<le> of_int n
     \<longleftrightarrow> d \<le> 60000 * (60 * h + g + n)"
proof
  assume le: "d \<le> 60000 * (60 * h + g + n)"
  then have "(of_int d :: num) / 60000 \<le> of_int (60 * h + g + n)"
    using of_int_le_iff [of d "60000 * (60 * h + g + n)", where 'a = rat, THEN iffD2] by simp
  then have "fl (of_int d / 60000) \<le> of_int (60 * h + g + n)" by (rule fl_of_nat_le) (use h g n in simp)
  then have "fl (of_int d / 60000) - of_int (60 * h) \<le> of_int (g + n)" by simp
  then have "fl (fl (of_int d / 60000) - of_int (60 * h)) \<le> of_int (g + n)" by (rule fl_of_nat_le) (use g n in simp)
  then have "fl (fl (of_int d / 60000) - of_int (60 * h)) - of_int g \<le> of_int n" by simp
  then have "fl (fl (fl (of_int d / 60000) - of_int (60 * h)) - of_int g) \<le> of_int n" by (rule fl_of_nat_le) (use n in simp)
  then show "fsub (fsub (fdiv (of_int d) 60000) (of_int (60 * h))) (of_int g) \<le> of_int n"
    by (simp add: fsub_def fdiv_def)
next
  assume r: "fsub (fsub (fdiv (of_int d) 60000) (of_int (60 * h))) (of_int g) \<le> of_int n"
  let ?a = "fl (of_int d / 60000)" and ?e = "1 / 2 ^ 53 :: rat"
  let ?b = "fl (?a - of_int (60 * h))"
  show "d \<le> 60000 * (60 * h + g + n)"
  proof (rule ccontr)
    assume "\<not> d \<le> 60000 * (60 * h + g + n)"
    then have "60000 * (60 * h + g + n) + 1 \<le> d" by simp
    then have "of_int (60000 * (60 * h + g + n) + 1) \<le> (of_int d :: rat)" by (subst of_int_le_iff)
    then have x: "of_int (60 * h) + of_int g + of_int n + 1 / 60000 \<le> (of_int d :: rat) / 60000" by simp
    have dB: "(of_int d :: rat) / 60000 \<le> 10 ^ 8" using d(2) of_int_le_iff [of d "10 ^ 12", where 'a = rat] by simp
    have a: "of_int d / 60000 - 10 ^ 8 * ?e \<le> ?a" "?a \<le> 10 ^ 8"
      using fl_drop [OF _ dB] d(1) fl_of_nat_le [of "of_int d / 60000" "10 ^ 8"] dB by simp_all
    have ab: "of_int g + of_int n + 1 / 60000 - 10 ^ 8 * ?e \<le> ?a - of_int (60 * h)" using x a by linarith
    have gn: "0 \<le> (of_int g :: rat)" "0 \<le> (of_int n :: rat)" "0 \<le> (of_int h :: rat)" using g n h by simp_all
    then have "0 \<le> ?a - of_int (60 * h)" using ab by simp
    from fl_drop [OF this] have b: "?a - of_int (60 * h) - 10 ^ 8 * ?e \<le> ?b"
      using a(2) gn by simp
    have bB: "?b \<le> 10 ^ 8" using fl_of_nat_le [of "?a - of_int (60 * h)" "10 ^ 8"] a(2) gn by simp
    have bc: "of_int n + 1 / 60000 - 2 * 10 ^ 8 * ?e \<le> ?b - of_int g" using ab b by linarith
    then have "0 \<le> ?b - of_int g" using gn by simp
    from fl_drop [OF this] have "?b - of_int g - 10 ^ 8 * ?e \<le> fl (?b - of_int g)"
      using bB gn by simp
    then have "of_int n < fl (?b - of_int g)" using bc by simp
    then show False using r by (simp add: fsub_def fdiv_def)
  qed
qed

text \<open>
  Booked whole hours: the overtime is the number of started minutes past the booked end plus
  the grace.
\<close>

lemma overtime_exact:
  assumes d: "0 \<le> completed - started" "completed - started \<le> 10 ^ 12" and h: "0 \<le> h" "h \<le> 1000"
  shows "overtime_min (settleRoundTripOvertime started completed (of_int h) rate None None)
     = max 0 \<lceil>of_int (completed - (started + h * 3600000 + 300000)) / (60000 :: rat)\<rceil>"
proof -
  let ?x = "fsub (fsub (fdiv (of_int (completed - started)) 60000) (of_int (60 * h))) (of_int 5)"
  let ?y = "of_int (completed - (started + h * 3600000 + 300000)) / 60000 :: rat"
  have hr: "fmul (of_int h) 60 = of_int (60 * h)"
    using fl_int [of "h * 60"] h unfolding fmul_def by (simp add: mult.commute)
  have xB: "?x \<le> of_int (10 ^ 9)"
    using elapsed_ceiling [OF d h, of 5 "10 ^ 9"] d(2) h(1) by simp
  have yB: "?y \<le> of_int (10 ^ 9)" using d(2) h(1) of_int_le_iff [of "completed - started" "10 ^ 12", where 'a = rat] by simp
  have iff: "\<lceil>?x\<rceil> \<le> n \<longleftrightarrow> \<lceil>?y\<rceil> \<le> n" if n: "0 \<le> n" "n \<le> 10 ^ 9" for n
  proof -
    have "\<lceil>?y\<rceil> \<le> n \<longleftrightarrow> of_int (completed - (started + h * 3600000 + 300000)) \<le> (of_int (n * 60000) :: rat)"
      by (simp add: ceiling_le_iff divide_le_eq)
    also have "\<dots> \<longleftrightarrow> completed - started \<le> 60000 * (60 * h + 5 + n)" unfolding of_int_le_iff by arith
    also have "\<dots> \<longleftrightarrow> \<lceil>?x\<rceil> \<le> n" using elapsed_ceiling [OF d h _ _ n, of 5] by (simp add: ceiling_le_iff)
    finally show ?thesis ..
  qed
  have "max 0 \<lceil>?x\<rceil> = max 0 \<lceil>?y\<rceil>"
  proof (rule antisym)
    have "\<lceil>?y\<rceil> \<le> 10 ^ 9" "\<lceil>?x\<rceil> \<le> 10 ^ 9" using xB yB by (simp_all add: ceiling_le_iff)
    then show "max 0 \<lceil>?x\<rceil> \<le> max 0 \<lceil>?y\<rceil>" "max 0 \<lceil>?y\<rceil> \<le> max 0 \<lceil>?x\<rceil>"
      using iff [of "max 0 \<lceil>?y\<rceil>"] iff [of "max 0 \<lceil>?x\<rceil>"] by auto
  qed
  then show ?thesis
    unfolding settleRoundTripOvertime_def Let_def elapsed_minutes_def coalesce_simps hr
      ROUND_TRIP_OVERTIME_GRACE_MIN_def by simp
qed

text \<open>
  Overtime agrees with the window the apps show. For a completed hourly round trip booked
  for a whole number of hours, overtime is billed exactly when the trip ended after the shown
  end (\<open>bookedUntil\<close>) plus the shown grace; it is then the number of started minutes past that
  moment, and its fare is that many sixtieths of the hourly rate rounded to whole rupees.
\<close>

theorem overtime_matches_window:
  assumes row: "tw_ride_type row = round_trip" "tw_started_at row = Some started" "tw_trip_hours row = Some (of_int h)"
    and hourly: "isHourlyRoundTrip (tw_pricing_version row) (of_int h) (tw_hour_rate row)"
    and t: "0 \<le> started" "started \<le> completed" "completed \<le> 10 ^ 13" "completed - started \<le> 10 ^ 12"
  defines "s \<equiv> settleRoundTripOvertime started completed (of_int h) (coalesce (tw_hour_rate row) 0) None None"
  shows "\<exists>until grace. bookedUntil (tripWindowFields row) = Some until
      \<and> overtimeGraceMin (tripWindowFields row) = Some grace
      \<and> (0 < overtime_min s \<longleftrightarrow> of_int until + grace * 60000 < (of_int completed :: rat))
      \<and> overtime_min s = max 0 \<lceil>(of_int completed - (of_int until + grace * 60000)) / 60000\<rceil>
      \<and> (overtime_min s = 0 \<longrightarrow> overtime_fare s = 0) \<and> 0 \<le> overtime_fare s"
proof -
  have h: "1 \<le> h" "h \<le> 24" using hourly by (auto simp: isHourlyRoundTrip_def ROUND_TRIP_HOURLY_MAX_HOURS_def)
  have "fadd (of_int started) (fmul (of_int h) 3600000) = of_int (started + h * 3600000)"
    using fl_int [of "h * 3600000"] fl_int [of "started + h * 3600000"] h t unfolding fadd_def fmul_def by simp
  then have u: "bookedUntil (tripWindowFields row) = Some (started + h * 3600000)"
    "overtimeGraceMin (tripWindowFields row) = Some 5"
    using row hourly unfolding tripWindowFields_def Let_def ROUND_TRIP_OVERTIME_GRACE_MIN_def
    by (simp_all del: of_int_add of_int_mult)
  have om: "overtime_min s = max 0 \<lceil>of_int (completed - (started + h * 3600000 + 300000)) / (60000 :: rat)\<rceil>"
    unfolding s_def by (rule overtime_exact) (use t h in auto)
  have "0 < overtime_min s \<longleftrightarrow> (0 :: rat) < of_int (completed - (started + h * 3600000 + 300000))"
    unfolding om by (simp add: less_max_iff_disj zero_less_divide_iff)
  also have "\<dots> \<longleftrightarrow> of_int (started + h * 3600000) + 5 * 60000 < (of_int completed :: rat)" by simp
  finally have pos: "0 < overtime_min s \<longleftrightarrow> of_int (started + h * 3600000) + 5 * 60000 < (of_int completed :: rat)" .
  have fare: "overtime_fare s = js_round (fdiv (fmul (of_int (overtime_min s)) (coalesce (tw_hour_rate row) 0)) 60)"
    unfolding s_def settleRoundTripOvertime_def Let_def by simp
  have "0 \<le> overtime_min s" unfolding om by simp
  moreover have "0 \<le> coalesce (tw_hour_rate row) 0" using hourly by (simp add: isHourlyRoundTrip_def)
  ultimately have "0 \<le> overtime_fare s" unfolding fare by (intro js_round_nonneg fdiv_nonneg fmul_nonneg) simp_all
  moreover have "overtime_min s = 0 \<longrightarrow> overtime_fare s = 0" unfolding fare by (simp add: fmul_def fdiv_def)
  moreover have "overtime_min s = max 0 \<lceil>(of_int completed - (of_int (started + h * 3600000) + 5 * 60000)) / (60000 :: rat)\<rceil>"
    unfolding om by (simp add: algebra_simps)
  ultimately show ?thesis using u pos by blast
qed

definition demo_window :: trip_window_row where
  "demo_window = \<lparr>tw_ride_type = round_trip, tw_completed = True, tw_started_at = Some 1700000000000,
     tw_trip_hours = Some 4, tw_pricing_version = Some 2, tw_hour_rate = Some 120,
     tw_overtime_min = Some 0, tw_overtime_fare = Some 0\<rparr>"

lemma overtime_matches_window_witness:
  "\<exists>until grace. bookedUntil (tripWindowFields demo_window) = Some until
      \<and> overtimeGraceMin (tripWindowFields demo_window) = Some grace
      \<and> (0 < overtime_min (settleRoundTripOvertime 1700000000000 1700016000000 4 120 None None)
           \<longleftrightarrow> of_int until + grace * 60000 < (of_int 1700016000000 :: rat))"
proof -
  have "isHourlyRoundTrip (tw_pricing_version demo_window) (of_int 4) (tw_hour_rate demo_window)"
    by (simp add: isHourlyRoundTrip_def demo_window_def ROUND_TRIP_HOURLY_MAX_HOURS_def)
  from overtime_matches_window [OF _ _ _ this, of 1700000000000 1700016000000] show ?thesis
    by (auto simp: demo_window_def)
qed

end
