(* ===== verification/Pricing.thy ===== *)
theory Pricing
  imports Fare "HOL-Library.Product_Lexorder"
begin

text \<open>
  Quotes, \<open>api/src/modules/pricing\<close>: rate cards, surge events and rental packages as tables (a
  table is the list of its rows in insertion order, money columns in paise), the lookups of
  \<open>pricing.repository.ts\<close>, the admin writes and \<open>getFareEstimate\<close> of \<open>pricing.service.ts\<close>.
  Redis is bypassed here: the lookups are the database reads behind the cache.
\<close>

subsection \<open>Tables\<close>

record rate_card_row =
  rc_id :: nat
  rc_category :: nat
  rc_ride_type :: ride_type
  rc_city :: "nat option"
  rc_per_km :: paise
  rc_per_min :: paise
  rc_min_fare :: paise
  rc_return_per_km :: "paise option"
  rc_hour_rate :: "paise option"
  rc_km_per_day :: "paise option"
  rc_allowance :: "paise option"
  rc_stop_charge :: paise
  rc_base :: paise
  rc_cancellation_fee :: "paise option"
  rc_effective_to :: "int option"
  rc_created_by :: "nat option"

datatype surge_status = SurgeScheduled | SurgeActive | SurgeExpired | SurgeCancelled

record surge_row =
  su_id :: nat
  su_city :: nat
  su_category :: "nat option"
  su_multiplier :: paise
  su_status :: surge_status
  su_starts_at :: int
  su_ends_at :: int
  su_created_by :: nat
  su_cancelled :: "(nat \<times> int) option"

record package_row =
  pk_id :: nat
  pk_category :: nat
  pk_city :: "nat option"
  pk_duration :: nat
  pk_km_limit :: nat
  pk_fare :: paise
  pk_extra_km :: paise
  pk_extra_min :: paise
  pk_active :: bool
  pk_display_order :: int

record card_history_row =
  ch_card :: nat
  ch_rates :: "paise \<times> paise \<times> paise \<times> paise option \<times> paise option \<times> paise option \<times> paise option"
  ch_city :: "nat option"
  ch_by :: nat
  ch_stop_charge :: paise
  ch_base :: paise

record pricing_db =
  rate_cards :: "rate_card_row list"
  surge_events :: "surge_row list"
  packages :: "package_row list"
  card_history :: "card_history_row list"
  next_card :: nat
  next_surge :: nat

subsection \<open>Lookups\<close>

definition card_matches :: "nat \<Rightarrow> ride_type \<Rightarrow> nat option \<Rightarrow> rate_card_row \<Rightarrow> bool" where
  "card_matches categoryId rideType cityId rc \<longleftrightarrow>
     rc_category rc = categoryId \<and> rc_ride_type rc = rideType \<and> rc_effective_to rc = None
     \<and> (cityId \<noteq> None \<and> rc_city rc = cityId \<or> rc_city rc = None)"

definition fetchCurrentRateCardFromDb :: "pricing_db \<Rightarrow> nat \<Rightarrow> ride_type \<Rightarrow> nat option \<Rightarrow> rate_card_row option" where
  "fetchCurrentRateCardFromDb db categoryId rideType cityId =
     order_limit1 (\<lambda>rc. nulls_last (rc_city rc)) (filter (card_matches categoryId rideType cityId) (rate_cards db))"

definition fetchRentalPackageFromDb :: "pricing_db \<Rightarrow> nat \<Rightarrow> package_row option" where
  "fetchRentalPackageFromDb db packageId = find (\<lambda>p. pk_id p = packageId \<and> pk_active p) (packages db)"

definition surge_applies :: "nat \<Rightarrow> nat \<Rightarrow> int \<Rightarrow> surge_row \<Rightarrow> bool" where
  "surge_applies cityId categoryId now se \<longleftrightarrow> su_city se = cityId
     \<and> (su_category se = Some categoryId \<or> su_category se = None)
     \<and> su_status se \<in> {SurgeScheduled, SurgeActive} \<and> su_starts_at se \<le> now \<and> now < su_ends_at se"

definition fetchActiveSurgeFromDb :: "pricing_db \<Rightarrow> nat \<Rightarrow> nat \<Rightarrow> int \<Rightarrow> surge_row option" where
  "fetchActiveSurgeFromDb db cityId categoryId now =
     order_limit1 (\<lambda>se. (nulls_last (su_category se), - su_multiplier se))
       (filter (surge_applies cityId categoryId now) (surge_events db))"

text \<open>\<open>DISTINCT ON (duration, km)\<close> keeps the first row of each tier in the inner order.\<close>

fun distinct_on :: "('a \<Rightarrow> 'k) \<Rightarrow> 'a list \<Rightarrow> 'a list" where
  "distinct_on f [] = []"
| "distinct_on f (x # xs) = x # filter (\<lambda>y. f y \<noteq> f x) (distinct_on f xs)"

definition getRentalPackagesByCategory :: "pricing_db \<Rightarrow> nat \<Rightarrow> nat option \<Rightarrow> package_row list" where
  "getRentalPackagesByCategory db categoryId cityId =
     sort_key (\<lambda>p. (pk_display_order p, pk_duration p))
       (distinct_on (\<lambda>p. (pk_duration p, pk_km_limit p))
         (sort_key (\<lambda>p. (pk_duration p, pk_km_limit p, nulls_last (pk_city p)))
           (filter (\<lambda>p. pk_category p = categoryId \<and> pk_active p
              \<and> (cityId \<noteq> None \<and> pk_city p = cityId \<or> pk_city p = None)) (packages db))))"

subsection \<open>Admin writes\<close>

record surge_data =
  sd_city :: nat
  sd_category :: "nat option"
  sd_multiplier :: num
  sd_starts_at :: int
  sd_ends_at :: int
  sd_admin :: nat

text \<open>A constraint violation surfaces as an unhandled error: status 500, no code.\<close>

definition db_error :: app_error where "db_error = http_err 500 ''''"

definition createSurgeEvent :: "surge_data \<Rightarrow> pricing_db \<Rightarrow> surge_row res \<times> pricing_db" where
  "createSurgeEvent d db =
     (let m = to_paise (sd_multiplier d);
          row = \<lparr>su_id = next_surge db, su_city = sd_city d, su_category = sd_category d,
            su_multiplier = m, su_status = SurgeScheduled, su_starts_at = sd_starts_at d,
            su_ends_at = sd_ends_at d, su_created_by = sd_admin d, su_cancelled = None\<rparr>
      in if m < 100 \<or> 500 < m \<or> sd_ends_at d \<le> sd_starts_at d then (Inl db_error, db)
         else (Inr row, db\<lparr>surge_events := surge_events db @ [row], next_surge := next_surge db + 1\<rparr>))"

definition cancelSurgeEvent :: "nat \<Rightarrow> nat \<Rightarrow> int \<Rightarrow> pricing_db \<Rightarrow> surge_row res \<times> pricing_db" where
  "cancelSurgeEvent i adminId now db =
     (let hit = (\<lambda>se. su_id se = i \<and> su_status se \<in> {SurgeScheduled, SurgeActive});
          cancel = (\<lambda>se. se\<lparr>su_status := SurgeCancelled, su_cancelled := Some (adminId, now)\<rparr>)
      in case find hit (surge_events db) of
           None \<Rightarrow> (Inl (http_err 404 ''''), db)
         | Some se \<Rightarrow> (Inr (cancel se),
             db\<lparr>surge_events := map (\<lambda>s. if hit s then cancel s else s) (surge_events db)\<rparr>))"

record card_data =
  cd_category :: nat
  cd_ride_type :: ride_type
  cd_per_km :: num
  cd_per_min :: num
  cd_min_fare :: num
  cd_return_per_km :: "num option"
  cd_hour_rate :: "num option"
  cd_km_per_day :: "num option"
  cd_allowance :: "num option"
  cd_stop_charge :: "num option"
  cd_base_fare :: "num option"
  cd_city :: "nat option"
  cd_admin :: nat

definition numeric_fits :: "nat \<Rightarrow> paise \<Rightarrow> bool" where
  "numeric_fits p k \<longleftrightarrow> \<bar>k\<bar> < 10 ^ p"

text \<open>The column types and \<open>CHECK\<close>s of \<open>rate_cards\<close>.\<close>

definition card_row_ok :: "rate_card_row \<Rightarrow> bool" where
  "card_row_ok r \<longleftrightarrow> list_all (numeric_fits 8) [rc_per_km r, rc_per_min r, rc_min_fare r, rc_stop_charge r, rc_base r]
     \<and> pred_option (numeric_fits 8) (rc_return_per_km r) \<and> pred_option (numeric_fits 8) (rc_hour_rate r)
     \<and> pred_option (numeric_fits 6) (rc_km_per_day r) \<and> pred_option (numeric_fits 8) (rc_allowance r)
     \<and> 0 < rc_per_km r \<and> 0 \<le> rc_per_min r \<and> 0 < rc_min_fare r
     \<and> pred_option (\<lambda>k. k < rc_per_km r) (rc_return_per_km r)
     \<and> pred_option (\<lambda>k. 0 < k) (rc_km_per_day r) \<and> pred_option (\<lambda>k. 0 \<le> k) (rc_allowance r)
     \<and> 0 \<le> rc_stop_charge r \<and> 0 \<le> rc_base r \<and> pred_option (\<lambda>k. 0 \<le> k) (rc_cancellation_fee r)"

definition same_bucket :: "nat \<Rightarrow> ride_type \<Rightarrow> nat option \<Rightarrow> rate_card_row \<Rightarrow> bool" where
  "same_bucket cat rt city r \<longleftrightarrow> rc_category r = cat \<and> rc_ride_type r = rt
     \<and> coalesce (rc_city r) 0 = coalesce city 0 \<and> rc_effective_to r = None"

definition createRateCard :: "card_data \<Rightarrow> int \<Rightarrow> pricing_db \<Rightarrow> rate_card_row res \<times> pricing_db" where
  "createRateCard d now db =
     (let hit = same_bucket (cd_category d) (cd_ride_type d) (cd_city d);
          expired = map (rc_effective_to_update (\<lambda>_. Some now)) (filter hit (rate_cards db));
          old = (case expired of [] \<Rightarrow> None | r # _ \<Rightarrow> Some r);
          history = (case old of None \<Rightarrow> []
            | Some o' \<Rightarrow> [\<lparr>ch_card = rc_id o',
                ch_rates = (rc_per_km o', rc_per_min o', rc_min_fare o', rc_return_per_km o',
                  rc_hour_rate o', rc_km_per_day o', rc_allowance o'),
                ch_city = rc_city o', ch_by = cd_admin d, ch_stop_charge = rc_stop_charge o', ch_base = rc_base o'\<rparr>]);
          row = \<lparr>rc_id = next_card db, rc_category = cd_category d, rc_ride_type = cd_ride_type d, rc_city = cd_city d,
            rc_per_km = to_paise (cd_per_km d), rc_per_min = to_paise (cd_per_min d),
            rc_min_fare = to_paise (cd_min_fare d), rc_return_per_km = map_option to_paise (cd_return_per_km d),
            rc_hour_rate = map_option to_paise (cd_hour_rate d), rc_km_per_day = map_option to_paise (cd_km_per_day d),
            rc_allowance = map_option to_paise (cd_allowance d),
            rc_stop_charge = to_paise (coalesce (cd_stop_charge d) (case old of None \<Rightarrow> 0 | Some o' \<Rightarrow> from_paise (rc_stop_charge o'))),
            rc_base = to_paise (coalesce (cd_base_fare d) (case old of None \<Rightarrow> 0 | Some o' \<Rightarrow> from_paise (rc_base o'))),
            rc_cancellation_fee = (case old of None \<Rightarrow> None | Some o' \<Rightarrow> rc_cancellation_fee o'),
            rc_effective_to = None, rc_created_by = Some (cd_admin d)\<rparr>
      in if card_row_ok row
         then (Inr row, db\<lparr>rate_cards := map (\<lambda>r. if hit r then r\<lparr>rc_effective_to := Some now\<rparr> else r) (rate_cards db) @ [row],
                 card_history := card_history db @ history, next_card := next_card db + 1\<rparr>)
         else (Inl db_error, db))"

subsection \<open>\<open>getFareEstimate\<close>\<close>

text \<open>A number of the request body: finite, or one of \<open>NaN\<close>, \<open>Infinity\<close>.\<close>

datatype js_input = Fin num | NonFinite

fun bad_input :: "js_input option \<Rightarrow> num \<Rightarrow> bool" where
  "bad_input None mx = False"
| "bad_input (Some (Fin v)) mx = (\<not> (0 \<le> v \<and> v \<le> mx))"
| "bad_input (Some NonFinite) mx = True"

fun fin :: "js_input \<Rightarrow> num" where
  "fin (Fin v) = v" | "fin NonFinite = 0"

record fare_request =
  fr_category :: nat
  fr_ride_type :: ride_type
  fr_return_cab :: "bool option"
  fr_distance :: js_input
  fr_duration :: js_input
  fr_stops :: "js_input option"
  fr_hours :: "js_input option"
  fr_package :: "nat option"
  fr_city :: "nat option"
  fr_version :: "int option"

definition clampTripHours :: "ride_type \<Rightarrow> num option \<Rightarrow> num" where
  "clampTripHours rideType tripHours =
     (if rideType = round_trip then max 4 (of_int \<lceil>coalesce tripHours 0\<rceil>) else coalesce tripHours 0)"

definition assertFareInputsInRange :: "fare_request \<Rightarrow> unit res" where
  "assertFareInputsInRange req = guard_err
     (bad_input (Some (fr_distance req)) 2000 \<or> bad_input (Some (fr_duration req)) (60 * 72)
      \<or> bad_input (fr_stops req) 10
      \<or> (case fr_stops req of Some (Fin v) \<Rightarrow> of_int \<lfloor>v\<rfloor> \<noteq> v | Some NonFinite \<Rightarrow> True | None \<Rightarrow> False)
      \<or> bad_input (fr_hours req) (24 * 30)) (http_err 422 ''VALIDATION_ERROR'')"

definition card_rates :: "rate_card_row \<Rightarrow> rate_card" where
  "card_rates rc = \<lparr>rate_per_km = from_paise (rc_per_km rc), rate_per_min = from_paise (rc_per_min rc),
     min_fare = from_paise (rc_min_fare rc), rc_base_fare = Some (from_paise (rc_base rc)),
     return_rate_per_km = map_option from_paise (rc_return_per_km rc), hour_rate = map_option from_paise (rc_hour_rate rc),
     km_per_day = map_option from_paise (rc_km_per_day rc),
     driver_allowance_per_day = map_option from_paise (rc_allowance rc)\<rparr>"

record fare_response =
  fo_version :: int
  fo_rate_card :: nat
  fo_surge_event :: "nat option"
  fo_surge :: num
  fo_charge_per_stop :: num
  fo_breakdown :: fare_breakdown
  fo_rental_hours :: "int option"

text \<open>A city, package or event id of 0 is falsy and counts as absent.\<close>

definition truthy :: "nat option \<Rightarrow> nat option" where
  "truthy x = (case x of Some n \<Rightarrow> if n = 0 then None else Some n | None \<Rightarrow> None)"

definition quoted_version :: "fare_request \<Rightarrow> int" where
  "quoted_version req = (if fr_ride_type req = round_trip then coalesce (fr_version req) 2 else 1)"

definition quote_params :: "fare_request \<Rightarrow> rate_card_row \<Rightarrow> surge_row option \<Rightarrow> package_row option \<Rightarrow> estimate_params" where
  "quote_params req rc surge pkg = \<lparr>ep_rate_card = card_rates rc, ep_ride_type = fr_ride_type req,
     ep_is_return_cab = coalesce (fr_return_cab req) False,
     ep_distance_km = (if fr_ride_type req = round_trip then fmul (fin (fr_distance req)) 2 else fin (fr_distance req)),
     ep_duration_min = fin (fr_duration req), ep_stop_count = Some (coalesce (map_option fin (fr_stops req)) 0),
     ep_charge_per_stop = Some (from_paise (rc_stop_charge rc)),
     ep_trip_hours = Some (clampTripHours (fr_ride_type req) (map_option fin (fr_hours req))),
     ep_pricing_version = Some (quoted_version req),
     ep_surge_multiplier = Some (case surge of Some s \<Rightarrow> from_paise (su_multiplier s) | None \<Rightarrow> 1),
     ep_package_fare = map_option (\<lambda>p. from_paise (pk_fare p)) pkg,
     ep_extra_per_km = Some (case pkg of Some p \<Rightarrow> from_paise (pk_extra_km p) | None \<Rightarrow> 0),
     ep_extra_per_min = Some (case pkg of Some p \<Rightarrow> from_paise (pk_extra_min p) | None \<Rightarrow> 0)\<rparr>"

definition getFareEstimate :: "pricing_db \<Rightarrow> int \<Rightarrow> fare_request \<Rightarrow> fare_response res" where
  "getFareEstimate db now req =
     bind_res (assertFareInputsInRange req) (\<lambda>_.
     let rateCard = fetchCurrentRateCardFromDb db (fr_category req) (fr_ride_type req) (fr_city req);
         surgeEvent = (case truthy (fr_city req) of Some c \<Rightarrow> fetchActiveSurgeFromDb db c (fr_category req) now | None \<Rightarrow> None);
         pkg = (case truthy (fr_package req) of
                  Some p \<Rightarrow> if fr_ride_type req = rental then fetchRentalPackageFromDb db p else None
                | None \<Rightarrow> None)
     in case rateCard of None \<Rightarrow> Inl (http_err 422 '''')
        | Some rc \<Rightarrow> Inr \<lparr>fo_version = quoted_version req, fo_rate_card = rc_id rc,
            fo_surge_event = map_option su_id surgeEvent,
            fo_surge = (case surgeEvent of Some s \<Rightarrow> from_paise (su_multiplier s) | None \<Rightarrow> 1),
            fo_charge_per_stop = from_paise (rc_stop_charge rc),
            fo_breakdown = estimateFare (quote_params req rc surgeEvent pkg),
            fo_rental_hours = map_option (\<lambda>p. js_round (fdiv (of_nat (pk_duration p)) 60)) pkg\<rparr>)"

subsection \<open>Rate cards: one current card per bucket\<close>

definition bucket :: "rate_card_row \<Rightarrow> nat \<times> nat \<times> ride_type" where
  "bucket r = (coalesce (rc_city r) 0, rc_category r, rc_ride_type r)"

definition current_cards :: "pricing_db \<Rightarrow> rate_card_row list" where
  "current_cards db = filter (\<lambda>r. rc_effective_to r = None) (rate_cards db)"

definition pricing_inv :: "pricing_db \<Rightarrow> bool" where
  "pricing_inv db \<longleftrightarrow> distinct (map bucket (current_cards db)) \<and> list_all card_row_ok (rate_cards db)
     \<and> list_all (\<lambda>r. rc_city r \<noteq> Some 0) (rate_cards db)
     \<and> list_all (\<lambda>s. 100 \<le> su_multiplier s \<and> su_multiplier s \<le> 500) (surge_events db)"

lemma same_bucket_iff: "same_bucket c t y r \<longleftrightarrow> bucket r = (coalesce y 0, c, t) \<and> rc_effective_to r = None"
  by (auto simp: same_bucket_def bucket_def)

lemma expire_current:
  "filter (\<lambda>r. rc_effective_to r = None) (map (\<lambda>r. if same_bucket c t y r then r\<lparr>rc_effective_to := Some now\<rparr> else r) xs)
     = filter (\<lambda>r. bucket r \<noteq> (coalesce y 0, c, t)) (filter (\<lambda>r. rc_effective_to r = None) xs)"
  by (induction xs) (auto simp: same_bucket_iff)

lemma create_Inr:
  assumes "createRateCard d now db = (Inr row, db')"
  shows "rate_cards db' = map (\<lambda>r. if same_bucket (cd_category d) (cd_ride_type d) (cd_city d) r
       then r\<lparr>rc_effective_to := Some now\<rparr> else r) (rate_cards db) @ [row]"
    and "card_row_ok row" "rc_category row = cd_category d" "rc_ride_type row = cd_ride_type d"
    and "rc_city row = cd_city d" "rc_effective_to row = None" "surge_events db' = surge_events db"
    and "current_cards db' = filter (\<lambda>r. bucket r \<noteq> (coalesce (cd_city d) 0, cd_category d, cd_ride_type d)) (current_cards db) @ [row]"
proof -
  show row: "rate_cards db' = map (\<lambda>r. if same_bucket (cd_category d) (cd_ride_type d) (cd_city d) r
       then r\<lparr>rc_effective_to := Some now\<rparr> else r) (rate_cards db) @ [row]"
    "card_row_ok row" "rc_category row = cd_category d" "rc_ride_type row = cd_ride_type d"
    "rc_city row = cd_city d" "rc_effective_to row = None" "surge_events db' = surge_events db"
    using assms by (auto simp: createRateCard_def Let_def split: if_splits)
  show "current_cards db' = filter (\<lambda>r. bucket r \<noteq> (coalesce (cd_city d) 0, cd_category d, cd_ride_type d)) (current_cards db) @ [row]"
    unfolding current_cards_def row(1) using row(6) by (simp add: expire_current)
qed

lemma create_Inl: "createRateCard d now db = (Inl e, db') \<Longrightarrow> db' = db"
  by (auto simp: createRateCard_def Let_def split: if_splits)

lemma create_inv:
  assumes "pricing_inv db" "cd_city d \<noteq> Some 0" "createRateCard d now db = (r, db')"
  shows "pricing_inv db'"
proof (cases r)
  case (Inl e)
  then show ?thesis using assms(1) create_Inl [OF assms(3) [unfolded Inl]] by simp
next
  case (Inr row)
  note c = create_Inr [OF assms(3) [unfolded Inr]]
  have "bucket row = (coalesce (cd_city d) 0, cd_category d, cd_ride_type d)"
    using c by (simp add: bucket_def)
  then show ?thesis using assms(1,2) c(2,5,7)
    unfolding pricing_inv_def c(8) unfolding c(1)
    by (auto simp: distinct_map_filter list_all_iff card_row_ok_def)
qed

lemma surge_inv: "pricing_inv db \<Longrightarrow> pricing_inv (snd (createSurgeEvent d db))"
  "pricing_inv db \<Longrightarrow> pricing_inv (snd (cancelSurgeEvent i a now db))"
  by (auto simp: createSurgeEvent_def cancelSurgeEvent_def Let_def pricing_inv_def current_cards_def list_all_iff
      split: option.splits if_splits)

lemma unique_current:
  assumes "distinct (map bucket (current_cards db))" "r \<in> set (rate_cards db)" "r' \<in> set (rate_cards db)"
    "rc_effective_to r = None" "rc_effective_to r' = None" "bucket r = bucket r'"
  shows "r = r'"
  using assms by (auto simp: distinct_map inj_on_def current_cards_def)

lemma create_rates:
  assumes "createRateCard d now db = (Inr row, db')"
  shows "rc_per_km row = to_paise (cd_per_km d) \<and> rc_per_min row = to_paise (cd_per_min d) \<and> rc_min_fare row = to_paise (cd_min_fare d)
    \<and> rc_return_per_km row = map_option to_paise (cd_return_per_km d) \<and> rc_hour_rate row = map_option to_paise (cd_hour_rate d)
    \<and> rc_km_per_day row = map_option to_paise (cd_km_per_day d) \<and> rc_allowance row = map_option to_paise (cd_allowance d)
    \<and> (\<forall>x. cd_stop_charge d = Some x \<longrightarrow> rc_stop_charge row = to_paise x) \<and> (\<forall>x. cd_base_fare d = Some x \<longrightarrow> rc_base row = to_paise x)"
  using assms by (auto simp: createRateCard_def Let_def split: if_splits)

lemma create_first:
  assumes "createRateCard d now db = (Inr row, db')" "filter (same_bucket (cd_category d) (cd_ride_type d) (cd_city d)) (rate_cards db) = []"
  shows "rc_cancellation_fee row = None \<and> card_history db' = card_history db
    \<and> (cd_stop_charge d = None \<longrightarrow> rc_stop_charge row = 0) \<and> (cd_base_fare d = None \<longrightarrow> rc_base row = 0)"
  using assms to_from_paise [of 0] by (auto simp: createRateCard_def Let_def from_paise_def paise_ok_def split: if_splits)

lemma create_carries:
  assumes "createRateCard d now db = (Inr row, db')" "filter (same_bucket (cd_category d) (cd_ride_type d) (cd_city d)) (rate_cards db) = old # rest"
    and "paise_ok (rc_stop_charge old)" "paise_ok (rc_base old)"
  shows "rc_cancellation_fee row = rc_cancellation_fee old \<and> (cd_stop_charge d = None \<longrightarrow> rc_stop_charge row = rc_stop_charge old)
    \<and> (cd_base_fare d = None \<longrightarrow> rc_base row = rc_base old) \<and> old\<lparr>rc_effective_to := Some now\<rparr> \<in> set (rate_cards db')
    \<and> (\<exists>h. card_history db' = card_history db @ [h] \<and> ch_card h = rc_id old \<and> ch_by h = cd_admin d
         \<and> ch_rates h = (rc_per_km old, rc_per_min old, rc_min_fare old, rc_return_per_km old, rc_hour_rate old, rc_km_per_day old, rc_allowance old)
         \<and> ch_stop_charge h = rc_stop_charge old \<and> ch_base h = rc_base old)"
proof -
  have "old \<in> set (filter (same_bucket (cd_category d) (cd_ride_type d) (cd_city d)) (rate_cards db))" by (simp add: assms(2))
  then have "old \<in> set (rate_cards db)" "same_bucket (cd_category d) (cd_ride_type d) (cd_city d) old" by simp_all
  then have "old\<lparr>rc_effective_to := Some now\<rparr> \<in> set (rate_cards db')" unfolding create_Inr(1) [OF assms(1)] by (auto simp: image_iff intro!: bexI [of _ old])
  then show ?thesis using assms by (auto simp: createRateCard_def Let_def to_from_paise split: if_splits)
qed

text \<open>
  C39. Replacing a rate card. After a successful \<open>createRateCard\<close> the lookup for the same category, ride type and city returns exactly the new card, whose every rate
  is the one the admin entered; an optional rate left out is empty on the new card, whatever the old one had, except that a stop price or base fare left out and the
  cancellation fee come from the card it replaces (0, 0 and none if there is none). The replaced card is closed now and its rates are written to the history; cards of
  other buckets stay current; there is again at most one current card per bucket; and a refused write changes nothing.
\<close>

theorem createRateCard_replaces:
  assumes inv: "pricing_inv db" and city: "cd_city d \<noteq> Some 0"
  shows "case createRateCard d now db of
      (Inl _, db') \<Rightarrow> db' = db
    | (Inr row, db') \<Rightarrow> pricing_inv db'
        \<and> fetchCurrentRateCardFromDb db' (cd_category d) (cd_ride_type d) (cd_city d) = Some row
        \<and> (\<forall>r. r \<in> set (rate_cards db) \<and> rc_effective_to r = None
             \<and> bucket r \<noteq> bucket row \<longrightarrow> r \<in> set (rate_cards db'))
        \<and> (\<forall>old \<in> set (rate_cards db). rc_effective_to old = None \<and> bucket old = bucket row \<longrightarrow>
             rc_cancellation_fee row = rc_cancellation_fee old
             \<and> (cd_stop_charge d = None \<longrightarrow> rc_stop_charge row = rc_stop_charge old)
             \<and> (cd_base_fare d = None \<longrightarrow> rc_base row = rc_base old)
             \<and> old\<lparr>rc_effective_to := Some now\<rparr> \<in> set (rate_cards db')
             \<and> (\<exists>h. card_history db' = card_history db @ [h] \<and> ch_card h = rc_id old \<and> ch_by h = cd_admin d
                  \<and> ch_rates h = (rc_per_km old, rc_per_min old, rc_min_fare old, rc_return_per_km old, rc_hour_rate old, rc_km_per_day old, rc_allowance old)
                  \<and> ch_stop_charge h = rc_stop_charge old \<and> ch_base h = rc_base old))
        \<and> ((\<forall>old \<in> set (rate_cards db). rc_effective_to old = None \<longrightarrow> bucket old \<noteq> bucket row) \<longrightarrow>
             rc_cancellation_fee row = None \<and> card_history db' = card_history db
             \<and> (cd_stop_charge d = None \<longrightarrow> rc_stop_charge row = 0) \<and> (cd_base_fare d = None \<longrightarrow> rc_base row = 0))
        \<and> rc_per_km row = to_paise (cd_per_km d) \<and> rc_per_min row = to_paise (cd_per_min d) \<and> rc_min_fare row = to_paise (cd_min_fare d)
        \<and> rc_return_per_km row = map_option to_paise (cd_return_per_km d) \<and> rc_hour_rate row = map_option to_paise (cd_hour_rate d)
        \<and> rc_km_per_day row = map_option to_paise (cd_km_per_day d) \<and> rc_allowance row = map_option to_paise (cd_allowance d)
        \<and> (\<forall>x. cd_stop_charge d = Some x \<longrightarrow> rc_stop_charge row = to_paise x) \<and> (\<forall>x. cd_base_fare d = Some x \<longrightarrow> rc_base row = to_paise x)"
proof (cases "createRateCard d now db")
  case (Pair r db')
  show ?thesis
  proof (cases r)
    case (Inl e)
    then show ?thesis using Pair create_Inl [OF Pair [unfolded Inl]] by simp
  next
    case (Inr row)
    note eq = Pair [unfolded Inr] and c = create_Inr [OF Pair [unfolded Inr]]
    have b: "bucket row = (coalesce (cd_city d) 0, cd_category d, cd_ride_type d)" using c by (simp add: bucket_def)
    have inv': "pricing_inv db'" using create_inv [OF inv city eq] .
    let ?f = "fetchCurrentRateCardFromDb db' (cd_category d) (cd_ride_type d) (cd_city d)"
    have row: "row \<in> set (rate_cards db')" "card_matches (cd_category d) (cd_ride_type d) (cd_city d) row"
      using c by (auto simp: card_matches_def)
    then have "row \<in> set (filter (card_matches (cd_category d) (cd_ride_type d) (cd_city d)) (rate_cards db'))" by simp
    from order_limit1_ex [OF this, of "\<lambda>rc. nulls_last (rc_city rc)"] obtain x where x: "?f = Some x"
      unfolding fetchCurrentRateCardFromDb_def by blast
    have xs: "x \<in> set (rate_cards db')" "card_matches (cd_category d) (cd_ride_type d) (cd_city d) x"
      "nulls_last (rc_city x) \<le> nulls_last (rc_city row)"
      using order_limit1_Some [OF x [unfolded fetchCurrentRateCardFromDb_def]] row by auto
    have "bucket x = bucket row"
      using xs(2,3) c(5) unfolding b by (auto simp: card_matches_def bucket_def nulls_last_def split: if_splits)
    then have "x = row" using unique_current [of db' x row] inv' xs row(1) c(6)
      by (auto simp: pricing_inv_def card_matches_def)
    moreover have "rc_cancellation_fee row = rc_cancellation_fee old
             \<and> (cd_stop_charge d = None \<longrightarrow> rc_stop_charge row = rc_stop_charge old)
             \<and> (cd_base_fare d = None \<longrightarrow> rc_base row = rc_base old)
             \<and> old\<lparr>rc_effective_to := Some now\<rparr> \<in> set (rate_cards db')
             \<and> (\<exists>h. card_history db' = card_history db @ [h] \<and> ch_card h = rc_id old \<and> ch_by h = cd_admin d
                  \<and> ch_rates h = (rc_per_km old, rc_per_min old, rc_min_fare old, rc_return_per_km old, rc_hour_rate old, rc_km_per_day old, rc_allowance old)
                  \<and> ch_stop_charge h = rc_stop_charge old \<and> ch_base h = rc_base old)"
      if old: "old \<in> set (rate_cards db)" "rc_effective_to old = None" "bucket old = bucket row" for old
    proof -
      have "old \<in> set (filter (same_bucket (cd_category d) (cd_ride_type d) (cd_city d)) (rate_cards db))"
        using old b by (simp add: same_bucket_iff)
      then obtain o' rest where o': "filter (same_bucket (cd_category d) (cd_ride_type d) (cd_city d)) (rate_cards db) = o' # rest"
        by (cases "filter (same_bucket (cd_category d) (cd_ride_type d) (cd_city d)) (rate_cards db)") auto
      then have "o' \<in> set (rate_cards db)" "rc_effective_to o' = None" "bucket o' = bucket row"
        using b by (auto simp: same_bucket_iff dest!: filter_eq_ConsD)
      then have "o' = old" using unique_current [of db o' old] inv old by (simp add: pricing_inv_def)
      moreover have "paise_ok (rc_stop_charge old)" "paise_ok (rc_base old)"
        using inv old(1) by (auto simp: pricing_inv_def list_all_iff card_row_ok_def numeric_fits_def paise_ok_def)
      ultimately show ?thesis using create_carries [OF eq] o' by blast
    qed
    moreover have "rc_cancellation_fee row = None \<and> card_history db' = card_history db
        \<and> (cd_stop_charge d = None \<longrightarrow> rc_stop_charge row = 0) \<and> (cd_base_fare d = None \<longrightarrow> rc_base row = 0)"
      if none: "\<forall>old \<in> set (rate_cards db). rc_effective_to old = None \<longrightarrow> bucket old \<noteq> bucket row"
    proof -
      have "filter (same_bucket (cd_category d) (cd_ride_type d) (cd_city d)) (rate_cards db) = []"
        using none b by (auto simp: filter_empty_conv same_bucket_iff)
      then show ?thesis by (rule create_first [OF eq])
    qed
    moreover have "r \<in> set (rate_cards db')" if "r \<in> set (rate_cards db)" "bucket r \<noteq> bucket row" for r
      using that b unfolding c(1) by (auto simp: same_bucket_iff image_iff)
    ultimately show ?thesis unfolding Inr Pair prod.case sum.case using inv' x create_rates [OF eq] by blast
  qed
qed


definition demo_card_data :: card_data where
  "demo_card_data = \<lparr>cd_category = 4, cd_ride_type = one_way, cd_per_km = 14, cd_per_min = 2, cd_min_fare = 150,
     cd_return_per_km = None, cd_hour_rate = None, cd_km_per_day = None, cd_allowance = None,
     cd_stop_charge = None, cd_base_fare = None, cd_city = Some 3, cd_admin = 9\<rparr>"

definition demo_old_card :: rate_card_row where
  "demo_old_card = \<lparr>rc_id = 1, rc_category = 4, rc_ride_type = one_way, rc_city = Some 3, rc_per_km = 1200,
     rc_per_min = 150, rc_min_fare = 15000, rc_return_per_km = None, rc_hour_rate = None, rc_km_per_day = None,
     rc_allowance = None, rc_stop_charge = 2000, rc_base = 4000, rc_cancellation_fee = Some 5000,
     rc_effective_to = None, rc_created_by = None\<rparr>"

definition demo_surge :: surge_row where
  "demo_surge = \<lparr>su_id = 5, su_city = 3, su_category = None, su_multiplier = 150, su_status = SurgeScheduled,
     su_starts_at = 100, su_ends_at = 900, su_created_by = 9, su_cancelled = None\<rparr>"

definition demo_pricing :: pricing_db where
  "demo_pricing = \<lparr>rate_cards = [demo_old_card], surge_events = [demo_surge], packages = [], card_history = [],
     next_card = 2, next_surge = 6\<rparr>"

lemma demo_pricing_inv: "pricing_inv demo_pricing"
  by (simp add: pricing_inv_def current_cards_def demo_pricing_def demo_old_card_def demo_surge_def
      card_row_ok_def numeric_fits_def)

lemma createRateCard_replaces_witness:
  "case createRateCard demo_card_data 500 demo_pricing of (Inl _, db') \<Rightarrow> db' = demo_pricing
    | (Inr row, db') \<Rightarrow> fetchCurrentRateCardFromDb db' 4 one_way (Some 3) = Some row"
proof -
  have "cd_city demo_card_data \<noteq> Some 0" by (simp add: demo_card_data_def)
  moreover have "cd_category demo_card_data = 4" "cd_ride_type demo_card_data = one_way" "cd_city demo_card_data = Some 3"
    by (simp_all add: demo_card_data_def)
  ultimately show ?thesis
    using createRateCard_replaces [OF demo_pricing_inv, of demo_card_data 500, THEN case_res_mono,
      of "\<lambda>_ db'. db' = demo_pricing" "\<lambda>row db'. fetchCurrentRateCardFromDb db' 4 one_way (Some 3) = Some row"]
    by simp
qed

subsection \<open>Surges\<close>

lemma cancelled_row:
  assumes "fst (cancelSurgeEvent i admin t db) = Inr se" "s \<in> set (surge_events (snd (cancelSurgeEvent i admin t db)))"
  shows "su_id s = i \<Longrightarrow> su_status s \<notin> {SurgeScheduled, SurgeActive}"
proof -
  have "surge_events (snd (cancelSurgeEvent i admin t db)) = map (\<lambda>s. if su_id s = i \<and> su_status s \<in> {SurgeScheduled, SurgeActive}
      then s\<lparr>su_status := SurgeCancelled, su_cancelled := Some (admin, t)\<rparr> else s) (surge_events db)"
    using assms(1) unfolding cancelSurgeEvent_def Let_def by (simp split: option.splits)
  then obtain s0 where "s = (if su_id s0 = i \<and> su_status s0 \<in> {SurgeScheduled, SurgeActive}
      then s0\<lparr>su_status := SurgeCancelled, su_cancelled := Some (admin, t)\<rparr> else s0)"
    using assms(2) unfolding \<open>surge_events _ = _\<close> set_map by blast
  then show "su_id s = i \<Longrightarrow> su_status s \<notin> {SurgeScheduled, SurgeActive}"
    by (cases "su_id s0 = i"; cases "su_status s0 \<in> {SurgeScheduled, SurgeActive}") simp_all
qed

text \<open>
  The surge a quote applies is in force at that moment and concerns the requested city and
  category; one for the category wins over one for all categories, and among equals the highest
  multiplier wins; a surge is found whenever one applies; and once cancelled, an event is never
  applied again.
\<close>

theorem active_surge_correct:
  "(case fetchActiveSurgeFromDb db city cat now of
      None \<Rightarrow> \<not> (\<exists>s \<in> set (surge_events db). surge_applies city cat now s)
    | Some s \<Rightarrow> s \<in> set (surge_events db) \<and> surge_applies city cat now s
        \<and> (\<forall>s' \<in> set (surge_events db). surge_applies city cat now s' \<longrightarrow>
             (su_category s = None \<longrightarrow> su_category s' = None)
             \<and> (su_category s' = su_category s \<longrightarrow> su_multiplier s' \<le> su_multiplier s)))
   \<and> (\<forall>se. fst (cancelSurgeEvent i admin t db) = Inr se \<longrightarrow>
        (\<forall>s. fetchActiveSurgeFromDb (snd (cancelSurgeEvent i admin t db)) city cat now = Some s \<longrightarrow> su_id s \<noteq> i))"
proof -
  have "case fetchActiveSurgeFromDb db city cat now of
      None \<Rightarrow> \<not> (\<exists>s \<in> set (surge_events db). surge_applies city cat now s)
    | Some s \<Rightarrow> s \<in> set (surge_events db) \<and> surge_applies city cat now s
        \<and> (\<forall>s' \<in> set (surge_events db). surge_applies city cat now s' \<longrightarrow>
             (su_category s = None \<longrightarrow> su_category s' = None)
             \<and> (su_category s' = su_category s \<longrightarrow> su_multiplier s' \<le> su_multiplier s))"
  proof (cases "fetchActiveSurgeFromDb db city cat now")
    case None
    then show ?thesis by (simp add: fetchActiveSurgeFromDb_def filter_empty_conv)
  next
    case (Some s)
    have "s \<in> set (filter (surge_applies city cat now) (surge_events db))"
      "\<forall>s' \<in> set (filter (surge_applies city cat now) (surge_events db)).
         (nulls_last (su_category s), - su_multiplier s) \<le> (nulls_last (su_category s'), - su_multiplier s')"
      using order_limit1_Some [OF Some [unfolded fetchActiveSurgeFromDb_def]] by blast+
    then show ?thesis using Some by (fastforce simp: nulls_last_def split: if_splits)
  qed
  moreover have "su_id s \<noteq> i"
    if c: "fst (cancelSurgeEvent i admin t db) = Inr se"
      and f: "fetchActiveSurgeFromDb (snd (cancelSurgeEvent i admin t db)) city cat now = Some s" for se s
  proof -
    have "s \<in> set (surge_events (snd (cancelSurgeEvent i admin t db)))" "surge_applies city cat now s"
      using order_limit1_Some [OF f [unfolded fetchActiveSurgeFromDb_def]] by auto
    then show ?thesis using cancelled_row [OF c] by (auto simp: surge_applies_def)
  qed
  ultimately show ?thesis by blast
qed

lemma active_surge_correct_witness:
  "fetchActiveSurgeFromDb demo_pricing 3 4 200 = Some demo_surge \<and> surge_applies 3 4 200 demo_surge"
proof -
  have e: "fetchActiveSurgeFromDb demo_pricing 3 4 200 = Some demo_surge" by code_simp
  show ?thesis using active_surge_correct [of demo_pricing 3 4 200] e by auto
qed

subsection \<open>Quotes\<close>

lemma fetch_card_in:
  assumes "fetchCurrentRateCardFromDb db c t y = Some rc"
  shows "rc \<in> set (rate_cards db)" "card_matches c t y rc"
  using order_limit1_Some [OF assms [unfolded fetchCurrentRateCardFromDb_def]] by auto

lemma fetch_surge_in:
  assumes "fetchActiveSurgeFromDb db c t now = Some s"
  shows "s \<in> set (surge_events db)" "surge_applies c t now s"
  using order_limit1_Some [OF assms [unfolded fetchActiveSurgeFromDb_def]] by auto

lemma from_paise_100: "from_paise 100 = 1"
  by (simp add: from_paise_def)

lemma surge_multiplier_ge_1: "pricing_inv db \<Longrightarrow> s \<in> set (surge_events db) \<Longrightarrow> 1 \<le> from_paise (su_multiplier s)"
  using from_paise_mono [of 100 "su_multiplier s"] by (auto simp: pricing_inv_def list_all_iff from_paise_100)

lemma amount_column: "numeric_fits 8 k \<Longrightarrow> 0 \<le> k \<Longrightarrow> is_amount (from_paise k)"
  by (simp add: is_amount_def numeric_fits_def paise_ok_def)

definition estimate_input :: "estimate_params \<Rightarrow> fare_input" where
  "estimate_input p = \<lparr>fi_rate_card = ep_rate_card p, fi_ride_type = ep_ride_type p,
      fi_is_return_cab = ep_is_return_cab p, fi_estimated_km = ep_distance_km p,
      fi_estimated_min = ep_duration_min p, fi_stop_count = coalesce (ep_stop_count p) 0,
      fi_charge_per_stop = coalesce (ep_charge_per_stop p) 0,
      fi_trip_hours = coalesce (ep_trip_hours p) 0,
      fi_pricing_version = ep_pricing_version p,
      fi_surge_multiplier = coalesce (ep_surge_multiplier p) 1,
      fi_overage_km = None, fi_overage_min = None,
      fi_extra_per_km = Some (coalesce (ep_extra_per_km p) 0),
      fi_extra_per_min = Some (coalesce (ep_extra_per_min p) 0),
      fi_package_fare = ep_package_fare p\<rparr>"

lemma estimateFare_input: "estimateFare p = calculateFare (estimate_input p)"
  by (simp add: estimateFare_def estimate_input_def)

lemma quote_floor:
  assumes inv: "pricing_inv db" and rc: "rc \<in> set (rate_cards db)"
    and su: "\<And>s. surge = Some s \<Longrightarrow> s \<in> set (surge_events db)"
    and stops: "0 \<le> coalesce (map_option fin (fr_stops req)) 0" and pkg: "pkg = None"
  shows "from_paise (rc_min_fare rc) \<le> total (estimateFare (quote_params req rc surge pkg))"
proof -
  let ?i = "estimate_input (quote_params req rc surge pkg)"
  have row: "card_row_ok rc" using inv rc by (simp add: pricing_inv_def list_all_iff)
  have card: "fi_rate_card ?i = card_rates rc" "fi_package_fare ?i = None"
    using pkg by (simp_all add: estimate_input_def quote_params_def)
  have "amounts_ok ?i"
    using row card amount_column [of "rc_min_fare rc"] amount_column [of "rc_base rc"]
    by (simp add: amounts_ok_def card_amounts_def card_rates_def card_row_ok_def)
  moreover have "floor_input ?i"
    unfolding floor_input_def card using row stops surge_multiplier_ge_1 [OF inv su] from_paise_nonneg [of "rc_stop_charge rc"]
    by (cases "rc_allowance rc"; cases surge)
      (auto simp: estimate_input_def quote_params_def card_rates_def card_row_ok_def from_paise_nonneg)
  ultimately show ?thesis
    using total_ge_min_fare [of ?i] card unfolding estimateFare_input by (simp add: card_rates_def)
qed

text \<open>
  A quote. When the request passes the range check and a current card exists, the quote names
  a current card of the requested category, type and city (or of all cities), the surge in force,
  if any, with a multiplier of at least 1, and a total of at least the card's minimum fare unless a
  rental package fixes the fare; the error is 422 exactly when an input is out of range or there
  is no card.
\<close>

theorem quote_respects_card:
  assumes inv: "pricing_inv db"
  shows "case getFareEstimate db now req of
      Inl e \<Rightarrow> http_status e = 422 \<and> (assertFareInputsInRange req \<noteq> Inr ()
        \<or> fetchCurrentRateCardFromDb db (fr_category req) (fr_ride_type req) (fr_city req) = None)
    | Inr q \<Rightarrow> (\<exists>rc \<in> set (rate_cards db). rc_id rc = fo_rate_card q
        \<and> card_matches (fr_category req) (fr_ride_type req) (fr_city req) rc
        \<and> (fo_rental_hours q = None \<longrightarrow> from_paise (rc_min_fare rc) \<le> total (fo_breakdown q)))
      \<and> 1 \<le> fo_surge q
      \<and> (fo_surge q \<noteq> 1 \<longrightarrow> (\<exists>s \<in> set (surge_events db). fo_surge_event q = Some (su_id s)
          \<and> fo_surge q = from_paise (su_multiplier s)
          \<and> (\<exists>c. fr_city req = Some c \<and> surge_applies c (fr_category req) now s)))"
proof (cases "assertFareInputsInRange req")
  case (Inl e)
  then have "http_status e = 422" by (auto simp: assertFareInputsInRange_def guard_err_def split: if_splits)
  then show ?thesis using Inl by (simp add: getFareEstimate_def)
next
  case (Inr u)
  have stops: "0 \<le> coalesce (map_option fin (fr_stops req)) 0"
    using Inr unfolding assertFareInputsInRange_def
    by (cases "fr_stops req"; cases "the (fr_stops req)") auto
  show ?thesis
  proof (cases "fetchCurrentRateCardFromDb db (fr_category req) (fr_ride_type req) (fr_city req)")
    case None
    then show ?thesis using Inr by (simp add: getFareEstimate_def)
  next
    case (Some rc)
    note rc = fetch_card_in [OF Some]
    define surge where "surge = (case truthy (fr_city req) of Some c \<Rightarrow> fetchActiveSurgeFromDb db c (fr_category req) now | None \<Rightarrow> None)"
    define pkg where "pkg = (case truthy (fr_package req) of
        Some p \<Rightarrow> if fr_ride_type req = rental then fetchRentalPackageFromDb db p else None | None \<Rightarrow> None)"
    obtain q where q: "getFareEstimate db now req = Inr q" "fo_rate_card q = rc_id rc" "fo_surge_event q = map_option su_id surge"
      "fo_surge q = (case surge of Some s \<Rightarrow> from_paise (su_multiplier s) | None \<Rightarrow> 1)"
      "fo_breakdown q = estimateFare (quote_params req rc surge pkg)" "fo_rental_hours q = None \<longleftrightarrow> pkg = None"
      unfolding getFareEstimate_def Inr bind_res_simps Some Let_def surge_def pkg_def by simp
    have s: "s \<in> set (surge_events db) \<and> (\<exists>c. fr_city req = Some c \<and> surge_applies c (fr_category req) now s)"
      if "surge = Some s" for s
      using that fetch_surge_in [of db _ "fr_category req" now s] unfolding surge_def truthy_def
      by (auto split: option.splits if_splits)
    have "from_paise (rc_min_fare rc) \<le> total (fo_breakdown q)" if "fo_rental_hours q = None"
      unfolding q(5) using quote_floor [OF inv rc(1) _ stops] s that q(6) by blast
    moreover have "1 \<le> fo_surge q" unfolding q(4) using surge_multiplier_ge_1 [OF inv] s by (auto split: option.split)
    moreover have "\<exists>s \<in> set (surge_events db). fo_surge_event q = Some (su_id s)
          \<and> fo_surge q = from_paise (su_multiplier s)
          \<and> (\<exists>c. fr_city req = Some c \<and> surge_applies c (fr_category req) now s)" if "fo_surge q \<noteq> 1"
    proof (cases surge)
      case None then show ?thesis using that q(4) by simp
    next
      case (Some s') then show ?thesis using s [OF Some] q(3,4) by auto
    qed
    ultimately show ?thesis using rc q(1,2) by auto
  qed
qed

definition demo_request :: fare_request where
  "demo_request = \<lparr>fr_category = 4, fr_ride_type = one_way, fr_return_cab = None, fr_distance = Fin 8, fr_duration = Fin 20,
     fr_stops = None, fr_hours = None, fr_package = None, fr_city = Some 3, fr_version = None\<rparr>"

lemma quote_respects_card_witness:
  "\<exists>q. getFareEstimate demo_pricing 200 demo_request = Inr q \<and> 1 \<le> fo_surge q"
proof -
  have "fetchCurrentRateCardFromDb demo_pricing 4 one_way (Some 3) = Some demo_old_card" by code_simp
  moreover have "assertFareInputsInRange demo_request = Inr ()"
    by (simp add: assertFareInputsInRange_def demo_request_def)
  ultimately obtain q where "getFareEstimate demo_pricing 200 demo_request = Inr q"
    unfolding getFareEstimate_def by (simp add: demo_request_def Let_def)
  with quote_respects_card [OF demo_pricing_inv, of demo_request 200] show ?thesis by simp
qed

end
