(* ===== verification/Offers.thy ===== *)
theory Offers
  imports Pricing "HOL-Library.Multiset"
begin

text \<open>
  The offer engine, \<open>api/src/modules/offers\<close>: money helpers, the rule registry, benefits and the
  decision \<open>evaluateOffers\<close>. Rule kinds are the constructors of one datatype; a kind the registry
  does not know is \<open>UnknownRule\<close>. Configuration values arrive parsed (\<open>None\<close>: not a number).
  The rider-facing texts (\<open>describeOffer\<close>, \<open>reasonMessage\<close>) are left out.
\<close>

subsection \<open>Money\<close>

definition roundPaise :: "num \<Rightarrow> num" where
  "roundPaise n = fdiv (of_int (js_round (fl (to_precision 12 (fmul n 100))))) 100"

datatype fare_key = KBase | KDistance | KTime | KStop | KHourSurcharge | KWaiting | KSurge | KOverage

record fare_components =
  fc_base :: num
  fc_distance :: num
  fc_time :: num
  fc_stop :: num
  fc_hour :: num
  fc_waiting :: num
  fc_surge :: num
  fc_overage :: num

fun component :: "fare_components \<Rightarrow> fare_key \<Rightarrow> num" where
  "component f KBase = fc_base f"
| "component f KDistance = fc_distance f"
| "component f KTime = fc_time f"
| "component f KStop = fc_stop f"
| "component f KHourSurcharge = fc_hour f"
| "component f KWaiting = fc_waiting f"
| "component f KSurge = fc_surge f"
| "component f KOverage = fc_overage f"

definition COMPONENT_KEYS :: "fare_key list" where
  "COMPONENT_KEYS = [KBase, KDistance, KTime, KStop, KHourSurcharge, KWaiting, KSurge, KOverage]"

definition DEFAULT_APPLIES_TO :: "fare_key list" where
  "DEFAULT_APPLIES_TO = [KBase, KDistance, KTime, KHourSurcharge]"

definition sumComponents :: "fare_components \<Rightarrow> fare_key list \<Rightarrow> num" where
  "sumComponents fare keys = foldl (\<lambda>s k. fadd s (component fare k)) 0 keys"

subsection \<open>India time\<close>

text \<open>
  \<open>istParts\<close>: the calendar date, weekday (0 is Sunday) and hour of an instant in India (UTC+5:30,
  no daylight saving). \<open>civil\<close> is the proleptic Gregorian date of a day number since 1970-01-01.
\<close>

definition civil :: "int \<Rightarrow> int \<times> int \<times> int" where
  "civil day = (let z = day + 719468; era = z div 146097; doe = z mod 146097;
      yoe = (doe - doe div 1460 + doe div 36524 - doe div 146096) div 365;
      doy = doe - (365 * yoe + yoe div 4 - yoe div 100); mp = (5 * doy + 2) div 153;
      m = (if mp < 10 then mp + 3 else mp - 9)
    in (yoe + era * 400 + (if m \<le> 2 then 1 else 0), m, doy - (153 * mp + 2) div 5 + 1))"

record ist =
  ist_date :: "int \<times> int \<times> int"
  ist_weekday :: int
  ist_hour :: int

definition istParts :: "int \<Rightarrow> ist" where
  "istParts ms = (let local = ms + 19800000; day = local div 86400000
    in \<lparr>ist_date = civil day, ist_weekday = (day + 4) mod 7, ist_hour = (local mod 86400000) div 3600000\<rparr>)"

subsection \<open>Rules\<close>

datatype channel = Cash | Online | Wallet

record schedule =
  sc_start :: "(int \<times> int \<times> int) option"
  sc_end :: "(int \<times> int \<times> int) option"
  sc_weekdays :: "int list option"
  sc_hours :: "(int \<times> int) option"
  sc_at_ride :: bool

datatype rule =
    RideTypeRule "ride_type list"
  | CategoryRule "nat list"
  | CityRule "nat list"
  | RouteRule "(nat \<times> nat) list" bool
  | ChannelRule "channel list"
  | MinFareRule num
  | NewUserRule
  | FirstNRule int
  | ScheduleRule schedule
  | UnknownRule string

datatype reason = DISABLED | NOT_STARTED | EXPIRED | MIN_FARE | RIDE_TYPE | CATEGORY | CITY | ROUTE
  | PAYMENT_CHANNEL | NEW_USERS_ONLY | FIRST_N_RIDES | SCHEDULE | USER_LIMIT | GLOBAL_LIMIT
  | BUDGET | NOT_ASSIGNED | UNKNOWN_CODE | COMMISSION_ACTIVE | NOT_COMMISSION_CITY

datatype rule_result = RuleOk | RuleFail reason "num option"

record eval_ctx =
  cx_now :: int
  cx_completed :: int
  cx_ride_type :: ride_type
  cx_category :: nat
  cx_city :: "nat option"
  cx_origin :: "nat option"
  cx_destination :: "nat option"
  cx_channel :: channel
  cx_scheduled :: "int option"
  cx_fare :: fare_components

definition check :: "bool \<Rightarrow> reason \<Rightarrow> rule_result" where
  "check b r = (if b then RuleOk else RuleFail r None)"

definition schedule_ok :: "schedule \<Rightarrow> ist \<Rightarrow> bool" where
  "schedule_ok c p \<longleftrightarrow> (case sc_start c of Some d \<Rightarrow> d \<le> ist_date p | None \<Rightarrow> True)
     \<and> (case sc_end c of Some d \<Rightarrow> ist_date p \<le> d | None \<Rightarrow> True)
     \<and> (case sc_weekdays c of Some ws \<Rightarrow> ist_weekday p \<in> set ws | None \<Rightarrow> True)
     \<and> (case sc_hours c of Some (a, b) \<Rightarrow> a \<le> ist_hour p \<and> ist_hour p < b | None \<Rightarrow> True)"

fun evaluate_rule :: "rule \<Rightarrow> eval_ctx \<Rightarrow> rule_result" where
  "evaluate_rule (RideTypeRule ts) ctx = check (cx_ride_type ctx \<in> set ts) RIDE_TYPE"
| "evaluate_rule (CategoryRule cs) ctx = check (cx_category ctx \<in> set cs) CATEGORY"
| "evaluate_rule (CityRule cs) ctx = (case cx_city ctx of Some c \<Rightarrow> check (c \<in> set cs) CITY | None \<Rightarrow> RuleFail CITY None)"
| "evaluate_rule (RouteRule ps both) ctx = (case (cx_origin ctx, cx_destination ctx) of
     (Some s, Some d) \<Rightarrow> check (list_ex (\<lambda>p. p = (s, d) \<or> both \<and> p = (d, s)) ps) ROUTE
   | _ \<Rightarrow> RuleFail ROUTE None)"
| "evaluate_rule (ChannelRule cs) ctx = check (cx_channel ctx \<in> set cs) PAYMENT_CHANNEL"
| "evaluate_rule (MinFareRule amount) ctx = (let t = sumComponents (cx_fare ctx) COMPONENT_KEYS
     in if amount \<le> t then RuleOk else RuleFail MIN_FARE (Some (roundPaise (fsub amount t))))"
| "evaluate_rule NewUserRule ctx = check (cx_completed ctx = 0) NEW_USERS_ONLY"
| "evaluate_rule (FirstNRule n) ctx = check (cx_completed ctx < n) FIRST_N_RIDES"
| "evaluate_rule (ScheduleRule c) ctx =
     check (schedule_ok c (istParts (if sc_at_ride c then coalesce (cx_scheduled ctx) (cx_now ctx) else cx_now ctx))) SCHEDULE"
| "evaluate_rule (UnknownRule k) ctx = RuleFail DISABLED None"

fun evaluateRules :: "rule list \<Rightarrow> eval_ctx \<Rightarrow> rule_result" where
  "evaluateRules [] ctx = RuleOk"
| "evaluateRules (r # rs) ctx = (case evaluate_rule r ctx of RuleOk \<Rightarrow> evaluateRules rs ctx | f \<Rightarrow> f)"

subsection \<open>Benefits\<close>

datatype benefit =
    PercentOff num "num option" "fare_key list option"
  | FlatOff num "fare_key list option"
  | CashbackPercent num "num option" "fare_key list option"
  | CashbackFlat num

fun computeBenefit :: "benefit \<Rightarrow> fare_components \<Rightarrow> num option \<Rightarrow> num \<times> num" where
  "computeBenefit (CashbackFlat amount) fare cap = (0, roundPaise (max amount 0))"
| "computeBenefit (CashbackPercent percent mx keys) fare cap =
     (let eligible = sumComponents fare (coalesce keys DEFAULT_APPLIES_TO);
          raw = fdiv (fmul eligible percent) 100
      in (0, roundPaise (min (coalesce mx raw) raw)))"
| "computeBenefit (PercentOff percent mx keys) fare cap =
     (let eligible = sumComponents fare (coalesce keys DEFAULT_APPLIES_TO);
          raw = fdiv (fmul eligible percent) 100;
          raw = (case mx of Some m \<Rightarrow> min raw m | None \<Rightarrow> raw);
          discount = min raw eligible;
          discount = (case cap of Some c \<Rightarrow> min discount (fdiv (fmul eligible c) 100) | None \<Rightarrow> discount)
      in (roundPaise (max discount 0), 0))"
| "computeBenefit (FlatOff amount keys) fare cap =
     (let eligible = sumComponents fare (coalesce keys DEFAULT_APPLIES_TO);
          discount = min amount eligible;
          discount = (case cap of Some c \<Rightarrow> min discount (fdiv (fmul eligible c) 100) | None \<Rightarrow> discount)
      in (roundPaise (max discount 0), 0))"

subsection \<open>Offers\<close>

datatype offer_kind = CodeOffer | AutoOffer | AssignedOffer
datatype offer_status = Draft | Active | Paused | Ended

record offer_record =
  of_id :: nat
  of_code :: "string option"
  of_kind :: offer_kind
  of_status :: offer_status
  of_version :: nat
  of_rules :: "rule list"
  of_benefit :: benefit
  of_per_user :: "int option"
  of_budget_total :: "num option"
  of_budget_spent :: num
  of_global_limit :: "int option"
  of_redemptions :: int
  of_starts :: "int option"
  of_ends :: "int option"

record applied_offer =
  ap_offer :: nat
  ap_version :: nat
  ap_discount :: num
  ap_cashback :: num
  ap_per_user :: "int option"
  ap_ends :: "int option"

fun is_discount_benefit :: "benefit \<Rightarrow> bool" where
  "is_discount_benefit (PercentOff _ _ _) = True"
| "is_discount_benefit (FlatOff _ _) = True"
| "is_discount_benefit _ = False"

definition isDiscount :: "offer_record \<Rightarrow> bool" where
  "isDiscount off = is_discount_benefit (of_benefit off)"

definition components :: "fare_breakdown \<Rightarrow> fare_components" where
  "components b = \<lparr>fc_base = base_fare b, fc_distance = distance_fare b, fc_time = time_fare b,
     fc_stop = stop_fare b, fc_hour = hour_surcharge b, fc_waiting = coalesce (waiting_fare b) 0,
     fc_surge = surge_fare b, fc_overage = overage_fare b\<rparr>"

record offer_config =
  cfg_offers_enabled :: bool
  cfg_commission :: "num option"
  cfg_cash_discounts :: bool
  cfg_cash_collection :: bool
  cfg_cashback :: bool
  cfg_max_pct :: "num option"

datatype billing_mode = Commission | PackageBilling

text \<open>The rider's choice about automatic offers: absent, \<open>none\<close>, or the digits of an offer id.\<close>

datatype auto_choice = BestAuto | NoAuto | PickAuto string

fun id_string :: "nat \<Rightarrow> string" where
  "id_string n = (if n < 10 then [char_of (48 + n)] else id_string (n div 10) @ [char_of (48 + n mod 10)])"

declare id_string.simps [simp del]

record preview_input =
  pi_ride_type :: ride_type
  pi_category :: nat
  pi_city :: "nat option"
  pi_origin :: "nat option"
  pi_destination :: "nat option"
  pi_channel :: channel
  pi_scheduled :: "int option"
  pi_code :: "string option"
  pi_auto :: auto_choice

record offer_env =
  env_config :: offer_config
  env_by_code :: "string \<Rightarrow> offer_record option"
  env_active :: "offer_record list"
  env_assigned :: "nat \<Rightarrow> bool"
  env_usage :: "nat \<Rightarrow> int"
  env_completed :: int
  env_billing :: "nat \<Rightarrow> billing_mode option"
  env_now :: int

record rejection =
  rj_offer :: "nat option"
  rj_code :: "string option"
  rj_reason :: reason
  rj_needed :: "num option"

record preview_result =
  pv_enabled :: bool
  pv_fare_total :: num
  pv_discount :: num
  pv_cashback :: num
  pv_payable :: num
  pv_applied :: "applied_offer option"
  pv_alternatives :: "applied_offer list"
  pv_rejected :: "rejection list"
  pv_ineligible :: "(nat \<times> num option) list"

text \<open>An unparseable or negative cap falls back to 15.\<close>

definition effective_cap :: "num option \<Rightarrow> num" where
  "effective_cap p = (case p of Some v \<Rightarrow> if 0 \<le> v then v else 15 | None \<Rightarrow> 15)"

subsection \<open>The decision (\<open>evaluateOffers\<close>)\<close>

text \<open>One candidate: why it does not apply, or what it gives.\<close>

definition judge_offer :: "offer_env \<Rightarrow> preview_input \<Rightarrow> bool \<Rightarrow> eval_ctx \<Rightarrow> offer_record \<Rightarrow> (reason \<times> num option) + applied_offer" where
  "judge_offer env inp packageCity ctx off =
     (let cfg = env_config env; no = (\<lambda>r. Inl (r, None));
          (discount, cashback) = computeBenefit (of_benefit off) (cx_fare ctx) (Some (effective_cap (cfg_max_pct cfg)))
      in if of_status off \<noteq> Active then no DISABLED
         else if (case of_starts off of Some t \<Rightarrow> cx_now ctx < t | None \<Rightarrow> False) then no NOT_STARTED
         else if (case of_ends off of Some t \<Rightarrow> t \<le> cx_now ctx | None \<Rightarrow> False) then no EXPIRED
         else if isDiscount off \<and> (case cfg_commission cfg of Some c \<Rightarrow> 0 < c | None \<Rightarrow> False) then no COMMISSION_ACTIVE
         else if isDiscount off \<and> packageCity then no NOT_COMMISSION_CITY
         else if isDiscount off \<and> pi_channel inp = Cash \<and> (\<not> cfg_cash_discounts cfg \<or> \<not> cfg_cash_collection cfg) then no PAYMENT_CHANNEL
         else if \<not> isDiscount off \<and> \<not> cfg_cashback cfg then no DISABLED
         else case evaluateRules (of_rules off) ctx of
             RuleFail r d \<Rightarrow> Inl (r, d)
           | RuleOk \<Rightarrow>
             if (case of_per_user off of Some l \<Rightarrow> l \<le> env_usage env (of_id off) | None \<Rightarrow> False) then no USER_LIMIT
             else if (case of_global_limit off of Some l \<Rightarrow> l \<le> of_redemptions off | None \<Rightarrow> False) then no GLOBAL_LIMIT
             else if fadd discount cashback \<le> 0 then no DISABLED
             else if (case of_budget_total off of Some b \<Rightarrow> b < fadd (fadd (of_budget_spent off) discount) cashback | None \<Rightarrow> False)
               then no BUDGET
             else Inr \<lparr>ap_offer = of_id off, ap_version = of_version off, ap_discount = discount, ap_cashback = cashback,
               ap_per_user = of_per_user off, ap_ends = of_ends off\<rparr>)"

text \<open>Candidates: the typed offer first, then the automatic offers the rider has not declined.\<close>

definition typed_offer :: "offer_env \<Rightarrow> preview_input \<Rightarrow> offer_record option \<times> rejection list" where
  "typed_offer env inp = (case pi_code inp of None \<Rightarrow> (None, [])
     | Some code \<Rightarrow> if code = [] then (None, []) else
       case env_by_code env code of
         None \<Rightarrow> (None, [\<lparr>rj_offer = None, rj_code = Some code, rj_reason = UNKNOWN_CODE, rj_needed = None\<rparr>])
       | Some off \<Rightarrow> if of_kind off = AssignedOffer \<and> \<not> env_assigned env (of_id off)
           then (None, [\<lparr>rj_offer = Some (of_id off), rj_code = Some code, rj_reason = NOT_ASSIGNED, rj_needed = None\<rparr>])
           else (Some off, []))"

definition auto_candidates :: "offer_env \<Rightarrow> auto_choice \<Rightarrow> offer_record option \<Rightarrow> offer_record list" where
  "auto_candidates env choice typed = (case choice of NoAuto \<Rightarrow> []
     | BestAuto \<Rightarrow> filter (\<lambda>off. of_kind off = AutoOffer \<and> Some (of_id off) \<noteq> map_option of_id typed) (env_active env)
     | PickAuto s \<Rightarrow> filter (\<lambda>off. of_kind off = AutoOffer \<and> Some (of_id off) \<noteq> map_option of_id typed
           \<and> id_string (of_id off) = s) (env_active env))"

fun counts_rides :: "rule \<Rightarrow> bool" where
  "counts_rides NewUserRule = True"
| "counts_rides (FirstNRule _) = True"
| "counts_rides _ = False"

definition eval_context :: "offer_env \<Rightarrow> preview_input \<Rightarrow> fare_components \<Rightarrow> offer_record list \<Rightarrow> eval_ctx" where
  "eval_context env inp fare cands =
     \<lparr>cx_now = env_now env,
      cx_completed = (if list_ex (\<lambda>c. list_ex counts_rides (of_rules c)) cands
        then env_completed env else 0),
      cx_ride_type = pi_ride_type inp, cx_category = pi_category inp, cx_city = pi_city inp, cx_origin = pi_origin inp,
      cx_destination = pi_destination inp, cx_channel = pi_channel inp, cx_scheduled = pi_scheduled inp, cx_fare = fare\<rparr>"

definition offer_rank :: "nat option \<Rightarrow> applied_offer \<Rightarrow> nat \<times> rat \<times> nat \<times> int" where
  "offer_rank typed a = (if Some (ap_offer a) = typed then 0 else 1, - fadd (ap_discount a) (ap_cashback a),
     nulls_last (ap_ends a), coalesce (ap_ends a) 0)"

definition explained :: "nat option \<Rightarrow> offer_record \<Rightarrow> reason \<times> num option \<Rightarrow> rejection list" where
  "explained typed off rj = (if Some (of_id off) = typed
     then [\<lparr>rj_offer = Some (of_id off), rj_code = of_code off, rj_reason = fst rj, rj_needed = snd rj\<rparr>] else [])"

definition nearly :: "nat option \<Rightarrow> offer_record \<Rightarrow> reason \<times> num option \<Rightarrow> (nat \<times> num option) list" where
  "nearly typed off rj = (if Some (of_id off) \<noteq> typed \<and> of_kind off = AutoOffer \<and> fst rj = MIN_FARE
     then [(of_id off, snd rj)] else [])"

definition evaluateOffers :: "offer_env \<Rightarrow> preview_input \<Rightarrow> fare_breakdown \<Rightarrow> preview_result res" where
  "evaluateOffers env inp breakdown =
     (let fare = components breakdown; fareTotal = roundPaise (sumComponents fare COMPONENT_KEYS);
          none = \<lparr>pv_enabled = False, pv_fare_total = fareTotal, pv_discount = 0, pv_cashback = 0, pv_payable = fareTotal,
            pv_applied = None, pv_alternatives = [], pv_rejected = [], pv_ineligible = []\<rparr>
      in if \<not> cfg_offers_enabled (env_config env) then Inr none else
      let (typed, rejected) = typed_offer env inp; tid = map_option of_id typed;
          cands = (case typed of Some off \<Rightarrow> [off] | None \<Rightarrow> []) @ auto_candidates env (pi_auto inp) typed
      in if cands = [] then Inr (none\<lparr>pv_enabled := True, pv_rejected := rejected\<rparr>) else
      case (case orelse (pi_city inp) (pi_origin inp) of Some c \<Rightarrow> env_billing env c | None \<Rightarrow> Some Commission) of
        None \<Rightarrow> Inl (http_err 404 '''')
      | Some mode \<Rightarrow>
      let ctx = eval_context env inp fare cands; verdict = judge_offer env inp (mode = PackageBilling) ctx;
          eligible = sort_key (offer_rank tid) (concat (map (\<lambda>off. case verdict off of Inr a \<Rightarrow> [a] | Inl _ \<Rightarrow> []) cands));
          misses = concat (map (\<lambda>off. case verdict off of Inl rj \<Rightarrow> explained tid off rj | Inr _ \<Rightarrow> []) cands);
          chosen = (case eligible of a # _ \<Rightarrow> Some a | [] \<Rightarrow> None);
          discount = (case chosen of Some a \<Rightarrow> ap_discount a | None \<Rightarrow> 0)
      in Inr \<lparr>pv_enabled = True, pv_fare_total = fareTotal, pv_discount = discount,
          pv_cashback = (case chosen of Some a \<Rightarrow> ap_cashback a | None \<Rightarrow> 0),
          pv_payable = roundPaise (max (fsub fareTotal discount) 0), pv_applied = chosen,
          pv_alternatives = tl eligible, pv_rejected = rejected @ misses,
          pv_ineligible = concat (map (\<lambda>off. case verdict off of Inl rj \<Rightarrow> nearly tid off rj | Inr _ \<Rightarrow> []) cands)\<rparr>)"

subsection \<open>What a driver sees (\<open>driver-fare.ts\<close>)\<close>

definition driverFare :: "paise option \<Rightarrow> paise option \<Rightarrow> paise option \<Rightarrow> num" where
  "driverFare cash_due driver_fare total_estimated =
     (case orelse cash_due (orelse driver_fare total_estimated) of Some k \<Rightarrow> from_paise k | None \<Rightarrow> 0)"

text \<open>The default limit of first-ride offers (\<open>withFirstRideLimit\<close>).\<close>

fun first_ride_cap :: "rule list \<Rightarrow> int option \<Rightarrow> int option" where
  "first_ride_cap [] cap = cap"
| "first_ride_cap (NewUserRule # rs) cap = first_ride_cap rs (Some (min (coalesce cap 1) 1))"
| "first_ride_cap (FirstNRule n # rs) cap = first_ride_cap rs (Some (min (coalesce cap n) n))"
| "first_ride_cap (_ # rs) cap = first_ride_cap rs cap"

definition withFirstRideLimit :: "rule list \<Rightarrow> int option \<Rightarrow> int option" where
  "withFirstRideLimit rules perUserLimit = (case first_ride_cap rules None of None \<Rightarrow> perUserLimit
     | Some cap \<Rightarrow> (case perUserLimit of None \<Rightarrow> Some cap | Some l \<Rightarrow> Some (min l cap)))"

fun min_fare_amount :: "rule list \<Rightarrow> num option" where
  "min_fare_amount [] = None"
| "min_fare_amount (MinFareRule a # _) = Some a"
| "min_fare_amount (_ # rs) = min_fare_amount rs"

definition assertBenefitAllowed :: "offer_config \<Rightarrow> benefit \<Rightarrow> rule list \<Rightarrow> unit res" where
  "assertBenefitAllowed cfg b rules = (case b of
      CashbackPercent _ _ _ \<Rightarrow> guard_err (\<not> cfg_cashback cfg) (http_err 422 ''CASHBACK_DISABLED'')
    | CashbackFlat _ \<Rightarrow> guard_err (\<not> cfg_cashback cfg) (http_err 422 ''CASHBACK_DISABLED'')
    | PercentOff percent _ _ \<Rightarrow> guard_err (case cfg_max_pct cfg of Some cap \<Rightarrow> cap < percent | None \<Rightarrow> False)
        (http_err 422 ''DISCOUNT_TOO_HIGH'')
    | FlatOff amount _ \<Rightarrow>
        (let needed = \<lceil>fdiv (fmul amount 100) (case cfg_max_pct cfg of Some c \<Rightarrow> if 0 < c then c else 15 | None \<Rightarrow> 15)\<rceil>
         in guard_err (case min_fare_amount rules of Some a \<Rightarrow> a < of_int needed | None \<Rightarrow> True)
              (http_err 422 ''DISCOUNT_TOO_HIGH'')))"

subsection \<open>Rounding\<close>

lemma round_to_multiple:
  fixes y s :: rat
  assumes "0 < s"
  shows "\<bar>of_int \<lfloor>y / s + 1 / 2\<rfloor> * s - y\<bar> \<le> s / 2"
proof -
  have "\<bar>of_int \<lfloor>y / s + 1 / 2\<rfloor> - y / s\<bar> \<le> 1 / 2" by linarith
  then have "\<bar>of_int \<lfloor>y / s + 1 / 2\<rfloor> - y / s\<bar> * s \<le> 1 / 2 * s" using assms by (intro mult_right_mono) simp_all
  moreover have "\<bar>of_int \<lfloor>y / s + 1 / 2\<rfloor> - y / s\<bar> * s = \<bar>(of_int \<lfloor>y / s + 1 / 2\<rfloor> - y / s) * s\<bar>"
    using assms by (simp add: abs_mult)
  moreover have "(of_int \<lfloor>y / s + 1 / 2\<rfloor> - y / s) * s = of_int \<lfloor>y / s + 1 / 2\<rfloor> * s - y"
    using assms by (simp add: left_diff_distrib)
  ultimately show ?thesis by simp
qed

lemma to_precision_error: "1 \<le> n \<Longrightarrow> \<bar>to_precision n x - x\<bar> \<le> \<bar>x\<bar> / (2 * 10 ^ (n - 1))"
proof (cases "x = 0")
  case False
  assume n: "1 \<le> n"
  let ?e = "iexpo 10 \<bar>x\<bar>" and ?s = "10 powi (iexpo 10 \<bar>x\<bar> - (int n - 1)) :: rat"
  have s: "0 < ?s" by simp
  have e: "(10 :: rat) powi ?e \<le> \<bar>x\<bar>" using iexpo_bounds(1) [of "\<bar>x\<bar>" 10] False by simp
  have "?s = 10 powi ?e / 10 ^ (n - 1)"
  proof -
    have "int n - 1 = int (n - 1)" using n by simp
    then show ?thesis by (simp add: power_int_diff del: of_nat_diff)
  qed
  with e have sx: "?s \<le> \<bar>x\<bar> / 10 ^ (n - 1)" by (simp add: divide_right_mono)
  have "\<bar>of_int \<lfloor>\<bar>x\<bar> / ?s + 1 / 2\<rfloor> * ?s - \<bar>x\<bar>\<bar> \<le> ?s / 2" by (rule round_to_multiple) (rule s)
  also have "\<dots> \<le> \<bar>x\<bar> / (2 * 10 ^ (n - 1))" using sx by simp
  finally have r: "\<bar>of_int \<lfloor>\<bar>x\<bar> / ?s + 1 / 2\<rfloor> * ?s - \<bar>x\<bar>\<bar> \<le> \<bar>x\<bar> / (2 * 10 ^ (n - 1))" .
  have "to_precision n x - x = sgn x * (of_int \<lfloor>\<bar>x\<bar> / ?s + 1 / 2\<rfloor> * ?s - \<bar>x\<bar>)"
    using False by (simp add: to_precision_def Let_def right_diff_distrib sgn_mult_abs)
  then show ?thesis using r False by (simp add: abs_mult abs_sgn_eq)
qed (simp add: to_precision_def)

lemma roundPaise_scaled:
  assumes x: "\<bar>x\<bar> \<le> 10000000"
  shows "\<bar>fl (to_precision 12 (fmul x 100)) - 100 * x\<bar> \<le> 1 / 100"
proof -
  let ?y = "fmul x 100" and ?p = "to_precision 12 (fmul x 100)"
  have 1: "\<bar>?y - 100 * x\<bar> \<le> 1 / 1000000"
    using fl_error [of "x * 100"] x by (simp add: fmul_def mult.commute abs_mult)
  then have y: "\<bar>?y\<bar> \<le> 1000000001" using x by linarith
  have 2: "\<bar>?p - ?y\<bar> \<le> 6 / 1000" using to_precision_error [of 12 ?y] y by simp
  then have p: "\<bar>?p\<bar> \<le> 1000000002" using y by linarith
  have 3: "\<bar>fl ?p - ?p\<bar> \<le> 1 / 1000000" using fl_error [of ?p] p by simp
  show ?thesis using 1 2 3 by linarith
qed

definition paise_of :: "num \<Rightarrow> paise" where
  "paise_of x = js_round (fl (to_precision 12 (fmul x 100)))"

lemma roundPaise_from: "roundPaise x = from_paise (paise_of x)"
  by (simp add: roundPaise_def paise_of_def fdiv_def from_paise_def)

lemma paise_of_error: "\<bar>x\<bar> \<le> 10000000 \<Longrightarrow> \<bar>of_int (paise_of x) - 100 * x\<bar> \<le> 51 / 100"
  using roundPaise_scaled [of x] js_round_error [of "fl (to_precision 12 (fmul x 100))"]
  unfolding paise_of_def by linarith

lemma paise_of_near: "\<bar>x\<bar> \<le> 10000000 \<Longrightarrow> \<bar>x - of_int k / 100\<bar> \<le> 1 / 250 \<Longrightarrow> paise_of x = k"
  unfolding paise_of_def using roundPaise_scaled [of x] by (intro js_round_near) linarith

lemma paise_of_nonneg: "0 \<le> x \<Longrightarrow> x \<le> 10000000 \<Longrightarrow> 0 \<le> paise_of x"
proof -
  assume "0 \<le> x" "x \<le> 10000000"
  then have "- 1 < (of_int (paise_of x) :: rat)" using paise_of_error [of x] by linarith
  then show ?thesis by linarith
qed

lemma paise_of_from: "\<bar>k\<bar> \<le> 900000000 \<Longrightarrow> paise_of (from_paise k) = k"
proof -
  assume k: "\<bar>k\<bar> \<le> 900000000"
  have k': "\<bar>of_int k / 100 :: rat\<bar> \<le> 9000000"
    using k of_int_le_iff [of "\<bar>k\<bar>" "900000000", where 'a = rat] by simp
  have "\<bar>from_paise k - of_int k / 100\<bar> \<le> \<bar>of_int k / 100\<bar> / 2 ^ 53" unfolding from_paise_def by (rule fl_error)
  then have e: "\<bar>from_paise k - of_int k / 100\<bar> \<le> 1 / 250" using k' by simp
  then show ?thesis using k' by (intro paise_of_near) linarith+
qed

subsection \<open>Rules fail closed\<close>

lemma evaluateRules_ok: "evaluateRules rs ctx = RuleOk \<longleftrightarrow> list_all (\<lambda>r. evaluate_rule r ctx = RuleOk) rs"
  by (induction rs) (auto split: rule_result.split)

lemma evaluateRules_first:
  "evaluateRules rs ctx = RuleFail r d \<longleftrightarrow> (\<exists>xs y ys. rs = xs @ y # ys \<and> list_all (\<lambda>r. evaluate_rule r ctx = RuleOk) xs
     \<and> evaluate_rule y ctx = RuleFail r d)"
proof (induction rs)
  case (Cons a rs)
  show ?case
  proof (cases "evaluate_rule a ctx")
    case RuleOk
    then have "evaluateRules (a # rs) ctx = RuleFail r d \<longleftrightarrow> (\<exists>xs y ys. rs = xs @ y # ys
        \<and> list_all (\<lambda>r. evaluate_rule r ctx = RuleOk) xs \<and> evaluate_rule y ctx = RuleFail r d)" using Cons.IH by simp
    also have "\<dots> \<longleftrightarrow> (\<exists>xs y ys. a # rs = xs @ y # ys
        \<and> list_all (\<lambda>r. evaluate_rule r ctx = RuleOk) xs \<and> evaluate_rule y ctx = RuleFail r d)" (is "?l = ?r")
    proof
      assume ?l
      then obtain xs y ys where "rs = xs @ y # ys" "list_all (\<lambda>r. evaluate_rule r ctx = RuleOk) xs" "evaluate_rule y ctx = RuleFail r d"
        by blast
      then show ?r using RuleOk by (intro exI [of _ "a # xs"] exI [of _ y] exI [of _ ys]) simp
    next
      assume ?r
      then obtain xs y ys where x: "a # rs = xs @ y # ys" "list_all (\<lambda>r. evaluate_rule r ctx = RuleOk) xs" "evaluate_rule y ctx = RuleFail r d"
        by blast
      then show ?l using RuleOk by (cases xs) auto
    qed
    finally show ?thesis .
  next
    case (RuleFail r' d')
    have "\<exists>xs y ys. a # rs = xs @ y # ys \<and> list_all (\<lambda>r. evaluate_rule r ctx = RuleOk) xs \<and> evaluate_rule y ctx = RuleFail r' d'"
      by (rule exI [of _ "[]"]) (use RuleFail in simp)
    moreover have "r = r' \<and> d = d'" if "a # rs = xs @ y # ys" "list_all (\<lambda>r. evaluate_rule r ctx = RuleOk) xs"
        "evaluate_rule y ctx = RuleFail r d" for xs y ys
      using that RuleFail by (cases xs) simp_all
    ultimately show ?thesis using RuleFail by auto
  qed
qed simp

subsection \<open>Benefits\<close>

definition nonneg_fare :: "fare_components \<Rightarrow> bool" where
  "nonneg_fare f \<longleftrightarrow> list_all (\<lambda>k. 0 \<le> component f k) COMPONENT_KEYS"

lemma nonneg_component: "nonneg_fare f \<Longrightarrow> 0 \<le> component f k"
  by (cases k) (simp_all add: nonneg_fare_def COMPONENT_KEYS_def)

lemma foldl_nonneg: "nonneg_fare f \<Longrightarrow> 0 \<le> x \<Longrightarrow> 0 \<le> foldl (\<lambda>s k. fadd s (component f k)) x keys"
  by (induction keys arbitrary: x) (simp_all add: fadd_nonneg nonneg_component)

lemma sumComponents_nonneg: "nonneg_fare f \<Longrightarrow> 0 \<le> sumComponents f keys"
  unfolding sumComponents_def by (rule foldl_nonneg) simp_all

lemma fl_above: "0 \<le> x \<Longrightarrow> fl x \<le> x + x / 9007199254740992"
  using abs_le_D1 [OF fl_error [of x]] by simp

lemma roundPaise_le:
  assumes x: "0 \<le> x" "x \<le> 10000000"
  shows "0 \<le> roundPaise x" "roundPaise x \<le> x + 6 / 1000"
proof -
  have k: "0 \<le> paise_of x" "of_int (paise_of x) \<le> 100 * x + 51 / 100"
    using paise_of_nonneg [OF x] abs_le_D1 [OF paise_of_error [of x]] x by (simp, linarith)
  then show "0 \<le> roundPaise x" by (simp add: roundPaise_from from_paise_nonneg)
  have "of_int (paise_of x) / 100 \<le> (10000001 :: rat)" "0 \<le> (of_int (paise_of x) / 100 :: rat)" using k x by simp_all
  then have "fl (of_int (paise_of x) / 100) \<le> of_int (paise_of x) / 100 + 1 / 10000"
    using fl_above [of "of_int (paise_of x) / 100"] by simp
  then show "roundPaise x \<le> x + 6 / 1000" using k(2) unfolding roundPaise_from from_paise_def by linarith
qed

lemma share_le:
  assumes "0 \<le> e" "e \<le> 1000000" "0 \<le> c" "c \<le> 100"
  shows "0 \<le> fdiv (fmul e c) 100" "fdiv (fmul e c) 100 \<le> e * c / 100 + 1 / 1000"
proof -
  have ec: "0 \<le> e * c" "e * c \<le> 100000000" using assms mult_mono [of e 1000000 c 100] by simp_all
  show "0 \<le> fdiv (fmul e c) 100" using assms by (intro fdiv_nonneg fmul_nonneg) simp_all
  have a: "fmul e c \<le> e * c + 1 / 100000" "0 \<le> fmul e c"
    using fl_above [OF ec(1)] ec fl_nonneg [OF ec(1)] unfolding fmul_def by linarith+
  then have b: "0 \<le> fmul e c / 100" "fmul e c / 100 \<le> 1000001" using ec(2) by linarith+
  then have "fl (fmul e c / 100) \<le> fmul e c / 100 + 1 / 10000"
    using fl_above [of "fmul e c / 100"] by simp
  then show "fdiv (fmul e c) 100 \<le> e * c / 100 + 1 / 1000" using a(1) unfolding fdiv_def by linarith
qed

definition benefit_keys :: "benefit \<Rightarrow> fare_key list" where
  "benefit_keys b = (case b of PercentOff _ _ k \<Rightarrow> coalesce k DEFAULT_APPLIES_TO | FlatOff _ k \<Rightarrow> coalesce k DEFAULT_APPLIES_TO
     | CashbackPercent _ _ k \<Rightarrow> coalesce k DEFAULT_APPLIES_TO | CashbackFlat _ \<Rightarrow> DEFAULT_APPLIES_TO)"

lemma discount_shape:
  assumes "is_discount_benefit b" "0 \<le> sumComponents fare (benefit_keys b)"
  shows "\<exists>raw. computeBenefit b fare (Some cap) = (roundPaise (max (min (min raw (sumComponents fare (benefit_keys b)))
     (fdiv (fmul (sumComponents fare (benefit_keys b)) cap) 100)) 0), 0)"
  using assms by (cases b) (auto simp: benefit_keys_def Let_def)

text \<open>
  What a discount can take. On a fare without negative parts a discount is never negative and never
  more than the configured share of the components it applies to, nor than those components
  themselves, up to one rounding to the paisa; a discount offer gives no cashback and a cashback
  offer no discount.
\<close>

theorem discount_within_cap:
  assumes nn: "nonneg_fare fare" and el: "sumComponents fare (benefit_keys b) \<le> 1000000" and cap: "0 \<le> cap" "cap \<le> 100"
  defines "d \<equiv> fst (computeBenefit b fare (Some cap))"
  shows "0 \<le> d \<and> d \<le> sumComponents fare (benefit_keys b) * cap / 100 + 7 / 1000
    \<and> d \<le> sumComponents fare (benefit_keys b) + 6 / 1000
    \<and> (if is_discount_benefit b then snd (computeBenefit b fare (Some cap)) = 0 else d = 0)"
proof (cases "is_discount_benefit b")
  case True
  let ?e = "sumComponents fare (benefit_keys b)" and ?s = "fdiv (fmul (sumComponents fare (benefit_keys b)) cap) 100"
  have e: "0 \<le> ?e" using nn by (rule sumComponents_nonneg)
  obtain raw where raw: "computeBenefit b fare (Some cap) = (roundPaise (max (min (min raw ?e) ?s) 0), 0)"
    using discount_shape [OF True e] by blast
  let ?x = "max (min (min raw ?e) ?s) 0"
  have x: "0 \<le> ?x" "?x \<le> ?e" "?x \<le> ?s" using e share_le(1) [OF e el cap] by (auto simp: max_def min_def)
  have x7: "?x \<le> 10000000" using x(2) el by linarith
  have "roundPaise ?x \<le> ?e + 6 / 1000" using roundPaise_le(2) [OF x(1) x7] x(2) by linarith
  moreover have "roundPaise ?x \<le> ?e * cap / 100 + 7 / 1000"
    using roundPaise_le(2) [OF x(1) x7] x(3) share_le(2) [OF e el cap] by linarith
  ultimately show ?thesis using roundPaise_le(1) [OF x(1) x7] True unfolding d_def raw by simp
next
  case False
  then have "d = 0" unfolding d_def by (cases b) (simp_all add: Let_def)
  then show ?thesis using False sumComponents_nonneg [OF nn, of "benefit_keys b"] cap by simp
qed

definition demo_fare :: fare_components where
  "demo_fare = \<lparr>fc_base = 40, fc_distance = 200, fc_time = 60, fc_stop = 20, fc_hour = 0, fc_waiting = 0, fc_surge = 30, fc_overage = 0\<rparr>"

lemma discount_within_cap_witness:
  "fst (computeBenefit (PercentOff 50 None None) demo_fare (Some 15)) \<le> 300 * 15 / 100 + 7 / 1000"
proof -
  have "sumComponents demo_fare (benefit_keys (PercentOff 50 None None)) = 300" by code_simp
  moreover have "nonneg_fare demo_fare" by (simp add: nonneg_fare_def COMPONENT_KEYS_def demo_fare_def)
  ultimately show ?thesis using discount_within_cap [of demo_fare "PercentOff 50 None None" 15] by simp
qed

text \<open>
  \<open>appliesTo\<close> is a list, not a set: a component named twice counts twice, so the clamp to the
  eligible components does not protect the fare.
\<close>

lemma duplicate_component_counts_twice:
  "fst (computeBenefit (FlatOff 75 (Some [KBase, KBase])) demo_fare None) = 75 \<and> fc_base demo_fare = 40"
  by code_simp

text \<open>The value the comment of \<open>money.ts\<close> uses as its example is not a float trap.\<close>

lemma float_trap_example: "fmul (fl (33335 / 1000)) 100 = 3333 + 1 / 2 \<and> round2 (fl (33335 / 1000)) = roundPaise (fl (33335 / 1000))"
  by code_simp

subsection \<open>The decision\<close>

definition offer_allowed :: "offer_env \<Rightarrow> preview_input \<Rightarrow> offer_record \<Rightarrow> bool" where
  "offer_allowed env inp off \<longleftrightarrow> of_status off = Active
     \<and> (case of_starts off of Some t \<Rightarrow> t \<le> env_now env | None \<Rightarrow> True)
     \<and> (case of_ends off of Some t \<Rightarrow> env_now env < t | None \<Rightarrow> True)
     \<and> (case of_per_user off of Some l \<Rightarrow> env_usage env (of_id off) < l | None \<Rightarrow> True)
     \<and> (case of_global_limit off of Some l \<Rightarrow> of_redemptions off < l | None \<Rightarrow> True)
     \<and> (if isDiscount off
        then (case cfg_commission (env_config env) of Some c \<Rightarrow> c \<le> 0 | None \<Rightarrow> True)
           \<and> (pi_channel inp = Cash \<longrightarrow> cfg_cash_discounts (env_config env) \<and> cfg_cash_collection (env_config env))
        else cfg_cashback (env_config env))"

lemma judge_Inr:
  assumes "judge_offer env inp pkg ctx off = Inr a" "cx_now ctx = env_now env"
  shows "offer_allowed env inp off" "evaluateRules (of_rules off) ctx = RuleOk"
    and "ap_offer a = of_id off" "ap_version a = of_version off" "ap_ends a = of_ends off" "ap_per_user a = of_per_user off"
    and "(ap_discount a, ap_cashback a) = computeBenefit (of_benefit off) (cx_fare ctx) (Some (effective_cap (cfg_max_pct (env_config env))))"
    and "0 < fadd (ap_discount a) (ap_cashback a)" "isDiscount off \<Longrightarrow> \<not> pkg"
    and "case of_budget_total off of Some b \<Rightarrow> fadd (fadd (of_budget_spent off) (ap_discount a)) (ap_cashback a) \<le> b | None \<Rightarrow> True"
proof -
  obtain d c where dc: "computeBenefit (of_benefit off) (cx_fare ctx) (Some (effective_cap (cfg_max_pct (env_config env)))) = (d, c)"
    by (cases "computeBenefit (of_benefit off) (cx_fare ctx) (Some (effective_cap (cfg_max_pct (env_config env))))")
  note j = assms(1) [unfolded judge_offer_def Let_def dc prod.case]
  have rules: "evaluateRules (of_rules off) ctx = RuleOk"
    using j by (cases "evaluateRules (of_rules off) ctx") (simp_all split: if_splits)
  note j = j [unfolded rules rule_result.case]
  have a: "a = \<lparr>ap_offer = of_id off, ap_version = of_version off, ap_discount = d, ap_cashback = c,
      ap_per_user = of_per_user off, ap_ends = of_ends off\<rparr>"
    using j by (simp split: if_splits)
  show "evaluateRules (of_rules off) ctx = RuleOk" by (rule rules)
  show "ap_offer a = of_id off" "ap_version a = of_version off" "ap_ends a = of_ends off" "ap_per_user a = of_per_user off"
    "(ap_discount a, ap_cashback a) = computeBenefit (of_benefit off) (cx_fare ctx) (Some (effective_cap (cfg_max_pct (env_config env))))"
    using a dc by simp_all
  show "0 < fadd (ap_discount a) (ap_cashback a)" "isDiscount off \<Longrightarrow> \<not> pkg"
    using j a by (simp_all split: if_splits)
  show "case of_budget_total off of Some b \<Rightarrow> fadd (fadd (of_budget_spent off) (ap_discount a)) (ap_cashback a) \<le> b | None \<Rightarrow> True"
    using j a by (cases "of_budget_total off") (simp_all split: if_splits)
  have 1: "of_status off = Active" "case of_starts off of Some t \<Rightarrow> t \<le> env_now env | None \<Rightarrow> True"
    "case of_ends off of Some t \<Rightarrow> env_now env < t | None \<Rightarrow> True"
    using j assms(2) by (simp_all split: if_splits option.splits)
  have 2: "case of_per_user off of Some l \<Rightarrow> env_usage env (of_id off) < l | None \<Rightarrow> True"
    using j by (cases "of_per_user off") (simp_all split: if_splits)
  have 3: "case of_global_limit off of Some l \<Rightarrow> of_redemptions off < l | None \<Rightarrow> True"
    using j by (cases "of_global_limit off") (simp_all split: if_splits)
  have 4: "isDiscount off \<Longrightarrow> (case cfg_commission (env_config env) of Some c \<Rightarrow> c \<le> 0 | None \<Rightarrow> True)"
    using j by (cases "cfg_commission (env_config env)") (simp_all split: if_splits)
  have 5: "isDiscount off \<Longrightarrow> pi_channel inp = Cash \<Longrightarrow> cfg_cash_discounts (env_config env) \<and> cfg_cash_collection (env_config env)"
    "\<not> isDiscount off \<Longrightarrow> cfg_cashback (env_config env)"
    using j by (simp_all split: if_splits)
  show "offer_allowed env inp off" unfolding offer_allowed_def using 1 2 3 4 5 by simp
qed

definition candidates :: "offer_env \<Rightarrow> preview_input \<Rightarrow> offer_record list" where
  "candidates env inp = (case fst (typed_offer env inp) of Some off \<Rightarrow> [off] | None \<Rightarrow> [])
     @ auto_candidates env (pi_auto inp) (fst (typed_offer env inp))"

definition verdict_of :: "offer_env \<Rightarrow> preview_input \<Rightarrow> fare_breakdown \<Rightarrow> offer_record \<Rightarrow> (reason \<times> num option) + applied_offer" where
  "verdict_of env inp b = judge_offer env inp
     (case orelse (pi_city inp) (pi_origin inp) of Some c \<Rightarrow> env_billing env c = Some PackageBilling | None \<Rightarrow> False)
     (eval_context env inp (components b) (candidates env inp))"

definition eligible_offers :: "offer_env \<Rightarrow> preview_input \<Rightarrow> fare_breakdown \<Rightarrow> applied_offer list" where
  "eligible_offers env inp b = concat (map (\<lambda>off. case verdict_of env inp b off of Inr a \<Rightarrow> [a] | Inl _ \<Rightarrow> []) (candidates env inp))"

lemma eligible_in: "a \<in> set (eligible_offers env inp b) \<longleftrightarrow> (\<exists>off \<in> set (candidates env inp). verdict_of env inp b off = Inr a)"
  by (auto simp: eligible_offers_def split: sum.splits) (metis)

text \<open>The shape of a successful evaluation.\<close>

lemma evaluate_shape:
  assumes "evaluateOffers env inp b = Inr r"
  shows "pv_fare_total r = roundPaise (sumComponents (components b) COMPONENT_KEYS)"
    and "pv_discount r = (case pv_applied r of Some a \<Rightarrow> ap_discount a | None \<Rightarrow> 0)"
    and "pv_cashback r = (case pv_applied r of Some a \<Rightarrow> ap_cashback a | None \<Rightarrow> 0)"
    and "cfg_offers_enabled (env_config env) \<Longrightarrow> (case pv_applied r of None \<Rightarrow> eligible_offers env inp b = []
       | Some a \<Rightarrow> sort_key (offer_rank (map_option of_id (fst (typed_offer env inp)))) (eligible_offers env inp b)
           = a # pv_alternatives r)"
    and "\<not> cfg_offers_enabled (env_config env) \<Longrightarrow> pv_applied r = None"
    and "pv_applied r \<noteq> None \<Longrightarrow> pv_payable r = roundPaise (max (fsub (pv_fare_total r) (pv_discount r)) 0)"
    and "pv_applied r = None \<Longrightarrow> pv_payable r = pv_fare_total r \<or> pv_payable r = roundPaise (max (fsub (pv_fare_total r) 0) 0)"
proof -
  obtain typed rejected where t: "typed_offer env inp = (typed, rejected)" by (cases "typed_offer env inp")
  have "pv_fare_total r = roundPaise (sumComponents (components b) COMPONENT_KEYS)
    \<and> pv_discount r = (case pv_applied r of Some a \<Rightarrow> ap_discount a | None \<Rightarrow> 0)
    \<and> pv_cashback r = (case pv_applied r of Some a \<Rightarrow> ap_cashback a | None \<Rightarrow> 0)
    \<and> (cfg_offers_enabled (env_config env) \<longrightarrow> (case pv_applied r of None \<Rightarrow> eligible_offers env inp b = []
       | Some a \<Rightarrow> sort_key (offer_rank (map_option of_id (fst (typed_offer env inp)))) (eligible_offers env inp b)
           = a # pv_alternatives r))
    \<and> (\<not> cfg_offers_enabled (env_config env) \<longrightarrow> pv_applied r = None)
    \<and> (pv_applied r = None \<longrightarrow> pv_payable r = pv_fare_total r \<or> pv_payable r = roundPaise (max (fsub (pv_fare_total r) 0) 0))
    \<and> (pv_applied r \<noteq> None \<longrightarrow> pv_payable r = roundPaise (max (fsub (pv_fare_total r) (pv_discount r)) 0))"
  proof (cases "cfg_offers_enabled (env_config env)")
    case False
    then show ?thesis using assms by (auto simp: evaluateOffers_def Let_def)
  next
    case True
    note e = assms [unfolded evaluateOffers_def Let_def t prod.case]
    show ?thesis
    proof (cases "candidates env inp = []")
      case nil: True
      then have c: "(case typed of Some off \<Rightarrow> [off] | None \<Rightarrow> []) @ auto_candidates env (pi_auto inp) typed = []"
        by (simp add: candidates_def t)
      have "eligible_offers env inp b = []" using nil by (simp add: eligible_offers_def)
      then show ?thesis using e True c by (auto simp: Let_def)
    next
      case ne: False
      have c: "(case typed of Some off \<Rightarrow> [off] | None \<Rightarrow> []) @ auto_candidates env (pi_auto inp) typed = candidates env inp"
        by (simp add: candidates_def t)
      note e = e [unfolded c]
      obtain mode where m: "(case orelse (pi_city inp) (pi_origin inp) of Some c \<Rightarrow> env_billing env c | None \<Rightarrow> Some Commission) = Some mode"
        using e True ne by (cases "case orelse (pi_city inp) (pi_origin inp) of Some c \<Rightarrow> env_billing env c | None \<Rightarrow> Some Commission") simp_all
      have v: "judge_offer env inp (mode = PackageBilling) (eval_context env inp (components b) (candidates env inp))
          = verdict_of env inp b"
        using m unfolding verdict_of_def by (cases "orelse (pi_city inp) (pi_origin inp)") auto
      note e = e [unfolded m option.case v, folded eligible_offers_def]
      let ?l = "sort_key (offer_rank (map_option of_id typed)) (eligible_offers env inp b)"
      show ?thesis
      proof (cases ?l)
        case Nil
        then have "eligible_offers env inp b = []" by (metis length_0_conv length_sort)
        then show ?thesis using e True ne Nil by (auto simp: t)
      next
        case (Cons a l)
        then show ?thesis using e True ne by (auto simp: t)
      qed
    qed
  qed
  then show "pv_fare_total r = roundPaise (sumComponents (components b) COMPONENT_KEYS)"
    and "pv_discount r = (case pv_applied r of Some a \<Rightarrow> ap_discount a | None \<Rightarrow> 0)"
    and "pv_cashback r = (case pv_applied r of Some a \<Rightarrow> ap_cashback a | None \<Rightarrow> 0)"
    and "cfg_offers_enabled (env_config env) \<Longrightarrow> (case pv_applied r of None \<Rightarrow> eligible_offers env inp b = []
       | Some a \<Rightarrow> sort_key (offer_rank (map_option of_id (fst (typed_offer env inp)))) (eligible_offers env inp b)
           = a # pv_alternatives r)"
    and "\<not> cfg_offers_enabled (env_config env) \<Longrightarrow> pv_applied r = None"
    and "pv_applied r \<noteq> None \<Longrightarrow> pv_payable r = roundPaise (max (fsub (pv_fare_total r) (pv_discount r)) 0)"
    and "pv_applied r = None \<Longrightarrow> pv_payable r = pv_fare_total r \<or> pv_payable r = roundPaise (max (fsub (pv_fare_total r) 0) 0)"
    by blast+
qed

text \<open>
  An offer is applied only where it may be: the switch is on, the offer is the typed one or
  an active automatic one, it is inside its dates and limits, every one of its rules passes, a
  discount is never given while commission is charged, in a package city or on a cash ride without
  both cash switches, a cashback never while cashback is off; the amounts are those of
  \<open>computeBenefit\<close> under the effective cap and positive; and they fit the offer's remaining budget.
\<close>

theorem applied_offer_allowed:
  assumes "evaluateOffers env inp b = Inr r" "pv_applied r = Some a"
  shows "cfg_offers_enabled (env_config env)
    \<and> (\<exists>off. off \<in> set (candidates env inp) \<and> ap_offer a = of_id off \<and> offer_allowed env inp off
        \<and> (\<forall>rule \<in> set (of_rules off). evaluate_rule rule (eval_context env inp (components b) (candidates env inp)) = RuleOk)
        \<and> (ap_discount a, ap_cashback a) = computeBenefit (of_benefit off) (components b) (Some (effective_cap (cfg_max_pct (env_config env))))
        \<and> 0 < fadd (ap_discount a) (ap_cashback a)
        \<and> (case of_budget_total off of Some t \<Rightarrow> fadd (fadd (of_budget_spent off) (ap_discount a)) (ap_cashback a) \<le> t | None \<Rightarrow> True)
        \<and> (isDiscount off \<longrightarrow> (\<forall>c. orelse (pi_city inp) (pi_origin inp) = Some c \<longrightarrow> env_billing env c \<noteq> Some PackageBilling)))"
proof -
  note s = evaluate_shape [OF assms(1)]
  have on: "cfg_offers_enabled (env_config env)" using s(5) assms(2) by auto
  have "a \<in> set (sort_key (offer_rank (map_option of_id (fst (typed_offer env inp)))) (eligible_offers env inp b))"
    using s(4) [OF on] assms(2) by simp
  then obtain off where off: "off \<in> set (candidates env inp)" "verdict_of env inp b off = Inr a"
    by (auto simp: eligible_in)
  have now: "cx_now (eval_context env inp (components b) (candidates env inp)) = env_now env"
    and fare: "cx_fare (eval_context env inp (components b) (candidates env inp)) = components b"
    by (simp_all add: eval_context_def)
  note j = judge_Inr [OF off(2) [unfolded verdict_of_def] now, unfolded fare]
  show ?thesis using on off(1) j by (auto simp: evaluateRules_ok list_all_iff)
qed

text \<open>
  The best offer wins. The applied offer ranks first among all that apply: a typed code before
  any automatic offer, then the larger value to the rider, then the one that ends first; nothing is
  applied only if nothing applies; and every other offer that applies is listed as an alternative.
\<close>

theorem best_offer_applied:
  assumes "evaluateOffers env inp b = Inr r" "cfg_offers_enabled (env_config env)"
  shows "case pv_applied r of
      None \<Rightarrow> eligible_offers env inp b = []
    | Some a \<Rightarrow> a \<in> set (eligible_offers env inp b)
        \<and> mset (a # pv_alternatives r) = mset (eligible_offers env inp b)
        \<and> (\<forall>x \<in> set (eligible_offers env inp b). offer_rank (map_option of_id (fst (typed_offer env inp))) a
             \<le> offer_rank (map_option of_id (fst (typed_offer env inp))) x)
        \<and> (\<forall>x \<in> set (eligible_offers env inp b). \<forall>t. map_option of_id (fst (typed_offer env inp)) = Some t \<longrightarrow>
             ap_offer x = t \<longrightarrow> ap_offer a = t)"
proof (cases "pv_applied r")
  case None
  then show ?thesis using evaluate_shape(4) [OF assms] by simp
next
  case (Some a)
  let ?f = "offer_rank (map_option of_id (fst (typed_offer env inp)))" and ?l = "eligible_offers env inp b"
  have eq: "sort_key ?f ?l = a # pv_alternatives r" using evaluate_shape(4) [OF assms] Some by simp
  have m: "mset (a # pv_alternatives r) = mset ?l" using eq by (metis mset_sort)
  have "sorted (map ?f (sort_key ?f ?l))" by (rule sorted_sort_key)
  then have le: "?f a \<le> ?f x" if "x \<in> set ?l" for x
    using that eq set_sort [of ?f ?l] by (auto simp: eq)
  have a: "a \<in> set ?l" using m mset_eq_setD by fastforce
  have "ap_offer a = t" if x: "x \<in> set ?l" "map_option of_id (fst (typed_offer env inp)) = Some t" "ap_offer x = t" for x t
    using le [OF x(1)] x(2,3) by (auto simp: offer_rank_def split: if_splits)
  then show ?thesis using Some m a le by simp
qed

text \<open>
  What the rider pays, in paise, is exactly the fare minus the discount (never below zero) for
  fares up to five million rupees.
\<close>

theorem payable_is_fare_minus_discount:
  assumes "evaluateOffers env inp b = Inr r" "nonneg_fare (components b)"
    and "sumComponents (components b) COMPONENT_KEYS \<le> 5000000"
    and "pv_discount r = from_paise d" "0 \<le> d" "d \<le> 500000000"
  shows "pv_payable r = from_paise (max (paise_of (sumComponents (components b) COMPONENT_KEYS) - d) 0)"
proof -
  let ?s = "sumComponents (components b) COMPONENT_KEYS"
  define k where "k = paise_of ?s"
  have s: "0 \<le> ?s" "?s \<le> 5000000" using assms(2,3) sumComponents_nonneg by auto
  then have k: "0 \<le> k" "of_int k \<le> 100 * ?s + 51 / 100"
    using paise_of_nonneg [of ?s] abs_le_D1 [OF paise_of_error [of ?s]] unfolding k_def by (simp, linarith)
  then have "of_int k \<le> (of_int 500000001 :: rat)" using s(2) by simp
  then have k5: "k \<le> 500000001" by (simp only: of_int_le_iff)
  have tot: "pv_fare_total r = from_paise k" using evaluate_shape(1) [OF assms(1)] by (simp add: roundPaise_from k_def)
  have ok: "paise_ok k" "paise_ok d" using k(1) k5 assms(5,6) by (simp_all add: paise_ok_def)
  have sub: "roundPaise (max (fsub (from_paise k) (from_paise d)) 0) = from_paise (max (k - d) 0)"
  proof -
    have "near 3 (fsub (from_paise k) (from_paise d)) (k - d)"
      using near_fsub [OF near_paise [OF ok(1)] near_paise [OF ok(2)]] k k5 assms(5,6) by (simp add: paise_ok_def)
    then have n: "near 3 (max (fsub (from_paise k) (from_paise d)) 0) (max (k - d) 0)" by (rule near_max) (simp add: near_0)
    have "\<bar>of_int (max (k - d) 0) / 100 :: rat\<bar> \<le> 6000000"
      using of_int_le_iff [of "max (k - d) 0" 600000000, where 'a = rat] k5 assms(5) by simp
    then show ?thesis unfolding roundPaise_from using n unfolding near_def
      by (intro arg_cong [where f = from_paise] paise_of_near; linarith)
  qed
  show ?thesis
  proof (cases "pv_applied r")
    case None
    then have d0: "d = 0" using evaluate_shape(2) [OF assms(1)] assms(4) by simp
    have "roundPaise (max (fsub (from_paise k) 0) 0) = from_paise k" using sub d0 k(1) by simp
    then show ?thesis using evaluate_shape(7) [OF assms(1) None] tot d0 k(1) unfolding k_def [symmetric] by auto
  next
    case (Some a)
    then show ?thesis using evaluate_shape(6) [OF assms(1)] tot sub assms(4) unfolding k_def [symmetric] by simp
  qed
qed

definition demo_breakdown :: fare_breakdown where
  "demo_breakdown = \<lparr>base_fare = 40, distance_fare = 200, time_fare = 60, stop_fare = 20, hour_surcharge = 0,
     overage_fare = 0, surge_fare = 30, subtotal = 320, total = 350, bd_overage_km = None, waiting_fare = None\<rparr>"

definition demo_offer :: offer_record where
  "demo_offer = \<lparr>of_id = 7, of_code = None, of_kind = AutoOffer, of_status = Active, of_version = 3,
     of_rules = [MinFareRule 100, ChannelRule [Online]], of_benefit = PercentOff 10 (Some 50) None, of_per_user = Some 1,
     of_budget_total = Some 1000, of_budget_spent = 100, of_global_limit = None, of_redemptions = 4,
     of_starts = None, of_ends = None\<rparr>"

definition demo_offer_env :: offer_env where
  "demo_offer_env = \<lparr>env_config = \<lparr>cfg_offers_enabled = True, cfg_commission = Some 0, cfg_cash_discounts = False,
       cfg_cash_collection = True, cfg_cashback = False, cfg_max_pct = Some 15\<rparr>,
     env_by_code = (\<lambda>_. None), env_active = [demo_offer], env_assigned = (\<lambda>_. False), env_usage = (\<lambda>_. 0),
     env_completed = 2, env_billing = (\<lambda>_. Some Commission), env_now = 1000\<rparr>"

definition demo_preview :: preview_input where
  "demo_preview = \<lparr>pi_ride_type = one_way, pi_category = 4, pi_city = Some 3, pi_origin = Some 3, pi_destination = None,
     pi_channel = Online, pi_scheduled = None, pi_code = None, pi_auto = BestAuto\<rparr>"

lemma demo_evaluates:
  "\<exists>r a. evaluateOffers demo_offer_env demo_preview demo_breakdown = Inr r \<and> pv_applied r = Some a
     \<and> pv_discount r = from_paise 3000"
proof -
  have c: "candidates demo_offer_env demo_preview = [demo_offer]"
    by (simp add: candidates_def typed_offer_def auto_candidates_def demo_offer_env_def demo_preview_def demo_offer_def)
  have ex: "\<exists>r. evaluateOffers demo_offer_env demo_preview demo_breakdown = Inr r"
    unfolding evaluateOffers_def Let_def
    by (simp add: typed_offer_def auto_candidates_def demo_offer_env_def demo_preview_def demo_offer_def)
  then obtain r where r: "evaluateOffers demo_offer_env demo_preview demo_breakdown = Inr r" by blast
  have "verdict_of demo_offer_env demo_preview demo_breakdown demo_offer
      = Inr \<lparr>ap_offer = 7, ap_version = 3, ap_discount = 30, ap_cashback = 0, ap_per_user = Some 1, ap_ends = None\<rparr>"
    unfolding verdict_of_def c by code_simp
  then have e: "eligible_offers demo_offer_env demo_preview demo_breakdown
      = [\<lparr>ap_offer = 7, ap_version = 3, ap_discount = 30, ap_cashback = 0, ap_per_user = Some 1, ap_ends = None\<rparr>]"
    by (simp add: eligible_offers_def c)
  have on: "cfg_offers_enabled (env_config demo_offer_env)" by (simp add: demo_offer_env_def)
  obtain a where a: "pv_applied r = Some a" "ap_discount a = 30"
    using evaluate_shape(4) [OF r on] e by (cases "pv_applied r") auto
  moreover have "from_paise 3000 = 30" using fl_int [of 30] by (simp add: from_paise_def)
  ultimately show ?thesis using r evaluate_shape(2) [OF r] by auto
qed

lemma applied_offer_allowed_witness:
  "\<exists>r a. evaluateOffers demo_offer_env demo_preview demo_breakdown = Inr r \<and> pv_applied r = Some a
     \<and> (\<exists>off. off \<in> set (candidates demo_offer_env demo_preview) \<and> ap_offer a = of_id off
          \<and> offer_allowed demo_offer_env demo_preview off)"
proof -
  obtain r a where r: "evaluateOffers demo_offer_env demo_preview demo_breakdown = Inr r" "pv_applied r = Some a"
    using demo_evaluates by blast
  show ?thesis using applied_offer_allowed [OF r] r by blast
qed

lemma best_offer_applied_witness:
  "\<exists>r a. evaluateOffers demo_offer_env demo_preview demo_breakdown = Inr r \<and> pv_applied r = Some a
     \<and> mset (a # pv_alternatives r) = mset (eligible_offers demo_offer_env demo_preview demo_breakdown)"
proof -
  obtain r a where r: "evaluateOffers demo_offer_env demo_preview demo_breakdown = Inr r" "pv_applied r = Some a"
    using demo_evaluates by blast
  have "cfg_offers_enabled (env_config demo_offer_env)" by (simp add: demo_offer_env_def)
  from best_offer_applied [OF r(1) this] show ?thesis using r by (intro exI [of _ r] exI [of _ a]) simp
qed

lemma payable_is_fare_minus_discount_witness:
  "\<exists>r. evaluateOffers demo_offer_env demo_preview demo_breakdown = Inr r \<and> pv_payable r = from_paise 32000"
proof -
  obtain r where r: "evaluateOffers demo_offer_env demo_preview demo_breakdown = Inr r" "pv_discount r = from_paise 3000"
    using demo_evaluates by blast
  have s: "sumComponents (components demo_breakdown) COMPONENT_KEYS = 350" by code_simp
  have p: "paise_of 350 = 35000" by code_simp
  have "nonneg_fare (components demo_breakdown)"
    by (simp add: nonneg_fare_def COMPONENT_KEYS_def components_def demo_breakdown_def)
  from payable_is_fare_minus_discount [OF r(1) this _ r(2)] show ?thesis using r(1) s p by simp
qed

end
