(* ===== verification/Claims.thy ===== *)
theory Claims
  imports Prelude
begin

text \<open>
  The contract of a claim: a guarded \<open>UPDATE ... WHERE status = <open> RETURNING\<close> (or an insert that
  does nothing on conflict) that several callers may race for. \<open>at_most_once\<close> is the weakest form, where a
  claim may also fail and leave the key open; \<open>claim_once\<close> is the form that always wins an open
  key; \<open>paid_claim\<close> also moves an amount. The providers are the wallets, the settlement of a payment, the
  consumption and release of an offer, and the ride's own status changes.
\<close>

locale at_most_once =
  fixes pending :: "'s \<Rightarrow> 'k \<Rightarrow> bool"
    and claim :: "'k \<Rightarrow> 's \<Rightarrow> bool \<times> 's"
  assumes wins_open: "fst (claim k s) \<Longrightarrow> pending s k"
    and wins_close: "fst (claim k s) \<Longrightarrow> \<not> pending (snd (claim k s)) k"
    and stays_closed: "\<not> pending s j \<Longrightarrow> \<not> pending (snd (claim k s)) j"
begin

text \<open>The keys won by a sequence of claims, in order, and the state after it.\<close>

fun wins :: "'k list \<Rightarrow> 's \<Rightarrow> 'k list" where
  "wins [] s = []"
| "wins (k # ks) s = (if fst (claim k s) then [k] else []) @ wins ks (snd (claim k s))"

fun run :: "'k list \<Rightarrow> 's \<Rightarrow> 's" where
  "run [] s = s"
| "run (k # ks) s = run ks (snd (claim k s))"

lemma closed_never_wins: "\<not> pending s k \<Longrightarrow> k \<notin> set (wins ks s)"
proof (induction ks arbitrary: s)
  case (Cons j ks)
  then show ?case using wins_open stays_closed by auto
qed simp

lemma won_once: "distinct (wins ks s)"
proof (induction ks arbitrary: s)
  case (Cons k ks)
  then show ?case using closed_never_wins [OF wins_close [of k s], of ks] by simp
qed simp

lemma won_was_open: "k \<in> set (wins ks s) \<Longrightarrow> pending s k \<and> k \<in> set ks"
proof (induction ks arbitrary: s)
  case (Cons j ks)
  then show ?case using wins_open stays_closed by (fastforce split: if_splits)
qed simp

end

locale claim_once =
  fixes pending :: "'s \<Rightarrow> 'k \<Rightarrow> bool"
    and claim :: "'k \<Rightarrow> 's \<Rightarrow> bool \<times> 's"
  assumes claim_wins: "fst (claim k s) \<longleftrightarrow> pending s k"
    and claim_closes: "\<not> pending (snd (claim k s)) k"
    and claim_local: "j \<noteq> k \<Longrightarrow> pending (snd (claim k s)) j \<longleftrightarrow> pending s j"
begin

lemma closed_stays_closed: "\<not> pending s j \<Longrightarrow> \<not> pending (snd (claim k s)) j"
  using claim_closes claim_local by (cases "j = k") auto

sublocale at_most_once pending claim
  by unfold_locales (simp_all add: claim_wins claim_closes closed_stays_closed)

lemma won_iff: "k \<in> set (wins ks s) \<longleftrightarrow> pending s k \<and> k \<in> set ks"
proof (induction ks arbitrary: s)
  case (Cons j ks)
  show ?case
  proof (cases "j = k")
    case True
    then show ?thesis using claim_wins closed_never_wins [OF claim_closes [of k s], of ks] by auto
  next
    case False
    then show ?thesis using Cons.IH [of "snd (claim j s)"] claim_local [of k j s] by auto
  qed
qed simp

end

text \<open>
  A claim that also moves an amount fixed by its key: \<open>credited\<close> is what has been moved so far. However
  often the claims are repeated, each key is paid at most once.
\<close>

locale paid_claim = at_most_once pending claim
  for pending :: "'s \<Rightarrow> 'k \<Rightarrow> bool" and claim :: "'k \<Rightarrow> 's \<Rightarrow> bool \<times> 's" +
  fixes amount :: "'k \<Rightarrow> int"
    and credited :: "'s \<Rightarrow> int"
    and valid :: "'s \<Rightarrow> bool"
  assumes credit_step: "valid s \<Longrightarrow> credited (snd (claim k s)) = credited s + (if fst (claim k s) then amount k else 0)"
    and claim_valid: "valid s \<Longrightarrow> valid (snd (claim k s))"
begin

lemma credited_once: "valid s \<Longrightarrow> credited (run ks s) = credited s + sum_list (map amount (wins ks s))"
proof (induction ks arbitrary: s)
  case (Cons k ks)
  then show ?case using Cons.IH [of "snd (claim k s)"] credit_step [of s k] claim_valid [of s k] by simp
qed simp

end

end
