(* ===== verification/OfferLedger.thy ===== *)
theory OfferLedger
  imports Offers Claims
begin

text \<open>
  The redemption ledger, \<open>offers.repository.ts\<close>, \<open>settlement.ts\<close> and the admin writes of
  \<open>admin-offers.service.ts\<close>. Every function is one transaction on the tables below (an error leaves
  them as they were), but for the release that runs on the pool after a fruitless last round (\<open>releaseOnPool\<close>): its statements commit one by one and may stop half-way; the discount of a ride lives on its fare snapshot. The lemmas show that the
  counters of an offer always equal what its redemption rows say, that a budget is never overspent,
  that a ride holds at most one live redemption, and that settling, cancelling and re-deriving a
  discount are idempotent.
\<close>

subsection \<open>Tables\<close>

datatype redemption_status = Reserved | Consumed | Released | Reversed

record redemption =
  rd_offer :: nat
  rd_version :: nat
  rd_user :: nat
  rd_ride :: nat
  rd_status :: redemption_status
  rd_discount :: paise
  rd_cashback :: paise
  rd_reason :: "string option"

record offer_row =
  or_code :: "string option"
  or_kind :: offer_kind
  or_status :: offer_status
  or_budget_total :: "paise option"
  or_budget_spent :: paise
  or_global_limit :: "int option"
  or_count :: int
  or_starts :: "int option"
  or_ends :: "int option"
  or_current :: nat

record version_row =
  vr_offer :: nat
  vr_number :: nat
  vr_rules :: "rule list"
  vr_benefit :: benefit
  vr_per_user :: "int option"

record snapshot_row =
  fs_base :: paise
  fs_distance :: paise
  fs_time :: paise
  fs_stop :: paise
  fs_hour :: paise
  fs_surge :: paise
  fs_waiting :: "paise option"
  fs_overage :: "paise option"
  fs_estimated :: paise
  fs_final :: "paise option"
  fs_discount :: paise

record offer_db =
  offers :: "nat \<rightharpoonup> offer_row"
  versions :: "version_row list"
  redemptions :: "redemption list"
  user_usage :: "nat \<times> nat \<rightharpoonup> int"
  snapshots :: "nat \<rightharpoonup> snapshot_row"
  next_offer :: nat

definition is_live :: "redemption_status \<Rightarrow> bool" where
  "is_live st \<longleftrightarrow> st = Reserved \<or> st = Consumed"

subsection \<open>Reserving\<close>

record reserve_args =
  ra_offer :: nat
  ra_version :: nat
  ra_user :: nat
  ra_ride :: nat
  ra_discount :: num
  ra_cashback :: num
  ra_per_user :: "int option"

datatype reserve_result = ReserveOk nat | ReserveRefused reason

definition budget_allows :: "offer_row \<Rightarrow> paise \<Rightarrow> bool" where
  "budget_allows off spend \<longleftrightarrow> (case or_budget_total off of None \<Rightarrow> True | Some t \<Rightarrow> or_budget_spent off + spend \<le> t)"

definition whyOfferRefused :: "offer_db \<Rightarrow> nat \<Rightarrow> paise \<Rightarrow> reason" where
  "whyOfferRefused db i spend = (case offers db i of None \<Rightarrow> DISABLED
     | Some off \<Rightarrow> if or_status off \<noteq> Active then DISABLED
         else if budget_allows off spend then GLOBAL_LIMIT else BUDGET)"

text \<open>
  The amounts are already rounded to paise; a second live redemption for the ride hits the partial
  unique index and the error propagates, as does an amount that overflows its column. Each refusal rolls back to the savepoint.
\<close>

definition reserveRedemption :: "reserve_args \<Rightarrow> offer_db \<Rightarrow> reserve_result res \<times> offer_db" where
  "reserveRedemption a db =
     (let key = (ra_offer a, ra_user a); spend = to_paise (fadd (ra_discount a) (ra_cashback a)) in
      case (case user_usage db key of None \<Rightarrow> Some 1
            | Some c \<Rightarrow> if (case ra_per_user a of None \<Rightarrow> True | Some l \<Rightarrow> c < l) then Some (c + 1) else None) of
        None \<Rightarrow> (Inr (ReserveRefused USER_LIMIT), db)
      | Some c \<Rightarrow>
          (case upd_where (offers db) (ra_offer a)
             (\<lambda>off. or_status off = Active \<and> budget_allows off spend
                 \<and> (case or_global_limit off of None \<Rightarrow> True | Some l \<Rightarrow> or_count off < l))
             (\<lambda>off. off\<lparr>or_budget_spent := or_budget_spent off + spend, or_count := or_count off + 1\<rparr>) of
             (t, n) \<Rightarrow>
               if n = 0 then (Inr (ReserveRefused (whyOfferRefused db (ra_offer a) spend)), db)
               else if pred_option (\<lambda>off. \<not> numeric_fits 12 (or_budget_spent off)) (t (ra_offer a))
                 \<or> \<not> numeric_fits 10 (to_paise (ra_discount a)) \<or> \<not> numeric_fits 10 (to_paise (ra_cashback a))
               then (Inl db_error, db)
               else if list_ex (\<lambda>r. rd_ride r = ra_ride a \<and> is_live (rd_status r)) (redemptions db) then (Inl db_error, db)
               else (Inr (ReserveOk (length (redemptions db))),
                 db\<lparr>user_usage := (user_usage db)(key \<mapsto> c), offers := t,
                    redemptions := redemptions db @ [\<lparr>rd_offer = ra_offer a, rd_version = ra_version a, rd_user = ra_user a,
                      rd_ride = ra_ride a, rd_status = Reserved, rd_discount = to_paise (ra_discount a),
                      rd_cashback = to_paise (ra_cashback a), rd_reason = None\<rparr>]\<rparr>)))"

subsection \<open>Consuming, releasing, reversing\<close>

definition hits :: "nat \<Rightarrow> redemption_status \<Rightarrow> redemption \<Rightarrow> bool" where
  "hits ride st r \<longleftrightarrow> rd_ride r = ride \<and> rd_status r = st"

definition consumeRedemption :: "nat \<Rightarrow> offer_db \<Rightarrow> (num \<times> num \<times> nat) option \<times> offer_db" where
  "consumeRedemption ride db =
     (map_option (\<lambda>r. (from_paise (rd_discount r), from_paise (rd_cashback r), rd_user r)) (find (hits ride Reserved) (redemptions db)),
      db\<lparr>redemptions := map (\<lambda>r. if hits ride Reserved r then r\<lparr>rd_status := Consumed\<rparr> else r) (redemptions db)\<rparr>)"

text \<open>
  The statements of \<open>undo\<close>: the redemption, the counters of the offer, the rider's use, the discount of the fare. In a transaction they are one step; with the pool
  (\<open>releaseForRide(pool, \<dots>)\<close> in the broadcast job) each commits by itself, and \<open>undo_part n\<close> is what the first \<open>n\<close> of them leave.
\<close>

definition undo_row :: "nat \<Rightarrow> redemption_status \<Rightarrow> redemption_status \<Rightarrow> string \<Rightarrow> offer_db \<Rightarrow> redemption option \<times> offer_db" where
  "undo_row ride from to why db = (find (hits ride from) (redemptions db),
     db\<lparr>redemptions := map (\<lambda>x. if hits ride from x then x\<lparr>rd_status := to, rd_reason := Some why\<rparr> else x) (redemptions db)\<rparr>)"

definition undo_offer :: "nat \<Rightarrow> paise \<Rightarrow> offer_db \<Rightarrow> offer_db" where
  "undo_offer i spend db = db\<lparr>offers := fst (upd_where (offers db) i (\<lambda>_. True)
     (\<lambda>off. off\<lparr>or_budget_spent := max (or_budget_spent off - spend) 0, or_count := max (or_count off - 1) 0\<rparr>))\<rparr>"

definition undo_use :: "nat \<Rightarrow> nat \<Rightarrow> offer_db \<Rightarrow> offer_db" where
  "undo_use i u db = db\<lparr>user_usage := fst (upd_where (user_usage db) (i, u) (\<lambda>_. True) (\<lambda>c. max (c - 1) 0))\<rparr>"

definition undo_fare :: "nat \<Rightarrow> offer_db \<Rightarrow> offer_db" where
  "undo_fare ride db = db\<lparr>snapshots := fst (upd_where (snapshots db) ride (\<lambda>_. True) (\<lambda>f. f\<lparr>fs_discount := 0\<rparr>))\<rparr>"

definition spend_paise :: "redemption \<Rightarrow> paise" where
  "spend_paise r = to_paise (fadd (from_paise (rd_discount r)) (from_paise (rd_cashback r)))"

definition undo_part :: "nat \<Rightarrow> nat \<Rightarrow> redemption_status \<Rightarrow> redemption_status \<Rightarrow> string \<Rightarrow> offer_db \<Rightarrow> bool \<times> offer_db" where
  "undo_part n ride from to why db =
     (if n = 0 then (False, db) else
      case undo_row ride from to why db of (None, db1) \<Rightarrow> (False, db1)
      | (Some r, db1) \<Rightarrow>
          let db2 = (if 1 < n then undo_offer (rd_offer r) (spend_paise r) db1 else db1);
              db3 = (if 2 < n \<and> to = Released then undo_use (rd_offer r) (rd_user r) db2 else db2)
          in (True, if 3 < n \<and> to = Released then undo_fare ride db3 else db3))"

definition undo :: "nat \<Rightarrow> redemption_status \<Rightarrow> redemption_status \<Rightarrow> string \<Rightarrow> offer_db \<Rightarrow> bool \<times> offer_db" where
  "undo ride from to why db = undo_part 4 ride from to why db"

lemma undo_eq:
  "undo ride from to why db =
     (case find (hits ride from) (redemptions db) of
        None \<Rightarrow> (False, db)
      | Some r \<Rightarrow>
          let db = db\<lparr>redemptions := map (\<lambda>x. if hits ride from x then x\<lparr>rd_status := to, rd_reason := Some why\<rparr> else x) (redemptions db),
                 offers := fst (upd_where (offers db) (rd_offer r) (\<lambda>_. True)
                   (\<lambda>off. off\<lparr>or_budget_spent := max (or_budget_spent off - spend_paise r) 0, or_count := max (or_count off - 1) 0\<rparr>))\<rparr>
          in (True, if to = Released
            then db\<lparr>user_usage := fst (upd_where (user_usage db) (rd_offer r, rd_user r) (\<lambda>_. True) (\<lambda>c. max (c - 1) 0)),
                    snapshots := fst (upd_where (snapshots db) ride (\<lambda>_. True) (\<lambda>f. f\<lparr>fs_discount := 0\<rparr>))\<rparr>
            else db))"
proof (cases "find (hits ride from) (redemptions db)")
  case None
  then have "map (\<lambda>x. if hits ride from x then x\<lparr>rd_status := to, rd_reason := Some why\<rparr> else x) (redemptions db) = redemptions db"
    by (auto simp: find_None_iff intro!: map_idI)
  then show ?thesis using None by (simp add: undo_def undo_part_def undo_row_def)
next
  case (Some r)
  then show ?thesis by (simp add: undo_def undo_part_def undo_row_def undo_offer_def undo_use_def undo_fare_def Let_def)
qed

definition releaseRedemption :: "nat \<Rightarrow> string \<Rightarrow> offer_db \<Rightarrow> bool \<times> offer_db" where
  "releaseRedemption ride why db = undo ride Reserved Released why db"

definition reverseRedemption :: "nat \<Rightarrow> string \<Rightarrow> offer_db \<Rightarrow> bool \<times> offer_db" where
  "reverseRedemption ride why db = undo ride Consumed Reversed why db"

definition getUserUsage :: "offer_db \<Rightarrow> nat \<Rightarrow> nat list \<Rightarrow> nat \<Rightarrow> int" where
  "getUserUsage db user ids off = (if off \<in> set ids then coalesce (user_usage db (off, user)) 0 else 0)"

subsection \<open>Settlement (\<open>settlement.ts\<close>)\<close>

definition payableOf :: "num \<Rightarrow> num option \<Rightarrow> num" where
  "payableOf gross discount = roundPaise (max (fsub gross (coalesce discount 0)) 0)"

text \<open>\<open>ocar_payable\<close> of migration 122, exact on numerics.\<close>

definition ocar_payable :: "paise \<Rightarrow> paise option \<Rightarrow> paise" where
  "ocar_payable gross discount = max (gross - coalesce discount 0) 0"

definition scaled_fare :: "snapshot_row \<Rightarrow> fare_components" where
  "scaled_fare row =
     (let estimate = from_paise (fs_estimated row);
          scale = (case fs_final row of Some f \<Rightarrow> if 0 < estimate then min (fdiv (from_paise f) estimate) 1 else 1 | None \<Rightarrow> 1);
          part = (\<lambda>v. fmul (from_paise v) scale)
      in \<lparr>fc_base = part (fs_base row), fc_distance = part (fs_distance row), fc_time = part (fs_time row),
          fc_stop = part (fs_stop row), fc_hour = part (fs_hour row), fc_waiting = part (coalesce (fs_waiting row) 0),
          fc_surge = part (fs_surge row), fc_overage = part (coalesce (fs_overage row) 0)\<rparr>)"

definition shrink_redemption :: "nat \<Rightarrow> paise \<Rightarrow> offer_db \<Rightarrow> offer_db" where
  "shrink_redemption ride next db =
     (case find (\<lambda>r. rd_ride r = ride \<and> is_live (rd_status r) \<and> next < rd_discount r) (redemptions db) of
        None \<Rightarrow> db
      | Some r \<Rightarrow> db\<lparr>redemptions := map (\<lambda>x. if rd_ride x = ride \<and> is_live (rd_status x) \<and> next < rd_discount x
             then x\<lparr>rd_discount := next\<rparr> else x) (redemptions db),
           offers := fst (upd_where (offers db) (rd_offer r) (\<lambda>_. True)
             (\<lambda>off. off\<lparr>or_budget_spent := max (or_budget_spent off - (rd_discount r - next)) 0\<rparr>))\<rparr>)"

definition finaliseDiscount :: "num option \<Rightarrow> nat \<Rightarrow> offer_db \<Rightarrow> num \<times> offer_db" where
  "finaliseDiscount maxPct ride db =
     (case (snapshots db ride, find (\<lambda>r. rd_ride r = ride \<and> is_live (rd_status r)) (redemptions db)) of
        (Some row, Some r) \<Rightarrow>
          if length (versions db) \<le> rd_version r then (0, db) else
          let current = from_paise (fs_discount row); reserved = from_paise (rd_discount r);
              derived = fst (computeBenefit (vr_benefit (versions db ! rd_version r)) (scaled_fare row) (Some (effective_cap maxPct)));
              next = roundPaise (min derived reserved)
          in if \<bar>fsub next current\<bar> < fl (5 / 1000) then (current, db)
             else let db = (if next < reserved then shrink_redemption ride (to_paise next) db else db)
                  in (next, db\<lparr>snapshots := fst (upd_where (snapshots db) ride (\<lambda>_. True) (\<lambda>f. f\<lparr>fs_discount := to_paise next\<rparr>))\<rparr>)
      | _ \<Rightarrow> (0, db))"

definition payableForRide :: "num option \<Rightarrow> nat \<Rightarrow> offer_db \<Rightarrow> num \<times> offer_db" where
  "payableForRide maxPct ride db =
     (let db = snd (finaliseDiscount maxPct ride db)
      in (case snapshots db ride of Some f \<Rightarrow> from_paise (ocar_payable (coalesce (fs_final f) (fs_estimated f)) (Some (fs_discount f)))
          | None \<Rightarrow> 0, db))"

definition settleOfferOnPayment :: "nat \<Rightarrow> offer_db \<Rightarrow> offer_db" where
  "settleOfferOnPayment ride db = snd (consumeRedemption ride db)"

definition onRideCancelled :: "nat \<Rightarrow> bool \<Rightarrow> offer_db \<Rightarrow> offer_db" where
  "onRideCancelled ride feeCharged db =
     (if feeCharged then snd (consumeRedemption ride db) else snd (releaseRedemption ride ''ride cancelled'' db))"

definition releaseForRide :: "nat \<Rightarrow> string \<Rightarrow> offer_db \<Rightarrow> offer_db" where
  "releaseForRide ride why db = snd (releaseRedemption ride why db)"

text \<open>The same with the pool instead of a transaction; \<open>n\<close> statements get through.\<close>

definition releaseOnPool :: "nat \<Rightarrow> nat \<Rightarrow> string \<Rightarrow> offer_db \<Rightarrow> offer_db" where
  "releaseOnPool n ride why db = snd (undo_part n ride Reserved Released why db)"

subsection \<open>Admin writes\<close>

record new_version =
  nv_rules :: "rule list"
  nv_benefit :: benefit
  nv_per_user :: "int option"

record new_offer =
  no_kind :: offer_kind
  no_code :: "string option"
  no_status :: offer_status
  no_budget :: "num option"
  no_limit :: "int option"
  no_starts :: "int option"
  no_ends :: "int option"
  no_version :: new_version

definition insertVersion :: "nat \<Rightarrow> new_version \<Rightarrow> offer_db \<Rightarrow> nat \<times> offer_db" where
  "insertVersion i v db =
     (let n = Max (insert 0 (set (map vr_number (filter (\<lambda>r. vr_offer r = i) (versions db))))) + 1
      in (n, db\<lparr>versions := versions db @ [\<lparr>vr_offer = i, vr_number = n, vr_rules = nv_rules v, vr_benefit = nv_benefit v,
               vr_per_user = nv_per_user v\<rparr>],
             offers := fst (upd_where (offers db) i (\<lambda>_. True) (\<lambda>off. off\<lparr>or_current := length (versions db)\<rparr>))\<rparr>))"

definition with_limit :: "new_version \<Rightarrow> new_version" where
  "with_limit v = v\<lparr>nv_per_user := withFirstRideLimit (nv_rules v) (nv_per_user v)\<rparr>"

definition code_taken :: "offer_db \<Rightarrow> string \<Rightarrow> bool" where
  "code_taken db c \<longleftrightarrow> list_ex (\<lambda>i. case offers db i of Some off \<Rightarrow> or_code off = Some c | None \<Rightarrow> False) [0..<next_offer db]"

text \<open>\<open>normalizeCode\<close>: the parsed code has no spaces left to remove, so only the case changes.\<close>

definition upper :: "string \<Rightarrow> string" where
  "upper = map (\<lambda>c. if 97 \<le> (of_char c :: nat) \<and> (of_char c :: nat) \<le> 122 then char_of ((of_char c :: nat) - 32) else c)"

definition createOffer :: "offer_config \<Rightarrow> new_offer \<Rightarrow> offer_db \<Rightarrow> nat res \<times> offer_db" where
  "createOffer cfg b db =
     (let v = with_limit (no_version b); hasCode = (case no_code b of Some c \<Rightarrow> c \<noteq> [] | None \<Rightarrow> False);
          code = (if hasCode then map_option upper (no_code b) else None)
      in case bind_res (guard_err (no_kind b = CodeOffer \<and> \<not> hasCode) (http_err 422 ''VALIDATION_ERROR''))
          (\<lambda>_. bind_res (guard_err (no_kind b = AutoOffer \<and> hasCode) (http_err 422 ''VALIDATION_ERROR''))
          (\<lambda>_. assertBenefitAllowed cfg (nv_benefit v) (nv_rules v))) of
        Inl e \<Rightarrow> (Inl e, db)
      | Inr _ \<Rightarrow>
          if (case code of Some c \<Rightarrow> code_taken db c | None \<Rightarrow> False) then (Inl (http_err 409 ''CODE_TAKEN''), db)
          else let i = next_offer db in
            (Inr i, snd (insertVersion i v (db\<lparr>next_offer := i + 1, offers := (offers db)(i \<mapsto>
               \<lparr>or_code = code, or_kind = no_kind b, or_status = no_status b, or_budget_total = map_option to_paise (no_budget b),
                or_budget_spent = 0, or_global_limit = no_limit b, or_count = 0, or_starts = no_starts b, or_ends = no_ends b,
                or_current = 0\<rparr>)\<rparr>))))"

definition createVersion :: "offer_config \<Rightarrow> nat \<Rightarrow> new_version \<Rightarrow> offer_db \<Rightarrow> nat res \<times> offer_db" where
  "createVersion cfg i b db =
     (let v = with_limit b in
      case assertBenefitAllowed cfg (nv_benefit v) (nv_rules v) of Inl e \<Rightarrow> (Inl e, db)
      | Inr _ \<Rightarrow> if offers db i = None then (Inl (http_err 404 ''NOT_FOUND''), db)
          else (let (n, db) = insertVersion i v db in (Inr n, db)))"

fun offer_transitions :: "offer_status \<Rightarrow> offer_status list" where
  "offer_transitions Draft = [Active, Ended]"
| "offer_transitions Active = [Paused, Ended]"
| "offer_transitions Paused = [Active, Ended]"
| "offer_transitions Ended = []"

text \<open>An absent field of a patch is \<open>None\<close>, an explicit null \<open>Some None\<close>.\<close>

record offer_patch =
  pt_status :: "offer_status option"
  pt_ends :: "int option option"
  pt_budget :: "num option option"
  pt_limit :: "int option option"

definition patch_checks :: "offer_row \<Rightarrow> offer_patch \<Rightarrow> unit res" where
  "patch_checks cur p =
     bind_res (guard_err (case pt_status p of Some s \<Rightarrow> s \<noteq> or_status cur \<and> s \<notin> set (offer_transitions (or_status cur)) | None \<Rightarrow> False)
       (http_err 422 ''INVALID_TRANSITION''))
     (\<lambda>_. bind_res (guard_err (case pt_budget p of Some (Some b) \<Rightarrow> b < from_paise (or_budget_spent cur) | _ \<Rightarrow> False)
       (http_err 422 ''BUDGET_BELOW_SPENT''))
     (\<lambda>_. bind_res (guard_err (case (pt_ends p, or_starts cur) of (Some (Some e), Some s) \<Rightarrow> e \<le> s | _ \<Rightarrow> False)
       (http_err 422 ''VALIDATION_ERROR''))
     (\<lambda>_. guard_err (or_status cur = Active \<and> (case (pt_budget p, or_budget_total cur) of
         (Some (Some b), Some t) \<Rightarrow> b < from_paise t | _ \<Rightarrow> False)) (http_err 422 ''BUDGET_DECREASE''))))"

definition patched_row :: "offer_patch \<Rightarrow> offer_row \<Rightarrow> offer_row" where
  "patched_row p cur = cur\<lparr>or_status := coalesce (pt_status p) (or_status cur), or_ends := coalesce (pt_ends p) (or_ends cur),
     or_budget_total := (case pt_budget p of Some b \<Rightarrow> map_option to_paise b | None \<Rightarrow> or_budget_total cur),
     or_global_limit := coalesce (pt_limit p) (or_global_limit cur)\<rparr>"

definition patchOffer :: "nat \<Rightarrow> offer_patch \<Rightarrow> offer_db \<Rightarrow> unit res \<times> offer_db" where
  "patchOffer i p db =
     (case offers db i of None \<Rightarrow> (Inl (http_err 404 ''NOT_FOUND''), db)
      | Some cur \<Rightarrow> (case patch_checks cur p of Inl e \<Rightarrow> (Inl e, db)
          | Inr _ \<Rightarrow> (Inr (), db\<lparr>offers := (offers db)(i \<mapsto> patched_row p cur)\<rparr>)))"

subsection \<open>Amounts\<close>

lemma to_precision_nonneg: "0 \<le> x \<Longrightarrow> 0 \<le> to_precision n x"
  by (simp add: to_precision_def Let_def)

lemma js_decimal_nonneg: "0 \<le> x \<Longrightarrow> 0 \<le> js_decimal x"
  by (auto simp: js_decimal_def to_precision_nonneg split: option.split)

lemma to_paise_nonneg: "0 \<le> x \<Longrightarrow> 0 \<le> to_paise x"
  using js_decimal_nonneg [of x] by (simp add: to_paise_def round_away_def)

lemma roundPaise_nonneg: "0 \<le> x \<Longrightarrow> 0 \<le> roundPaise x"
  unfolding roundPaise_def
  by (intro fdiv_nonneg) (simp_all add: js_round_nonneg fl_nonneg to_precision_nonneg fmul_def)

lemma to_paise_ge:
  assumes "from_paise k \<le> b" "0 \<le> k" "k \<le> 10 ^ 12"
  shows "k \<le> to_paise b"
proof -
  have k: "0 \<le> (of_int k :: rat)" "(of_int k :: rat) \<le> 1000000000000"
    using assms(2,3) of_int_le_iff [of k 1000000000000, where 'a = rat] by simp_all
  have "\<bar>from_paise k - of_int k / 100\<bar> \<le> \<bar>of_int k / 100\<bar> / 2 ^ 53" unfolding from_paise_def by (rule fl_error)
  moreover have "\<bar>of_int k / 100 :: rat\<bar> / 2 ^ 53 \<le> 1 / 1000" using k by simp
  ultimately have f: "of_int k / 100 - 1 / 1000 \<le> from_paise k" by linarith
  have b: "0 \<le> b" using assms(1) from_paise_nonneg [OF assms(2)] by linarith
  have j: "0 \<le> js_decimal b" using b by (rule js_decimal_nonneg)
  have d: "js_decimal b + js_decimal b / 9007199254740992 \<ge> b"
    using abs_le_D2 [OF js_decimal_error [of b]] j by simp
  have "of_int k \<le> 100 * js_decimal b + 1 / 2"
  proof (rule ccontr)
    assume "\<not> ?thesis"
    then have "100 * js_decimal b < of_int k - 1 / 2" by simp
    moreover from this have "js_decimal b / 9007199254740992 \<le> 1 / 100000" using k(2) by simp
    ultimately show False using d f assms(1) by linarith
  qed
  then have "k \<le> \<lfloor>100 * js_decimal b + 1 / 2\<rfloor>" by (simp add: le_floor_iff)
  then show ?thesis using j by (simp add: to_paise_def round_away_def)
qed

lemma to_paise_sum:
  assumes "0 \<le> d" "d \<le> 10 ^ 12" "0 \<le> c" "c \<le> 10 ^ 12"
  shows "to_paise (fadd (from_paise d) (from_paise c)) = d + c"
proof -
  have "near 3 (fadd (from_paise d) (from_paise c)) (d + c)"
    using near_fadd [OF near_paise near_paise, of d c] assms by (simp add: paise_ok_def)
  then show ?thesis unfolding near_def by (intro to_paise_near) simp_all
qed

lemma to_paise_amount: "is_amount x \<Longrightarrow> x = from_paise (to_paise x) \<and> 0 \<le> to_paise x \<and> to_paise x \<le> 10 ^ 12"
  using to_from_paise [of "cents x"] is_amount_ok [of x] by (simp add: is_amount_def)

subsection \<open>The ledger invariant\<close>

definition spend_of :: "redemption \<Rightarrow> paise" where
  "spend_of r = rd_discount r + rd_cashback r"

definition live_for :: "nat \<Rightarrow> redemption list \<Rightarrow> redemption list" where
  "live_for i rs = filter (\<lambda>r. rd_offer r = i \<and> is_live (rd_status r)) rs"

definition used_by :: "nat \<Rightarrow> nat \<Rightarrow> redemption list \<Rightarrow> redemption list" where
  "used_by i u rs = filter (\<lambda>r. rd_offer r = i \<and> rd_user r = u \<and> rd_status r \<noteq> Released) rs"

definition live_on :: "nat \<Rightarrow> redemption list \<Rightarrow> redemption list" where
  "live_on ride rs = filter (\<lambda>r. rd_ride r = ride \<and> is_live (rd_status r)) rs"

text \<open>
  What statements outside a transaction still owe: a redemption given back whose offer, or whose rider's use, has not been updated yet, or never will be if the process has
  died. \<open>dt_offers\<close>, \<open>dt_use\<close>: which of the two is due.
\<close>

record debt =
  dt_offer :: nat
  dt_user :: nat
  dt_spend :: paise
  dt_offers :: bool
  dt_use :: bool

definition due_spend :: "nat \<Rightarrow> debt list \<Rightarrow> paise" where
  "due_spend i ds = sum_list (map (\<lambda>d. if dt_offer d = i \<and> dt_offers d then dt_spend d else 0) ds)"

definition due_count :: "nat \<Rightarrow> debt list \<Rightarrow> int" where
  "due_count i ds = sum_list (map (\<lambda>d. if dt_offer d = i \<and> dt_offers d then 1 else 0) ds)"

definition due_uses :: "nat \<Rightarrow> nat \<Rightarrow> debt list \<Rightarrow> int" where
  "due_uses i u ds = sum_list (map (\<lambda>d. if dt_offer d = i \<and> dt_user d = u \<and> dt_use d then 1 else 0) ds)"

definition redemption_row_ok :: "debt list \<Rightarrow> redemption list \<Rightarrow> nat \<Rightarrow> offer_row \<Rightarrow> bool" where
  "redemption_row_ok ds rs i row \<longleftrightarrow> or_budget_spent row = sum_list (map spend_of (live_for i rs)) + due_spend i ds
     \<and> or_count row = int (length (live_for i rs)) + due_count i ds \<and> or_budget_spent row < 10 ^ 12
     \<and> (case or_budget_total row of Some t \<Rightarrow> or_budget_spent row \<le> t | None \<Rightarrow> True)"

definition red_ok :: "offer_db \<Rightarrow> redemption \<Rightarrow> bool" where
  "red_ok db r \<longleftrightarrow> 0 \<le> rd_discount r \<and> rd_discount r < 10 ^ 10 \<and> 0 \<le> rd_cashback r \<and> rd_cashback r < 10 ^ 10
     \<and> offers db (rd_offer r) \<noteq> None"

definition debt_ok :: "offer_db \<Rightarrow> debt \<Rightarrow> bool" where
  "debt_ok db d \<longleftrightarrow> 0 \<le> dt_spend d \<and> offers db (dt_offer d) \<noteq> None"

definition ledger :: "debt list \<Rightarrow> offer_db \<Rightarrow> bool" where
  "ledger ds db \<longleftrightarrow> (\<forall>i row. offers db i = Some row \<longrightarrow> redemption_row_ok ds (redemptions db) i row)
     \<and> (\<forall>i u. coalesce (user_usage db (i, u)) 0 = int (length (used_by i u (redemptions db))) + due_uses i u ds)
     \<and> (\<forall>ride. length (live_on ride (redemptions db)) \<le> 1)
     \<and> (\<forall>r \<in> set (redemptions db). red_ok db r)
     \<and> (\<forall>i. next_offer db \<le> i \<longrightarrow> offers db i = None)
     \<and> (\<forall>d \<in> set ds. debt_ok db d)"

lemma ledgerI:
  assumes "\<And>i row. offers db i = Some row \<Longrightarrow> redemption_row_ok ds (redemptions db) i row"
    and "\<And>i u. coalesce (user_usage db (i, u)) 0 = int (length (used_by i u (redemptions db))) + due_uses i u ds"
    and "\<And>ride. length (live_on ride (redemptions db)) \<le> 1"
    and "\<And>r. r \<in> set (redemptions db) \<Longrightarrow> red_ok db r"
    and "\<And>i. next_offer db \<le> i \<Longrightarrow> offers db i = None"
    and "\<And>d. d \<in> set ds \<Longrightarrow> debt_ok db d"
  shows "ledger ds db"
  using assms by (simp add: ledger_def)

lemma ledgerD:
  assumes "ledger ds db"
  shows "offers db i = Some row \<Longrightarrow> redemption_row_ok ds (redemptions db) i row"
    and "coalesce (user_usage db (i, u)) 0 = int (length (used_by i u (redemptions db))) + due_uses i u ds"
    and "length (live_on ride (redemptions db)) \<le> 1"
    and "r \<in> set (redemptions db) \<Longrightarrow> red_ok db r"
    and "next_offer db \<le> i \<Longrightarrow> offers db i = None"
    and "d \<in> set ds \<Longrightarrow> debt_ok db d"
  using assms by (simp_all add: ledger_def)

lemma due_nonneg:
  assumes "ledger ds db"
  shows "0 \<le> due_spend i ds" "0 \<le> due_count i ds" "0 \<le> due_uses i u ds"
  using ledgerD(6) [OF assms] by (auto simp: due_spend_def due_count_def due_uses_def debt_ok_def intro!: sum_list_nonneg)

lemmas list_views = live_for_def used_by_def live_on_def

lemma live_nonneg: "(\<And>r. r \<in> set rs \<Longrightarrow> 0 \<le> spend_of r) \<Longrightarrow> 0 \<le> sum_list (map spend_of (live_for i rs))"
  by (intro sum_list_nonneg) (auto simp: live_for_def)

text \<open>The one live redemption of a ride splits the table.\<close>

lemma split_live:
  assumes one: "length (live_on ride rs) \<le> 1" and f: "find P rs = Some r"
    and P: "\<And>x. P x \<Longrightarrow> rd_ride x = ride \<and> is_live (rd_status x)"
  obtains xs ys where "rs = xs @ r # ys" "P r" "\<And>x. x \<in> set xs \<union> set ys \<Longrightarrow> \<not> P x"
    and "\<And>g. map (\<lambda>x. if P x then g x else x) rs = xs @ g r # ys"
    and "\<And>x. x \<in> set xs \<union> set ys \<Longrightarrow> rd_ride x = ride \<Longrightarrow> \<not> is_live (rd_status x)"
proof -
  from f have "P r" "r \<in> set rs" by (auto simp: find_Some_iff)
  then obtain xs ys where rs: "rs = xs @ r # ys" by (meson split_list)
  have "live_on ride xs = [] \<and> live_on ride ys = []"
    using one P [OF \<open>P r\<close>] by (simp add: rs live_on_def)
  then have no: "\<And>x. x \<in> set xs \<union> set ys \<Longrightarrow> rd_ride x = ride \<Longrightarrow> \<not> is_live (rd_status x)"
    by (auto simp: live_on_def filter_empty_conv)
  then have np: "\<And>x. x \<in> set xs \<union> set ys \<Longrightarrow> \<not> P x" using P by blast
  then have "map (\<lambda>x. if P x then g x else x) xs = xs" "map (\<lambda>x. if P x then g x else x) ys = ys" for g
    by (auto intro!: map_idI)
  then have m: "map (\<lambda>x. if P x then g x else x) rs = xs @ g r # ys" for g using \<open>P r\<close> by (simp add: rs)
  from rs \<open>P r\<close> np m no show ?thesis by (rule that)
qed

lemma hits_live: "st = Reserved \<or> st = Consumed \<Longrightarrow> hits ride st x \<Longrightarrow> rd_ride x = ride \<and> is_live (rd_status x)"
  by (auto simp: hits_def is_live_def)

subsection \<open>Every operation keeps the ledger\<close>

definition live_spend :: "redemption \<Rightarrow> paise" where
  "live_spend r = (if is_live (rd_status r) then spend_of r else 0)"

definition live_unit :: "redemption \<Rightarrow> int" where
  "live_unit r = (if is_live (rd_status r) then 1 else 0)"

definition use_unit :: "redemption \<Rightarrow> int" where
  "use_unit r = (if rd_status r \<noteq> Released then 1 else 0)"

lemma live_sum_split:
  "sum_list (map spend_of (live_for i (xs @ r # ys))) = sum_list (map spend_of (live_for i xs))
     + (if rd_offer r = i then live_spend r else 0) + sum_list (map spend_of (live_for i ys))"
  "int (length (live_for i (xs @ r # ys))) = int (length (live_for i xs)) + (if rd_offer r = i then live_unit r else 0)
     + int (length (live_for i ys))"
  "int (length (used_by i u (xs @ r # ys))) = int (length (used_by i u xs))
     + (if rd_offer r = i \<and> rd_user r = u then use_unit r else 0) + int (length (used_by i u ys))"
  by (simp_all add: live_for_def used_by_def live_spend_def live_unit_def use_unit_def)

lemma live_spend_le_spent:
  assumes "ledger ds db" "redemptions db = xs @ r # ys" "offers db (rd_offer r) = Some row"
  shows "live_spend r \<le> or_budget_spent row" "live_unit r \<le> or_count row"
proof -
  have nn: "0 \<le> spend_of x" if "x \<in> set (redemptions db)" for x
    using ledgerD(4) [OF assms(1) that] by (simp add: red_ok_def spend_of_def)
  have "0 \<le> sum_list (map spend_of (live_for (rd_offer r) xs))" "0 \<le> sum_list (map spend_of (live_for (rd_offer r) ys))"
    using nn assms(2) by (auto intro!: live_nonneg)
  then show "live_spend r \<le> or_budget_spent row" "live_unit r \<le> or_count row"
    using ledgerD(1) [OF assms(1,3)] due_nonneg(1,2) [OF assms(1), of "rd_offer r"] unfolding redemption_row_ok_def assms(2) live_sum_split by simp_all
qed

lemma ledger_update:
  assumes L: "ledger ds db" and rs: "redemptions db = xs @ r # ys" and rs': "redemptions db' = xs @ r' # ys"
    and same: "rd_offer r' = rd_offer r" "rd_user r' = rd_user r" "rd_ride r' = rd_ride r"
    and ok: "red_ok db r'" and live: "is_live (rd_status r') \<Longrightarrow> is_live (rd_status r)" and less: "live_spend r' \<le> live_spend r"
    and offs: "\<And>i row'. offers db' i = Some row' \<Longrightarrow> \<exists>row. offers db i = Some row \<and> or_budget_total row' = or_budget_total row
       \<and> or_budget_spent row' = or_budget_spent row - (if i = rd_offer r then live_spend r - live_spend r' else 0)
       \<and> or_count row' = or_count row - (if i = rd_offer r then live_unit r - live_unit r' else 0)"
    and dom: "\<And>i. offers db' i = None \<longleftrightarrow> offers db i = None" and nxt: "next_offer db' = next_offer db"
    and use: "\<And>i u. coalesce (user_usage db' (i, u)) 0 = coalesce (user_usage db (i, u)) 0
       - (if i = rd_offer r \<and> u = rd_user r then use_unit r - use_unit r' else 0)"
  shows "ledger ds db'"
proof (rule ledgerI)
  fix i row' assume "offers db' i = Some row'"
  then obtain row where row: "offers db i = Some row" "or_budget_total row' = or_budget_total row"
    "or_budget_spent row' = or_budget_spent row - (if i = rd_offer r then live_spend r - live_spend r' else 0)"
    "or_count row' = or_count row - (if i = rd_offer r then live_unit r - live_unit r' else 0)"
    using offs by blast
  have k: "redemption_row_ok ds (xs @ r # ys) i row" using ledgerD(1) [OF L row(1)] rs by simp
  then have "or_budget_spent row' \<le> or_budget_spent row" using row(3) less by simp
  then show "redemption_row_ok ds (redemptions db') i row'"
    using k row(2-4) same(1) unfolding redemption_row_ok_def rs' live_sum_split by (cases "or_budget_total row") auto
next
  fix i u
  show "coalesce (user_usage db' (i, u)) 0 = int (length (used_by i u (redemptions db'))) + due_uses i u ds"
    using use [of i u] ledgerD(2) [OF L, of i u] same unfolding rs rs' live_sum_split by auto
next
  fix ride
  show "length (live_on ride (redemptions db')) \<le> 1"
    using ledgerD(3) [OF L, of ride] live same(3) unfolding rs rs' live_on_def by (auto split: if_splits)
next
  fix x assume "x \<in> set (redemptions db')"
  then show "red_ok db' x"
    using ledgerD(4) [OF L, of x] ok dom unfolding rs rs' red_ok_def by auto
next
  fix d assume "d \<in> set ds"
  then show "debt_ok db' d" using ledgerD(6) [OF L, of d] dom by (simp add: debt_ok_def)
qed (use ledgerD(5) [OF L] dom nxt in simp)

lemma split_hits:
  assumes "ledger ds db" "find (hits ride st) (redemptions db) = Some r" "st = Reserved \<or> st = Consumed"
  shows "\<exists>xs ys. redemptions db = xs @ r # ys \<and> hits ride st r
     \<and> (\<forall>g. map (\<lambda>x. if hits ride st x then g x else x) (redemptions db) = xs @ g r # ys)"
  by (rule split_live [OF ledgerD(3) [OF assms(1)] assms(2) hits_live [OF assms(3)]]) blast+

lemma consume_ledger: "ledger ds db \<Longrightarrow> ledger ds (snd (consumeRedemption ride db))"
proof (cases "find (hits ride Reserved) (redemptions db)")
  case None
  then have "map (\<lambda>r. if hits ride Reserved r then r\<lparr>rd_status := Consumed\<rparr> else r) (redemptions db) = redemptions db"
    by (auto simp: find_None_iff intro!: map_idI)
  then show "ledger ds db \<Longrightarrow> ledger ds (snd (consumeRedemption ride db))" by (simp add: consumeRedemption_def)
next
  case (Some r)
  assume L: "ledger ds db"
  obtain xs ys where s: "redemptions db = xs @ r # ys" "hits ride Reserved r"
      "\<forall>g. map (\<lambda>x. if hits ride Reserved x then g x else x) (redemptions db) = xs @ g r # ys"
    using split_hits [OF L Some] by blast
  have rs': "redemptions (snd (consumeRedemption ride db)) = xs @ r\<lparr>rd_status := Consumed\<rparr> # ys"
    using s(3) by (simp add: consumeRedemption_def)
  have ok: "red_ok db (r\<lparr>rd_status := Consumed\<rparr>)" using ledgerD(4) [OF L, of r] s(1) by (simp add: red_ok_def)
  show ?thesis
    by (rule ledger_update [OF L s(1) rs' _ _ _ ok])
      (use s(2) in \<open>auto simp: hits_def is_live_def live_spend_def live_unit_def use_unit_def spend_of_def consumeRedemption_def\<close>)
qed

lemma spend_paise_of: "red_ok db r \<Longrightarrow> spend_paise r = spend_of r"
  unfolding spend_paise_def spend_of_def by (intro to_paise_sum) (simp_all add: red_ok_def)

lemma undo_ledger:
  assumes L: "ledger ds db" and ft: "from = Reserved \<and> to = Released \<or> from = Consumed \<and> to = Reversed"
  shows "ledger ds (snd (undo ride from to why db))"
proof (cases "find (hits ride from) (redemptions db)")
  case None
  then show ?thesis using L by (simp add: undo_eq)
next
  case (Some r)
  have lf: "from = Reserved \<or> from = Consumed" using ft by blast
  obtain xs ys where s: "redemptions db = xs @ r # ys" "hits ride from r"
      "\<forall>g. map (\<lambda>x. if hits ride from x then g x else x) (redemptions db) = xs @ g r # ys"
    using split_hits [OF L Some lf] by blast
  let ?r' = "r\<lparr>rd_status := to, rd_reason := Some why\<rparr>" and ?db' = "snd (undo ride from to why db)"
  have rk: "red_ok db r" using ledgerD(4) [OF L, of r] s(1) by simp
  then obtain row where row: "offers db (rd_offer r) = Some row" by (auto simp: red_ok_def)
  have st: "rd_status r = from" using s(2) by (simp add: hits_def)
  have live: "live_spend r = spend_of r" "live_unit r = 1" "live_spend ?r' = 0" "live_unit ?r' = 0" "use_unit r = 1"
    "use_unit ?r' = (if to = Released then 0 else 1)"
    using st ft by (auto simp: live_spend_def live_unit_def use_unit_def is_live_def)
  have sp: "spend_paise r = spend_of r" by (rule spend_paise_of [OF rk])
  note bound = live_spend_le_spent [OF L s(1) row, unfolded live]
  have rs': "redemptions ?db' = xs @ ?r' # ys" using Some s(3) by (simp add: undo_eq Let_def)
  have offs: "offers ?db' = (offers db)(rd_offer r \<mapsto> row\<lparr>or_budget_spent := or_budget_spent row - spend_of r, or_count := or_count row - 1\<rparr>)"
    using Some row bound by (simp add: undo_eq Let_def sp upd_where_def max_def)
  have usage: "coalesce (user_usage ?db' (i, u)) 0 = coalesce (user_usage db (i, u)) 0
       - (if i = rd_offer r \<and> u = rd_user r then use_unit r - use_unit ?r' else 0)" for i u
  proof -
    have "use_unit r \<le> coalesce (user_usage db (rd_offer r, rd_user r)) 0"
      using ledgerD(2) [OF L, of "rd_offer r" "rd_user r"] due_nonneg(3) [OF L, of "rd_offer r" "rd_user r"] unfolding s(1) live_sum_split by simp
    then have "\<exists>c. user_usage db (rd_offer r, rd_user r) = Some c \<and> 1 \<le> c"
      using live by (cases "user_usage db (rd_offer r, rd_user r)") simp_all
    then show ?thesis using Some live by (auto simp: undo_eq Let_def upd_where_def max_def)
  qed
  show ?thesis
  proof (rule ledger_update [OF L s(1) rs'])
    show "red_ok db ?r'" using rk by (simp add: red_ok_def)
    show "is_live (rd_status r)" using st lf by (auto simp: is_live_def)
    show "live_spend ?r' \<le> live_spend r" unfolding live using rk by (simp add: red_ok_def spend_of_def)
    show "next_offer ?db' = next_offer db" using Some by (simp add: undo_eq Let_def)
    show "\<exists>row. offers db i = Some row \<and> or_budget_total row' = or_budget_total row
       \<and> or_budget_spent row' = or_budget_spent row - (if i = rd_offer r then live_spend r - live_spend ?r' else 0)
       \<and> or_count row' = or_count row - (if i = rd_offer r then live_unit r - live_unit ?r' else 0)"
      if "offers ?db' i = Some row'" for i row'
      using that row unfolding offs live by (auto split: if_splits)
    show "(offers ?db' i = None) = (offers db i = None)" for i unfolding offs using row by auto
  qed (use usage in simp_all)
qed

lemma shrink_ledger:
  assumes L: "ledger ds db" and n: "0 \<le> next"
  shows "ledger ds (shrink_redemption ride next db)"
proof (cases "find (\<lambda>r. rd_ride r = ride \<and> is_live (rd_status r) \<and> next < rd_discount r) (redemptions db)")
  case None
  then show ?thesis using L by (simp add: shrink_redemption_def)
next
  case (Some r)
  let ?P = "\<lambda>r. rd_ride r = ride \<and> is_live (rd_status r) \<and> next < rd_discount r"
  have "\<exists>xs ys. redemptions db = xs @ r # ys \<and> ?P r \<and> (\<forall>g. map (\<lambda>x. if ?P x then g x else x) (redemptions db) = xs @ g r # ys)"
    by (rule split_live [OF ledgerD(3) [OF L, of ride] Some]) blast+
  then obtain xs ys where s: "redemptions db = xs @ r # ys" "?P r"
      "\<forall>g. map (\<lambda>x. if ?P x then g x else x) (redemptions db) = xs @ g r # ys" by blast
  let ?r' = "r\<lparr>rd_discount := next\<rparr>" and ?db' = "shrink_redemption ride next db"
  have rk: "red_ok db r" using ledgerD(4) [OF L, of r] s(1) by simp
  then obtain row where row: "offers db (rd_offer r) = Some row" by (auto simp: red_ok_def)
  have live: "live_spend r = spend_of r" "live_unit r = 1" "live_spend ?r' = spend_of r - (rd_discount r - next)" "live_unit ?r' = 1"
    using s(2) by (auto simp: live_spend_def live_unit_def spend_of_def)
  have b: "rd_discount r - next \<le> or_budget_spent row"
    using live_spend_le_spent(1) [OF L s(1) row] rk n unfolding live by (simp add: red_ok_def spend_of_def)
  have rs': "redemptions ?db' = xs @ ?r' # ys" using Some s(3) by (simp add: shrink_redemption_def)
  have offs: "offers ?db' = (offers db)(rd_offer r \<mapsto> row\<lparr>or_budget_spent := or_budget_spent row - (rd_discount r - next)\<rparr>)"
    using Some row b by (simp add: shrink_redemption_def upd_where_def max_def)
  show ?thesis
  proof (rule ledger_update [OF L s(1) rs'])
    show "red_ok db ?r'" using rk s(2) n by (simp add: red_ok_def)
    show "is_live (rd_status r)" using s(2) by simp
    show "live_spend ?r' \<le> live_spend r" unfolding live using s(2) by simp
    show "next_offer ?db' = next_offer db" using Some by (simp add: shrink_redemption_def)
    show "\<exists>row. offers db i = Some row \<and> or_budget_total row' = or_budget_total row
       \<and> or_budget_spent row' = or_budget_spent row - (if i = rd_offer r then live_spend r - live_spend ?r' else 0)
       \<and> or_count row' = or_count row - (if i = rd_offer r then live_unit r - live_unit ?r' else 0)"
      if "offers ?db' i = Some row'" for i row'
      using that row unfolding offs live by (auto split: if_splits)
    show "(offers ?db' i = None) = (offers db i = None)" for i unfolding offs using row by auto
    show "coalesce (user_usage ?db' (i, u)) 0 = coalesce (user_usage db (i, u)) 0
       - (if i = rd_offer r \<and> u = rd_user r then use_unit r - use_unit ?r' else 0)" for i u
      using Some by (simp add: shrink_redemption_def use_unit_def)
  qed simp_all
qed

lemma ledger_cong:
  "ledger ds db \<Longrightarrow> offers db' = offers db \<Longrightarrow> redemptions db' = redemptions db \<Longrightarrow> user_usage db' = user_usage db
     \<Longrightarrow> next_offer db' = next_offer db \<Longrightarrow> ledger ds db'"
  by (simp add: ledger_def red_ok_def debt_ok_def)

lemma discount_nonneg: "0 \<le> fst (computeBenefit b fare (Some cap))"
  by (cases b) (simp_all add: Let_def roundPaise_nonneg)

lemma finalise_ledger:
  assumes L: "ledger ds db"
  shows "ledger ds (snd (finaliseDiscount pct ride db))"
proof (cases "snapshots db ride")
  case None
  then show ?thesis using L by (simp add: finaliseDiscount_def)
next
  case (Some row)
  note snap = Some
  show ?thesis
  proof (cases "find (\<lambda>r. rd_ride r = ride \<and> is_live (rd_status r)) (redemptions db)")
    case None
    then show ?thesis using L snap by (simp add: finaliseDiscount_def)
  next
    case (Some r)
    have "r \<in> set (redemptions db)" using Some by (auto simp: find_Some_iff)
    then have rk: "red_ok db r" using ledgerD(4) [OF L] by blast
    define nx where "nx = roundPaise (min (fst (computeBenefit (vr_benefit (versions db ! rd_version r)) (scaled_fare row)
        (Some (effective_cap pct)))) (from_paise (rd_discount r)))"
    have "0 \<le> nx" unfolding nx_def using rk discount_nonneg from_paise_nonneg
      by (intro roundPaise_nonneg) (simp add: red_ok_def)
    then have "ledger ds (if nx < from_paise (rd_discount r) then shrink_redemption ride (to_paise nx) db else db)"
      using L shrink_ledger to_paise_nonneg by simp
    then show ?thesis
      unfolding finaliseDiscount_def Let_def snap Some prod.case option.case nx_def [symmetric]
      using L by (auto intro: ledger_cong)
  qed
qed

lemma append_sums:
  "sum_list (map spend_of (live_for i (rs @ [r]))) = sum_list (map spend_of (live_for i rs)) + (if rd_offer r = i then live_spend r else 0)"
  "int (length (live_for i (rs @ [r]))) = int (length (live_for i rs)) + (if rd_offer r = i then live_unit r else 0)"
  "int (length (used_by i u (rs @ [r]))) = int (length (used_by i u rs)) + (if rd_offer r = i \<and> rd_user r = u then use_unit r else 0)"
  by (simp_all add: live_for_def used_by_def live_spend_def live_unit_def use_unit_def)

text \<open>What a successful reservation did.\<close>

lemma reserve_ok_shape:
  assumes "reserveRedemption a db = (Inr (ReserveOk n), db')"
  obtains off where "offers db (ra_offer a) = Some off" "or_status off = Active"
    "budget_allows off (to_paise (fadd (ra_discount a) (ra_cashback a)))"
    "case or_global_limit off of None \<Rightarrow> True | Some l \<Rightarrow> or_count off < l"
    "case ra_per_user a of None \<Rightarrow> True | Some l \<Rightarrow> user_usage db (ra_offer a, ra_user a) = None
       \<or> coalesce (user_usage db (ra_offer a, ra_user a)) 0 < l"
    "or_budget_spent off + to_paise (fadd (ra_discount a) (ra_cashback a)) < 10 ^ 12"
    "to_paise (ra_discount a) < 10 ^ 10" "to_paise (ra_cashback a) < 10 ^ 10"
    "live_on (ra_ride a) (redemptions db) = []"
    "db' = db\<lparr>user_usage := (user_usage db)((ra_offer a, ra_user a) \<mapsto> coalesce (user_usage db (ra_offer a, ra_user a)) 0 + 1),
       offers := (offers db)(ra_offer a \<mapsto> off\<lparr>or_budget_spent := or_budget_spent off + to_paise (fadd (ra_discount a) (ra_cashback a)),
          or_count := or_count off + 1\<rparr>),
       redemptions := redemptions db @ [\<lparr>rd_offer = ra_offer a, rd_version = ra_version a, rd_user = ra_user a,
          rd_ride = ra_ride a, rd_status = Reserved, rd_discount = to_paise (ra_discount a),
          rd_cashback = to_paise (ra_cashback a), rd_reason = None\<rparr>]\<rparr>"
proof -
  let ?u = "user_usage db (ra_offer a, ra_user a)" and ?sp = "to_paise (fadd (ra_discount a) (ra_cashback a))"
  note e = assms [unfolded reserveRedemption_def Let_def]
  obtain c where c: "(case ?u of None \<Rightarrow> Some 1
            | Some c \<Rightarrow> if (case ra_per_user a of None \<Rightarrow> True | Some l \<Rightarrow> c < l) then Some (c + 1) else None) = Some c"
    using e by (cases "case ?u of None \<Rightarrow> Some 1
            | Some c \<Rightarrow> if (case ra_per_user a of None \<Rightarrow> True | Some l \<Rightarrow> c < l) then Some (c + 1) else None") simp_all
  then have cv: "c = coalesce ?u 0 + 1" and lim: "case ra_per_user a of None \<Rightarrow> True | Some l \<Rightarrow> ?u = None \<or> coalesce ?u 0 < l"
    by (cases ?u; cases "ra_per_user a"; simp split: if_splits)+
  note e = e [unfolded c option.case]
  show ?thesis
  proof (cases "offers db (ra_offer a)")
    case None
    then show ?thesis using e by (simp add: upd_where_def)
  next
    case (Some off)
    have g: "or_status off = Active \<and> budget_allows off ?sp \<and> (case or_global_limit off of None \<Rightarrow> True | Some l \<Rightarrow> or_count off < l)"
      using e Some by (cases "or_status off = Active \<and> budget_allows off ?sp
        \<and> (case or_global_limit off of None \<Rightarrow> True | Some l \<Rightarrow> or_count off < l)") (simp_all add: upd_where_def)
    note e = e [unfolded upd_where_def Some option.case if_P [OF g] prod.case]
    have fits: "or_budget_spent off + ?sp < 10 ^ 12" "to_paise (ra_discount a) < 10 ^ 10" "to_paise (ra_cashback a) < 10 ^ 10"
      using e by (simp_all add: numeric_fits_def split: if_splits)
    have free: "live_on (ra_ride a) (redemptions db) = []"
      using e by (auto simp: live_on_def filter_empty_conv list_ex_iff split: if_splits)
    show ?thesis
      by (rule that [OF Some _ _ _ lim fits free]) (use g e cv in \<open>auto split: if_splits\<close>)
  qed
qed

lemma reserve_ok_row:
  assumes "reserveRedemption a db = (Inr (ReserveOk n), db')"
  shows "\<exists>x \<in> set (redemptions db'). hits (ra_ride a) Reserved x"
  by (rule reserve_ok_shape [OF assms]) (simp add: hits_def)

lemma reserve_other: "reserveRedemption a db = (r, db') \<Longrightarrow> (\<And>n. r \<noteq> Inr (ReserveOk n)) \<Longrightarrow> db' = db"
  by (auto simp: reserveRedemption_def Let_def split: option.splits prod.splits if_splits)

lemma reserve_ledger:
  assumes L: "ledger ds db" and am: "is_amount (ra_discount a)" "is_amount (ra_cashback a)"
    and res: "reserveRedemption a db = (r, db')"
  shows "ledger ds db'"
proof (cases "\<exists>n. r = Inr (ReserveOk n)")
  case False
  then show ?thesis using reserve_other [OF res] L by simp
next
  case True
  then obtain n where n: "reserveRedemption a db = (Inr (ReserveOk n), db')" using res by blast
  let ?d = "to_paise (ra_discount a)" and ?c = "to_paise (ra_cashback a)"
  have dc: "0 \<le> ?d" "?d \<le> 10 ^ 12" "0 \<le> ?c" "?c \<le> 10 ^ 12" "to_paise (fadd (ra_discount a) (ra_cashback a)) = ?d + ?c"
    using to_paise_amount [OF am(1)] to_paise_amount [OF am(2)] to_paise_sum [of ?d ?c] by auto
  show ?thesis
  proof (rule reserve_ok_shape [OF n])
    fix off
    assume off: "offers db (ra_offer a) = Some off" and bud: "budget_allows off (to_paise (fadd (ra_discount a) (ra_cashback a)))"
      and fits: "or_budget_spent off + to_paise (fadd (ra_discount a) (ra_cashback a)) < 10 ^ 12" "?d < 10 ^ 10" "?c < 10 ^ 10"
      and free: "live_on (ra_ride a) (redemptions db) = []"
      and db': "db' = db\<lparr>user_usage := (user_usage db)((ra_offer a, ra_user a) \<mapsto> coalesce (user_usage db (ra_offer a, ra_user a)) 0 + 1),
       offers := (offers db)(ra_offer a \<mapsto> off\<lparr>or_budget_spent := or_budget_spent off + to_paise (fadd (ra_discount a) (ra_cashback a)),
          or_count := or_count off + 1\<rparr>),
       redemptions := redemptions db @ [\<lparr>rd_offer = ra_offer a, rd_version = ra_version a, rd_user = ra_user a,
          rd_ride = ra_ride a, rd_status = Reserved, rd_discount = ?d, rd_cashback = ?c, rd_reason = None\<rparr>]\<rparr>"
    let ?r = "\<lparr>rd_offer = ra_offer a, rd_version = ra_version a, rd_user = ra_user a,
          rd_ride = ra_ride a, rd_status = Reserved, rd_discount = ?d, rd_cashback = ?c, rd_reason = None\<rparr>"
    have u: "live_spend ?r = ?d + ?c" "live_unit ?r = 1" "use_unit ?r = 1"
      by (simp_all add: live_spend_def live_unit_def use_unit_def is_live_def spend_of_def)
    have rs: "redemptions db' = redemptions db @ [?r]" by (simp add: db')
    have dom: "offers db' i = None \<longleftrightarrow> offers db i = None" for i using off by (simp add: db')
    show "ledger ds db'"
    proof (rule ledgerI)
      fix i row assume i: "offers db' i = Some row"
      show "redemption_row_ok ds (redemptions db') i row"
      proof (cases "i = ra_offer a")
        case True
        have row: "row = off\<lparr>or_budget_spent := or_budget_spent off + (?d + ?c), or_count := or_count off + 1\<rparr>"
          using i True dc(5) by (simp add: db')
        show ?thesis using ledgerD(1) [OF L off] bud fits(1) True
          unfolding rs redemption_row_ok_def append_sums u row budget_allows_def dc(5) by (cases "or_budget_total off") simp_all
      next
        case False
        then have "offers db i = Some row" using i by (simp add: db')
        from ledgerD(1) [OF L this] show ?thesis using False unfolding rs redemption_row_ok_def append_sums by simp
      qed
    next
      fix i u'
      show "coalesce (user_usage db' (i, u')) 0 = int (length (used_by i u' (redemptions db'))) + due_uses i u' ds"
        using ledgerD(2) [OF L, of i u'] unfolding rs append_sums u by (auto simp: db')
    next
      fix ride
      show "length (live_on ride (redemptions db')) \<le> 1"
        using ledgerD(3) [OF L, of ride] free unfolding rs by (auto simp: live_on_def)
    next
      fix x assume "x \<in> set (redemptions db')"
      then show "red_ok db' x" using ledgerD(4) [OF L, of x] dc fits dom off unfolding rs red_ok_def by auto
    next
      fix i assume "next_offer db' \<le> i"
      then show "offers db' i = None" using ledgerD(5) [OF L, of i] dom by (simp add: db')
    next
      fix d assume "d \<in> set ds"
      then show "debt_ok db' d" using ledgerD(6) [OF L, of d] dom by (simp add: debt_ok_def)
    qed
  qed
qed

lemma insert_version_ledger: "ledger ds db \<Longrightarrow> ledger ds (snd (insertVersion i v db))"
proof -
  assume L: "ledger ds db"
  let ?db' = "snd (insertVersion i v db)"
  have rs: "redemptions ?db' = redemptions db" "user_usage ?db' = user_usage db" "next_offer ?db' = next_offer db"
    by (simp_all add: insertVersion_def Let_def)
  have offs: "offers ?db' = (case offers db i of None \<Rightarrow> offers db | Some off \<Rightarrow> (offers db)(i \<mapsto> off\<lparr>or_current := length (versions db)\<rparr>))"
    by (simp add: insertVersion_def Let_def upd_where_def split: option.split)
  then have dom: "offers ?db' j = None \<longleftrightarrow> offers db j = None" for j by (auto split: option.splits)
  show ?thesis
  proof (rule ledgerI)
    fix j row assume j: "offers ?db' j = Some row"
    obtain row0 where r0: "offers db j = Some row0" "or_budget_spent row = or_budget_spent row0" "or_count row = or_count row0"
      "or_budget_total row = or_budget_total row0"
      using j unfolding offs by (cases "offers db i"; cases "j = i") auto
    show "redemption_row_ok ds (redemptions ?db') j row" using ledgerD(1) [OF L r0(1)] unfolding rs redemption_row_ok_def r0(2-4) .
  next
    fix d assume "d \<in> set ds"
    then show "debt_ok ?db' d" using ledgerD(6) [OF L, of d] dom by (simp add: debt_ok_def)
  qed (use ledgerD(2-5) [OF L] dom in \<open>auto simp: rs red_ok_def\<close>)
qed

lemma create_ledger:
  assumes L: "ledger ds db" and b: "pred_option (\<lambda>b. 0 \<le> b) (no_budget b)"
  shows "ledger ds (snd (createOffer cfg b db))"
proof -
  have fresh: "ledger ds (db\<lparr>next_offer := Suc (next_offer db), offers := (offers db)(next_offer db \<mapsto> row)\<rparr>)"
    if row: "or_budget_spent row = 0" "or_count row = 0" "or_budget_total row = map_option to_paise (no_budget b)" for row
  proof -
    have none: "offers db (next_offer db) = None" using ledgerD(5) [OF L] by simp
    have empty: "live_for (next_offer db) (redemptions db) = []"
    proof -
      have "rd_offer r \<noteq> next_offer db" if "r \<in> set (redemptions db)" for r
        using ledgerD(4) [OF L that] none by (auto simp: red_ok_def)
      then show ?thesis by (auto simp: live_for_def filter_empty_conv)
    qed
    have owed: "due_spend (next_offer db) ds = 0" "due_count (next_offer db) ds = 0"
    proof -
      have "dt_offer d \<noteq> next_offer db" if "d \<in> set ds" for d using ledgerD(6) [OF L that] none by (auto simp: debt_ok_def)
      then have m: "map (\<lambda>d. if dt_offer d = next_offer db \<and> dt_offers d then dt_spend d else 0) ds = map (\<lambda>_. 0) ds"
        "map (\<lambda>d. if dt_offer d = next_offer db \<and> dt_offers d then 1 else 0) ds = map (\<lambda>_. 0 :: int) ds" by simp_all
      show "due_spend (next_offer db) ds = 0" "due_count (next_offer db) ds = 0" unfolding due_spend_def due_count_def m by (rule sum_list_0)+
    qed
    show ?thesis
    proof (rule ledgerI)
      fix i r assume "offers (db\<lparr>next_offer := Suc (next_offer db), offers := (offers db)(next_offer db \<mapsto> row)\<rparr>) i = Some r"
      then show "redemption_row_ok ds (redemptions (db\<lparr>next_offer := Suc (next_offer db), offers := (offers db)(next_offer db \<mapsto> row)\<rparr>)) i r"
        using ledgerD(1) [OF L, of i] row empty owed b by (cases "no_budget b") (auto simp: redemption_row_ok_def to_paise_nonneg split: if_splits)
    next
      fix r assume "r \<in> set (redemptions (db\<lparr>next_offer := Suc (next_offer db), offers := (offers db)(next_offer db \<mapsto> row)\<rparr>))"
      then show "red_ok (db\<lparr>next_offer := Suc (next_offer db), offers := (offers db)(next_offer db \<mapsto> row)\<rparr>) r"
        using ledgerD(4) [OF L, of r] by (auto simp: red_ok_def)
    next
      fix d assume "d \<in> set ds"
      then show "debt_ok (db\<lparr>next_offer := Suc (next_offer db), offers := (offers db)(next_offer db \<mapsto> row)\<rparr>) d"
        using ledgerD(6) [OF L, of d] by (auto simp: debt_ok_def)
    qed (use ledgerD(2,3,5) [OF L] in auto)
  qed
  show ?thesis unfolding createOffer_def Let_def
    by (auto split: sum.split intro!: L insert_version_ledger fresh)
qed

lemma create_version_ledger: "ledger ds db \<Longrightarrow> ledger ds (snd (createVersion cfg i b db))"
  using insert_version_ledger [of ds db i "with_limit b"]
  by (auto simp: createVersion_def Let_def split: sum.split prod.split)

lemma patch_ledger:
  assumes L: "ledger ds db"
  shows "ledger ds (snd (patchOffer i p db))"
proof (cases "\<exists>cur. offers db i = Some cur \<and> patch_checks cur p = Inr ()")
  case False
  then have "snd (patchOffer i p db) = db" by (auto simp: patchOffer_def split: option.split sum.split)
  then show ?thesis using L by simp
next
  case True
  then obtain cur where cur: "offers db i = Some cur" and p: "patch_checks cur p = Inr ()" by blast
  have db': "snd (patchOffer i p db) = db\<lparr>offers := (offers db)(i \<mapsto> patched_row p cur)\<rparr>"
    using cur p by (simp add: patchOffer_def)
  have bud: "case pt_budget p of Some (Some b) \<Rightarrow> from_paise (or_budget_spent cur) \<le> b | _ \<Rightarrow> True"
    using p unfolding patch_checks_def bind_guard_Inr by (auto split: option.splits)
  have k: "redemption_row_ok ds (redemptions db) i cur" using ledgerD(1) [OF L cur] .
  have nn: "0 \<le> spend_of r" if "r \<in> set (redemptions db)" for r
    using ledgerD(4) [OF L that] by (simp add: red_ok_def spend_of_def)
  then have "0 \<le> or_budget_spent cur" using k due_nonneg(1) [OF L, of i] live_nonneg [OF nn, of "redemptions db" i] unfolding redemption_row_ok_def by simp
  moreover have f: "or_budget_spent (patched_row p cur) = or_budget_spent cur" "or_count (patched_row p cur) = or_count cur"
    "or_budget_total (patched_row p cur) = (case pt_budget p of Some b \<Rightarrow> map_option to_paise b | None \<Rightarrow> or_budget_total cur)"
    by (simp_all add: patched_row_def)
  ultimately have "redemption_row_ok ds (redemptions db) i (patched_row p cur)"
    using k bud to_paise_ge [of "or_budget_spent cur"] unfolding redemption_row_ok_def f
    by (cases "pt_budget p"; cases "the (pt_budget p)"; cases "or_budget_total cur") simp_all
  then show ?thesis unfolding db' by (intro ledgerI) (use ledgerD [OF L] cur in \<open>auto simp: red_ok_def debt_ok_def split: if_splits\<close>)
qed

text \<open>
  The transactions and single statements a caller may run, in any order; a shrunk discount may have been derived from rows read earlier.
\<close>

inductive ledger_step :: "offer_db \<Rightarrow> offer_db \<Rightarrow> bool" where
  reserve: "is_amount (ra_discount a) \<Longrightarrow> is_amount (ra_cashback a) \<Longrightarrow> ledger_step db (snd (reserveRedemption a db))"
| consume: "ledger_step db (snd (consumeRedemption ride db))"
| release: "ledger_step db (snd (releaseRedemption ride why db))"
| reverse: "ledger_step db (snd (reverseRedemption ride why db))"
| finalise: "ledger_step db (snd (finaliseDiscount pct ride db))"
| shrink: "0 \<le> n \<Longrightarrow> ledger_step db (shrink_redemption ride n db)"
| pay: "ledger_step db (snd (payableForRide pct ride db))"
| settle: "ledger_step db (settleOfferOnPayment ride db)"
| cancel: "ledger_step db (onRideCancelled ride fee db)"
| give_back: "ledger_step db (releaseForRide ride why db)"
| quote: "ledger_step db (db\<lparr>snapshots := s\<rparr>)"
| create: "pred_option (\<lambda>x. 0 \<le> x) (no_budget b) \<Longrightarrow> ledger_step db (snd (createOffer cfg b db))"
| version: "ledger_step db (snd (createVersion cfg i v db))"
| patch: "ledger_step db (snd (patchOffer i p db))"

lemma step_ledger: "ledger_step db db' \<Longrightarrow> ledger ds db \<Longrightarrow> ledger ds db'"
proof (induction rule: ledger_step.induct)
  case (reserve a db)
  then show ?case using reserve_ledger [of ds db a] by (cases "reserveRedemption a db") simp
next
  case (consume db ride)
  then show ?case by (rule consume_ledger)
next
  case (release db ride why)
  then show ?case by (simp add: releaseRedemption_def undo_ledger)
next
  case (reverse db ride why)
  then show ?case by (simp add: reverseRedemption_def undo_ledger)
next
  case (finalise db pct ride)
  then show ?case by (rule finalise_ledger)
next
  case (shrink n db ride)
  then show ?case by (intro shrink_ledger)
next
  case (pay db pct ride)
  then show ?case using finalise_ledger by (simp add: payableForRide_def Let_def)
next
  case (settle db ride)
  then show ?case by (simp add: settleOfferOnPayment_def consume_ledger)
next
  case (cancel db ride fee)
  then show ?case by (simp add: onRideCancelled_def consume_ledger releaseRedemption_def undo_ledger)
next
  case (give_back db ride why)
  then show ?case by (simp add: releaseForRide_def releaseRedemption_def undo_ledger)
next
  case (quote db s)
  then show ?case by (rule ledger_cong) simp_all
next
  case (create b db cfg)
  then show ?case by (intro create_ledger)
next
  case (version db cfg i v)
  then show ?case by (rule create_version_ledger)
next
  case (patch db i p)
  then show ?case by (rule patch_ledger)
qed

definition empty_offers :: offer_db where
  "empty_offers = \<lparr>offers = Map.empty, versions = [], redemptions = [], user_usage = Map.empty, snapshots = Map.empty, next_offer = 1\<rparr>"

text \<open>
  A release with the pool: its statements one by one, with anything between them. A process that dies between two of them leaves its entry in \<open>lr_owed\<close> for ever.
\<close>

record ledger_run =
  lr_db :: offer_db
  lr_owed :: "debt list"

definition debt_of :: "redemption \<Rightarrow> debt" where
  "debt_of r = \<lparr>dt_offer = rd_offer r, dt_user = rd_user r, dt_spend = spend_paise r, dt_offers = True, dt_use = True\<rparr>"

inductive offer_step :: "ledger_run \<Rightarrow> ledger_run \<Rightarrow> bool" where
  does: "ledger_step (lr_db w) db' \<Longrightarrow> offer_step w (w\<lparr>lr_db := db'\<rparr>)"
| begins: "undo_row ride Reserved Released why (lr_db w) = (Some r, db') \<Longrightarrow> offer_step w (w\<lparr>lr_db := db', lr_owed := debt_of r # lr_owed w\<rparr>)"
| gives: "lr_owed w = xs @ d # ys \<Longrightarrow> dt_offers d
    \<Longrightarrow> offer_step w (w\<lparr>lr_db := undo_offer (dt_offer d) (dt_spend d) (lr_db w), lr_owed := xs @ d\<lparr>dt_offers := False\<rparr> # ys\<rparr>)"
| counts: "lr_owed w = xs @ d # ys \<Longrightarrow> \<not> dt_offers d \<Longrightarrow> dt_use d
    \<Longrightarrow> offer_step w (w\<lparr>lr_db := undo_use (dt_offer d) (dt_user d) (lr_db w), lr_owed := xs @ d\<lparr>dt_use := False\<rparr> # ys\<rparr>)"

lemma due_simps:
  "due_spend i (d # ds) = (if dt_offer d = i \<and> dt_offers d then dt_spend d else 0) + due_spend i ds"
  "due_count i (d # ds) = (if dt_offer d = i \<and> dt_offers d then 1 else 0) + due_count i ds"
  "due_uses i u (d # ds) = (if dt_offer d = i \<and> dt_user d = u \<and> dt_use d then 1 else 0) + due_uses i u ds"
  "due_spend i (xs @ ys) = due_spend i xs + due_spend i ys" "due_count i (xs @ ys) = due_count i xs + due_count i ys"
  "due_uses i u (xs @ ys) = due_uses i u xs + due_uses i u ys"
  by (simp_all add: due_spend_def due_count_def due_uses_def)

lemma begins_ledger:
  assumes L: "ledger ds db" and b: "undo_row ride Reserved Released why db = (Some r, db')"
  shows "ledger (debt_of r # ds) db'"
proof -
  have f: "find (hits ride Reserved) (redemptions db) = Some r" using b by (simp add: undo_row_def)
  obtain xs ys where s: "redemptions db = xs @ r # ys" "hits ride Reserved r"
      "\<forall>g. map (\<lambda>x. if hits ride Reserved x then g x else x) (redemptions db) = xs @ g r # ys"
    using split_hits [OF L f] by blast
  let ?r' = "r\<lparr>rd_status := Released, rd_reason := Some why\<rparr>"
  have db': "db' = db\<lparr>redemptions := xs @ ?r' # ys\<rparr>" using b s(3) by (simp add: undo_row_def)
  have rk: "red_ok db r" using ledgerD(4) [OF L, of r] s(1) by simp
  have live: "live_spend r = spend_of r" "live_unit r = 1" "live_spend ?r' = 0" "live_unit ?r' = 0" "use_unit r = 1" "use_unit ?r' = 0"
    using s(2) by (auto simp: hits_def live_spend_def live_unit_def use_unit_def is_live_def)
  note debt = debt_of_def spend_paise_of [OF rk]
  show ?thesis
  proof (rule ledgerI)
    fix i row assume "offers db' i = Some row"
    then show "redemption_row_ok (debt_of r # ds) (redemptions db') i row"
      using ledgerD(1) [OF L, of i row] unfolding redemption_row_ok_def s(1) db' by (simp add: live_sum_split live due_simps debt)
  next
    fix i u
    show "coalesce (user_usage db' (i, u)) 0 = int (length (used_by i u (redemptions db'))) + due_uses i u (debt_of r # ds)"
      using ledgerD(2) [OF L, of i u] unfolding s(1) db' by (simp add: live_sum_split live due_simps debt)
  next
    fix j
    show "length (live_on j (redemptions db')) \<le> 1"
      using ledgerD(3) [OF L, of j] unfolding s(1) db' by (auto simp: live_on_def is_live_def split: if_splits)
  next
    fix x assume "x \<in> set (redemptions db')"
    then show "red_ok db' x" using ledgerD(4) [OF L, of x] rk unfolding s(1) db' by (auto simp: red_ok_def)
  next
    fix i assume "next_offer db' \<le> i"
    then show "offers db' i = None" using ledgerD(5) [OF L] by (simp add: db')
  next
    fix d assume "d \<in> set (debt_of r # ds)"
    then show "debt_ok db' d" using ledgerD(6) [OF L, of d] rk by (auto simp: db' debt_ok_def debt red_ok_def spend_of_def)
  qed
qed

lemma gives_ledger:
  assumes L: "ledger (xs @ d # ys) db" and due: "dt_offers d"
  shows "ledger (xs @ d\<lparr>dt_offers := False\<rparr> # ys) (undo_offer (dt_offer d) (dt_spend d) db)"
proof -
  let ?ds = "xs @ d # ys" and ?ds' = "xs @ d\<lparr>dt_offers := False\<rparr> # ys"
  have ok: "debt_ok db d" using ledgerD(6) [OF L] by simp
  then obtain row where row: "offers db (dt_offer d) = Some row" by (auto simp: debt_ok_def)
  have k: "redemption_row_ok ?ds (redemptions db) (dt_offer d) row" by (rule ledgerD(1) [OF L row])
  have nn: "0 \<le> spend_of r" if "r \<in> set (redemptions db)" for r
    using ledgerD(4) [OF L that] by (simp add: red_ok_def spend_of_def)
  have rest: "0 \<le> dt_spend e" if "e \<in> set ?ds" for e using ledgerD(6) [OF L that] by (simp add: debt_ok_def)
  have "0 \<le> due_spend (dt_offer d) xs" "0 \<le> due_spend (dt_offer d) ys" "0 \<le> due_count (dt_offer d) xs" "0 \<le> due_count (dt_offer d) ys"
    using rest by (auto simp: due_spend_def due_count_def intro!: sum_list_nonneg)
  then have b: "dt_spend d \<le> or_budget_spent row" "1 \<le> or_count row"
    using k due live_nonneg [OF nn, of "redemptions db" "dt_offer d"] unfolding redemption_row_ok_def due_simps by simp_all
  have offs: "offers (undo_offer (dt_offer d) (dt_spend d) db)
      = (offers db)(dt_offer d \<mapsto> row\<lparr>or_budget_spent := or_budget_spent row - dt_spend d, or_count := or_count row - 1\<rparr>)"
    using b row by (simp add: undo_offer_def upd_where_def max_def)
  have rs: "redemptions (undo_offer (dt_offer d) (dt_spend d) db) = redemptions db" "user_usage (undo_offer (dt_offer d) (dt_spend d) db) = user_usage db"
    "next_offer (undo_offer (dt_offer d) (dt_spend d) db) = next_offer db" by (simp_all add: undo_offer_def)
  show ?thesis
  proof (rule ledgerI)
    fix i row' assume i: "offers (undo_offer (dt_offer d) (dt_spend d) db) i = Some row'"
    show "redemption_row_ok ?ds' (redemptions (undo_offer (dt_offer d) (dt_spend d) db)) i row'"
    proof (cases "i = dt_offer d")
      case True
      then show ?thesis using i k due ok unfolding rs offs
        by (cases "or_budget_total row") (auto simp: redemption_row_ok_def due_simps debt_ok_def)
    next
      case False
      then have "offers db i = Some row'" using i by (simp add: offs)
      then show ?thesis using ledgerD(1) [OF L, of i row'] False unfolding rs by (simp add: redemption_row_ok_def due_simps)
    qed
  next
    fix i u
    show "coalesce (user_usage (undo_offer (dt_offer d) (dt_spend d) db) (i, u)) 0
        = int (length (used_by i u (redemptions (undo_offer (dt_offer d) (dt_spend d) db)))) + due_uses i u ?ds'"
      using ledgerD(2) [OF L, of i u] unfolding rs by (simp add: due_simps)
  next
    fix j show "length (live_on j (redemptions (undo_offer (dt_offer d) (dt_spend d) db))) \<le> 1" using ledgerD(3) [OF L] by (simp add: rs)
  next
    fix x assume "x \<in> set (redemptions (undo_offer (dt_offer d) (dt_spend d) db))"
    then show "red_ok (undo_offer (dt_offer d) (dt_spend d) db) x" using ledgerD(4) [OF L, of x] by (simp add: rs offs red_ok_def)
  next
    fix i assume "next_offer (undo_offer (dt_offer d) (dt_spend d) db) \<le> i"
    then show "offers (undo_offer (dt_offer d) (dt_spend d) db) i = None" using ledgerD(5) [OF L, of i] row unfolding rs offs by auto
  next
    fix e assume "e \<in> set ?ds'"
    then show "debt_ok (undo_offer (dt_offer d) (dt_spend d) db) e"
      using ledgerD(6) [OF L, of e] ok unfolding debt_ok_def offs by auto
  qed
qed

lemma counts_ledger:
  assumes L: "ledger (xs @ d # ys) db" and due: "dt_use d"
  shows "ledger (xs @ d\<lparr>dt_use := False\<rparr> # ys) (undo_use (dt_offer d) (dt_user d) db)"
proof -
  let ?ds = "xs @ d # ys" and ?ds' = "xs @ d\<lparr>dt_use := False\<rparr> # ys" and ?k = "(dt_offer d, dt_user d)"
  have "0 \<le> due_uses (dt_offer d) (dt_user d) xs" "0 \<le> due_uses (dt_offer d) (dt_user d) ys"
    by (auto simp: due_uses_def intro!: sum_list_nonneg)
  then have "1 \<le> coalesce (user_usage db ?k) 0" using ledgerD(2) [OF L, of "dt_offer d" "dt_user d"] due by (simp add: due_simps)
  then obtain c where c: "user_usage db ?k = Some c" "1 \<le> c" by (cases "user_usage db ?k") simp_all
  have use: "user_usage (undo_use (dt_offer d) (dt_user d) db) = (user_usage db)(?k \<mapsto> c - 1)"
    using c by (simp add: undo_use_def upd_where_def max_def)
  have rs: "redemptions (undo_use (dt_offer d) (dt_user d) db) = redemptions db" "offers (undo_use (dt_offer d) (dt_user d) db) = offers db"
    "next_offer (undo_use (dt_offer d) (dt_user d) db) = next_offer db" by (simp_all add: undo_use_def)
  show ?thesis
  proof (rule ledgerI)
    fix i row assume "offers (undo_use (dt_offer d) (dt_user d) db) i = Some row"
    then show "redemption_row_ok ?ds' (redemptions (undo_use (dt_offer d) (dt_user d) db)) i row"
      using ledgerD(1) [OF L, of i row] unfolding rs by (simp add: redemption_row_ok_def due_simps)
  next
    fix i u
    show "coalesce (user_usage (undo_use (dt_offer d) (dt_user d) db) (i, u)) 0
        = int (length (used_by i u (redemptions (undo_use (dt_offer d) (dt_user d) db)))) + due_uses i u ?ds'"
      using ledgerD(2) [OF L, of i u] c due unfolding rs use by (auto simp: due_simps)
  next
    fix j show "length (live_on j (redemptions (undo_use (dt_offer d) (dt_user d) db))) \<le> 1" using ledgerD(3) [OF L] by (simp add: rs)
  next
    fix x assume "x \<in> set (redemptions (undo_use (dt_offer d) (dt_user d) db))"
    then show "red_ok (undo_use (dt_offer d) (dt_user d) db) x" using ledgerD(4) [OF L, of x] by (simp add: rs red_ok_def)
  next
    fix i assume "next_offer (undo_use (dt_offer d) (dt_user d) db) \<le> i"
    then show "offers (undo_use (dt_offer d) (dt_user d) db) i = None" using ledgerD(5) [OF L, of i] unfolding rs by simp
  next
    fix e assume "e \<in> set ?ds'"
    then show "debt_ok (undo_use (dt_offer d) (dt_user d) db) e" using ledgerD(6) [OF L, of e] ledgerD(6) [OF L, of d] unfolding debt_ok_def rs by auto
  qed
qed

lemma offer_step_ledger: "offer_step w w' \<Longrightarrow> ledger (lr_owed w) (lr_db w) \<Longrightarrow> ledger (lr_owed w') (lr_db w')"
proof (induction rule: offer_step.induct)
  case (does w db')
  then show ?case using step_ledger by simp
next
  case (begins ride why w r db')
  then show ?case using begins_ledger by simp
next
  case (gives w xs d ys)
  then show ?case using gives_ledger by simp
next
  case (counts w xs d ys)
  then show ?case using counts_ledger by simp
qed

lemma empty_ledger: "ledger [] empty_offers"
  by (simp add: empty_offers_def ledger_def list_views due_uses_def)

text \<open>
  C11. The redemption ledger. After any interleaving of bookings, payments, cancellations, discount re-derivations and admin edits, and of releases whose statements commit one by one
  or stop half-way: what an offer has counted as spent is the sum of its live redemptions and of what interrupted releases still owe it, and within its budget, so a budget is
  never overspent; its count and every rider's use count are the numbers of the redemptions that stand in the same way; and no ride holds two live redemptions. Where
  nothing is owed the counters are exact.
\<close>

theorem ledger_reachable:
  assumes "offer_step\<^sup>*\<^sup>* \<lparr>lr_db = empty_offers, lr_owed = []\<rparr> w"
  shows "(\<forall>i row. offers (lr_db w) i = Some row \<longrightarrow>
        or_budget_spent row = sum_list (map spend_of (live_for i (redemptions (lr_db w)))) + due_spend i (lr_owed w)
      \<and> or_count row = int (length (live_for i (redemptions (lr_db w)))) + due_count i (lr_owed w)
      \<and> 0 \<le> due_spend i (lr_owed w) \<and> 0 \<le> due_count i (lr_owed w)
      \<and> (case or_budget_total row of Some t \<Rightarrow> or_budget_spent row \<le> t | None \<Rightarrow> True))
    \<and> (\<forall>i u. coalesce (user_usage (lr_db w) (i, u)) 0 = int (length (used_by i u (redemptions (lr_db w)))) + due_uses i u (lr_owed w) \<and> 0 \<le> due_uses i u (lr_owed w))
    \<and> (\<forall>ride. length (live_on ride (redemptions (lr_db w))) \<le> 1)"
proof -
  have L: "ledger (lr_owed w) (lr_db w)"
    using assms by (induction rule: rtranclp_induct) (auto intro: empty_ledger offer_step_ledger)
  show ?thesis using ledgerD(1-3) [OF L] due_nonneg [OF L] unfolding redemption_row_ok_def by blast
qed

text \<open>
  A release that stops after its first statement: nothing repairs the counters afterwards, because every later release finds no reserved redemption.
\<close>

lemma interrupted_release_keeps_the_budget:
  assumes f: "find (hits ride Reserved) (redemptions db) = Some r" and off: "offers db (rd_offer r) = Some row"
  shows "offers (releaseOnPool 1 ride why db) (rd_offer r) = Some row"
    and "releaseRedemption ride why' (releaseOnPool 1 ride why db) = (False, releaseOnPool 1 ride why db)"
proof -
  let ?db = "releaseOnPool 1 ride why db"
  have db: "?db = db\<lparr>redemptions := map (\<lambda>x. if hits ride Reserved x then x\<lparr>rd_status := Released, rd_reason := Some why\<rparr> else x) (redemptions db)\<rparr>"
    by (simp add: releaseOnPool_def undo_part_def undo_row_def f)
  then show "offers ?db (rd_offer r) = Some row" using off by simp
  have rs: "redemptions ?db = map (\<lambda>x. if hits ride Reserved x then x\<lparr>rd_status := Released, rd_reason := Some why\<rparr> else x) (redemptions db)"
    unfolding db by simp
  have "\<not> hits ride Reserved y" if y: "y \<in> set (redemptions ?db)" for y
  proof -
    have "y \<in> (\<lambda>x. if hits ride Reserved x then x\<lparr>rd_status := Released, rd_reason := Some why\<rparr> else x) ` set (redemptions db)"
      using y unfolding rs set_map .
    then obtain x where "y = (if hits ride Reserved x then x\<lparr>rd_status := Released, rd_reason := Some why\<rparr> else x)" by blast
    then show ?thesis by (cases "hits ride Reserved x") (simp_all add: hits_def)
  qed
  then have none: "find (hits ride Reserved) (redemptions ?db) = None" by (simp add: find_None_iff)
  show "releaseRedemption ride why' ?db = (False, ?db)" unfolding releaseRedemption_def undo_eq none by (simp only: option.case)
qed

definition demo_new_offer :: new_offer where
  "demo_new_offer = \<lparr>no_kind = AutoOffer, no_code = None, no_status = Active, no_budget = Some 500, no_limit = None, no_starts = None,
     no_ends = None, no_version = \<lparr>nv_rules = [NewUserRule], nv_benefit = PercentOff 10 None None, nv_per_user = None\<rparr>\<rparr>"

definition demo_reserve :: reserve_args where
  "demo_reserve = \<lparr>ra_offer = 1, ra_version = 0, ra_user = 8, ra_ride = 5, ra_discount = 0, ra_cashback = 0, ra_per_user = Some 1\<rparr>"

definition demo_created :: offer_db where
  "demo_created = snd (createOffer (env_config demo_offer_env) demo_new_offer empty_offers)"

definition demo_reserved :: offer_db where "demo_reserved = snd (reserveRedemption demo_reserve demo_created)"

lemma demo_reserved_ok: "fst (reserveRedemption demo_reserve demo_created) = Inr (ReserveOk 0)"
  using to_from_paise [of 0] to_paise_nonneg [of 500]
  by (simp add: from_paise_def paise_ok_def reserveRedemption_def demo_created_def demo_reserve_def createOffer_def demo_new_offer_def insertVersion_def with_limit_def assertBenefitAllowed_def
      demo_offer_env_def upd_where_def budget_allows_def numeric_fits_def Let_def empty_offers_def fadd_def)

text \<open>An offer is created, a redemption reserved, and its release stops after the first statement.\<close>

lemma ledger_reachable_witness:
  "\<exists>w. offer_step\<^sup>*\<^sup>* \<lparr>lr_db = empty_offers, lr_owed = []\<rparr> w \<and> lr_owed w \<noteq> [] \<and> length (live_on 5 (redemptions (lr_db w))) \<le> 1
     \<and> coalesce (user_usage (lr_db w) (1, 8)) 0 = int (length (used_by 1 8 (redemptions (lr_db w)))) + due_uses 1 8 (lr_owed w)"
proof -
  let ?w0 = "\<lparr>lr_db = empty_offers, lr_owed = []\<rparr>" and ?w1 = "\<lparr>lr_db = demo_created, lr_owed = []\<rparr>" and ?w2 = "\<lparr>lr_db = demo_reserved, lr_owed = []\<rparr>"
  have "ledger_step empty_offers demo_created" unfolding demo_created_def
    by (rule ledger_step.create) (simp add: demo_new_offer_def)
  then have "offer_step ?w0 ?w1" using offer_step.does [of ?w0 demo_created] by simp
  moreover have "ledger_step demo_created demo_reserved" unfolding demo_reserved_def
    by (rule ledger_step.reserve) (simp_all add: demo_reserve_def)
  then have "offer_step ?w1 ?w2" using offer_step.does [of ?w1 demo_reserved] by simp
  moreover obtain n where n: "reserveRedemption demo_reserve demo_created = (Inr (ReserveOk n), demo_reserved)"
    using demo_reserved_ok by (metis demo_reserved_def prod.collapse)
  have "\<exists>x \<in> set (redemptions demo_reserved). hits 5 Reserved x"
    using reserve_ok_row [OF n] by (simp add: demo_reserve_def)
  then have "find (hits 5 Reserved) (redemptions demo_reserved) \<noteq> None" by (auto simp: find_None_iff)
  then have "\<exists>r db'. undo_row 5 Reserved Released ''x'' demo_reserved = (Some r, db')" by (auto simp: undo_row_def)
  then obtain r db' where "undo_row 5 Reserved Released ''x'' demo_reserved = (Some r, db')" by blast
  then have "offer_step ?w2 \<lparr>lr_db = db', lr_owed = [debt_of r]\<rparr>" using offer_step.begins [of 5 "''x''" ?w2 r db'] by simp
  ultimately have run: "offer_step\<^sup>*\<^sup>* ?w0 \<lparr>lr_db = db', lr_owed = [debt_of r]\<rparr>" by (meson rtranclp.rtrancl_refl rtranclp.rtrancl_into_rtrancl)
  show ?thesis by (rule exI [of _ "\<lparr>lr_db = db', lr_owed = [debt_of r]\<rparr>"]) (use run ledger_reachable [OF run] in simp)
qed

subsection \<open>Claims on redemptions\<close>

definition reserved_on :: "offer_db \<Rightarrow> nat \<Rightarrow> bool" where
  "reserved_on db ride \<longleftrightarrow> list_ex (hits ride Reserved) (redemptions db)"

lemma find_filter: "find P xs = (case filter P xs of [] \<Rightarrow> None | x # _ \<Rightarrow> Some x)"
  by (induction xs) auto

lemma reserved_find: "reserved_on db ride \<longleftrightarrow> find (hits ride Reserved) (redemptions db) \<noteq> None"
  by (auto simp: reserved_on_def list_ex_iff find_None_iff)

lemma status_moved:
  "(\<And>x. rd_ride (f x) = rd_ride x \<and> rd_status (f x) \<noteq> Reserved) \<Longrightarrow>
     list_ex (hits j Reserved) (map (\<lambda>x. if hits k Reserved x then f x else x) rs) \<longleftrightarrow> j \<noteq> k \<and> list_ex (hits j Reserved) rs"
  by (induction rs) (auto simp: hits_def)

lemma consume_moved: "reserved_on (snd (consumeRedemption k db)) j \<longleftrightarrow> j \<noteq> k \<and> reserved_on db j"
  using status_moved [of "\<lambda>r. r\<lparr>rd_status := Consumed\<rparr>" j k "redemptions db"]
  by (simp add: reserved_on_def consumeRedemption_def)

lemma consume_won: "fst (consumeRedemption k db) \<noteq> None \<longleftrightarrow> reserved_on db k"
  by (simp add: consumeRedemption_def reserved_find)

lemma release_moved: "reserved_on (snd (releaseRedemption k why db)) j \<longleftrightarrow> j \<noteq> k \<and> reserved_on db j"
proof (cases "find (hits k Reserved) (redemptions db)")
  case None
  then show ?thesis using reserved_find [of db k] by (auto simp: releaseRedemption_def undo_eq)
next
  case (Some r)
  then show ?thesis using status_moved [of "\<lambda>x. x\<lparr>rd_status := Released, rd_reason := Some why\<rparr>" j k "redemptions db"]
    by (simp add: reserved_on_def releaseRedemption_def undo_eq Let_def)
qed

lemma pool_release_frees:
  assumes "0 < n"
  shows "\<not> reserved_on (releaseOnPool n k why db) k"
proof -
  have "redemptions (releaseOnPool n k why db) = map (\<lambda>x. if hits k Reserved x then x\<lparr>rd_status := Released, rd_reason := Some why\<rparr> else x) (redemptions db)"
    using assms by (cases "find (hits k Reserved) (redemptions db)")
      (simp_all add: releaseOnPool_def undo_part_def undo_row_def undo_offer_def undo_use_def undo_fare_def Let_def)
  then show ?thesis using status_moved [of "\<lambda>x. x\<lparr>rd_status := Released, rd_reason := Some why\<rparr>" k k "redemptions db"] by (simp add: reserved_on_def)
qed

lemma release_won: "fst (releaseRedemption k why db) \<longleftrightarrow> reserved_on db k"
  by (simp add: releaseRedemption_def undo_eq reserved_find Let_def split: option.split)

interpretation consume_claim: claim_once reserved_on "\<lambda>ride db. (fst (consumeRedemption ride db) \<noteq> None, snd (consumeRedemption ride db))"
  by unfold_locales (simp_all only: fst_conv snd_conv consume_won consume_moved, simp_all)

interpretation release_claim: claim_once reserved_on "\<lambda>ride. releaseRedemption ride why"
  by unfold_locales (simp_all only: release_won release_moved, simp_all)

text \<open>
  Settling a ride's offer is idempotent: however often its payment is confirmed or its cancellation
  processed, the redemption is consumed at most once, and exactly once when it was reserved.
\<close>

theorem redemption_consumed_once:
  "distinct (consume_claim.wins rides db)
   \<and> (\<forall>ride. ride \<in> set (consume_claim.wins rides db) \<longleftrightarrow> reserved_on db ride \<and> ride \<in> set rides)
   \<and> distinct (release_claim.wins why rides db)"
  using consume_claim.won_once consume_claim.won_iff release_claim.won_once by blast

subsection \<open>Re-deriving a discount\<close>

lemma derived_paise: "\<exists>D. fst (computeBenefit b fare (Some cap)) = from_paise D \<and> 0 \<le> D"
proof (cases "is_discount_benefit b")
  case True
  then obtain x where "fst (computeBenefit b fare (Some cap)) = roundPaise (max x 0)"
    by (cases b) (auto simp: Let_def)
  moreover have "0 \<le> paise_of (max x 0)" unfolding paise_of_def
    by (intro js_round_nonneg fl_nonneg to_precision_nonneg fmul_nonneg) simp_all
  ultimately show ?thesis by (auto simp: roundPaise_from)
next
  case False
  then have "fst (computeBenefit b fare (Some cap)) = from_paise 0" by (cases b) (simp_all add: Let_def)
  then show ?thesis by blast
qed

lemma half_paisa:
  assumes "0 \<le> k" "k < n" "n \<le> 900000000"
  shows "\<not> \<bar>fsub (from_paise k) (from_paise n)\<bar> < fl (5 / 1000)"
proof -
  have ok: "paise_ok k" "paise_ok n" using assms by (simp_all add: paise_ok_def)
  have "near 3 (fsub (from_paise k) (from_paise n)) (k - n)"
    using near_fsub [OF near_paise [OF ok(1)] near_paise [OF ok(2)]] assms by (simp add: paise_ok_def)
  moreover have "of_int (k - n) / 100 \<le> (- 1 / 100 :: rat)"
    using assms(2) of_int_le_iff [of "k - n" "- 1", where 'a = rat] by simp
  ultimately have "fsub (from_paise k) (from_paise n) \<le> - (9 / 1000)" unfolding near_def by linarith
  moreover have "fl (5 / 1000) \<le> 6 / 1000" using fl_above [of "5 / 1000"] by simp
  ultimately show ?thesis by simp
qed

lemma finalise_cases:
  assumes snap: "snapshots db ride = Some row" and f: "find (\<lambda>r. rd_ride r = ride \<and> is_live (rd_status r)) (redemptions db) = Some r"
    and v: "rd_version r < length (versions db)" and eq: "fs_discount row = rd_discount r"
    and R: "0 \<le> rd_discount r" "rd_discount r \<le> 900000000"
    and D: "fst (computeBenefit (vr_benefit (versions db ! rd_version r)) (scaled_fare row) (Some (effective_cap pct))) = from_paise D" "0 \<le> D"
  shows "finaliseDiscount pct ride db = (if rd_discount r \<le> D then (from_paise (rd_discount r), db)
     else (from_paise D, (shrink_redemption ride D db)\<lparr>snapshots := (snapshots db)(ride \<mapsto> row\<lparr>fs_discount := D\<rparr>)\<rparr>))"
proof (cases "rd_discount r \<le> D")
  case True
  have "min (from_paise D) (from_paise (rd_discount r)) = from_paise (rd_discount r)"
    using from_paise_mono [OF True] by simp
  moreover have "roundPaise (from_paise (rd_discount r)) = from_paise (rd_discount r)"
    using paise_of_from [of "rd_discount r"] R by (simp add: roundPaise_from)
  moreover have "0 < fl (5 / 1000)" by (rule fl_pos) simp
  ultimately show ?thesis using True snap f v eq D(1) by (simp add: finaliseDiscount_def Let_def fsub_def)
next
  case False
  then have d: "D < rd_discount r" "D \<le> 900000000" using R by simp_all
  have m: "min (from_paise D) (from_paise (rd_discount r)) = from_paise D"
    using from_paise_mono [of D "rd_discount r"] d by simp
  have rp: "roundPaise (from_paise D) = from_paise D" using paise_of_from [of D] d D by (simp add: roundPaise_from)
  have ok: "paise_ok D" "paise_ok (rd_discount r)" using R d D(2) by (simp_all add: paise_ok_def)
  have lt: "from_paise D < from_paise (rd_discount r)" using from_paise_less [OF ok] d(1) by simp
  have hp: "\<not> \<bar>fsub (from_paise D) (from_paise (rd_discount r))\<bar> < fl (5 / 1000)"
    using half_paisa [OF D(2) d(1) R(2)] .
  have s: "snapshots (shrink_redemption ride D db) = snapshots db" by (simp add: shrink_redemption_def split: option.split)
  show ?thesis using False snap f v eq D(1) m rp lt hp to_from_paise [OF ok(1)] s
    by (simp add: finaliseDiscount_def Let_def upd_where_def)
qed

text \<open>
  Re-deriving the discount of a ride whose fare changed never raises it above what was
  reserved, keeps the fare snapshot and the redemption in agreement, and is idempotent: a second
  call (a double tap, the sweep racing the end of the ride) returns the same amount and changes nothing.
\<close>

theorem finalise_shrinks_and_is_idempotent:
  assumes L: "ledger [] db" and snap: "snapshots db ride = Some row"
    and r: "r \<in> set (redemptions db)" "rd_ride r = ride" "is_live (rd_status r)" "rd_version r < length (versions db)"
    and eq: "fs_discount row = rd_discount r" and R: "rd_discount r \<le> 900000000"
  shows "\<exists>D db'. finaliseDiscount pct ride db = (from_paise D, db') \<and> 0 \<le> D \<and> D \<le> rd_discount r
     \<and> snapshots db' ride = Some (row\<lparr>fs_discount := D\<rparr>)
     \<and> live_on ride (redemptions db') = [r\<lparr>rd_discount := D\<rparr>]
     \<and> finaliseDiscount pct ride db' = (from_paise D, db')"
proof -
  have "r \<in> set (live_on ride (redemptions db))" using r by (simp add: live_on_def)
  then have lone: "live_on ride (redemptions db) = [r]"
    using ledgerD(3) [OF L, of ride] by (cases "live_on ride (redemptions db)") auto
  have f: "find (\<lambda>r. rd_ride r = ride \<and> is_live (rd_status r)) (redemptions db) = Some r"
    using lone by (simp add: live_on_def find_filter)
  have R0: "0 \<le> rd_discount r" using ledgerD(4) [OF L r(1)] by (simp add: red_ok_def)
  obtain D where D: "fst (computeBenefit (vr_benefit (versions db ! rd_version r)) (scaled_fare row) (Some (effective_cap pct))) = from_paise D" "0 \<le> D"
    using derived_paise by blast
  note fc = finalise_cases [OF snap f r(4) eq R0 R D]
  show ?thesis
  proof (cases "rd_discount r \<le> D")
    case True
    have "row\<lparr>fs_discount := rd_discount r\<rparr> = row" using eq by (cases row) simp
    then show ?thesis using fc True R0 snap lone by (intro exI [of _ "rd_discount r"] exI [of _ db]) simp
  next
    case False
    then have lt: "D < rd_discount r" by simp
    have f2: "find (\<lambda>r. rd_ride r = ride \<and> is_live (rd_status r) \<and> D < rd_discount r) (redemptions db) = Some r"
      using f lt lone by (auto simp: find_Some_iff)
    let ?r' = "r\<lparr>rd_discount := D\<rparr>"
    obtain xs ys where s: "redemptions db = xs @ r # ys" "redemptions (shrink_redemption ride D db) = xs @ ?r' # ys"
      "live_on ride xs = []" "live_on ride ys = []"
      by (rule split_live [OF ledgerD(3) [OF L, of ride] f2])
        (use f2 in \<open>auto simp: shrink_redemption_def live_on_def filter_empty_conv\<close>)
    define db' where "db' = (shrink_redemption ride D db)\<lparr>snapshots := (snapshots db)(ride \<mapsto> row\<lparr>fs_discount := D\<rparr>)\<rparr>"
    have live': "live_on ride (redemptions db') = [?r']"
      using s r(2,3) by (simp add: db'_def live_on_def)
    have f': "find (\<lambda>r. rd_ride r = ride \<and> is_live (rd_status r)) (redemptions db') = Some ?r'"
      using live' by (simp add: live_on_def find_filter)
    have vs: "versions db' = versions db" by (simp add: db'_def shrink_redemption_def split: option.split)
    have snap': "snapshots db' ride = Some (row\<lparr>fs_discount := D\<rparr>)" by (simp add: db'_def)
    have sf: "scaled_fare (row\<lparr>fs_discount := D\<rparr>) = scaled_fare row" by (simp add: scaled_fare_def)
    have "finaliseDiscount pct ride db' = (from_paise D, db')"
      using finalise_cases [OF snap' f', of pct D] r(4) D R lt vs sf by simp
    then show ?thesis using fc False lt D(2) snap' live' unfolding db'_def [symmetric]
      by (intro exI [of _ D] exI [of _ db']) simp
  qed
qed

definition demo_redemption :: redemption where
  "demo_redemption = \<lparr>rd_offer = 1, rd_version = 0, rd_user = 8, rd_ride = 5, rd_status = Reserved, rd_discount = 4540,
     rd_cashback = 0, rd_reason = None\<rparr>"

definition demo_snapshot :: snapshot_row where
  "demo_snapshot = \<lparr>fs_base = 15400, fs_distance = 30000, fs_time = 0, fs_stop = 0, fs_hour = 0, fs_surge = 0, fs_waiting = None,
     fs_overage = None, fs_estimated = 45400, fs_final = Some 40000, fs_discount = 4540\<rparr>"

definition demo_discounted :: offer_db where
  "demo_discounted = \<lparr>offers = [1 \<mapsto> \<lparr>or_code = None, or_kind = AutoOffer, or_status = Active, or_budget_total = Some 50000,
       or_budget_spent = 4540, or_global_limit = None, or_count = 1, or_starts = None, or_ends = None, or_current = 0\<rparr>],
     versions = [\<lparr>vr_offer = 1, vr_number = 1, vr_rules = [], vr_benefit = PercentOff 10 None None, vr_per_user = None\<rparr>],
     redemptions = [demo_redemption], user_usage = [(1, 8) \<mapsto> 1], snapshots = [5 \<mapsto> demo_snapshot], next_offer = 2\<rparr>"

lemma demo_discounted_ledger: "ledger [] demo_discounted"
  by (rule ledgerI)
    (auto simp: demo_discounted_def demo_redemption_def redemption_row_ok_def red_ok_def list_views spend_of_def is_live_def due_spend_def due_count_def due_uses_def split: if_splits)

lemma finalise_shrinks_and_is_idempotent_witness:
  "\<exists>D db'. finaliseDiscount (Some 15) 5 demo_discounted = (from_paise D, db') \<and> 0 \<le> D \<and> D \<le> 4540
     \<and> finaliseDiscount (Some 15) 5 db' = (from_paise D, db')"
proof -
  have "snapshots demo_discounted 5 = Some demo_snapshot" "demo_redemption \<in> set (redemptions demo_discounted)"
    "rd_ride demo_redemption = 5" "is_live (rd_status demo_redemption)" "rd_version demo_redemption < length (versions demo_discounted)"
    "fs_discount demo_snapshot = rd_discount demo_redemption" "rd_discount demo_redemption \<le> 900000000"
    by (simp_all add: demo_discounted_def demo_redemption_def demo_snapshot_def is_live_def)
  from finalise_shrinks_and_is_idempotent [OF demo_discounted_ledger this, of "Some 15"]
  show ?thesis by (auto simp: demo_redemption_def)
qed

end
