(* ===== verification/RideCore.thy ===== *)
theory RideCore
  imports Offers Claims
begin

text \<open>
  The tables of a ride, and every statement of \<open>rides.repository.ts\<close> that changes one:
  rides (with the status trigger and the two unique indexes of migration 109), offers to drivers
  (\<open>ride_assignments\<close>), driver sessions, the availability flag of \<open>driver_location_snapshots\<close> and
  the status history. A function is one statement or one transaction; \<open>Inl\<close> is an exception of the
  database, after which the tables are as before. Ids are positions in the table, timestamps
  are milliseconds. The lemmas show that every statement keeps \<open>rides_inv\<close>.
\<close>

subsection \<open>Statuses\<close>

datatype ride_status = Scheduled | Requested | Accepted | DriverArrived | InProgress | Returning | Completed | Cancelled | NoDrivers

definition legal_edges :: "(ride_status \<times> ride_status) list" where
  "legal_edges = [(Scheduled, Requested), (Scheduled, Cancelled), (Requested, Accepted), (Requested, Cancelled), (Requested, NoDrivers),
     (NoDrivers, Requested), (NoDrivers, Cancelled), (Accepted, DriverArrived), (Accepted, Cancelled), (Accepted, Requested),
     (DriverArrived, InProgress), (DriverArrived, Cancelled), (DriverArrived, Requested), (InProgress, Returning),
     (InProgress, Completed), (InProgress, Cancelled), (Returning, Completed), (Returning, Cancelled)]"

text \<open>The trigger \<open>enforce_ride_status_transition\<close>: may the row go from the old to the new status?\<close>

definition transition_allowed :: "ride_status \<Rightarrow> ride_status \<Rightarrow> bool" where
  "transition_allowed old new \<longleftrightarrow> new = old \<or> (old, new) \<in> set legal_edges"

definition live :: "ride_status \<Rightarrow> bool" where
  "live st \<longleftrightarrow> st \<in> set [Accepted, DriverArrived, InProgress, Returning]"

definition terminal :: "ride_status \<Rightarrow> bool" where
  "terminal st \<longleftrightarrow> st = Completed \<or> st = Cancelled"

subsection \<open>Tables\<close>

record ride_row =
  rr_user :: nat
  rr_driver :: "nat option"
  rr_type :: ride_type
  rr_status :: ride_status
  rr_channel :: channel
  rr_category :: nat
  rr_city :: "nat option"
  rr_origin :: "num \<times> num"
  rr_dest :: "(num \<times> num) option"
  rr_scheduled :: "int option"
  rr_updated :: int
  rr_accepted :: "int option"
  rr_arrived :: "int option"
  rr_drop :: "int option"
  rr_started :: "int option"
  rr_return :: "int option"
  rr_completed :: "int option"
  rr_cancelled :: "int option"
  rr_start_hash :: "string option"
  rr_end_hash :: "string option"
  rr_billing :: "billing_mode option"
  rr_flagged :: "int option"
  rr_review :: "string option"
  rr_grace :: "string option"
  rr_actual_km :: "num option"
  rr_actual_min :: "num option"
  rr_cash_at :: "int option"
  rr_cash_amount :: "paise option"
  rr_cash_disc :: bool
  rr_cash_note :: "string option"

datatype assign_status = Offered | AcceptedOffer | Declined | Expired | CancelledOffer

record assignment =
  as_ride :: nat
  as_driver :: nat
  as_session :: nat
  as_status :: assign_status
  as_expires :: int
  as_round :: nat

datatype session_state = OnlineSession | OnTrip | OfflineSession
datatype drive_mode = StandardMode | ReturnCab

record session =
  se_driver :: nat
  se_vehicle :: nat
  se_category :: nat
  se_mode :: drive_mode
  se_status :: session_state
  se_trips :: nat
  se_reason :: "string option"

datatype actor = ByUser | ByDriver | BySystem | ByAdmin | ByCompletion | ByTimeout

record history_row =
  hi_ride :: nat
  hi_from :: "ride_status option"
  hi_to :: ride_status
  hi_actor :: actor
  hi_actor_id :: "nat option"

record ride_db =
  rides :: "ride_row list"
  assigns :: "assignment list"
  sessions :: "session list"
  available :: "nat \<rightharpoonup> bool"
  history :: "history_row list"
  driver_index :: bool
  user_index :: bool

definition ride_at :: "ride_db \<Rightarrow> nat \<Rightarrow> ride_row option" where
  "ride_at db i = (if i < length (rides db) then Some (rides db ! i) else None)"

definition exists_ride :: "ride_db \<Rightarrow> (nat \<Rightarrow> ride_row \<Rightarrow> bool) \<Rightarrow> bool" where
  "exists_ride db P = list_ex (\<lambda>i. P i (rides db ! i)) [0..<length (rides db)]"

subsection \<open>Writing a ride\<close>

definition live_immediate :: "ride_row \<Rightarrow> bool" where
  "live_immediate r \<longleftrightarrow> rr_scheduled r = None \<and> (rr_status r = Requested \<or> live (rr_status r))"

text \<open>
  The partial unique indexes: migration 109 builds each one only when the table has no duplicates
  yet, so a deployment may lack it.
\<close>

definition driver_index_clash :: "nat \<Rightarrow> ride_row \<Rightarrow> ride_db \<Rightarrow> bool" where
  "driver_index_clash i r db \<longleftrightarrow> driver_index db \<and> rr_driver r \<noteq> None \<and> live (rr_status r)
     \<and> exists_ride db (\<lambda>j s. j \<noteq> i \<and> rr_driver s = rr_driver r \<and> live (rr_status s))"

definition user_index_clash :: "nat \<Rightarrow> ride_row \<Rightarrow> ride_db \<Rightarrow> bool" where
  "user_index_clash i r db \<longleftrightarrow> user_index db \<and> live_immediate r
     \<and> exists_ride db (\<lambda>j s. j \<noteq> i \<and> rr_user s = rr_user r \<and> live_immediate s)"

definition ride_error :: app_error where "ride_error = http_err 500 ''''"

text \<open>\<open>UPDATE rides SET f WHERE id = i AND p RETURNING *\<close>, with the triggers and the indexes.\<close>

definition ride_write :: "int \<Rightarrow> nat \<Rightarrow> (ride_row \<Rightarrow> bool) \<Rightarrow> (ride_row \<Rightarrow> ride_row) \<Rightarrow> ride_db \<Rightarrow> ride_row option res \<times> ride_db" where
  "ride_write now i p f db = (case ride_at db i of None \<Rightarrow> (Inr None, db)
     | Some r \<Rightarrow>
         if \<not> p r then (Inr None, db)
         else let r' = (f r)\<lparr>rr_updated := now\<rparr> in
           if \<not> transition_allowed (rr_status r) (rr_status r') then (Inl ride_error, db)
           else if driver_index_clash i r' db \<or> user_index_clash i r' db then (Inl ride_error, db)
           else (Inr (Some r'), db\<lparr>rides := (rides db)[i := r']\<rparr>))"

definition updateRideStatusCAS :: "int \<Rightarrow> nat \<Rightarrow> ride_status list \<Rightarrow> ride_status \<Rightarrow> (ride_row \<Rightarrow> ride_row) \<Rightarrow> ride_db \<Rightarrow> ride_row option res \<times> ride_db" where
  "updateRideStatusCAS now i expected new upd db =
     ride_write now i (\<lambda>r. rr_status r \<in> set expected) (\<lambda>r. upd (r\<lparr>rr_status := new\<rparr>)) db"

definition logStatusHistory :: "nat \<Rightarrow> ride_status option \<Rightarrow> ride_status \<Rightarrow> actor \<Rightarrow> nat option \<Rightarrow> ride_db \<Rightarrow> ride_db" where
  "logStatusHistory i from_st to_st who who_id db = db\<lparr>history := history db @
     [\<lparr>hi_ride = i, hi_from = from_st, hi_to = to_st, hi_actor = who, hi_actor_id = who_id\<rparr>]\<rparr>"

record ride_input =
  ri_user :: nat
  ri_category :: nat
  ri_type :: ride_type
  ri_origin :: "num \<times> num"
  ri_dest :: "(num \<times> num) option"
  ri_city :: "nat option"
  ri_scheduled :: "int option"
  ri_status :: "ride_status option"
  ri_channel :: channel

definition inserted_ride :: "int \<Rightarrow> ride_input \<Rightarrow> ride_row" where
  "inserted_ride now d = \<lparr>rr_user = ri_user d, rr_driver = None, rr_type = ri_type d, rr_status = coalesce (ri_status d) Requested,
     rr_channel = ri_channel d, rr_category = ri_category d, rr_city = ri_city d, rr_origin = ri_origin d, rr_dest = ri_dest d,
     rr_scheduled = ri_scheduled d, rr_updated = now, rr_accepted = None, rr_arrived = None, rr_drop = None, rr_started = None,
     rr_return = None, rr_completed = None, rr_cancelled = None, rr_start_hash = None, rr_end_hash = None, rr_billing = None,
     rr_flagged = None, rr_review = None, rr_grace = None, rr_actual_km = None, rr_actual_min = None, rr_cash_at = None,
     rr_cash_amount = None, rr_cash_disc = False, rr_cash_note = None\<rparr>"

definition createRide :: "int \<Rightarrow> ride_input \<Rightarrow> ride_db \<Rightarrow> nat res \<times> ride_db" where
  "createRide now d db =
     (let r = inserted_ride now d; i = length (rides db) in
      if driver_index_clash i r db \<or> user_index_clash i r db then (Inl ride_error, db)
      else (Inr i, db\<lparr>rides := rides db @ [r]\<rparr>))"

definition reissueStartOtpHash :: "int \<Rightarrow> nat \<Rightarrow> string \<Rightarrow> ride_db \<Rightarrow> bool res \<times> ride_db" where
  "reissueStartOtpHash now i h db =
     (case ride_write now i (\<lambda>r. rr_status r = DriverArrived) (\<lambda>r. r\<lparr>rr_start_hash := Some h\<rparr>) db of
        (Inl e, db) \<Rightarrow> (Inl e, db) | (Inr r, db) \<Rightarrow> (Inr (r \<noteq> None), db))"

definition updatePickup :: "int \<Rightarrow> nat \<Rightarrow> num \<times> num \<Rightarrow> ride_status list \<Rightarrow> ride_db \<Rightarrow> ride_row option res \<times> ride_db" where
  "updatePickup now i pos allowed db = ride_write now i (\<lambda>r. rr_status r \<in> set allowed) (\<lambda>r. r\<lparr>rr_origin := pos\<rparr>) db"

definition flagRideForReview :: "int \<Rightarrow> nat \<Rightarrow> string \<Rightarrow> ride_db \<Rightarrow> unit res \<times> ride_db" where
  "flagRideForReview now i why db =
     (case ride_write now i (\<lambda>r. rr_flagged r = None) (\<lambda>r. r\<lparr>rr_flagged := Some now, rr_review := Some why\<rparr>) db of
        (Inl e, db) \<Rightarrow> (Inl e, db) | (Inr _, db) \<Rightarrow> (Inr (), db))"

subsection \<open>Offers to drivers\<close>

definition createRideAssignment :: "nat \<Rightarrow> nat \<Rightarrow> nat \<Rightarrow> int \<Rightarrow> nat \<Rightarrow> ride_db \<Rightarrow> ride_db" where
  "createRideAssignment i d sid expires rnd db =
     (if list_ex (\<lambda>a. as_ride a = i \<and> as_driver a = d) (assigns db) then
        db\<lparr>assigns := map (\<lambda>a. if as_ride a = i \<and> as_driver a = d
              \<and> as_status a \<in> set [Offered, Declined, Expired, CancelledOffer]
              \<and> (case ride_at db i of Some r \<Rightarrow> rr_status r = Requested | None \<Rightarrow> False)
            then a\<lparr>as_status := Offered, as_expires := expires, as_session := sid, as_round := rnd\<rparr> else a) (assigns db)\<rparr>
      else db\<lparr>assigns := assigns db @ [\<lparr>as_ride = i, as_driver = d, as_session = sid, as_status = Offered,
            as_expires = expires, as_round = rnd\<rparr>]\<rparr>)"

definition open_offer :: "int \<Rightarrow> nat \<Rightarrow> nat \<Rightarrow> ride_db \<Rightarrow> bool" where
  "open_offer now i d db \<longleftrightarrow>
     list_ex (\<lambda>a. as_ride a = i \<and> as_driver a = d \<and> as_status a = Offered \<and> now - 5000 < as_expires a) (assigns db)"

definition driver_busy :: "nat \<Rightarrow> nat \<Rightarrow> ride_db \<Rightarrow> bool" where
  "driver_busy i d db \<longleftrightarrow> exists_ride db (\<lambda>j s. rr_driver s = Some d \<and> j \<noteq> i \<and> live (rr_status s))"

definition cancel_offers :: "(assignment \<Rightarrow> bool) \<Rightarrow> assignment list \<Rightarrow> assignment list" where
  "cancel_offers p = map (\<lambda>a. if p a \<and> as_status a = Offered then a\<lparr>as_status := CancelledOffer\<rparr> else a)"

definition set_available :: "nat \<Rightarrow> bool \<Rightarrow> ride_db \<Rightarrow> ride_db" where
  "set_available d v db = db\<lparr>available := fst (upd_where (available db) d (\<lambda>_. True) (\<lambda>_. v))\<rparr>"

text \<open>
  \<open>Inr None\<close> is \<open>false\<close> (the ride is gone); otherwise the drivers whose offer was cancelled. The row of the ride is locked, so acceptances of
  one ride come one after another. That two acceptances of one driver for different rides do so too is what the index of migration 109
  is for: where it could not be built, the search for another live ride of the driver is taken to see every acceptance before this one.
\<close>

definition acceptAssignment :: "int \<Rightarrow> nat \<Rightarrow> nat \<Rightarrow> billing_mode \<Rightarrow> ride_db \<Rightarrow> nat list option res \<times> ride_db" where
  "acceptAssignment now i d mode db =
     (case ride_write now i (\<lambda>r. rr_status r = Requested \<and> open_offer now i d db \<and> \<not> driver_busy i d db)
         (\<lambda>r. r\<lparr>rr_status := Accepted, rr_driver := Some d, rr_accepted := Some now, rr_billing := Some mode\<rparr>) db of
        (Inl e, db) \<Rightarrow> (Inl e, db)
      | (Inr None, db) \<Rightarrow> (Inr None, db)
      | (Inr (Some r), db) \<Rightarrow>
          let lost = map as_driver (filter (\<lambda>a. as_ride a = i \<and> as_driver a \<noteq> d \<and> as_status a = Offered) (assigns db));
              rows = cancel_offers (\<lambda>a. as_ride a = i \<and> as_driver a \<noteq> d) (assigns db);
              rows = cancel_offers (\<lambda>a. as_driver a = d \<and> as_ride a \<noteq> i) rows;
              rows = map (\<lambda>a. if as_ride a = i \<and> as_driver a = d then a\<lparr>as_status := AcceptedOffer\<rparr> else a) rows;
              db = db\<lparr>assigns := rows\<rparr>
          in (Inr (Some lost),
              case find (\<lambda>k. se_driver (sessions db ! k) = d \<and> se_status (sessions db ! k) = OnlineSession) [0..<length (sessions db)] of
                None \<Rightarrow> db
              | Some k \<Rightarrow> set_available d False (db\<lparr>sessions := (sessions db)[k := (sessions db ! k)\<lparr>se_status := OnTrip\<rparr>]\<rparr>)))"

definition cancelAllAssignments :: "nat \<Rightarrow> ride_db \<Rightarrow> nat list \<times> ride_db" where
  "cancelAllAssignments i db =
     (map as_driver (filter (\<lambda>a. as_ride a = i \<and> as_status a = Offered) (assigns db)),
      db\<lparr>assigns := cancel_offers (\<lambda>a. as_ride a = i) (assigns db)\<rparr>)"

definition expireAssignment :: "nat \<Rightarrow> nat \<Rightarrow> ride_db \<Rightarrow> ride_db" where
  "expireAssignment i d db = db\<lparr>assigns := map (\<lambda>a. if as_ride a = i \<and> as_driver a = d \<and> as_status a = Offered
     then a\<lparr>as_status := Expired\<rparr> else a) (assigns db)\<rparr>"

definition expireLapsedOffers :: "int \<Rightarrow> nat \<Rightarrow> ride_db \<Rightarrow> ride_db" where
  "expireLapsedOffers now i db = db\<lparr>assigns := map (\<lambda>a. if as_ride a = i \<and> as_status a = Offered \<and> as_expires a < now
     then a\<lparr>as_status := Expired\<rparr> else a) (assigns db)\<rparr>"

definition declineAssignment :: "nat \<Rightarrow> nat \<Rightarrow> ride_db \<Rightarrow> ride_db" where
  "declineAssignment i d db = db\<lparr>assigns := map (\<lambda>a. if as_ride a = i \<and> as_driver a = d \<and> as_status a = Offered
     then a\<lparr>as_status := Declined\<rparr> else a) (assigns db)\<rparr>"

subsection \<open>Sessions\<close>

definition active :: "session \<Rightarrow> bool" where
  "active s \<longleftrightarrow> se_status s = OnlineSession \<or> se_status s = OnTrip"

definition getActiveSession :: "nat \<Rightarrow> ride_db \<Rightarrow> (nat \<times> session) option" where
  "getActiveSession d db = map_option (\<lambda>k. (k, sessions db ! k))
     (find (\<lambda>k. se_driver (sessions db ! k) = d \<and> active (sessions db ! k)) [0..<length (sessions db)])"

text \<open>The index \<open>driver_sessions_one_active_idx\<close> refuses a second active session of a driver.\<close>

definition createSession :: "nat \<Rightarrow> nat \<Rightarrow> nat \<Rightarrow> drive_mode \<Rightarrow> ride_db \<Rightarrow> nat res \<times> ride_db" where
  "createSession d v c m db =
     (if list_ex (\<lambda>s. se_driver s = d \<and> active s) (sessions db) then (Inl ride_error, db)
      else (Inr (length (sessions db)), db\<lparr>sessions := sessions db @
        [\<lparr>se_driver = d, se_vehicle = v, se_category = c, se_mode = m, se_status = OnlineSession, se_trips = 0, se_reason = None\<rparr>]\<rparr>))"

definition endSession :: "nat \<Rightarrow> string \<Rightarrow> ride_db \<Rightarrow> ride_db" where
  "endSession k why db = db\<lparr>sessions := (if k < length (sessions db)
     then (sessions db)[k := (sessions db ! k)\<lparr>se_status := OfflineSession, se_reason := Some why\<rparr>] else sessions db)\<rparr>"

text \<open>
  \<open>UPDATE driver_sessions SET status = 'online' [, trips_completed + n] WHERE driver_id = d AND status =
  'on_trip'\<close> and \<open>is_available = true\<close>: what every end of a trip does for its driver.
\<close>

definition free_driver :: "nat \<Rightarrow> nat \<Rightarrow> ride_db \<Rightarrow> ride_db" where
  "free_driver trips d db = set_available d True (db\<lparr>sessions := map (\<lambda>s. if se_driver s = d \<and> se_status s = OnTrip
     then s\<lparr>se_status := OnlineSession, se_trips := se_trips s + trips\<rparr> else s) (sessions db)\<rparr>)"

definition revertForceAssign :: "int \<Rightarrow> nat \<Rightarrow> nat \<Rightarrow> ride_db \<Rightarrow> bool res \<times> ride_db" where
  "revertForceAssign now i d db =
     (case ride_write now i (\<lambda>r. rr_driver r = Some d \<and> rr_status r = Accepted)
         (\<lambda>r. r\<lparr>rr_status := Requested, rr_driver := None, rr_accepted := None, rr_grace := None\<rparr>) db of
        (Inl e, db) \<Rightarrow> (Inl e, db)
      | (Inr None, db) \<Rightarrow> (Inr False, db)
      | (Inr (Some r), db) \<Rightarrow> (Inr True, free_driver 0 d db))"

subsection \<open>The invariant of the rides\<close>

definition row_ok :: "ride_row \<Rightarrow> bool" where
  "row_ok r \<longleftrightarrow>
     (live (rr_status r) \<or> rr_status r = Completed \<longrightarrow> rr_driver r \<noteq> None \<and> rr_accepted r \<noteq> None \<and> rr_billing r \<noteq> None)
   \<and> (rr_status r \<in> {Scheduled, Requested, NoDrivers} \<longrightarrow> rr_driver r = None)
   \<and> (rr_status r \<in> {DriverArrived, InProgress, Returning, Completed} \<longrightarrow> rr_arrived r \<noteq> None \<and> rr_start_hash r \<noteq> None)
   \<and> (rr_status r \<in> {InProgress, Returning, Completed} \<longrightarrow> rr_started r \<noteq> None \<and> rr_end_hash r \<noteq> None)
   \<and> (rr_status r = Returning \<longrightarrow> rr_type r = round_trip)
   \<and> (rr_completed r \<noteq> None \<longleftrightarrow> rr_status r = Completed)
   \<and> (rr_cancelled r \<noteq> None \<longleftrightarrow> rr_status r = Cancelled)
   \<and> (rr_cash_at r \<noteq> None \<longrightarrow> rr_status r = Completed)"

definition rides_inv :: "ride_db \<Rightarrow> bool" where
  "rides_inv db \<longleftrightarrow> (\<forall>i r. ride_at db i = Some r \<longrightarrow> row_ok r)
     \<and> (\<forall>i j r s d. ride_at db i = Some r \<longrightarrow> ride_at db j = Some s \<longrightarrow> live (rr_status r) \<longrightarrow> live (rr_status s)
          \<longrightarrow> rr_driver r = Some d \<longrightarrow> rr_driver s = Some d \<longrightarrow> i = j)
     \<and> (user_index db \<longrightarrow> (\<forall>i j r s. ride_at db i = Some r \<longrightarrow> ride_at db j = Some s \<longrightarrow> live_immediate r \<longrightarrow> live_immediate s
          \<longrightarrow> rr_user r = rr_user s \<longrightarrow> i = j))"

subsection \<open>Facts about writes\<close>

lemma ride_at_bound: "ride_at db i = Some r \<longleftrightarrow> i < length (rides db) \<and> r = rides db ! i"
  by (auto simp: ride_at_def)

lemma ride_at_same: "rides db' = rides db \<Longrightarrow> ride_at db' = ride_at db"
  by (rule ext) (simp add: ride_at_def)

lemma ride_at_set:
  "ride_at (db\<lparr>rides := (rides db)[i := r']\<rparr>) j = (if j = i \<and> i < length (rides db) then Some r' else ride_at db j)"
  by (auto simp: ride_at_def)

lemma ride_at_append:
  "ride_at (db\<lparr>rides := rides db @ [r]\<rparr>) j = (if j = length (rides db) then Some r else ride_at db j)"
  by (auto simp: ride_at_def nth_append)

lemma exists_ride_iff: "exists_ride db P \<longleftrightarrow> (\<exists>i r. ride_at db i = Some r \<and> P i r)"
  by (auto simp: exists_ride_def list_ex_iff ride_at_bound)

lemma ride_write_Some:
  "ride_write now i p f db = (Inr (Some r'), db') \<longleftrightarrow>
     (\<exists>r. ride_at db i = Some r \<and> p r \<and> r' = (f r)\<lparr>rr_updated := now\<rparr> \<and> transition_allowed (rr_status r) (rr_status (f r))
        \<and> \<not> driver_index_clash i r' db \<and> \<not> user_index_clash i r' db \<and> db' = db\<lparr>rides := (rides db)[i := r']\<rparr>)"
  by (auto simp: ride_write_def Let_def split: option.splits if_splits)

lemma ride_write_cases:
  obtains (error) e where "ride_write now i p f db = (Inl e, db)"
  | (missed) "ride_write now i p f db = (Inr None, db)"
  | (written) r where "ride_at db i = Some r" "p r" "transition_allowed (rr_status r) (rr_status (f r))"
      "ride_write now i p f db = (Inr (Some ((f r)\<lparr>rr_updated := now\<rparr>)), db\<lparr>rides := (rides db)[i := (f r)\<lparr>rr_updated := now\<rparr>]\<rparr>)"
      "\<not> user_index_clash i ((f r)\<lparr>rr_updated := now\<rparr>) db"
proof (cases "ride_write now i p f db")
  case (Pair res db')
  show thesis
  proof (cases res)
    case (Inl e)
    then have "db' = db" using Pair by (auto simp: ride_write_def Let_def split: option.splits if_splits)
    then show thesis using error Pair Inl by simp
  next
    case (Inr o')
    show thesis
    proof (cases o')
      case None
      then have "db' = db" using Pair Inr by (auto simp: ride_write_def Let_def split: option.splits if_splits)
      then show thesis using missed Pair Inr None by simp
    next
      case (Some r')
      then have W: "ride_write now i p f db = (Inr (Some r'), db')" using Pair Inr by simp
      then obtain r where r: "ride_at db i = Some r" "p r" "transition_allowed (rr_status r) (rr_status (f r))"
        and eq: "r' = (f r)\<lparr>rr_updated := now\<rparr>" "db' = db\<lparr>rides := (rides db)[i := r']\<rparr>" and "\<not> user_index_clash i r' db"
        unfolding ride_write_Some by blast
      from written [OF r] W this(6) show thesis unfolding eq by blast
    qed
  qed
qed

lemma rides_invD:
  assumes "rides_inv db" "ride_at db i = Some r"
  shows "row_ok r"
  using assms by (simp add: rides_inv_def)

lemma one_live:
  assumes "rides_inv db" "ride_at db i = Some r" "ride_at db j = Some s" "live (rr_status r)" "live (rr_status s)"
    "rr_driver r = Some d" "rr_driver s = Some d"
  shows "i = j"
  using assms unfolding rides_inv_def by blast

lemma rides_inv_same: "rides db' = rides db \<Longrightarrow> user_index db' = user_index db \<Longrightarrow> rides_inv db' \<longleftrightarrow> rides_inv db"
  unfolding rides_inv_def by (simp only: ride_at_same [of db' db])

text \<open>Replacing one row: what has to be shown of the new row.\<close>

lemma rides_inv_set:
  assumes inv: "rides_inv db" and r: "ride_at db i = Some r" and ok: "row_ok r'"
    and drv: "\<And>d j s. live (rr_status r') \<Longrightarrow> rr_driver r' = Some d \<Longrightarrow> j \<noteq> i \<Longrightarrow> ride_at db j = Some s
       \<Longrightarrow> live (rr_status s) \<Longrightarrow> rr_driver s \<noteq> Some d"
    and usr: "\<not> user_index_clash i r' db"
  shows "rides_inv (db\<lparr>rides := (rides db)[i := r']\<rparr>)"
proof -
  have i: "i < length (rides db)" using r by (simp add: ride_at_bound)
  define db' where "db' = db\<lparr>rides := (rides db)[i := r']\<rparr>"
  have set: "ride_at db' j = (if j = i then Some r' else ride_at db j)" for j
    using i by (simp add: db'_def ride_at_set)
  have ui: "user_index db' = user_index db" by (simp add: db'_def)
  show ?thesis unfolding db'_def [symmetric] rides_inv_def
  proof (intro conjI allI impI)
    fix j s assume "ride_at db' j = Some s"
    then show "row_ok s" using ok rides_invD [OF inv] by (auto simp: set split: if_splits)
  next
    fix j k s t d
    assume a: "ride_at db' j = Some s" "ride_at db' k = Some t"
      "live (rr_status s)" "live (rr_status t)" "rr_driver s = Some d" "rr_driver t = Some d"
    show "j = k"
    proof (cases "j = i"; cases "k = i")
      assume "j = i" "k \<noteq> i"
      then show ?thesis using a drv [of d k t] by (simp add: set)
    next
      assume "j \<noteq> i" "k = i"
      then show ?thesis using a drv [of d j s] by (simp add: set)
    next
      assume "j \<noteq> i" "k \<noteq> i"
      then show ?thesis using a one_live [OF inv] by (simp add: set)
    qed simp
  next
    fix j k s t
    assume ux: "user_index db'"
      and a: "ride_at db' j = Some s" "ride_at db' k = Some t"
      "live_immediate s" "live_immediate t" "rr_user s = rr_user t"
    have no: "\<not> (live_immediate r' \<and> j \<noteq> i \<and> ride_at db j = Some s \<and> rr_user s = rr_user r' \<and> live_immediate s)" for j s
      using usr ux unfolding user_index_clash_def exists_ride_iff ui by auto
    show "j = k"
    proof (cases "j = i"; cases "k = i")
      assume "j = i" "k \<noteq> i"
      then show ?thesis using a no [of k t] by (simp add: set)
    next
      assume "j \<noteq> i" "k = i"
      then show ?thesis using a no [of j s] by (simp add: set)
    next
      assume "j \<noteq> i" "k \<noteq> i"
      then show ?thesis using a inv ux unfolding rides_inv_def ui by (simp add: set)
    qed simp
  qed
qed

text \<open>A write that does not bring a ride to life, or move it to another driver, keeps the invariant.\<close>

lemma ride_write_inv:
  assumes inv: "rides_inv db"
    and row: "\<And>r. ride_at db i = Some r \<Longrightarrow> row_ok r \<Longrightarrow> p r \<Longrightarrow> transition_allowed (rr_status r) (rr_status (f r)) \<Longrightarrow>
        row_ok ((f r)\<lparr>rr_updated := now\<rparr>) \<and> (live (rr_status (f r)) \<longrightarrow> live (rr_status r) \<and> rr_driver (f r) = rr_driver r)"
  shows "rides_inv (snd (ride_write now i p f db))"
proof (cases rule: ride_write_cases [of now i p f db])
  case (written r)
  have f: "row_ok ((f r)\<lparr>rr_updated := now\<rparr>)" "live (rr_status (f r)) \<Longrightarrow> live (rr_status r) \<and> rr_driver (f r) = rr_driver r"
    using row [OF written(1) rides_invD [OF inv written(1)] written(2,3)] by auto
  have "rides_inv (db\<lparr>rides := (rides db)[i := (f r)\<lparr>rr_updated := now\<rparr>]\<rparr>)"
  proof (rule rides_inv_set [OF inv written(1) f(1) _ written(5)])
    fix d j s
    assume a: "live (rr_status ((f r)\<lparr>rr_updated := now\<rparr>))" "rr_driver ((f r)\<lparr>rr_updated := now\<rparr>) = Some d" "j \<noteq> i"
      "ride_at db j = Some s" "live (rr_status s)"
    show "rr_driver s \<noteq> Some d"
    proof
      assume "rr_driver s = Some d"
      then have "i = j" using f(2) a one_live [OF inv written(1) a(4)] by simp
      then show False using a(3) by simp
    qed
  qed
  then show ?thesis using written(4) by simp
qed (use inv in simp_all)

subsection \<open>The statements keep the invariant\<close>

lemmas status_simps = transition_allowed_def legal_edges_def live_def terminal_def

lemma ride_write_rest:
  "assigns (snd (ride_write now i p f db)) = assigns db" "sessions (snd (ride_write now i p f db)) = sessions db"
  "available (snd (ride_write now i p f db)) = available db" "history (snd (ride_write now i p f db)) = history db"
  "user_index (snd (ride_write now i p f db)) = user_index db" "driver_index (snd (ride_write now i p f db)) = driver_index db"
  by (cases rule: ride_write_cases [of now i p f db]; simp)+

lemma ride_write_length [simp]: "length (rides (snd (ride_write now i p f db))) = length (rides db)"
  by (cases rule: ride_write_cases [of now i p f db]) simp_all

lemma set_available_rides [simp]: "rides (set_available d v db) = rides db" "user_index (set_available d v db) = user_index db"
  by (simp_all add: set_available_def)

lemma free_driver_rides [simp]: "rides (free_driver n d db) = rides db" "user_index (free_driver n d db) = user_index db"
  by (simp_all add: free_driver_def)

lemma logStatusHistory_rides [simp]:
  "rides (logStatusHistory i a b c d db) = rides db" "user_index (logStatusHistory i a b c d db) = user_index db"
  by (simp_all add: logStatusHistory_def)

lemma rides_inv_simps [simp]:
  "rides_inv (free_driver n d db) = rides_inv db" "rides_inv (logStatusHistory i a b c d' db) = rides_inv db"
  "rides_inv (set_available d v db) = rides_inv db"
  by (rule rides_inv_same; simp)+

lemma ride_at_simps [simp]:
  "ride_at (free_driver n d db) = ride_at db" "ride_at (logStatusHistory i a b c d' db) = ride_at db"
  "ride_at (set_available d v db) = ride_at db"
  by (rule ride_at_same; simp)+

text \<open>What is left of \<open>acceptAssignment\<close> and \<open>revertForceAssign\<close> when only the rides are of interest.\<close>

lemma acceptAssignment_write:
  fixes now i d mode db
  defines "w \<equiv> ride_write now i (\<lambda>r. rr_status r = Requested \<and> open_offer now i d db \<and> \<not> driver_busy i d db)
       (\<lambda>r. r\<lparr>rr_status := Accepted, rr_driver := Some d, rr_accepted := Some now, rr_billing := Some mode\<rparr>) db"
  shows "rides (snd (acceptAssignment now i d mode db)) = rides (snd w)"
    and "user_index (snd (acceptAssignment now i d mode db)) = user_index (snd w)"
    and "(\<exists>lost. fst (acceptAssignment now i d mode db) = Inr (Some lost)) \<longleftrightarrow> (\<exists>r. fst w = Inr (Some r))"
  unfolding acceptAssignment_def w_def [symmetric]
  by (cases w; cases "fst w"; auto simp: Let_def split: option.split)+

lemma revertForceAssign_write:
  fixes now i d db
  defines "w \<equiv> ride_write now i (\<lambda>r. rr_driver r = Some d \<and> rr_status r = Accepted)
       (\<lambda>r. r\<lparr>rr_status := Requested, rr_driver := None, rr_accepted := None, rr_grace := None\<rparr>) db"
  shows "rides (snd (revertForceAssign now i d db)) = rides (snd w)"
    and "user_index (snd (revertForceAssign now i d db)) = user_index (snd w)"
  unfolding revertForceAssign_def w_def [symmetric]
  by (cases w; cases "fst w"; auto split: option.split)+

lemma acceptAssignment_inv:
  assumes inv: "rides_inv db"
  shows "rides_inv (snd (acceptAssignment now i d mode db))"
proof -
  let ?p = "\<lambda>r. rr_status r = Requested \<and> open_offer now i d db \<and> \<not> driver_busy i d db"
  let ?f = "\<lambda>r. r\<lparr>rr_status := Accepted, rr_driver := Some d, rr_accepted := Some now, rr_billing := Some mode\<rparr>"
  have "rides_inv (snd (ride_write now i ?p ?f db))"
  proof (cases rule: ride_write_cases [of now i ?p ?f db])
    case (written r)
    have "rides_inv (db\<lparr>rides := (rides db)[i := (?f r)\<lparr>rr_updated := now\<rparr>]\<rparr>)"
    proof (rule rides_inv_set [OF inv written(1) _ _ written(5)])
      show "row_ok ((?f r)\<lparr>rr_updated := now\<rparr>)"
        using rides_invD [OF inv written(1)] written(2) by (auto simp: row_ok_def)
      fix e j s
      assume a: "rr_driver ((?f r)\<lparr>rr_updated := now\<rparr>) = Some e" "j \<noteq> i" "ride_at db j = Some s" "live (rr_status s)"
      then show "rr_driver s \<noteq> Some e"
        using written(2) unfolding driver_busy_def exists_ride_iff by auto
    qed
    then show ?thesis using written(4) by simp
  qed (use inv in simp_all)
  then show ?thesis using rides_inv_same [OF acceptAssignment_write(1,2)] by simp
qed

lemma revertForceAssign_inv:
  assumes "rides_inv db"
  shows "rides_inv (snd (revertForceAssign now i d db))"
proof -
  have "rides_inv (snd (ride_write now i (\<lambda>r. rr_driver r = Some d \<and> rr_status r = Accepted)
       (\<lambda>r. r\<lparr>rr_status := Requested, rr_driver := None, rr_accepted := None, rr_grace := None\<rparr>) db))"
    by (rule ride_write_inv [OF assms]) (auto simp: row_ok_def live_def)
  then show ?thesis using rides_inv_same [OF revertForceAssign_write] by simp
qed

lemma createRide_inv:
  assumes inv: "rides_inv db" and st: "coalesce (ri_status d) Requested \<in> {Scheduled, Requested}"
  shows "rides_inv (snd (createRide now d db))"
proof -
  define r where "r = inserted_ride now d"
  have r: "row_ok r" "\<not> live (rr_status r)"
    using st by (auto simp: r_def inserted_ride_def row_ok_def live_def)
  note createRide_def [of now d db, folded r_def, simp]
  show ?thesis
proof (cases "driver_index_clash (length (rides db)) r db \<or> user_index_clash (length (rides db)) r db")
  case False
  define db' where "db' = db\<lparr>rides := rides db @ [r]\<rparr>"
  have at: "ride_at db' j = (if j = length (rides db) then Some r else ride_at db j)" for j
    by (simp add: db'_def ride_at_append)
  have no: "ride_at db (length (rides db)) = None" by (simp add: ride_at_def)
  have ux: "user_index db' \<Longrightarrow> ride_at db j = Some s \<Longrightarrow> live_immediate s \<Longrightarrow> live_immediate r \<Longrightarrow> rr_user s \<noteq> rr_user r" for j s
  proof -
    assume a: "user_index db'" "ride_at db j = Some s" "live_immediate s" "live_immediate r"
    have "j \<noteq> length (rides db)" using a(2) no by auto
    then show "rr_user s \<noteq> rr_user r"
      using a False unfolding user_index_clash_def exists_ride_iff db'_def by auto
  qed
  have "rides_inv db'" unfolding rides_inv_def at
    using inv r ux ux [THEN not_sym] no unfolding rides_inv_def by (auto simp: db'_def split: if_splits)
  then show ?thesis using False by (simp add: Let_def db'_def)
  qed (use inv in \<open>simp add: Let_def\<close>)
qed

subsection \<open>Races\<close>

text \<open>A sequence of attempts to accept one ride, each at its own time: the drivers that win, and the state they leave.\<close>

fun accept_all :: "nat \<Rightarrow> (int \<times> nat \<times> billing_mode) list \<Rightarrow> ride_db \<Rightarrow> nat list \<times> ride_db" where
  "accept_all i [] db = ([], db)"
| "accept_all i ((now, d, mode) # xs) db =
     (case acceptAssignment now i d mode db of
        (Inr (Some lost), db') \<Rightarrow> (case accept_all i xs db' of (ds, db'') \<Rightarrow> (d # ds, db''))
      | (_, db') \<Rightarrow> accept_all i xs db')"

definition can_accept :: "nat \<Rightarrow> int \<times> nat \<times> billing_mode \<Rightarrow> ride_db \<Rightarrow> bool" where
  "can_accept i a db = (case a of (now, d, mode) \<Rightarrow>
     (\<exists>r. ride_at db i = Some r \<and> rr_status r = Requested) \<and> open_offer now i d db \<and> \<not> driver_busy i d db)"

lemma accept_needs_requested:
  assumes "\<forall>r. ride_at db i = Some r \<longrightarrow> rr_status r \<noteq> Requested"
  shows "acceptAssignment now i d mode db = (Inr None, db)"
  using assms by (auto simp: acceptAssignment_def ride_write_def split: option.split)

lemma accept_all_none:
  "\<forall>r. ride_at db i = Some r \<longrightarrow> rr_status r \<noteq> Requested \<Longrightarrow> accept_all i xs db = ([], db)"
  by (induction xs) (auto simp: accept_needs_requested)

lemma accept_takes:
  assumes "acceptAssignment now i d mode db = (Inr (Some lost), db')"
  shows "\<exists>r. ride_at db i = Some r \<and> rr_status r = Requested \<and> open_offer now i d db \<and> \<not> driver_busy i d db
    \<and> ride_at db' = (ride_at db)(i \<mapsto> r\<lparr>rr_status := Accepted, rr_driver := Some d, rr_accepted := Some now,
          rr_billing := Some mode, rr_updated := now\<rparr>)"
proof -
  let ?p = "\<lambda>r. rr_status r = Requested \<and> open_offer now i d db \<and> \<not> driver_busy i d db"
  let ?f = "\<lambda>r. r\<lparr>rr_status := Accepted, rr_driver := Some d, rr_accepted := Some now, rr_billing := Some mode\<rparr>"
  obtain r' where w: "fst (ride_write now i ?p ?f db) = Inr (Some r')"
    using acceptAssignment_write(3) [of now i d mode db] assms by auto
  show ?thesis
  proof (cases rule: ride_write_cases [of now i ?p ?f db])
    case (written r)
    have "rides db' = (rides db)[i := (?f r)\<lparr>rr_updated := now\<rparr>]"
      using acceptAssignment_write(1) [of now i d mode db] written(4) assms by simp
    moreover have "i < length (rides db)" using written(1) by (simp add: ride_at_bound)
    ultimately have "ride_at db' = (ride_at db)(i \<mapsto> (?f r)\<lparr>rr_updated := now\<rparr>)"
      by (auto simp: ride_at_def fun_eq_iff)
    then show ?thesis using written(1,2) by auto
  qed (use w in simp_all)
qed

lemma accept_no_clash:
  assumes inv: "rides_inv db" and r: "ride_at db i = Some r" "rr_status r = Requested" and "\<not> driver_busy i d db"
    and r': "rr_driver r' = Some d" "rr_status r' = Accepted" "rr_user r' = rr_user r" "rr_scheduled r' = rr_scheduled r"
  shows "\<not> driver_index_clash i r' db" "\<not> user_index_clash i r' db"
proof -
  show "\<not> driver_index_clash i r' db"
    using assms(4) r' unfolding driver_index_clash_def driver_busy_def exists_ride_iff by auto
  show "\<not> user_index_clash i r' db"
  proof
    assume "user_index_clash i r' db"
    then obtain j s where j: "user_index db" "live_immediate r'" "ride_at db j = Some s" "j \<noteq> i" "rr_user s = rr_user r" "live_immediate s"
      using r' unfolding user_index_clash_def exists_ride_iff by auto
    moreover have "live_immediate r" using j(2) r(2) r' by (simp add: live_immediate_def)
    ultimately show False using inv r(1) unfolding rides_inv_def by blast
  qed
qed

lemma accept_succeeds:
  assumes inv: "rides_inv db" and r: "ride_at db i = Some r" "rr_status r = Requested" "open_offer now i d db" "\<not> driver_busy i d db"
  shows "\<exists>lost db'. acceptAssignment now i d mode db = (Inr (Some lost), db')"
proof -
  let ?p = "\<lambda>r. rr_status r = Requested \<and> open_offer now i d db \<and> \<not> driver_busy i d db"
  let ?f = "\<lambda>r. r\<lparr>rr_status := Accepted, rr_driver := Some d, rr_accepted := Some now, rr_billing := Some mode\<rparr>"
  have "fst (ride_write now i ?p ?f db) = Inr (Some ((?f r)\<lparr>rr_updated := now\<rparr>))"
    using r accept_no_clash [OF inv r(1,2,4), of "(?f r)\<lparr>rr_updated := now\<rparr>"]
    by (simp add: ride_write_def Let_def transition_allowed_def legal_edges_def)
  then have "\<exists>lost. fst (acceptAssignment now i d mode db) = Inr (Some lost)"
    using acceptAssignment_write(3) [of now i d mode db] by blast
  then show ?thesis by (metis prod.collapse)
qed

text \<open>A refused acceptance leaves everything as it was; a granted one closes the offers of the ride.\<close>

lemma accept_refused:
  assumes "rides_inv db" "\<not> can_accept i (now, d, mode) db"
  shows "\<exists>res. acceptAssignment now i d mode db = (res, db) \<and> (\<forall>lost. res \<noteq> Inr (Some lost))"
proof -
  let ?p = "\<lambda>r. rr_status r = Requested \<and> open_offer now i d db \<and> \<not> driver_busy i d db"
  let ?f = "\<lambda>r. r\<lparr>rr_status := Accepted, rr_driver := Some d, rr_accepted := Some now, rr_billing := Some mode\<rparr>"
  show ?thesis
  proof (cases rule: ride_write_cases [of now i ?p ?f db])
    case (written r)
    then show ?thesis using assms(2) by (auto simp: can_accept_def)
  qed (simp_all add: acceptAssignment_def)
qed

definition offers_closed :: "nat \<Rightarrow> nat \<Rightarrow> ride_db \<Rightarrow> bool" where
  "offers_closed i d db \<longleftrightarrow> (\<forall>a \<in> set (assigns db). as_ride a = i \<longrightarrow> (if as_driver a = d then as_status a = AcceptedOffer else as_status a \<noteq> Offered))
     \<and> (\<forall>a \<in> set (assigns db). as_driver a = d \<longrightarrow> as_status a \<noteq> Offered)"

lemma accept_closes:
  assumes "acceptAssignment now i d mode db = (Inr (Some lost), db')"
  shows "offers_closed i d db'"
proof -
  let ?w = "ride_write now i (\<lambda>r. rr_status r = Requested \<and> open_offer now i d db \<and> \<not> driver_busy i d db)
         (\<lambda>r. r\<lparr>rr_status := Accepted, rr_driver := Some d, rr_accepted := Some now, rr_billing := Some mode\<rparr>) db"
  obtain r db1 where w: "?w = (Inr (Some r), db1)"
    using assms by (cases ?w; cases "fst ?w"; cases "projr (fst ?w)") (simp_all add: acceptAssignment_def)
  let ?rows = "map (\<lambda>a. if as_ride a = i \<and> as_driver a = d then a\<lparr>as_status := AcceptedOffer\<rparr> else a)
     (cancel_offers (\<lambda>a. as_driver a = d \<and> as_ride a \<noteq> i) (cancel_offers (\<lambda>a. as_ride a = i \<and> as_driver a \<noteq> d) (assigns db1)))"
  have "assigns (snd (acceptAssignment now i d mode db)) = ?rows"
    unfolding acceptAssignment_def w by (simp add: Let_def set_available_def split: option.split)
  then have "assigns db' = ?rows" using assms by simp
  moreover have "if as_ride a = i \<and> as_driver a = d then as_status a = AcceptedOffer else (as_ride a = i \<or> as_driver a = d \<longrightarrow> as_status a \<noteq> Offered)"
    if a: "a \<in> set ?rows" for a
    using a by (auto simp: cancel_offers_def)
  ultimately show ?thesis unfolding offers_closed_def by (metis assign_status.distinct(1))
qed

lemma accept_all_some:
  assumes inv: "rides_inv db"
  shows "find (\<lambda>a. can_accept i a db) attempts = Some (now, d, mode) \<Longrightarrow>
    (\<exists>lost. accept_all i attempts db = ([d], snd (acceptAssignment now i d mode db)) \<and> fst (acceptAssignment now i d mode db) = Inr (Some lost))"
proof (induction attempts)
  case (Cons a xs)
  obtain n e m where a: "a = (n, e, m)" by (cases a)
  show ?case
  proof (cases "can_accept i a db")
    case True
    then obtain lost db' where run: "acceptAssignment n i e m db = (Inr (Some lost), db')"
      using accept_succeeds [OF inv, of i _ n e m] by (auto simp: can_accept_def a)
    have "accept_all i xs db' = ([], db')" using accept_takes [OF run] by (intro accept_all_none) auto
    then show ?thesis using Cons.prems True run by (simp add: a)
  next
    case False
    then obtain res where "acceptAssignment n i e m db = (res, db)" "\<forall>lost. res \<noteq> Inr (Some lost)"
      using accept_refused [OF inv] a by blast
    then have "accept_all i (a # xs) db = accept_all i xs db" by (simp add: a split: sum.split option.split)
    then show ?thesis using Cons False by simp
  qed
qed simp

lemma accept_all_no:
  assumes inv: "rides_inv db"
  shows "find (\<lambda>a. can_accept i a db) attempts = None \<Longrightarrow> accept_all i attempts db = ([], db)"
proof (induction attempts)
  case (Cons a xs)
  obtain n e m where a: "a = (n, e, m)" by (cases a)
  have no: "\<not> can_accept i (n, e, m) db" using Cons.prems a by (auto split: if_splits)
  then obtain res where "acceptAssignment n i e m db = (res, db)" "\<forall>lost. res \<noteq> Inr (Some lost)"
    using accept_refused [OF inv] by blast
  then have "accept_all i (a # xs) db = accept_all i xs db" by (simp add: a split: sum.split option.split)
  then show ?case using Cons no a by simp
qed simp

text \<open>
  C6. A driver gets a ride exactly when it is still requested, the driver holds an offer for it that has not lapsed by more than five
  seconds, and the driver is on no other live ride; the unique indexes then never refuse the write. Of any number of drivers racing for
  a ride, whatever they hold and whenever their attempts arrive, exactly the first one that may have it wins: the ride is accepted and
  belongs to that driver, with the time and the billing mode of that attempt and all else as it was, the winner's offer is accepted, no
  other offer of the ride or of the winner stays open, and the losers change nothing. If nobody may have it, nothing changes.
\<close>

theorem accept_race:
  assumes "rides_inv db"
  shows "(\<exists>lost db'. acceptAssignment now i d mode db = (Inr (Some lost), db')) = can_accept i (now, d, mode) db
    \<and> (case find (\<lambda>a. can_accept i a db) attempts of
         None \<Rightarrow> accept_all i attempts db = ([], db)
       | Some (t, w, m) \<Rightarrow> \<exists>r db'. accept_all i attempts db = ([w], db') \<and> ride_at db i = Some r
           \<and> ride_at db' = (ride_at db)(i \<mapsto> r\<lparr>rr_status := Accepted, rr_driver := Some w, rr_accepted := Some t, rr_billing := Some m, rr_updated := t\<rparr>)
           \<and> offers_closed i w db')"
proof (intro conjI)
  show "(\<exists>lost db'. acceptAssignment now i d mode db = (Inr (Some lost), db')) = can_accept i (now, d, mode) db"
    using accept_succeeds [OF assms] accept_takes [of now i d mode db] unfolding can_accept_def by auto
  show "case find (\<lambda>a. can_accept i a db) attempts of None \<Rightarrow> accept_all i attempts db = ([], db)
       | Some (t, w, m) \<Rightarrow> \<exists>r db'. accept_all i attempts db = ([w], db') \<and> ride_at db i = Some r
           \<and> ride_at db' = (ride_at db)(i \<mapsto> r\<lparr>rr_status := Accepted, rr_driver := Some w, rr_accepted := Some t, rr_billing := Some m, rr_updated := t\<rparr>)
           \<and> offers_closed i w db'"
  proof (cases "find (\<lambda>a. can_accept i a db) attempts")
    case None
    then show ?thesis using accept_all_no [OF assms] by simp
  next
    case (Some a)
    obtain t w m where a: "a = (t, w, m)" by (cases a)
    obtain lost where all: "accept_all i attempts db = ([w], snd (acceptAssignment t i w m db))" and won: "fst (acceptAssignment t i w m db) = Inr (Some lost)"
      using accept_all_some [OF assms Some [unfolded a]] by blast
    then have run: "acceptAssignment t i w m db = (Inr (Some lost), snd (acceptAssignment t i w m db))" by (simp add: prod_eq_iff)
    show ?thesis using accept_takes [OF run] accept_closes [OF run] all unfolding Some a by auto
  qed
qed

definition demo_ride :: ride_row where
  "demo_ride = \<lparr>rr_user = 8, rr_driver = None, rr_type = one_way, rr_status = Requested, rr_channel = Cash, rr_category = 2, rr_city = Some 4,
     rr_origin = (20, 85), rr_dest = Some (21, 86), rr_scheduled = None, rr_updated = 0, rr_accepted = None, rr_arrived = None,
     rr_drop = None, rr_started = None, rr_return = None, rr_completed = None, rr_cancelled = None, rr_start_hash = None,
     rr_end_hash = None, rr_billing = None, rr_flagged = None, rr_review = None, rr_grace = None, rr_actual_km = None,
     rr_actual_min = None, rr_cash_at = None, rr_cash_amount = None, rr_cash_disc = False, rr_cash_note = None\<rparr>"

definition demo_rides :: ride_db where
  "demo_rides = \<lparr>rides = [demo_ride], assigns = [\<lparr>as_ride = 0, as_driver = 5, as_session = 0, as_status = Offered, as_expires = 9000, as_round = 1\<rparr>],
     sessions = [\<lparr>se_driver = 5, se_vehicle = 3, se_category = 2, se_mode = StandardMode, se_status = OnlineSession, se_trips = 0, se_reason = None\<rparr>],
     available = [5 \<mapsto> True], history = [], driver_index = True, user_index = True\<rparr>"

lemma demo_rides_inv: "rides_inv demo_rides"
proof -
  have "ride_at demo_rides i = Some r \<longleftrightarrow> i = 0 \<and> r = demo_ride" for i r
    by (auto simp: ride_at_def demo_rides_def)
  then show ?thesis by (simp add: rides_inv_def row_ok_def demo_ride_def live_def)
qed

lemma accept_race_witness:
  "\<exists>db'. accept_all 0 [(11000, 6, Commission), (12000, 5, Commission), (12001, 7, Commission)] demo_rides = ([5], db')
     \<and> (\<exists>r. ride_at db' 0 = Some r \<and> rr_driver r = Some 5)"
proof -
  have "\<not> can_accept 0 (11000, 6, Commission) demo_rides" "can_accept 0 (12000, 5, Commission) demo_rides"
    by (simp_all add: can_accept_def demo_rides_def demo_ride_def ride_at_def open_offer_def driver_busy_def exists_ride_def)
  then show ?thesis
    using accept_race [OF demo_rides_inv, of 12000 0 5 Commission "[(11000, 6, Commission), (12000, 5, Commission), (12001, 7, Commission)]"] by auto
qed

text \<open>The ends of a trip: a ride in progress is completed by whoever comes first.\<close>

definition on_trip :: "ride_db \<Rightarrow> nat \<Rightarrow> bool" where
  "on_trip db i \<longleftrightarrow> (case ride_at db i of Some r \<Rightarrow> rr_status r \<in> set [InProgress, Returning] | None \<Rightarrow> False)"

definition complete_cas :: "int \<Rightarrow> (ride_row \<Rightarrow> ride_row) \<Rightarrow> nat \<Rightarrow> ride_db \<Rightarrow> bool \<times> ride_db" where
  "complete_cas now upd i db =
     (case updateRideStatusCAS now i [InProgress, Returning] Completed (\<lambda>r. (upd r)\<lparr>rr_status := Completed\<rparr>) db of
        (Inr (Some r), db') \<Rightarrow> (True, db') | (_, db') \<Rightarrow> (False, db'))"

lemma complete_cas_eq:
  "complete_cas now upd i db =
     (case ride_at db i of
        None \<Rightarrow> (False, db)
      | Some r \<Rightarrow> if rr_status r \<in> set [InProgress, Returning]
          then (True, db\<lparr>rides := (rides db)[i := (upd (r\<lparr>rr_status := Completed\<rparr>))\<lparr>rr_status := Completed, rr_updated := now\<rparr>]\<rparr>)
          else (False, db))"
  by (auto simp: complete_cas_def updateRideStatusCAS_def ride_write_def Let_def driver_index_clash_def user_index_clash_def
      live_immediate_def status_simps split: option.split)

lemma complete_on_trip:
  "fst (complete_cas now upd i db) \<longleftrightarrow> on_trip db i"
  "on_trip (snd (complete_cas now upd i db)) j \<longleftrightarrow> j \<noteq> i \<and> on_trip db j"
proof -
  show "fst (complete_cas now upd i db) \<longleftrightarrow> on_trip db i"
    unfolding complete_cas_eq on_trip_def by (simp split: option.split)
  show "on_trip (snd (complete_cas now upd i db)) j \<longleftrightarrow> j \<noteq> i \<and> on_trip db j"
  proof (cases "ride_at db i")
    case (Some r)
    then have "i < length (rides db)" by (simp add: ride_at_bound)
    with Some show ?thesis unfolding complete_cas_eq on_trip_def by (cases "j = i") (simp_all add: ride_at_set)
  qed (auto simp: complete_cas_eq on_trip_def)
qed

interpretation completion: claim_once on_trip "complete_cas now upd"
  by unfold_locales (simp_all only: complete_on_trip, simp_all)

text \<open>
  A trip completes once: among any number of concurrent end-of-trip requests exactly one wins for
  every ride that is in progress, and none for any other ride.
\<close>

theorem trip_completes_once:
  "distinct (completion.wins now upd requests db)
   \<and> (\<forall>i. i \<in> set (completion.wins now upd requests db) \<longleftrightarrow> on_trip db i \<and> i \<in> set requests)"
  using completion.won_once completion.won_iff by blast

end
