(* ===== verification/Wallets.thy ===== *)
theory Wallets
  imports Pricing Claims
begin

text \<open>
  Wallets: the rider wallet, the driver's commission wallet and the driver's package wallet
  (\<open>payments.service.ts\<close>, \<open>packages.service.ts\<close>, and the cancellation fee of \<open>rides.service.ts\<close>).
  Each is a \<open>book\<close>: one row per owner and an append-only ledger. A function is one
  transaction; where the code rolls back, the book is returned as it was. The contract
  \<open>signed_book\<close> says that a balance always is the sum of its ledger lines.
\<close>

subsection \<open>Books\<close>

record wallet =
  wl_balance :: paise
  wl_frozen :: bool
  wl_in :: paise
  wl_out :: paise

datatype entry_kind = CommissionDebit | TopUp | AdjustCredit | AdjustDebit | Cashback | RideDebit
  | PackageTopUp | RideConsumption | AdminAdjust

record entry =
  en_owner :: nat
  en_kind :: entry_kind
  en_amount :: paise
  en_credit :: bool
  en_after :: paise
  en_ride :: "nat option"
  en_ref :: "string option"

record book =
  wallets :: "nat \<rightharpoonup> wallet"
  entries :: "entry list"

text \<open>What the tables check: is the balance kept non-negative, and the digits of the lifetime columns.\<close>

record book_checks =
  bc_nonneg :: bool
  bc_digits :: nat

definition user_checks :: book_checks where "user_checks = \<lparr>bc_nonneg = True, bc_digits = 12\<rparr>"
definition driver_checks :: book_checks where "driver_checks = \<lparr>bc_nonneg = False, bc_digits = 12\<rparr>"
definition package_checks :: book_checks where "package_checks = \<lparr>bc_nonneg = False, bc_digits = 14\<rparr>"

definition empty_wallet :: wallet where
  "empty_wallet = \<lparr>wl_balance = 0, wl_frozen = False, wl_in = 0, wl_out = 0\<rparr>"

definition balance :: "book \<Rightarrow> nat \<Rightarrow> paise" where
  "balance b i = (case wallets b i of Some w \<Rightarrow> wl_balance w | None \<Rightarrow> 0)"

text \<open>\<open>INSERT INTO wallets (owner, 0) ON CONFLICT DO NOTHING\<close>.\<close>

definition open_wallet :: "nat \<Rightarrow> book \<Rightarrow> book" where
  "open_wallet i b = (case wallets b i of Some w \<Rightarrow> b | None \<Rightarrow> b\<lparr>wallets := (wallets b)(i \<mapsto> empty_wallet)\<rparr>)"

text \<open>
  The pair of statements every movement ends with: the wallet gets its new balance and lifetime
  counters, and the ledger one line. \<open>None\<close> is a violated column type or \<open>CHECK\<close>.
\<close>

definition write_entry :: "book_checks \<Rightarrow> nat \<Rightarrow> entry_kind \<Rightarrow> bool \<Rightarrow> num \<Rightarrow> num \<Rightarrow> num \<Rightarrow> num \<Rightarrow> nat option \<Rightarrow> string option
    \<Rightarrow> book \<Rightarrow> book option" where
  "write_entry c i kind credit new_balance amount d_in d_out ride ref b =
     (case wallets b i of None \<Rightarrow> None
      | Some w \<Rightarrow>
          let w' = w\<lparr>wl_balance := to_paise new_balance, wl_in := wl_in w + to_paise d_in, wl_out := wl_out w + to_paise d_out\<rparr> in
          if numeric_fits 12 (wl_balance w') \<and> (bc_nonneg c \<longrightarrow> 0 \<le> wl_balance w')
            \<and> 0 \<le> wl_in w' \<and> numeric_fits (bc_digits c) (wl_in w') \<and> 0 \<le> wl_out w' \<and> numeric_fits (bc_digits c) (wl_out w')
            \<and> 0 < to_paise amount \<and> numeric_fits 12 (to_paise amount)
          then Some (b\<lparr>wallets := (wallets b)(i \<mapsto> w'),
             entries := entries b @ [\<lparr>en_owner = i, en_kind = kind, en_amount = to_paise amount, en_credit = credit,
               en_after = to_paise new_balance, en_ride = ride, en_ref = ref\<rparr>]\<rparr>)
          else None)"

definition commit_or_fail :: "'a \<Rightarrow> book option \<Rightarrow> book \<Rightarrow> 'a res \<times> book" where
  "commit_or_fail v r b = (case r of None \<Rightarrow> (Inl db_error, b) | Some b' \<Rightarrow> (Inr v, b'))"

subsection \<open>The rider wallet\<close>

definition cashback_amount :: "num \<Rightarrow> num \<Rightarrow> num" where
  "cashback_amount pct fare = fdiv (of_int (js_round (fmul fare pct))) 100"

definition creditCashback :: "num \<Rightarrow> nat \<Rightarrow> nat \<Rightarrow> num \<Rightarrow> book \<Rightarrow> unit res \<times> book" where
  "creditCashback pct ride user fare b =
     (let amt = cashback_amount pct fare in
      if amt \<le> 0 then (Inr (), b)
      else let b1 = open_wallet user b;
               new = round2 (fadd (from_paise (balance b1 user)) amt)
           in commit_or_fail () (write_entry user_checks user Cashback True new amt amt 0 (Some ride) None b1) b)"

definition ride_debited :: "nat \<Rightarrow> book \<Rightarrow> bool" where
  "ride_debited ride b \<longleftrightarrow> list_ex (\<lambda>e. en_ride e = Some ride \<and> en_kind e = RideDebit) (entries b)"

definition payFromUserWallet :: "nat \<Rightarrow> nat \<Rightarrow> num \<Rightarrow> book \<Rightarrow> bool res \<times> book" where
  "payFromUserWallet ride user amount b =
     (let b1 = open_wallet user b in
      if ride_debited ride b1 then (Inr True, b)
      else let bal = from_paise (balance b1 user) in
        if bal < amount then (Inr False, b)
        else commit_or_fail True
          (write_entry user_checks user RideDebit False (round2 (fsub bal amount)) amount 0 amount (Some ride) None b1) b)"

subsection \<open>The driver's commission wallet\<close>

definition deductCommission :: "num \<Rightarrow> nat \<Rightarrow> nat \<Rightarrow> paise option \<Rightarrow> book \<Rightarrow> num option res \<times> book" where
  "deductCommission minBalance ride driver payment b =
     (case payment of None \<Rightarrow> (Inr None, b)
      | Some k \<Rightarrow>
          let commission = from_paise k in
          if commission = 0 then (Inr None, b)
          else let b1 = open_wallet driver b;
                   current = from_paise (balance b1 driver);
                   new = round2 (fsub current commission)
               in commit_or_fail (if minBalance \<le> current \<and> new < minBalance then Some new else None)
                 (write_entry driver_checks driver CommissionDebit False new commission 0 commission (Some ride) None b1) b)"

definition topped_up :: "nat \<Rightarrow> string \<Rightarrow> book \<Rightarrow> bool" where
  "topped_up i ref b \<longleftrightarrow> list_ex (\<lambda>e. en_owner e = i \<and> en_ref e = Some ref) (entries b)"

definition topUpDriverWallet :: "nat \<Rightarrow> num \<Rightarrow> string \<Rightarrow> book \<Rightarrow> unit res \<times> book" where
  "topUpDriverWallet driver amount ref b =
     (let b1 = open_wallet driver b in
      if topped_up driver ref b1 then (Inr (), b)
      else let new = round2 (fadd (from_paise (balance b1 driver)) amount)
           in commit_or_fail () (write_entry driver_checks driver TopUp True new amount amount 0 None (Some ref) b1) b)"

text \<open>The split of a top-up the ledger note reports: dues cleared first, the remainder spendable.\<close>

definition topup_split :: "num \<Rightarrow> num \<Rightarrow> num \<times> num" where
  "topup_split prev amount =
     (let cleared = (if prev < 0 then min amount (- prev) else 0)
      in (cleared, round2 (fsub amount cleared)))"

subsection \<open>The driver's package wallet\<close>

definition consumePackageBalance :: "nat \<Rightarrow> nat \<Rightarrow> num \<Rightarrow> book \<Rightarrow> unit res \<times> book" where
  "consumePackageBalance ride driver fare b =
     (if fare \<le> 0 then (Inr (), b)
      else let b1 = open_wallet driver b;
               new = round2 (fsub (from_paise (balance b1 driver)) fare)
           in commit_or_fail () (write_entry package_checks driver RideConsumption False new fare 0 fare (Some ride) None b1) b)"

definition creditPackageBalance :: "nat \<Rightarrow> num \<Rightarrow> string \<Rightarrow> book \<Rightarrow> unit res \<times> book" where
  "creditPackageBalance driver threshold ref b =
     (if threshold \<le> 0 then (Inr (), b)
      else let b1 = open_wallet driver b in
        if topped_up driver ref b1 then (Inr (), b)
        else let new = round2 (fadd (from_paise (balance b1 driver)) threshold)
             in commit_or_fail () (write_entry package_checks driver PackageTopUp True new threshold threshold 0 None (Some ref) b1) b)"

definition adjustPackageBalance :: "nat \<Rightarrow> num \<Rightarrow> book \<Rightarrow> unit res \<times> book" where
  "adjustPackageBalance driver amount b =
     (if amount = 0 then (Inl db_error, b)
      else let b1 = open_wallet driver b;
               new = round2 (fadd (from_paise (balance b1 driver)) amount)
           in commit_or_fail () (write_entry package_checks driver AdminAdjust (0 \<le> amount) new \<bar>amount\<bar> 0 0 None None b1) b)"

subsection \<open>The cancellation fee\<close>

definition DRIVER_COMPENSATION_SHARE :: num where "DRIVER_COMPENSATION_SHARE = fl (7 / 10)"

definition readCancellationFee :: "rate_card_row list \<Rightarrow> nat \<Rightarrow> ride_type \<Rightarrow> nat option \<Rightarrow> num" where
  "readCancellationFee cards category ty city =
     (case order_limit1 (\<lambda>r. nulls_last (rc_city r))
        (filter (\<lambda>r. rc_category r = category \<and> rc_ride_type r = ty \<and> rc_effective_to r = None
            \<and> (rc_city r = None \<or> (city \<noteq> None \<and> rc_city r = city))) cards) of
        Some r \<Rightarrow> (case rc_cancellation_fee r of Some k \<Rightarrow> from_paise k | None \<Rightarrow> 0)
      | None \<Rightarrow> 0)"

definition compensation :: "num \<Rightarrow> num" where
  "compensation fee = fdiv (of_int (js_round (fmul (fmul fee DRIVER_COMPENSATION_SHARE) 100))) 100"

definition compensate_driver :: "nat \<Rightarrow> nat \<Rightarrow> num \<Rightarrow> book \<Rightarrow> book option" where
  "compensate_driver ride driver fee b =
     (let comp = compensation fee in
      if 0 < comp then
        let b1 = open_wallet driver b in
        if pred_option wl_frozen (wallets b1 driver) then Some b1
        else write_entry driver_checks driver AdjustCredit True (round2 (fadd (from_paise (balance b1 driver)) comp)) comp 0 0 (Some ride) None b1
      else Some b)"

text \<open>
  The fee, and the rider's and the driver's books after it; \<open>None\<close> aborts the transaction of the caller.
\<close>

definition chargeCancellationFee :: "num \<Rightarrow> nat \<Rightarrow> nat \<Rightarrow> nat option \<Rightarrow> book \<Rightarrow> book \<Rightarrow> (book \<times> book) option" where
  "chargeCancellationFee fee ride user driver ub db =
     (if 0 < fee then
        let ub1 = open_wallet user ub; bal = from_paise (balance ub1 user) in
        if fee \<le> bal then
          (case write_entry user_checks user AdjustDebit False (round2 (fsub bal fee)) fee 0 fee (Some ride) None ub1 of
             None \<Rightarrow> None
           | Some ub2 \<Rightarrow> (case driver of None \<Rightarrow> Some (ub2, db)
               | Some d \<Rightarrow> map_option (Pair ub2) (compensate_driver ride d fee db)))
        else Some (ub1, db)
      else Some (ub, db))"

subsection \<open>A balance is the sum of its ledger lines\<close>

definition signed :: "entry \<Rightarrow> paise" where
  "signed e = (if en_credit e then en_amount e else - en_amount e)"

definition book_total :: "nat \<Rightarrow> entry list \<Rightarrow> paise" where
  "book_total i es = sum_list (map signed (filter (\<lambda>e. en_owner e = i) es))"

fun running :: "entry list \<Rightarrow> bool" where
  "running [] \<longleftrightarrow> True"
| "running (e # es) \<longleftrightarrow> en_after e = signed e + book_total (en_owner e) es \<and> 0 < en_amount e \<and> running es"

definition book_ok :: "book_checks \<Rightarrow> book \<Rightarrow> bool" where
  "book_ok c b \<longleftrightarrow> (\<forall>i. balance b i = book_total i (entries b)) \<and> running (rev (entries b))
     \<and> (\<forall>i. numeric_fits 12 (balance b i) \<and> (bc_nonneg c \<longrightarrow> 0 \<le> balance b i))"

lemma book_total_simps [simp]:
  "book_total i [] = 0" "book_total i (es @ [e]) = book_total i es + (if en_owner e = i then signed e else 0)"
  by (simp_all add: book_total_def)

lemma book_total_rev: "book_total i (rev es) = book_total i es"
  by (simp add: book_total_def rev_filter [symmetric] rev_map [symmetric] sum_list_rev)

lemma fits_ok: "numeric_fits 12 k \<Longrightarrow> paise_ok k"
  by (simp add: numeric_fits_def paise_ok_def)

lemma balance_open [simp]: "balance (open_wallet i b) j = balance b j"
  by (auto simp: balance_def open_wallet_def empty_wallet_def split: option.split)

lemma entries_open [simp]: "entries (open_wallet i b) = entries b"
  by (simp add: open_wallet_def split: option.split)

lemma book_ok_open [simp]: "book_ok c (open_wallet i b) = book_ok c b"
  by (simp add: book_ok_def)

lemma book_okD:
  assumes "book_ok c b"
  shows "balance b i = book_total i (entries b)" "numeric_fits 12 (balance b i)" "bc_nonneg c \<Longrightarrow> 0 \<le> balance b i"
  using assms by (auto simp: book_ok_def)

text \<open>The line a movement writes when its new balance is computed from the old one.\<close>

lemma write_entry_Some:
  assumes w: "write_entry c i kind credit new amount x y ride ref b = Some b'"
  obtains e where "entries b' = entries b @ [e]" "en_owner e = i" "en_kind e = kind" "en_credit e = credit"
    "en_amount e = to_paise amount" "en_after e = to_paise new" "en_ride e = ride" "en_ref e = ref"
    "\<And>j. balance b' j = (if j = i then to_paise new else balance b j)"
    "numeric_fits 12 (to_paise new)" "bc_nonneg c \<Longrightarrow> 0 \<le> to_paise new" "0 < to_paise amount"
    "wallets b i \<noteq> None"
proof -
  obtain w0 where w0: "wallets b i = Some w0" using w by (auto simp: write_entry_def split: option.splits)
  show thesis
    by (rule that [of "\<lparr>en_owner = i, en_kind = kind, en_amount = to_paise amount, en_credit = credit,
            en_after = to_paise new, en_ride = ride, en_ref = ref\<rparr>"])
      (use w w0 in \<open>auto simp: write_entry_def Let_def balance_def split: if_splits\<close>)
qed

lemma write_entry_ok:
  assumes ok: "book_ok c b" and w: "write_entry c i kind credit new amount x y ride ref b = Some b'"
    and new: "to_paise new = balance b i + (if credit then to_paise amount else - to_paise amount)"
  shows "book_ok c b'"
proof -
  obtain e where e: "entries b' = entries b @ [e]" "en_owner e = i" "en_credit e = credit"
      "en_amount e = to_paise amount" "en_after e = to_paise new" "0 < to_paise amount"
      "\<And>j. balance b' j = (if j = i then to_paise new else balance b j)"
      "numeric_fits 12 (to_paise new)" "bc_nonneg c \<Longrightarrow> 0 \<le> to_paise new"
    using write_entry_Some [OF w] by metis
  have s: "signed e = (if credit then to_paise amount else - to_paise amount)" using e by (simp add: signed_def)
  show ?thesis unfolding book_ok_def
  proof (intro conjI allI)
    show "balance b' j = book_total j (entries b')" for j
      using e(1,2,7) s new book_okD(1) [OF ok] by simp
    show "running (rev (entries b'))"
      using e s new ok book_okD(1) [OF ok, of i] by (simp add: book_ok_def book_total_rev)
    show "numeric_fits 12 (balance b' j)" for j using e(7,8) book_okD(2) [OF ok] by simp
    show "bc_nonneg c \<longrightarrow> 0 \<le> balance b' j" for j using e(7,9) book_okD(3) [OF ok] by simp
  qed
qed

lemma to_paise_add:
  assumes "numeric_fits 12 a" "numeric_fits 12 k"
  shows "to_paise (round2 (fadd (from_paise a) (from_paise k))) = a + k"
    "to_paise (round2 (fsub (from_paise a) (from_paise k))) = a - k"
  using assms by (simp_all add: numeric_fits_def paise_ok_def money_simps)

lemma write_fits: "write_entry c i kind credit new amount x y ride ref b = Some b' \<Longrightarrow> numeric_fits 12 (to_paise amount)"
  by (auto simp: write_entry_def Let_def split: option.splits if_splits)

lemma credit_ok:
  assumes ok: "book_ok c b" and k: "paise_ok k"
    and w: "write_entry c i kind True (round2 (fadd (from_paise (balance b i)) (from_paise k))) (from_paise k) x y ride ref b = Some b'"
  shows "book_ok c b'"
  using write_entry_ok [OF ok w] to_paise_add(1) [OF book_okD(2) [OF ok, of i], of k] write_fits [OF w] to_from_paise [OF k] by simp

lemma debit_ok:
  assumes ok: "book_ok c b" and k: "paise_ok k"
    and w: "write_entry c i kind False (round2 (fsub (from_paise (balance b i)) (from_paise k))) (from_paise k) x y ride ref b = Some b'"
  shows "book_ok c b'"
  using write_entry_ok [OF ok w] to_paise_add(2) [OF book_okD(2) [OF ok, of i], of k] write_fits [OF w] to_from_paise [OF k] by simp

text \<open>An amount beyond the columns never fits them, so every amount a ledger accepted is exact.\<close>

lemma round_away_error: "\<bar>of_int (round_away y) - y\<bar> \<le> 1 / 2"
proof (cases "0 \<le> y")
  case True
  then show ?thesis using floor_correct [of "y + 1 / 2"] unfolding round_away_def by (simp only: if_True) linarith
next
  case False
  then show ?thesis using floor_correct [of "- y + 1 / 2"] unfolding round_away_def by (simp only: if_False of_int_minus) linarith
qed

lemma huge_never_fits:
  assumes "10 ^ 12 \<le> \<bar>x\<bar>"
  shows "\<not> numeric_fits 12 (to_paise x)"
proof
  assume "numeric_fits 12 (to_paise x)"
  then have "\<bar>to_paise x\<bar> \<le> 10 ^ 12" by (simp add: numeric_fits_def)
  then have "of_int \<bar>to_paise x\<bar> \<le> (10 ^ 12 :: rat)" using of_int_le_iff [of "\<bar>to_paise x\<bar>" "10 ^ 12", where 'a = rat] by simp
  then have t: "\<bar>of_int (to_paise x) :: rat\<bar> \<le> 10 ^ 12" by simp
  have "\<bar>of_int (to_paise x) - 100 * js_decimal x\<bar> \<le> 1 / 2" unfolding to_paise_def by (rule round_away_error)
  moreover have "\<bar>c\<bar> \<le> 100000000000" if "\<bar>b\<bar> \<le> 1000000000000" "\<bar>b - 100 * c\<bar> \<le> 1 / 2" for b c :: rat
    using that by linarith
  ultimately have d: "\<bar>js_decimal x\<bar> \<le> 10 ^ 11" using t by simp
  have "\<bar>js_decimal x - x\<bar> * 2 ^ 53 \<le> \<bar>js_decimal x\<bar>" using js_decimal_error [of x] by (simp add: le_divide_eq)
  then have "\<bar>js_decimal x - x\<bar> \<le> 1" using d by simp
  with d assms show False by simp
qed

lemma huge_paise: "\<not> paise_ok k \<Longrightarrow> \<not> numeric_fits 12 (to_paise (from_paise k))"
proof (rule huge_never_fits)
  assume "\<not> paise_ok k"
  then have k: "10 ^ 14 \<le> \<bar>k\<bar>" by (simp add: paise_ok_def)
  have ten: "from_paise (10 ^ 14) = 10 ^ 12" using fl_int [of "10 ^ 12"] by (simp add: from_paise_def)
  show "10 ^ 12 \<le> \<bar>from_paise k\<bar>"
  proof (cases "0 \<le> k")
    case True
    then show ?thesis using k from_paise_mono [of "10 ^ 14" k] ten by simp
  next
    case False
    then show ?thesis using k from_paise_mono [of "10 ^ 14" "- k"] ten by (simp add: from_paise_minus)
  qed
qed

lemma write_paise_ok: "write_entry c i kind credit new (from_paise k) x y ride ref b = Some b' \<Longrightarrow> paise_ok k"
  using write_fits huge_paise by blast

lemma credited_ok:
  assumes "book_ok c b" "write_entry c i kind True (round2 (fadd (from_paise (balance b i)) (from_paise k))) (from_paise k) x y ride ref
      (open_wallet i b) = Some b'"
  shows "book_ok c b'"
  using credit_ok [of c "open_wallet i b" k i kind] write_paise_ok [OF assms(2)] assms by simp

lemma debited_ok:
  assumes "book_ok c b" "write_entry c i kind False (round2 (fsub (from_paise (balance b i)) (from_paise k))) (from_paise k) x y ride ref
      (open_wallet i b) = Some b'"
  shows "book_ok c b'"
  using debit_ok [of c "open_wallet i b" k i kind] write_paise_ok [OF assms(2)] assms by simp

lemma cashback_paise: "cashback_amount pct fare = from_paise (js_round (fmul fare pct))"
  by (simp add: cashback_amount_def from_paise_def fdiv_def)

lemma compensation_paise: "compensation fee = from_paise (js_round (fmul (fmul fee DRIVER_COMPENSATION_SHARE) 100))"
  by (simp add: compensation_def from_paise_def fdiv_def)

subsection \<open>Every movement keeps its book\<close>

lemma commit_ok:
  assumes "book_ok c b" "\<And>b'. r = Some b' \<Longrightarrow> book_ok c b'"
  shows "book_ok c (snd (commit_or_fail v r b))"
  using assms by (cases r) (simp_all add: commit_or_fail_def)

lemma creditCashback_ok:
  assumes ok: "book_ok user_checks b"
  shows "book_ok user_checks (snd (creditCashback pct ride user fare b))"
  unfolding creditCashback_def Let_def cashback_paise balance_open
  using credited_ok [OF ok] ok by (auto intro!: commit_ok)

lemma payFromUserWallet_ok:
  assumes ok: "book_ok user_checks b"
  shows "book_ok user_checks (snd (payFromUserWallet ride user (from_paise k) b))"
  unfolding payFromUserWallet_def Let_def balance_open
  using debited_ok [OF ok] ok by (auto intro!: commit_ok)

lemma deductCommission_ok:
  assumes ok: "book_ok driver_checks b"
  shows "book_ok driver_checks (snd (deductCommission m ride driver p b))"
proof (cases p)
  case (Some k)
  show ?thesis unfolding deductCommission_def Some option.case Let_def balance_open
    using debited_ok [OF ok] ok by (simp add: commit_ok)
qed (use ok in \<open>simp add: deductCommission_def\<close>)

lemma topUpDriverWallet_ok:
  assumes ok: "book_ok driver_checks b"
  shows "book_ok driver_checks (snd (topUpDriverWallet driver (from_paise k) ref b))"
  unfolding topUpDriverWallet_def Let_def balance_open
  using credited_ok [OF ok] ok by (auto intro!: commit_ok)

lemma consumePackageBalance_ok:
  assumes ok: "book_ok package_checks b"
  shows "book_ok package_checks (snd (consumePackageBalance ride driver (from_paise k) b))"
  unfolding consumePackageBalance_def Let_def balance_open
  using debited_ok [OF ok] ok by (auto intro!: commit_ok)

lemma creditPackageBalance_ok:
  assumes ok: "book_ok package_checks b"
  shows "book_ok package_checks (snd (creditPackageBalance driver (from_paise k) ref b))"
  unfolding creditPackageBalance_def Let_def balance_open
  using credited_ok [OF ok] ok by (auto intro!: commit_ok)

lemma adjustPackageBalance_ok:
  assumes ok: "book_ok package_checks b"
  shows "book_ok package_checks (snd (adjustPackageBalance driver (from_paise k) b))"
proof (cases "0 \<le> k")
  case True
  then have a: "\<bar>from_paise k\<bar> = from_paise k" "0 \<le> from_paise k" using from_paise_nonneg by simp_all
  show ?thesis unfolding adjustPackageBalance_def Let_def balance_open
    using credited_ok [OF ok] ok a by (auto intro!: commit_ok)
next
  case False
  then have "0 \<le> from_paise (- k)" "from_paise k \<noteq> 0" using from_paise_nonneg [of "- k"] by simp_all
  then have a: "\<bar>from_paise k\<bar> = from_paise (- k)" "\<not> 0 \<le> from_paise k" by (simp_all add: from_paise_minus)
  have f: "fadd x (from_paise k) = fsub x (from_paise (- k))" for x by (simp add: fsub_fadd from_paise_minus)
  show ?thesis unfolding adjustPackageBalance_def Let_def balance_open f
    using debited_ok [OF ok] ok a by (auto intro!: commit_ok)
qed

lemma compensate_driver_ok:
  assumes ok: "book_ok driver_checks db" and c: "compensate_driver ride driver fee db = Some db'"
  shows "book_ok driver_checks db'"
  using c ok credited_ok [OF ok] unfolding compensate_driver_def Let_def compensation_paise balance_open
  by (auto split: if_splits)

lemma chargeCancellationFee_ok:
  assumes ub: "book_ok user_checks ub" and db: "book_ok driver_checks db"
    and c: "chargeCancellationFee (from_paise k) ride user driver ub db = Some (ub', db')"
  shows "book_ok user_checks ub' \<and> book_ok driver_checks db'"
  using c ub db debited_ok [OF ub] compensate_driver_ok [OF db]
  unfolding chargeCancellationFee_def Let_def balance_open
  by (auto split: if_splits option.splits)

subsection \<open>The contract of a book\<close>

definition empty_book :: book where "empty_book = \<lparr>wallets = Map.empty, entries = []\<rparr>"

lemma empty_book_ok: "book_ok c empty_book"
  by (simp add: empty_book_def book_ok_def balance_def numeric_fits_def)

locale signed_book =
  fixes checks :: book_checks and step :: "book \<Rightarrow> book \<Rightarrow> bool"
  assumes step_ok: "step b b' \<Longrightarrow> book_ok checks b \<Longrightarrow> book_ok checks b'"
    and step_appends: "step b b' \<Longrightarrow> \<exists>es. entries b' = entries b @ es"
begin

lemma reachable_ok: "step\<^sup>*\<^sup>* empty_book b \<Longrightarrow> book_ok checks b"
  by (induction rule: rtranclp_induct) (auto intro: empty_book_ok step_ok)

lemma append_only: "step\<^sup>*\<^sup>* b b' \<Longrightarrow> \<exists>es. entries b' = entries b @ es"
proof (induction rule: rtranclp_induct)
  case (step y z)
  then show ?case using step_appends [of y z] by auto
qed simp

end

inductive user_step :: "book \<Rightarrow> book \<Rightarrow> bool" where
  cashback: "user_step b (snd (creditCashback pct ride user fare b))"
| ride_payment: "user_step b (snd (payFromUserWallet ride user (from_paise k) b))"
| fee: "book_ok driver_checks db \<Longrightarrow> chargeCancellationFee (from_paise k) ride user driver b db = Some (b', db') \<Longrightarrow> user_step b b'"

inductive driver_step :: "book \<Rightarrow> book \<Rightarrow> bool" where
  commission: "driver_step b (snd (deductCommission m ride driver p b))"
| topup: "driver_step b (snd (topUpDriverWallet driver (from_paise k) ref b))"
| compensation: "compensate_driver ride driver fee b = Some b' \<Longrightarrow> driver_step b b'"

inductive package_step :: "book \<Rightarrow> book \<Rightarrow> bool" where
  consumption: "package_step b (snd (consumePackageBalance ride driver (from_paise k) b))"
| purchase: "package_step b (snd (creditPackageBalance driver (from_paise k) ref b))"
| adjustment: "package_step b (snd (adjustPackageBalance driver (from_paise k) b))"

lemma commit_appends:
  assumes "\<And>b'. r = Some b' \<Longrightarrow> \<exists>es. entries b' = entries b @ es"
  shows "\<exists>es. entries (snd (commit_or_fail v r b)) = entries b @ es"
  using assms by (cases r) (simp_all add: commit_or_fail_def)

lemma write_appends: "write_entry c i kind credit new amount x y ride ref (open_wallet j b) = Some b' \<Longrightarrow> \<exists>es. entries b' = entries b @ es"
  by (auto elim!: write_entry_Some)

lemma same_appends: "\<exists>es. entries b = entries b @ es"
  by (rule exI [of _ "[]"]) simp

lemma user_step_appends: "user_step b b' \<Longrightarrow> \<exists>es. entries b' = entries b @ es"
proof (induction rule: user_step.induct)
  case (cashback b pct ride user fare)
  show ?case unfolding creditCashback_def Let_def by (simp add: same_appends commit_appends write_appends)
next
  case (ride_payment b ride user k)
  show ?case unfolding payFromUserWallet_def Let_def by (simp add: same_appends commit_appends write_appends)
next
  case (fee db k ride user driver b b' db')
  from fee(2) show ?case unfolding chargeCancellationFee_def Let_def
    by (auto split: if_splits option.splits intro: same_appends dest: write_appends)
qed

lemma driver_step_appends: "driver_step b b' \<Longrightarrow> \<exists>es. entries b' = entries b @ es"
proof (induction rule: driver_step.induct)
  case (commission b m ride driver p)
  show ?case unfolding deductCommission_def Let_def by (simp add: same_appends commit_appends write_appends split: option.split)
next
  case (topup b driver k ref)
  show ?case unfolding topUpDriverWallet_def Let_def by (simp add: same_appends commit_appends write_appends)
next
  case (compensation ride driver fee b b')
  then show ?case unfolding compensate_driver_def Let_def
    by (auto split: if_splits intro: same_appends dest: write_appends)
qed

lemma package_step_appends: "package_step b b' \<Longrightarrow> \<exists>es. entries b' = entries b @ es"
proof (induction rule: package_step.induct)
  case (consumption b ride driver k)
  show ?case unfolding consumePackageBalance_def Let_def by (simp add: same_appends commit_appends write_appends)
next
  case (purchase b driver k ref)
  show ?case unfolding creditPackageBalance_def Let_def by (simp add: same_appends commit_appends write_appends)
next
  case (adjustment b driver k)
  show ?case unfolding adjustPackageBalance_def Let_def by (simp add: same_appends commit_appends write_appends)
qed

interpretation rider_book: signed_book user_checks user_step
proof
  show "book_ok user_checks b'" if "user_step b b'" "book_ok user_checks b" for b b'
    using that by (induction rule: user_step.induct)
      (auto intro: creditCashback_ok payFromUserWallet_ok dest: chargeCancellationFee_ok)
qed (rule user_step_appends)

interpretation driver_book: signed_book driver_checks driver_step
proof
  show "book_ok driver_checks b'" if "driver_step b b'" "book_ok driver_checks b" for b b'
    using that by (induction rule: driver_step.induct)
      (auto intro: deductCommission_ok topUpDriverWallet_ok compensate_driver_ok)
qed (rule driver_step_appends)

interpretation package_book: signed_book package_checks package_step
proof
  show "book_ok package_checks b'" if "package_step b b'" "book_ok package_checks b" for b b'
    using that by (induction rule: package_step.induct)
      (auto intro: consumePackageBalance_ok creditPackageBalance_ok adjustPackageBalance_ok)
qed (rule package_step_appends)

text \<open>
  C12. Every wallet is its ledger. After any sequence of cashbacks, ride payments, cancellation fees,
  commissions, top-ups, compensations, package purchases, consumptions and adjustments the balance of
  every owner is the sum of their signed ledger lines, each line records the running balance and a positive amount, and a
  rider's balance is never negative.
\<close>

theorem wallets_are_their_ledgers:
  assumes "user_step\<^sup>*\<^sup>* empty_book ub" "driver_step\<^sup>*\<^sup>* empty_book db" "package_step\<^sup>*\<^sup>* empty_book pb"
  shows "balance ub i = book_total i (entries ub) \<and> 0 \<le> balance ub i \<and> running (rev (entries ub))
    \<and> balance db i = book_total i (entries db) \<and> running (rev (entries db))
    \<and> balance pb i = book_total i (entries pb) \<and> running (rev (entries pb))"
  using rider_book.reachable_ok [OF assms(1)] driver_book.reachable_ok [OF assms(2)] package_book.reachable_ok [OF assms(3)]
    book_okD(3) [OF rider_book.reachable_ok [OF assms(1)], of i] unfolding book_ok_def by (simp add: user_checks_def)

lemma wallets_are_their_ledgers_witness:
  "balance (snd (creditCashback 5 7 8 (from_paise 45400) empty_book)) 8 \<ge> 0
    \<and> running (rev (entries (snd (deductCommission 500 7 9 (Some 6810) empty_book))))
    \<and> running (rev (entries (snd (creditPackageBalance 9 (from_paise 100000) ''p1'' empty_book))))"
proof -
  have "user_step\<^sup>*\<^sup>* empty_book (snd (creditCashback 5 7 8 (from_paise 45400) empty_book))"
    "driver_step\<^sup>*\<^sup>* empty_book (snd (deductCommission 500 7 9 (Some 6810) empty_book))"
    "package_step\<^sup>*\<^sup>* empty_book (snd (creditPackageBalance 9 (from_paise 100000) ''p1'' empty_book))"
    by (auto intro: user_step.intros driver_step.intros package_step.intros)
  from wallets_are_their_ledgers [OF this] show ?thesis by blast
qed

subsection \<open>A gateway payment is credited once\<close>

definition topup_claim :: "nat \<Rightarrow> (string \<Rightarrow> paise) \<Rightarrow> string \<Rightarrow> book \<Rightarrow> bool \<times> book" where
  "topup_claim driver amount ref b =
     (case topUpDriverWallet driver (from_paise (amount ref)) ref b of
        (Inr _, b') \<Rightarrow> (\<not> topped_up driver ref b, b') | (Inl _, b') \<Rightarrow> (False, b'))"

definition purchase_claim :: "nat \<Rightarrow> (string \<Rightarrow> paise) \<Rightarrow> string \<Rightarrow> book \<Rightarrow> bool \<times> book" where
  "purchase_claim driver amount ref b =
     (case creditPackageBalance driver (from_paise (amount ref)) ref b of
        (Inr _, b') \<Rightarrow> (\<not> topped_up driver ref b \<and> 0 < amount ref, b') | (Inl _, b') \<Rightarrow> (False, b'))"

lemma topped_up_open [simp]: "topped_up i ref (open_wallet j b) = topped_up i ref b"
  by (simp add: topped_up_def)

lemma credit_writes:
  assumes w: "write_entry c i kind True (round2 (fadd (from_paise (balance b i)) (from_paise k))) (from_paise k) x y ride (Some ref)
      (open_wallet i b) = Some b'"
  shows "topped_up i r b' \<longleftrightarrow> r = ref \<or> topped_up i r b" "book_ok c b \<Longrightarrow> balance b' i = balance b i + k"
proof -
  obtain e where e: "entries b' = entries b @ [e]" "en_owner e = i" "en_ref e = Some ref"
    "balance b' i = to_paise (round2 (fadd (from_paise (balance b i)) (from_paise k)))"
    using write_entry_Some [OF w] by (metis entries_open)
  show "topped_up i r b' \<longleftrightarrow> r = ref \<or> topped_up i r b" using e(1-3) by (auto simp: topped_up_def)
  have "numeric_fits 12 k" using write_fits [OF w] to_from_paise [OF write_paise_ok [OF w]] by simp
  then show "balance b' i = balance b i + k" if "book_ok c b" using to_paise_add(1) [OF book_okD(2) [OF that]] e(4) by simp
qed

text \<open>What a credit claim does: nothing, or one line that closes its reference.\<close>

definition claim_effect :: "book_checks \<Rightarrow> nat \<Rightarrow> (string \<Rightarrow> paise) \<Rightarrow> string \<Rightarrow> book \<Rightarrow> bool \<times> book \<Rightarrow> bool" where
  "claim_effect c d amt ref b r \<longleftrightarrow> r = (False, b) \<or>
     (fst r \<and> \<not> topped_up d ref b \<and> (\<forall>q. topped_up d q (snd r) \<longleftrightarrow> q = ref \<or> topped_up d q b)
      \<and> (book_ok c b \<longrightarrow> book_ok c (snd r) \<and> balance (snd r) d = balance b d + amt ref))"

lemma commit_claim:
  assumes "\<not> topped_up d ref b"
    and "write_entry c d kind True (round2 (fadd (from_paise (balance b d)) (from_paise (amt ref)))) (from_paise (amt ref)) x y ride (Some ref)
      (open_wallet d b) = w"
    and v: "v"
  shows "claim_effect c d amt ref b (case commit_or_fail () w b of (Inl _, b') \<Rightarrow> (False, b') | (Inr _, b') \<Rightarrow> (v, b'))"
proof (cases w)
  case (Some b')
  then have W: "write_entry c d kind True (round2 (fadd (from_paise (balance b d)) (from_paise (amt ref)))) (from_paise (amt ref)) x y ride (Some ref)
      (open_wallet d b) = Some b'" using assms(2) by simp
  show ?thesis unfolding Some commit_or_fail_def option.case prod.case sum.case claim_effect_def fst_conv snd_conv
    using assms(1) v credit_writes(1) [OF W] credit_writes(2) [OF W] credited_ok [OF _ W] by blast
qed (simp add: claim_effect_def commit_or_fail_def)

lemma topup_effect: "claim_effect driver_checks d amt ref b (topup_claim d amt ref b)"
proof (cases "topped_up d ref b")
  case False
  have "claim_effect driver_checks d amt ref b (case topUpDriverWallet d (from_paise (amt ref)) ref b of
      (Inl _, b') \<Rightarrow> (False, b') | (Inr _, b') \<Rightarrow> (\<not> topped_up d ref b, b'))"
    unfolding topUpDriverWallet_def Let_def topped_up_open if_not_P [OF False] balance_open
    by (rule commit_claim [OF False refl]) (rule False)
  then show ?thesis by (simp add: topup_claim_def)
qed (simp add: topup_claim_def topUpDriverWallet_def Let_def claim_effect_def)

lemma purchase_effect: "claim_effect package_checks d amt ref b (purchase_claim d amt ref b)"
proof (cases "0 < amt ref")
  case True
  then have pos: "\<not> from_paise (amt ref) \<le> 0" using from_paise_nonneg [of "amt ref"] from_paise_eq_0 [of "amt ref"] by linarith
  show ?thesis
  proof (cases "topped_up d ref b")
    case False
    have "claim_effect package_checks d amt ref b (case creditPackageBalance d (from_paise (amt ref)) ref b of
        (Inl _, b') \<Rightarrow> (False, b') | (Inr _, b') \<Rightarrow> (\<not> topped_up d ref b \<and> 0 < amt ref, b'))"
      unfolding creditPackageBalance_def Let_def topped_up_open if_not_P [OF False] if_not_P [OF pos] balance_open
      by (rule commit_claim [OF False refl]) (simp add: False True)
    then show ?thesis by (simp add: purchase_claim_def)
  qed (simp add: purchase_claim_def creditPackageBalance_def Let_def claim_effect_def)
next
  case False
  then have "from_paise (amt ref) \<le> 0" using from_paise_mono [of "amt ref" 0] by simp
  then show ?thesis using False by (simp add: purchase_claim_def creditPackageBalance_def claim_effect_def)
qed

lemma effect_paid_claim:
  assumes "\<And>ref b. claim_effect c d amt ref b (claim ref b)"
  shows "paid_claim (\<lambda>b ref. \<not> topped_up d ref b) claim amt (\<lambda>b. balance b d) (book_ok c)"
proof
  fix k and s :: book and j
  note e = assms [of k s, unfolded claim_effect_def]
  show "fst (claim k s) \<Longrightarrow> \<not> topped_up d k s" using e by auto
  show "fst (claim k s) \<Longrightarrow> \<not> \<not> topped_up d k (snd (claim k s))" using e by auto
  show "\<not> \<not> topped_up d j s \<Longrightarrow> \<not> \<not> topped_up d j (snd (claim k s))" using e by auto
  show "book_ok c s \<Longrightarrow> balance (snd (claim k s)) d = balance s d + (if fst (claim k s) then amt k else 0)" using e by auto
  show "book_ok c s \<Longrightarrow> book_ok c (snd (claim k s))" using e by auto
qed

interpretation topups: paid_claim "\<lambda>b ref. \<not> topped_up d ref b" "topup_claim d amt" amt "\<lambda>b. balance b d" "book_ok driver_checks"
  for d amt by (rule effect_paid_claim) (rule topup_effect)

interpretation purchases: paid_claim "\<lambda>b ref. \<not> topped_up d ref b" "purchase_claim d amt" amt "\<lambda>b. balance b d" "book_ok package_checks"
  for d amt by (rule effect_paid_claim) (rule purchase_effect)

text \<open>
  A gateway payment is credited once. However often the browser return, the webhook and the reconcile
  sweep deliver the captures of a driver, in whatever order, the wallet grows by the amounts of the
  distinct transactions credited, and a transaction credited before is never credited again.
\<close>

theorem captures_credited_once:
  assumes "book_ok driver_checks db" "book_ok package_checks pb"
  shows "balance (topups.run d amt refs db) d = balance db d + sum_list (map amt (topups.wins d amt refs db))
    \<and> distinct (topups.wins d amt refs db) \<and> (\<forall>r. topped_up d r db \<longrightarrow> r \<notin> set (topups.wins d amt refs db))
    \<and> balance (purchases.run d amt refs pb) d = balance pb d + sum_list (map amt (purchases.wins d amt refs pb))
    \<and> distinct (purchases.wins d amt refs pb)"
  using topups.credited_once [OF assms(1)] purchases.credited_once [OF assms(2)] topups.won_once purchases.won_once
    topups.closed_never_wins by blast

lemma captures_credited_once_witness:
  "balance (topups.run 9 (\<lambda>_. 50000) [''t1'', ''t1''] empty_book) 9
     = sum_list (map (\<lambda>_. 50000) (topups.wins 9 (\<lambda>_. 50000) [''t1'', ''t1''] empty_book))"
  using captures_credited_once [OF empty_book_ok empty_book_ok, of 9 "\<lambda>_. 50000" "[''t1'', ''t1'']"]
  by (simp add: balance_def empty_book_def)

subsection \<open>The cancellation fee is collected in full or not at all\<close>

lemma compensation_near:
  assumes "0 \<le> k" "k \<le> 10 ^ 10"
  shows "\<bar>10 * js_round (fmul (fmul (from_paise k) DRIVER_COMPENSATION_SHARE) 100) - 7 * k\<bar> \<le> 5"
proof -
  define K :: rat where "K = of_int k"
  have K: "0 \<le> K" "K \<le> 10000000000"
    using assms of_int_le_iff [of k "10 ^ 10", where 'a = rat] by (simp_all add: K_def)
  define p where "p = from_paise k"
  define s where "s = DRIVER_COMPENSATION_SHARE"
  define q where "q = fmul p s"
  define t where "t = fmul q 100"
  have p: "\<bar>p - K / 100\<bar> \<le> K / 100 / 2 ^ 53" using fl_error [of "K / 100"] K by (simp add: p_def from_paise_def K_def)
  have s: "\<bar>s - 7 / 10\<bar> \<le> 1 / 2 ^ 53" using fl_error [of "7 / 10"] by (simp add: s_def DRIVER_COMPENSATION_SHARE_def)
  have p2: "\<bar>p - K / 100\<bar> \<le> 1 / 10000000" "0 \<le> p" "p \<le> 100000001"
  proof -
    show a: "\<bar>p - K / 100\<bar> \<le> 1 / 10000000" using p K(2) by simp
    show "0 \<le> p" by (simp add: p_def from_paise_nonneg assms)
    show "p \<le> 100000001" using a K by linarith
  qed
  have ps: "\<bar>p * s - p * (7 / 10)\<bar> \<le> 1 / 10000000"
  proof -
    have "p * s - p * (7 / 10) = p * (s - 7 / 10)" by (rule right_diff_distrib [symmetric])
    then have "\<bar>p * s - p * (7 / 10)\<bar> = p * \<bar>s - 7 / 10\<bar>" using p2(2) by (simp only: abs_mult abs_of_nonneg)
    also have "\<dots> \<le> 100000001 * (1 / 2 ^ 53)" using p2 s by (intro mult_mono) simp_all
    finally show ?thesis by simp
  qed
  have q: "\<bar>q - p * s\<bar> \<le> 1 / 10000000"
  proof -
    have "\<bar>p * s\<bar> \<le> 200000000" using ps p2(2,3) by linarith
    then show ?thesis using fl_error [of "p * s"] by (simp add: q_def fmul_def)
  qed
  have q7: "\<bar>q - 7 / 1000 * K\<bar> \<le> 3 / 10000000" using q ps p2(1) by linarith
  have t: "\<bar>t - q * 100\<bar> \<le> 1 / 100000"
  proof -
    have "\<bar>q * 100\<bar> \<le> 10000000000" using q7 K by linarith
    then show ?thesis using fl_error [of "q * 100"] by (simp add: t_def fmul_def)
  qed
  have "\<bar>of_int (js_round t) - t\<bar> \<le> (1 / 2 :: rat)" by (rule js_round_error)
  then have "\<bar>10 * of_int (js_round t) - 7 * K\<bar> < (6 :: rat)" using t q7 by linarith
  then have "\<bar>of_int (10 * js_round t - 7 * k)\<bar> < (6 :: rat)" by (simp add: K_def)
  then have "\<bar>10 * js_round t - 7 * k\<bar> < 6" by linarith
  then show ?thesis by (simp add: t_def q_def p_def s_def)
qed

lemma write_moves:
  assumes ok: "book_ok c b" and w: "write_entry c i kind credit new (from_paise k) x y ride ref (open_wallet i b) = Some b'"
    and new: "new = round2 ((if credit then fadd else fsub) (from_paise (balance b i)) (from_paise k))"
  shows "balance b' i = balance b i + (if credit then k else - k)"
proof -
  have "numeric_fits 12 k" using write_fits [OF w] to_from_paise [OF write_paise_ok [OF w]] by simp
  from to_paise_add [OF book_okD(2) [OF ok, of i] this] write_entry_Some [OF w] show ?thesis
    unfolding new by (cases credit; simp; metis)
qed

lemma compensate_moves:
  assumes ok: "book_ok driver_checks db" and k: "0 \<le> k" "k \<le> 10 ^ 10"
    and c: "compensate_driver ride d (from_paise k) db = Some db'"
  shows "\<exists>c. balance db' d = balance db d + c \<and> (c = 0 \<and> pred_option wl_frozen (wallets db d) \<and> wallets db d \<noteq> None
      \<or> 0 \<le> c \<and> c \<le> k \<and> \<bar>10 * c - 7 * k\<bar> \<le> 5)"
proof -
  define n where "n = js_round (fmul (fmul (from_paise k) DRIVER_COMPENSATION_SHARE) 100)"
  have n: "\<bar>10 * n - 7 * k\<bar> \<le> 5" unfolding n_def by (rule compensation_near [OF k])
  have n0: "0 \<le> n" unfolding n_def DRIVER_COMPENSATION_SHARE_def
    by (intro js_round_nonneg fmul_nonneg fl_nonneg from_paise_nonneg k) simp_all
  have nk: "n \<le> k" using n k n0 by linarith
  note c = c [unfolded compensate_driver_def Let_def compensation_paise, folded n_def]
  show ?thesis
  proof (cases "0 < from_paise n \<and> \<not> pred_option wl_frozen (wallets (open_wallet d db) d)")
    case True
    then have w: "write_entry driver_checks d AdjustCredit True (round2 (fadd (from_paise (balance db d)) (from_paise n))) (from_paise n) 0 0
        (Some ride) None (open_wallet d db) = Some db'" using c by simp
    have "balance db' d = balance db d + n" using write_moves [OF ok w] by simp
    then show ?thesis using n n0 nk by blast
  next
    case False
    show ?thesis
    proof (cases "0 < from_paise n")
      case True
      then have "db' = open_wallet d db" "pred_option wl_frozen (wallets (open_wallet d db) d)" using False c by auto
      moreover have "pred_option wl_frozen (wallets db d) \<and> wallets db d \<noteq> None" using calculation(2)
        by (auto simp: open_wallet_def empty_wallet_def split: option.splits)
      ultimately show ?thesis by simp
    next
      case 2: False
      then have "n = 0" using n0 from_paise_nonneg [OF n0] from_paise_eq_0 [of n] by linarith
      moreover have "db' = db" using c 2 by simp
      ultimately show ?thesis using n k by (intro exI [of _ 0]) simp
    qed
  qed
qed

text \<open>
  Cancelling after the driver's arrival: a configured fee is debited from the rider's wallet in full,
  and the driver then receives seventy percent of it to the nearest paisa (nothing when their wallet is
  frozen), never more than the fee; when the wallet does not cover the fee, no money moves at all.
\<close>

theorem cancellation_fee_in_full_or_not_at_all:
  assumes ub: "book_ok user_checks ub" and db: "book_ok driver_checks db" and k: "0 < k" "k \<le> 10 ^ 10"
    and c: "chargeCancellationFee (from_paise k) ride user (Some d) ub db = Some (ub', db')"
  shows "if k \<le> balance ub user
    then balance ub' user = balance ub user - k
      \<and> (\<exists>c. balance db' d = balance db d + c \<and> (c = 0 \<and> pred_option wl_frozen (wallets db d) \<and> wallets db d \<noteq> None
          \<or> 0 \<le> c \<and> c \<le> k \<and> \<bar>10 * c - 7 * k\<bar> \<le> 5))
    else (\<forall>i. balance ub' i = balance ub i) \<and> entries ub' = entries ub \<and> db' = db"
proof -
  have ok: "paise_ok k" "paise_ok (balance ub user)" using k fits_ok [OF book_okD(2) [OF ub]] by (simp_all add: paise_ok_def)
  have pos: "0 < from_paise k" using from_paise_nonneg [of k] from_paise_eq_0 [of k] k(1) by linarith
  have le: "from_paise k \<le> from_paise (balance ub user) \<longleftrightarrow> k \<le> balance ub user" by (rule from_paise_le [OF ok])
  note c = c [unfolded chargeCancellationFee_def Let_def if_P [OF pos] balance_open le]
  show ?thesis
  proof (cases "k \<le> balance ub user")
    case True
    then obtain ub2 where w: "write_entry user_checks user AdjustDebit False (round2 (fsub (from_paise (balance ub user)) (from_paise k)))
          (from_paise k) 0 (from_paise k) (Some ride) None (open_wallet user ub) = Some ub2"
        and d: "compensate_driver ride d (from_paise k) db = Some db'" "ub' = ub2"
      using c by (auto split: option.splits)
    have "balance ub' user = balance ub user - k" using write_moves [OF ub w] d(2) by simp
    then show ?thesis using True compensate_moves [OF db _ k(2) d(1)] k(1) by simp
  qed (use c in auto)
qed

lemma cancellation_fee_in_full_or_not_at_all_witness:
  "\<forall>i. balance (open_wallet 8 empty_book) i = balance empty_book i"
proof -
  have pos: "0 < from_paise 5000" using from_paise_nonneg [of 5000] from_paise_eq_0 [of 5000] by linarith
  have "\<not> from_paise 5000 \<le> from_paise (balance empty_book 8)"
    using pos by (simp add: balance_def empty_book_def)
  then have "chargeCancellationFee (from_paise 5000) 7 8 (Some 9) empty_book empty_book = Some (open_wallet 8 empty_book, empty_book)"
    using pos by (simp add: chargeCancellationFee_def Let_def)
  from cancellation_fee_in_full_or_not_at_all [OF empty_book_ok empty_book_ok _ _ this]
  show ?thesis by (simp add: balance_def empty_book_def)
qed

subsection \<open>A ride is paid from the wallet once\<close>

definition ride_debits :: "nat \<Rightarrow> book \<Rightarrow> entry list" where
  "ride_debits ride b = filter (\<lambda>e. en_ride e = Some ride \<and> en_kind e = RideDebit) (entries b)"

lemma ride_debits_iff: "ride_debited ride b \<longleftrightarrow> ride_debits ride b \<noteq> []"
  by (auto simp: ride_debited_def ride_debits_def list_ex_iff filter_empty_conv)

lemma write_debits:
  assumes "write_entry c i kind credit new amount x y r ref (open_wallet j b) = Some b'"
  shows "length (ride_debits ride b') = length (ride_debits ride b) + (if r = Some ride \<and> kind = RideDebit then 1 else 0)"
  by (rule write_entry_Some [OF assms]) (simp add: ride_debits_def)

lemma payFromUserWallet_cases:
  obtains (paid_before) "ride_debited ride b" "payFromUserWallet ride user amount b = (Inr True, b)"
  | (short) "\<not> ride_debited ride b" "from_paise (balance b user) < amount" "payFromUserWallet ride user amount b = (Inr False, b)"
  | (failed) "\<not> ride_debited ride b" "\<not> from_paise (balance b user) < amount" "payFromUserWallet ride user amount b = (Inl db_error, b)"
  | (paid) b' where "\<not> ride_debited ride b" "amount \<le> from_paise (balance b user)" "payFromUserWallet ride user amount b = (Inr True, b')"
      "write_entry user_checks user RideDebit False (round2 (fsub (from_paise (balance b user)) amount)) amount 0 amount (Some ride) None
         (open_wallet user b) = Some b'"
proof -
  have o: "ride_debited ride (open_wallet user b) = ride_debited ride b" by (simp add: ride_debited_def)
  let ?w = "write_entry user_checks user RideDebit False (round2 (fsub (from_paise (balance b user)) amount)) amount 0 amount (Some ride) None
         (open_wallet user b)"
  show thesis
  proof (cases "ride_debited ride b")
    case True
    then show thesis using paid_before o by (simp add: payFromUserWallet_def Let_def)
  next
    case False
    show thesis
    proof (cases "from_paise (balance b user) < amount")
      case True
      then show thesis using short False o by (simp add: payFromUserWallet_def Let_def)
    next
      case 2: False
      then have "payFromUserWallet ride user amount b = commit_or_fail True ?w b"
        using False o by (simp add: payFromUserWallet_def Let_def)
      then show thesis using failed paid False 2 by (cases ?w) (simp_all add: commit_or_fail_def)
    qed
  qed
qed

lemma user_step_debits:
  assumes "user_step b b'" "length (ride_debits ride b) \<le> 1"
  shows "length (ride_debits ride b') \<le> 1"
  using assms
proof (induction rule: user_step.induct)
  case (cashback b pct r user fare)
  have "length (ride_debits ride (snd (commit_or_fail () w b))) \<le> 1"
    if "\<And>b'. w = Some b' \<Longrightarrow> length (ride_debits ride b') = length (ride_debits ride b)" for w
    using that cashback by (cases w) (simp_all add: commit_or_fail_def)
  then show ?case using cashback write_debits unfolding creditCashback_def Let_def by auto
next
  case (ride_payment b r user k)
  show ?case
  proof (cases rule: payFromUserWallet_cases [of r b user "from_paise k"])
    case (paid b')
    have "ride_debits ride b = []" if "r = ride" using paid(1) that ride_debits_iff by blast
    then show ?thesis using paid(3) write_debits [OF paid(4), of ride] ride_payment by auto
  qed (use ride_payment in simp_all)
next
  case (fee db k r user driver b b' db')
  from fee(2,3) write_debits show ?case unfolding chargeCancellationFee_def Let_def
    by (auto split: if_splits option.splits simp: ride_debits_def)
qed

text \<open>
  Paying a ride from the wallet is exact and idempotent: in every reachable book a ride carries at most one debit;
  a payment takes exactly the fare when the balance covers it, refuses without a trace when it does not,
  and once it succeeded every repetition answers \<open>true\<close> and takes nothing.
\<close>

theorem wallet_payment_once:
  assumes r: "user_step\<^sup>*\<^sup>* empty_book b" and p: "payFromUserWallet ride user (from_paise k) b = (Inr paid, b')" and k: "paise_ok k"
  shows "length (ride_debits ride b') \<le> 1
    \<and> payFromUserWallet ride other x b' = (if paid then (Inr True, b') else payFromUserWallet ride other x b)
    \<and> balance b' user = balance b user - (if paid \<and> \<not> ride_debited ride b then k else 0)
    \<and> (ride_debited ride b \<or> paid = (k \<le> balance b user))"
proof -
  have ok: "book_ok user_checks b" by (rule rider_book.reachable_ok [OF r])
  have one: "length (ride_debits ride b) \<le> 1"
    using r
  proof (induction rule: rtranclp_induct)
    case base
    show ?case by (simp add: ride_debits_def empty_book_def)
  next
    case (step y z)
    show ?case by (rule user_step_debits [OF step.hyps(2) step.IH])
  qed
  have le: "from_paise k \<le> from_paise (balance b user) \<longleftrightarrow> k \<le> balance b user"
    by (rule from_paise_le [OF k fits_ok [OF book_okD(2) [OF ok]]])
  then have lt: "from_paise (balance b user) < from_paise k \<longleftrightarrow> \<not> k \<le> balance b user" by linarith
  show ?thesis
  proof (cases rule: payFromUserWallet_cases [of ride b user "from_paise k"])
    case paid_before
    then have "paid" "b' = b" using p by simp_all
    moreover have "payFromUserWallet ride other x b = (Inr True, b)"
      using paid_before(1) by (simp add: payFromUserWallet_def Let_def ride_debited_def)
    ultimately show ?thesis using one paid_before(1) by simp
  next
    case short
    then have "\<not> paid" "b' = b" "\<not> k \<le> balance b user" using p lt by simp_all
    then show ?thesis using one short(1) by simp
  next
    case failed
    then show ?thesis using p by simp
  next
    case (paid b'')
    then have eq: "paid" "b' = b''" using p by simp_all
    have d: "length (ride_debits ride b') \<le> 1" "ride_debited ride b'"
      using write_debits [OF paid(4), of ride] paid(1) eq ride_debits_iff by auto
    moreover have "payFromUserWallet ride other x b' = (Inr True, b')"
      using d(2) by (simp add: payFromUserWallet_def Let_def ride_debited_def)
    moreover have "balance b' user = balance b user - k" using write_moves [OF ok paid(4)] eq by simp
    ultimately show ?thesis using paid(1,2) eq le by simp
  qed
qed

lemma wallet_payment_once_witness:
  "length (ride_debits 7 empty_book) \<le> 1 \<and> \<not> 45400 \<le> balance empty_book 8"
proof -
  have "balance empty_book 8 = 0" by (simp add: balance_def empty_book_def)
  moreover have "0 < from_paise 45400" using from_paise_nonneg [of 45400] from_paise_eq_0 [of 45400] by linarith
  moreover have "\<not> ride_debited 7 empty_book" by (simp add: ride_debited_def empty_book_def)
  ultimately have p: "payFromUserWallet 7 8 (from_paise 45400) empty_book = (Inr False, empty_book)"
    by (cases rule: payFromUserWallet_cases [of 7 empty_book 8 "from_paise 45400"]) simp_all
  show ?thesis using wallet_payment_once [OF rtranclp.rtrancl_refl p, of 8 0] \<open>\<not> ride_debited 7 empty_book\<close>
    by (simp add: paise_ok_def)
qed

end
