(* ===== verification/Settlements.thy ===== *)
theory Settlements
  imports Pricing
begin

text \<open>
  Driver earnings and payouts (\<open>settlements.service.ts\<close> and the payout half of the gateway webhook
  in \<open>payments.service.ts\<close>). A ride's earning line is accrued, clears after the hold, is swept into a settlement, and
  is paid by a bank transfer through the gateway, whose answers are a parameter. A function is one
  transaction, or the sequence of statements of one call. Rows are numbered by their position.
\<close>

subsection \<open>Tables\<close>

datatype earning_type = RideFareNet | TdsDeduction | Adjustment
datatype earning_status = EarnPending | Cleared | InPayout | Paid

text \<open>The idempotency key, by the parts it is formatted from.\<close>

datatype earning_key = FareOf nat | TdsOf nat | InstantFee nat int | ManualAdj nat int

record earning =
  ea_driver :: nat
  ea_ride :: "nat option"
  ea_type :: earning_type
  ea_amount :: paise
  ea_status :: earning_status
  ea_available :: int
  ea_settlement :: "nat option"
  ea_key :: earning_key

record tax_row =
  tx_driver :: nat
  tx_ride :: nat
  tx_base :: paise
  tx_rate :: num
  tx_amount :: paise
  tx_fy :: int
  tx_quarter :: nat

datatype settlement_status = SettlePending | Processing | SettleCompleted | SettleFailed | SettleOnHold
datatype run_type = ScheduledRun | InstantRun

text \<open>\<open>razorpay_payout_id\<close>: the placeholder of a claim, the id of the dev mode, or the gateway's; and the bank reference.\<close>

datatype payout_id = Placeholder nat int | DevPayout nat | GatewayPayout string

datatype utr = BankUtr string | DevUtr nat

record settlement =
  st_driver :: nat
  st_from :: int
  st_to :: int
  st_net :: paise
  st_fee :: paise
  st_status :: settlement_status
  st_run :: run_type
  st_bank :: nat
  st_payout :: "payout_id option"
  st_utr :: "utr option"
  st_code :: "string option"
  st_approved_by :: "nat option"

record bank_account =
  ba_driver :: nat
  ba_fund :: "string option"
  ba_verified :: bool
  ba_primary :: bool

record payout_hold =
  ho_driver :: nat
  ho_reason :: string
  ho_by :: nat
  ho_active :: bool

record settle_db =
  earnings :: "earning list"
  taxes :: "tax_row list"
  settlements :: "settlement list"
  banks :: "bank_account list"
  holds :: "payout_hold list"

definition fresh_settlement :: "nat \<Rightarrow> int \<Rightarrow> int \<Rightarrow> paise \<Rightarrow> paise \<Rightarrow> settlement_status \<Rightarrow> run_type \<Rightarrow> nat \<Rightarrow> settlement" where
  "fresh_settlement d f t net fee st run bank = \<lparr>st_driver = d, st_from = f, st_to = t, st_net = net, st_fee = fee, st_status = st,
     st_run = run, st_bank = bank, st_payout = None, st_utr = None, st_code = None, st_approved_by = None\<rparr>"

definition upd_settlement :: "nat \<Rightarrow> (settlement \<Rightarrow> bool) \<Rightarrow> (settlement \<Rightarrow> settlement) \<Rightarrow> settle_db \<Rightarrow> nat \<times> settle_db" where
  "upd_settlement s p f db =
     (if s < length (settlements db) \<and> p (settlements db ! s)
      then (1, db\<lparr>settlements := (settlements db)[s := f (settlements db ! s)]\<rparr>) else (0, db))"

definition upd_earnings :: "(earning \<Rightarrow> bool) \<Rightarrow> (earning \<Rightarrow> earning) \<Rightarrow> settle_db \<Rightarrow> settle_db" where
  "upd_earnings p f db = db\<lparr>earnings := map (\<lambda>e. if p e then f e else e) (earnings db)\<rparr>"

subsection \<open>Accrual\<close>

text \<open>\<open>INSERT INTO driver_earnings\<close>; \<open>None\<close> is a numeric overflow or, without \<open>ON CONFLICT\<close>, a key that exists.\<close>

definition insert_earning :: "bool \<Rightarrow> earning \<Rightarrow> settle_db \<Rightarrow> settle_db option" where
  "insert_earning skip_conflict e db =
     (if \<not> numeric_fits 12 (ea_amount e) then None
      else if list_ex (\<lambda>x. ea_key x = ea_key e) (earnings db) then (if skip_conflict then Some db else None)
      else Some (db\<lparr>earnings := earnings db @ [e]\<rparr>))"

definition insert_tax :: "tax_row \<Rightarrow> settle_db \<Rightarrow> settle_db option" where
  "insert_tax t db =
     (if tx_base t < 0 \<or> tx_amount t < 0 \<or> \<not> numeric_fits 12 (tx_base t) \<or> \<not> numeric_fits 12 (tx_amount t) then None
      else if list_ex (\<lambda>x. tx_ride x = tx_ride t) (taxes db) then Some db
      else Some (db\<lparr>taxes := taxes db @ [t]\<rparr>))"

text \<open>The financial year's first calendar year and the quarter, from the UTC year and month (0 to 11).\<close>

definition currentFyQuarter :: "int \<Rightarrow> nat \<Rightarrow> int \<times> nat" where
  "currentFyQuarter year month =
     (if 3 \<le> month then year else year - 1,
      if month \<in> set [3, 4, 5] then 1 else if month \<in> set [6, 7, 8] then 2 else if month \<in> set [9, 10, 11] then 3 else 4)"

record accrual_config =
  ac_hold_hours :: int
  ac_rate_pan :: num
  ac_rate_no_pan :: num
  ac_year :: int
  ac_month :: nat

definition tds_rate :: "accrual_config \<Rightarrow> bool \<Rightarrow> num" where
  "tds_rate cfg pan = (if pan then ac_rate_pan cfg else ac_rate_no_pan cfg)"

definition tds_amount :: "num \<Rightarrow> num \<Rightarrow> num" where
  "tds_amount gross rate = fdiv (of_int (js_round (fmul gross rate))) 100"

definition accrueDriverEarning :: "accrual_config \<Rightarrow> bool \<Rightarrow> int \<Rightarrow> nat \<Rightarrow> nat \<Rightarrow> paise option \<Rightarrow> settle_db \<Rightarrow> unit res \<times> settle_db" where
  "accrueDriverEarning cfg pan now ride driver payment db =
     (case payment of None \<Rightarrow> (Inr (), db)
      | Some k \<Rightarrow>
          let gross = from_paise k; rate = tds_rate cfg pan; tds = tds_amount gross rate;
              line = (\<lambda>ty amount key. \<lparr>ea_driver = driver, ea_ride = Some ride, ea_type = ty, ea_amount = to_paise amount,
                ea_status = EarnPending, ea_available = now + ac_hold_hours cfg * 3600000, ea_settlement = None, ea_key = key\<rparr>)
          in (case insert_earning True (line RideFareNet gross (FareOf ride)) db of
                None \<Rightarrow> (Inl db_error, db)
              | Some db1 \<Rightarrow>
                  if 0 < tds then
                    (case Option.bind (insert_earning True (line TdsDeduction (- tds) (TdsOf ride)) db1)
                        (insert_tax \<lparr>tx_driver = driver, tx_ride = ride, tx_base = to_paise gross, tx_rate = rate, tx_amount = to_paise tds,
                          tx_fy = fst (currentFyQuarter (ac_year cfg) (ac_month cfg)),
                          tx_quarter = snd (currentFyQuarter (ac_year cfg) (ac_month cfg))\<rparr>) of
                       None \<Rightarrow> (Inl db_error, db)
                     | Some db2 \<Rightarrow> (Inr (), db2))
                  else (Inr (), db1)))"

definition clearAvailableEarnings :: "int \<Rightarrow> settle_db \<Rightarrow> settle_db" where
  "clearAvailableEarnings now = upd_earnings (\<lambda>e. ea_status e = EarnPending \<and> ea_available e \<le> now) (\<lambda>e. e\<lparr>ea_status := Cleared\<rparr>)"

subsection \<open>Sweeping cleared lines into a settlement\<close>

definition cleared_ids :: "nat \<Rightarrow> settle_db \<Rightarrow> nat list" where
  "cleared_ids d db = filter (\<lambda>k. ea_driver (earnings db ! k) = d \<and> ea_status (earnings db ! k) = Cleared) [0..<length (earnings db)]"

text \<open>\<open>rows.reduce((sum, r) => sum + parseFloat(r.amount), 0)\<close>.\<close>

definition js_total :: "paise list \<Rightarrow> num" where
  "js_total ks = foldl (\<lambda>s k. fadd s (from_paise k)) 0 ks"

definition cleared_total :: "nat \<Rightarrow> settle_db \<Rightarrow> num" where
  "cleared_total d db = js_total (map (\<lambda>k. ea_amount (earnings db ! k)) (cleared_ids d db))"

definition stamp :: "nat list \<Rightarrow> nat \<Rightarrow> settle_db \<Rightarrow> settle_db" where
  "stamp ids s db = db\<lparr>earnings := map (\<lambda>k. if k \<in> set ids then (earnings db ! k)\<lparr>ea_status := InPayout, ea_settlement := Some s\<rparr>
     else earnings db ! k) [0..<length (earnings db)]\<rparr>"

text \<open>The settlement row for lines locked before, and the stamp on exactly those lines.\<close>

definition open_settlement :: "nat list \<Rightarrow> settlement \<Rightarrow> settle_db \<Rightarrow> settle_db option" where
  "open_settlement ids st db =
     (if st_net st < 0 \<or> st_fee st < 0 \<or> \<not> numeric_fits 12 (st_net st) \<or> \<not> numeric_fits 12 (st_fee st) then None
      else Some (stamp ids (length (settlements db)) (db\<lparr>settlements := settlements db @ [st]\<rparr>)))"

definition on_hold :: "nat \<Rightarrow> settle_db \<Rightarrow> bool" where
  "on_hold d db \<longleftrightarrow> list_ex (\<lambda>h. ho_driver h = d \<and> ho_active h) (holds db)"

definition primary_bank :: "nat \<Rightarrow> settle_db \<Rightarrow> nat option" where
  "primary_bank d db = find (\<lambda>k. ba_driver (banks db ! k) = d \<and> ba_primary (banks db ! k) \<and> ba_verified (banks db ! k)) [0..<length (banks db)]"

definition payout_candidates :: "settle_db \<Rightarrow> (nat \<times> nat) list" where
  "payout_candidates db = concat (map (\<lambda>d. case primary_bank d db of None \<Rightarrow> [] | Some b \<Rightarrow> if on_hold d db then [] else [(d, b)])
     (remdups (map ea_driver (filter (\<lambda>e. ea_status e = Cleared) (earnings db)))))"

record driver_sweep =
  sw_driver :: nat
  sw_bank :: nat
  sw_ids :: "nat list"
  sw_total :: num

definition per_driver :: "settle_db \<Rightarrow> driver_sweep list" where
  "per_driver db = filter (\<lambda>r. 0 < sw_total r)
     (map (\<lambda>(d, b). \<lparr>sw_driver = d, sw_bank = b, sw_ids = cleared_ids d db, sw_total = cleared_total d db\<rparr>) (payout_candidates db))"

fun open_batch :: "settlement_status \<Rightarrow> int \<Rightarrow> int \<Rightarrow> driver_sweep list \<Rightarrow> settle_db \<Rightarrow> settle_db option" where
  "open_batch st f t [] db = Some db"
| "open_batch st f t (r # rest) db =
     Option.bind (open_settlement (sw_ids r) (fresh_settlement (sw_driver r) f t (to_paise (sw_total r)) 0 st ScheduledRun (sw_bank r)) db)
       (open_batch st f t rest)"

text \<open>Dates are day numbers; \<open>today\<close> is the day of the run. A failed insert rolls the whole batch back.\<close>

definition batch_status :: "num \<Rightarrow> driver_sweep list \<Rightarrow> settlement_status" where
  "batch_status limit rows = (if foldl (\<lambda>s r. fadd s (sw_total r)) 0 rows \<le> limit then Processing else SettlePending)"

definition runScheduledSettlementBatch :: "num \<Rightarrow> int \<Rightarrow> settle_db \<Rightarrow> unit res \<times> settle_db" where
  "runScheduledSettlementBatch limit today db =
     (let rows = per_driver db
      in case open_batch (batch_status limit rows) (today - 1) today rows db of
           None \<Rightarrow> (Inl db_error, db) | Some db' \<Rightarrow> (Inr (), db'))"

text \<open>The driver's own cash-out: the fee is a cleared line of its own, swept with the rest.\<close>

definition cashout_fee :: "nat \<Rightarrow> num \<Rightarrow> int \<Rightarrow> earning" where
  "cashout_fee d fee now = \<lparr>ea_driver = d, ea_ride = None, ea_type = Adjustment, ea_amount = to_paise (- fee), ea_status = Cleared,
     ea_available = now, ea_settlement = None, ea_key = InstantFee d now\<rparr>"

definition instantCashOut :: "bool \<Rightarrow> num \<Rightarrow> int \<Rightarrow> int \<Rightarrow> nat \<Rightarrow> settle_db \<Rightarrow> nat res \<times> settle_db" where
  "instantCashOut enabled fee now today d db =
     (if \<not> enabled then (Inl (http_err 403 ''VALIDATION_ERROR''), db)
      else case primary_bank d db of None \<Rightarrow> (Inl (http_err 400 ''VALIDATION_ERROR''), db)
      | Some bank \<Rightarrow>
          if on_hold d db then (Inl (http_err 403 ''AUTH_FORBIDDEN''), db)
          else case insert_earning False (cashout_fee d fee now) db of None \<Rightarrow> (Inl db_error, db)
          | Some db1 \<Rightarrow>
              let ids = cleared_ids d db1; total = cleared_total d db1 in
              if total \<le> 0 then (Inl (http_err 400 ''VALIDATION_ERROR''), db)
              else case open_settlement ids (fresh_settlement d today today (to_paise total) (to_paise fee) Processing InstantRun bank) db1 of
                  None \<Rightarrow> (Inl db_error, db)
                | Some db2 \<Rightarrow> (Inr (length (settlements db)), db2))"

text \<open>A failed settlement is replaced by a new one over what is cleared now.\<close>

definition retryFailedSettlement :: "int \<Rightarrow> nat \<Rightarrow> settle_db \<Rightarrow> bool res \<times> settle_db" where
  "retryFailedSettlement today s db =
     (if \<not> (s < length (settlements db) \<and> st_status (settlements db ! s) = SettleFailed) then (Inr False, db)
      else let old = settlements db ! s; d = st_driver old; ids = cleared_ids d db; total = cleared_total d db in
        if total \<le> 0 then (Inr False, db)
        else case open_settlement ids (fresh_settlement d today today (to_paise total) 0 Processing (st_run old) (st_bank old)) db of
            None \<Rightarrow> (Inl db_error, db)
          | Some db' \<Rightarrow> (Inr True, db'))"

subsection \<open>Approval, holds, adjustments\<close>

definition approveSettlementPeriod :: "int \<Rightarrow> int \<Rightarrow> nat \<Rightarrow> settle_db \<Rightarrow> nat \<times> settle_db" where
  "approveSettlementPeriod f t admin db =
     (let hit = (\<lambda>s. st_from s = f \<and> st_to s = t \<and> st_status s = SettlePending)
      in (length (filter hit (settlements db)),
          db\<lparr>settlements := map (\<lambda>s. if hit s then s\<lparr>st_status := Processing, st_approved_by := Some admin\<rparr> else s) (settlements db)\<rparr>))"

definition placeDriverPayoutHold :: "nat \<Rightarrow> string \<Rightarrow> nat \<Rightarrow> settle_db \<Rightarrow> bool \<times> settle_db" where
  "placeDriverPayoutHold d why by_admin db =
     (if on_hold d db then (False, db)
      else (True, db\<lparr>holds := holds db @ [\<lparr>ho_driver = d, ho_reason = why, ho_by = by_admin, ho_active = True\<rparr>]\<rparr>))"

definition releaseDriverPayoutHold :: "nat \<Rightarrow> settle_db \<Rightarrow> bool \<times> settle_db" where
  "releaseDriverPayoutHold d db =
     (on_hold d db, db\<lparr>holds := map (\<lambda>h. if ho_driver h = d \<and> ho_active h then h\<lparr>ho_active := False\<rparr> else h) (holds db)\<rparr>)"

definition createManualAdjustment :: "nat \<Rightarrow> num \<Rightarrow> int \<Rightarrow> settle_db \<Rightarrow> unit res \<times> settle_db" where
  "createManualAdjustment d amount now db =
     (case insert_earning False \<lparr>ea_driver = d, ea_ride = None, ea_type = Adjustment, ea_amount = to_paise amount, ea_status = Cleared,
         ea_available = now, ea_settlement = None, ea_key = ManualAdj d now\<rparr> db of
        None \<Rightarrow> (Inl db_error, db) | Some db' \<Rightarrow> (Inr (), db'))"

subsection \<open>Submitting to the gateway\<close>

definition FAILURE_CODE_MAP :: "(string \<times> string) list" where
  "FAILURE_CODE_MAP = [(''invalid_account_number'', ''PAYOUT_INVALID_ACCOUNT''), (''invalid_fund_account'', ''PAYOUT_INVALID_ACCOUNT''),
     (''insufficient_balance'', ''PAYOUT_INSUFFICIENT_PLATFORM_BALANCE''), (''beneficiary_bank_offline'', ''PAYOUT_BANK_OFFLINE'')]"

definition mapPayoutFailureCode :: "string option \<Rightarrow> string" where
  "mapPayoutFailureCode raw = (case raw of None \<Rightarrow> ''PAYOUT_FAILED''
     | Some r \<Rightarrow> if r = '''' then ''PAYOUT_FAILED'' else coalesce (map_of FAILURE_CODE_MAP r) ''PAYOUT_FAILED'')"

text \<open>The body of the call, and what comes back: an id, a refusal with a reason, or no answer (timeout, bad JSON).\<close>

record payout_request =
  pr_fund :: "string option"
  pr_amount :: paise
  pr_reference :: "nat \<times> nat"

datatype payout_answer = PayoutAccepted string | Refused "string option" | NoAnswer

record settlement_ref =
  sr_id :: nat
  sr_driver :: nat
  sr_net :: paise

definition claimSettlement :: "nat \<Rightarrow> int \<Rightarrow> settle_db \<Rightarrow> nat \<times> settle_db" where
  "claimSettlement s now = upd_settlement s (\<lambda>x. st_payout x = None) (\<lambda>x. x\<lparr>st_payout := Some (Placeholder s now)\<rparr>)"

definition payout_request_of :: "settlement_ref \<Rightarrow> settle_db \<Rightarrow> payout_request" where
  "payout_request_of row db = \<lparr>pr_fund = Option.bind (if sr_id row < length (settlements db) then Some (st_bank (settlements db ! sr_id row)) else None)
       (\<lambda>b. if b < length (banks db) then ba_fund (banks db ! b) else None),
     pr_amount = js_round (fmul (from_paise (sr_net row)) 100), pr_reference = (sr_id row, sr_driver row)\<rparr>"

definition submit_failed :: "nat \<Rightarrow> string option \<Rightarrow> settle_db \<Rightarrow> settle_db" where
  "submit_failed s reason db =
     upd_earnings (\<lambda>e. ea_settlement e = Some s) (\<lambda>e. e\<lparr>ea_status := Cleared, ea_settlement := None\<rparr>)
       (snd (upd_settlement s (\<lambda>_. True)
          (\<lambda>x. x\<lparr>st_status := SettleFailed, st_code := Some (mapPayoutFailureCode reason), st_payout := None\<rparr>) db))"

text \<open>The first of the two statements of the catch block alone: the process died between them.\<close>

definition submit_half_failed :: "nat \<Rightarrow> string option \<Rightarrow> settle_db \<Rightarrow> settle_db" where
  "submit_half_failed s reason db = snd (upd_settlement s (\<lambda>_. True)
     (\<lambda>x. x\<lparr>st_status := SettleFailed, st_code := Some (mapPayoutFailureCode reason), st_payout := None\<rparr>) db)"

definition payout_answered :: "nat \<Rightarrow> payout_answer \<Rightarrow> settle_db \<Rightarrow> settle_db" where
  "payout_answered s answer db = (case answer of
       PayoutAccepted pid \<Rightarrow> snd (upd_settlement s (\<lambda>_. True) (\<lambda>x. x\<lparr>st_payout := Some (GatewayPayout pid)\<rparr>) db)
     | Refused reason \<Rightarrow> submit_failed s reason db
     | NoAnswer \<Rightarrow> submit_failed s None db)"

definition dev_payout :: "nat \<Rightarrow> settle_db \<Rightarrow> settle_db" where
  "dev_payout s db =
     upd_earnings (\<lambda>e. ea_settlement e = Some s) (\<lambda>e. e\<lparr>ea_status := Paid\<rparr>)
       (snd (upd_settlement s (\<lambda>_. True) (\<lambda>x. x\<lparr>st_status := SettleCompleted, st_payout := Some (DevPayout s), st_utr := Some (DevUtr s)\<rparr>) db))"

definition submitSettlementRow :: "bool \<Rightarrow> (payout_request \<Rightarrow> payout_answer) \<Rightarrow> int \<Rightarrow> settlement_ref \<Rightarrow> settle_db \<Rightarrow> settle_db" where
  "submitSettlementRow dev gateway now row db =
     (if dev then dev_payout (sr_id row) db
      else case claimSettlement (sr_id row) now db of (n, db1) \<Rightarrow>
        if n = 0 then db
        else payout_answered (sr_id row) (gateway (payout_request_of row db1)) db1)"

definition ref_of :: "settle_db \<Rightarrow> nat \<Rightarrow> settlement_ref" where
  "ref_of db s = \<lparr>sr_id = s, sr_driver = st_driver (settlements db ! s), sr_net = st_net (settlements db ! s)\<rparr>"

definition submittable :: "settle_db \<Rightarrow> nat \<Rightarrow> bool" where
  "submittable db s \<longleftrightarrow> st_status (settlements db ! s) = Processing \<and> st_payout (settlements db ! s) = None"

definition submitProcessingSettlements :: "bool \<Rightarrow> (payout_request \<Rightarrow> payout_answer) \<Rightarrow> int \<Rightarrow> settle_db \<Rightarrow> settle_db" where
  "submitProcessingSettlements dev gateway now db =
     foldl (\<lambda>db row. submitSettlementRow dev gateway now row db) db
       (map (ref_of db) (filter (submittable db) [0..<length (settlements db)]))"

definition retryNeverSubmittedSettlement :: "bool \<Rightarrow> (payout_request \<Rightarrow> payout_answer) \<Rightarrow> int \<Rightarrow> nat \<Rightarrow> settle_db \<Rightarrow> bool \<times> settle_db" where
  "retryNeverSubmittedSettlement dev gateway now s db =
     (if s < length (settlements db) \<and> submittable db s then (True, submitSettlementRow dev gateway now (ref_of db s) db) else (False, db))"

subsection \<open>The gateway's payout events\<close>

definition payoutProcessed :: "nat \<Rightarrow> string \<Rightarrow> string option \<Rightarrow> settle_db \<Rightarrow> settle_db" where
  "payoutProcessed s pid utr db =
     (case upd_settlement s (\<lambda>x. st_status x \<noteq> SettleCompleted \<and> st_payout x = Some (GatewayPayout pid))
         (\<lambda>x. x\<lparr>st_status := SettleCompleted, st_utr := map_option BankUtr utr\<rparr>) db of (n, db') \<Rightarrow>
       if 0 < n then upd_earnings (\<lambda>e. ea_settlement e = Some s \<and> ea_status e = InPayout) (\<lambda>e. e\<lparr>ea_status := Paid\<rparr>) db' else db')"

definition payoutFailed :: "nat \<Rightarrow> string \<Rightarrow> string option \<Rightarrow> settle_db \<Rightarrow> settle_db" where
  "payoutFailed s pid reason db =
     (case upd_settlement s (\<lambda>x. st_status x \<noteq> SettleCompleted \<and> st_payout x = Some (GatewayPayout pid))
         (\<lambda>x. x\<lparr>st_status := SettleFailed, st_code := Some (mapPayoutFailureCode reason)\<rparr>) db of (n, db') \<Rightarrow>
       if 0 < n then upd_earnings (\<lambda>e. ea_settlement e = Some s \<and> ea_status e = InPayout)
           (\<lambda>e. e\<lparr>ea_status := Cleared, ea_settlement := None\<rparr>) db' else db')"

text \<open>What a driver may still be paid: the cleared lines.\<close>

definition payable_balance :: "nat \<Rightarrow> settle_db \<Rightarrow> paise" where
  "payable_balance d db = sum_list (map ea_amount (filter (\<lambda>e. ea_driver e = d \<and> ea_status e = Cleared) (earnings db)))"

subsection \<open>Every transfer is backed by its own lines\<close>

definition lines_of :: "nat \<Rightarrow> settle_db \<Rightarrow> earning list" where
  "lines_of s db = filter (\<lambda>e. ea_settlement e = Some s) (earnings db)"

definition backed :: "settle_db \<Rightarrow> nat \<Rightarrow> bool" where
  "backed db s \<longleftrightarrow> st_net (settlements db ! s) = to_paise (js_total (map ea_amount (lines_of s db)))"

definition earning_ok :: "nat \<Rightarrow> earning \<Rightarrow> bool" where
  "earning_ok n e \<longleftrightarrow> (case ea_settlement e of None \<Rightarrow> ea_status e = EarnPending \<or> ea_status e = Cleared
     | Some s \<Rightarrow> s < n \<and> (ea_status e = InPayout \<or> ea_status e = Paid))"

definition open_status :: "settlement_status \<Rightarrow> bool" where
  "open_status st \<longleftrightarrow> st = SettlePending \<or> st = Processing"

definition settle_inv :: "settle_db \<Rightarrow> bool" where
  "settle_inv db \<longleftrightarrow> list_all (earning_ok (length (settlements db))) (earnings db)
     \<and> (\<forall>s < length (settlements db). numeric_fits 12 (st_net (settlements db ! s))
          \<and> (open_status (st_status (settlements db ! s)) \<longrightarrow> backed db s))"

text \<open>What an operation leaves alone: the old settlements' amounts, payout ids and lines, and a status but for approval.\<close>

definition keeps :: "settle_db \<Rightarrow> settle_db \<Rightarrow> bool" where
  "keeps db db' \<longleftrightarrow> length (settlements db) \<le> length (settlements db')
     \<and> (\<forall>s < length (settlements db). st_net (settlements db' ! s) = st_net (settlements db ! s)
          \<and> st_payout (settlements db' ! s) = st_payout (settlements db ! s)
          \<and> (st_status (settlements db' ! s) = st_status (settlements db ! s)
             \<or> st_status (settlements db ! s) = SettlePending \<and> st_status (settlements db' ! s) = Processing)
          \<and> lines_of s db' = lines_of s db)"

lemma keeps_refl [simp]: "keeps db db"
  by (simp add: keeps_def)

lemma keepsD:
  assumes "keeps db db'" "s < length (settlements db)"
  shows "s < length (settlements db')" "st_net (settlements db' ! s) = st_net (settlements db ! s)"
    "st_payout (settlements db' ! s) = st_payout (settlements db ! s)" "lines_of s db' = lines_of s db"
    "st_status (settlements db' ! s) = st_status (settlements db ! s)
      \<or> st_status (settlements db ! s) = SettlePending \<and> st_status (settlements db' ! s) = Processing"
    "backed db' s = backed db s"
  using assms by (auto simp: keeps_def backed_def)

lemma keeps_trans:
  assumes ab: "keeps a b" and bc: "keeps b c"
  shows "keeps a c"
proof -
  have "length (settlements a) \<le> length (settlements c)" using ab bc by (simp add: keeps_def)
  moreover have "st_net (settlements c ! s) = st_net (settlements a ! s) \<and> st_payout (settlements c ! s) = st_payout (settlements a ! s)
     \<and> (st_status (settlements c ! s) = st_status (settlements a ! s)
        \<or> st_status (settlements a ! s) = SettlePending \<and> st_status (settlements c ! s) = Processing)
     \<and> lines_of s c = lines_of s a" if s: "s < length (settlements a)" for s
    using keepsD(2-5) [OF ab s] keepsD(2-5) [OF bc keepsD(1) [OF ab s]] by auto
  ultimately show ?thesis unfolding keeps_def by blast
qed

lemma keeps_open:
  "keeps db db' \<Longrightarrow> s < length (settlements db) \<Longrightarrow> open_status (st_status (settlements db' ! s)) = open_status (st_status (settlements db ! s))"
  using keepsD(5) [of db db' s] by (auto simp: open_status_def)

lemma settle_invD:
  "settle_inv db \<Longrightarrow> e \<in> set (earnings db) \<Longrightarrow> earning_ok (length (settlements db)) e"
  "settle_inv db \<Longrightarrow> s < length (settlements db) \<Longrightarrow> numeric_fits 12 (st_net (settlements db ! s))"
  "settle_inv db \<Longrightarrow> s < length (settlements db) \<Longrightarrow> open_status (st_status (settlements db ! s)) \<Longrightarrow> backed db s"
  by (auto simp: settle_inv_def list_all_iff)

lemma settle_inv_keeps:
  assumes "settle_inv db" "keeps db db'" "length (settlements db') = length (settlements db)"
    "list_all (earning_ok (length (settlements db))) (earnings db')"
  shows "settle_inv db'"
  unfolding settle_inv_def assms(3)
  using assms(4) settle_invD(2,3) [OF assms(1)] keepsD(2,6) [OF assms(2)] keeps_open [OF assms(2)] by simp

lemma earning_ok_less: "earning_ok n e \<Longrightarrow> n \<le> m \<Longrightarrow> earning_ok m e"
  by (auto simp: earning_ok_def split: option.splits)

lemma cleared_free: "earning_ok n e \<Longrightarrow> ea_status e = Cleared \<or> ea_status e = EarnPending \<Longrightarrow> ea_settlement e = None"
  by (auto simp: earning_ok_def split: option.splits)

lemma insert_earning_keeps:
  assumes "insert_earning b e db = Some db'" "ea_settlement e = None" "ea_status e = EarnPending \<or> ea_status e = Cleared"
    "settle_inv db"
  shows "keeps db db' \<and> settle_inv db' \<and> settlements db' = settlements db"
proof -
  have k: "keeps db db'" "settlements db' = settlements db"
    using assms(1,2) by (auto simp: insert_earning_def keeps_def lines_of_def split: if_splits)
  have "list_all (earning_ok (length (settlements db))) (earnings db')"
    using assms by (auto simp: insert_earning_def settle_inv_def earning_ok_def split: if_splits)
  then show ?thesis using k settle_inv_keeps [OF assms(4) k(1)] by simp
qed

lemma clear_keeps:
  assumes "settle_inv db"
  shows "keeps db (clearAvailableEarnings now db) \<and> settle_inv (clearAvailableEarnings now db)"
proof -
  let ?f = "\<lambda>e. if ea_status e = EarnPending \<and> ea_available e \<le> now then e\<lparr>ea_status := Cleared\<rparr> else e"
  have "filter (\<lambda>e. ea_settlement e = Some s) (map ?f es) = filter (\<lambda>e. ea_settlement e = Some s) es"
    if "list_all (earning_ok n) es" for s n es
    using that by (induction es) (auto simp: earning_ok_def)
  then have k: "keeps db (clearAvailableEarnings now db)"
    using assms by (auto simp: keeps_def clearAvailableEarnings_def upd_earnings_def lines_of_def settle_inv_def)
  moreover have "list_all (earning_ok (length (settlements db))) (earnings (clearAvailableEarnings now db))"
    using assms by (auto simp: settle_inv_def list_all_iff clearAvailableEarnings_def upd_earnings_def earning_ok_def split: option.splits)
  ultimately show ?thesis using settle_inv_keeps [OF assms k] by (simp add: clearAvailableEarnings_def upd_earnings_def)
qed

lemma stamp_lines:
  assumes ok: "list_all (earning_ok n) (earnings db)" and ids: "ids = filter P [0..<length (earnings db)]"
    and free: "\<And>k. k \<in> set ids \<Longrightarrow> ea_status (earnings db ! k) = Cleared"
  shows "j < n \<Longrightarrow> lines_of j (stamp ids n db) = lines_of j db"
    and "map ea_amount (lines_of n (stamp ids n db)) = map (\<lambda>k. ea_amount (earnings db ! k)) ids"
    and "list_all (earning_ok (Suc n)) (earnings (stamp ids n db))"
proof -
  let ?es = "earnings db"
  let ?g = "\<lambda>k. if k \<in> set ids then (?es ! k)\<lparr>ea_status := InPayout, ea_settlement := Some n\<rparr> else ?es ! k"
  have lok: "earning_ok n (?es ! k)" if "k < length ?es" for k using ok that by (simp add: list_all_iff)
  have none: "ea_settlement (?es ! k) = None" if "k \<in> set ids" for k
    using lok [of k] free [OF that] that cleared_free ids by auto
  have eq: "?es = map (\<lambda>k. ?es ! k) [0..<length ?es]" by (simp add: map_nth)
  have same: "map ?g (filter (\<lambda>k. ea_settlement (?g k) = Some j) ks) = map (\<lambda>k. ?es ! k) (filter (\<lambda>k. ea_settlement (?es ! k) = Some j) ks)"
    if "j < n" for j ks using that by (induction ks) (auto simp: none)
  show "lines_of j (stamp ids n db) = lines_of j db" if "j < n"
  proof -
    have "lines_of j db = filter (\<lambda>e. ea_settlement e = Some j) (map (\<lambda>k. ?es ! k) [0..<length ?es])"
      by (simp add: lines_of_def map_nth)
    then show ?thesis using same [OF that, of "[0..<length ?es]"] by (simp add: lines_of_def stamp_def filter_map o_def)
  qed
  have mem: "ea_settlement (?g k) = Some n \<longleftrightarrow> k \<in> set ids" if "k < length ?es" for k
    using lok [OF that] by (auto simp: earning_ok_def)
  have "filter (\<lambda>k. ea_settlement (?g k) = Some n) [0..<length ?es] = filter (\<lambda>k. k \<in> set ids) [0..<length ?es]"
    using mem by (intro filter_cong) auto
  also have "\<dots> = ids" unfolding ids by (intro filter_cong) auto
  finally have f: "filter (\<lambda>k. ea_settlement (?g k) = Some n) [0..<length ?es] = ids" .
  have "lines_of n (stamp ids n db) = map ?g (filter (\<lambda>k. ea_settlement (?g k) = Some n) [0..<length ?es])"
  proof -
    have "earnings (stamp ids n db) = map ?g [0..<length ?es]" by (simp add: stamp_def)
    then show ?thesis unfolding lines_of_def by (simp only: filter_map o_def)
  qed
  then show "map ea_amount (lines_of n (stamp ids n db)) = map (\<lambda>k. ea_amount (?es ! k)) ids"
    unfolding f by simp
  show "list_all (earning_ok (Suc n)) (earnings (stamp ids n db))"
    using lok earning_ok_less by (fastforce simp: stamp_def list_all_iff earning_ok_def split: option.splits)
qed

lemma open_settlement_keeps:
  assumes inv: "settle_inv db" and op: "open_settlement ids st db = Some db'"
    and ids: "ids = filter P [0..<length (earnings db)]" and free: "\<And>k. k \<in> set ids \<Longrightarrow> ea_status (earnings db ! k) = Cleared"
    and net: "st_net st = to_paise (js_total (map (\<lambda>k. ea_amount (earnings db ! k)) ids))"
  shows "keeps db db' \<and> settle_inv db' \<and> settlements db' = settlements db @ [st] \<and> backed db' (length (settlements db))"
proof -
  let ?n = "length (settlements db)"
  let ?db1 = "db\<lparr>settlements := settlements db @ [st]\<rparr>"
  have ok: "list_all (earning_ok ?n) (earnings ?db1)" using inv by (simp add: settle_inv_def)
  have e: "earnings ?db1 = earnings db" by simp
  note l = stamp_lines [OF ok, of ids P]
  have db': "db' = stamp ids ?n ?db1" and fit: "numeric_fits 12 (st_net st)"
    using op by (auto simp: open_settlement_def split: if_splits)
  have s': "settlements db' = settlements db @ [st]" by (simp add: db' stamp_def)
  have old: "lines_of j db' = lines_of j db" if "j < ?n" for j
    using l(1) [of j] that ids free by (simp add: db' lines_of_def)
  have new: "map ea_amount (lines_of ?n db') = map (\<lambda>k. ea_amount (earnings db ! k)) ids"
    using l(2) ids free by (simp add: db')
  have b: "backed db' ?n" by (simp add: backed_def s' new net)
  have k: "keeps db db'" using old by (simp add: keeps_def s' nth_append)
  have "list_all (earning_ok (Suc ?n)) (earnings db')" using l(3) ids free by (simp add: db')
  then have "settle_inv db'"
    using b fit keepsD(2,6) [OF k] keeps_open [OF k] settle_invD(2,3) [OF inv]
    by (auto simp: settle_inv_def s' less_Suc_eq)
  then show ?thesis using k s' b by simp
qed

lemma cleared_ids_free: "k \<in> set (cleared_ids d db) \<Longrightarrow> ea_status (earnings db ! k) = Cleared \<and> ea_driver (earnings db ! k) = d \<and> k < length (earnings db)"
  by (simp add: cleared_ids_def)

lemma open_cleared:
  assumes "settle_inv db" "open_settlement (cleared_ids d db) st db = Some db'" "st_net st = to_paise (cleared_total d db)"
  shows "keeps db db' \<and> settle_inv db' \<and> settlements db' = settlements db @ [st] \<and> backed db' (length (settlements db))"
  using assms by (intro open_settlement_keeps [OF assms(1,2) cleared_ids_def])
    (simp_all add: cleared_ids_free cleared_total_def)

lemma stamp_other:
  assumes "\<And>k. k \<in> set ids \<Longrightarrow> ea_driver (earnings db ! k) = d" "d \<noteq> d'"
  shows "cleared_ids d' (stamp ids n db) = cleared_ids d' db" and "cleared_total d' (stamp ids n db) = cleared_total d' db"
proof -
  let ?es = "earnings (stamp ids n db)"
  have n: "length ?es = length (earnings db)" by (simp add: stamp_def)
  have same: "ea_driver (?es ! k) = d' \<and> ea_status (?es ! k) = Cleared \<longleftrightarrow> ea_driver (earnings db ! k) = d' \<and> ea_status (earnings db ! k) = Cleared"
    "ea_amount (?es ! k) = ea_amount (earnings db ! k)" if "k < length (earnings db)" for k
    using that assms by (auto simp: stamp_def)
  show ids: "cleared_ids d' (stamp ids n db) = cleared_ids d' db"
    unfolding cleared_ids_def n using same(1) by (intro filter_cong) auto
  show "cleared_total d' (stamp ids n db) = cleared_total d' db"
    unfolding cleared_total_def ids
    by (intro arg_cong [where f = js_total] map_cong refl) (simp add: same(2) cleared_ids_free)
qed

text \<open>A row of the first pass, as the second pass finds the table.\<close>

definition sweep_of :: "settle_db \<Rightarrow> driver_sweep \<Rightarrow> bool" where
  "sweep_of db r \<longleftrightarrow> sw_ids r = cleared_ids (sw_driver r) db \<and> sw_total r = cleared_total (sw_driver r) db"

lemma sweep_after:
  assumes "open_settlement (cleared_ids d db) st db = Some db'" "sweep_of db r" "sw_driver r \<noteq> d"
  shows "sweep_of db' r"
proof -
  let ?db1 = "db\<lparr>settlements := settlements db @ [st]\<rparr>"
  have ids: "cleared_ids d ?db1 = cleared_ids d db" for d by (simp add: cleared_ids_def)
  have total: "cleared_total d ?db1 = cleared_total d db" for d by (simp add: cleared_total_def ids)
  have db': "db' = stamp (cleared_ids d db) (length (settlements db)) ?db1"
    using assms(1) by (auto simp: open_settlement_def split: if_splits)
  have own: "ea_driver (earnings ?db1 ! k) = d" if "k \<in> set (cleared_ids d db)" for k
    using cleared_ids_free [OF that] by simp
  show ?thesis using stamp_other [OF own assms(3) [symmetric]] assms(2) by (simp add: sweep_of_def db' ids total)
qed

definition batch_row :: "settlement_status \<Rightarrow> int \<Rightarrow> int \<Rightarrow> driver_sweep \<Rightarrow> settlement" where
  "batch_row st f t r = fresh_settlement (sw_driver r) f t (to_paise (sw_total r)) 0 st ScheduledRun (sw_bank r)"

lemma open_batch_rows: "open_batch st f t rows db = Some db' \<Longrightarrow> settlements db' = settlements db @ map (batch_row st f t) rows"
proof (induction rows arbitrary: db)
  case (Cons r rows)
  then obtain d1 where "open_settlement (sw_ids r) (batch_row st f t r) db = Some d1" "open_batch st f t rows d1 = Some db'"
    by (auto simp: bind_eq_Some_conv batch_row_def)
  then show ?case using Cons.IH by (auto simp: open_settlement_def stamp_def split: if_splits)
qed simp

lemma open_batch_keeps:
  assumes "settle_inv db" "open_batch st f t rows db = Some db'" "\<forall>r \<in> set rows. sweep_of db r" "distinct (map sw_driver rows)"
  shows "keeps db db' \<and> settle_inv db' \<and> (\<forall>i < length rows. backed db' (length (settlements db) + i))"
  using assms
proof (induction rows arbitrary: db)
  case (Cons r rows)
  obtain d1 where d1: "open_settlement (cleared_ids (sw_driver r) db) (batch_row st f t r) db = Some d1" and rest: "open_batch st f t rows d1 = Some db'"
    using Cons.prems(2,3) by (auto simp: sweep_of_def batch_row_def bind_eq_Some_conv)
  have net: "st_net (batch_row st f t r) = to_paise (cleared_total (sw_driver r) db)"
    using Cons.prems(3) by (simp add: sweep_of_def batch_row_def fresh_settlement_def)
  note o = open_cleared [OF Cons.prems(1) d1 net]
  have sw: "\<forall>x \<in> set rows. sweep_of d1 x"
  proof
    fix x assume x: "x \<in> set rows"
    then have "sw_driver x \<noteq> sw_driver r" using Cons.prems(4) by (metis distinct.simps(2) image_eqI list.simps(9) set_map)
    then show "sweep_of d1 x" using sweep_after [OF d1] Cons.prems(3) x by simp
  qed
  have ih: "keeps d1 db' \<and> settle_inv db' \<and> (\<forall>i < length rows. backed db' (length (settlements d1) + i))"
    using Cons.prems(4) o by (intro Cons.IH [OF _ rest sw]) auto
  have len: "length (settlements d1) = Suc (length (settlements db))" using o by simp
  have first: "backed db' (length (settlements db))"
    using o ih len keepsD(6) [of d1 db' "length (settlements db)"] by simp
  have "backed db' (length (settlements db) + i)" if "i < length (r # rows)" for i
    using first ih that len by (cases i) auto
  then show ?case using ih o keeps_trans by blast
qed simp

lemma candidates_distinct: "distinct (map fst (payout_candidates db))"
proof -
  have "map fst (concat (map (\<lambda>d. case primary_bank d db of None \<Rightarrow> [] | Some b \<Rightarrow> if on_hold d db then [] else [(d, b)]) ds))
      = filter (\<lambda>d. primary_bank d db \<noteq> None \<and> \<not> on_hold d db) ds" for ds
    by (induction ds) (auto split: option.splits)
  then show ?thesis by (simp add: payout_candidates_def)
qed

lemma per_driver_sweeps: "r \<in> set (per_driver db) \<Longrightarrow> sweep_of db r \<and> 0 < sw_total r"
  by (auto simp: per_driver_def sweep_of_def)

lemma per_driver_distinct: "distinct (map sw_driver (per_driver db))"
proof -
  have "map sw_driver (map (\<lambda>(d, b). \<lparr>sw_driver = d, sw_bank = b, sw_ids = cleared_ids d db, sw_total = cleared_total d db\<rparr>) ds) = map fst ds" for ds
    by (induction ds) auto
  then show ?thesis unfolding per_driver_def
    by (metis (no_types, lifting) candidates_distinct distinct_map_filter)
qed

lemma batch_keeps:
  assumes "settle_inv db"
  shows "keeps db (snd (runScheduledSettlementBatch limit today db)) \<and> settle_inv (snd (runScheduledSettlementBatch limit today db))"
proof (cases "open_batch (batch_status limit (per_driver db)) (today - 1) today (per_driver db) db")
  case None
  then show ?thesis using assms by (simp add: runScheduledSettlementBatch_def)
next
  case (Some db')
  then show ?thesis using open_batch_keeps [OF assms Some] per_driver_sweeps per_driver_distinct
    by (auto simp: runScheduledSettlementBatch_def)
qed

lemma cashout_keeps:
  assumes "settle_inv db"
  shows "keeps db (snd (instantCashOut en fee now today d db)) \<and> settle_inv (snd (instantCashOut en fee now today d db))"
proof (cases "\<exists>db1 db2 bank. insert_earning False (cashout_fee d fee now) db = Some db1 \<and> snd (instantCashOut en fee now today d db) = db2
    \<and> open_settlement (cleared_ids d db1) (fresh_settlement d today today (to_paise (cleared_total d db1)) (to_paise fee) Processing InstantRun bank) db1 = Some db2")
  case True
  then obtain db1 db2 bank where ins: "insert_earning False (cashout_fee d fee now) db = Some db1"
    and res: "snd (instantCashOut en fee now today d db) = db2"
    and op: "open_settlement (cleared_ids d db1) (fresh_settlement d today today (to_paise (cleared_total d db1)) (to_paise fee) Processing InstantRun bank) db1 = Some db2"
    by blast
  have k: "keeps db db1 \<and> settle_inv db1"
    using insert_earning_keeps [OF ins _ _ assms] by (simp add: cashout_fee_def)
  then show ?thesis using open_cleared [OF _ op] keeps_trans [of db db1 db2] by (simp add: res fresh_settlement_def)
next
  case False
  then have "snd (instantCashOut en fee now today d db) = db"
    unfolding instantCashOut_def Let_def by (auto split: option.splits if_splits)
  then show ?thesis using assms by simp
qed

lemma retry_keeps:
  assumes "settle_inv db"
  shows "keeps db (snd (retryFailedSettlement today s db)) \<and> settle_inv (snd (retryFailedSettlement today s db))"
proof -
  let ?old = "settlements db ! s"
  let ?st = "fresh_settlement (st_driver ?old) today today (to_paise (cleared_total (st_driver ?old) db)) 0 Processing (st_run ?old) (st_bank ?old)"
  show ?thesis
  proof (cases "open_settlement (cleared_ids (st_driver ?old) db) ?st db")
    case None
    then show ?thesis using assms by (simp add: retryFailedSettlement_def Let_def)
  next
    case (Some db')
    then show ?thesis using assms open_cleared [OF assms Some]
      by (simp add: retryFailedSettlement_def Let_def fresh_settlement_def)
  qed
qed

lemma approve_keeps:
  assumes "settle_inv db"
  shows "keeps db (snd (approveSettlementPeriod f t a db)) \<and> settle_inv (snd (approveSettlementPeriod f t a db))"
proof -
  have k: "keeps db (snd (approveSettlementPeriod f t a db))"
    by (simp add: keeps_def approveSettlementPeriod_def lines_of_def)
  moreover have "list_all (earning_ok (length (settlements db))) (earnings (snd (approveSettlementPeriod f t a db)))"
    using assms by (simp add: settle_inv_def approveSettlementPeriod_def)
  ultimately show ?thesis using settle_inv_keeps [OF assms k] by (simp add: approveSettlementPeriod_def)
qed

lemma holds_keeps: "settle_inv db \<Longrightarrow> keeps db (db\<lparr>holds := h\<rparr>) \<and> settle_inv (db\<lparr>holds := h\<rparr>)"
  by (simp add: keeps_def lines_of_def settle_inv_def backed_def)

lemma taxes_keeps: "settle_inv db \<Longrightarrow> keeps db (db\<lparr>taxes := h\<rparr>) \<and> settle_inv (db\<lparr>taxes := h\<rparr>)"
  by (simp add: keeps_def lines_of_def settle_inv_def backed_def)

lemma adjust_keeps:
  assumes "settle_inv db"
  shows "keeps db (snd (createManualAdjustment d amount now db)) \<and> settle_inv (snd (createManualAdjustment d amount now db))"
  using assms insert_earning_keeps [of False _ db, OF _ _ _ assms]
  by (auto simp: createManualAdjustment_def split: option.split)

lemma accrue_keeps:
  assumes inv: "settle_inv db"
  shows "keeps db (snd (accrueDriverEarning cfg pan now ride d pay db)) \<and> settle_inv (snd (accrueDriverEarning cfg pan now ride d pay db))"
proof (cases pay)
  case None
  then show ?thesis using inv by (simp add: accrueDriverEarning_def)
next
  case (Some k)
  let ?line = "\<lambda>ty amount key. \<lparr>ea_driver = d, ea_ride = Some ride, ea_type = ty, ea_amount = to_paise amount,
      ea_status = EarnPending, ea_available = now + ac_hold_hours cfg * 3600000, ea_settlement = None, ea_key = key\<rparr>"
  let ?tds = "tds_amount (from_paise k) (tds_rate cfg pan)"
  show ?thesis
  proof (cases "insert_earning True (?line RideFareNet (from_paise k) (FareOf ride)) db")
    case None
    then show ?thesis using inv Some by (simp add: accrueDriverEarning_def Let_def)
  next
    case a: (Some db1)
    have k1: "keeps db db1 \<and> settle_inv db1" using insert_earning_keeps [OF a _ _ inv] by simp
    have "keeps db1 db2 \<and> settle_inv db2" if "insert_earning True (?line TdsDeduction (- ?tds) (TdsOf ride)) db1 = Some dt"
      "insert_tax x dt = Some db2" for dt db2 x
    proof -
      have "keeps db1 dt \<and> settle_inv dt" using insert_earning_keeps [OF that(1)] k1 by simp
      moreover have "keeps dt db2 \<and> settle_inv db2" if "settle_inv dt"
        using \<open>insert_tax x dt = Some db2\<close> taxes_keeps [OF that] that by (auto simp: insert_tax_def split: if_splits)
      ultimately show ?thesis using keeps_trans by blast
    qed
    then show ?thesis using k1 inv Some a keeps_trans [of db db1]
      by (auto simp: accrueDriverEarning_def Let_def bind_eq_Some_conv split: option.splits)
  qed
qed

subsection \<open>Transfers at the gateway\<close>

record transfer =
  tr_id :: string
  tr_settlement :: nat
  tr_amount :: paise
  tr_returned :: bool

text \<open>
  Beside the tables and the gateway's transfers: the settlements claimed whose call has not been made yet, those whose transfer the gateway has made
  without the answer having been stored yet, and those \<^emph>\<open>in doubt\<close>: the answer to a transfer the gateway made was lost (a timeout, a bad
  body, a failed update), or the row was claimed when it was no longer processing.
\<close>

record payout_world =
  pw_db :: settle_db
  pw_transfers :: "transfer list"
  pw_claimed :: "nat list"
  pw_sent :: "(nat \<times> string) list"
  pw_doubt :: "nat list"

definition made :: "string \<Rightarrow> settlement_ref \<Rightarrow> settle_db \<Rightarrow> transfer" where
  "made pid row db = \<lparr>tr_id = pid, tr_settlement = sr_id row, tr_amount = pr_amount (payout_request_of row db), tr_returned = False\<rparr>"

text \<open>
  The steps of the two sides, with the gateway configured. A submission (\<open>submitSettlementRow\<close>) is three of them: the claim, which tests only that the row has no
  payout id, however long ago the sweep read it; the gateway's transfer; the answer. Anything may happen in between, and after a crash nothing more happens to the row.
  The gateway makes a transfer only in a call, and reports a failure or reversal only of a transfer it returned.
\<close>

inductive payout_step :: "payout_world \<Rightarrow> payout_world \<Rightarrow> bool" where
  accrued: "payout_step w (w\<lparr>pw_db := snd (accrueDriverEarning cfg pan now ride d pay (pw_db w))\<rparr>)"
| cleared: "payout_step w (w\<lparr>pw_db := clearAvailableEarnings now (pw_db w)\<rparr>)"
| batched: "payout_step w (w\<lparr>pw_db := snd (runScheduledSettlementBatch limit today (pw_db w))\<rparr>)"
| cashed_out: "payout_step w (w\<lparr>pw_db := snd (instantCashOut en fee now today d (pw_db w))\<rparr>)"
| retried: "payout_step w (w\<lparr>pw_db := snd (retryFailedSettlement today s (pw_db w))\<rparr>)"
| approved: "payout_step w (w\<lparr>pw_db := snd (approveSettlementPeriod f t a (pw_db w))\<rparr>)"
| held: "payout_step w (w\<lparr>pw_db := snd (placeDriverPayoutHold d why a (pw_db w))\<rparr>)"
| released: "payout_step w (w\<lparr>pw_db := snd (releaseDriverPayoutHold d (pw_db w))\<rparr>)"
| adjusted: "payout_step w (w\<lparr>pw_db := snd (createManualAdjustment d amount now (pw_db w))\<rparr>)"
| claimed: "0 < fst (claimSettlement s now (pw_db w)) \<Longrightarrow>
    payout_step w (w\<lparr>pw_db := snd (claimSettlement s now (pw_db w)), pw_claimed := s # pw_claimed w,
      pw_doubt := (if st_status (settlements (pw_db w) ! s) = Processing then pw_doubt w else s # pw_doubt w)\<rparr>)"
| called: "s \<in> set (pw_claimed w) \<Longrightarrow>
    payout_step w (w\<lparr>pw_transfers := made pid (ref_of (pw_db w) s) (pw_db w) # pw_transfers w, pw_claimed := remove1 s (pw_claimed w), pw_sent := (s, pid) # pw_sent w\<rparr>)"
| accepted: "(s, pid) \<in> set (pw_sent w) \<Longrightarrow>
    payout_step w (w\<lparr>pw_db := payout_answered s (PayoutAccepted pid) (pw_db w), pw_sent := remove1 (s, pid) (pw_sent w)\<rparr>)"
| refused: "s \<in> set (pw_claimed w) \<Longrightarrow> answer = Refused why \<or> answer = NoAnswer \<Longrightarrow>
    payout_step w (w\<lparr>pw_db := payout_answered s answer (pw_db w), pw_claimed := remove1 s (pw_claimed w)\<rparr>)"
| lost_answer: "(s, pid) \<in> set (pw_sent w) \<Longrightarrow>
    payout_step w (w\<lparr>pw_db := payout_answered s NoAnswer (pw_db w), pw_sent := remove1 (s, pid) (pw_sent w), pw_doubt := s # pw_doubt w\<rparr>)"
| refused_half: "s \<in> set (pw_claimed w) \<Longrightarrow>
    payout_step w (w\<lparr>pw_db := submit_half_failed s why (pw_db w), pw_claimed := remove1 s (pw_claimed w)\<rparr>)"
| lost_half: "(s, pid) \<in> set (pw_sent w) \<Longrightarrow>
    payout_step w (w\<lparr>pw_db := submit_half_failed s why (pw_db w), pw_sent := remove1 (s, pid) (pw_sent w), pw_doubt := s # pw_doubt w\<rparr>)"
| returned: "payout_step w (w\<lparr>pw_transfers := map (\<lambda>t. if tr_id t = pid then t\<lparr>tr_returned := True\<rparr> else t) (pw_transfers w)\<rparr>)"
| processed_event: "payout_step w (w\<lparr>pw_db := payoutProcessed s pid utr (pw_db w)\<rparr>)"
| failed_event: "t \<in> set (pw_transfers w) \<Longrightarrow> tr_settlement t = s \<Longrightarrow> tr_returned t
    \<Longrightarrow> payout_step w (w\<lparr>pw_db := payoutFailed s pid why (pw_db w)\<rparr>)"

text \<open>The three steps of an answered submission are \<open>submitSettlementRow\<close>.\<close>

lemma submission_steps:
  "submitSettlementRow False gateway now row db = (if 0 < fst (claimSettlement (sr_id row) now db)
     then payout_answered (sr_id row) (gateway (payout_request_of row (snd (claimSettlement (sr_id row) now db)))) (snd (claimSettlement (sr_id row) now db)) else db)"
  by (simp add: submitSettlementRow_def split: prod.split)

text \<open>A transfer of a settlement not in doubt; a claimed settlement; and the whole.\<close>

definition transfer_ok :: "nat list \<Rightarrow> settle_db \<Rightarrow> transfer \<Rightarrow> bool" where
  "transfer_ok doubt db t \<longleftrightarrow> tr_settlement t < length (settlements db) \<and> (tr_settlement t \<in> set doubt \<or> st_payout (settlements db ! tr_settlement t) \<noteq> None
     \<and> (\<not> tr_returned t \<longrightarrow> st_status (settlements db ! tr_settlement t) \<in> {Processing, SettleCompleted}
          \<and> backed db (tr_settlement t) \<and> tr_amount t = st_net (settlements db ! tr_settlement t)))"

definition under_claim :: "nat list \<Rightarrow> settle_db \<Rightarrow> nat \<Rightarrow> bool" where
  "under_claim doubt db s \<longleftrightarrow> s < length (settlements db) \<and> (\<exists>n. st_payout (settlements db ! s) = Some (Placeholder s n))
     \<and> (s \<in> set doubt \<or> st_status (settlements db ! s) = Processing)"

definition calls :: "payout_world \<Rightarrow> nat list" where
  "calls w = pw_claimed w @ map fst (pw_sent w)"

definition sure :: "payout_world \<Rightarrow> nat list" where
  "sure w = map tr_settlement (filter (\<lambda>t. tr_settlement t \<notin> set (pw_doubt w)) (pw_transfers w))"

definition payout_inv :: "payout_world \<Rightarrow> bool" where
  "payout_inv w \<longleftrightarrow> settle_inv (pw_db w) \<and> distinct (calls w) \<and> list_all (under_claim (pw_doubt w) (pw_db w)) (calls w)
     \<and> distinct (sure w) \<and> set (pw_claimed w) \<inter> set (sure w) = {} \<and> list_all (transfer_ok (pw_doubt w) (pw_db w)) (pw_transfers w)"

lemma payout_invI:
  assumes "settle_inv (pw_db w)" "distinct (calls w)" "\<And>s. s \<in> set (calls w) \<Longrightarrow> under_claim (pw_doubt w) (pw_db w) s"
    "distinct (sure w)" "\<And>s. s \<in> set (pw_claimed w) \<Longrightarrow> s \<notin> set (sure w)" "\<And>t. t \<in> set (pw_transfers w) \<Longrightarrow> transfer_ok (pw_doubt w) (pw_db w) t"
  shows "payout_inv w"
  using assms by (auto simp: payout_inv_def list_all_iff)

lemma payout_invD:
  assumes "payout_inv w"
  shows "settle_inv (pw_db w)" "distinct (calls w)" "\<And>s. s \<in> set (calls w) \<Longrightarrow> under_claim (pw_doubt w) (pw_db w) s"
    "distinct (sure w)" "\<And>s. s \<in> set (pw_claimed w) \<Longrightarrow> s \<notin> set (sure w)" "\<And>t. t \<in> set (pw_transfers w) \<Longrightarrow> transfer_ok (pw_doubt w) (pw_db w) t"
  using assms by (auto simp: payout_inv_def list_all_iff)

lemma transfer_keeps: "keeps db db' \<Longrightarrow> transfer_ok D db t \<Longrightarrow> transfer_ok D db' t"
  using keepsD [of db db' "tr_settlement t"] by (auto simp: transfer_ok_def)

lemma claim_keeps: "keeps db db' \<Longrightarrow> under_claim D db s \<Longrightarrow> under_claim D db' s"
  using keepsD [of db db' s] by (auto simp: under_claim_def)

lemma inv_keeps:
  assumes inv: "payout_inv w" and db': "keeps (pw_db w) db' \<and> settle_inv db'"
  shows "payout_inv (w\<lparr>pw_db := db'\<rparr>)"
proof (rule payout_invI)
  note i = payout_invD [OF inv]
  have c: "calls (w\<lparr>pw_db := db'\<rparr>) = calls w" and u: "sure (w\<lparr>pw_db := db'\<rparr>) = sure w" by (simp_all add: calls_def sure_def)
  show "distinct (calls (w\<lparr>pw_db := db'\<rparr>))" "distinct (sure (w\<lparr>pw_db := db'\<rparr>))" unfolding c u by (fact i(2), fact i(4))
  show "under_claim (pw_doubt (w\<lparr>pw_db := db'\<rparr>)) (pw_db (w\<lparr>pw_db := db'\<rparr>)) s" if "s \<in> set (calls (w\<lparr>pw_db := db'\<rparr>))" for s
    using claim_keeps [OF conjunct1 [OF db'] i(3)] that unfolding c by simp
  show "s \<notin> set (sure (w\<lparr>pw_db := db'\<rparr>))" if "s \<in> set (pw_claimed (w\<lparr>pw_db := db'\<rparr>))" for s using i(5) that unfolding u by simp
  show "transfer_ok (pw_doubt (w\<lparr>pw_db := db'\<rparr>)) (pw_db (w\<lparr>pw_db := db'\<rparr>)) t" if "t \<in> set (pw_transfers (w\<lparr>pw_db := db'\<rparr>))" for t
    using transfer_keeps [OF conjunct1 [OF db'] i(6)] that by simp
qed (use db' in simp)

text \<open>Writing one settlement and the lines that are its own: what the other settlements are owed stays as it is.\<close>

definition writes :: "settle_db \<Rightarrow> nat \<Rightarrow> settle_db \<Rightarrow> bool" where
  "writes db s db' \<longleftrightarrow> s < length (settlements db) \<and> length (settlements db') = length (settlements db)
     \<and> (\<forall>j. j \<noteq> s \<longrightarrow> settlements db' ! j = settlements db ! j \<and> lines_of j db' = lines_of j db)
     \<and> st_net (settlements db' ! s) = st_net (settlements db ! s) \<and> list_all (earning_ok (length (settlements db))) (earnings db')
     \<and> (open_status (st_status (settlements db' ! s)) \<longrightarrow> backed db' s)"

lemma writes_settle_inv:
  assumes i: "settle_inv db" and w: "writes db s db'"
  shows "settle_inv db'"
proof -
  have "numeric_fits 12 (st_net (settlements db' ! j)) \<and> (open_status (st_status (settlements db' ! j)) \<longrightarrow> backed db' j)"
    if j: "j < length (settlements db)" for j
  proof (cases "j = s")
    case True
    then show ?thesis using w settle_invD(2) [OF i j] by (simp add: writes_def)
  next
    case False
    then have "settlements db' ! j = settlements db ! j" "lines_of j db' = lines_of j db" using w by (simp_all add: writes_def)
    then show ?thesis using settle_invD(2,3) [OF i j] by (simp add: backed_def)
  qed
  then show ?thesis using w by (simp add: settle_inv_def writes_def)
qed

lemma writes_others:
  assumes "writes db s db'" "j \<noteq> s"
  shows "under_claim D db' j = under_claim D db j" "tr_settlement t = j \<Longrightarrow> transfer_ok D db' t = transfer_ok D db t"
  using assms by (auto simp: writes_def under_claim_def transfer_ok_def backed_def)

lemma doubt_more:
  "set D \<subseteq> set D' \<Longrightarrow> under_claim D db s \<Longrightarrow> under_claim D' db s" "set D \<subseteq> set D' \<Longrightarrow> transfer_ok D db t \<Longrightarrow> transfer_ok D' db t"
  by (auto simp: under_claim_def transfer_ok_def)

lemma sure_more:
  assumes "set (pw_doubt w) \<subseteq> set (pw_doubt w')" "pw_transfers w' = pw_transfers w"
  shows "distinct (sure w) \<Longrightarrow> distinct (sure w')" "set (sure w') \<subseteq> set (sure w)"
proof -
  have e: "sure w' = filter (\<lambda>s. s \<notin> set (pw_doubt w')) (sure w)"
    unfolding sure_def filter_map filter_filter assms(2) o_def using assms(1) by (intro arg_cong [where f = "map _"] filter_cong) auto
  show "distinct (sure w) \<Longrightarrow> distinct (sure w')" "set (sure w') \<subseteq> set (sure w)" unfolding e by auto
qed

text \<open>A step that writes settlement \<open>s\<close>, may end its call and may put it in doubt.\<close>

lemma writes_inv:
  assumes inv: "payout_inv w" and db: "writes (pw_db w) s (pw_db w')"
    and doubt: "set (pw_doubt w) \<subseteq> set (pw_doubt w')" and tr: "pw_transfers w' = pw_transfers w"
    and calls: "distinct (calls w')" "set (calls w') \<subseteq> insert s (set (calls w))" "set (pw_claimed w') \<subseteq> insert s (set (pw_claimed w))"
    and own: "s \<in> set (calls w') \<Longrightarrow> under_claim (pw_doubt w') (pw_db w') s" "s \<in> set (pw_claimed w') \<Longrightarrow> s \<notin> set (sure w')"
      "\<And>t. t \<in> set (pw_transfers w) \<Longrightarrow> tr_settlement t = s \<Longrightarrow> transfer_ok (pw_doubt w') (pw_db w') t"
  shows "payout_inv w'"
proof (rule payout_invI)
  note i = payout_invD [OF inv]
  show "settle_inv (pw_db w')" by (rule writes_settle_inv [OF i(1) db])
  show "distinct (calls w')" by (fact calls(1))
  show "distinct (sure w')" by (rule sure_more(1) [OF doubt tr i(4)])
  show "under_claim (pw_doubt w') (pw_db w') j" if "j \<in> set (calls w')" for j
    using that own(1) calls(2) writes_others(1) [OF db, of j] doubt_more(1) [OF doubt i(3) [of j]] by (cases "j = s") auto
  show "j \<notin> set (sure w')" if "j \<in> set (pw_claimed w')" for j
    using that own(2) calls(3) i(5) [of j] sure_more(2) [OF doubt tr] by (cases "j = s") auto
  show "transfer_ok (pw_doubt w') (pw_db w') t" if "t \<in> set (pw_transfers w')" for t
    using that own(3) writes_others(2) [OF db _ refl, of t] doubt_more(2) [OF doubt i(6) [of t]] unfolding tr by (cases "tr_settlement t = s") auto
qed

lemma calls_under: "payout_inv w \<Longrightarrow> s \<in> set (calls w) \<Longrightarrow> s < length (settlements (pw_db w)) \<and> (\<exists>n. st_payout (settlements (pw_db w) ! s) = Some (Placeholder s n))
    \<and> (s \<in> set (pw_doubt w) \<or> st_status (settlements (pw_db w) ! s) = Processing)"
  using payout_invD(3) by (auto simp: under_claim_def)

lemma claimed_no_transfer: "payout_inv w \<Longrightarrow> s \<in> set (pw_claimed w) \<Longrightarrow> t \<in> set (pw_transfers w) \<Longrightarrow> tr_settlement t = s \<Longrightarrow> s \<in> set (pw_doubt w)"
  using payout_invD(5) by (fastforce simp: sure_def)

lemma upd_writes:
  assumes "settle_inv db" "s < length (settlements db)" "st_net x = st_net (settlements db ! s)"
    "open_status (st_status x) \<Longrightarrow> open_status (st_status (settlements db ! s))"
  shows "writes db s (db\<lparr>settlements := (settlements db)[s := x]\<rparr>)"
proof -
  have l: "lines_of j (db\<lparr>settlements := (settlements db)[s := x]\<rparr>) = lines_of j db" for j by (simp add: lines_of_def)
  show ?thesis using assms settle_invD(3) [OF assms(1,2)] by (auto simp: writes_def settle_inv_def backed_def l)
qed

lemma released_lines:
  "j \<noteq> s \<Longrightarrow> filter (\<lambda>e. ea_settlement e = Some j) (map (\<lambda>e. if ea_settlement e = Some s \<and> p e then e\<lparr>ea_status := Cleared, ea_settlement := None\<rparr> else e) es)
     = filter (\<lambda>e. ea_settlement e = Some j) es"
  by (induction es) auto

lemma released_ok:
  "list_all (earning_ok n) es \<Longrightarrow> list_all (earning_ok n) (map (\<lambda>e. if ea_settlement e = Some s \<and> p e then e\<lparr>ea_status := Cleared, ea_settlement := None\<rparr> else e) es)"
  by (auto simp: list_all_iff earning_ok_def)

lemma release_writes:
  assumes "settle_inv db" "s < length (settlements db)" "st_net x = st_net (settlements db ! s)" "\<not> open_status (st_status x)"
  shows "writes db s (upd_earnings (\<lambda>e. ea_settlement e = Some s \<and> p e) (\<lambda>e. e\<lparr>ea_status := Cleared, ea_settlement := None\<rparr>) (db\<lparr>settlements := (settlements db)[s := x]\<rparr>))"
  using assms released_ok [of "length (settlements db)" "earnings db" s p] released_lines [of _ s p "earnings db"]
  by (auto simp: writes_def upd_earnings_def lines_of_def settle_inv_def)

lemma submit_failed_writes: "settle_inv db \<Longrightarrow> s < length (settlements db) \<Longrightarrow> writes db s (submit_failed s why db)"
  using release_writes [of db s "(settlements db ! s)\<lparr>st_status := SettleFailed, st_code := Some (mapPayoutFailureCode why), st_payout := None\<rparr>" "\<lambda>_. True"]
  by (simp add: submit_failed_def upd_settlement_def open_status_def)

lemma submit_half_writes: "settle_inv db \<Longrightarrow> s < length (settlements db) \<Longrightarrow> writes db s (submit_half_failed s why db)"
  using upd_writes [of db s "(settlements db ! s)\<lparr>st_status := SettleFailed, st_code := Some (mapPayoutFailureCode why), st_payout := None\<rparr>"]
  by (simp add: submit_half_failed_def upd_settlement_def open_status_def)

lemma remove_claimed: "distinct (calls w) \<Longrightarrow> s \<in> set (pw_claimed w) \<Longrightarrow> distinct (calls (w\<lparr>pw_db := db', pw_claimed := remove1 s (pw_claimed w)\<rparr>))
    \<and> s \<notin> set (calls (w\<lparr>pw_db := db', pw_claimed := remove1 s (pw_claimed w)\<rparr>))
    \<and> set (calls (w\<lparr>pw_db := db', pw_claimed := remove1 s (pw_claimed w)\<rparr>)) \<subseteq> set (calls w)"
  using set_remove1_subset [of s "pw_claimed w"] by (auto simp: calls_def distinct_remove1)

lemma remove_sent:
  assumes "distinct (xs @ map fst ps)" "(s, pid) \<in> set ps"
  shows "distinct (xs @ map fst (remove1 (s, pid) ps))" "s \<notin> set (xs @ map fst (remove1 (s, pid) ps))"
    "set (xs @ map fst (remove1 (s, pid) ps)) \<subseteq> set (xs @ map fst ps)"
proof -
  have d: "distinct ps" using assms(1) by (simp add: distinct_map)
  have sub: "set (remove1 (s, pid) ps) = set ps - {(s, pid)}" by (rule set_remove1_eq [OF d])
  show "set (xs @ map fst (remove1 (s, pid) ps)) \<subseteq> set (xs @ map fst ps)" by (auto simp: sub)
  show "s \<notin> set (xs @ map fst (remove1 (s, pid) ps))"
  proof -
    have inj: "inj_on fst (set ps)" "s \<notin> set xs" using assms by (force simp: distinct_map)+
    then have "\<not> (\<exists>q. (s, q) \<in> set ps - {(s, pid)})" using assms(2) inj_onD [OF inj(1), of "(s, pid)"] by fastforce
    then show ?thesis using inj(2) by (auto simp: sub)
  qed
  show "distinct (xs @ map fst (remove1 (s, pid) ps))"
    using assms(1) d by (auto simp: sub distinct_map distinct_remove1 intro: inj_on_subset)
qed

lemma refused_inv:
  assumes inv: "payout_inv w" and s: "s \<in> set (pw_claimed w)" and db': "writes (pw_db w) s db'"
  shows "payout_inv (w\<lparr>pw_db := db', pw_claimed := remove1 s (pw_claimed w)\<rparr>)"
proof -
  note r = remove_claimed [OF payout_invD(2) [OF inv] s, of db']
  have len: "length (settlements db') = length (settlements (pw_db w))" using db' by (simp add: writes_def)
  show ?thesis
  proof (rule writes_inv [OF inv, of s])
    show "transfer_ok (pw_doubt (w\<lparr>pw_db := db', pw_claimed := remove1 s (pw_claimed w)\<rparr>)) (pw_db (w\<lparr>pw_db := db', pw_claimed := remove1 s (pw_claimed w)\<rparr>)) t"
      if "t \<in> set (pw_transfers w)" "tr_settlement t = s" for t
      using claimed_no_transfer [OF inv s that] payout_invD(6) [OF inv that(1)] that(2) len by (simp add: transfer_ok_def)
    show "set (pw_claimed (w\<lparr>pw_db := db', pw_claimed := remove1 s (pw_claimed w)\<rparr>)) \<subseteq> insert s (set (pw_claimed w))"
      using set_remove1_subset [of s "pw_claimed w"] by auto
  qed (use r db' in \<open>auto simp: calls_def\<close>)
qed

lemma lost_inv:
  assumes inv: "payout_inv w" and s: "(s, pid) \<in> set (pw_sent w)" and db': "writes (pw_db w) s db'"
  shows "payout_inv (w\<lparr>pw_db := db', pw_sent := remove1 (s, pid) (pw_sent w), pw_doubt := s # pw_doubt w\<rparr>)"
proof -
  let ?w = "w\<lparr>pw_db := db', pw_sent := remove1 (s, pid) (pw_sent w), pw_doubt := s # pw_doubt w\<rparr>"
  have c: "calls ?w = pw_claimed w @ map fst (remove1 (s, pid) (pw_sent w))" by (simp add: calls_def)
  note r = remove_sent [OF payout_invD(2) [OF inv, unfolded calls_def] s, folded c]
  have len: "length (settlements db') = length (settlements (pw_db w))" using db' by (simp add: writes_def)
  show ?thesis
  proof (rule writes_inv [OF inv, of s])
    show "transfer_ok (pw_doubt ?w) (pw_db ?w) t" if "t \<in> set (pw_transfers w)" "tr_settlement t = s" for t
      using payout_invD(6) [OF inv that(1)] that(2) len by (simp add: transfer_ok_def)
    show "set (calls ?w) \<subseteq> insert s (set (calls w))" using r(3) unfolding calls_def [of w] by blast
    show "s \<notin> set (sure ?w)" by (auto simp: sure_def)
  qed (use r db' in \<open>auto simp: calls_def\<close>)
qed

lemma accepted_inv:
  assumes inv: "payout_inv w" and s: "(s, pid) \<in> set (pw_sent w)"
  shows "payout_inv (w\<lparr>pw_db := payout_answered s (PayoutAccepted pid) (pw_db w), pw_sent := remove1 (s, pid) (pw_sent w)\<rparr>)"
proof -
  let ?w = "w\<lparr>pw_db := payout_answered s (PayoutAccepted pid) (pw_db w), pw_sent := remove1 (s, pid) (pw_sent w)\<rparr>"
  have c: "calls ?w = pw_claimed w @ map fst (remove1 (s, pid) (pw_sent w))" by (simp add: calls_def)
  note r = remove_sent [OF payout_invD(2) [OF inv, unfolded calls_def] s, folded c]
  have u: "s < length (settlements (pw_db w))" using calls_under [OF inv, of s] s by (force simp: calls_def)
  have eq: "payout_answered s (PayoutAccepted pid) (pw_db w) = (pw_db w)\<lparr>settlements := (settlements (pw_db w))[s := (settlements (pw_db w) ! s)\<lparr>st_payout := Some (GatewayPayout pid)\<rparr>]\<rparr>"
    using u by (simp add: payout_answered_def upd_settlement_def)
  show ?thesis
  proof (rule writes_inv [OF inv, of s])
    show "writes (pw_db w) s (pw_db ?w)"
      using upd_writes [OF payout_invD(1) [OF inv] u, of "(settlements (pw_db w) ! s)\<lparr>st_payout := Some (GatewayPayout pid)\<rparr>"] by (simp add: eq)
    show "transfer_ok (pw_doubt ?w) (pw_db ?w) t" if "t \<in> set (pw_transfers w)" "tr_settlement t = s" for t
      using payout_invD(6) [OF inv that(1)] that(2) u by (auto simp: transfer_ok_def eq backed_def lines_of_def)
    show "set (calls ?w) \<subseteq> insert s (set (calls w))" using r(3) unfolding calls_def [of w] by blast
    show "s \<notin> set (sure ?w)" if "s \<in> set (pw_claimed ?w)" using r(2) that unfolding c by simp
  qed (use r in \<open>auto simp: calls_def\<close>)
qed

lemma claimed_inv:
  assumes inv: "payout_inv w" and hit: "0 < fst (claimSettlement s now (pw_db w))"
  shows "payout_inv (w\<lparr>pw_db := snd (claimSettlement s now (pw_db w)), pw_claimed := s # pw_claimed w,
      pw_doubt := (if st_status (settlements (pw_db w) ! s) = Processing then pw_doubt w else s # pw_doubt w)\<rparr>)"
    (is "payout_inv ?w")
proof -
  have h: "s < length (settlements (pw_db w))" "st_payout (settlements (pw_db w) ! s) = None"
    using hit by (auto simp: claimSettlement_def upd_settlement_def split: if_splits)
  have eq: "snd (claimSettlement s now (pw_db w)) = (pw_db w)\<lparr>settlements := (settlements (pw_db w))[s := (settlements (pw_db w) ! s)\<lparr>st_payout := Some (Placeholder s now)\<rparr>]\<rparr>"
    using h by (simp add: claimSettlement_def upd_settlement_def)
  have new: "s \<notin> set (calls w)" using calls_under [OF inv, of s] h(2) by auto
  have none: "s \<in> set (pw_doubt w)" if "t \<in> set (pw_transfers w)" "tr_settlement t = s" for t
    using payout_invD(6) [OF inv that(1)] that(2) h(2) by (auto simp: transfer_ok_def)
  show ?thesis
  proof (rule writes_inv [OF inv, of s])
    show "writes (pw_db w) s (pw_db ?w)"
      using upd_writes [OF payout_invD(1) [OF inv] h(1), of "(settlements (pw_db w) ! s)\<lparr>st_payout := Some (Placeholder s now)\<rparr>"] by (simp add: eq)
    show "distinct (calls ?w)" using new payout_invD(2) [OF inv] by (simp add: calls_def)
    show "under_claim (pw_doubt ?w) (pw_db ?w) s" using h by (simp add: under_claim_def eq)
    show "s \<notin> set (sure ?w)" using none by (auto simp: sure_def)
    show "transfer_ok (pw_doubt ?w) (pw_db ?w) t" if "t \<in> set (pw_transfers w)" "tr_settlement t = s" for t
      using none [OF that] that(2) h(1) by (simp add: transfer_ok_def eq)
  qed (auto simp: calls_def)
qed

lemma called_inv:
  assumes inv: "payout_inv w" and s: "s \<in> set (pw_claimed w)"
  shows "payout_inv (w\<lparr>pw_transfers := made pid (ref_of (pw_db w) s) (pw_db w) # pw_transfers w, pw_claimed := remove1 s (pw_claimed w), pw_sent := (s, pid) # pw_sent w\<rparr>)"
    (is "payout_inv ?w")
proof (rule payout_invI)
  note i = payout_invD [OF inv]
  let ?t = "made pid (ref_of (pw_db w) s) (pw_db w)"
  have u: "s < length (settlements (pw_db w))" "\<exists>n. st_payout (settlements (pw_db w) ! s) = Some (Placeholder s n)"
    "s \<in> set (pw_doubt w) \<or> st_status (settlements (pw_db w) ! s) = Processing"
    using calls_under [OF inv, of s] s by (auto simp: calls_def)
  have d: "distinct (pw_claimed w)" using i(2) by (simp add: calls_def)
  have c: "set (calls ?w) = set (calls w)" using s d by (auto simp: calls_def)
  have fit: "paise_ok (st_net (settlements (pw_db w) ! s))"
    using settle_invD(2) [OF i(1) u(1)] by (auto simp: numeric_fits_def paise_ok_def)
  have "js_round (fmul (from_paise (st_net (settlements (pw_db w) ! s))) 100) = st_net (settlements (pw_db w) ! s)"
    using from_paise_error [OF fit] by (intro cents_near [OF _ fit]) auto
  then have t: "tr_settlement ?t = s" "tr_amount ?t = st_net (settlements (pw_db w) ! s)"
    by (simp_all add: made_def ref_of_def payout_request_of_def)
  show "settle_inv (pw_db ?w)" using i(1) by simp
  show "distinct (calls ?w)" using i(2) s by (auto simp: calls_def distinct_remove1)
  show "under_claim (pw_doubt ?w) (pw_db ?w) j" if "j \<in> set (calls ?w)" for j using i(3) that unfolding c by simp
  show "distinct (sure ?w)" using i(4,5) s t(1) by (auto simp: sure_def)
  show "j \<notin> set (sure ?w)" if "j \<in> set (pw_claimed ?w)" for j using i(5) that t(1) d by (auto simp: sure_def)
  show "transfer_ok (pw_doubt ?w) (pw_db ?w) x" if "x \<in> set (pw_transfers ?w)" for x
    using that i(6) [of x] t u settle_invD(3) [OF i(1) u(1)] by (auto simp: transfer_ok_def open_status_def)
qed

lemma gateway_not_called: "payout_inv w \<Longrightarrow> st_payout (settlements (pw_db w) ! s) = Some (GatewayPayout pid) \<Longrightarrow> s \<notin> set (calls w)"
  using calls_under [of w s] by auto

lemma event_inv:
  assumes inv: "payout_inv w" and db': "writes (pw_db w) s db'" and gw: "st_payout (settlements (pw_db w) ! s) = Some (GatewayPayout pid)"
    and tr: "\<And>t. t \<in> set (pw_transfers w) \<Longrightarrow> tr_settlement t = s \<Longrightarrow> transfer_ok (pw_doubt w) db' t"
  shows "payout_inv (w\<lparr>pw_db := db'\<rparr>)"
  using gateway_not_called [OF inv gw] payout_invD(2) [OF inv] db' tr
  by (intro writes_inv [OF inv, of s]) (auto simp: calls_def)

lemma processed_inv:
  assumes inv: "payout_inv w"
  shows "payout_inv (w\<lparr>pw_db := payoutProcessed s pid u (pw_db w)\<rparr>)"
proof (cases "s < length (settlements (pw_db w)) \<and> st_status (settlements (pw_db w) ! s) \<noteq> SettleCompleted
    \<and> st_payout (settlements (pw_db w) ! s) = Some (GatewayPayout pid)")
  case True
  then have s: "s < length (settlements (pw_db w))" by simp
  let ?x = "(settlements (pw_db w) ! s)\<lparr>st_status := SettleCompleted, st_utr := map_option BankUtr u\<rparr>"
  let ?f = "\<lambda>e :: earning. if ea_settlement e = Some s \<and> ea_status e = InPayout then e\<lparr>ea_status := Paid\<rparr> else e"
  let ?db = "payoutProcessed s pid u (pw_db w)"
  have eq: "?db = (pw_db w)\<lparr>settlements := (settlements (pw_db w))[s := ?x], earnings := map ?f (earnings (pw_db w))\<rparr>"
    using True by (simp add: payoutProcessed_def upd_settlement_def upd_earnings_def)
  note i = payout_invD(1) [OF inv]
  have l: "j \<noteq> s \<Longrightarrow> filter (\<lambda>e. ea_settlement e = Some j) (map ?f es) = filter (\<lambda>e. ea_settlement e = Some j) es"
    "map ea_amount (filter (\<lambda>e. ea_settlement e = Some s) (map ?f es)) = map ea_amount (filter (\<lambda>e. ea_settlement e = Some s) es)" for j es
    by (induction es) auto
  have same: "backed ?db s = backed (pw_db w) s" unfolding backed_def lines_of_def eq using s l(2) by simp
  have "list_all (earning_ok (length (settlements (pw_db w)))) (map ?f (earnings (pw_db w)))"
    using i by (auto simp: settle_inv_def list_all_iff earning_ok_def split: option.splits)
  then have "writes (pw_db w) s ?db" using s l(1) by (simp add: writes_def eq lines_of_def open_status_def)
  then show ?thesis
  proof (rule event_inv [OF inv])
    show "transfer_ok (pw_doubt w) ?db t" if t: "t \<in> set (pw_transfers w)" "tr_settlement t = s" for t
      using payout_invD(6) [OF inv t(1)] t(2) s same unfolding transfer_ok_def by (auto simp: eq)
  qed (use True in simp)
next
  case False
  then have "payoutProcessed s pid u (pw_db w) = pw_db w" by (auto simp: payoutProcessed_def upd_settlement_def)
  then show ?thesis using inv by simp
qed

lemma sure_single:
  assumes "payout_inv w" "t \<in> set (pw_transfers w)" "t' \<in> set (pw_transfers w)" "tr_settlement t = s" "tr_settlement t' = s" "s \<notin> set (pw_doubt w)"
  shows "t' = t"
  using payout_invD(4) [OF assms(1)] assms(2-6) by (auto simp: sure_def distinct_map inj_on_def)

lemma failed_inv:
  assumes inv: "payout_inv w" and t: "t \<in> set (pw_transfers w)" "tr_settlement t = s" "tr_returned t"
  shows "payout_inv (w\<lparr>pw_db := payoutFailed s pid why (pw_db w)\<rparr>)"
proof (cases "s < length (settlements (pw_db w)) \<and> st_status (settlements (pw_db w) ! s) \<noteq> SettleCompleted
    \<and> st_payout (settlements (pw_db w) ! s) = Some (GatewayPayout pid)")
  case True
  then have s: "s < length (settlements (pw_db w))" by simp
  let ?x = "(settlements (pw_db w) ! s)\<lparr>st_status := SettleFailed, st_code := Some (mapPayoutFailureCode why)\<rparr>"
  let ?db = "payoutFailed s pid why (pw_db w)"
  have eq: "?db = upd_earnings (\<lambda>e. ea_settlement e = Some s \<and> ea_status e = InPayout) (\<lambda>e. e\<lparr>ea_status := Cleared, ea_settlement := None\<rparr>)
      ((pw_db w)\<lparr>settlements := (settlements (pw_db w))[s := ?x]\<rparr>)"
    using True by (simp add: payoutFailed_def upd_settlement_def)
  have wr: "writes (pw_db w) s ?db" unfolding eq using s by (intro release_writes payout_invD(1) [OF inv]) (simp_all add: open_status_def)
  show ?thesis
  proof (rule event_inv [OF inv wr])
    show "transfer_ok (pw_doubt w) ?db t'" if t': "t' \<in> set (pw_transfers w)" "tr_settlement t' = s" for t'
    proof (cases "s \<in> set (pw_doubt w)")
      case False
      then have "t' = t" using sure_single [OF inv t(1) t'(1) t(2) t'(2)] by simp
      then show ?thesis using t s True by (simp add: transfer_ok_def eq upd_earnings_def)
    qed (use t' s in \<open>simp add: transfer_ok_def eq upd_earnings_def\<close>)
  qed (use True in simp)
next
  case False
  then have "payoutFailed s pid why (pw_db w) = pw_db w" by (auto simp: payoutFailed_def upd_settlement_def)
  then show ?thesis using inv by simp
qed

lemma returned_inv:
  assumes inv: "payout_inv w"
  shows "payout_inv (w\<lparr>pw_transfers := map (\<lambda>t. if tr_id t = pid then t\<lparr>tr_returned := True\<rparr> else t) (pw_transfers w)\<rparr>)" (is "payout_inv ?w")
proof -
  have "map tr_settlement (filter (\<lambda>t. tr_settlement t \<notin> D) (map (\<lambda>t. if tr_id t = pid then t\<lparr>tr_returned := True\<rparr> else t) ts))
      = map tr_settlement (filter (\<lambda>t. tr_settlement t \<notin> D) ts)" for D and ts :: "transfer list" by (induction ts) auto
  then have u: "sure ?w = sure w" by (simp add: sure_def)
  have c: "calls ?w = calls w" by (simp add: calls_def)
  show ?thesis using inv unfolding payout_inv_def u c by (auto simp: transfer_ok_def list_all_iff)
qed

lemma payout_step_inv: "payout_step w w' \<Longrightarrow> payout_inv w \<Longrightarrow> payout_inv w'"
proof (induction rule: payout_step.induct)
  case (accrued w cfg pan now ride d pay)
  then show ?case by (intro inv_keeps accrue_keeps payout_invD(1))
next
  case (cleared w now)
  then show ?case by (intro inv_keeps clear_keeps payout_invD(1))
next
  case (batched w limit today)
  then show ?case by (intro inv_keeps batch_keeps payout_invD(1))
next
  case (cashed_out w en fee now today d)
  then show ?case by (intro inv_keeps cashout_keeps payout_invD(1))
next
  case (retried w today s)
  then show ?case by (intro inv_keeps retry_keeps payout_invD(1))
next
  case (approved w f t a)
  then show ?case by (intro inv_keeps approve_keeps payout_invD(1))
next
  case (held w d why a)
  then show ?case by (intro inv_keeps) (auto simp: payout_inv_def placeDriverPayoutHold_def dest: holds_keeps)
next
  case (released w d)
  then show ?case by (intro inv_keeps) (auto simp: payout_inv_def releaseDriverPayoutHold_def dest: holds_keeps)
next
  case (adjusted w d amount now)
  then show ?case by (intro inv_keeps adjust_keeps payout_invD(1))
next
  case (claimed s now w)
  then show ?case by (intro claimed_inv)
next
  case (called s w pid)
  then show ?case by (intro called_inv)
next
  case (accepted s pid w)
  then show ?case by (intro accepted_inv)
next
  case (refused s w answer why)
  then have "s < length (settlements (pw_db w))" using calls_under [of w s] by (auto simp: calls_def)
  then have "writes (pw_db w) s (payout_answered s answer (pw_db w))"
    using refused submit_failed_writes payout_invD(1) by (auto simp: payout_answered_def)
  then show ?case using refused by (intro refused_inv)
next
  case (lost_answer s pid w)
  then have "s < length (settlements (pw_db w))" using calls_under [of w s] by (force simp: calls_def)
  then have "writes (pw_db w) s (payout_answered s NoAnswer (pw_db w))"
    using lost_answer submit_failed_writes payout_invD(1) by (auto simp: payout_answered_def)
  then show ?case using lost_answer by (intro lost_inv)
next
  case (refused_half s w why)
  then have "s < length (settlements (pw_db w))" using calls_under [of w s] by (auto simp: calls_def)
  then show ?case using refused_half by (intro refused_inv submit_half_writes payout_invD(1))
next
  case (lost_half s pid w why)
  then have "s < length (settlements (pw_db w))" using calls_under [of w s] by (force simp: calls_def)
  then show ?case using lost_half by (intro lost_inv submit_half_writes payout_invD(1))
next
  case (returned w pid)
  then show ?case by (intro returned_inv)
next
  case (processed_event w s pid utr)
  then show ?case by (intro processed_inv)
next
  case (failed_event t w s pid why)
  then show ?case by (intro failed_inv)
qed

text \<open>
  C3. With the gateway configured, whatever the interleaving of accruals, sweeps, cash-outs, retries, approvals, submissions (stale, crashed and unanswered ones
  included) and gateway events: outside the settlements in doubt no two transfers belong to the same settlement, and every transfer that was not returned pays exactly the
  sum of the lines of its own settlement, all of which are in payout or paid, so such transfers never pay a line twice. A settlement is in doubt only when the answer to a
  transfer the gateway made was lost, or when a stale submission claimed it after it had stopped processing; those two ways a line is really paid twice
  (\<open>unanswered_call_pays_twice\<close>, \<open>stale_submit_pays_failed_settlement\<close> below).
\<close>

theorem transfers_are_backed:
  assumes "payout_step\<^sup>*\<^sup>* \<lparr>pw_db = \<lparr>earnings = [], taxes = [], settlements = [], banks = bs, holds = hs\<rparr>, pw_transfers = [], pw_claimed = [], pw_sent = [], pw_doubt = []\<rparr> w"
  shows "distinct (map tr_settlement (filter (\<lambda>t. tr_settlement t \<notin> set (pw_doubt w)) (pw_transfers w)))
    \<and> list_all (\<lambda>t. tr_settlement t \<in> set (pw_doubt w) \<or> tr_returned t
        \<or> (tr_amount t = to_paise (js_total (map ea_amount (lines_of (tr_settlement t) (pw_db w))))
            \<and> list_all (\<lambda>e. ea_status e = InPayout \<or> ea_status e = Paid) (lines_of (tr_settlement t) (pw_db w)))) (pw_transfers w)"
proof -
  have inv: "payout_inv w" using assms
  proof (induction rule: rtranclp_induct)
    case base
    then show ?case by (simp add: payout_inv_def settle_inv_def calls_def sure_def)
  next
    case (step v w)
    then show ?case by (blast intro: payout_step_inv)
  qed
  have ok: "list_all (\<lambda>e. ea_status e = InPayout \<or> ea_status e = Paid) (lines_of s (pw_db w))" for s
    using payout_invD(1) [OF inv] by (auto simp: list_all_iff settle_inv_def lines_of_def earning_ok_def split: option.splits)
  have "tr_settlement t \<in> set (pw_doubt w) \<or> tr_returned t \<or> tr_amount t = to_paise (js_total (map ea_amount (lines_of (tr_settlement t) (pw_db w))))"
    if "t \<in> set (pw_transfers w)" for t
    using payout_invD(6) [OF inv that] by (auto simp: transfer_ok_def backed_def)
  then show ?thesis using payout_invD(4) [OF inv] ok by (auto simp: sure_def list_all_iff)
qed

definition demo_settle :: settle_db where
  "demo_settle = \<lparr>earnings = [], taxes = [], settlements = [], banks = [\<lparr>ba_driver = 7, ba_fund = Some ''fa'', ba_verified = True, ba_primary = True\<rparr>],
     holds = []\<rparr>"

definition demo_swept :: settle_db where
  "demo_swept = snd (runScheduledSettlementBatch 50000 20 (snd (createManualAdjustment 7 250 1000 demo_settle)))"

text \<open>A batch is swept, claimed, called and answered.\<close>

definition demo_paid :: payout_world where
  "demo_paid = (let db = snd (claimSettlement 0 2000 demo_swept) in
     \<lparr>pw_db = payout_answered 0 (PayoutAccepted ''pout'') db, pw_transfers = [made ''pout'' (ref_of db 0) db], pw_claimed = [], pw_sent = [], pw_doubt = []\<rparr>)"

lemma transfers_are_backed_witness:
  "distinct (map tr_settlement (filter (\<lambda>t. tr_settlement t \<notin> set (pw_doubt demo_paid)) (pw_transfers demo_paid)))
    \<and> list_all (\<lambda>t. tr_settlement t \<in> set (pw_doubt demo_paid) \<or> tr_returned t
        \<or> (tr_amount t = to_paise (js_total (map ea_amount (lines_of (tr_settlement t) (pw_db demo_paid))))
            \<and> list_all (\<lambda>e. ea_status e = InPayout \<or> ea_status e = Paid) (lines_of (tr_settlement t) (pw_db demo_paid)))) (pw_transfers demo_paid)
    \<and> map tr_amount (pw_transfers demo_paid) = [25000] \<and> pw_doubt demo_paid = []"
proof -
  let ?w = "\<lambda>db ts cs ss. \<lparr>pw_db = db, pw_transfers = ts, pw_claimed = cs, pw_sent = ss, pw_doubt = []\<rparr>"
  let ?db = "snd (claimSettlement 0 2000 demo_swept)"
  have a: "payout_step (?w demo_settle [] [] []) (?w (snd (createManualAdjustment 7 250 1000 demo_settle)) [] [] [])"
    using payout_step.adjusted [of "?w demo_settle [] [] []" 7 250 1000] by simp
  have b: "payout_step (?w (snd (createManualAdjustment 7 250 1000 demo_settle)) [] [] []) (?w demo_swept [] [] [])"
    using payout_step.batched [of "?w (snd (createManualAdjustment 7 250 1000 demo_settle)) [] [] []" 50000 20] by (simp add: demo_swept_def)
  have hit: "0 < fst (claimSettlement 0 2000 demo_swept)" "st_status (settlements demo_swept ! 0) = Processing" by code_simp+
  have c: "payout_step (?w demo_swept [] [] []) (?w ?db [] [0] [])"
    using payout_step.claimed [of 0 2000 "?w demo_swept [] [] []"] hit by simp
  have d: "payout_step (?w ?db [] [0] []) (?w ?db [made ''pout'' (ref_of ?db 0) ?db] [] [(0, ''pout'')])"
    using payout_step.called [of 0 "?w ?db [] [0] []" "''pout''"] by simp
  have e: "payout_step (?w ?db [made ''pout'' (ref_of ?db 0) ?db] [] [(0, ''pout'')]) demo_paid"
    using payout_step.accepted [of 0 "''pout''" "?w ?db [made ''pout'' (ref_of ?db 0) ?db] [] [(0, ''pout'')]"] by (simp add: demo_paid_def Let_def)
  have r: "payout_step\<^sup>*\<^sup>* (?w \<lparr>earnings = [], taxes = [], settlements = [], banks = banks demo_settle, holds = holds demo_settle\<rparr> [] [] []) demo_paid"
    using a b c d e by (simp add: demo_settle_def)
  have "map tr_amount (pw_transfers demo_paid) = [25000]" by code_simp
  moreover have "pw_doubt demo_paid = []" by (simp add: demo_paid_def Let_def)
  ultimately show ?thesis using transfers_are_backed [OF r] by simp
qed

subsection \<open>Where the transfers are not protected\<close>

text \<open>
  A call without an answer (a timeout after the gateway took it) makes the settlement failed with its lines
  cleared and forgets the placeholder; the next batch pays the same lines under another idempotency key.
\<close>

theorem unanswered_call_pays_twice:
  "let db1 = submitSettlementRow False (\<lambda>_. NoAnswer) 2000 (ref_of demo_swept 0) demo_swept;
       db2 = snd (runScheduledSettlementBatch 50000 21 db1);
       first = payout_request_of (ref_of demo_swept 0) demo_swept; second = payout_request_of (ref_of db2 1) db2
   in submittable db2 1 \<and> pr_amount first = 25000 \<and> pr_amount second = 25000 \<and> pr_reference first \<noteq> pr_reference second"
  by code_simp

text \<open>
  The claim checks only that no payout id is set, not the status: a sweep that read the row before
  another attempt was refused submits the failed settlement again, while its lines are cleared and payable.
\<close>

theorem stale_submit_pays_failed_settlement:
  "let row = ref_of demo_swept 0;
       db1 = submitSettlementRow False (\<lambda>_. Refused None) 2000 row demo_swept;
       db2 = submitSettlementRow False (\<lambda>_. PayoutAccepted ''pout'') 2001 row db1
   in st_status (settlements db2 ! 0) = SettleFailed \<and> st_payout (settlements db2 ! 0) = Some (GatewayPayout ''pout'')
      \<and> payable_balance 7 db2 = 25000"
  by code_simp

text \<open>A reversal reported after the payout was processed changes nothing: the lines stay paid.\<close>

theorem reversal_after_processed_ignored:
  "payoutFailed s pid why (payoutProcessed s pid u db) = payoutProcessed s pid u db"
  by (auto simp: payoutFailed_def payoutProcessed_def upd_settlement_def upd_earnings_def)

text \<open>A late \<open>payout.processed\<close> completes a settlement that was already failed and released.\<close>

theorem late_processed_completes_failed:
  "let db1 = submitSettlementRow False (\<lambda>_. PayoutAccepted ''pout'') 2000 (ref_of demo_swept 0) demo_swept;
       db2 = payoutProcessed 0 ''pout'' None (payoutFailed 0 ''pout'' None db1)
   in st_status (settlements db2 ! 0) = SettleCompleted \<and> lines_of 0 db2 = [] \<and> payable_balance 7 db2 = 25000"
  by code_simp

subsection \<open>Sums in binary64\<close>

lemma near_step:
  fixes s x :: rat
  assumes s: "\<bar>s - of_int t / 100\<bar> \<le> e" and e: "e \<le> 1 / 1000" and t: "\<bar>t\<bar> \<le> 10 ^ 11" and k: "\<bar>k\<bar> \<le> 10 ^ 8"
  shows "\<bar>fadd s (from_paise k) - of_int (t + k) / 100\<bar> \<le> e + 1 / 10 ^ 6"
proof -
  let ?x = "from_paise k"
  have T: "\<bar>of_int t :: rat\<bar> \<le> 10 ^ 11" "\<bar>of_int k :: rat\<bar> \<le> 10 ^ 8"
    using t k of_int_le_iff [of "\<bar>t\<bar>" "10 ^ 11", where 'a = rat] of_int_le_iff [of "\<bar>k\<bar>" "10 ^ 8", where 'a = rat] by simp_all
  have x: "\<bar>?x - of_int k / 100\<bar> \<le> \<bar>of_int k / 100\<bar> / 2 ^ 53" using fl_error [of "of_int k / 100"] by (simp add: from_paise_def)
  have x': "\<bar>?x - of_int k / 100\<bar> \<le> 1 / 10 ^ 9" using x T(2) by (simp add: field_simps)
  have "\<bar>s\<bar> \<le> \<bar>of_int t / 100 :: rat\<bar> + e" using s by linarith
  moreover have "\<bar>of_int t / 100 :: rat\<bar> \<le> 10 ^ 9" using T(1) by simp
  moreover have "\<bar>?x\<bar> \<le> \<bar>of_int k / 100 :: rat\<bar> + 1 / 10 ^ 9" using x' by linarith
  moreover have "\<bar>of_int k / 100 :: rat\<bar> \<le> 10 ^ 6" using T(2) by simp
  ultimately have "\<bar>s + ?x\<bar> \<le> 2 * 10 ^ 9" using e abs_triangle_ineq [of s ?x] by simp
  then have "\<bar>fadd s ?x - (s + ?x)\<bar> \<le> 2 * 10 ^ 9 / 2 ^ 53" using fl_error [of "s + ?x"] unfolding fadd_def
    by (meson divide_right_mono order_trans zero_le_numeral zero_le_power)
  also have "(2 * 10 ^ 9 / 2 ^ 53 :: rat) \<le> 1 / 10 ^ 6 - 1 / 10 ^ 9" by (simp add: field_simps)
  finally have f: "\<bar>fadd s ?x - (s + ?x)\<bar> \<le> 1 / 10 ^ 6 - 1 / 10 ^ 9" .
  have "(of_int (t + k) / 100 :: rat) = of_int t / 100 + of_int k / 100" by (simp add: add_divide_distrib)
  then show ?thesis using f s x' by linarith
qed

lemma js_total_near:
  assumes "length ks \<le> 500" "\<And>k. k \<in> set ks \<Longrightarrow> \<bar>k\<bar> \<le> 10 ^ 8"
  shows "\<bar>js_total ks - of_int (sum_list ks) / 100\<bar> \<le> of_nat (length ks) / 10 ^ 6 \<and> \<bar>sum_list ks\<bar> \<le> of_nat (length ks) * 10 ^ 8"
  using assms
proof (induction ks rule: rev_induct)
  case Nil
  then show ?case by (simp add: js_total_def)
next
  case (snoc k ks)
  have ih: "\<bar>js_total ks - of_int (sum_list ks) / 100\<bar> \<le> of_nat (length ks) / 10 ^ 6" "\<bar>sum_list ks\<bar> \<le> of_nat (length ks) * 10 ^ 8"
    using snoc by auto
  have n: "length ks \<le> 500" using snoc.prems(1) by simp
  have N: "(of_nat (length ks) :: rat) \<le> 500" "(of_nat (length ks) :: int) \<le> 500"
    using n by (metis of_nat_le_iff of_nat_numeral)+
  have k: "\<bar>k\<bar> \<le> 10 ^ 8" using snoc.prems(2) by simp
  have "\<bar>fadd (js_total ks) (from_paise k) - of_int (sum_list ks + k) / 100\<bar> \<le> of_nat (length ks) / 10 ^ 6 + 1 / 10 ^ 6"
    using ih N k by (intro near_step) auto
  then show ?case using ih(2) k by (simp add: js_total_def add_divide_distrib [symmetric] add.commute)
qed

text \<open>A sum of at most 500 lines of at most ten lakh rupees each is stored to the paisa.\<close>

lemma js_total_exact:
  assumes "length ks \<le> 500" "\<And>k. k \<in> set ks \<Longrightarrow> \<bar>k\<bar> \<le> 10 ^ 8"
  shows "to_paise (js_total ks) = sum_list ks"
proof (rule to_paise_near)
  have N: "(of_nat (length ks) :: rat) \<le> 500" "(of_nat (length ks) :: int) \<le> 500"
    using assms(1) by (metis of_nat_le_iff of_nat_numeral)+
  note n = js_total_near [OF assms]
  show "\<bar>js_total ks - of_int (sum_list ks) / 100\<bar> \<le> 1 / 1000" using n N by simp
  show "paise_ok (sum_list ks)" using n N(2) unfolding paise_ok_def by simp
qed

text \<open>
  The code tests the float sum against zero, so a balance of exactly zero can still look positive: 0.10, 0.20 and -0.30
  rupees open a settlement that pays nothing.
\<close>

theorem float_dust_opens_settlement: "0 < js_total [10, 20, -30] \<and> to_paise (js_total [10, 20, -30]) = 0 \<and> sum_list [10, 20, -30 :: paise] = 0"
proof -
  have "0 < js_total [10, 20, -30]" by code_simp
  moreover have "to_paise (js_total [10, 20, -30]) = 0" by (subst js_total_exact) auto
  ultimately show ?thesis by simp
qed

lemma js_total_pos:
  assumes "length ks \<le> 500" "\<And>k. k \<in> set ks \<Longrightarrow> \<bar>k\<bar> \<le> 10 ^ 8"
  shows "js_total ks \<le> 0 \<Longrightarrow> sum_list ks \<le> 0" and "0 < js_total ks \<Longrightarrow> 0 \<le> sum_list ks"
proof -
  have N: "(of_nat (length ks) :: rat) \<le> 500" using assms(1) by (metis of_nat_le_iff of_nat_numeral)
  have n: "\<bar>js_total ks - of_int (sum_list ks) / 100\<bar> \<le> 1 / 1000" using js_total_near [OF assms] N by simp
  have big: "(1 :: rat) \<le> of_int j" if "0 < j" for j using that of_int_1_le_iff by force
  show "sum_list ks \<le> 0" if "js_total ks \<le> 0"
  proof (rule ccontr)
    assume "\<not> sum_list ks \<le> 0"
    then show False using big [of "sum_list ks"] n that by (simp add: abs_le_iff)
  qed
  show "0 \<le> sum_list ks" if "0 < js_total ks"
  proof (rule ccontr)
    assume "\<not> 0 \<le> sum_list ks"
    then show False using big [of "- sum_list ks"] n that by (simp add: abs_le_iff)
  qed
qed
subsection \<open>Cash-out and the daily batch\<close>

definition small_lines :: "nat \<Rightarrow> settle_db \<Rightarrow> bool" where
  "small_lines d db \<longleftrightarrow> length (cleared_ids d db) < 500 \<and> list_all (\<lambda>k. \<bar>ea_amount (earnings db ! k)\<bar> \<le> 10 ^ 8) (cleared_ids d db)"

lemma payable_ids: "payable_balance d db = sum_list (map (\<lambda>k. ea_amount (earnings db ! k)) (cleared_ids d db))"
proof -
  have "payable_balance d db = sum_list (map ea_amount (filter (\<lambda>e. ea_driver e = d \<and> ea_status e = Cleared) (map (\<lambda>k. earnings db ! k) [0..<length (earnings db)])))"
    by (simp add: payable_balance_def map_nth)
  then show ?thesis by (simp add: cleared_ids_def filter_map o_def)
qed

lemma open_settlement_empties:
  assumes "open_settlement (cleared_ids d db) st db = Some db'"
  shows "payable_balance d db' = 0 \<and> cleared_ids d db' = []"
proof -
  have "db' = stamp (cleared_ids d db) (length (settlements db)) (db\<lparr>settlements := settlements db @ [st]\<rparr>)"
    using assms by (auto simp: open_settlement_def split: if_splits)
  then have "cleared_ids d db' = []" by (auto simp: cleared_ids_def stamp_def)
  then show ?thesis by (simp add: payable_ids)
qed

lemma insert_payable:
  assumes "insert_earning b e db = Some db'" "ea_driver e = d" "ea_status e = Cleared" "\<not> list_ex (\<lambda>x. ea_key x = ea_key e) (earnings db)"
  shows "map (\<lambda>k. ea_amount (earnings db' ! k)) (cleared_ids d db') = map (\<lambda>k. ea_amount (earnings db ! k)) (cleared_ids d db) @ [ea_amount e]"
proof -
  have e: "earnings db' = earnings db @ [e]" using assms(1,4) by (auto simp: insert_earning_def split: if_splits)
  have "cleared_ids d db' = cleared_ids d db @ [length (earnings db)]"
    using assms(2,3) unfolding cleared_ids_def e by (auto simp: nth_append intro!: filter_cong)
  then show ?thesis by (simp add: e nth_append cleared_ids_def)
qed

text \<open>
  C16. A driver's cash-out pays exactly the cleared balance less the fee, to the paisa and through the float sum, leaves nothing
  payable, and happens only when payouts are enabled, a verified bank account is on file and no hold is active; a refusal changes nothing.
\<close>

theorem cash_out_pays_the_balance:
  assumes "settle_inv db" "small_lines d db" "0 \<le> f" "f \<le> 10 ^ 8"
  shows "case instantCashOut en (from_paise f) now today d db of
      (Inr s, db') \<Rightarrow> en \<and> primary_bank d db \<noteq> None \<and> \<not> on_hold d db \<and> s = length (settlements db)
        \<and> st_net (settlements db' ! s) = payable_balance d db - f \<and> 0 \<le> payable_balance d db - f
        \<and> backed db' s \<and> payable_balance d db' = 0
    | (Inl e, db') \<Rightarrow> db' = db \<and> (\<not> en \<or> primary_bank d db = None \<or> on_hold d db \<or> payable_balance d db \<le> f \<or> e = db_error)"
proof (cases "en \<and> primary_bank d db \<noteq> None \<and> \<not> on_hold d db \<and> insert_earning False (cashout_fee d (from_paise f) now) db \<noteq> None")
  case False
  then show ?thesis by (auto simp: instantCashOut_def split: option.split)
next
  case True
  then obtain bank db1 where bank: "primary_bank d db = Some bank" and ins: "insert_earning False (cashout_fee d (from_paise f) now) db = Some db1" by auto
  let ?ks = "map (\<lambda>k. ea_amount (earnings db ! k)) (cleared_ids d db) @ [- f]"
  let ?st = "fresh_settlement d today today (to_paise (cleared_total d db1)) (to_paise (from_paise f)) Processing InstantRun bank"
  have ok: "paise_ok (- f)" using assms(3,4) by (simp add: paise_ok_def)
  have fee: "ea_amount (cashout_fee d (from_paise f) now) = - f"
    using to_from_paise [OF ok] by (simp add: cashout_fee_def from_paise_minus [symmetric])
  have key: "\<not> list_ex (\<lambda>x. ea_key x = ea_key (cashout_fee d (from_paise f) now)) (earnings db)"
    using ins by (auto simp: insert_earning_def split: if_splits)
  have ks: "map (\<lambda>k. ea_amount (earnings db1 ! k)) (cleared_ids d db1) = ?ks"
    using insert_payable [OF ins _ _ key, of d] fee by (simp add: cashout_fee_def)
  have len: "length ?ks \<le> 500" using assms(2) by (simp add: small_lines_def)
  have small: "\<bar>k\<bar> \<le> 10 ^ 8" if "k \<in> set ?ks" for k using that assms(2-4) by (auto simp: small_lines_def list_all_iff)
  have sum: "sum_list ?ks = payable_balance d db - f" by (simp add: payable_ids)
  have total: "cleared_total d db1 = js_total ?ks" by (simp add: cleared_total_def ks)
  have net: "to_paise (cleared_total d db1) = payable_balance d db - f" using js_total_exact [OF len small] sum total by simp
  have inv1: "settle_inv db1" "settlements db1 = settlements db"
    using insert_earning_keeps [OF ins _ _ assms(1)] by (simp_all add: cashout_fee_def)
  show ?thesis
  proof (cases "cleared_total d db1 \<le> 0 \<or> open_settlement (cleared_ids d db1) ?st db1 = None")
    case refused: True
    have "payable_balance d db \<le> f" if "cleared_total d db1 \<le> 0" using js_total_pos(1) [OF len small] that sum total by simp
    then show ?thesis using True refused bank ins by (auto simp: instantCashOut_def Let_def)
  next
    case False
    then obtain db2 where op: "open_settlement (cleared_ids d db1) ?st db1 = Some db2" by auto
    have pos: "0 \<le> payable_balance d db - f" using js_total_pos(2) [OF len small] False sum total by simp
    have "st_net ?st = to_paise (cleared_total d db1)" by (simp add: fresh_settlement_def)
    note o = open_cleared [OF inv1(1) op this] and e = open_settlement_empties [OF op]
    have "instantCashOut en (from_paise f) now today d db = (Inr (length (settlements db)), db2)"
      using True bank ins False op by (simp add: instantCashOut_def Let_def)
    then show ?thesis using True o e pos by (simp add: inv1(2) fresh_settlement_def net)
  qed
qed

definition demo_balance :: settle_db where
  "demo_balance = snd (createManualAdjustment 7 250 1000 demo_settle)"

lemma cash_out_pays_the_balance_witness:
  "(case instantCashOut True (from_paise 1000) 3000 30 7 demo_balance of
      (Inr s, db') \<Rightarrow> st_net (settlements db' ! s) = 24000 \<and> payable_balance 7 db' = 0 | (Inl e, db') \<Rightarrow> False)"
proof -
  have inv: "settle_inv demo_balance"
    using adjust_keeps [of demo_settle 7 250 1000] by (simp add: demo_balance_def settle_inv_def demo_settle_def)
  have small: "small_lines 7 demo_balance" by code_simp
  have bal: "payable_balance 7 demo_balance = 25000" by code_simp
  have ok: "isl (fst (instantCashOut True (from_paise 1000) 3000 30 7 demo_balance)) = False" by code_simp
  show ?thesis using cash_out_pays_the_balance [OF inv small, of 1000 True 3000 30] ok bal
    by (auto split: sum.splits prod.splits)
qed

definition eligible :: "settle_db \<Rightarrow> nat \<Rightarrow> bool" where
  "eligible db d \<longleftrightarrow> primary_bank d db \<noteq> None \<and> \<not> on_hold d db \<and> 0 < cleared_total d db"

lemma open_batch_lines:
  assumes "open_batch st f t rows db = Some db'" "distinct (concat (map sw_ids rows))" "k < length (earnings db)"
  shows "(\<forall>i < length rows. k \<in> set (sw_ids (rows ! i)) \<longrightarrow> earnings db' ! k
        = (earnings db ! k)\<lparr>ea_status := InPayout, ea_settlement := Some (length (settlements db) + i)\<rparr>)
    \<and> ((\<forall>r \<in> set rows. k \<notin> set (sw_ids r)) \<longrightarrow> earnings db' ! k = earnings db ! k)"
  using assms
proof (induction rows arbitrary: db)
  case (Cons r rows)
  obtain d1 where d1: "open_settlement (sw_ids r) (batch_row st f t r) db = Some d1" and rest: "open_batch st f t rows d1 = Some db'"
    using Cons.prems(1) by (auto simp: batch_row_def bind_eq_Some_conv)
  have e: "d1 = stamp (sw_ids r) (length (settlements db)) (db\<lparr>settlements := settlements db @ [batch_row st f t r]\<rparr>)"
    using d1 by (auto simp: open_settlement_def split: if_splits)
  have n: "length (settlements d1) = Suc (length (settlements db))" "k < length (earnings d1)"
    using Cons.prems(3) by (simp_all add: e stamp_def)
  have k1: "earnings d1 ! k = (if k \<in> set (sw_ids r) then (earnings db ! k)\<lparr>ea_status := InPayout, ea_settlement := Some (length (settlements db))\<rparr>
      else earnings db ! k)" using Cons.prems(3) by (simp add: e stamp_def)
  have dis: "k \<notin> set (sw_ids x)" if "k \<in> set (sw_ids r)" "x \<in> set rows" for x using Cons.prems(2) that by auto
  have ih: "(\<forall>i < length rows. k \<in> set (sw_ids (rows ! i)) \<longrightarrow> earnings db' ! k
        = (earnings d1 ! k)\<lparr>ea_status := InPayout, ea_settlement := Some (length (settlements d1) + i)\<rparr>)
    \<and> ((\<forall>r \<in> set rows. k \<notin> set (sw_ids r)) \<longrightarrow> earnings db' ! k = earnings d1 ! k)"
    using Cons.prems(2) n(2) by (intro Cons.IH [OF rest]) auto
  show ?case
  proof (cases "k \<in> set (sw_ids r)")
    case True
    have same: "earnings db' ! k = earnings d1 ! k" using ih dis [OF True] by blast
    have "i = 0" if "i < length (r # rows)" "k \<in> set (sw_ids ((r # rows) ! i))" for i
      using that dis [OF True] by (cases i) auto
    then show ?thesis using same k1 True by auto
  next
    case False
    have "earnings db' ! k = (earnings db ! k)\<lparr>ea_status := InPayout, ea_settlement := Some (length (settlements db) + i)\<rparr>"
      if i: "i < length (r # rows)" "k \<in> set (sw_ids ((r # rows) ! i))" for i
    proof (cases i)
      case 0
      then show ?thesis using i False by simp
    next
      case (Suc j)
      then show ?thesis using ih i k1 False n(1) by simp
    qed
    then show ?thesis using ih k1 False by simp
  qed
qed simp

lemma ids_disjoint: "distinct (map sw_driver rows) \<Longrightarrow> \<forall>r \<in> set rows. sweep_of db r \<Longrightarrow> distinct (concat (map sw_ids rows))"
proof (induction rows)
  case (Cons r rows)
  have d: "distinct (sw_ids r)" using Cons.prems(2) by (simp add: sweep_of_def cleared_ids_def)
  have "set (sw_ids r) \<inter> set (sw_ids x) = {}" if "x \<in> set rows" for x
  proof -
    have "sw_driver x \<noteq> sw_driver r" using Cons.prems(1) that by (metis distinct.simps(2) image_eqI list.simps(9) set_map)
    then show ?thesis using Cons.prems(2) that by (auto simp: sweep_of_def dest!: cleared_ids_free)
  qed
  then show ?case using Cons d by auto
qed simp

lemma candidate_ok:
  assumes "(d, b) \<in> set (payout_candidates db)"
  shows "primary_bank d db \<noteq> None \<and> \<not> on_hold d db"
proof -
  obtain x where x: "(d, b) \<in> set (case primary_bank x db of None \<Rightarrow> [] | Some b \<Rightarrow> if on_hold x db then [] else [(x, b)])"
    using assms by (auto simp: payout_candidates_def)
  then show ?thesis by (cases "primary_bank x db") (auto split: if_splits)
qed

lemma swept_iff:
  assumes "k < length (earnings db)"
  shows "(\<exists>r \<in> set (per_driver db). k \<in> set (sw_ids r)) \<longleftrightarrow> ea_status (earnings db ! k) = Cleared \<and> eligible db (ea_driver (earnings db ! k))"
proof
  assume "\<exists>r \<in> set (per_driver db). k \<in> set (sw_ids r)"
  then obtain r where r: "r \<in> set (per_driver db)" "k \<in> set (sw_ids r)" by blast
  then have k: "k \<in> set (cleared_ids (sw_driver r) db)" and pos: "0 < cleared_total (sw_driver r) db"
    using per_driver_sweeps [OF r(1)] by (simp_all add: sweep_of_def)
  have "primary_bank (sw_driver r) db \<noteq> None \<and> \<not> on_hold (sw_driver r) db"
    using r(1) candidate_ok by (auto simp: per_driver_def)
  then show "ea_status (earnings db ! k) = Cleared \<and> eligible db (ea_driver (earnings db ! k))"
    using pos cleared_ids_free [OF k] by (simp add: eligible_def)
next
  let ?d = "ea_driver (earnings db ! k)"
  assume a: "ea_status (earnings db ! k) = Cleared \<and> eligible db ?d"
  then obtain b where b: "primary_bank ?d db = Some b" "\<not> on_hold ?d db" "0 < cleared_total ?d db" by (auto simp: eligible_def)
  let ?r = "\<lparr>sw_driver = ?d, sw_bank = b, sw_ids = cleared_ids ?d db, sw_total = cleared_total ?d db\<rparr>"
  have "earnings db ! k \<in> set (earnings db)" using assms by simp
  then have "(?d, b) \<in> set (payout_candidates db)" using a b(1,2) by (force simp: payout_candidates_def)
  then have "?r \<in> set (per_driver db)" using b(3) by (force simp: per_driver_def)
  moreover have "k \<in> set (sw_ids ?r)" using a assms by (simp add: cleared_ids_def)
  ultimately show "\<exists>r \<in> set (per_driver db). k \<in> set (sw_ids r)" by blast
qed

text \<open>
  A committed batch sweeps every driver with a verified bank account, no hold and a positive cleared total into exactly one settlement of that
  total, leaves every other line as it was, and puts the settlements up for approval exactly when the batch total is above the limit; a failed insert changes nothing.
\<close>

theorem batch_sweeps_each_driver_once:
  assumes inv: "settle_inv db" and run: "runScheduledSettlementBatch limit today db = (r, db')"
  shows "case r of Inl e \<Rightarrow> db' = db
    | Inr _ \<Rightarrow> (\<forall>k < length (earnings db). if ea_status (earnings db ! k) = Cleared \<and> eligible db (ea_driver (earnings db ! k))
          then \<exists>s. length (settlements db) \<le> s \<and> s < length (settlements db') \<and> st_driver (settlements db' ! s) = ea_driver (earnings db ! k)
            \<and> st_net (settlements db' ! s) = to_paise (cleared_total (ea_driver (earnings db ! k)) db) \<and> backed db' s
            \<and> earnings db' ! k = (earnings db ! k)\<lparr>ea_status := InPayout, ea_settlement := Some s\<rparr>
          else earnings db' ! k = earnings db ! k)
      \<and> distinct (map st_driver (drop (length (settlements db)) (settlements db')))
      \<and> list_all (\<lambda>x. st_status x = batch_status limit (per_driver db)) (drop (length (settlements db)) (settlements db'))"
proof (cases "open_batch (batch_status limit (per_driver db)) (today - 1) today (per_driver db) db")
  case None
  then show ?thesis using run by (auto simp: runScheduledSettlementBatch_def)
next
  case (Some d)
  let ?rows = "per_driver db" and ?n = "length (settlements db)"
  let ?row = "batch_row (batch_status limit ?rows) (today - 1) today"
  have d: "db' = d" "r = Inr ()" using run Some by (simp_all add: runScheduledSettlementBatch_def)
  have sw: "\<forall>r \<in> set ?rows. sweep_of db r" using per_driver_sweeps by blast
  note keep = open_batch_keeps [OF inv Some sw per_driver_distinct]
  note lines = open_batch_lines [OF Some ids_disjoint [OF per_driver_distinct sw]]
  have rows: "settlements db' = settlements db @ map ?row ?rows" using open_batch_rows [OF Some] d by simp
  have swept: "\<exists>s. ?n \<le> s \<and> s < length (settlements db') \<and> st_driver (settlements db' ! s) = ea_driver (earnings db ! k)
      \<and> st_net (settlements db' ! s) = to_paise (cleared_total (ea_driver (earnings db ! k)) db) \<and> backed db' s
      \<and> earnings db' ! k = (earnings db ! k)\<lparr>ea_status := InPayout, ea_settlement := Some s\<rparr>"
    if k: "k < length (earnings db)" and c: "ea_status (earnings db ! k) = Cleared \<and> eligible db (ea_driver (earnings db ! k))" for k
  proof -
    obtain i where i: "i < length ?rows" "k \<in> set (sw_ids (?rows ! i))"
      using swept_iff [OF k] c by (metis in_set_conv_nth)
    have s: "sweep_of db (?rows ! i)" using sw i(1) by simp
    then have "ea_driver (earnings db ! k) = sw_driver (?rows ! i)" using i(2) cleared_ids_free by (simp add: sweep_of_def)
    then show ?thesis using i lines [OF k] keep s d(1)
      by (intro exI [where x = "?n + i"]) (simp add: rows [unfolded d(1)] nth_append batch_row_def fresh_settlement_def sweep_of_def)
  qed
  have other: "earnings db' ! k = earnings db ! k"
    if k: "k < length (earnings db)" and c: "\<not> (ea_status (earnings db ! k) = Cleared \<and> eligible db (ea_driver (earnings db ! k)))" for k
    using lines [OF k] swept_iff [OF k] c d(1) by blast
  have "st_driver \<circ> ?row = sw_driver" by (rule ext) (simp add: batch_row_def fresh_settlement_def)
  then have "distinct (map st_driver (drop ?n (settlements db')))" using per_driver_distinct by (simp add: rows)
  moreover have "list_all (\<lambda>x. st_status x = batch_status limit ?rows) (drop ?n (settlements db'))"
    by (simp add: rows list_all_iff batch_row_def fresh_settlement_def)
  ultimately show ?thesis using swept other d(2) by simp
qed

lemma batch_sweeps_each_driver_once_witness:
  "(case runScheduledSettlementBatch 100 20 demo_balance of (Inr _, db') \<Rightarrow>
      distinct (map st_driver (settlements db')) \<and> map st_status (settlements db') = [SettlePending] \<and> map ea_status (earnings db') = [InPayout]
    | (Inl _, _) \<Rightarrow> False)"
proof -
  have inv: "settle_inv demo_balance"
    using adjust_keeps [of demo_settle 7 250 1000] by (simp add: demo_balance_def settle_inv_def demo_settle_def)
  obtain r db' where run: "runScheduledSettlementBatch 100 20 demo_balance = (r, db')" by (cases "runScheduledSettlementBatch 100 20 demo_balance")
  have "\<not> isl (fst (runScheduledSettlementBatch 100 20 demo_balance))" "settlements demo_balance = []"
    "map st_status (settlements (snd (runScheduledSettlementBatch 100 20 demo_balance))) = [SettlePending]"
    "map ea_status (earnings (snd (runScheduledSettlementBatch 100 20 demo_balance))) = [InPayout]" by code_simp+
  then show ?thesis using batch_sweeps_each_driver_once [OF inv run] run by (auto split: sum.splits)
qed

end
