(* ===== verification/PayU.thy ===== *)
theory PayU
  imports Offers
begin

text \<open>
  The PayU helpers of \<open>lib/payu.ts\<close>: amounts as strings, the signed checkout form, the hash of
  a callback, and the reading of \<open>verify_payment\<close>. The hash function is a parameter. The
  lemmas show that the amount a form bills is read back as exactly the paise of the order.
\<close>

subsection \<open>Decimal strings\<close>

definition digit_value :: "char \<Rightarrow> nat" where
  "digit_value c = of_char c - 48"

definition is_digit :: "char \<Rightarrow> bool" where
  "is_digit c \<longleftrightarrow> 48 \<le> (of_char c :: nat) \<and> (of_char c :: nat) \<le> 57"

definition digits_value :: "string \<Rightarrow> nat" where
  "digits_value s = foldl (\<lambda>a c. 10 * a + digit_value c) 0 s"

text \<open>
  \<open>Number(s)\<close> on the empty string and on an optional minus with digits; \<open>None\<close> stands for
  \<open>NaN\<close> and for the notations (exponents, hex) no column or gateway uses.
\<close>

definition js_number :: "string \<Rightarrow> int option" where
  "js_number s = (if list_all is_digit s then Some (int (digits_value s))
     else case s of c # r \<Rightarrow> if c = CHR ''-'' \<and> r \<noteq> [] \<and> list_all is_digit r then Some (- int (digits_value r)) else None
       | [] \<Rightarrow> None)"

definition is_space :: "char \<Rightarrow> bool" where
  "is_space c \<longleftrightarrow> (of_char c :: nat) \<in> set [9, 10, 11, 12, 13, 32]"

definition js_trim :: "string \<Rightarrow> string" where
  "js_trim s = rev (dropWhile is_space (rev (dropWhile is_space s)))"

fun js_split :: "char \<Rightarrow> string \<Rightarrow> string list" where
  "js_split d [] = [[]]"
| "js_split d (c # s) = (if c = d then [] # js_split d s else (case js_split d s of p # ps \<Rightarrow> (c # p) # ps | [] \<Rightarrow> [[c]]))"

definition toPaise :: "string \<Rightarrow> int option" where
  "toPaise amount = (case js_split (CHR ''.'') (js_trim amount) of
      rupees # rest \<Rightarrow> (case (js_number rupees, js_number (take 2 ((case rest of [] \<Rightarrow> [] | part # _ \<Rightarrow> part) @ ''00''))) of
           (Some r, Some f) \<Rightarrow> Some (r * 100 + f) | _ \<Rightarrow> None)
    | [] \<Rightarrow> None)"

text \<open>How a non-negative \<open>NUMERIC(12, 2)\<close> comes back as text, and \<open>x.toFixed(2)\<close> of a non-negative number.\<close>

definition numeric_text :: "nat \<Rightarrow> string" where
  "numeric_text k = id_string (k div 100) @ ''.'' @ [char_of (48 + k div 10 mod 10), char_of (48 + k mod 10)]"

definition js_fixed2 :: "num \<Rightarrow> string" where
  "js_fixed2 x = numeric_text (nat \<lfloor>100 * x + 1 / 2\<rfloor>)"

subsection \<open>The checkout form\<close>

record payu_customer =
  cu_name :: string
  cu_email :: string
  cu_phone :: string

record payu_form =
  pf_key :: string
  pf_txnid :: string
  pf_amount :: string
  pf_productinfo :: string
  pf_firstname :: string
  pf_email :: string
  pf_phone :: string
  pf_url :: string
  pf_hash :: string

record payu_keys =
  pk_key :: string
  pk_salt :: string

definition payuConfigured :: "payu_keys \<Rightarrow> bool" where
  "payuConfigured k \<longleftrightarrow> pk_key k \<noteq> [] \<and> pk_salt k \<noteq> []"

fun join :: "char \<Rightarrow> string list \<Rightarrow> string" where
  "join d [] = []"
| "join d [s] = s"
| "join d (s # ss) = s @ d # join d ss"

definition UDF :: "string list" where "UDF = replicate 5 []"
definition UNUSED :: "string list" where "UNUSED = replicate 5 []"
definition TOPUP_PRODUCT_INFO :: string where "TOPUP_PRODUCT_INFO = ''Ocar wallet top-up''"
definition packageProductInfo :: "nat \<Rightarrow> string" where "packageProductInfo tier = ''Ocar package '' @ id_string tier"

definition is_letter_or_blank :: "char \<Rightarrow> bool" where
  "is_letter_or_blank c \<longleftrightarrow> (let n = of_char c :: nat in 65 \<le> n \<and> n \<le> 90 \<or> 97 \<le> n \<and> n \<le> 122 \<or> n = 32)"

definition sanitizeFirstname :: "string option \<Rightarrow> string" where
  "sanitizeFirstname name = (let clean = take 60 (js_trim (filter is_letter_or_blank (coalesce name []))) in if clean = [] then ''Customer'' else clean)"

definition customerFor :: "string option \<Rightarrow> string option \<Rightarrow> string option \<Rightarrow> string \<Rightarrow> nat \<Rightarrow> payu_customer" where
  "customerFor name email phone role i = \<lparr>cu_name = coalesce name [],
     cu_email = (if coalesce email [] = [] then role @ id_string i @ ''@ocarindia.com'' else coalesce email []), cu_phone = coalesce phone []\<rparr>"

text \<open>The clock and the random bytes are parameters, already as text.\<close>

definition newTxnId :: "char \<Rightarrow> nat \<Rightarrow> string \<Rightarrow> string \<Rightarrow> string" where
  "newTxnId prefix i stamp rnd = [prefix] @ id_string i @ ''x'' @ stamp @ rnd"

definition buildPayuForm :: "(string \<Rightarrow> string) \<Rightarrow> payu_keys \<Rightarrow> string \<Rightarrow> num \<Rightarrow> string \<Rightarrow> payu_customer \<Rightarrow> string \<Rightarrow> payu_form" where
  "buildPayuForm sha512 keys txn amount product cust url =
     (let a = js_fixed2 amount; firstname = sanitizeFirstname (Some (cu_name cust)) in
      \<lparr>pf_key = pk_key keys, pf_txnid = txn, pf_amount = a, pf_productinfo = product, pf_firstname = firstname, pf_email = cu_email cust,
       pf_phone = cu_phone cust, pf_url = url,
       pf_hash = sha512 (join (CHR ''|'') ([pk_key keys, txn, a, product, firstname, cu_email cust] @ UDF @ UNUSED @ [pk_salt keys]))\<rparr>)"

subsection \<open>Callbacks and status\<close>

text \<open>A posted body: its fields by name.\<close>

type_synonym body = "(string \<times> string) list"

definition field :: "body \<Rightarrow> string \<Rightarrow> string" where
  "field b k = coalesce (map_of b k) []"

definition lower :: "string \<Rightarrow> string" where
  "lower = map (\<lambda>c. let n = of_char c :: nat in if 65 \<le> n \<and> n \<le> 90 then char_of (n + 32) else c)"

definition response_parts :: "payu_keys \<Rightarrow> body \<Rightarrow> string list" where
  "response_parts keys b =
     (let extra = (if field b ''additional_charges'' \<noteq> [] then field b ''additional_charges'' else field b ''additionalCharges'')
      in (if extra \<noteq> [] then [extra] else []) @ [pk_salt keys, field b ''status''] @ UNUSED @ UDF
         @ [field b ''email'', field b ''firstname'', field b ''productinfo'', field b ''amount'', field b ''txnid'', pk_key keys])"

definition verifyPayuResponseHash :: "(string \<Rightarrow> string) \<Rightarrow> payu_keys \<Rightarrow> body \<Rightarrow> bool" where
  "verifyPayuResponseHash sha512 keys b \<longleftrightarrow> payuConfigured keys \<and> field b ''hash'' \<noteq> []
     \<and> lower (sha512 (join (CHR ''|'') (response_parts keys b))) = lower (field b ''hash'')"

datatype payu_state = Captured | FailedTxn | PendingTxn | UnknownTxn

record payu_status =
  ps_state :: payu_state
  ps_paise :: int
  ps_mihpayid :: "string option"

record payu_details =
  pd_unmapped :: "string option"
  pd_amt :: "string option"
  pd_mihpayid :: "string option"

definition FAILED_STATES :: "string list" where
  "FAILED_STATES = [''failed'', ''failure'', ''usercancelled'', ''dropped'', ''bounced'']"

definition PENDING_STATES :: "string list" where
  "PENDING_STATES = [''pending'', ''auth'', ''initiated'', ''in_progress'']"

text \<open>
  The reading of the \<open>verify_payment\<close> answer for the transaction, \<open>None\<close> when it has no
  details. An amount that is not a number is \<open>NaN\<close> and equals no expected amount: it is read as -1.
\<close>

definition read_status :: "payu_details option \<Rightarrow> payu_status" where
  "read_status d = (case d of
       Some x \<Rightarrow> (case map_option lower (pd_unmapped x) of
           None \<Rightarrow> \<lparr>ps_state = UnknownTxn, ps_paise = 0, ps_mihpayid = None\<rparr>
         | Some u \<Rightarrow>
             if u = [] then \<lparr>ps_state = UnknownTxn, ps_paise = 0, ps_mihpayid = None\<rparr>
             else \<lparr>ps_state = (if u = ''captured'' then Captured else if u \<in> set FAILED_STATES then FailedTxn
                 else if u \<in> set PENDING_STATES then PendingTxn else UnknownTxn),
               ps_paise = coalesce (toPaise (coalesce (pd_amt x) ''0'')) (-1),
               ps_mihpayid = (if coalesce (pd_mihpayid x) [] \<noteq> [] \<and> pd_mihpayid x \<noteq> Some ''Not Found'' then pd_mihpayid x else None)\<rparr>)
     | None \<Rightarrow> \<lparr>ps_state = UnknownTxn, ps_paise = 0, ps_mihpayid = None\<rparr>)"

subsection \<open>Round trips\<close>

lemma digit_char:
  assumes "d < 10"
  shows "digit_value (char_of (48 + d)) = d" "is_digit (char_of (48 + d))" "char_of (48 + d) \<noteq> CHR ''.''" "CHR ''.'' \<noteq> char_of (48 + d)"
    "\<not> is_space (char_of (48 + d))"
proof -
  have c: "of_char (char_of (48 + d)) = 48 + d" using assms by simp
  have p: "of_char (CHR ''.'') = (46 :: nat)" by simp
  show "digit_value (char_of (48 + d)) = d" "is_digit (char_of (48 + d))" "\<not> is_space (char_of (48 + d))"
    using assms unfolding digit_value_def is_digit_def is_space_def c by auto
  show "char_of (48 + d) \<noteq> CHR ''.''" using c p by fastforce
  then show "CHR ''.'' \<noteq> char_of (48 + d)" by simp
qed

lemma digits_snoc: "digits_value (s @ [c]) = 10 * digits_value s + digit_value c"
  by (simp add: digits_value_def)

lemma id_string_digits: "digits_value (id_string n) = n \<and> list_all is_digit (id_string n) \<and> CHR ''.'' \<notin> set (id_string n)
    \<and> id_string n \<noteq> [] \<and> list_all (\<lambda>c. \<not> is_space c) (id_string n)"
proof (induction n rule: id_string.induct)
  case (1 n)
  show ?case
  proof (cases "n < 10")
    case True
    then show ?thesis using digit_char [of n] by (simp add: id_string.simps [of n] digits_value_def)
  next
    case False
    then show ?thesis using 1 digit_char [of "n mod 10"] by (auto simp: id_string.simps [of n] digits_snoc)
  qed
qed

lemma split_plain: "d \<notin> set s \<Longrightarrow> js_split d s = [s]"
  by (induction s) auto

lemma split_dot: "d \<notin> set s \<Longrightarrow> js_split d (s @ d # t) = s # js_split d t"
  by (induction s) auto

lemma trim_plain:
  assumes "s \<noteq> []" "\<not> is_space (hd s)" "\<not> is_space (last s)"
  shows "js_trim s = s"
proof -
  have d: "dropWhile is_space xs = xs" if "xs \<noteq> []" "\<not> is_space (hd xs)" for xs using that by (cases xs) auto
  show ?thesis using assms d [of s] d [of "rev s"] by (simp add: js_trim_def hd_rev)
qed

lemma numeric_text_trim: "js_trim (numeric_text k) = numeric_text k"
proof (rule trim_plain)
  show "numeric_text k \<noteq> []" by (simp add: numeric_text_def)
  show "\<not> is_space (hd (numeric_text k))" using id_string_digits [of "k div 100"]
    by (cases "id_string (k div 100)") (auto simp: numeric_text_def)
  show "\<not> is_space (last (numeric_text k))" using digit_char [of "k mod 10"] by (simp add: numeric_text_def)
qed

lemma toPaise_parts:
  assumes "js_trim s = s" "js_split (CHR ''.'') s = [r, [a, b]]" "js_number r = Some x" "js_number [a, b] = Some y"
  shows "toPaise s = Some (x * 100 + y)"
  unfolding toPaise_def assms(1,2) using assms(3,4) by simp

lemma toPaise_text: "toPaise (numeric_text k) = Some (int k)"
proof -
  let ?d1 = "k div 10 mod 10" and ?d2 = "k mod 10"
  have small: "?d1 < 10" "?d2 < 10" by simp_all
  note d1 = digit_char [OF small(1)] and d2 = digit_char [OF small(2)] and i = id_string_digits [of "k div 100"]
  have "js_split (CHR ''.'') (numeric_text k) = id_string (k div 100) # js_split (CHR ''.'') [char_of (48 + ?d1), char_of (48 + ?d2)]"
    unfolding numeric_text_def using i split_dot by simp
  then have s: "js_split (CHR ''.'') (numeric_text k) = [id_string (k div 100), [char_of (48 + ?d1), char_of (48 + ?d2)]]"
    using d1(4) d2(4) by (subst (asm) split_plain [of _ "[_, _]"]) auto
  have n2: "js_number [char_of (48 + ?d1), char_of (48 + ?d2)] = Some (int (10 * ?d1 + ?d2))"
    unfolding js_number_def digits_value_def by (simp only: list.pred_inject d1 d2 foldl.simps simp_thms if_True mult_0_right add_0)
  have n1: "js_number (id_string (k div 100)) = Some (int (k div 100))"
    using i by (simp add: js_number_def)
  have h: "k div 100 = k div 10 div 10" by (simp add: div_mult2_eq [symmetric])
  have "k div 10 div 10 * 10 + ?d1 = k div 10" "k div 10 * 10 + ?d2 = k" by (rule div_mult_mod_eq)+
  then have "100 * (k div 100) + (10 * ?d1 + ?d2) = k" unfolding h by linarith
  then have "int (k div 100) * 100 + int (10 * ?d1 + ?d2) = int k" by linarith
  then show ?thesis using toPaise_parts [OF numeric_text_trim s n1 n2] by simp
qed

text \<open>
  C40. A rupee amount survives the trip through PayU: what the form bills (\<open>toFixed(2)\<close>) and what a money column
  prints are both read back by \<open>toPaise\<close> as exactly the paise of the order.
\<close>

theorem billed_amount_round_trip:
  assumes "0 \<le> k" "paise_ok k"
  shows "toPaise (pf_amount (buildPayuForm sha keys txn (from_paise k) product cust url)) = Some k
    \<and> toPaise (numeric_text (nat k)) = Some k"
proof -
  have "\<bar>from_paise k - of_int k / 100\<bar> \<le> 1 / 8000" by (rule from_paise_error [OF assms(2)])
  then have "\<lfloor>100 * from_paise k + 1 / 2\<rfloor> = k" by (intro floor_unique) linarith+
  then show ?thesis using assms(1) by (simp add: buildPayuForm_def Let_def js_fixed2_def toPaise_text)
qed

lemma billed_amount_round_trip_witness:
  "toPaise (pf_amount (buildPayuForm id \<lparr>pk_key = ''k'', pk_salt = ''s''\<rparr> ''W7x1'' (from_paise 1999905) TOPUP_PRODUCT_INFO
     (customerFor (Some ''Asha'') None None ''driver'' 7) ''u'')) = Some 1999905"
  using billed_amount_round_trip [of 1999905 id "\<lparr>pk_key = ''k'', pk_salt = ''s''\<rparr>" "''W7x1''" TOPUP_PRODUCT_INFO] by (simp add: paise_ok_def)

end
