(* ===== verification/Payments.thy ===== *)
theory Payments
  imports PayU OfferLedger RideCore Wallets Settlements
begin

text \<open>
  Payments (\<open>payments.service.ts\<close>, with the purchase orders of \<open>packages.repository.ts\<close>): the payment row of a
  ride, its confirmation with everything that is booked with it, the gateway's callbacks and webhooks, retries and the
  reconciliation sweeps. The gateways are parameters: what they answer about a transaction. A function is one call; where the code
  runs in a transaction, an error returns the tables as they were.
\<close>

subsection \<open>Tables\<close>

datatype pay_channel = CashDirect | PayuOnline | RazorpayOnline | PlatformWallet
datatype pay_status = PayPending | PayCompleted | PayFailed
datatype gateway = Razorpay | Payu

record payment =
  pm_ride :: nat
  pm_user :: nat
  pm_driver :: nat
  pm_amount :: paise
  pm_channel :: pay_channel
  pm_status :: pay_status
  pm_percent :: num
  pm_commission :: paise
  pm_earning :: paise
  pm_discount :: paise
  pm_captured :: "int option"
  pm_failed :: "int option"
  pm_reason :: "string option"
  pm_order :: "string option"
  pm_rzp_payment :: "string option"
  pm_payu :: bool
  pm_txn :: "string option"
  pm_gateway_payment :: "string option"

datatype order_status = OrderPending | OrderCompleted | OrderFailed

record purchase =
  pu_driver :: nat
  pu_tier :: nat
  pu_order :: "string option"
  pu_amount :: paise
  pu_threshold :: paise
  pu_status :: order_status
  pu_payu :: bool
  pu_txn :: "string option"
  pu_rzp_payment :: "string option"
  pu_gateway_payment :: "string option"

record topup_order =
  to_driver :: nat
  to_txn :: string
  to_amount :: paise
  to_status :: order_status

record gateway_event =
  ge_type :: string
  ge_rzp :: "string option"
  ge_payu :: "string option"
  ge_processed :: bool
  ge_error :: bool

text \<open>All money-related tables, and the two Redis bindings: a ride order's rider, a top-up's driver and paise.\<close>

record world =
  w_rides :: ride_db
  w_offers :: offer_db
  w_users :: book
  w_drivers :: book
  w_packages :: book
  w_settle :: settle_db
  w_payments :: "payment list"
  w_purchases :: "purchase list"
  w_topups :: "topup_order list"
  w_events :: "gateway_event list"
  w_bindings :: "string \<rightharpoonup> nat \<times> paise"
  w_ride_orders :: "string \<rightharpoonup> nat"

record pay_config =
  pc_commission :: num
  pc_cashback :: num
  pc_min_wallet :: num
  pc_max_pct :: "num option"
  pc_accrual :: accrual_config
  pc_pan :: "nat \<Rightarrow> bool"
  pc_keys :: payu_keys
  pc_razorpay :: bool

definition payment_of :: "nat \<Rightarrow> world \<Rightarrow> payment option" where
  "payment_of ride w = find (\<lambda>p. pm_ride p = ride) (w_payments w)"

definition set_payment :: "nat \<Rightarrow> (payment \<Rightarrow> payment) \<Rightarrow> world \<Rightarrow> world" where
  "set_payment ride f w = w\<lparr>w_payments := map (\<lambda>p. if pm_ride p = ride then f p else p) (w_payments w)\<rparr>"

text \<open>\<open>UPDATE payments SET f WHERE ride_id = ride AND p\<close>: did a row match, and the tables.\<close>

definition upd_payment :: "nat \<Rightarrow> (payment \<Rightarrow> bool) \<Rightarrow> (payment \<Rightarrow> payment) \<Rightarrow> world \<Rightarrow> bool \<times> world" where
  "upd_payment ride q f w = (if pred_option q (payment_of ride w) \<and> payment_of ride w \<noteq> None then (True, set_payment ride f w) else (False, w))"

subsection \<open>The payment row\<close>

definition commission_of :: "num \<Rightarrow> num \<Rightarrow> num" where
  "commission_of amount pct = fdiv (of_int (js_round (fmul amount pct))) 100"

definition earning_of :: "num \<Rightarrow> num \<Rightarrow> num" where
  "earning_of amount commission = round2 (fsub amount commission)"

definition payment_row :: "pay_config \<Rightarrow> int \<Rightarrow> nat \<Rightarrow> nat \<Rightarrow> nat \<Rightarrow> pay_channel \<Rightarrow> pay_status \<Rightarrow> snapshot_row \<Rightarrow> payment" where
  "payment_row cfg now ride user driver chan st f =
     (let amount = payableOf (from_paise (coalesce (fs_final f) (fs_estimated f))) (Some (from_paise (fs_discount f)));
          commission = commission_of amount (pc_commission cfg)
      in \<lparr>pm_ride = ride, pm_user = user, pm_driver = driver, pm_amount = to_paise amount, pm_channel = chan, pm_status = st,
          pm_percent = pc_commission cfg, pm_commission = to_paise commission, pm_earning = to_paise (earning_of amount commission),
          pm_discount = fs_discount f, pm_captured = (if st = PayCompleted then Some now else None), pm_failed = None, pm_reason = None,
          pm_order = None, pm_rzp_payment = None, pm_payu = False, pm_txn = None, pm_gateway_payment = None\<rparr>)"

definition payment_row_ok :: "payment \<Rightarrow> bool" where
  "payment_row_ok p \<longleftrightarrow> list_all (\<lambda>k. 0 \<le> k \<and> numeric_fits 12 k) [pm_amount p, pm_commission p, pm_earning p]"

text \<open>The discount is re-derived first; on a connection of its own (\<open>shared = False\<close>) that write survives a later error.\<close>

definition createPaymentRecord :: "pay_config \<Rightarrow> int \<Rightarrow> nat \<Rightarrow> pay_channel \<Rightarrow> pay_status \<Rightarrow> world \<Rightarrow> unit res \<times> world" where
  "createPaymentRecord cfg now ride chan st w =
     (let w = w\<lparr>w_offers := snd (finaliseDiscount (pc_max_pct cfg) ride (w_offers w))\<rparr> in
      case (snapshots (w_offers w) ride, ride_at (w_rides w) ride) of
        (Some f, Some r) \<Rightarrow>
          (case rr_driver r of None \<Rightarrow> (Inl db_error, w)
           | Some d \<Rightarrow>
               let p = payment_row cfg now ride (rr_user r) d chan st f in
               if \<not> payment_row_ok p then (Inl db_error, w)
               else if payment_of ride w \<noteq> None then (Inr (), w)
               else (Inr (), w\<lparr>w_payments := w_payments w @ [p]\<rparr>))
      | _ \<Rightarrow> (Inl (http_err 404 ''''), w))"

subsection \<open>Confirmation\<close>

text \<open>The platform's share: the ride's package balance, or the commission of its payment row.\<close>

definition take_dues :: "pay_config \<Rightarrow> billing_mode option \<Rightarrow> nat \<Rightarrow> nat \<Rightarrow> num \<Rightarrow> world \<Rightarrow> world option" where
  "take_dues cfg mode ride driver fare w =
     (if mode = Some PackageBilling then
        (case consumePackageBalance ride driver fare (w_packages w) of (Inr _, b) \<Rightarrow> Some (w\<lparr>w_packages := b\<rparr>) | (Inl _, _) \<Rightarrow> None)
      else
        (case deductCommission (pc_min_wallet cfg) ride driver (map_option pm_commission (payment_of ride w)) (w_drivers w) of
           (Inr _, b) \<Rightarrow> Some (w\<lparr>w_drivers := b\<rparr>) | (Inl _, _) \<Rightarrow> None))"

definition accrue :: "pay_config \<Rightarrow> int \<Rightarrow> nat \<Rightarrow> nat \<Rightarrow> world \<Rightarrow> world option" where
  "accrue cfg now ride driver w =
     (case accrueDriverEarning (pc_accrual cfg) (pc_pan cfg driver) now ride driver (map_option pm_amount (payment_of ride w)) (w_settle w) of
        (Inr _, s) \<Rightarrow> Some (w\<lparr>w_settle := s\<rparr>) | (Inl _, _) \<Rightarrow> None)"

definition give_cashback :: "pay_config \<Rightarrow> nat \<Rightarrow> nat \<Rightarrow> num \<Rightarrow> world \<Rightarrow> world option" where
  "give_cashback cfg ride user fare w =
     (case creditCashback (pc_cashback cfg) ride user fare (w_users w) of (Inr _, b) \<Rightarrow> Some (w\<lparr>w_users := b\<rparr>) | (Inl _, _) \<Rightarrow> None)"

definition settle_offer :: "nat \<Rightarrow> world \<Rightarrow> world" where
  "settle_offer ride w = w\<lparr>w_offers := settleOfferOnPayment ride (w_offers w)\<rparr>"

definition billing_of :: "nat \<Rightarrow> world \<Rightarrow> billing_mode option" where
  "billing_of ride w = Option.bind (ride_at (w_rides w) ride) rr_billing"

definition with_payment_id :: "(gateway \<times> string) option \<Rightarrow> payment \<Rightarrow> payment" where
  "with_payment_id pid p = (case pid of None \<Rightarrow> p
     | Some (Razorpay, i) \<Rightarrow> p\<lparr>pm_rzp_payment := Some i\<rparr> | Some (Payu, i) \<Rightarrow> p\<lparr>pm_gateway_payment := Some i\<rparr>)"

definition payment_id_taken :: "nat \<Rightarrow> (gateway \<times> string) option \<Rightarrow> world \<Rightarrow> bool" where
  "payment_id_taken ride pid w = (case pid of None \<Rightarrow> False
     | Some (Razorpay, i) \<Rightarrow> list_ex (\<lambda>p. pm_ride p \<noteq> ride \<and> pm_rzp_payment p = Some i) (w_payments w)
     | Some (Payu, i) \<Rightarrow> list_ex (\<lambda>p. pm_ride p \<noteq> ride \<and> pm_gateway_payment p = Some i) (w_payments w))"

definition confirmRidePayment :: "pay_config \<Rightarrow> int \<Rightarrow> nat \<Rightarrow> (gateway \<times> string) option \<Rightarrow> world \<Rightarrow> bool res \<times> world" where
  "confirmRidePayment cfg now ride pid w =
     (case payment_of ride w of None \<Rightarrow> (Inr False, w)
      | Some p \<Rightarrow>
          if pm_status p \<noteq> PayPending then (Inr False, w)
          else if payment_id_taken ride pid w then (Inl db_error, w)
          else let fare = from_paise (pm_amount p);
                   w1 = set_payment ride (\<lambda>p. with_payment_id pid (p\<lparr>pm_status := PayCompleted, pm_captured := Some now\<rparr>)) w
               in case Option.bind (take_dues cfg (billing_of ride w1) ride (pm_driver p) fare w1)
                     (\<lambda>w. Option.bind (accrue cfg now ride (pm_driver p) w) (give_cashback cfg ride (pm_user p) fare)) of
                    None \<Rightarrow> (Inl db_error, w)
                  | Some w2 \<Rightarrow> (Inr True, settle_offer ride w2))"

subsection \<open>Orders, retries and the rider's own confirmation\<close>

text \<open>\<open>Inr None\<close>: dev mode, confirmed on the spot. The transaction id is a parameter; it must be new.\<close>

definition createRidePaymentOrder :: "pay_config \<Rightarrow> int \<Rightarrow> string \<Rightarrow> nat \<Rightarrow> num \<Rightarrow> world \<Rightarrow> (string \<times> num) option res \<times> world" where
  "createRidePaymentOrder cfg now txn ride amount w =
     (if \<not> payuConfigured (pc_keys cfg) then
        (case confirmRidePayment cfg now ride None w of (Inl e, w) \<Rightarrow> (Inl e, w) | (Inr _, w) \<Rightarrow> (Inr None, w))
      else if list_ex (\<lambda>p. pm_ride p \<noteq> ride \<and> pm_txn p = Some txn) (w_payments w) then (Inl db_error, w)
      else (Inr (Some (txn, amount)), set_payment ride (\<lambda>p. p\<lparr>pm_payu := True, pm_txn := Some txn\<rparr>) w))"

record rzp_payment =
  rp_order :: string
  rp_captured :: bool
  rp_amount :: int

text \<open>\<open>sig_ok\<close>: the HMAC of order and payment; \<open>fetch\<close>: the gateway's own record of the payment, \<open>None\<close> when the call fails.\<close>

definition verifyRidePayment :: "pay_config \<Rightarrow> int \<Rightarrow> nat \<Rightarrow> nat \<Rightarrow> string \<Rightarrow> string \<Rightarrow> bool \<Rightarrow> rzp_payment option \<Rightarrow> world \<Rightarrow> unit res \<times> world" where
  "verifyRidePayment cfg now ride user ord pay sig_ok fetch w =
     (if \<not> pc_razorpay cfg then (Inl (http_err 400 ''''), w)
      else if w_ride_orders w ord \<noteq> Some user then (Inl (http_err 400 ''''), w)
      else case payment_of ride w of None \<Rightarrow> (Inl (http_err 404 ''''), w)
      | Some p \<Rightarrow>
          if pm_order p \<noteq> Some ord then (Inl (http_err 404 ''''), w)
          else if \<not> sig_ok then (Inl (http_err 400 ''''), w)
          else case fetch of None \<Rightarrow> (Inl (http_err 500 ''''), w)
          | Some rp \<Rightarrow>
              if rp_order rp \<noteq> ord \<or> \<not> rp_captured rp \<or> rp_amount rp \<noteq> js_round (fmul (from_paise (pm_amount p)) 100)
              then (Inl (http_err 400 ''''), w)
              else case confirmRidePayment cfg now ride (Some (Razorpay, pay)) w of
                  (Inl e, w) \<Rightarrow> (Inl e, w) | (Inr _, w) \<Rightarrow> (Inr (), w\<lparr>w_ride_orders := (w_ride_orders w)(ord := None)\<rparr>))"

datatype retry_result = RetryOnline "(string \<times> num) option" | RetryWallet bool

definition retry_checks :: "nat \<Rightarrow> payment option \<Rightarrow> bool \<Rightarrow> (string \<Rightarrow> payu_status option) \<Rightarrow> payment res" where
  "retry_checks user row payu_on status =
     (case row of None \<Rightarrow> Inl (http_err 404 '''')
      | Some p \<Rightarrow>
          bind_res (guard_err (pm_user p \<noteq> user) (http_err 403 '''')) (\<lambda>_.
          bind_res (guard_err (pm_channel p = CashDirect \<or> pm_status p = PayCompleted) (http_err 400 '''')) (\<lambda>_.
          (case pm_txn p of
             Some t \<Rightarrow> if pm_payu p \<and> t \<noteq> [] \<and> payu_on then
                 (case status t of None \<Rightarrow> Inl (http_err 503 '''')
                  | Some s \<Rightarrow> if ps_state s = Captured \<or> ps_state s = PendingTxn then Inl (http_err 409 '''') else Inr p)
               else Inr p
           | None \<Rightarrow> Inr p))))"

text \<open>After the checks on the row as read, the guarded reset and the channel's own flow on the tables as they are now.\<close>

definition retry_reset :: "pay_config \<Rightarrow> int \<Rightarrow> string \<Rightarrow> nat \<Rightarrow> nat \<Rightarrow> payment \<Rightarrow> world \<Rightarrow> retry_result res \<times> world" where
  "retry_reset cfg now txn ride user p w =
     (case upd_payment ride (\<lambda>q. pm_status q \<in> {PayPending, PayFailed}) (\<lambda>q. q\<lparr>pm_status := PayPending, pm_failed := None, pm_reason := None\<rparr>) w of
        (hit, w1) \<Rightarrow>
          if pm_channel p = RazorpayOnline \<or> pm_channel p = PayuOnline then
            if \<not> hit then (Inr (RetryOnline None), w1)
            else (case createRidePaymentOrder cfg now txn ride (from_paise (pm_amount p)) w1 of
                (Inl e, w2) \<Rightarrow> (Inl e, w2) | (Inr ord, w2) \<Rightarrow> (Inr (RetryOnline ord), w2))
          else if \<not> hit then (Inr (RetryWallet True), w1)
          else (case payFromUserWallet ride user (from_paise (pm_amount p)) (w_users w1) of
              (Inl e, _) \<Rightarrow> (Inl e, w1)
            | (Inr paid, b) \<Rightarrow>
                let w2 = w1\<lparr>w_users := b\<rparr> in
                if paid then (case confirmRidePayment cfg now ride None w2 of
                    (Inl e, w3) \<Rightarrow> (Inl e, w3) | (Inr _, w3) \<Rightarrow> (Inr (RetryWallet True), w3))
                else (Inr (RetryWallet False), w2)))"

definition retryRidePayment :: "pay_config \<Rightarrow> int \<Rightarrow> string \<Rightarrow> (string \<Rightarrow> payu_status option) \<Rightarrow> nat \<Rightarrow> nat \<Rightarrow> world \<Rightarrow> retry_result res \<times> world" where
  "retryRidePayment cfg now txn status ride user w =
     (case retry_checks user (payment_of ride w) (payuConfigured (pc_keys cfg)) status of
        Inl e \<Rightarrow> (Inl e, w) | Inr p \<Rightarrow> retry_reset cfg now txn ride user p w)"

subsection \<open>Orders for top-ups and packages\<close>

definition MAX_TOPUP_RUPEES :: num where "MAX_TOPUP_RUPEES = 50000"

definition txn_taken :: "string \<Rightarrow> world \<Rightarrow> bool" where
  "txn_taken txn w \<longleftrightarrow> list_ex (\<lambda>x. to_txn x = txn) (w_topups w)"

text \<open>The row is written before the Redis binding; the answer is the amount in rupees the form bills.\<close>

definition createDriverTopupOrder :: "string \<Rightarrow> nat \<Rightarrow> num \<Rightarrow> world \<Rightarrow> num res \<times> world" where
  "createDriverTopupOrder txn driver amount w =
     (if amount < 100 then (Inl (http_err 400 ''''), w)
      else if MAX_TOPUP_RUPEES < amount then (Inl (http_err 400 ''''), w)
      else let paise = js_round (fmul amount 100); rupees = fdiv (of_int paise) 100 in
        if txn_taken txn w \<or> to_paise rupees \<le> 0 then (Inl db_error, w)
        else (Inr rupees, w\<lparr>w_topups := w_topups w @ [\<lparr>to_driver = driver, to_txn = txn, to_amount = to_paise rupees, to_status = OrderPending\<rparr>],
               w_bindings := (w_bindings w)(txn \<mapsto> (driver, paise))\<rparr>))"

record tier =
  ti_active :: bool
  ti_price :: paise
  ti_threshold :: paise

datatype purchase_answer = DevCredited num | PurchaseForm string num

definition createPackagePurchaseOrder :: "pay_config \<Rightarrow> (nat \<Rightarrow> tier option) \<Rightarrow> string \<Rightarrow> string \<Rightarrow> nat \<Rightarrow> nat \<Rightarrow> world \<Rightarrow> purchase_answer res \<times> world" where
  "createPackagePurchaseOrder cfg tiers dev_ref txn driver tid w =
     (case tiers tid of None \<Rightarrow> (Inl (http_err 404 ''''), w)
      | Some t \<Rightarrow>
          if \<not> ti_active t then (Inl (http_err 404 ''''), w)
          else if \<not> payuConfigured (pc_keys cfg) then
            (case creditPackageBalance driver (from_paise (ti_threshold t)) dev_ref (w_packages w) of
               (Inl e, _) \<Rightarrow> (Inl e, w) | (Inr _, b) \<Rightarrow> (Inr (DevCredited (from_paise (ti_threshold t))), w\<lparr>w_packages := b\<rparr>))
          else if list_ex (\<lambda>p. pu_txn p = Some txn) (w_purchases w) then (Inl db_error, w)
          else (Inr (PurchaseForm txn (from_paise (ti_price t))), w\<lparr>w_purchases := w_purchases w @
             [\<lparr>pu_driver = driver, pu_tier = tid, pu_order = None, pu_amount = ti_price t, pu_threshold = ti_threshold t, pu_status = OrderPending,
               pu_payu = True, pu_txn = Some txn, pu_rzp_payment = None, pu_gateway_payment = None\<rparr>]\<rparr>))"

definition find_purchase :: "(purchase \<Rightarrow> bool) \<Rightarrow> world \<Rightarrow> nat option" where
  "find_purchase q w = find (\<lambda>k. q (w_purchases w ! k)) [0..<length (w_purchases w)]"

definition findPendingPurchaseByOrderId :: "string \<Rightarrow> world \<Rightarrow> nat option" where
  "findPendingPurchaseByOrderId ord = find_purchase (\<lambda>p. pu_order p = Some ord \<and> pu_status p = OrderPending)"

definition findPurchaseByTxnId :: "string \<Rightarrow> world \<Rightarrow> nat option" where
  "findPurchaseByTxnId txn = find_purchase (\<lambda>p. pu_txn p = Some txn)"

text \<open>The claim of a purchase: what the winner gets back, \<open>Inr None\<close> for a loser.\<close>

definition claim_purchase :: "nat \<Rightarrow> (purchase \<Rightarrow> purchase) \<Rightarrow> bool \<Rightarrow> world \<Rightarrow> (nat \<times> paise) option res \<times> world" where
  "claim_purchase k f clash w =
     (if k < length (w_purchases w) \<and> pu_status (w_purchases w ! k) = OrderPending then
        if clash then (Inl db_error, w)
        else (Inr (Some (pu_driver (w_purchases w ! k), pu_threshold (w_purchases w ! k))),
              w\<lparr>w_purchases := (w_purchases w)[k := (f (w_purchases w ! k))\<lparr>pu_status := OrderCompleted\<rparr>]\<rparr>)
      else (Inr None, w))"

definition markPurchaseCompleted :: "nat \<Rightarrow> string \<Rightarrow> world \<Rightarrow> (nat \<times> paise) option res \<times> world" where
  "markPurchaseCompleted k pid w =
     claim_purchase k (\<lambda>p. p\<lparr>pu_rzp_payment := Some pid\<rparr>) (list_ex (\<lambda>p. pu_rzp_payment p = Some pid) (w_purchases w)) w"

definition markPurchaseCompletedPayu :: "nat \<Rightarrow> string \<Rightarrow> world \<Rightarrow> (nat \<times> paise) option res \<times> world" where
  "markPurchaseCompletedPayu k pid w =
     claim_purchase k (\<lambda>p. p\<lparr>pu_gateway_payment := Some pid\<rparr>) (list_ex (\<lambda>p. pu_gateway_payment p = Some pid) (w_purchases w)) w"

definition credit_package :: "nat \<Rightarrow> paise \<Rightarrow> string \<Rightarrow> world \<Rightarrow> unit res \<times> world" where
  "credit_package driver threshold ref w =
     (case creditPackageBalance driver (from_paise threshold) ref (w_packages w) of
        (Inl e, _) \<Rightarrow> (Inl e, w) | (Inr _, b) \<Rightarrow> (Inr (), w\<lparr>w_packages := b\<rparr>))"

subsection \<open>Razorpay webhooks\<close>

definition GATEWAY_EVENT_TYPE_MAP :: "(string \<times> string) list" where
  "GATEWAY_EVENT_TYPE_MAP = [(''order.paid'', ''order_created''), (''payment.authorized'', ''payment_authorized''),
     (''payment.captured'', ''payment_captured''), (''payment.failed'', ''payment_failed''), (''payout.processed'', ''payout_processed''),
     (''payout.failed'', ''payout_failed''), (''payout.reversed'', ''payout_reversed'')]"

record webhook =
  wh_event :: string
  wh_id :: "string option"
  wh_order :: "string option"
  wh_reference :: "string option"
  wh_utr :: "string option"
  wh_reason :: "string option"

definition is_payout :: "string \<Rightarrow> bool" where
  "is_payout e \<longleftrightarrow> take 7 e = ''payout.''"

text \<open>The settlement named by \<open>reference_id\<close>, when it has our format.\<close>

definition settlement_id :: "string option \<Rightarrow> nat option" where
  "settlement_id ref = (case ref of None \<Rightarrow> None
     | Some r \<Rightarrow> let s = hd (js_split (CHR '':'') r) in if s \<noteq> [] \<and> list_all is_digit s then Some (digits_value s) else None)"

definition applyRazorpayEvent :: "pay_config \<Rightarrow> int \<Rightarrow> webhook \<Rightarrow> string \<Rightarrow> nat option \<Rightarrow> world \<Rightarrow> unit res \<times> world" where
  "applyRazorpayEvent cfg now h eid sid w =
     (case sid of Some s \<Rightarrow>
        (Inr (), w\<lparr>w_settle := (if wh_event h = ''payout.processed'' then payoutProcessed s eid (wh_utr h) (w_settle w)
                                else payoutFailed s eid (wh_reason h) (w_settle w))\<rparr>)
      | None \<Rightarrow>
        (case (if wh_event h = ''payment.captured'' then wh_order h else None) of None \<Rightarrow> (Inr (), w)
         | Some ord \<Rightarrow>
             (case find (\<lambda>p. pm_order p = Some ord \<and> pm_status p = PayPending) (w_payments w) of
                Some p \<Rightarrow> (case confirmRidePayment cfg now (pm_ride p) (Some (Razorpay, eid)) w of (Inl e, w) \<Rightarrow> (Inl e, w) | (Inr _, w) \<Rightarrow> (Inr (), w))
              | None \<Rightarrow>
                  (case findPendingPurchaseByOrderId ord w of None \<Rightarrow> (Inr (), w)
                   | Some k \<Rightarrow> (case markPurchaseCompleted k eid w of
                         (Inl e, w) \<Rightarrow> (Inl e, w)
                       | (Inr None, w) \<Rightarrow> (Inr (), w)
                       | (Inr (Some (d, t)), w) \<Rightarrow> credit_package d t eid w)))))"

definition handleWebhookEvent :: "pay_config \<Rightarrow> int \<Rightarrow> webhook \<Rightarrow> world \<Rightarrow> unit res \<times> world" where
  "handleWebhookEvent cfg now h w =
     (case (map_of GATEWAY_EVENT_TYPE_MAP (wh_event h), wh_id h) of
        (Some ty, Some eid) \<Rightarrow>
          let sid = (if is_payout (wh_event h) then settlement_id (wh_reference h) else None) in
          if eid = [] \<or> is_payout (wh_event h) \<and> sid = None then (Inr (), w)
          else let key = take 80 (eid @ '':'' @ wh_event h) in
            if list_ex (\<lambda>e. ge_rzp e = Some key \<and> ge_processed e) (w_events w) then (Inr (), w)
            else let w1 = (if list_ex (\<lambda>e. ge_rzp e = Some key) (w_events w) then w
                           else w\<lparr>w_events := w_events w @ [\<lparr>ge_type = ty, ge_rzp = Some key, ge_payu = None, ge_processed = False, ge_error = False\<rparr>]\<rparr>);
                     mark = (\<lambda>f w. w\<lparr>w_events := map (\<lambda>e. if ge_rzp e = Some key then f e else e) (w_events w)\<rparr>)
                 in (case applyRazorpayEvent cfg now h eid sid w1 of
                       (Inl e, w2) \<Rightarrow> (Inl e, mark (\<lambda>x. x\<lparr>ge_error := True\<rparr>) w2)
                     | (Inr _, w2) \<Rightarrow> (Inr (), mark (\<lambda>x. x\<lparr>ge_processed := True, ge_error := False\<rparr>) w2))
      | _ \<Rightarrow> (Inr (), w))"

subsection \<open>PayU: the callback, the webhook and the sweeps\<close>

datatype pay_target = RideTarget payment | PackageTarget nat purchase | WalletTarget nat paise | NoTarget

definition resolveTopupBinding :: "string \<Rightarrow> world \<Rightarrow> (nat \<times> paise) option" where
  "resolveTopupBinding txn w = (case w_bindings w txn of Some b \<Rightarrow> Some b
     | None \<Rightarrow> map_option (\<lambda>x. (to_driver x, to_amount x)) (find (\<lambda>x. to_txn x = txn) (w_topups w)))"

definition resolve_txn :: "string \<Rightarrow> world \<Rightarrow> pay_target" where
  "resolve_txn txn w =
     (case find (\<lambda>p. pm_txn p = Some txn) (w_payments w) of Some p \<Rightarrow> RideTarget p
      | None \<Rightarrow> (case findPurchaseByTxnId txn w of Some k \<Rightarrow> PackageTarget k (w_purchases w ! k)
          | None \<Rightarrow> (case resolveTopupBinding txn w of Some (d, a) \<Rightarrow> WalletTarget d a | None \<Rightarrow> NoTarget)))"

text \<open>Stored amounts are money columns: \<open>toPaise\<close> of their text is their paise (\<open>toPaise_text\<close>).\<close>

definition expected_paise :: "pay_target \<Rightarrow> paise option" where
  "expected_paise t = (case t of RideTarget p \<Rightarrow> Some (pm_amount p) | PackageTarget _ p \<Rightarrow> Some (pu_amount p)
     | WalletTarget _ a \<Rightarrow> Some a | NoTarget \<Rightarrow> None)"

datatype pay_result = PaySuccess | PayFailure | PayWaiting

record payu_outcome =
  po_target :: pay_target
  po_result :: pay_result
  po_error :: bool

definition recordPayuEvent :: "body \<Rightarrow> payu_status \<Rightarrow> bool \<Rightarrow> world \<Rightarrow> world" where
  "recordPayuEvent b st processed w =
     (let ref = (case ps_mihpayid st of Some m \<Rightarrow> m | None \<Rightarrow> (case map_of b ''mihpayid'' of Some m \<Rightarrow> m | None \<Rightarrow> coalesce (map_of b ''txnid'') ''none''));
          key = take 80 (ref @ '':'' @ (case ps_state st of Captured \<Rightarrow> ''captured'' | FailedTxn \<Rightarrow> ''failed'' | PendingTxn \<Rightarrow> ''pending'' | UnknownTxn \<Rightarrow> ''unknown''))
      in if list_ex (\<lambda>e. ge_payu e = Some key) (w_events w) then w
         else w\<lparr>w_events := w_events w @ [\<lparr>ge_type = (if ps_state st = Captured then ''payment_captured'' else ''payment_failed''),
            ge_rzp = None, ge_payu = Some key, ge_processed = processed, ge_error = False\<rparr>]\<rparr>)"

text \<open>A capture for a ride: \<open>Inr False\<close> is captured money this row was not settled by.\<close>

definition settle_ride_capture :: "pay_config \<Rightarrow> int \<Rightarrow> payment \<Rightarrow> string \<Rightarrow> world \<Rightarrow> bool res \<times> world" where
  "settle_ride_capture cfg now p pid w =
     (let ride = pm_ride p;
          w1 = (if pm_status p = PayFailed
                then snd (upd_payment ride (\<lambda>q. pm_status q = PayFailed) (\<lambda>q. q\<lparr>pm_status := PayPending, pm_failed := None, pm_reason := None\<rparr>) w) else w)
      in case confirmRidePayment cfg now ride (Some (Payu, pid)) w1 of
           (Inl e, w2) \<Rightarrow> (Inl e, w2)
         | (Inr True, w2) \<Rightarrow> (Inr True, w2)
         | (Inr False, w2) \<Rightarrow> (Inr (case payment_of ride w2 of None \<Rightarrow> False
               | Some q \<Rightarrow> pm_status q = PayCompleted \<and> pm_gateway_payment q = Some pid), w2))"

definition settle_package_capture :: "nat \<Rightarrow> string \<Rightarrow> string \<Rightarrow> world \<Rightarrow> unit res \<times> world" where
  "settle_package_capture k txn pid w =
     (case markPurchaseCompletedPayu k pid w of
        (Inl e, w) \<Rightarrow> (Inl e, w)
      | (Inr (Some (d, t)), w) \<Rightarrow> credit_package d t pid w
      | (Inr None, w) \<Rightarrow>
          (case findPurchaseByTxnId txn w of None \<Rightarrow> (Inr (), w)
           | Some k \<Rightarrow> let p = w_purchases w ! k in
               (case pu_gateway_payment p of
                  Some g \<Rightarrow> if pu_status p = OrderCompleted \<and> g \<noteq> [] then credit_package (pu_driver p) (pu_threshold p) g w else (Inr (), w)
                | None \<Rightarrow> (Inr (), w))))"

definition settle_wallet_capture :: "nat \<Rightarrow> paise \<Rightarrow> string \<Rightarrow> world \<Rightarrow> unit res \<times> world" where
  "settle_wallet_capture d paise txn w =
     (case topUpDriverWallet d (fdiv (of_int paise) 100) txn (w_drivers w) of
        (Inl e, _) \<Rightarrow> (Inl e, w)
      | (Inr _, b) \<Rightarrow> (Inr (), w\<lparr>w_drivers := b, w_topups := map (\<lambda>x. if to_txn x = txn \<and> to_status x = OrderPending
            then x\<lparr>to_status := OrderCompleted\<rparr> else x) (w_topups w)\<rparr>))"

text \<open>\<open>Inr True\<close>: confirmed. \<open>Inr False\<close>: captured but not creditable, left for a manual refund.\<close>

definition settle_capture :: "pay_config \<Rightarrow> int \<Rightarrow> pay_target \<Rightarrow> string \<Rightarrow> paise \<Rightarrow> string \<Rightarrow> world \<Rightarrow> bool res \<times> world" where
  "settle_capture cfg now target txn expected pid w =
     (case target of
        RideTarget p \<Rightarrow> settle_ride_capture cfg now p pid w
      | PackageTarget k _ \<Rightarrow> (case settle_package_capture k txn pid w of (Inl e, w) \<Rightarrow> (Inl e, w) | (Inr _, w) \<Rightarrow> (Inr True, w))
      | WalletTarget d _ \<Rightarrow> (case settle_wallet_capture d expected txn w of (Inl e, w) \<Rightarrow> (Inl e, w) | (Inr _, w) \<Rightarrow> (Inr True, w))
      | NoTarget \<Rightarrow> (Inr True, w))"

definition settlePayuTxn :: "pay_config \<Rightarrow> int \<Rightarrow> (string \<Rightarrow> payu_status option) \<Rightarrow> string \<Rightarrow> body \<Rightarrow> world \<Rightarrow> payu_outcome \<times> world" where
  "settlePayuTxn cfg now status txn b w =
     (let target = resolve_txn txn w; out = (\<lambda>t r e. \<lparr>po_target = t, po_result = r, po_error = e\<rparr>) in
      case status txn of None \<Rightarrow> (out target PayWaiting True, w)
      | Some st \<Rightarrow>
          if ps_state st = FailedTxn then (out target PayFailure False, w)
          else if ps_state st \<noteq> Captured then (out target PayWaiting False, w)
          else (case expected_paise target of None \<Rightarrow> (out NoTarget PayWaiting False, recordPayuEvent b st False w)
            | Some expected \<Rightarrow>
                if expected \<le> 0 \<or> ps_paise st \<noteq> expected then (out target PayWaiting False, recordPayuEvent b st False w)
                else (case settle_capture cfg now target txn expected (coalesce (ps_mihpayid st) txn) w of
                    (Inl e, w1) \<Rightarrow> (out target PayWaiting True, w1)
                  | (Inr False, w1) \<Rightarrow> (out target PayWaiting False, recordPayuEvent b st False w1)
                  | (Inr True, w1) \<Rightarrow> (out target PaySuccess False, recordPayuEvent b st True w1))))"

definition handlePayuNotification :: "pay_config \<Rightarrow> (string \<Rightarrow> string) \<Rightarrow> int \<Rightarrow> (string \<Rightarrow> payu_status option) \<Rightarrow> body \<Rightarrow> world \<Rightarrow> payu_outcome res \<times> world" where
  "handlePayuNotification cfg sha512 now status b w =
     (if \<not> verifyPayuResponseHash sha512 (pc_keys cfg) b then (Inl (http_err 400 ''WEBHOOK_INVALID_SIGNATURE''), w)
      else case settlePayuTxn cfg now status (field b ''txnid'') b w of (o1, w) \<Rightarrow> (Inr o1, w))"

text \<open>One row of the sweep over pending ride payments; \<open>stale\<close>: not touched for an hour.\<close>

definition fail_payment :: "int \<Rightarrow> nat \<Rightarrow> world \<Rightarrow> world" where
  "fail_payment now ride w = snd (upd_payment ride (\<lambda>p. pm_status p = PayPending)
     (\<lambda>p. p\<lparr>pm_status := PayFailed, pm_failed := Some now, pm_reason := Some ''reconciliation_no_capture''\<rparr>) w)"

definition reconcile_row :: "pay_config \<Rightarrow> int \<Rightarrow> (string \<Rightarrow> payu_status option) \<Rightarrow> (string \<Rightarrow> (string \<times> bool) list option) \<Rightarrow> bool
    \<Rightarrow> payment \<Rightarrow> world \<Rightarrow> world" where
  "reconcile_row cfg now status rzp stale p w =
     (if pm_payu p then
        (if \<not> payuConfigured (pc_keys cfg) then w
         else case pm_txn p of None \<Rightarrow> w
         | Some t \<Rightarrow> (case status t of None \<Rightarrow> w
             | Some st \<Rightarrow>
                 if ps_state st = Captured then
                   if ps_paise st = pm_amount p then snd (confirmRidePayment cfg now (pm_ride p) (Some (Payu, coalesce (ps_mihpayid st) t)) w) else w
                 else if ps_state st = FailedTxn \<or> (ps_state st = UnknownTxn \<and> stale) then fail_payment now (pm_ride p) w
                 else w))
      else if \<not> pc_razorpay cfg then w
      else case pm_order p of None \<Rightarrow> w
      | Some ord \<Rightarrow> (case rzp ord of None \<Rightarrow> w
          | Some items \<Rightarrow> (case find snd items of
                Some (i, _) \<Rightarrow> snd (confirmRidePayment cfg now (pm_ride p) (Some (Razorpay, i)) w)
              | None \<Rightarrow> fail_payment now (pm_ride p) w)))"

text \<open>\<open>pick\<close> is \<open>ORDER BY random() LIMIT 50\<close>, \<open>old\<close> and \<open>stale\<close> the age tests of the query.\<close>

definition reconcilePendingRidePayments :: "pay_config \<Rightarrow> int \<Rightarrow> (string \<Rightarrow> payu_status option) \<Rightarrow> (string \<Rightarrow> (string \<times> bool) list option)
    \<Rightarrow> (payment list \<Rightarrow> payment list) \<Rightarrow> (payment \<Rightarrow> bool) \<Rightarrow> (payment \<Rightarrow> bool) \<Rightarrow> world \<Rightarrow> world" where
  "reconcilePendingRidePayments cfg now status rzp pick old stale w =
     (if \<not> pc_razorpay cfg \<and> \<not> payuConfigured (pc_keys cfg) then w
      else foldl (\<lambda>w p. reconcile_row cfg now status rzp (stale p) p w) w
        (pick (filter (\<lambda>p. pm_status p = PayPending \<and> (pm_order p \<noteq> None \<or> pm_txn p \<noteq> None) \<and> old p) (w_payments w))))"

definition pending_txns :: "world \<Rightarrow> string list" where
  "pending_txns w = concat (map (\<lambda>p. case pu_txn p of Some t \<Rightarrow> if pu_payu p \<and> pu_status p = OrderPending then [t] else [] | None \<Rightarrow> []) (w_purchases w))
     @ map to_txn (filter (\<lambda>x. to_status x = OrderPending) (w_topups w))"

definition reconcilePendingPayuPurchases :: "pay_config \<Rightarrow> int \<Rightarrow> (string \<Rightarrow> payu_status option) \<Rightarrow> (string list \<Rightarrow> string list) \<Rightarrow> world \<Rightarrow> world" where
  "reconcilePendingPayuPurchases cfg now status pick w =
     (if \<not> payuConfigured (pc_keys cfg) then w
      else foldl (\<lambda>w t. snd (settlePayuTxn cfg now status t [(''txnid'', t)] w)) w (pick (pending_txns w)))"

subsection \<open>The payment row is for what the rider pays\<close>

lemma max_near: "\<bar>x - y\<bar> \<le> e \<Longrightarrow> \<bar>max x 0 - max y 0\<bar> \<le> (e :: rat)"
  by (simp add: max_def abs_le_iff)

lemma near_small: "\<bar>x - y / 100\<bar> \<le> 1 / 1000 \<Longrightarrow> y \<le> 900000000 \<Longrightarrow> 0 \<le> y \<Longrightarrow> \<bar>x\<bar> \<le> 10000000 \<and> \<bar>x - y / 100\<bar> \<le> (1 / 250 :: rat)"
  by linarith

lemma payableOf_exact:
  assumes "0 \<le> g" "g \<le> 900000000" "0 \<le> d" "d \<le> 900000000"
  shows "payableOf (from_paise g) (Some (from_paise d)) = from_paise (max (g - d) 0)"
proof -
  have ok: "paise_ok g" "paise_ok d" "paise_ok (g - d)" using assms by (auto simp: paise_ok_def)
  have near: "\<bar>fsub (from_paise g) (from_paise d) - of_int (g - d) / 100\<bar> \<le> 1 / 1000"
    using fadd_paise_near [of g "- d"] ok by (simp add: fsub_fadd from_paise_minus)
  have m: "max (of_int (g - d) / 100) 0 = (of_int (max (g - d) 0) / 100 :: rat)" by (simp add: max_def)
  have s: "\<bar>max (fsub (from_paise g) (from_paise d)) 0 - of_int (max (g - d) 0) / 100\<bar> \<le> 1 / 1000"
    using max_near [OF near] unfolding m .
  have b: "max (g - d) 0 \<le> 900000000" using assms by simp
  have "(of_int (max (g - d) 0) :: rat) \<le> of_int 900000000" using b by (simp only: of_int_le_iff)
  moreover have "0 \<le> (of_int (max (g - d) 0) :: rat)" by simp
  ultimately have "\<bar>max (fsub (from_paise g) (from_paise d)) 0\<bar> \<le> 10000000 \<and>
      \<bar>max (fsub (from_paise g) (from_paise d)) 0 - of_int (max (g - d) 0) / 100\<bar> \<le> 1 / 250" by (intro near_small [OF s]) simp_all
  then have "paise_of (max (fsub (from_paise g) (from_paise d)) 0) = max (g - d) 0"
    by (intro paise_of_near) simp_all
  then show ?thesis by (simp add: payableOf_def roundPaise_from)
qed

lemma commission_paise: "commission_of amount pct = from_paise (js_round (fmul amount pct))"
  by (simp add: commission_of_def from_paise_def fdiv_def)

lemma commission_bounds:
  assumes "0 \<le> k" "paise_ok k" "0 \<le> pct" "pct \<le> 100"
  shows "0 \<le> js_round (fmul (from_paise k) pct) \<and> js_round (fmul (from_paise k) pct) \<le> k"
proof -
  have 1: "js_round (fmul (from_paise k) 100) = k" using from_paise_error [OF assms(2)] by (intro cents_near [OF _ assms(2)]) linarith
  have "fmul (from_paise k) pct \<le> fmul (from_paise k) 100"
    unfolding fmul_def using assms from_paise_nonneg [OF assms(1)] by (intro fl_mono mult_left_mono) auto
  then have "js_round (fmul (from_paise k) pct) \<le> k" using js_round_mono 1 by metis
  moreover have "0 \<le> js_round (fmul (from_paise k) pct)"
    using assms from_paise_nonneg [OF assms(1)] by (intro js_round_nonneg fmul_nonneg) auto
  ultimately show ?thesis by simp
qed

lemma payment_row_amounts:
  fixes now :: int and ride user driver :: nat and chan :: pay_channel and st :: pay_status
  assumes g: "0 \<le> coalesce (fs_final f) (fs_estimated f)" "coalesce (fs_final f) (fs_estimated f) \<le> 900000000"
    and d: "0 \<le> fs_discount f" "fs_discount f \<le> 900000000" and pct: "0 \<le> pc_commission cfg" "pc_commission cfg \<le> 100"
  defines "p \<equiv> payment_row cfg now ride user driver chan st f"
  shows "pm_amount p = ocar_payable (coalesce (fs_final f) (fs_estimated f)) (Some (fs_discount f))"
    "pm_commission p + pm_earning p = pm_amount p" "0 \<le> pm_commission p" "0 \<le> pm_earning p" "payment_row_ok p"
proof -
  define k where "k = ocar_payable (coalesce (fs_final f) (fs_estimated f)) (Some (fs_discount f))"
  have k: "0 \<le> k" "k \<le> 900000000" "paise_ok k" using g d by (auto simp: k_def ocar_payable_def paise_ok_def)
  have am: "payableOf (from_paise (coalesce (fs_final f) (fs_estimated f))) (Some (from_paise (fs_discount f))) = from_paise k"
    using payableOf_exact [OF g d] by (simp add: k_def ocar_payable_def)
  define c where "c = js_round (fmul (from_paise k) (pc_commission cfg))"
  have c: "0 \<le> c" "c \<le> k" using commission_bounds [OF k(1,3) pct] by (simp_all add: c_def)
  have ok: "paise_ok c" "paise_ok (k - c)" using c k by (auto simp: paise_ok_def)
  have cc: "commission_of (from_paise k) (pc_commission cfg) = from_paise c" by (simp add: commission_paise c_def)
  have ee: "earning_of (from_paise k) (from_paise c) = from_paise (k - c)"
    unfolding earning_of_def using round2_fsub_paise [OF k(3) ok] .
  have p: "pm_amount p = k" "pm_commission p = c" "pm_earning p = k - c"
    unfolding p_def payment_row_def Let_def am cc ee payment.simps using to_from_paise k(3) ok by simp_all
  show "pm_amount p = ocar_payable (coalesce (fs_final f) (fs_estimated f)) (Some (fs_discount f))"
    "pm_commission p + pm_earning p = pm_amount p" "0 \<le> pm_commission p" "0 \<le> pm_earning p"
    using p c by (simp_all add: k_def)
  show "payment_row_ok p" using p c k by (simp add: payment_row_ok_def numeric_fits_def)
qed

lemma createPaymentRecord_cases:
  assumes "createPaymentRecord cfg now ride chan st w = (r, w')"
  defines "w1 \<equiv> w\<lparr>w_offers := snd (finaliseDiscount (pc_max_pct cfg) ride (w_offers w))\<rparr>"
  obtains "w' = w1" "payment_of ride w = None \<longrightarrow> isl r"
  | f rr d where "snapshots (w_offers w1) ride = Some f" "ride_at (w_rides w) ride = Some rr" "rr_driver rr = Some d" "payment_of ride w = None" "r = Inr ()"
      "w' = w1\<lparr>w_payments := w_payments w @ [payment_row cfg now ride (rr_user rr) d chan st f]\<rparr>"
proof -
  have s: "payment_of ride w1 = payment_of ride w" "w_payments w1 = w_payments w" "w_rides w1 = w_rides w" by (simp_all add: w1_def payment_of_def)
  show thesis
    using assms(1) that unfolding createPaymentRecord_def w1_def [symmetric] Let_def
    by (auto simp: s split: option.splits if_splits)
qed

text \<open>
  The payment row is for exactly what the rider pays (fare less the finalised discount, never negative), split into commission and
  earning without losing a paisa; a row that exists is never replaced, and no wallet is touched.
\<close>

theorem payment_is_for_the_payable:
  assumes run: "createPaymentRecord cfg now ride chan st w = (r, w')"
    and small: "\<And>f. snapshots (w_offers w') ride = Some f \<Longrightarrow> 0 \<le> coalesce (fs_final f) (fs_estimated f) \<and> coalesce (fs_final f) (fs_estimated f) \<le> 900000000
        \<and> 0 \<le> fs_discount f \<and> fs_discount f \<le> 900000000"
    and pct: "0 \<le> pc_commission cfg" "pc_commission cfg \<le> 100"
  shows "w_users w' = w_users w \<and> w_drivers w' = w_drivers w \<and> w_packages w' = w_packages w \<and> w_settle w' = w_settle w
    \<and> (case (payment_of ride w, r) of
         (None, Inr _) \<Rightarrow> (\<exists>p f. w_payments w' = w_payments w @ [p] \<and> pm_ride p = ride \<and> snapshots (w_offers w') ride = Some f \<and> pm_status p = st
               \<and> pm_amount p = ocar_payable (coalesce (fs_final f) (fs_estimated f)) (Some (fs_discount f))
               \<and> pm_commission p + pm_earning p = pm_amount p \<and> 0 \<le> pm_commission p \<and> 0 \<le> pm_earning p)
       | _ \<Rightarrow> w_payments w' = w_payments w)"
  using run
proof (cases rule: createPaymentRecord_cases)
  case 1
  then show ?thesis by (auto split: option.split sum.split)
next
  case (2 f rr d)
  have f': "snapshots (w_offers w') ride = Some f" using 2 by simp
  have "pm_ride (payment_row cfg now ride (rr_user rr) d chan st f) = ride \<and> pm_status (payment_row cfg now ride (rr_user rr) d chan st f) = st"
    by (simp add: payment_row_def Let_def)
  then show ?thesis using 2 f' payment_row_amounts [of f cfg now ride "rr_user rr" d chan st] small [OF f'] pct by simp
qed

subsection \<open>A confirmation books the whole ride, once\<close>

lemma payment_of_set:
  assumes "\<And>p. pm_ride (f p) = pm_ride p"
  shows "payment_of j (set_payment ride f w) = (if j = ride then map_option f (payment_of j w) else payment_of j w)"
proof -
  have "find (\<lambda>p. pm_ride p = j) (map (\<lambda>p. if pm_ride p = ride then f p else p) ps)
      = (if j = ride then map_option f (find (\<lambda>p. pm_ride p = j) ps) else find (\<lambda>p. pm_ride p = j) ps)" for ps
    using assms by (induction ps) auto
  then show ?thesis by (simp add: payment_of_def set_payment_def)
qed

lemma payment_of_ride: "payment_of j w = Some p \<Longrightarrow> pm_ride p = j"
  by (auto simp: payment_of_def find_Some_iff)

lemma with_payment_id_simps [simp]:
  "pm_ride (with_payment_id pid p) = pm_ride p" "pm_status (with_payment_id pid p) = pm_status p" "pm_amount (with_payment_id pid p) = pm_amount p"
  "pm_captured (with_payment_id pid p) = pm_captured p" "pm_commission (with_payment_id pid p) = pm_commission p"
  "pm_driver (with_payment_id pid p) = pm_driver p" "pm_user (with_payment_id pid p) = pm_user p" "pm_channel (with_payment_id pid p) = pm_channel p"
  "pm_earning (with_payment_id pid p) = pm_earning p" "pm_discount (with_payment_id pid p) = pm_discount p" "pm_order (with_payment_id pid p) = pm_order p"
  "pm_txn (with_payment_id pid p) = pm_txn p" "pm_payu (with_payment_id pid p) = pm_payu p"
  by (auto simp: with_payment_id_def split: option.split prod.split gateway.split)

lemma take_dues_Some:
  assumes "take_dues cfg mode ride d fare w = Some w'"
  obtains b x where "mode = Some PackageBilling" "consumePackageBalance ride d fare (w_packages w) = (Inr x, b)" "w' = w\<lparr>w_packages := b\<rparr>"
  | b x where "mode \<noteq> Some PackageBilling" "deductCommission (pc_min_wallet cfg) ride d (map_option pm_commission (payment_of ride w)) (w_drivers w) = (Inr x, b)"
      "w' = w\<lparr>w_drivers := b\<rparr>"
  using assms by (auto simp: take_dues_def split: if_splits prod.splits sum.splits)

lemma accrue_Some:
  assumes "accrue cfg now ride d w = Some w'"
  obtains s where "accrueDriverEarning (pc_accrual cfg) (pc_pan cfg d) now ride d (map_option pm_amount (payment_of ride w)) (w_settle w) = (Inr (), s)"
    "w' = w\<lparr>w_settle := s\<rparr>"
  using assms by (auto simp: accrue_def split: prod.splits sum.splits)

lemma give_cashback_Some:
  assumes "give_cashback cfg ride u fare w = Some w'"
  obtains b where "creditCashback (pc_cashback cfg) ride u fare (w_users w) = (Inr (), b)" "w' = w\<lparr>w_users := b\<rparr>"
  using assms by (auto simp: give_cashback_def split: prod.splits sum.splits)

definition completed_row :: "int \<Rightarrow> (gateway \<times> string) option \<Rightarrow> payment \<Rightarrow> payment" where
  "completed_row now pid p = with_payment_id pid (p\<lparr>pm_status := PayCompleted, pm_captured := Some now\<rparr>)"

lemma confirm_cases:
  assumes "confirmRidePayment cfg now ride pid w = (r, w')"
  obtains "w' = w" "r \<noteq> Inr True" "r = Inr False \<longrightarrow> pred_option (\<lambda>p. pm_status p \<noteq> PayPending) (payment_of ride w)"
  | p w1 w2 w3 w4 where "payment_of ride w = Some p" "pm_status p = PayPending" "r = Inr True" "w1 = set_payment ride (completed_row now pid) w"
      "take_dues cfg (billing_of ride w) ride (pm_driver p) (from_paise (pm_amount p)) w1 = Some w2"
      "accrue cfg now ride (pm_driver p) w2 = Some w3" "give_cashback cfg ride (pm_user p) (from_paise (pm_amount p)) w3 = Some w4"
      "w' = settle_offer ride w4"
proof -
  have c: "completed_row now pid = (\<lambda>p. with_payment_id pid (p\<lparr>pm_status := PayCompleted, pm_captured := Some now\<rparr>))"
    by (rule ext) (simp add: completed_row_def)
  have b: "billing_of ride (set_payment ride f w) = billing_of ride w" for f by (simp add: billing_of_def set_payment_def)
  show thesis
    using assms that unfolding confirmRidePayment_def Let_def b c [symmetric]
    by (auto simp: bind_eq_Some_conv split: option.splits if_splits)
qed

text \<open>The earnings lines of one key: at most one can be inserted, and a second one is skipped.\<close>

definition key_lines :: "earning_key \<Rightarrow> settle_db \<Rightarrow> earning list" where
  "key_lines k s = filter (\<lambda>x. ea_key x = k) (earnings s)"

lemma insert_earning_lines:
  assumes "insert_earning True e s = Some s'"
  shows "key_lines k s' = (if ea_key e = k \<and> key_lines k s = [] then [e] else key_lines k s)"
  using assms by (auto simp: insert_earning_def key_lines_def list_ex_iff filter_empty_conv split: if_splits)

lemma insert_tax_lines: "insert_tax t s = Some s' \<Longrightarrow> key_lines k s' = key_lines k s"
  by (auto simp: insert_tax_def key_lines_def split: if_splits)

definition earning_line :: "accrual_config \<Rightarrow> int \<Rightarrow> nat \<Rightarrow> nat \<Rightarrow> earning_type \<Rightarrow> paise \<Rightarrow> earning_key \<Rightarrow> earning" where
  "earning_line cfg now ride d ty k key = \<lparr>ea_driver = d, ea_ride = Some ride, ea_type = ty, ea_amount = k, ea_status = EarnPending,
     ea_available = now + ac_hold_hours cfg * 3600000, ea_settlement = None, ea_key = key\<rparr>"

lemma accrue_books_fare:
  assumes "accrueDriverEarning cfg pan now ride d (Some k) s = (Inr (), s')" "paise_ok k"
  shows "key_lines (FareOf ride) s' = (if key_lines (FareOf ride) s = [] then [earning_line cfg now ride d RideFareNet k (FareOf ride)] else key_lines (FareOf ride) s)"
    and "key_lines (TdsOf ride) s' = (if key_lines (TdsOf ride) s = [] \<and> 0 < tds_amount (from_paise k) (tds_rate cfg pan)
        then [earning_line cfg now ride d TdsDeduction (to_paise (- tds_amount (from_paise k) (tds_rate cfg pan))) (TdsOf ride)] else key_lines (TdsOf ride) s)"
    and "key \<noteq> FareOf ride \<Longrightarrow> key \<noteq> TdsOf ride \<Longrightarrow> key_lines key s' = key_lines key s"
proof -
  let ?t = "tds_amount (from_paise k) (tds_rate cfg pan)"
  obtain s1 where s1: "insert_earning True (earning_line cfg now ride d RideFareNet k (FareOf ride)) s = Some s1"
    and rest: "if 0 < ?t then \<exists>x s2. insert_earning True (earning_line cfg now ride d TdsDeduction (to_paise (- ?t)) (TdsOf ride)) s1 = Some s2 \<and> insert_tax x s2 = Some s'
      else s' = s1"
    using assms(1) to_from_paise [OF assms(2)]
    by (auto simp: accrueDriverEarning_def Let_def earning_line_def bind_eq_Some_conv split: option.splits if_splits)
  note l = insert_earning_lines insert_tax_lines earning_line_def
  show "key_lines (FareOf ride) s' = (if key_lines (FareOf ride) s = [] then [earning_line cfg now ride d RideFareNet k (FareOf ride)] else key_lines (FareOf ride) s)"
    using rest insert_earning_lines [OF s1, of "FareOf ride"] by (auto simp: l split: if_splits)
  show "key_lines (TdsOf ride) s' = (if key_lines (TdsOf ride) s = [] \<and> 0 < ?t
        then [earning_line cfg now ride d TdsDeduction (to_paise (- ?t)) (TdsOf ride)] else key_lines (TdsOf ride) s)"
    using rest insert_earning_lines [OF s1, of "TdsOf ride"] by (auto simp: l split: if_splits)
  show "key_lines key s' = key_lines key s" if "key \<noteq> FareOf ride" "key \<noteq> TdsOf ride"
    using rest insert_earning_lines [OF s1, of key] that by (auto simp: l split: if_splits)
qed

lemma commit_Inr: "commit_or_fail v r b = (Inr x, b') \<longleftrightarrow> r = Some b' \<and> x = v"
  by (auto simp: commit_or_fail_def split: option.splits)

lemma consume_moves:
  assumes "consumePackageBalance ride d (from_paise k) b = (Inr x, b')" "book_ok package_checks b" "0 \<le> k" "paise_ok k"
  shows "balance b' d = balance b d - k"
proof (cases "k = 0")
  case False
  then have "0 < from_paise k" using assms(3) from_paise_eq_0 [of k] from_paise_nonneg [of k] by linarith
  then have w: "write_entry package_checks d RideConsumption False (round2 (fsub (from_paise (balance b d)) (from_paise k))) (from_paise k) 0 (from_paise k) (Some ride) None (open_wallet d b) = Some b'"
    using assms(1) by (simp add: consumePackageBalance_def Let_def commit_Inr)
  show ?thesis using write_moves [OF assms(2) w] by simp
qed (use assms(1) in \<open>simp add: consumePackageBalance_def\<close>)

lemma deduct_moves:
  assumes "deductCommission m ride d (Some k) b = (Inr x, b')" "book_ok driver_checks b"
  shows "balance b' d = balance b d - k"
proof (cases "k = 0")
  case False
  then have w: "write_entry driver_checks d CommissionDebit False (round2 (fsub (from_paise (balance b d)) (from_paise k))) (from_paise k) 0 (from_paise k) (Some ride) None (open_wallet d b) = Some b'"
    using assms(1) by (simp add: deductCommission_def Let_def commit_Inr)
  show ?thesis using write_moves [OF assms(2) w] by simp
qed (use assms(1) in \<open>simp add: deductCommission_def\<close>)

lemma cashback_moves:
  assumes "creditCashback pct ride u fare b = (Inr (), b')" "book_ok user_checks b"
  shows "balance b' u = balance b u + max 0 (js_round (fmul fare pct))"
proof (cases "cashback_amount pct fare \<le> 0")
  case True
  then have "js_round (fmul fare pct) \<le> 0" unfolding cashback_paise using from_paise_mono [of 1 "js_round (fmul fare pct)"]
    by (metis from_paise_0 from_paise_eq_0 from_paise_mono linorder_not_le nle_le order.strict_iff_order)
  then show ?thesis using assms(1) True by (simp add: creditCashback_def)
next
  case False
  have pos: "0 < js_round (fmul fare pct)" using False unfolding cashback_paise
    by (metis from_paise_0 from_paise_mono linorder_not_le)
  have w: "write_entry user_checks u Cashback True (round2 (fadd (from_paise (balance b u)) (from_paise (js_round (fmul fare pct)))))
      (from_paise (js_round (fmul fare pct))) (from_paise (js_round (fmul fare pct))) 0 (Some ride) None (open_wallet u b) = Some b'"
    using assms(1) False by (simp add: creditCashback_def Let_def commit_Inr cashback_paise)
  show ?thesis using write_moves [OF assms(2) w] pos by simp
qed

text \<open>
  C8. A confirmation is all or nothing and happens once: a confirmed ride has its payment completed, its commission (or, for a
  package driver, its fare) taken from exactly the right wallet, its cashback paid, its fare accrued for its driver as one earnings line of exactly the amount paid
  (with one line for the tax deducted, when there is any, and no line of another ride touched), and its reserved offer consumed, with nothing else in the offer tables
  changed; confirming it again does nothing. A refused or failed confirmation changes nothing.
\<close>

theorem confirmation_books_the_ride:
  assumes row: "payment_of ride w = Some p" "0 \<le> pm_amount p" "paise_ok (pm_amount p)"
    and books: "book_ok driver_checks (w_drivers w)" "book_ok package_checks (w_packages w)" "book_ok user_checks (w_users w)"
    and run: "confirmRidePayment cfg now ride pid w = (r, w')"
  shows "case r of Inl e \<Rightarrow> w' = w
    | Inr False \<Rightarrow> w' = w \<and> pm_status p \<noteq> PayPending
    | Inr True \<Rightarrow> pm_status p = PayPending \<and> payment_of ride w' = Some (completed_row now pid p)
        \<and> (if billing_of ride w = Some PackageBilling
           then balance (w_packages w') (pm_driver p) = balance (w_packages w) (pm_driver p) - pm_amount p \<and> w_drivers w' = w_drivers w
           else balance (w_drivers w') (pm_driver p) = balance (w_drivers w) (pm_driver p) - pm_commission p \<and> w_packages w' = w_packages w)
        \<and> balance (w_users w') (pm_user p) = balance (w_users w) (pm_user p) + max 0 (js_round (fmul (from_paise (pm_amount p)) (pc_cashback cfg)))
        \<and> (let ac = pc_accrual cfg; tds = tds_amount (from_paise (pm_amount p)) (tds_rate ac (pc_pan cfg (pm_driver p))) in
            key_lines (FareOf ride) (w_settle w') = (if key_lines (FareOf ride) (w_settle w) = []
              then [earning_line ac now ride (pm_driver p) RideFareNet (pm_amount p) (FareOf ride)] else key_lines (FareOf ride) (w_settle w))
            \<and> key_lines (TdsOf ride) (w_settle w') = (if key_lines (TdsOf ride) (w_settle w) = [] \<and> 0 < tds
              then [earning_line ac now ride (pm_driver p) TdsDeduction (to_paise (- tds)) (TdsOf ride)] else key_lines (TdsOf ride) (w_settle w))
            \<and> (\<forall>k. k = FareOf ride \<or> k = TdsOf ride \<or> key_lines k (w_settle w') = key_lines k (w_settle w)))
        \<and> w_offers w' = (w_offers w)\<lparr>redemptions :=
            map (\<lambda>r. if hits ride Reserved r then r\<lparr>rd_status := Consumed\<rparr> else r) (redemptions (w_offers w))\<rparr>
        \<and> confirmRidePayment cfg' now' ride pid' w' = (Inr False, w')"
  using run
proof (cases rule: confirm_cases)
  case 1
  then show ?thesis using row(1) by (cases r) (auto split: bool.split)
next
  case (2 p0 w1 w2 w3 w4)
  have p0: "p0 = p" using 2(1) row(1) by simp
  have ride: "pm_ride (completed_row now pid q) = pm_ride q" for q by (simp add: completed_row_def)
  have pay1: "payment_of ride w1 = Some (completed_row now pid p)" using 2(4) row(1) payment_of_set [OF ride] by simp
  have same1: "w_drivers w1 = w_drivers w" "w_packages w1 = w_packages w" "w_users w1 = w_users w" "w_settle w1 = w_settle w" "w_offers w1 = w_offers w"
    using 2(4) by (simp_all add: set_payment_def)
  have dues: "w_users w2 = w_users w \<and> w_payments w2 = w_payments w1 \<and> w_settle w2 = w_settle w \<and> w_offers w2 = w_offers w \<and>
      (if billing_of ride w = Some PackageBilling
           then balance (w_packages w2) (pm_driver p) = balance (w_packages w) (pm_driver p) - pm_amount p \<and> w_drivers w2 = w_drivers w
           else balance (w_drivers w2) (pm_driver p) = balance (w_drivers w) (pm_driver p) - pm_commission p \<and> w_packages w2 = w_packages w)"
    using 2(5) unfolding p0
  proof (cases rule: take_dues_Some)
    case (1 b x)
    then show ?thesis using consume_moves [of ride "pm_driver p" "pm_amount p" "w_packages w" x b] books(2) row(2,3) same1 by simp
  next
    case (2 b x)
    then show ?thesis using deduct_moves [of "pc_min_wallet cfg" ride "pm_driver p" "pm_commission p" "w_drivers w" x b] books(1) same1 pay1
      by (simp add: completed_row_def)
  qed
  obtain s where s: "accrueDriverEarning (pc_accrual cfg) (pc_pan cfg (pm_driver p)) now ride (pm_driver p) (map_option pm_amount (payment_of ride w2)) (w_settle w2) = (Inr (), s)"
    and w3: "w3 = w2\<lparr>w_settle := s\<rparr>" using accrue_Some [OF 2(6)] p0 by auto
  have pay2: "payment_of ride w2 = Some (completed_row now pid p)" using pay1 dues by (simp add: payment_of_def)
  have acc: "accrueDriverEarning (pc_accrual cfg) (pc_pan cfg (pm_driver p)) now ride (pm_driver p) (Some (pm_amount p)) (w_settle w) = (Inr (), s)"
    using s pay2 dues same1 by (simp add: completed_row_def)
  note fare = accrue_books_fare [OF acc row(3)]
  obtain b where b: "creditCashback (pc_cashback cfg) ride (pm_user p) (from_paise (pm_amount p)) (w_users w3) = (Inr (), b)"
    and w4: "w4 = w3\<lparr>w_users := b\<rparr>" using give_cashback_Some [OF 2(7)] p0 by auto
  have cash: "balance b (pm_user p) = balance (w_users w) (pm_user p) + max 0 (js_round (fmul (from_paise (pm_amount p)) (pc_cashback cfg)))"
    using cashback_moves [OF b] books(3) dues w3 by simp
  have o: "w_offers w4 = w_offers w" using dues same1 w3 w4 by simp
  have off: "w_offers w' = (w_offers w)\<lparr>redemptions :=
      map (\<lambda>r. if hits ride Reserved r then r\<lparr>rd_status := Consumed\<rparr> else r) (redemptions (w_offers w))\<rparr>"
    by (simp add: 2(8) settle_offer_def settleOfferOnPayment_def consumeRedemption_def o)
  have pay': "payment_of ride w' = Some (completed_row now pid p)" using pay2 by (simp add: 2(8) settle_offer_def w4 w3 payment_of_def)
  have again: "confirmRidePayment cfg' now' ride pid' w' = (Inr False, w')"
    using pay' by (simp add: confirmRidePayment_def completed_row_def)
  have w': "w_packages w' = w_packages w2" "w_drivers w' = w_drivers w2" "w_users w' = b" "w_settle w' = s"
    by (simp_all add: 2(8) settle_offer_def w4 w3)
  have fare': "key_lines k s = key_lines k (w_settle w)" if "k \<noteq> FareOf ride" "k \<noteq> TdsOf ride" for k using fare(3) [OF that] .
  have keys: "\<forall>k. k = FareOf ride \<or> k = TdsOf ride \<or> key_lines k s = key_lines k (w_settle w)" using fare' by blast
  show ?thesis unfolding 2(3) sum.case bool.case Let_def w'
    using 2(2) p0 pay' dues cash fare(1,2) keys off again by (intro conjI) simp_all
qed

definition demo_payment :: payment where
  "demo_payment = \<lparr>pm_ride = 0, pm_user = 1, pm_driver = 2, pm_amount = 30000, pm_channel = PayuOnline, pm_status = PayPending, pm_percent = 15,
     pm_commission = 4500, pm_earning = 25500, pm_discount = 0, pm_captured = None, pm_failed = None, pm_reason = None, pm_order = None,
     pm_rzp_payment = None, pm_payu = True, pm_txn = Some ''R0x1'', pm_gateway_payment = None\<rparr>"

definition demo_world :: world where
  "demo_world = \<lparr>w_rides = \<lparr>rides = [], assigns = [], sessions = [], available = Map.empty, history = [], driver_index = True, user_index = True\<rparr>,
     w_offers = empty_offers, w_users = empty_book, w_drivers = empty_book, w_packages = empty_book, w_settle = demo_settle,
     w_payments = [demo_payment], w_purchases = [], w_topups = [], w_events = [], w_bindings = Map.empty, w_ride_orders = Map.empty\<rparr>"

definition demo_pay_config :: pay_config where
  "demo_pay_config = \<lparr>pc_commission = 15, pc_cashback = 2, pc_min_wallet = 500, pc_max_pct = None,
     pc_accrual = \<lparr>ac_hold_hours = 24, ac_rate_pan = 1, ac_rate_no_pan = 20, ac_year = 2026, ac_month = 5\<rparr>, pc_pan = (\<lambda>d. True),
     pc_keys = \<lparr>pk_key = ''k'', pk_salt = ''s''\<rparr>, pc_razorpay = False\<rparr>"

lemma demo_floats: "from_paise 30000 = 300" "fmul 300 2 = 600" "js_round 600 = 600" "fmul 300 1 = 300" "js_round 300 = 300" "fdiv 300 100 = from_paise 300"
  "fdiv 600 100 = from_paise 600"
  using fl_int [of 300] fl_int [of 600] js_round_of_int [of 600] js_round_of_int [of 300]
  by (simp_all add: from_paise_def fmul_def fdiv_def)

lemma to_paise_0: "to_paise 0 = 0"
  using to_from_paise [of 0] by simp

lemma demo_write: "0 < k \<Longrightarrow> k < 10 ^ 6 \<Longrightarrow> \<exists>b. write_entry driver_checks i kind False (round2 (fsub 0 (from_paise k))) (from_paise k) 0 (from_paise k) ride ref (open_wallet i empty_book) = Some b"
  "0 < k \<Longrightarrow> k < 10 ^ 6 \<Longrightarrow> \<exists>b. write_entry user_checks i kind True (round2 (fadd 0 (from_paise k))) (from_paise k) (from_paise k) 0 ride ref (open_wallet i empty_book) = Some b"
  using to_from_paise [of k] to_from_paise [of "- k"] round2_fsub_paise [of 0 k] round2_fadd_paise [of 0 k] to_from_paise [of 0]
  by (simp_all add: to_paise_0 write_entry_def Let_def open_wallet_def empty_book_def empty_wallet_def driver_checks_def user_checks_def numeric_fits_def paise_ok_def)

lemma confirmed_demo: "\<exists>w'. confirmRidePayment demo_pay_config 5 0 (Some (Payu, ''mih'')) demo_world = (Inr True, w')"
proof -
  define w1 where "w1 = set_payment 0 (completed_row 5 (Some (Payu, ''mih''))) demo_world"
  have w1: "payment_of 0 w1 = Some (completed_row 5 (Some (Payu, ''mih'')) demo_payment)" "w_drivers w1 = empty_book" "w_users w1 = empty_book" "w_settle w1 = demo_settle"
    by (simp_all add: w1_def set_payment_def demo_world_def payment_of_def demo_payment_def completed_row_def)
  have bal: "balance empty_book i = 0" for i by (simp add: balance_def empty_book_def)
  obtain b where "write_entry driver_checks 2 CommissionDebit False (round2 (fsub 0 (from_paise 4500))) (from_paise 4500) 0 (from_paise 4500) (Some 0) None (open_wallet 2 empty_book) = Some b"
    using demo_write(1) [of 4500 2 CommissionDebit "Some 0" None] by auto
  then obtain b2 where d: "take_dues demo_pay_config None 0 2 300 w1 = Some (w1\<lparr>w_drivers := b2\<rparr>)"
    by (simp add: take_dues_def deductCommission_def Let_def w1 completed_row_def demo_payment_def commit_or_fail_def bal)
  have "\<exists>s. accrueDriverEarning (pc_accrual demo_pay_config) True 5 0 2 (Some 30000) demo_settle = (Inr (), s)"
    using to_from_paise [of 30000] to_from_paise [of "- 300"] to_from_paise [of 300]
    by (simp add: accrueDriverEarning_def Let_def demo_floats tds_amount_def tds_rate_def demo_pay_config_def insert_earning_def insert_tax_def demo_settle_def
        numeric_fits_def paise_ok_def from_paise_minus)
  then obtain s where s: "accrue demo_pay_config 5 0 2 (w1\<lparr>w_drivers := b2\<rparr>) = Some (w1\<lparr>w_drivers := b2, w_settle := s\<rparr>)"
    using w1(1,4) by (auto simp: accrue_def payment_of_def demo_pay_config_def completed_row_def demo_payment_def)
  obtain c where "write_entry user_checks 1 Cashback True (round2 (fadd 0 (from_paise 600))) (from_paise 600) (from_paise 600) 0 (Some 0) None (open_wallet 1 empty_book) = Some c"
    using demo_write(2) [of 600 1 Cashback "Some 0" None] by auto
  then obtain c2 where c: "give_cashback demo_pay_config 0 1 300 (w1\<lparr>w_drivers := b2, w_settle := s\<rparr>) = Some (w1\<lparr>w_drivers := b2, w_settle := s, w_users := c2\<rparr>)"
    using from_paise_nonneg [of 600]
    by (simp add: give_cashback_def creditCashback_def cashback_amount_def Let_def w1 commit_or_fail_def bal demo_pay_config_def demo_floats split: if_splits)
  have p: "payment_of 0 demo_world = Some demo_payment" by (simp add: payment_of_def demo_world_def demo_payment_def)
  have bill: "billing_of 0 w1 = None" by (simp add: billing_of_def w1_def set_payment_def demo_world_def ride_at_def)
  have taken: "\<not> payment_id_taken 0 (Some (Payu, ''mih'')) demo_world" by (simp add: payment_id_taken_def demo_world_def demo_payment_def)
  have w1_eq: "set_payment 0 (\<lambda>p. with_payment_id (Some (Payu, ''mih'')) (p\<lparr>pm_status := PayCompleted, pm_captured := Some 5\<rparr>)) demo_world = w1"
    unfolding w1_def completed_row_def [abs_def] ..
  show ?thesis unfolding confirmRidePayment_def p option.case Let_def w1_eq bill
    using taken d s c by (simp add: demo_payment_def demo_floats)
qed

lemma confirmation_books_the_ride_witness:
  "\<exists>w'. confirmRidePayment demo_pay_config 5 0 (Some (Payu, ''mih'')) demo_world = (Inr True, w')
     \<and> payment_of 0 w' = Some (completed_row 5 (Some (Payu, ''mih'')) demo_payment)
     \<and> balance (w_drivers w') 2 = -4500 \<and> balance (w_users w') 1 = 600
     \<and> confirmRidePayment demo_pay_config 6 0 None w' = (Inr False, w')"
proof -
  obtain r w' where run: "confirmRidePayment demo_pay_config 5 0 (Some (Payu, ''mih'')) demo_world = (r, w')" by force
  then have r: "r = Inr True" using confirmed_demo by auto
  have row: "payment_of 0 demo_world = Some demo_payment" by (simp add: payment_of_def demo_world_def demo_payment_def)
  have ok: "0 \<le> pm_amount demo_payment" "paise_ok (pm_amount demo_payment)" by (simp_all add: demo_payment_def paise_ok_def)
  have books: "book_ok driver_checks (w_drivers demo_world)" "book_ok package_checks (w_packages demo_world)" "book_ok user_checks (w_users demo_world)"
    by (simp_all add: demo_world_def empty_book_ok)
  have cb: "js_round (fmul (from_paise 30000) 2) = 600" by (simp add: demo_floats)
  have bill: "billing_of 0 demo_world = None" by (simp add: billing_of_def demo_world_def ride_at_def)
  show ?thesis using confirmation_books_the_ride [OF row ok books run, of demo_pay_config 6 None] r run cb bill
    by (simp add: demo_payment_def demo_world_def balance_def empty_book_def demo_pay_config_def)
qed

subsection \<open>Only exact captures move money\<close>

lemma record_event_money: "recordPayuEvent b st x w = w\<lparr>w_events := w_events (recordPayuEvent b st x w)\<rparr>"
  by (simp add: recordPayuEvent_def Let_def)

lemma events_only [simp]:
  "payment_of i (recordPayuEvent b st x w) = payment_of i w" "w_drivers (recordPayuEvent b st x w) = w_drivers w"
  "w_purchases (recordPayuEvent b st x w) = w_purchases w" "w_payments (recordPayuEvent b st x w) = w_payments w"
  "w_users (recordPayuEvent b st x w) = w_users w" "w_packages (recordPayuEvent b st x w) = w_packages w"
  by (simp_all add: recordPayuEvent_def Let_def payment_of_def)

lemma ride_capture_completes:
  assumes "settle_ride_capture cfg now p pid w = (Inr True, w')"
  shows "\<exists>q. payment_of (pm_ride p) w' = Some q \<and> pm_status q = PayCompleted \<and> pm_gateway_payment q = Some pid"
proof -
  define w1 where "w1 = (if pm_status p = PayFailed
      then snd (upd_payment (pm_ride p) (\<lambda>q. pm_status q = PayFailed) (\<lambda>q. q\<lparr>pm_status := PayPending, pm_failed := None, pm_reason := None\<rparr>) w) else w)"
  obtain r w2 where run: "confirmRidePayment cfg now (pm_ride p) (Some (Payu, pid)) w1 = (r, w2)" by force
  have eq: "settle_ride_capture cfg now p pid w = (case (r, w2) of (Inl e, w2) \<Rightarrow> (Inl e, w2)
         | (Inr True, w2) \<Rightarrow> (Inr True, w2)
         | (Inr False, w2) \<Rightarrow> (Inr (case payment_of (pm_ride p) w2 of None \<Rightarrow> False
               | Some q \<Rightarrow> pm_status q = PayCompleted \<and> pm_gateway_payment q = Some pid), w2))"
    unfolding settle_ride_capture_def Let_def w1_def [symmetric] run ..
  show ?thesis
  proof (cases "r = Inr True")
    case True
    show ?thesis using run
    proof (cases rule: confirm_cases)
      case 1
      then show ?thesis using True by simp
    next
      case (2 p0 a1 a2 a3 a4)
      have "pm_ride (completed_row now (Some (Payu, pid)) q) = pm_ride q" for q by (simp add: completed_row_def)
      then have "payment_of (pm_ride p) a1 = Some (completed_row now (Some (Payu, pid)) p0)" using 2(1,4) payment_of_set by simp
      moreover have "w_payments a2 = w_payments a1" using 2(5) by (cases rule: take_dues_Some) auto
      moreover have "w_payments a3 = w_payments a2" using 2(6) by (cases rule: accrue_Some) auto
      moreover have "w_payments a4 = w_payments a3" using 2(7) by (cases rule: give_cashback_Some) auto
      ultimately have "payment_of (pm_ride p) w2 = Some (completed_row now (Some (Payu, pid)) p0)"
        by (simp add: 2(8) settle_offer_def payment_of_def)
      then show ?thesis using assms eq True by (simp add: completed_row_def with_payment_id_def)
    qed
  next
    case False
    then show ?thesis using assms unfolding eq by (cases r) (auto split: option.splits bool.splits)
  qed
qed

text \<open>The credit of a reference is booked once: one new ledger line of exactly \<open>k\<close>, unless the reference has its line already.\<close>

definition booked_once :: "nat \<Rightarrow> string \<Rightarrow> paise \<Rightarrow> book \<Rightarrow> book \<Rightarrow> bool" where
  "booked_once d ref k b b' \<longleftrightarrow> (if topped_up d ref b then entries b' = entries b
     else \<exists>e. entries b' = entries b @ [e] \<and> en_owner e = d \<and> en_ref e = Some ref \<and> en_credit e \<and> en_amount e = k)"

lemma wallet_capture_credits:
  assumes "settle_wallet_capture d a txn w = (Inr (), w')"
  shows "booked_once d txn a (w_drivers w) (w_drivers w')"
proof -
  obtain b where b: "topUpDriverWallet d (fdiv (of_int a) 100) txn (w_drivers w) = (Inr (), b)" and w': "w_drivers w' = b"
    using assms by (auto simp: settle_wallet_capture_def split: prod.splits sum.splits)
  show ?thesis
  proof (cases "topped_up d txn (w_drivers w)")
    case True
    then show ?thesis using b w' by (simp add: topUpDriverWallet_def Let_def booked_once_def)
  next
    case False
    have d: "fdiv (of_int a) 100 = from_paise a" by (simp add: fdiv_def from_paise_def)
    have we: "write_entry driver_checks d TopUp True (round2 (fadd (from_paise (balance (w_drivers w) d)) (from_paise a))) (from_paise a) (from_paise a) 0 None (Some txn)
        (open_wallet d (w_drivers w)) = Some b"
      using b False unfolding d by (simp add: topUpDriverWallet_def Let_def commit_Inr)
    show ?thesis using write_entry_Some [OF we] False to_from_paise [OF write_paise_ok [OF we]] unfolding booked_once_def w' entries_open
      by metis
  qed
qed

lemma claim_purchase_closes:
  "claim_purchase k f c w = (Inr x, w') \<Longrightarrow> k < length (w_purchases w) \<Longrightarrow> pu_status (w_purchases w' ! k) \<noteq> OrderPending \<and> length (w_purchases w') = length (w_purchases w)"
  by (auto simp: claim_purchase_def split: if_splits)

lemma credit_package_purchases: "credit_package d t ref w = (r, w') \<Longrightarrow> w_purchases w' = w_purchases w"
  by (auto simp: credit_package_def split: prod.splits sum.splits)

lemma credit_package_books:
  assumes "credit_package d t ref w = (Inr (), w')" "0 < t"
  shows "booked_once d ref t (w_packages w) (w_packages w')"
proof -
  obtain b where b: "creditPackageBalance d (from_paise t) ref (w_packages w) = (Inr (), b)" and w': "w_packages w' = b"
    using assms(1) by (auto simp: credit_package_def split: prod.splits sum.splits)
  have pos: "\<not> from_paise t \<le> 0" using assms(2) from_paise_nonneg [of t] from_paise_eq_0 [of t] by linarith
  show ?thesis
  proof (cases "topped_up d ref (w_packages w)")
    case True
    then show ?thesis using b w' pos by (simp add: creditPackageBalance_def Let_def booked_once_def)
  next
    case False
    have we: "write_entry package_checks d PackageTopUp True (round2 (fadd (from_paise (balance (w_packages w) d)) (from_paise t))) (from_paise t) (from_paise t) 0 None (Some ref)
        (open_wallet d (w_packages w)) = Some b"
      using b False pos by (simp add: creditPackageBalance_def Let_def commit_Inr)
    show ?thesis using write_entry_Some [OF we] False to_from_paise [OF write_paise_ok [OF we]] unfolding booked_once_def w' entries_open
      by metis
  qed
qed

text \<open>
  What holds of the orders billed through PayU: none is ever failed, and one that is completed carries the payment it was completed by.
\<close>

definition payu_order_ok :: "purchase \<Rightarrow> bool" where
  "payu_order_ok p \<longleftrightarrow> pu_txn p \<noteq> None \<longrightarrow> pu_order p = None \<and>
     (pu_status p = OrderPending \<or> pu_status p = OrderCompleted \<and> pu_gateway_payment p \<noteq> None \<and> pu_gateway_payment p \<noteq> Some [])"

definition payu_orders_ok :: "world \<Rightarrow> bool" where
  "payu_orders_ok w \<longleftrightarrow> list_all payu_order_ok (w_purchases w)"

lemma payu_orders_nth: "payu_orders_ok w \<Longrightarrow> k < length (w_purchases w) \<Longrightarrow> payu_order_ok (w_purchases w ! k)"
  by (simp add: payu_orders_ok_def list_all_length)

definition package_settled :: "nat \<Rightarrow> world \<Rightarrow> world \<Rightarrow> bool" where
  "package_settled k w w' \<longleftrightarrow> (let p = w_purchases w' ! k in \<exists>g. pu_status p = OrderCompleted \<and> pu_gateway_payment p = Some g
     \<and> (0 < pu_threshold p \<longrightarrow> booked_once (pu_driver p) g (pu_threshold p) (w_packages w) (w_packages w')))"

lemma find_by_txn: "findPurchaseByTxnId txn w = Some k \<Longrightarrow> k < length (w_purchases w) \<and> pu_txn (w_purchases w ! k) = Some txn"
  by (auto simp: findPurchaseByTxnId_def find_purchase_def find_Some_iff)

lemma package_capture_settles:
  assumes run: "settle_package_capture k txn pid w = (Inr x, w')" and k: "findPurchaseByTxnId txn w = Some k" and ok: "payu_orders_ok w"
  shows "package_settled k w w'"
proof -
  have len: "k < length (w_purchases w)" and txn: "pu_txn (w_purchases w ! k) = Some txn" using find_by_txn [OF k] by auto
  have ok': "payu_order_ok (w_purchases w ! k)" by (rule payu_orders_nth [OF ok len])
  show ?thesis
  proof (cases "pu_status (w_purchases w ! k) = OrderPending")
    case True
    let ?p = "w_purchases w ! k" let ?w1 = "w\<lparr>w_purchases := (w_purchases w)[k := (w_purchases w ! k)\<lparr>pu_gateway_payment := Some pid, pu_status := OrderCompleted\<rparr>]\<rparr>"
    have m: "markPurchaseCompletedPayu k pid w = (Inr (Some (pu_driver ?p, pu_threshold ?p)), ?w1)"
      using run True len by (auto simp: settle_package_capture_def markPurchaseCompletedPayu_def claim_purchase_def split: if_splits)
    have c: "credit_package (pu_driver ?p) (pu_threshold ?p) pid ?w1 = (Inr (), w')" using run by (simp add: settle_package_capture_def m)
    have "w_purchases w' = w_purchases ?w1" by (rule credit_package_purchases [OF c])
    then show ?thesis using credit_package_books [OF c] len by (simp add: package_settled_def)
  next
    case False
    then obtain g where g: "pu_status (w_purchases w ! k) = OrderCompleted" "pu_gateway_payment (w_purchases w ! k) = Some g" "g \<noteq> []"
      using ok' txn by (auto simp: payu_order_ok_def)
    have m: "markPurchaseCompletedPayu k pid w = (Inr None, w)" using False by (simp add: markPurchaseCompletedPayu_def claim_purchase_def)
    have c: "credit_package (pu_driver (w_purchases w ! k)) (pu_threshold (w_purchases w ! k)) g w = (Inr (), w')"
      using run g by (simp add: settle_package_capture_def m k Let_def)
    show ?thesis using credit_package_books [OF c] credit_package_purchases [OF c] g by (simp add: package_settled_def)
  qed
qed

lemma resolve_package: "resolve_txn txn w = PackageTarget k p \<Longrightarrow> findPurchaseByTxnId txn w = Some k"
  by (auto simp: resolve_txn_def split: option.splits)

text \<open>
  C4. A PayU callback, whatever was posted, moves money only when PayU itself reports the transaction captured with exactly the paise
  of the order; anything else leaves every table but the event log as it was. And a reported success means that the target is settled: the
  ride's payment is completed by this very capture; the top-up is in the driver's ledger, once and with exactly its paise; the package order is completed, its payment is
  on it and its threshold has been credited to the driver's package balance under that payment, once.
\<close>

theorem only_exact_captures_move_money:
  assumes "settlePayuTxn cfg now status txn b w = (out, w')" "payu_orders_ok w"
  shows "((\<exists>st. status txn = Some st \<and> ps_state st = Captured \<and> 0 < ps_paise st \<and> expected_paise (resolve_txn txn w) = Some (ps_paise st))
        \<or> (w'\<lparr>w_events := w_events w\<rparr> = w \<and> po_result out \<noteq> PaySuccess))
    \<and> (po_result out = PaySuccess \<longrightarrow> (case po_target out of
          RideTarget p \<Rightarrow> \<exists>q st. payment_of (pm_ride p) w' = Some q \<and> pm_status q = PayCompleted
            \<and> status txn = Some st \<and> pm_gateway_payment q = Some (coalesce (ps_mihpayid st) txn)
        | WalletTarget d a \<Rightarrow> booked_once d txn a (w_drivers w) (w_drivers w')
        | PackageTarget k p \<Rightarrow> package_settled k w w'
        | NoTarget \<Rightarrow> False))"
proof -
  let ?t = "resolve_txn txn w"
  have ev: "(recordPayuEvent b st x w)\<lparr>w_events := w_events w\<rparr> = w" for st x by (subst record_event_money) simp
  consider (no) "status txn = None \<or> (\<exists>st. status txn = Some st \<and> ps_state st \<noteq> Captured)"
    | (unknown) st where "status txn = Some st" "ps_state st = Captured" "expected_paise ?t = None"
    | (mismatch) st k where "status txn = Some st" "ps_state st = Captured" "expected_paise ?t = Some k" "k \<le> 0 \<or> ps_paise st \<noteq> k"
    | (exact) st where "status txn = Some st" "ps_state st = Captured" "expected_paise ?t = Some (ps_paise st)" "0 < ps_paise st"
    by (cases "status txn"; cases "expected_paise ?t") force+
  then show ?thesis
  proof cases
    case no
    then show ?thesis using assms by (auto simp: settlePayuTxn_def Let_def split: if_splits)
  next
    case unknown
    then show ?thesis using assms ev by (auto simp: settlePayuTxn_def Let_def)
  next
    case mismatch
    then show ?thesis using assms ev by (auto simp: settlePayuTxn_def Let_def)
  next
    case exact
    let ?pid = "coalesce (ps_mihpayid st) txn"
    obtain r w1 where c: "settle_capture cfg now ?t txn (ps_paise st) ?pid w = (r, w1)" by force
    have res: "po_result out = PaySuccess \<Longrightarrow> r = Inr True \<and> po_target out = ?t \<and> w' = recordPayuEvent b st True w1"
      using assms exact c by (auto simp: settlePayuTxn_def Let_def split: sum.splits bool.splits)
    have "case ?t of RideTarget p \<Rightarrow> \<exists>q. payment_of (pm_ride p) w1 = Some q \<and> pm_status q = PayCompleted \<and> pm_gateway_payment q = Some ?pid
        | WalletTarget d a \<Rightarrow> booked_once d txn a (w_drivers w) (w_drivers w1) | PackageTarget k p \<Rightarrow> package_settled k w w1 | NoTarget \<Rightarrow> False"
      if r: "r = Inr True"
    proof (cases ?t)
      case (RideTarget p)
      then show ?thesis using c r ride_capture_completes by (simp add: settle_capture_def)
    next
      case (PackageTarget k p)
      then show ?thesis using c r package_capture_settles [of k txn _ w _ w1, OF _ resolve_package [OF PackageTarget] assms(2)]
        by (auto simp: settle_capture_def split: prod.splits sum.splits)
    next
      case (WalletTarget d a)
      then have "ps_paise st = a" using exact by (simp add: expected_paise_def)
      then show ?thesis using c r WalletTarget wallet_capture_credits [of d a txn w w1]
        by (auto simp: settle_capture_def split: prod.splits sum.splits)
    next
      case NoTarget
      then show ?thesis using exact by (simp add: expected_paise_def)
    qed
    then show ?thesis using res exact by (cases ?t) (auto simp: package_settled_def)
  qed
qed

lemma only_exact_captures_move_money_witness:
  "let run = \<lambda>paise. settlePayuTxn demo_pay_config 5 (\<lambda>_. Some \<lparr>ps_state = Captured, ps_paise = paise, ps_mihpayid = Some ''mih''\<rparr>) ''R0x1'' [] demo_world
   in po_result (fst (run 30000)) = PaySuccess \<and> map_option pm_status (payment_of 0 (snd (run 30000))) = Some PayCompleted
      \<and> (snd (run 29999))\<lparr>w_events := w_events demo_world\<rparr> = demo_world"
proof -
  let ?run = "\<lambda>paise. settlePayuTxn demo_pay_config 5 (\<lambda>_. Some \<lparr>ps_state = Captured, ps_paise = paise, ps_mihpayid = Some ''mih''\<rparr>) ''R0x1'' [] demo_world"
  have r: "resolve_txn ''R0x1'' demo_world = RideTarget demo_payment" by (simp add: resolve_txn_def demo_world_def demo_payment_def)
  obtain w' where c: "confirmRidePayment demo_pay_config 5 0 (Some (Payu, ''mih'')) demo_world = (Inr True, w')"
    using confirmed_demo by blast
  have "settle_capture demo_pay_config 5 (RideTarget demo_payment) ''R0x1'' 30000 ''mih'' demo_world = (Inr True, w')"
    using c by (simp add: settle_capture_def settle_ride_capture_def demo_payment_def)
  then have s: "po_result (fst (?run 30000)) = PaySuccess" "po_target (fst (?run 30000)) = RideTarget demo_payment"
    by (simp_all add: settlePayuTxn_def r expected_paise_def) (simp_all add: demo_payment_def)
  have ok: "payu_orders_ok demo_world" by (simp add: payu_orders_ok_def demo_world_def)
  have e: "expected_paise (resolve_txn ''R0x1'' demo_world) = Some 30000" by (simp add: r expected_paise_def demo_payment_def)
  note a = only_exact_captures_move_money [of demo_pay_config 5 "\<lambda>_. Some \<lparr>ps_state = Captured, ps_paise = 30000, ps_mihpayid = Some ''mih''\<rparr>" "''R0x1''" "[]" demo_world
      "fst (?run 30000)" "snd (?run 30000)", OF prod.collapse [symmetric] ok]
  note b = only_exact_captures_move_money [of demo_pay_config 5 "\<lambda>_. Some \<lparr>ps_state = Captured, ps_paise = 29999, ps_mihpayid = Some ''mih''\<rparr>" "''R0x1''" "[]" demo_world
      "fst (?run 29999)" "snd (?run 29999)", OF prod.collapse [symmetric] ok]
  have "\<exists>q. payment_of 0 (snd (?run 30000)) = Some q \<and> pm_status q = PayCompleted"
    using a [THEN conjunct2] s by (auto simp: demo_payment_def)
  moreover have "(snd (?run 29999))\<lparr>w_events := w_events demo_world\<rparr> = demo_world"
    using b [THEN conjunct1] e by simp
  ultimately show ?thesis using s(1) unfolding Let_def by auto
qed

text \<open>The state of PayU's orders is kept by every operation that writes them.\<close>

lemma payu_orders_update:
  assumes "payu_orders_ok w" "k < length (w_purchases w)" "payu_order_ok p"
  shows "payu_orders_ok (w\<lparr>w_purchases := (w_purchases w)[k := p]\<rparr>)"
  using assms by (auto simp: payu_orders_ok_def list_all_length nth_list_update)

lemma payu_orders_claimed:
  assumes "payu_orders_ok w" "pid \<noteq> []"
  shows "payu_orders_ok (snd (markPurchaseCompletedPayu k pid w))"
proof (cases "k < length (w_purchases w)")
  case True
  then show ?thesis using assms payu_orders_update [OF assms(1) True] payu_orders_nth [OF assms(1) True]
    by (auto simp: markPurchaseCompletedPayu_def claim_purchase_def payu_order_ok_def)
qed (use assms in \<open>simp add: markPurchaseCompletedPayu_def claim_purchase_def\<close>)

lemma payu_orders_razorpay:
  assumes "payu_orders_ok w" "findPendingPurchaseByOrderId ord w = Some k"
  shows "payu_orders_ok (snd (markPurchaseCompleted k eid w))"
proof -
  have k: "k < length (w_purchases w)" "pu_order (w_purchases w ! k) = Some ord"
    using assms(2) by (auto simp: findPendingPurchaseByOrderId_def find_purchase_def find_Some_iff)
  have t: "pu_txn (w_purchases w ! k) = None" using payu_orders_nth [OF assms(1) k(1)] k(2) by (auto simp: payu_order_ok_def)
  then show ?thesis using assms(1) payu_orders_update [OF assms(1) k(1)]
    by (simp add: markPurchaseCompleted_def claim_purchase_def payu_order_ok_def)
qed

lemma payu_orders_created:
  "payu_orders_ok w \<Longrightarrow> payu_orders_ok (snd (createPackagePurchaseOrder cfg tiers dev_ref txn driver tid w))"
  by (auto simp: createPackagePurchaseOrder_def payu_orders_ok_def payu_order_ok_def split: option.splits prod.splits sum.splits)

lemma payu_orders_settled:
  assumes "payu_orders_ok w" "pid \<noteq> []"
  shows "payu_orders_ok (snd (settle_package_capture k txn pid w))"
proof -
  have same: "payu_orders_ok w2" if "credit_package d t ref w1 = (r, w2)" "payu_orders_ok w1" for d t ref w1 r w2
    using credit_package_purchases [OF that(1)] that(2) by (simp add: payu_orders_ok_def)
  obtain r w1 where m: "markPurchaseCompletedPayu k pid w = (r, w1)" by force
  have ok: "payu_orders_ok w1" using payu_orders_claimed [OF assms, of k] by (simp add: m)
  have s: "payu_orders_ok (snd (credit_package d t ref w1))" for d t ref using same [OF _ ok] by (metis prod.collapse)
  show ?thesis using ok s by (auto simp: settle_package_capture_def m Let_def split: sum.splits option.splits)
qed

subsection \<open>Where a capture can be lost\<close>

text \<open>
  A Razorpay package purchase is claimed in a statement of its own before the wallet is credited. When the credit fails, the delivery
  fails and is repeated, but the repetition finds no pending purchase, does nothing and is recorded as processed; the PayU path re-runs the credit instead.
\<close>

theorem razorpay_package_credit_lost:
  assumes h: "wh_event h = ''payment.captured''" "wh_order h = Some ord"
    and none: "find (\<lambda>p. pm_order p = Some ord \<and> pm_status p = PayPending) (w_payments w) = None"
    and k: "findPendingPurchaseByOrderId ord w = Some k" "\<And>j. j < length (w_purchases w) \<Longrightarrow> j \<noteq> k \<Longrightarrow> pu_order (w_purchases w ! j) \<noteq> Some ord"
    and free: "\<not> list_ex (\<lambda>p. pu_rzp_payment p = Some eid) (w_purchases w)"
    and fails: "fst (creditPackageBalance (pu_driver (w_purchases w ! k)) (from_paise (pu_threshold (w_purchases w ! k))) eid (w_packages w)) = Inl e"
  shows "\<exists>w1. applyRazorpayEvent cfg now h eid None w = (Inl e, w1) \<and> pu_status (w_purchases w1 ! k) = OrderCompleted
    \<and> w_packages w1 = w_packages w \<and> applyRazorpayEvent cfg now' h eid None w1 = (Inr (), w1)"
proof -
  define w1 where "w1 = w\<lparr>w_purchases := (w_purchases w)[k := (w_purchases w ! k)\<lparr>pu_rzp_payment := Some eid, pu_status := OrderCompleted\<rparr>]\<rparr>"
  have k': "k < length (w_purchases w)" "pu_status (w_purchases w ! k) = OrderPending"
    using k(1) by (auto simp: findPendingPurchaseByOrderId_def find_purchase_def find_Some_iff)
  have m: "markPurchaseCompleted k eid w = (Inr (Some (pu_driver (w_purchases w ! k), pu_threshold (w_purchases w ! k))), w1)"
    using k' free by (simp add: markPurchaseCompleted_def claim_purchase_def w1_def)
  obtain b where c: "creditPackageBalance (pu_driver (w_purchases w ! k)) (from_paise (pu_threshold (w_purchases w ! k))) eid (w_packages w) = (Inl e, b)"
    using fails by (metis prod.collapse)
  have "credit_package (pu_driver (w_purchases w ! k)) (pu_threshold (w_purchases w ! k)) eid w1 = (Inl e, w1)"
    using c by (simp add: credit_package_def w1_def)
  then have 1: "applyRazorpayEvent cfg now h eid None w = (Inl e, w1)"
    using h none k(1) m by (simp add: applyRazorpayEvent_def)
  have "\<not> (pu_order (w_purchases w1 ! j) = Some ord \<and> pu_status (w_purchases w1 ! j) = OrderPending)" if "j < length (w_purchases w1)" for j
    using k(2) [of j] that k'(1) by (cases "j = k") (simp_all add: w1_def)
  then have "findPendingPurchaseByOrderId ord w1 = None"
    by (auto simp: findPendingPurchaseByOrderId_def find_purchase_def find_None_iff)
  moreover have "w_payments w1 = w_payments w" by (simp add: w1_def)
  ultimately have 2: "applyRazorpayEvent cfg now' h eid None w1 = (Inr (), w1)" using h none by (simp add: applyRazorpayEvent_def)
  show ?thesis using 1 2 k'(1) by (intro exI [where x = w1]) (simp add: w1_def)
qed

definition demo_ready :: world where
  "demo_ready = demo_world\<lparr>w_payments := [], w_rides := (w_rides demo_world)\<lparr>rides := [(inserted_ride 0 \<lparr>ri_user = 1, ri_category = 1, ri_type = one_way,
     ri_origin = (0, 0), ri_dest = None, ri_city = None, ri_scheduled = None, ri_status = None, ri_channel = Online\<rparr>)\<lparr>rr_driver := Some 2, rr_status := Completed\<rparr>]\<rparr>,
     w_offers := empty_offers\<lparr>snapshots := [0 \<mapsto> \<lparr>fs_base = 5000, fs_distance = 20000, fs_time = 5000, fs_stop = 0, fs_hour = 0, fs_surge = 0, fs_waiting = None,
       fs_overage = None, fs_estimated = 30000, fs_final = Some 30050, fs_discount = 0\<rparr>]\<rparr>\<rparr>"

lemma payment_is_for_the_payable_witness:
  "\<exists>w' p. createPaymentRecord demo_pay_config 5 0 PayuOnline PayPending demo_ready = (Inr (), w') \<and> w_payments w' = [p] \<and> pm_amount p = 30050
     \<and> pm_commission p + pm_earning p = 30050 \<and> pm_status p = PayPending"
proof -
  obtain f where f: "snapshots (w_offers demo_ready) 0 = Some f" "fs_final f = Some 30050" "fs_discount f = 0" by (simp add: demo_ready_def)
  have fin: "snd (finaliseDiscount (pc_max_pct demo_pay_config) 0 (w_offers demo_ready)) = w_offers demo_ready"
    by (simp add: finaliseDiscount_def demo_ready_def empty_offers_def)
  have w1: "demo_ready\<lparr>w_offers := snd (finaliseDiscount (pc_max_pct demo_pay_config) 0 (w_offers demo_ready))\<rparr> = demo_ready" unfolding fin by simp
  obtain rr where rr: "ride_at (w_rides demo_ready) 0 = Some rr" "rr_driver rr = Some 2" by (simp add: demo_ready_def ride_at_def)
  have none: "payment_of 0 demo_ready = None" by (simp add: demo_ready_def payment_of_def)
  have pct: "0 \<le> pc_commission demo_pay_config" "pc_commission demo_pay_config \<le> 100" by (simp_all add: demo_pay_config_def)
  have ok: "payment_row_ok (payment_row demo_pay_config 5 0 (rr_user rr) 2 PayuOnline PayPending f)"
    using f(2,3) pct by (intro payment_row_amounts) auto
  let ?w' = "demo_ready\<lparr>w_payments := w_payments demo_ready @ [payment_row demo_pay_config 5 0 (rr_user rr) 2 PayuOnline PayPending f]\<rparr>"
  have run: "createPaymentRecord demo_pay_config 5 0 PayuOnline PayPending demo_ready = (Inr (), ?w')"
    unfolding createPaymentRecord_def w1 Let_def using f(1) rr ok none by simp
  have small: "0 \<le> coalesce (fs_final g) (fs_estimated g) \<and> coalesce (fs_final g) (fs_estimated g) \<le> 900000000 \<and> 0 \<le> fs_discount g \<and> fs_discount g \<le> 900000000"
    if "snapshots (w_offers ?w') 0 = Some g" for g using that f by simp
  have e: "w_payments demo_ready = []" by (simp add: demo_ready_def)
  have a: "\<exists>p g. w_payments ?w' = w_payments demo_ready @ [p] \<and> pm_ride p = 0 \<and> snapshots (w_offers ?w') 0 = Some g \<and> pm_status p = PayPending
      \<and> pm_amount p = ocar_payable (coalesce (fs_final g) (fs_estimated g)) (Some (fs_discount g))
      \<and> pm_commission p + pm_earning p = pm_amount p \<and> 0 \<le> pm_commission p \<and> 0 \<le> pm_earning p"
    using payment_is_for_the_payable [OF run small pct, THEN conjunct2, THEN conjunct2, THEN conjunct2, THEN conjunct2] none by simp
  then show ?thesis using run f e by (auto simp: ocar_payable_def)
qed

end
