(* ===== verification/RidePayments.thy ===== *)
theory RidePayments
  imports Payments
begin

text \<open>
  Settling a completed ride (\<open>settleRideCompletionPayment\<close>, \<open>settleStrandedRideCompletions\<close> and
  \<open>collectCash\<close> of \<open>rides.service.ts\<close>), and the payment of a ride over all its operations: the abstract payment machine every
  operation refines, and the invariant that a ride's dues and cashback are booked at most once.
\<close>

subsection \<open>Settling a completed ride\<close>

definition payable_for :: "pay_config \<Rightarrow> nat \<Rightarrow> world \<Rightarrow> num \<times> world" where
  "payable_for cfg ride w = (case payableForRide (pc_max_pct cfg) ride (w_offers w) of (fare, off) \<Rightarrow> (fare, w\<lparr>w_offers := off\<rparr>))"

definition settle_online :: "pay_config \<Rightarrow> int \<Rightarrow> string \<Rightarrow> nat \<Rightarrow> num \<Rightarrow> world \<Rightarrow> unit res \<times> world" where
  "settle_online cfg now txn ride fare w =
     (case createPaymentRecord cfg now ride PayuOnline PayPending w of
        (Inl e, w) \<Rightarrow> (Inl e, w)
      | (Inr _, w) \<Rightarrow> if fare \<le> 0 then (Inr (), w)
          else (case createRidePaymentOrder cfg now txn ride fare w of (Inl e, w) \<Rightarrow> (Inl e, w) | (Inr _, w) \<Rightarrow> (Inr (), w)))"

definition settle_wallet :: "pay_config \<Rightarrow> int \<Rightarrow> nat \<Rightarrow> nat \<Rightarrow> num \<Rightarrow> world \<Rightarrow> unit res \<times> world" where
  "settle_wallet cfg now ride user fare w =
     (case createPaymentRecord cfg now ride PlatformWallet PayPending w of
        (Inl e, w) \<Rightarrow> (Inl e, w)
      | (Inr _, w) \<Rightarrow> if fare \<le> 0 then (Inr (), w)
          else (case payFromUserWallet ride user fare (w_users w) of
              (Inl e, _) \<Rightarrow> (Inl e, w)
            | (Inr False, b) \<Rightarrow> (Inr (), w\<lparr>w_users := b\<rparr>)
            | (Inr True, b) \<Rightarrow> (case confirmRidePayment cfg now ride None (w\<lparr>w_users := b\<rparr>) of (Inl e, w) \<Rightarrow> (Inl e, w) | (Inr _, w) \<Rightarrow> (Inr (), w))))"

definition cash_claim :: "int \<Rightarrow> nat \<Rightarrow> num \<Rightarrow> bool \<Rightarrow> string option \<Rightarrow> world \<Rightarrow> bool res \<times> world" where
  "cash_claim now ride collected disc note w =
     (case ride_write now ride (\<lambda>r. rr_cash_at r = None)
         (\<lambda>r. r\<lparr>rr_cash_amount := Some (to_paise collected), rr_cash_at := Some now, rr_cash_disc := disc, rr_cash_note := note\<rparr>) (w_rides w) of
        (Inl e, _) \<Rightarrow> (Inl e, w)
      | (Inr None, _) \<Rightarrow> (Inr False, w)
      | (Inr (Some _), db) \<Rightarrow> if numeric_fits 10 (to_paise collected) then (Inr True, w\<lparr>w_rides := db\<rparr>) else (Inl db_error, w))"

text \<open>With cash collection enabled the driver's confirmation settles; with the kill switch (disabled) the handler does, statement by statement, each committed on its own.\<close>

definition settle_cash_now :: "pay_config \<Rightarrow> int \<Rightarrow> nat \<Rightarrow> nat \<Rightarrow> ride_row option \<Rightarrow> num \<Rightarrow> world \<Rightarrow> unit res \<times> world" where
  "settle_cash_now cfg now ride driver rr fare w =
     (case createPaymentRecord cfg now ride CashDirect PayCompleted w of
        (Inl e, w) \<Rightarrow> (Inl e, w)
      | (Inr _, w) \<Rightarrow> (case take_dues cfg (Option.bind rr rr_billing) ride driver fare w of
            None \<Rightarrow> (Inl db_error, w)
          | Some w \<Rightarrow> (case cash_claim now ride fare False None (settle_offer ride w) of
                (Inl e, w) \<Rightarrow> (Inl e, w)
              | (Inr _, w) \<Rightarrow> (case rr of None \<Rightarrow> (Inr (), w)
                  | Some r \<Rightarrow> if fare \<le> 0 then (Inr (), w)
                      else (case give_cashback cfg ride (rr_user r) fare w of None \<Rightarrow> (Inl db_error, w) | Some w \<Rightarrow> (Inr (), w))))))"

definition settleRideCompletionPayment :: "pay_config \<Rightarrow> bool \<Rightarrow> int \<Rightarrow> string \<Rightarrow> nat \<Rightarrow> nat \<Rightarrow> world \<Rightarrow> unit res \<times> world" where
  "settleRideCompletionPayment cfg cash_collection now txn ride driver w =
     (let rr = ride_at (w_rides w) ride in
      case payable_for cfg ride w of (fare, w) \<Rightarrow>
        (case rr of
           Some r \<Rightarrow> (case rr_channel r of
               Online \<Rightarrow> settle_online cfg now txn ride fare w
             | Wallet \<Rightarrow> settle_wallet cfg now ride (rr_user r) fare w
             | Cash \<Rightarrow> if cash_collection then (Inr (), w) else settle_cash_now cfg now ride driver rr fare w)
         | None \<Rightarrow> if cash_collection then (Inr (), w) else settle_cash_now cfg now ride driver rr fare w))"

text \<open>
  The sweep for completed rides without a payment row: \<open>pick\<close> is the query's random order and limit, \<open>cooling\<close> the Redis
  flags. Every attempted ride is cooled down; the count is of those that did not throw.
\<close>

definition stranded :: "int \<Rightarrow> int \<Rightarrow> world \<Rightarrow> nat \<Rightarrow> bool" where
  "stranded now window w i \<longleftrightarrow> (case ride_at (w_rides w) i of None \<Rightarrow> False
     | Some r \<Rightarrow> rr_status r = Completed \<and> rr_channel r \<in> {Online, Wallet} \<and> rr_driver r \<noteq> None
         \<and> (case rr_completed r of None \<Rightarrow> False | Some c \<Rightarrow> c < now - 180000 \<and> now - window < c)
         \<and> payment_of i w = None)"

definition stranded_window :: "int \<Rightarrow> int" where
  "stranded_window utc_minute = (if utc_minute < 5 then 3 * 86400000 else 6 * 3600000)"

definition settleStrandedRideCompletions :: "pay_config \<Rightarrow> bool \<Rightarrow> int \<Rightarrow> int \<Rightarrow> (nat \<Rightarrow> string) \<Rightarrow> (nat list \<Rightarrow> nat list) \<Rightarrow> (nat \<Rightarrow> bool) \<Rightarrow> world
    \<Rightarrow> (nat \<times> nat list) \<times> world" where
  "settleStrandedRideCompletions cfg cash_collection now minute txn pick cooling w =
     (let rows = take 25 (filter (\<lambda>i. \<not> cooling i) (pick (filter (stranded now (stranded_window minute) w) [0..<length (rides (w_rides w))])))
      in foldl (\<lambda>((n, cooled), w) i.
            case settleRideCompletionPayment cfg cash_collection now (txn i) i (case ride_at (w_rides w) i of Some r \<Rightarrow> coalesce (rr_driver r) 0 | None \<Rightarrow> 0) w of
              (Inr _, w) \<Rightarrow> ((n + 1, cooled @ [i]), w) | (Inl _, w) \<Rightarrow> ((n, cooled @ [i]), w))
          ((0, []), w) rows)"

subsection \<open>The driver confirms cash\<close>

definition collect_checks :: "nat \<Rightarrow> ride_row option \<Rightarrow> ride_row res" where
  "collect_checks driver rr = (case rr of None \<Rightarrow> Inl (http_err 404 ''RIDE_NOT_FOUND'')
     | Some r \<Rightarrow>
         bind_res (guard_err (rr_driver r \<noteq> Some driver) (http_err 403 ''FORBIDDEN'')) (\<lambda>_.
         bind_res (guard_err (rr_status r \<noteq> Completed) (http_err 409 ''RIDE_NOT_COMPLETED'')) (\<lambda>_.
         bind_res (guard_err (rr_channel r \<noteq> Cash) (http_err 409 ''NOT_CASH_RIDE'')) (\<lambda>_. Inr r))))"

text \<open>The transaction: the claim, the payment row, the dues, the cashback and the offer, all or nothing; \<open>Inr False\<close> is a lost claim.\<close>

definition collect_write :: "pay_config \<Rightarrow> int \<Rightarrow> nat \<Rightarrow> nat \<Rightarrow> ride_row \<Rightarrow> num \<Rightarrow> num \<Rightarrow> bool \<Rightarrow> string option \<Rightarrow> world \<Rightarrow> bool res \<times> world" where
  "collect_write cfg now ride driver r fare collected disc note w =
     (case cash_claim now ride collected disc note w of
        (Inl e, _) \<Rightarrow> (Inl e, w)
      | (Inr False, _) \<Rightarrow> (Inr False, w)
      | (Inr True, w1) \<Rightarrow>
          (case createPaymentRecord cfg now ride CashDirect PayCompleted w1 of
             (Inl e, _) \<Rightarrow> (Inl e, w)
           | (Inr _, w2) \<Rightarrow>
               (case Option.bind (take_dues cfg (rr_billing r) ride driver fare w2)
                   (\<lambda>w. if 0 < fare then give_cashback cfg ride (rr_user r) fare w else Some w) of
                  None \<Rightarrow> (Inl db_error, w)
                | Some w3 \<Rightarrow> (Inr True, settle_offer ride w3))))"

definition collectCash :: "pay_config \<Rightarrow> num \<Rightarrow> int \<Rightarrow> nat \<Rightarrow> nat \<Rightarrow> num option \<Rightarrow> bool \<Rightarrow> string option \<Rightarrow> world \<Rightarrow> (num \<times> bool) res \<times> world" where
  "collectCash cfg tolerance now driver ride amount not_collected note w =
     (case collect_checks driver (ride_at (w_rides w) ride) of
        Inl e \<Rightarrow> (Inl e, w)
      | Inr r \<Rightarrow>
          if rr_cash_at r \<noteq> None then (Inr (from_paise (coalesce (rr_cash_amount r) 0), rr_cash_disc r), w)
          else (case payable_for cfg ride w of (fare, w) \<Rightarrow>
            let collected = (if not_collected then 0 else coalesce amount fare);
                disc = (not_collected \<or> tolerance < \<bar>fsub collected fare\<bar>)
            in (case collect_write cfg now ride driver r fare collected disc note w of
                  (Inl e, w) \<Rightarrow> (Inl e, w)
                | (Inr True, w) \<Rightarrow> (Inr (collected, disc), w)
                | (Inr False, w) \<Rightarrow> (case ride_at (w_rides w) ride of None \<Rightarrow> (Inr (0, False), w)
                    | Some f \<Rightarrow> (Inr (from_paise (coalesce (rr_cash_amount f) 0), rr_cash_disc f), w)))))"

subsection \<open>What each movement adds to a ledger\<close>

definition cnt :: "entry_kind \<Rightarrow> nat \<Rightarrow> book \<Rightarrow> nat" where
  "cnt k ride b = length (filter (\<lambda>e. en_ride e = Some ride \<and> en_kind e = k) (entries b))"

lemma cnt_open [simp]: "cnt k ride (open_wallet i b) = cnt k ride b"
  by (simp add: cnt_def)

lemma write_cnt:
  "write_entry c i kind credit new amount x y r ref b = Some b' \<Longrightarrow> cnt k ride b' = cnt k ride b + (if k = kind \<and> r = Some ride then 1 else 0)"
  by (erule write_entry_Some) (auto simp: cnt_def)

lemma commit_cnt:
  assumes "commit_or_fail v (write_entry c i kind credit new amount x y r ref (open_wallet j b)) b = (res, b')"
  shows "\<forall>k ride. cnt k ride b' = cnt k ride b \<or> (k = kind \<and> r = Some ride \<and> cnt k ride b' = Suc (cnt k ride b))"
  using assms write_cnt [of c i kind credit new amount x y r ref "open_wallet j b"]
  by (auto simp: commit_or_fail_def split: option.splits)

lemma dues_cnt:
  "deductCommission m ride d p b = (res, b') \<Longrightarrow> cnt CommissionDebit j b' \<le> cnt CommissionDebit j b + (if j = ride then 1 else 0)"
  "consumePackageBalance ride d fare b = (res', b') \<Longrightarrow> cnt RideConsumption j b' \<le> cnt RideConsumption j b + (if j = ride then 1 else 0)"
  unfolding deductCommission_def consumePackageBalance_def Let_def
  by (force split: option.splits if_splits dest!: commit_cnt [THEN spec, THEN spec, of _ _ _ _ _ _ _ _ _ _ _ _ _ _ _ CommissionDebit j])
   (force split: option.splits if_splits dest!: commit_cnt [THEN spec, THEN spec, of _ _ _ _ _ _ _ _ _ _ _ _ _ _ _ RideConsumption j])

lemma cashback_cnt:
  "creditCashback pct ride u fare b = (res, b') \<Longrightarrow> cnt Cashback j b' \<le> cnt Cashback j b + (if j = ride then 1 else 0)"
  unfolding creditCashback_def Let_def by (force split: if_splits dest!: commit_cnt [THEN spec, THEN spec, of _ _ _ _ _ _ _ _ _ _ _ _ _ _ _ Cashback j])

lemma wallet_pay_cnt: "payFromUserWallet ride u amount b = (res, b') \<Longrightarrow> cnt Cashback j b' = cnt Cashback j b"
  unfolding payFromUserWallet_def Let_def by (force split: if_splits dest!: commit_cnt [THEN spec, THEN spec, of _ _ _ _ _ _ _ _ _ _ _ _ _ _ _ Cashback j])

lemma topup_cnt: "topUpDriverWallet d amount ref b = (res, b') \<Longrightarrow> cnt CommissionDebit j b' = cnt CommissionDebit j b"
  unfolding topUpDriverWallet_def Let_def by (force split: if_splits dest!: commit_cnt [THEN spec, THEN spec, of _ _ _ _ _ _ _ _ _ _ _ _ _ _ _ CommissionDebit j])

lemma package_credit_cnt: "creditPackageBalance d amount ref b = (res, b') \<Longrightarrow> cnt RideConsumption j b' = cnt RideConsumption j b"
  unfolding creditPackageBalance_def Let_def by (force split: if_splits dest!: commit_cnt [THEN spec, THEN spec, of _ _ _ _ _ _ _ _ _ _ _ _ _ _ _ RideConsumption j])

lemma package_adjust_cnt: "adjustPackageBalance d amount b = (res, b') \<Longrightarrow> cnt RideConsumption j b' = cnt RideConsumption j b"
  unfolding adjustPackageBalance_def Let_def by (force split: if_splits dest!: commit_cnt [THEN spec, THEN spec, of _ _ _ _ _ _ _ _ _ _ _ _ _ _ _ RideConsumption j])

lemma fee_cnt:
  assumes "chargeCancellationFee fee ride u d ub db = Some (ub', db')"
  shows "cnt Cashback j ub' = cnt Cashback j ub \<and> cnt CommissionDebit j db' = cnt CommissionDebit j db"
proof -
  have c: "cnt CommissionDebit j x = cnt CommissionDebit j db" if "compensate_driver ride dr fee db = Some x" for dr x
    using that by (auto simp: compensate_driver_def Let_def split: if_splits dest!: write_cnt [of _ _ _ _ _ _ _ _ _ _ _ _ CommissionDebit j])
  show ?thesis using assms c unfolding chargeCancellationFee_def Let_def
    by (auto split: if_splits option.splits dest!: write_cnt [of _ _ _ _ _ _ _ _ _ _ _ _ Cashback j])
qed

subsection \<open>The payment machine and the invariant\<close>

definition pay_edges :: "(pay_status option \<times> pay_status option) set" where
  "pay_edges = {(None, Some PayPending), (None, Some PayCompleted), (Some PayPending, Some PayCompleted), (Some PayPending, Some PayFailed),
     (Some PayFailed, Some PayPending)}"

definition abs_pay :: "nat \<Rightarrow> world \<Rightarrow> pay_status option" where
  "abs_pay ride w = map_option pm_status (payment_of ride w)"

text \<open>What never changes about a payment row, and what a completed one keeps.\<close>

definition same_payment :: "payment \<Rightarrow> payment \<Rightarrow> bool" where
  "same_payment p q \<longleftrightarrow> (pm_ride q, pm_user q, pm_driver q, pm_amount q, pm_channel q) = (pm_ride p, pm_user p, pm_driver p, pm_amount p, pm_channel p)
     \<and> (pm_commission q, pm_earning q, pm_discount q) = (pm_commission p, pm_earning p, pm_discount p)
     \<and> (pm_status p = PayCompleted \<longrightarrow> pm_status q = PayCompleted \<and> pm_captured q = pm_captured p)"

definition pays :: "world \<Rightarrow> world \<Rightarrow> bool" where
  "pays w w' \<longleftrightarrow> (\<forall>ride. (abs_pay ride w, abs_pay ride w') \<in> pay_edges\<^sup>*
     \<and> (\<forall>p. payment_of ride w = Some p \<longrightarrow> (\<exists>q. payment_of ride w' = Some q \<and> same_payment p q)))"

definition dues :: "nat \<Rightarrow> world \<Rightarrow> nat" where
  "dues ride w = cnt CommissionDebit ride (w_drivers w) + cnt RideConsumption ride (w_packages w)"

definition channel_ok :: "world \<Rightarrow> payment \<Rightarrow> bool" where
  "channel_ok w p \<longleftrightarrow> (case ride_at (w_rides w) (pm_ride p) of None \<Rightarrow> False
     | Some r \<Rightarrow> (pm_channel p = CashDirect \<longleftrightarrow> rr_channel r = Cash) \<and> (pm_channel p = CashDirect \<longrightarrow> rr_cash_at r \<noteq> None))"

definition once :: "world \<Rightarrow> bool" where
  "once w \<longleftrightarrow> (\<forall>ride. dues ride w \<le> 1 \<and> cnt Cashback ride (w_users w) \<le> 1
     \<and> (0 < dues ride w + cnt Cashback ride (w_users w) \<longrightarrow> abs_pay ride w = Some PayCompleted)
     \<and> (\<forall>p. payment_of ride w = Some p \<longrightarrow> channel_ok w p))"

definition good :: "world \<Rightarrow> world \<Rightarrow> bool" where
  "good w w' \<longleftrightarrow> pays w w' \<and> (once w \<longrightarrow> once w')"

lemma same_payment_refl [simp]: "same_payment p p"
  by (simp add: same_payment_def)

lemma same_payment_trans: "same_payment p q \<Longrightarrow> same_payment q r \<Longrightarrow> same_payment p r"
  by (simp add: same_payment_def)

lemma pays_refl [simp]: "pays w w"
  by (simp add: pays_def)

lemma pays_trans:
  assumes ab: "pays a b" and bc: "pays b c"
  shows "pays a c"
  unfolding pays_def
proof (intro allI conjI impI)
  fix ride
  show "(abs_pay ride a, abs_pay ride c) \<in> pay_edges\<^sup>*" using ab bc unfolding pays_def by (blast intro: rtrancl_trans)
  fix p assume "payment_of ride a = Some p"
  then obtain q where q: "payment_of ride b = Some q" "same_payment p q" using ab unfolding pays_def by blast
  then obtain r where "payment_of ride c = Some r" "same_payment q r" using bc unfolding pays_def by blast
  then show "\<exists>r. payment_of ride c = Some r \<and> same_payment p r" using q same_payment_trans by blast
qed

lemma good_refl [simp]: "good w w"
  by (simp add: good_def)

lemma good_trans: "good a b \<Longrightarrow> good b c \<Longrightarrow> good a c"
  unfolding good_def using pays_trans by blast

definition rides_kept :: "ride_db \<Rightarrow> ride_db \<Rightarrow> bool" where
  "rides_kept db db' \<longleftrightarrow> (\<forall>i r. ride_at db i = Some r \<longrightarrow> (\<exists>r'. ride_at db' i = Some r' \<and> rr_channel r' = rr_channel r
     \<and> (rr_cash_at r \<noteq> None \<longrightarrow> rr_cash_at r' \<noteq> None)))"

lemma rides_kept_refl [simp]: "rides_kept db db"
  by (simp add: rides_kept_def)

lemma channel_kept: "rides_kept (w_rides w) (w_rides w') \<Longrightarrow> channel_ok w p \<Longrightarrow> channel_ok w' p"
  unfolding channel_ok_def rides_kept_def by (cases "ride_at (w_rides w) (pm_ride p)") fastforce+

definition same_counts :: "world \<Rightarrow> world \<Rightarrow> bool" where
  "same_counts w w' \<longleftrightarrow> (\<forall>j. cnt Cashback j (w_users w') = cnt Cashback j (w_users w) \<and> cnt CommissionDebit j (w_drivers w') = cnt CommissionDebit j (w_drivers w)
     \<and> cnt RideConsumption j (w_packages w') = cnt RideConsumption j (w_packages w))"

lemma good_frame:
  assumes "w_payments w' = w_payments w" "rides_kept (w_rides w) (w_rides w')" "same_counts w w'"
  shows "good w w'"
proof -
  have p: "payment_of j w' = payment_of j w" for j using assms(1) by (simp add: payment_of_def)
  then have "pays w w'" by (simp add: pays_def abs_pay_def)
  moreover have "once w'" if "once w"
    using that assms(3) channel_kept [OF assms(2)] by (simp add: once_def p dues_def abs_pay_def same_counts_def)
  ultimately show ?thesis by (simp add: good_def)
qed

lemma good_edit:
  assumes f: "\<And>p. pm_ride (f p) = pm_ride p" "\<And>p. payment_of ride w = Some p \<Longrightarrow> same_payment p (f p) \<and> (Some (pm_status p), Some (pm_status (f p))) \<in> pay_edges\<^sup>*"
  shows "good w (set_payment ride f w)"
proof -
  let ?w = "set_payment ride f w"
  note ps = payment_of_set [OF f(1)]
  have same: "w_users ?w = w_users w" "w_drivers ?w = w_drivers w" "w_packages ?w = w_packages w" "w_rides ?w = w_rides w"
    by (simp_all add: set_payment_def)
  have pays: "pays w ?w"
    unfolding pays_def abs_pay_def ps using f(2) by (auto simp: map_option_case split: option.split)
  have "once ?w" if o: "once w"
  proof -
    have st: "abs_pay j ?w = Some PayCompleted" if "abs_pay j w = Some PayCompleted" for j
      using that f(2) by (auto simp: abs_pay_def ps same_payment_def)
    have ch: "channel_ok ?w q" if a: "payment_of j ?w = Some q" for j q
    proof -
      obtain p where p: "payment_of j w = Some p" "q = (if j = ride then f p else p)" using a by (cases "j = ride") (auto simp: ps)
      then have "channel_ok w p" using o by (simp add: once_def)
      moreover have "pm_ride q = pm_ride p" "pm_channel q = pm_channel p" using p f(2) by (auto simp: f(1) same_payment_def)
      ultimately show ?thesis by (auto simp: channel_ok_def same split: option.splits)
    qed
    show ?thesis using o st ch by (simp add: once_def dues_def same)
  qed
  then show ?thesis using pays by (simp add: good_def)
qed

lemma upd_good:
  assumes "\<And>p. pm_ride (f p) = pm_ride p" "\<And>p. q p \<Longrightarrow> payment_of ride w = Some p \<Longrightarrow> same_payment p (f p) \<and> (Some (pm_status p), Some (pm_status (f p))) \<in> pay_edges\<^sup>*"
  shows "good w (snd (upd_payment ride q f w))"
  using good_edit [OF assms(1), of ride w] assms(2) by (auto simp: upd_payment_def)

lemma edges_pending: "(Some PayPending, Some PayFailed) \<in> pay_edges\<^sup>*" "(Some PayFailed, Some PayPending) \<in> pay_edges\<^sup>*"
  "(Some PayPending, Some PayCompleted) \<in> pay_edges\<^sup>*" "(None, Some PayPending) \<in> pay_edges\<^sup>*" "(None, Some PayCompleted) \<in> pay_edges\<^sup>*"
  by (auto simp: pay_edges_def intro!: r_into_rtrancl)

lemma fail_good: "good w (fail_payment now ride w)"
  unfolding fail_payment_def by (rule upd_good) (auto simp: same_payment_def edges_pending)

lemma reopen_good: "good w (snd (upd_payment ride (\<lambda>q. pm_status q = PayFailed) (\<lambda>q. q\<lparr>pm_status := PayPending, pm_failed := None, pm_reason := None\<rparr>) w))"
  "good w (snd (upd_payment ride (\<lambda>q. pm_status q \<in> {PayPending, PayFailed}) (\<lambda>q. q\<lparr>pm_status := PayPending, pm_failed := None, pm_reason := None\<rparr>) w))"
  by (rule upd_good; auto simp: same_payment_def edges_pending)+

lemma find_append_eq: "find q (xs @ ys) = (case find q xs of None \<Rightarrow> find q ys | Some x \<Rightarrow> Some x)"
  by (induction xs) auto

lemma create_good:
  assumes "createPaymentRecord cfg now ride chan st w = (r, w')" "st \<noteq> PayFailed"
    and "\<And>rr. ride_at (w_rides w) ride = Some rr \<Longrightarrow> (chan = CashDirect \<longleftrightarrow> rr_channel rr = Cash) \<and> (chan = CashDirect \<longrightarrow> rr_cash_at rr \<noteq> None)"
  shows "good w w'"
  using assms(1)
proof (cases rule: createPaymentRecord_cases)
  case 1
  then show ?thesis by (intro good_frame) (simp_all add: same_counts_def)
next
  case (2 f rr d)
  let ?p = "payment_row cfg now ride (rr_user rr) d chan st f"
  have pr: "pm_ride ?p = ride" "pm_channel ?p = chan" "pm_status ?p = st" by (simp_all add: payment_row_def Let_def)
  have ps: "payment_of j w' = (if j = ride then Some ?p else payment_of j w)" for j
    using 2(4,6) pr(1) by (auto simp: payment_of_def find_append_eq split: option.splits)
  have same: "w_users w' = w_users w" "w_drivers w' = w_drivers w" "w_packages w' = w_packages w" "w_rides w' = w_rides w" using 2(6) by simp_all
  have none: "abs_pay ride w = None" using 2(4) by (simp add: abs_pay_def)
  have "pays w w'" using 2(4) assms(2) pr(3) edges_pending(4,5) by (cases st) (auto simp: pays_def abs_pay_def ps)
  moreover have "once w'" if o: "once w"
  proof -
    have z: "dues ride w + cnt Cashback ride (w_users w) = 0" using o none by (metis not_gr_zero once_def option.distinct(1))
    have "channel_ok w' ?p" using assms(3) 2(2) by (simp add: channel_ok_def pr same)
    moreover have "channel_ok w' q" if "payment_of j w = Some q" for j q
      using o that by (auto simp: once_def intro: channel_kept [of w w'] simp: same)
    moreover have "dues j w' = dues j w" for j by (simp add: dues_def same)
    ultimately show ?thesis using o z unfolding once_def abs_pay_def ps same by auto
  qed
  ultimately show ?thesis by (simp add: good_def)
qed
text \<open>What the bookings of one settlement add, starting from tables that differ only in the payment rows and rides.\<close>

lemma take_dues_cnt:
  assumes "take_dues cfg mode ride d fare w = Some w'"
  shows "w_payments w' = w_payments w \<and> w_rides w' = w_rides w \<and> w_users w' = w_users w \<and> dues j w' \<le> dues j w + (if j = ride then 1 else 0)"
  using assms
proof (cases rule: take_dues_Some)
  case (1 b x)
  then show ?thesis using dues_cnt(2) [OF 1(2), of j] by (simp add: dues_def)
next
  case (2 b x)
  then show ?thesis using dues_cnt(1) [OF 2(2), of j] by (simp add: dues_def)
qed

lemma accrue_cnt:
  assumes "accrue cfg now ride d w = Some w'"
  shows "w_payments w' = w_payments w \<and> w_rides w' = w_rides w \<and> w_users w' = w_users w \<and> dues j w' = dues j w"
  using assms by (cases rule: accrue_Some) (simp add: dues_def)

lemma give_cashback_cnt:
  assumes "give_cashback cfg ride u fare w = Some w'"
  shows "w_payments w' = w_payments w \<and> w_rides w' = w_rides w \<and> dues j w' = dues j w \<and> cnt Cashback j (w_users w') \<le> cnt Cashback j (w_users w) + (if j = ride then 1 else 0)"
  using assms by (cases rule: give_cashback_Some) (auto simp: dues_def dest: cashback_cnt [of _ _ _ _ _ _ _ j])

lemma settle_offer_cnt [simp]:
  "w_payments (settle_offer ride w) = w_payments w" "w_rides (settle_offer ride w) = w_rides w" "w_users (settle_offer ride w) = w_users w"
  "dues j (settle_offer ride w) = dues j w"
  by (simp_all add: settle_offer_def dues_def)

text \<open>A ride with nothing booked yet is booked once and its payment is completed.\<close>

lemma booked_once:
  assumes "w_payments w' = w_payments w1" "w_rides w' = w_rides w1"
    and "\<And>j. dues j w' \<le> dues j w + (if j = ride then 1 else 0)" "\<And>j. cnt Cashback j (w_users w') \<le> cnt Cashback j (w_users w) + (if j = ride then 1 else 0)"
    and "abs_pay ride w \<noteq> Some PayCompleted" "abs_pay ride w1 = Some PayCompleted"
    and "pays w w1" "once w" "\<And>j p. payment_of j w1 = Some p \<Longrightarrow> channel_ok w1 p"
  shows "once w'"
proof -
  have p: "payment_of j w' = payment_of j w1" "abs_pay j w' = abs_pay j w1" for j using assms(1) by (simp_all add: payment_of_def abs_pay_def)
  have z: "dues ride w + cnt Cashback ride (w_users w) = 0" using assms(5,8) by (metis not_gr_zero once_def)
  have keep: "abs_pay j w1 = Some PayCompleted" if "abs_pay j w = Some PayCompleted" for j
    using that assms(7) by (fastforce simp: pays_def abs_pay_def same_payment_def)
  show ?thesis unfolding once_def
  proof (intro allI conjI impI)
    fix j
    show "dues j w' \<le> 1" "cnt Cashback j (w_users w') \<le> 1"
      using assms(3,4) [of j] z assms(8) by (auto simp: once_def split: if_splits intro: le_trans)
    show "abs_pay j w' = Some PayCompleted" if "0 < dues j w' + cnt Cashback j (w_users w')"
    proof (cases "j = ride")
      case False
      then have "0 < dues j w + cnt Cashback j (w_users w)" using that assms(3,4) [of j] by auto
      then have "abs_pay j w = Some PayCompleted" using assms(8) [unfolded once_def, THEN spec, of j] by simp
      then show ?thesis using keep p(2) by simp
    qed (use assms(6) p(2) in simp)
    show "channel_ok w' p" if "payment_of j w' = Some p" for p
      using assms(9) [of j p] that assms(2) by (simp add: p channel_ok_def)
  qed
qed

lemma confirm_good:
  assumes "confirmRidePayment cfg now ride pid w = (r, w')"
  shows "good w w'"
  using assms
proof (cases rule: confirm_cases)
  case (2 p w1 w2 w3 w4)
  have f: "pm_ride (completed_row now pid q) = pm_ride q" for q by (simp add: completed_row_def)
  have g1: "good w w1" unfolding 2(4)
    using 2(1,2) by (intro good_edit f) (simp add: completed_row_def same_payment_def edges_pending)
  have a1: "abs_pay ride w1 = Some PayCompleted" by (simp add: 2(1,4) abs_pay_def payment_of_set [OF f] completed_row_def)
  have s1: "w_rides w1 = w_rides w" "w_users w1 = w_users w" "dues j w1 = dues j w" for j
    using 2(4) by (simp_all add: set_payment_def dues_def)
  note d = take_dues_cnt [OF 2(5)] accrue_cnt [OF 2(6)] give_cashback_cnt [OF 2(7)]
  have e: "w_payments w' = w_payments w1" "w_rides w' = w_rides w1"
    "dues j w' \<le> dues j w + (if j = ride then 1 else 0)" "cnt Cashback j (w_users w') \<le> cnt Cashback j (w_users w) + (if j = ride then 1 else 0)" for j
    using d [of j] s1(2) s1(3) [of j] by (simp_all add: 2(8))
  have "once w'" if o: "once w"
    using g1 o a1 2(1,2) by (intro booked_once [OF e]) (auto simp: good_def abs_pay_def once_def)
  moreover have "pays w w'" using g1 e(1) by (simp add: good_def pays_def abs_pay_def payment_of_def)
  ultimately show ?thesis by (simp add: good_def)
qed simp

lemma cash_claim_eq:
  assumes "cash_claim now ride collected disc note w = (Inr True, w')"
  obtains r db r' where "ride_at (w_rides w) ride = Some r" "rr_cash_at r = None" "w' = w\<lparr>w_rides := db\<rparr>" "ride_at db ride = Some r'"
    "rr_channel r' = rr_channel r" "rr_cash_at r' \<noteq> None" "\<And>i. i \<noteq> ride \<Longrightarrow> ride_at db i = ride_at (w_rides w) i"
proof -
  let ?f = "\<lambda>r. r\<lparr>rr_cash_amount := Some (to_paise collected), rr_cash_at := Some now, rr_cash_disc := disc, rr_cash_note := note\<rparr>"
  obtain v db where rw: "ride_write now ride (\<lambda>r. rr_cash_at r = None) ?f (w_rides w) = (Inr (Some v), db)" and w': "w' = w\<lparr>w_rides := db\<rparr>"
    using assms by (auto simp: cash_claim_def split: prod.splits sum.splits option.splits if_splits)
  obtain r where r: "ride_at (w_rides w) ride = Some r" "rr_cash_at r = None" "db = (w_rides w)\<lparr>rides := (rides (w_rides w))[ride := (?f r)\<lparr>rr_updated := now\<rparr>]\<rparr>"
    using rw by (auto simp: ride_write_def Let_def split: option.splits if_splits)
  have "ride < length (rides (w_rides w))" using r(1) by (simp add: ride_at_def split: if_splits)
  then show thesis
    by (intro that [OF r(1,2) w', of "(?f r)\<lparr>rr_updated := now\<rparr>"]) (simp_all add: r(3) ride_at_def)
qed

lemma collect_good:
  assumes run: "collect_write cfg now ride driver r fare collected disc note w = (res, w')"
    and cash: "\<And>cur. ride_at (w_rides w) ride = Some cur \<Longrightarrow> rr_channel cur = Cash"
  shows "good w w'"
proof (cases "res = Inr True")
  case False
  then have "w' = w" using run by (auto simp: collect_write_def split: prod.splits sum.splits bool.splits option.splits)
  then show ?thesis by simp
next
  case True
  obtain w1 w2 w3 u where c: "cash_claim now ride collected disc note w = (Inr True, w1)"
    and p: "createPaymentRecord cfg now ride CashDirect PayCompleted w1 = (Inr u, w2)"
    and b: "Option.bind (take_dues cfg (rr_billing r) ride driver fare w2) (\<lambda>w. if 0 < fare then give_cashback cfg ride (rr_user r) fare w else Some w) = Some w3"
    and w': "w' = settle_offer ride w3"
    using run True by (auto simp: collect_write_def split: prod.splits sum.splits bool.splits option.splits)
  obtain cur db r' where k: "ride_at (w_rides w) ride = Some cur" "rr_cash_at cur = None" "w1 = w\<lparr>w_rides := db\<rparr>" "ride_at db ride = Some r'"
    "rr_channel r' = rr_channel cur" "rr_cash_at r' \<noteq> None" "\<And>i. i \<noteq> ride \<Longrightarrow> ride_at db i = ride_at (w_rides w) i"
    using cash_claim_eq [OF c] by metis
  have kept: "rides_kept (w_rides w) db" unfolding rides_kept_def using k by (metis option.sel)
  have g1: "good w w1" using kept by (intro good_frame) (simp_all add: k(3) same_counts_def)
  have g2: "good w1 w2" using k cash [OF k(1)] by (intro create_good [OF p]) auto
  obtain w2a where d: "take_dues cfg (rr_billing r) ride driver fare w2 = Some w2a"
    and cb: "(if 0 < fare then give_cashback cfg ride (rr_user r) fare w2a else Some w2a) = Some w3"
    using b by (auto simp: bind_eq_Some_conv)
  have s2: "w_users w2 = w_users w" "dues j w2 = dues j w" "w_rides w2 = db" for j
    using p k(3) by (cases rule: createPaymentRecord_cases; simp add: dues_def)+
  have pay2: "abs_pay ride w2 = Some PayCompleted" if "once w"
  proof -
    have "payment_of ride w = None"
    proof (rule ccontr)
      assume "payment_of ride w \<noteq> None"
      then obtain q where q: "payment_of ride w = Some q" by auto
      then have "channel_ok w q" "pm_ride q = ride" using that payment_of_ride by (auto simp: once_def)
      then show False using k(1,2) cash [OF k(1)] by (simp add: channel_ok_def)
    qed
    then have "payment_of ride w1 = None" by (simp add: k(3) payment_of_def)
    with p show ?thesis
      by (cases rule: createPaymentRecord_cases) (auto simp: abs_pay_def payment_of_def find_append_eq payment_row_def Let_def)
  qed
  have e: "w_payments w' = w_payments w2" "w_rides w' = w_rides w2" "dues j w' \<le> dues j w + (if j = ride then 1 else 0)"
    "cnt Cashback j (w_users w') \<le> cnt Cashback j (w_users w) + (if j = ride then 1 else 0)" for j
    using take_dues_cnt [OF d, of j] give_cashback_cnt [of cfg ride "rr_user r" fare w2a w3 j] cb s2(1) s2(2) [of j] by (auto simp: w' split: if_splits)
  have g: "good w w2" using g1 g2 good_trans by blast
  have "once w'" if o: "once w"
  proof (rule booked_once [OF e])
    show "abs_pay ride w \<noteq> Some PayCompleted"
    proof
      assume "abs_pay ride w = Some PayCompleted"
      then obtain q where q: "payment_of ride w = Some q" by (auto simp: abs_pay_def)
      then have "channel_ok w q" "pm_ride q = ride" using o payment_of_ride by (auto simp: once_def)
      then show False using k(1,2) cash [OF k(1)] by (simp add: channel_ok_def)
    qed
    show "channel_ok w2 q" if "payment_of j w2 = Some q" for j q using g o that by (simp add: good_def once_def)
  qed (use g o pay2 in \<open>simp_all add: good_def\<close>)
  moreover have "pays w w'" using g e(1) by (simp add: good_def pays_def abs_pay_def payment_of_def)
  ultimately show ?thesis by (simp add: good_def)
qed

subsection \<open>Every operation is good\<close>

lemma frame_simps:
  "good w (w\<lparr>w_offers := x1\<rparr>)" "good w (w\<lparr>w_settle := x2\<rparr>)" "good w (w\<lparr>w_events := x3\<rparr>)" "good w (w\<lparr>w_bindings := x4\<rparr>)"
  "good w (w\<lparr>w_ride_orders := x5\<rparr>)" "good w (w\<lparr>w_purchases := x6\<rparr>)" "good w (w\<lparr>w_topups := x7\<rparr>)"
  by (intro good_frame; simp add: same_counts_def)+

lemma order_good: "createRidePaymentOrder cfg now txn ride amount w = (r, w') \<Longrightarrow> good w w'"
proof -
  assume a: "createRidePaymentOrder cfg now txn ride amount w = (r, w')"
  have "good w (set_payment ride (\<lambda>p. p\<lparr>pm_payu := True, pm_txn := Some txn\<rparr>) w)"
    by (rule good_edit) (simp_all add: same_payment_def)
  then show ?thesis using a by (auto simp: createRidePaymentOrder_def split: if_splits prod.splits sum.splits dest: confirm_good)
qed

lemma wallet_pay_good: "payFromUserWallet ride user amount (w_users w) = (r, b) \<Longrightarrow> good w (w\<lparr>w_users := b\<rparr>)"
  by (intro good_frame) (simp_all add: same_counts_def wallet_pay_cnt)

lemma credit_package_good: "credit_package d t ref w = (r, w') \<Longrightarrow> good w w'"
  by (intro good_frame) (auto simp: credit_package_def same_counts_def package_credit_cnt split: prod.splits sum.splits)

lemma settle_online_good:
  assumes "settle_online cfg now txn ride fare w = (r, w')" "\<And>rr. ride_at (w_rides w) ride = Some rr \<Longrightarrow> rr_channel rr = Online"
  shows "good w w'"
proof -
  obtain r1 w1 where c: "createPaymentRecord cfg now ride PayuOnline PayPending w = (r1, w1)" by force
  have g: "good w w1" using assms(2) by (intro create_good [OF c]) auto
  have "good w1 w'" using assms(1) c order_good by (auto simp: settle_online_def split: sum.splits if_splits prod.splits)
  then show ?thesis using g good_trans by blast
qed

lemma settle_wallet_good:
  assumes "settle_wallet cfg now ride user fare w = (r, w')" "\<And>rr. ride_at (w_rides w) ride = Some rr \<Longrightarrow> rr_channel rr = Wallet"
  shows "good w w'"
proof -
  obtain r1 w1 where c: "createPaymentRecord cfg now ride PlatformWallet PayPending w = (r1, w1)" by force
  have g: "good w w1" using assms(2) by (intro create_good [OF c]) auto
  obtain r2 b where p: "payFromUserWallet ride user fare (w_users w1) = (r2, b)" by force
  have "good w1 w'" using assms(1) c p wallet_pay_good [OF p] good_trans [OF wallet_pay_good [OF p] confirm_good]
    by (auto simp: settle_wallet_def split: sum.splits if_splits prod.splits bool.splits)
  then show ?thesis using g good_trans by blast
qed

text \<open>What only leaves the payment rows alone or adds one keeps them on their machine, whatever it books.\<close>

lemma pays_frame: "w_payments w' = w_payments w \<Longrightarrow> pays w w'"
  by (simp add: pays_def abs_pay_def payment_of_def)

lemma create_pays:
  assumes "createPaymentRecord cfg now ride chan st w = (r, w')" "st \<noteq> PayFailed"
  shows "pays w w'"
  using assms(1)
proof (cases rule: createPaymentRecord_cases)
  case 1
  then show ?thesis by (intro pays_frame) simp
next
  case (2 f rr d)
  let ?p = "payment_row cfg now ride (rr_user rr) d chan st f"
  have pr: "pm_ride ?p = ride" "pm_status ?p = st" by (simp_all add: payment_row_def Let_def)
  have ps: "payment_of j w' = (if j = ride then Some ?p else payment_of j w)" for j
    using 2(4,6) pr(1) by (auto simp: payment_of_def find_append_eq split: option.splits)
  show ?thesis using 2(4) assms(2) pr(2) edges_pending(4,5) by (cases st) (auto simp: pays_def abs_pay_def ps)
qed

lemma cash_claim_payments: "cash_claim now ride collected disc note w = (r, w') \<Longrightarrow> w_payments w' = w_payments w"
  by (auto simp: cash_claim_def split: prod.splits sum.splits option.splits if_splits)

lemma settle_cash_pays:
  assumes "settle_cash_now cfg now ride driver rr fare w = (r, w')"
  shows "pays w w'"
proof -
  obtain r1 w1 where c: "createPaymentRecord cfg now ride CashDirect PayCompleted w = (r1, w1)" by force
  have p1: "pays w w1" by (rule create_pays [OF c]) simp
  have d: "w_payments x = w_payments w1" if "take_dues cfg m ride driver fare w1 = Some x" for m x using take_dues_cnt [OF that] by simp
  have g: "w_payments y = w_payments x" if "give_cashback cfg ride u fare x = Some y" for u x y using give_cashback_cnt [OF that] by simp
  have "w_payments w' = w_payments w1"
    using assms c d g unfolding settle_cash_now_def
    by (auto split: sum.splits option.splits prod.splits if_splits dest!: cash_claim_payments)
  then show ?thesis using p1 pays_frame pays_trans by blast
qed

lemma settle_completion_good:
  assumes "settleRideCompletionPayment cfg True now txn ride driver w = (r, w')"
  shows "good w w'"
proof -
  obtain fare w1 where f: "payable_for cfg ride w = (fare, w1)" by force
  then have w1: "\<exists>off. w1 = w\<lparr>w_offers := off\<rparr>" by (auto simp: payable_for_def split: prod.splits)
  then have g: "good w w1" using frame_simps(1) by blast
  have same: "w_rides w1 = w_rides w" using w1 by auto
  have "good w1 w'"
  proof (cases "ride_at (w_rides w) ride")
    case None
    then show ?thesis using assms f by (simp add: settleRideCompletionPayment_def Let_def)
  next
    case (Some rr)
    then show ?thesis using assms f settle_online_good [of cfg now txn ride fare w1 r w'] settle_wallet_good [of cfg now ride "rr_user rr" fare w1 r w'] same
      by (cases "rr_channel rr") (auto simp: settleRideCompletionPayment_def Let_def)
  qed
  then show ?thesis using g good_trans by blast
qed

lemma settle_completion_pays:
  assumes "settleRideCompletionPayment cfg on now txn ride driver w = (r, w')"
  shows "pays w w'"
proof (cases "settleRideCompletionPayment cfg on now txn ride driver w = settleRideCompletionPayment cfg True now txn ride driver w")
  case True
  then show ?thesis using settle_completion_good [of cfg now txn ride driver w r w'] assms by (simp add: good_def)
next
  case False
  obtain fare w1 where f: "payable_for cfg ride w = (fare, w1)" by force
  then have g: "pays w w1" by (intro pays_frame) (auto simp: payable_for_def split: prod.splits)
  have "settle_cash_now cfg now ride driver (ride_at (w_rides w) ride) fare w1 = (r, w')"
    using False assms f by (auto simp: settleRideCompletionPayment_def Let_def split: option.splits channel.splits if_splits)
  then show ?thesis using g settle_cash_pays pays_trans by blast
qed

lemma verify_good: "verifyRidePayment cfg now ride user ord pay sig_ok fetch w = (r, w') \<Longrightarrow> good w w'"
proof -
  assume a: "verifyRidePayment cfg now ride user ord pay sig_ok fetch w = (r, w')"
  obtain r1 w1 where c: "confirmRidePayment cfg now ride (Some (Razorpay, pay)) w = (r1, w1)" by force
  have "good w (w1\<lparr>w_ride_orders := x\<rparr>)" for x using confirm_good [OF c] frame_simps(5) good_trans by blast
  then show ?thesis using a c confirm_good [OF c]
    by (auto simp: verifyRidePayment_def split: if_splits option.splits sum.splits)
qed

lemma retry_good:
  assumes "retry_reset cfg now txn ride user p w = (r, w')"
  shows "good w w'"
proof -
  obtain hit w1 where u: "upd_payment ride (\<lambda>q. pm_status q \<in> {PayPending, PayFailed}) (\<lambda>q. q\<lparr>pm_status := PayPending, pm_failed := None, pm_reason := None\<rparr>) w = (hit, w1)" by force
  have g: "good w w1" using reopen_good(2) [of w ride] u by simp
  obtain r2 b where pw: "payFromUserWallet ride user (from_paise (pm_amount p)) (w_users w1) = (r2, b)" by force
  have "good w1 w'" using assms u pw wallet_pay_good [OF pw] good_trans [OF wallet_pay_good [OF pw] confirm_good] order_good
    by (auto simp: retry_reset_def Let_def split: sum.splits if_splits prod.splits)
  then show ?thesis using g good_trans by blast
qed

lemma claim_purchase_good: "claim_purchase k f c w = (r, w') \<Longrightarrow> good w w'"
  using frame_simps(6) by (auto simp: claim_purchase_def split: if_splits)

lemma apply_event_good: "applyRazorpayEvent cfg now h eid sid w = (r, w') \<Longrightarrow> good w w'"
  unfolding applyRazorpayEvent_def markPurchaseCompleted_def
  using frame_simps(2) [of w]
  by (auto split: option.splits sum.splits prod.splits if_splits dest: confirm_good claim_purchase_good credit_package_good
      intro: good_trans)

lemma webhook_good:
  assumes "handleWebhookEvent cfg now h w = (r, w')"
  shows "good w w'"
proof -
  have "good w w'" if a: "applyRazorpayEvent cfg now h eid sid (w\<lparr>w_events := x\<rparr>) = (v, w2)" and w': "w' = w2\<lparr>w_events := y\<rparr>" for eid sid x v w2 y
    unfolding w' using frame_simps(3) apply_event_good [OF a] good_trans by blast
  note g = this
  have id: "w = w\<lparr>w_events := w_events w\<rparr>" by simp
  show ?thesis
    using assms g [of _ _ "w_events w"] g unfolding handleWebhookEvent_def Let_def
    by (auto split: option.splits if_splits prod.splits sum.splits)
qed

lemma ride_capture_good: "settle_ride_capture cfg now p pid w = (r, w') \<Longrightarrow> good w w'"
  unfolding settle_ride_capture_def Let_def
  by (auto split: if_splits prod.splits sum.splits bool.splits intro: good_trans [OF reopen_good(1) confirm_good] confirm_good)

lemma package_capture_good: "settle_package_capture k txn pid w = (r, w') \<Longrightarrow> good w w'"
  unfolding settle_package_capture_def Let_def markPurchaseCompletedPayu_def
  by (auto split: option.splits prod.splits sum.splits if_splits dest: claim_purchase_good credit_package_good intro: good_trans)

lemma wallet_capture_good: "settle_wallet_capture d a txn w = (r, w') \<Longrightarrow> good w w'"
  by (intro good_frame) (auto simp: settle_wallet_capture_def same_counts_def topup_cnt split: prod.splits sum.splits)

lemma capture_good: "settle_capture cfg now t txn k pid w = (r, w') \<Longrightarrow> good w w'"
  unfolding settle_capture_def
  by (auto split: pay_target.splits prod.splits sum.splits dest: ride_capture_good package_capture_good wallet_capture_good)

lemma record_good: "good w (recordPayuEvent b st x w)"
  by (subst record_event_money) (rule frame_simps(3))

lemma payu_good: "settlePayuTxn cfg now status txn b w = (out, w') \<Longrightarrow> good w w'"
  unfolding settlePayuTxn_def Let_def
  by (auto split: option.splits if_splits prod.splits sum.splits bool.splits intro: record_good capture_good good_trans [OF capture_good record_good])

lemma reconcile_good: "good w (reconcile_row cfg now status rzp stale p w)"
proof -
  have c: "good w (snd (confirmRidePayment cfg now ride pid w))" for ride pid by (rule confirm_good [OF prod.collapse [symmetric]])
  show ?thesis unfolding reconcile_row_def using c fail_good by (auto split: option.split)
qed

lemma topup_order_good: "createDriverTopupOrder txn d amount w = (r, w') \<Longrightarrow> good w w'"
  by (intro good_frame) (auto simp: createDriverTopupOrder_def Let_def same_counts_def split: if_splits)

lemma package_order_good: "createPackagePurchaseOrder cfg tiers ref txn d tid w = (r, w') \<Longrightarrow> good w w'"
  by (intro good_frame)
    (auto simp: createPackagePurchaseOrder_def same_counts_def package_credit_cnt split: option.splits if_splits prod.splits sum.splits)

subsection \<open>The steps of the money side\<close>

text \<open>
  Every operation that may touch payments or ledgers, on whatever arguments, external answers and stale rows its caller holds
  (\<open>collectCash\<close> and \<open>retryRidePayment\<close> check a row read earlier and write later). The channel of a ride is never written
  after the booking, so the row \<open>collectCash\<close> checked agrees with the current one there; other writes to the rides table keep
  the channel and the time of a cash confirmation (\<open>rides_kept\<close>), and offers and settlements may change in any way.

  \<open>switch\<close> are the values \<open>cash_collection_enabled\<close> takes: \<open>{True}\<close> when it is on all the time, \<open>UNIV\<close> when it may be flipped at any moment. The
  settlement of a completion is several transactions; it is one step here, and each of its transactions is a step of its own too (rules \<open>row_made\<close> to
  \<open>off_cashback\<close>), so that other operations may come in between and a crash may end it anywhere.
\<close>

inductive pay_step :: "bool set \<Rightarrow> world \<Rightarrow> world \<Rightarrow> bool" for switch :: "bool set" where
  settled: "on \<in> switch \<Longrightarrow> settleRideCompletionPayment cfg on now txn ride driver w = (res, w') \<Longrightarrow> pay_step switch w w'"
| row_made: "ride_at (w_rides w) ride = Some r \<Longrightarrow> (rr_channel r, chan) \<in> {(Online, PayuOnline), (Wallet, PlatformWallet)}
    \<Longrightarrow> createPaymentRecord cfg now ride chan PayPending w = (res, w') \<Longrightarrow> pay_step switch w w'"
| ordered: "createRidePaymentOrder cfg now txn ride amount w = (ord, w') \<Longrightarrow> pay_step switch w w'"
| wallet_paid: "payFromUserWallet ride user fare (w_users w) = (paid, b) \<Longrightarrow> pay_step switch w (w\<lparr>w_users := b\<rparr>)"
| confirmed: "confirmRidePayment cfg now ride pid w = (conf, w') \<Longrightarrow> pay_step switch w w'"
| off_row: "False \<in> switch \<Longrightarrow> createPaymentRecord cfg now ride CashDirect PayCompleted w = (res, w') \<Longrightarrow> pay_step switch w w'"
| off_dues: "False \<in> switch \<Longrightarrow> take_dues cfg mode ride driver fare w = Some w' \<Longrightarrow> pay_step switch w w'"
| off_claim: "False \<in> switch \<Longrightarrow> cash_claim now ride fare False None w = (claim, w') \<Longrightarrow> pay_step switch w w'"
| off_cashback: "False \<in> switch \<Longrightarrow> give_cashback cfg ride user fare w = Some w' \<Longrightarrow> pay_step switch w w'"
| collected: "collect_checks driver (Some r) = Inr r \<Longrightarrow> ride_at (w_rides w) ride = Some cur \<Longrightarrow> rr_channel cur = rr_channel r
    \<Longrightarrow> collect_write cfg now ride driver r fare collected disc note w = (ok, w') \<Longrightarrow> pay_step switch w w'"
| verified: "verifyRidePayment cfg now ride user ord pay sig_ok fetch w = (vr, w') \<Longrightarrow> pay_step switch w w'"
| retried: "retry_checks user (Some p) on status = Inr p \<Longrightarrow> retry_reset cfg now txn ride user p w = (rr, w') \<Longrightarrow> pay_step switch w w'"
| webhook: "handleWebhookEvent cfg now h w = (res, w') \<Longrightarrow> pay_step switch w w'"
| captured: "settlePayuTxn cfg now status txn body w = (out, w') \<Longrightarrow> pay_step switch w w'"
| reconciled: "pay_step switch w (reconcile_row cfg now status rzp stale p w)"
| topup_ordered: "createDriverTopupOrder txn d amount w = (tr, w') \<Longrightarrow> pay_step switch w w'"
| package_ordered: "createPackagePurchaseOrder cfg tiers ref txn d tid w = (pr, w') \<Longrightarrow> pay_step switch w w'"
| fee_charged: "chargeCancellationFee fee ride user d (w_users w) (w_drivers w) = Some (ub, db) \<Longrightarrow> pay_step switch w (w\<lparr>w_users := ub, w_drivers := db\<rparr>)"
| package_adjusted: "adjustPackageBalance d amount (w_packages w) = (ar, b) \<Longrightarrow> pay_step switch w (w\<lparr>w_packages := b\<rparr>)"
| rides_moved: "rides_kept (w_rides w) db \<Longrightarrow> pay_step switch w (w\<lparr>w_rides := db\<rparr>)"
| offers_moved: "pay_step switch w (w\<lparr>w_offers := off\<rparr>)"
| settlements_moved: "pay_step switch w (w\<lparr>w_settle := s\<rparr>)"

lemma collect_checks_cash: "collect_checks driver (Some r) = Inr r \<Longrightarrow> rr_channel r = Cash"
  by (auto simp: collect_checks_def split: if_splits)

lemma row_made_good:
  assumes "ride_at (w_rides w) ride = Some r" "(rr_channel r, chan) \<in> {(Online, PayuOnline), (Wallet, PlatformWallet)}"
    and "createPaymentRecord cfg now ride chan PayPending w = (res, w')"
  shows "good w w'"
  using assms(1,2) by (intro create_good [OF assms(3)]) auto

lemma step_good: "pay_step switch w w' \<Longrightarrow> False \<notin> switch \<Longrightarrow> good w w'"
proof (induction rule: pay_step.induct)
  case (settled on cfg now txn ride driver w res w')
  then have "on" by (cases on) simp_all
  then show ?case using settled settle_completion_good by simp
next
  case (row_made w ride r chan cfg now res w')
  then show ?case by (intro row_made_good)
next
  case (wallet_paid ride user fare w paid b)
  then show ?case by (intro wallet_pay_good)
next
  case (collected driver r w ride cur cfg now fare collected disc nt ok w')
  then show ?case using collect_checks_cash by (intro collect_good [OF collected(4)]) auto
next
  case (fee_charged fee ride user d w ub db)
  then show ?case using fee_cnt [OF fee_charged(1)] by (intro good_frame) (simp_all add: same_counts_def)
next
  case (package_adjusted d amount w ar b)
  then show ?case by (intro good_frame) (simp_all add: same_counts_def package_adjust_cnt)
next
  case (rides_moved w rdb)
  then show ?case by (intro good_frame) (simp_all add: same_counts_def)
qed (blast intro: order_good confirm_good verify_good retry_good webhook_good payu_good reconcile_good topup_order_good package_order_good frame_simps)+

text \<open>With the switch off or flipping, the rows still keep to the machine; only the ledgers do not.\<close>

lemma step_pays:
  assumes "pay_step switch w w'"
  shows "pays w w'"
  using assms
proof (cases rule: pay_step.cases)
  case (settled on cfg now txn ride driver res)
  then show ?thesis by (blast intro: settle_completion_pays)
next
  case (off_row cfg now ride res)
  then show ?thesis by (auto intro: create_pays)
next
  case (off_dues cfg mode ride driver fare)
  then show ?thesis using take_dues_cnt by (intro pays_frame) blast
next
  case (off_claim now ride fare claim)
  then show ?thesis using cash_claim_payments by (intro pays_frame)
next
  case (off_cashback cfg ride user fare)
  then show ?thesis using give_cashback_cnt by (intro pays_frame) blast
qed (use assms pay_step.intros [where switch = "{}"] step_good [of "{}" w w'] in \<open>simp_all add: good_def\<close>)

lemma steps_good: "(pay_step switch)\<^sup>*\<^sup>* w w' \<Longrightarrow> False \<notin> switch \<Longrightarrow> good w w'"
  by (induction rule: rtranclp_induct) (auto intro: good_trans step_good)

lemma steps_pays: "(pay_step switch)\<^sup>*\<^sup>* w w' \<Longrightarrow> pays w w'"
  by (induction rule: rtranclp_induct) (auto intro: pays_trans step_pays)

subsection \<open>The properties\<close>

text \<open>
  C10. Whatever operations run, in whatever order and on whatever stale reads, with the cash switch on, off or flipped at any moment, the payment of a ride
  refines the machine absent to pending or completed, pending to completed or failed, failed back to pending. A row, once there, keeps its parties,
  channel, amounts and split, and a completed payment is final.
\<close>

theorem payments_refine_machine:
  assumes "(pay_step switch)\<^sup>*\<^sup>* w w'"
  shows "(abs_pay ride w, abs_pay ride w') \<in> pay_edges\<^sup>*
    \<and> (\<forall>p. payment_of ride w = Some p \<longrightarrow> (\<exists>q. payment_of ride w' = Some q \<and> pm_user q = pm_user p \<and> pm_driver q = pm_driver p \<and> pm_channel q = pm_channel p
         \<and> pm_amount q = pm_amount p \<and> pm_commission q = pm_commission p \<and> pm_earning q = pm_earning p
         \<and> (pm_status p = PayCompleted \<longrightarrow> pm_status q = PayCompleted \<and> pm_captured q = pm_captured p)))"
  using steps_pays [OF assms] by (fastforce simp: pays_def same_payment_def)

lemma payments_refine_machine_witness:
  "(pay_step UNIV)\<^sup>*\<^sup>* demo_world (fail_payment 7 0 demo_world) \<and> (Some PayPending, Some PayFailed) \<in> pay_edges\<^sup>*
     \<and> abs_pay 0 demo_world = Some PayPending \<and> abs_pay 0 (fail_payment 7 0 demo_world) = Some PayFailed"
proof -
  let ?st = "\<lambda>t. Some \<lparr>ps_state = FailedTxn, ps_paise = 0, ps_mihpayid = None\<rparr>"
  have "reconcile_row demo_pay_config 7 ?st (\<lambda>_. None) False demo_payment demo_world = fail_payment 7 0 demo_world"
    by (simp add: reconcile_row_def demo_payment_def demo_pay_config_def payuConfigured_def)
  then have s: "(pay_step UNIV)\<^sup>*\<^sup>* demo_world (fail_payment 7 0 demo_world)"
    using reconciled [of UNIV demo_world demo_pay_config 7 ?st "\<lambda>_. None" False demo_payment] by simp
  have a: "abs_pay 0 demo_world = Some PayPending" "abs_pay 0 (fail_payment 7 0 demo_world) = Some PayFailed"
    by (simp_all add: abs_pay_def fail_payment_def upd_payment_def set_payment_def payment_of_def demo_world_def demo_payment_def)
  show ?thesis using payments_refine_machine [OF s, of 0] s a by simp
qed

lemma fresh_once: "w_payments w = [] \<Longrightarrow> entries (w_users w) = [] \<Longrightarrow> entries (w_drivers w) = [] \<Longrightarrow> entries (w_packages w) = [] \<Longrightarrow> once w"
  by (simp add: once_def dues_def cnt_def payment_of_def)

text \<open>
  C2. Starting with no payments and empty ledgers, and as long as cash collection stays enabled, a ride is billed at most once over all interleavings: at
  most one commission or package charge and at most one cashback, and neither before its payment is completed. The condition is needed: with
  \<open>cash_collection_enabled\<close> off the completion handler books the dues before its claim, and twice (\<open>kill_switch_charges_again\<close> below).
\<close>

theorem ride_settled_at_most_once:
  assumes "w_payments w = []" "entries (w_users w) = []" "entries (w_drivers w) = []" "entries (w_packages w) = []" "(pay_step {True})\<^sup>*\<^sup>* w w'"
  shows "cnt CommissionDebit ride (w_drivers w') + cnt RideConsumption ride (w_packages w') \<le> 1 \<and> cnt Cashback ride (w_users w') \<le> 1
    \<and> (0 < cnt CommissionDebit ride (w_drivers w') + cnt RideConsumption ride (w_packages w') + cnt Cashback ride (w_users w')
        \<longrightarrow> abs_pay ride w' = Some PayCompleted)"
  using steps_good [OF assms(5), simplified] fresh_once [OF assms(1-4)] by (simp add: good_def once_def dues_def)

lemma cash_claim_row:
  assumes "cash_claim now ride collected disc nt w = (Inr True, w')" "ride_at (w_rides w) ride = Some r"
  shows "\<exists>db. w' = w\<lparr>w_rides := db\<rparr> \<and> ride_at db ride = Some (r\<lparr>rr_cash_amount := Some (to_paise collected), rr_cash_at := Some now,
    rr_cash_disc := disc, rr_cash_note := nt, rr_updated := now\<rparr>)"
proof -
  have "ride < length (rides (w_rides w))" using assms(2) by (simp add: ride_at_def split: if_splits)
  then show ?thesis using assms by (auto simp: cash_claim_def ride_write_def Let_def ride_at_def split: prod.splits sum.splits option.splits if_splits)
qed

lemma cash_claim_free:
  assumes "cash_claim now ride collected disc nt w = (Inr False, w')" "ride_at (w_rides w) ride = Some r"
  shows "rr_cash_at r \<noteq> None"
  using assms by (auto simp: cash_claim_def ride_write_def Let_def split: prod.splits sum.splits option.splits if_splits)

text \<open>What a won cash transaction leaves behind.\<close>

lemma collect_write_done:
  assumes "collect_write cfg now ride driver r fare collected disc nt w = (Inr True, w')" "ride_at (w_rides w) ride = Some r"
  shows "ride_at (w_rides w') ride = Some (r\<lparr>rr_cash_amount := Some (to_paise collected), rr_cash_at := Some now, rr_cash_disc := disc, rr_cash_note := nt, rr_updated := now\<rparr>)
    \<and> (\<exists>p. payment_of ride w' = Some p \<and> (payment_of ride w = None \<longrightarrow> pm_channel p = CashDirect \<and> pm_status p = PayCompleted))"
proof -
  obtain w1 w2 w3 u where c: "cash_claim now ride collected disc nt w = (Inr True, w1)"
    and p: "createPaymentRecord cfg now ride CashDirect PayCompleted w1 = (Inr u, w2)"
    and b: "Option.bind (take_dues cfg (rr_billing r) ride driver fare w2) (\<lambda>w. if 0 < fare then give_cashback cfg ride (rr_user r) fare w else Some w) = Some w3"
    and w': "w' = settle_offer ride w3"
    using assms(1) by (auto simp: collect_write_def split: prod.splits sum.splits bool.splits option.splits)
  obtain db where k: "w1 = w\<lparr>w_rides := db\<rparr>" "ride_at db ride = Some (r\<lparr>rr_cash_amount := Some (to_paise collected), rr_cash_at := Some now,
    rr_cash_disc := disc, rr_cash_note := nt, rr_updated := now\<rparr>)" using cash_claim_row [OF c assms(2)] by blast
  obtain w2a where d: "take_dues cfg (rr_billing r) ride driver fare w2 = Some w2a"
    and cb: "(if 0 < fare then give_cashback cfg ride (rr_user r) fare w2a else Some w2a) = Some w3"
    using b by (auto simp: bind_eq_Some_conv)
  have same: "w_payments w' = w_payments w2" "w_rides w' = w_rides w2"
    using take_dues_cnt [OF d] give_cashback_cnt [of cfg ride "rr_user r" fare w2a w3] cb by (auto simp: w' split: if_splits)
  have "w_rides w2 = db" using p k(1) by (cases rule: createPaymentRecord_cases) simp_all
  moreover have "\<exists>q. payment_of ride w2 = Some q \<and> (payment_of ride w = None \<longrightarrow> pm_channel q = CashDirect \<and> pm_status q = PayCompleted)"
    using p
  proof (cases rule: createPaymentRecord_cases)
    case 1
    then show ?thesis using k(1) by (auto simp: payment_of_def)
  next
    case (2 f rr d)
    then show ?thesis using k(1) by (simp add: payment_of_def find_append_eq payment_row_def Let_def split: option.splits)
  qed
  ultimately show ?thesis using k(2) same by (simp add: payment_of_def)
qed

lemma collect_write_error: "collect_write cfg now ride driver r fare collected disc nt w = (Inl e, w') \<Longrightarrow> w' = w"
  by (auto simp: collect_write_def split: prod.splits sum.splits bool.splits option.splits)

text \<open>
  C17. A confirmed cash ride is a completed cash ride of that driver; it records the amount and flags exactly the amounts off the
  payable by more than the tolerance (or nothing collected), its payment is there, and every later confirmation, whatever it says,
  returns what was recorded and changes nothing. A refused or failed confirmation changes no money table and no ride.
\<close>

theorem cash_confirmed_once:
  assumes run: "collectCash cfg tolerance now driver ride amount not_collected nt w = (res, w')"
    and row: "ride_at (w_rides w) ride = Some r" "rr_cash_at r = None"
  shows "(case res of
      Inl e \<Rightarrow> w' = w\<lparr>w_offers := w_offers w'\<rparr>
    | Inr (c, disc) \<Rightarrow>
        rr_driver r = Some driver \<and> rr_status r = Completed \<and> rr_channel r = Cash
        \<and> c = (if not_collected then 0 else coalesce amount (fst (payable_for cfg ride w)))
        \<and> (disc \<longleftrightarrow> not_collected \<or> tolerance < \<bar>fsub c (fst (payable_for cfg ride w))\<bar>)
        \<and> (\<exists>r'. ride_at (w_rides w') ride = Some r' \<and> rr_cash_amount r' = Some (to_paise c) \<and> rr_cash_at r' = Some now)
        \<and> (\<exists>p. payment_of ride w' = Some p \<and> (payment_of ride w = None \<longrightarrow> pm_channel p = CashDirect \<and> pm_status p = PayCompleted))
        \<and> collectCash cfg' tolerance' now' driver ride amount' not_collected' nt' w' = (Inr (from_paise (to_paise c), disc), w'))"
proof -
  obtain fare w1 where f: "payable_for cfg ride w = (fare, w1)" by force
  then have w1: "w1 = w\<lparr>w_offers := w_offers w1\<rparr>" by (auto simp: payable_for_def split: prod.splits)
  define c where "c = (if not_collected then 0 else coalesce amount fare)"
  define disc where "disc = (not_collected \<or> tolerance < \<bar>fsub c fare\<bar>)"
  obtain v w2 where cw: "collect_write cfg now ride driver r fare c disc nt w1 = (v, w2)" by force
  have row1: "ride_at (w_rides w1) ride = Some r" using row(1) by (subst w1) simp
  show ?thesis
  proof (cases "collect_checks driver (Some r)")
    case (Inl e)
    then show ?thesis using run row by (auto simp: collectCash_def)
  next
    case (Inr r0)
    then have ok: "r0 = r" "rr_driver r = Some driver" "rr_status r = Completed" "rr_channel r = Cash"
      by (auto simp: collect_checks_def split: if_splits)
    have eq: "(res, w') = (case (v, w2) of (Inl e, w) \<Rightarrow> (Inl e, w) | (Inr True, w) \<Rightarrow> (Inr (c, disc), w)
        | (Inr False, w) \<Rightarrow> (case ride_at (w_rides w) ride of None \<Rightarrow> (Inr (0, False), w)
             | Some f \<Rightarrow> (Inr (from_paise (coalesce (rr_cash_amount f) 0), rr_cash_disc f), w)))"
      using run row Inr ok(1) by (simp add: collectCash_def f c_def [symmetric] disc_def [symmetric] cw)
    have "v \<noteq> Inr False"
      using cw cash_claim_free [OF _ row1] row(2) by (auto simp: collect_write_def split: prod.splits sum.splits bool.splits option.splits)
    then consider e where "v = Inl e" | "v = Inr True" by (cases v) auto
    then show ?thesis
    proof cases
      case 1
      then have "w2 = w1" "res = Inl e" "w' = w1" using cw collect_write_error eq by auto
      then show ?thesis using w1 by simp
    next
      case 2
      have res: "res = Inr (c, disc)" "w' = w2" using eq 2 by auto
      note d = collect_write_done [OF cw [unfolded 2] row1]
      have "payment_of ride w1 = payment_of ride w" by (subst w1) (simp add: payment_of_def)
      then have "collectCash cfg' tolerance' now' driver ride amount' not_collected' nt' w' = (Inr (from_paise (to_paise c), disc), w')"
        using d ok by (simp add: collectCash_def collect_checks_def res)
      then show ?thesis using d ok f \<open>payment_of ride w1 = payment_of ride w\<close> by (simp add: res) (simp add: c_def disc_def)
    qed
  qed
qed

definition demo_cash :: world where
  "demo_cash = demo_world\<lparr>w_payments := [], w_rides := (w_rides demo_world)\<lparr>rides := [(inserted_ride 0 \<lparr>ri_user = 1, ri_category = 1, ri_type = one_way,
     ri_origin = (0, 0), ri_dest = None, ri_city = None, ri_scheduled = None, ri_status = None, ri_channel = Cash\<rparr>)\<lparr>rr_driver := Some 2, rr_status := Completed\<rparr>]\<rparr>,
     w_offers := empty_offers\<lparr>snapshots := [0 \<mapsto> \<lparr>fs_base = 5000, fs_distance = 20000, fs_time = 5000, fs_stop = 0, fs_hour = 0, fs_surge = 0, fs_waiting = None,
       fs_overage = None, fs_estimated = 30000, fs_final = None, fs_discount = 0\<rparr>]\<rparr>\<rparr>"

lemma demo_commission: "commission_of 300 15 = 45" "earning_of 300 45 = 255" "from_paise 4500 = 45"
  using fl_int [of 4500] fl_int [of 45] js_round_of_int [of 4500] fl_int [of 255] fl_int [of 25500] js_round_of_int [of 25500]
  by (simp_all add: commission_of_def earning_of_def fmul_def fdiv_def fsub_def round2_def from_paise_def)

lemma demo_cash_collected:
  obtains w' where "collectCash demo_pay_config 1 5 2 0 None False None demo_cash = (Inr (300, False), w')" "(pay_step {True})\<^sup>*\<^sup>* demo_cash w'"
    "ride_at (w_rides demo_cash) 0 \<noteq> None"
proof -
  define r where "r = rides (w_rides demo_cash) ! 0"
  have r: "ride_at (w_rides demo_cash) 0 = Some r" "rr_driver r = Some 2" "rr_status r = Completed" "rr_channel r = Cash" "rr_cash_at r = None"
    "rr_user r = 1" "rr_billing r = None"
    by (simp_all add: r_def demo_cash_def ride_at_def inserted_ride_def)
  obtain f where f: "snapshots (w_offers demo_cash) 0 = Some f" "fs_final f = None" "fs_estimated f = 30000" "fs_discount f = 0" by (simp add: demo_cash_def)
  have fin: "finaliseDiscount m 0 (w_offers demo_cash) = (0, w_offers demo_cash)" for m
    by (simp add: finaliseDiscount_def demo_cash_def empty_offers_def)
  have pay: "payable_for demo_pay_config 0 demo_cash = (300, demo_cash)"
    using f demo_floats(1) by (simp add: payable_for_def payableForRide_def fin ocar_payable_def)
  have diff: "fsub 300 300 = 0" by (simp add: fsub_def)
  have checks: "collect_checks 2 (Some r) = Inr r" using r by (simp add: collect_checks_def)
  have fits: "to_paise 300 = 30000" using to_from_paise [of 30000] demo_floats(1) by (simp add: paise_ok_def)
  define r' where "r' = r\<lparr>rr_cash_amount := Some 30000, rr_cash_at := Some 5, rr_cash_disc := False, rr_cash_note := None, rr_updated := 5\<rparr>"
  define w1 where "w1 = demo_cash\<lparr>w_rides := (w_rides demo_cash)\<lparr>rides := (rides (w_rides demo_cash))[0 := r']\<rparr>\<rparr>"
  have claim: "cash_claim 5 0 300 False None demo_cash = (Inr True, w1)"
    using r(1,3,5) by (simp add: cash_claim_def ride_write_def Let_def fits r'_def [symmetric] w1_def numeric_fits_def transition_allowed_def
        driver_index_clash_def user_index_clash_def) (simp add: r'_def live_def live_immediate_def)
  have row1: "ride_at (w_rides w1) 0 = Some r'" by (simp add: w1_def ride_at_def demo_cash_def)
  have r': "rr_user r' = 1" "rr_driver r' = Some 2" using r by (simp_all add: r'_def)
  define p where "p = payment_row demo_pay_config 5 0 1 2 CashDirect PayCompleted f"
  have pct: "0 \<le> pc_commission demo_pay_config" "pc_commission demo_pay_config \<le> 100" by (simp_all add: demo_pay_config_def)
  have ok: "payment_row_ok p" unfolding p_def using f pct by (intro payment_row_amounts) auto
  have kp: "pm_commission p = 4500"
    using f payableOf_exact [of 30000 0] demo_commission to_from_paise [of 4500] demo_floats(1)
    by (simp add: p_def payment_row_def Let_def demo_pay_config_def paise_ok_def)
  define w2 where "w2 = w1\<lparr>w_payments := [p]\<rparr>"
  have w2: "w_drivers w2 = empty_book" "w_users w2 = empty_book" "payment_of 0 w2 = Some p"
    by (simp_all add: w2_def w1_def demo_cash_def demo_world_def payment_of_def p_def payment_row_def Let_def)
  have off: "w_offers w1 = w_offers demo_cash" "w_payments w1 = []" by (simp_all add: w1_def demo_cash_def)
  have same: "w1\<lparr>w_offers := w_offers demo_cash\<rparr> = w1" using off(1) by simp
  have create: "createPaymentRecord demo_pay_config 5 0 CashDirect PayCompleted w1 = (Inr (), w2)"
    unfolding createPaymentRecord_def off fin snd_conv same Let_def
    using f(1) row1 r' ok off by (simp add: payment_of_def w2_def p_def)
  have bal: "balance empty_book i = 0" for i by (simp add: balance_def empty_book_def)
  obtain b where "write_entry driver_checks 2 CommissionDebit False (round2 (fsub 0 (from_paise 4500))) (from_paise 4500) 0 (from_paise 4500) (Some 0) None (open_wallet 2 empty_book) = Some b"
    using demo_write(1) [of 4500 2 CommissionDebit "Some 0" None] by auto
  then obtain b2 where d: "take_dues demo_pay_config None 0 2 300 w2 = Some (w2\<lparr>w_drivers := b2\<rparr>)"
    by (simp add: take_dues_def deductCommission_def Let_def w2 kp commit_or_fail_def bal)
  obtain c where "write_entry user_checks 1 Cashback True (round2 (fadd 0 (from_paise 600))) (from_paise 600) (from_paise 600) 0 (Some 0) None (open_wallet 1 empty_book) = Some c"
    using demo_write(2) [of 600 1 Cashback "Some 0" None] by auto
  then obtain c2 where c: "give_cashback demo_pay_config 0 1 300 (w2\<lparr>w_drivers := b2\<rparr>) = Some (w2\<lparr>w_drivers := b2, w_users := c2\<rparr>)"
    using from_paise_nonneg [of 600]
    by (simp add: give_cashback_def creditCashback_def cashback_amount_def Let_def w2 commit_or_fail_def bal demo_pay_config_def demo_floats split: if_splits)
  define w' where "w' = settle_offer 0 (w2\<lparr>w_drivers := b2, w_users := c2\<rparr>)"
  have cw: "collect_write demo_pay_config 5 0 2 r 300 300 False None demo_cash = (Inr True, w')"
    using d c by (simp add: collect_write_def claim create r w'_def)
  have run: "collectCash demo_pay_config 1 5 2 0 None False None demo_cash = (Inr (300, False), w')"
    using r checks by (simp add: collectCash_def pay diff cw)
  have "pay_step {True} demo_cash w'" by (rule collected [OF checks r(1) refl cw])
  then show thesis using that [OF run r_into_rtranclp] r(1) by simp
qed

lemma cash_confirmed_once_witness:
  "\<exists>w' r'. collectCash demo_pay_config 1 5 2 0 None False None demo_cash = (Inr (300, False), w') \<and> ride_at (w_rides w') 0 = Some r' \<and> rr_cash_at r' = Some 5
     \<and> collectCash demo_pay_config 1 9 2 0 (Some 10) False None w' = (Inr (300, False), w')"
proof -
  obtain w' where run: "collectCash demo_pay_config 1 5 2 0 None False None demo_cash = (Inr (300, False), w')" using demo_cash_collected by metis
  define r where "r = rides (w_rides demo_cash) ! 0"
  have r: "ride_at (w_rides demo_cash) 0 = Some r" "rr_cash_at r = None" by (simp_all add: r_def demo_cash_def ride_at_def inserted_ride_def)
  have "from_paise (to_paise 300) = 300" using to_from_paise [of 30000] demo_floats(1) by (simp add: paise_ok_def)
  then show ?thesis using cash_confirmed_once [OF run r, of demo_pay_config 1 9 "Some 10" False None] run by auto
qed

lemma ride_settled_at_most_once_witness:
  "\<exists>w'. collectCash demo_pay_config 1 5 2 0 None False None demo_cash = (Inr (300, False), w') \<and> (pay_step {True})\<^sup>*\<^sup>* demo_cash w'
     \<and> cnt CommissionDebit 0 (w_drivers w') + cnt RideConsumption 0 (w_packages w') \<le> 1 \<and> cnt Cashback 0 (w_users w') \<le> 1"
proof -
  obtain w' where run: "collectCash demo_pay_config 1 5 2 0 None False None demo_cash = (Inr (300, False), w')" and s: "(pay_step {True})\<^sup>*\<^sup>* demo_cash w'"
    using demo_cash_collected by metis
  have "w_payments demo_cash = []" "entries (w_users demo_cash) = []" "entries (w_drivers demo_cash) = []" "entries (w_packages demo_cash) = []"
    by (simp_all add: demo_cash_def demo_world_def empty_book_def)
  then show ?thesis using ride_settled_at_most_once [OF _ _ _ _ s, of 0] run s by blast
qed

subsection \<open>The kill switch\<close>

text \<open>
  With the cash switch off the completion handler itself books the dues, before its cash claim and whatever the claim answers. A ride
  whose driver has already confirmed the cash (the row has its \<open>cash_collected_at\<close>) is then charged its commission again.
\<close>

lemma deduct_cnt_exact:
  assumes "deductCommission m ride d (Some k) b = (Inr v, b')" "from_paise k \<noteq> 0"
  shows "cnt CommissionDebit ride b' = cnt CommissionDebit ride b + 1"
  using assms by (auto simp: deductCommission_def Let_def commit_or_fail_def split: option.splits dest!: write_cnt [of _ _ _ _ _ _ _ _ _ _ _ _ CommissionDebit ride])

theorem kill_switch_charges_again:
  assumes run: "settle_cash_now cfg now ride driver (Some r) fare w = (Inr v, w')"
    and r: "rr_cash_at r \<noteq> None" "rr_billing r \<noteq> Some PackageBilling"
    and p: "payment_of ride w = Some p" "from_paise (pm_commission p) \<noteq> 0"
  shows "cnt CommissionDebit ride (w_drivers w') = cnt CommissionDebit ride (w_drivers w) + 1"
proof -
  obtain u w1 w2 where c: "createPaymentRecord cfg now ride CashDirect PayCompleted w = (Inr u, w1)"
    and d: "take_dues cfg (rr_billing r) ride driver fare w1 = Some w2"
    using run by (auto simp: settle_cash_now_def split: prod.splits sum.splits option.splits)
  obtain z w3 where cl: "cash_claim now ride fare False None (settle_offer ride w2) = (z, w3)" by force
  have w1: "payment_of ride w1 = Some p" "w_drivers w1 = w_drivers w"
    using c p by (cases rule: createPaymentRecord_cases; simp add: payment_of_def)+
  obtain x b where b: "deductCommission (pc_min_wallet cfg) ride driver (Some (pm_commission p)) (w_drivers w) = (Inr x, b)" "w2 = w1\<lparr>w_drivers := b\<rparr>"
    using d r(2) w1 by (auto simp: take_dues_def split: prod.splits sum.splits)
  have "w_drivers w3 = b" using cl b(2) by (auto simp: cash_claim_def settle_offer_def split: prod.splits sum.splits option.splits if_splits)
  moreover have "w_drivers w' = w_drivers w3"
    using run c d cl unfolding settle_cash_now_def
    by (auto simp: give_cashback_def split: prod.splits sum.splits option.splits if_splits)
  ultimately show ?thesis using deduct_cnt_exact [OF b(1) p(2)] by simp
qed

end
