(* ===== verification/RideStops.thy ===== *)
theory RideStops
  imports Pricing OfferLedger RideCore
begin

text \<open>
  Waypoints of a ride: the table \<open>ride_stops\<close> with the statements of \<open>rides.repository.ts\<close> on it, the visiting order
  \<open>planStopOrder\<close>, and the stop handlers of \<open>rides.service.ts\<close>. The lemmas show that the planned order is a greedy reordering of the
  pending stops, that the two-phase renumbering never trips over \<open>UNIQUE (ride_id, sequence)\<close>, and what every interleaving keeps of a stop.
\<close>

subsection \<open>Distances\<close>

text \<open>
  ECMAScript leaves the results of \<open>Math.sin\<close>, \<open>cos\<close>, \<open>asin\<close>, \<open>sqrt\<close> and \<open>**\<close> to the implementation; they are a
  parameter, with \<open>None\<close> for \<open>NaN\<close> (\<open>asin\<close> of a rounding error above one). A comparison with \<open>NaN\<close> is false.
\<close>

record libm =
  lm_sin :: "num \<Rightarrow> num"
  lm_cos :: "num \<Rightarrow> num"
  lm_square :: "num \<Rightarrow> num"
  lm_sqrt :: "num \<Rightarrow> num"
  lm_asin :: "num \<Rightarrow> num option"

type_synonym pos = "num \<times> num"

definition math_pi :: num where "math_pi = 884279719003555 / 281474976710656"

definition distanceMetres :: "libm \<Rightarrow> pos \<Rightarrow> pos \<Rightarrow> num option" where
  "distanceMetres lm p q =
     (let dLat = fdiv (fmul (fsub (fst q) (fst p)) math_pi) 180; dLng = fdiv (fmul (fsub (snd q) (snd p)) math_pi) 180;
          a = fadd (lm_square lm (lm_sin lm (fdiv dLat 2)))
                (fmul (fmul (lm_cos lm (fdiv (fmul (fst p) math_pi) 180)) (lm_cos lm (fdiv (fmul (fst q) math_pi) 180)))
                      (lm_square lm (lm_sin lm (fdiv dLng 2))))
      in map_option (fmul (fmul 6371000 2)) (lm_asin lm (lm_sqrt lm a)))"

definition nan_lt :: "num option \<Rightarrow> num option \<Rightarrow> bool" where
  "nan_lt x y = (case (x, y) of (Some a, Some b) \<Rightarrow> a < b | _ \<Rightarrow> False)"

subsection \<open>The table\<close>

datatype stop_status = StopPending | StopReached | StopSkipped

record stop_row =
  sp_id :: nat
  sp_ride :: nat
  sp_seq :: int
  sp_pos :: pos
  sp_address :: "string option"
  sp_status :: stop_status
  sp_arrived :: "int option"
  sp_reached :: "int option"
  sp_charge :: paise
  sp_wait :: paise
  sp_unreachable :: "int option"

record stop_db =
  stops :: "stop_row list"
  next_stop :: nat

text \<open>The SQLSTATE of \<open>UNIQUE (ride_id, sequence)\<close>, which a handler may retry on.\<close>

definition unique_violation :: app_error where "unique_violation = http_err 500 ''23505''"

definition getRideStops :: "nat \<Rightarrow> stop_db \<Rightarrow> stop_row list" where
  "getRideStops ride db = sort_key sp_seq (filter (\<lambda>s. sp_ride s = ride) (stops db))"

definition seq_taken :: "nat \<Rightarrow> int \<Rightarrow> stop_row list \<Rightarrow> bool" where
  "seq_taken ride q = list_ex (\<lambda>s. sp_ride s = ride \<and> sp_seq s = q)"

text \<open>The column is \<open>SMALLINT CHECK (sequence > 0)\<close>, the charge \<open>NUMERIC(8,2)\<close>.\<close>

definition seq_fits :: "int \<Rightarrow> bool" where
  "seq_fits q \<longleftrightarrow> 0 < q \<and> q \<le> 32767"

record stop_input =
  sn_pos :: pos
  sn_address :: "string option"
  sn_charge :: num

definition new_stop :: "nat \<Rightarrow> nat \<Rightarrow> int \<Rightarrow> stop_input \<Rightarrow> stop_row" where
  "new_stop k ride q x = \<lparr>sp_id = k, sp_ride = ride, sp_seq = q, sp_pos = sn_pos x, sp_address = sn_address x, sp_status = StopPending,
     sp_arrived = None, sp_reached = None, sp_charge = to_paise (sn_charge x), sp_wait = 0, sp_unreachable = None\<rparr>"

definition insert_stop :: "nat \<Rightarrow> int \<Rightarrow> stop_input \<Rightarrow> stop_db \<Rightarrow> stop_row res \<times> stop_db" where
  "insert_stop ride q x db =
     (let row = new_stop (next_stop db) ride q x
      in if \<not> seq_fits q \<or> \<not> numeric_fits 8 (sp_charge row) then (Inl db_error, db)
         else if seq_taken ride q (stops db) then (Inl unique_violation, db)
         else (Inr row, db\<lparr>stops := stops db @ [row], next_stop := Suc (next_stop db)\<rparr>))"

text \<open>At booking, in one transaction: sequences 1, 2, ...\<close>

fun insert_stops_from :: "nat \<Rightarrow> int \<Rightarrow> stop_input list \<Rightarrow> stop_db \<Rightarrow> stop_row list res \<times> stop_db" where
  "insert_stops_from ride q [] db = (Inr [], db)"
| "insert_stops_from ride q (x # xs) db = (case insert_stop ride q x db of
      (Inl e, _) \<Rightarrow> (Inl e, db)
    | (Inr row, db1) \<Rightarrow> (case insert_stops_from ride (q + 1) xs db1 of
          (Inl e, _) \<Rightarrow> (Inl e, db) | (Inr rows, db2) \<Rightarrow> (Inr (row # rows), db2)))"

definition insertRideStops :: "nat \<Rightarrow> stop_input list \<Rightarrow> stop_db \<Rightarrow> stop_row list res \<times> stop_db" where
  "insertRideStops ride xs = insert_stops_from ride 1 xs"

text \<open>\<open>MAX(sequence) + 1\<close> is computed over the rows the statement's snapshot shows (\<open>seen\<close>); the constraint is checked on the table.\<close>

definition appendRideStop :: "stop_row list \<Rightarrow> nat \<Rightarrow> stop_input \<Rightarrow> stop_db \<Rightarrow> stop_row res \<times> stop_db" where
  "appendRideStop seen ride x db = insert_stop ride (fold max (map sp_seq (filter (\<lambda>s. sp_ride s = ride) seen)) 0 + 1) x db"

text \<open>\<open>UPDATE ride_stops SET f WHERE ride_id = ride AND sequence = q AND status = 'pending' RETURNING *\<close>.\<close>

definition stop_write :: "nat \<Rightarrow> int \<Rightarrow> (stop_row \<Rightarrow> stop_row) \<Rightarrow> stop_db \<Rightarrow> stop_row option \<times> stop_db" where
  "stop_write ride q f db =
     (let hit = (\<lambda>s. sp_ride s = ride \<and> sp_seq s = q \<and> sp_status s = StopPending)
      in (map_option f (find hit (stops db)), db\<lparr>stops := map (\<lambda>s. if hit s then f s else s) (stops db)\<rparr>))"

definition markStopArrived :: "int \<Rightarrow> nat \<Rightarrow> int \<Rightarrow> stop_db \<Rightarrow> stop_row option \<times> stop_db" where
  "markStopArrived now ride q = stop_write ride q (\<lambda>s. s\<lparr>sp_arrived := Some (coalesce (sp_arrived s) now)\<rparr>)"

definition markStopUnreachable :: "int \<Rightarrow> nat \<Rightarrow> int \<Rightarrow> stop_db \<Rightarrow> stop_row option \<times> stop_db" where
  "markStopUnreachable now ride q = stop_write ride q (\<lambda>s. s\<lparr>sp_unreachable := Some (coalesce (sp_unreachable s) now)\<rparr>)"

text \<open>
  The wait is \<open>round(greatest(0, minutes - free) * rate, 0)\<close> in exact \<open>numeric\<close> arithmetic over milliseconds; a
  value that does not fit \<open>NUMERIC(8,2)\<close>, or is negative, fails the statement.
\<close>

definition wait_rupees :: "int \<Rightarrow> num \<Rightarrow> num \<Rightarrow> int" where
  "wait_rupees ms free rate = round_away (max 0 (of_int ms / 60000 - free) * rate)"

definition resolved :: "int \<Rightarrow> stop_status \<Rightarrow> num \<Rightarrow> num \<Rightarrow> stop_row \<Rightarrow> stop_row" where
  "resolved now st rate free s = s\<lparr>sp_status := st,
     sp_reached := (if st = StopReached then Some now else sp_reached s),
     sp_wait := (case sp_arrived s of Some a \<Rightarrow> if st = StopReached then 100 * wait_rupees (now - a) free rate else sp_wait s | None \<Rightarrow> sp_wait s)\<rparr>"

definition markStopStatus :: "int \<Rightarrow> nat \<Rightarrow> int \<Rightarrow> stop_status \<Rightarrow> num \<Rightarrow> num \<Rightarrow> stop_db \<Rightarrow> stop_row option res \<times> stop_db" where
  "markStopStatus now ride q st rate free db =
     (case stop_write ride q (resolved now st rate free) db of
        (None, _) \<Rightarrow> (Inr None, db)
      | (Some s, db') \<Rightarrow> if 0 \<le> sp_wait s \<and> numeric_fits 8 (sp_wait s) then (Inr (Some s), db') else (Inl db_error, db))"

text \<open>A forced completion skips what the driver never resolved.\<close>

definition skip_pending :: "nat \<Rightarrow> stop_db \<Rightarrow> stop_db" where
  "skip_pending ride db = db\<lparr>stops := map (\<lambda>x. if sp_ride x = ride \<and> sp_status x = StopPending then x\<lparr>sp_status := StopSkipped\<rparr> else x) (stops db)\<rparr>"

definition getStopWaitTotal :: "nat \<Rightarrow> stop_db \<Rightarrow> num" where
  "getStopWaitTotal ride db = from_paise (sum_list (map sp_wait (filter (\<lambda>s. sp_ride s = ride) (stops db))))"

definition getRideStopCharge :: "paise option \<Rightarrow> num" where
  "getRideStopCharge price = (let n = from_paise (coalesce price 0) in if 0 < n then n else 0)"

subsection \<open>Renumbering\<close>

text \<open>One row of an \<open>UPDATE\<close> of the sequence; the constraint is checked row by row.\<close>

definition set_seq :: "nat \<Rightarrow> nat \<Rightarrow> int \<Rightarrow> stop_row list res \<Rightarrow> stop_row list res" where
  "set_seq ride k q rs = bind_res rs (\<lambda>xs.
     if \<not> list_ex (\<lambda>s. sp_ride s = ride \<and> sp_id s = k) xs then Inr xs
     else if \<not> seq_fits q then Inl db_error
     else if list_ex (\<lambda>s. sp_ride s = ride \<and> sp_id s \<noteq> k \<and> sp_seq s = q) xs then Inl unique_violation
     else Inr (map (\<lambda>s. if sp_ride s = ride \<and> sp_id s = k then s\<lparr>sp_seq := q\<rparr> else s) xs))"

definition park :: "nat \<Rightarrow> nat list \<Rightarrow> stop_row list \<Rightarrow> stop_row list res" where
  "park ride ks xs = foldl (\<lambda>rs s. set_seq ride (sp_id s) (sp_seq s + 10000) rs) (Inr xs)
     (filter (\<lambda>s. sp_ride s = ride \<and> sp_id s \<in> set ks) xs)"

definition resequenceStops :: "nat \<Rightarrow> (nat \<times> int) list \<Rightarrow> stop_db \<Rightarrow> unit res \<times> stop_db" where
  "resequenceStops ride moves db =
     (case foldl (\<lambda>rs (k, q). set_seq ride k q rs) (park ride (map fst moves) (stops db)) moves of
        Inl e \<Rightarrow> (Inl e, db) | Inr xs \<Rightarrow> (Inr (), db\<lparr>stops := xs\<rparr>))"

subsection \<open>The visiting order\<close>

definition nearest :: "(pos \<Rightarrow> num option) \<Rightarrow> stop_row list \<Rightarrow> nat" where
  "nearest d rest = foldl (\<lambda>best i. if nan_lt (d (sp_pos (rest ! i))) (d (sp_pos (rest ! best))) then i else best) 0 [1..<length rest]"

lemma nearest_fold:
  assumes "b < n" "set is \<subseteq> {..<n}"
  shows "foldl (\<lambda>best i. if P i best then i else best) b is < (n :: nat)"
  using assms by (induction "is" arbitrary: b) auto

lemma nearest_bound: "rest \<noteq> [] \<Longrightarrow> nearest d rest < length rest"
  unfolding nearest_def by (rule nearest_fold) auto

text \<open>The \<open>while (rest.length)\<close> loop; every round takes one stop out of \<open>rest\<close>.\<close>

function walk :: "libm \<Rightarrow> pos \<Rightarrow> stop_row list \<Rightarrow> stop_row list" where
  "walk lm cur rest = (if rest = [] then []
     else let best = nearest (distanceMetres lm cur) rest
          in rest ! best # walk lm (sp_pos (rest ! best)) (take best rest @ drop (Suc best) rest))"
  by pat_completeness auto
termination
proof (relation "measure (\<lambda>(lm, cur, rest). length rest)")
  fix lm :: libm and cur :: pos and rest :: "stop_row list" and best
  assume "rest \<noteq> []" "best = nearest (distanceMetres lm cur) rest"
  then have "best < length rest" using nearest_bound by blast
  then show "((lm, sp_pos (rest ! best), take best rest @ drop (Suc best) rest), lm, cur, rest) \<in> measure (\<lambda>(lm, cur, rest). length rest)" by simp
qed simp

declare walk.simps [simp del]

definition visit_order :: "libm \<Rightarrow> stop_row list \<Rightarrow> pos \<Rightarrow> bool \<Rightarrow> stop_row list" where
  "visit_order lm pending origin lock =
     (let locked = (if lock then take 1 pending else [])
      in locked @ walk lm (case locked of [] \<Rightarrow> origin | s # _ \<Rightarrow> sp_pos s) (drop (length locked) pending))"

definition pending_in_order :: "stop_row list \<Rightarrow> stop_row list" where
  "pending_in_order xs = sort_key sp_seq (filter (\<lambda>s. sp_status s = StopPending) xs)"

definition planStopOrder :: "libm \<Rightarrow> stop_row list \<Rightarrow> pos \<Rightarrow> bool \<Rightarrow> (nat \<times> int) list" where
  "planStopOrder lm xs origin lock =
     (let pending = pending_in_order xs
      in if length pending - length (if lock then take 1 pending else []) < 2 then []
         else map (\<lambda>(s, q). (sp_id s, q)) (filter (\<lambda>(s, q). q \<noteq> sp_seq s) (zip (visit_order lm pending origin lock) (map sp_seq pending))))"

subsection \<open>The planned order\<close>

lemma mset_pick: "i < length xs \<Longrightarrow> add_mset (xs ! i) (mset (take i xs) + mset (drop (Suc i) xs)) = mset xs"
proof -
  assume "i < length xs"
  then have "mset xs = mset (take i xs @ xs ! i # drop (Suc i) xs)" using id_take_nth_drop [of i xs] by simp
  then show ?thesis by simp
qed

lemma nan_lt_trans: "nan_lt a b \<Longrightarrow> \<not> nan_lt c b \<Longrightarrow> \<not> nan_lt c a"
  by (auto simp: nan_lt_def split: option.splits)

lemma nan_lt_irrefl [simp]: "\<not> nan_lt a a"
  by (simp add: nan_lt_def split: option.split)

lemma nearest_least_fold:
  assumes "\<forall>j \<in> S. \<not> nan_lt (f j) (f b)"
  shows "\<forall>j \<in> S \<union> set is. \<not> nan_lt (f j) (f (foldl (\<lambda>best i. if nan_lt (f i) (f best) then i else best) b is))"
  using assms
proof (induction "is" arbitrary: b S)
  case (Cons i "is")
  let ?b = "if nan_lt (f i) (f b) then i else b"
  have "\<forall>j \<in> insert i S. \<not> nan_lt (f j) (f ?b)" using Cons.prems nan_lt_trans [of "f i" "f b"] by (cases "nan_lt (f i) (f b)") auto
  from Cons.IH [OF this] show ?case by simp
qed simp

text \<open>No remaining stop is strictly nearer than the chosen one.\<close>

lemma nearest_least:
  assumes "rest \<noteq> []" "s \<in> set rest"
  shows "\<not> nan_lt (d (sp_pos s)) (d (sp_pos (rest ! nearest d rest)))"
proof -
  obtain j where j: "j < length rest" "rest ! j = s" using assms(2) by (auto simp: in_set_conv_nth)
  then have "j \<in> {0} \<union> set [1..<length rest]" by auto
  then show ?thesis
    using nearest_least_fold [of "{0}" "\<lambda>i. d (sp_pos (rest ! i))" 0 "[1..<length rest]"] j(2)
    unfolding nearest_def by auto
qed

text \<open>Each stop of a list is a nearest one, seen from the stop before it, among those still to come.\<close>

fun greedy :: "libm \<Rightarrow> pos \<Rightarrow> stop_row list \<Rightarrow> bool" where
  "greedy lm cur [] = True"
| "greedy lm cur (s # xs) = (list_all (\<lambda>t. \<not> nan_lt (distanceMetres lm cur (sp_pos t)) (distanceMetres lm cur (sp_pos s))) xs \<and> greedy lm (sp_pos s) xs)"

lemma walk_mset: "mset (walk lm cur rest) = mset rest"
proof (induction lm cur rest rule: walk.induct)
  case (1 lm cur rest)
  show ?case
  proof (cases "rest = []")
    case False
    then have "nearest (distanceMetres lm cur) rest < length rest" by (rule nearest_bound)
    then show ?thesis using False 1 by (subst walk.simps) (simp add: Let_def mset_pick)
  qed (simp add: walk.simps)
qed

lemma walk_greedy: "greedy lm cur (walk lm cur rest)"
proof (induction lm cur rest rule: walk.induct)
  case (1 lm cur rest)
  show ?case
  proof (cases "rest = []")
    case False
    define b where "b = nearest (distanceMetres lm cur) rest"
    have b: "b < length rest" unfolding b_def using False by (rule nearest_bound)
    have w: "walk lm cur rest = rest ! b # walk lm (sp_pos (rest ! b)) (take b rest @ drop (Suc b) rest)"
      using False by (subst walk.simps) (simp add: Let_def b_def)
    have "set (walk lm (sp_pos (rest ! b)) (take b rest @ drop (Suc b) rest)) \<subseteq> set rest"
      using walk_mset [of lm "sp_pos (rest ! b)" "take b rest @ drop (Suc b) rest", THEN mset_eq_setD]
      by (auto dest: in_set_takeD in_set_dropD)
    then have "list_all (\<lambda>t. \<not> nan_lt (distanceMetres lm cur (sp_pos t)) (distanceMetres lm cur (sp_pos (rest ! b))))
        (walk lm (sp_pos (rest ! b)) (take b rest @ drop (Suc b) rest))"
      using nearest_least [OF False] by (auto simp: list_all_iff b_def)
    then show ?thesis using 1 [OF False b_def] by (simp add: w)
  qed (simp add: walk.simps)
qed

lemma visit_order_mset: "mset (visit_order lm pending origin lock) = mset pending"
  by (cases pending) (simp_all add: visit_order_def Let_def walk_mset)

lemma visit_order_length [simp]: "length (visit_order lm pending origin lock) = length pending"
  by (metis visit_order_mset size_mset)

subsection \<open>Renumbering row by row\<close>

text \<open>The rows of a ride with the sequences of \<open>f\<close> in place of their own.\<close>

definition renumbered :: "nat \<Rightarrow> (nat \<rightharpoonup> int) \<Rightarrow> stop_row \<Rightarrow> stop_row" where
  "renumbered ride f s = (if sp_ride s = ride then s\<lparr>sp_seq := coalesce (f (sp_id s)) (sp_seq s)\<rparr> else s)"

lemma renumbered_sel [simp]:
  "sp_id (renumbered ride f s) = sp_id s" "sp_ride (renumbered ride f s) = sp_ride s" "sp_status (renumbered ride f s) = sp_status s"
  "sp_pos (renumbered ride f s) = sp_pos s"
  "sp_seq (renumbered ride f s) = (if sp_ride s = ride then coalesce (f (sp_id s)) (sp_seq s) else sp_seq s)"
  by (simp_all add: renumbered_def)

lemma renumbered_empty [simp]: "renumbered ride Map.empty s = s"
  by (simp add: renumbered_def coalesce_def)

lemma set_seq_step:
  assumes "\<exists>s \<in> set xs. sp_ride s = ride \<and> sp_id s = k" "seq_fits q"
    and "\<And>s. s \<in> set xs \<Longrightarrow> sp_ride s = ride \<Longrightarrow> sp_id s \<noteq> k \<Longrightarrow> coalesce (f (sp_id s)) (sp_seq s) \<noteq> q"
  shows "set_seq ride k q (Inr (map (renumbered ride f) xs)) = Inr (map (renumbered ride (f(k \<mapsto> q))) xs)"
proof -
  have "(\<lambda>s. if sp_ride s = ride \<and> sp_id s = k then s\<lparr>sp_seq := q\<rparr> else s) \<circ> renumbered ride f = renumbered ride (f(k \<mapsto> q))"
    by (rule ext) (simp add: renumbered_def coalesce_def)
  then show ?thesis using assms by (fastforce simp: set_seq_def list_ex_iff)
qed

lemma set_seq_fold:
  assumes "distinct (map fst ups)" "distinct (map snd ups)"
    and "\<And>k q. (k, q) \<in> set ups \<Longrightarrow> seq_fits q \<and> (\<exists>s \<in> set xs. sp_ride s = ride \<and> sp_id s = k)
        \<and> (\<forall>s \<in> set xs. sp_ride s = ride \<longrightarrow> sp_id s \<noteq> k \<longrightarrow> coalesce (f (sp_id s)) (sp_seq s) \<noteq> q)"
  shows "foldl (\<lambda>rs (k, q). set_seq ride k q rs) (Inr (map (renumbered ride f) xs)) ups = Inr (map (renumbered ride (f ++ map_of ups)) xs)"
  using assms
proof (induction ups arbitrary: f)
  case (Cons u ups)
  obtain k q where u: "u = (k, q)" by force
  have step: "set_seq ride k q (Inr (map (renumbered ride f) xs)) = Inr (map (renumbered ride (f(k \<mapsto> q))) xs)"
    using Cons.prems(3) [of k q] u by (intro set_seq_step) auto
  have "foldl (\<lambda>rs (k, q). set_seq ride k q rs) (Inr (map (renumbered ride (f(k \<mapsto> q))) xs)) ups
      = Inr (map (renumbered ride (f(k \<mapsto> q) ++ map_of ups)) xs)"
  proof (rule Cons.IH)
    fix k' q' assume a: "(k', q') \<in> set ups"
    then have "q' \<noteq> q" using Cons.prems(2) u by (force simp: image_iff)
    then show "seq_fits q' \<and> (\<exists>s \<in> set xs. sp_ride s = ride \<and> sp_id s = k')
        \<and> (\<forall>s \<in> set xs. sp_ride s = ride \<longrightarrow> sp_id s \<noteq> k' \<longrightarrow> coalesce ((f(k \<mapsto> q)) (sp_id s)) (sp_seq s) \<noteq> q')"
      using Cons.prems(3) [of k' q'] a by (auto simp: coalesce_def)
  qed (use Cons.prems u in auto)
  moreover have "map_of ups k = None" using Cons.prems(1) u by (simp add: map_of_eq_None_iff)
  then have "f(k \<mapsto> q) ++ map_of ups = f ++ map_of ((k, q) # ups)"
    by (simp add: map_add_def fun_eq_iff split: option.split)
  ultimately show ?case unfolding u by (simp only: foldl.simps prod.case step)
qed simp

text \<open>The rows of a ride: identities and numbers are unique, and no number reaches the parking range.\<close>

definition stops_ok :: "stop_db \<Rightarrow> bool" where
  "stops_ok db \<longleftrightarrow> distinct (map sp_id (stops db)) \<and> distinct (map (\<lambda>s. (sp_ride s, sp_seq s)) (stops db))
     \<and> list_all (\<lambda>s. sp_id s < next_stop db \<and> seq_fits (sp_seq s)) (stops db)"

lemma stops_okD:
  assumes "stops_ok db" "s \<in> set (stops db)" "t \<in> set (stops db)"
  shows "sp_id s = sp_id t \<longleftrightarrow> s = t" "sp_ride s = sp_ride t \<Longrightarrow> sp_seq s = sp_seq t \<longleftrightarrow> s = t" "seq_fits (sp_seq s)" "sp_id s < next_stop db"
  using assms by (auto simp: stops_ok_def distinct_map inj_on_def list_all_iff)

lemma resequence_ok:
  assumes ok: "stops_ok db" and small: "\<And>s. s \<in> set (stops db) \<Longrightarrow> sp_ride s = ride \<Longrightarrow> sp_seq s < 10000"
    and d: "distinct (map fst moves)" "distinct (map snd moves)"
    and m: "\<And>k q. (k, q) \<in> set moves \<Longrightarrow> 0 < q \<and> q < 10000 \<and> (\<exists>s \<in> set (stops db). sp_ride s = ride \<and> sp_id s = k)
        \<and> (\<forall>s \<in> set (stops db). sp_ride s = ride \<longrightarrow> sp_id s \<notin> fst ` set moves \<longrightarrow> sp_seq s \<noteq> q)"
  shows "resequenceStops ride moves db = (Inr (), db\<lparr>stops := map (renumbered ride (map_of moves)) (stops db)\<rparr>)"
proof -
  let ?xs = "stops db"
  define rows where "rows = filter (\<lambda>s. sp_ride s = ride \<and> sp_id s \<in> set (map fst moves)) ?xs"
  define parked where "parked = map (\<lambda>s. (sp_id s, sp_seq s + 10000)) rows"
  have pk: "map_of parked (sp_id s) = (if sp_id s \<in> fst ` set moves then Some (sp_seq s + 10000) else None)"
    if "s \<in> set ?xs" "sp_ride s = ride" for s
  proof -
    have "distinct (map fst parked)" using ok by (auto simp: parked_def rows_def stops_ok_def comp_def distinct_map inj_on_def)
    then show ?thesis using that stops_okD(1) [OF ok that(1)]
      by (auto simp: parked_def rows_def image_iff map_of_eq_None_iff intro!: map_of_is_SomeI)
  qed
  have keep: "map (renumbered ride (\<lambda>x. None)) ys = ys" for ys by (induction ys) (simp_all add: renumbered_def coalesce_def)
  have eq: "foldl (\<lambda>rs s. set_seq ride (sp_id s) (sp_seq s + 10000) rs) z rs = foldl (\<lambda>rs (k, q). set_seq ride k q rs) z (map (\<lambda>s. (sp_id s, sp_seq s + 10000)) rs)" for z rs
    by (induction rs arbitrary: z) simp_all
  have "distinct (map fst parked)" "distinct (map snd parked)"
    using ok by (auto simp: parked_def rows_def stops_ok_def comp_def distinct_map inj_on_def)
  then have "foldl (\<lambda>rs (k, q). set_seq ride k q rs) (Inr (map (renumbered ride Map.empty) ?xs)) parked = Inr (map (renumbered ride (Map.empty ++ map_of parked)) ?xs)"
  proof (rule set_seq_fold)
    fix k q assume "(k, q) \<in> set parked"
    then obtain t where t: "t \<in> set ?xs" "sp_ride t = ride" "k = sp_id t" "q = sp_seq t + 10000" by (auto simp: parked_def rows_def)
    have "sp_seq s \<noteq> q" if "s \<in> set ?xs" "sp_ride s = ride" for s
      using small [OF that] stops_okD(3) [OF ok t(1) t(1)] t(4) by (auto simp: seq_fits_def)
    then show "seq_fits q \<and> (\<exists>s \<in> set ?xs. sp_ride s = ride \<and> sp_id s = k)
        \<and> (\<forall>s \<in> set ?xs. sp_ride s = ride \<longrightarrow> sp_id s \<noteq> k \<longrightarrow> coalesce (Map.empty (sp_id s)) (sp_seq s) \<noteq> q)"
      using t small [OF t(1,2)] stops_okD(3) [OF ok t(1) t(1)] by (auto simp: seq_fits_def coalesce_def)
  qed
  then have p1: "park ride (map fst moves) ?xs = Inr (map (renumbered ride (map_of parked)) ?xs)"
    unfolding park_def rows_def [symmetric] eq parked_def [symmetric] by (simp add: keep)
  have "foldl (\<lambda>rs (k, q). set_seq ride k q rs) (Inr (map (renumbered ride (map_of parked)) ?xs)) moves
      = Inr (map (renumbered ride (map_of parked ++ map_of moves)) ?xs)"
  proof (rule set_seq_fold [OF d])
    fix k q assume a: "(k, q) \<in> set moves"
    have "coalesce (map_of parked (sp_id s)) (sp_seq s) \<noteq> q" if "s \<in> set ?xs" "sp_ride s = ride" for s
      using m [OF a] that stops_okD(3) [OF ok that(1) that(1)] by (auto simp: pk [OF that] coalesce_def seq_fits_def)
    then show "seq_fits q \<and> (\<exists>s \<in> set ?xs. sp_ride s = ride \<and> sp_id s = k)
        \<and> (\<forall>s \<in> set ?xs. sp_ride s = ride \<longrightarrow> sp_id s \<noteq> k \<longrightarrow> coalesce (map_of parked (sp_id s)) (sp_seq s) \<noteq> q)"
      using m [OF a] by (auto simp: seq_fits_def)
  qed
  moreover have "renumbered ride (map_of parked ++ map_of moves) s = renumbered ride (map_of moves) s" if "s \<in> set ?xs" for s
    using pk [OF that] map_of_eq_None_iff [of moves "sp_id s"] by (auto simp: renumbered_def map_add_def split: option.split)
  ultimately show ?thesis by (simp add: resequenceStops_def p1 cong: map_cong)
qed

subsection \<open>The plan is applied\<close>

lemma rows_of_ride: "set (getRideStops ride db) = {s \<in> set (stops db). sp_ride s = ride}"
  by (auto simp: getRideStops_def)

lemma pending_rows: "set (pending_in_order (getRideStops ride db)) = {s \<in> set (stops db). sp_ride s = ride \<and> sp_status s = StopPending}"
  by (auto simp: pending_in_order_def rows_of_ride)

lemma pending_distinct:
  assumes "stops_ok db"
  shows "distinct (map sp_id (pending_in_order (getRideStops ride db)))" "distinct (map sp_seq (pending_in_order (getRideStops ride db)))"
proof -
  have "distinct (pending_in_order (getRideStops ride db))"
    using assms by (simp add: pending_in_order_def getRideStops_def stops_ok_def distinct_map)
  then show "distinct (map sp_id (pending_in_order (getRideStops ride db)))" "distinct (map sp_seq (pending_in_order (getRideStops ride db)))"
    using stops_okD(1,2) [OF assms] by (auto simp: distinct_map inj_on_def pending_rows)
qed

text \<open>A list of moves that gives the rows of \<open>order\<close> the numbers \<open>qs\<close>, leaving out those that have theirs already.\<close>

lemma moves_distinct:
  "distinct (map sp_id order) \<Longrightarrow> distinct (map fst (map (\<lambda>(s, q). (sp_id s, q)) (filter (\<lambda>(s, q). q \<noteq> sp_seq s) (zip order qs))))"
  "distinct qs \<Longrightarrow> distinct (map snd (map (\<lambda>(s, q). (sp_id s, q)) (filter (\<lambda>(s, q). q \<noteq> sp_seq s) (zip order qs))))"
  by (induction order qs rule: list_induct2') (auto dest: set_zip_leftD set_zip_rightD)

lemma moves_lookup:
  assumes "distinct (map sp_id order)" "length qs = length order" "i < length order"
  shows "map_of (map (\<lambda>(s, q). (sp_id s, q)) (filter (\<lambda>(s, q). q \<noteq> sp_seq s) (zip order qs))) (sp_id (order ! i))
    = (if qs ! i = sp_seq (order ! i) then None else Some (qs ! i))"
proof -
  let ?ms = "map (\<lambda>(s, q). (sp_id s, q)) (filter (\<lambda>(s, q). q \<noteq> sp_seq s) (zip order qs))"
  have same: "j = i" if "j < length order" "sp_id (order ! j) = sp_id (order ! i)" for j
    using assms that nth_eq_iff_index_eq [OF assms(1), of j i] by simp
  have d: "distinct (map fst ?ms)"
    by (rule moves_distinct(1) [OF assms(1)])
  show ?thesis
  proof (cases "qs ! i = sp_seq (order ! i)")
    case True
    have "sp_id (order ! i) \<notin> fst ` set ?ms"
    proof
      assume "sp_id (order ! i) \<in> fst ` set ?ms"
      then obtain j where "j < length order" "sp_id (order ! j) = sp_id (order ! i)" "qs ! j \<noteq> sp_seq (order ! j)"
        using assms(2) by (auto simp: set_zip)
      then show False using same True by metis
    qed
    then show ?thesis using True by (simp add: map_of_eq_None_iff)
  next
    case False
    have "(sp_id (order ! i), qs ! i) \<in> set ?ms"
      using False assms(2,3) by (force simp: set_zip image_iff)
    then show ?thesis using False d by simp
  qed
qed

lemma plan_applies:
  assumes ok: "stops_ok db" and small: "\<And>s. s \<in> set (stops db) \<Longrightarrow> sp_ride s = ride \<Longrightarrow> sp_seq s < 10000"
  defines "pending \<equiv> pending_in_order (getRideStops ride db)"
  assumes perm: "mset order = mset pending"
  defines "moves \<equiv> map (\<lambda>(s, q). (sp_id s, q)) (filter (\<lambda>(s, q). q \<noteq> sp_seq s) (zip order (map sp_seq pending)))"
  shows "resequenceStops ride moves db = (Inr (), db\<lparr>stops := map (renumbered ride (map_of moves)) (stops db)\<rparr>)"
    and "i < length order \<Longrightarrow> sp_seq (renumbered ride (map_of moves) (order ! i)) = sp_seq (pending ! i)"
    and "s \<in> set (stops db) \<Longrightarrow> sp_status s \<noteq> StopPending \<or> sp_ride s \<noteq> ride \<Longrightarrow> renumbered ride (map_of moves) s = s"
proof -
  have len: "length order = length pending" by (metis perm size_mset)
  have set_eq: "set order = set pending" by (metis perm set_mset_mset)
  have dp: "distinct (map sp_id pending)" "distinct (map sp_seq pending)" unfolding pending_def using pending_distinct [OF ok] by auto
  have "distinct (map sp_id order)" by (metis dp(1) perm mset_map mset_eq_imp_distinct_iff)
  note look = moves_lookup [OF this, of "map sp_seq pending", folded moves_def]
  have ord: "order ! j \<in> set (stops db)" "sp_ride (order ! j) = ride" "sp_status (order ! j) = StopPending" if "j < length order" for j
    using nth_mem [OF that] set_eq unfolding pending_def by (auto simp: pending_rows)
  have pend: "pending ! j \<in> set (stops db)" "sp_ride (pending ! j) = ride" "sp_status (pending ! j) = StopPending" if "j < length pending" for j
    using nth_mem [OF that] unfolding pending_def by (auto simp: pending_rows)
  have mem: "\<exists>j < length order. k = sp_id (order ! j) \<and> q = sp_seq (pending ! j) \<and> sp_seq (pending ! j) \<noteq> sp_seq (order ! j)"
    if "(k, q) \<in> set moves" for k q
    using that len by (auto simp: moves_def set_zip)
  show "sp_seq (renumbered ride (map_of moves) (order ! i)) = sp_seq (pending ! i)" if "i < length order"
    using look [of i] that len ord(2) [OF that] by (simp add: coalesce_def)
  show "renumbered ride (map_of moves) s = s" if "s \<in> set (stops db)" "sp_status s \<noteq> StopPending \<or> sp_ride s \<noteq> ride"
  proof (cases "sp_ride s = ride")
    case True
    have "sp_id s \<noteq> k" if "(k, q) \<in> set moves" for k q
      using mem [OF that] ord stops_okD(1) [OF ok \<open>s \<in> set (stops db)\<close>] \<open>sp_status s \<noteq> StopPending \<or> sp_ride s \<noteq> ride\<close> True by metis
    then have "map_of moves (sp_id s) = None" by (force simp: map_of_eq_None_iff)
    then show ?thesis by (simp add: renumbered_def coalesce_def)
  qed (simp add: renumbered_def)
  show "resequenceStops ride moves db = (Inr (), db\<lparr>stops := map (renumbered ride (map_of moves)) (stops db)\<rparr>)"
  proof (rule resequence_ok [OF ok small])
    show "distinct (map fst moves)" "distinct (map snd moves)"
      unfolding moves_def by (intro moves_distinct \<open>distinct (map sp_id order)\<close> dp(2))+
    fix k q assume a: "(k, q) \<in> set moves"
    obtain j where j: "j < length order" "k = sp_id (order ! j)" "q = sp_seq (pending ! j)" "sp_seq (pending ! j) \<noteq> sp_seq (order ! j)"
      using mem [OF a] by blast
    have "sp_seq s \<noteq> q" if s: "s \<in> set (stops db)" "sp_ride s = ride" "sp_id s \<notin> fst ` set moves" for s
    proof
      assume "sp_seq s = q"
      then have "s = pending ! j" using j len pend [of j] s stops_okD(2) [OF ok s(1), of "pending ! j"] by simp
      then have "s \<in> set order" using j(1) len set_eq by simp
      then obtain i where i: "i < length order" "order ! i = s" by (auto simp: in_set_conv_nth)
      then have "map_of moves (sp_id s) = None" using s(3) by (simp add: map_of_eq_None_iff)
      then have "sp_seq (pending ! i) = sp_seq (pending ! j)" using look [of i] i len \<open>s = pending ! j\<close> by (auto split: if_splits)
      then have "i = j" using dp(2) i(1) j(1) len by (simp add: distinct_conv_nth) metis
      then show False using j(4) i(2) \<open>s = pending ! j\<close> by simp
    qed
    moreover have "0 < q \<and> q < 10000" using j len pend [of j] small stops_okD(3) [OF ok] by (auto simp: seq_fits_def)
    ultimately show "0 < q \<and> q < 10000 \<and> (\<exists>s \<in> set (stops db). sp_ride s = ride \<and> sp_id s = k)
        \<and> (\<forall>s \<in> set (stops db). sp_ride s = ride \<longrightarrow> sp_id s \<notin> fst ` set moves \<longrightarrow> sp_seq s \<noteq> q)"
      using ord [OF j(1)] j(2) by blast
  qed
qed

text \<open>
  C13. The planned order visits the pending stops nearest first from the current position (or the locked stop), and the two-phase
  renumbering always goes through: the pending stops come out in exactly that order over the same
  numbers, a locked stop stays first, and resolved stops and other rides keep their rows.
\<close>

theorem stops_visited_nearest_first:
  assumes ok: "stops_ok db" and small: "\<forall>s \<in> set (stops db). sp_ride s = ride \<longrightarrow> sp_seq s < 10000"
    and pend: "pending = pending_in_order (getRideStops ride db)" and ord: "order = visit_order lm pending origin lock"
  shows "\<exists>f. resequenceStops ride (planStopOrder lm (getRideStops ride db) origin lock) db = (Inr (), db\<lparr>stops := map f (stops db)\<rparr>)
    \<and> pending_in_order (getRideStops ride (db\<lparr>stops := map f (stops db)\<rparr>)) = map f order
    \<and> map sp_seq (map f order) = map sp_seq pending \<and> map sp_id (map f order) = map sp_id order
    \<and> mset order = mset pending
    \<and> (if lock \<and> pending \<noteq> [] then hd order = hd pending \<and> greedy lm (sp_pos (hd pending)) (tl order) else greedy lm origin order)
    \<and> (\<forall>s \<in> set (stops db). sp_status s \<noteq> StopPending \<or> sp_ride s \<noteq> ride \<longrightarrow> f s = s)"
proof -
  define moves where "moves = map (\<lambda>(s, q). (sp_id s, q)) (filter (\<lambda>(s, q). q \<noteq> sp_seq s) (zip order (map sp_seq pending)))"
  define f where "f = renumbered ride (map_of moves)"
  have perm: "mset order = mset pending" by (simp add: ord visit_order_mset)
  have len: "length order = length pending" by (metis perm size_mset)
  have small': "\<And>s. s \<in> set (stops db) \<Longrightarrow> sp_ride s = ride \<Longrightarrow> sp_seq s < 10000" using small by blast
  note all = plan_applies [OF ok small' perm [unfolded pend], folded pend, folded moves_def, folded f_def]
  have seqs: "map sp_seq (map f order) = map sp_seq pending" using all(2) len by (intro nth_equalityI) (simp_all del: renumbered_sel)
  have plan: "planStopOrder lm (getRideStops ride db) origin lock = moves"
  proof (cases "length pending - length (if lock then take 1 pending else []) < 2")
    case True
    then have "length (drop (length (if lock then take 1 pending else [])) pending) < 2" by simp
    then have w: "walk lm c (drop (length (if lock then take 1 pending else [])) pending) = drop (length (if lock then take 1 pending else [])) pending" for c
      by (cases "drop (length (if lock then take 1 pending else [])) pending"; cases "tl (drop (length (if lock then take 1 pending else [])) pending)")
        (auto simp: walk.simps nearest_def)
    have "order = pending" using w [of origin] w [of "sp_pos (hd pending)"] by (cases pending) (auto simp: ord visit_order_def Let_def)
    then have "moves = []" by (auto simp: moves_def filter_empty_conv set_zip)
    then show ?thesis unfolding planStopOrder_def Let_def pend [symmetric] by (simp only: True if_True)
  qed (simp add: planStopOrder_def Let_def pend [symmetric] moves_def ord)
  have f: "sp_id (f s) = sp_id s" "sp_ride (f s) = sp_ride s" "sp_status (f s) = sp_status s" for s by (simp_all add: f_def)
  let ?P = "\<lambda>s. sp_ride s = ride \<and> sp_status s = StopPending"
  have view: "pending_in_order (getRideStops ride d) = sort_key sp_seq (filter ?P (sort_key sp_seq (stops d)))" for d
    by (simp add: pending_in_order_def getRideStops_def filter_sort conj_commute)
  have again: "pending_in_order (getRideStops ride (db\<lparr>stops := map f (stops db)\<rparr>)) = map f order"
    unfolding view
  proof (rule sort_key_inj_key_eq)
    have "mset pending = mset (filter ?P (stops db))" by (simp add: pend view)
    then have "mset (map f order) = mset (map f (filter ?P (stops db)))" using perm by simp
    also have "map f (filter ?P (stops db)) = filter ?P (map f (stops db))" by (simp add: filter_map comp_def f)
    finally show m: "mset (filter ?P (sort_key sp_seq (stops (db\<lparr>stops := map f (stops db)\<rparr>)))) = mset (map f order)" by simp
    have "distinct (map sp_seq (map f order))" using pending_distinct(2) [OF ok, of ride] by (simp only: seqs pend)
    then show "inj_on sp_seq (set (filter ?P (sort_key sp_seq (stops (db\<lparr>stops := map f (stops db)\<rparr>)))))"
      by (simp only: mset_eq_setD [OF m] distinct_map)
    show "sorted (map sp_seq (map f order))" unfolding seqs by (simp add: pend pending_in_order_def)
  qed
  have gr: "if lock \<and> pending \<noteq> [] then hd order = hd pending \<and> greedy lm (sp_pos (hd pending)) (tl order) else greedy lm origin order"
    by (cases pending) (auto simp: ord visit_order_def Let_def walk_greedy)
  show ?thesis
    using all(1,3) again seqs perm gr unfolding plan by (intro exI [of _ f]) (auto simp: f comp_def)
qed

definition demo_stop :: "nat \<Rightarrow> int \<Rightarrow> num \<Rightarrow> stop_row" where
  "demo_stop k q x = \<lparr>sp_id = k, sp_ride = 4, sp_seq = q, sp_pos = (x, 85), sp_address = None, sp_status = StopPending, sp_arrived = None,
     sp_reached = None, sp_charge = 0, sp_wait = 0, sp_unreachable = None\<rparr>"

definition demo_stops :: stop_db where
  "demo_stops = \<lparr>stops = [demo_stop 0 1 22, demo_stop 1 2 21, (demo_stop 2 3 20)\<lparr>sp_ride := 5\<rparr>, demo_stop 3 3 23], next_stop = 4\<rparr>"

text \<open>A stand-in for the platform's functions: the squared angle instead of the distance, which orders points on a meridian alike.\<close>

definition demo_libm :: libm where
  "demo_libm = \<lparr>lm_sin = (\<lambda>x. x), lm_cos = (\<lambda>_. 1), lm_square = (\<lambda>x. x * x), lm_sqrt = (\<lambda>x. x), lm_asin = Some\<rparr>"

lemma demo_stops_ok: "stops_ok demo_stops"
  by (simp add: stops_ok_def demo_stops_def demo_stop_def seq_fits_def)

lemma stops_visited_nearest_first_witness:
  "\<exists>f. resequenceStops 4 (planStopOrder demo_libm (getRideStops 4 demo_stops) (20, 85) False) demo_stops = (Inr (), demo_stops\<lparr>stops := map f (stops demo_stops)\<rparr>)
     \<and> map sp_seq (pending_in_order (getRideStops 4 (demo_stops\<lparr>stops := map f (stops demo_stops)\<rparr>))) = [1, 2, 3] \<and> f ((demo_stop 2 3 20)\<lparr>sp_ride := 5\<rparr>) = (demo_stop 2 3 20)\<lparr>sp_ride := 5\<rparr>"
proof -
  have small: "\<forall>s \<in> set (stops demo_stops). sp_ride s = 4 \<longrightarrow> sp_seq s < 10000" by (simp add: demo_stops_def demo_stop_def)
  have p: "map sp_seq (pending_in_order (getRideStops 4 demo_stops)) = [1, 2, 3]"
    by (simp add: pending_in_order_def getRideStops_def demo_stops_def demo_stop_def)
  have m: "(demo_stop 2 3 20)\<lparr>sp_ride := 5\<rparr> \<in> set (stops demo_stops)" by (simp add: demo_stops_def)
  show ?thesis
    using stops_visited_nearest_first [OF demo_stops_ok small refl refl, of demo_libm "(20, 85)" False] p m by fastforce
qed

subsection \<open>The handlers\<close>

text \<open>
  A handler reads the ride (\<open>rr\<close>, as it was then) and writes the stops as they are when the statement runs. Notifications
  and socket events are left out.
\<close>

definition assertRideStopAccess :: "nat \<Rightarrow> ride_row option \<Rightarrow> ride_row res" where
  "assertRideStopAccess driver rr = (case rr of None \<Rightarrow> Inl (http_err 404 '''')
     | Some r \<Rightarrow>
         bind_res (guard_err (rr_driver r \<noteq> Some driver) (http_err 403 '''')) (\<lambda>_.
         bind_res (guard_err (rr_status r \<noteq> InProgress \<and> rr_status r \<noteq> Returning) (http_err 409 '''')) (\<lambda>_. Inr r)))"

definition stop_or_409 :: "stop_row option \<Rightarrow> stop_row res" where
  "stop_or_409 x = (case x of None \<Rightarrow> Inl (http_err 409 '''') | Some s \<Rightarrow> Inr s)"

definition driverArrivedAtStop :: "int \<Rightarrow> nat \<Rightarrow> ride_row option \<Rightarrow> nat \<Rightarrow> int \<Rightarrow> stop_db \<Rightarrow> stop_row res \<times> stop_db" where
  "driverArrivedAtStop now driver rr ride q db = (case assertRideStopAccess driver rr of Inl e \<Rightarrow> (Inl e, db)
     | Inr _ \<Rightarrow> (case markStopArrived now ride q db of (x, db') \<Rightarrow> (stop_or_409 x, db')))"

definition STOP_FREE_WAIT_MINUTES :: num where "STOP_FREE_WAIT_MINUTES = 10"

definition driverResolvesStop :: "int \<Rightarrow> nat \<Rightarrow> ride_row option \<Rightarrow> num \<Rightarrow> nat \<Rightarrow> int \<Rightarrow> stop_status \<Rightarrow> stop_db \<Rightarrow> stop_row res \<times> stop_db" where
  "driverResolvesStop now driver rr ratePerMin ride q st db = (case assertRideStopAccess driver rr of Inl e \<Rightarrow> (Inl e, db)
     | Inr r \<Rightarrow>
         let metered = (st = StopReached \<and> rr_type r = one_way)
         in (case markStopStatus now ride q st (if metered then ratePerMin else 0) (if metered then STOP_FREE_WAIT_MINUTES else 0) db of
               (Inl e, db') \<Rightarrow> (Inl e, db') | (Inr x, db') \<Rightarrow> (stop_or_409 x, db')))"

text \<open>Also: is the rider to be notified (only the first report)?\<close>

definition reportStopUnreachable :: "int \<Rightarrow> nat \<Rightarrow> ride_row option \<Rightarrow> nat \<Rightarrow> int \<Rightarrow> stop_db \<Rightarrow> (stop_row \<times> bool) res \<times> stop_db" where
  "reportStopUnreachable now driver rr ride q db = (case assertRideStopAccess driver rr of Inl e \<Rightarrow> (Inl e, db)
     | Inr _ \<Rightarrow>
         let before = find (\<lambda>s. sp_seq s = q) (getRideStops ride db)
         in (case markStopUnreachable now ride q db of
               (None, db') \<Rightarrow> (Inl (http_err 409 ''''), db')
             | (Some s, db') \<Rightarrow> (Inr (s, Option.bind before sp_unreachable = None), db')))"

definition stop_addable :: "ride_status \<Rightarrow> bool" where
  "stop_addable st \<longleftrightarrow> st \<in> set [Accepted, DriverArrived, InProgress, Returning]"

definition rider_stop_access :: "nat \<Rightarrow> ride_row option \<Rightarrow> ride_row res" where
  "rider_stop_access user rr = (case rr of None \<Rightarrow> Inl (http_err 404 '''')
     | Some r \<Rightarrow>
         bind_res (guard_err (rr_user r \<noteq> user) (http_err 403 '''')) (\<lambda>_.
         bind_res (guard_err (\<not> stop_addable (rr_status r)) (http_err 409 '''')) (\<lambda>_.
         bind_res (guard_err (rr_drop r \<noteq> None) (http_err 409 ''DROP_ALREADY_REACHED'')) (\<lambda>_. Inr r))))"

definition skipRideStop :: "int \<Rightarrow> nat \<Rightarrow> ride_row option \<Rightarrow> nat \<Rightarrow> int \<Rightarrow> stop_db \<Rightarrow> stop_row res \<times> stop_db" where
  "skipRideStop now user rr ride q db = (case rider_stop_access user rr of Inl e \<Rightarrow> (Inl e, db)
     | Inr _ \<Rightarrow> (case markStopStatus now ride q StopSkipped 0 0 db of (Inl e, db') \<Rightarrow> (Inl e, db') | (Inr x, db') \<Rightarrow> (stop_or_409 x, db')))"

subsection \<open>Adding a stop to a booked ride\<close>

definition MAX_STOPS_PER_RIDE :: nat where "MAX_STOPS_PER_RIDE = 3"
definition STOP_DUPLICATE_RADIUS_METRES :: num where "STOP_DUPLICATE_RADIUS_METRES = 100"

record stop_request =
  sq_lat :: js_input
  sq_lng :: js_input
  sq_address :: "string option"

definition stop_location :: "stop_request \<Rightarrow> pos res" where
  "stop_location x = (case (sq_lat x, sq_lng x) of
      (Fin a, Fin b) \<Rightarrow> if 90 < \<bar>a\<bar> \<or> 180 < \<bar>b\<bar> then Inl (http_err 400 ''INVALID_STOP_LOCATION'') else Inr (a, b)
    | _ \<Rightarrow> Inl (http_err 400 ''INVALID_STOP_LOCATION''))"

definition off_route :: "libm \<Rightarrow> pos \<Rightarrow> pos option \<Rightarrow> pos \<Rightarrow> bool" where
  "off_route lm a dest p = (case dest of None \<Rightarrow> False
     | Some b \<Rightarrow> (case (distanceMetres lm a b, distanceMetres lm a p, distanceMetres lm p b) of
         (Some direct, Some x, Some y) \<Rightarrow> fadd (fmul direct (fl (3 / 2))) 20000 < fadd x y | _ \<Rightarrow> False))"

definition too_close :: "libm \<Rightarrow> pos \<Rightarrow> pos list \<Rightarrow> bool" where
  "too_close lm p others \<longleftrightarrow> list_ex (\<lambda>x. nan_lt (distanceMetres lm p x) (Some STOP_DUPLICATE_RADIUS_METRES)) others"

definition add_stop_checks :: "libm \<Rightarrow> nat \<Rightarrow> ride_row option \<Rightarrow> stop_row list \<Rightarrow> stop_request \<Rightarrow> (ride_row \<times> pos) res" where
  "add_stop_checks lm user rr seen x =
     bind_res (rider_stop_access user rr) (\<lambda>r.
     bind_res (stop_location x) (\<lambda>p.
     bind_res (guard_err (MAX_STOPS_PER_RIDE < length seen + 1) (http_err 422 '''')) (\<lambda>_.
     bind_res (guard_err (off_route lm (rr_origin r) (rr_dest r) p) (http_err 422 ''STOP_TOO_FAR_FROM_ROUTE'')) (\<lambda>_.
     bind_res (guard_err (too_close lm p (rr_origin r # (case rr_dest r of None \<Rightarrow> [] | Some d \<Rightarrow> [d]) @ map sp_pos seen)) (http_err 422 '''')) (\<lambda>_.
     Inr (r, p))))))"

text \<open>Up to three attempts; \<open>vis n\<close> is what the snapshot of the attempt with \<open>n\<close> left shows of the table.\<close>

fun append_attempts :: "nat \<Rightarrow> (nat \<Rightarrow> stop_row list \<Rightarrow> stop_row list) \<Rightarrow> nat \<Rightarrow> stop_input \<Rightarrow> stop_db \<Rightarrow> stop_row res \<times> stop_db" where
  "append_attempts 0 vis ride x db = (Inl unique_violation, db)"
| "append_attempts (Suc n) vis ride x db = (case appendRideStop (vis n (stops db)) ride x db of
      (Inr s, db') \<Rightarrow> (Inr s, db')
    | (Inl e, db') \<Rightarrow> if e = unique_violation \<and> 0 < n then append_attempts n vis ride x db' else (Inl e, db'))"

text \<open>The fare of the snapshot: both columns are \<open>NUMERIC(10,2)\<close>; the count of stops is not modelled.\<close>

definition add_stop_fare :: "nat \<Rightarrow> num \<Rightarrow> bool \<Rightarrow> offer_db \<Rightarrow> unit res \<times> offer_db" where
  "add_stop_fare ride charge oneway db = (case snapshots db ride of None \<Rightarrow> (Inr (), db)
     | Some f \<Rightarrow>
         let f' = f\<lparr>fs_stop := fs_stop f + to_paise charge, fs_estimated := fs_estimated f + (if oneway then to_paise charge else 0)\<rparr>
         in if numeric_fits 10 (fs_stop f') \<and> numeric_fits 10 (fs_estimated f') then (Inr (), db\<lparr>snapshots := (snapshots db)(ride \<mapsto> f')\<rparr>)
            else (Inl db_error, db))"

text \<open>A failed renumbering keeps the insertion order; the answer is the added stop as it stands at the end.\<close>

definition reorder_stops :: "libm \<Rightarrow> nat \<Rightarrow> ride_row \<Rightarrow> stop_db \<Rightarrow> stop_db" where
  "reorder_stops lm ride r db =
     (let moves = planStopOrder lm (getRideStops ride db) (rr_origin r) (rr_status r = InProgress \<or> rr_status r = Returning)
      in if moves = [] then db else snd (resequenceStops ride moves db))"

definition addRideStop :: "libm \<Rightarrow> num option \<Rightarrow> nat \<Rightarrow> ride_row option \<Rightarrow> stop_row list \<Rightarrow> paise option \<Rightarrow> (nat \<Rightarrow> stop_row list \<Rightarrow> stop_row list)
    \<Rightarrow> nat \<Rightarrow> stop_request \<Rightarrow> offer_db \<times> stop_db \<Rightarrow> stop_row res \<times> offer_db \<times> stop_db" where
  "addRideStop lm maxPct user rr seen price vis ride x = (\<lambda>(off, db).
     case add_stop_checks lm user rr seen x of Inl e \<Rightarrow> (Inl e, off, db)
     | Inr (r, p) \<Rightarrow>
         let charge = getRideStopCharge price in
         (case append_attempts 3 vis ride \<lparr>sn_pos = p, sn_address = sq_address x, sn_charge = charge\<rparr> db of
            (Inl e, db1) \<Rightarrow> (Inl e, off, db1)
          | (Inr s, db1) \<Rightarrow>
              (case (if 0 < charge then add_stop_fare ride charge (rr_type r = one_way) off else (Inr (), off)) of
                 (Inl e, off1) \<Rightarrow> (Inl e, off1, db1)
               | (Inr _, off1) \<Rightarrow>
                   let off2 = (if 0 < charge then snd (finaliseDiscount maxPct ride off1) else off1);
                       db2 = reorder_stops lm ride r db1
                   in (Inr (coalesce (find (\<lambda>t. sp_id t = sp_id s) (getRideStops ride db2)) s), off2, db2))))"

subsection \<open>What every interleaving keeps\<close>

text \<open>
  The steps of the table: every statement, on any snapshot, rate, time or (stale) list of moves.
\<close>

inductive stop_step :: "stop_db \<Rightarrow> stop_db \<Rightarrow> bool" where
  booked: "stop_step db (snd (insertRideStops ride xs db))"
| appended: "stop_step db (snd (appendRideStop seen ride x db))"
| arrived: "stop_step db (snd (markStopArrived now ride q db))"
| unreachable: "stop_step db (snd (markStopUnreachable now ride q db))"
| resolved: "st = StopReached \<or> st = StopSkipped \<Longrightarrow> stop_step db (snd (markStopStatus now ride q st rate free db))"
| resequenced: "stop_step db (snd (resequenceStops ride moves db))"
| skipped: "stop_step db (skip_pending ride db)"

definition stop_row_ok :: "stop_row \<Rightarrow> bool" where
  "stop_row_ok s \<longleftrightarrow> (sp_reached s \<noteq> None \<longleftrightarrow> sp_status s = StopReached) \<and> 0 \<le> sp_wait s
     \<and> (sp_wait s \<noteq> 0 \<longrightarrow> sp_status s = StopReached \<and> sp_arrived s \<noteq> None)"

definition stop_kept :: "stop_row \<Rightarrow> stop_row \<Rightarrow> bool" where
  "stop_kept s t \<longleftrightarrow> (sp_id t, sp_ride t, sp_pos t, sp_address t, sp_charge t) = (sp_id s, sp_ride s, sp_pos s, sp_address s, sp_charge s)
     \<and> (sp_arrived s \<noteq> None \<longrightarrow> sp_arrived t = sp_arrived s) \<and> (sp_unreachable s \<noteq> None \<longrightarrow> sp_unreachable t = sp_unreachable s)
     \<and> (sp_status s \<noteq> StopPending \<longrightarrow> (sp_status t, sp_arrived t, sp_reached t, sp_wait t, sp_unreachable t) = (sp_status s, sp_arrived s, sp_reached s, sp_wait s, sp_unreachable s))"

definition stop_good :: "stop_db \<Rightarrow> stop_db \<Rightarrow> bool" where
  "stop_good db db' \<longleftrightarrow> (stops_ok db \<and> list_all stop_row_ok (stops db) \<longrightarrow> stops_ok db' \<and> list_all stop_row_ok (stops db'))
     \<and> list_all2 stop_kept (stops db) (take (length (stops db)) (stops db')) \<and> length (stops db) \<le> length (stops db')"

lemma stop_kept_refl [simp]: "stop_kept s s"
  by (simp add: stop_kept_def)

lemma stop_kept_trans: "stop_kept a b \<Longrightarrow> stop_kept b c \<Longrightarrow> stop_kept a c"
  by (cases "sp_status a = StopPending") (auto simp: stop_kept_def)

lemma stop_good_refl [simp]: "stop_good db db"
  by (simp add: stop_good_def list.rel_refl)

lemma stop_good_trans:
  assumes "stop_good a b" "stop_good b c"
  shows "stop_good a c"
proof -
  let ?n = "length (stops a)"
  have "list_all2 stop_kept (take ?n (stops b)) (take ?n (stops c))"
    using assms list_all2_takeI [of stop_kept "stops b" "take (length (stops b)) (stops c)" ?n] by (simp add: stop_good_def min_def)
  then have "list_all2 stop_kept (stops a) (take ?n (stops c))"
    using assms(1) list_all2_trans [of stop_kept stop_kept stop_kept] stop_kept_trans unfolding stop_good_def by blast
  then show ?thesis using assms by (auto simp: stop_good_def)
qed

text \<open>Changing rows in place.\<close>

lemma stop_map_good:
  assumes "\<And>s. stop_kept s (f s)" "\<And>s. sp_seq (f s) = sp_seq s" "\<And>s. s \<in> set (stops db) \<Longrightarrow> stop_row_ok s \<Longrightarrow> stop_row_ok (f s)"
  shows "stop_good db (db\<lparr>stops := map f (stops db)\<rparr>)"
proof -
  have sel: "sp_id (f s) = sp_id s" "sp_ride (f s) = sp_ride s" for s using assms(1) [of s] by (simp_all add: stop_kept_def)
  have "stops_ok (db\<lparr>stops := map f (stops db)\<rparr>) \<longleftrightarrow> stops_ok db"
    by (simp add: stops_ok_def comp_def sel assms(2) list.pred_map)
  then show ?thesis using assms(1,3) by (auto simp: stop_good_def list.pred_map list_all_iff list_all2_conv_all_nth)
qed

lemma insert_stop_ok:
  assumes "stops_ok db"
  shows "stops_ok (snd (insert_stop ride q x db))"
proof -
  have "(ride, q) \<notin> (\<lambda>s. (sp_ride s, sp_seq s)) ` set (stops db)" if "\<not> seq_taken ride q (stops db)"
    using that by (auto simp: seq_taken_def list_ex_iff)
  moreover have "next_stop db \<notin> sp_id ` set (stops db)" using assms by (force simp: stops_ok_def list_all_iff)
  moreover have "list_all (\<lambda>s. sp_id s < Suc (next_stop db) \<and> seq_fits (sp_seq s)) (stops db)"
    using assms by (auto simp: stops_ok_def list_all_iff less_Suc_eq)
  ultimately show ?thesis using assms by (auto simp: insert_stop_def new_stop_def Let_def stops_ok_def)
qed

lemma insert_stop_good: "stop_good db (snd (insert_stop ride q x db))"
  using insert_stop_ok [of db ride q x] by (auto simp: insert_stop_def new_stop_def Let_def stop_good_def stop_row_ok_def list.rel_refl)

lemma insert_stops_good: "stop_good db (snd (insert_stops_from ride q xs db))"
proof (induction ride q xs db rule: insert_stops_from.induct)
  case (2 ride q x xs db)
  obtain r db1 where i: "insert_stop ride q x db = (r, db1)" by force
  have g: "stop_good db db1" using insert_stop_good [of db ride q x] i by simp
  show ?case
  proof (cases r)
    case (Inr row)
    then have "stop_good db1 (snd (insert_stops_from ride (q + 1) xs db1))" using 2 i by simp
    then show ?thesis using Inr i g stop_good_trans by (auto split: prod.splits sum.splits)
  qed (simp add: i)
qed simp

lemma stop_write_good:
  assumes "\<And>s. sp_status s = StopPending \<Longrightarrow> stop_kept s (f s) \<and> sp_seq (f s) = sp_seq s \<and> (stop_row_ok s \<longrightarrow> stop_row_ok (f s))"
  shows "stop_good db (snd (stop_write ride q f db))"
  unfolding stop_write_def Let_def snd_conv using assms by (intro stop_map_good) auto

lemma wait_nonneg: "0 \<le> rate \<Longrightarrow> 0 \<le> wait_rupees ms free rate"
  by (simp add: wait_rupees_def round_away_def)

text \<open>A row whose wait would be out of range fails the statement, so a written one is in order.\<close>

lemma status_good:
  assumes "st = StopReached \<or> st = StopSkipped"
  shows "stop_good db (snd (markStopStatus now ride q st rate free db))"
proof -
  let ?f = "resolved now st rate free"
  let ?hit = "\<lambda>s. sp_ride s = ride \<and> sp_seq s = q \<and> sp_status s = StopPending"
  have "stop_good db (db\<lparr>stops := map (\<lambda>s. if ?hit s then ?f s else s) (stops db)\<rparr>)"
    if t: "find ?hit (stops db) = Some t" and w: "0 \<le> sp_wait (?f t)" and u: "stops_ok db \<Longrightarrow> True" for t
  proof (cases "stops_ok db")
    case True
    have "t \<in> set (stops db)" "?hit t" using t by (auto simp: find_Some_iff)
    then have one: "s = t" if "s \<in> set (stops db)" "?hit s" for s
      using stops_okD(2) [OF True that(1), of t] that by auto
    show ?thesis
    proof (rule stop_map_good)
      fix s assume "s \<in> set (stops db)" "stop_row_ok s"
      then show "stop_row_ok (if ?hit s then ?f s else s)"
        using one w assms by (auto simp: stop_row_ok_def resolved_def split: option.splits)
    qed (use assms in \<open>auto simp: stop_kept_def resolved_def\<close>)
  next
    case False
    have "list_all2 stop_kept (stops db) (map (\<lambda>s. if ?hit s then ?f s else s) (stops db))"
      by (auto simp: list_all2_conv_all_nth stop_kept_def resolved_def)
    then show ?thesis using False by (simp add: stop_good_def)
  qed
  then show ?thesis by (auto simp: markStopStatus_def stop_write_def Let_def split: option.splits)
qed

definition same_but_seq :: "stop_row list \<Rightarrow> stop_row list \<Rightarrow> bool" where
  "same_but_seq xs ys \<longleftrightarrow> map (\<lambda>s. s\<lparr>sp_seq := 0\<rparr>) ys = map (\<lambda>s. s\<lparr>sp_seq := 0\<rparr>) xs"

definition numbers_ok :: "stop_row list \<Rightarrow> bool" where
  "numbers_ok xs \<longleftrightarrow> distinct (map sp_id xs) \<and> distinct (map (\<lambda>s. (sp_ride s, sp_seq s)) xs) \<and> list_all (\<lambda>s. seq_fits (sp_seq s)) xs"

lemma set_seq_numbers:
  assumes "set_seq ride k q (Inr xs) = Inr ys" "numbers_ok xs"
  shows "numbers_ok ys \<and> same_but_seq xs ys"
proof -
  show ?thesis
  proof (cases "ys = xs")
    case False
    then have 2: "seq_fits q" "\<not> list_ex (\<lambda>s. sp_ride s = ride \<and> sp_id s \<noteq> k \<and> sp_seq s = q) xs"
      "ys = map (\<lambda>s. if sp_ride s = ride \<and> sp_id s = k then s\<lparr>sp_seq := q\<rparr> else s) xs"
      using assms(1) by (simp_all add: set_seq_def split: if_splits)
    let ?f = "\<lambda>s. if sp_ride s = ride \<and> sp_id s = k then s\<lparr>sp_seq := q\<rparr> else s"
    have ids: "inj_on sp_id (set xs)" "distinct xs" and seqs: "inj_on (\<lambda>s. (sp_ride s, sp_seq s)) (set xs)"
      using assms(2) by (auto simp: numbers_ok_def distinct_map)
    have free: "sp_seq s \<noteq> q" if "s \<in> set xs" "sp_ride s = ride" "sp_id s \<noteq> k" for s using 2(2) that by (auto simp: list_ex_iff)
    have "inj_on (\<lambda>s. (sp_ride (?f s), sp_seq (?f s))) (set xs)"
    proof (rule inj_onI)
      fix s t assume st: "s \<in> set xs" "t \<in> set xs" and e: "(sp_ride (?f s), sp_seq (?f s)) = (sp_ride (?f t), sp_seq (?f t))"
      show "s = t"
      proof (cases "sp_ride s = ride \<and> sp_id s = k"; cases "sp_ride t = ride \<and> sp_id t = k")
        assume "sp_ride s = ride \<and> sp_id s = k" "sp_ride t = ride \<and> sp_id t = k"
        then show ?thesis using inj_onD [OF ids(1) _ st] by blast
      next
        assume a: "sp_ride s = ride \<and> sp_id s = k" and b: "\<not> (sp_ride t = ride \<and> sp_id t = k)"
        have "sp_ride t = ride \<and> sp_seq t = q" using e a unfolding if_P [OF a] if_not_P [OF b] by simp
        then show ?thesis using b free [OF st(2)] by blast
      next
        assume a: "\<not> (sp_ride s = ride \<and> sp_id s = k)" and b: "sp_ride t = ride \<and> sp_id t = k"
        have "sp_ride s = ride \<and> sp_seq s = q" using e b unfolding if_P [OF b] if_not_P [OF a] by simp
        then show ?thesis using a free [OF st(1)] by blast
      next
        assume a: "\<not> (sp_ride s = ride \<and> sp_id s = k)" and b: "\<not> (sp_ride t = ride \<and> sp_id t = k)"
        show ?thesis using e inj_onD [OF seqs _ st] unfolding if_not_P [OF a] if_not_P [OF b] by blast
      qed
    qed
    then have "distinct (map (\<lambda>s. (sp_ride s, sp_seq s)) ys)" using ids(2) by (simp add: 2(3) comp_def distinct_map)
    moreover have "map sp_id ys = map sp_id xs" by (simp add: 2(3) comp_def if_distrib cong: if_cong)
    moreover have "list_all (\<lambda>s. seq_fits (sp_seq s)) ys" using assms(2) 2(1) by (auto simp: 2(3) numbers_ok_def list_all_iff)
    moreover have "same_but_seq xs ys" by (simp add: same_but_seq_def 2(3))
    ultimately show ?thesis using assms(2) by (simp add: numbers_ok_def)
  qed (use assms in \<open>simp add: same_but_seq_def\<close>)
qed

lemma same_but_seq_trans: "same_but_seq xs ys \<Longrightarrow> same_but_seq ys zs \<Longrightarrow> same_but_seq xs zs"
  by (simp add: same_but_seq_def)

lemma set_seq_Inl [simp]: "set_seq ride k q (Inl e) = Inl e"
  by (simp add: set_seq_def)

lemma set_seqs_Inl: "foldl (\<lambda>rs u. set_seq ride (f u) (g u) rs) (Inl e) us = Inl e"
  by (induction us) simp_all

lemma set_seqs_numbers:
  assumes "foldl (\<lambda>rs u. set_seq ride (f u) (g u) rs) (Inr xs) us = Inr ys" "numbers_ok xs"
  shows "numbers_ok ys \<and> same_but_seq xs ys"
  using assms
proof (induction us arbitrary: xs)
  case (Cons u us)
  obtain zs where z: "set_seq ride (f u) (g u) (Inr xs) = Inr zs"
    using Cons.prems(1) by (cases "set_seq ride (f u) (g u) (Inr xs)") (simp_all add: set_seqs_Inl)
  then have "numbers_ok zs" "same_but_seq xs zs" using set_seq_numbers [OF z Cons.prems(2)] by auto
  then show ?case using Cons.IH [of zs] Cons.prems(1) z same_but_seq_trans by auto
qed (simp add: same_but_seq_def)

lemma resequence_same:
  assumes "numbers_ok (stops db)"
  shows "numbers_ok (stops (snd (resequenceStops ride moves db))) \<and> same_but_seq (stops db) (stops (snd (resequenceStops ride moves db)))
    \<and> next_stop (snd (resequenceStops ride moves db)) = next_stop db"
proof (cases "foldl (\<lambda>rs (k, q). set_seq ride k q rs) (park ride (map fst moves) (stops db)) moves")
  case (Inr ys)
  have e: "(\<lambda>rs (k, q). set_seq ride k q rs) = (\<lambda>rs u. set_seq ride (fst u) (snd u) rs)" by (simp add: fun_eq_iff split_beta)
  obtain zs where p: "park ride (map fst moves) (stops db) = Inr zs"
    using Inr unfolding e by (cases "park ride (map fst moves) (stops db)") (simp_all add: set_seqs_Inl)
  have z: "numbers_ok zs" "same_but_seq (stops db) zs" using set_seqs_numbers [OF p [unfolded park_def] assms] by auto
  have "numbers_ok ys" "same_but_seq (stops db) ys"
    using set_seqs_numbers [OF _ z(1), of ride fst snd moves ys] Inr same_but_seq_trans [OF z(2)] unfolding e p by auto
  then show ?thesis by (simp add: resequenceStops_def Inr)
qed (simp add: resequenceStops_def assms same_but_seq_def)

lemma same_but_seq_nth:
  assumes "same_but_seq xs ys"
  shows "length ys = length xs" "i < length xs \<Longrightarrow> (\<And>s q. h (s\<lparr>sp_seq := q\<rparr>) = h s) \<Longrightarrow> h (ys ! i) = h (xs ! i)"
proof -
  show len: "length ys = length xs" using assms by (metis same_but_seq_def length_map)
  assume i: "i < length xs" and h: "\<And>s q. h (s\<lparr>sp_seq := q\<rparr>) = h s"
  have "(ys ! i)\<lparr>sp_seq := 0\<rparr> = (xs ! i)\<lparr>sp_seq := 0\<rparr>"
    using arg_cong [OF assms [unfolded same_but_seq_def], of "\<lambda>zs. zs ! i"] i len by simp
  then show "h (ys ! i) = h (xs ! i)" using h by metis
qed

lemma resequence_good:
  assumes "numbers_ok (stops db)"
  shows "stop_good db (snd (resequenceStops ride moves db))"
proof -
  let ?db = "snd (resequenceStops ride moves db)"
  have r: "numbers_ok (stops ?db)" "same_but_seq (stops db) (stops ?db)" "next_stop ?db = next_stop db" using resequence_same [OF assms] by auto
  note len = same_but_seq_nth(1) [OF r(2)]
  note sel = same_but_seq_nth(2) [OF r(2)]
  have "stop_kept (stops db ! i) (stops ?db ! i)" if "i < length (stops db)" for i
    using sel [OF that, of sp_id] sel [OF that, of sp_ride] sel [OF that, of sp_pos] sel [OF that, of sp_address] sel [OF that, of sp_charge]
      sel [OF that, of sp_arrived] sel [OF that, of sp_status] sel [OF that, of sp_reached] sel [OF that, of sp_wait] sel [OF that, of sp_unreachable]
    by (simp add: stop_kept_def)
  moreover have "list_all stop_row_ok (stops ?db)" if "list_all stop_row_ok (stops db)"
    using that len sel [of _ stop_row_ok] by (simp add: list_all_length stop_row_ok_def)
  moreover have "list_all (\<lambda>s. sp_id s < next_stop db) (stops ?db)" if "list_all (\<lambda>s. sp_id s < next_stop db) (stops db)"
    using that len sel [of _ "\<lambda>s. sp_id s < next_stop db"] by (simp add: list_all_length)
  ultimately show ?thesis
    using len r(1,3) by (auto simp: stop_good_def stops_ok_def numbers_ok_def list_all_iff list_all2_conv_all_nth)
qed

lemma stop_step_good:
  assumes "stop_step db db'" "stops_ok db"
  shows "stop_good db db'"
  using assms
proof (induction rule: stop_step.induct)
  case (booked db ride xs)
  then show ?case by (simp add: insertRideStops_def insert_stops_good)
next
  case (appended db seen ride x)
  then show ?case by (simp add: appendRideStop_def insert_stop_good)
next
  case (arrived db now ride q)
  then show ?case unfolding markStopArrived_def by (intro stop_write_good) (auto simp: stop_kept_def stop_row_ok_def coalesce_def split: option.splits)
next
  case (unreachable db now ride q)
  then show ?case unfolding markStopUnreachable_def by (intro stop_write_good) (auto simp: stop_kept_def stop_row_ok_def coalesce_def split: option.splits)
next
  case (resolved st db now ride q rate free)
  then show ?case by (simp add: status_good)
next
  case (resequenced db ride moves)
  then show ?case by (intro resequence_good) (simp add: stops_ok_def numbers_ok_def list_all_iff)
next
  case (skipped db ride)
  then show ?case unfolding skip_pending_def by (intro stop_map_good) (auto simp: stop_kept_def stop_row_ok_def)
qed

text \<open>
  C14. Over all interleavings of the stop operations, with any stale plan or snapshot, identities stay unique and so do the numbers
  within a ride; only a reached stop has a time and only one reached after an arrival a wait charge, never negative;
  a stop keeps its place and price, its first arrival, and once reached or skipped everything but its number.
\<close>

theorem stop_rows_well_formed:
  assumes "stop_step\<^sup>*\<^sup>* db db'" "stops_ok db" "list_all stop_row_ok (stops db)"
  shows "stops_ok db' \<and> list_all stop_row_ok (stops db')
    \<and> (\<forall>s \<in> set (stops db). \<exists>t \<in> set (stops db'). sp_id t = sp_id s \<and> sp_ride t = sp_ride s \<and> sp_pos t = sp_pos s \<and> sp_charge t = sp_charge s
         \<and> (sp_arrived s \<noteq> None \<longrightarrow> sp_arrived t = sp_arrived s)
         \<and> (sp_status s \<noteq> StopPending \<longrightarrow> sp_status t = sp_status s \<and> sp_reached t = sp_reached s \<and> sp_wait t = sp_wait s))"
proof -
  have g: "stop_good db db' \<and> stops_ok db' \<and> list_all stop_row_ok (stops db')" using assms(1)
  proof (induction rule: rtranclp_induct)
    case base
    show ?case using assms(2,3) by simp
  next
    case (step x y)
    then have "stop_good x y" using stop_step_good by blast
    then show ?case using step stop_good_trans by (auto simp: stop_good_def)
  qed
  have "\<exists>t \<in> set (stops db'). stop_kept s t" if "s \<in> set (stops db)" for s
  proof -
    obtain i where i: "i < length (stops db)" "stops db ! i = s" using \<open>s \<in> set (stops db)\<close> by (auto simp: in_set_conv_nth)
    then have "stop_kept s (stops db' ! i)" using g by (auto simp: stop_good_def list_all2_conv_all_nth)
    moreover have "i < length (stops db')" using i g by (auto simp: stop_good_def)
    ultimately show ?thesis using nth_mem by blast
  qed
  then show ?thesis using g by (fastforce simp: stop_kept_def)
qed

lemma stop_rows_well_formed_witness:
  "stop_step\<^sup>*\<^sup>* demo_stops (snd (markStopStatus 900000 4 1 StopReached 2 10 (snd (markStopArrived 0 4 1 demo_stops))))
     \<and> map sp_wait (stops (snd (markStopStatus 900000 4 1 StopReached 2 10 (snd (markStopArrived 0 4 1 demo_stops))))) = [1000, 0, 0, 0]
     \<and> stops_ok (snd (markStopStatus 900000 4 1 StopReached 2 10 (snd (markStopArrived 0 4 1 demo_stops))))"
proof -
  let ?d = "snd (markStopStatus 900000 4 1 StopReached 2 10 (snd (markStopArrived 0 4 1 demo_stops)))"
  have s: "stop_step\<^sup>*\<^sup>* demo_stops ?d"
    by (rule rtranclp.rtrancl_into_rtrancl [OF r_into_rtranclp [of stop_step, OF stop_step.arrived] stop_step.resolved]) simp
  have rows: "list_all stop_row_ok (stops demo_stops)" by (simp add: demo_stops_def demo_stop_def stop_row_ok_def)
  have "map sp_wait (stops ?d) = [1000, 0, 0, 0]"
    by (simp add: demo_stops_def demo_stop_def markStopArrived_def markStopStatus_def stop_write_def Let_def resolved_def coalesce_def wait_rupees_def
        round_away_def numeric_fits_def floor_eq_iff)
  then show ?thesis using stop_rows_well_formed [OF s demo_stops_ok rows] s by blast
qed

subsection \<open>An added stop is priced once\<close>

lemma finalise_snapshot:
  assumes "snapshots db ride = Some f"
  shows "\<exists>d. snapshots (snd (finaliseDiscount pct ride db)) ride = Some (f\<lparr>fs_discount := d\<rparr>)"
proof -
  have s: "snapshots (shrink_redemption ride D db) = snapshots db" for D by (simp add: shrink_redemption_def split: option.split)
  have id: "\<exists>d. f = f\<lparr>fs_discount := d\<rparr>" by (rule exI [of _ "fs_discount f"]) simp
  show ?thesis using assms id by (auto simp: finaliseDiscount_def Let_def upd_where_def s split: option.splits)
qed

lemma fold_max_bounds: "(z :: int) \<le> fold max xs z \<and> (\<forall>x \<in> set xs. x \<le> fold max xs z)"
proof (induction xs arbitrary: z)
  case (Cons x xs)
  have "max x z \<le> fold max xs (max x z)" "\<forall>y \<in> set xs. y \<le> fold max xs (max x z)" using Cons.IH [of "max x z"] by auto
  then show ?case by auto
qed simp

lemma fold_max_le: "z \<le> (b :: int) \<Longrightarrow> \<forall>x \<in> set xs. x \<le> b \<Longrightarrow> fold max xs z \<le> b"
  by (induction xs arbitrary: z) auto

lemma append_succeeds:
  assumes "stops_ok db" "\<forall>s \<in> set (stops db). sp_ride s = ride \<longrightarrow> sp_seq s < 10000" "numeric_fits 8 (to_paise (sn_charge x))"
  shows "\<exists>q. append_attempts (Suc n) (\<lambda>_ xs. xs) ride x db = insert_stop ride q x db
    \<and> insert_stop ride q x db = (Inr (new_stop (next_stop db) ride q x),
        db\<lparr>stops := stops db @ [new_stop (next_stop db) ride q x], next_stop := Suc (next_stop db)\<rparr>)"
proof -
  let ?seqs = "map sp_seq (filter (\<lambda>s. sp_ride s = ride) (stops db))"
  have b: "0 \<le> fold max ?seqs 0" "\<forall>x \<in> set ?seqs. x \<le> fold max ?seqs 0" using fold_max_bounds [of 0 ?seqs] by auto
  have "fold max ?seqs 0 \<le> 9999" using assms(2) by (intro fold_max_le) auto
  then have "seq_fits (fold max ?seqs 0 + 1)" using b(1) by (simp add: seq_fits_def)
  moreover have "\<not> seq_taken ride (fold max ?seqs 0 + 1) (stops db)" using b(2) by (fastforce simp: seq_taken_def list_ex_iff)
  ultimately show ?thesis using assms(3)
    by (intro exI [of _ "fold max ?seqs 0 + 1"]) (simp add: appendRideStop_def insert_stop_def Let_def new_stop_def)
qed

text \<open>
  Whatever the snapshots of the attempts show of the table: either one attempt inserts, or every one of them missed a stop of the ride that
  another request has added, and nothing is written.
\<close>

definition raced :: "nat \<Rightarrow> (nat \<Rightarrow> stop_row list \<Rightarrow> stop_row list) \<Rightarrow> stop_db \<Rightarrow> nat \<Rightarrow> bool" where
  "raced ride vis db n \<longleftrightarrow> (\<exists>s \<in> set (stops db). sp_ride s = ride \<and> s \<notin> set (vis n (stops db)))"

lemma append_attempts_cases:
  assumes "\<forall>s \<in> set (stops db). sp_ride s = ride \<longrightarrow> sp_seq s < 10000" "numeric_fits 8 (to_paise (sn_charge x))"
    and vis: "\<And>n. set (vis n (stops db)) \<subseteq> set (stops db)"
  shows "append_attempts m vis ride x db = (Inl unique_violation, db) \<and> (\<forall>n < m. raced ride vis db n)
    \<or> (\<exists>q. append_attempts m vis ride x db = insert_stop ride q x db
        \<and> insert_stop ride q x db = (Inr (new_stop (next_stop db) ride q x),
            db\<lparr>stops := stops db @ [new_stop (next_stop db) ride q x], next_stop := Suc (next_stop db)\<rparr>))"
proof (induction m)
  case (Suc m)
  let ?seqs = "map sp_seq (filter (\<lambda>s. sp_ride s = ride) (vis m (stops db)))"
  let ?q = "fold max ?seqs 0 + 1"
  have b: "0 \<le> fold max ?seqs 0" "\<forall>y \<in> set ?seqs. y \<le> fold max ?seqs 0" using fold_max_bounds [of 0 ?seqs] by auto
  have "fold max ?seqs 0 \<le> 9999" using assms(1) vis [of m] by (intro fold_max_le) auto
  then have fits: "seq_fits ?q" using b(1) by (simp add: seq_fits_def)
  show ?case
  proof (cases "seq_taken ride ?q (stops db)")
    case False
    then have i: "insert_stop ride ?q x db = (Inr (new_stop (next_stop db) ride ?q x),
        db\<lparr>stops := stops db @ [new_stop (next_stop db) ride ?q x], next_stop := Suc (next_stop db)\<rparr>)"
      using fits assms(2) by (simp add: insert_stop_def Let_def new_stop_def)
    have a: "appendRideStop (vis m (stops db)) ride x db = insert_stop ride ?q x db" by (simp add: appendRideStop_def)
    show ?thesis using i by (intro disjI2 exI [of _ ?q]) (simp add: a)
  next
    case True
    then obtain s where s: "s \<in> set (stops db)" "sp_ride s = ride" "sp_seq s = ?q" by (auto simp: seq_taken_def list_ex_iff)
    have "s \<notin> set (vis m (stops db))"
    proof
      assume "s \<in> set (vis m (stops db))"
      then have "?q \<in> set ?seqs" using s(2,3) by (auto intro!: image_eqI [of _ _ s])
      then show False using b(2) by fastforce
    qed
    then have r: "raced ride vis db m" using s by (auto simp: raced_def)
    have "appendRideStop (vis m (stops db)) ride x db = (Inl unique_violation, db)"
      using True fits assms(2) by (simp add: appendRideStop_def insert_stop_def Let_def new_stop_def)
    then have "append_attempts (Suc m) vis ride x db = (if 0 < m then append_attempts m vis ride x db else (Inl unique_violation, db))" by simp
    then show ?thesis using Suc.IH r by (cases "0 < m") (auto simp: less_Suc_eq)
  qed
qed simp

text \<open>
  What \<open>addRideStop\<close> does on every type of ride. A stop on a one-way ride is charged like one on a round trip and enters the estimate too, and one on a
  rental is charged as well, when the rate card of the snapshot has a stop charge; the comment on the function calls those stops free of the flat charge.
\<close>

theorem stop_added_priced:
  assumes run: "addRideStop lm pct user rr seen price vis ride x (off, db) = (res, off', db')"
    and ok: "stops_ok db" and small: "\<forall>s \<in> set (stops db). sp_ride s = ride \<longrightarrow> sp_seq s < 10000"
    and vis: "\<And>n. set (vis n (stops db)) \<subseteq> set (stops db)"
    and k: "k = coalesce price 0" "0 \<le> k" "k < 10 ^ 8" and f: "snapshots off ride = Some f"
    and fit: "\<bar>fs_stop f + k\<bar> < 10 ^ 10" "\<bar>fs_estimated f + k\<bar> < 10 ^ 10" "\<bar>fs_estimated f\<bar> < 10 ^ 10"
  shows "(case res of
      Inl e \<Rightarrow> off' = off \<and> db' = db \<and> (add_stop_checks lm user rr seen x = Inl e \<or> e = unique_violation \<and> (\<forall>n < 3. raced ride vis db n))
    | Inr s \<Rightarrow> (\<exists>r p. add_stop_checks lm user rr seen x = Inr (r, p) \<and> s \<in> set (stops db') \<and> sp_ride s = ride \<and> sp_pos s = p
        \<and> sp_status s = StopPending \<and> sp_charge s = k
        \<and> length (stops db') = Suc (length (stops db))
        \<and> map (\<lambda>t. (sp_id t, sp_status t, sp_charge t)) (butlast (stops db')) = map (\<lambda>t. (sp_id t, sp_status t, sp_charge t)) (stops db)
        \<and> (\<exists>f'. snapshots off' ride = Some f' \<and> fs_stop f' = fs_stop f + k
             \<and> fs_estimated f' = fs_estimated f + (if rr_type r = one_way then k else 0) \<and> (k = 0 \<longrightarrow> off' = off))))"
proof (cases "add_stop_checks lm user rr seen x")
  case (Inl e)
  then show ?thesis using run by (auto simp: addRideStop_def)
next
  case (Inr rp)
  obtain r p where rp: "rp = (r, p)" by (rule prod.exhaust)
  have kp: "paise_ok k" using k by (simp add: paise_ok_def)
  have charge: "getRideStopCharge price = from_paise k" "to_paise (from_paise k) = k" "0 < from_paise k \<longleftrightarrow> 0 < k"
    using from_paise_nonneg [of k] from_paise_eq_0 [of k] k kp to_from_paise [OF kp]
    by (auto simp: getRideStopCharge_def Let_def order.strict_iff_order)
  let ?x = "\<lparr>sn_pos = p, sn_address = sq_address x, sn_charge = from_paise k\<rparr>"
  have cf: "numeric_fits 8 (to_paise (sn_charge ?x))" using charge(2) k by (simp add: numeric_fits_def)
  from append_attempts_cases [of db ride ?x vis 3, OF small cf vis] show ?thesis
  proof (elim disjE exE conjE)
    assume "append_attempts 3 vis ride ?x db = (Inl unique_violation, db)" "\<forall>n < 3. raced ride vis db n"
    then show ?thesis using run Inr rp by (auto simp: addRideStop_def Let_def charge(1))
  next
    fix q assume a: "append_attempts 3 vis ride ?x db = insert_stop ride q ?x db"
      and ins: "insert_stop ride q ?x db = (Inr (new_stop (next_stop db) ride q ?x),
        db\<lparr>stops := stops db @ [new_stop (next_stop db) ride q ?x], next_stop := Suc (next_stop db)\<rparr>)"
    define s0 where "s0 = new_stop (next_stop db) ride q ?x"
    define db1 where "db1 = db\<lparr>stops := stops db @ [s0], next_stop := Suc (next_stop db)\<rparr>"
    define off1 where "off1 = (if 0 < k then snd (add_stop_fare ride (from_paise k) (rr_type r = one_way) off) else off)"
    define off2 where "off2 = (if 0 < k then snd (finaliseDiscount pct ride off1) else off1)"
    define db2 where "db2 = reorder_stops lm ride r db1"
    define f1 where "f1 = f\<lparr>fs_stop := fs_stop f + k, fs_estimated := fs_estimated f + (if rr_type r = one_way then k else 0)\<rparr>"
    have fare: "0 < k \<Longrightarrow> add_stop_fare ride (from_paise k) (rr_type r = one_way) off = (Inr (), off1)" "0 < k \<Longrightarrow> snapshots off1 ride = Some f1"
      using f fit by (simp_all add: add_stop_fare_def charge(2) off1_def numeric_fits_def f1_def)
    have body: "(res, off', db') = (case (if 0 < k then add_stop_fare ride (from_paise k) (rr_type r = one_way) off else (Inr (), off)) of
          (Inl e, o1) \<Rightarrow> (Inl e, o1, db1)
        | (Inr _, o1) \<Rightarrow> (Inr (coalesce (find (\<lambda>t. sp_id t = sp_id s0) (getRideStops ride (reorder_stops lm ride r db1))) s0),
            if 0 < k then snd (finaliseDiscount pct ride o1) else o1, reorder_stops lm ride r db1))"
      unfolding run [symmetric] addRideStop_def prod.case Inr rp sum.case Let_def charge(1,3) a ins s0_def [symmetric] db1_def [symmetric] ..
    have eq: "(res, off', db') = (Inr (coalesce (find (\<lambda>t. sp_id t = sp_id s0) (getRideStops ride db2)) s0), off2, db2)"
    proof (cases "0 < k")
      case True
      show ?thesis unfolding body if_P [OF True] fare(1) [OF True] prod.case sum.case db2_def off2_def ..
    next
      case False
      show ?thesis unfolding body if_not_P [OF False] prod.case sum.case db2_def off2_def off1_def ..
    qed
    have n1: "numbers_ok (stops db1)"
      using insert_stop_ok [OF ok, of ride q ?x] unfolding ins snd_conv s0_def [symmetric] db1_def [symmetric]
      by (simp add: stops_ok_def numbers_ok_def list_all_iff)
    have same: "same_but_seq (stops db1) (stops db2)"
      using resequence_same [OF n1] by (simp add: db2_def reorder_stops_def Let_def same_but_seq_def)
    note len = same_but_seq_nth(1) [OF same] and sel = same_but_seq_nth(2) [OF same]
    let ?n = "length (stops db)"
    have l1: "length (stops db1) = Suc ?n" "stops db1 ! ?n = s0" by (simp_all add: db1_def)
    define t where "t = stops db2 ! ?n"
    have t: "sp_id t = sp_id s0" "sp_ride t = ride" "sp_pos t = p" "sp_status t = StopPending" "sp_charge t = k" "t \<in> set (stops db2)"
      using sel [of ?n sp_id] sel [of ?n sp_ride] sel [of ?n sp_pos] sel [of ?n sp_status] sel [of ?n sp_charge] l1 len charge(2)
      by (simp_all add: t_def s0_def new_stop_def)
    have uniq: "u = t" if "u \<in> set (stops db2)" "sp_id u = sp_id s0" for u
    proof -
      have "inj_on sp_id (set (stops db2))"
        using resequence_same [OF n1] n1 by (auto simp: db2_def reorder_stops_def Let_def numbers_ok_def distinct_map)
      then show ?thesis using that t(1,6) by (simp add: inj_on_def)
    qed
    have "find (\<lambda>u. sp_id u = sp_id s0) (getRideStops ride db2) = Some t"
    proof (cases "find (\<lambda>u. sp_id u = sp_id s0) (getRideStops ride db2)")
      case None
      then show ?thesis using t by (auto simp: find_None_iff rows_of_ride)
    next
      case (Some u)
      then have "u \<in> set (getRideStops ride db2)" "sp_id u = sp_id s0" by (auto simp: find_Some_iff)
      then show ?thesis using uniq Some by (auto simp: rows_of_ride)
    qed
    then have e: "res = Inr t" "off' = off2" "db' = db2" using eq by (simp_all add: coalesce_def)
    have rest: "map (\<lambda>t. (sp_id t, sp_status t, sp_charge t)) (butlast (stops db2)) = map (\<lambda>t. (sp_id t, sp_status t, sp_charge t)) (stops db)"
    proof (rule nth_equalityI)
      fix i assume "i < length (map (\<lambda>t. (sp_id t, sp_status t, sp_charge t)) (butlast (stops db2)))"
      then have i: "i < ?n" using len l1 by simp
      then show "map (\<lambda>t. (sp_id t, sp_status t, sp_charge t)) (butlast (stops db2)) ! i = map (\<lambda>t. (sp_id t, sp_status t, sp_charge t)) (stops db) ! i"
        using sel [of i sp_id] sel [of i sp_status] sel [of i sp_charge] len l1 by (simp add: nth_butlast db1_def nth_append)
    qed (use len l1 in simp)
    have price: "\<exists>f'. snapshots off2 ride = Some f' \<and> fs_stop f' = fs_stop f + k \<and> fs_estimated f' = fs_estimated f + (if rr_type r = one_way then k else 0)
        \<and> (k = 0 \<longrightarrow> off2 = off)"
    proof (cases "0 < k")
      case True
      then show ?thesis using finalise_snapshot [OF fare(2), of pct] by (auto simp: off2_def f1_def)
    next
      case False
      then show ?thesis using f k(2) by (simp add: off2_def off1_def)
    qed
    show ?thesis using t rest price len l1 Inr rp by (auto simp: e)
  qed
qed


definition flat_libm :: libm where
  "flat_libm = \<lparr>lm_sin = (\<lambda>_. 0), lm_cos = (\<lambda>_. 1), lm_square = (\<lambda>_. 0), lm_sqrt = (\<lambda>_. 0), lm_asin = (\<lambda>_. Some 1)\<rparr>"

lemma flat_distance: "distanceMetres flat_libm p q = Some 12742000"
  using fl_int [of 12742000] by (simp add: distanceMetres_def flat_libm_def Let_def fmul_def)


subsection \<open>The cap under a race\<close>

text \<open>
  The cap of three stops is checked on the rows read before the insert, in a statement of its own; two additions that both
  read two stops leave four.
\<close>

theorem stop_cap_race:
  assumes "add_stop_checks lm user rr seen x = Inr (r, p)" "getRideStopCharge price = 0"
    and ok: "stops_ok db" "\<forall>s \<in> set (stops db). sp_ride s = ride \<longrightarrow> sp_seq s < 10000"
  shows "\<exists>s db'. addRideStop lm pct user rr seen price (\<lambda>_ xs. xs) ride x (off, db) = (Inr s, off, db') \<and> length (stops db') = Suc (length (stops db))"
proof -
  have z: "to_paise 0 = 0" using to_from_paise [of 0] by (simp add: paise_ok_def)
  let ?x = "\<lparr>sn_pos = p, sn_address = sq_address x, sn_charge = 0\<rparr>"
  obtain q where a: "append_attempts 3 (\<lambda>_ xs. xs) ride ?x db = insert_stop ride q ?x db"
    and ins: "insert_stop ride q ?x db = (Inr (new_stop (next_stop db) ride q ?x),
      db\<lparr>stops := stops db @ [new_stop (next_stop db) ride q ?x], next_stop := Suc (next_stop db)\<rparr>)"
    using append_succeeds [OF ok, of ?x 2] z by (auto simp: numeric_fits_def numeral_3_eq_3 numeral_2_eq_2)
  define db1 where "db1 = db\<lparr>stops := stops db @ [new_stop (next_stop db) ride q ?x], next_stop := Suc (next_stop db)\<rparr>"
  have "numbers_ok (stops db1)"
    using insert_stop_ok [OF ok(1), of ride q ?x] unfolding ins snd_conv db1_def [symmetric] by (simp add: stops_ok_def numbers_ok_def list_all_iff)
  then have "same_but_seq (stops db1) (stops (reorder_stops lm ride r db1))"
    using resequence_same by (simp add: reorder_stops_def Let_def same_but_seq_def)
  then have "length (stops (reorder_stops lm ride r db1)) = Suc (length (stops db))"
    using same_but_seq_nth(1) [of "stops db1"] by (simp add: db1_def)
  then show ?thesis
    unfolding addRideStop_def prod.case assms(1) sum.case Let_def assms(2) a ins db1_def [symmetric] by simp
qed

end
