(* ===== verification/Booking.thy ===== *)
theory Booking
  imports RideStops Payments
begin

text \<open>
  Booking a ride: \<open>createBooking\<close> of \<open>rides.service.ts\<close> with its checks, the distance the fare is priced on, the
  offer of the booking, and the one transaction that writes the ride, its stops, the fare snapshot and the offer reservation.
  The lemmas show that a booking is written completely or not at all and at the price the rider was shown.
\<close>

subsection \<open>Requests\<close>

datatype code_input = NoCode | NotAString | CodeText string
datatype auto_input = AutoAbsent | AutoInvalid | AutoGiven auto_choice

text \<open>\<open>bk_scheduled\<close>: absent, not a date, or milliseconds. A destination counts when both coordinates are there.\<close>

record booking_request =
  bk_category :: nat
  bk_type :: ride_type
  bk_return_cab :: "bool option"
  bk_origin :: pos
  bk_dest :: "pos option"
  bk_distance :: js_input
  bk_duration :: js_input
  bk_hours :: "js_input option"
  bk_stops :: "(pos \<times> string option) list"
  bk_package :: "nat option"
  bk_scheduled :: "int option option"
  bk_channel :: "channel option"
  bk_rider_name :: "string option"
  bk_rider_phone :: "string option"
  bk_code :: code_input
  bk_expected :: "js_input option"
  bk_auto :: auto_input

text \<open>What lies outside: the platform's mathematics, city boundaries and routes (\<open>None\<close> when the lookup throws, \<open>True\<close> for a fallback).\<close>

record booking_env =
  be_libm :: libm
  be_in_city :: "pos \<Rightarrow> pos \<Rightarrow> bool"
  be_city :: "pos \<Rightarrow> nat option"
  be_route :: "pos \<Rightarrow> pos \<Rightarrow> (num \<times> num \<times> bool) option"
  be_pricing :: pricing_db
  be_offers :: offer_env
  be_now :: int

definition invalid :: "string \<Rightarrow> app_error" where "invalid c = http_err 422 c"

subsection \<open>Checks\<close>

definition indian_phone :: "string \<Rightarrow> bool" where
  "indian_phone s \<longleftrightarrow> length s = 13 \<and> take 3 s = ''+91'' \<and> s ! 3 \<in> set ''6789'' \<and> list_all (\<lambda>c. c \<in> set ''0123456789'') (drop 4 s)"

definition validateRider :: "booking_request \<Rightarrow> unit res" where
  "validateRider b = (if bk_rider_name b = None \<and> bk_rider_phone b = None then Inr ()
     else bind_res (guard_err (case bk_rider_name b of None \<Rightarrow> True | Some n \<Rightarrow> js_trim n = [] \<or> 50 < length (js_trim n)) (invalid ''''))
       (\<lambda>_. guard_err (case bk_rider_phone b of None \<Rightarrow> True | Some p \<Rightarrow> \<not> indian_phone p) (invalid '''')))"

definition booking_anchors :: "booking_request \<Rightarrow> pos list" where
  "booking_anchors b = bk_origin b # (case bk_dest b of None \<Rightarrow> [] | Some d \<Rightarrow> [d])"

definition validateStops :: "libm \<Rightarrow> booking_request \<Rightarrow> unit res" where
  "validateStops lm b =
     bind_res (guard_err (MAX_STOPS_PER_RIDE < length (bk_stops b)) (invalid '''')) (\<lambda>_.
     guard_err (list_ex (\<lambda>i. too_close lm (fst (bk_stops b ! i)) (booking_anchors b @ map fst (take i (bk_stops b)))) [0..<length (bk_stops b)]) (invalid ''''))"

text \<open>The staleness windows of the rider's active ride.\<close>

definition fresh_active :: "int \<Rightarrow> ride_row \<Rightarrow> bool" where
  "fresh_active now r \<longleftrightarrow> (case rr_status r of
      Requested \<Rightarrow> now - 20 * 60000 < rr_updated r
    | Accepted \<Rightarrow> now - 3 * 3600000 < rr_updated r
    | DriverArrived \<Rightarrow> now - 3600000 < rr_updated r
    | InProgress \<Rightarrow> now - 12 * 3600000 < rr_updated r
    | Returning \<Rightarrow> now - 12 * 3600000 < rr_updated r
    | _ \<Rightarrow> False)"

definition has_active_ride :: "int \<Rightarrow> nat \<Rightarrow> ride_db \<Rightarrow> bool" where
  "has_active_ride now user db \<longleftrightarrow> list_ex (\<lambda>r. rr_user r = user \<and> fresh_active now r) (rides db)"

definition countScheduledRidesForUser :: "nat \<Rightarrow> ride_db \<Rightarrow> nat" where
  "countScheduledRidesForUser user db = length (filter (\<lambda>r. rr_user r = user \<and> rr_status r = Scheduled) (rides db))"

definition place_checks :: "booking_env \<Rightarrow> booking_request \<Rightarrow> unit res" where
  "place_checks e b =
     bind_res (case bk_dest b of None \<Rightarrow> Inr ()
       | Some d \<Rightarrow> if bk_type b \<noteq> one_way \<and> bk_type b \<noteq> round_trip then Inr ()
           else bind_res (guard_err (nan_lt (distanceMetres (be_libm e) (bk_origin b) d) (Some 100)) (invalid ''PICKUP_DROP_SAME'')) (\<lambda>_.
             guard_err (be_in_city e (bk_origin b) d \<and> nan_lt (distanceMetres (be_libm e) (bk_origin b) d) (Some 15000)) (invalid ''''))) (\<lambda>_.
     guard_err (bk_type b = rental \<and> bk_dest b = None) (invalid ''''))"

definition schedule_checks :: "booking_env \<Rightarrow> nat \<Rightarrow> booking_request \<Rightarrow> ride_db \<Rightarrow> int option res" where
  "schedule_checks e user b db = (case bk_scheduled b of None \<Rightarrow> Inr None
     | Some None \<Rightarrow> Inl (invalid '''')
     | Some (Some t) \<Rightarrow>
         bind_res (guard_err (t < be_now e + 60 * 60000) (invalid '''')) (\<lambda>_.
         bind_res (guard_err (be_now e + 7 * 86400000 < t) (invalid '''')) (\<lambda>_.
         bind_res (guard_err (3 \<le> countScheduledRidesForUser user db) (invalid '''')) (\<lambda>_. Inr (Some t)))))"

subsection \<open>The distance that is priced\<close>

definition in_range :: "num \<Rightarrow> num \<Rightarrow> js_input \<Rightarrow> bool" where
  "in_range lo hi x \<longleftrightarrow> (case x of Fin v \<Rightarrow> lo \<le> v \<and> v \<le> hi | NonFinite \<Rightarrow> False)"

fun path_legs :: "pos list \<Rightarrow> (pos \<times> pos) list" where
  "path_legs (p # q # ps) = (p, q) # path_legs (q # ps)"
| "path_legs _ = []"

definition straight_km :: "libm \<Rightarrow> (pos \<times> pos) list \<Rightarrow> num option" where
  "straight_km lm legs = foldl (\<lambda>sum (p, q). case (sum, distanceMetres lm p q) of (Some s, Some d) \<Rightarrow> Some (fadd s (fdiv d 1000)) | _ \<Rightarrow> None) (Some 0) legs"

text \<open>\<open>None\<close>: a lookup threw, or some leg is only a fallback.\<close>

definition routed_path :: "booking_env \<Rightarrow> (pos \<times> pos) list \<Rightarrow> (num \<times> num) option" where
  "routed_path e legs =
     (let rs = map (\<lambda>(p, q). be_route e p q) legs
      in if None \<in> set rs \<or> list_ex (\<lambda>r. case r of Some (_, _, fb) \<Rightarrow> fb | None \<Rightarrow> True) rs then None
         else Some (foldl (\<lambda>a r. case r of Some (km, _, _) \<Rightarrow> fadd a km | None \<Rightarrow> a) 0 rs,
                    foldl (\<lambda>a r. case r of Some (_, mn, _) \<Rightarrow> fadd a mn | None \<Rightarrow> a) 0 rs))"

definition booking_path :: "booking_request \<Rightarrow> pos \<Rightarrow> pos list" where
  "booking_path b d = bk_origin b # (if bk_type b = one_way then map fst (bk_stops b) else []) @ [d]"

text \<open>Kilometres and minutes after the correction.\<close>

definition boundBookingDistance :: "booking_env \<Rightarrow> booking_request \<Rightarrow> (num \<times> num) res" where
  "boundBookingDistance e b =
     (let positive = (bk_type b \<noteq> rental) in
      bind_res (guard_err (\<not> in_range (if positive then fl (1 / 10) else 0) 2000 (bk_distance b)
          \<or> \<not> in_range (if positive then 1 else 0) 4320 (bk_duration b)
          \<or> (case bk_hours b of None \<Rightarrow> False | Some h \<Rightarrow> \<not> in_range 0 720 h)) (invalid ''VALIDATION_ERROR'')) (\<lambda>_.
      let km = fin (bk_distance b); mn = fin (bk_duration b) in
      case bk_dest b of None \<Rightarrow> Inr (km, mn)
      | Some d \<Rightarrow>
          let legs = path_legs (booking_path b d) in
          (case routed_path e legs of
             Some (rkm, rmin) \<Rightarrow>
               if fmul rkm (fadd 1 (fl (15 / 100))) < km \<or> km < fmul rkm (fsub 1 (fl (15 / 100))) then Inr (rkm, rmin) else Inr (km, mn)
           | None \<Rightarrow> (case straight_km (be_libm e) legs of
               Some s \<Rightarrow>
                 if km < s then
                   (let est = fdiv (of_int (js_round (fmul (fmul s (fl (13 / 10))) 10))) 10
                    in Inr (est, max mn (of_int (js_round (fdiv est (fl (1 / 2)))))))
                 else Inr (km, mn)
             | None \<Rightarrow> Inr (km, mn)))))"

subsection \<open>The offer of a booking\<close>

definition normalizeCode :: "string \<Rightarrow> string" where
  "normalizeCode s = upper (filter (\<lambda>c. \<not> is_space c) (js_trim s))"

definition given_code :: "booking_request \<Rightarrow> string" where
  "given_code b = (case bk_code b of CodeText s \<Rightarrow> js_trim s | _ \<Rightarrow> [])"

definition preview_of :: "booking_env \<Rightarrow> booking_request \<Rightarrow> preview_input" where
  "preview_of e b = \<lparr>pi_ride_type = bk_type b, pi_category = bk_category b, pi_city = be_city e (bk_origin b), pi_origin = be_city e (bk_origin b),
     pi_destination = Option.bind (bk_dest b) (be_city e), pi_channel = coalesce (bk_channel b) Cash, pi_scheduled = Option.bind (bk_scheduled b) id,
     pi_code = (if given_code b = [] then None else Some (given_code b)), pi_auto = (case bk_auto b of AutoGiven c \<Rightarrow> c | _ \<Rightarrow> BestAuto)\<rparr>"

definition applied_code :: "offer_env \<Rightarrow> preview_input \<Rightarrow> applied_offer \<Rightarrow> string option" where
  "applied_code env inp a = Option.bind (find (\<lambda>x. of_id x = ap_offer a)
     ((case fst (typed_offer env inp) of None \<Rightarrow> [] | Some x \<Rightarrow> [x]) @ env_active env)) of_code"

definition price_moved :: "num \<Rightarrow> num option \<Rightarrow> bool" where
  "price_moved price expected = (case expected of None \<Rightarrow> False | Some v \<Rightarrow> fl (1 / 100) < \<bar>fsub price v\<bar>)"

definition resolveBookingOffer :: "booking_env \<Rightarrow> booking_request \<Rightarrow> fare_breakdown \<Rightarrow> applied_offer option res" where
  "resolveBookingOffer e b fare =
     bind_res (guard_err (case bk_code b of NotAString \<Rightarrow> True | CodeText s \<Rightarrow> 40 < length (js_trim s) | NoCode \<Rightarrow> False) (invalid ''VALIDATION_ERROR'')) (\<lambda>_.
     bind_res (guard_err (case bk_expected b of None \<Rightarrow> False | Some (Fin v) \<Rightarrow> v < 0 | Some NonFinite \<Rightarrow> True) (invalid ''VALIDATION_ERROR'')) (\<lambda>_.
     let code = given_code b; expected = map_option fin (bk_expected b) in
     if code = [] \<and> expected = None then Inr None else
     bind_res (guard_err (bk_auto b = AutoInvalid) (invalid ''VALIDATION_ERROR'')) (\<lambda>_.
     bind_res (evaluateOffers (be_offers e) (preview_of e b) fare) (\<lambda>pv.
     if \<not> pv_enabled pv then
       bind_res (guard_err (price_moved (pv_fare_total pv) expected) (http_err 409 ''PRICE_CHANGED'')) (\<lambda>_. Inr None)
     else
       bind_res (guard_err (code \<noteq> [] \<and> (case pv_applied pv of None \<Rightarrow> True
             | Some a \<Rightarrow> applied_code (be_offers e) (preview_of e b) a \<noteq> Some (normalizeCode code))) (invalid ''OFFER_NOT_APPLICABLE'')) (\<lambda>_.
       bind_res (guard_err (price_moved (pv_payable pv) expected) (http_err 409 ''PRICE_CHANGED'')) (\<lambda>_. Inr (pv_applied pv)))))))"

subsection \<open>The transaction\<close>

record trip =
  tp_world :: world
  tp_stops :: stop_db

definition already_active :: app_error where "already_active = http_err 409 ''RIDE_ALREADY_ACTIVE''"

definition snapshot_of :: "fare_breakdown \<Rightarrow> applied_offer option \<Rightarrow> snapshot_row" where
  "snapshot_of b offer = \<lparr>fs_base = to_paise (base_fare b), fs_distance = to_paise (distance_fare b), fs_time = to_paise (time_fare b),
     fs_stop = to_paise (stop_fare b), fs_hour = to_paise (hour_surcharge b), fs_surge = to_paise (surge_fare b),
     fs_waiting = Some (to_paise (coalesce (waiting_fare b) 0)), fs_overage = Some 0, fs_estimated = to_paise (total b), fs_final = None,
     fs_discount = to_paise (case offer of Some a \<Rightarrow> ap_discount a | None \<Rightarrow> 0)\<rparr>"

text \<open>\<open>NUMERIC(10,2)\<close> with the checks of migration 060; the hours are a \<open>SMALLINT\<close>, which refuses a fraction.\<close>

definition snapshot_fits :: "num \<Rightarrow> snapshot_row \<Rightarrow> bool" where
  "snapshot_fits hours f \<longleftrightarrow> of_int \<lfloor>hours\<rfloor> = hours \<and> hours \<le> 32767
     \<and> list_all (\<lambda>k. 0 \<le> k \<and> numeric_fits 10 k) [fs_base f, fs_distance f, fs_time f, fs_stop f, fs_estimated f]
     \<and> list_all (numeric_fits 10) [fs_hour f, fs_surge f, coalesce (fs_waiting f) 0, fs_discount f]"

definition ride_input_of :: "booking_env \<Rightarrow> nat \<Rightarrow> booking_request \<Rightarrow> int option \<Rightarrow> ride_input" where
  "ride_input_of e user b sched = \<lparr>ri_user = user, ri_category = bk_category b, ri_type = bk_type b, ri_origin = bk_origin b, ri_dest = bk_dest b,
     ri_city = be_city e (bk_origin b), ri_scheduled = sched, ri_status = (case sched of None \<Rightarrow> None | Some _ \<Rightarrow> Some Scheduled),
     ri_channel = coalesce (bk_channel b) Cash\<rparr>"

definition reserve_of :: "nat \<Rightarrow> nat \<Rightarrow> applied_offer \<Rightarrow> reserve_args" where
  "reserve_of user ride a = \<lparr>ra_offer = ap_offer a, ra_version = ap_version a, ra_user = user, ra_ride = ride, ra_discount = ap_discount a,
     ra_cashback = ap_cashback a, ra_per_user = ap_per_user a\<rparr>"

definition book_tx :: "booking_env \<Rightarrow> nat \<Rightarrow> booking_request \<Rightarrow> int option \<Rightarrow> num \<Rightarrow> fare_response \<Rightarrow> applied_offer option \<Rightarrow> trip \<Rightarrow> nat res \<times> trip" where
  "book_tx e user b sched hours quote offer t =
     (let w = tp_world t; f = snapshot_of (fo_breakdown quote) offer in
      case createRide (be_now e) (ride_input_of e user b sched) (w_rides w) of
        (Inl err, _) \<Rightarrow> (Inl already_active, t)
      | (Inr i, rdb) \<Rightarrow>
          (case insertRideStops i (map (\<lambda>(p, adr). \<lparr>sn_pos = p, sn_address = adr, sn_charge = fo_charge_per_stop quote\<rparr>) (bk_stops b)) (tp_stops t) of
             (Inl err, _) \<Rightarrow> (Inl (if err = unique_violation then already_active else err), t)
           | (Inr rows, sdb) \<Rightarrow>
               if \<not> snapshot_fits hours f then (Inl db_error, t)
               else let off1 = (w_offers w)\<lparr>snapshots := (snapshots (w_offers w))(i \<mapsto> f)\<rparr> in
                 (case offer of
                    None \<Rightarrow> (Inr i, t\<lparr>tp_world := w\<lparr>w_rides := rdb, w_offers := off1\<rparr>, tp_stops := sdb\<rparr>)
                  | Some a \<Rightarrow> (case reserveRedemption (reserve_of user i a) off1 of
                        (Inl err, _) \<Rightarrow> (Inl err, t)
                      | (Inr (ReserveRefused why), _) \<Rightarrow>
                          (Inl (if given_code b \<noteq> [] then invalid ''OFFER_NOT_APPLICABLE'' else http_err 409 ''PRICE_CHANGED''), t)
                      | (Inr (ReserveOk k), off2) \<Rightarrow> (Inr i, t\<lparr>tp_world := w\<lparr>w_rides := rdb, w_offers := off2\<rparr>, tp_stops := sdb\<rparr>)))))"

subsection \<open>Booking\<close>

text \<open>Jobs of the queues: the ride, what they need, and their delay in milliseconds.\<close>

datatype job = BroadcastJob nat nat int | DispatchScheduled nat int | GraceCheck nat nat int | ManualFallback nat int

record booking_response =
  bp_ride :: nat
  bp_status :: ride_status
  bp_fare :: num
  bp_surge :: num
  bp_discount :: num
  bp_payable :: num
  bp_jobs :: "job list"

definition fare_request_of :: "booking_env \<Rightarrow> booking_request \<Rightarrow> num \<Rightarrow> num \<times> num \<Rightarrow> fare_request" where
  "fare_request_of e b hours path = \<lparr>fr_category = bk_category b, fr_ride_type = bk_type b, fr_return_cab = Some (coalesce (bk_return_cab b) False),
     fr_distance = Fin (fst path), fr_duration = Fin (snd path), fr_stops = Some (Fin (of_nat (length (bk_stops b)))), fr_hours = Some (Fin hours),
     fr_package = bk_package b, fr_city = be_city e (bk_origin b), fr_version = None\<rparr>"

text \<open>Everything before the transaction: it only reads.\<close>

definition booking_terms :: "booking_env \<Rightarrow> nat \<Rightarrow> booking_request \<Rightarrow> ride_db \<Rightarrow> (int option \<times> num \<times> fare_response \<times> applied_offer option) res" where
  "booking_terms e user b db =
     bind_res (guard_err (bk_scheduled b = None \<and> has_active_ride (be_now e) user db) already_active) (\<lambda>_.
     bind_res (place_checks e b) (\<lambda>_.
     bind_res (schedule_checks e user b db) (\<lambda>sched.
     bind_res (validateRider b) (\<lambda>_.
     bind_res (validateStops (be_libm e) b) (\<lambda>_.
     let hours = clampTripHours (bk_type b) (map_option fin (bk_hours b)) in
     bind_res (boundBookingDistance e b) (\<lambda>path.
     bind_res (getFareEstimate (be_pricing e) (be_now e) (fare_request_of e b hours path)) (\<lambda>quote.
     bind_res (resolveBookingOffer e b (fo_breakdown quote)) (\<lambda>offer.
     Inr (sched, hours, quote, offer)))))))))"

definition booked_jobs :: "int \<Rightarrow> nat \<Rightarrow> int option \<Rightarrow> job list" where
  "booked_jobs now i sched = (case sched of
      Some due \<Rightarrow> [DispatchScheduled i (max (due - 15 * 60000 - now) 0)]
    | None \<Rightarrow> [BroadcastJob i 1 0, BroadcastJob i 2 25000, BroadcastJob i 3 50000])"

text \<open>The status history row is written after the commit; the advance-booking row beside the delayed job is left out.\<close>

definition createBooking :: "booking_env \<Rightarrow> nat \<Rightarrow> booking_request \<Rightarrow> trip \<Rightarrow> booking_response res \<times> trip" where
  "createBooking e user b t =
     (case booking_terms e user b (w_rides (tp_world t)) of Inl err \<Rightarrow> (Inl err, t)
      | Inr (sched, hours, quote, offer) \<Rightarrow>
          (case book_tx e user b sched hours quote offer t of (Inl err, t1) \<Rightarrow> (Inl err, t1)
           | (Inr i, t1) \<Rightarrow>
               let st = (if sched = None then Requested else Scheduled); w = tp_world t1; fare = total (fo_breakdown quote);
                   discount = (case offer of Some a \<Rightarrow> ap_discount a | None \<Rightarrow> 0)
               in (Inr \<lparr>bp_ride = i, bp_status = st, bp_fare = fare, bp_surge = fo_surge quote, bp_discount = discount,
                        bp_payable = payableOf fare (Some discount), bp_jobs = booked_jobs (be_now e) i sched\<rparr>,
                   t1\<lparr>tp_world := w\<lparr>w_rides := logStatusHistory i None st ByUser (Some user) (w_rides w)\<rparr>\<rparr>)))"

subsection \<open>A booking is written completely or not at all\<close>

lemma insert_stops_rows:
  assumes "insert_stops_from ride q xs db = (Inr rows, db')"
  shows "stops db' = stops db @ rows \<and> length rows = length xs
    \<and> (\<forall>k < length xs. sp_ride (rows ! k) = ride \<and> sp_seq (rows ! k) = q + int k \<and> sp_pos (rows ! k) = sn_pos (xs ! k)
        \<and> sp_status (rows ! k) = StopPending \<and> sp_charge (rows ! k) = to_paise (sn_charge (xs ! k)))"
  using assms
proof (induction ride q xs db arbitrary: rows db' rule: insert_stops_from.induct)
  case (2 ride q x xs db)
  obtain row db1 where i: "insert_stop ride q x db = (Inr row, db1)"
    using 2(2) by (auto split: prod.splits sum.splits)
  obtain rest db2 where r: "insert_stops_from ride (q + 1) xs db1 = (Inr rest, db2)" "rows = row # rest" "db' = db2"
    using 2(2) i by (auto split: prod.splits sum.splits)
  have row: "row = new_stop (next_stop db) ride q x" "stops db1 = stops db @ [row]"
    using i by (auto simp: insert_stop_def Let_def split: if_splits)
  note ih = 2(1) [OF i [symmetric] refl r(1)]
  have "sp_seq (rest ! k) = q + int (Suc k)" if "k < length xs" for k using ih that by simp
  then show ?case using ih row r(2,3) by (auto simp: new_stop_def nth_Cons split: nat.split)
qed simp

lemma reserve_ok:
  assumes "reserveRedemption a db = (Inr (ReserveOk k), db')"
  shows "snapshots db' = snapshots db \<and> (\<exists>r \<in> set (redemptions db'). rd_ride r = ra_ride a \<and> rd_offer r = ra_offer a \<and> rd_user r = ra_user a
    \<and> rd_status r = Reserved \<and> rd_discount r = to_paise (ra_discount a) \<and> rd_cashback r = to_paise (ra_cashback a))"
  using assms unfolding reserveRedemption_def Let_def
  by (auto split: option.splits prod.splits if_splits)

lemma createRide_ok:
  assumes "createRide now d db = (Inr i, db')"
  shows "i = length (rides db) \<and> rides db' = rides db @ [inserted_ride now d]"
  using assms by (auto simp: createRide_def Let_def split: if_splits)

text \<open>The transaction: nothing on an error, everything otherwise.\<close>

lemma book_tx_error: "book_tx e user b sched hours quote offer t = (Inl err, t') \<Longrightarrow> t' = t"
  unfolding book_tx_def Let_def by (auto split: prod.splits sum.splits option.splits reserve_result.splits if_splits)

lemma book_tx_ok:
  assumes "book_tx e user b sched hours quote offer t = (Inr i, t')"
  shows "i = length (rides (w_rides (tp_world t)))
    \<and> (\<exists>db. createRide (be_now e) (ride_input_of e user b sched) (w_rides (tp_world t)) = (Inr i, db) \<and> w_rides (tp_world t') = db)
    \<and> (\<exists>rows. insertRideStops i (map (\<lambda>(p, adr). \<lparr>sn_pos = p, sn_address = adr, sn_charge = fo_charge_per_stop quote\<rparr>) (bk_stops b)) (tp_stops t) = (Inr rows, tp_stops t'))
    \<and> snapshots (w_offers (tp_world t')) i = Some (snapshot_of (fo_breakdown quote) offer)
    \<and> (\<forall>a. offer = Some a \<longrightarrow> (\<exists>r \<in> set (redemptions (w_offers (tp_world t'))). rd_ride r = i \<and> rd_offer r = ap_offer a \<and> rd_user r = user
         \<and> rd_status r = Reserved \<and> rd_discount r = to_paise (ap_discount a)))"
proof -
  obtain db where c: "createRide (be_now e) (ride_input_of e user b sched) (w_rides (tp_world t)) = (Inr i, db)"
    using assms unfolding book_tx_def Let_def by (auto split: prod.splits sum.splits option.splits reserve_result.splits if_splits)
  obtain rows sdb where s: "insertRideStops i (map (\<lambda>(p, adr). \<lparr>sn_pos = p, sn_address = adr, sn_charge = fo_charge_per_stop quote\<rparr>) (bk_stops b)) (tp_stops t) = (Inr rows, sdb)"
    using assms c unfolding book_tx_def Let_def by (auto split: prod.splits sum.splits option.splits reserve_result.splits if_splits)
  define off1 where "off1 = (w_offers (tp_world t))\<lparr>snapshots := (snapshots (w_offers (tp_world t)))(i \<mapsto> snapshot_of (fo_breakdown quote) offer)\<rparr>"
  have run: "(case offer of None \<Rightarrow> (Inr i, t\<lparr>tp_world := (tp_world t)\<lparr>w_rides := db, w_offers := off1\<rparr>, tp_stops := sdb\<rparr>)
     | Some a \<Rightarrow> (case reserveRedemption (reserve_of user i a) off1 of (Inl err, _) \<Rightarrow> (Inl err, t)
          | (Inr (ReserveRefused why), _) \<Rightarrow> (Inl (if given_code b \<noteq> [] then invalid ''OFFER_NOT_APPLICABLE'' else http_err 409 ''PRICE_CHANGED''), t)
          | (Inr (ReserveOk k), off2) \<Rightarrow> (Inr i, t\<lparr>tp_world := (tp_world t)\<lparr>w_rides := db, w_offers := off2\<rparr>, tp_stops := sdb\<rparr>))) = (Inr i, t')"
    using assms c s unfolding book_tx_def Let_def off1_def by (auto split: if_splits)
  have i: "i = length (rides (w_rides (tp_world t)))" using createRide_ok [OF c] by simp
  show ?thesis
  proof (cases offer)
    case None
    then show ?thesis using run c s i by (auto simp: off1_def)
  next
    case (Some a)
    obtain k off2 where k: "reserveRedemption (reserve_of user i a) off1 = (Inr (ReserveOk k), off2)"
      and t': "t' = t\<lparr>tp_world := (tp_world t)\<lparr>w_rides := db, w_offers := off2\<rparr>, tp_stops := sdb\<rparr>"
      using run Some by (auto split: prod.splits sum.splits reserve_result.splits)
    show ?thesis using reserve_ok [OF k] Some c s i by (auto simp: t' off1_def reserve_of_def)
  qed
qed

lemma evaluate_enabled: "evaluateOffers env inp b = Inr r \<Longrightarrow> pv_enabled r = cfg_offers_enabled (env_config env)"
  by (auto simp: evaluateOffers_def Let_def split: prod.splits if_splits option.splits)

text \<open>What a booking's offer is: the one the evaluation applied, at the price the rider was shown, under the code the rider typed.\<close>

lemma resolve_ok:
  assumes "resolveBookingOffer e b fare = Inr offer"
  shows "\<And>v. bk_expected b = Some v \<Longrightarrow> \<exists>pv. evaluateOffers (be_offers e) (preview_of e b) fare = Inr pv \<and> offer = pv_applied pv
       \<and> \<not> price_moved (if pv_enabled pv then pv_payable pv else pv_fare_total pv) (Some (fin v))"
    and "given_code b \<noteq> [] \<Longrightarrow> cfg_offers_enabled (env_config (be_offers e)) \<Longrightarrow>
       \<exists>a. offer = Some a \<and> applied_code (be_offers e) (preview_of e b) a = Some (normalizeCode (given_code b))"
    and "given_code b = [] \<Longrightarrow> bk_expected b = None \<Longrightarrow> offer = None"
proof -
  note run = assms [unfolded resolveBookingOffer_def Let_def]
  show "offer = None" if "given_code b = []" "bk_expected b = None"
    using run that by (auto simp: bind_res_def guard_err_def split: if_splits sum.splits)
  have main: "\<exists>pv. evaluateOffers (be_offers e) (preview_of e b) fare = Inr pv
       \<and> (if pv_enabled pv then offer = pv_applied pv \<and> \<not> price_moved (pv_payable pv) (map_option fin (bk_expected b))
            \<and> (given_code b \<noteq> [] \<longrightarrow> (\<exists>a. offer = Some a \<and> applied_code (be_offers e) (preview_of e b) a = Some (normalizeCode (given_code b))))
          else offer = None \<and> \<not> price_moved (pv_fare_total pv) (map_option fin (bk_expected b)))"
    if "\<not> (given_code b = [] \<and> bk_expected b = None)"
  proof (cases "evaluateOffers (be_offers e) (preview_of e b) fare")
    case (Inl err)
    then show ?thesis using run that by (auto simp: bind_res_def guard_err_def split: if_splits)
  next
    case (Inr pv)
    show ?thesis
    proof (cases "pv_enabled pv")
      case True
      then show ?thesis using run that Inr by (auto simp: bind_res_def guard_err_def split: if_splits option.splits)
    next
      case False
      then show ?thesis using run that Inr by (auto simp: bind_res_def guard_err_def split: if_splits)
    qed
  qed
  show "\<exists>pv. evaluateOffers (be_offers e) (preview_of e b) fare = Inr pv \<and> offer = pv_applied pv
       \<and> \<not> price_moved (if pv_enabled pv then pv_payable pv else pv_fare_total pv) (Some (fin v))" if v: "bk_expected b = Some v" for v
  proof -
    obtain pv where pv: "evaluateOffers (be_offers e) (preview_of e b) fare = Inr pv"
      and c: "if pv_enabled pv then offer = pv_applied pv \<and> \<not> price_moved (pv_payable pv) (map_option fin (bk_expected b))
          else offer = None \<and> \<not> price_moved (pv_fare_total pv) (map_option fin (bk_expected b))"
      using main v by (metis option.distinct(1))
    have "\<not> pv_enabled pv \<Longrightarrow> pv_applied pv = None" using evaluate_shape(5) [OF pv] evaluate_enabled [OF pv] by simp
    then show ?thesis using pv c v by (intro exI [of _ pv]) auto
  qed
  show "\<exists>a. offer = Some a \<and> applied_code (be_offers e) (preview_of e b) a = Some (normalizeCode (given_code b))"
    if "given_code b \<noteq> []" "cfg_offers_enabled (env_config (be_offers e))"
    using main that evaluate_enabled by (metis (mono_tags, lifting))
qed

lemma booking_terms_ok:
  assumes "booking_terms e user b db = Inr (sched, hours, quote, offer)"
  shows "resolveBookingOffer e b (fo_breakdown quote) = Inr offer" "sched = Option.bind (bk_scheduled b) id" "sched = None \<longleftrightarrow> bk_scheduled b = None"
    and "bk_scheduled b = None \<Longrightarrow> \<not> has_active_ride (be_now e) user db"
    and "hours = clampTripHours (bk_type b) (map_option fin (bk_hours b))"
    and "\<exists>path. boundBookingDistance e b = Inr path \<and> getFareEstimate (be_pricing e) (be_now e) (fare_request_of e b hours path) = Inr quote"
  using assms unfolding booking_terms_def schedule_checks_def Let_def
  by (auto simp: bind_res_def guard_err_def split: if_splits sum.splits option.splits)

text \<open>A route that is known bounds the kilometres that are priced; a straight line is their lower bound when it is not.\<close>

definition route_bounds :: "booking_env \<Rightarrow> booking_request \<Rightarrow> num \<Rightarrow> bool" where
  "route_bounds e b km \<longleftrightarrow> (case bk_dest b of None \<Rightarrow> bk_distance b = Fin km
     | Some d \<Rightarrow> (case routed_path e (path_legs (booking_path b d)) of
          Some (rkm, _) \<Rightarrow> km = rkm \<or> bk_distance b = Fin km \<and> fmul rkm (fsub 1 (fl (15 / 100))) \<le> km \<and> km \<le> fmul rkm (fadd 1 (fl (15 / 100)))
        | None \<Rightarrow> (case straight_km (be_libm e) (path_legs (booking_path b d)) of
              Some x \<Rightarrow> (if fin (bk_distance b) < x then km = fdiv (of_int (js_round (fmul (fmul x (fl (13 / 10))) 10))) 10 else bk_distance b = Fin km)
            | None \<Rightarrow> bk_distance b = Fin km)))"

lemma bound_ok:
  assumes "boundBookingDistance e b = Inr path"
  shows "route_bounds e b (fst path)"
proof -
  have "\<exists>x. bk_distance b = Fin x" using assms
    by (cases "bk_distance b") (auto simp: boundBookingDistance_def Let_def bind_res_def guard_err_def in_range_def)
  then show ?thesis using assms
    by (auto simp: boundBookingDistance_def route_bounds_def Let_def bind_res_def guard_err_def split: if_splits option.splits prod.splits)
qed

text \<open>
  C7. Booking a ride. A refused booking changes nothing. Otherwise one new ride exists for the rider, without a driver, waiting
  for its time or for a driver, with its stops numbered in the order given and each charged at the rate the fare was quoted
  with, and a fare snapshot whose lines are those of the quote. The quote is the price list's own estimate for the booking on the distance after the correction,
  which is the client's only within fifteen percent of a known route (or not below the straight line when no route is known). The answer's fare, discount and
  payable are those of the quote and the offer applied, and, when one applies, there is a
  reservation of exactly that discount; no other ride is touched and the invariant of the rides is kept. If the app sent the price
  the rider saw, the booking's discount is the one of an evaluation whose price is within a paisa of it, and a code
  the rider typed is the code of the offer applied, or offers are off.
\<close>

theorem booking_all_or_nothing:
  assumes inv: "rides_inv (w_rides (tp_world t))" and run: "createBooking e user b t = (res, t')"
  shows "case res of Inl err \<Rightarrow> t' = t
    | Inr r \<Rightarrow> bp_ride r = length (rides (w_rides (tp_world t)))
       \<and> (\<exists>row. rides (w_rides (tp_world t')) = rides (w_rides (tp_world t)) @ [row] \<and> rr_user row = user \<and> rr_driver row = None
            \<and> rr_status row = bp_status r \<and> bp_status r = (if bk_scheduled b = None then Requested else Scheduled) \<and> rr_type row = bk_type b)
       \<and> rides_inv (w_rides (tp_world t'))
       \<and> (\<exists>rows (quote :: fare_response) path. stops (tp_stops t') = stops (tp_stops t) @ rows \<and> map sp_pos rows = map fst (bk_stops b)
            \<and> (\<forall>k < length rows. sp_ride (rows ! k) = bp_ride r \<and> sp_seq (rows ! k) = int k + 1 \<and> sp_status (rows ! k) = StopPending
                 \<and> sp_charge (rows ! k) = to_paise (fo_charge_per_stop quote))
            \<and> boundBookingDistance e b = Inr path \<and> route_bounds e b (fst path)
            \<and> getFareEstimate (be_pricing e) (be_now e) (fare_request_of e b (clampTripHours (bk_type b) (map_option fin (bk_hours b))) path) = Inr quote
            \<and> bp_fare r = total (fo_breakdown quote) \<and> bp_surge r = fo_surge quote \<and> bp_payable r = payableOf (bp_fare r) (Some (bp_discount r))
            \<and> (\<exists>f. snapshots (w_offers (tp_world t')) (bp_ride r) = Some f \<and> fs_estimated f = to_paise (bp_fare r) \<and> fs_discount f = to_paise (bp_discount r)
                 \<and> fs_base f = to_paise (base_fare (fo_breakdown quote)) \<and> fs_distance f = to_paise (distance_fare (fo_breakdown quote))
                 \<and> fs_time f = to_paise (time_fare (fo_breakdown quote)) \<and> fs_stop f = to_paise (stop_fare (fo_breakdown quote))
                 \<and> fs_surge f = to_paise (surge_fare (fo_breakdown quote)))
            \<and> (\<forall>v. bk_expected b = Some v \<longrightarrow> (\<exists>pv. evaluateOffers (be_offers e) (preview_of e b) (fo_breakdown quote) = Inr pv \<and> bp_discount r = pv_discount pv
                 \<and> \<not> price_moved (if pv_enabled pv then pv_payable pv else pv_fare_total pv) (Some (fin v)))))
       \<and> (bp_discount r \<noteq> 0 \<or> given_code b \<noteq> [] \<and> cfg_offers_enabled (env_config (be_offers e)) \<longrightarrow>
            (\<exists>a \<in> set (redemptions (w_offers (tp_world t'))). rd_ride a = bp_ride r \<and> rd_user a = user \<and> rd_status a = Reserved
               \<and> rd_discount a = to_paise (bp_discount r)))"
proof (cases "booking_terms e user b (w_rides (tp_world t))")
  case (Inl err)
  then show ?thesis using run by (auto simp: createBooking_def)
next
  case (Inr q)
  obtain sched hours quote offer where q: "q = (sched, hours, quote, offer)" by (cases q) auto
  note terms = booking_terms_ok [OF Inr [unfolded q]] and shape = createBooking_def [of e user b t, unfolded Inr q sum.case prod.case]
  obtain x t1 where tx: "book_tx e user b sched hours quote offer t = (x, t1)" by (rule prod.exhaust)
  show ?thesis
  proof (cases x)
    case (Inl err)
    have "res = Inl err" "t' = t1" using run unfolding shape tx Inl prod.case sum.case by simp_all
    then show ?thesis using book_tx_error [OF tx [unfolded Inl]] by simp
  next
    case (Inr i)
    define discount where "discount = (case offer of Some a \<Rightarrow> ap_discount a | None \<Rightarrow> 0)"
    define r where "r = \<lparr>bp_ride = i, bp_status = if sched = None then Requested else Scheduled, bp_fare = total (fo_breakdown quote),
      bp_surge = fo_surge quote, bp_discount = discount, bp_payable = payableOf (total (fo_breakdown quote)) (Some discount),
      bp_jobs = booked_jobs (be_now e) i sched\<rparr>"
    have res: "res = Inr r"
      and t': "t' = t1\<lparr>tp_world := (tp_world t1)\<lparr>w_rides := logStatusHistory i None (if sched = None then Requested else Scheduled) ByUser (Some user) (w_rides (tp_world t1))\<rparr>\<rparr>"
      using run tx shape Inr by (simp_all add: r_def discount_def Let_def)
    note ok = book_tx_ok [OF tx [unfolded Inr]]
    obtain db where c: "createRide (be_now e) (ride_input_of e user b sched) (w_rides (tp_world t)) = (Inr i, db)" "w_rides (tp_world t1) = db"
      using ok by blast
    obtain rows where s: "insertRideStops i (map (\<lambda>(p, adr). \<lparr>sn_pos = p, sn_address = adr, sn_charge = fo_charge_per_stop quote\<rparr>) (bk_stops b)) (tp_stops t) = (Inr rows, tp_stops t1)"
      using ok by blast
    have ride: "i = length (rides (w_rides (tp_world t)))" "rides (w_rides (tp_world t')) = rides (w_rides (tp_world t)) @ [inserted_ride (be_now e) (ride_input_of e user b sched)]"
      using createRide_ok [OF c(1)] c(2) by (simp_all add: t')
    have row: "rr_user (inserted_ride (be_now e) (ride_input_of e user b sched)) = user" "rr_driver (inserted_ride (be_now e) (ride_input_of e user b sched)) = None"
      "rr_status (inserted_ride (be_now e) (ride_input_of e user b sched)) = bp_status r" "rr_type (inserted_ride (be_now e) (ride_input_of e user b sched)) = bk_type b"
      by (simp_all add: inserted_ride_def ride_input_of_def r_def coalesce_def split: option.split)
    have keep: "rides_inv (w_rides (tp_world t'))"
      using createRide_inv [OF inv, of "ride_input_of e user b sched" "be_now e"] c
      by (simp add: t' ride_input_of_def coalesce_def split: option.splits)
    have st: "stops (tp_stops t') = stops (tp_stops t) @ rows" "length rows = length (bk_stops b)"
      "\<And>k. k < length rows \<Longrightarrow> sp_ride (rows ! k) = i \<and> sp_seq (rows ! k) = int k + 1 \<and> sp_status (rows ! k) = StopPending
         \<and> sp_charge (rows ! k) = to_paise (fo_charge_per_stop quote) \<and> sp_pos (rows ! k) = fst (bk_stops b ! k)"
      using insert_stops_rows [OF s [unfolded insertRideStops_def]] by (simp_all add: t' case_prod_unfold)
    have pos: "map sp_pos rows = map fst (bk_stops b)" using st(2,3) by (intro nth_equalityI) auto
    have snap: "snapshots (w_offers (tp_world t')) i = Some (snapshot_of (fo_breakdown quote) offer)"
      using ok [THEN conjunct2, THEN conjunct2, THEN conjunct2, THEN conjunct1] by (simp add: t')
    have red: "\<exists>x \<in> set (redemptions (w_offers (tp_world t'))). rd_ride x = i \<and> rd_user x = user \<and> rd_status x = Reserved \<and> rd_discount x = to_paise discount"
      if applied: "offer \<noteq> None"
    proof -
      obtain a where a: "offer = Some a" using applied by blast
      then show ?thesis using ok [THEN conjunct2, THEN conjunct2, THEN conjunct2, THEN conjunct2, THEN spec [of _ a]] by (auto simp: t' discount_def)
    qed
    have price: "\<exists>pv. evaluateOffers (be_offers e) (preview_of e b) (fo_breakdown quote) = Inr pv \<and> discount = pv_discount pv
         \<and> \<not> price_moved (if pv_enabled pv then pv_payable pv else pv_fare_total pv) (Some (fin v))" if "bk_expected b = Some v" for v
      using resolve_ok(1) [OF terms(1) that] evaluate_shape(2) by (metis (no_types, lifting) discount_def)
    have some: "offer \<noteq> None" if "discount \<noteq> 0 \<or> given_code b \<noteq> [] \<and> cfg_offers_enabled (env_config (be_offers e))"
      using that resolve_ok(2) [OF terms(1)] by (auto simp: discount_def split: option.splits)
    have f: "bp_ride r = i" "bp_fare r = total (fo_breakdown quote)" "bp_discount r = discount" "bp_status r = (if bk_scheduled b = None then Requested else Scheduled)"
      "bp_surge r = fo_surge quote" "bp_payable r = payableOf (total (fo_breakdown quote)) (Some discount)"
      using terms(3) by (simp_all add: r_def)
    obtain path where path: "boundBookingDistance e b = Inr path"
      "getFareEstimate (be_pricing e) (be_now e) (fare_request_of e b (clampTripHours (bk_type b) (map_option fin (bk_hours b))) path) = Inr quote"
      using terms(5,6) by blast
    have snap2: "fs_estimated (snapshot_of (fo_breakdown quote) offer) = to_paise (bp_fare r)" "fs_discount (snapshot_of (fo_breakdown quote) offer) = to_paise (bp_discount r)"
      by (simp_all add: snapshot_of_def f discount_def)
    have snap3: "fs_base (snapshot_of (fo_breakdown quote) offer) = to_paise (base_fare (fo_breakdown quote))"
      "fs_distance (snapshot_of (fo_breakdown quote) offer) = to_paise (distance_fare (fo_breakdown quote))"
      "fs_time (snapshot_of (fo_breakdown quote) offer) = to_paise (time_fare (fo_breakdown quote))"
      "fs_stop (snapshot_of (fo_breakdown quote) offer) = to_paise (stop_fare (fo_breakdown quote))"
      "fs_surge (snapshot_of (fo_breakdown quote) offer) = to_paise (surge_fare (fo_breakdown quote))"
      by (simp_all add: snapshot_of_def)
    show ?thesis unfolding res sum.case
    proof (intro conjI)
      show "\<exists>rows (quote :: fare_response) path. stops (tp_stops t') = stops (tp_stops t) @ rows \<and> map sp_pos rows = map fst (bk_stops b)
            \<and> (\<forall>k < length rows. sp_ride (rows ! k) = bp_ride r \<and> sp_seq (rows ! k) = int k + 1 \<and> sp_status (rows ! k) = StopPending
                 \<and> sp_charge (rows ! k) = to_paise (fo_charge_per_stop quote))
            \<and> boundBookingDistance e b = Inr path \<and> route_bounds e b (fst path)
            \<and> getFareEstimate (be_pricing e) (be_now e) (fare_request_of e b (clampTripHours (bk_type b) (map_option fin (bk_hours b))) path) = Inr quote
            \<and> bp_fare r = total (fo_breakdown quote) \<and> bp_surge r = fo_surge quote \<and> bp_payable r = payableOf (bp_fare r) (Some (bp_discount r))
            \<and> (\<exists>f. snapshots (w_offers (tp_world t')) (bp_ride r) = Some f \<and> fs_estimated f = to_paise (bp_fare r) \<and> fs_discount f = to_paise (bp_discount r)
                 \<and> fs_base f = to_paise (base_fare (fo_breakdown quote)) \<and> fs_distance f = to_paise (distance_fare (fo_breakdown quote))
                 \<and> fs_time f = to_paise (time_fare (fo_breakdown quote)) \<and> fs_stop f = to_paise (stop_fare (fo_breakdown quote))
                 \<and> fs_surge f = to_paise (surge_fare (fo_breakdown quote)))
            \<and> (\<forall>v. bk_expected b = Some v \<longrightarrow> (\<exists>pv. evaluateOffers (be_offers e) (preview_of e b) (fo_breakdown quote) = Inr pv \<and> bp_discount r = pv_discount pv
                 \<and> \<not> price_moved (if pv_enabled pv then pv_payable pv else pv_fare_total pv) (Some (fin v))))"
        unfolding f using path st(1,3) pos price snap snap2 f snap3 bound_ok [OF path(1)]
        by (intro exI [of _ rows] exI [of _ quote] exI [of _ path]) simp
      show "\<exists>row. rides (w_rides (tp_world t')) = rides (w_rides (tp_world t)) @ [row] \<and> rr_user row = user \<and> rr_driver row = None
            \<and> rr_status row = bp_status r \<and> bp_status r = (if bk_scheduled b = None then Requested else Scheduled) \<and> rr_type row = bk_type b"
        by (rule exI [of _ "inserted_ride (be_now e) (ride_input_of e user b sched)"]) (use ride(2) row f(4) in simp)
      show "bp_discount r \<noteq> 0 \<or> given_code b \<noteq> [] \<and> cfg_offers_enabled (env_config (be_offers e)) \<longrightarrow>
            (\<exists>a \<in> set (redemptions (w_offers (tp_world t'))). rd_ride a = bp_ride r \<and> rd_user a = user \<and> rd_status a = Reserved
               \<and> rd_discount a = to_paise (bp_discount r))"
        unfolding f using red some by blast
    qed (use ride(1) keep f(1) in simp_all)
  qed
qed

definition demo_env :: booking_env where
  "demo_env = \<lparr>be_libm = flat_libm, be_in_city = (\<lambda>_ _. False), be_city = (\<lambda>_. Some 3), be_route = (\<lambda>_ _. None),
     be_pricing = demo_pricing, be_offers = demo_offer_env, be_now = 200\<rparr>"

definition demo_booking :: booking_request where
  "demo_booking = \<lparr>bk_category = 4, bk_type = one_way, bk_return_cab = None, bk_origin = (20, 85), bk_dest = None, bk_distance = Fin 8,
     bk_duration = Fin 20, bk_hours = None, bk_stops = [], bk_package = None, bk_scheduled = None, bk_channel = None, bk_rider_name = None,
     bk_rider_phone = None, bk_code = NoCode, bk_expected = None, bk_auto = AutoAbsent\<rparr>"

definition demo_start :: trip where
  "demo_start = \<lparr>tp_world = demo_world, tp_stops = \<lparr>stops = [], next_stop = 0\<rparr>\<rparr>"

definition demo_quote :: fare_response where
  "demo_quote = \<lparr>fo_version = 1, fo_rate_card = 1, fo_surge_event = Some 5, fo_surge = 3 / 2, fo_charge_per_stop = 20,
     fo_breakdown = \<lparr>base_fare = 64, distance_fare = 96, time_fare = 30, stop_fare = 0, hour_surcharge = 0, overage_fare = 0, surge_fare = 95,
       subtotal = 190, total = 285, bd_overage_km = None, waiting_fare = None\<rparr>, fo_rental_hours = None\<rparr>"

lemma demo_quoted: "getFareEstimate demo_pricing 200 (fare_request_of demo_env demo_booking 0 (8, 20)) = Inr demo_quote"
  by code_simp

lemma demo_priced: "boundBookingDistance demo_env demo_booking = Inr (8, 20)"
  by code_simp

lemma demo_fits: "snapshot_fits 0 (snapshot_of (fo_breakdown demo_quote) None)"
  by code_simp

lemma booking_all_or_nothing_witness:
  "\<exists>r t'. createBooking demo_env 8 demo_booking demo_start = (Inr r, t') \<and> bp_ride r = 0 \<and> length (rides (w_rides (tp_world t'))) = 1
     \<and> (\<exists>f. snapshots (w_offers (tp_world t')) 0 = Some f \<and> fs_estimated f = to_paise (bp_fare r))"
proof -
  have h: "clampTripHours one_way None = 0" by (simp add: clampTripHours_def)
  have r: "resolveBookingOffer demo_env demo_booking (fo_breakdown demo_quote) = Inr None"
    by (simp add: resolveBookingOffer_def demo_booking_def given_code_def Let_def)
  have "booking_terms demo_env 8 demo_booking (w_rides (tp_world demo_start)) = Inr (None, 0, demo_quote, None)"
    unfolding booking_terms_def Let_def
    using demo_quoted demo_priced r h
    by (simp add: has_active_ride_def demo_start_def demo_world_def place_checks_def schedule_checks_def validateRider_def validateStops_def
        demo_booking_def demo_env_def)
  moreover have "fst (book_tx demo_env 8 demo_booking None 0 demo_quote None demo_start) = Inr 0"
    using demo_fits by (simp add: book_tx_def Let_def createRide_def driver_index_clash_def user_index_clash_def exists_ride_def insertRideStops_def
        demo_start_def demo_world_def demo_booking_def)
  ultimately obtain r t' where run: "createBooking demo_env 8 demo_booking demo_start = (Inr r, t')"
    by (cases "book_tx demo_env 8 demo_booking None 0 demo_quote None demo_start") (simp add: createBooking_def Let_def)
  have "rides_inv (w_rides (tp_world demo_start))" by (simp add: rides_inv_def ride_at_def demo_start_def demo_world_def)
  from booking_all_or_nothing [OF this run] have "bp_ride r = length (rides (w_rides (tp_world demo_start)))"
    "length (rides (w_rides (tp_world t'))) = Suc (length (rides (w_rides (tp_world demo_start))))"
    "\<exists>f. snapshots (w_offers (tp_world t')) (bp_ride r) = Some f \<and> fs_estimated f = to_paise (bp_fare r)" by auto
  then show ?thesis using run by (simp add: demo_start_def demo_world_def)
qed

text \<open>
  A routed trip within the tolerance keeps the minutes the client sent, whatever they are: only the kilometres are compared
  with the route, although both are the bill.
\<close>

theorem minutes_taken_as_sent:
  assumes "bk_dest b = Some d" "bk_type b = one_way" "bk_hours b = None" "bk_distance b = Fin km" "bk_duration b = Fin mn"
    and "fl (1 / 10) \<le> km" "km \<le> 2000" "1 \<le> mn" "mn \<le> 4320"
    and "routed_path e (path_legs (booking_path b d)) = Some (rkm, rmin)"
    and "fmul rkm (fsub 1 (fl (15 / 100))) \<le> km" "km \<le> fmul rkm (fadd 1 (fl (15 / 100)))"
  shows "boundBookingDistance e b = Inr (km, mn)"
  using assms by (simp add: boundBookingDistance_def Let_def in_range_def)

end
