(* ===== verification/RideOps.thy ===== *)
theory RideOps
  imports Booking
begin

text \<open>
  The handlers of \<open>rides.service.ts\<close> that move a ride from its booking to the start of the trip or to a cancellation, and a
  driver on and off line. A handler reads a row, decides on it, and writes later: the row it has read is the argument
  \<open>seen\<close>, which need not be the row of the table any more. A write is one statement or one transaction. Push messages, sockets,
  call masking and the Redis counters that only feed a log are left out.
\<close>

subsection \<open>State\<close>

record cancellation =
  cn_ride :: nat
  cn_actor :: actor
  cn_stage :: string
  cn_by :: "nat option"
  cn_reason :: "string option"
  cn_fee_applicable :: bool
  cn_fee :: num

text \<open>A PIN belongs to the start (\<open>True\<close>) or the end of a trip.\<close>

record otp_event =
  oe_ride :: nat
  oe_start :: bool
  oe_valid :: bool
  oe_attempt :: int

record ops =
  op_trip :: trip
  op_cancels :: "cancellation list"
  op_start_pins :: "nat \<rightharpoonup> string"
  op_end_pins :: "nat \<rightharpoonup> string"
  op_tries :: "nat \<times> bool \<Rightarrow> int"
  op_otp_events :: "otp_event list"
  op_jobs :: "job list"

text \<open>SHA-256 and the keyed derivation of the end PIN.\<close>

record otp_functions =
  hashOtp :: "string \<Rightarrow> string"
  deriveRideEndOtp :: "nat \<Rightarrow> string"

definition op_rides :: "ops \<Rightarrow> ride_db" where "op_rides s = w_rides (tp_world (op_trip s))"

definition set_world :: "(world \<Rightarrow> world) \<Rightarrow> ops \<Rightarrow> ops" where
  "set_world f s = s\<lparr>op_trip := (op_trip s)\<lparr>tp_world := f (tp_world (op_trip s))\<rparr>\<rparr>"

definition set_rides :: "ride_db \<Rightarrow> ops \<Rightarrow> ops" where
  "set_rides db = set_world (\<lambda>w. w\<lparr>w_rides := db\<rparr>)"

definition set_offers :: "(offer_db \<Rightarrow> offer_db) \<Rightarrow> ops \<Rightarrow> ops" where
  "set_offers f = set_world (\<lambda>w. w\<lparr>w_offers := f (w_offers w)\<rparr>)"

definition logged :: "nat \<Rightarrow> ride_status \<Rightarrow> ride_status \<Rightarrow> actor \<Rightarrow> nat option \<Rightarrow> ops \<Rightarrow> ops" where
  "logged i a b who whose s = set_rides (logStatusHistory i (Some a) b who whose (op_rides s)) s"

definition not_found :: app_error where "not_found = http_err 404 ''''"
definition conflict :: app_error where "conflict = http_err 409 ''''"
definition forbidden :: app_error where "forbidden = http_err 403 ''''"

text \<open>The row of a ride that is the driver's, or the error of the guards every driver handler starts with.\<close>

definition driver_ride :: "nat \<Rightarrow> ride_row option \<Rightarrow> ride_row res" where
  "driver_ride d seen = (case seen of None \<Rightarrow> Inl not_found
     | Some r \<Rightarrow> if rr_driver r = Some d then Inr r else Inl forbidden)"

subsection \<open>Sessions\<close>

record online_request =
  on_mode :: drive_mode
  on_vehicle :: nat

text \<open>What the gates of \<open>goOnline\<close> look up: today's checks, documents, the city's billing mode and the driver's active vehicles.\<close>

record online_env =
  og_verified :: bool
  og_documents :: bool
  og_mode :: "billing_mode option"
  og_min_balance :: num
  og_vehicles :: "nat \<Rightarrow> nat option option"

definition online_gates :: "online_env \<Rightarrow> nat \<Rightarrow> online_request \<Rightarrow> book \<Rightarrow> nat res" where
  "online_gates e d req book =
     bind_res (guard_err (\<not> og_verified e) (http_err 428 ''DAILY_CHECK_REQUIRED'')) (\<lambda>_.
     bind_res (guard_err (\<not> og_documents e) (http_err 403 ''DRIVER_DOCS_REJECTED'')) (\<lambda>_.
     case og_mode e of None \<Rightarrow> Inl (http_err 422 ''CITY_NOT_ASSIGNED'')
     | Some mode \<Rightarrow>
         bind_res (guard_err (mode = Commission \<and> (case wallets book d of Some w \<Rightarrow> wl_frozen w | None \<Rightarrow> False)) (http_err 403 ''WALLET_FROZEN'')) (\<lambda>_.
         bind_res (guard_err (mode = Commission \<and> from_paise (balance book d) < og_min_balance e) (http_err 402 ''LOW_WALLET_BALANCE'')) (\<lambda>_.
         case og_vehicles e (on_vehicle req) of
           Some (Some c) \<Rightarrow> Inr c
         | _ \<Rightarrow> Inl (http_err 422 ''VEHICLE_NOT_ELIGIBLE'')))))"

text \<open>\<open>seen\<close>: the active session the handler has read.\<close>

definition goOnline :: "online_env \<Rightarrow> nat \<Rightarrow> online_request \<Rightarrow> (nat \<times> session) option \<Rightarrow> ops \<Rightarrow> nat res \<times> ops" where
  "goOnline e d req seen s =
     (case online_gates e d req (w_drivers (tp_world (op_trip s))) of Inl err \<Rightarrow> (Inl err, s)
      | Inr c \<Rightarrow>
          if (case seen of Some (k, x) \<Rightarrow> se_status x = OnTrip | None \<Rightarrow> False) then (Inl conflict, s)
          else let db = (case seen of Some (k, x) \<Rightarrow> endSession k ''reconnected'' (op_rides s) | None \<Rightarrow> op_rides s) in
            (case createSession d (on_vehicle req) c (on_mode req) db of
               (Inl err, db1) \<Rightarrow> (Inl err, set_rides db1 s)
             | (Inr k, db1) \<Rightarrow> (Inr k, set_rides (db1\<lparr>available := (available db1)(d \<mapsto> True)\<rparr>) s)))"

definition goOffline :: "nat \<Rightarrow> string \<Rightarrow> (nat \<times> session) option \<Rightarrow> ops \<Rightarrow> ops" where
  "goOffline d why seen s = (case seen of None \<Rightarrow> s
     | Some (k, _) \<Rightarrow> set_rides (set_available d False (endSession k why (op_rides s))) s)"

definition set_paused :: "bool \<Rightarrow> nat \<Rightarrow> (nat \<times> session) option \<Rightarrow> ops \<Rightarrow> ops" where
  "set_paused v d seen s = (case seen of None \<Rightarrow> s
     | Some (k, x) \<Rightarrow> if se_status x = OnlineSession then set_rides (set_available d v (op_rides s)) s else s)"

definition pauseAvailability :: "nat \<Rightarrow> (nat \<times> session) option \<Rightarrow> ops \<Rightarrow> ops" where
  "pauseAvailability = set_paused False"

definition resumeAvailability :: "nat \<Rightarrow> (nat \<times> session) option \<Rightarrow> ops \<Rightarrow> ops" where
  "resumeAvailability = set_paused True"

subsection \<open>From the offer to the start\<close>

definition declineRide :: "nat \<Rightarrow> nat \<Rightarrow> ops \<Rightarrow> ops" where
  "declineRide d i s = set_rides (declineAssignment i d (op_rides s)) s"

definition acceptRide :: "int \<Rightarrow> billing_mode option \<Rightarrow> nat \<Rightarrow> nat \<Rightarrow> ops \<Rightarrow> nat list res \<times> ops" where
  "acceptRide now mode d i s = (case mode of None \<Rightarrow> (Inl (http_err 422 ''CITY_NOT_ASSIGNED''), s)
     | Some m \<Rightarrow> (case acceptAssignment now i d m (op_rides s) of
           (Inl err, db) \<Rightarrow> (Inl err, set_rides db s)
         | (Inr None, db) \<Rightarrow> (Inl conflict, set_rides db s)
         | (Inr (Some lost), db) \<Rightarrow> (Inr lost, logged i Requested Accepted ByDriver (Some d) (set_rides db s))))"

text \<open>
  \<open>fresh\<close> is the PIN just drawn; \<open>reachable\<close> whether the Redis read answers. A retry keeps the PIN the rider is looking at.
\<close>

definition markArrived :: "otp_functions \<Rightarrow> int \<Rightarrow> nat \<Rightarrow> nat \<Rightarrow> ride_row option \<Rightarrow> string \<Rightarrow> bool \<Rightarrow> ops \<Rightarrow> string res \<times> ops" where
  "markArrived h now d i seen fresh reachable s =
     (case driver_ride d seen of Inl err \<Rightarrow> (Inl err, s)
      | Inr _ \<Rightarrow>
          (case updateRideStatusCAS now i [Accepted] DriverArrived (\<lambda>r. r\<lparr>rr_arrived := Some now, rr_start_hash := Some (hashOtp h fresh)\<rparr>) (op_rides s) of
             (Inl err, db) \<Rightarrow> (Inl err, s)
           | (Inr (Some _), db) \<Rightarrow>
               (Inr fresh, (logged i Accepted DriverArrived ByDriver (Some d) (set_rides db s))\<lparr>op_start_pins := (op_start_pins s)(i \<mapsto> fresh)\<rparr>)
           | (Inr None, db) \<Rightarrow>
               if \<not> (case ride_at (op_rides s) i of Some r \<Rightarrow> rr_driver r = Some d \<and> rr_status r = DriverArrived | None \<Rightarrow> False) then (Inl (http_err 409 ''RIDE_NOT_ACCEPTED''), s)
               else (case (if reachable then op_start_pins s i else None) of
                   Some pin \<Rightarrow> (Inr pin, s\<lparr>op_start_pins := (op_start_pins s)(i \<mapsto> pin)\<rparr>)
                 | None \<Rightarrow>
                     (case reissueStartOtpHash now i (hashOtp h fresh) (op_rides s) of
                        (Inl err, db1) \<Rightarrow> (Inl err, s)
                      | (Inr False, db1) \<Rightarrow> (Inl (http_err 409 ''RIDE_NOT_ACCEPTED''), s)
                      | (Inr True, db1) \<Rightarrow> (Inr fresh, (set_rides db1 s)\<lparr>op_start_pins := (op_start_pins s)(i \<mapsto> fresh),
                            op_tries := (op_tries s)((i, True) := 0)\<rparr>)))))"

definition startReturn :: "int \<Rightarrow> nat \<Rightarrow> nat \<Rightarrow> ride_row option \<Rightarrow> ops \<Rightarrow> unit res \<times> ops" where
  "startReturn now d i seen s =
     (case driver_ride d seen of Inl err \<Rightarrow> (Inl err, s)
      | Inr r \<Rightarrow>
          if rr_type r \<noteq> round_trip then (Inl (http_err 422 ''''), s)
          else (case updateRideStatusCAS now i [InProgress] Returning (\<lambda>r. r\<lparr>rr_return := Some now\<rparr>) (op_rides s) of
              (Inl err, db) \<Rightarrow> (Inl err, s)
            | (Inr None, db) \<Rightarrow> (Inl conflict, s)
            | (Inr (Some _), db) \<Rightarrow> (Inr (), logged i InProgress Returning ByDriver (Some d) (set_rides db s))))"

definition RIDE_OTP_MAX_ATTEMPTS :: int where "RIDE_OTP_MAX_ATTEMPTS = 5"

text \<open>The attempt is counted before it is judged; \<open>Inl\<close> keeps the count.\<close>

definition checkRideOtpAttempts :: "nat \<Rightarrow> bool \<Rightarrow> ops \<Rightarrow> int res \<times> ops" where
  "checkRideOtpAttempts i start s =
     (let n = op_tries s (i, start) + 1; s = s\<lparr>op_tries := (op_tries s)((i, start) := n)\<rparr>
      in (if RIDE_OTP_MAX_ATTEMPTS < n then Inl (http_err 429 ''RIDE_OTP_LOCKED'') else Inr n, s))"

text \<open>One guess: the counter, the event row, and on a hit the counter again.\<close>

definition try_otp :: "otp_functions \<Rightarrow> nat \<Rightarrow> bool \<Rightarrow> string option \<Rightarrow> string \<Rightarrow> ops \<Rightarrow> unit res \<times> ops" where
  "try_otp h i start stored otp s =
     (case checkRideOtpAttempts i start s of (Inl err, s) \<Rightarrow> (Inl err, s)
      | (Inr n, s) \<Rightarrow>
          let hit = (stored = Some (hashOtp h otp));
              s = s\<lparr>op_otp_events := op_otp_events s @ [\<lparr>oe_ride = i, oe_start = start, oe_valid = hit, oe_attempt = n\<rparr>]\<rparr>
          in if hit then (Inr (), s\<lparr>op_tries := (op_tries s)((i, start) := 0)\<rparr>) else (Inl (http_err 422 (if start then '''' else ''INVALID_OTP'')), s))"

definition verifyStartOTP :: "otp_functions \<Rightarrow> int \<Rightarrow> nat \<Rightarrow> nat \<Rightarrow> ride_row option \<Rightarrow> string \<Rightarrow> ops \<Rightarrow> unit res \<times> ops" where
  "verifyStartOTP h now d i seen otp s =
     (case driver_ride d seen of Inl err \<Rightarrow> (Inl err, s)
      | Inr r \<Rightarrow>
          if rr_status r \<noteq> DriverArrived then (Inl conflict, s)
          else (case try_otp h i True (rr_start_hash r) otp s of (Inl err, s) \<Rightarrow> (Inl err, s)
            | (Inr _, s) \<Rightarrow>
                (case updateRideStatusCAS now i [DriverArrived] InProgress
                    (\<lambda>r. r\<lparr>rr_started := Some now, rr_end_hash := Some (hashOtp h (deriveRideEndOtp h i))\<rparr>) (op_rides s) of
                   (Inl err, db) \<Rightarrow> (Inl err, s)
                 | (Inr None, db) \<Rightarrow> (Inl (http_err 409 ''RIDE_NOT_ARRIVED''), s)
                 | (Inr (Some _), db) \<Rightarrow>
                     (Inr (), (logged i DriverArrived InProgress ByDriver (Some d) (set_rides db s))\<lparr>op_start_pins := (op_start_pins s)(i := None)\<rparr>))))"

text \<open>The PIN that opens the stored hash: derived, or an old one still in Redis, or the hash is set to the derived one.\<close>

definition getEndOtp :: "otp_functions \<Rightarrow> int \<Rightarrow> nat \<Rightarrow> ops \<Rightarrow> string res \<times> ops" where
  "getEndOtp h now i s =
     (let derived = deriveRideEndOtp h i; stored = Option.bind (ride_at (op_rides s) i) rr_end_hash in
      if stored = Some (hashOtp h derived) then (Inr derived, s)
      else (case op_end_pins s i of
          Some old \<Rightarrow> if old \<noteq> [] \<and> stored = Some (hashOtp h old) then (Inr old, s)
            else (case ride_write now i (\<lambda>_. True) (\<lambda>r. r\<lparr>rr_end_hash := Some (hashOtp h derived)\<rparr>) (op_rides s) of
                (Inl err, _) \<Rightarrow> (Inl err, s) | (Inr _, db) \<Rightarrow> (Inr derived, set_rides db s))
        | None \<Rightarrow> (case ride_write now i (\<lambda>_. True) (\<lambda>r. r\<lparr>rr_end_hash := Some (hashOtp h derived)\<rparr>) (op_rides s) of
                (Inl err, _) \<Rightarrow> (Inl err, s) | (Inr _, db) \<Rightarrow> (Inr derived, set_rides db s))))"

definition has_pending :: "nat \<Rightarrow> ops \<Rightarrow> bool" where
  "has_pending i s \<longleftrightarrow> list_ex (\<lambda>x. sp_status x = StopPending) (getRideStops i (tp_stops (op_trip s)))"

definition markArrivedAtDrop :: "otp_functions \<Rightarrow> int \<Rightarrow> nat \<Rightarrow> nat \<Rightarrow> ride_row option \<Rightarrow> ops \<Rightarrow> string res \<times> ops" where
  "markArrivedAtDrop h now d i seen s =
     (case driver_ride d seen of Inl err \<Rightarrow> (Inl err, s)
      | Inr r \<Rightarrow>
          if rr_status r \<noteq> (if rr_type r = round_trip then Returning else InProgress) then (Inl (http_err 409 ''NOT_AT_DROP_STAGE''), s)
          else if has_pending i s then (Inl (http_err 409 ''RIDE_HAS_PENDING_STOPS''), s)
          else (case ride_write now i (\<lambda>_. True) (\<lambda>r. r\<lparr>rr_drop := Some (coalesce (rr_drop r) now)\<rparr>) (op_rides s) of
              (Inl err, _) \<Rightarrow> (Inl err, s)
            | (Inr _, db) \<Rightarrow> getEndOtp h now i (set_rides db s)))"

definition updateRidePickup :: "libm \<Rightarrow> int \<Rightarrow> nat \<Rightarrow> nat \<Rightarrow> ride_row option \<Rightarrow> pos \<Rightarrow> ops \<Rightarrow> ride_row res \<times> ops" where
  "updateRidePickup lm now user i seen p s = (case seen of None \<Rightarrow> (Inl (http_err 404 ''RIDE_NOT_FOUND''), s)
     | Some r \<Rightarrow>
         if rr_user r \<noteq> user then (Inl (http_err 403 ''FORBIDDEN''), s)
         else if rr_status r \<notin> set [Requested, Accepted] then (Inl (http_err 409 ''PICKUP_NOT_EDITABLE''), s)
         else if nan_lt (Some 150) (distanceMetres lm p (rr_origin r)) then (Inl (http_err 422 ''PICKUP_OUT_OF_RANGE''), s)
         else (case updatePickup now i p [Requested, Accepted] (op_rides s) of
             (Inl err, _) \<Rightarrow> (Inl err, s)
           | (Inr None, _) \<Rightarrow> (Inl (http_err 409 ''PICKUP_UPDATE_CONFLICT''), s)
           | (Inr (Some r'), db) \<Rightarrow> (Inr r', set_rides db s)))"

subsection \<open>Cancelling\<close>

text \<open>\<open>UPDATE rides SET status = st, stamp WHERE id = i AND status = <status read>\<close>.\<close>

definition close_ride :: "int \<Rightarrow> nat \<Rightarrow> ride_status \<Rightarrow> ride_status \<Rightarrow> ride_db \<Rightarrow> bool res \<times> ride_db" where
  "close_ride now i seen st db =
     (case ride_write now i (\<lambda>r. rr_status r = seen)
         (\<lambda>r. if st = Completed then r\<lparr>rr_status := st, rr_completed := Some now\<rparr> else r\<lparr>rr_status := st, rr_cancelled := Some now\<rparr>) db of
        (Inl err, db) \<Rightarrow> (Inl err, db) | (Inr r, db) \<Rightarrow> (Inr (r \<noteq> None), db))"

definition cancelStageFor :: "ride_status \<Rightarrow> string" where
  "cancelStageFor st = (case st of Scheduled \<Rightarrow> ''before_dispatch'' | Accepted \<Rightarrow> ''after_acceptance'' | DriverArrived \<Rightarrow> ''after_arrival''
     | _ \<Rightarrow> ''before_acceptance'')"

definition free_seen_driver :: "nat \<Rightarrow> nat option \<Rightarrow> ride_db \<Rightarrow> ride_db" where
  "free_seen_driver trips d db = (case d of Some d \<Rightarrow> free_driver trips d db | None \<Rightarrow> db)"

text \<open>The fee is read and charged inside the transaction; the driver who is paid and freed is the one of the row read before it.\<close>

definition cancelRide :: "rate_card_row list \<Rightarrow> int \<Rightarrow> nat \<Rightarrow> nat \<Rightarrow> string option \<Rightarrow> ride_row option \<Rightarrow> ops \<Rightarrow> unit res \<times> ops" where
  "cancelRide cards now user i why seen s = (case seen of None \<Rightarrow> (Inl not_found, s)
     | Some r \<Rightarrow>
         if rr_user r \<noteq> user then (Inl forbidden, s)
         else if rr_status r \<notin> set [Scheduled, Requested, Accepted, DriverArrived] then (Inl conflict, s)
         else let stage = cancelStageFor (rr_status r); charged = (rr_status r = DriverArrived); w = tp_world (op_trip s);
                  fee = (if charged then readCancellationFee cards (rr_category r) (rr_type r) (rr_city r) else 0) in
           (case close_ride now i (rr_status r) Cancelled (op_rides s) of
              (Inl err, _) \<Rightarrow> (Inl err, s)
            | (Inr False, _) \<Rightarrow> (Inl conflict, s)
            | (Inr True, db) \<Rightarrow>
                (case chargeCancellationFee fee i user (rr_driver r) (w_users w) (w_drivers w) of
                   None \<Rightarrow> (Inl db_error, s)
                 | Some (ub, dbk) \<Rightarrow>
                     let db = free_seen_driver 0 (rr_driver r) (logStatusHistory i (Some (rr_status r)) Cancelled ByUser (Some user) db);
                         db = (if rr_status r = Scheduled \<or> rr_status r = Requested then snd (cancelAllAssignments i db) else db)
                     in (Inr (), (set_world (\<lambda>w. w\<lparr>w_rides := db, w_users := ub, w_drivers := dbk, w_offers := onRideCancelled i (0 < fee) (w_offers w)\<rparr>) s)
                          \<lparr>op_cancels := op_cancels s @ [\<lparr>cn_ride = i, cn_actor = ByUser, cn_stage = stage, cn_by = Some user, cn_reason = why,
                             cn_fee_applicable = charged, cn_fee = fee\<rparr>]\<rparr>))))"

definition cancelRideAsDriver :: "int \<Rightarrow> nat \<Rightarrow> nat \<Rightarrow> string option \<Rightarrow> ride_row option \<Rightarrow> ops \<Rightarrow> unit res \<times> ops" where
  "cancelRideAsDriver now d i why seen s =
     (case driver_ride d seen of Inl err \<Rightarrow> (Inl err, s)
      | Inr r \<Rightarrow>
          if rr_status r \<notin> set [Accepted, DriverArrived] then (Inl conflict, s)
          else (case close_ride now i (rr_status r) Cancelled (op_rides s) of
              (Inl err, _) \<Rightarrow> (Inl err, s)
            | (Inr False, _) \<Rightarrow> (Inl conflict, s)
            | (Inr True, db) \<Rightarrow>
                (Inr (), (set_world (\<lambda>w. w\<lparr>w_rides := free_driver 0 d (logStatusHistory i (Some (rr_status r)) Cancelled ByDriver (Some d) db),
                     w_offers := onRideCancelled i False (w_offers w)\<rparr>) s)
                   \<lparr>op_cancels := op_cancels s @ [\<lparr>cn_ride = i, cn_actor = ByDriver, cn_stage = cancelStageFor (rr_status r), cn_by = Some d,
                      cn_reason = why, cn_fee_applicable = False, cn_fee = 0\<rparr>]\<rparr>)))"

subsection \<open>Sweeps\<close>

definition expireStaleRequestedRide :: "int \<Rightarrow> nat \<Rightarrow> ops \<Rightarrow> unit res \<times> ops" where
  "expireStaleRequestedRide now i s =
     (case updateRideStatusCAS now i [Requested] NoDrivers id (op_rides s) of
        (Inl err, _) \<Rightarrow> (Inl err, s)
      | (Inr None, _) \<Rightarrow> (Inr (), s)
      | (Inr (Some _), db) \<Rightarrow> (Inr (), logged i Requested NoDrivers BySystem None (set_rides db s)))"

text \<open>The offer of the ride is not released here; the sweep of stale reservations gives it back.\<close>

definition expireStaleAcceptedOrArrivedRide :: "int \<Rightarrow> nat \<Rightarrow> ride_status \<Rightarrow> nat \<Rightarrow> ops \<Rightarrow> unit res \<times> ops" where
  "expireStaleAcceptedOrArrivedRide now i st d s =
     (case close_ride now i st Cancelled (op_rides s) of
        (Inl err, _) \<Rightarrow> (Inl err, s)
      | (Inr False, _) \<Rightarrow> (Inr (), s)
      | (Inr True, db) \<Rightarrow>
          (Inr (), (set_rides (free_driver 0 d (logStatusHistory i (Some st) Cancelled ByTimeout None db)) s)
             \<lparr>op_cancels := op_cancels s @ [\<lparr>cn_ride = i, cn_actor = BySystem, cn_stage = cancelStageFor st, cn_by = None,
                cn_reason = Some ''auto_timeout'', cn_fee_applicable = False, cn_fee = 0\<rparr>]\<rparr>))"

subsection \<open>Manual assignment\<close>

datatype assign_mode = RequestDriver | ForceDriver

text \<open>The driver's row of \<open>getAssignCandidates\<close>.\<close>

record candidate =
  cd_session :: "nat option"
  cd_online :: bool
  cd_eligible :: bool

definition assign_checks :: "ride_row option \<Rightarrow> candidate option \<Rightarrow> bool \<Rightarrow> (ride_row \<times> nat) res" where
  "assign_checks seen cand override = (case seen of None \<Rightarrow> Inl not_found
     | Some r \<Rightarrow>
         bind_res (guard_err (rr_status r \<notin> set [Scheduled, Requested, NoDrivers]) conflict) (\<lambda>_.
         bind_res (guard_err (rr_city r = None) conflict) (\<lambda>_.
         case cand of None \<Rightarrow> Inl not_found
         | Some c \<Rightarrow>
             bind_res (guard_err (\<not> cd_online c) (http_err 422 '''')) (\<lambda>_.
             bind_res (guard_err (\<not> cd_eligible c \<and> \<not> override) (http_err 422 '''')) (\<lambda>_.
             case cd_session c of None \<Rightarrow> Inl (http_err 500 '''') | Some k \<Rightarrow> Inr (r, k))))))"

text \<open>The ride is opened for the driver: a ride that is not waiting goes back to \<open>requested\<close>, and other offers end.\<close>

definition open_for_assignment :: "int \<Rightarrow> nat \<Rightarrow> nat \<Rightarrow> ride_row \<Rightarrow> ops \<Rightarrow> unit res \<times> ops" where
  "open_for_assignment now admin i r s =
     (if rr_status r = Requested then (Inr (), set_rides (snd (cancelAllAssignments i (op_rides s))) s)
      else (case updateRideStatusCAS now i [rr_status r] Requested id (op_rides s) of
          (Inl err, _) \<Rightarrow> (Inl err, s)
        | (Inr None, _) \<Rightarrow> (Inl conflict, s)
        | (Inr (Some _), db) \<Rightarrow>
            (Inr (), set_rides (snd (cancelAllAssignments i (logStatusHistory i (Some (rr_status r)) Requested ByAdmin (Some admin) db))) s)))"

definition force_assign :: "int \<Rightarrow> billing_mode \<Rightarrow> nat \<Rightarrow> nat \<Rightarrow> nat \<Rightarrow> nat \<Rightarrow> string option \<Rightarrow> ops \<Rightarrow> unit res \<times> ops" where
  "force_assign now mode admin d i k job s =
     (let db0 = createRideAssignment i d k now 0 (op_rides s) in
      case acceptAssignment now i d mode db0 of
        (Inl err, db) \<Rightarrow> (Inl err, set_rides db s)
      | (Inr None, db) \<Rightarrow> (Inl conflict, set_rides db s)
      | (Inr (Some lost), db) \<Rightarrow>
          let db = (case job of None \<Rightarrow> db
                | Some j \<Rightarrow> snd (ride_write now i (\<lambda>_. True) (\<lambda>r. r\<lparr>rr_grace := Some j\<rparr>) db))
          in (Inr (), (logged i Requested Accepted ByAdmin (Some admin) (set_rides db s))\<lparr>op_jobs := op_jobs s @ [GraceCheck i d (4 * 60000)]\<rparr>))"

definition request_driver :: "int \<Rightarrow> nat \<Rightarrow> nat \<Rightarrow> nat \<Rightarrow> nat \<Rightarrow> ride_row \<Rightarrow> ops \<Rightarrow> ops" where
  "request_driver now admin d i k r s =
     (let db = createRideAssignment i d k (now + 30000) 0 (op_rides s);
          db = (if rr_status r = Requested then logStatusHistory i (Some Requested) Requested ByAdmin (Some admin) db else db)
      in (set_rides db s)\<lparr>op_jobs := filter (\<lambda>j. case j of ManualFallback i' _ \<Rightarrow> i' \<noteq> i | _ \<Rightarrow> True) (op_jobs s) @ [ManualFallback i 32000]\<rparr>)"

definition adminAssignDriver :: "int \<Rightarrow> billing_mode option \<Rightarrow> nat \<Rightarrow> nat \<Rightarrow> nat \<Rightarrow> assign_mode \<Rightarrow> bool \<Rightarrow> candidate option \<Rightarrow> string option \<Rightarrow> ride_row option \<Rightarrow> ops \<Rightarrow> unit res \<times> ops" where
  "adminAssignDriver now mode admin d i how override cand job seen s =
     (case assign_checks seen cand override of Inl err \<Rightarrow> (Inl err, s)
      | Inr (r, k) \<Rightarrow>
          (case open_for_assignment now admin i r s of (Inl err, s) \<Rightarrow> (Inl err, s)
           | (Inr _, s) \<Rightarrow>
               (case mode of None \<Rightarrow> (Inl not_found, s)
                | Some m \<Rightarrow> (case how of ForceDriver \<Rightarrow> force_assign now m admin d i k job s
                      | RequestDriver \<Rightarrow> (Inr (), request_driver now admin d i k r s)))))"

definition forceAssignGraceCheck :: "int \<Rightarrow> bool \<Rightarrow> nat \<Rightarrow> nat \<Rightarrow> ride_row option \<Rightarrow> ops \<Rightarrow> unit res \<times> ops" where
  "forceAssignGraceCheck now gps d i seen s =
     (if gps then (case ride_write now i (\<lambda>_. True) (\<lambda>r. r\<lparr>rr_grace := None\<rparr>) (op_rides s) of
          (Inl err, _) \<Rightarrow> (Inl err, s) | (Inr _, db) \<Rightarrow> (Inr (), set_rides db s))
      else if \<not> (case seen of Some r \<Rightarrow> rr_status r = Accepted \<and> rr_driver r = Some d | None \<Rightarrow> False) then (Inr (), s)
      else (case revertForceAssign now i d (op_rides s) of
          (Inl err, _) \<Rightarrow> (Inl err, s)
        | (Inr False, _) \<Rightarrow> (Inr (), s)
        | (Inr True, db) \<Rightarrow>
            (Inr (), (logged i Accepted Requested BySystem None (set_rides db s))\<lparr>op_jobs := op_jobs s @ [BroadcastJob i 1 0]\<rparr>)))"

end
