(* ===== verification/TripEnd.thy ===== *)
theory TripEnd
  imports RideOps
begin

text \<open>
  The ends of a trip in \<open>rides.service.ts\<close>: the end code (\<open>verifyEndOTP\<close>, with the settlement of each ride type), the driver's
  early end, and the forced resolution. The lemmas show what the final fare is, that an early end never costs more than the quote,
  and that a one-way trip is billed the same however it was completed.
\<close>

subsection \<open>The final fare\<close>

text \<open>The other columns of the fare snapshot that an end of a trip reads, with the rate card they point to.\<close>

record trip_quote =
  tq_card :: rate_card
  tq_surge :: num
  tq_return_cab :: bool
  tq_km :: num
  tq_hours :: num
  tq_stops :: "num option"
  tq_version :: "int option"
  tq_package :: "rental_pkg option"

definition tq_hourly :: "trip_quote \<Rightarrow> bool" where
  "tq_hourly q \<longleftrightarrow> isHourlyRoundTrip (tq_version q) (tq_hours q) (hour_rate (tq_card q))"

text \<open>A recalculation: \<open>rcd\<close> is what the handler copies of the rate card.\<close>

definition recalc :: "rate_card \<Rightarrow> ride_type \<Rightarrow> trip_quote \<Rightarrow> num \<Rightarrow> num \<Rightarrow> num \<Rightarrow> num \<Rightarrow> num \<Rightarrow> int option \<Rightarrow> fare_breakdown" where
  "recalc rcd ty q km mn n per_stop hours v = calculateFare
     \<lparr>fi_rate_card = rcd, fi_ride_type = ty, fi_is_return_cab = tq_return_cab q, fi_estimated_km = km, fi_estimated_min = mn,
      fi_stop_count = n, fi_charge_per_stop = per_stop, fi_trip_hours = hours, fi_pricing_version = v, fi_surge_multiplier = tq_surge q,
      fi_overage_km = None, fi_overage_min = None, fi_extra_per_km = None, fi_extra_per_min = None, fi_package_fare = None\<rparr>"

definition plain_card :: "rate_card \<Rightarrow> rate_card" where
  "plain_card c = c\<lparr>rc_base_fare := Some (coalesce (rc_base_fare c) 0), hour_rate := None, km_per_day := None, driver_allowance_per_day := None\<rparr>"

text \<open>Driven part at one-way rates, the stop fare of the quote, and the booked hours of an hourly window.\<close>

definition aborted_fare :: "bool \<Rightarrow> trip_quote \<Rightarrow> snapshot_row \<Rightarrow> num \<Rightarrow> num \<Rightarrow> num" where
  "aborted_fare hourly q f km mn =
     (let x = round2 (fadd (total (recalc (plain_card (tq_card q)) one_way q km mn 0 0 0 None)) (from_paise (fs_stop f)))
      in if hourly then round2 (fadd x (fmul (from_paise (coalesce (fs_waiting f) 0)) (tq_surge q))) else x)"

definition early_end_fare :: "trip_quote \<Rightarrow> snapshot_row \<Rightarrow> num \<Rightarrow> num \<Rightarrow> num" where
  "early_end_fare q f km mn = min (aborted_fare (tq_hourly q) q f km mn) (from_paise (fs_estimated f))"

text \<open>The hourly round trip that came back: only kilometres beyond the quoted route add to the quote.\<close>

definition hourly_fare :: "trip_quote \<Rightarrow> snapshot_row \<Rightarrow> num \<Rightarrow> num \<Rightarrow> num" where
  "hourly_fare q f km mn =
     (let n = coalesce (tq_stops q) 0; stop = from_paise (fs_stop f)
      in total (recalc ((plain_card (tq_card q))\<lparr>hour_rate := hour_rate (tq_card q)\<rparr>) round_trip q (max (fmul (tq_km q) 2) km) mn
           n (if 0 < n then fdiv stop n else 0) (tq_hours q) (Some 2)))"

definition daily_fare :: "trip_quote \<Rightarrow> snapshot_row \<Rightarrow> num \<Rightarrow> num \<Rightarrow> num" where
  "daily_fare q f km mn =
     round2 (fadd (total (recalc ((tq_card q)\<lparr>rc_base_fare := Some (coalesce (rc_base_fare (tq_card q)) 0), hour_rate := None\<rparr>) round_trip q km mn 0 0 (fdiv mn 60) None))
       (from_paise (fs_stop f)))"

text \<open>What the end of a trip is measured with: the client's numbers, the breadcrumbs, the clock and the distance to the pickup.\<close>

record end_data =
  ed_km :: "num option"
  ed_min :: "num option"
  ed_gps_km :: "num option"
  ed_away :: "num option"

text \<open>The fare of a round trip before overtime, and the review it asks for (the texts of review notes are shortened).\<close>

definition round_trip_fare :: "bool \<Rightarrow> trip_quote \<Rightarrow> snapshot_row \<Rightarrow> end_data \<Rightarrow> num option \<Rightarrow> num \<times> string list" where
  "round_trip_fare hourly q f e clock =
     (let km = coalesce (ed_km e) (coalesce (ed_gps_km e) 0); mn = coalesce (ed_min e) (coalesce clock 0) in
      if (case ed_away e of Some m \<Rightarrow> 500 < m | None \<Rightarrow> False) then
        (let back = fdiv (coalesce (ed_away e) 0) 1000 in (aborted_fare hourly q f (fadd back back) (fadd mn (fdiv back (fl (1 / 2)))), []))
      else if hourly then (hourly_fare q f (coalesce (ed_gps_km e) km) (coalesce clock mn), [])
      else (daily_fare q f (coalesce (ed_gps_km e) km) (coalesce clock mn), if ed_gps_km e = None then [''client distance''] else []))"

definition note_text :: "review_note \<Rightarrow> string" where
  "note_text n = (case n of KmOverageFromGps \<Rightarrow> ''km overage from GPS'' | KmOverageNotBilled \<Rightarrow> ''km overage not billed'' | OvertimeOver m \<Rightarrow> ''overtime'')"

definition note_list :: "review_note option \<Rightarrow> string list" where
  "note_list x = (case x of None \<Rightarrow> [] | Some n \<Rightarrow> [note_text n])"

text \<open>What to store: nothing, \<open>COALESCE(NULL, total_estimated)\<close>, a fare, or a rental's fare and overage.\<close>

datatype final_fare = KeepSnapshot | QuoteStands | FinalIs num | RentalIs num num

definition end_fare :: "ride_type \<Rightarrow> int option \<Rightarrow> int \<Rightarrow> (trip_quote \<times> snapshot_row) option \<Rightarrow> end_data \<Rightarrow> final_fare \<times> string list" where
  "end_fare ty started now snap e =
     (let clock = map_option (\<lambda>t. elapsed_minutes t now) started;
          hourly = (ty = round_trip \<and> started \<noteq> None \<and> (case snap of Some (q, f) \<Rightarrow> tq_hourly q | None \<Rightarrow> False));
          settled = (ed_km e \<noteq> None \<and> ed_min e \<noteq> None \<or> hourly) in
      case (if ty = rental \<and> clock \<noteq> None then Option.bind snap (\<lambda>(q, f). map_option (\<lambda>p. (q, f, p)) (tq_package q)) else None) of
        Some (q, f, p) \<Rightarrow>
          (let r = settleRentalFare p (from_paise (fs_base f)) (tq_surge q) (ed_gps_km e) (coalesce clock 0) (RENTAL_OVERAGE_GRACE_KM, RENTAL_OVERAGE_GRACE_MIN) RENTAL_MAX_PLAUSIBLE_AVG_KMH
           in (RentalIs (rs_total r) (rs_overage_fare r), note_list (rs_review r)))
      | None \<Rightarrow>
          if \<not> settled then (KeepSnapshot, [])
          else (case (if ty = round_trip then snap else None) of None \<Rightarrow> (QuoteStands, [])
            | Some (q, f) \<Rightarrow>
                (let xn = round_trip_fare hourly q f e clock;
                     ot = settleRoundTripOvertime (coalesce started 0) now (tq_hours q) (coalesce (hour_rate (tq_card q)) 0) None None
                 in if hourly then (FinalIs (round2 (fadd (fst xn) (of_int (overtime_fare ot)))), snd xn @ note_list (ot_review ot))
                    else (FinalIs (fst xn), snd xn))))"

subsection \<open>Writing it\<close>

definition stored_fare :: "final_fare \<Rightarrow> snapshot_row \<Rightarrow> snapshot_row" where
  "stored_fare x f = (case x of KeepSnapshot \<Rightarrow> f | QuoteStands \<Rightarrow> f\<lparr>fs_final := Some (fs_estimated f)\<rparr>
     | FinalIs v \<Rightarrow> f\<lparr>fs_final := Some (to_paise v)\<rparr>
     | RentalIs v ov \<Rightarrow> f\<lparr>fs_final := Some (to_paise v), fs_overage := Some (to_paise ov)\<rparr>)"

definition fare_fits :: "snapshot_row \<Rightarrow> bool" where
  "fare_fits f \<longleftrightarrow> numeric_fits 10 (coalesce (fs_final f) 0) \<and> numeric_fits 10 (coalesce (fs_overage f) 0)"

text \<open>\<open>UPDATE fare_snapshots \<dots> WHERE ride_id = i\<close> and \<open>finaliseDiscount\<close>; \<open>None\<close> when the value does not fit its column.\<close>

definition write_fare :: "num option \<Rightarrow> nat \<Rightarrow> (snapshot_row \<Rightarrow> snapshot_row) \<Rightarrow> offer_db \<Rightarrow> offer_db option" where
  "write_fare pct i g db =
     (if (case snapshots db i of Some f \<Rightarrow> fare_fits (g f) | None \<Rightarrow> True)
      then Some (snd (finaliseDiscount pct i (db\<lparr>snapshots := fst (upd_where (snapshots db) i (\<lambda>_. True) g)\<rparr>))) else None)"

definition with_wait :: "num \<Rightarrow> snapshot_row \<Rightarrow> snapshot_row" where
  "with_wait w f = f\<lparr>fs_final := Some (fs_estimated f + to_paise w)\<rparr>"

definition offers_of :: "ops \<Rightarrow> offer_db" where "offers_of s = w_offers (tp_world (op_trip s))"

definition quoted :: "(nat \<Rightarrow> trip_quote option) \<Rightarrow> nat \<Rightarrow> ops \<Rightarrow> (trip_quote \<times> snapshot_row) option" where
  "quoted quote i s = (case (quote i, snapshots (offers_of s) i) of (Some q, Some f) \<Rightarrow> Some (q, f) | _ \<Rightarrow> None)"

definition flagged :: "int \<Rightarrow> nat \<Rightarrow> string list \<Rightarrow> ops \<Rightarrow> ops" where
  "flagged now i notes s = set_rides (fold (\<lambda>n db. snd (flagRideForReview now i n db)) notes (op_rides s)) s"

text \<open>The metered wait of a one-way ride is added to the estimate, whatever was stored before.\<close>

definition fold_wait :: "num option \<Rightarrow> nat \<Rightarrow> ride_type \<Rightarrow> ops \<Rightarrow> unit res \<times> ops" where
  "fold_wait pct i ty s =
     (let w = getStopWaitTotal i (tp_stops (op_trip s)) in
      if ty = one_way \<and> 0 < w then
        (case write_fare pct i (with_wait w) (offers_of s) of None \<Rightarrow> (Inl db_error, s) | Some db \<Rightarrow> (Inr (), set_offers (\<lambda>_. db) s))
      else (Inr (), s))"

definition settle_end :: "num option \<Rightarrow> (nat \<Rightarrow> trip_quote option) \<Rightarrow> int \<Rightarrow> nat \<Rightarrow> nat \<Rightarrow> ride_row \<Rightarrow> end_data \<Rightarrow> ops \<Rightarrow> unit res \<times> ops" where
  "settle_end pct quote now d i r e s =
     (let x = end_fare (rr_type r) (rr_started r) now (quoted quote i s) e in
      case (if fst x = KeepSnapshot then Some (offers_of s) else write_fare pct i (stored_fare (fst x)) (offers_of s)) of
        None \<Rightarrow> (Inl db_error, s)
      | Some db \<Rightarrow>
          (case fold_wait pct i (rr_type r) (flagged now i (snd x) (set_offers (\<lambda>_. db) s)) of
             (Inl err, s) \<Rightarrow> (Inl err, s)
           | (Inr _, s) \<Rightarrow> (Inr (), set_rides (free_driver 1 d (op_rides s)) s)))"

subsection \<open>The end code\<close>

definition verifyEndOTP :: "otp_functions \<Rightarrow> num option \<Rightarrow> (nat \<Rightarrow> trip_quote option) \<Rightarrow> int \<Rightarrow> nat \<Rightarrow> nat \<Rightarrow> ride_row option \<Rightarrow> string \<Rightarrow> end_data \<Rightarrow> ops \<Rightarrow> unit res \<times> ops" where
  "verifyEndOTP h pct quote now d i seen otp e s =
     (case driver_ride d seen of
        Inl err \<Rightarrow> (Inl (if err = not_found then http_err 404 ''RIDE_NOT_FOUND'' else http_err 403 ''FORBIDDEN''), s)
      | Inr r \<Rightarrow>
          if rr_status r \<notin> set [InProgress, Returning] then (Inl (http_err 409 ''RIDE_NOT_IN_PROGRESS''), s)
          else if has_pending i s then (Inl (http_err 409 ''RIDE_HAS_PENDING_STOPS''), s)
          else (case try_otp h i False (rr_end_hash r) otp s of (Inl err, s) \<Rightarrow> (Inl err, s)
            | (Inr _, s) \<Rightarrow>
                let s = s\<lparr>op_end_pins := (op_end_pins s)(i := None)\<rparr> in
                (case updateRideStatusCAS now i [InProgress, Returning] Completed
                    (\<lambda>r. r\<lparr>rr_completed := Some now, rr_actual_km := ed_km e, rr_actual_min := ed_min e, rr_flagged := None, rr_review := None\<rparr>) (op_rides s) of
                   (Inl err, _) \<Rightarrow> (Inl err, s)
                 | (Inr None, _) \<Rightarrow> (Inl (http_err 409 ''RIDE_NOT_IN_PROGRESS''), s)
                 | (Inr (Some _), db) \<Rightarrow> settle_end pct quote now d i r e (logged i (rr_status r) Completed ByCompletion None (set_rides db s)))))"

subsection \<open>The early end\<close>

text \<open>The fare is written before the ride is taken.\<close>

definition endRideEarlyAsDriver :: "num option \<Rightarrow> (nat \<Rightarrow> trip_quote option) \<Rightarrow> int \<Rightarrow> nat \<Rightarrow> nat \<Rightarrow> ride_row option \<Rightarrow> string \<Rightarrow> num \<Rightarrow> num \<Rightarrow> ops \<Rightarrow> unit res \<times> ops" where
  "endRideEarlyAsDriver pct quote now d i seen why km mn s =
     (case driver_ride d seen of Inl err \<Rightarrow> (Inl err, s)
      | Inr r \<Rightarrow>
          if rr_status r \<notin> set [InProgress, Returning] then (Inl conflict, s)
          else (case (case quoted quote i s of None \<Rightarrow> Some (offers_of s)
                | Some (q, f) \<Rightarrow> write_fare pct i (stored_fare (FinalIs (early_end_fare q f km mn))) (offers_of s)) of
              None \<Rightarrow> (Inl db_error, s)
            | Some off \<Rightarrow>
                let s = set_offers (\<lambda>_. off) s in
                (case updateRideStatusCAS now i [rr_status r] Completed
                    (\<lambda>r. r\<lparr>rr_completed := Some now, rr_flagged := Some now, rr_review := Some (''Ended early by driver: '' @ why)\<rparr>) (op_rides s) of
                   (Inl err, _) \<Rightarrow> (Inl err, s)
                 | (Inr None, _) \<Rightarrow> (Inl conflict, s)
                 | (Inr (Some _), db) \<Rightarrow> (Inr (), set_rides (free_driver 1 d (op_rides (logged i (rr_status r) Completed ByDriver None (set_rides db s)))) s))))"

subsection \<open>Forced resolution\<close>

text \<open>The rest of the transaction once the ride is taken: its stops or its offer, and its driver.\<close>

definition resolve_commit :: "nat \<Rightarrow> bool \<Rightarrow> actor \<Rightarrow> nat option \<Rightarrow> ride_row \<Rightarrow> ride_db \<Rightarrow> ops \<Rightarrow> ops" where
  "resolve_commit i completed who whose r db s =
     (let s = set_rides (free_seen_driver (if completed then 1 else 0) (rr_driver r)
            (logStatusHistory i (Some (rr_status r)) (if completed then Completed else Cancelled) who whose db)) s
      in if completed then s\<lparr>op_trip := (op_trip s)\<lparr>tp_stops := skip_pending i (tp_stops (op_trip s))\<rparr>\<rparr>
         else set_offers (releaseForRide i ''ride cancelled'') s)"

text \<open>The fare of a forced completion is written after the commit; its failure is only logged.\<close>

definition resolve_fare :: "num option \<Rightarrow> nat \<Rightarrow> bool \<Rightarrow> ride_row \<Rightarrow> ops \<Rightarrow> ops" where
  "resolve_fare pct i completed r s =
     (if completed \<and> rr_driver r \<noteq> None
      then (case write_fare pct i (with_wait (if rr_type r = one_way then getStopWaitTotal i (tp_stops (op_trip s)) else 0)) (offers_of s) of
          None \<Rightarrow> s | Some off \<Rightarrow> set_offers (\<lambda>_. off) s)
      else s)"

definition forceResolveRide :: "num option \<Rightarrow> int \<Rightarrow> nat \<Rightarrow> bool \<Rightarrow> actor \<Rightarrow> nat option \<Rightarrow> ride_row option \<Rightarrow> ops \<Rightarrow> unit res \<times> ops" where
  "forceResolveRide pct now i completed who whose seen s = (case seen of None \<Rightarrow> (Inl not_found, s)
     | Some r \<Rightarrow>
         if rr_status r \<notin> set [InProgress, Returning] then (Inl conflict, s)
         else (case ride_write now i (\<lambda>x. rr_status x = rr_status r)
             (\<lambda>x. if completed then x\<lparr>rr_status := Completed, rr_completed := Some now, rr_flagged := None\<rparr>
                else x\<lparr>rr_status := Cancelled, rr_cancelled := Some now, rr_flagged := None\<rparr>) (op_rides s) of
             (Inl err, _) \<Rightarrow> (Inl err, s)
           | (Inr None, _) \<Rightarrow> (Inl conflict, s)
           | (Inr (Some _), db) \<Rightarrow> (Inr (), resolve_fare pct i completed r (resolve_commit i completed who whose r db s))))"

subsection \<open>What ends up in the snapshot\<close>

lemma offers_simps [simp]:
  "offers_of (set_offers g s) = g (offers_of s)" "offers_of (set_rides db s) = offers_of s" "offers_of (logged i a b w x s) = offers_of s"
  "offers_of (flagged now i ns s) = offers_of s"
  "offers_of (s\<lparr>op_end_pins := p\<rparr>) = offers_of s" "offers_of (s\<lparr>op_tries := t\<rparr>) = offers_of s" "offers_of (s\<lparr>op_otp_events := v\<rparr>) = offers_of s"
  by (simp_all add: offers_of_def set_offers_def set_rides_def set_world_def logged_def flagged_def)

lemma stops_simps [simp]:
  "tp_stops (op_trip (set_offers g s)) = tp_stops (op_trip s)" "tp_stops (op_trip (set_rides db s)) = tp_stops (op_trip s)"
  "tp_stops (op_trip (logged i a b w x s)) = tp_stops (op_trip s)" "tp_stops (op_trip (flagged now i ns s)) = tp_stops (op_trip s)"
  by (simp_all add: set_offers_def set_rides_def set_world_def logged_def flagged_def)

lemma write_fare_ok:
  assumes "write_fare pct i g db = Some db'" "snapshots db i = Some f"
  shows "\<exists>x. snapshots db' i = Some ((g f)\<lparr>fs_discount := x\<rparr>)"
proof -
  let ?db = "db\<lparr>snapshots := fst (upd_where (snapshots db) i (\<lambda>_. True) g)\<rparr>"
  have "snapshots ?db i = Some (g f)" using assms(2) by (simp add: upd_where_def)
  moreover have "db' = snd (finaliseDiscount pct i ?db)" using assms(1) by (simp add: write_fare_def split: if_splits)
  ultimately show ?thesis using finalise_snapshot [of ?db i "g f" pct] by simp
qed

lemma settle_end_ok:
  assumes run: "settle_end pct quote now d i r e s = (Inr u, s')" and f: "snapshots (offers_of s) i = Some f"
  defines "w \<equiv> getStopWaitTotal i (tp_stops (op_trip s))"
    and "x \<equiv> fst (end_fare (rr_type r) (rr_started r) now (quoted quote i s) e)"
  shows "\<exists>f'. snapshots (offers_of s') i = Some f' \<and> fs_estimated f' = fs_estimated f
    \<and> fs_final f' = (if rr_type r = one_way \<and> 0 < w then Some (fs_estimated f + to_paise w) else fs_final (stored_fare x f))"
proof -
  let ?n = "snd (end_fare (rr_type r) (rr_started r) now (quoted quote i s) e)"
  obtain db where db: "(if x = KeepSnapshot then Some (offers_of s) else write_fare pct i (stored_fare x) (offers_of s)) = Some db"
    using run unfolding settle_end_def Let_def x_def by (auto split: option.splits)
  have "\<exists>c. snapshots db i = Some ((stored_fare x f)\<lparr>fs_discount := c\<rparr>)"
  proof (cases "x = KeepSnapshot")
    case True
    then have "stored_fare x f = f\<lparr>fs_discount := fs_discount f\<rparr>" by (simp add: stored_fare_def)
    then show ?thesis using db f True by (intro exI [of _ "fs_discount f"]) (simp add: stored_fare_def)
  next
    case False
    then show ?thesis using db write_fare_ok [OF _ f] by simp
  qed
  then obtain c where c: "snapshots db i = Some ((stored_fare x f)\<lparr>fs_discount := c\<rparr>)" by blast
  let ?s1 = "flagged now i ?n (set_offers (\<lambda>_. db) s)"
  obtain y s2 where fw: "fold_wait pct i (rr_type r) ?s1 = (y, s2)" by (rule prod.exhaust)
  have s': "offers_of s' = offers_of s2" "y = Inr ()"
    using run db fw unfolding settle_end_def Let_def x_def by (auto split: sum.splits)
  have est: "fs_estimated (stored_fare x f) = fs_estimated f" by (simp add: stored_fare_def split: final_fare.split)
  show ?thesis
  proof (cases "rr_type r = one_way \<and> 0 < w")
    case True
    then obtain db2 where d2: "write_fare pct i (with_wait w) db = Some db2" "offers_of s2 = db2"
      using fw s'(2) by (auto simp: fold_wait_def Let_def w_def split: option.splits)
    show ?thesis using write_fare_ok [OF d2(1) c] True d2(2) s'(1) est by (auto simp: with_wait_def)
  next
    case False
    then have "offers_of s2 = db" using fw by (auto simp: fold_wait_def Let_def w_def split: if_splits)
    then show ?thesis using c s'(1) est False by auto
  qed
qed

lemma end_fare_one_way: "fst (end_fare one_way started now snap e) = (if ed_km e \<noteq> None \<and> ed_min e \<noteq> None then QuoteStands else KeepSnapshot)"
  by (simp add: end_fare_def Let_def)

text \<open>What a ride is billed before its discount.\<close>

definition bill :: "nat \<Rightarrow> ops \<Rightarrow> paise option" where
  "bill i s = map_option (\<lambda>f. coalesce (fs_final f) (fs_estimated f)) (snapshots (offers_of s) i)"

lemma verifyEndOTP_ok:
  assumes "verifyEndOTP h pct quote now d i (Some r) otp e s = (Inr u, s')"
  shows "rr_driver r = Some d" "rr_status r \<in> {InProgress, Returning}" "\<not> has_pending i s" "rr_end_hash r = Some (hashOtp h otp)"
    "op_tries s (i, False) < 5"
    and "\<exists>s1 db row. updateRideStatusCAS now i [InProgress, Returning] Completed
        (\<lambda>r. r\<lparr>rr_completed := Some now, rr_actual_km := ed_km e, rr_actual_min := ed_min e, rr_flagged := None, rr_review := None\<rparr>) (op_rides s) = (Inr (Some row), db)
      \<and> settle_end pct quote now d i r e s1 = (Inr u, s') \<and> offers_of s1 = offers_of s \<and> tp_stops (op_trip s1) = tp_stops (op_trip s) \<and> rides (op_rides s1) = rides db"
proof -
  obtain x s2 where t: "try_otp h i False (rr_end_hash r) otp s = (x, s2)" by (rule prod.exhaust)
  have g: "rr_driver r = Some d" "rr_status r \<in> {InProgress, Returning}" "\<not> has_pending i s" "x = Inr ()"
    using assms t by (auto simp: verifyEndOTP_def driver_ride_def split: if_splits sum.splits)
  then have hit: "rr_end_hash r = Some (hashOtp h otp)" "op_tries s (i, False) < 5" "op_rides s2 = op_rides s" "offers_of s2 = offers_of s"
      "tp_stops (op_trip s2) = tp_stops (op_trip s)"
    using t by (auto simp: try_otp_def checkRideOtpAttempts_def RIDE_OTP_MAX_ATTEMPTS_def Let_def op_rides_def offers_of_def split: if_splits)
  show "rr_driver r = Some d" "rr_status r \<in> {InProgress, Returning}" "\<not> has_pending i s" "rr_end_hash r = Some (hashOtp h otp)"
    "op_tries s (i, False) < 5" using g hit by simp_all
  let ?s3 = "s2\<lparr>op_end_pins := (op_end_pins s2)(i := None)\<rparr>"
  let ?f = "\<lambda>r. r\<lparr>rr_completed := Some now, rr_actual_km := ed_km e, rr_actual_min := ed_min e, rr_flagged := None, rr_review := None\<rparr>"
  obtain y db where c: "updateRideStatusCAS now i [InProgress, Returning] Completed ?f (op_rides ?s3) = (y, db)" by (rule prod.exhaust)
  have r3: "op_rides ?s3 = op_rides s" using hit(3) by (simp add: op_rides_def)
  have dr: "driver_ride d (Some r) = Inr r" using g(1) by (simp add: driver_ride_def)
  have ns: "\<not> rr_status r \<notin> set [InProgress, Returning]" using g(2) by simp
  have body: "(case y of Inl err \<Rightarrow> (Inl err, ?s3) | Inr None \<Rightarrow> (Inl (http_err 409 ''RIDE_NOT_IN_PROGRESS''), ?s3)
      | Inr (Some _) \<Rightarrow> settle_end pct quote now d i r e (logged i (rr_status r) Completed ByCompletion None (set_rides db ?s3))) = (Inr u, s')"
    using assms unfolding verifyEndOTP_def dr sum.case if_not_P [OF ns] if_not_P [OF g(3)] t g(4) prod.case Let_def c .
  then obtain row where row: "y = Inr (Some row)"
    and se: "settle_end pct quote now d i r e (logged i (rr_status r) Completed ByCompletion None (set_rides db ?s3)) = (Inr u, s')"
    by (auto split: sum.splits option.splits)
  show "\<exists>s1 db row. updateRideStatusCAS now i [InProgress, Returning] Completed ?f (op_rides s) = (Inr (Some row), db)
      \<and> settle_end pct quote now d i r e s1 = (Inr u, s') \<and> offers_of s1 = offers_of s \<and> tp_stops (op_trip s1) = tp_stops (op_trip s) \<and> rides (op_rides s1) = rides db"
    by (rule exI [of _ "logged i (rr_status r) Completed ByCompletion None (set_rides db ?s3)"], rule exI [of _ db], rule exI [of _ row])
      (use c row r3 se hit(4,5) in \<open>simp add: op_rides_def logged_def set_rides_def set_world_def offers_of_def\<close>)
qed

text \<open>The statuses after the settlement.\<close>

lemma flag_status:
  assumes "ride_at db i = Some x"
  shows "\<exists>y. ride_at (snd (flagRideForReview now j why db)) i = Some y \<and> rr_status y = rr_status x \<and> rr_completed y = rr_completed x"
  using assms by (cases rule: ride_write_cases [of now j "\<lambda>r. rr_flagged r = None" "\<lambda>r. r\<lparr>rr_flagged := Some now, rr_review := Some why\<rparr>" db])
    (auto simp: flagRideForReview_def ride_at_set ride_at_bound)

lemma flagged_status:
  assumes "ride_at (op_rides s) i = Some x"
  shows "\<exists>y. ride_at (op_rides (flagged now j ns s)) i = Some y \<and> rr_status y = rr_status x \<and> rr_completed y = rr_completed x"
proof -
  have "\<exists>y. ride_at (fold (\<lambda>n db. snd (flagRideForReview now j n db)) ns db) i = Some y \<and> rr_status y = rr_status x \<and> rr_completed y = rr_completed x"
    if "ride_at db i = Some x" for db x
    using that
  proof (induction ns arbitrary: db x)
    case (Cons n ns)
    obtain y where y: "ride_at (snd (flagRideForReview now j n db)) i = Some y" "rr_status y = rr_status x" "rr_completed y = rr_completed x"
      using flag_status [OF Cons.prems] by blast
    show ?case using Cons.IH [OF y(1)] y(2,3) by simp
  qed simp
  then show ?thesis using assms by (simp add: flagged_def op_rides_def set_rides_def set_world_def)
qed

lemma settle_end_status:
  assumes run: "settle_end pct quote now d i r e s = (Inr u, s')" and x: "ride_at (op_rides s) j = Some x"
  shows "\<exists>y. ride_at (op_rides s') j = Some y \<and> rr_status y = rr_status x \<and> rr_completed y = rr_completed x"
proof -
  let ?x = "end_fare (rr_type r) (rr_started r) now (quoted quote i s) e"
  obtain db where db: "(if fst ?x = KeepSnapshot then Some (offers_of s) else write_fare pct i (stored_fare (fst ?x)) (offers_of s)) = Some db"
    using run unfolding settle_end_def Let_def by (auto split: option.splits)
  let ?s1 = "flagged now i (snd ?x) (set_offers (\<lambda>_. db) s)"
  obtain y s2 where fw: "fold_wait pct i (rr_type r) ?s1 = (y, s2)" by (rule prod.exhaust)
  have "op_rides s2 = op_rides ?s1"
    using fw by (auto simp: fold_wait_def Let_def op_rides_def set_offers_def set_world_def split: if_splits option.splits)
  moreover have "op_rides s' = free_driver 1 d (op_rides s2)"
    using run db fw unfolding settle_end_def Let_def by (auto simp: op_rides_def set_rides_def set_world_def split: sum.splits)
  moreover have "op_rides (set_offers (\<lambda>_. db) s) = op_rides s" by (simp add: op_rides_def set_offers_def set_world_def)
  ultimately show ?thesis using flagged_status [of "set_offers (\<lambda>_. db) s" j x now i "snd ?x"] x by simp
qed

subsection \<open>The bill\<close>

text \<open>The snapshot is the one of an hourly round-trip quote.\<close>

definition hourly_quote :: "trip_quote \<Rightarrow> snapshot_row \<Rightarrow> estimate_params \<Rightarrow> bool" where
  "hourly_quote q f p \<longleftrightarrow> ep_ride_type p = round_trip \<and> ep_pricing_version p = Some 2 \<and> ep_rate_card p = tq_card q \<and> ep_is_return_cab p = tq_return_cab q
     \<and> ep_distance_km p = fmul (tq_km q) 2 \<and> ep_trip_hours p = Some (tq_hours q) \<and> ep_surge_multiplier p = Some (tq_surge q)
     \<and> (\<exists>n. n \<le> MAX_STOPS_PER_RIDE \<and> tq_stops q = Some (of_nat n) \<and> ep_stop_count p = Some (of_nat n))
     \<and> fs_estimated f = to_paise (total (estimateFare p)) \<and> from_paise (fs_stop f) = stop_fare (estimateFare p)
     \<and> numeric_fits 10 (fs_stop f) \<and> 0 \<le> fs_stop f \<and> is_amount (total (estimateFare p))"

lemma stop_share:
  assumes "0 \<le> k" "numeric_fits 10 k" "0 < n" "n \<le> 3"
  shows "round2 (fmul (of_nat n) (fdiv (from_paise k) (of_nat n))) = from_paise k"
proof -
  let ?x = "from_paise k" and ?n = "of_nat n :: rat"
  have k: "0 \<le> k" "k \<le> 10 ^ 10" using assms(1,2) by (simp_all add: numeric_fits_def)
  then have k': "(of_int k :: rat) \<le> 10 ^ 10" "0 \<le> (of_int k :: rat)" using of_int_le_iff [of k "10 ^ 10", where 'a = rat] by simp_all
  have ok: "paise_ok k" using k by (simp add: paise_ok_def)
  have n: "1 \<le> ?n" "?n \<le> 3" using assms(3,4) by simp_all
  have x: "\<bar>?x - of_int k / 100\<bar> \<le> 1 / 8000" by (rule from_paise_error [OF ok])
  have "of_int k / 100 \<le> (100000000 :: rat)" using k'(1) by simp
  then have x2: "?x \<le> 100000001" using abs_le_D1 [OF x] by linarith
  have x0: "0 \<le> ?x" by (rule from_paise_nonneg [OF k(1)])
  define y where "y = fdiv ?x ?n"
  have q0: "0 \<le> ?x / ?n" using x0 n(1) by simp
  have "?x / ?n \<le> ?x / 1" using x0 n(1) by (intro divide_left_mono) simp_all
  moreover have "\<bar>y - ?x / ?n\<bar> \<le> ?x / ?n / 2 ^ 53" using fl_error [of "?x / ?n"] unfolding y_def fdiv_def abs_of_nonneg [OF q0] .
  ultimately have "\<bar>y - ?x / ?n\<bar> \<le> ?x / 2 ^ 53" by simp
  then have dn: "\<bar>y - ?x / ?n\<bar> \<le> 1 / 10000000" using x2 by simp
  have yn: "\<bar>?n * y - ?x\<bar> \<le> 1 / 1000000"
  proof -
    have "?n * y - ?x = ?n * (y - ?x / ?n)" using n by (simp add: field_simps)
    then have "\<bar>?n * y - ?x\<bar> = ?n * \<bar>y - ?x / ?n\<bar>" using n by (simp add: abs_mult)
    also have "\<dots> \<le> 3 * (1 / 10000000)" using mult_mono [OF n(2) dn] n by simp
    finally show ?thesis by simp
  qed
  have "\<bar>fmul ?n y - ?n * y\<bar> \<le> \<bar>?n * y\<bar> / 2 ^ 53" unfolding fmul_def by (rule fl_error)
  moreover have "\<bar>?n * y\<bar> \<le> 100000002" using yn x0 x2 by linarith
  ultimately have "\<bar>fmul ?n y - ?n * y\<bar> \<le> 1 / 10000000" by simp
  then have "\<bar>fmul ?n y - of_int k / 100\<bar> \<le> 1 / 1000" using yn x by linarith
  then show ?thesis unfolding y_def by (rule round2_near [OF _ ok])
qed

lemma hourly_total_cong:
  assumes "per_km_rate i = per_km_rate j" "flat_base i = flat_base j" "fi_trip_hours i = fi_trip_hours j" "fi_estimated_km i = fi_estimated_km j"
    and "hour_rate (fi_rate_card i) = hour_rate (fi_rate_card j)" "min_fare (fi_rate_card i) = min_fare (fi_rate_card j)"
    and "round2 (fmul (fi_stop_count i) (fi_charge_per_stop i)) = round2 (fmul (fi_stop_count j) (fi_charge_per_stop j))"
    and "fi_surge_multiplier i = fi_surge_multiplier j"
  shows "total (hourly_round_trip_fare i) = total (hourly_round_trip_fare j)"
  unfolding hourly_round_trip_fare_def Let_def fare_breakdown.simps by (simp only: assms)

lemma hourly_fare_is_quote:
  assumes q: "hourly_quote q f p" and h: "tq_hourly q" and km: "km \<le> fmul (tq_km q) 2"
  shows "hourly_fare q f km mn = total (estimateFare p)"
proof -
  obtain n where n: "n \<le> 3" "tq_stops q = Some (of_nat n)" "ep_stop_count p = Some (of_nat n)"
    using q by (auto simp: hourly_quote_def MAX_STOPS_PER_RIDE_def)
  let ?c = "(plain_card (tq_card q))\<lparr>hour_rate := hour_rate (tq_card q)\<rparr>" and ?s = "from_paise (fs_stop f)"
  have hr: "isHourlyRoundTrip (Some 2) (tq_hours q) (hour_rate (tq_card q))"
    using h by (auto simp: tq_hourly_def isHourlyRoundTrip_def)
  have stop: "stop_fare (estimateFare p) = round2 (fmul (of_nat n) (coalesce (ep_charge_per_stop p) 0))"
    using q hr n(3) by (simp add: hourly_quote_def estimateFare_def calculateFare_def hourly_round_trip_fare_def Let_def)
  have share: "round2 (fmul (of_nat n) (if 0 < (of_nat n :: rat) then fdiv ?s (of_nat n) else 0)) = stop_fare (estimateFare p)"
  proof (cases "n = 0")
    case True
    then show ?thesis using stop by (simp add: fmul_def)
  next
    case False
    then show ?thesis using stop_share [of "fs_stop f" n] n(1) q by (simp add: hourly_quote_def)
  qed
  have mx: "max (fmul (tq_km q) 2) km = fmul (tq_km q) 2" using km by simp
  let ?i = "\<lparr>fi_rate_card = ?c, fi_ride_type = round_trip, fi_is_return_cab = tq_return_cab q, fi_estimated_km = fmul (tq_km q) 2, fi_estimated_min = mn,
      fi_stop_count = of_nat n, fi_charge_per_stop = (if 0 < (of_nat n :: rat) then fdiv ?s (of_nat n) else 0), fi_trip_hours = tq_hours q,
      fi_pricing_version = Some 2, fi_surge_multiplier = tq_surge q, fi_overage_km = None, fi_overage_min = None, fi_extra_per_km = None,
      fi_extra_per_min = None, fi_package_fare = None\<rparr>"
  have a: "hourly_fare q f km mn = total (hourly_round_trip_fare ?i)"
    using hr n(2) unfolding hourly_fare_def Let_def mx recalc_def calculateFare_def by simp
  obtain j where j: "estimateFare p = hourly_round_trip_fare j" "fi_rate_card j = tq_card q" "fi_is_return_cab j = tq_return_cab q"
      "fi_estimated_km j = fmul (tq_km q) 2" "fi_stop_count j = of_nat n" "fi_charge_per_stop j = coalesce (ep_charge_per_stop p) 0"
      "fi_trip_hours j = tq_hours q" "fi_surge_multiplier j = tq_surge q"
    using q hr n(3) unfolding estimateFare_def calculateFare_def hourly_quote_def by (elim conjE) simp
  have "total (hourly_round_trip_fare ?i) = total (hourly_round_trip_fare j)"
  proof (rule hourly_total_cong)
    show "per_km_rate ?i = per_km_rate j"
      by (cases "return_rate_per_km (tq_card q)") (simp_all add: per_km_rate_def plain_card_def j)
    show "flat_base ?i = flat_base j" by (cases "rc_base_fare (tq_card q)") (simp_all add: flat_base_def plain_card_def j)
    show "round2 (fmul (fi_stop_count ?i) (fi_charge_per_stop ?i)) = round2 (fmul (fi_stop_count j) (fi_charge_per_stop j))"
      using share stop j by simp
  qed (simp_all add: j plain_card_def)
  then show ?thesis using a j(1) by simp
qed

lemma end_fare_rental:
  assumes "snap = Some (q, f)" "tq_package q = Some p"
  shows "fst (end_fare rental (Some t0) now snap e) = RentalIs (rs_total (settleRentalFare p (from_paise (fs_base f)) (tq_surge q) (ed_gps_km e)
      (elapsed_minutes t0 now) (RENTAL_OVERAGE_GRACE_KM, RENTAL_OVERAGE_GRACE_MIN) RENTAL_MAX_PLAUSIBLE_AVG_KMH))
    (rs_overage_fare (settleRentalFare p (from_paise (fs_base f)) (tq_surge q) (ed_gps_km e)
      (elapsed_minutes t0 now) (RENTAL_OVERAGE_GRACE_KM, RENTAL_OVERAGE_GRACE_MIN) RENTAL_MAX_PLAUSIBLE_AVG_KMH))"
  using assms by (simp add: end_fare_def Let_def)

text \<open>An hourly round trip back in time and within the quoted route: the overtime is nothing.\<close>

lemma end_fare_hourly:
  assumes q: "hourly_quote q f p" "tq_hourly q" and km: "coalesce (ed_gps_km e) (coalesce (ed_km e) 0) \<le> fmul (tq_km q) 2"
    and home: "\<not> (case ed_away e of Some m \<Rightarrow> 500 < m | None \<Rightarrow> False)"
    and ot: "overtime_min (settleRoundTripOvertime t0 now (tq_hours q) (coalesce (hour_rate (tq_card q)) 0) None None) = 0"
  shows "fst (end_fare round_trip (Some t0) now (Some (q, f)) e) = FinalIs (total (estimateFare p))"
proof -
  let ?t = "total (estimateFare p)"
  have z: "overtime_fare (settleRoundTripOvertime t0 now (tq_hours q) (coalesce (hour_rate (tq_card q)) 0) None None) = 0"
    using ot js_round_of_int [of 0] by (simp add: settleRoundTripOvertime_def Let_def fmul_def fdiv_def)
  have km': "coalesce (ed_gps_km e) (coalesce (ed_km e) (coalesce (ed_gps_km e) 0)) \<le> fmul (tq_km q) 2"
    using km by (simp add: coalesce_def split: option.splits)
  obtain k where k: "?t = from_paise k" "paise_ok k"
    using q(1) by (auto simp: hourly_quote_def is_amount_def paise_ok_def intro!: exI [of _ "cents ?t"])
  then have "round2 (fadd ?t (of_int 0)) = ?t"
    using round2_fadd_paise [of k 0] by (simp add: paise_ok_def)
  then show ?thesis
    using hourly_fare_is_quote [OF q km'] home q(2) unfolding end_fare_def Let_def
    by (simp add: round_trip_fare_def z)
qed

text \<open>
  C5. The end of a trip. An end code is accepted only from the ride's driver, for the PIN whose hash the row read holds, within five
  guesses and with no stop pending, and only while the ride is under way; then the ride is completed. The bill is fixed: one way the
  estimate plus the metered waits, for a package rental its settlement by the breadcrumbs and the clock, and for an hourly
  round trip that is back in time and within the quoted route exactly the quote, to the paisa and through every float.
\<close>

theorem trip_end_bill:
  assumes run: "verifyEndOTP h pct quote now d i (Some r) otp e s = (Inr u, s')"
    and f: "snapshots (offers_of s) i = Some f" "fs_final f = None"
  shows "rr_driver r = Some d \<and> rr_end_hash r = Some (hashOtp h otp) \<and> op_tries s (i, False) < 5 \<and> \<not> has_pending i s
    \<and> (\<exists>x y. ride_at (op_rides s) i = Some x \<and> rr_status x \<in> {InProgress, Returning}
         \<and> ride_at (op_rides s') i = Some y \<and> rr_status y = Completed \<and> rr_completed y = Some now)
    \<and> (rr_type r = one_way \<longrightarrow> bill i s' = Some (fs_estimated f + to_paise (max (getStopWaitTotal i (tp_stops (op_trip s))) 0)))
    \<and> (\<forall>q p t0. rr_type r = rental \<and> quote i = Some q \<and> tq_package q = Some p \<and> rr_started r = Some t0 \<longrightarrow>
         bill i s' = Some (to_paise (rs_total (settleRentalFare p (from_paise (fs_base f)) (tq_surge q) (ed_gps_km e) (elapsed_minutes t0 now)
           (RENTAL_OVERAGE_GRACE_KM, RENTAL_OVERAGE_GRACE_MIN) RENTAL_MAX_PLAUSIBLE_AVG_KMH))))
    \<and> (\<forall>q p t0. rr_type r = round_trip \<and> quote i = Some q \<and> hourly_quote q f p \<and> tq_hourly q \<and> rr_started r = Some t0
         \<and> coalesce (ed_gps_km e) (coalesce (ed_km e) 0) \<le> fmul (tq_km q) 2 \<and> \<not> (case ed_away e of Some m \<Rightarrow> 500 < m | None \<Rightarrow> False)
         \<and> overtime_min (settleRoundTripOvertime t0 now (tq_hours q) (coalesce (hour_rate (tq_card q)) 0) None None) = 0 \<longrightarrow>
         bill i s' = Some (fs_estimated f))"
proof -
  note ok = verifyEndOTP_ok [OF run]
  obtain s1 db row where c: "updateRideStatusCAS now i [InProgress, Returning] Completed
        (\<lambda>r. r\<lparr>rr_completed := Some now, rr_actual_km := ed_km e, rr_actual_min := ed_min e, rr_flagged := None, rr_review := None\<rparr>) (op_rides s) = (Inr (Some row), db)"
    and se: "settle_end pct quote now d i r e s1 = (Inr u, s')" and same: "offers_of s1 = offers_of s" "tp_stops (op_trip s1) = tp_stops (op_trip s)"
    and rides: "rides (op_rides s1) = rides db" using ok(6) by blast
  obtain x where x: "ride_at (op_rides s) i = Some x" "rr_status x \<in> {InProgress, Returning}" "rr_status row = Completed" "rr_completed row = Some now"
      "db = (op_rides s)\<lparr>rides := (rides (op_rides s))[i := row]\<rparr>"
    using c unfolding updateRideStatusCAS_def ride_write_Some by auto
  have "ride_at (op_rides s1) i = Some row" using x(1,5) rides by (simp add: ride_at_def split: if_splits)
  then obtain y where y: "ride_at (op_rides s') i = Some y" "rr_status y = Completed" "rr_completed y = Some now"
    using settle_end_status [OF se] x(3,4) by fastforce
  have f1: "snapshots (offers_of s1) i = Some f" using f same by simp
  have qd: "quoted quote i s1 = map_option (\<lambda>q. (q, f)) (quote i)" by (cases "quote i") (simp_all add: quoted_def f1)
  have fin: "bill i s' = Some (if rr_type r = one_way \<and> 0 < getStopWaitTotal i (tp_stops (op_trip s)) then fs_estimated f + to_paise (getStopWaitTotal i (tp_stops (op_trip s)))
      else coalesce (fs_final (stored_fare (fst (end_fare (rr_type r) (rr_started r) now (map_option (\<lambda>q. (q, f)) (quote i)) e)) f)) (fs_estimated f))"
    using settle_end_ok [OF se f1] unfolding same qd by (auto simp: bill_def)
  have one: "bill i s' = Some (fs_estimated f + to_paise (max (getStopWaitTotal i (tp_stops (op_trip s))) 0))" if "rr_type r = one_way"
  proof (cases "0 < getStopWaitTotal i (tp_stops (op_trip s))")
    case True
    then show ?thesis using fin that by (simp add: max_def)
  next
    case False
    have "coalesce (fs_final (stored_fare (fst (end_fare one_way (rr_started r) now (map_option (\<lambda>q. (q, f)) (quote i)) e)) f)) (fs_estimated f) = fs_estimated f"
      using f(2) by (simp add: end_fare_one_way stored_fare_def)
    moreover have "to_paise 0 = 0" using to_from_paise [of 0] by (simp add: paise_ok_def)
    ultimately show ?thesis using fin that False by (simp add: max_def)
  qed
  have rent: "bill i s' = Some (to_paise (rs_total (settleRentalFare p (from_paise (fs_base f)) (tq_surge q) (ed_gps_km e) (elapsed_minutes t0 now)
           (RENTAL_OVERAGE_GRACE_KM, RENTAL_OVERAGE_GRACE_MIN) RENTAL_MAX_PLAUSIBLE_AVG_KMH)))"
    if "rr_type r = rental" "quote i = Some q" "tq_package q = Some p" "rr_started r = Some t0" for q p t0
    using fin that end_fare_rental [of "Some (q, f)" q f p t0 now e] by (simp add: stored_fare_def)
  have hour: "bill i s' = Some (fs_estimated f)"
    if "rr_type r = round_trip" "quote i = Some q" "hourly_quote q f p" "tq_hourly q" "rr_started r = Some t0"
      "coalesce (ed_gps_km e) (coalesce (ed_km e) 0) \<le> fmul (tq_km q) 2" "\<not> (case ed_away e of Some m \<Rightarrow> 500 < m | None \<Rightarrow> False)"
      "overtime_min (settleRoundTripOvertime t0 now (tq_hours q) (coalesce (hour_rate (tq_card q)) 0) None None) = 0" for q p t0
    using fin that(1,2,5) end_fare_hourly [OF that(3,4,6,7,8)] that(3) by (simp add: stored_fare_def hourly_quote_def)
  show ?thesis using ok(1,3,4,5) x(1,2) y one rent hour by blast
qed

definition demo_on_trip :: ride_row where
  "demo_on_trip = demo_ride\<lparr>rr_status := InProgress, rr_driver := Some 5, rr_started := Some 0, rr_end_hash := Some ''7777''\<rparr>"

definition demo_ending :: ops where
  "demo_ending = \<lparr>op_trip = demo_start\<lparr>tp_world := demo_world\<lparr>w_rides := demo_rides\<lparr>rides := [demo_on_trip]\<rparr>,
       w_offers := demo_discounted\<lparr>snapshots := [0 \<mapsto> demo_snapshot\<lparr>fs_final := None\<rparr>], redemptions := []\<rparr>\<rparr>\<rparr>, op_cancels = [], op_start_pins = Map.empty,
     op_end_pins = Map.empty, op_tries = (\<lambda>_. 0), op_otp_events = [], op_jobs = []\<rparr>"

definition demo_otp :: otp_functions where
  "demo_otp = \<lparr>hashOtp = id, deriveRideEndOtp = (\<lambda>_. ''7777'')\<rparr>"

definition no_data :: end_data where "no_data = \<lparr>ed_km = None, ed_min = None, ed_gps_km = None, ed_away = None\<rparr>"

lemma demo_ending_rides: "op_rides demo_ending = demo_rides\<lparr>rides := [demo_on_trip]\<rparr>"
  by (simp add: op_rides_def demo_ending_def)

lemma demo_ending_fare: "snapshots (offers_of demo_ending) 0 = Some (demo_snapshot\<lparr>fs_final := None\<rparr>)"
  by (simp add: offers_of_def demo_ending_def)

lemma demo_no_stops: "getStopWaitTotal 0 (tp_stops (op_trip demo_ending)) = 0" "\<not> has_pending 0 demo_ending"
  by (simp_all add: getStopWaitTotal_def has_pending_def getRideStops_def demo_ending_def demo_start_def)

lemma demo_settles:
  assumes "offers_of s = offers_of demo_ending" "tp_stops (op_trip s) = tp_stops (op_trip demo_ending)"
  shows "fst (settle_end None (\<lambda>_. None) 900 5 0 demo_on_trip no_data s) = Inr ()"
proof -
  have x: "end_fare (rr_type demo_on_trip) t n x no_data = (KeepSnapshot, [])" for t n x
    by (simp add: end_fare_def Let_def no_data_def demo_on_trip_def demo_ride_def)
  have "fold_wait None 0 (rr_type demo_on_trip) (flagged 900 0 [] (set_offers (\<lambda>_. offers_of s) s))
      = (Inr (), flagged 900 0 [] (set_offers (\<lambda>_. offers_of s) s))"
    using assms(2) demo_no_stops(1) by (simp add: fold_wait_def Let_def)
  then show ?thesis by (simp add: settle_end_def Let_def x)
qed

lemma demo_ends: "\<exists>s'. verifyEndOTP demo_otp None (\<lambda>_. None) 900 5 0 (Some demo_on_trip) ''7777'' no_data demo_ending = (Inr (), s')"
proof -
  obtain s2 where t: "try_otp demo_otp 0 False (rr_end_hash demo_on_trip) ''7777'' demo_ending = (Inr (), s2)" "op_rides s2 = op_rides demo_ending"
      "offers_of s2 = offers_of demo_ending" "tp_stops (op_trip s2) = tp_stops (op_trip demo_ending)"
    by (simp add: try_otp_def checkRideOtpAttempts_def RIDE_OTP_MAX_ATTEMPTS_def Let_def demo_otp_def demo_on_trip_def demo_ending_def op_rides_def offers_of_def)
  define s1 where "s1 = s2\<lparr>op_end_pins := (op_end_pins s2)(0 := None)\<rparr>"
  have s1': "op_rides s1 = op_rides demo_ending" "offers_of s1 = offers_of demo_ending" "tp_stops (op_trip s1) = tp_stops (op_trip demo_ending)"
    using t(2,3,4) by (simp_all add: s1_def op_rides_def offers_of_def)
  let ?f = "\<lambda>r. r\<lparr>rr_completed := Some 900, rr_actual_km := ed_km no_data, rr_actual_min := ed_min no_data, rr_flagged := None, rr_review := None\<rparr>"
  obtain row db where c: "updateRideStatusCAS 900 0 [InProgress, Returning] Completed ?f (op_rides s1) = (Inr (Some row), db)"
    by (simp add: s1' demo_ending_rides updateRideStatusCAS_def ride_write_def ride_at_def demo_on_trip_def Let_def
        transition_allowed_def legal_edges_def driver_index_clash_def user_index_clash_def live_immediate_def live_def)
  have "fst (settle_end None (\<lambda>_. None) 900 5 0 demo_on_trip no_data (logged 0 InProgress Completed ByCompletion None (set_rides db s1))) = Inr ()"
    by (rule demo_settles) (simp_all add: s1')
  then obtain s' where "settle_end None (\<lambda>_. None) 900 5 0 demo_on_trip no_data (logged 0 InProgress Completed ByCompletion None (set_rides db s1)) = (Inr (), s')"
    by (metis prod.collapse)
  moreover have g: "driver_ride 5 (Some demo_on_trip) = Inr demo_on_trip" "rr_status demo_on_trip = InProgress"
    by (simp_all add: driver_ride_def demo_on_trip_def)
  ultimately show ?thesis
    unfolding verifyEndOTP_def g(1) sum.case t(1) prod.case Let_def s1_def [symmetric] c option.case by (simp add: g(2) demo_no_stops)
qed

lemma trip_end_bill_witness:
  "\<exists>s'. verifyEndOTP demo_otp None (\<lambda>_. None) 900 5 0 (Some demo_on_trip) ''7777'' no_data demo_ending = (Inr (), s') \<and> bill 0 s' = Some 45400"
proof -
  obtain s' where run: "verifyEndOTP demo_otp None (\<lambda>_. None) 900 5 0 (Some demo_on_trip) ''7777'' no_data demo_ending = (Inr (), s')"
    using demo_ends by blast
  have "fs_estimated (demo_snapshot\<lparr>fs_final := None\<rparr>) = 45400" "rr_type demo_on_trip = one_way" "to_paise 0 = 0"
    using to_from_paise [of 0] by (simp_all add: demo_snapshot_def demo_on_trip_def demo_ride_def paise_ok_def)
  then show ?thesis using trip_end_bill [OF run demo_ending_fare] run demo_no_stops(1) by simp
qed

subsection \<open>One way, however it ends\<close>

lemma wait_skip: "getStopWaitTotal i (skip_pending j db) = getStopWaitTotal i db"
proof -
  have "map sp_wait (filter (\<lambda>s. sp_ride s = i) (map (\<lambda>x. if sp_ride x = j \<and> sp_status x = StopPending then x\<lparr>sp_status := StopSkipped\<rparr> else x) xs))
      = map sp_wait (filter (\<lambda>s. sp_ride s = i) xs)" for xs :: "stop_row list"
    by (induction xs) auto
  then show ?thesis by (simp add: getStopWaitTotal_def skip_pending_def)
qed

lemma resolve_bill:
  assumes run: "forceResolveRide pct now i True who whose (Some r) s = (Inr u, s')" and r: "rr_type r = one_way" "rr_driver r \<noteq> None"
    and f: "snapshots (offers_of s) i = Some f" "fare_fits (with_wait (getStopWaitTotal i (tp_stops (op_trip s))) f)"
  shows "bill i s' = Some (fs_estimated f + to_paise (getStopWaitTotal i (tp_stops (op_trip s))))"
proof -
  obtain db where s': "s' = resolve_fare pct i True r (resolve_commit i True who whose r db s)"
    using run by (auto simp: forceResolveRide_def split: if_splits prod.splits sum.splits option.splits)
  let ?s1 = "resolve_commit i True who whose r db s" and ?w = "getStopWaitTotal i (tp_stops (op_trip s))"
  have o1: "offers_of ?s1 = offers_of s" "getStopWaitTotal i (tp_stops (op_trip ?s1)) = ?w"
    by (simp_all add: resolve_commit_def Let_def offers_of_def wait_skip set_rides_def set_world_def)
  obtain off where off: "write_fare pct i (with_wait ?w) (offers_of s) = Some off"
    using f by (simp add: write_fare_def)
  have "offers_of s' = off" using off r o1 unfolding s' resolve_fare_def by (simp add: o1)
  then show ?thesis using write_fare_ok [OF off f(1)] by (auto simp: bill_def with_wait_def)
qed

lemma end_code_bill:
  assumes run: "verifyEndOTP h pct quote now d i (Some r) otp e s = (Inr u, s')" and r: "rr_type r = one_way"
    and f: "snapshots (offers_of s) i = Some f" "fs_final f = None" and w: "0 \<le> getStopWaitTotal i (tp_stops (op_trip s))"
  shows "bill i s' = Some (fs_estimated f + to_paise (getStopWaitTotal i (tp_stops (op_trip s))))"
proof -
  obtain s1 where se: "settle_end pct quote now d i r e s1 = (Inr u, s')" and same: "offers_of s1 = offers_of s" "tp_stops (op_trip s1) = tp_stops (op_trip s)"
    using verifyEndOTP_ok(6) [OF run] by blast
  have z: "to_paise 0 = 0" using to_from_paise [of 0] by (simp add: paise_ok_def)
  have x: "coalesce (fs_final (stored_fare (fst (end_fare one_way t n q e)) f)) (fs_estimated f) = fs_estimated f" for t n q
    using f(2) by (simp add: end_fare_one_way stored_fare_def)
  obtain f' where f': "snapshots (offers_of s') i = Some f'" "fs_estimated f' = fs_estimated f"
      "fs_final f' = (if rr_type r = one_way \<and> 0 < getStopWaitTotal i (tp_stops (op_trip s)) then Some (fs_estimated f + to_paise (getStopWaitTotal i (tp_stops (op_trip s))))
        else fs_final (stored_fare (fst (end_fare (rr_type r) (rr_started r) now (quoted quote i s1) e)) f))"
    using settle_end_ok [OF se, of f] f(1) unfolding same by auto
  show ?thesis
  proof (cases "0 < getStopWaitTotal i (tp_stops (op_trip s))")
    case True
    then show ?thesis using f' r by (simp add: bill_def)
  next
    case False
    then have "getStopWaitTotal i (tp_stops (op_trip s)) = 0" using w by simp
    then show ?thesis using f' r x z by (simp add: bill_def)
  qed
qed

text \<open>
  C15. A one-way trip costs the same however it is completed: by the driver with the end code, with or without the app's own
  kilometres and minutes, or by an admin or a timeout that completes it, whatever each of them has read and whatever stops were left.
\<close>

theorem one_way_billed_alike:
  assumes "verifyEndOTP h pct quote now d i (Some r) otp e s = (Inr u, s1)" "forceResolveRide pct' now' i True who whose (Some r') s = (Inr u', s2)"
    and "rr_type r = one_way" "rr_type r' = one_way" "rr_driver r' \<noteq> None"
    and "snapshots (offers_of s) i = Some f" "fs_final f = None" "0 \<le> getStopWaitTotal i (tp_stops (op_trip s))"
    and "fare_fits (with_wait (getStopWaitTotal i (tp_stops (op_trip s))) f)"
  shows "bill i s1 = bill i s2"
  using end_code_bill [OF assms(1,3,6,7,8)] resolve_bill [OF assms(2,4,5,6,9)] by simp

lemma one_way_billed_alike_witness:
  "\<exists>s1 s2. verifyEndOTP demo_otp None (\<lambda>_. None) 900 5 0 (Some demo_on_trip) ''7777'' no_data demo_ending = (Inr (), s1)
     \<and> forceResolveRide None 900 0 True ByAdmin None (Some demo_on_trip) demo_ending = (Inr (), s2) \<and> bill 0 s1 = bill 0 s2"
proof -
  obtain s1 where a: "verifyEndOTP demo_otp None (\<lambda>_. None) 900 5 0 (Some demo_on_trip) ''7777'' no_data demo_ending = (Inr (), s1)"
    using demo_ends by blast
  obtain s2 where b: "forceResolveRide None 900 0 True ByAdmin None (Some demo_on_trip) demo_ending = (Inr (), s2)"
    by (simp add: forceResolveRide_def demo_ending_rides ride_write_def ride_at_def demo_on_trip_def Let_def
        transition_allowed_def legal_edges_def driver_index_clash_def user_index_clash_def live_immediate_def live_def)
  have z: "to_paise 0 = 0" using to_from_paise [of 0] by (simp add: paise_ok_def)
  have r: "rr_type demo_on_trip = one_way" "rr_driver demo_on_trip \<noteq> None" by (simp_all add: demo_on_trip_def demo_ride_def)
  have "fare_fits (with_wait (getStopWaitTotal 0 (tp_stops (op_trip demo_ending))) (demo_snapshot\<lparr>fs_final := None\<rparr>))"
    by (simp add: demo_no_stops with_wait_def fare_fits_def demo_snapshot_def numeric_fits_def coalesce_def z)
  then have "bill 0 s1 = bill 0 s2"
    using one_way_billed_alike [OF a b r(1,1,2) demo_ending_fare] demo_no_stops(1) by simp
  then show ?thesis using a b by blast
qed

subsection \<open>The early end\<close>

text \<open>
  A refused early end has already replaced the fare: the ride was completed, and perhaps paid, by someone else, yet its
  snapshot now holds what the driver's app claims.
\<close>

theorem refused_early_end_rewrites_fare:
  assumes seen: "rr_driver r = Some d" "rr_status r = InProgress" and now_done: "ride_at (op_rides s) i = Some r'" "rr_status r' = Completed"
    and f: "quote i = Some q" "snapshots (offers_of s) i = Some f" "fare_fits (stored_fare (FinalIs (early_end_fare q f km mn)) f)"
  shows "\<exists>s'. endRideEarlyAsDriver pct quote now d i (Some r) why km mn s = (Inl conflict, s') \<and> bill i s' = Some (to_paise (early_end_fare q f km mn))"
proof -
  let ?g = "stored_fare (FinalIs (early_end_fare q f km mn))"
  obtain off where off: "write_fare pct i ?g (offers_of s) = Some off" using f(2,3) by (simp add: write_fare_def)
  let ?s = "set_offers (\<lambda>_. off) s"
  have dr: "driver_ride d (Some r) = Inr r" and st: "\<not> rr_status r \<notin> set [InProgress, Returning]"
    using seen by (simp_all add: driver_ride_def)
  have qd: "quoted quote i s = Some (q, f)" using f by (simp add: quoted_def)
  have rides: "op_rides ?s = op_rides s" by (simp add: op_rides_def set_offers_def set_world_def)
  have c: "updateRideStatusCAS now i [rr_status r] Completed g (op_rides s) = (Inr None, op_rides s)" for g
    using seen now_done by (simp add: updateRideStatusCAS_def ride_write_def)
  have "endRideEarlyAsDriver pct quote now d i (Some r) why km mn s = (Inl conflict, ?s)"
    unfolding endRideEarlyAsDriver_def dr sum.case if_not_P [OF st] qd option.case prod.case off Let_def rides c ..
  moreover have "bill i ?s = Some (to_paise (early_end_fare q f km mn))"
    using write_fare_ok [OF off f(2)] by (auto simp: bill_def stored_fare_def)
  ultimately show ?thesis by blast
qed

lemma early_end_capped: "early_end_fare q f km mn \<le> from_paise (fs_estimated f)"
  by (simp add: early_end_fare_def)

end
