(* ===== verification/Dispatch.thy ===== *)
theory Dispatch
  imports RideOps
begin

text \<open>
  Finding a driver: the jobs of \<open>api/src/jobs\<close> that offer a ride (\<open>broadcast.processor.ts\<close>), open a scheduled one
  (\<open>dispatch-scheduled.processor.ts\<close>) and close the ones nobody answered (\<open>cleanup.worker.ts\<close>). The drivers near a pickup are the result
  of a spatial query and an argument here. The lemmas show that no request waits forever, and what happens to its offer.
\<close>

subsection \<open>How far a driver may be\<close>

definition base_radius :: "ride_type \<Rightarrow> string option \<Rightarrow> num option \<Rightarrow> num" where
  "base_radius ty slug hours = (if ty \<noteq> rental then 10000
     else if (case hours of Some h \<Rightarrow> 2 < h | None \<Rightarrow> False) then 4000
     else if slug = Some ''auto_rickshaw'' then 2000 else 2500)"

definition maxPickupRadiusMetres :: "ride_type \<Rightarrow> string option \<Rightarrow> num option \<Rightarrow> nat \<Rightarrow> num" where
  "maxPickupRadiusMetres ty slug hours rnd = base_radius ty slug hours + of_nat (max rnd 1 - 1) * 1000"

subsection \<open>A broadcast round\<close>

text \<open>A row of the matching queries. The distance is unknown for a driver without a usable position.\<close>

record hit =
  ht_driver :: nat
  ht_session :: nat
  ht_metres :: "num option"
  ht_paused :: bool

text \<open>Categories, limit and radius of the query in; drivers out.\<close>

record matching =
  mt_nearby :: "nat list \<Rightarrow> nat \<Rightarrow> num \<Rightarrow> hit list"
  mt_return_cab :: "nat list \<Rightarrow> hit list"
  mt_fallback :: "nat \<Rightarrow> nat list"

record broadcast =
  bc_category :: nat
  bc_type :: ride_type
  bc_slug :: "string option"
  bc_return_cab :: bool
  bc_dest :: bool
  bc_round :: nat
  bc_radius :: "num option"
  bc_hours :: "num option"

definition BROADCAST_MAX_DRIVERS :: nat where "BROADCAST_MAX_DRIVERS = 5"

definition matched_drivers :: "matching \<Rightarrow> broadcast \<Rightarrow> hit list" where
  "matched_drivers m b =
     (let cats = (if bc_round b = 1 then [bc_category b] else mt_fallback m (bc_category b));
          cap = maxPickupRadiusMetres (bc_type b) (bc_slug b) (bc_hours b) (bc_round b);
          back = (if bc_return_cab b \<and> bc_dest b
            then map (\<lambda>h. h\<lparr>ht_paused := False\<rparr>) (filter (\<lambda>h. case ht_metres h of Some x \<Rightarrow> x \<le> cap | None \<Rightarrow> False) (mt_return_cab m cats)) else [])
      in if length back < BROADCAST_MAX_DRIVERS
         then back @ filter (\<lambda>h. ht_driver h \<notin> ht_driver ` set back) (mt_nearby m cats (BROADCAST_MAX_DRIVERS - length back) (min cap (coalesce (bc_radius b) cap)))
         else back)"

definition window_seconds :: "hit \<Rightarrow> int" where
  "window_seconds h = (if ht_paused h then 45 else 20)"

definition offer_to :: "int \<Rightarrow> nat \<Rightarrow> nat \<Rightarrow> hit list \<Rightarrow> ride_db \<Rightarrow> ride_db" where
  "offer_to now i rnd = fold (\<lambda>h. createRideAssignment i (ht_driver h) (ht_session h) (now + 1000 * window_seconds h) rnd)"

text \<open>
  \<open>seen\<close> is the row the job reads first. Only the last round gives up; it gives the offer back with the pool, so \<open>n\<close> of the four statements get through, and an
  error there is only logged.
\<close>

definition processBroadcast :: "matching \<Rightarrow> nat \<Rightarrow> int \<Rightarrow> nat \<Rightarrow> broadcast \<Rightarrow> ride_row option \<Rightarrow> ops \<Rightarrow> unit res \<times> ops" where
  "processBroadcast m n now i b seen s =
     (if \<not> (case seen of Some r \<Rightarrow> rr_status r = Requested | None \<Rightarrow> False) then (Inr (), s)
      else let s = set_rides (expireLapsedOffers now i (op_rides s)) s; hits = matched_drivers m b in
        if hits = [] then
          (if bc_round b < 3 then (Inr (), s)
           else (case updateRideStatusCAS now i [Requested] NoDrivers id (op_rides s) of
               (Inl err, _) \<Rightarrow> (Inl err, s)
             | (Inr None, _) \<Rightarrow> (Inr (), s)
             | (Inr (Some _), db) \<Rightarrow>
                 (Inr (), logged i Requested NoDrivers BySystem None (set_offers (releaseOnPool n i ''no drivers'') (set_rides db s)))))
        else (Inr (), set_rides (offer_to now i (bc_round b) hits (op_rides s)) s))"

subsection \<open>Scheduled rides\<close>

text \<open>\<open>updateFareSnapshotEstimate\<close>.\<close>

definition with_estimate :: "fare_breakdown \<Rightarrow> snapshot_row \<Rightarrow> snapshot_row" where
  "with_estimate b f = f\<lparr>fs_base := to_paise (base_fare b), fs_distance := to_paise (distance_fare b), fs_time := to_paise (time_fare b),
     fs_stop := to_paise (stop_fare b), fs_hour := to_paise (hour_surcharge b), fs_surge := to_paise (surge_fare b),
     fs_estimated := to_paise (total b), fs_waiting := Some (to_paise (coalesce (waiting_fare b) 0))\<rparr>"

definition reestimate :: "num option \<Rightarrow> nat \<Rightarrow> fare_response \<Rightarrow> ops \<Rightarrow> ops" where
  "reestimate pct i q = set_offers (\<lambda>db. snd (finaliseDiscount pct i
     (db\<lparr>snapshots := fst (upd_where (snapshots db) i (\<lambda>_. True) (with_estimate (fo_breakdown q)))\<rparr>)))"

text \<open>\<open>req\<close>: the request the stored snapshot gives, if there is one. The ride is opened before its fare is known.\<close>

definition processDispatchScheduled :: "pricing_db \<Rightarrow> num option \<Rightarrow> int \<Rightarrow> nat \<Rightarrow> fare_request option \<Rightarrow> ops \<Rightarrow> unit res \<times> ops" where
  "processDispatchScheduled pr pct now i req s =
     (case updateRideStatusCAS now i [Scheduled] Requested id (op_rides s) of
        (Inl err, _) \<Rightarrow> (Inl err, s)
      | (Inr None, _) \<Rightarrow> (Inr (), s)
      | (Inr (Some _), db) \<Rightarrow>
          let s = logged i Scheduled Requested BySystem None (set_rides db s);
              rounds = (\<lambda>s. s\<lparr>op_jobs := op_jobs s @ [BroadcastJob i 1 0, BroadcastJob i 2 25000, BroadcastJob i 3 50000]\<rparr>) in
          (case req of None \<Rightarrow> (Inr (), rounds s)
           | Some q \<Rightarrow> (case getFareEstimate pr now q of
                 Inl err \<Rightarrow> (Inl err, s)
               | Inr quote \<Rightarrow> (Inr (), rounds (reestimate pct i quote s)))))"

subsection \<open>The cleanup worker\<close>

definition stale_requested :: "int \<Rightarrow> ride_db \<Rightarrow> nat list" where
  "stale_requested now db = filter (\<lambda>i. rr_status (rides db ! i) = Requested \<and> rr_updated (rides db ! i) < now - 20 * 60000) [0..<length (rides db)]"

definition stale_accepted :: "int \<Rightarrow> ride_db \<Rightarrow> (nat \<times> ride_status \<times> nat) list" where
  "stale_accepted now db = concat (map (\<lambda>i. let r = rides db ! i in
     if (rr_status r = Accepted \<and> rr_updated r < now - 3 * 3600000 \<or> rr_status r = DriverArrived \<and> rr_updated r < now - 3600000)
     then (case rr_driver r of Some d \<Rightarrow> [(i, rr_status r, d)] | None \<Rightarrow> []) else []) [0..<length (rides db)])"

text \<open>An error ends the job; the next run takes it up again. \<open>silent\<close> and \<open>lost\<close>: the drivers whose heartbeat is older than the two limits,
  \<open>stuck\<close>: the rides in progress whose driver is silent.\<close>

fun sweep_each :: "('a \<Rightarrow> ops \<Rightarrow> unit res \<times> ops) \<Rightarrow> 'a list \<Rightarrow> ops \<Rightarrow> unit res \<times> ops" where
  "sweep_each f [] s = (Inr (), s)"
| "sweep_each f (x # xs) s = (case f x s of (Inl err, s) \<Rightarrow> (Inl err, s) | (Inr _, s) \<Rightarrow> sweep_each f xs s)"

definition flag_stuck :: "int \<Rightarrow> nat \<Rightarrow> ops \<Rightarrow> unit res \<times> ops" where
  "flag_stuck now i s = (case flagRideForReview now i ''gps_stale'' (op_rides s) of (Inl err, _) \<Rightarrow> (Inl err, s) | (Inr _, db) \<Rightarrow> (Inr (), set_rides db s))"

definition sweep_requested :: "int \<Rightarrow> ops \<Rightarrow> unit res \<times> ops" where
  "sweep_requested now s = sweep_each (expireStaleRequestedRide now) (stale_requested now (op_rides s)) s"

definition cleanup_drivers :: "nat list \<Rightarrow> nat list \<Rightarrow> ops \<Rightarrow> ops" where
  "cleanup_drivers silent lost s =
     fold (\<lambda>d s. goOffline d ''stale_heartbeat'' (getActiveSession d (op_rides s)) s) lost
       (fold (\<lambda>d s. pauseAvailability d (getActiveSession d (op_rides s)) s) silent s)"

definition cleanup_run :: "int \<Rightarrow> nat list \<Rightarrow> nat list \<Rightarrow> nat list \<Rightarrow> ops \<Rightarrow> unit res \<times> ops" where
  "cleanup_run now stuck silent lost s =
     (case sweep_each (flag_stuck now) stuck s of (Inl err, s) \<Rightarrow> (Inl err, s)
      | (Inr _, s) \<Rightarrow>
          (case sweep_requested now s of (Inl err, s) \<Rightarrow> (Inl err, s)
           | (Inr _, s) \<Rightarrow>
               (case sweep_each (\<lambda>(i, st, d). expireStaleAcceptedOrArrivedRide now i st d) (stale_accepted now (op_rides s)) s of
                  (Inl err, s) \<Rightarrow> (Inl err, s)
                | (Inr _, s) \<Rightarrow> (Inr (), cleanup_drivers silent lost s))))"

subsection \<open>Every request is answered\<close>

definition status_of :: "ops \<Rightarrow> nat \<Rightarrow> ride_status option" where
  "status_of s i = map_option rr_status (ride_at (op_rides s) i)"

text \<open>What drivers do between two rounds.\<close>

datatype reaction = Accepts int nat "billing_mode option" | Declines nat

definition react :: "nat \<Rightarrow> reaction \<Rightarrow> ops \<Rightarrow> ops" where
  "react i a s = (case a of Accepts t d mode \<Rightarrow> snd (acceptRide t mode d i s) | Declines d \<Rightarrow> declineRide d i s)"

text \<open>The three booked rounds, each with its own drivers and time and the reactions that follow it, and then the stale sweep.\<close>

definition broadcast_round :: "nat \<Rightarrow> matching \<times> nat \<times> int \<times> broadcast \<times> reaction list \<Rightarrow> ops \<Rightarrow> ops" where
  "broadcast_round i x s = (case x of (m, n, t, b, rs) \<Rightarrow> fold (react i) rs (snd (processBroadcast m n t i b (ride_at (op_rides s) i) s)))"

definition dispatch_all :: "nat \<Rightarrow> (matching \<times> nat \<times> int \<times> broadcast \<times> reaction list) list \<Rightarrow> ops \<Rightarrow> ops" where
  "dispatch_all i xs s = fold (broadcast_round i) xs s"

lemma rides_of_sets [simp]:
  "op_rides (set_rides db s) = db" "op_rides (set_offers g s) = op_rides s" "op_rides (logged i a b w x s) = logStatusHistory i (Some a) b w x (op_rides s)"
  by (simp_all add: op_rides_def set_rides_def set_offers_def set_world_def logged_def)

lemma same_rides:
  "rides (expireLapsedOffers t i db) = rides db" "rides (declineAssignment i d db) = rides db" "rides (createRideAssignment i d k t n db) = rides db"
  by (simp_all add: expireLapsedOffers_def declineAssignment_def createRideAssignment_def)

lemma same_ride_at [simp]:
  "ride_at (expireLapsedOffers t i db) = ride_at db" "ride_at (declineAssignment i d db) = ride_at db" "ride_at (createRideAssignment i d k t n db) = ride_at db"
  by (rule ride_at_same, simp add: same_rides)+

lemma offer_to_ride_at [simp]: "ride_at (offer_to now i n hs db) = ride_at db"
  unfolding offer_to_def by (induction hs arbitrary: db) simp_all

text \<open>A requested ride can always be closed: no index and no trigger stands in the way.\<close>

lemma close_requested:
  assumes "ride_at db i = Some r" "rr_status r = Requested"
  shows "updateRideStatusCAS now i [Requested] NoDrivers id db
    = (Inr (Some (r\<lparr>rr_status := NoDrivers, rr_updated := now\<rparr>)), db\<lparr>rides := (rides db)[i := r\<lparr>rr_status := NoDrivers, rr_updated := now\<rparr>]\<rparr>)"
  using assms by (simp add: updateRideStatusCAS_def ride_write_def Let_def transition_allowed_def legal_edges_def driver_index_clash_def
      user_index_clash_def live_immediate_def live_def)

lemma close_missed:
  assumes "\<forall>r. ride_at db i = Some r \<longrightarrow> rr_status r \<noteq> Requested"
  shows "updateRideStatusCAS now i [Requested] NoDrivers id db = (Inr None, db)"
  using assms by (simp add: updateRideStatusCAS_def ride_write_def split: option.split)

text \<open>One round keeps a ride waiting or closes it; the sweep closes it for good.\<close>

lemma broadcast_status:
  "status_of (snd (processBroadcast m n t i b (ride_at (op_rides s) i) s)) i =
     (if status_of s i = Some Requested \<and> matched_drivers m b = [] \<and> 3 \<le> bc_round b then Some NoDrivers else status_of s i)"
proof (cases "ride_at (op_rides s) i")
  case (Some r)
  show ?thesis
  proof (cases "rr_status r = Requested")
    case True
    have c: "updateRideStatusCAS t i [Requested] NoDrivers id (expireLapsedOffers t i (op_rides s))
        = (Inr (Some (r\<lparr>rr_status := NoDrivers, rr_updated := t\<rparr>)),
           (expireLapsedOffers t i (op_rides s))\<lparr>rides := (rides (expireLapsedOffers t i (op_rides s)))[i := r\<lparr>rr_status := NoDrivers, rr_updated := t\<rparr>]\<rparr>)"
      by (rule close_requested) (use Some True in simp_all)
    have i: "i < length (rides (expireLapsedOffers t i (op_rides s)))" using Some by (simp add: same_rides ride_at_bound)
    show ?thesis using Some True i by (simp add: processBroadcast_def status_of_def Let_def c ride_at_set)
  qed (simp add: processBroadcast_def status_of_def Some)
qed (simp add: processBroadcast_def status_of_def)

lemma sweep_status:
  "fst (expireStaleRequestedRide t i s) = Inr ()"
  "status_of (snd (expireStaleRequestedRide t i s)) i = (if status_of s i = Some Requested then Some NoDrivers else status_of s i)"
proof -
  have "fst (expireStaleRequestedRide t i s) = Inr ()
    \<and> status_of (snd (expireStaleRequestedRide t i s)) i = (if status_of s i = Some Requested then Some NoDrivers else status_of s i)"
  proof (cases "status_of s i = Some Requested")
    case True
    then obtain r where r: "ride_at (op_rides s) i = Some r" "rr_status r = Requested" by (auto simp: status_of_def)
    then show ?thesis by (simp add: expireStaleRequestedRide_def close_requested [OF r] status_of_def ride_at_set ride_at_bound)
  next
    case False
    then have "\<forall>r. ride_at (op_rides s) i = Some r \<longrightarrow> rr_status r \<noteq> Requested" by (auto simp: status_of_def)
    then show ?thesis using False by (simp add: expireStaleRequestedRide_def close_missed)
  qed
  then show "fst (expireStaleRequestedRide t i s) = Inr ()"
    "status_of (snd (expireStaleRequestedRide t i s)) i = (if status_of s i = Some Requested then Some NoDrivers else status_of s i)" by simp_all
qed

lemma decline_status: "status_of (declineRide d i s) j = status_of s j" "ride_at (op_rides (declineRide d i s)) = ride_at (op_rides s)"
  by (simp_all add: status_of_def declineRide_def)

lemma accept_cases:
  obtains (won) r where "ride_at (op_rides s) i = Some r" "rr_status r = Requested"
      "\<exists>r'. ride_at (op_rides (snd (acceptRide t mode d i s))) i = Some r' \<and> rr_status r' = Accepted \<and> rr_driver r' = Some d"
  | (lost) "ride_at (op_rides (snd (acceptRide t mode d i s))) = ride_at (op_rides s)"
proof (cases mode)
  case None
  then show thesis using lost by (simp add: acceptRide_def)
next
  case (Some m)
  obtain x db where a: "acceptAssignment t i d m (op_rides s) = (x, db)" by (rule prod.exhaust)
  show thesis
  proof (cases "\<exists>l. x = Inr (Some l)")
    case True
    then obtain l where l: "acceptAssignment t i d m (op_rides s) = (Inr (Some l), db)" using a by blast
    obtain r where "ride_at (op_rides s) i = Some r" "rr_status r = Requested"
      "ride_at db = (ride_at (op_rides s))(i \<mapsto> r\<lparr>rr_status := Accepted, rr_driver := Some d, rr_accepted := Some t, rr_billing := Some m, rr_updated := t\<rparr>)"
      using accept_takes [OF l] by blast
    then show thesis using won l Some by (simp add: acceptRide_def)
  next
    case False
    have "rides db = rides (op_rides s)"
    proof -
      let ?p = "\<lambda>r. rr_status r = Requested \<and> open_offer t i d (op_rides s) \<and> \<not> driver_busy i d (op_rides s)"
      let ?f = "\<lambda>r. r\<lparr>rr_status := Accepted, rr_driver := Some d, rr_accepted := Some t, rr_billing := Some m\<rparr>"
      have "\<nexists>r. fst (ride_write t i ?p ?f (op_rides s)) = Inr (Some r)" using acceptAssignment_write(3) [of t i d m "op_rides s"] a False by auto
      then have "rides (snd (ride_write t i ?p ?f (op_rides s))) = rides (op_rides s)"
        by (cases rule: ride_write_cases [of t i ?p ?f "op_rides s"]) auto
      then show ?thesis using acceptAssignment_write(1) [of t i d m "op_rides s"] a by simp
    qed
    then have "ride_at db = ride_at (op_rides s)" by (rule ride_at_same)
    then show thesis using lost a False Some by (auto simp: acceptRide_def split: sum.splits option.splits)
  qed
qed

text \<open>Waiting with the row it had, closed, or with a driver of \<open>D\<close> who accepted.\<close>

definition answered_or_waiting :: "ride_row \<Rightarrow> nat set \<Rightarrow> nat \<Rightarrow> ops \<Rightarrow> bool" where
  "answered_or_waiting w D i s \<longleftrightarrow> ride_at (op_rides s) i = Some w \<or> status_of s i = Some NoDrivers
     \<or> (\<exists>r d. ride_at (op_rides s) i = Some r \<and> rr_status r = Accepted \<and> rr_driver r = Some d \<and> d \<in> D)"

definition acceptors :: "(matching \<times> nat \<times> int \<times> broadcast \<times> reaction list) list \<Rightarrow> nat set" where
  "acceptors xs = {d. \<exists>m n t b rs u mode. (m, n, t, b, rs) \<in> set xs \<and> Accepts u d mode \<in> set rs}"

lemma react_answers:
  assumes "answered_or_waiting w D i s" "\<And>u d mode. a = Accepts u d mode \<Longrightarrow> d \<in> D"
  shows "answered_or_waiting w D i (react i a s)"
proof (cases a)
  case (Declines d)
  then show ?thesis using assms(1) by (simp add: react_def answered_or_waiting_def decline_status)
next
  case (Accepts u d mode)
  then have d: "d \<in> D" using assms(2) by blast
  show ?thesis
  proof (cases rule: accept_cases [of s i u mode d])
    case (won r)
    then show ?thesis using d Accepts by (auto simp: react_def answered_or_waiting_def)
  next
    case lost
    then show ?thesis using assms(1) Accepts by (simp add: react_def answered_or_waiting_def status_of_def)
  qed
qed

lemma broadcast_keeps:
  assumes "\<not> (status_of s i = Some Requested \<and> matched_drivers m b = [] \<and> 3 \<le> bc_round b)"
  shows "ride_at (op_rides (snd (processBroadcast m n t i b (ride_at (op_rides s) i) s))) = ride_at (op_rides s)"
proof (cases "status_of s i = Some Requested")
  case True
  then obtain r where r: "ride_at (op_rides s) i = Some r" "rr_status r = Requested" by (auto simp: status_of_def)
  show ?thesis
  proof (cases "matched_drivers m b = []")
    case True
    then have "bc_round b < 3" using assms \<open>status_of s i = Some Requested\<close> by simp
    then show ?thesis using r True by (simp add: processBroadcast_def Let_def)
  next
    case False
    then show ?thesis using r by (simp add: processBroadcast_def Let_def)
  qed
next
  case False
  then have "processBroadcast m n t i b (ride_at (op_rides s) i) s = (Inr (), s)"
    by (auto simp: processBroadcast_def status_of_def split: option.split)
  then show ?thesis by simp
qed

lemma broadcast_answers:
  assumes "answered_or_waiting w D i s"
  shows "answered_or_waiting w D i (snd (processBroadcast m n t i b (ride_at (op_rides s) i) s))"
proof (cases "status_of s i = Some Requested \<and> matched_drivers m b = [] \<and> 3 \<le> bc_round b")
  case True
  then show ?thesis using broadcast_status [of m n t i b s] by (simp add: answered_or_waiting_def)
next
  case False
  then show ?thesis using assms broadcast_keeps [OF False] by (simp add: answered_or_waiting_def status_of_def)
qed

lemma round_answers:
  assumes "answered_or_waiting w D i s" "acceptors [x] \<subseteq> D"
  shows "answered_or_waiting w D i (broadcast_round i x s)"
proof -
  obtain m n t b rs where x: "x = (m, n, t, b, rs)" by (rule prod_cases5)
  have sub: "d \<in> D" if "Accepts u d mode \<in> set rs" for u d mode using assms(2) that x by (auto simp: acceptors_def)
  have "answered_or_waiting w D i (fold (react i) ys z)" if "answered_or_waiting w D i z" "set ys \<subseteq> set rs" for ys z
    using that
  proof (induction ys arbitrary: z)
    case (Cons a ys)
    have "answered_or_waiting w D i (react i a z)" by (rule react_answers [OF Cons.prems(1)]) (use Cons.prems(2) sub in auto)
    then show ?case using Cons by simp
  qed simp
  then show ?thesis using broadcast_answers [OF assms(1)] by (simp add: broadcast_round_def x)
qed

lemma dispatch_answers:
  assumes "answered_or_waiting w D i s" "acceptors xs \<subseteq> D"
  shows "answered_or_waiting w D i (dispatch_all i xs s)"
  using assms unfolding dispatch_all_def
proof (induction xs arbitrary: s)
  case (Cons x xs)
  have "acceptors [x] \<subseteq> D" "acceptors xs \<subseteq> D" using Cons.prems(2) unfolding acceptors_def by fastforce+
  then show ?case using Cons.IH round_answers [OF Cons.prems(1)] by simp
qed simp

text \<open>The sweep of the requested rides never fails, closes the ones it has selected if they still wait, and leaves the others alone.\<close>

lemma expire_other: "j \<noteq> i \<Longrightarrow> ride_at (op_rides (snd (expireStaleRequestedRide t j s))) i = ride_at (op_rides s) i"
proof (cases "status_of s j = Some Requested")
  case True
  assume "j \<noteq> i"
  from True obtain r where r: "ride_at (op_rides s) j = Some r" "rr_status r = Requested" by (auto simp: status_of_def)
  then show ?thesis using \<open>j \<noteq> i\<close> by (simp add: expireStaleRequestedRide_def close_requested [OF r] ride_at_set)
next
  case False
  then have "\<forall>r. ride_at (op_rides s) j = Some r \<longrightarrow> rr_status r \<noteq> Requested" by (auto simp: status_of_def)
  then show ?thesis by (simp add: expireStaleRequestedRide_def close_missed)
qed

lemma expire_answered:
  "status_of s i \<noteq> Some Requested \<Longrightarrow> ride_at (op_rides (snd (expireStaleRequestedRide t j s))) i = ride_at (op_rides s) i"
proof (cases "j = i")
  case True
  assume "status_of s i \<noteq> Some Requested"
  then have "\<forall>r. ride_at (op_rides s) j = Some r \<longrightarrow> rr_status r \<noteq> Requested" using True by (auto simp: status_of_def)
  then show ?thesis by (simp add: expireStaleRequestedRide_def close_missed)
qed (rule expire_other)

lemma sweep_each_expire:
  "fst (sweep_each (expireStaleRequestedRide t) ids s) = Inr ()"
  "status_of s i \<noteq> Some Requested \<Longrightarrow> ride_at (op_rides (snd (sweep_each (expireStaleRequestedRide t) ids s))) i = ride_at (op_rides s) i"
  "status_of s i = Some Requested \<Longrightarrow> i \<in> set ids \<Longrightarrow> status_of (snd (sweep_each (expireStaleRequestedRide t) ids s)) i = Some NoDrivers"
proof -
  have step: "sweep_each (expireStaleRequestedRide t) (j # js) z = sweep_each (expireStaleRequestedRide t) js (snd (expireStaleRequestedRide t j z))" for j js z
    using sweep_status(1) [of t j z] by (cases "expireStaleRequestedRide t j z") simp
  show "fst (sweep_each (expireStaleRequestedRide t) ids s) = Inr ()"
    by (induction ids arbitrary: s) (simp_all add: step del: sweep_each.simps(2))
  have keep: "ride_at (op_rides (snd (sweep_each (expireStaleRequestedRide t) js z))) i = ride_at (op_rides z) i" if "status_of z i \<noteq> Some Requested" for js z
    using that
  proof (induction js arbitrary: z)
    case (Cons j js)
    have e: "ride_at (op_rides (snd (expireStaleRequestedRide t j z))) i = ride_at (op_rides z) i" by (rule expire_answered [OF Cons.prems])
    then have "status_of (snd (expireStaleRequestedRide t j z)) i \<noteq> Some Requested" using Cons.prems by (simp add: status_of_def)
    then show ?case using Cons.IH e unfolding step by simp
  qed simp
  then show "status_of s i \<noteq> Some Requested \<Longrightarrow> ride_at (op_rides (snd (sweep_each (expireStaleRequestedRide t) ids s))) i = ride_at (op_rides s) i" .
  show "status_of s i = Some Requested \<Longrightarrow> i \<in> set ids \<Longrightarrow> status_of (snd (sweep_each (expireStaleRequestedRide t) ids s)) i = Some NoDrivers"
  proof (induction ids arbitrary: s)
    case (Cons j js)
    show ?case
    proof (cases "j = i")
      case True
      have n: "status_of (snd (expireStaleRequestedRide t j s)) i = Some NoDrivers" using sweep_status(2) [of t i s] Cons.prems(1) True by simp
      then have "status_of (snd (expireStaleRequestedRide t j s)) i \<noteq> Some Requested" by simp
      from keep [OF this, of js] n have "status_of (snd (sweep_each (expireStaleRequestedRide t) js (snd (expireStaleRequestedRide t j s)))) i = Some NoDrivers"
        unfolding status_of_def by simp
      then show ?thesis unfolding step .
    next
      case False
      then have "status_of (snd (expireStaleRequestedRide t j s)) i = Some Requested" using expire_other [OF False, of t s] Cons.prems(1) by (simp add: status_of_def)
      then show ?thesis unfolding step using Cons.IH Cons.prems(2) False by simp
    qed
  qed simp
qed

lemma stale_selected:
  assumes "ride_at db i = Some r" "rr_status r = Requested" "rr_updated r < t - 20 * 60000"
  shows "i \<in> set (stale_requested t db)"
  using assms by (auto simp: stale_requested_def ride_at_def split: if_splits)

text \<open>
  C9. No request waits forever. Whatever drivers the rounds find, whenever they run and however the drivers react: the next run of the sweep that comes more than twenty minutes
  after the request finds the ride by its own query if nobody has taken it, never fails, and after it the ride is with a driver who accepted it or closed as without
  drivers. A ride whose last round finds nobody is closed at once, and its offer is given back as far as the statements of the release get through: it is
  no longer reserved if at least the first one does.
\<close>

theorem every_request_answered:
  assumes "ride_at (op_rides s) i = Some w" "rr_status w = Requested" and "rr_updated w < t - 20 * 60000"
  shows "fst (sweep_requested t (dispatch_all i xs s)) = Inr ()
    \<and> (let s' = snd (sweep_requested t (dispatch_all i xs s)) in
         status_of s' i = Some NoDrivers \<or> (\<exists>r d. ride_at (op_rides s') i = Some r \<and> rr_status r = Accepted \<and> rr_driver r = Some d \<and> d \<in> acceptors xs))
    \<and> (\<forall>m n u b. matched_drivers m b = [] \<and> 3 \<le> bc_round b \<longrightarrow>
         (let s' = snd (processBroadcast m n u i b (ride_at (op_rides s) i) s); g = w_offers (tp_world (op_trip s)); g' = w_offers (tp_world (op_trip s')) in
            status_of s' i = Some NoDrivers \<and> g' = releaseOnPool n i ''no drivers'' g \<and> (0 < n \<longrightarrow> \<not> reserved_on g' i)))"
proof -
  let ?s = "dispatch_all i xs s"
  have a: "answered_or_waiting w (acceptors xs) i ?s" by (rule dispatch_answers) (use assms in \<open>simp_all add: answered_or_waiting_def\<close>)
  have sweep: "status_of (snd (sweep_requested t ?s)) i = Some NoDrivers
      \<or> (\<exists>r d. ride_at (op_rides (snd (sweep_requested t ?s))) i = Some r \<and> rr_status r = Accepted \<and> rr_driver r = Some d \<and> d \<in> acceptors xs)"
  proof (cases "ride_at (op_rides ?s) i = Some w")
    case True
    then have "i \<in> set (stale_requested t (op_rides ?s))" by (rule stale_selected) (use assms in simp_all)
    moreover have "status_of ?s i = Some Requested" using True assms(2) by (simp add: status_of_def)
    ultimately show ?thesis unfolding sweep_requested_def using sweep_each_expire(3) by blast
  next
    case False
    then have "status_of ?s i \<noteq> Some Requested" using a by (auto simp: answered_or_waiting_def status_of_def)
    then have "ride_at (op_rides (snd (sweep_requested t ?s))) i = ride_at (op_rides ?s) i" unfolding sweep_requested_def by (rule sweep_each_expire(2))
    then show ?thesis using a False by (auto simp: answered_or_waiting_def status_of_def)
  qed
  have last: "status_of (snd (processBroadcast m n u i b (ride_at (op_rides s) i) s)) i = Some NoDrivers
      \<and> w_offers (tp_world (op_trip (snd (processBroadcast m n u i b (ride_at (op_rides s) i) s)))) = releaseOnPool n i ''no drivers'' (w_offers (tp_world (op_trip s)))"
    if none: "matched_drivers m b = []" "3 \<le> bc_round b" for m n u b
  proof -
    have c: "\<exists>row db. updateRideStatusCAS u i [Requested] NoDrivers id (expireLapsedOffers u i (op_rides s)) = (Inr (Some row), db)"
      using close_requested [of "expireLapsedOffers u i (op_rides s)" i w u] assms(1,2) by auto
    have "w_offers (tp_world (op_trip (snd (processBroadcast m n u i b (Some w) s)))) = releaseOnPool n i ''no drivers'' (w_offers (tp_world (op_trip s)))"
      using c assms(2) none by (auto simp: processBroadcast_def Let_def logged_def set_rides_def set_offers_def set_world_def op_rides_def)
    then show ?thesis using broadcast_status [of m n u i b s] none assms(1,2) by (simp add: status_of_def)
  qed
  have "fst (sweep_requested t ?s) = Inr ()" unfolding sweep_requested_def by (rule sweep_each_expire(1))
  then show ?thesis unfolding Let_def using sweep last pool_release_frees by metis
qed

definition demo_waiting :: ops where
  "demo_waiting = \<lparr>op_trip = demo_start\<lparr>tp_world := demo_world\<lparr>w_rides := demo_rides, w_offers := demo_reserved\<rparr>\<rparr>, op_cancels = [], op_start_pins = Map.empty,
     op_end_pins = Map.empty, op_tries = (\<lambda>_. 0), op_otp_events = [], op_jobs = []\<rparr>"

definition nobody :: matching where
  "nobody = \<lparr>mt_nearby = (\<lambda>_ _ _. []), mt_return_cab = (\<lambda>_. []), mt_fallback = (\<lambda>c. [c])\<rparr>"

definition demo_round :: broadcast where
  "demo_round = \<lparr>bc_category = 2, bc_type = one_way, bc_slug = None, bc_return_cab = False, bc_dest = True, bc_round = 3, bc_radius = None, bc_hours = None\<rparr>"

lemma every_request_answered_witness:
  "fst (sweep_requested 9000000 (dispatch_all 0 [(nobody, 4, 5, demo_round\<lparr>bc_round := 1\<rparr>, [Declines 5])] demo_waiting)) = Inr ()
   \<and> status_of (snd (processBroadcast nobody 4 5 0 demo_round (ride_at (op_rides demo_waiting) 0) demo_waiting)) 0 = Some NoDrivers"
proof -
  have w: "ride_at (op_rides demo_waiting) 0 = Some demo_ride" by (simp add: demo_waiting_def op_rides_def demo_rides_def ride_at_def)
  have r: "rr_status demo_ride = Requested" "rr_updated demo_ride < 9000000 - 20 * 60000" by (simp_all add: demo_ride_def)
  have "matched_drivers nobody demo_round = []" by (simp add: matched_drivers_def nobody_def demo_round_def Let_def)
  moreover have "3 \<le> bc_round demo_round" by (simp add: demo_round_def)
  ultimately show ?thesis
    using every_request_answered [OF w r, of "[(nobody, 4, 5, demo_round\<lparr>bc_round := 1\<rparr>, [Declines 5])]"] unfolding Let_def by blast
qed

subsection \<open>A scheduled ride that is lost\<close>

text \<open>
  The scheduled ride leaves \<open>scheduled\<close> before its fare is known. When the quote fails the job fails without queueing a round, and
  its retries find nothing to do: the ride waits, unoffered, for the stale sweep.
\<close>

theorem failed_quote_strands_scheduled_ride:
  assumes r: "ride_at (op_rides s) i = Some r" "rr_status r = Scheduled" "rr_scheduled r = Some due"
    and q: "getFareEstimate pr now q = Inl err"
  shows "\<exists>s1. processDispatchScheduled pr pct now i (Some q) s = (Inl err, s1) \<and> op_jobs s1 = op_jobs s \<and> status_of s1 i = Some Requested
    \<and> processDispatchScheduled pr' pct' now' i req' s1 = (Inr (), s1)"
proof -
  let ?r = "r\<lparr>rr_status := Requested, rr_updated := now\<rparr>" and ?db = "(op_rides s)\<lparr>rides := (rides (op_rides s))[i := r\<lparr>rr_status := Requested, rr_updated := now\<rparr>]\<rparr>"
  have c: "updateRideStatusCAS now i [Scheduled] Requested id (op_rides s) = (Inr (Some ?r), ?db)"
    using r by (simp add: updateRideStatusCAS_def ride_write_def Let_def transition_allowed_def legal_edges_def driver_index_clash_def
        user_index_clash_def live_immediate_def live_def)
  let ?s1 = "logged i Scheduled Requested BySystem None (set_rides ?db s)"
  have a: "processDispatchScheduled pr pct now i (Some q) s = (Inl err, ?s1)"
    using q by (simp add: processDispatchScheduled_def c Let_def)
  have at: "ride_at (op_rides ?s1) i = Some ?r" using r(1) by (simp add: ride_at_set ride_at_bound)
  then have "updateRideStatusCAS now' i [Scheduled] Requested id (op_rides ?s1) = (Inr None, op_rides ?s1)"
    by (simp add: updateRideStatusCAS_def ride_write_def)
  then have b: "processDispatchScheduled pr' pct' now' i req' ?s1 = (Inr (), ?s1)" by (simp only: processDispatchScheduled_def prod.case sum.case option.case)
  have "op_jobs ?s1 = op_jobs s" by (simp add: logged_def set_rides_def set_world_def)
  then show ?thesis using a b at by (auto simp: status_of_def)
qed

subsection \<open>The offer workers (\<open>offers.worker.ts\<close>)\<close>

text \<open>\<open>since\<close>: when the reservation of a ride was made.\<close>

definition stale_reservations :: "(nat \<Rightarrow> int) \<Rightarrow> int \<Rightarrow> ops \<Rightarrow> nat list" where
  "stale_reservations since now s = map rd_ride (take 200 (sort_key (\<lambda>r. since (rd_ride r))
     (filter (\<lambda>r. rd_status r = Reserved \<and> since (rd_ride r) < now - 30 * 60000 \<and> status_of s (rd_ride r) \<in> set [Some Cancelled, Some NoDrivers])
       (redemptions (w_offers (tp_world (op_trip s)))))))"

definition releaseStaleReservations :: "(nat \<Rightarrow> int) \<Rightarrow> int \<Rightarrow> ops \<Rightarrow> ops" where
  "releaseStaleReservations since now s = set_offers (fold (\<lambda>i. releaseForRide i ''stale reservation'') (stale_reservations since now s)) s"

definition endExpiredOffers :: "int \<Rightarrow> offer_db \<Rightarrow> offer_db" where
  "endExpiredOffers now db = db\<lparr>offers := (\<lambda>k. map_option (\<lambda>x. if or_status x \<in> set [Active, Paused] \<and> (case or_ends x of Some t \<Rightarrow> t \<le> now | None \<Rightarrow> False)
     then x\<lparr>or_status := Ended\<rparr> else x) (offers db k))\<rparr>"

lemma released_all: "reserved_on (fold (\<lambda>i. releaseForRide i why) xs db) j \<longleftrightarrow> j \<notin> set xs \<and> reserved_on db j"
  by (induction xs arbitrary: db) (auto simp: releaseForRide_def release_moved)

text \<open>What a missed release leaves behind is given back by the next run, unless two hundred older ones come first.\<close>

lemma stale_offer_released:
  assumes "status_of s i \<in> {Some Cancelled, Some NoDrivers}" "since i < now - 30 * 60000"
    and few: "length (redemptions (w_offers (tp_world (op_trip s)))) \<le> 200"
  shows "\<not> reserved_on (w_offers (tp_world (op_trip (releaseStaleReservations since now s)))) i"
proof -
  let ?p = "\<lambda>r. rd_status r = Reserved \<and> since (rd_ride r) < now - 30 * 60000 \<and> status_of s (rd_ride r) \<in> set [Some Cancelled, Some NoDrivers]"
  let ?rs = "redemptions (w_offers (tp_world (op_trip s)))"
  have "length (filter ?p ?rs) \<le> 200" using few length_filter_le [of ?p ?rs] by linarith
  then have all: "set (stale_reservations since now s) = rd_ride ` set (filter ?p ?rs)" by (simp add: stale_reservations_def)
  have "i \<in> set (stale_reservations since now s)" if "reserved_on (w_offers (tp_world (op_trip s))) i"
    using that assms(1,2) unfolding all by (auto simp: reserved_on_def list_ex_iff hits_def image_iff)
  then show ?thesis by (auto simp: releaseStaleReservations_def set_offers_def set_world_def released_all)
qed

end
