(* ===== verification/RideLifecycle.thy ===== *)
theory RideLifecycle
  imports TripEnd Dispatch RidePayments
begin

text \<open>
  All handlers of a ride together: \<open>ops_step\<close> lets any of them run on any row it may have read before. The lemmas show
  that however they interleave, the rides stay well formed, only move along the legal edges and never leave a terminal status.
\<close>

subsection \<open>What a statement may do to the rides\<close>

text \<open>The columns no statement writes after the booking.\<close>

definition fixed_columns :: "ride_row \<Rightarrow> nat \<times> ride_type \<times> channel \<times> nat \<times> nat option \<times> pos option \<times> int option" where
  "fixed_columns r = (rr_user r, rr_type r, rr_channel r, rr_category r, rr_city r, rr_dest r, rr_scheduled r)"

definition moves :: "ride_db \<Rightarrow> ride_db \<Rightarrow> bool" where
  "moves db db' \<longleftrightarrow> (rides_inv db \<longrightarrow> rides_inv db') \<and> length (rides db) \<le> length (rides db')
     \<and> (\<forall>i r. ride_at db i = Some r \<longrightarrow> (\<exists>r'. ride_at db' i = Some r' \<and> fixed_columns r' = fixed_columns r
          \<and> (rr_status r, rr_status r') \<in> (set legal_edges)\<^sup>*))"

lemma moves_refl [simp]: "moves db db"
  by (simp add: moves_def)

lemma moves_trans:
  assumes "moves a b" "moves b c"
  shows "moves a c"
proof -
  have "\<exists>r'. ride_at c i = Some r' \<and> fixed_columns r' = fixed_columns r \<and> (rr_status r, rr_status r') \<in> (set legal_edges)\<^sup>*"
    if a: "ride_at a i = Some r" for i r
  proof -
    obtain x where x: "ride_at b i = Some x" "fixed_columns x = fixed_columns r" "(rr_status r, rr_status x) \<in> (set legal_edges)\<^sup>*"
      using assms(1) a unfolding moves_def by blast
    obtain y where y: "ride_at c i = Some y" "fixed_columns y = fixed_columns x" "(rr_status x, rr_status y) \<in> (set legal_edges)\<^sup>*"
      using assms(2) x(1) unfolding moves_def by blast
    show ?thesis using x y rtrancl_trans by (metis (no_types, lifting))
  qed
  then show ?thesis using assms unfolding moves_def by (meson le_trans)
qed

text \<open>A statement that leaves the table alone.\<close>

lemma moves_same:
  assumes "rides db' = rides db" "user_index db' = user_index db"
  shows "moves a db' \<longleftrightarrow> moves a db"
  unfolding moves_def rides_inv_same [OF assms] by (simp add: assms(1) ride_at_same [OF assms(1)])

lemma moves_simps [simp]:
  "moves a (logStatusHistory i x y z w db) = moves a db" "moves a (free_driver n d db) = moves a db" "moves a (set_available d v db) = moves a db"
  "moves a (snd (cancelAllAssignments i db)) = moves a db" "moves a (endSession k why db) = moves a db"
  "moves a (createRideAssignment i d k t n db) = moves a db" "moves a (declineAssignment i d db) = moves a db"
  "moves a (expireLapsedOffers t i db) = moves a db" "moves a (free_seen_driver n u db) = moves a db"
  "moves a (db\<lparr>available := av\<rparr>) = moves a db"
  by (rule moves_same; simp add: cancelAllAssignments_def endSession_def createRideAssignment_def declineAssignment_def expireLapsedOffers_def
      free_seen_driver_def split: option.split)+

lemma edge_step: "transition_allowed a b \<Longrightarrow> (a, b) \<in> (set legal_edges)\<^sup>*"
  by (auto simp: transition_allowed_def)

text \<open>A write: what it needs of the row it finds.\<close>

lemma moves_via:
  assumes run: "rides db' = rides (snd (ride_write now i p f db))"
    and inv: "rides_inv db \<longrightarrow> rides_inv db'"
    and fixed: "\<And>r. fixed_columns ((f r)\<lparr>rr_updated := now\<rparr>) = fixed_columns r"
  shows "moves db db'"
proof (cases rule: ride_write_cases [of now i p f db])
  case (written r)
  then have eq: "rides db' = (rides db)[i := (f r)\<lparr>rr_updated := now\<rparr>]" using run by simp
  have "\<exists>y. ride_at db' j = Some y \<and> fixed_columns y = fixed_columns z \<and> (rr_status z, rr_status y) \<in> (set legal_edges)\<^sup>*"
    if "ride_at db j = Some z" for j z
    using that written(1) fixed [of r] edge_step [OF written(3)] by (cases "j = i") (auto simp: eq ride_at_bound)
  then show ?thesis using inv by (auto simp: moves_def eq)
qed (use run inv in \<open>auto simp: moves_def ride_at_def\<close>)

lemma moves_write:
  assumes run: "ride_write now i p f db = (x, db')"
    and fixed: "\<And>r. fixed_columns ((f r)\<lparr>rr_updated := now\<rparr>) = fixed_columns r"
    and row: "\<And>r. ride_at db i = Some r \<Longrightarrow> row_ok r \<Longrightarrow> p r \<Longrightarrow> transition_allowed (rr_status r) (rr_status (f r)) \<Longrightarrow>
        row_ok ((f r)\<lparr>rr_updated := now\<rparr>) \<and> (live (rr_status (f r)) \<longrightarrow> live (rr_status r) \<and> rr_driver (f r) = rr_driver r)"
  shows "moves db db'"
  by (rule moves_via [of _ now i p f, OF _ _ fixed]) (use run ride_write_inv [of db i p f now] row in auto)

lemma moves_cas:
  assumes run: "updateRideStatusCAS now i from_sts st upd db = (x, db')"
    and fixed: "\<And>r. fixed_columns ((upd r)\<lparr>rr_updated := now\<rparr>) = fixed_columns r"
    and row: "\<And>r. ride_at db i = Some r \<Longrightarrow> row_ok r \<Longrightarrow> rr_status r \<in> set from_sts \<Longrightarrow>
        row_ok ((upd (r\<lparr>rr_status := st\<rparr>))\<lparr>rr_updated := now\<rparr>)
        \<and> (live (rr_status (upd (r\<lparr>rr_status := st\<rparr>))) \<longrightarrow> live (rr_status r) \<and> rr_driver (upd (r\<lparr>rr_status := st\<rparr>)) = rr_driver r)"
  shows "moves db db'"
proof (rule moves_write [OF run [unfolded updateRideStatusCAS_def]])
  show "fixed_columns ((upd (r\<lparr>rr_status := st\<rparr>))\<lparr>rr_updated := now\<rparr>) = fixed_columns r" for r
    using fixed [of "r\<lparr>rr_status := st\<rparr>"] by (simp add: fixed_columns_def)
qed (use row in auto)

subsection \<open>The statements\<close>

lemmas fixed_simps = fixed_columns_def row_ok_def live_def

lemma moves_accept: "acceptAssignment now i d m db = (x, db') \<Longrightarrow> moves db db'"
  using acceptAssignment_write(1) [of now i d m db] acceptAssignment_inv [of db now i d m]
  by (intro moves_via [of db' now i "\<lambda>r. rr_status r = Requested \<and> open_offer now i d db \<and> \<not> driver_busy i d db"
        "\<lambda>r. r\<lparr>rr_status := Accepted, rr_driver := Some d, rr_accepted := Some now, rr_billing := Some m\<rparr>"]) (auto simp: fixed_columns_def)

lemma moves_revert: "revertForceAssign now i d db = (x, db') \<Longrightarrow> moves db db'"
  using revertForceAssign_write(1) [of now i d db] revertForceAssign_inv [of db now i d]
  by (intro moves_via [of db' now i "\<lambda>r. rr_driver r = Some d \<and> rr_status r = Accepted"
        "\<lambda>r. r\<lparr>rr_status := Requested, rr_driver := None, rr_accepted := None, rr_grace := None\<rparr>"]) (auto simp: fixed_columns_def)

lemma moves_create:
  assumes "createRide now d db = (x, db')" "coalesce (ri_status d) Requested \<in> {Scheduled, Requested}"
  shows "moves db db'"
proof -
  have "rides db' = rides db \<or> rides db' = rides db @ [inserted_ride now d]"
    using assms(1) by (auto simp: createRide_def Let_def split: if_splits)
  then show ?thesis using createRide_inv [OF _ assms(2), of db now] assms(1) by (auto simp: moves_def ride_at_def nth_append)
qed

lemma moves_session: "createSession d v c m db = (x, db') \<Longrightarrow> moves db db'"
  using moves_same [of db' db db] by (auto simp: createSession_def split: if_splits)

lemma moves_resession: "createSession d v c m (endSession k why db) = (x, db') \<Longrightarrow> moves db db'"
  using moves_same [of db' db db] by (auto simp: createSession_def endSession_def split: if_splits)

lemma moves_reissue: "reissueStartOtpHash now i h db = (x, db') \<Longrightarrow> moves db db'"
  unfolding reissueStartOtpHash_def
  by (auto split: prod.splits sum.splits) (erule moves_write; auto simp: fixed_simps)+

lemma moves_flag: "flagRideForReview now i why db = (x, db') \<Longrightarrow> moves db db'"
  unfolding flagRideForReview_def
  by (auto split: prod.splits sum.splits) (erule moves_write; auto simp: fixed_simps)+

lemma moves_pickup: "updatePickup now i q xs db = (x, db') \<Longrightarrow> moves db db'"
  unfolding updatePickup_def by (erule moves_write; auto simp: fixed_simps)

lemma moves_close:
  assumes "close_ride now i seen st db = (x, db')" "st = Completed \<or> st = Cancelled"
  shows "moves db db'"
proof -
  let ?f = "\<lambda>r. if st = Completed then r\<lparr>rr_status := st, rr_completed := Some now\<rparr> else r\<lparr>rr_status := st, rr_cancelled := Some now\<rparr>"
  obtain y where w: "ride_write now i (\<lambda>r. rr_status r = seen) ?f db = (y, db')"
    using assms(1) by (cases "ride_write now i (\<lambda>r. rr_status r = seen) ?f db") (auto simp: close_ride_def split: sum.splits)
  show ?thesis
  proof (rule moves_write [OF w])
    show "row_ok ((?f r)\<lparr>rr_updated := now\<rparr>) \<and> (live (rr_status (?f r)) \<longrightarrow> live (rr_status r) \<and> rr_driver (?f r) = rr_driver r)"
      if "row_ok r" "transition_allowed (rr_status r) (rr_status (?f r))" for r
      using that assms(2) by (cases "rr_status r") (auto simp: row_ok_def live_def transition_allowed_def legal_edges_def)
  qed (simp add: fixed_columns_def)
qed

lemma moves_to_trip:
  "updateRideStatusCAS now i [Accepted] DriverArrived (\<lambda>r. r\<lparr>rr_arrived := Some now, rr_start_hash := Some h\<rparr>) db = (x, db') \<Longrightarrow> moves db db'"
  "updateRideStatusCAS now i [DriverArrived] InProgress (\<lambda>r. r\<lparr>rr_started := Some now, rr_end_hash := Some h\<rparr>) db = (x, db') \<Longrightarrow> moves db db'"
  by (erule moves_cas; simp add: fixed_simps)+

lemma moves_waiting:
  "updateRideStatusCAS now i [Requested] NoDrivers id db = (x, db') \<Longrightarrow> moves db db'"
  "updateRideStatusCAS now i [Scheduled] Requested id db = (x, db') \<Longrightarrow> moves db db'"
  "updateRideStatusCAS now i [NoDrivers] Requested id db = (x, db') \<Longrightarrow> moves db db'"
  by (erule moves_cas; simp add: fixed_simps)+

lemma moves_ended:
  "updateRideStatusCAS now i [InProgress, Returning] Completed
     (\<lambda>r. r\<lparr>rr_completed := Some now, rr_actual_km := km, rr_actual_min := mn, rr_flagged := None, rr_review := None\<rparr>) db = (x, db') \<Longrightarrow> moves db db'"
  "st \<in> {InProgress, Returning} \<Longrightarrow> updateRideStatusCAS now i [st] Completed
     (\<lambda>r. r\<lparr>rr_completed := Some now, rr_flagged := Some now, rr_review := Some why\<rparr>) db = (x, db') \<Longrightarrow> moves db db'"
  by (erule moves_cas; simp add: fixed_simps; elim disjE; simp)+

lemma moves_return:
  assumes "updateRideStatusCAS now i [InProgress] Returning (\<lambda>r. r\<lparr>rr_return := Some now\<rparr>) db = (x, db')"
    and "\<And>r. ride_at db i = Some r \<Longrightarrow> rr_type r = round_trip"
  shows "moves db db'"
  using assms(1) by (rule moves_cas) (use assms(2) in \<open>auto simp: fixed_simps\<close>)

text \<open>Writes of columns that are neither fixed nor part of the invariant.\<close>

lemma moves_columns:
  "ride_write now i (\<lambda>_. True) (\<lambda>r. r\<lparr>rr_grace := g\<rparr>) db = (x, db') \<Longrightarrow> moves db db'"
  "ride_write now i (\<lambda>_. True) (\<lambda>r. r\<lparr>rr_drop := Some (coalesce (rr_drop r) now)\<rparr>) db = (x, db') \<Longrightarrow> moves db db'"
  "ride_write now i (\<lambda>_. True) (\<lambda>r. r\<lparr>rr_end_hash := Some h\<rparr>) db = (x, db') \<Longrightarrow> moves db db'"
  by (erule moves_write; auto simp: fixed_simps)+

subsection \<open>The handlers\<close>

lemma op_rides_simps [simp]:
  "op_rides (set_rides db s) = db" "op_rides (set_offers g s) = op_rides s"
  "op_rides (s\<lparr>op_cancels := a\<rparr>) = op_rides s" "op_rides (s\<lparr>op_start_pins := b\<rparr>) = op_rides s" "op_rides (s\<lparr>op_end_pins := b\<rparr>) = op_rides s"
  "op_rides (s\<lparr>op_tries := c\<rparr>) = op_rides s" "op_rides (s\<lparr>op_otp_events := d\<rparr>) = op_rides s" "op_rides (s\<lparr>op_jobs := e\<rparr>) = op_rides s"
  by (simp_all add: op_rides_def set_rides_def set_world_def set_offers_def)

lemma op_rides_logged [simp]: "moves db (op_rides (logged i x y z w s)) = moves db (op_rides s)"
  by (simp add: logged_def)

lemma op_rides_world [simp]: "op_rides (set_world g s) = w_rides (g (tp_world (op_trip s)))"
  by (simp add: op_rides_def set_world_def)

lemmas handler_splits = prod.splits sum.splits option.splits bool.splits if_splits

lemma goOnline_moves: "moves (op_rides s) (op_rides (snd (goOnline e d req seen s)))"
  unfolding goOnline_def Let_def by (auto split: handler_splits dest: moves_session moves_resession)

lemma goOffline_moves: "moves (op_rides s) (op_rides (goOffline d why seen s))"
  unfolding goOffline_def by (auto split: handler_splits)

lemma pause_moves: "moves (op_rides s) (op_rides (set_paused v d seen s))"
  unfolding set_paused_def by (auto split: handler_splits)

lemma accept_moves: "moves (op_rides s) (op_rides (snd (acceptRide now mode d i s)))"
  unfolding acceptRide_def by (auto split: handler_splits dest: moves_accept)

lemma decline_moves: "moves (op_rides s) (op_rides (declineRide d i s))"
  by (simp add: declineRide_def)

lemma arrived_moves: "moves (op_rides s) (op_rides (snd (markArrived h now d i seen fresh reachable s)))"
  unfolding markArrived_def by (auto split: handler_splits dest: moves_to_trip moves_reissue)

lemma try_otp_rides [simp]: "op_rides (snd (try_otp h i start stored otp s)) = op_rides s"
  by (auto simp: try_otp_def checkRideOtpAttempts_def Let_def split: handler_splits)

lemma try_otp_run: "try_otp h i start stored otp s = (x, s') \<Longrightarrow> op_rides s' = op_rides s"
  using try_otp_rides [of h i start stored otp s] by simp

lemma startOTP_moves: "moves (op_rides s) (op_rides (snd (verifyStartOTP h now d i seen otp s)))"
  unfolding verifyStartOTP_def by (auto split: handler_splits dest!: try_otp_run dest: moves_to_trip)

lemma endOtp_moves: "moves (op_rides s) (op_rides (snd (getEndOtp h now i s)))"
  unfolding getEndOtp_def Let_def by (auto split: handler_splits dest: moves_columns)

lemma atDrop_moves: "moves (op_rides s) (op_rides (snd (markArrivedAtDrop h now d i seen s)))"
proof (cases "driver_ride d seen")
  case (Inr r)
  show ?thesis
  proof (cases "ride_write now i (\<lambda>_. True) (\<lambda>r. r\<lparr>rr_drop := Some (coalesce (rr_drop r) now)\<rparr>) (op_rides s)")
    case (Pair x db)
    have "moves (op_rides s) (op_rides (snd (getEndOtp h now i (set_rides db s))))"
      using moves_trans [OF moves_columns(2) [OF Pair]] endOtp_moves [of "set_rides db s" h now i] by simp
    then show ?thesis using Inr Pair by (simp add: markArrivedAtDrop_def split: sum.split)
  qed
qed (simp add: markArrivedAtDrop_def)

lemma pickup_moves: "moves (op_rides s) (op_rides (snd (updateRidePickup lm now user i seen p s)))"
  unfolding updateRidePickup_def by (auto split: handler_splits dest: moves_pickup)

lemma cancel_moves: "moves (op_rides s) (op_rides (snd (cancelRide cards now user i why seen s)))"
  unfolding cancelRide_def Let_def by (auto split: handler_splits dest: moves_close)

lemma driver_cancel_moves: "moves (op_rides s) (op_rides (snd (cancelRideAsDriver now d i why seen s)))"
  unfolding cancelRideAsDriver_def by (auto split: handler_splits dest: moves_close)

lemma expire_requested_moves: "moves (op_rides s) (op_rides (snd (expireStaleRequestedRide now i s)))"
  unfolding expireStaleRequestedRide_def by (auto split: handler_splits dest: moves_waiting)

lemma expire_accepted_moves: "moves (op_rides s) (op_rides (snd (expireStaleAcceptedOrArrivedRide now i st d s)))"
  unfolding expireStaleAcceptedOrArrivedRide_def by (auto split: handler_splits dest: moves_close)

text \<open>Manual assignment.\<close>

lemma open_moves:
  assumes "rr_status r \<in> {Scheduled, Requested, NoDrivers}"
  shows "moves (op_rides s) (op_rides (snd (open_for_assignment now admin i r s)))"
  using assms unfolding open_for_assignment_def by (auto split: handler_splits dest: moves_waiting)

lemma force_moves: "moves (op_rides s) (op_rides (snd (force_assign now m admin d i k job s)))"
proof (cases "acceptAssignment now i d m (createRideAssignment i d k now 0 (op_rides s))")
  case (Pair x db)
  have a: "moves (op_rides s) db" using moves_trans [OF _ moves_accept [OF Pair], of "op_rides s"] by simp
  show ?thesis
  proof (cases job)
    case None
    then show ?thesis using a Pair by (auto simp: force_assign_def Let_def split: handler_splits)
  next
    case (Some j)
    obtain y db2 where w: "ride_write now i (\<lambda>_. True) (\<lambda>r. r\<lparr>rr_grace := Some j\<rparr>) db = (y, db2)" by (rule prod.exhaust)
    show ?thesis using moves_trans [OF a moves_columns(1) [OF w]] a Pair w Some
      by (auto simp: force_assign_def Let_def split: handler_splits)
  qed
qed

lemma request_moves: "moves a (op_rides (request_driver now admin d i k r s)) = moves a (op_rides s)"
  by (simp add: request_driver_def Let_def)

lemma assign_checks_status: "assign_checks seen cand ov = Inr (r, k) \<Longrightarrow> rr_status r \<in> {Scheduled, Requested, NoDrivers}"
  by (auto simp: assign_checks_def bind_res_def guard_err_def split: handler_splits)

lemma assign_moves: "moves (op_rides s) (op_rides (snd (adminAssignDriver now mode admin d i how ov cand job seen s)))"
proof (cases "assign_checks seen cand ov")
  case (Inr q)
  obtain r k where q: "q = (r, k)" by (rule prod.exhaust)
  obtain x s1 where o1: "open_for_assignment now admin i r s = (x, s1)" by (rule prod.exhaust)
  have a: "moves (op_rides s) (op_rides s1)"
    using open_moves [OF assign_checks_status [OF Inr [unfolded q]], of s now admin i] o1 by simp
  show ?thesis using a o1 Inr q moves_trans [OF a force_moves]
    by (auto simp: adminAssignDriver_def request_moves split: sum.split option.split assign_mode.split)
qed (simp add: adminAssignDriver_def)

lemma grace_moves: "moves (op_rides s) (op_rides (snd (forceAssignGraceCheck now gps d i seen s)))"
  unfolding forceAssignGraceCheck_def by (auto split: handler_splits dest: moves_columns moves_revert)

text \<open>The return leg needs the ride type, which the row that was read still has.\<close>

definition observed :: "ops \<Rightarrow> nat \<Rightarrow> ride_row option \<Rightarrow> bool" where
  "observed s i seen \<longleftrightarrow> (case seen of None \<Rightarrow> True
     | Some r \<Rightarrow> \<exists>r'. ride_at (op_rides s) i = Some r' \<and> fixed_columns r' = fixed_columns r \<and> (rr_status r, rr_status r') \<in> (set legal_edges)\<^sup>*)"

lemma return_moves:
  assumes "observed s i seen"
  shows "moves (op_rides s) (op_rides (snd (startReturn now d i seen s)))"
proof (cases "driver_ride d seen")
  case (Inr r)
  then have r: "seen = Some r" by (auto simp: driver_ride_def split: option.splits if_splits)
  show ?thesis
  proof (cases "rr_type r = round_trip")
    case True
    then have "\<And>r'. ride_at (op_rides s) i = Some r' \<Longrightarrow> rr_type r' = round_trip"
      using assms r by (auto simp: observed_def fixed_columns_def)
    then show ?thesis using Inr True by (auto simp: startReturn_def split: handler_splits dest: moves_return)
  qed (simp add: startReturn_def Inr)
qed (simp add: startReturn_def)

text \<open>The ends of a trip.\<close>

lemma flagged_moves: "moves a (op_rides s) \<Longrightarrow> moves a (op_rides (flagged now i ns s))"
proof -
  have "moves a db \<Longrightarrow> moves a (fold (\<lambda>n db. snd (flagRideForReview now i n db)) ns db)" for db
  proof (induction ns arbitrary: db)
    case (Cons n ns)
    obtain x db1 where f: "flagRideForReview now i n db = (x, db1)" by (rule prod.exhaust)
    show ?case using Cons.IH [OF moves_trans [OF Cons.prems moves_flag [OF f]]] f by simp
  qed simp
  then show "moves a (op_rides s) \<Longrightarrow> moves a (op_rides (flagged now i ns s))" by (simp add: flagged_def)
qed

lemma fold_wait_rides [simp]: "op_rides (snd (fold_wait pct i ty s)) = op_rides s"
  by (auto simp: fold_wait_def Let_def split: option.split)

lemma settle_end_moves: "moves a (op_rides s) \<Longrightarrow> moves a (op_rides (snd (settle_end pct quote now d i r e s)))"
proof -
  assume a: "moves a (op_rides s)"
  let ?x = "end_fare (rr_type r) (rr_started r) now (quoted quote i s) e"
  show ?thesis
  proof (cases "if fst ?x = KeepSnapshot then Some (offers_of s) else write_fare pct i (stored_fare (fst ?x)) (offers_of s)")
    case (Some db)
    let ?s1 = "flagged now i (snd ?x) (set_offers (\<lambda>_. db) s)"
    obtain y s2 where w: "fold_wait pct i (rr_type r) ?s1 = (y, s2)" by (rule prod.exhaust)
    have "op_rides s2 = op_rides ?s1" using fold_wait_rides [of pct i "rr_type r" ?s1] w by simp
    moreover have "moves a (op_rides ?s1)" by (rule flagged_moves) (simp add: a)
    ultimately show ?thesis using Some w by (simp add: settle_end_def Let_def split: sum.split)
  qed (use a in \<open>simp add: settle_end_def Let_def\<close>)
qed

lemma endOTP_moves: "moves (op_rides s) (op_rides (snd (verifyEndOTP h pct quote now d i seen otp e s)))"
  unfolding verifyEndOTP_def Let_def
  by (auto split: handler_splits dest!: try_otp_run dest: moves_ended(1) intro!: settle_end_moves)

lemma early_end_moves: "moves (op_rides s) (op_rides (snd (endRideEarlyAsDriver pct quote now d i seen why km mn s)))"
proof (cases "driver_ride d seen")
  case (Inr r)
  note shape = endRideEarlyAsDriver_def [of pct quote now d i seen why km mn s, unfolded Inr sum.case Let_def]
  show ?thesis
  proof (cases "rr_status r \<in> {InProgress, Returning}")
    case True
    let ?w = "case quoted quote i s of None \<Rightarrow> Some (offers_of s)
      | Some (q, f) \<Rightarrow> write_fare pct i (stored_fare (FinalIs (early_end_fare q f km mn))) (offers_of s)"
    show ?thesis
    proof (cases ?w)
      case (Some off)
      obtain x db where c: "updateRideStatusCAS now i [rr_status r] Completed
          (\<lambda>r. r\<lparr>rr_completed := Some now, rr_flagged := Some now, rr_review := Some (''Ended early by driver: '' @ why)\<rparr>) (op_rides s) = (x, db)"
        by (rule prod.exhaust)
      have "moves (op_rides s) db" by (rule moves_ended(2) [OF True c])
      then show ?thesis using True unfolding shape Some by (simp only: op_rides_simps c) (simp split: sum.split option.split)
    next
      case None
      then show ?thesis using True unfolding shape by simp
    qed
  qed (simp add: shape)
qed (simp add: endRideEarlyAsDriver_def)

lemma op_rides_stops: "op_rides (s\<lparr>op_trip := (op_trip s)\<lparr>tp_stops := xs\<rparr>\<rparr>) = op_rides s"
  by (simp add: op_rides_def)

lemma resolve_rides:
  "op_rides (resolve_fare pct i completed r s) = op_rides s"
  "moves a (op_rides (resolve_commit i completed who whose r db s)) = moves a db"
  by (auto simp: resolve_fare_def resolve_commit_def op_rides_stops Let_def split: option.split)

lemma resolve_moves: "moves (op_rides s) (op_rides (snd (forceResolveRide pct now i completed who whose seen s)))"
proof (cases seen)
  case (Some r)
  let ?f = "\<lambda>x. if completed then x\<lparr>rr_status := Completed, rr_completed := Some now, rr_flagged := None\<rparr>
    else x\<lparr>rr_status := Cancelled, rr_cancelled := Some now, rr_flagged := None\<rparr>"
  obtain y db where w: "ride_write now i (\<lambda>x. rr_status x = rr_status r) ?f (op_rides s) = (y, db)" by (rule prod.exhaust)
  show ?thesis
  proof (cases "rr_status r \<in> {InProgress, Returning}")
    case True
    have "moves (op_rides s) db"
    proof (rule moves_write [OF w])
      show "row_ok ((?f x)\<lparr>rr_updated := now\<rparr>) \<and> (live (rr_status (?f x)) \<longrightarrow> live (rr_status x) \<and> rr_driver (?f x) = rr_driver x)"
        if "row_ok x" "rr_status x = rr_status r" for x
      proof -
        have "rr_status x = InProgress \<or> rr_status x = Returning" using that(2) True by simp
        then show ?thesis using that(1) by (elim disjE; cases completed; simp add: row_ok_def live_def)
      qed
    qed (simp add: fixed_columns_def)
    then show ?thesis using True Some w by (simp add: forceResolveRide_def resolve_rides split: sum.split option.split)
  qed (simp add: forceResolveRide_def Some)
qed (simp add: forceResolveRide_def)

text \<open>Booking and dispatch.\<close>

lemma offer_to_moves [simp]: "moves a (offer_to now i n hs db) = moves a db"
  unfolding offer_to_def by (induction hs arbitrary: db) simp_all

lemma broadcast_moves: "moves (op_rides s) (op_rides (snd (processBroadcast m n now i b seen s)))"
proof -
  have "moves (op_rides s) db" if "updateRideStatusCAS now i [Requested] NoDrivers id (expireLapsedOffers now i (op_rides s)) = (x, db)" for x db
    using moves_trans [OF _ moves_waiting(1) [OF that], of "op_rides s"] by simp
  then show ?thesis unfolding processBroadcast_def Let_def by (auto split: handler_splits)
qed

lemma scheduled_moves: "moves (op_rides s) (op_rides (snd (processDispatchScheduled pr pct now i req s)))"
  unfolding processDispatchScheduled_def Let_def by (auto simp: reestimate_def split: handler_splits dest: moves_waiting)

lemma stuck_moves: "moves (op_rides s) (op_rides (snd (flag_stuck now i s)))"
  unfolding flag_stuck_def by (auto split: handler_splits dest: moves_flag)

lemma booking_moves: "moves (op_rides s) (op_rides (s\<lparr>op_trip := snd (createBooking e user b (op_trip s))\<rparr>))"
proof (cases "booking_terms e user b (w_rides (tp_world (op_trip s)))")
  case (Inl err)
  then show ?thesis by (simp add: createBooking_def op_rides_def)
next
  case (Inr q)
  obtain sched hours quote offer where q: "q = (sched, hours, quote, offer)" by (cases q) auto
  obtain x t1 where tx: "book_tx e user b sched hours quote offer (op_trip s) = (x, t1)" by (rule prod.exhaust)
  show ?thesis
  proof (cases x)
    case (Inl err)
    then show ?thesis using Inr q tx book_tx_error [OF tx [unfolded Inl]] by (simp add: createBooking_def op_rides_def)
  next
    case (Inr i)
    obtain db where c: "createRide (be_now e) (ride_input_of e user b sched) (op_rides s) = (Inr i, db)" "w_rides (tp_world t1) = db"
      using book_tx_ok [OF tx [unfolded Inr]] by (auto simp: op_rides_def)
    have "moves (op_rides s) db"
      by (rule moves_create [OF c(1)]) (simp add: ride_input_of_def coalesce_def split: option.split)
    then show ?thesis using \<open>booking_terms _ _ _ _ = _\<close> q tx Inr c(2) by (simp add: createBooking_def op_rides_def Let_def)
  qed
qed

subsection \<open>All interleavings\<close>

text \<open>
  \<open>observed\<close> is the one thing a handler may rely on about a row it has read; \<open>elsewhere\<close> stands for everything that leaves the
  table of rides alone (payments, stops, wallets, expiring Redis keys, jobs taken from a queue).
\<close>

inductive ops_step :: "ops \<Rightarrow> ops \<Rightarrow> bool" where
  booking: "ops_step s (s\<lparr>op_trip := snd (createBooking e user b (op_trip s))\<rparr>)"
| online: "ops_step s (snd (goOnline g d req mine s))"
| offline: "ops_step s (goOffline d why mine s)"
| paused: "ops_step s (pauseAvailability d mine s)"
| resumed: "ops_step s (resumeAvailability d mine s)"
| declined: "ops_step s (declineRide d i s)"
| accepting: "ops_step s (snd (acceptRide now mode d i s))"
| arriving: "observed s i seen \<Longrightarrow> ops_step s (snd (markArrived h now d i seen fresh reachable s))"
| starting: "observed s i seen \<Longrightarrow> ops_step s (snd (verifyStartOTP h now d i seen otp s))"
| turning_back: "observed s i seen \<Longrightarrow> ops_step s (snd (startReturn now d i seen s))"
| at_drop: "observed s i seen \<Longrightarrow> ops_step s (snd (markArrivedAtDrop h now d i seen s))"
| moving_pickup: "observed s i seen \<Longrightarrow> ops_step s (snd (updateRidePickup lm now user i seen p s))"
| cancelling: "observed s i seen \<Longrightarrow> ops_step s (snd (cancelRide cards now user i why_opt seen s))"
| driver_cancelling: "observed s i seen \<Longrightarrow> ops_step s (snd (cancelRideAsDriver now d i why_opt seen s))"
| ending: "observed s i seen \<Longrightarrow> ops_step s (snd (verifyEndOTP h pct quote now d i seen otp ed s))"
| ending_early: "observed s i seen \<Longrightarrow> ops_step s (snd (endRideEarlyAsDriver pct quote now d i seen why km mn s))"
| resolving: "observed s i seen \<Longrightarrow> ops_step s (snd (forceResolveRide pct now i completed who whose seen s))"
| assigning: "observed s i seen \<Longrightarrow> ops_step s (snd (adminAssignDriver now mode admin d i how ov cand job seen s))"
| grace_over: "observed s i seen \<Longrightarrow> ops_step s (snd (forceAssignGraceCheck now gps d i seen s))"
| broadcasting: "observed s i seen \<Longrightarrow> ops_step s (snd (processBroadcast m n now i bc seen s))"
| dispatching: "ops_step s (snd (processDispatchScheduled pr pct now i fr s))"
| expiring: "ops_step s (snd (expireStaleRequestedRide now i s))"
| abandoning: "ops_step s (snd (expireStaleAcceptedOrArrivedRide now i st d s))"
| flagging: "ops_step s (snd (flag_stuck now i s))"
| cash: "observed s i (Some r) \<Longrightarrow> rr_status r = Completed \<Longrightarrow> ops_step s (set_world (\<lambda>w. snd (cash_claim now i amount disc cash_note w)) s)"
| elsewhere: "op_rides s' = op_rides s \<Longrightarrow> ops_step s s'"

lemma terminal_stays:
  assumes "(a, b) \<in> (set legal_edges)\<^sup>*" "terminal a"
  shows "b = a"
  using assms by (induction rule: rtrancl_induct) (auto simp: legal_edges_def terminal_def)

lemma cash_moves:
  assumes "observed s i (Some r)" "rr_status r = Completed"
  shows "moves (op_rides s) (op_rides (set_world (\<lambda>w. snd (cash_claim now i amount disc cash_note w)) s))"
proof -
  obtain r' where r': "ride_at (op_rides s) i = Some r'" "(Completed, rr_status r') \<in> (set legal_edges)\<^sup>*"
    using assms by (auto simp: observed_def)
  have over: "rr_status r' = Completed" using terminal_stays [OF r'(2)] by (simp add: terminal_def)
  let ?f = "\<lambda>r. r\<lparr>rr_cash_amount := Some (to_paise amount), rr_cash_at := Some now, rr_cash_disc := disc, rr_cash_note := cash_note\<rparr>"
  obtain y db where w: "ride_write now i (\<lambda>r. rr_cash_at r = None) ?f (op_rides s) = (y, db)" by (rule prod.exhaust)
  have "moves (op_rides s) db"
  proof (rule moves_write [OF w])
    show "row_ok ((?f x)\<lparr>rr_updated := now\<rparr>) \<and> (live (rr_status (?f x)) \<longrightarrow> live (rr_status x) \<and> rr_driver (?f x) = rr_driver x)"
      if "ride_at (op_rides s) i = Some x" "row_ok x" for x
      using that r'(1) over by (simp add: row_ok_def live_def)
  qed (simp add: fixed_columns_def)
  then show ?thesis using w by (simp add: cash_claim_def op_rides_def set_world_def split: sum.split option.split)
qed

lemmas handler_moves = booking_moves goOnline_moves goOffline_moves pause_moves decline_moves accept_moves arrived_moves startOTP_moves return_moves
  atDrop_moves pickup_moves cancel_moves driver_cancel_moves endOTP_moves early_end_moves resolve_moves assign_moves grace_moves broadcast_moves
  scheduled_moves expire_requested_moves expire_accepted_moves stuck_moves cash_moves

lemma step_moves: "ops_step s s' \<Longrightarrow> moves (op_rides s) (op_rides s')"
  by (induction rule: ops_step.induct) (simp_all only: handler_moves pauseAvailability_def resumeAvailability_def moves_refl)

lemma steps_move: "ops_step\<^sup>*\<^sup>* s s' \<Longrightarrow> moves (op_rides s) (op_rides s')"
  by (induction rule: rtranclp_induct) (auto intro: step_moves moves_trans)

text \<open>
  C1. The life of a ride. However the handlers of riders, drivers, admins, jobs and sweeps interleave, each acting on a row it may
  have read long before: rides stay well formed, a driver has at most one live ride and a rider at most one immediate one where the index
  exists; a ride keeps its rider, type, channel, category, city, destination and time, moves only along the legal edges, and never
  leaves \<open>completed\<close> or \<open>cancelled\<close>. What a handler may assume of a row it has read is always true. The statement that
  accepts is one step: where the index of migration 109 on a driver's live rides could not be built, that means that the acceptances of one driver are taken one at a time.
\<close>

theorem ride_lifecycle:
  assumes run: "ops_step\<^sup>*\<^sup>* s s'" and inv: "rides_inv (op_rides s)"
  shows "rides_inv (op_rides s')
    \<and> (\<forall>i r. ride_at (op_rides s) i = Some r \<longrightarrow> observed s' i (Some r)
         \<and> (\<exists>r'. ride_at (op_rides s') i = Some r' \<and> fixed_columns r' = fixed_columns r \<and> (rr_status r, rr_status r') \<in> (set legal_edges)\<^sup>*
              \<and> (terminal (rr_status r) \<longrightarrow> rr_status r' = rr_status r)))"
proof -
  have m: "moves (op_rides s) (op_rides s')" by (rule steps_move [OF run])
  have "observed s' i (Some r) \<and> (\<exists>r'. ride_at (op_rides s') i = Some r' \<and> fixed_columns r' = fixed_columns r
      \<and> (rr_status r, rr_status r') \<in> (set legal_edges)\<^sup>* \<and> (terminal (rr_status r) \<longrightarrow> rr_status r' = rr_status r))"
    if r: "ride_at (op_rides s) i = Some r" for i r
  proof -
    obtain r' where r': "ride_at (op_rides s') i = Some r'" "fixed_columns r' = fixed_columns r" "(rr_status r, rr_status r') \<in> (set legal_edges)\<^sup>*"
      using m r unfolding moves_def by blast
    then show ?thesis using terminal_stays [OF r'(3)] by (auto simp: observed_def)
  qed
  then show ?thesis using m inv by (auto simp: moves_def)
qed

definition demo_ops :: ops where
  "demo_ops = \<lparr>op_trip = demo_start\<lparr>tp_world := demo_world\<lparr>w_rides := demo_rides\<rparr>\<rparr>, op_cancels = [], op_start_pins = Map.empty,
     op_end_pins = Map.empty, op_tries = (\<lambda>_. 0), op_otp_events = [], op_jobs = []\<rparr>"

lemma demo_ops_rides [simp]: "op_rides demo_ops = demo_rides"
  by (simp add: op_rides_def demo_ops_def)

lemma demo_ride_at: "ride_at demo_rides 0 = Some demo_ride"
  by (simp add: ride_at_def demo_rides_def)

lemma demo_accepted:
  "\<exists>lost s. acceptRide 12000 (Some Commission) 5 0 demo_ops = (Inr lost, s) \<and> (\<exists>r. ride_at (op_rides s) 0 = Some r \<and> rr_status r = Accepted \<and> rr_driver r = Some 5)"
proof -
  have d: "rr_status demo_ride = Requested" "open_offer 12000 0 5 demo_rides" "\<not> driver_busy 0 5 demo_rides"
    by (simp_all add: demo_rides_def demo_ride_def open_offer_def driver_busy_def exists_ride_def)
  obtain lost db where a: "acceptAssignment 12000 0 5 Commission demo_rides = (Inr (Some lost), db)"
    using accept_succeeds [OF demo_rides_inv demo_ride_at d] by blast
  have "\<exists>r. ride_at db 0 = Some r \<and> rr_status r = Accepted \<and> rr_driver r = Some 5" using accept_takes [OF a] by auto
  then show ?thesis using a by (simp add: acceptRide_def logged_def)
qed

lemma ride_lifecycle_witness:
  "\<exists>s. ops_step\<^sup>*\<^sup>* demo_ops s \<and> rides_inv (op_rides s) \<and> observed s 0 (Some demo_ride)
     \<and> (\<exists>r. ride_at (op_rides s) 0 = Some r \<and> rr_status r = Accepted \<and> rr_user r = rr_user demo_ride)"
proof -
  obtain lost s where s: "acceptRide 12000 (Some Commission) 5 0 demo_ops = (Inr lost, s)"
    and r: "\<exists>r. ride_at (op_rides s) 0 = Some r \<and> rr_status r = Accepted \<and> rr_driver r = Some 5" using demo_accepted by blast
  have run: "ops_step\<^sup>*\<^sup>* demo_ops s" using accepting [of demo_ops 12000 "Some Commission" 5 0] s by simp
  have "ride_at (op_rides demo_ops) 0 = Some demo_ride" by (simp add: demo_ride_at)
  with ride_lifecycle [OF run] have "rides_inv (op_rides s)" "observed s 0 (Some demo_ride)"
    "\<exists>r'. ride_at (op_rides s) 0 = Some r' \<and> fixed_columns r' = fixed_columns demo_ride"
    by (simp_all add: demo_rides_inv) blast
  then show ?thesis using run r by (auto simp: fixed_columns_def)
qed

end
