(* ===== verification/Auth.thy ===== *)
theory Auth
  imports Otp RideOps
begin

text \<open>
  Sign-in and sessions (\<open>modules/auth\<close>, \<open>middleware/auth.middleware.ts\<close>, \<open>modules/account\<close>): accounts, refresh tokens with rotation and reuse
  detection, the one device of a driver, and the deletion of an account. Hashes, signatures and random tokens are arguments. The
  lemmas show that a refresh token buys one successor, that reuse ends its family, and what a deletion leaves.
\<close>

subsection \<open>Tables\<close>

datatype account_status = PendingDocs | PendingApproval | AccountActive | Suspended | Banned | DocsRejected | Deleted

record account =
  ac_phone :: string
  ac_status :: account_status

record admin_account =
  ad_email :: string
  ad_active :: bool
  ad_password :: string
  ad_totp :: bool

record token =
  tk_role :: principal_role
  tk_owner :: nat
  tk_hash :: string
  tk_family :: nat
  tk_expires :: int
  tk_used :: "int option"
  tk_revoked :: "int option"
  tk_reuse :: "int option"
  tk_next :: "string option"

text \<open>\<open>au_sid\<close>: the Redis key of a driver's current session, with its expiry.\<close>

record auth =
  au_tokens :: "token list"
  au_users :: "account list"
  au_drivers :: "account list"
  au_admins :: "admin_account list"
  au_sid :: "nat \<rightharpoonup> nat \<times> int"
  au_otp :: otp_redis
  au_ops :: ops

text \<open>The claims of an access token that matter here.\<close>

record access =
  xs_role :: principal_role
  xs_owner :: nat
  xs_sid :: "nat option"

definition invalid_token :: app_error where "invalid_token = http_err 401 ''AUTH_TOKEN_INVALID''"

definition spent :: "token \<Rightarrow> bool" where
  "spent t \<longleftrightarrow> tk_used t \<noteq> None \<or> tk_revoked t \<noteq> None"

definition revoke :: "int \<Rightarrow> token \<Rightarrow> token" where
  "revoke now t = t\<lparr>tk_revoked := Some (coalesce (tk_revoked t) now)\<rparr>"

definition reused :: "int \<Rightarrow> token \<Rightarrow> token" where
  "reused now t = t\<lparr>tk_reuse := Some (coalesce (tk_reuse t) now)\<rparr>"

text \<open>\<open>expiryToSeconds\<close>: digits and one of four units, or 900.\<close>

definition expiryToSeconds :: "string \<Rightarrow> int" where
  "expiryToSeconds s = (let ds = takeWhile is_digit s; u = dropWhile is_digit s; n = int (digits_value ds) in
     if ds = [] then 900 else if u = ''s'' then n else if u = ''m'' then n * 60 else if u = ''h'' then n * 3600 else if u = ''d'' then n * 86400 else 900)"

subsection \<open>Refresh tokens\<close>

definition findRefreshToken :: "string \<Rightarrow> auth \<Rightarrow> token option" where
  "findRefreshToken h db = find (\<lambda>t. tk_hash t = h) (au_tokens db)"

text \<open>The hash is unique.\<close>

definition storeRefreshToken :: "principal_role \<Rightarrow> nat \<Rightarrow> string \<Rightarrow> nat \<Rightarrow> int \<Rightarrow> auth \<Rightarrow> unit res \<times> auth" where
  "storeRefreshToken role i h fam expires db =
     (if findRefreshToken h db \<noteq> None then (Inl db_error, db)
      else (Inr (), db\<lparr>au_tokens := au_tokens db @ [\<lparr>tk_role = role, tk_owner = i, tk_hash = h, tk_family = fam, tk_expires = expires,
        tk_used = None, tk_revoked = None, tk_reuse = None, tk_next = None\<rparr>]\<rparr>))"

definition used_up :: "string \<Rightarrow> int \<Rightarrow> string option \<Rightarrow> token \<Rightarrow> token" where
  "used_up old now nx x = (if tk_hash x = old then x\<lparr>tk_used := Some now, tk_revoked := Some now, tk_next := nx\<rparr> else x)"

definition rotateRefreshToken :: "int \<Rightarrow> string \<Rightarrow> string \<Rightarrow> int \<Rightarrow> auth \<Rightarrow> bool res \<times> auth" where
  "rotateRefreshToken now old new expires db =
     (case findRefreshToken old db of None \<Rightarrow> (Inr False, db)
      | Some t \<Rightarrow>
          if spent t then (Inr False, db\<lparr>au_tokens := map (\<lambda>x. if tk_family x = tk_family t
              then (if tk_hash x = old then reused now (revoke now x) else revoke now x) else x) (au_tokens db)\<rparr>)
          else if tk_expires t \<le> now then (Inr False, db\<lparr>au_tokens := map (\<lambda>x. if tk_hash x = old then revoke now x else x) (au_tokens db)\<rparr>)
          else (case storeRefreshToken (tk_role t) (tk_owner t) new (tk_family t) expires
              (db\<lparr>au_tokens := map (used_up old now (Some new)) (au_tokens db)\<rparr>) of
              (Inl err, _) \<Rightarrow> (Inl err, db) | (Inr _, db) \<Rightarrow> (Inr True, db)))"

definition revokeRefreshTokenFamily :: "int \<Rightarrow> string \<Rightarrow> auth \<Rightarrow> auth" where
  "revokeRefreshTokenFamily now h db =
     (case findRefreshToken h db of None \<Rightarrow> db
      | Some t \<Rightarrow> db\<lparr>au_tokens := map (\<lambda>x. if tk_family x = tk_family t
          then (if tk_hash x = h \<and> spent x then reused now (revoke now x) else revoke now x) else x) (au_tokens db)\<rparr>)"

definition revokeOtherDriverSessions :: "int \<Rightarrow> nat \<Rightarrow> nat \<Rightarrow> auth \<Rightarrow> auth" where
  "revokeOtherDriverSessions now d keep db = db\<lparr>au_tokens := map (\<lambda>x.
     if tk_role x = DriverRole \<and> tk_owner x = d \<and> tk_family x \<noteq> keep \<and> tk_revoked x = None then revoke now x else x) (au_tokens db)\<rparr>"

text \<open>The purge deletes tokens that expired a week ago or were revoked a month ago, in bounded batches: any part of them.\<close>

definition purgeable :: "int \<Rightarrow> token \<Rightarrow> bool" where
  "purgeable now t \<longleftrightarrow> tk_expires t < now - 7 * 86400000 \<or> (case tk_revoked t of Some r \<Rightarrow> r < now - 30 * 86400000 | None \<Rightarrow> False)"

definition purge_tokens :: "int \<Rightarrow> string list \<Rightarrow> auth \<Rightarrow> auth" where
  "purge_tokens now batch db = db\<lparr>au_tokens := filter (\<lambda>t. \<not> (purgeable now t \<and> tk_hash t \<in> set batch)) (au_tokens db)\<rparr>"

subsection \<open>Signing in\<close>

definition set_sid :: "nat \<Rightarrow> nat \<Rightarrow> int \<Rightarrow> auth \<Rightarrow> auth" where
  "set_sid d fam until db = db\<lparr>au_sid := (au_sid db)(d \<mapsto> (fam, until))\<rparr>"

text \<open>A session that is online, but not on a trip, ends.\<close>

definition end_online :: "nat \<Rightarrow> string \<Rightarrow> auth \<Rightarrow> auth" where
  "end_online d why db = (let mine = getActiveSession d (op_rides (au_ops db)) in
     if (case mine of Some (k, x) \<Rightarrow> se_status x = OnlineSession | None \<Rightarrow> False) then db\<lparr>au_ops := goOffline d why mine (au_ops db)\<rparr> else db)"

definition replaceDriverSession :: "int \<Rightarrow> nat \<Rightarrow> nat \<Rightarrow> int \<Rightarrow> auth \<Rightarrow> auth" where
  "replaceDriverSession now d fam ttl db = end_online d ''session_replaced'' (revokeOtherDriverSessions now d fam (set_sid d fam (now + 1000 * ttl) db))"

text \<open>\<open>fam\<close> is a fresh UUID, \<open>rt\<close> the random refresh token.\<close>

definition issueTokenPair :: "(string \<Rightarrow> string) \<Rightarrow> int \<Rightarrow> principal_role \<Rightarrow> nat \<Rightarrow> int \<Rightarrow> nat \<Rightarrow> string \<Rightarrow> auth \<Rightarrow> (access \<times> string) res \<times> auth" where
  "issueTokenPair hash now role i ttl fam rt db =
     (case storeRefreshToken role i (hash rt) fam (now + 1000 * ttl) db of (Inl err, db) \<Rightarrow> (Inl err, db)
      | (Inr _, db) \<Rightarrow> (Inr (\<lparr>xs_role = role, xs_owner = i, xs_sid = (if role = DriverRole then Some fam else None)\<rparr>, rt),
          if role = DriverRole then replaceDriverSession now i fam ttl db else db))"

text \<open>\<open>INSERT \<dots> ON CONFLICT (phone) DO UPDATE \<dots> RETURNING *\<close>: the row's number and the table.\<close>

definition upsert_account :: "account_status \<Rightarrow> string \<Rightarrow> account list \<Rightarrow> nat \<times> account list" where
  "upsert_account st phone xs = (case find (\<lambda>i. ac_phone (xs ! i) = phone) [0..<length xs] of Some i \<Rightarrow> (i, xs)
     | None \<Rightarrow> (length xs, xs @ [\<lparr>ac_phone = phone, ac_status = st\<rparr>]))"

definition otp_result :: "otp_answer \<Rightarrow> unit res" where
  "otp_result a = (case a of OtpSuccess \<Rightarrow> Inr () | OtpExpired \<Rightarrow> Inl (http_err 401 ''AUTH_OTP_EXPIRED'') | OtpLocked \<Rightarrow> Inl (http_err 429 ''AUTH_OTP_LOCKED'')
     | OtpWrong n \<Rightarrow> Inl (http_err 401 ''AUTH_OTP_INVALID''))"

definition sign_in_standing :: "bool \<Rightarrow> account_status \<Rightarrow> unit res" where
  "sign_in_standing driver st =
     (if driver then bind_res (guard_err (st = Banned) (http_err 403 ''DRIVER_BANNED''))
        (\<lambda>_. guard_err (st = Suspended \<or> st = Deleted) (http_err 403 ''DRIVER_SUSPENDED''))
      else guard_err (st = Suspended) (http_err 403 ''AUTH_FORBIDDEN''))"

text \<open>\<open>hashes\<close>: of codes and of refresh tokens; \<open>ttl\<close>: the refresh expiry of riders and drivers. A rider's row is written before it is checked.\<close>

definition verifyOtp :: "(string \<Rightarrow> string) \<times> (string \<Rightarrow> string) \<Rightarrow> redis_fault \<Rightarrow> int \<Rightarrow> string \<Rightarrow> string \<Rightarrow> bool \<Rightarrow> int \<Rightarrow> nat \<Rightarrow> string \<Rightarrow> auth
    \<Rightarrow> (access \<times> string) res \<times> auth" where
  "verifyOtp hashes f now phone otp driver ttl fam rt db =
     (let role = (if driver then DriverRole else UserRole) in
      case consumeOtp (fst hashes) f now (phone, role) otp (au_otp db) of
        (Inl err, o1) \<Rightarrow> (Inl err, db\<lparr>au_otp := o1\<rparr>)
      | (Inr a, o1) \<Rightarrow>
          let db = db\<lparr>au_otp := o1\<rparr> in
          (case otp_result a of Inl err \<Rightarrow> (Inl err, db)
           | Inr _ \<Rightarrow>
               let (i, xs) = (if driver then upsert_account PendingDocs phone (au_drivers db) else upsert_account AccountActive phone (au_users db));
                   db = (if driver then db\<lparr>au_drivers := xs\<rparr> else db\<lparr>au_users := xs\<rparr>) in
               (case sign_in_standing driver (ac_status (xs ! i)) of Inl err \<Rightarrow> (Inl err, db)
                | Inr _ \<Rightarrow> issueTokenPair (snd hashes) now role i ttl fam rt db)))"

text \<open>\<open>same\<close> compares a password with its hash. With two factors on, the answer is the number of the admin to ask for the code.\<close>

datatype admin_login = LoggedIn access string | NeedsCode nat

definition findAdminByEmail :: "string \<Rightarrow> auth \<Rightarrow> nat option" where
  "findAdminByEmail mail db = find (\<lambda>i. ad_email (au_admins db ! i) = mail \<and> ad_active (au_admins db ! i)) [0..<length (au_admins db)]"

definition adminLogin :: "(string \<Rightarrow> string \<Rightarrow> bool) \<Rightarrow> (string \<Rightarrow> string) \<Rightarrow> int \<Rightarrow> string \<Rightarrow> string \<Rightarrow> int \<Rightarrow> nat \<Rightarrow> string \<Rightarrow> auth \<Rightarrow> admin_login res \<times> auth" where
  "adminLogin same hash now mail password ttl fam rt db =
     (case findAdminByEmail mail db of None \<Rightarrow> (Inl (http_err 401 ''AUTH_OTP_INVALID''), db)
      | Some i \<Rightarrow>
          if \<not> same password (ad_password (au_admins db ! i)) then (Inl (http_err 401 ''AUTH_OTP_INVALID''), db)
          else if ad_totp (au_admins db ! i) then (Inr (NeedsCode i), db)
          else (case issueTokenPair hash now AdminRole i ttl fam rt db of (Inl err, db) \<Rightarrow> (Inl err, db) | (Inr (x, rt), db) \<Rightarrow> (Inr (LoggedIn x rt), db)))"

subsection \<open>Staying signed in\<close>

text \<open>The principal's row as the handler read it, and whether it was found in a ride under way.\<close>

datatype standing = OfAccount account_status | OfAdmin bool

definition hasLiveRide :: "principal_role \<Rightarrow> nat \<Rightarrow> auth \<Rightarrow> bool" where
  "hasLiveRide role i db = list_ex (\<lambda>r. live (rr_status r) \<and> (if role = DriverRole then rr_driver r = Some i else rr_user r = i)) (rides (op_rides (au_ops db)))"

definition refresh_standing :: "principal_role \<Rightarrow> standing option \<Rightarrow> bool \<Rightarrow> unit res" where
  "refresh_standing role st riding = (case st of None \<Rightarrow> Inl invalid_token
     | Some (OfAccount a) \<Rightarrow>
         (case role of
            UserRole \<Rightarrow> guard_err (a = Deleted \<or> a = Suspended \<and> \<not> riding) (http_err 403 ''AUTH_FORBIDDEN'')
          | DriverRole \<Rightarrow> bind_res (guard_err (a = Banned) (http_err 403 ''DRIVER_BANNED''))
              (\<lambda>_. guard_err (a = Deleted \<or> a = Suspended \<and> \<not> riding) (http_err 403 ''DRIVER_SUSPENDED''))
          | AdminRole \<Rightarrow> Inr ())
     | Some (OfAdmin on) \<Rightarrow> guard_err (role = AdminRole \<and> \<not> on) invalid_token)"

text \<open>\<open>seen\<close>: the token row read first; \<open>ttl\<close>: the refresh expiry of its role.\<close>

definition refreshTokens :: "(string \<Rightarrow> string) \<Rightarrow> int \<Rightarrow> string \<Rightarrow> string \<Rightarrow> (principal_role \<Rightarrow> int) \<Rightarrow> token option \<Rightarrow> standing option \<Rightarrow> bool \<Rightarrow> auth
    \<Rightarrow> (access \<times> string) res \<times> auth" where
  "refreshTokens hash now rt new ttl seen st riding db = (case seen of None \<Rightarrow> (Inl invalid_token, db)
     | Some t \<Rightarrow>
         if spent t \<or> tk_expires t \<le> now then (Inl invalid_token, revokeRefreshTokenFamily now (hash rt) db)
         else (case refresh_standing (tk_role t) st riding of Inl err \<Rightarrow> (Inl err, db)
          | Inr _ \<Rightarrow>
              (case rotateRefreshToken now (hash rt) (hash new) (now + 1000 * ttl (tk_role t)) db of
                 (Inl err, db) \<Rightarrow> (Inl err, db)
               | (Inr False, db) \<Rightarrow> (Inl invalid_token, db)
               | (Inr True, db) \<Rightarrow> (Inr (\<lparr>xs_role = tk_role t, xs_owner = tk_owner t,
                     xs_sid = (if tk_role t = DriverRole then Some (tk_family t) else None)\<rparr>, new), db))))"

definition logout :: "(string \<Rightarrow> string) \<Rightarrow> int \<Rightarrow> string \<Rightarrow> token option \<Rightarrow> auth \<Rightarrow> auth" where
  "logout hash now rt seen db =
     (let db = revokeRefreshTokenFamily now (hash rt) db in
      case seen of Some t \<Rightarrow> if tk_role t = DriverRole \<and> \<not> spent t then end_online (tk_owner t) ''logout'' db else db | None \<Rightarrow> db)"

definition isDriverSessionReplaced :: "int \<Rightarrow> nat \<Rightarrow> nat option \<Rightarrow> auth \<Rightarrow> bool" where
  "isDriverSessionReplaced now d sid db = (case sid of None \<Rightarrow> False
     | Some s \<Rightarrow> (case au_sid db d of Some (cur, until) \<Rightarrow> now < until \<and> cur \<noteq> s | None \<Rightarrow> False))"

text \<open>\<open>claims\<close>: of a token whose signature and expiry are good. \<open>standing\<close> is the cached or the stored status.\<close>

definition authenticate :: "int \<Rightarrow> access option \<Rightarrow> standing option \<Rightarrow> auth \<Rightarrow> nat res" where
  "authenticate now claims st db = (case claims of None \<Rightarrow> Inl invalid_token
     | Some x \<Rightarrow>
         bind_res (guard_err (xs_role x = DriverRole \<and> isDriverSessionReplaced now (xs_owner x) (xs_sid x) db) (http_err 401 ''AUTH_SESSION_REPLACED'')) (\<lambda>_.
         case st of None \<Rightarrow> Inl invalid_token
         | Some (OfAccount a) \<Rightarrow>
             bind_res (guard_err (xs_role x = DriverRole \<and> a = Banned) (http_err 403 ''DRIVER_BANNED'')) (\<lambda>_.
             bind_res (guard_err (a = Deleted) invalid_token) (\<lambda>_. Inr (xs_owner x)))
         | Some (OfAdmin on) \<Rightarrow> bind_res (guard_err (\<not> on) invalid_token) (\<lambda>_. Inr (xs_owner x))))"

subsection \<open>Deleting an account\<close>

definition role_rides :: "bool \<Rightarrow> nat \<Rightarrow> ride_row \<Rightarrow> bool" where
  "role_rides driver i r \<longleftrightarrow> (if driver then rr_driver r = Some i else rr_user r = i)"

text \<open>\<open>'deleted:' || id\<close>.\<close>

definition deleted_phone :: "nat \<Rightarrow> string" where
  "deleted_phone i = ''deleted:'' @ id_string i"

definition deletion_checks :: "bool \<Rightarrow> nat \<Rightarrow> auth \<Rightarrow> unit res" where
  "deletion_checks driver i db = (let w = tp_world (op_trip (au_ops db)) in
     bind_res (guard_err (list_ex (\<lambda>r. role_rides driver i r \<and> (rr_status r = Requested \<or> live (rr_status r))) (rides (w_rides w)))
       (http_err 409 ''ACCOUNT_HAS_ACTIVE_RIDE'')) (\<lambda>_.
     bind_res (guard_err (0 < balance (if driver then w_drivers w else w_users w) i) (http_err 409 ''ACCOUNT_HAS_BALANCE'')) (\<lambda>_.
     guard_err (driver \<and> list_ex (\<lambda>s. st_driver s = i \<and> (st_status s \<in> {SettlePending, Processing, SettleOnHold})) (settlements (w_settle w)))
       (http_err 409 ''ACCOUNT_HAS_PENDING_PAYOUT''))))"

definition erase_account :: "nat \<Rightarrow> account list \<Rightarrow> account list" where
  "erase_account i xs = xs[i := (xs ! i)\<lparr>ac_phone := deleted_phone i, ac_status := Deleted\<rparr>]"

text \<open>The bank accounts of a driver lose their gateway reference, every session ends, the location goes.\<close>

definition retire_driver :: "nat \<Rightarrow> ops \<Rightarrow> ops" where
  "retire_driver i = set_world (\<lambda>w. w\<lparr>w_rides := (w_rides w)\<lparr>
       sessions := map (\<lambda>x. if se_driver x = i \<and> active x then x\<lparr>se_status := OfflineSession\<rparr> else x) (sessions (w_rides w)),
       available := (available (w_rides w))(i := None)\<rparr>,
     w_settle := (w_settle w)\<lparr>banks := map (\<lambda>b. if ba_driver b = i then b\<lparr>ba_fund := None\<rparr> else b) (banks (w_settle w))\<rparr>\<rparr>)"

text \<open>One transaction. An account that is not there or is deleted already is no error.\<close>

definition deleteAccount :: "int \<Rightarrow> bool \<Rightarrow> nat \<Rightarrow> auth \<Rightarrow> unit res \<times> auth" where
  "deleteAccount now driver i db =
     (let xs = (if driver then au_drivers db else au_users db); role = (if driver then DriverRole else UserRole) in
      if length xs \<le> i \<or> ac_status (xs ! i) = Deleted then (Inr (), db)
      else (case deletion_checks driver i db of Inl err \<Rightarrow> (Inl err, db)
        | Inr _ \<Rightarrow>
            let db = (if driver then db\<lparr>au_drivers := erase_account i xs, au_ops := retire_driver i (au_ops db)\<rparr> else db\<lparr>au_users := erase_account i xs\<rparr>)
            in (Inr (), db\<lparr>au_tokens := map (\<lambda>x. if tk_role x = role \<and> tk_owner x = i \<and> tk_revoked x = None then x\<lparr>tk_revoked := Some now\<rparr> else x) (au_tokens db)\<rparr>)))"

subsection \<open>Well-formed token tables\<close>

text \<open>\<open>ex\<close>: the hashes that have been exchanged for a successor.\<close>

definition tokens_ok :: "string list \<Rightarrow> token list \<Rightarrow> bool" where
  "tokens_ok ex ts \<longleftrightarrow> distinct (map tk_hash ts) \<and> distinct ex
     \<and> (\<forall>t \<in> set ts. (tk_used t \<noteq> None \<longrightarrow> tk_revoked t \<noteq> None) \<and> (tk_hash t \<in> set ex \<longrightarrow> tk_used t \<noteq> None))
     \<and> (\<forall>t \<in> set ts. \<forall>u \<in> set ts. tk_family t = tk_family u \<and> tk_revoked t = None \<and> tk_revoked u = None \<longrightarrow> tk_hash t = tk_hash u)"

lemma tokens_ok_empty: "tokens_ok [] []"
  by (simp add: tokens_ok_def)

text \<open>What every update of rows does: keys stay, a revocation is never taken back.\<close>

definition only_revokes :: "(token \<Rightarrow> token) \<Rightarrow> bool" where
  "only_revokes f \<longleftrightarrow> (\<forall>t. tk_hash (f t) = tk_hash t \<and> tk_family (f t) = tk_family t \<and> tk_role (f t) = tk_role t \<and> tk_owner (f t) = tk_owner t
     \<and> tk_used (f t) = tk_used t \<and> (tk_revoked t \<noteq> None \<longrightarrow> tk_revoked (f t) \<noteq> None))"

lemma revoke_simps [simp]:
  "tk_hash (revoke now t) = tk_hash t" "tk_family (revoke now t) = tk_family t" "tk_role (revoke now t) = tk_role t" "tk_owner (revoke now t) = tk_owner t"
  "tk_used (revoke now t) = tk_used t" "tk_revoked (revoke now t) = Some (coalesce (tk_revoked t) now)"
  "tk_hash (reused now t) = tk_hash t" "tk_family (reused now t) = tk_family t" "tk_role (reused now t) = tk_role t" "tk_owner (reused now t) = tk_owner t"
  "tk_used (reused now t) = tk_used t" "tk_revoked (reused now t) = tk_revoked t"
  by (simp_all add: revoke_def reused_def)

lemma tokens_okI:
  assumes "distinct (map tk_hash ts)" "distinct ex"
    and "\<And>t. t \<in> set ts \<Longrightarrow> tk_used t \<noteq> None \<Longrightarrow> tk_revoked t \<noteq> None" "\<And>t. t \<in> set ts \<Longrightarrow> tk_hash t \<in> set ex \<Longrightarrow> tk_used t \<noteq> None"
    and "\<And>t u. t \<in> set ts \<Longrightarrow> u \<in> set ts \<Longrightarrow> tk_family t = tk_family u \<Longrightarrow> tk_revoked t = None \<Longrightarrow> tk_revoked u = None \<Longrightarrow> tk_hash t = tk_hash u"
  shows "tokens_ok ex ts"
  using assms unfolding tokens_ok_def by blast

lemma tokens_okD:
  assumes "tokens_ok ex ts"
  shows "distinct (map tk_hash ts)" "distinct ex"
    and "\<And>t. t \<in> set ts \<Longrightarrow> tk_used t \<noteq> None \<Longrightarrow> tk_revoked t \<noteq> None" "\<And>t. t \<in> set ts \<Longrightarrow> tk_hash t \<in> set ex \<Longrightarrow> tk_used t \<noteq> None"
    and "\<And>t u. t \<in> set ts \<Longrightarrow> u \<in> set ts \<Longrightarrow> tk_family t = tk_family u \<Longrightarrow> tk_revoked t = None \<Longrightarrow> tk_revoked u = None \<Longrightarrow> tk_hash t = tk_hash u"
  using assms unfolding tokens_ok_def by blast+

lemma tokens_ok_map:
  assumes ok: "tokens_ok ex ts" and f: "only_revokes f"
  shows "tokens_ok ex (map f ts)"
proof -
  have f1: "tk_hash (f t) = tk_hash t" "tk_family (f t) = tk_family t" "tk_used (f t) = tk_used t" for t using f by (simp_all add: only_revokes_def)
  have f2: "tk_revoked (f t) = None \<Longrightarrow> tk_revoked t = None" for t using f unfolding only_revokes_def by blast
  note D = tokens_okD [OF ok]
  show ?thesis
  proof (rule tokens_okI)
    have "map tk_hash (map f ts) = map tk_hash ts" by (simp add: f1)
    then show "distinct (map tk_hash (map f ts))" using D(1) by (simp only:)
  next
    fix y assume "y \<in> set (map f ts)" "tk_used y \<noteq> None"
    then obtain t where t: "y = f t" "t \<in> set ts" "tk_used t \<noteq> None" using f1(3) by auto
    show "tk_revoked y \<noteq> None" unfolding t(1) by (rule contrapos_nn [OF D(3) [OF t(2,3)] f2])
  next
    fix y assume "y \<in> set (map f ts)" "tk_hash y \<in> set ex"
    then obtain t where t: "y = f t" "t \<in> set ts" "tk_hash t \<in> set ex" using f1(1) by auto
    show "tk_used y \<noteq> None" using D(4) [OF t(2,3)] f1(3) t(1) by simp
  next
    fix y z assume a: "y \<in> set (map f ts)" "z \<in> set (map f ts)" "tk_family y = tk_family z" "tk_revoked y = None" "tk_revoked z = None"
    obtain t u where t: "y = f t" "t \<in> set ts" "z = f u" "u \<in> set ts" using a(1,2) by auto
    show "tk_hash y = tk_hash z" using D(5) [OF t(2,4)] a(3-5) f1 f2 t(1,3) by simp
  qed (rule D(2))
qed

lemma tokens_ok_filter: "tokens_ok ex ts \<Longrightarrow> tokens_ok ex (filter p ts)"
  by (rule tokens_okI) (auto simp: distinct_map_filter dest: tokens_okD)

lemma tokens_ok_new:
  assumes ok: "tokens_ok ex ts" and n: "\<forall>t \<in> set ts. tk_hash t \<noteq> tk_hash n" "tk_hash n \<notin> set ex" "tk_used n = None"
    "\<forall>t \<in> set ts. tk_family t = tk_family n \<longrightarrow> tk_revoked t \<noteq> None"
  shows "tokens_ok ex (ts @ [n])"
proof -
  note D = tokens_okD [OF ok]
  show ?thesis
  proof (rule tokens_okI)
    show "distinct (map tk_hash (ts @ [n]))" using D(1) n(1) by auto
    show "tk_revoked t \<noteq> None" if "t \<in> set (ts @ [n])" "tk_used t \<noteq> None" for t using D(3) [of t] that n(3) by auto
    show "tk_used t \<noteq> None" if "t \<in> set (ts @ [n])" "tk_hash t \<in> set ex" for t using D(4) [of t] that n(2) by auto
    show "tk_hash t = tk_hash u" if "t \<in> set (ts @ [n])" "u \<in> set (ts @ [n])" "tk_family t = tk_family u" "tk_revoked t = None" "tk_revoked u = None" for t u
      using D(5) [of t u] that n(4) by auto
  qed (rule D(2))
qed

text \<open>An exchange: the old row is used up, its successor is the one live row of the family.\<close>

lemma used_up_simps [simp]:
  "tk_hash (used_up old now nx x) = tk_hash x" "tk_family (used_up old now nx x) = tk_family x"
  "tk_used (used_up old now nx x) = (if tk_hash x = old then Some now else tk_used x)"
  "tk_revoked (used_up old now nx x) = (if tk_hash x = old then Some now else tk_revoked x)"
  by (simp_all add: used_up_def)

lemma tokens_ok_exchange:
  assumes ok: "tokens_ok ex ts" and t: "t \<in> set ts" "tk_hash t = old" "\<not> spent t"
    and n: "\<forall>t \<in> set ts. tk_hash t \<noteq> tk_hash n" "tk_hash n \<notin> set ex" "tk_used n = None" "tk_family n = tk_family t"
  shows "tokens_ok (ex @ [old]) (map (used_up old now nx) ts @ [n])"
proof (rule tokens_ok_new)
  note D = tokens_okD [OF ok]
  have live: "tk_used t = None" "tk_revoked t = None" using t(3) by (simp_all add: spent_def)
  show "tokens_ok (ex @ [old]) (map (used_up old now nx) ts)"
  proof (rule tokens_okI)
    have "map tk_hash (map (used_up old now nx) ts) = map tk_hash ts" by simp
    then show "distinct (map tk_hash (map (used_up old now nx) ts))" using D(1) by (simp only:)
    show "distinct (ex @ [old])" using D(2) D(4) [OF t(1)] live(1) t(2) by auto
    show "tk_revoked y \<noteq> None" if "y \<in> set (map (used_up old now nx) ts)" "tk_used y \<noteq> None" for y
      using that D(3) by (fastforce split: if_splits)
    show "tk_used y \<noteq> None" if "y \<in> set (map (used_up old now nx) ts)" "tk_hash y \<in> set (ex @ [old])" for y
      using that D(4) by (fastforce split: if_splits)
    fix y z assume a: "y \<in> set (map (used_up old now nx) ts)" "z \<in> set (map (used_up old now nx) ts)" "tk_family y = tk_family z"
      and live: "tk_revoked y = None" "tk_revoked z = None"
    obtain t u where tu: "y = used_up old now nx t" "t \<in> set ts" "z = used_up old now nx u" "u \<in> set ts" using a(1,2) by auto
    then have "tk_revoked t = None" "tk_revoked u = None" using live by (simp_all split: if_splits)
    then show "tk_hash y = tk_hash z" using D(5) [OF tu(2,4)] a(3) tu(1,3) by simp
  qed
  show "\<forall>u \<in> set (map (used_up old now nx) ts). tk_family u = tk_family n \<longrightarrow> tk_revoked u \<noteq> None"
    using D(5) [OF _ t(1)] live(2) t(2) n(4) by (auto split: if_splits)
qed (use n t in auto)

lemma find_token: "findRefreshToken h db = Some t \<Longrightarrow> t \<in> set (au_tokens db) \<and> tk_hash t = h"
  by (auto simp: findRefreshToken_def find_Some_iff)

lemma find_token_None: "findRefreshToken h db = None \<longleftrightarrow> (\<forall>t \<in> set (au_tokens db). tk_hash t \<noteq> h)"
  by (auto simp: findRefreshToken_def find_None_iff)

lemma revoke_family_ok: "tokens_ok ex (au_tokens db) \<Longrightarrow> tokens_ok ex (au_tokens (revokeRefreshTokenFamily now h db))"
  by (auto simp: revokeRefreshTokenFamily_def only_revokes_def split: option.split intro!: tokens_ok_map)

lemma revoke_family_dead:
  assumes "findRefreshToken h db = Some t" "x \<in> set (au_tokens (revokeRefreshTokenFamily now h db))" "tk_family x = tk_family t"
  shows "tk_revoked x \<noteq> None"
  using assms by (auto simp: revokeRefreshTokenFamily_def simp del: not_None_eq split: if_splits)

lemma end_online_tokens [simp]: "au_tokens (end_online d why db) = au_tokens db"
  by (simp add: end_online_def Let_def)

lemma rotate_ok:
  assumes ok: "tokens_ok ex (au_tokens db)" and run: "rotateRefreshToken now old new expires db = (x, db')"
    and fresh: "new \<notin> set ex"
  shows "tokens_ok (if x = Inr True then ex @ [old] else ex) (au_tokens db')"
proof (cases "findRefreshToken old db")
  case None
  then show ?thesis using run ok by (auto simp: rotateRefreshToken_def)
next
  case (Some t)
  note t = find_token [OF Some]
  consider (spent) "spent t" | (late) "\<not> spent t" "tk_expires t \<le> now" | (good) "\<not> spent t" "\<not> tk_expires t \<le> now" by blast
  then show ?thesis
  proof cases
    case spent
    then show ?thesis using run ok Some by (auto simp: rotateRefreshToken_def only_revokes_def intro!: tokens_ok_map)
  next
    case late
    then show ?thesis using run ok Some by (auto simp: rotateRefreshToken_def only_revokes_def intro!: tokens_ok_map)
  next
    case good
    let ?db = "db\<lparr>au_tokens := map (used_up old now (Some new)) (au_tokens db)\<rparr>"
    show ?thesis
    proof (cases "findRefreshToken new ?db")
      case None
      let ?n = "\<lparr>tk_role = tk_role t, tk_owner = tk_owner t, tk_hash = new, tk_family = tk_family t, tk_expires = expires,
        tk_used = None, tk_revoked = None, tk_reuse = None, tk_next = None\<rparr>"
      have new: "\<forall>t \<in> set (au_tokens db). tk_hash t \<noteq> tk_hash ?n" using None by (auto simp: find_token_None)
      have "tokens_ok (ex @ [old]) (map (used_up old now (Some new)) (au_tokens db) @ [?n])"
        using t good(1) fresh by (intro tokens_ok_exchange [OF ok _ _ _ new]) simp_all
      then show ?thesis using run Some good None by (auto simp: rotateRefreshToken_def storeRefreshToken_def)
    next
      case (Some u)
      then show ?thesis using run good ok \<open>findRefreshToken old db = Some t\<close> by (auto simp: rotateRefreshToken_def storeRefreshToken_def)
    qed
  qed
qed

lemma refresh_ok:
  assumes ok: "tokens_ok ex (au_tokens db)" and run: "refreshTokens hash now rt new ttl seen st riding db = (x, db')" and fresh: "hash new \<notin> set ex"
  shows "tokens_ok (case x of Inr _ \<Rightarrow> ex @ [hash rt] | Inl _ \<Rightarrow> ex) (au_tokens db')"
proof (cases seen)
  case None
  then show ?thesis using run ok by (auto simp: refreshTokens_def)
next
  case (Some t)
  obtain y db1 where r: "rotateRefreshToken now (hash rt) (hash new) (now + 1000 * ttl (tk_role t)) db = (y, db1)" by (rule prod.exhaust)
  note rot = rotate_ok [OF ok r fresh]
  show ?thesis using run ok Some r rot
    by (auto simp: refreshTokens_def revoke_family_ok split: if_splits sum.splits bool.splits)
qed

subsection \<open>All interleavings\<close>

record auth_world =
  aw_db :: auth
  aw_exchanged :: "string list"

text \<open>A random token has never been seen.\<close>

definition unseen :: "string \<Rightarrow> auth_world \<Rightarrow> bool" where
  "unseen h w \<longleftrightarrow> h \<notin> set (aw_exchanged w) \<and> findRefreshToken h (aw_db w) = None"

text \<open>
  The statements of a sign-in are steps of their own. A refresh may decide on any token row and standing it read before; \<open>elsewhere\<close>
  stands for everything that leaves the tokens alone (Redis, accounts, sessions).
\<close>

inductive auth_step :: "(string \<Rightarrow> string) \<Rightarrow> auth_world \<Rightarrow> auth_world \<Rightarrow> bool" for hash where
  storing: "unseen h w \<Longrightarrow> \<forall>t \<in> set (au_tokens (aw_db w)). tk_family t \<noteq> fam \<Longrightarrow>
    auth_step hash w (w\<lparr>aw_db := snd (storeRefreshToken role i h fam expires (aw_db w))\<rparr>)"
| other_devices: "auth_step hash w (w\<lparr>aw_db := revokeOtherDriverSessions now d fam (aw_db w)\<rparr>)"
| refreshing: "unseen (hash new) w \<Longrightarrow> refreshTokens hash now rt new ttl seen st riding (aw_db w) = (x, db) \<Longrightarrow>
    auth_step hash w (w\<lparr>aw_db := db, aw_exchanged := (case x of Inr _ \<Rightarrow> aw_exchanged w @ [hash rt] | Inl _ \<Rightarrow> aw_exchanged w)\<rparr>)"
| logging_out: "auth_step hash w (w\<lparr>aw_db := logout hash now rt seen (aw_db w)\<rparr>)"
| deleting: "auth_step hash w (w\<lparr>aw_db := snd (deleteAccount now driver i (aw_db w))\<rparr>)"
| purging: "auth_step hash w (w\<lparr>aw_db := purge_tokens now batch (aw_db w)\<rparr>)"
| elsewhere: "au_tokens db = au_tokens (aw_db w) \<Longrightarrow> auth_step hash w (w\<lparr>aw_db := db\<rparr>)"

lemma logout_ok: "tokens_ok ex (au_tokens db) \<Longrightarrow> tokens_ok ex (au_tokens (logout hash now rt seen db))"
  by (simp add: logout_def Let_def revoke_family_ok split: option.split)

lemma delete_ok: "tokens_ok ex (au_tokens db) \<Longrightarrow> tokens_ok ex (au_tokens (snd (deleteAccount now driver i db)))"
  by (auto simp: deleteAccount_def Let_def only_revokes_def split: sum.split intro!: tokens_ok_map)

lemma auth_step_ok: "auth_step hash w w' \<Longrightarrow> tokens_ok (aw_exchanged w) (au_tokens (aw_db w)) \<Longrightarrow> tokens_ok (aw_exchanged w') (au_tokens (aw_db w'))"
proof (induction rule: auth_step.induct)
  case (storing h w fam role i expires)
  then show ?case by (auto simp: storeRefreshToken_def unseen_def find_token_None intro!: tokens_ok_new)
next
  case (refreshing new w now rt ttl seen st riding x db)
  then have "hash new \<notin> set (aw_exchanged w)" by (simp add: unseen_def)
  then show ?case using refresh_ok [OF refreshing.prems refreshing.hyps(2)] by (simp split: sum.splits)
next
  case (other_devices w now d fam)
  then show ?case by (auto simp: revokeOtherDriverSessions_def only_revokes_def intro!: tokens_ok_map)
next
  case (purging w now batch)
  then show ?case by (simp add: purge_tokens_def tokens_ok_filter)
qed (simp_all add: logout_ok delete_ok)

text \<open>
  C22. Refresh tokens are safe against theft. Over every interleaving of sign-ins, refreshes, sign-outs, deletions and purges, each acting on a
  row it may have read before, a token buys a successor at most once and a family has at most one live token. Whoever shows a
  token that has been used or revoked gets nothing, and no token of its family is live any more.
\<close>

theorem refresh_tokens_single_use:
  assumes run: "(auth_step hash)\<^sup>*\<^sup>* \<lparr>aw_db = db0, aw_exchanged = []\<rparr> w" and start: "au_tokens db0 = []"
  shows "distinct (aw_exchanged w)
    \<and> (\<forall>t \<in> set (au_tokens (aw_db w)). \<forall>u \<in> set (au_tokens (aw_db w)).
         tk_family t = tk_family u \<and> tk_revoked t = None \<and> tk_revoked u = None \<longrightarrow> t = u)
    \<and> (\<forall>now rt new ttl st riding t t' x db. spent t \<and> findRefreshToken (hash rt) (aw_db w) = Some t'
         \<and> refreshTokens hash now rt new ttl (Some t) st riding (aw_db w) = (x, db) \<longrightarrow>
         x = Inl invalid_token \<and> (\<forall>u \<in> set (au_tokens db). tk_family u = tk_family t' \<longrightarrow> tk_revoked u \<noteq> None))"
proof -
  have ok: "tokens_ok (aw_exchanged w) (au_tokens (aw_db w))"
    using run by (induction rule: rtranclp_induct) (simp_all add: start tokens_ok_empty auth_step_ok)
  have "t = u" if tu: "t \<in> set (au_tokens (aw_db w))" "u \<in> set (au_tokens (aw_db w))" "tk_family t = tk_family u" "tk_revoked t = None" "tk_revoked u = None" for t u
    using tokens_okD(5) [OF ok tu] tokens_okD(1) [OF ok] tu(1,2) by (auto simp: distinct_map dest: inj_onD)
  moreover have "x = Inl invalid_token \<and> (\<forall>u \<in> set (au_tokens db). tk_family u = tk_family t' \<longrightarrow> tk_revoked u \<noteq> None)"
    if "spent t" "findRefreshToken (hash rt) (aw_db w) = Some t'" "refreshTokens hash now rt new ttl (Some t) st riding (aw_db w) = (x, db)"
    for now rt new ttl st riding t t' x db
    using that revoke_family_dead [OF that(2)] by (auto simp: refreshTokens_def simp del: not_None_eq)
  ultimately show ?thesis using tokens_okD(2) [OF ok] by blast
qed

definition demo_auth :: auth where
  "demo_auth = \<lparr>au_tokens = [], au_users = [], au_drivers = [\<lparr>ac_phone = ''1'', ac_status = AccountActive\<rparr>], au_admins = [], au_sid = Map.empty,
     au_otp = lw_redis (fresh_login 0), au_ops = \<lparr>op_trip = demo_start, op_cancels = [], op_start_pins = Map.empty, op_end_pins = Map.empty,
       op_tries = (\<lambda>_. 0), op_otp_events = [], op_jobs = []\<rparr>\<rparr>"

definition demo_token :: token where
  "demo_token = \<lparr>tk_role = UserRole, tk_owner = 0, tk_hash = ''a'', tk_family = 1, tk_expires = 9000, tk_used = None, tk_revoked = None, tk_reuse = None, tk_next = None\<rparr>"

text \<open>A token is exchanged; its thief shows it again, and the rider's new token dies with it.\<close>

lemma refresh_tokens_single_use_witness:
  "\<exists>w t' x db. (auth_step id)\<^sup>*\<^sup>* \<lparr>aw_db = demo_auth, aw_exchanged = []\<rparr> w \<and> findRefreshToken ''a'' (aw_db w) = Some t' \<and> spent t'
     \<and> refreshTokens id 6 ''a'' ''c'' (\<lambda>_. 9) (Some t') None False (aw_db w) = (x, db) \<and> x = Inl invalid_token
     \<and> (\<forall>u \<in> set (au_tokens db). tk_family u = tk_family t' \<longrightarrow> tk_revoked u \<noteq> None)"
proof -
  let ?w0 = "\<lparr>aw_db = demo_auth, aw_exchanged = []\<rparr>"
  let ?db1 = "demo_auth\<lparr>au_tokens := [demo_token]\<rparr>"
  let ?w1 = "?w0\<lparr>aw_db := ?db1\<rparr>"
  have "snd (storeRefreshToken UserRole 0 ''a'' 1 9000 demo_auth) = ?db1"
    by (simp add: storeRefreshToken_def findRefreshToken_def demo_auth_def demo_token_def)
  then have s1: "auth_step id ?w0 ?w1"
    using auth_step.storing [of "''a''" ?w0 1 id UserRole 0 9000] by (simp add: unseen_def findRefreshToken_def demo_auth_def)
  obtain x db2 where r: "refreshTokens id 5 ''a'' ''b'' (\<lambda>_. 9) (Some demo_token) (Some (OfAccount AccountActive)) False ?db1 = (x, db2)" by (rule prod.exhaust)
  let ?t = "demo_token\<lparr>tk_used := Some 5, tk_revoked := Some 5, tk_next := Some ''b''\<rparr>"
  have x: "x = Inr (\<lparr>xs_role = UserRole, xs_owner = 0, xs_sid = None\<rparr>, ''b'')" and f: "findRefreshToken ''a'' db2 = Some ?t"
    using r by (auto simp: refreshTokens_def rotateRefreshToken_def findRefreshToken_def storeRefreshToken_def refresh_standing_def spent_def used_up_def demo_token_def)
  let ?w2 = "?w1\<lparr>aw_db := db2, aw_exchanged := [''a'']\<rparr>"
  have s2: "auth_step id ?w1 ?w2"
    using auth_step.refreshing [of id "''b''" ?w1 5 "''a''" "\<lambda>_. 9" "Some demo_token" "Some (OfAccount AccountActive)" False x db2] r x
    by (simp add: unseen_def findRefreshToken_def demo_token_def)
  have run: "(auth_step id)\<^sup>*\<^sup>* ?w0 ?w2" using s1 s2 by (simp add: converse_rtranclp_into_rtranclp)
  obtain y db3 where again: "refreshTokens id 6 ''a'' ''c'' (\<lambda>_. 9) (Some ?t) None False db2 = (y, db3)" by (rule prod.exhaust)
  have sp: "spent ?t" by (simp add: spent_def)
  have none: "au_tokens demo_auth = []" by (simp add: demo_auth_def)
  show ?thesis using refresh_tokens_single_use [OF run none] f sp again run by fastforce
qed

subsection \<open>One device for a driver\<close>

lemma end_online_sid [simp]: "au_sid (end_online d why db) = au_sid db"
  by (simp add: end_online_def Let_def)

lemma replaced_row:
  assumes "t \<in> set (au_tokens (replaceDriverSession now d keep ttl db))"
  obtains u where "u \<in> set (au_tokens db)" "tk_role u = tk_role t" "tk_owner u = tk_owner t" "tk_family u = tk_family t"
    "tk_revoked u \<noteq> None \<Longrightarrow> tk_revoked t \<noteq> None" "tk_role t = DriverRole \<Longrightarrow> tk_owner t = d \<Longrightarrow> tk_revoked t = None \<Longrightarrow> tk_family t = keep"
proof -
  let ?f = "\<lambda>x. if tk_role x = DriverRole \<and> tk_owner x = d \<and> tk_family x \<noteq> keep \<and> tk_revoked x = None then revoke now x else x"
  have "au_tokens (replaceDriverSession now d keep ttl db) = map ?f (au_tokens db)"
    by (simp add: replaceDriverSession_def revokeOtherDriverSessions_def set_sid_def)
  then obtain u where u: "u \<in> set (au_tokens db)" "t = ?f u" using assms by auto
  show thesis
  proof (cases "tk_role u = DriverRole \<and> tk_owner u = d \<and> tk_family u \<noteq> keep \<and> tk_revoked u = None")
    case True
    have "t = revoke now u" using u(2) unfolding if_P [OF True] .
    then show thesis using that [OF u(1)] by simp
  next
    case False
    have "t = u" using u(2) unfolding if_not_P [OF False] .
    then show thesis using that [OF u(1)] False by blast
  qed
qed

text \<open>
  The newest device wins. After a driver's sign-in every live refresh token of the driver is of the new session, the new token among them,
  and every request that carries an older session is answered with the session-replaced error, whatever else holds, until the new
  session's refresh token would have expired.
\<close>

theorem newest_device_wins:
  assumes "issueTokenPair hash now DriverRole d ttl fam rt db = (Inr (x, rt'), db')"
  shows "rt' = rt \<and> x = \<lparr>xs_role = DriverRole, xs_owner = d, xs_sid = Some fam\<rparr>
    \<and> (\<exists>t \<in> set (au_tokens db'). tk_hash t = hash rt \<and> tk_family t = fam \<and> tk_expires t = now + 1000 * ttl \<and> \<not> spent t)
    \<and> (\<forall>t \<in> set (au_tokens db'). tk_role t = DriverRole \<and> tk_owner t = d \<and> tk_revoked t = None \<longrightarrow> tk_family t = fam)
    \<and> (\<forall>later s st. s \<noteq> fam \<and> later < now + 1000 * ttl \<longrightarrow>
         authenticate later (Some \<lparr>xs_role = DriverRole, xs_owner = d, xs_sid = Some s\<rparr>) st db' = Inl (http_err 401 ''AUTH_SESSION_REPLACED''))"
proof -
  let ?n = "\<lparr>tk_role = DriverRole, tk_owner = d, tk_hash = hash rt, tk_family = fam, tk_expires = now + 1000 * ttl, tk_used = None, tk_revoked = None, tk_reuse = None, tk_next = None\<rparr>"
  have x: "x = \<lparr>xs_role = DriverRole, xs_owner = d, xs_sid = Some fam\<rparr>" "rt' = rt"
    and db': "db' = replaceDriverSession now d fam ttl (db\<lparr>au_tokens := au_tokens db @ [?n]\<rparr>)"
    using assms by (auto simp: issueTokenPair_def storeRefreshToken_def split: if_splits)
  have sid: "au_sid db' d = Some (fam, now + 1000 * ttl)"
    unfolding db' by (simp add: replaceDriverSession_def revokeOtherDriverSessions_def set_sid_def)
  have new: "?n \<in> set (au_tokens db')" unfolding db'
    by (simp add: replaceDriverSession_def revokeOtherDriverSessions_def set_sid_def)
  have "tk_family t = fam" if t: "t \<in> set (au_tokens db')" "tk_role t = DriverRole" "tk_owner t = d" "tk_revoked t = None" for t
    using t(1) unfolding db' by (rule replaced_row) (use t(2-4) in blast)
  moreover have "\<exists>t \<in> set (au_tokens db'). tk_hash t = hash rt \<and> tk_family t = fam \<and> tk_expires t = now + 1000 * ttl \<and> \<not> spent t"
    by (rule bexI [OF _ new]) (simp add: spent_def)
  moreover have "authenticate later (Some \<lparr>xs_role = DriverRole, xs_owner = d, xs_sid = Some s\<rparr>) st db' = Inl (http_err 401 ''AUTH_SESSION_REPLACED'')"
    if "s \<noteq> fam" "later < now + 1000 * ttl" for later s st
    using that sid by (simp add: authenticate_def isDriverSessionReplaced_def)
  ultimately show ?thesis using x by blast
qed

lemma newest_device_wins_witness:
  "\<exists>x db'. issueTokenPair id 5 DriverRole 0 100 2 ''b'' (demo_auth\<lparr>au_tokens := [demo_token\<lparr>tk_role := DriverRole\<rparr>]\<rparr>) = (Inr (x, ''b''), db')
     \<and> (\<forall>t \<in> set (au_tokens db'). tk_role t = DriverRole \<and> tk_owner t = 0 \<and> tk_revoked t = None \<longrightarrow> tk_family t = 2)
     \<and> authenticate 6 (Some \<lparr>xs_role = DriverRole, xs_owner = 0, xs_sid = Some 1\<rparr>) None db' = Inl (http_err 401 ''AUTH_SESSION_REPLACED'')"
proof -
  let ?db = "demo_auth\<lparr>au_tokens := [demo_token\<lparr>tk_role := DriverRole\<rparr>]\<rparr>"
  obtain x db' where run: "issueTokenPair id 5 DriverRole 0 100 2 ''b'' ?db = (Inr (x, ''b''), db')"
    by (simp add: issueTokenPair_def storeRefreshToken_def findRefreshToken_def demo_token_def)
  show ?thesis using newest_device_wins [OF run] run by auto
qed

text \<open>
  Two sign-ins at once: when the first device's clean-up runs after the second device's token is stored, each revokes the other and the
  driver is left with no live token, although both answered with one.
\<close>

theorem sign_ins_revoke_each_other:
  assumes stored: "storeRefreshToken DriverRole d h1 fam1 e1 db = (Inr (), db1)" "storeRefreshToken DriverRole d h2 fam2 e2 db1 = (Inr (), db2)"
    and fresh: "fam1 \<noteq> fam2"
  shows "\<forall>t \<in> set (au_tokens (replaceDriverSession n2 d fam2 ttl (replaceDriverSession n1 d fam1 ttl db2))).
    tk_role t = DriverRole \<and> tk_owner t = d \<longrightarrow> tk_revoked t \<noteq> None"
proof (intro ballI impI notI)
  fix t assume t: "t \<in> set (au_tokens (replaceDriverSession n2 d fam2 ttl (replaceDriverSession n1 d fam1 ttl db2)))"
    "tk_role t = DriverRole \<and> tk_owner t = d" "tk_revoked t = None"
  obtain u where u: "u \<in> set (au_tokens (replaceDriverSession n1 d fam1 ttl db2))" "tk_role u = tk_role t" "tk_owner u = tk_owner t"
      "tk_family u = tk_family t" "tk_revoked u = None" "tk_family t = fam2"
    using t(1) by (rule replaced_row) (use t(2,3) in blast)
  have "tk_family u = fam1" using u(1) by (rule replaced_row) (use t(2) u in auto)
  then show False using u(4,6) fresh by simp
qed

subsection \<open>After a deletion\<close>

definition accounts :: "bool \<Rightarrow> auth \<Rightarrow> account list" where
  "accounts driver db = (if driver then au_drivers db else au_users db)"

definition role_of :: "bool \<Rightarrow> principal_role" where
  "role_of driver = (if driver then DriverRole else UserRole)"

lemma retired_rides:
  "rides (op_rides (retire_driver i s)) = rides (op_rides s)" "getActiveSession i (op_rides (retire_driver i s)) = None"
  by (auto simp: retire_driver_def set_world_def op_rides_def getActiveSession_def find_None_iff active_def split: if_splits)

lemma delete_runs:
  assumes "deleteAccount now driver i db = (Inr u, db')" "i < length (accounts driver db)" "ac_status (accounts driver db ! i) \<noteq> Deleted"
  shows "deletion_checks driver i db = Inr ()" "accounts driver db' = erase_account i (accounts driver db)"
    "au_tokens db' = map (\<lambda>x. if tk_role x = role_of driver \<and> tk_owner x = i \<and> tk_revoked x = None then x\<lparr>tk_revoked := Some now\<rparr> else x) (au_tokens db)"
    "au_ops db' = (if driver then retire_driver i (au_ops db) else au_ops db)" "au_sid db' = au_sid db"
  using assms by (auto simp: deleteAccount_def accounts_def role_of_def Let_def split: sum.splits if_splits)

lemma revoked_row:
  assumes "t \<in> set (map (\<lambda>x. if tk_role x = r \<and> tk_owner x = i \<and> tk_revoked x = None then x\<lparr>tk_revoked := Some now\<rparr> else x) ts)"
    and "tk_role t = r \<Longrightarrow> tk_owner t = i \<Longrightarrow> tk_revoked t \<noteq> None \<Longrightarrow> P"
    and "\<not> (tk_role t = r \<and> tk_owner t = i) \<Longrightarrow> P"
  shows P
proof -
  obtain u where u: "t = (if tk_role u = r \<and> tk_owner u = i \<and> tk_revoked u = None then u\<lparr>tk_revoked := Some now\<rparr> else u)" using assms(1) unfolding set_map by (rule imageE)
  show P
  proof (cases "tk_role u = r \<and> tk_owner u = i \<and> tk_revoked u = None")
    case True
    have "t = u\<lparr>tk_revoked := Some now\<rparr>" using u unfolding if_P [OF True] .
    then show P using True assms(2) by simp
  next
    case False
    have "t = u" using u unfolding if_not_P [OF False] .
    then show P using False by (cases "tk_role u = r \<and> tk_owner u = i") (auto intro: assms(2,3))
  qed
qed

lemma deleted_again: "ac_status (accounts driver db ! i) = Deleted \<Longrightarrow> deleteAccount now driver i db = (Inr (), db)"
  by (auto simp: deleteAccount_def accounts_def Let_def)

text \<open>
  C32. Deleting an account. It is refused, without any change, exactly while the rider or driver has a ride under way or waiting, money in the wallet, or (a driver)
  a payout in progress. Otherwise the row is closed and its phone number free, every session of the principal is over, no token
  opens one again, a driver is off line, and deleting once more does nothing.
\<close>

theorem account_deletion:
  assumes run: "deleteAccount now driver i db = (x, db')" and row: "i < length (accounts driver db)" "ac_status (accounts driver db ! i) \<noteq> Deleted"
  shows "(x = Inr () \<longleftrightarrow> (\<forall>r \<in> set (rides (op_rides (au_ops db))). role_rides driver i r \<longrightarrow> rr_status r \<noteq> Requested \<and> \<not> live (rr_status r))
           \<and> balance (if driver then w_drivers (tp_world (op_trip (au_ops db))) else w_users (tp_world (op_trip (au_ops db)))) i \<le> 0
           \<and> (driver \<longrightarrow> (\<forall>s \<in> set (settlements (w_settle (tp_world (op_trip (au_ops db))))). st_driver s = i \<longrightarrow> st_status s \<notin> {SettlePending, Processing, SettleOnHold})))
    \<and> (x \<noteq> Inr () \<longrightarrow> db' = db)
    \<and> (x = Inr () \<longrightarrow> accounts driver db' = (accounts driver db)[i := \<lparr>ac_phone = deleted_phone i, ac_status = Deleted\<rparr>]
         \<and> (\<forall>t \<in> set (au_tokens db'). tk_role t = role_of driver \<and> tk_owner t = i \<longrightarrow> spent t)
         \<and> (\<forall>later sid. \<exists>err. authenticate later (Some \<lparr>xs_role = role_of driver, xs_owner = i, xs_sid = sid\<rparr>) (Some (OfAccount (ac_status (accounts driver db' ! i)))) db' = Inl err)
         \<and> (\<forall>riding. \<exists>err. refresh_standing (role_of driver) (Some (OfAccount (ac_status (accounts driver db' ! i)))) riding = Inl err)
         \<and> (driver \<longrightarrow> getActiveSession i (op_rides (au_ops db')) = None)
         \<and> (\<forall>later. deleteAccount later driver i db' = (Inr (), db')))"
proof -
  have res: "x = deletion_checks driver i db" "x \<noteq> Inr () \<longrightarrow> db' = db"
    using run row by (auto simp: deleteAccount_def accounts_def Let_def split: sum.splits if_splits)
  have chk: "deletion_checks driver i db = Inr () \<longleftrightarrow> (\<forall>r \<in> set (rides (op_rides (au_ops db))). role_rides driver i r \<longrightarrow> rr_status r \<noteq> Requested \<and> \<not> live (rr_status r))
           \<and> balance (if driver then w_drivers (tp_world (op_trip (au_ops db))) else w_users (tp_world (op_trip (au_ops db)))) i \<le> 0
           \<and> (driver \<longrightarrow> (\<forall>s \<in> set (settlements (w_settle (tp_world (op_trip (au_ops db))))). st_driver s = i \<longrightarrow> st_status s \<notin> {SettlePending, Processing, SettleOnHold}))"
    by (auto simp: deletion_checks_def Let_def list_ex_iff op_rides_def)
  have gone: "accounts driver db' = (accounts driver db)[i := \<lparr>ac_phone = deleted_phone i, ac_status = Deleted\<rparr>]
      \<and> (\<forall>t \<in> set (au_tokens db'). tk_role t = role_of driver \<and> tk_owner t = i \<longrightarrow> spent t)
      \<and> (\<forall>later sid. \<exists>err. authenticate later (Some \<lparr>xs_role = role_of driver, xs_owner = i, xs_sid = sid\<rparr>) (Some (OfAccount (ac_status (accounts driver db' ! i)))) db' = Inl err)
      \<and> (\<forall>riding. \<exists>err. refresh_standing (role_of driver) (Some (OfAccount (ac_status (accounts driver db' ! i)))) riding = Inl err)
      \<and> (driver \<longrightarrow> getActiveSession i (op_rides (au_ops db')) = None) \<and> (\<forall>later. deleteAccount later driver i db' = (Inr (), db'))"
    if ok: "x = Inr ()"
  proof -
    note d = delete_runs [OF run [unfolded ok] row]
    have st: "ac_status (accounts driver db' ! i) = Deleted" using row(1) by (simp add: d(2) erase_account_def)
    have "\<exists>err. authenticate later (Some \<lparr>xs_role = role_of driver, xs_owner = i, xs_sid = sid\<rparr>) (Some (OfAccount Deleted)) db' = Inl err" for later sid
      by (cases "xs_role \<lparr>xs_role = role_of driver, xs_owner = i, xs_sid = sid\<rparr> = DriverRole \<and> isDriverSessionReplaced later i sid db'")
        (auto simp: authenticate_def)
    moreover have "\<exists>err. refresh_standing (role_of driver) (Some (OfAccount Deleted)) riding = Inl err" for riding
      by (simp add: refresh_standing_def role_of_def)
    moreover have "spent t" if "t \<in> set (au_tokens db')" "tk_role t = role_of driver" "tk_owner t = i" for t
      using that(1) unfolding d(3) by (rule revoked_row) (use that(2,3) in \<open>simp_all add: spent_def\<close>)
    moreover have "accounts driver db' = (accounts driver db)[i := \<lparr>ac_phone = deleted_phone i, ac_status = Deleted\<rparr>]"
      unfolding d(2) erase_account_def by (cases "accounts driver db ! i") simp
    moreover have "driver \<longrightarrow> getActiveSession i (op_rides (au_ops db')) = None" by (simp add: d(4) retired_rides(2))
    ultimately show ?thesis unfolding st using deleted_again [OF st] by blast
  qed
  show ?thesis using chk unfolding res(1) [symmetric] by (intro conjI res(2) impI gone) assumption+
qed

lemma account_deletion_witness:
  "\<exists>db'. deleteAccount 5 True 0 (demo_auth\<lparr>au_tokens := [demo_token\<lparr>tk_role := DriverRole\<rparr>]\<rparr>) = (Inr (), db')
     \<and> accounts True db' = [\<lparr>ac_phone = ''deleted:0'', ac_status = Deleted\<rparr>]
     \<and> (\<forall>t \<in> set (au_tokens db'). tk_role t = DriverRole \<and> tk_owner t = 0 \<longrightarrow> spent t)"
proof -
  let ?db = "demo_auth\<lparr>au_tokens := [demo_token\<lparr>tk_role := DriverRole\<rparr>]\<rparr>"
  obtain x db' where run: "deleteAccount 5 True 0 ?db = (x, db')" by (rule prod.exhaust)
  have row: "0 < length (accounts True ?db)" "ac_status (accounts True ?db ! 0) \<noteq> Deleted" by (simp_all add: accounts_def demo_auth_def)
  have "deletion_checks True 0 ?db = Inr ()"
    by (simp add: deletion_checks_def Let_def demo_auth_def demo_start_def demo_world_def balance_def empty_book_def demo_settle_def)
  then have x: "x = Inr ()" using run by (auto simp: deleteAccount_def Let_def demo_auth_def)
  have "accounts True db' = (accounts True ?db)[0 := \<lparr>ac_phone = deleted_phone 0, ac_status = Deleted\<rparr>]
      \<and> (\<forall>t \<in> set (au_tokens db'). tk_role t = role_of True \<and> tk_owner t = 0 \<longrightarrow> spent t)"
    using account_deletion [OF run row] x by blast
  moreover have zero: "char_of (48 :: nat) = CHR ''0''" by code_simp
  ultimately show ?thesis using run x by (simp add: accounts_def demo_auth_def deleted_phone_def id_string.simps role_of_def zero)
qed

text \<open>
  What the checks do not look at. A booking for later survives the rider, and is dispatched for an account that is gone; the money a driver
  has earned but not yet been paid stays in the books, while the bank account it would go to is erased.
\<close>

theorem deletion_leaves_bookings:
  assumes run: "deleteAccount now False i db = (x, db')" and row: "i < length (au_users db)" "ac_status (au_users db ! i) \<noteq> Deleted"
    and later: "\<forall>r \<in> set (rides (op_rides (au_ops db))). rr_user r = i \<longrightarrow> rr_status r = Scheduled"
    and broke: "balance (w_users (tp_world (op_trip (au_ops db)))) i \<le> 0"
  shows "x = Inr () \<and> rides (op_rides (au_ops db')) = rides (op_rides (au_ops db))"
proof -
  have "deletion_checks False i db = Inr ()"
    using later broke by (auto simp: deletion_checks_def Let_def list_ex_iff op_rides_def role_rides_def live_def)
  then show ?thesis using run row by (auto simp: deleteAccount_def Let_def)
qed

theorem deletion_forgets_earnings:
  assumes run: "deleteAccount now True i db = (Inr (), db')" and row: "i < length (au_drivers db)" "ac_status (au_drivers db ! i) \<noteq> Deleted"
  shows "cleared_total i (w_settle (tp_world (op_trip (au_ops db')))) = cleared_total i (w_settle (tp_world (op_trip (au_ops db))))
    \<and> (\<forall>b \<in> set (banks (w_settle (tp_world (op_trip (au_ops db'))))). ba_driver b = i \<longrightarrow> ba_fund b = None)"
proof -
  have o: "au_ops db' = retire_driver i (au_ops db)"
    using delete_runs(4) [OF run] row by (simp add: accounts_def)
  have e: "earnings (w_settle (tp_world (op_trip (au_ops db')))) = earnings (w_settle (tp_world (op_trip (au_ops db))))"
    unfolding o by (simp add: retire_driver_def set_world_def)
  have b: "banks (w_settle (tp_world (op_trip (au_ops db')))) = map (\<lambda>b. if ba_driver b = i then b\<lparr>ba_fund := None\<rparr> else b) (banks (w_settle (tp_world (op_trip (au_ops db)))))"
    unfolding o by (simp add: retire_driver_def set_world_def)
  have "ba_fund (if ba_driver b = i then b\<lparr>ba_fund := None\<rparr> else b) = None" if "ba_driver (if ba_driver b = i then b\<lparr>ba_fund := None\<rparr> else b) = i" for b
    using that by (cases "ba_driver b = i") simp_all
  then show ?thesis unfolding cleared_total_def cleared_ids_def e b set_map ball_simps by blast
qed

end
