(* ===== verification/AdminTotp.thy ===== *)
theory AdminTotp
  imports Auth
begin

text \<open>
  The second factor of an admin (\<open>modules/admin-totp\<close>, and \<open>verifyAdminTotp\<close> of \<open>auth.service.ts\<close>). The time-based codes are those of a library:
  \<open>V secret code after now\<close> is the time step a code is valid for, later than \<open>after\<close>. The lemmas show that a code works once when logins run
  one after the other, and that two at once defeat it.
\<close>

record recovery_code =
  rc_hash :: string
  rc_gone :: bool

record totp_admin =
  ta_enabled :: bool
  ta_secret :: "string option"
  ta_step :: "int option"
  ta_password :: string
  ta_codes :: "recovery_code list"

type_synonym totp_db = "nat \<rightharpoonup> totp_admin"
type_synonym totp_verify = "string \<Rightarrow> string \<Rightarrow> int option \<Rightarrow> int \<Rightarrow> int option"

definition change :: "nat \<Rightarrow> (totp_admin \<Rightarrow> totp_admin) \<Rightarrow> totp_db \<Rightarrow> totp_db" where
  "change i f db = fst (upd_where db i (\<lambda>_. True) f)"

definition setPendingSecret :: "nat \<Rightarrow> string \<Rightarrow> totp_db \<Rightarrow> totp_db" where
  "setPendingSecret i secret = change i (\<lambda>a. a\<lparr>ta_secret := Some secret, ta_step := None\<rparr>)"

definition recordUsedTimeStep :: "nat \<Rightarrow> int \<Rightarrow> totp_db \<Rightarrow> totp_db" where
  "recordUsedTimeStep i st = change i (\<lambda>a. a\<lparr>ta_step := Some st\<rparr>)"

definition markRecoveryCodeUsed :: "nat \<Rightarrow> nat \<Rightarrow> totp_db \<Rightarrow> totp_db" where
  "markRecoveryCodeUsed i k = change i (\<lambda>a. a\<lparr>ta_codes := (if k < length (ta_codes a) then (ta_codes a)[k := (ta_codes a ! k)\<lparr>rc_gone := True\<rparr>] else ta_codes a)\<rparr>)"

text \<open>The rows of unused recovery codes, with their numbers.\<close>

definition findUnusedRecoveryCodes :: "nat \<Rightarrow> totp_db \<Rightarrow> (nat \<times> string) list" where
  "findUnusedRecoveryCodes i db = (case db i of None \<Rightarrow> []
     | Some a \<Rightarrow> map (\<lambda>k. (k, rc_hash (ta_codes a ! k))) (filter (\<lambda>k. \<not> rc_gone (ta_codes a ! k)) [0..<length (ta_codes a)]))"

definition startSetup :: "nat \<Rightarrow> string \<Rightarrow> totp_db \<Rightarrow> string res \<times> totp_db" where
  "startSetup i secret db = (if db i = None then (Inl (http_err 404 ''NOT_FOUND''), db) else (Inr secret, setPendingSecret i secret db))"

text \<open>\<open>seen\<close>: the admin's row read first. \<open>codes\<close> are the new recovery codes, \<open>hash\<close> the password hash.\<close>

definition confirmSetup :: "totp_verify \<Rightarrow> (string \<Rightarrow> string) \<Rightarrow> int \<Rightarrow> nat \<Rightarrow> string \<Rightarrow> string list \<Rightarrow> totp_admin option \<Rightarrow> totp_db \<Rightarrow> string list res \<times> totp_db" where
  "confirmSetup V hash now i code codes seen db =
     (case Option.bind seen ta_secret of None \<Rightarrow> (Inl (http_err 422 ''TOTP_NO_PENDING_SETUP''), db)
      | Some secret \<Rightarrow>
          (case V secret code None now of None \<Rightarrow> (Inl (http_err 401 ''TOTP_INVALID_CODE''), db)
           | Some st \<Rightarrow> (Inr codes, change i (\<lambda>a. a\<lparr>ta_enabled := True, ta_step := Some st, ta_codes := map (\<lambda>c. \<lparr>rc_hash = hash c, rc_gone = False\<rparr>) codes\<rparr>) db)))"

definition disableTotp :: "(string \<Rightarrow> string \<Rightarrow> bool) \<Rightarrow> nat \<Rightarrow> string \<Rightarrow> totp_admin option \<Rightarrow> totp_db \<Rightarrow> unit res \<times> totp_db" where
  "disableTotp same i password seen db = (case seen of None \<Rightarrow> (Inl (http_err 404 ''NOT_FOUND''), db)
     | Some a \<Rightarrow> if \<not> same password (ta_password a) then (Inl (http_err 401 ''AUTH_UNAUTHORIZED''), db)
         else (Inr (), change i (\<lambda>a. a\<lparr>ta_enabled := False, ta_secret := None, ta_step := None, ta_codes := []\<rparr>) db))"

definition six_digits :: "string \<Rightarrow> bool" where
  "six_digits c \<longleftrightarrow> length c = 6 \<and> list_all is_digit c"

text \<open>\<open>unused\<close>: the recovery codes read after the row.\<close>

definition verifyLoginCode :: "totp_verify \<Rightarrow> (string \<Rightarrow> string \<Rightarrow> bool) \<Rightarrow> int \<Rightarrow> nat \<Rightarrow> string \<Rightarrow> totp_admin option \<Rightarrow> (nat \<times> string) list \<Rightarrow> totp_db \<Rightarrow> bool \<times> totp_db" where
  "verifyLoginCode V same now i code seen unused db =
     (case (case seen of Some a \<Rightarrow> if ta_enabled a then map_option (\<lambda>s. (a, s)) (ta_secret a) else None | None \<Rightarrow> None) of
        None \<Rightarrow> (False, db)
      | Some (a, secret) \<Rightarrow>
          (case (if six_digits code then V secret code (ta_step a) now else None) of
             Some st \<Rightarrow> (True, recordUsedTimeStep i st db)
           | None \<Rightarrow> (case find (\<lambda>(k, h). same code h) unused of Some (k, h) \<Rightarrow> (True, markRecoveryCodeUsed i k db) | None \<Rightarrow> (False, db))))"

text \<open>\<open>pending\<close>: the admin of the pending token, when its signature, purpose and age are good.\<close>

definition verifyAdminTotp :: "totp_verify \<Rightarrow> (string \<Rightarrow> string \<Rightarrow> bool) \<Rightarrow> (string \<Rightarrow> string) \<Rightarrow> int \<Rightarrow> nat option \<Rightarrow> string \<Rightarrow> int \<Rightarrow> nat \<Rightarrow> string
    \<Rightarrow> auth \<times> totp_db \<Rightarrow> (access \<times> string) res \<times> auth \<times> totp_db" where
  "verifyAdminTotp V same hash now pending code ttl fam rt w =
     (case w of (db, tdb) \<Rightarrow>
        (case pending of None \<Rightarrow> (Inl (http_err 401 ''TOTP_INVALID_PENDING_TOKEN''), db, tdb)
         | Some i \<Rightarrow>
             if length (au_admins db) \<le> i then (Inl (http_err 401 ''TOTP_INVALID_PENDING_TOKEN''), db, tdb)
             else (case verifyLoginCode V same now i code (tdb i) (findUnusedRecoveryCodes i tdb) tdb of
                 (False, tdb) \<Rightarrow> (Inl (http_err 401 ''TOTP_INVALID_CODE''), db, tdb)
               | (True, tdb) \<Rightarrow> (case issueTokenPair hash now AdminRole i ttl fam rt db of (x, db) \<Rightarrow> (x, db, tdb)))))"

text \<open>One login after the other: the steps of accepted codes grow, so a code that has been used is refused.\<close>

lemma used_code_refused:
  assumes after: "\<And>s c a n st. V s c (Some a) n = Some st \<Longrightarrow> a < st"
    and step: "\<And>s c a b n m st st'. V s c a n = Some st \<Longrightarrow> V s c b m = Some st' \<Longrightarrow> st' = st"
    and first: "tdb i = Some a" "ta_enabled a" "ta_secret a = Some secret" "six_digits code" "V secret code (ta_step a) now = Some st"
    and none: "\<And>h. \<not> same code h"
  shows "\<exists>db2. verifyLoginCode V same now i code (tdb i) (findUnusedRecoveryCodes i tdb) tdb = (True, db2)
    \<and> fst (verifyLoginCode V same later i code (db2 i) (findUnusedRecoveryCodes i db2) db2) = False"
proof -
  let ?db2 = "tdb(i \<mapsto> a\<lparr>ta_step := Some st\<rparr>)"
  have ok: "verifyLoginCode V same now i code (tdb i) (findUnusedRecoveryCodes i tdb) tdb = (True, ?db2)"
    using first by (simp add: verifyLoginCode_def recordUsedTimeStep_def change_def upd_where_def)
  have "V secret code (Some st) later = None"
  proof (cases "V secret code (Some st) later")
    case (Some u)
    then show ?thesis using after [OF Some] step [OF first(5) Some] by simp
  qed
  moreover have "find (\<lambda>(k, h). same code h) xs = None" for xs :: "(nat \<times> string) list"
    using none by (auto simp: find_None_iff)
  ultimately have "fst (verifyLoginCode V same later i code (?db2 i) (findUnusedRecoveryCodes i ?db2) ?db2) = False"
    using first by (simp add: verifyLoginCode_def)
  with ok show ?thesis by blast
qed

text \<open>Two logins at once have both read the row before either wrote its step: one captured code opens two sessions. So does a recovery code.\<close>

theorem captured_code_accepted_twice:
  assumes "tdb i = Some a" "ta_enabled a" "ta_secret a = Some secret" "six_digits code" "V secret code (ta_step a) now = Some st"
  shows "\<exists>db2. verifyLoginCode V same now i code (tdb i) u tdb = (True, db2) \<and> fst (verifyLoginCode V same now i code (tdb i) u db2)"
  using assms by (simp add: verifyLoginCode_def)

theorem recovery_code_accepted_twice:
  assumes "tdb i = Some a" "ta_enabled a" "ta_secret a = Some secret" "\<not> six_digits code" "find (\<lambda>(k, h). same code h) (findUnusedRecoveryCodes i tdb) = Some (k, h)"
  shows "\<exists>db2. verifyLoginCode V same now i code (tdb i) (findUnusedRecoveryCodes i tdb) tdb = (True, db2)
    \<and> fst (verifyLoginCode V same now i code (tdb i) (findUnusedRecoveryCodes i tdb) db2)"
  using assms by (simp add: verifyLoginCode_def)

end
