(* ===== verification/Drivers.thy ===== *)
theory Drivers
  imports Auth "HOL-Library.Sublist"
begin

text \<open>
  Onboarding, documents and standing of drivers: \<open>modules/drivers\<close>, and the driver review of \<open>modules/admin\<close>. A row's number is its position in the table. Days and
  the microseconds of \<open>updated_at\<close> are integers; the date of the database session and the date in India are two arguments, since the
  code uses both. Files are what the object store answers.
\<close>

subsection \<open>Tables\<close>

datatype doc_type = ProfilePhoto | DrivingLicense | DrivingLicenseFront | DrivingLicenseBack | AadhaarFront | AadhaarBack
  | VehicleRcFront | VehicleRcBack | Insurance | Permit | PollutionCert | FitnessCert

datatype doc_status = DocPending | DocApproved | DocRejected

text \<open>A row of \<open>driver_documents\<close> (whose owner is a driver) or of \<open>driver_vehicle_documents\<close> (a vehicle). Only the first has \<open>valid_from\<close>, only the second \<open>doc_number\<close>.\<close>

record doc =
  dc_owner :: nat
  dc_type :: doc_type
  dc_file :: string
  dc_from :: "int option"
  dc_number :: "string option"
  dc_claimed :: "int option"
  dc_verified :: "int option"
  dc_status :: doc_status
  dc_note :: "string option"
  dc_rejections :: int
  dc_updated :: int

datatype vehicle_state = VehiclePending | VehicleActive | VehicleInactive | VehicleBlacklisted

record vehicle_spec =
  vs_category :: "nat option"
  vs_brand :: "nat option"
  vs_model :: "nat option"
  vs_name :: string
  vs_year :: int
  vs_plate :: "string option"
  vs_color :: string
  vs_fuel :: string
  vs_seats :: int
  vs_luggage :: int
  vs_ac :: bool
  vs_registered :: "int option"

record vehicle =
  vh_driver :: nat
  vh_spec :: vehicle_spec
  vh_status :: vehicle_state
  vh_primary :: bool

datatype onboarding_step = PersonalInfoStep | VehicleInfoStep | DocumentsStep | SubmittedStep

record driver_info =
  di_full_name :: "string option"
  di_email :: "string option"
  di_gender :: "string option"
  di_birth :: "string option"
  di_address :: "string option"
  di_state :: "string option"
  di_city :: "string option"
  di_pincode :: "string option"
  di_experience :: "int option"
  di_emergency :: "string option"
  di_languages :: "string list"
  di_city_id :: "nat option"
  di_license :: "string option"
  di_aadhaar :: "string option"
  di_selfie :: "string option"
  di_step :: onboarding_step

record standing_row =
  sr_driver :: nat
  sr_from :: account_status
  sr_to :: account_status
  sr_reason :: string

record daily_check =
  ck_driver :: nat
  ck_vehicle :: "nat option"
  ck_day :: int

text \<open>A check with a vehicle is a plate, one without a selfie. Phone and status of a driver are columns of \<open>drivers\<close> in \<open>auth\<close>.\<close>

record dossier =
  ds_auth :: auth
  ds_info :: "nat \<Rightarrow> driver_info"
  ds_vehicles :: "vehicle list"
  ds_docs :: "doc list"
  ds_vdocs :: "doc list"
  ds_standing :: "standing_row list"
  ds_checks :: "daily_check list"

definition exists_driver :: "nat \<Rightarrow> dossier \<Rightarrow> bool" where
  "exists_driver d s \<longleftrightarrow> d < length (au_drivers (ds_auth s))"

definition driver_status :: "nat \<Rightarrow> dossier \<Rightarrow> account_status" where
  "driver_status d s = ac_status (au_drivers (ds_auth s) ! d)"

definition with_status :: "nat \<Rightarrow> account_status \<Rightarrow> dossier \<Rightarrow> dossier" where
  "with_status d st s = s\<lparr>ds_auth := (ds_auth s)\<lparr>au_drivers := (au_drivers (ds_auth s))[d := (au_drivers (ds_auth s) ! d)\<lparr>ac_status := st\<rparr>]\<rparr>\<rparr>"

definition with_info :: "nat \<Rightarrow> (driver_info \<Rightarrow> driver_info) \<Rightarrow> dossier \<Rightarrow> dossier" where
  "with_info d f s = s\<lparr>ds_info := (ds_info s)(d := f (ds_info s d))\<rparr>"

definition createStatusHistory :: "nat \<Rightarrow> account_status \<Rightarrow> account_status \<Rightarrow> string \<Rightarrow> dossier \<Rightarrow> dossier" where
  "createStatusHistory d a b why s = s\<lparr>ds_standing := ds_standing s @ [\<lparr>sr_driver = d, sr_from = a, sr_to = b, sr_reason = why\<rparr>]\<rparr>"

definition findVehicleByDriverId :: "nat \<Rightarrow> dossier \<Rightarrow> nat option" where
  "findVehicleByDriverId d s = find (\<lambda>k. vh_driver (ds_vehicles s ! k) = d \<and> vh_primary (ds_vehicles s ! k)) [0..<length (ds_vehicles s)]"

definition types_of :: "nat \<Rightarrow> doc list \<Rightarrow> doc_type set" where
  "types_of i docs = dc_type ` set (filter (\<lambda>x. dc_owner x = i) docs)"

subsection \<open>Completeness\<close>

definition is_given :: "string option \<Rightarrow> bool" where
  "is_given x \<longleftrightarrow> (case x of Some t \<Rightarrow> t \<noteq> [] | None \<Rightarrow> False)"

definition isPersonalInfoComplete :: "driver_info \<Rightarrow> bool" where
  "isPersonalInfoComplete d \<longleftrightarrow> is_given (di_full_name d) \<and> is_given (di_gender d) \<and> is_given (di_birth d) \<and> is_given (di_address d)
     \<and> is_given (di_state d) \<and> is_given (di_city d) \<and> is_given (di_pincode d) \<and> di_experience d \<noteq> None \<and> is_given (di_emergency d)
     \<and> 0 < length (di_languages d)"

definition REQUIRED_IDENTITY_DOCS :: "doc_type list" where
  "REQUIRED_IDENTITY_DOCS = [ProfilePhoto, DrivingLicenseFront, DrivingLicenseBack, AadhaarFront, AadhaarBack]"

definition REQUIRED_VEHICLE_DOCS :: "doc_type list" where
  "REQUIRED_VEHICLE_DOCS = [VehicleRcFront, VehicleRcBack, Insurance, Permit]"

datatype missing = MissingDoc doc_type | MissingLicense | MissingAadhaar

definition checkDocuments :: "nat \<Rightarrow> dossier \<Rightarrow> missing list" where
  "checkDocuments d s =
     map MissingDoc (filter (\<lambda>t. t \<notin> types_of d (ds_docs s)) REQUIRED_IDENTITY_DOCS)
     @ (if is_given (di_license (ds_info s d)) then [] else [MissingLicense])
     @ (if is_given (di_aadhaar (ds_info s d)) then [] else [MissingAadhaar])
     @ map MissingDoc (case findVehicleByDriverId d s of None \<Rightarrow> REQUIRED_VEHICLE_DOCS
         | Some k \<Rightarrow> filter (\<lambda>t. t \<notin> types_of k (ds_vdocs s)) REQUIRED_VEHICLE_DOCS)"

record onboarding_status =
  ob_step :: onboarding_step
  ob_personal :: bool
  ob_vehicle :: bool
  ob_missing :: "missing list"

definition getOnboardingStatus :: "nat \<Rightarrow> dossier \<Rightarrow> onboarding_status res" where
  "getOnboardingStatus d s =
     (if \<not> exists_driver d s then Inl (http_err 404 ''NOT_FOUND'')
      else Inr \<lparr>ob_step = di_step (ds_info s d), ob_personal = isPersonalInfoComplete (ds_info s d),
        ob_vehicle = (case findVehicleByDriverId d s of Some k \<Rightarrow> is_given (vs_plate (vh_spec (ds_vehicles s ! k))) | None \<Rightarrow> False),
        ob_missing = checkDocuments d s\<rparr>)"

subsection \<open>The driver's steps\<close>

text \<open>\<open>city\<close> finds a city by its name.\<close>

definition updatePersonalInfo :: "(string \<Rightarrow> nat option) \<Rightarrow> driver_info \<Rightarrow> driver_info \<Rightarrow> driver_info" where
  "updatePersonalInfo city x old = old\<lparr>di_full_name := di_full_name x, di_email := orelse (di_email x) (di_email old), di_gender := di_gender x,
     di_birth := di_birth x, di_address := di_address x, di_state := di_state x, di_city := di_city x, di_pincode := di_pincode x,
     di_experience := di_experience x, di_emergency := di_emergency x, di_languages := di_languages x,
     di_city_id := orelse (di_city_id x) (city (coalesce (di_city x) '''')),
     di_step := (if di_step old = PersonalInfoStep then VehicleInfoStep else di_step old)\<rparr>"

text \<open>\<open>x\<close>: the fields of the form.\<close>

definition savePersonalInfo :: "(string \<Rightarrow> nat option) \<Rightarrow> nat \<Rightarrow> driver_info \<Rightarrow> dossier \<Rightarrow> onboarding_step res \<times> dossier" where
  "savePersonalInfo city d x s =
     (if \<not> exists_driver d s then (Inl (http_err 404 ''NOT_FOUND''), s)
      else if di_emergency x = Some (ac_phone (au_drivers (ds_auth s) ! d)) then (Inl (http_err 422 ''VALIDATION_ERROR''), s)
      else let s1 = with_info d (updatePersonalInfo city x) s in
        (Inr (di_step (ds_info s1 d)), createStatusHistory d (driver_status d s) (driver_status d s) ''Personal info step completed'' s1))"

definition duplicate :: app_error where "duplicate = http_err 409 ''DUPLICATE_ENTRY''"

definition plate_taken :: "nat option \<Rightarrow> string option \<Rightarrow> vehicle list \<Rightarrow> bool" where
  "plate_taken own p vs \<longleftrightarrow> p \<noteq> None \<and> list_ex (\<lambda>k. Some k \<noteq> own \<and> vs_plate (vh_spec (vs ! k)) = p) [0..<length vs]"

text \<open>\<open>seen\<close>: the primary vehicle found before. The plate is unique, and so is a driver's primary vehicle that is not blacklisted.\<close>

definition upsertVehicle :: "nat \<Rightarrow> vehicle_spec \<Rightarrow> nat option \<Rightarrow> dossier \<Rightarrow> nat res \<times> dossier" where
  "upsertVehicle d spec seen s = (let vs = ds_vehicles s in
     case seen of
       Some k \<Rightarrow> if plate_taken (Some k) (vs_plate spec) vs then (Inl duplicate, s)
                 else (Inr k, s\<lparr>ds_vehicles := vs[k := (vs ! k)\<lparr>vh_spec := spec\<rparr>]\<rparr>)
     | None \<Rightarrow>
         if plate_taken None (vs_plate spec) vs \<or> list_ex (\<lambda>v. vh_driver v = d \<and> vh_primary v \<and> vh_status v \<noteq> VehicleBlacklisted) vs then (Inl duplicate, s)
         else (Inr (length vs), s\<lparr>ds_vehicles := vs @ [\<lparr>vh_driver = d, vh_spec = spec, vh_status = VehiclePending, vh_primary = True\<rparr>]\<rparr>))"

definition saveVehicleInfo :: "nat \<Rightarrow> vehicle_spec \<Rightarrow> nat option \<Rightarrow> dossier \<Rightarrow> nat res \<times> dossier" where
  "saveVehicleInfo d spec seen s =
     (if \<not> exists_driver d s then (Inl (http_err 404 ''NOT_FOUND''), s)
      else if \<not> isPersonalInfoComplete (ds_info s d) then (Inl (http_err 422 ''STEP_NOT_COMPLETE''), s)
      else case upsertVehicle d spec seen s of (Inl err, s1) \<Rightarrow> (Inl err, s1)
        | (Inr k, s1) \<Rightarrow> (Inr k, if di_step (ds_info s d) = VehicleInfoStep then with_info d (\<lambda>i. i\<lparr>di_step := DocumentsStep\<rparr>) s1 else s1))"

definition saveIdentityDocuments :: "nat \<Rightarrow> string \<Rightarrow> string \<Rightarrow> dossier \<Rightarrow> unit res \<times> dossier" where
  "saveIdentityDocuments d license aadhaar s =
     (if \<not> exists_driver d s then (Inl (http_err 404 ''NOT_FOUND''), s)
      else (Inr (), with_info d (\<lambda>i. i\<lparr>di_license := Some license, di_aadhaar := Some aadhaar\<rparr>) s))"

text \<open>\<open>INSERT \<dots> ON CONFLICT (owner, doc_type) DO UPDATE\<close>: a new file is pending again, whatever was decided on the old one.\<close>

definition upsert_doc :: "int \<Rightarrow> nat \<Rightarrow> doc_type \<Rightarrow> string \<Rightarrow> int option \<Rightarrow> string option \<Rightarrow> int option \<Rightarrow> doc list \<Rightarrow> doc list" where
  "upsert_doc now i t addr from num claimed docs =
     (case find (\<lambda>k. dc_owner (docs ! k) = i \<and> dc_type (docs ! k) = t) [0..<length docs] of
        Some k \<Rightarrow> docs[k := (docs ! k)\<lparr>dc_file := addr, dc_from := orelse from (dc_from (docs ! k)), dc_number := orelse num (dc_number (docs ! k)),
            dc_claimed := orelse claimed (dc_claimed (docs ! k)), dc_status := DocPending, dc_updated := now\<rparr>]
      | None \<Rightarrow> docs @ [\<lparr>dc_owner = i, dc_type = t, dc_file = addr, dc_from = from, dc_number = num, dc_claimed = claimed, dc_verified = None,
            dc_status = DocPending, dc_note = None, dc_rejections = 0, dc_updated = now\<rparr>])"

definition pending_prefix :: "nat \<Rightarrow> string" where
  "pending_prefix d = ''uploads/pending/drivers/'' @ id_string d @ ''/''"

definition assertKeyBelongsToDriver :: "nat \<Rightarrow> string \<Rightarrow> unit res" where
  "assertKeyBelongsToDriver d key = guard_err (\<not> prefix (pending_prefix d) key) (http_err 403 ''AUTH_FORBIDDEN'')"

text \<open>\<open>promote\<close>: the address a pending file gets when it is moved into a folder.\<close>

definition completeDriverDocumentUpload :: "int \<Rightarrow> (string \<Rightarrow> string) \<Rightarrow> nat \<Rightarrow> string \<Rightarrow> doc_type \<Rightarrow> int option \<Rightarrow> int option \<Rightarrow> dossier \<Rightarrow> string res \<times> dossier" where
  "completeDriverDocumentUpload now promote d key t from until s =
     (case assertKeyBelongsToDriver d key of Inl err \<Rightarrow> (Inl err, s)
      | Inr _ \<Rightarrow>
          if \<not> exists_driver d s then (Inl (http_err 404 ''NOT_FOUND''), s)
          else let addr = promote key; s1 = s\<lparr>ds_docs := upsert_doc now d t addr from None until (ds_docs s)\<rparr> in
            (Inr addr, if t = ProfilePhoto then with_info d (\<lambda>i. i\<lparr>di_selfie := Some addr\<rparr>) s1 else s1))"

definition completeVehicleDocumentUpload :: "int \<Rightarrow> (string \<Rightarrow> string) \<Rightarrow> nat \<Rightarrow> string \<Rightarrow> doc_type \<Rightarrow> string option \<Rightarrow> int option \<Rightarrow> dossier \<Rightarrow> string res \<times> dossier" where
  "completeVehicleDocumentUpload now promote d key t num until s =
     (case assertKeyBelongsToDriver d key of Inl err \<Rightarrow> (Inl err, s)
      | Inr _ \<Rightarrow>
          (case findVehicleByDriverId d s of None \<Rightarrow> (Inl (http_err 422 ''STEP_NOT_COMPLETE''), s)
           | Some k \<Rightarrow> (Inr (promote key), s\<lparr>ds_vdocs := upsert_doc now k t (promote key) None num until (ds_vdocs s)\<rparr>)))"

text \<open>The writes of a submission; \<open>from\<close> is the status read before them.\<close>

definition submit_write :: "nat \<Rightarrow> account_status \<Rightarrow> dossier \<Rightarrow> dossier" where
  "submit_write d from s = createStatusHistory d from PendingApproval ''Driver submitted application''
     (with_info d (\<lambda>i. i\<lparr>di_step := SubmittedStep\<rparr>) (with_status d PendingApproval s))"

text \<open>The error carries what is missing.\<close>

definition submitApplication :: "nat \<Rightarrow> dossier \<Rightarrow> (app_error \<times> missing list + account_status) \<times> dossier" where
  "submitApplication d s =
     (if \<not> exists_driver d s then (Inl (http_err 404 ''NOT_FOUND'', []), s)
      else if \<not> isPersonalInfoComplete (ds_info s d) then (Inl (http_err 422 ''INCOMPLETE_APPLICATION'', []), s)
      else if checkDocuments d s \<noteq> [] then (Inl (http_err 422 ''INCOMPLETE_APPLICATION'', checkDocuments d s), s)
      else (Inr PendingApproval, submit_write d (driver_status d s) s))"

subsection \<open>Gates\<close>

text \<open>\<open>docIssueExistsSql\<close>: a rejected row, an approved one that has expired, a required one that is pending, or a registration without its back.\<close>

definition doc_issue :: "int \<Rightarrow> doc_type list \<Rightarrow> doc \<Rightarrow> bool" where
  "doc_issue today required x \<longleftrightarrow> dc_status x = DocRejected
     \<or> dc_status x = DocApproved \<and> (case dc_verified x of Some v \<Rightarrow> v < today | None \<Rightarrow> False)
     \<or> dc_status x = DocPending \<and> dc_type x \<in> set required"

definition primary_of :: "nat \<Rightarrow> dossier \<Rightarrow> nat \<Rightarrow> bool" where
  "primary_of d s k \<longleftrightarrow> k < length (ds_vehicles s) \<and> vh_driver (ds_vehicles s ! k) = d \<and> vh_primary (ds_vehicles s ! k)"

definition docIssueExists :: "int \<Rightarrow> nat \<Rightarrow> dossier \<Rightarrow> bool" where
  "docIssueExists today d s \<longleftrightarrow>
     list_ex (\<lambda>x. dc_owner x = d \<and> doc_issue today REQUIRED_IDENTITY_DOCS x) (ds_docs s)
     \<or> list_ex (\<lambda>x. primary_of d s (dc_owner x) \<and> doc_issue today REQUIRED_VEHICLE_DOCS x) (ds_vdocs s)
     \<or> list_ex (\<lambda>k. primary_of d s k \<and> VehicleRcFront \<in> types_of k (ds_vdocs s) \<and> VehicleRcBack \<notin> types_of k (ds_vdocs s)) [0..<length (ds_vehicles s)]"

definition hasApprovedRequiredDocs :: "int \<Rightarrow> nat \<Rightarrow> dossier \<Rightarrow> bool" where
  "hasApprovedRequiredDocs today d s \<longleftrightarrow> \<not> docIssueExists today d s"

text \<open>\<open>COUNT(DISTINCT doc_type)\<close> of the approved rows among the required ones.\<close>

definition approved_count :: "doc_type list \<Rightarrow> (nat \<Rightarrow> bool) \<Rightarrow> doc list \<Rightarrow> nat" where
  "approved_count required own docs =
     length (remdups (map dc_type (filter (\<lambda>x. own (dc_owner x) \<and> dc_status x = DocApproved \<and> dc_type x \<in> set required) docs)))"

definition hasAllRequiredDocsApproved :: "nat \<Rightarrow> dossier \<Rightarrow> bool" where
  "hasAllRequiredDocsApproved d s \<longleftrightarrow>
     approved_count REQUIRED_IDENTITY_DOCS (\<lambda>i. i = d) (ds_docs s) = length REQUIRED_IDENTITY_DOCS
     \<and> approved_count REQUIRED_VEHICLE_DOCS (primary_of d s) (ds_vdocs s) = length REQUIRED_VEHICLE_DOCS"

definition EXPIRY_REMINDER_DAYS :: "int list" where "EXPIRY_REMINDER_DAYS = [30, 15, 7, 1]"

definition expiry_notices :: "int \<Rightarrow> (doc \<Rightarrow> nat) \<Rightarrow> doc list \<Rightarrow> (nat \<times> doc_type \<times> int) list" where
  "expiry_notices today driver docs = concat (map (\<lambda>x. case dc_verified x of None \<Rightarrow> []
     | Some v \<Rightarrow> if dc_status x = DocApproved \<and> v - today \<in> set (EXPIRY_REMINDER_DAYS @ [0]) then [(driver x, dc_type x, v - today)] else []) docs)"

definition findDocsNeedingExpiryNotice :: "int \<Rightarrow> dossier \<Rightarrow> (nat \<times> doc_type \<times> int) list" where
  "findDocsNeedingExpiryNotice today s = expiry_notices today dc_owner (ds_docs s)
     @ expiry_notices today (\<lambda>x. vh_driver (ds_vehicles s ! dc_owner x)) (ds_vdocs s)"

text \<open>Every check is stored as passed. A second one of the day does nothing.\<close>

definition getTodayStatus :: "int \<Rightarrow> nat \<Rightarrow> dossier \<Rightarrow> bool \<times> bool" where
  "getTodayStatus ist d s = (list_ex (\<lambda>c. ck_driver c = d \<and> ck_day c = ist \<and> ck_vehicle c = None) (ds_checks s),
     list_ex (\<lambda>c. ck_driver c = d \<and> ck_day c = ist \<and> ck_vehicle c \<noteq> None) (ds_checks s))"

definition insertTodayVerification :: "int \<Rightarrow> nat \<Rightarrow> nat \<Rightarrow> dossier \<Rightarrow> dossier" where
  "insertTodayVerification ist d v s =
     (let cs = ds_checks s;
          cs = (if list_ex (\<lambda>c. ck_driver c = d \<and> ck_day c = ist \<and> ck_vehicle c = None) cs then cs else cs @ [\<lparr>ck_driver = d, ck_vehicle = None, ck_day = ist\<rparr>]);
          cs = (if list_ex (\<lambda>c. ck_vehicle c = Some v \<and> ck_day c = ist) cs then cs else cs @ [\<lparr>ck_driver = d, ck_vehicle = Some v, ck_day = ist\<rparr>])
      in s\<lparr>ds_checks := cs\<rparr>)"

definition verification_prefix :: "nat \<Rightarrow> string \<Rightarrow> string" where
  "verification_prefix d kind = ''uploads/pending/drivers/'' @ id_string d @ ''/daily-verification/'' @ kind @ ''/''"

definition submitVerification :: "int \<Rightarrow> nat \<Rightarrow> string \<Rightarrow> string \<Rightarrow> dossier \<Rightarrow> unit res \<times> dossier" where
  "submitVerification ist d selfie plate s =
     (if \<not> prefix (verification_prefix d ''selfie'') selfie \<or> \<not> prefix (verification_prefix d ''plate'') plate then (Inl (http_err 403 ''AUTH_FORBIDDEN''), s)
      else case findVehicleByDriverId d s of None \<Rightarrow> (Inl (http_err 422 ''NO_VEHICLE''), s)
        | Some k \<Rightarrow> (Inr (), insertTodayVerification ist d k s))"

text \<open>What the gates of \<open>goOnline\<close> find, and the way to them: the route lets only active drivers pass.\<close>

definition gates_of :: "int \<Rightarrow> int \<Rightarrow> (nat \<Rightarrow> billing_mode option) \<Rightarrow> num \<Rightarrow> nat \<Rightarrow> dossier \<Rightarrow> online_env" where
  "gates_of ist today mode minimum d s =
     \<lparr>og_verified = (fst (getTodayStatus ist d s) \<and> snd (getTodayStatus ist d s)), og_documents = hasApprovedRequiredDocs today d s,
      og_mode = Option.bind (di_city_id (ds_info s d)) mode, og_min_balance = minimum,
      og_vehicles = (\<lambda>k. if k < length (ds_vehicles s) \<and> vh_driver (ds_vehicles s ! k) = d \<and> vh_status (ds_vehicles s ! k) = VehicleActive
         then Some (vs_category (vh_spec (ds_vehicles s ! k))) else None)\<rparr>"

definition canTakeWork :: "account_status \<Rightarrow> unit res" where
  "canTakeWork st = guard_err (st \<noteq> AccountActive) (http_err 403 (if st = Suspended then ''DRIVER_SUSPENDED'' else ''DRIVER_NOT_APPROVED''))"

text \<open>
  The status \<open>canTakeWork\<close> tests is the principal's: from Redis while the entry is less than twenty seconds old, else read from the table. Nothing
  deletes the entry when the status changes. \<open>cache\<close> is the entry with the time (in milliseconds) it was written.
\<close>

definition PRINCIPAL_CACHE_TTL_SEC :: int where "PRINCIPAL_CACHE_TTL_SEC = 20"

definition principal_status :: "int \<Rightarrow> (int \<times> account_status) option \<Rightarrow> account_status \<Rightarrow> account_status" where
  "principal_status now cache stored = (case cache of None \<Rightarrow> stored
     | Some (t, st) \<Rightarrow> if now < t + PRINCIPAL_CACHE_TTL_SEC * 1000 then st else stored)"

definition go_online :: "int \<Rightarrow> (int \<times> account_status) option \<Rightarrow> int \<Rightarrow> int \<Rightarrow> (nat \<Rightarrow> billing_mode option) \<Rightarrow> num \<Rightarrow> nat \<Rightarrow> online_request \<Rightarrow> dossier \<Rightarrow> nat res \<times> dossier" where
  "go_online now cache ist today mode minimum d req s =
     (case canTakeWork (principal_status now cache (driver_status d s)) of Inl err \<Rightarrow> (Inl err, s)
      | Inr _ \<Rightarrow>
          (case goOnline (gates_of ist today mode minimum d s) d req (getActiveSession d (op_rides (au_ops (ds_auth s)))) (au_ops (ds_auth s)) of
             (x, o1) \<Rightarrow> (x, s\<lparr>ds_auth := (ds_auth s)\<lparr>au_ops := o1\<rparr>\<rparr>)))"

subsection \<open>Review\<close>

text \<open>The two tables are reviewed by the same code, written twice: \<open>veh\<close> is true for documents of vehicles.\<close>

definition doc_table :: "bool \<Rightarrow> dossier \<Rightarrow> doc list" where
  "doc_table veh s = (if veh then ds_vdocs s else ds_docs s)"

definition with_doc :: "bool \<Rightarrow> nat \<Rightarrow> (doc \<Rightarrow> doc) \<Rightarrow> dossier \<Rightarrow> dossier" where
  "with_doc veh k f s = (if veh then s\<lparr>ds_vdocs := (ds_vdocs s)[k := f (ds_vdocs s ! k)]\<rparr> else s\<lparr>ds_docs := (ds_docs s)[k := f (ds_docs s ! k)]\<rparr>)"

definition driver_of_doc :: "bool \<Rightarrow> nat \<Rightarrow> dossier \<Rightarrow> nat" where
  "driver_of_doc veh k s = (if veh then vh_driver (ds_vehicles s ! dc_owner (ds_vdocs s ! k)) else dc_owner (ds_docs s ! k))"

text \<open>\<open>date_trunc('milliseconds', \<dots>)\<close> on both sides: times are microseconds.\<close>

definition same_version :: "int \<Rightarrow> doc \<Rightarrow> bool" where
  "same_version seen x \<longleftrightarrow> dc_updated x div 1000 = seen div 1000"

definition NO_EXPIRY_DOC_TYPES :: "doc_type list" where
  "NO_EXPIRY_DOC_TYPES = [ProfilePhoto, AadhaarFront, AadhaarBack, DrivingLicenseBack, VehicleRcFront, VehicleRcBack]"

definition validateVerifiedExpiry :: "int \<Rightarrow> doc_type \<Rightarrow> int option \<Rightarrow> int option res" where
  "validateVerifiedExpiry ist t v =
     (if t \<in> set NO_EXPIRY_DOC_TYPES then Inr None
      else case v of None \<Rightarrow> Inl (http_err 422 ''VALIDATION_ERROR'')
        | Some x \<Rightarrow> if x \<le> ist then Inl (http_err 422 ''VALIDATION_ERROR'') else Inr (Some x))"

definition approve_write :: "bool \<Rightarrow> int \<Rightarrow> nat \<Rightarrow> int option \<Rightarrow> int \<Rightarrow> dossier \<Rightarrow> bool \<times> dossier" where
  "approve_write veh now k expiry seen s =
     (if k < length (doc_table veh s) \<and> same_version seen (doc_table veh s ! k)
      then (True, with_doc veh k (\<lambda>x. x\<lparr>dc_status := DocApproved, dc_verified := expiry, dc_rejections := 0, dc_note := None, dc_updated := now\<rparr>) s)
      else (False, s))"

definition reject_write :: "bool \<Rightarrow> int \<Rightarrow> nat \<Rightarrow> string \<Rightarrow> int \<Rightarrow> dossier \<Rightarrow> bool \<times> dossier" where
  "reject_write veh now k why seen s =
     (if k < length (doc_table veh s) \<and> same_version seen (doc_table veh s ! k)
      then (True, with_doc veh k (\<lambda>x. x\<lparr>dc_status := DocRejected, dc_note := Some why, dc_rejections := dc_rejections x + 1, dc_updated := now\<rparr>) s)
      else (False, s))"

definition expiry_write :: "bool \<Rightarrow> int \<Rightarrow> nat \<Rightarrow> int option \<Rightarrow> int \<Rightarrow> dossier \<Rightarrow> bool \<times> dossier" where
  "expiry_write veh now k expiry seen s =
     (if k < length (doc_table veh s) \<and> dc_status (doc_table veh s ! k) = DocApproved \<and> same_version seen (doc_table veh s ! k)
      then (True, with_doc veh k (\<lambda>x. x\<lparr>dc_verified := expiry, dc_updated := now\<rparr>) s) else (False, s))"

definition activatePendingPrimaryVehicle :: "nat \<Rightarrow> dossier \<Rightarrow> dossier" where
  "activatePendingPrimaryVehicle d s = s\<lparr>ds_vehicles := map (\<lambda>v. if vh_driver v = d \<and> vh_primary v \<and> vh_status v = VehiclePending
     then v\<lparr>vh_status := VehicleActive\<rparr> else v) (ds_vehicles s)\<rparr>"

definition end_sessions :: "nat \<Rightarrow> string \<Rightarrow> dossier \<Rightarrow> dossier" where
  "end_sessions d why s = s\<lparr>ds_auth := (ds_auth s)\<lparr>au_ops := set_world (\<lambda>w. w\<lparr>w_rides := (w_rides w)\<lparr>sessions := map (\<lambda>x.
     if se_driver x = d \<and> se_status x = OnlineSession then x\<lparr>se_status := OfflineSession, se_reason := Some why\<rparr> else x) (sessions (w_rides w))\<rparr>\<rparr>) (au_ops (ds_auth s))\<rparr>\<rparr>"

text \<open>One transaction, on the row of the driver.\<close>

definition syncDriverStatusAfterDocChange :: "int \<Rightarrow> nat \<Rightarrow> dossier \<Rightarrow> dossier" where
  "syncDriverStatusAfterDocChange today d s =
     (if \<not> exists_driver d s then s
      else if \<not> hasApprovedRequiredDocs today d s \<and> driver_status d s = AccountActive then
        end_sessions d ''docs_revoked'' (createStatusHistory d AccountActive DocsRejected ''Document rejected or expired''
          (with_info d (\<lambda>i. i\<lparr>di_step := DocumentsStep\<rparr>) (with_status d DocsRejected s)))
      else if hasApprovedRequiredDocs today d s \<and> driver_status d s = DocsRejected then
        createStatusHistory d DocsRejected AccountActive ''All documents re-approved'' (activatePendingPrimaryVehicle d (with_status d AccountActive s))
      else s)"

definition doc_changed :: app_error where "doc_changed = http_err 409 ''DOC_CHANGED''"

text \<open>
  The decision, then the driver's standing. \<open>seen\<close>: the version the administrator was shown. The standing is brought up to date in a transaction of its own, after the
  decision is committed; \<open>afterDocChange\<close> logs its failure (\<open>sync\<close> is false) and answers as if it had worked.
\<close>

definition decided :: "bool \<Rightarrow> int \<Rightarrow> bool \<Rightarrow> nat \<Rightarrow> bool \<times> dossier \<Rightarrow> unit res \<times> dossier" where
  "decided sync today veh k w = (case w of (False, s) \<Rightarrow> (Inl doc_changed, s)
     | (True, s) \<Rightarrow> (Inr (), if sync then syncDriverStatusAfterDocChange today (driver_of_doc veh k s) s else s))"

definition approveDoc :: "bool \<Rightarrow> bool \<Rightarrow> int \<Rightarrow> int \<Rightarrow> int \<Rightarrow> nat \<Rightarrow> int option \<Rightarrow> int option \<Rightarrow> dossier \<Rightarrow> unit res \<times> dossier" where
  "approveDoc sync veh ist today now k v seen s =
     (if length (doc_table veh s) \<le> k then (Inl (http_err 404 ''NOT_FOUND''), s)
      else case validateVerifiedExpiry ist (dc_type (doc_table veh s ! k)) v of Inl err \<Rightarrow> (Inl err, s)
        | Inr expiry \<Rightarrow> (case seen of None \<Rightarrow> (Inl (http_err 400 ''VALIDATION_ERROR''), s)
            | Some u \<Rightarrow> decided sync today veh k (approve_write veh now k expiry u s)))"

definition updateDocExpiry :: "bool \<Rightarrow> bool \<Rightarrow> int \<Rightarrow> int \<Rightarrow> int \<Rightarrow> nat \<Rightarrow> int option \<Rightarrow> int option \<Rightarrow> dossier \<Rightarrow> unit res \<times> dossier" where
  "updateDocExpiry sync veh ist today now k v seen s =
     (if length (doc_table veh s) \<le> k then (Inl (http_err 404 ''NOT_FOUND''), s)
      else case validateVerifiedExpiry ist (dc_type (doc_table veh s ! k)) v of Inl err \<Rightarrow> (Inl err, s)
        | Inr expiry \<Rightarrow> (case seen of None \<Rightarrow> (Inl (http_err 400 ''VALIDATION_ERROR''), s)
            | Some u \<Rightarrow> decided sync today veh k (expiry_write veh now k expiry u s)))"

definition rejectDoc :: "bool \<Rightarrow> bool \<Rightarrow> int \<Rightarrow> int \<Rightarrow> nat \<Rightarrow> string \<Rightarrow> int option \<Rightarrow> dossier \<Rightarrow> unit res \<times> dossier" where
  "rejectDoc sync veh today now k why seen s =
     (if length why < 10 then (Inl (http_err 422 ''VALIDATION_ERROR''), s)
      else case seen of None \<Rightarrow> (Inl (http_err 400 ''VALIDATION_ERROR''), s)
        | Some u \<Rightarrow> if length (doc_table veh s) \<le> k then (Inl (http_err 404 ''NOT_FOUND''), s)
            else decided sync today veh k (reject_write veh now k why u s))"

definition approveDriverDoc :: "bool \<Rightarrow> int \<Rightarrow> int \<Rightarrow> int \<Rightarrow> nat \<Rightarrow> int option \<Rightarrow> int option \<Rightarrow> dossier \<Rightarrow> unit res \<times> dossier" where "approveDriverDoc sync = approveDoc sync False"
definition approveVehicleDoc :: "bool \<Rightarrow> int \<Rightarrow> int \<Rightarrow> int \<Rightarrow> nat \<Rightarrow> int option \<Rightarrow> int option \<Rightarrow> dossier \<Rightarrow> unit res \<times> dossier" where "approveVehicleDoc sync = approveDoc sync True"
definition rejectDriverDoc :: "bool \<Rightarrow> int \<Rightarrow> int \<Rightarrow> nat \<Rightarrow> string \<Rightarrow> int option \<Rightarrow> dossier \<Rightarrow> unit res \<times> dossier" where "rejectDriverDoc sync = rejectDoc sync False"
definition rejectVehicleDoc :: "bool \<Rightarrow> int \<Rightarrow> int \<Rightarrow> nat \<Rightarrow> string \<Rightarrow> int option \<Rightarrow> dossier \<Rightarrow> unit res \<times> dossier" where "rejectVehicleDoc sync = rejectDoc sync True"

subsection \<open>The standing of a driver\<close>

definition status_text :: "account_status \<Rightarrow> string" where
  "status_text st = (if st = Suspended then ''admin_suspended'' else ''admin_banned'')"

text \<open>\<open>current\<close>: the status the controller has read. \<open>deleted\<close> is no target.\<close>

definition updateDriverStatus :: "nat \<Rightarrow> account_status \<Rightarrow> account_status \<Rightarrow> string \<Rightarrow> dossier \<Rightarrow> unit res \<times> dossier" where
  "updateDriverStatus d current target why s =
     (if \<not> exists_driver d s then (Inl (http_err 404 ''NOT_FOUND''), s)
      else if target = Deleted \<or> current = AccountActive \<and> target \<in> {PendingDocs, PendingApproval, DocsRejected} then (Inl (http_err 422 ''VALIDATION_ERROR''), s)
      else if target = AccountActive \<and> current \<noteq> AccountActive \<and> \<not> hasAllRequiredDocsApproved d s then (Inl (http_err 422 ''DOCS_INCOMPLETE''), s)
      else let s1 = with_status d target s;
               s2 = (if target = DocsRejected then with_info d (\<lambda>i. i\<lparr>di_step := DocumentsStep\<rparr>) s1 else s1);
               s3 = (if target = AccountActive then activatePendingPrimaryVehicle d s2 else s2);
               s4 = createStatusHistory d current target why s3
           in (Inr (), if target = Suspended \<or> target = Banned then s4\<lparr>ds_auth := end_online d (status_text target) (ds_auth s4)\<rparr> else s4))"

definition with_vehicle :: "nat \<Rightarrow> vehicle_state \<Rightarrow> dossier \<Rightarrow> dossier" where
  "with_vehicle k st s = s\<lparr>ds_vehicles := (ds_vehicles s)[k := (ds_vehicles s ! k)\<lparr>vh_status := st\<rparr>]\<rparr>"

definition blacklistVehicle :: "nat \<Rightarrow> string \<Rightarrow> dossier \<Rightarrow> bool res \<times> dossier" where
  "blacklistVehicle k why s =
     (if length why < 10 then (Inl (http_err 422 ''VALIDATION_ERROR''), s)
      else if length (ds_vehicles s) \<le> k then (Inl (http_err 500 ''''), s)
      else let d = vh_driver (ds_vehicles s ! k); s1 = with_vehicle k VehicleBlacklisted s in
        if vh_primary (ds_vehicles s ! k) then (Inr True, createStatusHistory d (driver_status d s) Suspended (''Vehicle blacklisted: '' @ why) (with_status d Suspended s1))
        else (Inr False, s1))"

text \<open>A second primary vehicle that is not blacklisted violates the partial unique index.\<close>

definition unblacklistVehicle :: "nat \<Rightarrow> dossier \<Rightarrow> unit res \<times> dossier" where
  "unblacklistVehicle k s =
     (if k < length (ds_vehicles s) then
        (if vh_primary (ds_vehicles s ! k) \<and> list_ex (\<lambda>j. j \<noteq> k \<and> primary_of (vh_driver (ds_vehicles s ! k)) s j \<and> vh_status (ds_vehicles s ! j) \<noteq> VehicleBlacklisted) [0..<length (ds_vehicles s)]
         then (Inl duplicate, s) else (Inr (), with_vehicle k VehicleActive s))
      else (Inr (), s))"

subsection \<open>Well-formed tables\<close>

text \<open>What holds of every row of a document, at time \<open>now\<close>.\<close>

definition doc_ok :: "int \<Rightarrow> doc \<Rightarrow> bool" where
  "doc_ok now x \<longleftrightarrow> dc_updated x \<le> now
     \<and> (dc_status x = DocApproved \<longrightarrow> dc_note x = None \<and> dc_rejections x = 0 \<and> (dc_verified x = None \<longleftrightarrow> dc_type x \<in> set NO_EXPIRY_DOC_TYPES))
     \<and> (dc_status x = DocRejected \<longrightarrow> dc_note x \<noteq> None \<and> 0 < dc_rejections x) \<and> 0 \<le> dc_rejections x"

definition docs_ok :: "int \<Rightarrow> doc list \<Rightarrow> bool" where
  "docs_ok now docs \<longleftrightarrow> distinct (map (\<lambda>x. (dc_owner x, dc_type x)) docs) \<and> (\<forall>x \<in> set docs. doc_ok now x)"

definition vehicles_ok :: "vehicle list \<Rightarrow> bool" where
  "vehicles_ok vs \<longleftrightarrow>
     (\<forall>i < length vs. \<forall>j < length vs. i \<noteq> j \<longrightarrow> vs_plate (vh_spec (vs ! i)) = vs_plate (vh_spec (vs ! j)) \<longrightarrow> vs_plate (vh_spec (vs ! i)) = None)
     \<and> (\<forall>i < length vs. \<forall>j < length vs. vh_driver (vs ! i) = vh_driver (vs ! j) \<longrightarrow> vh_primary (vs ! i) \<longrightarrow> vh_primary (vs ! j)
          \<longrightarrow> vh_status (vs ! i) \<noteq> VehicleBlacklisted \<longrightarrow> vh_status (vs ! j) \<noteq> VehicleBlacklisted \<longrightarrow> i = j)"

text \<open>\<open>sh\<close>: a version of row \<open>k\<close> that was shown, with its file. Either it is the current one, or the row has been written in a later millisecond.\<close>

definition shown_ok :: "doc list \<Rightarrow> nat \<times> int \<times> string \<Rightarrow> bool" where
  "shown_ok docs sh \<longleftrightarrow> (case sh of (k, u, addr) \<Rightarrow> k < length docs
     \<and> (u = dc_updated (docs ! k) \<and> addr = dc_file (docs ! k) \<or> u div 1000 < dc_updated (docs ! k) div 1000))"

lemma doc_ok_later: "doc_ok now x \<Longrightarrow> now \<le> now' \<Longrightarrow> doc_ok now' x"
  by (auto simp: doc_ok_def)

text \<open>A write of one row at a later time: its key stays.\<close>

lemma docs_ok_update:
  assumes "docs_ok now docs" "now \<le> now'" "k < length docs" "dc_owner y = dc_owner (docs ! k)" "dc_type y = dc_type (docs ! k)" "doc_ok now' y"
  shows "docs_ok now' (docs[k := y])"
proof -
  have "map (\<lambda>x. (dc_owner x, dc_type x)) (docs[k := y]) = map (\<lambda>x. (dc_owner x, dc_type x)) docs"
    using assms(3-5) by (simp add: map_update list_update_same_conv)
  then show ?thesis using assms set_update_subset_insert [of docs k y] by (auto simp: docs_ok_def intro: doc_ok_later)
qed

lemma docs_ok_later: "docs_ok now docs \<Longrightarrow> now \<le> now' \<Longrightarrow> docs_ok now' docs"
  by (auto simp: docs_ok_def intro: doc_ok_later)

lemma shown_update:
  assumes "shown_ok docs sh" "docs_ok now docs" "now div 1000 < now' div 1000" "dc_updated y = now'"
  shows "shown_ok (docs[k := y]) sh"
proof -
  obtain j u addr where sh: "sh = (j, u, addr)" by (cases sh)
  have "u div 1000 < now' div 1000" if "j < length docs"
  proof -
    have "dc_updated (docs ! j) \<le> now" using assms(2) that by (auto simp: docs_ok_def doc_ok_def)
    then have "dc_updated (docs ! j) div 1000 \<le> now div 1000" by (rule zdiv_mono1) simp
    then show ?thesis using assms(1,3) by (auto simp: shown_ok_def sh)
  qed
  then show ?thesis using assms(1,4) by (cases "j = k") (auto simp: shown_ok_def sh)
qed

lemma shown_append: "shown_ok docs sh \<Longrightarrow> shown_ok (docs @ xs) sh"
  by (cases sh) (auto simp: shown_ok_def nth_append)

lemma upsert_doc_cases:
  obtains (old) k where "k < length docs" "dc_owner (docs ! k) = i" "dc_type (docs ! k) = t"
      "upsert_doc now i t addr from num claimed docs = docs[k := (docs ! k)\<lparr>dc_file := addr, dc_from := orelse from (dc_from (docs ! k)), dc_number := orelse num (dc_number (docs ! k)),
            dc_claimed := orelse claimed (dc_claimed (docs ! k)), dc_status := DocPending, dc_updated := now\<rparr>]"
  | (new) x where "\<forall>y \<in> set docs. \<not> (dc_owner y = i \<and> dc_type y = t)" "upsert_doc now i t addr from num claimed docs = docs @ [x]"
      "dc_owner x = i" "dc_type x = t" "dc_file x = addr" "dc_status x = DocPending" "dc_note x = None" "dc_rejections x = 0" "dc_updated x = now"
proof (cases "find (\<lambda>k. dc_owner (docs ! k) = i \<and> dc_type (docs ! k) = t) [0..<length docs]")
  case None
  let ?x = "\<lparr>dc_owner = i, dc_type = t, dc_file = addr, dc_from = from, dc_number = num, dc_claimed = claimed, dc_verified = None,
            dc_status = DocPending, dc_note = None, dc_rejections = 0, dc_updated = now\<rparr>"
  have "\<forall>y \<in> set docs. \<not> (dc_owner y = i \<and> dc_type y = t)"
    using None by (auto simp: find_None_iff in_set_conv_nth)
  moreover have "upsert_doc now i t addr from num claimed docs = docs @ [?x]"
    using None by (simp add: upsert_doc_def)
  ultimately show ?thesis by (rule new) simp_all
next
  case (Some k)
  then have "k < length docs" "dc_owner (docs ! k) = i" "dc_type (docs ! k) = t" by (auto simp: find_Some_iff)
  then show ?thesis using Some by (intro old) (auto simp: upsert_doc_def)
qed

lemma upsert_doc_ok:
  assumes "docs_ok now docs" "now div 1000 < now' div 1000"
  shows "docs_ok now' (upsert_doc now' i t addr from num claimed docs)"
    "shown_ok docs sh \<Longrightarrow> shown_ok (upsert_doc now' i t addr from num claimed docs) sh"
proof -
  have le: "now \<le> now'" using assms(2) zdiv_mono1 [of now' now 1000] by linarith
  show "docs_ok now' (upsert_doc now' i t addr from num claimed docs)"
  proof (cases rule: upsert_doc_cases [of docs i t now' addr "from" num claimed])
    case (old k)
    have "doc_ok now (docs ! k)" using old(1) assms(1) by (simp add: docs_ok_def)
    then show ?thesis unfolding old(4) by (intro docs_ok_update [OF assms(1) le old(1)]) (auto simp: doc_ok_def)
  next
    case (new x)
    have "doc_ok now' x" using new by (simp add: doc_ok_def)
    then show ?thesis unfolding new(2) using assms(1) le new(1,3,4) by (auto simp: docs_ok_def intro: doc_ok_later)
  qed
  show "shown_ok (upsert_doc now' i t addr from num claimed docs) sh" if "shown_ok docs sh"
    by (cases rule: upsert_doc_cases [of docs i t now' addr "from" num claimed])
      (simp_all add: shown_append that shown_update [OF that assms])
qed

lemma vehicles_spec:
  assumes ok: "vehicles_ok vs" and k: "k < length vs" and free: "\<not> plate_taken (Some k) (vs_plate spec) vs"
  shows "vehicles_ok (vs[k := (vs ! k)\<lparr>vh_spec := spec\<rparr>])"
proof -
  have f: "vs_plate spec = None" if "vs_plate (vh_spec (vs ! j)) = vs_plate spec" "j < length vs" "j \<noteq> k" for j
    using free that by (auto simp: plate_taken_def list_ex_iff)
  show ?thesis unfolding vehicles_ok_def
  proof (intro conjI allI impI)
    fix i j assume ij: "i < length (vs[k := (vs ! k)\<lparr>vh_spec := spec\<rparr>])" "j < length (vs[k := (vs ! k)\<lparr>vh_spec := spec\<rparr>])"
    let ?w = "vs[k := (vs ! k)\<lparr>vh_spec := spec\<rparr>]"
    {
      assume "i \<noteq> j" "vs_plate (vh_spec (?w ! i)) = vs_plate (vh_spec (?w ! j))"
      then show "vs_plate (vh_spec (?w ! i)) = None"
        using ij f [of i] f [of j] ok k unfolding vehicles_ok_def by (cases "i = k"; cases "j = k") auto
    }
    assume "vh_driver (?w ! i) = vh_driver (?w ! j)" "vh_primary (?w ! i)" "vh_primary (?w ! j)"
      "vh_status (?w ! i) \<noteq> VehicleBlacklisted" "vh_status (?w ! j) \<noteq> VehicleBlacklisted"
    moreover have "vh_driver (?w ! m) = vh_driver (vs ! m) \<and> vh_primary (?w ! m) = vh_primary (vs ! m) \<and> vh_status (?w ! m) = vh_status (vs ! m)" for m
      using k by (cases "m = k") simp_all
    ultimately show "i = j" using ij ok unfolding vehicles_ok_def by simp
  qed
qed

lemma vehicles_new:
  assumes ok: "vehicles_ok vs" and free: "\<not> plate_taken None (vs_plate (vh_spec v)) vs"
    and one: "\<not> list_ex (\<lambda>x. vh_driver x = vh_driver v \<and> vh_primary x \<and> vh_status x \<noteq> VehicleBlacklisted) vs"
  shows "vehicles_ok (vs @ [v])"
proof -
  have f: "vs_plate (vh_spec v) = None" if "vs_plate (vh_spec (vs ! j)) = vs_plate (vh_spec v)" "j < length vs" for j
    using free that by (auto simp: plate_taken_def list_ex_iff)
  have g: "\<not> (vh_driver (vs ! j) = vh_driver v \<and> vh_primary (vs ! j) \<and> vh_status (vs ! j) \<noteq> VehicleBlacklisted)" if "j < length vs" for j
    using one that by (auto simp: list_ex_iff)
  show ?thesis unfolding vehicles_ok_def
  proof (intro conjI allI impI)
    fix i j assume ij: "i < length (vs @ [v])" "j < length (vs @ [v])"
    {
      assume "i \<noteq> j" "vs_plate (vh_spec ((vs @ [v]) ! i)) = vs_plate (vh_spec ((vs @ [v]) ! j))"
      then show "vs_plate (vh_spec ((vs @ [v]) ! i)) = None"
        using ij f [of i] f [of j] ok unfolding vehicles_ok_def by (cases "i < length vs"; cases "j < length vs") (auto simp: nth_append less_Suc_eq)
    }
    assume "vh_driver ((vs @ [v]) ! i) = vh_driver ((vs @ [v]) ! j)" "vh_primary ((vs @ [v]) ! i)" "vh_primary ((vs @ [v]) ! j)"
      "vh_status ((vs @ [v]) ! i) \<noteq> VehicleBlacklisted" "vh_status ((vs @ [v]) ! j) \<noteq> VehicleBlacklisted"
    then show "i = j" using ij g ok unfolding vehicles_ok_def by (cases "i < length vs"; cases "j < length vs") (auto simp: nth_append less_Suc_eq)
  qed
qed

lemma vehicles_status:
  assumes "vehicles_ok vs" "length vs' = length vs"
    "\<And>i. i < length vs \<Longrightarrow> vh_driver (vs' ! i) = vh_driver (vs ! i) \<and> vh_spec (vs' ! i) = vh_spec (vs ! i) \<and> vh_primary (vs' ! i) = vh_primary (vs ! i)"
    "\<And>i j. i < length vs \<Longrightarrow> j < length vs \<Longrightarrow> vh_driver (vs ! i) = vh_driver (vs ! j) \<Longrightarrow> vh_primary (vs ! i) \<Longrightarrow> vh_primary (vs ! j)
       \<Longrightarrow> vh_status (vs' ! i) \<noteq> VehicleBlacklisted \<Longrightarrow> vh_status (vs' ! j) \<noteq> VehicleBlacklisted \<Longrightarrow> i = j"
  shows "vehicles_ok vs'"
  using assms unfolding vehicles_ok_def by simp

subsection \<open>Every interleaving\<close>

text \<open>\<open>rw_shown\<close>: the versions administrators have been shown, with the file of each. The table is true for documents of vehicles.\<close>

record review_world =
  rw_db :: dossier
  rw_now :: int
  rw_shown :: "(bool \<times> nat \<times> int \<times> string) list"

definition later :: "int \<Rightarrow> review_world \<Rightarrow> bool" where
  "later now w \<longleftrightarrow> rw_now w div 1000 < now div 1000"

definition wrote :: "int \<Rightarrow> dossier \<Rightarrow> review_world \<Rightarrow> review_world" where
  "wrote now s w = w\<lparr>rw_now := now, rw_db := s\<rparr>"

text \<open>
  Every write of a document has a millisecond of its own. A decision and the standing it leads to are two steps, as are the reads of a handler
  and its writes: \<open>seen\<close>, \<open>current\<close> and \<open>from\<close> are any values that were once read. Whatever else happens to accounts, sessions and rides may happen between.
\<close>

inductive review_step :: "review_world \<Rightarrow> review_world \<Rightarrow> bool" where
  showing: "k < length (doc_table veh (rw_db w)) \<Longrightarrow>
     review_step w (w\<lparr>rw_shown := (veh, k, dc_updated (doc_table veh (rw_db w) ! k), dc_file (doc_table veh (rw_db w) ! k)) # rw_shown w\<rparr>)"
| uploading: "later now w \<Longrightarrow> completeDriverDocumentUpload now promote d key t start until (rw_db w) = (x, s) \<Longrightarrow> review_step w (wrote now s w)"
| uploading_vehicle: "later now w \<Longrightarrow> completeVehicleDocumentUpload now promote d key t num until (rw_db w) = (x, s) \<Longrightarrow> review_step w (wrote now s w)"
| approving: "later now w \<Longrightarrow> validateVerifiedExpiry ist (dc_type (doc_table veh (rw_db w) ! k)) v = Inr expiry
     \<Longrightarrow> approve_write veh now k expiry seen (rw_db w) = (b, s) \<Longrightarrow> review_step w (wrote now s w)"
| rejecting: "later now w \<Longrightarrow> reject_write veh now k why seen (rw_db w) = (b, s) \<Longrightarrow> review_step w (wrote now s w)"
| correcting: "later now w \<Longrightarrow> validateVerifiedExpiry ist (dc_type (doc_table veh (rw_db w) ! k)) v = Inr expiry
     \<Longrightarrow> expiry_write veh now k expiry seen (rw_db w) = (b, s) \<Longrightarrow> review_step w (wrote now s w)"
| syncing: "review_step w (w\<lparr>rw_db := syncDriverStatusAfterDocChange today d (rw_db w)\<rparr>)"
| filling: "savePersonalInfo city d info (rw_db w) = (y, s) \<Longrightarrow> review_step w (w\<lparr>rw_db := s\<rparr>)"
| numbering: "saveIdentityDocuments d license aadhaar (rw_db w) = (z, s) \<Longrightarrow> review_step w (w\<lparr>rw_db := s\<rparr>)"
| registering: "saveVehicleInfo d spec veh_seen (rw_db w) = (v', s) \<Longrightarrow> (\<And>k. veh_seen = Some k \<Longrightarrow> k < length (ds_vehicles (rw_db w)))
     \<Longrightarrow> review_step w (w\<lparr>rw_db := s\<rparr>)"
| submitting: "review_step w (w\<lparr>rw_db := submit_write d st (rw_db w)\<rparr>)"
| ruling: "updateDriverStatus d current target why (rw_db w) = (z, s) \<Longrightarrow> review_step w (w\<lparr>rw_db := s\<rparr>)"
| banishing: "blacklistVehicle k why (rw_db w) = (c, s) \<Longrightarrow> review_step w (w\<lparr>rw_db := s\<rparr>)"
| readmitting: "unblacklistVehicle k (rw_db w) = (z, s) \<Longrightarrow> review_step w (w\<lparr>rw_db := s\<rparr>)"
| proving: "submitVerification ist d selfie plate (rw_db w) = (z, s) \<Longrightarrow> review_step w (w\<lparr>rw_db := s\<rparr>)"
| elsewhere: "review_step w (w\<lparr>rw_db := (rw_db w)\<lparr>ds_auth := a\<rparr>\<rparr>)"

definition review_inv :: "review_world \<Rightarrow> bool" where
  "review_inv w \<longleftrightarrow> docs_ok (rw_now w) (ds_docs (rw_db w)) \<and> docs_ok (rw_now w) (ds_vdocs (rw_db w)) \<and> vehicles_ok (ds_vehicles (rw_db w))
     \<and> (\<forall>(veh, sh) \<in> set (rw_shown w). shown_ok (doc_table veh (rw_db w)) sh)"

lemma tables_simps [simp]:
  "ds_docs (with_status d st s) = ds_docs s" "ds_vdocs (with_status d st s) = ds_vdocs s" "ds_vehicles (with_status d st s) = ds_vehicles s"
  "ds_docs (with_info d f s) = ds_docs s" "ds_vdocs (with_info d f s) = ds_vdocs s" "ds_vehicles (with_info d f s) = ds_vehicles s"
  "ds_docs (createStatusHistory d a b why s) = ds_docs s" "ds_vdocs (createStatusHistory d a b why s) = ds_vdocs s" "ds_vehicles (createStatusHistory d a b why s) = ds_vehicles s"
  "ds_docs (end_sessions d why s) = ds_docs s" "ds_vdocs (end_sessions d why s) = ds_vdocs s" "ds_vehicles (end_sessions d why s) = ds_vehicles s"
  "ds_docs (activatePendingPrimaryVehicle d s) = ds_docs s" "ds_vdocs (activatePendingPrimaryVehicle d s) = ds_vdocs s"
  "ds_docs (with_vehicle k vst s) = ds_docs s" "ds_vdocs (with_vehicle k vst s) = ds_vdocs s"
  by (simp_all add: with_status_def with_info_def createStatusHistory_def end_sessions_def activatePendingPrimaryVehicle_def with_vehicle_def)

text \<open>Operations that write neither table of documents keep everything, given that the vehicles stay well-formed.\<close>

lemma review_inv_vehicles:
  assumes "review_inv w" "ds_docs s = ds_docs (rw_db w)" "ds_vdocs s = ds_vdocs (rw_db w)" "vehicles_ok (ds_vehicles s)"
  shows "review_inv (w\<lparr>rw_db := s\<rparr>)"
proof -
  have "doc_table v s = doc_table v (rw_db w)" for v using assms(2,3) by (simp add: doc_table_def)
  then show ?thesis using assms by (simp add: review_inv_def)
qed

lemma activate_ok: "vehicles_ok (ds_vehicles s) \<Longrightarrow> vehicles_ok (ds_vehicles (activatePendingPrimaryVehicle d s))"
  by (rule vehicles_status) (auto simp: activatePendingPrimaryVehicle_def vehicles_ok_def split: if_splits)

lemma sync_tables [simp]:
  "ds_docs (syncDriverStatusAfterDocChange today d s) = ds_docs s" "ds_vdocs (syncDriverStatusAfterDocChange today d s) = ds_vdocs s"
  by (simp_all add: syncDriverStatusAfterDocChange_def)

text \<open>The three writes of a review, as one: a row that is the version seen gets fields other than its key and its file.\<close>

lemma review_write:
  assumes inv: "review_inv w" and l: "later now w"
    and f: "dc_owner (f x) = dc_owner x" "dc_type (f x) = dc_type x" "dc_updated (f x) = now" "doc_ok (rw_now w) x \<Longrightarrow> doc_ok now (f x)"
    and x: "x = doc_table veh (rw_db w) ! k" and k: "k < length (doc_table veh (rw_db w))"
  shows "review_inv (wrote now (with_doc veh k f (rw_db w)) w)"
proof -
  have le: "rw_now w \<le> now" using l zdiv_mono1 [of now "rw_now w" 1000] by (auto simp: later_def)
  have ok: "docs_ok (rw_now w) (doc_table veh (rw_db w))" using inv by (simp add: review_inv_def doc_table_def)
  have "doc_ok (rw_now w) x" using ok k x by (simp add: docs_ok_def)
  then have new: "docs_ok now ((doc_table veh (rw_db w))[k := f x])"
    using f by (intro docs_ok_update [OF ok le k]) (simp_all add: x)
  have old: "docs_ok now (doc_table v (rw_db w))" for v
    using inv le by (auto simp: review_inv_def doc_table_def intro: docs_ok_later)
  have t: "doc_table v (with_doc veh k f (rw_db w)) = (if v = veh then (doc_table veh (rw_db w))[k := f x] else doc_table v (rw_db w))" for v
    by (auto simp: doc_table_def with_doc_def x)
  have "shown_ok (doc_table v (with_doc veh k f (rw_db w))) sh" if "(v, sh) \<in> set (rw_shown w)" for v sh
  proof -
    have s: "shown_ok (doc_table v (rw_db w)) sh" using inv that by (auto simp: review_inv_def)
    then show ?thesis using shown_update [OF _ ok, of sh now "f x" k] l f(3) by (auto simp: t later_def)
  qed
  moreover have "docs_ok now (doc_table v (with_doc veh k f (rw_db w)))" for v
    using new old by (simp add: t)
  from this [of True] this [of False] have "docs_ok now (ds_docs (with_doc veh k f (rw_db w)))" "docs_ok now (ds_vdocs (with_doc veh k f (rw_db w)))"
    by (simp_all add: doc_table_def)
  moreover have "ds_vehicles (with_doc veh k f (rw_db w)) = ds_vehicles (rw_db w)" by (simp add: with_doc_def)
  ultimately show ?thesis using inv by (auto simp: review_inv_def wrote_def)
qed

lemma review_no_write: "review_inv w \<Longrightarrow> later now w \<Longrightarrow> review_inv (wrote now (rw_db w) w)"
  using zdiv_mono1 [of now "rw_now w" 1000] by (auto simp: review_inv_def wrote_def later_def intro: docs_ok_later)

lemma validated: "validateVerifiedExpiry ist t v = Inr expiry \<Longrightarrow> expiry = None \<longleftrightarrow> t \<in> set NO_EXPIRY_DOC_TYPES"
  by (auto simp: validateVerifiedExpiry_def split: if_splits option.splits)

lemma upload_inv:
  assumes inv: "review_inv w" and l: "later now w"
    and s: "ds_docs s = (if veh then ds_docs (rw_db w) else upsert_doc now i t addr start num until (ds_docs (rw_db w)))"
      "ds_vdocs s = (if veh then upsert_doc now i t addr start num until (ds_vdocs (rw_db w)) else ds_vdocs (rw_db w))"
      "ds_vehicles s = ds_vehicles (rw_db w)"
  shows "review_inv (wrote now s w)"
proof -
  have le: "rw_now w \<le> now" using l zdiv_mono1 [of now "rw_now w" 1000] by (auto simp: later_def)
  have t: "docs_ok (rw_now w) (ds_docs (rw_db w))" "docs_ok (rw_now w) (ds_vdocs (rw_db w))" using inv by (simp_all add: review_inv_def)
  note u = upsert_doc_ok [OF t(1) l [unfolded later_def]] upsert_doc_ok [OF t(2) l [unfolded later_def]]
  have "docs_ok now (ds_docs s)" "docs_ok now (ds_vdocs s)" using t le by (auto simp: s intro: docs_ok_later u(1,3))
  moreover have "shown_ok (doc_table v s) sh" if "(v, sh) \<in> set (rw_shown w)" for v sh
  proof -
    have "shown_ok (doc_table v (rw_db w)) sh" using inv that by (auto simp: review_inv_def)
    then show ?thesis by (auto simp: doc_table_def s intro: u(2,4))
  qed
  ultimately show ?thesis using inv by (auto simp: review_inv_def wrote_def s(3))
qed

lemma sync_vehicles:
  "vehicles_ok (ds_vehicles s) \<Longrightarrow> vehicles_ok (ds_vehicles (syncDriverStatusAfterDocChange today d s))"
  by (simp add: syncDriverStatusAfterDocChange_def activate_ok)

lemma status_vehicles:
  assumes "vehicles_ok (ds_vehicles s)"
  shows "updateDriverStatus d current target why s = (z, s') \<Longrightarrow> vehicles_ok (ds_vehicles s') \<and> ds_docs s' = ds_docs s \<and> ds_vdocs s' = ds_vdocs s"
  using assms activate_ok [of s d] by (auto simp: updateDriverStatus_def Let_def activatePendingPrimaryVehicle_def split: if_splits)

lemma blacklisting_ok:
  assumes ok: "vehicles_ok (ds_vehicles s)"
  shows "vehicles_ok (ds_vehicles (with_vehicle k VehicleBlacklisted s))"
proof (cases "k < length (ds_vehicles s)")
  case True
  then show ?thesis using ok by (intro vehicles_status [OF ok]) (auto simp: with_vehicle_def vehicles_ok_def nth_list_update split: if_splits)
qed (simp add: with_vehicle_def ok list_update_beyond)

lemma one_primary:
  "vehicles_ok vs \<Longrightarrow> i < length vs \<Longrightarrow> j < length vs \<Longrightarrow> vh_driver (vs ! i) = vh_driver (vs ! j) \<Longrightarrow> vh_primary (vs ! i) \<Longrightarrow> vh_primary (vs ! j)
     \<Longrightarrow> vh_status (vs ! i) \<noteq> VehicleBlacklisted \<Longrightarrow> vh_status (vs ! j) \<noteq> VehicleBlacklisted \<Longrightarrow> i = j"
  unfolding vehicles_ok_def by blast

lemma unblacklisting_ok:
  assumes ok: "vehicles_ok (ds_vehicles s)" and run: "unblacklistVehicle k s = (z, s')"
  shows "vehicles_ok (ds_vehicles s') \<and> ds_docs s' = ds_docs s \<and> ds_vdocs s' = ds_vdocs s"
proof (cases "k < length (ds_vehicles s) \<and> \<not> (vh_primary (ds_vehicles s ! k) \<and> list_ex (\<lambda>j. j \<noteq> k \<and> primary_of (vh_driver (ds_vehicles s ! k)) s j \<and> vh_status (ds_vehicles s ! j) \<noteq> VehicleBlacklisted) [0..<length (ds_vehicles s)])")
  case True
  then have s': "s' = with_vehicle k VehicleActive s" using run by (auto simp: unblacklistVehicle_def split: if_splits)
  have free: "\<not> (vh_driver (ds_vehicles s ! j) = vh_driver (ds_vehicles s ! k) \<and> vh_primary (ds_vehicles s ! j) \<and> vh_status (ds_vehicles s ! j) \<noteq> VehicleBlacklisted)"
    if "vh_primary (ds_vehicles s ! k)" "j \<noteq> k" "j < length (ds_vehicles s)" for j
    using True that by (auto simp: list_ex_iff primary_of_def)
  have "vehicles_ok (ds_vehicles s')" unfolding s'
  proof (rule vehicles_status [OF ok])
    fix i j assume ij: "i < length (ds_vehicles s)" "j < length (ds_vehicles s)" "vh_driver (ds_vehicles s ! i) = vh_driver (ds_vehicles s ! j)"
      "vh_primary (ds_vehicles s ! i)" "vh_primary (ds_vehicles s ! j)"
      "vh_status (ds_vehicles (with_vehicle k VehicleActive s) ! i) \<noteq> VehicleBlacklisted" "vh_status (ds_vehicles (with_vehicle k VehicleActive s) ! j) \<noteq> VehicleBlacklisted"
    have st: "vh_status (ds_vehicles (with_vehicle k VehicleActive s) ! m) = vh_status (ds_vehicles s ! m)" if "m \<noteq> k" for m
      using that by (simp add: with_vehicle_def)
    consider "i \<noteq> k" "j \<noteq> k" | "i = k" "j \<noteq> k" | "i \<noteq> k" "j = k" | "i = k" "j = k" by blast
    then show "i = j"
    proof cases
      case 1
      then show ?thesis using one_primary [OF ok ij(1-5)] ij(6,7) st by simp
    next
      case 2
      then show ?thesis using free [of j] ij st [of j] by simp
    next
      case 3
      then show ?thesis using free [of i] ij st [of i] by simp
    qed simp
  qed (use True in \<open>auto simp: with_vehicle_def nth_list_update\<close>)
  then show ?thesis by (simp add: s')
qed (use run ok in \<open>auto simp: unblacklistVehicle_def split: if_splits\<close>)

lemma saved_vehicle_ok:
  assumes ok: "vehicles_ok (ds_vehicles s)" and run: "saveVehicleInfo d spec seen s = (z, s')" and k: "\<And>k. seen = Some k \<Longrightarrow> k < length (ds_vehicles s)"
  shows "vehicles_ok (ds_vehicles s') \<and> ds_docs s' = ds_docs s \<and> ds_vdocs s' = ds_vdocs s"
proof -
  obtain y s1 where u: "upsertVehicle d spec seen s = (y, s1)" by (cases "upsertVehicle d spec seen s")
  have "vehicles_ok (ds_vehicles s1) \<and> ds_docs s1 = ds_docs s \<and> ds_vdocs s1 = ds_vdocs s"
  proof (cases seen)
    case None
    then show ?thesis using u ok vehicles_new [OF ok, of "\<lparr>vh_driver = d, vh_spec = spec, vh_status = VehiclePending, vh_primary = True\<rparr>"]
      by (auto simp: upsertVehicle_def Let_def split: if_splits)
  next
    case (Some k)
    then show ?thesis using u ok vehicles_spec [OF ok assms(3) [OF Some], of spec] by (auto simp: upsertVehicle_def Let_def split: if_splits)
  qed
  then show ?thesis using run u ok by (auto simp: saveVehicleInfo_def split: if_splits sum.splits)
qed

lemma review_step_inv: "review_step w w' \<Longrightarrow> review_inv w \<Longrightarrow> review_inv w'"
proof (induction rule: review_step.induct)
  case (showing k veh w)
  then show ?case by (auto simp: review_inv_def shown_ok_def)
next
  case (uploading now w promote d key t start until x s)
  show ?case
  proof (cases x)
    case (Inl err)
    then have "s = rw_db w" using uploading(2) by (auto simp: completeDriverDocumentUpload_def Let_def split: sum.splits if_splits)
    then show ?thesis using review_no_write uploading by simp
  next
    case (Inr addr)
    then show ?thesis using uploading
      by (intro upload_inv [where veh = False and i = d and t = t and addr = "promote key" and num = None and start = start and until = until])
        (auto simp: completeDriverDocumentUpload_def Let_def split: sum.splits if_splits)
  qed
next
  case (uploading_vehicle now w promote d key t num until x s)
  show ?case
  proof (cases x)
    case (Inl err)
    then have "s = rw_db w" using uploading_vehicle(2) by (auto simp: completeVehicleDocumentUpload_def split: sum.splits option.splits)
    then show ?thesis using review_no_write uploading_vehicle by simp
  next
    case (Inr addr)
    then obtain k where "findVehicleByDriverId d (rw_db w) = Some k" "s = (rw_db w)\<lparr>ds_vdocs := upsert_doc now k t (promote key) None num until (ds_vdocs (rw_db w))\<rparr>"
      using uploading_vehicle(2) by (auto simp: completeVehicleDocumentUpload_def split: sum.splits option.splits)
    then show ?thesis using uploading_vehicle
      by (intro upload_inv [where veh = True and i = k and t = t and addr = "promote key" and num = num and start = None and until = until]) auto
  qed
next
  case (approving now w ist veh k v expiry seen b s)
  show ?case
  proof (cases "k < length (doc_table veh (rw_db w)) \<and> same_version seen (doc_table veh (rw_db w) ! k)")
    case True
    have "review_inv (wrote now (with_doc veh k (\<lambda>x. x\<lparr>dc_status := DocApproved, dc_verified := expiry, dc_rejections := 0, dc_note := None, dc_updated := now\<rparr>) (rw_db w)) w)"
      using validated [OF approving(2)] True by (intro review_write [OF approving(4,1) _ _ _ _ refl]) (auto simp: doc_ok_def)
    then show ?thesis using True approving(3) by (auto simp: approve_write_def)
  qed (use approving review_no_write in \<open>auto simp: approve_write_def\<close>)
next
  case (rejecting now w veh k why seen b s)
  show ?case
  proof (cases "k < length (doc_table veh (rw_db w)) \<and> same_version seen (doc_table veh (rw_db w) ! k)")
    case True
    have "review_inv (wrote now (with_doc veh k (\<lambda>x. x\<lparr>dc_status := DocRejected, dc_note := Some why, dc_rejections := dc_rejections x + 1, dc_updated := now\<rparr>) (rw_db w)) w)"
      using True by (intro review_write [OF rejecting(3,1) _ _ _ _ refl]) (auto simp: doc_ok_def)
    then show ?thesis using True rejecting(2) by (auto simp: reject_write_def)
  qed (use rejecting review_no_write in \<open>auto simp: reject_write_def\<close>)
next
  case (correcting now w ist veh k v expiry seen b s)
  show ?case
  proof (cases "k < length (doc_table veh (rw_db w)) \<and> dc_status (doc_table veh (rw_db w) ! k) = DocApproved \<and> same_version seen (doc_table veh (rw_db w) ! k)")
    case True
    have "review_inv (wrote now (with_doc veh k (\<lambda>x. x\<lparr>dc_verified := expiry, dc_updated := now\<rparr>) (rw_db w)) w)"
      using validated [OF correcting(2)] True by (intro review_write [OF correcting(4,1) _ _ _ _ refl]) (auto simp: doc_ok_def)
    then show ?thesis using True correcting(3) by (auto simp: expiry_write_def)
  qed (use correcting review_no_write in \<open>auto simp: expiry_write_def\<close>)
next
  case (syncing w today d)
  then show ?case by (intro review_inv_vehicles) (auto simp: review_inv_def intro: sync_vehicles)
next
  case (filling city d info w y s)
  then show ?case by (intro review_inv_vehicles) (auto simp: review_inv_def savePersonalInfo_def Let_def split: if_splits)
next
  case (numbering d license aadhaar w z s)
  then show ?case by (intro review_inv_vehicles) (auto simp: review_inv_def saveIdentityDocuments_def split: if_splits)
next
  case (registering d spec veh_seen w v' s)
  have "vehicles_ok (ds_vehicles (rw_db w))" using registering(3) by (simp add: review_inv_def)
  from saved_vehicle_ok [OF this registering(1,2)] show ?case using registering(3) by (intro review_inv_vehicles) auto
next
  case (submitting w d st)
  then show ?case by (intro review_inv_vehicles) (auto simp: review_inv_def submit_write_def)
next
  case (ruling d current target why w z s)
  then show ?case using status_vehicles [OF _ ruling(1)] by (intro review_inv_vehicles) (auto simp: review_inv_def)
next
  case (banishing k why w c s)
  have ok: "vehicles_ok (ds_vehicles (rw_db w))" using banishing(2) by (simp add: review_inv_def)
  then show ?case using banishing blacklisting_ok [OF ok, of k] by (intro review_inv_vehicles) (auto simp: blacklistVehicle_def Let_def split: if_splits)
next
  case (readmitting k w z s)
  have ok: "vehicles_ok (ds_vehicles (rw_db w))" using readmitting(2) by (simp add: review_inv_def)
  then show ?case using readmitting unblacklisting_ok [OF ok readmitting(1)] by (intro review_inv_vehicles) auto
next
  case (proving ist d selfie plate w z s)
  then show ?case by (intro review_inv_vehicles) (auto simp: review_inv_def submitVerification_def insertTodayVerification_def Let_def split: if_splits option.splits)
next
  case (elsewhere w a)
  then show ?case by (intro review_inv_vehicles) (auto simp: review_inv_def)
qed

subsection \<open>What a review does\<close>

lemma approve_iff:
  "approveDoc sync veh ist today now k v (Some u) s = (x, s') \<Longrightarrow> k < length (doc_table veh s) \<Longrightarrow>
     (x = Inr () \<longleftrightarrow> same_version u (doc_table veh s ! k) \<and> (\<exists>e. validateVerifiedExpiry ist (dc_type (doc_table veh s ! k)) v = Inr e))
     \<and> (x \<noteq> Inr () \<longrightarrow> s' = s)
     \<and> (x = Inr () \<longrightarrow> dc_file (doc_table veh s' ! k) = dc_file (doc_table veh s ! k) \<and> dc_status (doc_table veh s' ! k) = DocApproved
         \<and> validateVerifiedExpiry ist (dc_type (doc_table veh s ! k)) v = Inr (dc_verified (doc_table veh s' ! k)))"
  by (cases veh) (auto simp: approveDoc_def decided_def approve_write_def doc_table_def with_doc_def split: sum.splits if_splits)

lemma reject_iff:
  "rejectDoc sync veh today now k why (Some u) s = (x, s') \<Longrightarrow> k < length (doc_table veh s) \<Longrightarrow>
     (x = Inr () \<longleftrightarrow> same_version u (doc_table veh s ! k) \<and> 10 \<le> length why) \<and> (x \<noteq> Inr () \<longrightarrow> s' = s)
     \<and> (x = Inr () \<longrightarrow> dc_file (doc_table veh s' ! k) = dc_file (doc_table veh s ! k) \<and> dc_status (doc_table veh s' ! k) = DocRejected
         \<and> dc_note (doc_table veh s' ! k) = Some why)"
  by (cases veh) (auto simp: rejectDoc_def decided_def reject_write_def doc_table_def with_doc_def split: if_splits)

text \<open>A version that was shown is the current one, or is recognised as old.\<close>

lemma shown_version:
  assumes "shown_ok docs (k, u, addr)"
  shows "k < length docs \<and> (same_version u (docs ! k) \<longleftrightarrow> dc_updated (docs ! k) = u) \<and> (dc_updated (docs ! k) = u \<longrightarrow> dc_file (docs ! k) = addr)"
  using assms by (auto simp: shown_ok_def same_version_def)

text \<open>
  C19. A review decides the file that was seen. Over every interleaving of uploads, reviews, corrections and the rest, an approval or a rejection
  by an administrator who was shown a version of a document takes effect exactly if nobody has replaced or decided it since (and the
  expiry, or the reason, is valid), and then it is about the file that was shown. Otherwise nothing changes. All the time a driver has one row per kind of document, an
  approved row has its verified expiry exactly if its kind has one, and neither a plate nor a driver has two vehicles in service.
\<close>

theorem review_decides_the_file_seen:
  assumes run: "review_step\<^sup>*\<^sup>* \<lparr>rw_db = s0, rw_now = t0, rw_shown = []\<rparr> w" and start: "ds_docs s0 = []" "ds_vdocs s0 = []" "ds_vehicles s0 = []"
    and shown: "(veh, k, u, addr) \<in> set (rw_shown w)"
  shows "docs_ok (rw_now w) (ds_docs (rw_db w)) \<and> docs_ok (rw_now w) (ds_vdocs (rw_db w)) \<and> vehicles_ok (ds_vehicles (rw_db w))
    \<and> (\<forall>sync ist today now v x s. approveDoc sync veh ist today now k v (Some u) (rw_db w) = (x, s) \<longrightarrow>
         (x = Inr () \<longleftrightarrow> dc_updated (doc_table veh (rw_db w) ! k) = u \<and> (\<exists>e. validateVerifiedExpiry ist (dc_type (doc_table veh (rw_db w) ! k)) v = Inr e))
         \<and> (x \<noteq> Inr () \<longrightarrow> s = rw_db w) \<and> (x = Inr () \<longrightarrow> dc_file (doc_table veh s ! k) = addr \<and> dc_status (doc_table veh s ! k) = DocApproved))
    \<and> (\<forall>sync today now why x s. rejectDoc sync veh today now k why (Some u) (rw_db w) = (x, s) \<longrightarrow>
         (x = Inr () \<longleftrightarrow> dc_updated (doc_table veh (rw_db w) ! k) = u \<and> 10 \<le> length why)
         \<and> (x \<noteq> Inr () \<longrightarrow> s = rw_db w) \<and> (x = Inr () \<longrightarrow> dc_file (doc_table veh s ! k) = addr \<and> dc_status (doc_table veh s ! k) = DocRejected))"
proof -
  have inv: "review_inv w"
    using run
  proof (induction rule: rtranclp_induct)
    case base
    show ?case by (simp add: review_inv_def start docs_ok_def vehicles_ok_def)
  qed (rule review_step_inv)
  then have "shown_ok (doc_table veh (rw_db w)) (k, u, addr)" using shown by (auto simp: review_inv_def)
  note v = shown_version [OF this]
  then have k: "k < length (doc_table veh (rw_db w))" by blast
  have "(x = Inr () \<longleftrightarrow> dc_updated (doc_table veh (rw_db w) ! k) = u \<and> (\<exists>e. validateVerifiedExpiry ist (dc_type (doc_table veh (rw_db w) ! k)) v = Inr e))
      \<and> (x \<noteq> Inr () \<longrightarrow> s = rw_db w) \<and> (x = Inr () \<longrightarrow> dc_file (doc_table veh s ! k) = addr \<and> dc_status (doc_table veh s ! k) = DocApproved)"
    if "approveDoc sync veh ist today now k v (Some u) (rw_db w) = (x, s)" for sync ist today now v x s
    using approve_iff [OF that k] v by metis
  moreover have "(x = Inr () \<longleftrightarrow> dc_updated (doc_table veh (rw_db w) ! k) = u \<and> 10 \<le> length why)
      \<and> (x \<noteq> Inr () \<longrightarrow> s = rw_db w) \<and> (x = Inr () \<longrightarrow> dc_file (doc_table veh s ! k) = addr \<and> dc_status (doc_table veh s ! k) = DocRejected)"
    if "rejectDoc sync veh today now k why (Some u) (rw_db w) = (x, s)" for sync today now why x s
    using reject_iff [OF that k] v by metis
  ultimately show ?thesis using inv unfolding review_inv_def by blast
qed

subsection \<open>The standing follows the documents\<close>

lemma status_simps [simp]:
  "driver_status j (with_info d f s) = driver_status j s" "driver_status j (createStatusHistory d a b why s) = driver_status j s"
  "driver_status j (end_sessions d why s) = driver_status j s" "driver_status j (activatePendingPrimaryVehicle d s) = driver_status j s"
  "driver_status j (with_doc veh k g s) = driver_status j s"
  "exists_driver d s \<Longrightarrow> driver_status j (with_status d st s) = (if j = d then st else driver_status j s)"
  by (simp_all add: driver_status_def with_info_def createStatusHistory_def end_sessions_def activatePendingPrimaryVehicle_def with_doc_def with_status_def exists_driver_def nth_list_update)

lemma issue_same:
  assumes "ds_docs s' = ds_docs s" "ds_vdocs s' = ds_vdocs s" "length (ds_vehicles s') = length (ds_vehicles s)"
    "\<And>k. k < length (ds_vehicles s) \<Longrightarrow> vh_driver (ds_vehicles s' ! k) = vh_driver (ds_vehicles s ! k) \<and> vh_primary (ds_vehicles s' ! k) = vh_primary (ds_vehicles s ! k)"
  shows "docIssueExists today d s' = docIssueExists today d s"
proof -
  have "primary_of d s' = primary_of d s" using assms(3,4) by (auto simp: primary_of_def fun_eq_iff)
  then show ?thesis by (simp add: docIssueExists_def assms(1-3))
qed

lemma sync_issue [simp]: "docIssueExists today d (syncDriverStatusAfterDocChange now j s) = docIssueExists today d s"
  by (rule issue_same) (auto simp: syncDriverStatusAfterDocChange_def activatePendingPrimaryVehicle_def with_status_def with_info_def createStatusHistory_def end_sessions_def)

definition sessions_of :: "dossier \<Rightarrow> session list" where
  "sessions_of s = sessions (op_rides (au_ops (ds_auth s)))"

lemma sync_status:
  assumes "exists_driver d s"
  shows "driver_status j (syncDriverStatusAfterDocChange today d s) =
      (if j = d \<and> driver_status d s \<in> {AccountActive, DocsRejected} then (if docIssueExists today d s then DocsRejected else AccountActive) else driver_status j s)"
  using assms by (simp add: syncDriverStatusAfterDocChange_def hasApprovedRequiredDocs_def)

lemma end_sessions_off:
  assumes "x \<in> set (sessions_of (end_sessions d why s))" "se_driver x = d"
  shows "se_status x \<noteq> OnlineSession"
proof -
  let ?f = "\<lambda>y. if se_driver y = d \<and> se_status y = OnlineSession then y\<lparr>se_status := OfflineSession, se_reason := Some why\<rparr> else y"
  have "sessions_of (end_sessions d why s) = map ?f (sessions_of s)"
    by (simp add: sessions_of_def end_sessions_def op_rides_def set_world_def)
  then have "x \<in> ?f ` set (sessions_of s)" using assms(1) by simp
  then obtain y where "x = ?f y" by (rule imageE)
  then show ?thesis using assms(2) by (cases "se_driver y = d \<and> se_status y = OnlineSession") simp_all
qed

lemma sync_sessions:
  assumes "exists_driver d s" "driver_status d s = AccountActive" "docIssueExists today d s"
    "x \<in> set (sessions_of (syncDriverStatusAfterDocChange today d s))" "se_driver x = d"
  shows "se_status x \<noteq> OnlineSession"
proof -
  have "\<exists>s1. syncDriverStatusAfterDocChange today d s = end_sessions d ''docs_revoked'' s1"
    using assms(1-3) by (simp add: syncDriverStatusAfterDocChange_def hasApprovedRequiredDocs_def) blast
  then show ?thesis using end_sessions_off assms(4,5) by metis
qed

lemma activated:
  assumes "v \<in> set (ds_vehicles (activatePendingPrimaryVehicle d s))" "vh_driver v = d" "vh_primary v"
  shows "vh_status v \<noteq> VehiclePending"
proof -
  let ?f = "\<lambda>y. if vh_driver y = d \<and> vh_primary y \<and> vh_status y = VehiclePending then y\<lparr>vh_status := VehicleActive\<rparr> else y"
  have "v \<in> ?f ` set (ds_vehicles s)" using assms(1) by (simp add: activatePendingPrimaryVehicle_def)
  then obtain y where y: "v = ?f y" by (rule imageE)
  then show ?thesis using assms(2,3) by (cases "vh_driver y = d \<and> vh_primary y \<and> vh_status y = VehiclePending") simp_all
qed

lemma sync_activates:
  assumes "exists_driver d s" "driver_status d s = DocsRejected" "\<not> docIssueExists today d s"
    "v \<in> set (ds_vehicles (syncDriverStatusAfterDocChange today d s))" "vh_driver v = d" "vh_primary v"
  shows "vh_status v \<noteq> VehiclePending"
proof -
  have "ds_vehicles (syncDriverStatusAfterDocChange today d s) = ds_vehicles (activatePendingPrimaryVehicle d (with_status d AccountActive s))"
    using assms(1-3) by (simp add: syncDriverStatusAfterDocChange_def hasApprovedRequiredDocs_def)
  then show ?thesis using activated assms(4-6) by metis
qed

text \<open>What a decision leaves of the driver: only the table of documents differs before the standing is looked at.\<close>

lemma decision_state:
  assumes "approveDoc sync veh ist today now k v seen s = (Inr (), s') \<or> rejectDoc sync veh today now k why seen s = (Inr (), s')
      \<or> updateDocExpiry sync veh ist today now k v seen s = (Inr (), s')"
  obtains f where "s' = (if sync then syncDriverStatusAfterDocChange today (driver_of_doc veh k s) (with_doc veh k f s) else with_doc veh k f s)"
proof -
  have own: "driver_of_doc veh k (with_doc veh k f s) = driver_of_doc veh k s" if "\<And>x. dc_owner (f x) = dc_owner x" for f
    using that by (cases "k < length (doc_table veh s)") (auto simp: driver_of_doc_def with_doc_def doc_table_def list_update_beyond)
  show ?thesis using assms
  proof (elim disjE)
    assume "approveDoc sync veh ist today now k v seen s = (Inr (), s')"
    then show ?thesis by (auto simp: approveDoc_def decided_def approve_write_def own split: if_splits sum.splits option.splits intro: that)
  next
    assume "rejectDoc sync veh today now k why seen s = (Inr (), s')"
    then show ?thesis by (auto simp: rejectDoc_def decided_def reject_write_def own split: if_splits option.splits intro: that)
  next
    assume "updateDocExpiry sync veh ist today now k v seen s = (Inr (), s')"
    then show ?thesis by (auto simp: updateDocExpiry_def decided_def expiry_write_def own split: if_splits sum.splits option.splits intro: that)
  qed
qed

text \<open>
  C21. The standing follows the documents. After a review or correction that took effect, an active driver whose document it was is stopped exactly if a document is now rejected,
  expired or (if required) undecided, and then is off line; a driver stopped for documents stays stopped while one of them is, and is active again, with no vehicle waiting for
  approval, when none is and every required document is approved; every other standing, and every
  other driver's, is left alone. If bringing the standing up to date failed after the decision, no driver's standing, session or vehicle has changed. (What the code does for a stopped
  driver with required documents missing is \<open>reapproval_without_documents\<close> below.)
\<close>

theorem standing_follows_documents:
  assumes "approveDoc sync veh ist today now k v seen s = (Inr (), s') \<or> rejectDoc sync veh today now k why seen s = (Inr (), s')
      \<or> updateDocExpiry sync veh ist today now k v seen s = (Inr (), s')"
    and d: "d = driver_of_doc veh k s" "exists_driver d s"
  shows "(\<forall>j. j \<noteq> d \<longrightarrow> driver_status j s' = driver_status j s)
    \<and> (\<not> sync \<longrightarrow> driver_status d s' = driver_status d s \<and> sessions_of s' = sessions_of s \<and> ds_vehicles s' = ds_vehicles s)
    \<and> (sync \<and> driver_status d s = AccountActive \<longrightarrow> driver_status d s' = (if docIssueExists today d s' then DocsRejected else AccountActive)
         \<and> (docIssueExists today d s' \<longrightarrow> (\<forall>x \<in> set (sessions_of s'). se_driver x = d \<longrightarrow> se_status x \<noteq> OnlineSession)))
    \<and> (sync \<and> driver_status d s = DocsRejected \<longrightarrow> (docIssueExists today d s' \<longrightarrow> driver_status d s' = DocsRejected)
         \<and> (\<not> docIssueExists today d s' \<and> hasAllRequiredDocsApproved d s' \<longrightarrow> driver_status d s' = AccountActive
              \<and> (\<forall>x \<in> set (ds_vehicles s'). vh_driver x = d \<and> vh_primary x \<longrightarrow> vh_status x \<noteq> VehiclePending)))
    \<and> (driver_status d s \<notin> {AccountActive, DocsRejected} \<longrightarrow> driver_status d s' = driver_status d s)"
proof -
  obtain f where s': "s' = (if sync then syncDriverStatusAfterDocChange today d (with_doc veh k f s) else with_doc veh k f s)"
    using decision_state [OF assms(1)] unfolding d(1) by blast
  let ?s1 = "with_doc veh k f s"
  have e: "exists_driver d ?s1" using d(2) by (simp add: exists_driver_def with_doc_def)
  show ?thesis
  proof (cases sync)
    case False
    then show ?thesis by (simp add: s' sessions_of_def) (simp add: with_doc_def)
  next
    case True
    then have s': "s' = syncDriverStatusAfterDocChange today d ?s1" by (simp add: s')
    have st: "driver_status j s' = (if j = d \<and> driver_status d s \<in> {AccountActive, DocsRejected} then (if docIssueExists today d ?s1 then DocsRejected else AccountActive) else driver_status j s)" for j
      using sync_status [OF e, of j today] by (auto simp: s')
    have i: "docIssueExists today d s' = docIssueExists today d ?s1" by (simp add: s')
    have "se_status x \<noteq> OnlineSession" if "driver_status d s = AccountActive" "docIssueExists today d ?s1" "x \<in> set (sessions_of s')" "se_driver x = d" for x
      using sync_sessions [OF e, of today x] that by (simp add: s')
    moreover have "vh_status x \<noteq> VehiclePending" if "driver_status d s = DocsRejected" "\<not> docIssueExists today d ?s1" "x \<in> set (ds_vehicles s')" "vh_driver x = d" "vh_primary x" for x
      using sync_activates [OF e, of today x] that by (simp add: s')
    ultimately show ?thesis using st i True by simp
  qed
qed

subsection \<open>Every document before the first ride\<close>

lemma approved_count_all:
  assumes "distinct required"
  shows "approved_count required own docs = length required
    \<longleftrightarrow> (\<forall>t \<in> set required. \<exists>x \<in> set docs. own (dc_owner x) \<and> dc_type x = t \<and> dc_status x = DocApproved)"
proof -
  let ?A = "dc_type ` set (filter (\<lambda>x. own (dc_owner x) \<and> dc_status x = DocApproved \<and> dc_type x \<in> set required) docs)"
  have sub: "?A \<subseteq> set required" by auto
  have "approved_count required own docs = card ?A" by (simp add: approved_count_def length_remdups_card_conv)
  moreover have "length required = card (set required)" using assms by (simp add: distinct_card)
  ultimately have "approved_count required own docs = length required \<longleftrightarrow> ?A = set required"
    using card_subset_eq [OF _ sub] by auto
  also have "\<dots> \<longleftrightarrow> set required \<subseteq> ?A" using sub by blast
  finally show ?thesis by auto
qed

lemma checkDocuments_empty:
  "checkDocuments d s = [] \<longleftrightarrow> set REQUIRED_IDENTITY_DOCS \<subseteq> types_of d (ds_docs s) \<and> is_given (di_license (ds_info s d)) \<and> is_given (di_aadhaar (ds_info s d))
     \<and> (\<exists>k. findVehicleByDriverId d s = Some k \<and> set REQUIRED_VEHICLE_DOCS \<subseteq> types_of k (ds_vdocs s))"
  by (auto simp: checkDocuments_def filter_empty_conv REQUIRED_VEHICLE_DOCS_def split: option.splits)

lemma application_iff:
  assumes run: "submitApplication d s = (x, s')" and e: "exists_driver d s"
  shows "(x = Inr PendingApproval \<longleftrightarrow> isPersonalInfoComplete (ds_info s d) \<and> is_given (di_license (ds_info s d)) \<and> is_given (di_aadhaar (ds_info s d))
         \<and> (\<forall>t \<in> set REQUIRED_IDENTITY_DOCS. \<exists>x \<in> set (ds_docs s). dc_owner x = d \<and> dc_type x = t)
         \<and> (\<exists>k. findVehicleByDriverId d s = Some k \<and> (\<forall>t \<in> set REQUIRED_VEHICLE_DOCS. \<exists>x \<in> set (ds_vdocs s). dc_owner x = k \<and> dc_type x = t)))
    \<and> (x \<noteq> Inr PendingApproval \<longrightarrow> s' = s)
    \<and> (x = Inr PendingApproval \<longrightarrow> driver_status d s' = PendingApproval \<and> (\<forall>j. j \<noteq> d \<longrightarrow> driver_status j s' = driver_status j s)
         \<and> ds_docs s' = ds_docs s \<and> ds_vdocs s' = ds_vdocs s \<and> ds_vehicles s' = ds_vehicles s)"
proof -
  have sub: "set req \<subseteq> types_of i docs \<longleftrightarrow> (\<forall>t \<in> set req. \<exists>x \<in> set docs. dc_owner x = i \<and> dc_type x = t)" for req i docs
    by (auto simp: types_of_def)
  note c = checkDocuments_empty [of d s, unfolded sub]
  show ?thesis
  proof (cases "isPersonalInfoComplete (ds_info s d) \<and> checkDocuments d s = []")
    case True
    then have "x = Inr PendingApproval" "s' = submit_write d (driver_status d s) s" using run e by (simp_all add: submitApplication_def)
    then show ?thesis using True e unfolding c by (simp add: submit_write_def)
  next
    case False
    then have "x \<noteq> Inr PendingApproval" "s' = s" using run e by (auto simp: submitApplication_def split: if_splits)
    then show ?thesis using False unfolding c by blast
  qed
qed

lemma status_written:
  assumes run: "updateDriverStatus d current target why s = (Inr (), s')" and e: "exists_driver d s"
  obtains s4 where "\<And>j. driver_status j s4 = (if j = d then target else driver_status j s)"
    "s' = (if target = Suspended \<or> target = Banned then s4\<lparr>ds_auth := end_online d (status_text target) (ds_auth s4)\<rparr> else s4)"
    "au_ops (ds_auth s4) = au_ops (ds_auth s)"
    "target = AccountActive \<Longrightarrow> \<exists>s2. ds_vehicles s4 = ds_vehicles (activatePendingPrimaryVehicle d s2)"
proof -
  let ?s1 = "with_status d target s"
  let ?s2 = "if target = DocsRejected then with_info d (\<lambda>i. i\<lparr>di_step := DocumentsStep\<rparr>) ?s1 else ?s1"
  let ?s3 = "if target = AccountActive then activatePendingPrimaryVehicle d ?s2 else ?s2"
  let ?s4 = "createStatusHistory d current target why ?s3"
  have ops: "au_ops (ds_auth ?s4) = au_ops (ds_auth s)"
    by (simp add: createStatusHistory_def activatePendingPrimaryVehicle_def with_info_def with_status_def)
  have "s' = (if target = Suspended \<or> target = Banned then ?s4\<lparr>ds_auth := end_online d (status_text target) (ds_auth ?s4)\<rparr> else ?s4)"
    using run unfolding updateDriverStatus_def Let_def by (auto split: if_splits)
  moreover have "driver_status j ?s4 = (if j = d then target else driver_status j s)" for j using e by simp
  moreover have "\<exists>s2. ds_vehicles ?s4 = ds_vehicles (activatePendingPrimaryVehicle d s2)" if "target = AccountActive" using that by auto
  ultimately show ?thesis using ops that by blast
qed

lemma ruling:
  assumes run: "updateDriverStatus d current target why s = (Inr (), s')" and e: "exists_driver d s"
  shows "driver_status d s' = target \<and> (\<forall>j. j \<noteq> d \<longrightarrow> driver_status j s' = driver_status j s)"
    "target = AccountActive \<Longrightarrow> current \<noteq> AccountActive \<Longrightarrow> hasAllRequiredDocsApproved d s"
    "target = AccountActive \<Longrightarrow> v \<in> set (ds_vehicles s') \<Longrightarrow> vh_driver v = d \<Longrightarrow> vh_primary v \<Longrightarrow> vh_status v \<noteq> VehiclePending"
    "target = Suspended \<or> target = Banned \<Longrightarrow> getActiveSession d (op_rides (au_ops (ds_auth s))) = Some (k, x) \<Longrightarrow> se_status x = OnlineSession
       \<Longrightarrow> se_status (sessions_of s' ! k) = OfflineSession"
proof -
  obtain s4 where s4: "\<And>j. driver_status j s4 = (if j = d then target else driver_status j s)"
    "s' = (if target = Suspended \<or> target = Banned then s4\<lparr>ds_auth := end_online d (status_text target) (ds_auth s4)\<rparr> else s4)"
    "au_ops (ds_auth s4) = au_ops (ds_auth s)" "target = AccountActive \<Longrightarrow> \<exists>s2. ds_vehicles s4 = ds_vehicles (activatePendingPrimaryVehicle d s2)"
    using status_written [OF run e] by blast
  have "au_drivers (end_online d why' a) = au_drivers a" for why' a by (simp add: end_online_def Let_def)
  then have "driver_status j s' = driver_status j s4" for j by (simp add: s4(2) driver_status_def)
  then show "driver_status d s' = target \<and> (\<forall>j. j \<noteq> d \<longrightarrow> driver_status j s' = driver_status j s)" using s4(1) by simp
  show "hasAllRequiredDocsApproved d s" if "target = AccountActive" "current \<noteq> AccountActive"
    using run that unfolding updateDriverStatus_def by (auto split: if_splits)
  show "vh_status v \<noteq> VehiclePending" if "target = AccountActive" "v \<in> set (ds_vehicles s')" "vh_driver v = d" "vh_primary v"
    using s4(2) s4(4) [OF that(1)] that activated [of v d] by auto
  show "se_status (sessions_of s' ! k) = OfflineSession"
    if "target = Suspended \<or> target = Banned" "getActiveSession d (op_rides (au_ops (ds_auth s))) = Some (k, x)" "se_status x = OnlineSession"
  proof -
    have k: "k < length (sessions (op_rides (au_ops (ds_auth s))))" using that(2) by (auto simp: getActiveSession_def find_Some_iff)
    show ?thesis using that(1,3) k by (simp add: s4(2,3) sessions_of_def end_online_def Let_def that(2) that(2) [unfolded op_rides_def] goOffline_def set_rides_def set_world_def op_rides_def
        set_available_def endSession_def)
  qed
qed

text \<open>
  No driver starts without papers. An application is accepted exactly when the personal details are complete, both numbers are given and a file of every
  required document is there, for the driver and the vehicle; it changes nothing else, and a refusal nothing at all. An administrator's ruling makes a driver
  active who was not so only if every required document is approved; it then approves the vehicle, and a suspended or banned driver has no session that waits for rides.
\<close>

theorem no_start_without_papers:
  assumes "exists_driver d s"
  shows "(\<forall>x s'. submitApplication d s = (x, s') \<longrightarrow>
      (x = Inr PendingApproval \<longleftrightarrow> isPersonalInfoComplete (ds_info s d) \<and> is_given (di_license (ds_info s d)) \<and> is_given (di_aadhaar (ds_info s d))
         \<and> (\<forall>t \<in> set REQUIRED_IDENTITY_DOCS. \<exists>x \<in> set (ds_docs s). dc_owner x = d \<and> dc_type x = t)
         \<and> (\<exists>k. findVehicleByDriverId d s = Some k \<and> (\<forall>t \<in> set REQUIRED_VEHICLE_DOCS. \<exists>x \<in> set (ds_vdocs s). dc_owner x = k \<and> dc_type x = t)))
      \<and> (x \<noteq> Inr PendingApproval \<longrightarrow> s' = s)
      \<and> (x = Inr PendingApproval \<longrightarrow> driver_status d s' = PendingApproval \<and> (\<forall>j. j \<noteq> d \<longrightarrow> driver_status j s' = driver_status j s) \<and> ds_docs s' = ds_docs s \<and> ds_vdocs s' = ds_vdocs s \<and> ds_vehicles s' = ds_vehicles s))
    \<and> (\<forall>current target why s'. updateDriverStatus d current target why s = (Inr (), s') \<longrightarrow>
      driver_status d s' = target \<and> (\<forall>j. j \<noteq> d \<longrightarrow> driver_status j s' = driver_status j s)
      \<and> (target = AccountActive \<and> current \<noteq> AccountActive \<longrightarrow>
           (\<forall>t \<in> set REQUIRED_IDENTITY_DOCS. \<exists>x \<in> set (ds_docs s). dc_owner x = d \<and> dc_type x = t \<and> dc_status x = DocApproved)
           \<and> (\<forall>t \<in> set REQUIRED_VEHICLE_DOCS. \<exists>x \<in> set (ds_vdocs s). primary_of d s (dc_owner x) \<and> dc_type x = t \<and> dc_status x = DocApproved)
           \<and> (\<forall>v \<in> set (ds_vehicles s'). vh_driver v = d \<and> vh_primary v \<longrightarrow> vh_status v \<noteq> VehiclePending))
      \<and> (target = Suspended \<or> target = Banned \<longrightarrow>
           (\<forall>k x. getActiveSession d (op_rides (au_ops (ds_auth s))) = Some (k, x) \<and> se_status x = OnlineSession \<longrightarrow> se_status (sessions_of s' ! k) = OfflineSession)))"
proof -
  have "driver_status d s' = target \<and> (\<forall>j. j \<noteq> d \<longrightarrow> driver_status j s' = driver_status j s)
      \<and> (target = AccountActive \<and> current \<noteq> AccountActive \<longrightarrow>
           (\<forall>t \<in> set REQUIRED_IDENTITY_DOCS. \<exists>x \<in> set (ds_docs s). dc_owner x = d \<and> dc_type x = t \<and> dc_status x = DocApproved)
           \<and> (\<forall>t \<in> set REQUIRED_VEHICLE_DOCS. \<exists>x \<in> set (ds_vdocs s). primary_of d s (dc_owner x) \<and> dc_type x = t \<and> dc_status x = DocApproved)
           \<and> (\<forall>v \<in> set (ds_vehicles s'). vh_driver v = d \<and> vh_primary v \<longrightarrow> vh_status v \<noteq> VehiclePending))
      \<and> (target = Suspended \<or> target = Banned \<longrightarrow>
           (\<forall>k x. getActiveSession d (op_rides (au_ops (ds_auth s))) = Some (k, x) \<and> se_status x = OnlineSession \<longrightarrow> se_status (sessions_of s' ! k) = OfflineSession))"
    if run: "updateDriverStatus d current target why s = (Inr (), s')" for current target why s'
  proof -
    note r = ruling [OF run assms]
    have "distinct REQUIRED_IDENTITY_DOCS" "distinct REQUIRED_VEHICLE_DOCS" by (simp_all add: REQUIRED_IDENTITY_DOCS_def REQUIRED_VEHICLE_DOCS_def)
    note all = r(2) [unfolded hasAllRequiredDocsApproved_def this [THEN approved_count_all]]
    show ?thesis using r(1) all r(3,4) by blast
  qed
  then show ?thesis using application_iff [OF _ assms] by blast
qed

lemma createSession_Inr:
  "createSession d v c m db = (Inr k, db') \<Longrightarrow> k = length (sessions db) \<and> sessions db' = sessions db @
     [\<lparr>se_driver = d, se_vehicle = v, se_category = c, se_mode = m, se_status = OnlineSession, se_trips = 0, se_reason = None\<rparr>]
     \<and> (\<forall>x \<in> set (sessions db). se_driver x = d \<longrightarrow> \<not> active x)"
  by (auto simp: createSession_def list_ex_iff split: if_splits)

lemma goOnline_session:
  assumes run: "goOnline e d req seen s = (Inr k, s')"
  obtains c where "online_gates e d req (w_drivers (tp_world (op_trip s))) = Inr c" "k = length (sessions (op_rides s)) \<or> seen \<noteq> None"
    "\<exists>old. sessions (op_rides s') = old @ [\<lparr>se_driver = d, se_vehicle = on_vehicle req, se_category = c, se_mode = on_mode req, se_status = OnlineSession, se_trips = 0, se_reason = None\<rparr>]
       \<and> k = length old \<and> (\<forall>x \<in> set old. se_driver x = d \<longrightarrow> \<not> active x)"
proof -
  obtain c where c: "online_gates e d req (w_drivers (tp_world (op_trip s))) = Inr c" using run by (auto simp: goOnline_def split: sum.splits)
  let ?db = "case seen of Some (k, x) \<Rightarrow> endSession k ''reconnected'' (op_rides s) | None \<Rightarrow> op_rides s"
  obtain y db1 where y: "createSession d (on_vehicle req) c (on_mode req) ?db = (y, db1)" by (cases "createSession d (on_vehicle req) c (on_mode req) ?db")
  then have r: "y = Inr k" "s' = set_rides (db1\<lparr>available := (available db1)(d \<mapsto> True)\<rparr>) s"
    using run c by (auto simp: goOnline_def Let_def split: if_splits sum.splits)
  note cs = createSession_Inr [OF y [unfolded r(1)]]
  have "sessions (op_rides s') = sessions db1" by (simp add: r(2) set_rides_def set_world_def op_rides_def)
  then show ?thesis using that [OF c] cs by (cases seen) auto
qed

text \<open>
  C20. Only a cleared driver goes on line. A driver gets a session only while active, or within twenty seconds of the moment the principal cache was filled with a driver
  who was; and after today's selfie and plate; none of the driver's documents nor of the primary vehicle's is rejected, none that
  is approved has expired, and none that is required is undecided. The vehicle is the driver's own and in service, the
  session's category is the vehicle's whatever was asked for, and the driver has no other session in use.
\<close>

theorem only_cleared_drivers_go_online:
  assumes run: "go_online now cache ist today mode minimum d req s = (Inr k, s')"
  shows "(driver_status d s = AccountActive \<or> (\<exists>t. cache = Some (t, AccountActive) \<and> now < t + 20000))
    \<and> (\<exists>c \<in> set (ds_checks s). ck_driver c = d \<and> ck_day c = ist \<and> ck_vehicle c = None) \<and> (\<exists>c \<in> set (ds_checks s). ck_driver c = d \<and> ck_day c = ist \<and> ck_vehicle c \<noteq> None)
    \<and> (\<forall>x \<in> set (ds_docs s). dc_owner x = d \<longrightarrow> dc_status x \<noteq> DocRejected \<and> (dc_status x = DocPending \<longrightarrow> dc_type x \<notin> set REQUIRED_IDENTITY_DOCS)
         \<and> (\<forall>v. dc_status x = DocApproved \<and> dc_verified x = Some v \<longrightarrow> today \<le> v))
    \<and> (\<forall>x \<in> set (ds_vdocs s). primary_of d s (dc_owner x) \<longrightarrow> dc_status x \<noteq> DocRejected \<and> (dc_status x = DocPending \<longrightarrow> dc_type x \<notin> set REQUIRED_VEHICLE_DOCS)
         \<and> (\<forall>v. dc_status x = DocApproved \<and> dc_verified x = Some v \<longrightarrow> today \<le> v))
    \<and> (\<exists>city m. di_city_id (ds_info s d) = Some city \<and> mode city = Some m)
    \<and> on_vehicle req < length (ds_vehicles s) \<and> vh_driver (ds_vehicles s ! on_vehicle req) = d \<and> vh_status (ds_vehicles s ! on_vehicle req) = VehicleActive
    \<and> (\<exists>c old. vs_category (vh_spec (ds_vehicles s ! on_vehicle req)) = Some c \<and> k = length old \<and> (\<forall>x \<in> set old. se_driver x = d \<longrightarrow> \<not> active x)
         \<and> sessions_of s' = old @ [\<lparr>se_driver = d, se_vehicle = on_vehicle req, se_category = c, se_mode = on_mode req, se_status = OnlineSession, se_trips = 0, se_reason = None\<rparr>])"
proof -
  let ?e = "gates_of ist today mode minimum d s"
  have p: "principal_status now cache (driver_status d s) = AccountActive" using run by (auto simp: go_online_def canTakeWork_def guard_err_def split: if_splits)
  have act: "driver_status d s = AccountActive \<or> (\<exists>t. cache = Some (t, AccountActive) \<and> now < t + 20000)"
    using p by (auto simp: principal_status_def PRINCIPAL_CACHE_TTL_SEC_def split: option.splits if_splits)
  from p obtain o1 where o1: "goOnline ?e d req (getActiveSession d (op_rides (au_ops (ds_auth s)))) (au_ops (ds_auth s)) = (Inr k, o1)"
    and s': "s' = s\<lparr>ds_auth := (ds_auth s)\<lparr>au_ops := o1\<rparr>\<rparr>"
    using run by (auto simp: go_online_def canTakeWork_def split: prod.splits)
  obtain c old where c: "online_gates ?e d req (w_drivers (tp_world (op_trip (au_ops (ds_auth s))))) = Inr c" "k = length old" "\<forall>x \<in> set old. se_driver x = d \<longrightarrow> \<not> active x"
    "sessions (op_rides o1) = old @ [\<lparr>se_driver = d, se_vehicle = on_vehicle req, se_category = c, se_mode = on_mode req, se_status = OnlineSession, se_trips = 0, se_reason = None\<rparr>]"
    by (rule goOnline_session [OF o1]) blast
  have ver: "og_verified ?e" and docs: "og_documents ?e" and city: "og_mode ?e \<noteq> None" and veh: "og_vehicles ?e (on_vehicle req) = Some (Some c)"
    using c(1) unfolding online_gates_def by (auto split: option.splits)
  have checks: "(\<exists>c \<in> set (ds_checks s). ck_driver c = d \<and> ck_day c = ist \<and> ck_vehicle c = None) \<and> (\<exists>c \<in> set (ds_checks s). ck_driver c = d \<and> ck_day c = ist \<and> ck_vehicle c \<noteq> None)"
    using ver by (simp add: gates_of_def getTodayStatus_def list_ex_iff)
  have papers: "\<not> docIssueExists today d s" using docs by (simp add: gates_of_def hasApprovedRequiredDocs_def)
  have fine: "dc_status x \<noteq> DocRejected \<and> (dc_status x = DocPending \<longrightarrow> dc_type x \<notin> set req') \<and> (\<forall>v. dc_status x = DocApproved \<and> dc_verified x = Some v \<longrightarrow> today \<le> v)"
    if "\<not> doc_issue today req' x" for x req' using that by (auto simp: doc_issue_def)
  have own: "on_vehicle req < length (ds_vehicles s) \<and> vh_driver (ds_vehicles s ! on_vehicle req) = d \<and> vh_status (ds_vehicles s ! on_vehicle req) = VehicleActive
      \<and> vs_category (vh_spec (ds_vehicles s ! on_vehicle req)) = Some c"
    using veh by (auto simp: gates_of_def split: if_splits)
  have "\<exists>city m. di_city_id (ds_info s d) = Some city \<and> mode city = Some m" using city by (cases "di_city_id (ds_info s d)") (auto simp: gates_of_def)
  moreover have "\<forall>x \<in> set (ds_docs s). dc_owner x = d \<longrightarrow> \<not> doc_issue today REQUIRED_IDENTITY_DOCS x"
    "\<forall>x \<in> set (ds_vdocs s). primary_of d s (dc_owner x) \<longrightarrow> \<not> doc_issue today REQUIRED_VEHICLE_DOCS x"
    using papers by (auto simp: docIssueExists_def list_ex_iff)
  moreover have "sessions_of s' = old @ [\<lparr>se_driver = d, se_vehicle = on_vehicle req, se_category = c, se_mode = on_mode req, se_status = OnlineSession, se_trips = 0, se_reason = None\<rparr>]"
    using c(4) by (simp add: sessions_of_def s')
  ultimately show ?thesis using act checks own c(2,3) fine by blast
qed

subsection \<open>Examples\<close>

definition demo_info :: driver_info where
  "demo_info = \<lparr>di_full_name = Some ''A'', di_email = None, di_gender = Some ''other'', di_birth = Some ''1990-01-01'', di_address = Some ''Main Road 1'',
     di_state = Some ''Odisha'', di_city = Some ''Puri'', di_pincode = Some ''752001'', di_experience = Some 3, di_emergency = Some ''2'',
     di_languages = [''Odia''], di_city_id = Some 7, di_license = Some ''OD'', di_aadhaar = Some ''1'', di_selfie = None, di_step = DocumentsStep\<rparr>"

definition demo_dossier :: dossier where
  "demo_dossier = \<lparr>ds_auth = demo_auth, ds_info = (\<lambda>_. demo_info), ds_vehicles = [], ds_docs = [], ds_vdocs = [], ds_standing = [], ds_checks = []\<rparr>"

definition demo_doc :: "doc_type \<Rightarrow> doc_status \<Rightarrow> doc" where
  "demo_doc t st = \<lparr>dc_owner = 0, dc_type = t, dc_file = ''f'', dc_from = None, dc_number = None, dc_claimed = None, dc_verified = None, dc_status = st,
     dc_note = None, dc_rejections = 0, dc_updated = 1000\<rparr>"

definition demo_vehicle :: vehicle where
  "demo_vehicle = \<lparr>vh_driver = 0, vh_spec = \<lparr>vs_category = Some 2, vs_brand = None, vs_model = None, vs_name = ''Car'', vs_year = 2020, vs_plate = Some ''OD01A0001'',
     vs_color = ''White'', vs_fuel = ''petrol'', vs_seats = 4, vs_luggage = 1, vs_ac = True, vs_registered = None\<rparr>, vh_status = VehicleActive, vh_primary = True\<rparr>"

lemma demo_exists: "exists_driver 0 (demo_dossier\<lparr>ds_docs := xs, ds_vdocs := ys, ds_vehicles := vs, ds_checks := cs\<rparr>)" "exists_driver 0 demo_dossier"
  by (simp_all add: exists_driver_def demo_dossier_def demo_auth_def)

text \<open>A license is uploaded, shown and approved.\<close>

lemma review_decides_the_file_seen_witness:
  "\<exists>w s. review_step\<^sup>*\<^sup>* \<lparr>rw_db = demo_dossier, rw_now = 0, rw_shown = []\<rparr> w \<and> (False, 0, 1000, ''f'') \<in> set (rw_shown w)
     \<and> approveDoc True False 10 10 2000 0 (Some 20) (Some 1000) (rw_db w) = (Inr (), s) \<and> dc_file (doc_table False s ! 0) = ''f'' \<and> dc_status (doc_table False s ! 0) = DocApproved"
proof -
  let ?s1 = "demo_dossier\<lparr>ds_docs := [demo_doc DrivingLicenseFront DocPending]\<rparr>"
  let ?w0 = "\<lparr>rw_db = demo_dossier, rw_now = 0, rw_shown = []\<rparr>"
  let ?w1 = "\<lparr>rw_db = ?s1, rw_now = 1000, rw_shown = []\<rparr>"
  let ?w2 = "\<lparr>rw_db = ?s1, rw_now = 1000, rw_shown = [(False, 0, 1000, ''f'')]\<rparr>"
  have tables: "ds_docs demo_dossier = []" "ds_vdocs demo_dossier = []" "ds_vehicles demo_dossier = []" by (simp_all add: demo_dossier_def)
  have "completeDriverDocumentUpload 1000 (\<lambda>_. ''f'') 0 (pending_prefix 0) DrivingLicenseFront None None demo_dossier = (Inr ''f'', ?s1)"
    by (simp add: completeDriverDocumentUpload_def assertKeyBelongsToDriver_def demo_exists upsert_doc_def tables demo_doc_def Let_def)
  then have "review_step ?w0 ?w1"
    using review_step.uploading [of 1000 ?w0 "\<lambda>_. ''f''" 0 "pending_prefix 0" DrivingLicenseFront None None "Inr ''f''" ?s1] by (simp add: later_def wrote_def)
  moreover have "review_step ?w1 ?w2" using review_step.showing [of 0 False ?w1] by (simp add: doc_table_def demo_doc_def)
  ultimately have run: "review_step\<^sup>*\<^sup>* ?w0 ?w2" by (rule rtranclp_trans [OF r_into_rtranclp r_into_rtranclp])
  obtain x s where x: "approveDoc True False 10 10 2000 0 (Some 20) (Some 1000) ?s1 = (x, s)" by (cases "approveDoc True False 10 10 2000 0 (Some 20) (Some 1000) ?s1")
  have "(x = Inr () \<longleftrightarrow> dc_updated (doc_table False ?s1 ! 0) = 1000 \<and> (\<exists>e. validateVerifiedExpiry 10 (dc_type (doc_table False ?s1 ! 0)) (Some 20) = Inr e))
      \<and> (x = Inr () \<longrightarrow> dc_file (doc_table False s ! 0) = ''f'' \<and> dc_status (doc_table False s ! 0) = DocApproved)"
    using review_decides_the_file_seen [OF run tables, of False 0 1000 "''f''"] x by simp
  moreover have "dc_updated (doc_table False ?s1 ! 0) = 1000" "validateVerifiedExpiry 10 (dc_type (doc_table False ?s1 ! 0)) (Some 20) = Inr (Some 20)"
    by (simp_all add: doc_table_def demo_doc_def validateVerifiedExpiry_def NO_EXPIRY_DOC_TYPES_def)
  ultimately have "x = Inr ()" "dc_file (doc_table False s ! 0) = ''f''" "dc_status (doc_table False s ! 0) = DocApproved" by simp_all
  then show ?thesis using run x by (intro exI [of _ ?w2] exI [of _ s]) simp
qed

text \<open>Rejecting an active driver's license stops the driver.\<close>

lemma standing_follows_documents_witness:
  "\<exists>s'. rejectDoc True False 10 2000 0 ''unreadable'' (Some 1000) (demo_dossier\<lparr>ds_docs := [demo_doc DrivingLicenseFront DocApproved]\<rparr>) = (Inr (), s') \<and> driver_status 0 s' = DocsRejected"
proof -
  let ?s = "demo_dossier\<lparr>ds_docs := [demo_doc DrivingLicenseFront DocApproved]\<rparr>"
  obtain s' where run: "rejectDoc True False 10 2000 0 ''unreadable'' (Some 1000) ?s = (Inr (), s')"
    by (simp add: rejectDoc_def decided_def reject_write_def doc_table_def same_version_def demo_doc_def)
  have f: "0 = driver_of_doc False 0 ?s" "exists_driver 0 ?s" "driver_status 0 ?s = AccountActive"
    by (simp_all add: driver_of_doc_def demo_doc_def exists_driver_def demo_dossier_def demo_auth_def driver_status_def)
  have "driver_status 0 s' = (if docIssueExists 10 0 s' then DocsRejected else AccountActive)"
    using standing_follows_documents [OF disjI2 [OF disjI1 [OF run]] f(1,2), THEN conjunct2, THEN conjunct2, THEN conjunct1] f(3) by simp
  moreover have "dc_status (ds_docs s' ! 0) = DocRejected" "dc_owner (ds_docs s' ! 0) = 0" "length (ds_docs s') = 1"
    using run by (auto simp: rejectDoc_def decided_def reject_write_def doc_table_def same_version_def demo_doc_def with_doc_def)
  then have "docIssueExists 10 0 s'" by (cases "ds_docs s'") (auto simp: docIssueExists_def doc_issue_def)
  ultimately show ?thesis using run by auto
qed

lemma no_start_without_papers_witness:
  "fst (submitApplication 0 demo_dossier) \<noteq> Inr PendingApproval \<and> snd (submitApplication 0 demo_dossier) = demo_dossier"
proof -
  obtain x s' where x: "submitApplication 0 demo_dossier = (x, s')" by (cases "submitApplication 0 demo_dossier")
  have none: "findVehicleByDriverId 0 demo_dossier = None" by (simp add: findVehicleByDriverId_def demo_dossier_def)
  have "x \<noteq> Inr PendingApproval" "s' = demo_dossier"
    using no_start_without_papers [OF demo_exists(2), THEN conjunct1, rule_format, OF x] none by auto
  then show ?thesis by (simp add: x)
qed

text \<open>A driver with a car, today's checks and no documents in doubt, in a city with prepaid packages.\<close>

lemma only_cleared_drivers_go_online_witness:
  "\<exists>s'. go_online 9000 None 5 5 (\<lambda>_. Some PackageBilling) 0 0 \<lparr>on_mode = StandardMode, on_vehicle = 0\<rparr>
      (demo_dossier\<lparr>ds_vehicles := [demo_vehicle], ds_checks := [\<lparr>ck_driver = 0, ck_vehicle = None, ck_day = 5\<rparr>, \<lparr>ck_driver = 0, ck_vehicle = Some 0, ck_day = 5\<rparr>]\<rparr>) = (Inr 0, s')
    \<and> se_category (sessions_of s' ! 0) = 2"
proof -
  let ?s = "demo_dossier\<lparr>ds_vehicles := [demo_vehicle], ds_checks := [\<lparr>ck_driver = 0, ck_vehicle = None, ck_day = 5\<rparr>, \<lparr>ck_driver = 0, ck_vehicle = Some 0, ck_day = 5\<rparr>]\<rparr>"
  let ?r = "\<lparr>on_mode = StandardMode, on_vehicle = 0\<rparr>"
  have empty: "sessions (op_rides (au_ops (ds_auth demo_dossier))) = []" by (simp add: demo_dossier_def demo_auth_def demo_start_def demo_world_def op_rides_def)
  have none: "getActiveSession 0 (op_rides (au_ops (ds_auth ?s))) = None" by (simp add: getActiveSession_def empty)
  have "docIssueExists 5 0 ?s = False"
    by (simp add: docIssueExists_def demo_dossier_def types_of_def)
  then have "online_gates (gates_of 5 5 (\<lambda>_. Some PackageBilling) 0 0 ?s) 0 ?r book = Inr 2" for book
    by (simp add: online_gates_def gates_of_def getTodayStatus_def hasApprovedRequiredDocs_def demo_vehicle_def demo_dossier_def demo_info_def)
  then have gates: "online_gates (gates_of 5 5 (\<lambda>_. Some PackageBilling) 0 0 ?s) 0 ?r book = Inr 2" for book .
  have st: "principal_status 9000 None (driver_status 0 ?s) = AccountActive" by (simp add: principal_status_def driver_status_def demo_dossier_def demo_auth_def)
  have "fst (go_online 9000 None 5 5 (\<lambda>_. Some PackageBilling) 0 0 ?r ?s) = Inr 0"
    unfolding go_online_def st canTakeWork_def none goOnline_def gates using empty by (simp add: createSession_def Let_def)
  then obtain s' where run: "go_online 9000 None 5 5 (\<lambda>_. Some PackageBilling) 0 0 ?r ?s = (Inr 0, s')"
    by (cases "go_online 9000 None 5 5 (\<lambda>_. Some PackageBilling) 0 0 ?r ?s") simp
  have "\<exists>c old. vs_category (vh_spec (ds_vehicles ?s ! on_vehicle ?r)) = Some c \<and> 0 = length old \<and> (\<forall>x \<in> set old. se_driver x = 0 \<longrightarrow> \<not> active x)
      \<and> sessions_of s' = old @ [\<lparr>se_driver = 0, se_vehicle = on_vehicle ?r, se_category = c, se_mode = on_mode ?r, se_status = OnlineSession, se_trips = 0, se_reason = None\<rparr>]"
    using only_cleared_drivers_go_online [OF run] by blast
  then have "se_category (sessions_of s' ! 0) = 2" by (auto simp: demo_vehicle_def)
  then show ?thesis using run by blast
qed

subsection \<open>Ways around the review\<close>

text \<open>A driver who has just been suspended goes on line like an active one while the principal cache has not expired.\<close>

theorem suspended_within_cache_goes_online:
  assumes "exists_driver d s" "go_online now None ist today mode minimum d req s = (Inr k, s')" "now < t + 20000"
  shows "driver_status d (with_status d Suspended s) = Suspended
    \<and> fst (go_online now (Some (t, AccountActive)) ist today mode minimum d req (with_status d Suspended s)) = Inr k"
proof -
  have f: "ds_info (with_status d Suspended s) = ds_info s" "ds_checks (with_status d Suspended s) = ds_checks s"
    by (simp_all add: with_status_def)
  have g: "gates_of ist today mode minimum d (with_status d Suspended s) = gates_of ist today mode minimum d s"
    unfolding gates_of_def getTodayStatus_def hasApprovedRequiredDocs_def docIssueExists_def primary_of_def f tables_simps ..
  have o: "au_ops (ds_auth (with_status d Suspended s)) = au_ops (ds_auth s)" by (simp add: with_status_def)
  have "principal_status now (Some (t, AccountActive)) st = AccountActive" for st
    using assms(3) by (simp add: principal_status_def PRINCIPAL_CACHE_TTL_SEC_def)
  then show ?thesis using assms(1,2) unfolding go_online_def g o
    by (auto simp: canTakeWork_def guard_err_def split: if_splits prod.splits)
qed

text \<open>A suspended driver submits an application again, and is no longer suspended: the sign-in that refused the driver lets the driver in.\<close>

theorem resubmission_lifts_suspension:
  assumes "exists_driver d s" "driver_status d s = Suspended" "fst (submitApplication d s) = Inr PendingApproval"
  shows "sign_in_standing True (driver_status d s) = Inl (http_err 403 ''DRIVER_SUSPENDED'')
    \<and> sign_in_standing True (driver_status d (snd (submitApplication d s))) = Inr ()"
proof -
  have "snd (submitApplication d s) = submit_write d (driver_status d s) s"
    using assms(1,3) by (auto simp: submitApplication_def split: if_splits)
  then show ?thesis using assms(1,2) by (simp add: submit_write_def sign_in_standing_def)
qed

text \<open>Blacklisting the vehicle of a banned driver turns the ban into a suspension, and of a deleted account too; a session that waits for rides goes on.\<close>

theorem blacklisting_lifts_ban:
  assumes "blacklistVehicle k why s = (Inr True, s')" "exists_driver (vh_driver (ds_vehicles s ! k)) s"
  shows "driver_status (vh_driver (ds_vehicles s ! k)) s' = Suspended \<and> sessions_of s' = sessions_of s"
  using assms by (auto simp: blacklistVehicle_def Let_def sessions_of_def createStatusHistory_def with_status_def with_vehicle_def driver_status_def exists_driver_def split: if_splits)

text \<open>
  A driver who was told to replace documents, with only one of them on file, becomes active when that one is approved:
  \<open>hasApprovedRequiredDocs\<close> looks for bad documents, not for missing ones.
\<close>

theorem reapproval_without_documents:
  assumes "exists_driver d s" "driver_status d s = DocsRejected" "ds_docs s = [x]" "dc_owner x = d" "dc_type x = AadhaarFront" "ds_vehicles s = []" "ds_vdocs s = []"
    "dc_updated x = u"
  shows "\<exists>s'. approveDriverDoc True ist today now 0 None (Some u) s = (Inr (), s') \<and> driver_status d s' = AccountActive \<and> \<not> hasAllRequiredDocsApproved d s'"
proof -
  let ?s1 = "with_doc False 0 (\<lambda>x. x\<lparr>dc_status := DocApproved, dc_verified := None, dc_rejections := 0, dc_note := None, dc_updated := now\<rparr>) s"
  have e: "exists_driver d ?s1" "driver_status d ?s1 = DocsRejected" "driver_of_doc False 0 ?s1 = d"
    using assms by (simp_all add: exists_driver_def driver_status_def with_doc_def driver_of_doc_def)
  have "\<not> docIssueExists today d ?s1" using assms by (simp add: docIssueExists_def with_doc_def doc_issue_def)
  then have "driver_status d (syncDriverStatusAfterDocChange today d ?s1) = AccountActive" using sync_status [OF e(1), of d today] e(2) by simp
  moreover have "approveDriverDoc True ist today now 0 None (Some u) s = (Inr (), syncDriverStatusAfterDocChange today d ?s1)"
    using assms e(3) by (simp add: approveDriverDoc_def approveDoc_def decided_def approve_write_def doc_table_def validateVerifiedExpiry_def NO_EXPIRY_DOC_TYPES_def same_version_def)
  moreover have "\<not> hasAllRequiredDocsApproved d (syncDriverStatusAfterDocChange today d ?s1)"
    using assms(7) by (simp add: hasAllRequiredDocsApproved_def approved_count_def with_doc_def REQUIRED_VEHICLE_DOCS_def)
  ultimately show ?thesis by blast
qed

text \<open>The driver of a vehicle in service gives it another category, and goes on line with it: nobody reviews the change.\<close>

theorem category_changed_after_approval:
  assumes "exists_driver d s" "isPersonalInfoComplete (ds_info s d)" "k < length (ds_vehicles s)" "vh_driver (ds_vehicles s ! k) = d" "vh_status (ds_vehicles s ! k) = VehicleActive"
    "\<not> plate_taken (Some k) (vs_plate spec) (ds_vehicles s)"
  shows "\<exists>s'. saveVehicleInfo d spec (Some k) s = (Inr k, s') \<and> driver_status d s' = driver_status d s \<and> og_vehicles (gates_of ist today mode minimum d s') k = Some (vs_category spec)"
proof -
  let ?s1 = "s\<lparr>ds_vehicles := (ds_vehicles s)[k := (ds_vehicles s ! k)\<lparr>vh_spec := spec\<rparr>]\<rparr>"
  let ?s2 = "if di_step (ds_info s d) = VehicleInfoStep then with_info d (\<lambda>i. i\<lparr>di_step := DocumentsStep\<rparr>) ?s1 else ?s1"
  have "saveVehicleInfo d spec (Some k) s = (Inr k, ?s2)"
    using assms by (simp add: saveVehicleInfo_def upsertVehicle_def Let_def)
  moreover have "driver_status d ?s2 = driver_status d s" by (simp add: driver_status_def with_info_def)
  moreover have "og_vehicles (gates_of ist today mode minimum d ?s2) k = Some (vs_category spec)"
    using assms by (simp add: gates_of_def)
  ultimately show ?thesis by blast
qed

subsection \<open>Files\<close>

text \<open>A pending file lies in the folder of one driver only: nobody attaches another's.\<close>

lemma own_folder:
  assumes "assertKeyBelongsToDriver d key = Inr u" "assertKeyBelongsToDriver e key = Inr u'"
  shows "d = e"
proof -
  obtain r where r: "key = pending_prefix d @ r" using assms(1) by (auto simp: assertKeyBelongsToDriver_def prefix_def)
  obtain q where q: "key = pending_prefix e @ q" using assms(2) by (auto simp: assertKeyBelongsToDriver_def prefix_def)
  have stop: "takeWhile is_digit (id_string i @ ''/'' @ x) = id_string i" for i x
    using id_string_digits [of i] by (simp add: takeWhile_append list_all_iff is_digit_def)
  have "id_string d @ ''/'' @ r = id_string e @ ''/'' @ q" using r q by (simp add: pending_prefix_def)
  then have "takeWhile is_digit (id_string d @ ''/'' @ r) = takeWhile is_digit (id_string e @ ''/'' @ q)" by simp
  then have "id_string d = id_string e" unfolding stop .
  then have "digits_value (id_string d) = digits_value (id_string e)" by simp
  then show ?thesis using id_string_digits [of d] id_string_digits [of e] by simp
qed

end
