(* ===== verification/Safety.thy ===== *)
theory Safety
  imports Drivers
begin

text \<open>
  Ratings, emergency alerts and disputes (\<open>modules/safety\<close>). The tables stand beside those of the earlier theories: rides and payments are the ones of \<open>op_trip\<close>, the standing of
  a driver the one of Drivers. Times are milliseconds; the emergency counters of Redis are those of Otp.
\<close>

subsection \<open>Tables\<close>

datatype party = Rider nat | Cabbie nat

datatype direction = UserToDriver | DriverToUser

record rating =
  rt_ride :: nat
  rt_direction :: direction
  rt_score :: int
  rt_from :: party
  rt_to :: party
  rt_comment :: "string option"

text \<open>The columns \<open>rating_sum\<close> and \<open>total_ratings\<close> of a user or a driver; \<open>rating_avg\<close> is their quotient.\<close>

record score =
  sc_sum :: int
  sc_count :: int

datatype sos_status = Triggered | Acknowledged | Responding | SosResolved | FalseAlarm

record sos_alert =
  so_ride :: nat
  so_by :: party
  so_severity :: string
  so_lat :: "num option"
  so_lng :: "num option"
  so_notes :: "string option"
  so_status :: sos_status
  so_acknowledged :: "nat option"
  so_resolved :: "nat option"
  so_resolution :: "string option"
  so_created :: int
  so_updated :: int
  so_escalated :: "int option"

datatype dispute_status = DisputeOpen | UnderReview | PendingInfo | DisputeResolved | Escalated | Withdrawn
datatype dispute_outcome = NoAction | FareAdjusted | FullRefund | PartialRefund | DriverWarned | DriverSuspended | DriverBanned | UserWarned | UserSuspended | ItemRecovered

record dispute =
  dp_ride :: nat
  dp_by :: party
  dp_type :: string
  dp_text :: string
  dp_status :: dispute_status
  dp_priority :: int
  dp_assigned :: "nat option"
  dp_outcome :: "dispute_outcome option"
  dp_note :: "string option"
  dp_hours :: int
  dp_due :: int
  dp_resolved_by :: "nat option"
  dp_resolved_at :: "int option"
  dp_escalated :: "int option"

record dispute_action =
  da_dispute :: nat
  da_admin :: nat
  da_type :: string
  da_note :: "string option"

record refund =
  rf_payment :: nat
  rf_ride :: nat
  rf_dispute :: nat
  rf_amount :: paise
  rf_reason :: string
  rf_admin :: nat

record warning =
  wn_driver :: nat
  wn_admin :: nat
  wn_dispute :: nat
  wn_ride :: "nat option"
  wn_text :: string
  wn_at :: int

record safety =
  sf_dossier :: dossier
  sf_ratings :: "rating list"
  sf_tags :: "(nat \<times> nat) list"
  sf_scores :: "party \<Rightarrow> score"
  sf_alerts :: "sos_alert list"
  sf_hits :: "party \<Rightarrow> counter option"
  sf_sos_rides :: "nat list"
  sf_pages :: "nat list"
  sf_disputes :: "dispute list"
  sf_actions :: "dispute_action list"
  sf_refunds :: "refund list"
  sf_warnings :: "warning list"

definition safety_ops :: "safety \<Rightarrow> ops" where
  "safety_ops s = au_ops (ds_auth (sf_dossier s))"

definition getRideBasic :: "nat \<Rightarrow> safety \<Rightarrow> ride_row option" where
  "getRideBasic i s = ride_at (op_rides (safety_ops s)) i"

definition safety_payments :: "safety \<Rightarrow> payment list" where
  "safety_payments s = w_payments (tp_world (op_trip (safety_ops s)))"

definition takes_part :: "party \<Rightarrow> ride_row \<Rightarrow> bool" where
  "takes_part p r \<longleftrightarrow> (case p of Rider i \<Rightarrow> rr_user r = i | Cabbie i \<Rightarrow> rr_driver r = Some i)"

definition assertRideParticipant :: "ride_row \<Rightarrow> party \<Rightarrow> unit res" where
  "assertRideParticipant r p = guard_err (\<not> takes_part p r) (http_err 403 ''NOT_RIDE_PARTICIPANT'')"

subsection \<open>Ratings\<close>

definition ratingExists :: "nat \<Rightarrow> direction \<Rightarrow> safety \<Rightarrow> bool" where
  "ratingExists i dir s = list_ex (\<lambda>r. rt_ride r = i \<and> rt_direction r = dir) (sf_ratings s)"

text \<open>\<open>UNIQUE (ride_id, direction)\<close> and \<open>CHECK (score BETWEEN 1 AND 5)\<close>.\<close>

definition insertRating :: "rating \<Rightarrow> safety \<Rightarrow> nat res \<times> safety" where
  "insertRating x s = (if ratingExists (rt_ride x) (rt_direction x) s then (Inl duplicate, s)
     else if rt_score x < 1 \<or> 5 < rt_score x then (Inl db_error, s)
     else (Inr (length (sf_ratings s)), s\<lparr>sf_ratings := sf_ratings s @ [x]\<rparr>))"

definition insertRatingTags :: "nat \<Rightarrow> nat list \<Rightarrow> safety \<Rightarrow> safety" where
  "insertRatingTags k tags s = s\<lparr>sf_tags := sf_tags s @ filter (\<lambda>t. t \<notin> set (sf_tags s)) (map (Pair k) (remdups tags))\<rparr>"

text \<open>\<open>updateDriverRatingAvg\<close> and \<open>updateUserRatingAvg\<close>: one statement each, which adds to the row as it is.\<close>

definition updateRatingAvg :: "party \<Rightarrow> int \<Rightarrow> safety \<Rightarrow> safety" where
  "updateRatingAvg p n s = s\<lparr>sf_scores := (sf_scores s)(p := \<lparr>sc_sum = sc_sum (sf_scores s p) + n, sc_count = sc_count (sf_scores s p) + 1\<rparr>)\<rparr>"

text \<open>\<open>seen\<close> and \<open>dup\<close>: the ride and whether it has been rated, as read before. The result is the new row; the one who is rated comes from the ride.\<close>

definition rating_of :: "nat \<Rightarrow> direction \<Rightarrow> int \<Rightarrow> party option \<Rightarrow> string option \<Rightarrow> ride_row option \<Rightarrow> bool \<Rightarrow> rating res" where
  "rating_of i dir n who comment seen dup =
     (case seen of None \<Rightarrow> Inl (http_err 404 ''RIDE_NOT_FOUND'')
      | Some r \<Rightarrow>
          bind_res (guard_err (rr_status r \<noteq> Completed) (http_err 400 ''RIDE_NOT_COMPLETED'')) (\<lambda>_.
          bind_res (guard_err dup (http_err 409 ''RATING_ALREADY_EXISTS'')) (\<lambda>_.
          case who of None \<Rightarrow> Inl (http_err 401 ''AUTH_REQUIRED'')
          | Some p \<Rightarrow>
              bind_res (assertRideParticipant r p) (\<lambda>_.
              case dir of
                UserToDriver \<Rightarrow> (case rr_driver r of Some d \<Rightarrow> Inr \<lparr>rt_ride = i, rt_direction = dir, rt_score = n, rt_from = p, rt_to = Cabbie d, rt_comment = comment\<rparr>
                                  | None \<Rightarrow> Inl db_error)
              | DriverToUser \<Rightarrow> Inr \<lparr>rt_ride = i, rt_direction = dir, rt_score = n, rt_from = p, rt_to = Rider (rr_user r), rt_comment = comment\<rparr>))))"

text \<open>The one who rates: the rider for \<open>user_to_driver\<close>, the driver the other way.\<close>

definition rater :: "direction \<Rightarrow> nat option \<Rightarrow> nat option \<Rightarrow> party option" where
  "rater dir user driver = (case dir of UserToDriver \<Rightarrow> map_option Rider user | DriverToUser \<Rightarrow> map_option Cabbie driver)"

definition submitRating :: "nat \<Rightarrow> direction \<Rightarrow> int \<Rightarrow> nat option \<Rightarrow> nat option \<Rightarrow> string option \<Rightarrow> nat list \<Rightarrow> ride_row option \<Rightarrow> bool \<Rightarrow> safety \<Rightarrow> nat res \<times> safety" where
  "submitRating i dir n user driver comment tags seen dup s =
     (case rating_of i dir n (rater dir user driver) comment seen dup of Inl err \<Rightarrow> (Inl err, s)
      | Inr x \<Rightarrow> (case insertRating x s of (Inl err, s1) \<Rightarrow> (Inl err, s1)
          | (Inr k, s1) \<Rightarrow> (Inr k, updateRatingAvg (rt_to x) (rt_score x) (insertRatingTags k tags s1))))"

subsection \<open>Emergency alerts\<close>

definition SOS_DEDUP_WINDOW_SECONDS :: int where "SOS_DEDUP_WINDOW_SECONDS = 30"
definition SOS_HOURLY_CAP :: int where "SOS_HOURLY_CAP = 5"
definition SOS_HOURLY_WINDOW_SECONDS :: int where "SOS_HOURLY_WINDOW_SECONDS = 3600"
definition SOS_STALE_MINUTES :: int where "SOS_STALE_MINUTES = 5"

definition SOS_ELIGIBLE_STATUSES :: "ride_status list" where
  "SOS_ELIGIBLE_STATUSES = [Accepted, DriverArrived, InProgress, Returning]"

text \<open>The latest alert of the ride that is still untouched and fresh.\<close>

definition getActiveSosForRide :: "int \<Rightarrow> nat \<Rightarrow> safety \<Rightarrow> nat option" where
  "getActiveSosForRide now i s = order_limit1 (\<lambda>k. - so_created (sf_alerts s ! k))
     (filter (\<lambda>k. so_ride (sf_alerts s ! k) = i \<and> so_status (sf_alerts s ! k) = Triggered \<and> now - SOS_DEDUP_WINDOW_SECONDS * 1000 \<le> so_created (sf_alerts s ! k))
       [0..<length (sf_alerts s)])"

definition with_alert :: "nat \<Rightarrow> (sos_alert \<Rightarrow> sos_alert) \<Rightarrow> safety \<Rightarrow> safety" where
  "with_alert k f s = (if k < length (sf_alerts s) then s\<lparr>sf_alerts := (sf_alerts s)[k := f (sf_alerts s ! k)]\<rparr> else s)"

text \<open>\<open>INCR\<close>, and \<open>EXPIRE\<close> when the counter is new: two commands, between which the process may die.\<close>

definition sos_hit :: "redis_fault \<Rightarrow> int \<Rightarrow> counter option \<Rightarrow> int res \<times> counter option" where
  "sos_hit f now c =
     (if f = Discarded then (Inl (http_err 500 ''''), c)
      else let x = (case counter_at now c of Some x \<Rightarrow> x | None \<Rightarrow> \<lparr>ct_count = 0, ct_until = None\<rparr>); n = ct_count x + 1
           in if n \<noteq> 1 then (Inr n, Some (x\<lparr>ct_count := n\<rparr>))
              else if f = Dies then (Inl (http_err 500 ''''), Some \<lparr>ct_count = n, ct_until = None\<rparr>)
              else (Inr n, Some \<lparr>ct_count = n, ct_until = Some (now + SOS_HOURLY_WINDOW_SECONDS * 1000)\<rparr>))"

text \<open>What a press sends.\<close>

record sos_press =
  sp_severity :: "string option"
  sp_lat :: "num option"
  sp_lng :: "num option"
  sp_notes :: "string option"

definition insertSosAlert :: "int \<Rightarrow> nat \<Rightarrow> party \<Rightarrow> sos_press \<Rightarrow> safety \<Rightarrow> safety" where
  "insertSosAlert now i p x s = s\<lparr>sf_alerts := sf_alerts s @ [\<lparr>so_ride = i, so_by = p, so_severity = coalesce (sp_severity x) ''medium'', so_lat = sp_lat x, so_lng = sp_lng x,
     so_notes = sp_notes x, so_status = Triggered, so_acknowledged = None, so_resolved = None, so_resolution = None, so_created = now, so_updated = now, so_escalated = None\<rparr>]\<rparr>"

text \<open>The writes of a new alert: the row, the mark on the ride and the job that pages the team.\<close>

definition raise_alert :: "int \<Rightarrow> nat \<Rightarrow> party \<Rightarrow> sos_press \<Rightarrow> safety \<Rightarrow> safety" where
  "raise_alert now i p x s = (let s1 = insertSosAlert now i p x s in s1\<lparr>sf_sos_rides := i # sf_sos_rides s1, sf_pages := sf_pages s1 @ [length (sf_alerts s)]\<rparr>)"

definition triggerSos :: "redis_fault \<Rightarrow> int \<Rightarrow> nat \<Rightarrow> party \<Rightarrow> sos_press \<Rightarrow> safety \<Rightarrow> nat res \<times> safety" where
  "triggerSos f now i p x s =
     (case getRideBasic i s of None \<Rightarrow> (Inl (http_err 404 ''RIDE_NOT_FOUND''), s)
      | Some r \<Rightarrow>
          if rr_status r \<notin> set SOS_ELIGIBLE_STATUSES then (Inl (http_err 400 ''RIDE_NOT_ACTIVE''), s)
          else case assertRideParticipant r p of Inl err \<Rightarrow> (Inl err, s)
            | Inr _ \<Rightarrow>
                (case getActiveSosForRide now i s of Some k \<Rightarrow> (Inr k, with_alert k (\<lambda>a. a\<lparr>so_updated := now\<rparr>) s)
                 | None \<Rightarrow>
                     (case sos_hit f now (sf_hits s p) of
                        (Inl err, c) \<Rightarrow> (Inl err, s\<lparr>sf_hits := (sf_hits s)(p := c)\<rparr>)
                      | (Inr n, c) \<Rightarrow>
                          let s1 = s\<lparr>sf_hits := (sf_hits s)(p := c)\<rparr> in
                          if SOS_HOURLY_CAP < n then (Inl (http_err 429 ''SOS_RATE_LIMITED''), s1)
                          else (Inr (length (sf_alerts s)), raise_alert now i p x s1))))"

text \<open>\<open>updateSosStatus\<close>, which looks at no earlier status.\<close>

definition acknowledgeSosAlert :: "int \<Rightarrow> nat \<Rightarrow> nat \<Rightarrow> safety \<Rightarrow> unit res \<times> safety" where
  "acknowledgeSosAlert now k admin s =
     (if k < length (sf_alerts s) then (Inr (), with_alert k (\<lambda>a. a\<lparr>so_status := Acknowledged, so_acknowledged := Some admin, so_updated := now\<rparr>) s)
      else (Inl (http_err 404 ''SOS_ALERT_NOT_FOUND''), s))"

definition resolveSosAlert :: "int \<Rightarrow> nat \<Rightarrow> nat \<Rightarrow> bool \<Rightarrow> string option \<Rightarrow> safety \<Rightarrow> unit res \<times> safety" where
  "resolveSosAlert now k admin alarm note s =
     (if k < length (sf_alerts s) then (Inr (), with_alert k (\<lambda>a. a\<lparr>so_status := (if alarm then SosResolved else FalseAlarm), so_resolved := Some admin,
         so_resolution := note, so_updated := now\<rparr>) s)
      else (Inl (http_err 404 ''SOS_ALERT_NOT_FOUND''), s))"

definition stale_alert :: "int \<Rightarrow> sos_alert \<Rightarrow> bool" where
  "stale_alert now a \<longleftrightarrow> so_status a = Triggered \<and> so_escalated a = None \<and> so_created a < now - SOS_STALE_MINUTES * 60000"

definition getStaleSosAlerts :: "int \<Rightarrow> safety \<Rightarrow> nat list" where
  "getStaleSosAlerts now s = filter (\<lambda>k. stale_alert now (sf_alerts s ! k)) [0..<length (sf_alerts s)]"

text \<open>One round of the sweep; \<open>down k\<close>: paging for this alert fails, and it is left to the next round.\<close>

definition escalate_alert :: "int \<Rightarrow> (nat \<Rightarrow> bool) \<Rightarrow> nat \<Rightarrow> safety \<Rightarrow> safety" where
  "escalate_alert now down k s = (if down k then s else (with_alert k (\<lambda>a. a\<lparr>so_escalated := Some now\<rparr>) s)\<lparr>sf_pages := sf_pages s @ [k]\<rparr>)"

definition sweepStaleSosAlerts :: "int \<Rightarrow> (nat \<Rightarrow> bool) \<Rightarrow> safety \<Rightarrow> safety" where
  "sweepStaleSosAlerts now down s = fold (escalate_alert now down) (getStaleSosAlerts now s) s"

subsection \<open>Disputes\<close>

text \<open>The priority a dispute is stored with has a default, the deadline is taken from the priority that was sent. \<open>CHECK (priority BETWEEN 1 AND 5)\<close>.\<close>

definition insertDispute :: "int \<Rightarrow> nat \<Rightarrow> party \<Rightarrow> string \<Rightarrow> string \<Rightarrow> int \<Rightarrow> int \<Rightarrow> safety \<Rightarrow> nat res \<times> safety" where
  "insertDispute now i p ty txt prio hours s =
     (if prio < 1 \<or> 5 < prio then (Inl db_error, s)
      else (Inr (length (sf_disputes s)), s\<lparr>sf_disputes := sf_disputes s @ [\<lparr>dp_ride = i, dp_by = p, dp_type = ty, dp_text = txt, dp_status = DisputeOpen, dp_priority = prio,
         dp_assigned = None, dp_outcome = None, dp_note = None, dp_hours = hours, dp_due = now + hours * 3600000, dp_resolved_by = None, dp_resolved_at = None, dp_escalated = None\<rparr>]\<rparr>))"

definition sla_hours :: "int option \<Rightarrow> int" where
  "sla_hours prio = (case prio of Some n \<Rightarrow> if n \<noteq> 0 \<and> n \<le> 2 then 24 else 48 | None \<Rightarrow> 48)"

definition createDispute :: "int \<Rightarrow> nat \<Rightarrow> party \<Rightarrow> string \<Rightarrow> string \<Rightarrow> int option \<Rightarrow> safety \<Rightarrow> nat res \<times> safety" where
  "createDispute now i p ty txt prio s =
     (case getRideBasic i s of None \<Rightarrow> (Inl (http_err 404 ''RIDE_NOT_FOUND''), s)
      | Some r \<Rightarrow>
          if rr_status r \<noteq> Completed then (Inl (http_err 400 ''RIDE_NOT_COMPLETED''), s)
          else case assertRideParticipant r p of Inl err \<Rightarrow> (Inl err, s)
            | Inr _ \<Rightarrow> insertDispute now i p ty txt (coalesce prio 2) (sla_hours prio) s)"

definition with_dispute :: "nat \<Rightarrow> (dispute \<Rightarrow> dispute) \<Rightarrow> safety \<Rightarrow> safety" where
  "with_dispute k f s = (if k < length (sf_disputes s) then s\<lparr>sf_disputes := (sf_disputes s)[k := f (sf_disputes s ! k)]\<rparr> else s)"

definition insertDisputeAction :: "nat \<Rightarrow> nat \<Rightarrow> string \<Rightarrow> string option \<Rightarrow> safety \<Rightarrow> safety" where
  "insertDisputeAction k admin ty note s = s\<lparr>sf_actions := sf_actions s @ [\<lparr>da_dispute = k, da_admin = admin, da_type = ty, da_note = note\<rparr>]\<rparr>"

text \<open>Whatever the status was.\<close>

definition assignDispute :: "nat \<Rightarrow> nat \<Rightarrow> safety \<Rightarrow> unit res \<times> safety" where
  "assignDispute k admin s =
     (if length (sf_disputes s) \<le> k then (Inl (http_err 404 ''DISPUTE_NOT_FOUND''), s)
      else (Inr (), insertDisputeAction k admin ''assigned'' None (with_dispute k (\<lambda>d. d\<lparr>dp_status := UnderReview, dp_assigned := Some admin\<rparr>) s)))"

text \<open>\<open>ride_id\<close> is unique in \<open>payments\<close>; the sum of a payment's refunds.\<close>

definition payment_index :: "nat \<Rightarrow> safety \<Rightarrow> nat option" where
  "payment_index i s = find (\<lambda>k. pm_ride (safety_payments s ! k) = i) [0..<length (safety_payments s)]"

definition refunded :: "nat \<Rightarrow> safety \<Rightarrow> paise" where
  "refunded k s = sum_list (map rf_amount (filter (\<lambda>r. rf_payment r = k) (sf_refunds s)))"

definition refund_outcome :: "dispute_outcome \<Rightarrow> bool" where
  "refund_outcome out \<longleftrightarrow> out = FullRefund \<or> out = PartialRefund \<or> out = FareAdjusted"

text \<open>The refund of a resolution. The amount is a JavaScript number, \<open>None\<close> if absent or no number; the column rounds it to paise and refuses zero.\<close>

definition refund_tx :: "nat \<Rightarrow> nat \<Rightarrow> dispute_outcome \<Rightarrow> string \<Rightarrow> num option \<Rightarrow> nat \<Rightarrow> safety \<Rightarrow> unit res \<times> safety" where
  "refund_tx k admin out note amount ride s =
     (case amount of None \<Rightarrow> (Inr (), s)
      | Some a \<Rightarrow>
          if \<not> (0 < a \<and> refund_outcome out) then (Inr (), s)
          else (case payment_index ride s of None \<Rightarrow> (Inr (), s)
            | Some p \<Rightarrow>
                let remaining = round2 (fsub (from_paise (pm_amount (safety_payments s ! p))) (from_paise (refunded p s))) in
                if remaining < a then (Inl (http_err 400 ''REFUND_EXCEEDS_PAYMENT''), s)
                else if to_paise a \<le> 0 then (Inl db_error, s)
                else (Inr (), s\<lparr>sf_refunds := sf_refunds s @ [\<lparr>rf_payment = p, rf_ride = ride, rf_dispute = k, rf_amount = to_paise a, rf_reason = note, rf_admin = admin\<rparr>]\<rparr>)))"

definition close_dispute :: "int \<Rightarrow> nat \<Rightarrow> nat \<Rightarrow> dispute_outcome \<Rightarrow> string \<Rightarrow> safety \<Rightarrow> safety" where
  "close_dispute now k admin out note s = insertDisputeAction k admin ''resolved'' (Some note)
     (with_dispute k (\<lambda>d. d\<lparr>dp_status := DisputeResolved, dp_outcome := Some out, dp_note := Some note, dp_resolved_by := Some admin, dp_resolved_at := Some now\<rparr>) s)"

text \<open>The transaction of a resolution; \<open>seen\<close> is the dispute read before it. An error takes everything back.\<close>

definition resolve_tx :: "int \<Rightarrow> nat \<Rightarrow> nat \<Rightarrow> dispute_outcome \<Rightarrow> string \<Rightarrow> num option \<Rightarrow> dispute \<Rightarrow> safety \<Rightarrow> unit res \<times> safety" where
  "resolve_tx now k admin out note amount seen s =
     (case refund_tx k admin out note amount (dp_ride seen) (close_dispute now k admin out note s) of
        (Inl err, _) \<Rightarrow> (Inl err, s) | (Inr _, s1) \<Rightarrow> (Inr (), s1))"

definition insertDriverWarning :: "int \<Rightarrow> nat \<Rightarrow> nat \<Rightarrow> nat \<Rightarrow> nat \<Rightarrow> string \<Rightarrow> safety \<Rightarrow> safety" where
  "insertDriverWarning now d admin k ride note s =
     s\<lparr>sf_warnings := sf_warnings s @ [\<lparr>wn_driver = d, wn_admin = admin, wn_dispute = k, wn_ride = Some ride, wn_text = note, wn_at = now\<rparr>]\<rparr>"

definition countRecentDriverWarnings :: "int \<Rightarrow> nat \<Rightarrow> int \<Rightarrow> safety \<Rightarrow> nat" where
  "countRecentDriverWarnings now d days s = length (filter (\<lambda>w. wn_driver w = d \<and> now - days * 86400000 \<le> wn_at w) (sf_warnings s))"

text \<open>\<open>adminRepo.updateDriverStatus\<close> called without the service: the status and its history, not the session.\<close>

definition suspend_for :: "nat \<Rightarrow> string \<Rightarrow> safety \<Rightarrow> safety" where
  "suspend_for d why s = (let db = sf_dossier s in
     if \<not> exists_driver d db \<or> driver_status d db = Suspended \<or> driver_status d db = Banned then s
     else s\<lparr>sf_dossier := createStatusHistory d (driver_status d db) Suspended why (with_status d Suspended db)\<rparr>)"

text \<open>
  \<open>limit\<close> and \<open>days\<close> are configuration values; \<open>reason\<close> writes the reason. The notice to the driver goes out between the warning and the count: if it fails
  (\<open>\<not> noticed\<close>), the error is only logged and the count does not happen.
\<close>

definition applyDisputeOutcomeConsequences :: "bool \<Rightarrow> int \<Rightarrow> int \<Rightarrow> int \<Rightarrow> (nat \<Rightarrow> string) \<Rightarrow> nat \<Rightarrow> nat \<Rightarrow> dispute_outcome \<Rightarrow> nat \<Rightarrow> string \<Rightarrow> safety \<Rightarrow> safety" where
  "applyDisputeOutcomeConsequences noticed now limit days reason k ride out admin note s =
     (if out \<noteq> DriverWarned \<and> out \<noteq> DriverSuspended then s
      else case Option.bind (getRideBasic ride s) rr_driver of None \<Rightarrow> s
        | Some d \<Rightarrow>
            if out = DriverSuspended then suspend_for d note s
            else let s1 = insertDriverWarning now d admin k ride note s; n = countRecentDriverWarnings now d days s1
                 in if noticed \<and> limit \<le> int n then suspend_for d (reason n) s1 else s1)"

definition resolveDispute :: "bool \<Rightarrow> int \<Rightarrow> int \<Rightarrow> int \<Rightarrow> (nat \<Rightarrow> string) \<Rightarrow> nat \<Rightarrow> nat \<Rightarrow> dispute_outcome \<Rightarrow> string \<Rightarrow> num option \<Rightarrow> safety \<Rightarrow> unit res \<times> safety" where
  "resolveDispute noticed now limit days reason k admin out note amount s =
     (if length (sf_disputes s) \<le> k then (Inl (http_err 404 ''DISPUTE_NOT_FOUND''), s)
      else let d = sf_disputes s ! k in
        (case resolve_tx now k admin out note amount d s of (Inl err, s1) \<Rightarrow> (Inl err, s1)
         | (Inr _, s1) \<Rightarrow> (Inr (), applyDisputeOutcomeConsequences noticed now limit days reason k (dp_ride d) out admin note s1)))"

definition breached_dispute :: "int \<Rightarrow> dispute \<Rightarrow> bool" where
  "breached_dispute now d \<longleftrightarrow> dp_escalated d = None \<and> dp_due d < now \<and> dp_status d \<noteq> DisputeResolved \<and> dp_status d \<noteq> Withdrawn"

definition getBreachedDisputes :: "int \<Rightarrow> safety \<Rightarrow> nat list" where
  "getBreachedDisputes now s = filter (\<lambda>k. breached_dispute now (sf_disputes s ! k)) [0..<length (sf_disputes s)]"

definition escalate_dispute :: "int \<Rightarrow> (nat \<Rightarrow> bool) \<Rightarrow> nat \<Rightarrow> safety \<Rightarrow> safety" where
  "escalate_dispute now down k s = (if down k then s else with_dispute k (\<lambda>d. d\<lparr>dp_escalated := Some now\<rparr>) s)"

definition sweepBreachedDisputeSlas :: "int \<Rightarrow> (nat \<Rightarrow> bool) \<Rightarrow> safety \<Rightarrow> safety" where
  "sweepBreachedDisputeSlas now down s = fold (escalate_dispute now down) (getBreachedDisputes now s) s"

subsection \<open>A refund and its payment\<close>

lemma to_paise_le:
  assumes "a \<le> from_paise k" "0 \<le> k" "k \<le> 10 ^ 12" "0 \<le> a"
  shows "to_paise a \<le> k"
proof -
  have k: "0 \<le> (of_int k :: rat)" "(of_int k :: rat) \<le> 1000000000000"
    using assms(2,3) of_int_le_iff [of k 1000000000000, where 'a = rat] by simp_all
  have "\<bar>from_paise k - of_int k / 100\<bar> \<le> \<bar>of_int k / 100\<bar> / 2 ^ 53" unfolding from_paise_def by (rule fl_error)
  moreover have "\<bar>of_int k / 100 :: rat\<bar> / 2 ^ 53 \<le> 1 / 1000" using k by simp
  ultimately have f: "from_paise k \<le> of_int k / 100 + 1 / 1000" by linarith
  have j: "0 \<le> js_decimal a" using assms(4) by (rule js_decimal_nonneg)
  have d: "js_decimal a - js_decimal a / 9007199254740992 \<le> a"
    using abs_le_D1 [OF js_decimal_error [of a]] j by simp
  have "100 * js_decimal a < of_int k + 1 / 2"
  proof (rule ccontr)
    assume "\<not> ?thesis"
    then have l: "of_int k / 100 + 1 / 200 \<le> js_decimal a" by simp
    have "x - x / 9007199254740992 \<le> c + 1 / 1000 \<Longrightarrow> c \<le> 10000000000 \<Longrightarrow> x < c + 1 / 200" for x c :: rat by simp
    from this [of "js_decimal a" "of_int k / 100"] show False using l d f assms(1) k(2) by simp
  qed
  then have "\<lfloor>100 * js_decimal a + 1 / 2\<rfloor> \<le> k" by (simp add: floor_le_iff)
  then show ?thesis using j by (simp add: to_paise_def round_away_def)
qed

definition payments_fit :: "payment list \<Rightarrow> bool" where
  "payments_fit ps \<longleftrightarrow> (\<forall>p\<in>set ps. 0 \<le> pm_amount p \<and> numeric_fits 12 (pm_amount p))"

definition refunds_fit :: "safety \<Rightarrow> bool" where
  "refunds_fit s \<longleftrightarrow> (\<forall>k < length (safety_payments s). refunded k s \<le> pm_amount (safety_payments s ! k))
     \<and> (\<forall>r\<in>set (sf_refunds s). 0 < rf_amount r \<and> rf_payment r < length (safety_payments s) \<and> pm_ride (safety_payments s ! rf_payment r) = rf_ride r)"

lemma refunded_nonneg: "\<forall>r\<in>set (sf_refunds s). 0 < rf_amount r \<Longrightarrow> 0 \<le> refunded k s"
  unfolding refunded_def by (rule sum_list_nonneg) auto

lemma payment_index_some: "payment_index i s = Some k \<Longrightarrow> k < length (safety_payments s) \<and> pm_ride (safety_payments s ! k) = i"
  unfolding payment_index_def by (auto simp: find_Some_iff)

lemma refund_tx_cases:
  assumes "refund_tx k admin out note amount ride s = (x, s1)"
  obtains "s1 = s"
  | a p where "x = Inr ()" "payment_index ride s = Some p" "0 < a" "a \<le> round2 (fsub (from_paise (pm_amount (safety_payments s ! p))) (from_paise (refunded p s)))"
      "0 < to_paise a" "s1 = s\<lparr>sf_refunds := sf_refunds s @ [\<lparr>rf_payment = p, rf_ride = ride, rf_dispute = k, rf_amount = to_paise a, rf_reason = note, rf_admin = admin\<rparr>]\<rparr>"
proof (cases amount)
  case None
  then show ?thesis using assms that(1) by (simp add: refund_tx_def)
next
  case (Some a)
  show ?thesis
  proof (cases "(0 < a \<and> refund_outcome out) \<and> payment_index ride s \<noteq> None")
    case False
    then have "refund_tx k admin out note amount ride s = (Inr (), s)"
      using Some by (cases "0 < a \<and> refund_outcome out") (simp_all add: refund_tx_def)
    then show ?thesis using assms that(1) by simp
  next
    case True
    then obtain p where p: "payment_index ride s = Some p" by blast
    let ?l = "round2 (fsub (from_paise (pm_amount (safety_payments s ! p))) (from_paise (refunded p s))) < a"
    let ?n = "s\<lparr>sf_refunds := sf_refunds s @ [\<lparr>rf_payment = p, rf_ride = ride, rf_dispute = k, rf_amount = to_paise a, rf_reason = note, rf_admin = admin\<rparr>]\<rparr>"
    have run: "(x, s1) = (if ?l then (Inl (http_err 400 ''REFUND_EXCEEDS_PAYMENT''), s) else if to_paise a \<le> 0 then (Inl db_error, s) else (Inr (), ?n))"
      using assms True p Some by (simp add: refund_tx_def Let_def)
    show ?thesis
    proof (cases "?l \<or> to_paise a \<le> 0")
      case True
      then have "s1 = s" using run by (auto split: if_splits)
      then show ?thesis by (rule that(1))
    next
      case False
      then have "x = Inr ()" "s1 = ?n" using run by simp_all
      then show ?thesis using True p False by (intro that(2)) auto
    qed
  qed
qed

lemma refund_fits:
  assumes fit: "payments_fit (safety_payments s)" and inv: "refunds_fit s"
    and run: "refund_tx k admin out note amount ride s = (x, s1)"
  shows "refunds_fit s1"
  using run
proof (cases rule: refund_tx_cases)
  case 1
  then show ?thesis using inv by simp
next
  case (2 a p)
  note p = payment_index_some [OF 2(2)]
  let ?m = "pm_amount (safety_payments s ! p)"
  have m: "0 \<le> ?m" "numeric_fits 12 ?m" using fit p nth_mem [of p "safety_payments s"] unfolding payments_fit_def by auto
  have r: "0 \<le> refunded p s" "refunded p s \<le> ?m" using inv p refunded_nonneg [of s p] unfolding refunds_fit_def by auto
  have ok: "paise_ok ?m" "paise_ok (refunded p s)" "paise_ok (?m - refunded p s)" using m r by (simp_all add: paise_ok_def numeric_fits_def)
  have "a \<le> from_paise (?m - refunded p s)" using 2(4) by (simp add: round2_fsub_paise [OF ok])
  then have le: "to_paise a \<le> ?m - refunded p s" using 2(3) m r by (intro to_paise_le) (simp_all add: numeric_fits_def)
  have pay: "safety_payments s1 = safety_payments s" by (simp add: 2(6) safety_payments_def safety_ops_def)
  have "refunded q s1 = refunded q s + (if q = p then to_paise a else 0)" for q by (simp add: 2(6) refunded_def)
  then show ?thesis using inv le p 2(5) unfolding refunds_fit_def pay by (auto simp: 2(6))
qed

subsection \<open>What the operations leave alone\<close>

definition books :: "safety \<Rightarrow> rating list \<times> (party \<Rightarrow> score) \<times> refund list \<times> payment list \<times> ride_db" where
  "books s = (sf_ratings s, sf_scores s, sf_refunds s, safety_payments s, op_rides (safety_ops s))"

lemma books_update [simp]:
  "books (s\<lparr>sf_tags := a\<rparr>) = books s" "books (s\<lparr>sf_alerts := b\<rparr>) = books s" "books (s\<lparr>sf_hits := c\<rparr>) = books s" "books (s\<lparr>sf_sos_rides := d\<rparr>) = books s"
  "books (s\<lparr>sf_pages := e\<rparr>) = books s" "books (s\<lparr>sf_disputes := f\<rparr>) = books s" "books (s\<lparr>sf_actions := g\<rparr>) = books s" "books (s\<lparr>sf_warnings := h\<rparr>) = books s"
  by (simp_all add: books_def safety_payments_def safety_ops_def)

lemma books_rows [simp]:
  "books (insertRatingTags k tags s) = books s" "books (with_alert k fa s) = books s" "books (insertSosAlert now i p x s) = books s"
  "books (with_dispute k fd s) = books s" "books (insertDisputeAction k admin ty note s) = books s" "books (insertDriverWarning now d admin k ride why s) = books s"
  by (simp_all add: insertRatingTags_def with_alert_def insertSosAlert_def with_dispute_def insertDisputeAction_def insertDriverWarning_def)

lemma books_raise [simp]: "books (raise_alert now i p x s) = books s"
  by (simp add: raise_alert_def Let_def)

lemma books_trigger: "books (snd (triggerSos f now i p x s)) = books s"
  unfolding triggerSos_def by (simp add: Let_def split: option.split sum.split prod.split)

lemma books_answer: "books (snd (acknowledgeSosAlert now k admin s)) = books s" "books (snd (resolveSosAlert now k admin alarm note s)) = books s"
  by (simp_all add: acknowledgeSosAlert_def resolveSosAlert_def)

lemma books_fold: "(\<And>k s. books (f k s) = books s) \<Longrightarrow> books (fold f ks s) = books s"
  by (induction ks arbitrary: s) simp_all

lemma books_sweeps: "books (sweepStaleSosAlerts now down s) = books s" "books (sweepBreachedDisputeSlas now down s) = books s"
  unfolding sweepStaleSosAlerts_def sweepBreachedDisputeSlas_def
  by (intro books_fold, simp add: escalate_alert_def) (intro books_fold, simp add: escalate_dispute_def)

lemma books_create: "books (snd (createDispute now i p ty txt prio s)) = books s"
  unfolding createDispute_def insertDispute_def by (simp split: option.split sum.split)

lemma books_assign: "books (snd (assignDispute k admin s)) = books s"
  by (simp add: assignDispute_def)

lemma books_suspend [simp]: "books (suspend_for d why s) = books s"
  by (simp add: suspend_for_def Let_def books_def safety_payments_def safety_ops_def createStatusHistory_def with_status_def)

lemma books_consequences: "books (applyDisputeOutcomeConsequences noticed now limit days reason k ride out admin note s) = books s"
  unfolding applyDisputeOutcomeConsequences_def by (simp add: Let_def split: option.split)

lemma books_fits: "books s' = books s \<Longrightarrow> refunds_fit s' = refunds_fit s"
  by (simp add: books_def refunds_fit_def refunded_def)

lemma books_close [simp]: "books (close_dispute now k admin out note s) = books s"
  by (simp add: close_dispute_def)

lemma resolve_tx_cases:
  assumes "resolve_tx now k admin out note amount d s = (x, s')"
  obtains err where "x = Inl err" "s' = s"
  | "x = Inr ()" "refund_tx k admin out note amount (dp_ride d) (close_dispute now k admin out note s) = (Inr (), s')"
proof -
  obtain y s1 where y: "refund_tx k admin out note amount (dp_ride d) (close_dispute now k admin out note s) = (y, s1)" by fastforce
  show thesis
  proof (cases y)
    case (Inl err)
    then have "x = Inl err" "s' = s" using assms y by (simp_all add: resolve_tx_def)
    then show thesis by (rule that(1))
  next
    case (Inr u)
    then have "x = Inr ()" "s' = s1" using assms y by (simp_all add: resolve_tx_def)
    then show thesis using y Inr by (intro that(2)) simp_all
  qed
qed

lemma books_resolve:
  assumes run: "resolve_tx now k admin out note amount d s = (x, s')"
  shows "sf_ratings s' = sf_ratings s \<and> sf_scores s' = sf_scores s \<and> safety_payments s' = safety_payments s \<and> op_rides (safety_ops s') = op_rides (safety_ops s)"
  using run
proof (cases rule: resolve_tx_cases)
  case 2
  define s0 where "s0 = close_dispute now k admin out note s"
  have b: "books s0 = books s" by (simp add: s0_def)
  have "s' = s0 \<or> (\<exists>r. s' = s0\<lparr>sf_refunds := r\<rparr>)" using 2(2) unfolding s0_def [symmetric] by (cases rule: refund_tx_cases) blast+
  then have "sf_ratings s' = sf_ratings s0 \<and> sf_scores s' = sf_scores s0 \<and> safety_payments s' = safety_payments s0 \<and> op_rides (safety_ops s') = op_rides (safety_ops s0)"
    by (auto simp: safety_payments_def safety_ops_def)
  then show ?thesis using b by (simp add: books_def)
qed simp

lemma resolve_fits:
  assumes fit: "payments_fit (safety_payments s)" and inv: "refunds_fit s" and run: "resolve_tx now k admin out note amount d s = (x, s')"
  shows "refunds_fit s'"
  using run
proof (cases rule: resolve_tx_cases)
  case 2
  have b: "books (close_dispute now k admin out note s) = books s" by simp
  have "payments_fit (safety_payments (close_dispute now k admin out note s))" using fit b by (simp add: books_def)
  moreover have "refunds_fit (close_dispute now k admin out note s)" using inv books_fits [OF b] by simp
  ultimately show ?thesis using 2(2) by (rule refund_fits)
qed (use inv in simp)

subsection \<open>Every interleaving\<close>

text \<open>
  What the rest of the program does to the tables it owns between two statements of this module: the amount and the ride of a payment are never written again, and a completed ride keeps its people.
\<close>

definition same_people :: "nat \<Rightarrow> ride_row \<Rightarrow> safety \<Rightarrow> bool" where
  "same_people i r s \<longleftrightarrow> (\<exists>r'. getRideBasic i s = Some r' \<and> rr_status r' = Completed \<and> rr_user r' = rr_user r \<and> rr_driver r' = rr_driver r)"

definition elsewhere :: "safety \<Rightarrow> safety \<Rightarrow> bool" where
  "elsewhere s s' \<longleftrightarrow> (\<exists>ds. s' = s\<lparr>sf_dossier := ds\<rparr>) \<and> payments_fit (safety_payments s') \<and> length (safety_payments s) \<le> length (safety_payments s')
     \<and> (\<forall>k < length (safety_payments s). pm_ride (safety_payments s' ! k) = pm_ride (safety_payments s ! k) \<and> pm_amount (safety_payments s' ! k) = pm_amount (safety_payments s ! k))
     \<and> (\<forall>i r. getRideBasic i s = Some r \<and> rr_status r = Completed \<longrightarrow> same_people i r s')"

text \<open>\<open>sx_rides\<close>, \<open>sx_disputes\<close>: rows read at some earlier moment; \<open>sx_new\<close>: ratings inserted whose score has not been added yet.\<close>

record safety_run =
  sx_db :: safety
  sx_rides :: "(nat \<times> ride_row) list"
  sx_disputes :: "(nat \<times> dispute) list"
  sx_new :: "rating list"

inductive safety_step :: "safety_run \<Rightarrow> safety_run \<Rightarrow> bool" where
  others: "elsewhere (sx_db w) s' \<Longrightarrow> safety_step w (w\<lparr>sx_db := s'\<rparr>)"
| reads_ride: "getRideBasic i (sx_db w) = Some r \<Longrightarrow> safety_step w (w\<lparr>sx_rides := (i, r) # sx_rides w\<rparr>)"
| reads_dispute: "k < length (sf_disputes (sx_db w)) \<Longrightarrow> safety_step w (w\<lparr>sx_disputes := (k, sf_disputes (sx_db w) ! k) # sx_disputes w\<rparr>)"
| rates: "(i, r) \<in> set (sx_rides w) \<Longrightarrow> rating_of i dir n (rater dir user driver) comment (Some r) dup = Inr x \<Longrightarrow> insertRating x (sx_db w) = (Inr k, s')
    \<Longrightarrow> safety_step w (w\<lparr>sx_db := s', sx_new := x # sx_new w\<rparr>)"
| tags: "safety_step w (w\<lparr>sx_db := insertRatingTags k ts (sx_db w)\<rparr>)"
| counts: "x \<in> set (sx_new w) \<Longrightarrow> safety_step w (w\<lparr>sx_db := updateRatingAvg (rt_to x) (rt_score x) (sx_db w), sx_new := remove1 x (sx_new w)\<rparr>)"
| presses: "safety_step w (w\<lparr>sx_db := snd (triggerSos f now i p press (sx_db w))\<rparr>)"
| acknowledges: "safety_step w (w\<lparr>sx_db := snd (acknowledgeSosAlert now k admin (sx_db w))\<rparr>)"
| closes: "safety_step w (w\<lparr>sx_db := snd (resolveSosAlert now k admin alarm note (sx_db w))\<rparr>)"
| pages: "safety_step w (w\<lparr>sx_db := sweepStaleSosAlerts now down (sx_db w)\<rparr>)"
| creates: "safety_step w (w\<lparr>sx_db := snd (createDispute now i p ty txt prio (sx_db w))\<rparr>)"
| assigns: "safety_step w (w\<lparr>sx_db := snd (assignDispute k admin (sx_db w))\<rparr>)"
| resolves: "(k, d) \<in> set (sx_disputes w) \<Longrightarrow> resolve_tx now k admin out why amount d (sx_db w) = (y, s') \<Longrightarrow> safety_step w (w\<lparr>sx_db := s'\<rparr>)"
| follows_up: "safety_step w (w\<lparr>sx_db := applyDisputeOutcomeConsequences noticed now limit days reason k ride out admin why (sx_db w)\<rparr>)"
| escalates: "safety_step w (w\<lparr>sx_db := sweepBreachedDisputeSlas now down (sx_db w)\<rparr>)"

text \<open>Most steps leave all the books alone.\<close>

lemma safety_step_cases:
  assumes "safety_step w w'"
  obtains "books (sx_db w') = books (sx_db w)" "sx_new w' = sx_new w" "\<forall>(i, r) \<in> set (sx_rides w'). (i, r) \<in> set (sx_rides w) \<or> getRideBasic i (sx_db w) = Some r"
  | s' where "elsewhere (sx_db w) s'" "w' = w\<lparr>sx_db := s'\<rparr>"
  | i r dir n user driver comment dup x k s' where "(i, r) \<in> set (sx_rides w)" "rating_of i dir n (rater dir user driver) comment (Some r) dup = Inr x"
      "insertRating x (sx_db w) = (Inr k, s')" "w' = w\<lparr>sx_db := s', sx_new := x # sx_new w\<rparr>"
  | x where "x \<in> set (sx_new w)" "w' = w\<lparr>sx_db := updateRatingAvg (rt_to x) (rt_score x) (sx_db w), sx_new := remove1 x (sx_new w)\<rparr>"
  | now k admin out why amount d y s' where "resolve_tx now k admin out why amount d (sx_db w) = (y, s')" "w' = w\<lparr>sx_db := s'\<rparr>"
  using assms
proof cases
  case (others s') then show thesis by (intro that(2))
next
  case (rates i r dir n user driver comment dup x k s') then show thesis by (intro that(3))
next
  case (counts x) then show thesis by (intro that(4))
next
  case (resolves k d now admin out why amount y s') then show thesis by (intro that(5))
next
  case (reads_ride i r) then show thesis by (intro that(1)) auto
qed (rule that(1); force simp: books_trigger books_answer books_sweeps books_create books_assign books_consequences)+

subsection \<open>Refunds stay within the payment\<close>

lemma insertRating_some:
  assumes "insertRating x s = (Inr k, s')"
  shows "\<not> ratingExists (rt_ride x) (rt_direction x) s \<and> 1 \<le> rt_score x \<and> rt_score x \<le> 5 \<and> k = length (sf_ratings s) \<and> s' = s\<lparr>sf_ratings := sf_ratings s @ [x]\<rparr>"
proof (cases "ratingExists (rt_ride x) (rt_direction x) s \<or> rt_score x < 1 \<or> 5 < rt_score x")
  case True
  then have "\<exists>err. insertRating x s = (Inl err, s)" by (cases "ratingExists (rt_ride x) (rt_direction x) s") (simp_all add: insertRating_def)
  then show ?thesis using assms by auto
next
  case False
  then have "insertRating x s = (Inr (length (sf_ratings s)), s\<lparr>sf_ratings := sf_ratings s @ [x]\<rparr>)" by (simp add: insertRating_def)
  then show ?thesis using assms False by simp
qed

definition money_fits :: "safety \<Rightarrow> bool" where
  "money_fits s \<longleftrightarrow> payments_fit (safety_payments s) \<and> refunds_fit s"

lemma money_fits_books: "books s' = books s \<Longrightarrow> money_fits s' = money_fits s"
  using books_fits [of s' s] by (simp add: money_fits_def books_def)

lemma money_fits_elsewhere:
  assumes inv: "money_fits s" and e: "elsewhere s s'"
  shows "money_fits s'"
proof -
  obtain ds where s': "s' = s\<lparr>sf_dossier := ds\<rparr>" using e unfolding elsewhere_def by blast
  have fit: "payments_fit (safety_payments s')" and len: "length (safety_payments s) \<le> length (safety_payments s')"
    and old: "\<And>k. k < length (safety_payments s) \<Longrightarrow> pm_ride (safety_payments s' ! k) = pm_ride (safety_payments s ! k) \<and> pm_amount (safety_payments s' ! k) = pm_amount (safety_payments s ! k)"
    using e unfolding elsewhere_def by blast+
  have r: "sf_refunds s' = sf_refunds s" "\<And>k. refunded k s' = refunded k s" by (simp_all add: s' refunded_def)
  have rows: "\<And>r. r \<in> set (sf_refunds s) \<Longrightarrow> 0 < rf_amount r \<and> rf_payment r < length (safety_payments s) \<and> pm_ride (safety_payments s ! rf_payment r) = rf_ride r"
    and sums: "\<And>k. k < length (safety_payments s) \<Longrightarrow> refunded k s \<le> pm_amount (safety_payments s ! k)"
    using inv unfolding money_fits_def refunds_fit_def by blast+
  have "refunded k s' \<le> pm_amount (safety_payments s' ! k)" if k: "k < length (safety_payments s')" for k
  proof (cases "k < length (safety_payments s)")
    case True
    then show ?thesis using sums [OF True] old [OF True] r by simp
  next
    case False
    then have "filter (\<lambda>r. rf_payment r = k) (sf_refunds s) = []" using rows by (fastforce simp: filter_empty_conv)
    then have "refunded k s' = 0" by (simp add: r refunded_def)
    then show ?thesis using fit nth_mem [OF k] unfolding payments_fit_def by simp
  qed
  moreover have "0 < rf_amount r \<and> rf_payment r < length (safety_payments s') \<and> pm_ride (safety_payments s' ! rf_payment r) = rf_ride r" if a: "r \<in> set (sf_refunds s')" for r
    using rows [of r] old [of "rf_payment r"] len a by (simp add: r)
  ultimately show ?thesis using fit unfolding money_fits_def refunds_fit_def by blast
qed

lemma money_fits_step:
  assumes "safety_step w w'" and inv: "money_fits (sx_db w)"
  shows "money_fits (sx_db w')"
  using assms(1)
proof (cases rule: safety_step_cases)
  case 1
  show ?thesis using inv money_fits_books [OF 1(1)] by simp
next
  case (2 s')
  then show ?thesis using money_fits_elsewhere [OF inv] by simp
next
  case (3 i r dir n user driver comment dup x k s')
  have "s' = (sx_db w)\<lparr>sf_ratings := sf_ratings (sx_db w) @ [x]\<rparr>" using insertRating_some [OF 3(3)] by blast
  then show ?thesis using inv 3(4) by (simp add: money_fits_def refunds_fit_def refunded_def safety_payments_def safety_ops_def)
next
  case (4 x)
  then show ?thesis using inv by (simp add: updateRatingAvg_def money_fits_def refunds_fit_def refunded_def safety_payments_def safety_ops_def)
next
  case (5 now k admin out why amount d y s')
  have "safety_payments s' = safety_payments (sx_db w)" using books_resolve [OF 5(1)] by blast
  then show ?thesis using inv resolve_fits [OF _ _ 5(1)] 5(2) by (simp add: money_fits_def)
qed

text \<open>
  C33. Refunds never exceed the payment. Whatever ratings, alerts, disputes, resolutions (also of one dispute twice, or of one ride by several admins from rows read earlier), sweeps and
  changes made elsewhere are interleaved, the refunds of a payment never add up to more than its amount, each is positive and each belongs to the ride of its payment. The check that
  guards this is one in binary floating point, on an amount that the column then rounds.
\<close>

theorem refunds_within_payment:
  assumes "safety_step\<^sup>*\<^sup>* w0 w" and "sf_refunds (sx_db w0) = []" and "payments_fit (safety_payments (sx_db w0))"
  shows "(\<forall>k < length (safety_payments (sx_db w)). refunded k (sx_db w) \<le> pm_amount (safety_payments (sx_db w) ! k))
    \<and> (\<forall>r\<in>set (sf_refunds (sx_db w)). 0 < rf_amount r \<and> rf_payment r < length (safety_payments (sx_db w)) \<and> pm_ride (safety_payments (sx_db w) ! rf_payment r) = rf_ride r)"
proof -
  have "refunds_fit (sx_db w0)" using assms(2,3) by (auto simp: refunds_fit_def refunded_def payments_fit_def)
  then have "money_fits (sx_db w0)" using assms(3) by (simp add: money_fits_def)
  with assms(1) have "money_fits (sx_db w)" by (induction rule: rtranclp_induct) (simp_all add: money_fits_step)
  then show ?thesis unfolding money_fits_def refunds_fit_def by blast
qed

subsection \<open>Ratings\<close>

definition scored :: "party \<Rightarrow> rating list \<Rightarrow> int" where
  "scored p xs = sum_list (map rt_score (filter (\<lambda>x. rt_to x = p) xs))"

definition rated :: "party \<Rightarrow> rating list \<Rightarrow> int" where
  "rated p xs = int (length (filter (\<lambda>x. rt_to x = p) xs))"

definition fair_rating :: "safety \<Rightarrow> rating \<Rightarrow> bool" where
  "fair_rating s x \<longleftrightarrow> 1 \<le> rt_score x \<and> rt_score x \<le> 5
     \<and> (\<exists>r d. getRideBasic (rt_ride x) s = Some r \<and> rr_status r = Completed \<and> rr_driver r = Some d
         \<and> (rt_from x, rt_to x) = (case rt_direction x of UserToDriver \<Rightarrow> (Rider (rr_user r), Cabbie d) | DriverToUser \<Rightarrow> (Cabbie d, Rider (rr_user r))))"

definition ratings_fit :: "safety_run \<Rightarrow> bool" where
  "ratings_fit w \<longleftrightarrow> (\<forall>(i, r) \<in> set (sx_rides w). rr_status r = Completed \<longrightarrow> same_people i r (sx_db w))
     \<and> (\<forall>x\<in>set (sf_ratings (sx_db w)). fair_rating (sx_db w) x)
     \<and> distinct (map (\<lambda>x. (rt_ride x, rt_direction x)) (sf_ratings (sx_db w)))
     \<and> (\<forall>p. sc_sum (sf_scores (sx_db w) p) + scored p (sx_new w) = scored p (sf_ratings (sx_db w))
          \<and> sc_count (sf_scores (sx_db w) p) + rated p (sx_new w) = rated p (sf_ratings (sx_db w)))"

lemma ride_of_books: "op_rides (safety_ops s') = op_rides (safety_ops s) \<Longrightarrow> getRideBasic i s' = getRideBasic i s \<and> same_people i r s' = same_people i r s \<and> fair_rating s' x = fair_rating s x"
  by (simp add: same_people_def getRideBasic_def fair_rating_def)

lemma ratings_fit_same:
  assumes inv: "ratings_fit w" and db: "op_rides (safety_ops (sx_db w')) = op_rides (safety_ops (sx_db w))" "sf_ratings (sx_db w') = sf_ratings (sx_db w)" "sf_scores (sx_db w') = sf_scores (sx_db w)"
    and new: "sx_new w' = sx_new w" and rides: "\<forall>(i, r) \<in> set (sx_rides w'). (i, r) \<in> set (sx_rides w) \<or> getRideBasic i (sx_db w) = Some r"
  shows "ratings_fit w'"
proof -
  have b: "getRideBasic i (sx_db w') = getRideBasic i (sx_db w)" "same_people i r (sx_db w') = same_people i r (sx_db w)" "fair_rating (sx_db w') x = fair_rating (sx_db w) x" for i r x
    using ride_of_books [OF db(1)] by blast+
  have "same_people i r (sx_db w)" if "(i, r) \<in> set (sx_rides w')" "rr_status r = Completed" for i r
    using rides inv that unfolding ratings_fit_def same_people_def by blast
  then show ?thesis using inv unfolding ratings_fit_def b db new by blast
qed

lemma same_people_elsewhere: "elsewhere s s' \<Longrightarrow> same_people i r s \<Longrightarrow> same_people i r s'"
  unfolding elsewhere_def same_people_def by fastforce

lemma fair_elsewhere:
  assumes "elsewhere s s'" "fair_rating s x"
  shows "fair_rating s' x"
proof -
  obtain r d where r: "getRideBasic (rt_ride x) s = Some r" "rr_status r = Completed" "rr_driver r = Some d"
    "(rt_from x, rt_to x) = (case rt_direction x of UserToDriver \<Rightarrow> (Rider (rr_user r), Cabbie d) | DriverToUser \<Rightarrow> (Cabbie d, Rider (rr_user r)))"
    using assms(2) unfolding fair_rating_def by blast
  then have "same_people (rt_ride x) r s'" using assms(1) unfolding elsewhere_def by blast
  then obtain r' where "getRideBasic (rt_ride x) s' = Some r'" "rr_status r' = Completed" "rr_user r' = rr_user r" "rr_driver r' = rr_driver r"
    unfolding same_people_def by blast
  moreover from this have "rr_driver r' = Some d" using r(3) by simp
  moreover have "(rt_from x, rt_to x) = (case rt_direction x of UserToDriver \<Rightarrow> (Rider (rr_user r'), Cabbie d) | DriverToUser \<Rightarrow> (Cabbie d, Rider (rr_user r')))"
    unfolding \<open>rr_user r' = rr_user r\<close> by (rule r(4))
  ultimately show ?thesis using assms(2) unfolding fair_rating_def by blast
qed

lemma ratings_fit_elsewhere:
  assumes inv: "ratings_fit w" and e: "elsewhere (sx_db w) s'"
  shows "ratings_fit (w\<lparr>sx_db := s'\<rparr>)"
proof -
  have "sf_ratings s' = sf_ratings (sx_db w)" "sf_scores s' = sf_scores (sx_db w)" using e unfolding elsewhere_def by auto
  then show ?thesis using inv same_people_elsewhere [OF e] fair_elsewhere [OF e] unfolding ratings_fit_def by fastforce
qed

lemma rating_of_some:
  assumes "rating_of i dir n (rater dir user driver) comment (Some r) dup = Inr x"
  shows "rr_status r = Completed \<and> rt_ride x = i \<and> rt_direction x = dir \<and> rt_score x = n
    \<and> (\<exists>d. rr_driver r = Some d \<and> (rt_from x, rt_to x) = (case dir of UserToDriver \<Rightarrow> (Rider (rr_user r), Cabbie d) | DriverToUser \<Rightarrow> (Cabbie d, Rider (rr_user r))))"
proof -
  have c: "rr_status r = Completed" "\<not> dup" using assms by (auto simp: rating_of_def guard_err_def split: if_splits)
  show ?thesis
  proof (cases dir)
    case UserToDriver
    then show ?thesis using assms c by (cases user; cases "rr_driver r") (auto simp: rating_of_def rater_def guard_err_def assertRideParticipant_def takes_part_def split: if_splits)
  next
    case DriverToUser
    then show ?thesis using assms c by (cases driver) (auto simp: rating_of_def rater_def guard_err_def assertRideParticipant_def takes_part_def split: if_splits)
  qed
qed

lemma ratings_fit_insert:
  assumes inv: "ratings_fit w" and seen: "(i, r) \<in> set (sx_rides w)"
    and x: "rating_of i dir n (rater dir user driver) comment (Some r) dup = Inr x" and run: "insertRating x (sx_db w) = (Inr k, s')"
  shows "ratings_fit (w\<lparr>sx_db := s', sx_new := x # sx_new w\<rparr>)"
proof -
  note ins = insertRating_some [OF run]
  note rate = rating_of_some [OF x]
  have s': "s' = (sx_db w)\<lparr>sf_ratings := sf_ratings (sx_db w) @ [x]\<rparr>" using ins by blast
  have o: "op_rides (safety_ops s') = op_rides (safety_ops (sx_db w))" by (simp add: s' safety_ops_def)
  have b: "same_people j q s' = same_people j q (sx_db w)" "fair_rating s' y = fair_rating (sx_db w) y" for j q y
    using ride_of_books [OF o] by blast+
  have "same_people i r (sx_db w)" using inv seen rate unfolding ratings_fit_def by blast
  then obtain r' where r': "getRideBasic i (sx_db w) = Some r'" "rr_status r' = Completed" "rr_user r' = rr_user r" "rr_driver r' = rr_driver r"
    unfolding same_people_def by blast
  obtain d where d: "rr_driver r = Some d"
    "(rt_from x, rt_to x) = (case rt_direction x of UserToDriver \<Rightarrow> (Rider (rr_user r), Cabbie d) | DriverToUser \<Rightarrow> (Cabbie d, Rider (rr_user r)))"
    using rate by auto
  have "getRideBasic (rt_ride x) (sx_db w) = Some r' \<and> rr_status r' = Completed \<and> rr_driver r' = Some d
    \<and> (rt_from x, rt_to x) = (case rt_direction x of UserToDriver \<Rightarrow> (Rider (rr_user r'), Cabbie d) | DriverToUser \<Rightarrow> (Cabbie d, Rider (rr_user r')))"
    unfolding r'(3) using r' d rate by simp
  then have fair: "fair_rating (sx_db w) x" using ins unfolding fair_rating_def by blast
  have "distinct (map (\<lambda>y. (rt_ride y, rt_direction y)) (sf_ratings (sx_db w) @ [x]))"
    using inv ins unfolding ratings_fit_def ratingExists_def by (auto simp: list_ex_iff)
  moreover have "sf_ratings s' = sf_ratings (sx_db w) @ [x]" "sf_scores s' = sf_scores (sx_db w)" by (simp_all add: s')
  ultimately show ?thesis using inv fair unfolding ratings_fit_def by (simp add: b scored_def rated_def)
qed

lemma scored_remove1: "x \<in> set xs \<Longrightarrow> scored p xs = (if rt_to x = p then rt_score x else 0) + scored p (remove1 x xs)"
  using sum_list_map_remove1 [of x "filter (\<lambda>x. rt_to x = p) xs" rt_score] by (simp add: scored_def filter_remove1 remove1_idem)

lemma rated_remove1: "x \<in> set xs \<Longrightarrow> rated p xs = (if rt_to x = p then 1 else 0) + rated p (remove1 x xs)"
proof -
  have "int (length ys) = 1 + int (length (remove1 x ys))" if "x \<in> set ys" for ys :: "rating list"
    using that by (induction ys) auto
  moreover assume "x \<in> set xs"
  ultimately show ?thesis by (simp add: rated_def filter_remove1 remove1_idem)
qed

lemma ratings_fit_count:
  assumes inv: "ratings_fit w" and x: "x \<in> set (sx_new w)"
  shows "ratings_fit (w\<lparr>sx_db := updateRatingAvg (rt_to x) (rt_score x) (sx_db w), sx_new := remove1 x (sx_new w)\<rparr>)"
proof -
  let ?s = "updateRatingAvg (rt_to x) (rt_score x) (sx_db w)"
  have o: "op_rides (safety_ops ?s) = op_rides (safety_ops (sx_db w))" by (simp add: updateRatingAvg_def safety_ops_def)
  have b: "same_people j q ?s = same_people j q (sx_db w)" "fair_rating ?s y = fair_rating (sx_db w) y" for j q y
    using ride_of_books [OF o] by blast+
  have s: "sf_ratings ?s = sf_ratings (sx_db w)" "sc_sum (sf_scores ?s p) = sc_sum (sf_scores (sx_db w) p) + (if rt_to x = p then rt_score x else 0)"
    "sc_count (sf_scores ?s p) = sc_count (sf_scores (sx_db w) p) + (if rt_to x = p then 1 else 0)" for p by (simp_all add: updateRatingAvg_def)
  have sums: "sc_sum (sf_scores (sx_db w) p) + scored p (sx_new w) = scored p (sf_ratings (sx_db w))" "sc_count (sf_scores (sx_db w) p) + rated p (sx_new w) = rated p (sf_ratings (sx_db w))" for p
    using inv unfolding ratings_fit_def by blast+
  have "sc_sum (sf_scores ?s p) + scored p (remove1 x (sx_new w)) = scored p (sf_ratings (sx_db w))" "sc_count (sf_scores ?s p) + rated p (remove1 x (sx_new w)) = rated p (sf_ratings (sx_db w))" for p
    using sums [of p] scored_remove1 [OF x, of p] rated_remove1 [OF x, of p] unfolding s by linarith+
  then show ?thesis using inv unfolding ratings_fit_def by (simp add: b s)
qed

lemma ratings_fit_step:
  assumes "safety_step w w'" and inv: "ratings_fit w"
  shows "ratings_fit w'"
  using assms(1)
proof (cases rule: safety_step_cases)
  case 1
  show ?thesis by (rule ratings_fit_same [OF inv _ _ _ 1(2,3)]) (use 1(1) in \<open>simp_all add: books_def\<close>)
next
  case (2 s')
  show ?thesis unfolding 2(2) by (rule ratings_fit_elsewhere [OF inv 2(1)])
next
  case (3 i r dir n user driver comment dup x k s')
  show ?thesis unfolding 3(4) by (rule ratings_fit_insert [OF inv 3(1-3)])
next
  case (4 x)
  show ?thesis unfolding 4(2) by (rule ratings_fit_count [OF inv 4(1)])
next
  case (5 now k admin out why amount d y s')
  show ?thesis by (rule ratings_fit_same [OF inv]) (use books_resolve [OF 5(1)] in \<open>auto simp: 5(2)\<close>)
qed

definition unrated :: "safety_run \<Rightarrow> bool" where
  "unrated w \<longleftrightarrow> sx_rides w = [] \<and> sx_new w = [] \<and> sf_ratings (sx_db w) = [] \<and> sf_scores (sx_db w) = (\<lambda>_. \<lparr>sc_sum = 0, sc_count = 0\<rparr>)"

lemma unrated_fit: "unrated w \<Longrightarrow> ratings_fit w"
  by (simp add: unrated_def ratings_fit_def scored_def rated_def)

lemma scored_bounds: "\<forall>x\<in>set xs. 1 \<le> rt_score x \<and> rt_score x \<le> 5 \<Longrightarrow> rated p xs \<le> scored p xs \<and> scored p xs \<le> 5 * rated p xs"
  by (induction xs) (auto simp: rated_def scored_def)

text \<open>What has been inserted and not been added is among the rows.\<close>

lemma new_among_rows_step:
  assumes "safety_step w w'" and inv: "mset (sx_new w) \<subseteq># mset (sf_ratings (sx_db w))"
  shows "mset (sx_new w') \<subseteq># mset (sf_ratings (sx_db w'))"
  using assms(1)
proof (cases rule: safety_step_cases)
  case 1
  then show ?thesis using inv by (simp add: books_def)
next
  case (2 s')
  then show ?thesis using inv by (auto simp: elsewhere_def)
next
  case (3 i r dir n user driver comment dup x k s')
  have "s' = (sx_db w)\<lparr>sf_ratings := sf_ratings (sx_db w) @ [x]\<rparr>" using insertRating_some [OF 3(3)] by blast
  then show ?thesis using inv 3(4) by simp
next
  case (4 x)
  then show ?thesis using inv subset_mset.order_trans [OF diff_subset_eq_self inv] by (simp add: updateRatingAvg_def)
next
  case (5 now k admin out why amount d y s')
  have "sf_ratings s' = sf_ratings (sx_db w)" using books_resolve [OF 5(1)] by blast
  then show ?thesis using inv 5(2) by simp
qed

lemma scored_mset: "mset xs = mset ys \<Longrightarrow> scored p xs = scored p ys \<and> rated p xs = rated p ys"
proof -
  assume m: "mset xs = mset ys"
  have f: "mset (filter (\<lambda>x. rt_to x = p) xs) = mset (filter (\<lambda>x. rt_to x = p) ys)" by (simp add: m)
  have sum: "sum_list (map rt_score zs) = sum_mset (image_mset rt_score (mset zs))" for zs by (induction zs) simp_all
  show ?thesis unfolding scored_def rated_def sum f using mset_eq_length [OF f] by simp
qed

text \<open>
  C34. A rating average is the average of rows. Whatever is interleaved, from tables without ratings on: a ride is rated at most once in each direction, by one of its two people about
  the other and with a score from 1 to 5; and the sum and the count of each user and driver are at any time those of the rows about them, each row taken once, but for the rows whose update of the
  sums is still to come or was lost when the request failed after the insert (the tags and the sums are statements of their own, and nothing repeats them). So the average always
  lies between 1 and 5. The duplicate check of the service reads before it writes; the unique key and the relative update carry the property.
\<close>

theorem ratings_are_their_rows:
  assumes "safety_step\<^sup>*\<^sup>* w0 w" and "unrated w0"
  shows "distinct (map (\<lambda>x. (rt_ride x, rt_direction x)) (sf_ratings (sx_db w)))
    \<and> (\<forall>x\<in>set (sf_ratings (sx_db w)). fair_rating (sx_db w) x)
    \<and> (\<exists>added. mset (added @ sx_new w) = mset (sf_ratings (sx_db w))
         \<and> (\<forall>p. sc_sum (sf_scores (sx_db w) p) = scored p added \<and> sc_count (sf_scores (sx_db w) p) = rated p added
              \<and> sc_count (sf_scores (sx_db w) p) \<le> sc_sum (sf_scores (sx_db w) p) \<and> sc_sum (sf_scores (sx_db w) p) \<le> 5 * sc_count (sf_scores (sx_db w) p)))"
proof -
  have fit: "ratings_fit w" using assms(1) unrated_fit [OF assms(2)] by (induction rule: rtranclp_induct) (simp_all add: ratings_fit_step)
  then have rows: "\<forall>x\<in>set (sf_ratings (sx_db w)). fair_rating (sx_db w) x" "distinct (map (\<lambda>x. (rt_ride x, rt_direction x)) (sf_ratings (sx_db w)))"
    unfolding ratings_fit_def by blast+
  have "mset (sx_new w0) \<subseteq># mset (sf_ratings (sx_db w0))" using assms(2) by (simp add: unrated_def)
  with assms(1) have "mset (sx_new w) \<subseteq># mset (sf_ratings (sx_db w))" by (induction rule: rtranclp_induct) (simp_all add: new_among_rows_step)
  then obtain M where "mset (sf_ratings (sx_db w)) = mset (sx_new w) + M" by (rule subset_mset.less_eqE)
  moreover obtain added where "mset added = M" by (metis ex_mset)
  ultimately have m: "mset (added @ sx_new w) = mset (sf_ratings (sx_db w))" by simp
  have sums: "sc_sum (sf_scores (sx_db w) p) = scored p added \<and> sc_count (sf_scores (sx_db w) p) = rated p added" for p
    using fit scored_mset [OF m, of p] unfolding ratings_fit_def by (auto simp: scored_def rated_def dest: spec [of _ p])
  have "set added \<subseteq> set (sf_ratings (sx_db w))" using m by (metis set_append set_mset_mset sup_ge1)
  then have "\<forall>x\<in>set added. 1 \<le> rt_score x \<and> rt_score x \<le> 5" using rows(1) unfolding fair_rating_def by blast
  note scored_bounds [OF this]
  then show ?thesis using rows m sums by (intro conjI exI [of _ added]) simp_all
qed

text \<open>A rating whose request failed after the insert is never counted: rating the ride again is refused.\<close>

theorem lost_rating_stays_lost:
  assumes "insertRating x s = (Inr k, s1)" "rt_ride y = rt_ride x" "rt_direction y = rt_direction x"
  shows "x \<in> set (sf_ratings s1) \<and> sf_scores s1 = sf_scores s \<and> insertRating y s1 = (Inl duplicate, s1)"
  using assms by (auto simp: insertRating_def ratingExists_def split: if_splits)

subsection \<open>What a resolution does\<close>

lemma tables_suspend [simp]: "sf_disputes (suspend_for d why s) = sf_disputes s" "sf_refunds (suspend_for d why s) = sf_refunds s" "sf_actions (suspend_for d why s) = sf_actions s" "sf_warnings (suspend_for d why s) = sf_warnings s"
  by (simp_all add: suspend_for_def Let_def)

lemma tables_consequences:
  "sf_disputes (applyDisputeOutcomeConsequences noticed now limit days reason k ride out admin note s) = sf_disputes s"
  "sf_refunds (applyDisputeOutcomeConsequences noticed now limit days reason k ride out admin note s) = sf_refunds s"
  "sf_actions (applyDisputeOutcomeConsequences noticed now limit days reason k ride out admin note s) = sf_actions s"
  by (cases "Option.bind (getRideBasic ride s) rr_driver"; simp add: applyDisputeOutcomeConsequences_def insertDriverWarning_def Let_def)+

lemma status_suspend:
  "exists_driver d (sf_dossier s) \<Longrightarrow> driver_status d (sf_dossier (suspend_for d why s)) = (if driver_status d (sf_dossier s) = Banned then Banned else Suspended)"
  by (simp add: suspend_for_def Let_def createStatusHistory_def with_status_def driver_status_def exists_driver_def)

lemma status_suspend_other: "e \<noteq> d \<Longrightarrow> driver_status e (sf_dossier (suspend_for d why s)) = driver_status e (sf_dossier s)"
  by (simp add: suspend_for_def Let_def createStatusHistory_def with_status_def driver_status_def)

text \<open>The driver who answers for a dispute.\<close>

definition accused :: "nat \<Rightarrow> safety \<Rightarrow> nat option" where
  "accused ride s = Option.bind (getRideBasic ride s) rr_driver"

definition warned :: "int \<Rightarrow> nat \<Rightarrow> nat \<Rightarrow> nat \<Rightarrow> string \<Rightarrow> nat \<Rightarrow> warning" where
  "warned now k ride admin note d = \<lparr>wn_driver = d, wn_admin = admin, wn_dispute = k, wn_ride = Some ride, wn_text = note, wn_at = now\<rparr>"

lemma consequences_driver:
  assumes d: "accused ride s = Some d" "exists_driver d (sf_dossier s)"
    and s': "s' = applyDisputeOutcomeConsequences noticed now limit days reason k ride out admin note s"
  shows "sf_warnings s' = sf_warnings s @ (if out = DriverWarned then [warned now k ride admin note d] else [])
    \<and> driver_status d (sf_dossier s') = (if driver_status d (sf_dossier s) \<noteq> Banned
         \<and> (out = DriverSuspended \<or> out = DriverWarned \<and> noticed \<and> limit \<le> int (countRecentDriverWarnings now d days s')) then Suspended else driver_status d (sf_dossier s))"
proof -
  have c: "Option.bind (getRideBasic ride s) rr_driver = Some d" using d(1) by (simp add: accused_def)
  let ?s1 = "insertDriverWarning now d admin k ride note s"
  have w: "sf_warnings ?s1 = sf_warnings s @ [warned now k ride admin note d]" "sf_dossier ?s1 = sf_dossier s" by (simp_all add: insertDriverWarning_def warned_def)
  have ex: "exists_driver d (sf_dossier ?s1)" using d(2) w by simp
  consider "out = DriverWarned" | "out = DriverSuspended" | "out \<noteq> DriverWarned" "out \<noteq> DriverSuspended" by blast
  then show ?thesis
  proof cases
    case 1
    define n where "n = countRecentDriverWarnings now d days ?s1"
    have s: "s' = (if noticed \<and> limit \<le> int n then suspend_for d (reason n) ?s1 else ?s1)" by (simp add: s' applyDisputeOutcomeConsequences_def c 1 Let_def n_def)
    have "sf_warnings s' = sf_warnings ?s1" by (simp add: s)
    moreover from this have "countRecentDriverWarnings now d days s' = n" by (simp add: countRecentDriverWarnings_def n_def)
    moreover have "driver_status d (sf_dossier s') = (if noticed \<and> limit \<le> int n then if driver_status d (sf_dossier s) = Banned then Banned else Suspended else driver_status d (sf_dossier s))"
      by (simp add: s status_suspend [OF ex] w)
    ultimately show ?thesis using w 1 by simp
  next
    case 2
    then have "s' = suspend_for d note s" by (simp add: s' applyDisputeOutcomeConsequences_def c)
    then show ?thesis using 2 by (simp add: status_suspend [OF d(2)])
  next
    case 3
    then have "s' = s" by (simp add: s' applyDisputeOutcomeConsequences_def)
    then show ?thesis using 3 by simp
  qed
qed

definition settled_dispute :: "int \<Rightarrow> nat \<Rightarrow> dispute_outcome \<Rightarrow> string \<Rightarrow> dispute \<Rightarrow> dispute" where
  "settled_dispute now admin out note d = d\<lparr>dp_status := DisputeResolved, dp_outcome := Some out, dp_note := Some note, dp_resolved_by := Some admin, dp_resolved_at := Some now\<rparr>"

lemma resolveDispute_some:
  assumes run: "resolveDispute noticed now limit days reason k admin out note amount s = (Inr (), s')"
  obtains s1 where "k < length (sf_disputes s)" "refund_tx k admin out note amount (dp_ride (sf_disputes s ! k)) (close_dispute now k admin out note s) = (Inr (), s1)"
    "s' = applyDisputeOutcomeConsequences noticed now limit days reason k (dp_ride (sf_disputes s ! k)) out admin note s1"
proof -
  have k: "k < length (sf_disputes s)"
  proof (rule ccontr)
    assume "\<not> ?thesis"
    then show False using run by (simp add: resolveDispute_def)
  qed
  obtain x s1 where tx: "resolve_tx now k admin out note amount (sf_disputes s ! k) s = (x, s1)" by fastforce
  show thesis
  proof (cases x)
    case (Inl err)
    then show thesis using run k tx by (simp add: resolveDispute_def Let_def)
  next
    case (Inr u)
    then have s': "s' = applyDisputeOutcomeConsequences noticed now limit days reason k (dp_ride (sf_disputes s ! k)) out admin note s1"
      using run k tx by (simp add: resolveDispute_def Let_def)
    show thesis using tx Inr
    proof (cases rule: resolve_tx_cases)
      case 2
      then show thesis using k s' by (intro that) simp_all
    qed simp
  qed
qed

lemma resolveDispute_error:
  assumes run: "resolveDispute noticed now limit days reason k admin out note amount s = (Inl err, s')"
  shows "s' = s"
proof (cases "k < length (sf_disputes s)")
  case True
  obtain x s1 where tx: "resolve_tx now k admin out note amount (sf_disputes s ! k) s = (x, s1)" by fastforce
  show ?thesis
  proof (cases x)
    case (Inl e)
    then have "s' = s1" using run True tx by (simp add: resolveDispute_def Let_def)
    moreover have "s1 = s" using tx by (cases rule: resolve_tx_cases) (simp_all add: Inl)
    ultimately show ?thesis by simp
  next
    case (Inr u)
    then show ?thesis using run True tx by (simp add: resolveDispute_def Let_def)
  qed
qed (use run in \<open>simp add: resolveDispute_def\<close>)

lemma refund_tx_tables:
  assumes "refund_tx k admin out note amount ride s = (x, s1)"
  shows "sf_disputes s1 = sf_disputes s \<and> sf_actions s1 = sf_actions s \<and> sf_warnings s1 = sf_warnings s \<and> sf_dossier s1 = sf_dossier s"
  using assms by (cases rule: refund_tx_cases) simp_all

text \<open>The refund a resolution owes: the payment and the amount.\<close>

definition refund_due :: "dispute_outcome \<Rightarrow> num option \<Rightarrow> nat \<Rightarrow> safety \<Rightarrow> (nat \<times> num) option" where
  "refund_due out amount ride s = (case amount of None \<Rightarrow> None
     | Some a \<Rightarrow> if 0 < a \<and> refund_outcome out then map_option (\<lambda>p. (p, a)) (payment_index ride s) else None)"

definition refund_allowed :: "nat \<times> num \<Rightarrow> safety \<Rightarrow> bool" where
  "refund_allowed due s \<longleftrightarrow> snd due \<le> round2 (fsub (from_paise (pm_amount (safety_payments s ! fst due))) (from_paise (refunded (fst due) s))) \<and> 0 < to_paise (snd due)"

lemma refund_tx_exact:
  assumes "refund_tx k admin out note amount ride s = (x, s1)"
  shows "x = Inr () \<longleftrightarrow> pred_option (\<lambda>due. refund_allowed due s) (refund_due out amount ride s)"
    and "x = Inr () \<Longrightarrow> sf_refunds s1 = sf_refunds s @ (case refund_due out amount ride s of None \<Rightarrow> []
      | Some (p, a) \<Rightarrow> [\<lparr>rf_payment = p, rf_ride = ride, rf_dispute = k, rf_amount = to_paise a, rf_reason = note, rf_admin = admin\<rparr>])"
proof -
  have "(x = Inr () \<longleftrightarrow> pred_option (\<lambda>due. refund_allowed due s) (refund_due out amount ride s)) \<and>
      (x = Inr () \<longrightarrow> sf_refunds s1 = sf_refunds s @ (case refund_due out amount ride s of None \<Rightarrow> []
        | Some (p, a) \<Rightarrow> [\<lparr>rf_payment = p, rf_ride = ride, rf_dispute = k, rf_amount = to_paise a, rf_reason = note, rf_admin = admin\<rparr>]))"
  proof (cases amount)
    case (Some a)
    show ?thesis
    proof (cases "0 < a \<and> refund_outcome out")
      case True
      then show ?thesis using assms Some
        by (cases "payment_index ride s") (auto simp: refund_tx_def refund_due_def refund_allowed_def Let_def split: if_splits)
    next
      case False
      then have "refund_tx k admin out note amount ride s = (Inr (), s)" unfolding refund_tx_def Some option.case by (simp only: not_False_eq_True if_True)
      moreover have "refund_due out amount ride s = None" unfolding refund_due_def Some option.case using False by (simp only: if_False)
      ultimately show ?thesis using assms Some by simp
    qed
  qed (use assms in \<open>simp add: refund_tx_def refund_due_def\<close>)
  then show "x = Inr () \<longleftrightarrow> pred_option (\<lambda>due. refund_allowed due s) (refund_due out amount ride s)"
    and "x = Inr () \<Longrightarrow> sf_refunds s1 = sf_refunds s @ (case refund_due out amount ride s of None \<Rightarrow> []
      | Some (p, a) \<Rightarrow> [\<lparr>rf_payment = p, rf_ride = ride, rf_dispute = k, rf_amount = to_paise a, rf_reason = note, rf_admin = admin\<rparr>])" by blast+
qed

lemma close_payments: "safety_payments (close_dispute now k admin out note s) = safety_payments s" "sf_refunds (close_dispute now k admin out note s) = sf_refunds s"
  by (simp_all add: close_dispute_def insertDisputeAction_def with_dispute_def safety_payments_def safety_ops_def)

lemma refund_due_close:
  "refund_due out amount ride (close_dispute now k admin out' note s) = refund_due out amount ride s"
  "refund_allowed due (close_dispute now k admin out' note s) = refund_allowed due s"
proof -
  have i: "payment_index ride (close_dispute now k admin out' note s) = payment_index ride s" by (simp add: payment_index_def close_payments)
  show "refund_due out amount ride (close_dispute now k admin out' note s) = refund_due out amount ride s" unfolding refund_due_def i ..
  show "refund_allowed due (close_dispute now k admin out' note s) = refund_allowed due s" by (simp add: refund_allowed_def refunded_def close_payments)
qed

lemma resolveDispute_accepted:
  assumes "resolveDispute noticed now limit days reason k admin out note amount s = (x, s')" "k < length (sf_disputes s)"
  shows "x = Inr () \<longleftrightarrow> pred_option (\<lambda>due. refund_allowed due s) (refund_due out amount (dp_ride (sf_disputes s ! k)) s)"
proof -
  obtain y s1 where tx: "refund_tx k admin out note amount (dp_ride (sf_disputes s ! k)) (close_dispute now k admin out note s) = (y, s1)" by fastforce
  have "x = Inr () \<longleftrightarrow> y = Inr ()" using assms tx by (cases y) (auto simp: resolveDispute_def resolve_tx_def Let_def)
  then show ?thesis using refund_tx_exact(1) [OF tx] unfolding refund_due_close by simp
qed

text \<open>
  C35. What resolving a dispute does. It is refused exactly if there is no such dispute or the refund it asks for is more than what is left of the payment, or less than a paisa, and then
  nothing has changed at all. Otherwise the dispute carries the decision and no other
  dispute has changed; exactly one refund, of exactly the amount asked for, on the ride's payment and for this dispute, was added if the outcome refunds, a positive amount was given and the ride has
  a payment, and none otherwise; and the driver of the ride has exactly one more warning if the outcome is a warning, and is suspended exactly if the
  outcome says so or, the notice having gone out, the warnings within the window have reached the limit; a banned driver stays banned.
\<close>

theorem resolution_applied:
  assumes run: "resolveDispute noticed now limit days reason k admin out note amount s = (x, s')" and ride: "accused (dp_ride (sf_disputes s ! k)) s = Some d" "exists_driver d (sf_dossier s)"
  shows "(\<forall>err. x = Inl err \<longrightarrow> s' = s)
    \<and> (x = Inr () \<longleftrightarrow> k < length (sf_disputes s) \<and> (\<forall>due. refund_due out amount (dp_ride (sf_disputes s ! k)) s = Some due \<longrightarrow> refund_allowed due s))
    \<and> (x = Inr () \<longrightarrow> sf_disputes s' = (sf_disputes s)[k := settled_dispute now admin out note (sf_disputes s ! k)] \<and> k < length (sf_disputes s)
      \<and> sf_refunds s' = sf_refunds s @ (case refund_due out amount (dp_ride (sf_disputes s ! k)) s of None \<Rightarrow> []
          | Some (p, a) \<Rightarrow> [\<lparr>rf_payment = p, rf_ride = dp_ride (sf_disputes s ! k), rf_dispute = k, rf_amount = to_paise a, rf_reason = note, rf_admin = admin\<rparr>])
      \<and> sf_warnings s' = sf_warnings s @ (if out = DriverWarned then [warned now k (dp_ride (sf_disputes s ! k)) admin note d] else [])
      \<and> driver_status d (sf_dossier s') = (if driver_status d (sf_dossier s) \<noteq> Banned
           \<and> (out = DriverSuspended \<or> out = DriverWarned \<and> noticed \<and> limit \<le> int (countRecentDriverWarnings now d days s')) then Suspended else driver_status d (sf_dossier s)))"
proof (cases x)
  case (Inl err)
  have "\<not> (k < length (sf_disputes s) \<and> (\<forall>due. refund_due out amount (dp_ride (sf_disputes s ! k)) s = Some due \<longrightarrow> refund_allowed due s))"
    using resolveDispute_accepted [OF run] Inl by (auto simp: pred_option_def)
  then show ?thesis using resolveDispute_error run Inl by simp
next
  case (Inr u)
  let ?i = "dp_ride (sf_disputes s ! k)"
  let ?s0 = "close_dispute now k admin out note s"
  obtain s1 where k: "k < length (sf_disputes s)" and tx: "refund_tx k admin out note amount ?i ?s0 = (Inr (), s1)"
    and s': "s' = applyDisputeOutcomeConsequences noticed now limit days reason k ?i out admin note s1"
    using run Inr by (auto elim: resolveDispute_some)
  have s0: "sf_disputes ?s0 = (sf_disputes s)[k := settled_dispute now admin out note (sf_disputes s ! k)]" "sf_refunds ?s0 = sf_refunds s" "sf_warnings ?s0 = sf_warnings s" "sf_dossier ?s0 = sf_dossier s"
    using k by (simp_all add: close_dispute_def insertDisputeAction_def with_dispute_def settled_dispute_def)
  note s1 = refund_tx_tables [OF tx] refund_tx_exact(2) [OF tx refl, unfolded refund_due_close]
  have ok: "\<forall>due. refund_due out amount ?i s = Some due \<longrightarrow> refund_allowed due s"
    using resolveDispute_accepted [OF run k] Inr by (simp add: pred_option_def)
  have dos: "sf_dossier s1 = sf_dossier s" using s1 s0 by simp
  have "accused ?i s1 = Some d" "exists_driver d (sf_dossier s1)" using ride dos by (simp_all add: accused_def getRideBasic_def safety_ops_def)
  note c = consequences_driver [OF this s']
  have "sf_disputes s' = sf_disputes s1" "sf_refunds s' = sf_refunds s1" by (simp_all add: s' tables_consequences)
  then show ?thesis using c s1 s0 Inr k dos ok by simp
qed

subsection \<open>Emergency presses and sweeps\<close>

lemma fresh_alert:
  assumes "getActiveSosForRide now i s = Some k"
  shows "k < length (sf_alerts s) \<and> so_ride (sf_alerts s ! k) = i \<and> so_status (sf_alerts s ! k) = Triggered \<and> now - 30000 \<le> so_created (sf_alerts s ! k)"
  using order_limit1_Some [OF assms [unfolded getActiveSosForRide_def]] by (simp add: SOS_DEDUP_WINDOW_SECONDS_def)

lemma sos_hit_fine:
  "sos_hit Fine now c = (Inr (1 + (case counter_at now c of Some x \<Rightarrow> ct_count x | None \<Rightarrow> 0)), snd (sos_hit Fine now c))"
  by (cases "counter_at now c") (simp_all add: sos_hit_def Let_def)

lemma triggerSos_allowed:
  assumes r: "getRideBasic i s = Some r" "rr_status r \<in> set SOS_ELIGIBLE_STATUSES" "takes_part p r"
  shows "triggerSos f now i p x s = (case getActiveSosForRide now i s of Some k \<Rightarrow> (Inr k, with_alert k (\<lambda>a. a\<lparr>so_updated := now\<rparr>) s)
     | None \<Rightarrow> (case sos_hit f now (sf_hits s p) of (Inl err, c) \<Rightarrow> (Inl err, s\<lparr>sf_hits := (sf_hits s)(p := c)\<rparr>)
         | (Inr n, c) \<Rightarrow> let s1 = s\<lparr>sf_hits := (sf_hits s)(p := c)\<rparr> in
             if SOS_HOURLY_CAP < n then (Inl (http_err 429 ''SOS_RATE_LIMITED''), s1) else (Inr (length (sf_alerts s)), raise_alert now i p x s1)))"
  using assms by (simp add: triggerSos_def assertRideParticipant_def guard_err_def)

text \<open>
  An emergency press is answered. On an active ride, by one of its two people and with Redis up, the answer is always an alert of that ride that is waiting for the team and was touched
  just now, either a new one, paged, or the one raised within the last 30 seconds; the only other answer is the refusal of the sixth press and later ones while five are still counted.
\<close>

theorem press_is_answered:
  assumes "getRideBasic i s = Some r" "rr_status r \<in> set SOS_ELIGIBLE_STATUSES" "takes_part p r"
    and run: "triggerSos Fine now i p x s = (y, s')"
  shows "(\<exists>k. y = Inr k \<and> k < length (sf_alerts s') \<and> so_ride (sf_alerts s' ! k) = i \<and> so_status (sf_alerts s' ! k) = Triggered \<and> so_updated (sf_alerts s' ! k) = now
       \<and> now - 30000 \<le> so_created (sf_alerts s' ! k) \<and> (k = length (sf_alerts s) \<longrightarrow> k \<in> set (sf_pages s')))
    \<or> (y = Inl (http_err 429 ''SOS_RATE_LIMITED'') \<and> sf_alerts s' = sf_alerts s \<and> (\<exists>c. counter_at now (sf_hits s p) = Some c \<and> 5 \<le> ct_count c))"
proof (cases "getActiveSosForRide now i s")
  case (Some k)
  note k = fresh_alert [OF Some]
  have "y = Inr k" "s' = with_alert k (\<lambda>a. a\<lparr>so_updated := now\<rparr>) s" using run by (simp_all add: triggerSos_allowed [OF assms(1-3)] Some)
  then show ?thesis using k by (simp add: with_alert_def)
next
  case None
  define n where "n = 1 + (case counter_at now (sf_hits s p) of Some x \<Rightarrow> ct_count x | None \<Rightarrow> 0)"
  obtain c where c: "sos_hit Fine now (sf_hits s p) = (Inr n, c)" using sos_hit_fine [of now "sf_hits s p"] unfolding n_def by blast
  let ?s1 = "s\<lparr>sf_hits := (sf_hits s)(p := c)\<rparr>"
  show ?thesis
  proof (cases "5 < n")
    case True
    then have "y = Inl (http_err 429 ''SOS_RATE_LIMITED'')" "s' = ?s1" using run by (simp_all add: triggerSos_allowed [OF assms(1-3)] None c SOS_HOURLY_CAP_def)
    moreover have "\<exists>c. counter_at now (sf_hits s p) = Some c \<and> 5 \<le> ct_count c" using True by (cases "counter_at now (sf_hits s p)") (simp_all add: n_def)
    ultimately show ?thesis by simp
  next
    case False
    then have "y = Inr (length (sf_alerts s))" "s' = raise_alert now i p x ?s1" using run by (simp_all add: triggerSos_allowed [OF assms(1-3)] None c SOS_HOURLY_CAP_def)
    then show ?thesis by (simp add: raise_alert_def insertSosAlert_def Let_def)
  qed
qed

text \<open>The process dies between \<open>INCR\<close> and \<open>EXPIRE\<close>: the counter never expires, and after the fifth press every later one is refused, at any time.\<close>

lemma sos_counter_without_end: "counter_at now c = None \<Longrightarrow> snd (sos_hit Dies now c) = Some \<lparr>ct_count = 1, ct_until = None\<rparr>"
  by (simp add: sos_hit_def)

lemma sos_locked_out:
  assumes "getRideBasic i s = Some r" "rr_status r \<in> set SOS_ELIGIBLE_STATUSES" "takes_part p r"
    and "sf_hits s p = Some \<lparr>ct_count = n, ct_until = None\<rparr>" "5 \<le> n" and "getActiveSosForRide now i s = None"
  shows "fst (triggerSos Fine now i p x s) = Inl (http_err 429 ''SOS_RATE_LIMITED'') \<and> sf_hits (snd (triggerSos Fine now i p x s)) p = Some \<lparr>ct_count = n + 1, ct_until = None\<rparr>"
proof -
  have "sos_hit Fine now (sf_hits s p) = (Inr (n + 1), Some \<lparr>ct_count = n + 1, ct_until = None\<rparr>)"
    using assms(4,5) by (simp add: sos_hit_def counter_at_def Let_def)
  then show ?thesis using assms(5,6) by (simp add: triggerSos_allowed [OF assms(1-3)] SOS_HOURLY_CAP_def)
qed

lemma escalate_alerts:
  "j < length (sf_alerts s) \<Longrightarrow> sf_alerts (fold (escalate_alert now down) ks s) ! j =
     (if j \<in> set ks \<and> \<not> down j then (sf_alerts s ! j)\<lparr>so_escalated := Some now\<rparr> else sf_alerts s ! j)"
  "length (sf_alerts (fold (escalate_alert now down) ks s)) = length (sf_alerts s)"
  "sf_pages (fold (escalate_alert now down) ks s) = sf_pages s @ filter (\<lambda>k. \<not> down k) ks"
proof (induction ks arbitrary: s)
  case (Cons k ks)
  have one: "length (sf_alerts (escalate_alert now down k s)) = length (sf_alerts s)" "sf_pages (escalate_alert now down k s) = sf_pages s @ (if down k then [] else [k])" for s :: safety
    by (simp_all add: escalate_alert_def with_alert_def)
  have row: "sf_alerts (escalate_alert now down k s) ! j = (if j = k \<and> \<not> down j then (sf_alerts s ! j)\<lparr>so_escalated := Some now\<rparr> else sf_alerts s ! j)" if "j < length (sf_alerts s)" for j and s :: safety
    using that by (auto simp: escalate_alert_def with_alert_def nth_list_update)
  {
    case 1
    then show ?case using Cons.IH(1) [of "escalate_alert now down k s"] row [OF 1] by (auto simp: one)
  next
    case 2
    show ?case using Cons.IH(2) [of "escalate_alert now down k s"] by (simp add: one)
  next
    case 3
    show ?case using Cons.IH(3) [of "escalate_alert now down k s"] by (simp add: one)
  }
qed simp_all

lemma escalate_disputes:
  "j < length (sf_disputes s) \<Longrightarrow> sf_disputes (fold (escalate_dispute now down) ks s) ! j =
     (if j \<in> set ks \<and> \<not> down j then (sf_disputes s ! j)\<lparr>dp_escalated := Some now\<rparr> else sf_disputes s ! j)"
  "length (sf_disputes (fold (escalate_dispute now down) ks s)) = length (sf_disputes s)"
proof (induction ks arbitrary: s)
  case (Cons k ks)
  have one: "length (sf_disputes (escalate_dispute now down k s)) = length (sf_disputes s)" for s :: safety by (simp add: escalate_dispute_def with_dispute_def)
  have row: "sf_disputes (escalate_dispute now down k s) ! j = (if j = k \<and> \<not> down j then (sf_disputes s ! j)\<lparr>dp_escalated := Some now\<rparr> else sf_disputes s ! j)" if "j < length (sf_disputes s)" for j and s :: safety
    using that by (auto simp: escalate_dispute_def with_dispute_def nth_list_update)
  {
    case 1
    then show ?case using Cons.IH(1) [of "escalate_dispute now down k s"] row [OF 1] by (auto simp: one)
  next
    case 2
    show ?case using Cons.IH(2) [of "escalate_dispute now down k s"] by (simp add: one)
  }
qed simp_all

text \<open>
  Nothing late is overlooked. A sweep marks and pages exactly the alerts that nobody has touched for five minutes and that were not paged before, each once, but for those whose paging
  failed, which the next sweep finds again; and the dispute sweep marks exactly the undecided disputes past their deadline.
\<close>

theorem sweeps_miss_nothing:
  "sf_pages (sweepStaleSosAlerts now down s) = sf_pages s @ filter (\<lambda>k. \<not> down k) (getStaleSosAlerts now s)
   \<and> getStaleSosAlerts now (sweepStaleSosAlerts now down s) = filter down (getStaleSosAlerts now s)
   \<and> getBreachedDisputes now (sweepBreachedDisputeSlas now down s) = filter down (getBreachedDisputes now s)"
proof -
  let ?s = "sweepStaleSosAlerts now down s"
  let ?d = "sweepBreachedDisputeSlas now down s"
  have l: "length (sf_alerts ?s) = length (sf_alerts s)" "length (sf_disputes ?d) = length (sf_disputes s)"
    by (simp_all add: sweepStaleSosAlerts_def sweepBreachedDisputeSlas_def escalate_alerts escalate_disputes)
  have "stale_alert now (sf_alerts ?s ! k) \<longleftrightarrow> stale_alert now (sf_alerts s ! k) \<and> down k" if "k < length (sf_alerts s)" for k
    using that by (simp add: sweepStaleSosAlerts_def escalate_alerts getStaleSosAlerts_def) (auto simp: stale_alert_def)
  moreover have "breached_dispute now (sf_disputes ?d ! k) \<longleftrightarrow> breached_dispute now (sf_disputes s ! k) \<and> down k" if "k < length (sf_disputes s)" for k
    using that by (simp add: sweepBreachedDisputeSlas_def escalate_disputes getBreachedDisputes_def) (auto simp: breached_dispute_def)
  ultimately have "getStaleSosAlerts now ?s = filter down (getStaleSosAlerts now s)" "getBreachedDisputes now ?d = filter down (getBreachedDisputes now s)"
    unfolding getStaleSosAlerts_def [of now ?s] getStaleSosAlerts_def [of now s] getBreachedDisputes_def [of now ?d] getBreachedDisputes_def [of now s] l filter_filter
    by (intro filter_cong; force)+
  then show ?thesis by (simp add: sweepStaleSosAlerts_def escalate_alerts)
qed

subsection \<open>Runs at concrete inputs\<close>

definition demo_done :: ride_row where
  "demo_done = demo_ride\<lparr>rr_driver := Some 0, rr_status := Completed\<rparr>"

definition demo_safety :: "ride_row \<Rightarrow> safety" where
  "demo_safety r = \<lparr>sf_dossier = demo_dossier\<lparr>ds_auth := demo_auth\<lparr>au_ops := (au_ops demo_auth)\<lparr>op_trip := demo_start\<lparr>tp_world := demo_world\<lparr>w_rides := demo_rides\<lparr>rides := [r]\<rparr>\<rparr>\<rparr>\<rparr>\<rparr>\<rparr>,
     sf_ratings = [], sf_tags = [], sf_scores = (\<lambda>_. \<lparr>sc_sum = 0, sc_count = 0\<rparr>), sf_alerts = [], sf_hits = Map.empty, sf_sos_rides = [], sf_pages = [], sf_disputes = [],
     sf_actions = [], sf_refunds = [], sf_warnings = []\<rparr>"

definition demo_dispute :: dispute where
  "demo_dispute = \<lparr>dp_ride = 0, dp_by = Rider 8, dp_type = ''overcharge'', dp_text = ''too much'', dp_status = DisputeOpen, dp_priority = 2, dp_assigned = None, dp_outcome = None,
     dp_note = None, dp_hours = 48, dp_due = 172800000, dp_resolved_by = None, dp_resolved_at = None, dp_escalated = None\<rparr>"

lemma demo_tables:
  "getRideBasic 0 (demo_safety r) = Some r" "safety_payments (demo_safety r) = [demo_payment]" "exists_driver 0 (sf_dossier (demo_safety r))" "driver_status 0 (sf_dossier (demo_safety r)) = AccountActive"
  by (simp_all add: getRideBasic_def safety_ops_def safety_payments_def demo_safety_def ride_at_def op_rides_def demo_start_def exists_driver_def driver_status_def demo_dossier_def demo_auth_def demo_world_def)

lemma demo_refund:
  "refund_tx 0 4 PartialRefund note (Some (from_paise 10000)) 0 s = (Inr (), s\<lparr>sf_refunds := [\<lparr>rf_payment = 0, rf_ride = 0, rf_dispute = 0, rf_amount = 10000, rf_reason = note, rf_admin = 4\<rparr>]\<rparr>)"
  if s: "safety_payments s = [demo_payment]" "sf_refunds s = []" for s
proof -
  have m: "pm_amount demo_payment = 30000" "pm_ride demo_payment = 0" by (simp_all add: demo_payment_def)
  have r: "round2 (fsub (from_paise 30000) 0) = from_paise 30000" using round2_fsub_paise [of 30000 0] by (simp add: paise_ok_def)
  have l: "0 < from_paise 10000" "\<not> from_paise 30000 < from_paise 10000" using from_paise_less [of 0 10000] from_paise_mono [of 10000 30000] by (simp_all add: paise_ok_def)
  have t: "to_paise (from_paise 10000) = 10000" using to_from_paise [of 10000] by (simp add: paise_ok_def)
  have "payment_index 0 s = Some 0" "refunded 0 s = 0" by (simp_all add: payment_index_def refunded_def s m)
  then show ?thesis using l by (simp add: refund_tx_def refund_outcome_def s m r t Let_def)
qed

text \<open>A third of a payment is refunded.\<close>

theorem refunds_within_payment_witness:
  "\<exists>w. safety_step\<^sup>*\<^sup>* \<lparr>sx_db = (demo_safety demo_done)\<lparr>sf_disputes := [demo_dispute]\<rparr>, sx_rides = [], sx_disputes = [(0, demo_dispute)], sx_new = []\<rparr> w
     \<and> sf_refunds (sx_db w) \<noteq> [] \<and> refunded 0 (sx_db w) \<le> 30000"
proof -
  let ?s = "(demo_safety demo_done)\<lparr>sf_disputes := [demo_dispute]\<rparr>"
  let ?w0 = "\<lparr>sx_db = ?s, sx_rides = [], sx_disputes = [(0, demo_dispute)], sx_new = []\<rparr>"
  let ?s1 = "(close_dispute 5 0 4 PartialRefund ''n'' ?s)\<lparr>sf_refunds := [\<lparr>rf_payment = 0, rf_ride = 0, rf_dispute = 0, rf_amount = 10000, rf_reason = ''n'', rf_admin = 4\<rparr>]\<rparr>"
  have pay: "safety_payments ?s = [demo_payment]" using demo_tables(2) [of demo_done] by (simp add: safety_payments_def safety_ops_def)
  have "books (close_dispute 5 0 4 PartialRefund ''n'' ?s) = books ?s" by simp
  moreover have "sf_refunds ?s = []" by (simp add: demo_safety_def)
  ultimately have c: "safety_payments (close_dispute 5 0 4 PartialRefund ''n'' ?s) = [demo_payment]" "sf_refunds (close_dispute 5 0 4 PartialRefund ''n'' ?s) = []"
    using pay by (simp_all add: books_def)
  have "resolve_tx 5 0 4 PartialRefund ''n'' (Some (from_paise 10000)) demo_dispute ?s = (Inr (), ?s1)"
    using demo_refund [OF c, of "''n''"] by (simp add: resolve_tx_def demo_dispute_def)
  then have step: "safety_step ?w0 (?w0\<lparr>sx_db := ?s1\<rparr>)" by (intro safety_step.resolves [of 0 demo_dispute]) simp_all
  have pay1: "safety_payments ?s1 = [demo_payment]" using c(1) by (simp add: safety_payments_def safety_ops_def)
  have "refunded 0 (sx_db (?w0\<lparr>sx_db := ?s1\<rparr>)) \<le> 30000"
    using refunds_within_payment [OF r_into_rtranclp [of safety_step, OF step]] pay pay1
    by (simp add: demo_safety_def payments_fit_def numeric_fits_def demo_payment_def)
  then show ?thesis using r_into_rtranclp [of safety_step, OF step] by (intro exI [of _ "?w0\<lparr>sx_db := ?s1\<rparr>"]) simp
qed

text \<open>The rider gives five stars, and the score is added.\<close>

theorem ratings_are_their_rows_witness:
  "\<exists>w. safety_step\<^sup>*\<^sup>* \<lparr>sx_db = demo_safety demo_done, sx_rides = [], sx_disputes = [], sx_new = []\<rparr> w
     \<and> sx_new w = [] \<and> length (sf_ratings (sx_db w)) = 1 \<and> sc_sum (sf_scores (sx_db w) (Cabbie 0)) = scored (Cabbie 0) (sf_ratings (sx_db w))"
proof -
  let ?s = "demo_safety demo_done"
  let ?w0 = "\<lparr>sx_db = ?s, sx_rides = [], sx_disputes = [], sx_new = []\<rparr>"
  let ?x = "\<lparr>rt_ride = 0, rt_direction = UserToDriver, rt_score = 5, rt_from = Rider 8, rt_to = Cabbie 0, rt_comment = None\<rparr>"
  let ?w1 = "?w0\<lparr>sx_rides := [(0, demo_done)]\<rparr>"
  let ?w2 = "?w1\<lparr>sx_db := ?s\<lparr>sf_ratings := [?x]\<rparr>, sx_new := [?x]\<rparr>"
  let ?w3 = "?w2\<lparr>sx_db := updateRatingAvg (Cabbie 0) 5 (?s\<lparr>sf_ratings := [?x]\<rparr>), sx_new := []\<rparr>"
  have none: "sf_ratings ?s = []" by (simp add: demo_safety_def)
  have "safety_step ?w0 ?w1" using safety_step.reads_ride [of 0 ?w0 demo_done] by (simp add: demo_tables)
  moreover have "rating_of 0 UserToDriver 5 (rater UserToDriver (Some 8) None) None (Some demo_done) False = Inr ?x"
    by (simp add: rating_of_def rater_def guard_err_def assertRideParticipant_def takes_part_def demo_done_def demo_ride_def)
  then have "safety_step ?w1 ?w2"
    using safety_step.rates [of 0 demo_done ?w1 UserToDriver 5 "Some 8" None None False ?x 0 "?s\<lparr>sf_ratings := [?x]\<rparr>"] none by (simp add: insertRating_def ratingExists_def)
  moreover have "safety_step ?w2 ?w3" using safety_step.counts [of ?x ?w2] by simp
  ultimately have run: "safety_step\<^sup>*\<^sup>* ?w0 ?w3" by (meson rtranclp.rtrancl_refl rtranclp.rtrancl_into_rtrancl)
  have "unrated ?w0" by (simp add: unrated_def demo_safety_def)
  from ratings_are_their_rows [OF run this] obtain added where a: "mset added = mset (sf_ratings (sx_db ?w3))" "sc_sum (sf_scores (sx_db ?w3) (Cabbie 0)) = scored (Cabbie 0) added"
    by auto
  have "sc_sum (sf_scores (sx_db ?w3) (Cabbie 0)) = scored (Cabbie 0) (sf_ratings (sx_db ?w3))" using a(2) scored_mset [OF a(1)] by simp
  then show ?thesis using run by (intro exI [of _ ?w3]) (simp add: updateRatingAvg_def)
qed

text \<open>The first warning, with a limit of one, suspends.\<close>

theorem resolution_applied_witness:
  "\<exists>x s'. resolveDispute True 5 1 90 (\<lambda>_. ''w'') 0 4 DriverWarned ''n'' None ((demo_safety demo_done)\<lparr>sf_disputes := [demo_dispute]\<rparr>) = (x, s') \<and> x = Inr ()
     \<and> length (sf_warnings s') = 1 \<and> driver_status 0 (sf_dossier s') = Suspended"
proof -
  let ?s = "(demo_safety demo_done)\<lparr>sf_disputes := [demo_dispute]\<rparr>"
  obtain x s' where run: "resolveDispute True 5 1 90 (\<lambda>_. ''w'') 0 4 DriverWarned ''n'' None ?s = (x, s')" by fastforce
  have x: "x = Inr ()" using run by (auto simp: resolveDispute_def resolve_tx_def refund_tx_def Let_def)
  have d: "accused (dp_ride (sf_disputes ?s ! 0)) ?s = Some 0" "exists_driver 0 (sf_dossier ?s)"
    using demo_tables(1,3) [of demo_done] by (simp_all add: accused_def getRideBasic_def safety_ops_def demo_dispute_def demo_done_def)
  have n: "sf_warnings ?s = []" "driver_status 0 (sf_dossier ?s) = AccountActive" using demo_tables(4) [of demo_done] by (simp_all add: demo_safety_def)
  have w: "sf_warnings s' = [warned 5 0 (dp_ride (sf_disputes ?s ! 0)) 4 ''n'' 0]" using resolution_applied [OF run d] x n by simp
  then have "countRecentDriverWarnings 5 0 90 s' = 1" by (simp add: countRecentDriverWarnings_def warned_def)
  then have "driver_status 0 (sf_dossier s') = Suspended" using resolution_applied [OF run d] x n by simp
  then show ?thesis using run x w by (intro exI [of _ x] exI [of _ s']) simp
qed

text \<open>The first press, of the rider of an accepted ride.\<close>

theorem press_is_answered_witness:
  "\<exists>k s'. triggerSos Fine 7 0 (Rider 8) \<lparr>sp_severity = None, sp_lat = None, sp_lng = None, sp_notes = None\<rparr> (demo_safety (demo_ride\<lparr>rr_status := Accepted\<rparr>)) = (Inr k, s')
     \<and> k < length (sf_alerts s') \<and> so_status (sf_alerts s' ! k) = Triggered"
proof -
  let ?r = "demo_ride\<lparr>rr_status := Accepted\<rparr>"
  let ?p = "\<lparr>sp_severity = None, sp_lat = None, sp_lng = None, sp_notes = None\<rparr>"
  obtain y s' where run: "triggerSos Fine 7 0 (Rider 8) ?p (demo_safety ?r) = (y, s')" by fastforce
  have r: "rr_status ?r \<in> set SOS_ELIGIBLE_STATUSES" "takes_part (Rider 8) ?r" by (simp_all add: SOS_ELIGIBLE_STATUSES_def takes_part_def demo_ride_def)
  have "counter_at 7 (sf_hits (demo_safety ?r) (Rider 8)) = None" by (simp add: demo_safety_def counter_at_def)
  then obtain k where "y = Inr k \<and> k < length (sf_alerts s') \<and> so_status (sf_alerts s' ! k) = Triggered"
    using press_is_answered [OF demo_tables(1) r run] by auto
  then show ?thesis using run by blast
qed

text \<open>A dispute that was resolved with a warning is resolved with a warning again: the driver has two.\<close>

lemma resolved_dispute_warns_again:
  "\<exists>s1 s2. resolveDispute True 5 3 90 (\<lambda>_. ''w'') 0 4 DriverWarned ''n'' None ((demo_safety demo_done)\<lparr>sf_disputes := [demo_dispute]\<rparr>) = (Inr (), s1)
     \<and> dp_status (sf_disputes s1 ! 0) = DisputeResolved
     \<and> resolveDispute True 6 3 90 (\<lambda>_. ''w'') 0 4 DriverWarned ''n'' None s1 = (Inr (), s2) \<and> length (sf_warnings s2) = 2"
  by (simp add: resolveDispute_def resolve_tx_def refund_tx_def Let_def applyDisputeOutcomeConsequences_def close_dispute_def with_dispute_def insertDisputeAction_def
      insertDriverWarning_def countRecentDriverWarnings_def getRideBasic_def safety_ops_def demo_safety_def demo_dispute_def demo_start_def op_rides_def ride_at_def
      demo_done_def demo_ride_def demo_dossier_def demo_auth_def demo_world_def demo_rides_def)

end
