(* ===== verification/Settings.thy ===== *)
theory Settings
  imports PayU
begin

text \<open>
  The runtime settings (\<open>lib/system-config.ts\<close>, \<open>lib/system-config-bounds.ts\<close>, the PATCH route of \<open>modules/admin/system-config.routes.ts\<close>), the version gate of the apps
  (\<open>modules/app-version\<close>) and the guard on cash discounts (\<open>modules/offers/cash-discount-guard.ts\<close>). A setting is read through a cache, so the values a request decides on may be old.
\<close>

subsection \<open>Versions\<close>

datatype version = Version nat nat nat

text \<open>The order of versions, which the text comparison of the code is shown to implement.\<close>

fun version_less :: "version \<Rightarrow> version \<Rightarrow> bool" where
  "version_less (Version a b c) (Version x y z) \<longleftrightarrow> a < x \<or> a = x \<and> (b < y \<or> b = y \<and> c < z)"

instantiation version :: linorder
begin

definition less_version :: "version \<Rightarrow> version \<Rightarrow> bool" where
  "less_version = version_less"

definition less_eq_version :: "version \<Rightarrow> version \<Rightarrow> bool" where
  "less_eq_version v w \<longleftrightarrow> version_less v w \<or> v = w"

instance
proof
  fix u v w :: version
  show "u < v \<longleftrightarrow> u \<le> v \<and> \<not> v \<le> u" by (cases u; cases v) (auto simp: less_version_def less_eq_version_def)
  show "u \<le> u" by (simp add: less_eq_version_def)
  show "u \<le> v \<Longrightarrow> v \<le> w \<Longrightarrow> u \<le> w" by (cases u; cases v; cases w) (auto simp: less_eq_version_def)
  show "u \<le> v \<Longrightarrow> v \<le> u \<Longrightarrow> u = v" by (cases u; cases v) (auto simp: less_eq_version_def)
  show "u \<le> v \<or> v \<le> u" by (cases u; cases v) (auto simp: less_eq_version_def)
qed

end

definition DOT :: char where "DOT = CHR ''.''"

text \<open>\<open>/^\d{1,3}\.\d{1,3}\.\d{1,3}$/\<close>\<close>

definition short_number :: "string \<Rightarrow> bool" where
  "short_number s \<longleftrightarrow> s \<noteq> [] \<and> length s \<le> 3 \<and> list_all is_digit s"

definition VERSION_RE :: "string \<Rightarrow> bool" where
  "VERSION_RE s \<longleftrightarrow> length (js_split DOT s) = 3 \<and> list_all short_number (js_split DOT s)"

definition version_parts :: "string \<Rightarrow> nat list option" where
  "version_parts s = (if VERSION_RE s then Some (map digits_value (js_split DOT s)) else None)"

text \<open>The loop over three positions, up to the first difference.\<close>

fun compare_parts :: "nat list \<Rightarrow> nat list \<Rightarrow> int" where
  "compare_parts (a # as) (b # bs) = (if a \<noteq> b then int a - int b else compare_parts as bs)"
| "compare_parts _ _ = 0"

definition compareVersions :: "string \<Rightarrow> string \<Rightarrow> int option" where
  "compareVersions a b = (case (version_parts a, version_parts b) of (Some p, Some q) \<Rightarrow> Some (compare_parts p q) | _ \<Rightarrow> None)"

datatype update_action = NoUpdate | SoftUpdate | HardUpdate

definition below :: "string \<Rightarrow> string \<Rightarrow> bool" where
  "below v limit \<longleftrightarrow> (case compareVersions v limit of Some c \<Rightarrow> c < 0 | None \<Rightarrow> False)"

definition decideAction :: "string \<Rightarrow> string \<Rightarrow> string \<Rightarrow> update_action" where
  "decideAction v least recommended = (if below v least then HardUpdate else if below v recommended then SoftUpdate else NoUpdate)"

subsection \<open>Settings and their checks\<close>

datatype value_type = IntegerValue | DecimalValue | BooleanValue | JsonValue | StringValue

record setting =
  sg_key :: string
  sg_value :: string
  sg_type :: value_type
  sg_active :: bool
  sg_updated :: int

definition whole_text :: "string \<Rightarrow> bool" where
  "whole_text s \<longleftrightarrow> s \<noteq> [] \<and> list_all is_digit s"

definition unsigned_text :: "string \<Rightarrow> string" where
  "unsigned_text s = (case s of c # r \<Rightarrow> if c = CHR ''-'' then r else s | [] \<Rightarrow> [])"

definition decimal_text :: "string \<Rightarrow> bool" where
  "decimal_text s \<longleftrightarrow> (case js_split DOT (unsigned_text s) of [a] \<Rightarrow> whole_text a | [a, b] \<Rightarrow> whole_text a \<and> whole_text b | _ \<Rightarrow> False)"

text \<open>\<open>True\<close>: no error. \<open>json\<close> says whether \<open>JSON.parse\<close> accepts the text.\<close>

definition validateConfigValue :: "(string \<Rightarrow> bool) \<Rightarrow> value_type \<Rightarrow> string \<Rightarrow> bool" where
  "validateConfigValue json ty s = (case ty of IntegerValue \<Rightarrow> whole_text (unsigned_text s) | DecimalValue \<Rightarrow> decimal_text s
     | BooleanValue \<Rightarrow> s = ''true'' \<or> s = ''false'' | JsonValue \<Rightarrow> json s | StringValue \<Rightarrow> js_trim s \<noteq> [])"

text \<open>\<open>Number(s)\<close> of a decimal notation; \<open>None\<close> also stands for the notations (exponents, hex, blanks) that no numeric type of the table lets through.\<close>

definition js_decimal_number :: "string \<Rightarrow> num option" where
  "js_decimal_number s = (if decimal_text s then
       let m = (case js_split DOT (unsigned_text s) of [a, b] \<Rightarrow> of_nat (digits_value (a @ b)) / 10 ^ length b | _ \<Rightarrow> of_nat (digits_value (unsigned_text s)))
       in Some (fl (if unsigned_text s = s then m else - m)) else None)"

definition BOUNDS :: "(string \<times> int \<times> int) list" where
  "BOUNDS = [(''commission_percent'', 0, 50), (''instant_payout_fee'', 0, 1000), (''tds_rate_with_pan_pct'', 0, 100), (''tds_rate_without_pan_pct'', 0, 100),
     (''payout_hold_hours'', 0, 720), (''settlement_auto_approve_limit'', 0, 10000000), (''driver_minimum_balance'', -1000000, 100000),
     (''cash_collection_tolerance'', 0, 1000), (''driver_warning_suspend_threshold'', 1, 20), (''driver_warning_window_days'', 1, 365),
     (''call_masking_max_calls_per_ride'', 1, 50), (''call_masking_credit_floor'', 0, 100000), (''cashback_ride_percent'', 0, 50), (''cashback_expiry_days'', 1, 3650),
     (''referral_referrer_bonus'', 0, 10000), (''referral_referee_bonus'', 0, 10000), (''exotel_max_calls_per_ride'', 1, 50), (''exotel_call_time_limit_seconds'', 30, 3600),
     (''exotel_daily_budget_inr'', 0, 100000), (''offers_max_discount_percent'', 0, 50)]"

definition SWITCHES :: "string list" where
  "SWITCHES = [''cash_collection_enabled'', ''mobile_payments_enabled'', ''app_update_enabled'', ''offers_enabled'', ''offers_cash_discounts_enabled'',
     ''offers_cash_guard_enforced'', ''offers_cashback_enabled'', ''trip_share_enabled'']"

definition version_rows :: "string list" where
  "version_rows = [''app_update_rider_android'', ''app_update_rider_ios'', ''app_update_driver_android'', ''app_update_driver_ios'']"

definition least_key :: "string \<Rightarrow> string" where "least_key p = p @ ''_min''"
definition recommended_key :: "string \<Rightarrow> string" where "recommended_key p = p @ ''_recommended''"

definition version_key :: "string \<Rightarrow> bool" where
  "version_key k \<longleftrightarrow> k \<in> set (map least_key version_rows) \<or> k \<in> set (map recommended_key version_rows)"

definition getConfigBounds :: "string \<Rightarrow> (int \<times> int) option" where
  "getConfigBounds k = map_of BOUNDS k"

definition validateConfigBounds :: "string \<Rightarrow> string \<Rightarrow> bool" where
  "validateConfigBounds k s =
     (if k \<in> set SWITCHES \<and> s \<noteq> ''true'' \<and> s \<noteq> ''false'' then False
      else if version_key k \<and> \<not> VERSION_RE s then False
      else case getConfigBounds k of None \<Rightarrow> True
        | Some (lo, hi) \<Rightarrow> (case js_decimal_number s of None \<Rightarrow> False | Some n \<Rightarrow> of_int lo \<le> n \<and> n \<le> of_int hi))"

text \<open>The row a version row is checked against: its sibling, and whether the saved one is the minimum.\<close>

definition versionPairCheck :: "string \<Rightarrow> (string \<times> bool) option" where
  "versionPairCheck k = (case find (\<lambda>p. k = least_key p \<or> k = recommended_key p) version_rows of None \<Rightarrow> None
     | Some p \<Rightarrow> if k = least_key p then Some (recommended_key p, True) else Some (least_key p, False))"

definition cmp :: "string \<Rightarrow> string \<Rightarrow> int" where
  "cmp a b = compare_parts (map digits_value (js_split DOT a)) (map digits_value (js_split DOT b))"

definition pair_ok :: "bool \<Rightarrow> string \<Rightarrow> string \<Rightarrow> bool" where
  "pair_ok least s sibling \<longleftrightarrow> \<not> VERSION_RE sibling \<or> (if least then cmp s sibling \<le> 0 else 0 \<le> cmp s sibling)"

subsection \<open>The cash discount guard\<close>

definition CASH_DUE_MIN_DRIVER_VERSION :: string where "CASH_DUE_MIN_DRIVER_VERSION = ''1.2.0''"
definition MIN_KEY :: string where "MIN_KEY = ''app_update_driver_android_min''"
definition CASH_KEY :: string where "CASH_KEY = ''offers_cash_discounts_enabled''"
definition GATE_KEY :: string where "GATE_KEY = ''app_update_enabled''"
definition ENFORCED_KEY :: string where "ENFORCED_KEY = ''offers_cash_guard_enforced''"

record cash_state =
  cg_cash :: string
  cg_least :: string
  cg_gate :: string
  cg_enforced :: string

definition cash_next :: "string \<Rightarrow> string \<Rightarrow> cash_state \<Rightarrow> cash_state" where
  "cash_next k s g = \<lparr>cg_cash = (if k = CASH_KEY then s else cg_cash g), cg_least = (if k = MIN_KEY then s else cg_least g),
     cg_gate = (if k = GATE_KEY then s else cg_gate g), cg_enforced = (if k = ENFORCED_KEY then s else cg_enforced g)\<rparr>"

text \<open>Cash discounts off, the guard lifted, or only builds that know of them let through.\<close>

definition cash_safe :: "cash_state \<Rightarrow> bool" where
  "cash_safe g \<longleftrightarrow> cg_cash g \<noteq> ''true'' \<or> cg_enforced g = ''false''
     \<or> (case compareVersions (cg_least g) CASH_DUE_MIN_DRIVER_VERSION of None \<Rightarrow> False | Some c \<Rightarrow> 0 \<le> c) \<and> cg_gate g = ''true''"

definition cashDiscountGuard :: "string \<Rightarrow> string \<Rightarrow> cash_state \<Rightarrow> bool" where
  "cashDiscountGuard k s g \<longleftrightarrow> k \<notin> {CASH_KEY, MIN_KEY, GATE_KEY, ENFORCED_KEY} \<or> cash_safe (cash_next k s g)"

subsection \<open>Reading and writing a setting\<close>

record audit_row =
  ad_admin :: nat
  ad_key :: string
  ad_before :: string
  ad_after :: string

record settings =
  ss_rows :: "setting list"
  ss_audit :: "audit_row list"

definition fetchConfigValueFromDb :: "string \<Rightarrow> settings \<Rightarrow> string option" where
  "fetchConfigValueFromDb k s = map_option sg_value (find (\<lambda>r. sg_key r = k \<and> sg_active r) (ss_rows s))"

text \<open>With the cache out of the way; a request may hold an older value.\<close>

definition getConfigValue :: "string \<Rightarrow> string \<Rightarrow> settings \<Rightarrow> string" where
  "getConfigValue k d s = coalesce (fetchConfigValueFromDb k s) d"

definition getConfigById :: "nat \<Rightarrow> settings \<Rightarrow> setting option" where
  "getConfigById i s = (if i < length (ss_rows s) then Some (ss_rows s ! i) else None)"

datatype write_result = Written | Gone | Conflict

text \<open>The trigger stamps the row; times are microseconds, and the stamp the screen sends back has milliseconds.\<close>

definition updateConfigValue :: "int \<Rightarrow> nat \<Rightarrow> string \<Rightarrow> int option \<Rightarrow> settings \<Rightarrow> write_result \<times> settings" where
  "updateConfigValue now i v expected s =
     (case getConfigById i s of None \<Rightarrow> (Gone, s)
      | Some r \<Rightarrow>
          if \<not> sg_active r then (Gone, s)
          else if (case expected of None \<Rightarrow> True | Some e \<Rightarrow> sg_updated r div 1000 = e div 1000)
          then (Written, s\<lparr>ss_rows := (ss_rows s)[i := r\<lparr>sg_value := v, sg_updated := now\<rparr>]\<rparr>)
          else (Conflict, s))"

text \<open>What a PATCH has read before it writes: the row, the sibling version and the four values of the guard.\<close>

record patch_view =
  pv_before :: "setting option"
  pv_sibling :: string
  pv_cash :: cash_state

definition invalid_value :: app_error where "invalid_value = http_err 422 ''VALIDATION_ERROR''"

definition setting_checks :: "(string \<Rightarrow> bool) \<Rightarrow> string \<Rightarrow> patch_view \<Rightarrow> setting res" where
  "setting_checks json v w =
     (case pv_before w of None \<Rightarrow> Inl (http_err 404 ''NOT_FOUND'')
      | Some b \<Rightarrow>
          bind_res (guard_err (\<not> validateConfigValue json (sg_type b) v) invalid_value) (\<lambda>_.
          bind_res (guard_err (\<not> validateConfigBounds (sg_key b) v) invalid_value) (\<lambda>_.
          bind_res (guard_err (case versionPairCheck (sg_key b) of None \<Rightarrow> False | Some (_, least) \<Rightarrow> \<not> pair_ok least v (pv_sibling w)) invalid_value) (\<lambda>_.
          bind_res (guard_err (\<not> cashDiscountGuard (sg_key b) v (pv_cash w)) (http_err 422 ''CASH_DISCOUNT_GUARD'')) (\<lambda>_. Inr b)))))"

text \<open>\<open>raised\<close>: \<open>parseFloat\<close> of the new value is above that of the old one; \<open>discounted\<close>: the open rides with an offer. The result: warn about them.\<close>

definition patchConfig :: "(string \<Rightarrow> bool) \<Rightarrow> int \<Rightarrow> nat \<Rightarrow> nat \<Rightarrow> string \<Rightarrow> int option \<Rightarrow> patch_view \<Rightarrow> bool \<Rightarrow> nat \<Rightarrow> settings \<Rightarrow> bool res \<times> settings" where
  "patchConfig json now admin i v expected w raised discounted s =
     (case setting_checks json v w of Inl err \<Rightarrow> (Inl err, s)
      | Inr b \<Rightarrow>
          (case updateConfigValue now i v expected s of
             (Conflict, s1) \<Rightarrow> (Inl (http_err 409 ''CONFIG_CHANGED''), s1)
           | (Gone, s1) \<Rightarrow> (Inl (http_err 404 ''NOT_FOUND''), s1)
           | (Written, s1) \<Rightarrow> (Inr (sg_key b = ''commission_percent'' \<and> raised \<and> 0 < discounted),
               s1\<lparr>ss_audit := ss_audit s1 @ [\<lparr>ad_admin = admin, ad_key = sg_key b, ad_before = sg_value b, ad_after = v\<rparr>]\<rparr>)))"

text \<open>The reads of a PATCH, all at one moment.\<close>

definition cash_now :: "settings \<Rightarrow> cash_state" where
  "cash_now s = \<lparr>cg_cash = getConfigValue CASH_KEY ''false'' s, cg_least = getConfigValue MIN_KEY ''0.0.0'' s, cg_gate = getConfigValue GATE_KEY ''true'' s,
     cg_enforced = getConfigValue ENFORCED_KEY ''true'' s\<rparr>"

definition patch_reads :: "nat \<Rightarrow> settings \<Rightarrow> patch_view" where
  "patch_reads i s = \<lparr>pv_before = getConfigById i s,
     pv_sibling = (case Option.bind (getConfigById i s) (\<lambda>b. versionPairCheck (sg_key b)) of None \<Rightarrow> ''0.0.0'' | Some (k, _) \<Rightarrow> getConfigValue k ''0.0.0'' s),
     pv_cash = cash_now s\<rparr>"

subsection \<open>The version gate\<close>

datatype app_name = RiderApp | DriverApp
datatype app_platform = Android | IOS

definition app_text :: "app_name \<Rightarrow> string" where "app_text a = (case a of RiderApp \<Rightarrow> ''rider'' | DriverApp \<Rightarrow> ''driver'')"
definition platform_text :: "app_platform \<Rightarrow> string" where "platform_text p = (case p of Android \<Rightarrow> ''android'' | IOS \<Rightarrow> ''ios'')"

record app_identity =
  id_app :: app_name
  id_platform :: app_platform
  id_version :: string

definition getStoreUrl :: "app_name \<Rightarrow> app_platform \<Rightarrow> string option" where
  "getStoreUrl a p = (if p = IOS then None else Some (''https://play.google.com/store/apps/details?id=com.ocar.'' @ app_text a))"

definition parseIdentity :: "string option \<Rightarrow> string option \<Rightarrow> string option \<Rightarrow> app_identity option" where
  "parseIdentity a p v =
     (case (find (\<lambda>x. a = Some (app_text x)) [RiderApp, DriverApp], find (\<lambda>x. p = Some (platform_text x)) [Android, IOS], v) of
        (Some x, Some y, Some t) \<Rightarrow> if VERSION_RE t then Some \<lparr>id_app = x, id_platform = y, id_version = t\<rparr> else None
      | _ \<Rightarrow> None)"

record version_policy =
  vp_action :: update_action
  vp_least :: string
  vp_recommended :: string
  vp_store :: "string option"

definition version_prefix :: "app_identity \<Rightarrow> string" where
  "version_prefix i = ''app_update_'' @ app_text (id_app i) @ ''_'' @ platform_text (id_platform i)"

definition getVersionPolicy :: "app_identity \<Rightarrow> settings \<Rightarrow> version_policy" where
  "getVersionPolicy i s = (let least = getConfigValue (least_key (version_prefix i)) ''0.0.0'' s; recommended = getConfigValue (recommended_key (version_prefix i)) ''0.0.0'' s in
     \<lparr>vp_action = (if getConfigValue GATE_KEY ''true'' s = ''true'' then decideAction (id_version i) least recommended else NoUpdate),
      vp_least = least, vp_recommended = recommended, vp_store = getStoreUrl (id_app i) (id_platform i)\<rparr>)"

text \<open>\<open>requireSupportedApp\<close>; \<open>down\<close>: the settings cannot be read, and the request passes.\<close>

definition requireSupportedApp :: "bool \<Rightarrow> app_identity option \<Rightarrow> settings \<Rightarrow> unit res" where
  "requireSupportedApp down i s =
     (case i of None \<Rightarrow> Inr ()
      | Some x \<Rightarrow> if down then Inr () else guard_err (vp_action (getVersionPolicy x s) = HardUpdate) (http_err 426 ''UPGRADE_REQUIRED''))"

subsection \<open>The comparison is the order of versions\<close>

definition version_of :: "string \<Rightarrow> version option" where
  "version_of s = (case version_parts s of Some [a, b, c] \<Rightarrow> Some (Version a b c) | _ \<Rightarrow> None)"

lemma version_parts_cases:
  obtains "version_parts s = None" "version_of s = None"
  | a b c where "version_parts s = Some [a, b, c]" "version_of s = Some (Version a b c)" "map digits_value (js_split DOT s) = [a, b, c]"
proof (cases "VERSION_RE s")
  case True
  then have "length (js_split DOT s) = 3" by (simp add: VERSION_RE_def)
  then obtain x y z where "js_split DOT s = [x, y, z]" by (auto simp: numeral_3_eq_3 length_Suc_conv)
  then have "version_parts s = Some (map digits_value [x, y, z])" using True by (simp add: version_parts_def)
  then show thesis using that(2) [of "digits_value x" "digits_value y" "digits_value z"] \<open>js_split DOT s = [x, y, z]\<close> by (simp add: version_of_def)
next
  case False
  then have "version_parts s = None" by (simp add: version_parts_def)
  then show thesis using that(1) by (simp add: version_of_def)
qed

lemma version_of_None: "version_of s = None \<longleftrightarrow> \<not> VERSION_RE s"
  by (cases s rule: version_parts_cases) (auto simp: version_parts_def split: if_splits)

lemma compare_parts3:
  "compare_parts [a, b, c] [x, y, z] < 0 \<longleftrightarrow> Version a b c < Version x y z"
  "compare_parts [a, b, c] [x, y, z] = 0 \<longleftrightarrow> Version a b c = Version x y z"
  by (auto simp: less_version_def)

lemma compareVersions_cases:
  obtains "compareVersions a b = None" "version_of a = None \<or> version_of b = None"
  | v w c where "version_of a = Some v" "version_of b = Some w" "compareVersions a b = Some c" "c = cmp a b" "c < 0 \<longleftrightarrow> v < w" "c = 0 \<longleftrightarrow> v = w"
proof (cases a rule: version_parts_cases)
  case 1
  then show thesis using that(1) by (simp add: compareVersions_def)
next
  case a: (2 p q r)
  show thesis
  proof (cases b rule: version_parts_cases)
    case 1
    then show thesis using that(1) by (simp add: compareVersions_def split: option.split)
  next
    case (2 x y z)
    then show thesis using a compare_parts3 [of p q r x y z] by (intro that(2) [of "Version p q r" "Version x y z" "compare_parts [p, q, r] [x, y, z]"]) (simp_all add: compareVersions_def cmp_def del: compare_parts.simps)
  qed
qed

text \<open>
  The version comparison is the order. \<open>compareVersions\<close> answers exactly when both texts are versions of the form \<open>major.minor.patch\<close> with up to three digits each, and its sign
  is then the lexicographic order of the three numbers, although it works on texts, a split and a loop.
\<close>

theorem versions_compared:
  "(case compareVersions a b of
      None \<Rightarrow> version_of a = None \<or> version_of b = None
    | Some c \<Rightarrow> \<exists>v w. version_of a = Some v \<and> version_of b = Some w \<and> (c < 0 \<longleftrightarrow> v < w) \<and> (c = 0 \<longleftrightarrow> v = w) \<and> (0 < c \<longleftrightarrow> w < v))"
proof (cases a b rule: compareVersions_cases)
  case (2 v w c)
  then have "0 < c \<longleftrightarrow> w < v" by (metis linorder_less_linear not_less_iff_gr_or_eq)
  then show ?thesis using 2 by simp
qed simp

lemma below_iff: "below v limit \<longleftrightarrow> (\<exists>x y. version_of v = Some x \<and> version_of limit = Some y \<and> x < y)"
  by (cases v limit rule: compareVersions_cases) (auto simp: below_def)

subsection \<open>The gate\<close>

fun severity :: "update_action \<Rightarrow> nat" where
  "severity NoUpdate = 0"
| "severity SoftUpdate = 1"
| "severity HardUpdate = 2"

lemma severity_decide: "severity (decideAction v least recommended) = (if below v least then 2 else if below v recommended then 1 else 0)"
  by (simp add: decideAction_def)

text \<open>
  The version gate blocks exactly the builds below the minimum. A request is refused with 426 exactly if it names a valid build that lies below a readable minimum while the gate is on
  and the settings can be read; and of two builds of an app the newer one is never treated more strictly.
\<close>

theorem gate_blocks_old_builds:
  assumes "version_of (id_version i) = Some x" "version_of (id_version j) = Some y" "x \<le> y" "version_prefix i = version_prefix j"
  shows "(requireSupportedApp down (Some i) s = Inl (http_err 426 ''UPGRADE_REQUIRED'') \<longleftrightarrow>
      \<not> down \<and> getConfigValue GATE_KEY ''true'' s = ''true'' \<and> (\<exists>m. version_of (getConfigValue (least_key (version_prefix i)) ''0.0.0'' s) = Some m \<and> x < m))
    \<and> severity (vp_action (getVersionPolicy j s)) \<le> severity (vp_action (getVersionPolicy i s))"
proof -
  let ?l = "getConfigValue (least_key (version_prefix i)) ''0.0.0'' s"
  let ?r = "getConfigValue (recommended_key (version_prefix i)) ''0.0.0'' s"
  have hard: "vp_action (getVersionPolicy i s) = HardUpdate \<longleftrightarrow> getConfigValue GATE_KEY ''true'' s = ''true'' \<and> below (id_version i) ?l"
    by (simp add: getVersionPolicy_def Let_def decideAction_def)
  have b: "below (id_version i) t \<longleftrightarrow> (\<exists>m. version_of t = Some m \<and> x < m)" "below (id_version j) t \<Longrightarrow> below (id_version i) t" for t
    using assms(1-3) by (auto simp: below_iff)
  have "severity (decideAction (id_version j) ?l ?r) \<le> severity (decideAction (id_version i) ?l ?r)"
    using b(2) [of ?l] b(2) [of ?r] unfolding severity_decide by auto
  then have "severity (vp_action (getVersionPolicy j s)) \<le> severity (vp_action (getVersionPolicy i s))"
    by (simp add: getVersionPolicy_def Let_def assms(4))
  moreover have "requireSupportedApp down (Some i) s = Inl (http_err 426 ''UPGRADE_REQUIRED'') \<longleftrightarrow> \<not> down \<and> vp_action (getVersionPolicy i s) = HardUpdate"
    by (simp add: requireSupportedApp_def guard_err_def)
  ultimately show ?thesis using hard b(1) [of ?l] by simp
qed

subsection \<open>Settings stay valid\<close>

definition valid_setting :: "(string \<Rightarrow> bool) \<Rightarrow> setting \<Rightarrow> bool" where
  "valid_setting json r \<longleftrightarrow> validateConfigValue json (sg_type r) (sg_value r) \<and> validateConfigBounds (sg_key r) (sg_value r)"

lemma updateConfigValue_cases:
  assumes "updateConfigValue now i v expected s = (x, s')"
  obtains "s' = s" "x \<noteq> Written"
  | r where "x = Written" "i < length (ss_rows s)" "r = ss_rows s ! i" "sg_active r" "\<forall>e. expected = Some e \<longrightarrow> sg_updated r div 1000 = e div 1000"
      "s' = s\<lparr>ss_rows := (ss_rows s)[i := r\<lparr>sg_value := v, sg_updated := now\<rparr>]\<rparr>"
proof (cases "i < length (ss_rows s) \<and> sg_active (ss_rows s ! i) \<and> (\<forall>e. expected = Some e \<longrightarrow> sg_updated (ss_rows s ! i) div 1000 = e div 1000)")
  case True
  moreover from this have "(case expected of None \<Rightarrow> True | Some e \<Rightarrow> sg_updated (ss_rows s ! i) div 1000 = e div 1000)" by (cases expected) simp_all
  ultimately have "updateConfigValue now i v expected s = (Written, s\<lparr>ss_rows := (ss_rows s)[i := (ss_rows s ! i)\<lparr>sg_value := v, sg_updated := now\<rparr>]\<rparr>)"
    by (simp add: updateConfigValue_def getConfigById_def)
  then show thesis using assms True by (intro that(2) [of "ss_rows s ! i"]) simp_all
next
  case False
  consider "length (ss_rows s) \<le> i" | "i < length (ss_rows s)" "\<not> sg_active (ss_rows s ! i)"
    | e where "i < length (ss_rows s)" "sg_active (ss_rows s ! i)" "expected = Some e" "sg_updated (ss_rows s ! i) div 1000 \<noteq> e div 1000"
    using False by fastforce
  then have "fst (updateConfigValue now i v expected s) \<noteq> Written \<and> snd (updateConfigValue now i v expected s) = s"
    by cases (simp_all add: updateConfigValue_def getConfigById_def)
  then show thesis using assms that(1) by simp
qed

lemma patch_checks_some:
  assumes "setting_checks json v w = Inr b"
  shows "pv_before w = Some b \<and> validateConfigValue json (sg_type b) v \<and> validateConfigBounds (sg_key b) v
    \<and> (\<forall>k least. versionPairCheck (sg_key b) = Some (k, least) \<longrightarrow> pair_ok least v (pv_sibling w)) \<and> cashDiscountGuard (sg_key b) v (pv_cash w)"
  using assms by (auto simp: setting_checks_def split: option.splits)

lemma patchConfig_cases:
  assumes "patchConfig json now admin i v expected w raised discounted s = (x, s')"
  obtains "s' = s" "\<exists>err. x = Inl err"
  | b r where "\<exists>warn. x = Inr warn" "setting_checks json v w = Inr b" "i < length (ss_rows s)" "r = ss_rows s ! i" "sg_active r" "\<forall>e. expected = Some e \<longrightarrow> sg_updated r div 1000 = e div 1000"
      "ss_rows s' = (ss_rows s)[i := r\<lparr>sg_value := v, sg_updated := now\<rparr>]"
      "ss_audit s' = ss_audit s @ [\<lparr>ad_admin = admin, ad_key = sg_key b, ad_before = sg_value b, ad_after = v\<rparr>]"
proof (cases "setting_checks json v w")
  case (Inl err)
  then have "s' = s" "x = Inl err" using assms by (simp_all add: patchConfig_def)
  then show thesis using that(1) by blast
next
  case (Inr b)
  obtain y s1 where u: "updateConfigValue now i v expected s = (y, s1)" by fastforce
  show thesis using u
  proof (cases rule: updateConfigValue_cases)
    case 1
    then have "s' = s \<and> (\<exists>err. x = Inl err)" using assms Inr u by (cases y) (auto simp: patchConfig_def)
    then show thesis using that(1) by blast
  next
    case (2 r)
    then have "\<exists>warn. x = Inr warn" "s' = s1\<lparr>ss_audit := ss_audit s1 @ [\<lparr>ad_admin = admin, ad_key = sg_key b, ad_before = sg_value b, ad_after = v\<rparr>]\<rparr>"
      using assms Inr u by (auto simp: patchConfig_def)
    then show thesis using 2 Inr by (intro that(2)) simp_all
  qed
qed

text \<open>\<open>sr_seen\<close>: the rows that requests have read. What a request knows of other settings is arbitrary, since it comes from the cache.\<close>

record settings_run =
  sr_db :: settings
  sr_seen :: "(nat \<times> setting) list"

inductive settings_step :: "(string \<Rightarrow> bool) \<Rightarrow> settings_run \<Rightarrow> settings_run \<Rightarrow> bool" for json where
  reads: "getConfigById i (sr_db t) = Some r \<Longrightarrow> settings_step json t (t\<lparr>sr_seen := (i, r) # sr_seen t\<rparr>)"
| patches: "(i, b) \<in> set (sr_seen t) \<Longrightarrow> pv_before w = Some b \<Longrightarrow> patchConfig json now admin i v expected w raised discounted (sr_db t) = (x, s')
    \<Longrightarrow> settings_step json t (t\<lparr>sr_db := s'\<rparr>)"

definition same_setting :: "setting \<Rightarrow> setting \<Rightarrow> bool" where
  "same_setting r q \<longleftrightarrow> sg_key r = sg_key q \<and> sg_type r = sg_type q \<and> sg_active r = sg_active q"

definition settings_fit :: "(string \<Rightarrow> bool) \<Rightarrow> settings_run \<Rightarrow> bool" where
  "settings_fit json t \<longleftrightarrow> list_all (valid_setting json) (ss_rows (sr_db t)) \<and> (\<forall>(i, r) \<in> set (sr_seen t). i < length (ss_rows (sr_db t)) \<and> same_setting r (ss_rows (sr_db t) ! i))
     \<and> (\<forall>a \<in> set (ss_audit (sr_db t)). validateConfigBounds (ad_key a) (ad_after a))"

lemma settings_fit_step:
  assumes "settings_step json t t'" and inv: "settings_fit json t"
  shows "settings_fit json t'"
  using assms(1)
proof cases
  case (reads i r)
  then show ?thesis using inv by (auto simp: settings_fit_def getConfigById_def same_setting_def split: if_splits)
next
  case (patches i b w now admin v expected raised discounted x s')
  show ?thesis using patches(4)
  proof (cases rule: patchConfig_cases)
    case 1
    then show ?thesis using inv patches(1) by (simp add: settings_fit_def)
  next
    case (2 b' r)
    note c = patch_checks_some [OF 2(2)]
    then have b: "b' = b" using patches(3) by simp
    have same: "same_setting b r" using inv patches(2) 2(4) unfolding settings_fit_def by blast
    then have "valid_setting json (r\<lparr>sg_value := v, sg_updated := now\<rparr>)" using c by (simp add: valid_setting_def same_setting_def b)
    moreover have "same_setting q (ss_rows s' ! j)" if "same_setting q (ss_rows (sr_db t) ! j)" "j < length (ss_rows (sr_db t))" for q j
      using that 2(4) by (cases "i = j") (simp_all add: 2(7) same_setting_def)
    ultimately show ?thesis using inv c unfolding settings_fit_def patches(1)
      by (auto simp: 2(7) 2(8) b list_all_iff dest!: set_update_subset_insert [THEN subsetD])
  qed
qed

text \<open>
  C27. Settings stay valid. However the PATCH requests of administrators interleave, with rows and other settings read at any earlier time: if all settings parse as their type and respect
  their bounds at the start, they do so for ever, none changes its key or type, and the audit log holds only valid values.
\<close>

theorem settings_stay_valid:
  assumes "(settings_step json)\<^sup>*\<^sup>* t0 t" and "list_all (valid_setting json) (ss_rows (sr_db t0))" "sr_seen t0 = []" "ss_audit (sr_db t0) = []"
  shows "list_all (valid_setting json) (ss_rows (sr_db t)) \<and> (\<forall>(i, r) \<in> set (sr_seen t). same_setting r (ss_rows (sr_db t) ! i))
    \<and> (\<forall>a \<in> set (ss_audit (sr_db t)). validateConfigBounds (ad_key a) (ad_after a))"
proof -
  have "settings_fit json t0" using assms(2-4) by (simp add: settings_fit_def)
  with assms(1) have "settings_fit json t" by (induction rule: rtranclp_induct) (simp_all add: settings_fit_step)
  then show ?thesis by (auto simp: settings_fit_def)
qed

subsection \<open>Limits between settings\<close>

definition keyed :: "settings \<Rightarrow> bool" where
  "keyed s \<longleftrightarrow> distinct (map sg_key (ss_rows s))"

lemma setting_found:
  assumes "keyed s" "i < length (ss_rows s)" "sg_active (ss_rows s ! i)"
  shows "fetchConfigValueFromDb (sg_key (ss_rows s ! i)) s = Some (sg_value (ss_rows s ! i))"
proof -
  have "sg_key (ss_rows s ! j) \<noteq> sg_key (ss_rows s ! i)" if "j < i" for j
    using that assms(1,2) nth_eq_iff_index_eq [of "map sg_key (ss_rows s)" j i] by (simp add: keyed_def)
  then have "find (\<lambda>r. sg_key r = sg_key (ss_rows s ! i) \<and> sg_active r) (ss_rows s) = Some (ss_rows s ! i)"
    unfolding find_Some_iff using assms(2,3) by (intro exI [of _ i]) auto
  then show ?thesis by (simp add: fetchConfigValueFromDb_def)
qed

lemma setting_updated:
  assumes "keyed s" "i < length (ss_rows s)" "r = ss_rows s ! i" "sg_active r" "ss_rows s' = (ss_rows s)[i := r\<lparr>sg_value := v, sg_updated := now\<rparr>]"
  shows "keyed s'" "getConfigValue k d s' = (if k = sg_key r then v else getConfigValue k d s)"
proof -
  have keys: "map sg_key (ss_rows s') = map sg_key (ss_rows s)" using assms(2,3) by (simp add: assms(5) map_update list_update_same_conv)
  then show k: "keyed s'" using assms(1) by (simp add: keyed_def)
  show "getConfigValue k d s' = (if k = sg_key r then v else getConfigValue k d s)"
  proof (cases "k = sg_key r")
    case True
    have "ss_rows s' ! i = r\<lparr>sg_value := v, sg_updated := now\<rparr>" "i < length (ss_rows s')" using assms(2) by (simp_all add: assms(5))
    then show ?thesis using setting_found [OF k, of i] assms(4) True by (simp add: getConfigValue_def coalesce_def)
  next
    case False
    have "find (\<lambda>q. sg_key q = k \<and> sg_active q) (xs[i := r\<lparr>sg_value := v, sg_updated := now\<rparr>]) = find (\<lambda>q. sg_key q = k \<and> sg_active q) xs"
      if "i < length xs" "xs ! i = r" for xs i using that False by (induction xs arbitrary: i) (auto split: nat.splits)
    then show ?thesis using False assms(2,3) by (simp add: getConfigValue_def fetchConfigValueFromDb_def assms(5))
  qed
qed

definition pairs_ok :: "settings \<Rightarrow> bool" where
  "pairs_ok s \<longleftrightarrow> (\<forall>p \<in> set version_rows. \<exists>m r. version_of (getConfigValue (least_key p) ''0.0.0'' s) = Some m \<and> version_of (getConfigValue (recommended_key p) ''0.0.0'' s) = Some r \<and> m \<le> r)"

definition limits_ok :: "settings \<Rightarrow> bool" where
  "limits_ok s \<longleftrightarrow> keyed s \<and> pairs_ok s \<and> cash_safe (cash_now s)"

lemma cmp_order:
  assumes "version_of a = Some v" "version_of b = Some w"
  shows "cmp a b \<le> 0 \<longleftrightarrow> v \<le> w" "0 \<le> cmp a b \<longleftrightarrow> w \<le> v"
proof -
  obtain c where c: "c = cmp a b" "c < 0 \<longleftrightarrow> v < w" "c = 0 \<longleftrightarrow> v = w" using assms by (cases a b rule: compareVersions_cases) auto
  show "cmp a b \<le> 0 \<longleftrightarrow> v \<le> w" using c by (auto simp: le_less)
  show "0 \<le> cmp a b \<longleftrightarrow> w \<le> v" using c by (auto simp: not_less [symmetric])
qed

lemma pair_keys:
  assumes "p \<in> set version_rows"
  shows "versionPairCheck (least_key p) = Some (recommended_key p, True)" "versionPairCheck (recommended_key p) = Some (least_key p, False)"
    "version_key (least_key p)" "version_key (recommended_key p)"
  using assms by (auto simp: version_rows_def versionPairCheck_def least_key_def recommended_key_def version_key_def)

lemma pair_kept:
  assumes p: "p \<in> set version_rows" and old: "version_of m = Some x" "version_of r = Some y" "x \<le> y"
    and bounds: "validateConfigBounds k v"
    and pair: "\<And>k' least. versionPairCheck k = Some (k', least) \<Longrightarrow> k' = recommended_key p \<Longrightarrow> pair_ok least v r"
      "\<And>k' least. versionPairCheck k = Some (k', least) \<Longrightarrow> k' = least_key p \<Longrightarrow> pair_ok least v m"
  shows "\<exists>x y. version_of (if least_key p = k then v else m) = Some x \<and> version_of (if recommended_key p = k then v else r) = Some y \<and> x \<le> y"
proof -
  have apart: "least_key p \<noteq> recommended_key p" by (simp add: least_key_def recommended_key_def)
  consider "k = least_key p" | "k = recommended_key p" | "k \<noteq> least_key p" "k \<noteq> recommended_key p" by blast
  then show ?thesis
  proof cases
    case 1
    have "VERSION_RE v" using bounds pair_keys(3) [OF p] 1 by (auto simp: validateConfigBounds_def split: if_splits)
    then obtain z where z: "version_of v = Some z" using version_of_None [of v] by (cases "version_of v") auto
    have "pair_ok True v r" using pair(1) pair_keys(1) [OF p] 1 by blast
    moreover have "VERSION_RE r" using old(2) version_of_None [of r] by auto
    ultimately have "cmp v r \<le> 0" by (simp add: pair_ok_def)
    then show ?thesis using z old apart 1 cmp_order(1) [OF z old(2)] by simp
  next
    case 2
    have "VERSION_RE v" using bounds pair_keys(4) [OF p] 2 by (auto simp: validateConfigBounds_def split: if_splits)
    then obtain z where z: "version_of v = Some z" using version_of_None [of v] by (cases "version_of v") auto
    have "pair_ok False v m" using pair(2) pair_keys(2) [OF p] 2 by blast
    moreover have "VERSION_RE m" using old(1) version_of_None [of m] by auto
    ultimately have "0 \<le> cmp v m" by (simp add: pair_ok_def)
    then show ?thesis using z old apart 2 cmp_order(2) [OF z old(1)] by simp
  next
    case 3
    then show ?thesis using old by auto
  qed
qed

lemma calm_patch:
  assumes ok: "limits_ok s" and run: "patchConfig json now admin i v expected (patch_reads i s) raised discounted s = (x, s')"
  shows "limits_ok s'"
  using run
proof (cases rule: patchConfig_cases)
  case 1
  then show ?thesis using ok by simp
next
  case (2 b r)
  note c = patch_checks_some [OF 2(2)]
  have br: "b = r" using c 2(3,4) by (simp add: patch_reads_def getConfigById_def)
  have k: "keyed s" using ok by (simp add: limits_ok_def)
  note upd = setting_updated [OF k 2(3-5) 2(7)]
  have sib: "pv_sibling (patch_reads i s) = getConfigValue k' ''0.0.0'' s" if "versionPairCheck (sg_key r) = Some (k', least)" for k' least
    using that 2(3,4) by (simp add: patch_reads_def getConfigById_def)
  have "\<exists>x y. version_of (getConfigValue (least_key p) ''0.0.0'' s') = Some x \<and> version_of (getConfigValue (recommended_key p) ''0.0.0'' s') = Some y \<and> x \<le> y"
    if p: "p \<in> set version_rows" for p
  proof -
    obtain x y where xy: "version_of (getConfigValue (least_key p) ''0.0.0'' s) = Some x" "version_of (getConfigValue (recommended_key p) ''0.0.0'' s) = Some y" "x \<le> y"
      using ok p unfolding limits_ok_def pairs_ok_def by blast
    have "pair_ok least v (getConfigValue k' ''0.0.0'' s)" if "versionPairCheck (sg_key r) = Some (k', least)" for k' least
      using c that sib [OF that] by (simp add: br)
    then show ?thesis unfolding upd(2) using pair_kept [OF p xy, of "sg_key r" v] c by (auto simp: br)
  qed
  then have "pairs_ok s'" unfolding pairs_ok_def by blast
  moreover have "cash_safe (cash_now s')"
  proof -
    have now: "cash_now s' = cash_next (sg_key r) v (cash_now s)" by (auto simp: cash_now_def cash_next_def upd(2))
    have "cashDiscountGuard (sg_key r) v (cash_now s)" using c by (simp add: br patch_reads_def)
    moreover have "cash_next (sg_key r) v (cash_now s) = cash_now s" if "sg_key r \<notin> {CASH_KEY, MIN_KEY, GATE_KEY, ENFORCED_KEY}"
      using that by (simp add: cash_next_def)
    ultimately show ?thesis using ok unfolding cashDiscountGuard_def limits_ok_def now by auto
  qed
  ultimately show ?thesis using upd(1) by (simp add: limits_ok_def)
qed

text \<open>PATCH requests one after another, each deciding on the values of the moment.\<close>

inductive calm_step :: "(string \<Rightarrow> bool) \<Rightarrow> settings \<Rightarrow> settings \<Rightarrow> bool" for json where
  "patchConfig json now admin i v expected (patch_reads i s) raised discounted s = (x, s') \<Longrightarrow> calm_step json s s'"

text \<open>
  C26. The limits between settings. As long as PATCH requests come one after another, no minimum version ever rises above its recommended version, and cash discounts are on only while the
  guard is lifted or the gate shuts out every driver build that does not know of them, whatever keys are written in whatever order.
\<close>

theorem limits_between_settings:
  assumes "(calm_step json)\<^sup>*\<^sup>* s0 s" and "limits_ok s0"
  shows "(\<forall>p \<in> set version_rows. \<exists>m r. version_of (getConfigValue (least_key p) ''0.0.0'' s) = Some m \<and> version_of (getConfigValue (recommended_key p) ''0.0.0'' s) = Some r \<and> m \<le> r)
    \<and> cash_safe (cash_now s)"
proof -
  have "limits_ok s" using assms(1,2) by (induction rule: rtranclp_induct) (auto elim!: calm_step.cases intro: calm_patch)
  then show ?thesis unfolding limits_ok_def pairs_ok_def by blast
qed

subsection \<open>Runs at concrete inputs\<close>

lemma demo_versions:
  "version_of ''1.0.0'' = Some (Version 1 0 0)" "version_of ''1.2.0'' = Some (Version 1 2 0)" "version_of ''1.4.0'' = Some (Version 1 4 0)" "version_of ''1.5.0'' = Some (Version 1 5 0)"
  "version_of ''0.0.0'' = Some (Version 0 0 0)"
  by code_simp+

lemma demo_version_texts: "VERSION_RE ''1.0.0''" "VERSION_RE ''1.2.0''" "VERSION_RE ''1.4.0''" "VERSION_RE ''1.5.0''" "VERSION_RE ''0.0.0''"
  by code_simp+

definition demo_setting :: "string \<Rightarrow> string \<Rightarrow> setting" where
  "demo_setting k v = \<lparr>sg_key = k, sg_value = v, sg_type = StringValue, sg_active = True, sg_updated = 0\<rparr>"

definition demo_settings :: settings where
  "demo_settings = \<lparr>ss_rows = [demo_setting ''app_update_rider_android_min'' ''1.0.0'', demo_setting ''app_update_rider_android_recommended'' ''1.5.0''], ss_audit = []\<rparr>"

lemma demo_patch_checks:
  "setting_checks json ''1.4.0'' (patch_reads 0 demo_settings) = Inr (demo_setting ''app_update_rider_android_min'' ''1.0.0'')"
  "setting_checks json ''1.2.0'' (patch_reads 1 demo_settings) = Inr (demo_setting ''app_update_rider_android_recommended'' ''1.5.0'')"
proof -
  have trim: "js_trim ''1.4.0'' = ''1.4.0''" "js_trim ''1.2.0'' = ''1.2.0''" by code_simp+
  have b: "validateConfigBounds ''app_update_rider_android_min'' ''1.4.0''" "validateConfigBounds ''app_update_rider_android_recommended'' ''1.2.0''"
    by (simp_all add: validateConfigBounds_def SWITCHES_def demo_version_texts getConfigBounds_def BOUNDS_def)
  have p: "versionPairCheck ''app_update_rider_android_min'' = Some (''app_update_rider_android_recommended'', True)"
    "versionPairCheck ''app_update_rider_android_recommended'' = Some (''app_update_rider_android_min'', False)" by code_simp+
  have c: "cmp ''1.4.0'' ''1.5.0'' \<le> 0" "0 \<le> cmp ''1.2.0'' ''1.0.0''" using cmp_order demo_versions by (simp_all add: less_eq_version_def)
  show "setting_checks json ''1.4.0'' (patch_reads 0 demo_settings) = Inr (demo_setting ''app_update_rider_android_min'' ''1.0.0'')"
    by (simp add: setting_checks_def patch_reads_def getConfigById_def demo_settings_def demo_setting_def validateConfigValue_def trim b p c pair_ok_def getConfigValue_def
        fetchConfigValueFromDb_def coalesce_def cashDiscountGuard_def CASH_KEY_def MIN_KEY_def GATE_KEY_def ENFORCED_KEY_def)
  show "setting_checks json ''1.2.0'' (patch_reads 1 demo_settings) = Inr (demo_setting ''app_update_rider_android_recommended'' ''1.5.0'')"
    by (simp add: setting_checks_def patch_reads_def getConfigById_def demo_settings_def demo_setting_def validateConfigValue_def trim b p c pair_ok_def getConfigValue_def
        fetchConfigValueFromDb_def coalesce_def cashDiscountGuard_def CASH_KEY_def MIN_KEY_def GATE_KEY_def ENFORCED_KEY_def)
qed

text \<open>A build below the minimum, and a newer one.\<close>

theorem gate_blocks_old_builds_witness:
  "requireSupportedApp False (Some \<lparr>id_app = RiderApp, id_platform = Android, id_version = ''0.0.0''\<rparr>) demo_settings = Inl (http_err 426 ''UPGRADE_REQUIRED'')"
proof -
  let ?i = "\<lparr>id_app = RiderApp, id_platform = Android, id_version = ''0.0.0''\<rparr>"
  let ?j = "\<lparr>id_app = RiderApp, id_platform = Android, id_version = ''1.0.0''\<rparr>"
  have "version_of (id_version ?i) = Some (Version 0 0 0)" "version_of (id_version ?j) = Some (Version 1 0 0)" by (simp_all add: demo_versions)
  moreover have "Version 0 0 0 \<le> Version 1 0 0" by (simp add: less_eq_version_def)
  moreover have "version_prefix ?i = version_prefix ?j" by (simp add: version_prefix_def)
  ultimately have "requireSupportedApp False (Some ?i) demo_settings = Inl (http_err 426 ''UPGRADE_REQUIRED'') \<longleftrightarrow>
      \<not> False \<and> getConfigValue GATE_KEY ''true'' demo_settings = ''true'' \<and> (\<exists>m. version_of (getConfigValue (least_key (version_prefix ?i)) ''0.0.0'' demo_settings) = Some m \<and> Version 0 0 0 < m)"
    by (rule gate_blocks_old_builds [THEN conjunct1])
  then show ?thesis
    by (simp add: getConfigValue_def fetchConfigValueFromDb_def demo_settings_def demo_setting_def GATE_KEY_def coalesce_def version_prefix_def app_text_def platform_text_def least_key_def
        demo_versions less_version_def)
qed

text \<open>The minimum is raised.\<close>

theorem settings_stay_valid_witness:
  "\<exists>t. (settings_step (\<lambda>_. True))\<^sup>*\<^sup>* \<lparr>sr_db = demo_settings, sr_seen = []\<rparr> t \<and> length (ss_audit (sr_db t)) = 1 \<and> list_all (valid_setting (\<lambda>_. True)) (ss_rows (sr_db t))"
proof -
  let ?t0 = "\<lparr>sr_db = demo_settings, sr_seen = []\<rparr>"
  let ?b = "demo_setting ''app_update_rider_android_min'' ''1.0.0''"
  let ?t1 = "?t0\<lparr>sr_seen := [(0, ?b)]\<rparr>"
  let ?J = "\<lambda>_ :: string. True"
  have row: "getConfigById 0 demo_settings = Some ?b" by (simp add: getConfigById_def demo_settings_def)
  then have s1: "settings_step ?J ?t0 ?t1" using settings_step.reads [of 0 ?t0 ?b ?J] by simp
  obtain x s' where run: "patchConfig ?J 5 9 0 ''1.4.0'' None (patch_reads 0 demo_settings) False 0 demo_settings = (x, s')" by fastforce
  have s': "length (ss_audit s') = 1" using run demo_patch_checks(1) [of ?J]
    by (auto simp: patchConfig_def updateConfigValue_def getConfigById_def demo_settings_def demo_setting_def)
  have "pv_before (patch_reads 0 demo_settings) = Some ?b" by (simp add: patch_reads_def row)
  then have "settings_step ?J ?t1 (?t1\<lparr>sr_db := s'\<rparr>)" using settings_step.patches [of 0 ?b ?t1 "patch_reads 0 demo_settings" ?J 5 9 "''1.4.0''" None False 0 x s'] run by simp
  with s1 have r: "(settings_step ?J)\<^sup>*\<^sup>* ?t0 (?t1\<lparr>sr_db := s'\<rparr>)" by (meson rtranclp.rtrancl_refl rtranclp.rtrancl_into_rtrancl)
  have trim: "js_trim ''1.0.0'' = ''1.0.0''" "js_trim ''1.5.0'' = ''1.5.0''" by code_simp+
  have "list_all (valid_setting ?J) (ss_rows (sr_db ?t0))"
    by (simp add: demo_settings_def demo_setting_def valid_setting_def validateConfigValue_def trim validateConfigBounds_def SWITCHES_def demo_version_texts getConfigBounds_def BOUNDS_def)
  moreover have "sr_seen ?t0 = []" "ss_audit (sr_db ?t0) = []" by (simp_all add: demo_settings_def)
  ultimately have "list_all (valid_setting ?J) (ss_rows (sr_db (?t1\<lparr>sr_db := s'\<rparr>)))" using settings_stay_valid [OF r] by blast
  then show ?thesis using r s' by (intro exI [of _ "?t1\<lparr>sr_db := s'\<rparr>"]) simp
qed

lemma demo_limits: "limits_ok demo_settings"
  by (simp add: limits_ok_def keyed_def pairs_ok_def version_rows_def least_key_def recommended_key_def getConfigValue_def fetchConfigValueFromDb_def demo_settings_def demo_setting_def
      coalesce_def demo_versions less_eq_version_def cash_safe_def cash_now_def CASH_KEY_def)

theorem limits_between_settings_witness:
  "\<exists>s x. patchConfig (\<lambda>_. True) 5 9 0 ''1.4.0'' None (patch_reads 0 demo_settings) False 0 demo_settings = (Inr x, s) \<and> cash_safe (cash_now s)"
proof -
  obtain y s where run: "patchConfig (\<lambda>_. True) 5 9 0 ''1.4.0'' None (patch_reads 0 demo_settings) False 0 demo_settings = (y, s)" by fastforce
  have row: "getConfigById 0 demo_settings = Some (demo_setting ''app_update_rider_android_min'' ''1.0.0'')" by (simp add: getConfigById_def demo_settings_def)
  have y: "\<exists>x. y = Inr x" using run demo_patch_checks(1) by (auto simp: patchConfig_def updateConfigValue_def row demo_setting_def)
  have "calm_step (\<lambda>_. True) demo_settings s" using run by (rule calm_step.intros)
  then have "cash_safe (cash_now s)" using limits_between_settings [OF r_into_rtranclp [of "calm_step (\<lambda>_. True)"] demo_limits] by blast
  then show ?thesis using run y by blast
qed

text \<open>Two PATCH requests that have read the same settings leave a minimum above the recommended version: each check is right, no row is locked.\<close>

lemma pair_limit_lost_in_a_race:
  "\<exists>s1 s2. patchConfig json 5 9 0 ''1.4.0'' None (patch_reads 0 demo_settings) False 0 demo_settings = (Inr False, s1)
     \<and> patchConfig json 6 8 1 ''1.2.0'' None (patch_reads 1 demo_settings) False 0 s1 = (Inr False, s2)
     \<and> version_of (getConfigValue ''app_update_rider_android_min'' ''0.0.0'' s2) = Some (Version 1 4 0)
     \<and> version_of (getConfigValue ''app_update_rider_android_recommended'' ''0.0.0'' s2) = Some (Version 1 2 0)"
  unfolding patchConfig_def demo_patch_checks
  by (simp add: updateConfigValue_def getConfigById_def demo_settings_def demo_setting_def getConfigValue_def fetchConfigValueFromDb_def coalesce_def demo_versions)

end
