(* ===== verification/Sharing.thy ===== *)
theory Sharing
  imports RideCore
begin

text \<open>
  Emergency contacts (\<open>modules/emergency-contacts\<close>) and shared trip links (\<open>modules/ride-shares\<close>, migration 126): creating, limiting, stopping and purging links, and what the public page
  shows. Times are milliseconds. The random tokens are arguments, a token stands for its hash.
\<close>

subsection \<open>Tables\<close>

record contact =
  ec_id :: nat
  ec_user :: nat
  ec_name :: string
  ec_phone :: string

record share =
  lk_id :: nat
  lk_ride :: nat
  lk_user :: nat
  lk_token :: string
  lk_label :: "string option"
  lk_phone :: "string option"
  lk_sos :: bool
  lk_created :: int
  lk_revoked :: "int option"
  lk_first :: "int option"
  lk_last :: "int option"
  lk_views :: int

record sharing =
  sn_rides :: ride_db
  sn_phones :: "nat \<Rightarrow> string option"
  sn_contacts :: "contact list"
  sn_next_contact :: nat
  sn_links :: "share list"
  sn_next :: nat

subsection \<open>Emergency contacts\<close>

datatype contact_result = Added contact | ContactLimit | DuplicateContact | OwnNumber

definition contacts_list :: "nat \<Rightarrow> sharing \<Rightarrow> contact list" where
  "contacts_list u s = filter (\<lambda>c. ec_user c = u) (sn_contacts s)"

definition insertWithinLimit :: "nat \<Rightarrow> string \<Rightarrow> string \<Rightarrow> nat \<Rightarrow> sharing \<Rightarrow> contact_result \<times> sharing" where
  "insertWithinLimit u name phone most s =
     (let mine = contacts_list u s; c = \<lparr>ec_id = sn_next_contact s, ec_user = u, ec_name = name, ec_phone = phone\<rparr> in
      if most \<le> length mine then (ContactLimit, s)
      else if phone \<in> set (map ec_phone mine) then (DuplicateContact, s)
      else if sn_phones s u = Some phone then (OwnNumber, s)
      else (Added c, s\<lparr>sn_contacts := sn_contacts s @ [c], sn_next_contact := sn_next_contact s + 1\<rparr>))"

definition contacts_remove :: "nat \<Rightarrow> nat \<Rightarrow> sharing \<Rightarrow> bool \<times> sharing" where
  "contacts_remove u i s = (\<exists>c \<in> set (sn_contacts s). ec_id c = i \<and> ec_user c = u, s\<lparr>sn_contacts := filter (\<lambda>c. \<not> (ec_id c = i \<and> ec_user c = u)) (sn_contacts s)\<rparr>)"

subsection \<open>When a link is dead, and what its page shows\<close>

datatype trip_phase = DriverOnWay | InTrip | TripCompleted | TripCancelled | FindingDriver | Inactive

definition POST_TRIP_GRACE_MS :: int where "POST_TRIP_GRACE_MS = 30 * 60 * 1000"
definition MAX_LINK_AGE_MS :: int where "MAX_LINK_AGE_MS = 7 * 24 * 60 * 60 * 1000"
definition STALE_AFTER_MS :: int where "STALE_AFTER_MS = 60 * 1000"

definition SHAREABLE_STATUSES :: "ride_status list" where
  "SHAREABLE_STATUSES = [Accepted, DriverArrived, InProgress, Returning]"

fun phaseForStatus :: "ride_status \<Rightarrow> trip_phase" where
  "phaseForStatus Accepted = DriverOnWay"
| "phaseForStatus DriverArrived = DriverOnWay"
| "phaseForStatus InProgress = InTrip"
| "phaseForStatus Returning = InTrip"
| "phaseForStatus Completed = TripCompleted"
| "phaseForStatus Cancelled = TripCancelled"
| "phaseForStatus NoDrivers = TripCancelled"
| "phaseForStatus Requested = FindingDriver"
| "phaseForStatus Scheduled = Inactive"

definition ride_ended :: "ride_row \<Rightarrow> int option" where
  "ride_ended r = (case rr_completed r of Some t \<Rightarrow> Some t | None \<Rightarrow> rr_cancelled r)"

definition isShareExpired :: "share \<Rightarrow> ride_row \<Rightarrow> int \<Rightarrow> bool" where
  "isShareExpired l r now \<longleftrightarrow> MAX_LINK_AGE_MS < now - lk_created l
     \<or> (case ride_ended r of Some t \<Rightarrow> POST_TRIP_GRACE_MS < now - t | None \<Rightarrow> False) \<or> phaseForStatus (rr_status r) = Inactive"

text \<open>What the join of \<open>getPublicTripRow\<close> finds beside the ride itself, and the public stops.\<close>

record driver_fix =
  fx_lat :: num
  fx_lng :: num
  fx_heading :: "num option"
  fx_at :: int

record trip_names =
  tn_rider :: "string option"
  tn_driver :: "string option"
  tn_color :: "string option"
  tn_brand :: "string option"
  tn_model :: "string option"
  tn_plate :: "string option"
  tn_origin :: "string option"
  tn_dest :: "string option"
  tn_fix :: "driver_fix option"

record public_stop =
  ps_label :: "string option"
  ps_lat :: num
  ps_lng :: num
  ps_status :: string

record trip_eta =
  te_min :: int
  te_route :: string

record public_place =
  pl_label :: "string option"
  pl_lat :: num
  pl_lng :: num

record public_driver =
  pd_lat :: num
  pd_lng :: num
  pd_heading :: "num option"
  pd_updated :: int
  pd_stale :: bool

record public_trip =
  pt_phase :: trip_phase
  pt_rider :: "string option"
  pt_driver_name :: "string option"
  pt_color :: "string option"
  pt_brand :: "string option"
  pt_model :: "string option"
  pt_plate :: "string option"
  pt_pickup :: public_place
  pt_drop :: "public_place option"
  pt_stops :: "public_stop list"
  pt_driver :: "public_driver option"
  pt_eta :: "int option"
  pt_route :: "string option"
  pt_completed :: "int option"
  pt_server :: int

definition live_phase :: "trip_phase \<Rightarrow> bool" where
  "live_phase p \<longleftrightarrow> p = DriverOnWay \<or> p = InTrip"

definition toPublicTrip :: "ride_row \<Rightarrow> trip_names \<Rightarrow> public_stop list \<Rightarrow> trip_eta option \<Rightarrow> int \<Rightarrow> public_trip" where
  "toPublicTrip r n stops eta now =
     (let phase = phaseForStatus (rr_status r); live = live_phase phase in
      \<lparr>pt_phase = phase, pt_rider = tn_rider n, pt_driver_name = tn_driver n, pt_color = tn_color n, pt_brand = tn_brand n, pt_model = tn_model n, pt_plate = tn_plate n,
       pt_pickup = \<lparr>pl_label = tn_origin n, pl_lat = fst (rr_origin r), pl_lng = snd (rr_origin r)\<rparr>,
       pt_drop = map_option (\<lambda>d. \<lparr>pl_label = tn_dest n, pl_lat = fst d, pl_lng = snd d\<rparr>) (rr_dest r),
       pt_stops = stops,
       pt_driver = (case tn_fix n of None \<Rightarrow> None
          | Some f \<Rightarrow> if live then Some \<lparr>pd_lat = fx_lat f, pd_lng = fx_lng f, pd_heading = fx_heading f, pd_updated = fx_at f, pd_stale = STALE_AFTER_MS < now - fx_at f\<rparr> else None),
       pt_eta = (if live then map_option te_min eta else None),
       pt_route = (if live then map_option te_route eta else None),
       pt_completed = (if phase = TripCompleted then rr_completed r else None),
       pt_server = now\<rparr>)"

subsection \<open>Arrival times\<close>

record cached_eta =
  ce_min :: int
  ce_route :: string
  ce_at :: int

datatype eta_entry = NO_ETA | EtaAt cached_eta

text \<open>What the routing service answers.\<close>

datatype route_answer = RouteFailed | RouteFallback | Routed num "num option" string

definition agedEta :: "cached_eta \<Rightarrow> int \<Rightarrow> trip_eta" where
  "agedEta e now = \<lparr>te_min = max 1 (js_round (fsub (of_int (ce_min e)) (fdiv (of_int (now - ce_at e)) 60000))), te_route = ce_route e\<rparr>"

definition eta_target :: "ride_row \<Rightarrow> (num \<times> num) option" where
  "eta_target r = (case phaseForStatus (rr_status r) of DriverOnWay \<Rightarrow> Some (rr_origin r) | InTrip \<Rightarrow> rr_dest r | _ \<Rightarrow> None)"

text \<open>The second component is what is written to the cache, if anything.\<close>

definition etaFor :: "eta_entry option \<Rightarrow> ((num \<times> num) \<Rightarrow> (num \<times> num) \<Rightarrow> route_answer) \<Rightarrow> ride_row \<Rightarrow> driver_fix option \<Rightarrow> int \<Rightarrow> trip_eta option \<times> eta_entry option" where
  "etaFor cached route r fix now =
     (case fix of None \<Rightarrow> (None, None)
      | Some f \<Rightarrow>
          if \<not> live_phase (phaseForStatus (rr_status r)) then (None, None)
          else (case cached of Some NO_ETA \<Rightarrow> (None, None) | Some (EtaAt e) \<Rightarrow> (Some (agedEta e now), None)
            | None \<Rightarrow> (case eta_target r of None \<Rightarrow> (None, None)
                | Some target \<Rightarrow> (case route (fx_lat f, fx_lng f) target of
                    RouteFailed \<Rightarrow> (None, Some NO_ETA) | RouteFallback \<Rightarrow> (None, Some NO_ETA)
                  | Routed d traffic line \<Rightarrow> (let e = \<lparr>ce_min = max 1 (js_round (coalesce traffic d)), ce_route = line, ce_at = now\<rparr> in (Some (agedEta e now), Some (EtaAt e)))))))"

subsection \<open>Creating and stopping links\<close>

record new_share =
  ns_token :: string
  ns_label :: "string option"
  ns_phone :: "string option"

datatype insert_result = Created "nat list" | LimitRide | LimitHour

definition active_links :: "nat \<Rightarrow> sharing \<Rightarrow> share list" where
  "active_links i s = filter (\<lambda>l. lk_ride l = i \<and> lk_revoked l = None \<and> \<not> lk_sos l) (sn_links s)"

definition recent_links :: "int \<Rightarrow> nat \<Rightarrow> sharing \<Rightarrow> share list" where
  "recent_links now u s = filter (\<lambda>l. lk_user l = u \<and> \<not> lk_sos l \<and> now - 3600000 < lk_created l) (sn_links s)"

fun insert_rows :: "int \<Rightarrow> nat \<Rightarrow> nat \<Rightarrow> bool \<Rightarrow> new_share list \<Rightarrow> sharing \<Rightarrow> sharing" where
  "insert_rows now i u sos [] s = s"
| "insert_rows now i u sos (n # ns) s = insert_rows now i u sos ns (s\<lparr>sn_next := sn_next s + 1,
     sn_links := sn_links s @ [\<lparr>lk_id = sn_next s, lk_ride = i, lk_user = u, lk_token = ns_token n, lk_label = ns_label n, lk_phone = ns_phone n, lk_sos = sos, lk_created = now,
       lk_revoked = None, lk_first = None, lk_last = None, lk_views = 0\<rparr>]\<rparr>)"

text \<open>
  One transaction that holds the ride's row; \<open>UNIQUE (token_hash)\<close> aborts it. No caps for an emergency. The lock makes the count of the ride exact; links the rider is
  creating on another ride at the same moment may not be committed yet: \<open>vis\<close> says which links of other rides the hourly count sees.
\<close>

definition seen_links :: "(share \<Rightarrow> bool) \<Rightarrow> nat \<Rightarrow> int \<Rightarrow> nat \<Rightarrow> sharing \<Rightarrow> share list" where
  "seen_links vis i now u s = filter (\<lambda>l. lk_ride l = i \<or> vis l) (recent_links now u s)"

definition insertShares :: "(share \<Rightarrow> bool) \<Rightarrow> int \<Rightarrow> nat \<Rightarrow> nat \<Rightarrow> bool \<Rightarrow> (nat \<times> nat) option \<Rightarrow> new_share list \<Rightarrow> sharing \<Rightarrow> insert_result res \<times> sharing" where
  "insertShares vis now i u sos caps ns s =
     (if ns = [] then (Inr (Created []), s)
      else if (case caps of None \<Rightarrow> False | Some (ride, hour) \<Rightarrow> ride < length (active_links i s) + length ns) then (Inr LimitRide, s)
      else if (case caps of None \<Rightarrow> False | Some (ride, hour) \<Rightarrow> hour < length (seen_links vis i now u s) + length ns) then (Inr LimitHour, s)
      else if \<not> distinct (map ns_token ns) \<or> (\<exists>n \<in> set ns. ns_token n \<in> set (map lk_token (sn_links s))) then (Inl db_error, s)
      else (Inr (Created [sn_next s..<sn_next s + length ns]), insert_rows now i u sos ns s))"

definition SHARE_CAPS :: "nat \<times> nat" where "SHARE_CAPS = (10, 20)"

definition requireOwnShareableRide :: "nat \<Rightarrow> ride_row option \<Rightarrow> unit res" where
  "requireOwnShareableRide u r = (case r of None \<Rightarrow> Inl (http_err 404 ''RIDE_NOT_FOUND'')
     | Some x \<Rightarrow> bind_res (guard_err (rr_user x \<noteq> u) (http_err 404 ''RIDE_NOT_FOUND'')) (\<lambda>_.
         guard_err (rr_status x \<notin> set SHAREABLE_STATUSES) (http_err 409 ''RIDE_NOT_SHAREABLE'')))"

text \<open>One link for each chosen contact, or one without a name.\<close>

definition share_targets :: "contact list \<Rightarrow> nat list \<Rightarrow> (string option \<times> string option) list res" where
  "share_targets saved ids = (let chosen = map (\<lambda>i. find (\<lambda>c. ec_id c = i) saved) (remdups (rev ids)) in
     if None \<in> set chosen then Inl (http_err 422 ''VALIDATION_ERROR'')
     else Inr (if chosen = [] then [(None, None)] else map (\<lambda>c. (Some (ec_name (the c)), Some (ec_phone (the c)))) (rev chosen)))"

record created_share =
  cs_id :: nat
  cs_token :: string
  cs_label :: "string option"
  cs_sms :: "bool option"

text \<open>\<open>seen\<close>: the ride as read before, \<open>saved\<close>: the contacts as read before, \<open>token\<close>: the random texts, \<open>sms\<close>: whether a text goes out.\<close>

definition createShares :: "(share \<Rightarrow> bool) \<Rightarrow> bool \<Rightarrow> (nat \<Rightarrow> string) \<Rightarrow> (string \<Rightarrow> bool) \<Rightarrow> int \<Rightarrow> nat \<Rightarrow> nat \<Rightarrow> nat list \<Rightarrow> ride_row option \<Rightarrow> contact list \<Rightarrow> sharing \<Rightarrow> created_share list res \<times> sharing" where
  "createShares vis enabled token sms now u i ids seen saved s =
     (if \<not> enabled then (Inl (http_err 403 ''TRIP_SHARE_DISABLED''), s)
      else case requireOwnShareableRide u seen of Inl err \<Rightarrow> (Inl err, s)
      | Inr _ \<Rightarrow> (case share_targets (if ids = [] then [] else saved) ids of Inl err \<Rightarrow> (Inl err, s)
        | Inr ts \<Rightarrow>
            let ns = map (\<lambda>(k, label, phone). \<lparr>ns_token = token k, ns_label = label, ns_phone = phone\<rparr>) (enumerate 0 ts) in
            (case insertShares vis now i u False (Some SHARE_CAPS) ns s of
               (Inl err, s1) \<Rightarrow> (Inl err, s1)
             | (Inr (Created js), s1) \<Rightarrow> (Inr (map (\<lambda>(j, n). \<lparr>cs_id = j, cs_token = ns_token n, cs_label = ns_label n, cs_sms = map_option sms (ns_phone n)\<rparr>) (zip js ns)), s1)
             | (Inr _, s1) \<Rightarrow> (Inl (http_err 429 ''TRIP_SHARE_LIMIT''), s1))))"

definition hasRecentSosShare :: "int \<Rightarrow> nat \<Rightarrow> sharing \<Rightarrow> bool" where
  "hasRecentSosShare now i s = list_ex (\<lambda>l. lk_ride l = i \<and> lk_sos l \<and> lk_revoked l = None \<and> now - 600000 < lk_created l) (sn_links s)"

text \<open>\<open>wording\<close>: the text message can be written; \<open>recent\<close>: the answer of \<open>hasRecentSosShare\<close> before. The result is the token, if there is a link.\<close>

definition createSosShare :: "bool \<Rightarrow> bool \<Rightarrow> string \<Rightarrow> int \<Rightarrow> nat \<Rightarrow> nat \<Rightarrow> ride_row option \<Rightarrow> bool \<Rightarrow> sharing \<Rightarrow> string option \<times> sharing" where
  "createSosShare enabled wording token now i u seen recent s =
     (if \<not> enabled then (None, s)
      else case seen of None \<Rightarrow> (None, s)
      | Some r \<Rightarrow>
          if rr_user r \<noteq> u \<or> \<not> wording \<or> recent then (None, s)
          else (case insertShares (\<lambda>_. True) now i u True None [\<lparr>ns_token = token, ns_label = Some ''SOS'', ns_phone = None\<rparr>] s of
              (Inr (Created _), s1) \<Rightarrow> (Some token, s1) | (_, s1) \<Rightarrow> (None, s1)))"

definition mark_links :: "(share \<Rightarrow> bool) \<Rightarrow> (share \<Rightarrow> share) \<Rightarrow> sharing \<Rightarrow> sharing" where
  "mark_links P f s = s\<lparr>sn_links := map (\<lambda>l. if P l then f l else l) (sn_links s)\<rparr>"

definition listActive :: "nat \<Rightarrow> nat \<Rightarrow> sharing \<Rightarrow> share list" where
  "listActive i u s = filter (\<lambda>l. lk_ride l = i \<and> lk_user l = u \<and> lk_revoked l = None) (sn_links s)"

definition listShares :: "nat \<Rightarrow> nat \<Rightarrow> sharing \<Rightarrow> share list res" where
  "listShares u i s = (case ride_at (sn_rides s) i of None \<Rightarrow> Inl (http_err 404 ''RIDE_NOT_FOUND'')
     | Some r \<Rightarrow> if rr_user r \<noteq> u then Inl (http_err 404 ''RIDE_NOT_FOUND'') else Inr (listActive i u s))"

definition own_link :: "nat \<Rightarrow> nat \<Rightarrow> nat \<Rightarrow> share \<Rightarrow> bool" where
  "own_link i u k l \<longleftrightarrow> lk_id l = k \<and> lk_ride l = i \<and> lk_user l = u \<and> lk_revoked l = None"

definition stopShare :: "int \<Rightarrow> nat \<Rightarrow> nat \<Rightarrow> nat \<Rightarrow> sharing \<Rightarrow> unit res \<times> sharing" where
  "stopShare now u i k s = (if list_ex (own_link i u k) (sn_links s) then (Inr (), mark_links (own_link i u k) (\<lambda>l. l\<lparr>lk_revoked := Some now\<rparr>) s)
     else (Inl (http_err 404 ''NOT_FOUND''), s))"

definition stopAllShares :: "int \<Rightarrow> nat \<Rightarrow> nat \<Rightarrow> sharing \<Rightarrow> nat \<times> sharing" where
  "stopAllShares now u i s = (length (listActive i u s), mark_links (\<lambda>l. lk_ride l = i \<and> lk_user l = u \<and> lk_revoked l = None) (\<lambda>l. l\<lparr>lk_revoked := Some now\<rparr>) s)"

definition purge_due :: "int \<Rightarrow> sharing \<Rightarrow> share \<Rightarrow> bool" where
  "purge_due now s l \<longleftrightarrow> (case ride_at (sn_rides s) (lk_ride l) of None \<Rightarrow> False
     | Some r \<Rightarrow> (case ride_ended r of Some t \<Rightarrow> t < now - 30 * 86400000 | None \<Rightarrow> False) \<or> lk_created l < now - 37 * 86400000)"

definition purgeOld :: "int \<Rightarrow> sharing \<Rightarrow> sharing" where
  "purgeOld now s = s\<lparr>sn_links := filter (\<lambda>l. \<not> purge_due now s l) (sn_links s)\<rparr>"

subsection \<open>The public page\<close>

definition findByTokenHash :: "string \<Rightarrow> sharing \<Rightarrow> (share \<times> ride_row) option" where
  "findByTokenHash t s = (case find (\<lambda>l. lk_token l = t) (sn_links s) of None \<Rightarrow> None
     | Some l \<Rightarrow> (case ride_at (sn_rides s) (lk_ride l) of None \<Rightarrow> None | Some r \<Rightarrow> Some (l, r)))"

definition recordView :: "int \<Rightarrow> nat \<Rightarrow> sharing \<Rightarrow> sharing" where
  "recordView now k s = mark_links (\<lambda>l. lk_id l = k \<and> (case lk_last l of None \<Rightarrow> True | Some t \<Rightarrow> t < now - 60000))
     (\<lambda>l. l\<lparr>lk_views := lk_views l + 1, lk_last := Some now, lk_first := Some (coalesce (lk_first l) now)\<rparr>) s"

datatype public_result = TripOk public_trip bool | TripMissing | TripExpired

text \<open>\<open>cached\<close>: a page of the ride built less than two seconds ago; \<open>shown\<close>: the names, stops and arrival time read for a new one.\<close>

definition buildTrip :: "public_trip option \<Rightarrow> trip_names \<Rightarrow> public_stop list \<Rightarrow> trip_eta option \<Rightarrow> nat \<Rightarrow> int \<Rightarrow> sharing \<Rightarrow> public_trip option" where
  "buildTrip cached names stops eta i now s = (case cached of Some t \<Rightarrow> Some t | None \<Rightarrow> map_option (\<lambda>r. toPublicTrip r names stops eta now) (ride_at (sn_rides s) i))"

definition getPublicTrip :: "string \<Rightarrow> public_trip option \<Rightarrow> trip_names \<Rightarrow> public_stop list \<Rightarrow> trip_eta option \<Rightarrow> bool \<Rightarrow> int \<Rightarrow> sharing \<Rightarrow> public_result \<times> sharing" where
  "getPublicTrip t cached names stops eta viewed now s =
     (case findByTokenHash t s of None \<Rightarrow> (TripMissing, s)
      | Some (l, r) \<Rightarrow>
          if lk_revoked l \<noteq> None then (TripMissing, s)
          else if isShareExpired l r now then (TripExpired, s)
          else (case buildTrip cached names stops eta (lk_ride l) now s of None \<Rightarrow> (TripMissing, s)
             | Some trip \<Rightarrow> (TripOk trip (lk_sos l), if viewed then recordView now (lk_id l) s else s)))"

subsection \<open>What the operations write\<close>

definition new_row :: "int \<Rightarrow> nat \<Rightarrow> nat \<Rightarrow> bool \<Rightarrow> nat \<times> new_share \<Rightarrow> share" where
  "new_row now i u sos = (\<lambda>(k, n). \<lparr>lk_id = k, lk_ride = i, lk_user = u, lk_token = ns_token n, lk_label = ns_label n, lk_phone = ns_phone n, lk_sos = sos, lk_created = now,
     lk_revoked = None, lk_first = None, lk_last = None, lk_views = 0\<rparr>)"

lemma new_row_fields [simp]:
  "lk_ride (new_row now i u sos x) = i" "lk_user (new_row now i u sos x) = u" "lk_sos (new_row now i u sos x) = sos" "lk_created (new_row now i u sos x) = now"
  "lk_revoked (new_row now i u sos x) = None" "lk_token (new_row now i u sos x) = ns_token (snd x)" "lk_label (new_row now i u sos x) = ns_label (snd x)" "lk_id (new_row now i u sos x) = fst x"
  by (simp_all add: new_row_def case_prod_beta)

lemma insert_rows_links:
  "sn_links (insert_rows now i u sos ns s) = sn_links s @ map (new_row now i u sos) (enumerate (sn_next s) ns)"
  "sn_next (insert_rows now i u sos ns s) = sn_next s + length ns" "sn_rides (insert_rows now i u sos ns s) = sn_rides s"
  by (induction ns arbitrary: s) (simp_all add: new_row_def)

lemma enumerate_tokens: "map (\<lambda>x. ns_token (snd x)) (enumerate k ns) = map ns_token ns"
  by (simp add: enumerate_eq_zip flip: map_map [unfolded comp_def, of ns_token snd])

lemma insertShares_cases:
  assumes "insertShares vis now i u sos caps ns s = (x, s')"
  obtains "s' = s" "\<forall>js. x = Inr (Created js) \<longrightarrow> ns = [] \<and> js = []"
  | "x = Inr (Created [sn_next s..<sn_next s + length ns])" "s' = insert_rows now i u sos ns s" "distinct (map ns_token ns)" "set (map ns_token ns) \<inter> set (map lk_token (sn_links s)) = {}"
      "\<forall>ride hour. caps = Some (ride, hour) \<longrightarrow> length (active_links i s) + length ns \<le> ride \<and> length (seen_links vis i now u s) + length ns \<le> hour"
proof -
  let ?r = "case caps of None \<Rightarrow> False | Some (ride, hour) \<Rightarrow> ride < length (active_links i s) + length ns"
  let ?h = "case caps of None \<Rightarrow> False | Some (ride, hour) \<Rightarrow> hour < length (seen_links vis i now u s) + length ns"
  let ?d = "\<not> distinct (map ns_token ns) \<or> (\<exists>n \<in> set ns. ns_token n \<in> set (map lk_token (sn_links s)))"
  have e: "insertShares vis now i u sos caps ns s = (if ns = [] then (Inr (Created []), s) else if ?r then (Inr LimitRide, s) else if ?h then (Inr LimitHour, s) else if ?d then (Inl db_error, s)
    else (Inr (Created [sn_next s..<sn_next s + length ns]), insert_rows now i u sos ns s))" by (simp add: insertShares_def)
  show thesis
  proof (cases "ns = [] \<or> ?r \<or> ?h \<or> ?d")
    case True
    then have "s' = s \<and> (\<forall>js. x = Inr (Created js) \<longrightarrow> ns = [] \<and> js = [])" using assms unfolding e by (auto split: if_splits)
    then show thesis using that(1) by blast
  next
    case False
    then have "x = Inr (Created [sn_next s..<sn_next s + length ns])" "s' = insert_rows now i u sos ns s" using assms unfolding e by simp_all
    moreover have "distinct (map ns_token ns)" "set (map ns_token ns) \<inter> set (map lk_token (sn_links s)) = {}" using False by auto
    moreover have "\<forall>ride hour. caps = Some (ride, hour) \<longrightarrow> length (active_links i s) + length ns \<le> ride \<and> length (seen_links vis i now u s) + length ns \<le> hour" using False by auto
    ultimately show thesis by (rule that(2))
  qed
qed

lemma createShares_cases:
  assumes "createShares vis enabled token sms now u i ids seen saved s = (x, s')"
  obtains "s' = s" "\<exists>err. x = Inl err"
  | ts ns where "requireOwnShareableRide u seen = Inr ()" "share_targets (if ids = [] then [] else saved) ids = Inr ts"
      "ns = map (\<lambda>(k, label, phone). \<lparr>ns_token = token k, ns_label = label, ns_phone = phone\<rparr>) (enumerate 0 ts)"
      "insertShares vis now i u False (Some SHARE_CAPS) ns s = (Inr (Created [sn_next s..<sn_next s + length ns]), s')" "ns \<noteq> []"
      "x = Inr (map (\<lambda>(j, n). \<lparr>cs_id = j, cs_token = ns_token n, cs_label = ns_label n, cs_sms = map_option sms (ns_phone n)\<rparr>) (zip [sn_next s..<sn_next s + length ns] ns))"
proof (cases "enabled \<and> requireOwnShareableRide u seen = Inr ()")
  case False
  then have "s' = s \<and> (\<exists>err. x = Inl err)" using assms by (cases "requireOwnShareableRide u seen") (auto simp: createShares_def split: if_splits)
  then show thesis using that(1) by blast
next
  case en: True
  show thesis
  proof (cases "share_targets (if ids = [] then [] else saved) ids")
    case (Inl err)
    then have "s' = s \<and> (\<exists>err. x = Inl err)" using assms en by (auto simp: createShares_def split: if_splits)
    then show thesis using that(1) by blast
  next
    case (Inr ts)
    define ns where "ns = map (\<lambda>(k, label, phone). \<lparr>ns_token = token k, ns_label = label, ns_phone = phone\<rparr>) (enumerate 0 ts)"
    obtain y s1 where y: "insertShares vis now i u False (Some SHARE_CAPS) ns s = (y, s1)" by fastforce
    have run: "(case (y, s1) of (Inl err, s1) \<Rightarrow> (Inl err, s1)
        | (Inr (Created js), s1) \<Rightarrow> (Inr (map (\<lambda>(j, n). \<lparr>cs_id = j, cs_token = ns_token n, cs_label = ns_label n, cs_sms = map_option sms (ns_phone n)\<rparr>) (zip js ns)), s1)
        | (Inr _, s1) \<Rightarrow> (Inl (http_err 429 ''TRIP_SHARE_LIMIT''), s1)) = (x, s')"
      using assms en Inr unfolding createShares_def y [symmetric] ns_def by (simp add: Let_def)
    have "ts \<noteq> []" using Inr unfolding share_targets_def Let_def by (auto split: if_splits)
    then have ns: "ns \<noteq> []" by (simp add: ns_def enumerate_eq_zip)
    show thesis using y
    proof (cases rule: insertShares_cases)
      case 1
      have "s' = s \<and> (\<exists>err. x = Inl err)"
      proof (cases y)
        case (Inl err)
        then show ?thesis using run 1 by auto
      next
        case (Inr r)
        then show ?thesis using run 1 ns by (cases r) auto
      qed
      then show thesis using that(1) by blast
    next
      case 2
      then show thesis using en Inr ns y run by (intro that(2) [OF _ Inr ns_def]) simp_all
    qed
  qed
qed

text \<open>
  Links are created all or none. A refused request writes nothing. Otherwise the ride was the caller's own and under way when it was read, and there is exactly one new live link for each
  different contact named (each one of the caller's), or a single one without a name; the answer holds their tokens and labels in order.
\<close>

theorem shares_all_or_none:
  assumes run: "createShares vis enabled token sms now u i ids seen saved s = (x, s')"
  shows "(\<forall>err. x = Inl err \<longrightarrow> s' = s) \<and>
    (\<forall>cs. x = Inr cs \<longrightarrow> (\<exists>r. seen = Some r \<and> rr_user r = u \<and> rr_status r \<in> set SHAREABLE_STATUSES) \<and> set ids \<subseteq> set (map ec_id saved)
      \<and> length cs = (if ids = [] then 1 else card (set ids))
      \<and> (\<exists>rows. sn_links s' = sn_links s @ rows \<and> map lk_token rows = map cs_token cs \<and> map lk_label rows = map cs_label cs
           \<and> (\<forall>l \<in> set rows. lk_ride l = i \<and> lk_user l = u \<and> lk_revoked l = None \<and> \<not> lk_sos l \<and> lk_created l = now)))"
  using run
proof (cases rule: createShares_cases)
  case 1
  then show ?thesis by auto
next
  case (2 ts ns)
  let ?chosen = "map (\<lambda>i. find (\<lambda>c. ec_id c = i) (if ids = [] then [] else saved)) (remdups (rev ids))"
  have ride: "\<exists>r. seen = Some r \<and> rr_user r = u \<and> rr_status r \<in> set SHAREABLE_STATUSES"
    using 2(1) by (auto simp: requireOwnShareableRide_def split: option.splits)
  have some: "None \<notin> set ?chosen" and ts: "ts = (if ?chosen = [] then [(None, None)] else map (\<lambda>c. (Some (ec_name (the c)), Some (ec_phone (the c)))) (rev ?chosen))"
    using 2(2) unfolding share_targets_def Let_def by (auto split: if_splits)
  have "k \<in> set (map ec_id saved)" if k: "k \<in> set ids" for k
  proof -
    have "find (\<lambda>c. ec_id c = k) saved \<in> set ?chosen" using k by auto
    then have "find (\<lambda>c. ec_id c = k) saved \<noteq> None" using some by metis
    then obtain c where "find (\<lambda>c. ec_id c = k) saved = Some c" by blast
    then show ?thesis by (auto simp: find_Some_iff)
  qed
  then have ids: "set ids \<subseteq> set (map ec_id saved)" by blast
  have "length ts = (if ids = [] then 1 else card (set ids))" using card_set [of "rev ids"] by (auto simp: ts simp flip: set_empty)
  then have len: "length ns = (if ids = [] then 1 else card (set ids))" by (simp add: 2(3) enumerate_eq_zip)
  have rows: "sn_links s' = sn_links s @ map (new_row now i u False) (enumerate (sn_next s) ns)"
    using 2(4) insert_rows_links(1) by (cases rule: insertShares_cases) (use 2(5) in auto)
  let ?cs = "map (\<lambda>(j, n). \<lparr>cs_id = j, cs_token = ns_token n, cs_label = ns_label n, cs_sms = map_option sms (ns_phone n)\<rparr>) (zip [sn_next s..<sn_next s + length ns] ns)"
  have "map lk_token (map (new_row now i u False) (enumerate (sn_next s) ns)) = map cs_token ?cs" "map lk_label (map (new_row now i u False) (enumerate (sn_next s) ns)) = map cs_label ?cs"
    by (simp_all add: enumerate_eq_zip case_prod_beta comp_def)
  moreover have "length ?cs = (if ids = [] then 1 else card (set ids))" using len by simp
  moreover have "\<forall>l \<in> set (map (new_row now i u False) (enumerate (sn_next s) ns)). lk_ride l = i \<and> lk_user l = u \<and> lk_revoked l = None \<and> \<not> lk_sos l \<and> lk_created l = now" by auto
  ultimately show ?thesis using ride ids rows 2(6) by auto
qed

subsection \<open>Every interleaving\<close>

text \<open>What the rest of the program does to the rides: the moment a ride ended is never changed.\<close>

definition rides_go_on :: "sharing \<Rightarrow> sharing \<Rightarrow> bool" where
  "rides_go_on s s' \<longleftrightarrow> sn_links s' = sn_links s \<and> sn_next s' = sn_next s
     \<and> (\<forall>i r. ride_at (sn_rides s) i = Some r \<longrightarrow> (\<exists>r'. ride_at (sn_rides s') i = Some r' \<and> (\<forall>t. ride_ended r = Some t \<longrightarrow> ride_ended r' = Some t)))"

record share_run =
  sh_db :: sharing
  sh_now :: int
  sh_used :: "string list"

text \<open>
  Random tokens do not repeat. \<open>overlap\<close>: a rider may be creating links on two rides at the same moment, and then the hourly count may miss the other ride's; without it, it sees all.
\<close>

inductive share_step :: "bool \<Rightarrow> share_run \<Rightarrow> share_run \<Rightarrow> bool" for overlap :: bool where
  ticks: "sh_now w \<le> t \<Longrightarrow> share_step overlap w (w\<lparr>sh_now := t\<rparr>)"
| others: "rides_go_on (sh_db w) s' \<Longrightarrow> share_step overlap w (w\<lparr>sh_db := s'\<rparr>)"
| creates: "set (map token [0..<length ids + 1]) \<inter> set (sh_used w) = {} \<Longrightarrow> overlap \<or> vis = (\<lambda>_. True) \<Longrightarrow> createShares vis enabled token sms (sh_now w) u i ids seen saved (sh_db w) = (x, s')
    \<Longrightarrow> share_step overlap w (w\<lparr>sh_db := s', sh_used := map token [0..<length ids + 1] @ sh_used w\<rparr>)"
| presses_sos: "token \<notin> set (sh_used w) \<Longrightarrow> createSosShare enabled wording token (sh_now w) i u seen recent (sh_db w) = (x, s')
    \<Longrightarrow> share_step overlap w (w\<lparr>sh_db := s', sh_used := token # sh_used w\<rparr>)"
| stops: "share_step overlap w (w\<lparr>sh_db := snd (stopShare (sh_now w) u i k (sh_db w))\<rparr>)"
| stops_all: "share_step overlap w (w\<lparr>sh_db := snd (stopAllShares (sh_now w) u i (sh_db w))\<rparr>)"
| purges: "share_step overlap w (w\<lparr>sh_db := purgeOld (sh_now w) (sh_db w)\<rparr>)"
| opens: "share_step overlap w (w\<lparr>sh_db := snd (getPublicTrip t cached names stops eta viewed (sh_now w) (sh_db w))\<rparr>)"

text \<open>The links a step leaves: the old ones, some gone, stopped or counted, and possibly new ones under fresh tokens.\<close>

definition later_link :: "share \<Rightarrow> share \<Rightarrow> bool" where
  "later_link l l' \<longleftrightarrow> lk_id l' = lk_id l \<and> lk_ride l' = lk_ride l \<and> lk_user l' = lk_user l \<and> lk_token l' = lk_token l \<and> lk_sos l' = lk_sos l \<and> lk_created l' = lk_created l
     \<and> (lk_revoked l \<noteq> None \<longrightarrow> lk_revoked l' \<noteq> None)"

lemma later_link_refl [simp]: "later_link l l"
  by (simp add: later_link_def)

text \<open>A step that creates nothing maps the surviving links.\<close>

definition links_shrink :: "sharing \<Rightarrow> sharing \<Rightarrow> bool" where
  "links_shrink s s' \<longleftrightarrow> sn_rides s' = sn_rides s \<and> sn_next s' = sn_next s \<and> (\<exists>P f. sn_links s' = map f (filter P (sn_links s)) \<and> (\<forall>l. later_link l (f l)))"

lemma shrink_mark: "(\<And>l. later_link l (f l)) \<Longrightarrow> links_shrink s (mark_links P f s)"
  unfolding links_shrink_def mark_links_def by (intro conjI exI [of _ "\<lambda>l. True"] exI [of _ "\<lambda>l. if P l then f l else l"]) auto

lemma shrink_refl [simp]: "links_shrink s s"
  unfolding links_shrink_def by (intro conjI exI [of _ "\<lambda>l. True"] exI [of _ "\<lambda>l. l"]) auto

lemma shrink_steps:
  "links_shrink s (snd (stopShare now u i k s))" "links_shrink s (snd (stopAllShares now u i s))" "links_shrink s (purgeOld now s)"
  "links_shrink s (recordView now k s)"
proof -
  show "links_shrink s (snd (stopShare now u i k s))" "links_shrink s (snd (stopAllShares now u i s))"
    by (auto simp: stopShare_def stopAllShares_def intro!: shrink_mark) (simp_all add: later_link_def)
  show "links_shrink s (recordView now k s)" unfolding recordView_def by (rule shrink_mark) (simp add: later_link_def)
  show "links_shrink s (purgeOld now s)"
    unfolding links_shrink_def purgeOld_def by (intro conjI exI [of _ "\<lambda>l. \<not> purge_due now s l"] exI [of _ "\<lambda>l. l"]) auto
qed

lemma shrink_open: "links_shrink s (snd (getPublicTrip t cached names stops eta viewed now s))"
  unfolding getPublicTrip_def by (auto simp: shrink_steps split: option.split)

text \<open>A step that creates links adds rows at the end.\<close>

definition links_grow :: "bool \<Rightarrow> int \<Rightarrow> string list \<Rightarrow> sharing \<Rightarrow> sharing \<Rightarrow> bool" where
  "links_grow overlap now fresh s s' \<longleftrightarrow> s' = s \<or> (\<exists>vis i u sos caps ns. insertShares vis now i u sos caps ns s = (Inr (Created [sn_next s..<sn_next s + length ns]), s')
     \<and> s' = insert_rows now i u sos ns s \<and> (\<not> sos \<longrightarrow> caps = Some SHARE_CAPS \<and> (overlap \<or> vis = (\<lambda>_. True))) \<and> set (map ns_token ns) \<subseteq> set fresh)"

lemma grow_create:
  assumes "createShares vis enabled token sms now u i ids seen saved s = (x, s')" "overlap \<or> vis = (\<lambda>_. True)"
  shows "links_grow overlap now (map token [0..<length ids + 1]) s s'"
  using assms(1)
proof (cases rule: createShares_cases)
  case (2 ts ns)
  have "length ts \<le> length ids + 1" using 2(2) length_remdups_leq [of "rev ids"] by (auto simp: share_targets_def Let_def split: if_splits)
  moreover have "map ns_token ns = map token [0..<length ts]" by (simp add: 2(3) enumerate_eq_zip case_prod_beta comp_def flip: map_map [unfolded comp_def, of token fst])
  moreover have "token ` set [0..<length ts] \<subseteq> token ` set [0..<length ids + 1]" if "length ts \<le> length ids + 1" using that by (intro image_mono) auto
  ultimately have fresh: "set (map ns_token ns) \<subseteq> set (map token [0..<length ids + 1])" by simp
  have "s' = insert_rows now i u False ns s" using 2(4) by (cases rule: insertShares_cases) (use 2(5) in auto)
  then show ?thesis using 2(4) fresh assms(2) unfolding links_grow_def by blast
qed (simp add: links_grow_def)

lemma grow_sos:
  assumes "createSosShare enabled wording token now i u seen recent s = (x, s')"
  shows "links_grow overlap now [token] s s'"
proof -
  let ?ns = "[\<lparr>ns_token = token, ns_label = Some ''SOS'', ns_phone = None\<rparr>]"
  obtain y s1 where y: "insertShares (\<lambda>_. True) now i u True None ?ns s = (y, s1)" by fastforce
  have "s' = s \<or> s' = s1" using assms y by (auto simp: createSosShare_def split: option.splits if_splits sum.splits insert_result.splits)
  moreover have "links_grow overlap now [token] s s1" using y
  proof (cases rule: insertShares_cases)
    case 2
    then show ?thesis using y unfolding links_grow_def by (intro disjI2 exI [of _ "\<lambda>_. True"] exI [of _ i] exI [of _ u] exI [of _ True] exI [of _ None] exI [of _ ?ns]) auto
  qed (simp add: links_grow_def)
  ultimately show ?thesis by (auto simp: links_grow_def)
qed

lemma share_step_cases:
  assumes "share_step overlap w w'"
  obtains "sh_db w' = sh_db w" "sh_now w \<le> sh_now w'" "sh_used w' = sh_used w"
  | "rides_go_on (sh_db w) (sh_db w')" "sh_now w' = sh_now w" "sh_used w' = sh_used w"
  | "links_shrink (sh_db w) (sh_db w')" "sh_now w' = sh_now w" "sh_used w' = sh_used w"
  | fresh where "links_grow overlap (sh_now w) fresh (sh_db w) (sh_db w')" "sh_now w' = sh_now w" "set fresh \<inter> set (sh_used w) = {}" "sh_used w' = fresh @ sh_used w"
  using assms
proof cases
  case (ticks t) then show thesis using that(1) by simp
next
  case (others s') then show thesis using that(2) by simp
next
  case (creates token ids vis enabled sms u i seen saved x s')
  then show thesis using that(4) [of "map token [0..<length ids + 1]"] grow_create [OF creates(4,3)] by simp
next
  case (presses_sos token enabled wording i u seen recent x s')
  then show thesis using that(4) [of "[token]"] grow_sos [OF presses_sos(3)] by simp
qed (rule that(3); simp add: shrink_steps shrink_open)+

lemma grow_cases:
  assumes "links_grow overlap now fresh s s'"
  obtains "s' = s"
  | vis i u sos ns where "sn_links s' = sn_links s @ map (new_row now i u sos) (enumerate (sn_next s) ns)" "sn_next s' = sn_next s + length ns" "sn_rides s' = sn_rides s"
      "distinct (map ns_token ns)" "set (map ns_token ns) \<inter> set (map lk_token (sn_links s)) = {}" "set (map ns_token ns) \<subseteq> set fresh"
      "\<not> sos \<Longrightarrow> length (active_links i s) + length ns \<le> 10 \<and> length (seen_links vis i now u s) + length ns \<le> 20 \<and> (overlap \<or> vis = (\<lambda>_. True))"
proof -
  {
    fix vis i u sos caps ns
    assume run: "insertShares vis now i u sos caps ns s = (Inr (Created [sn_next s..<sn_next s + length ns]), s')" and s': "s' = insert_rows now i u sos ns s"
      and caps: "\<not> sos \<longrightarrow> caps = Some SHARE_CAPS \<and> (overlap \<or> vis = (\<lambda>_. True))" and fresh: "set (map ns_token ns) \<subseteq> set fresh"
    have thesis using run
    proof (cases rule: insertShares_cases)
      case 1
      then show thesis using that(1) by blast
    next
      case 2
      have "length (active_links i s) + length ns \<le> 10 \<and> length (seen_links vis i now u s) + length ns \<le> 20 \<and> (overlap \<or> vis = (\<lambda>_. True))" if "\<not> sos"
        using 2(5) caps that by (simp add: SHARE_CAPS_def)
      then show thesis using 2 fresh by (intro that(2) [of i u sos ns vis]) (simp_all add: s' insert_rows_links)
    qed
  }
  then show thesis using assms that(1) unfolding links_grow_def by blast
qed

definition ride_recent :: "int \<Rightarrow> nat \<Rightarrow> nat \<Rightarrow> sharing \<Rightarrow> share list" where
  "ride_recent now u i s = filter (\<lambda>l. lk_ride l = i \<and> lk_user l = u \<and> \<not> lk_sos l \<and> now - 3600000 < lk_created l) (sn_links s)"

definition links_fit :: "bool \<Rightarrow> share_run \<Rightarrow> bool" where
  "links_fit overlap w \<longleftrightarrow> (\<forall>i. length (active_links i (sh_db w)) \<le> 10) \<and> (\<forall>u i. length (ride_recent (sh_now w) u i (sh_db w)) \<le> 20)
     \<and> (\<forall>u. \<not> overlap \<longrightarrow> length (recent_links (sh_now w) u (sh_db w)) \<le> 20)
     \<and> distinct (map lk_token (sn_links (sh_db w))) \<and> distinct (map lk_id (sn_links (sh_db w))) \<and> (\<forall>l \<in> set (sn_links (sh_db w)). lk_id l < sn_next (sh_db w))"

lemma filter_longer: "(\<And>l. R l \<Longrightarrow> Q l) \<Longrightarrow> length (filter R xs) \<le> length (filter Q xs)"
  by (induction xs) auto

lemma filter_shrink:
  assumes "\<And>l. R (f l) \<Longrightarrow> Q l"
  shows "length (filter R (map f (filter P xs))) \<le> length (filter Q xs)"
  by (induction xs) (auto dest: assms)

lemma distinct_map_shrink:
  assumes "distinct (map g xs)" "\<And>l. g (f l) = g l"
  shows "distinct (map g (map f (filter P xs)))"
  using assms by (simp add: comp_def distinct_map_filter)

lemma links_fit_shrink:
  assumes inv: "links_fit overlap w" and s: "links_shrink (sh_db w) (sh_db w')" "sh_now w' = sh_now w"
  shows "links_fit overlap w'"
proof -
  obtain P f where links: "sn_links (sh_db w') = map f (filter P (sn_links (sh_db w)))" and later: "\<And>l. later_link l (f l)" and nxt: "sn_next (sh_db w') = sn_next (sh_db w)"
    using s(1) unfolding links_shrink_def by blast
  have f: "lk_ride (f l) = lk_ride l" "lk_user (f l) = lk_user l" "lk_sos (f l) = lk_sos l" "lk_created (f l) = lk_created l" "lk_token (f l) = lk_token l" "lk_id (f l) = lk_id l"
    "lk_revoked (f l) = None \<Longrightarrow> lk_revoked l = None" for l using later [of l] by (auto simp: later_link_def)
  have "length (active_links i (sh_db w')) \<le> length (active_links i (sh_db w))" for i
    unfolding active_links_def links by (rule filter_shrink) (auto simp: f dest: f(7))
  moreover have "length (recent_links (sh_now w') u (sh_db w')) \<le> length (recent_links (sh_now w) u (sh_db w))" for u
    unfolding recent_links_def links s(2) by (rule filter_shrink) (auto simp: f)
  moreover have "length (ride_recent (sh_now w') u i (sh_db w')) \<le> length (ride_recent (sh_now w) u i (sh_db w))" for u i
    unfolding ride_recent_def links s(2) by (rule filter_shrink) (auto simp: f)
  moreover have "distinct (map lk_token (sn_links (sh_db w')))" "distinct (map lk_id (sn_links (sh_db w')))"
    unfolding links by (rule distinct_map_shrink; use inv in \<open>simp add: links_fit_def f\<close>)+
  moreover have "\<forall>l \<in> set (sn_links (sh_db w')). lk_id l < sn_next (sh_db w')" using inv by (auto simp: links links_fit_def f nxt)
  ultimately show ?thesis using inv unfolding links_fit_def by (meson le_trans)
qed

lemma links_fit_grow:
  assumes inv: "links_fit overlap w" and g: "links_grow overlap (sh_now w) fresh (sh_db w) (sh_db w')" "sh_now w' = sh_now w"
  shows "links_fit overlap w'"
  using g(1)
proof (cases rule: grow_cases)
  case 1
  then show ?thesis using inv g(2) by (simp add: links_fit_def)
next
  case (2 vis i u sos ns)
  let ?rows = "map (new_row (sh_now w) i u sos) (enumerate (sn_next (sh_db w)) ns)"
  have len: "length (filter (\<lambda>l. lk_ride l = j \<and> lk_revoked l = None \<and> \<not> lk_sos l) ?rows) = (if j = i \<and> \<not> sos then length ns else 0)"
    "length (filter (\<lambda>l. lk_user l = v \<and> \<not> lk_sos l \<and> sh_now w - 3600000 < lk_created l) ?rows) = (if v = u \<and> \<not> sos then length ns else 0)"
    "length (filter (\<lambda>l. lk_ride l = j \<and> lk_user l = v \<and> \<not> lk_sos l \<and> sh_now w - 3600000 < lk_created l) ?rows) = (if j = i \<and> v = u \<and> \<not> sos then length ns else 0)" for j v
    by (simp_all add: filter_map comp_def)
  have act: "length (active_links j (sh_db w')) \<le> 10" for j
    using inv 2(7) unfolding active_links_def 2(1) filter_append length_append len by (auto simp: links_fit_def active_links_def)
  have rec: "length (recent_links (sh_now w') v (sh_db w')) \<le> 20" if "\<not> overlap" for v
    using inv 2(7) that unfolding recent_links_def 2(1) g(2) filter_append length_append len by (auto simp: links_fit_def recent_links_def seen_links_def)
  have "length (ride_recent (sh_now w) u i (sh_db w)) \<le> length (seen_links vis i (sh_now w) u (sh_db w))"
    unfolding ride_recent_def seen_links_def recent_links_def filter_filter by (rule filter_longer) auto
  then have rr: "length (ride_recent (sh_now w') v j (sh_db w')) \<le> 20" for v j
    using inv 2(7) unfolding ride_recent_def 2(1) g(2) filter_append length_append len by (auto simp: links_fit_def ride_recent_def)
  have tok: "map lk_token ?rows = map ns_token ns" "map lk_id ?rows = [sn_next (sh_db w)..<sn_next (sh_db w) + length ns]"
    by (simp_all add: enumerate_tokens comp_def)
  have "distinct (map lk_token (sn_links (sh_db w')))" "distinct (map lk_id (sn_links (sh_db w')))"
    using inv 2(4,5) unfolding 2(1) map_append tok distinct_append by (auto simp: links_fit_def)
  moreover have "\<forall>l \<in> set (sn_links (sh_db w')). lk_id l < sn_next (sh_db w')"
  proof
    fix l assume "l \<in> set (sn_links (sh_db w'))"
    then have "l \<in> set (sn_links (sh_db w)) \<or> lk_id l \<in> set (map lk_id ?rows)" unfolding 2(1) set_append by (metis UnE imageI set_map)
    then show "lk_id l < sn_next (sh_db w')" using inv unfolding tok 2(2) by (auto simp: links_fit_def)
  qed
  ultimately show ?thesis using act rec rr by (simp add: links_fit_def)
qed

lemma links_fit_step:
  assumes "share_step overlap w w'" and inv: "links_fit overlap w"
  shows "links_fit overlap w'"
  using assms(1)
proof (cases rule: share_step_cases)
  case 1
  have "length (recent_links (sh_now w') u (sh_db w)) \<le> length (recent_links (sh_now w) u (sh_db w))"
    "length (ride_recent (sh_now w') u i (sh_db w)) \<le> length (ride_recent (sh_now w) u i (sh_db w))" for u i
    unfolding recent_links_def ride_recent_def by (rule filter_longer; use 1(2) in linarith)+
  then have "\<not> overlap \<Longrightarrow> length (recent_links (sh_now w') u (sh_db w)) \<le> 20" "length (ride_recent (sh_now w') u i (sh_db w)) \<le> 20" for u i
    using inv unfolding links_fit_def by (meson le_trans)+
  then show ?thesis using inv unfolding links_fit_def 1(1) by blast
next
  case 2
  then show ?thesis using inv by (simp add: links_fit_def rides_go_on_def active_links_def recent_links_def ride_recent_def)
next
  case 3
  then show ?thesis using links_fit_shrink [OF inv] by blast
next
  case (4 fresh)
  then show ?thesis using links_fit_grow [OF inv] by blast
qed

text \<open>
  C24. Links stay within their limits. However creations, emergency links, stops, purges and views interleave while time passes, a ride never has more than ten live links (emergency links
  apart), no rider has made more than twenty for one ride within an hour, and every token and every number belongs to one link. When a rider never creates links on two rides at the same
  moment, no rider has made more than twenty within an hour in all. (The code holds the lock of one ride while it counts, so two creations on different rides can pass the hourly
  limit together: \<open>hourly_limit_raced\<close> below.)
\<close>

theorem links_within_limits:
  assumes "(share_step overlap)\<^sup>*\<^sup>* w0 w" and "sn_links (sh_db w0) = []"
  shows "length (active_links i (sh_db w)) \<le> 10
    \<and> length (filter (\<lambda>l. lk_ride l = i) (recent_links (sh_now w) u (sh_db w))) \<le> 20
    \<and> (\<not> overlap \<longrightarrow> length (recent_links (sh_now w) u (sh_db w)) \<le> 20)
    \<and> distinct (map lk_token (sn_links (sh_db w))) \<and> distinct (map lk_id (sn_links (sh_db w)))"
proof -
  have "links_fit overlap w0" using assms(2) by (simp add: links_fit_def active_links_def recent_links_def ride_recent_def)
  with assms(1) have fit: "links_fit overlap w" by (induction rule: rtranclp_induct) (simp_all add: links_fit_step)
  have "filter (\<lambda>l. lk_ride l = i) (recent_links (sh_now w) u (sh_db w)) = ride_recent (sh_now w) u i (sh_db w)"
    unfolding ride_recent_def recent_links_def filter_filter by (rule filter_cong) auto
  then show ?thesis using fit by (simp add: links_fit_def)
qed

text \<open>The hourly limit can be passed: a rider with twenty links on one ride gets another on a second ride when the count does not see the first ride's.\<close>

theorem hourly_limit_raced:
  assumes "length (recent_links now u s) = 20" "\<forall>l \<in> set (recent_links now u s). lk_ride l \<noteq> i" "active_links i s = []"
    and "token 0 \<notin> set (map lk_token (sn_links s))" "requireOwnShareableRide u seen = Inr ()"
  shows "\<exists>cs s'. createShares (\<lambda>_. False) True token sms now u i [] seen saved s = (Inr cs, s') \<and> length (recent_links now u s') = 21"
proof -
  have none: "seen_links (\<lambda>_. False) i now u s = []" using assms(2) by (simp add: seen_links_def)
  have new: "recent_links now u (s\<lparr>sn_next := Suc (sn_next s), sn_links := sn_links s @ [l]\<rparr>) = recent_links now u s @ (if lk_user l = u \<and> \<not> lk_sos l \<and> now - 3600000 < lk_created l then [l] else [])" for l
    by (simp add: recent_links_def)
  show ?thesis using assms(1,3,4,5) none
    by (simp add: createShares_def share_targets_def Let_def insertShares_def SHARE_CAPS_def image_iff new)
qed

subsection \<open>Dead links\<close>

text \<open>Stopped, too old, or too long after the end of the ride.\<close>

definition dead_link :: "int \<Rightarrow> sharing \<Rightarrow> share \<Rightarrow> bool" where
  "dead_link now s l \<longleftrightarrow> lk_revoked l \<noteq> None \<or> MAX_LINK_AGE_MS < now - lk_created l
     \<or> (\<exists>r t. ride_at (sn_rides s) (lk_ride l) = Some r \<and> ride_ended r = Some t \<and> POST_TRIP_GRACE_MS < now - t)"

definition token_dead :: "string \<Rightarrow> share_run \<Rightarrow> bool" where
  "token_dead t w \<longleftrightarrow> t \<in> set (sh_used w) \<and> (\<forall>l \<in> set (sn_links (sh_db w)). lk_token l = t \<longrightarrow> dead_link (sh_now w) (sh_db w) l)"

lemma dead_later:
  assumes "dead_link now s l" "now \<le> now'" "later_link l l'"
    and rides: "\<forall>i r. ride_at (sn_rides s) i = Some r \<longrightarrow> (\<exists>r'. ride_at (sn_rides s') i = Some r' \<and> (\<forall>t. ride_ended r = Some t \<longrightarrow> ride_ended r' = Some t))"
  shows "dead_link now' s' l'"
proof -
  have l: "lk_created l' = lk_created l" "lk_ride l' = lk_ride l" "lk_revoked l \<noteq> None \<Longrightarrow> lk_revoked l' \<noteq> None" using assms(3) by (auto simp: later_link_def)
  consider "lk_revoked l \<noteq> None" | "MAX_LINK_AGE_MS < now - lk_created l" | r t where "ride_at (sn_rides s) (lk_ride l) = Some r" "ride_ended r = Some t" "POST_TRIP_GRACE_MS < now - t"
    using assms(1) unfolding dead_link_def by blast
  then show ?thesis
  proof cases
    case 1
    then show ?thesis using l(3) by (simp add: dead_link_def del: not_None_eq)
  next
    case 2
    then show ?thesis using assms(2) l(1) by (simp add: dead_link_def)
  next
    case (3 r t)
    then obtain r' where r': "ride_at (sn_rides s') (lk_ride l') = Some r'" "ride_ended r' = Some t" using rides l(2) by metis
    have "POST_TRIP_GRACE_MS < now' - t" using 3(3) assms(2) by simp
    then show ?thesis using r' unfolding dead_link_def by blast
  qed
qed

lemma rides_stay: "\<forall>i r. ride_at d i = Some r \<longrightarrow> (\<exists>r'. ride_at d i = Some r' \<and> (\<forall>t. ride_ended r = Some t \<longrightarrow> ride_ended r' = Some t))"
  by blast

lemma token_dead_step:
  assumes "share_step overlap w w'" and inv: "token_dead t w"
  shows "token_dead t w'"
proof -
  have old: "dead_link (sh_now w) (sh_db w) l" if "l \<in> set (sn_links (sh_db w))" "lk_token l = t" for l using inv that by (simp add: token_dead_def)
  have used: "t \<in> set (sh_used w)" using inv by (simp add: token_dead_def)
  show ?thesis using assms(1)
  proof (cases rule: share_step_cases)
    case 1
    have "dead_link (sh_now w') (sh_db w') l" if "l \<in> set (sn_links (sh_db w'))" "lk_token l = t" for l
      using dead_later [OF old 1(2) later_link_refl rides_stay] that 1(1) by simp
    then show ?thesis using used 1(3) by (simp add: token_dead_def)
  next
    case 2
    have rides: "\<forall>i r. ride_at (sn_rides (sh_db w)) i = Some r \<longrightarrow> (\<exists>r'. ride_at (sn_rides (sh_db w')) i = Some r' \<and> (\<forall>t. ride_ended r = Some t \<longrightarrow> ride_ended r' = Some t))"
      and links: "sn_links (sh_db w') = sn_links (sh_db w)" using 2(1) unfolding rides_go_on_def by blast+
    have "dead_link (sh_now w') (sh_db w') l" if "l \<in> set (sn_links (sh_db w'))" "lk_token l = t" for l
      using dead_later [OF old order_refl later_link_refl rides] that links 2(2) by simp
    then show ?thesis using used 2(3) by (simp add: token_dead_def)
  next
    case 3
    obtain P f where links: "sn_links (sh_db w') = map f (filter P (sn_links (sh_db w)))" and later: "\<And>l. later_link l (f l)" and rides: "sn_rides (sh_db w') = sn_rides (sh_db w)"
      using 3(1) unfolding links_shrink_def by blast
    have "dead_link (sh_now w') (sh_db w') l'" if a: "l' \<in> set (sn_links (sh_db w'))" "lk_token l' = t" for l'
    proof -
      obtain l where l: "l \<in> set (sn_links (sh_db w))" "l' = f l" using a(1) unfolding links by auto
      then have "lk_token l = t" using later [of l] a(2) by (simp add: later_link_def)
      then show ?thesis using dead_later [OF old [OF l(1)] order_refl later [of l]] rides l(2) 3(2) by simp
    qed
    then show ?thesis using used 3(3) by (simp add: token_dead_def)
  next
    case (4 fresh)
    have u: "t \<notin> set fresh" "t \<in> set (sh_used w')" using used 4 by auto
    show ?thesis using 4(1)
    proof (cases rule: grow_cases)
      case 1
      then show ?thesis using inv u 4(2) by (simp add: token_dead_def)
    next
      case (2 vis i u' sos ns)
      have "dead_link (sh_now w') (sh_db w') l" if a: "l \<in> set (sn_links (sh_db w'))" "lk_token l = t" for l
      proof -
        have "l \<in> set (sn_links (sh_db w))"
        proof (rule ccontr)
          assume "l \<notin> set (sn_links (sh_db w))"
          then have "lk_token l \<in> set (map lk_token (map (new_row (sh_now w) i u' sos) (enumerate (sn_next (sh_db w)) ns)))"
            using a(1) unfolding 2(1) set_append by (metis UnE imageI set_map)
          then have "t \<in> set (map ns_token ns)" using a(2) by (simp add: comp_def enumerate_tokens del: set_map)
          then show False using 2(6) u(1) by blast
        qed
        then show ?thesis using dead_later [OF old order_refl later_link_refl] a(2) 2(3) 4(2) by simp
      qed
      then show ?thesis using u by (simp add: token_dead_def)
    qed
  qed
qed

lemma token_dead_page:
  assumes "token_dead t w"
  shows "fst (getPublicTrip t cached names stops eta viewed (sh_now w) (sh_db w)) \<in> {TripMissing, TripExpired}"
proof (cases "findByTokenHash t (sh_db w)")
  case None
  then show ?thesis by (simp add: getPublicTrip_def)
next
  case (Some lr)
  obtain l r where lr: "lr = (l, r)" by (cases lr)
  have l: "l \<in> set (sn_links (sh_db w))" "lk_token l = t" "ride_at (sn_rides (sh_db w)) (lk_ride l) = Some r"
    using Some unfolding findByTokenHash_def lr by (auto split: option.splits simp: find_Some_iff)
  have "lk_revoked l \<noteq> None \<or> isShareExpired l r (sh_now w)"
    using assms l unfolding token_dead_def dead_link_def isShareExpired_def by fastforce
  then show ?thesis by (auto simp: getPublicTrip_def Some lr)
qed

text \<open>
  C25. A dead link stays dead. Once a link has been stopped, is older than seven days or its ride ended more than half an hour ago, its token never shows a trip again, whatever is created,
  stopped, purged or viewed afterwards, whatever is cached, and however the rides go on.
\<close>

theorem dead_links_stay_dead:
  assumes "(share_step overlap)\<^sup>*\<^sup>* w w'" and "lk_token l \<in> set (sh_used w)" "l \<in> set (sn_links (sh_db w))" "distinct (map lk_token (sn_links (sh_db w)))"
    and "dead_link (sh_now w) (sh_db w) l"
  shows "fst (getPublicTrip (lk_token l) cached names stops eta viewed (sh_now w') (sh_db w')) \<in> {TripMissing, TripExpired}"
proof -
  have "l' = l" if "l' \<in> set (sn_links (sh_db w))" "lk_token l' = lk_token l" for l'
    using inj_onD [OF distinct_map [THEN iffD1, OF assms(4), THEN conjunct2] that(2) that(1) assms(3)] .
  then have "token_dead (lk_token l) w" using assms(2,5) by (auto simp: token_dead_def)
  with assms(1) have "token_dead (lk_token l) w'" by (induction rule: rtranclp_induct) (simp_all add: token_dead_step)
  then show ?thesis by (rule token_dead_page)
qed

text \<open>Where the driver is is shown only while the ride is under way.\<close>

lemma page_without_driver_after_the_end:
  "\<not> live_phase (phaseForStatus (rr_status r)) \<Longrightarrow> pt_driver (toPublicTrip r names stops eta now) = None \<and> pt_eta (toPublicTrip r names stops eta now) = None
     \<and> pt_route (toPublicTrip r names stops eta now) = None"
  by (simp add: toPublicTrip_def Let_def split: option.split)

subsection \<open>Contacts\<close>

definition contacts_fit :: "nat \<Rightarrow> sharing \<Rightarrow> bool" where
  "contacts_fit most s \<longleftrightarrow> (\<forall>u. length (contacts_list u s) \<le> most \<and> distinct (map ec_phone (contacts_list u s)))"

lemma contacts_kept: "contacts_fit most s \<Longrightarrow> contacts_fit most (snd (insertWithinLimit u name phone most s))" "contacts_fit most s \<Longrightarrow> contacts_fit most (snd (contacts_remove u i s))"
proof -
  assume inv: "contacts_fit most s"
  show "contacts_fit most (snd (insertWithinLimit u name phone most s))"
  proof (cases "most \<le> length (contacts_list u s) \<or> phone \<in> set (map ec_phone (contacts_list u s)) \<or> sn_phones s u = Some phone")
    case True
    then have "snd (insertWithinLimit u name phone most s) = s" by (auto simp: insertWithinLimit_def Let_def)
    then show ?thesis using inv by simp
  next
    case False
    let ?c = "\<lparr>ec_id = sn_next_contact s, ec_user = u, ec_name = name, ec_phone = phone\<rparr>"
    have "contacts_list v (snd (insertWithinLimit u name phone most s)) = contacts_list v s @ (if v = u then [?c] else [])" for v
      using False by (simp add: insertWithinLimit_def Let_def contacts_list_def)
    then show ?thesis using inv False by (auto simp: contacts_fit_def)
  qed
next
  assume inv: "contacts_fit most s"
  have "contacts_list v (snd (contacts_remove u i s)) = filter (\<lambda>c. \<not> (ec_id c = i \<and> ec_user c = u)) (contacts_list v s)" for v
    by (auto simp: contacts_remove_def contacts_list_def intro: filter_cong)
  moreover have "length (filter P xs) \<le> most" if "length xs \<le> most" for P and xs :: "contact list" using that length_filter_le [of P xs] by linarith
  ultimately show "contacts_fit most (snd (contacts_remove u i s))" using inv by (simp add: contacts_fit_def distinct_map_filter)
qed

subsection \<open>Runs at concrete inputs\<close>

definition demo_sharing :: sharing where
  "demo_sharing = \<lparr>sn_rides = demo_rides\<lparr>rides := [demo_ride\<lparr>rr_status := Accepted\<rparr>]\<rparr>, sn_phones = (\<lambda>_. None), sn_contacts = [], sn_next_contact = 0, sn_links = [], sn_next = 0\<rparr>"

lemma demo_create:
  "createShares (\<lambda>_. True) True (\<lambda>_. ''t'') (\<lambda>_. True) 5 8 0 [] (Some (demo_ride\<lparr>rr_status := Accepted\<rparr>)) [] demo_sharing =
     (Inr [\<lparr>cs_id = 0, cs_token = ''t'', cs_label = None, cs_sms = None\<rparr>], demo_sharing\<lparr>sn_links := [new_row 5 0 8 False (0, \<lparr>ns_token = ''t'', ns_label = None, ns_phone = None\<rparr>)], sn_next := 1\<rparr>)"
  by (simp add: createShares_def requireOwnShareableRide_def SHAREABLE_STATUSES_def demo_ride_def share_targets_def Let_def insertShares_def SHARE_CAPS_def active_links_def recent_links_def seen_links_def
      demo_sharing_def new_row_def)

lemma demo_create_step:
  "share_step False \<lparr>sh_db = demo_sharing, sh_now = 5, sh_used = []\<rparr>
     \<lparr>sh_db = demo_sharing\<lparr>sn_links := [new_row 5 0 8 False (0, \<lparr>ns_token = ''t'', ns_label = None, ns_phone = None\<rparr>)], sn_next := 1\<rparr>, sh_now = 5, sh_used = [''t'']\<rparr>"
  using share_step.creates [of "\<lambda>_. ''t''" "[]" "\<lparr>sh_db = demo_sharing, sh_now = 5, sh_used = []\<rparr>"] demo_create by simp

theorem links_within_limits_witness:
  "\<exists>w. (share_step False)\<^sup>*\<^sup>* \<lparr>sh_db = demo_sharing, sh_now = 5, sh_used = []\<rparr> w \<and> length (sn_links (sh_db w)) = 1 \<and> length (active_links 0 (sh_db w)) \<le> 10"
proof -
  have "sn_links (sh_db \<lparr>sh_db = demo_sharing, sh_now = 5, sh_used = []\<rparr>) = []" by (simp add: demo_sharing_def)
  note links_within_limits [OF r_into_rtranclp [of "share_step False", OF demo_create_step] this]
  then show ?thesis using r_into_rtranclp [of "share_step False", OF demo_create_step] by (intro exI) auto
qed

theorem shares_all_or_none_witness:
  "\<exists>s'. fst (createShares (\<lambda>_. True) True (\<lambda>_. ''t'') (\<lambda>_. True) 5 8 0 [] (Some (demo_ride\<lparr>rr_status := Accepted\<rparr>)) [] demo_sharing) = Inr s' \<and> length s' = 1"
  using shares_all_or_none [OF demo_create] by (simp add: demo_create)

text \<open>The link is stopped.\<close>

theorem dead_links_stay_dead_witness:
  "fst (getPublicTrip ''t'' None \<lparr>tn_rider = None, tn_driver = None, tn_color = None, tn_brand = None, tn_model = None, tn_plate = None, tn_origin = None, tn_dest = None, tn_fix = None\<rparr> [] None False 9
     (demo_sharing\<lparr>sn_links := [(new_row 5 0 8 False (0, \<lparr>ns_token = ''t'', ns_label = None, ns_phone = None\<rparr>))\<lparr>lk_revoked := Some 6\<rparr>], sn_next := 1\<rparr>)) \<in> {TripMissing, TripExpired}"
proof -
  let ?l = "(new_row 5 0 8 False (0, \<lparr>ns_token = ''t'', ns_label = None, ns_phone = None\<rparr>))\<lparr>lk_revoked := Some 6\<rparr>"
  let ?w = "\<lparr>sh_db = demo_sharing\<lparr>sn_links := [?l], sn_next := 1\<rparr>, sh_now = 6, sh_used = [''t'']\<rparr>"
  have "share_step False ?w (?w\<lparr>sh_now := 9\<rparr>)" by (rule share_step.ticks) simp
  from dead_links_stay_dead [OF r_into_rtranclp [of "share_step False", OF this], of ?l] show ?thesis by (simp add: dead_link_def new_row_def)
qed

end
