(* ===== verification/Invites.thy ===== *)
theory Invites
  imports Claims RideCore
begin

text \<open>
  Invitations of administrators (\<open>modules/admin-invites\<close>, migration 038): creating, revoking, checking and redeeming a token. Tokens stand for their hashes, the hash of a password is an
  argument. Times are milliseconds.
\<close>

subsection \<open>Tables\<close>

datatype invite_status = InvitePending | InviteAccepted | InviteExpired | InviteRevoked

record invite =
  iv_email :: string
  iv_role :: string
  iv_token :: string
  iv_by :: nat
  iv_status :: invite_status
  iv_expires :: int
  iv_accepted :: "int option"
  iv_admin :: "nat option"

record invited_admin =
  na_email :: string
  na_password :: string
  na_role :: string

record invites =
  in_rows :: "invite list"
  in_admins :: "invited_admin list"
  in_mails :: "(string \<times> string) list"

text \<open>\<open>CITEXT\<close>: letters compare without their case.\<close>

definition to_lower :: "char \<Rightarrow> char" where
  "to_lower c = (if 65 \<le> (of_char c :: nat) \<and> (of_char c :: nat) \<le> 90 then char_of ((of_char c :: nat) + 32) else c)"

definition same_email :: "string \<Rightarrow> string \<Rightarrow> bool" where
  "same_email a b \<longleftrightarrow> map to_lower a = map to_lower b"

definition INVITE_TTL_MS :: int where "INVITE_TTL_MS = 48 * 60 * 60 * 1000"

subsection \<open>Operations\<close>

definition findPendingInviteByEmail :: "string \<Rightarrow> invites \<Rightarrow> invite option" where
  "findPendingInviteByEmail e s = find (\<lambda>r. same_email (iv_email r) e \<and> iv_status r = InvitePending) (in_rows s)"

definition invite_index :: "string \<Rightarrow> invites \<Rightarrow> nat option" where
  "invite_index t s = find (\<lambda>k. iv_token (in_rows s ! k) = t) [0..<length (in_rows s)]"

text \<open>The unique index on \<open>token_hash\<close>.\<close>

definition insertInvite :: "int \<Rightarrow> string \<Rightarrow> string \<Rightarrow> nat \<Rightarrow> string \<Rightarrow> invites \<Rightarrow> nat res \<times> invites" where
  "insertInvite now e role by t s =
     (if invite_index t s \<noteq> None then (Inl db_error, s)
      else (Inr (length (in_rows s)), s\<lparr>in_rows := in_rows s @ [\<lparr>iv_email = e, iv_role = role, iv_token = t, iv_by = by, iv_status = InvitePending, iv_expires = now + INVITE_TTL_MS,
         iv_accepted = None, iv_admin = None\<rparr>]\<rparr>))"

text \<open>\<open>dup\<close>: the answer of \<open>findPendingInviteByEmail\<close> before; \<open>queued\<close>: the queue takes the mail that carries the token.\<close>

definition createInvite :: "int \<Rightarrow> string \<Rightarrow> string \<Rightarrow> nat \<Rightarrow> string \<Rightarrow> bool \<Rightarrow> bool \<Rightarrow> invites \<Rightarrow> nat res \<times> invites" where
  "createInvite now e role by t dup queued s =
     (if dup then (Inl (http_err 409 ''ADMIN_INVITE_DUPLICATE''), s)
      else case insertInvite now e role by t s of (Inl err, s1) \<Rightarrow> (Inl err, s1)
        | (Inr k, s1) \<Rightarrow> if queued then (Inr k, s1\<lparr>in_mails := in_mails s1 @ [(e, t)]\<rparr>) else (Inl (http_err 500 ''''), s1))"

definition revokeInvite :: "nat \<Rightarrow> invites \<Rightarrow> unit res \<times> invites" where
  "revokeInvite k s =
     (if k < length (in_rows s) \<and> iv_status (in_rows s ! k) = InvitePending
      then (Inr (), s\<lparr>in_rows := (in_rows s)[k := (in_rows s ! k)\<lparr>iv_status := InviteRevoked\<rparr>]\<rparr>)
      else (Inl (http_err 404 ''NOT_FOUND''), s))"

definition invalid_invite :: app_error where "invalid_invite = http_err 400 ''ADMIN_INVITE_INVALID''"

definition verifyInviteToken :: "int \<Rightarrow> string \<Rightarrow> invites \<Rightarrow> (string \<times> string) res" where
  "verifyInviteToken now t s = (case invite_index t s of None \<Rightarrow> Inl invalid_invite
     | Some k \<Rightarrow> let r = in_rows s ! k in
         if iv_status r \<noteq> InvitePending \<or> iv_expires r \<le> now then Inl invalid_invite else Inr (iv_email r, iv_role r))"

text \<open>One transaction on the locked row; \<open>admins.email\<close> is unique, and its violation takes everything back.\<close>

definition redeemInvite :: "int \<Rightarrow> string \<Rightarrow> string \<Rightarrow> invites \<Rightarrow> nat res \<times> invites" where
  "redeemInvite now t password s =
     (case invite_index t s of None \<Rightarrow> (Inl invalid_invite, s)
      | Some k \<Rightarrow> let r = in_rows s ! k in
          if iv_status r \<noteq> InvitePending then (Inl invalid_invite, s)
          else if iv_expires r \<le> now then (Inl invalid_invite, s\<lparr>in_rows := (in_rows s)[k := r\<lparr>iv_status := InviteExpired\<rparr>]\<rparr>)
          else if list_ex (\<lambda>a. same_email (na_email a) (iv_email r)) (in_admins s) then (Inl db_error, s)
          else (Inr (length (in_admins s)), s\<lparr>in_admins := in_admins s @ [\<lparr>na_email = iv_email r, na_password = password, na_role = iv_role r\<rparr>],
              in_rows := (in_rows s)[k := r\<lparr>iv_status := InviteAccepted, iv_accepted := Some now, iv_admin := Some (length (in_admins s))\<rparr>]\<rparr>))"

subsection \<open>A token is redeemed at most once\<close>

definition open_invite :: "invites \<Rightarrow> string \<Rightarrow> bool" where
  "open_invite s t \<longleftrightarrow> (\<exists>k. invite_index t s = Some k \<and> iv_status (in_rows s ! k) = InvitePending)"

definition redeem_claim :: "int \<times> string \<Rightarrow> string \<Rightarrow> invites \<Rightarrow> bool \<times> invites" where
  "redeem_claim c t s = (case redeemInvite (fst c) t (snd c) s of (Inl _, s1) \<Rightarrow> (False, s1) | (Inr _, s1) \<Rightarrow> (True, s1))"

lemma redeem_cases:
  assumes "redeemInvite now t password s = (x, s')"
  obtains "x \<noteq> Inr (length (in_admins s))" "\<exists>err. x = Inl err" "s' = s"
  | k where "\<exists>err. x = Inl err" "invite_index t s = Some k" "iv_status (in_rows s ! k) = InvitePending" "iv_expires (in_rows s ! k) \<le> now"
      "s' = s\<lparr>in_rows := (in_rows s)[k := (in_rows s ! k)\<lparr>iv_status := InviteExpired\<rparr>]\<rparr>"
  | k r where "x = Inr (length (in_admins s))" "invite_index t s = Some k" "r = in_rows s ! k" "iv_status r = InvitePending" "now < iv_expires r"
      "\<forall>a \<in> set (in_admins s). \<not> same_email (na_email a) (iv_email r)"
      "s' = s\<lparr>in_admins := in_admins s @ [\<lparr>na_email = iv_email r, na_password = password, na_role = iv_role r\<rparr>],
              in_rows := (in_rows s)[k := r\<lparr>iv_status := InviteAccepted, iv_accepted := Some now, iv_admin := Some (length (in_admins s))\<rparr>]\<rparr>"
proof (cases "invite_index t s")
  case None
  then have "x = Inl invalid_invite" "s' = s" using assms by (simp_all add: redeemInvite_def)
  then show thesis using that(1) by simp
next
  case (Some k)
  let ?r = "in_rows s ! k"
  let ?taken = "list_ex (\<lambda>a. same_email (na_email a) (iv_email ?r)) (in_admins s)"
  have e: "(x, s') = (if iv_status ?r \<noteq> InvitePending then (Inl invalid_invite, s)
      else if iv_expires ?r \<le> now then (Inl invalid_invite, s\<lparr>in_rows := (in_rows s)[k := ?r\<lparr>iv_status := InviteExpired\<rparr>]\<rparr>)
      else if ?taken then (Inl db_error, s)
      else (Inr (length (in_admins s)), s\<lparr>in_admins := in_admins s @ [\<lparr>na_email = iv_email ?r, na_password = password, na_role = iv_role ?r\<rparr>],
          in_rows := (in_rows s)[k := ?r\<lparr>iv_status := InviteAccepted, iv_accepted := Some now, iv_admin := Some (length (in_admins s))\<rparr>]\<rparr>))"
    using assms Some by (simp add: redeemInvite_def Let_def)
  show thesis
  proof (cases "iv_status ?r \<noteq> InvitePending")
    case True
    then show thesis using e that(1) by simp
  next
    case pending: False
    show thesis
    proof (cases "iv_expires ?r \<le> now")
      case True
      then show thesis using e that(2) [of k] pending Some by simp
    next
      case False
      show thesis
      proof (cases ?taken)
        case True
        then show thesis using e that(1) pending False by simp
      next
        case free: False
        then have "\<forall>a \<in> set (in_admins s). \<not> same_email (na_email a) (iv_email ?r)" by (simp add: list_ex_iff)
        then show thesis using e that(3) [of k ?r] pending False free Some by simp
      qed
    qed
  qed
qed

lemma invite_index_some: "invite_index t s = Some k \<Longrightarrow> k < length (in_rows s) \<and> iv_token (in_rows s ! k) = t"
  unfolding invite_index_def by (auto simp: find_Some_iff)

lemma invite_index_same:
  assumes "length (in_rows s') = length (in_rows s)" "\<And>k. iv_token (in_rows s' ! k) = iv_token (in_rows s ! k)"
  shows "invite_index t s' = invite_index t s"
  by (simp add: invite_index_def assms)

lemma redeem_rows:
  assumes "redeemInvite now t password s = (x, s')"
  shows "length (in_rows s') = length (in_rows s)" "iv_token (in_rows s' ! j) = iv_token (in_rows s ! j)"
    "iv_status (in_rows s ! j) \<noteq> InvitePending \<Longrightarrow> iv_status (in_rows s' ! j) \<noteq> InvitePending"
proof -
  have "length (in_rows s') = length (in_rows s) \<and> iv_token (in_rows s' ! j) = iv_token (in_rows s ! j)
    \<and> (iv_status (in_rows s ! j) \<noteq> InvitePending \<longrightarrow> iv_status (in_rows s' ! j) \<noteq> InvitePending)"
    using assms
  proof (cases rule: redeem_cases)
    case (2 k)
    then show ?thesis using invite_index_some [OF 2(2)] by (cases "j = k") simp_all
  next
    case (3 k r)
    then show ?thesis using invite_index_some [OF 3(2)] by (cases "j = k") simp_all
  qed simp
  then show "length (in_rows s') = length (in_rows s)" "iv_token (in_rows s' ! j) = iv_token (in_rows s ! j)"
    "iv_status (in_rows s ! j) \<noteq> InvitePending \<Longrightarrow> iv_status (in_rows s' ! j) \<noteq> InvitePending" by blast+
qed

interpretation redemption: at_most_once open_invite "redeem_claim c" for c
proof
  fix t s
  obtain x s' where run: "redeemInvite (fst c) t (snd c) s = (x, s')" by fastforce
  assume won: "fst (redeem_claim c t s)"
  then obtain n where x: "x = Inr n" using run by (cases x) (simp_all add: redeem_claim_def)
  have s': "snd (redeem_claim c t s) = s'" using run x by (simp add: redeem_claim_def)
  from run show "open_invite s t" by (cases rule: redeem_cases) (use x in \<open>auto simp: open_invite_def\<close>)
  from run show "\<not> open_invite (snd (redeem_claim c t s)) t"
  proof (cases rule: redeem_cases)
    case (3 k r)
    have "invite_index t s' = Some k" using invite_index_same redeem_rows [OF run] 3(2) by metis
    then show ?thesis using invite_index_some [OF 3(2)] unfolding s' open_invite_def by (simp add: 3(7))
  qed (use x in auto)
next
  fix t j s
  assume closed: "\<not> open_invite s j"
  obtain x s' where run: "redeemInvite (fst c) t (snd c) s = (x, s')" by fastforce
  have s': "snd (redeem_claim c t s) = s'" using run by (simp add: redeem_claim_def split: sum.split)
  have "invite_index j s' = invite_index j s" using invite_index_same redeem_rows [OF run] by metis
  then show "\<not> open_invite (snd (redeem_claim c t s)) j" using closed redeem_rows(3) [OF run] unfolding s' open_invite_def by auto
qed

subsection \<open>Every interleaving\<close>

inductive invite_step :: "invites \<Rightarrow> invites \<Rightarrow> bool" where
  creates: "invite_step s (snd (createInvite now e role by t dup queued s))"
| revokes: "invite_step s (snd (revokeInvite k s))"
| redeems: "invite_step s (snd (redeemInvite now t password s))"

definition accepted_rows :: "invites \<Rightarrow> nat list" where
  "accepted_rows s = filter (\<lambda>k. iv_status (in_rows s ! k) = InviteAccepted) [0..<length (in_rows s)]"

definition accepted_well :: "nat \<Rightarrow> invites \<Rightarrow> invite \<Rightarrow> bool" where
  "accepted_well n s r \<longleftrightarrow> (\<exists>a t. iv_admin r = Some a \<and> n \<le> a \<and> a < length (in_admins s) \<and> iv_accepted r = Some t \<and> t < iv_expires r
     \<and> na_email (in_admins s ! a) = iv_email r \<and> na_role (in_admins s ! a) = iv_role r)"

definition invites_fit :: "nat \<Rightarrow> invites \<Rightarrow> bool" where
  "invites_fit n s \<longleftrightarrow> length (in_admins s) = n + length (accepted_rows s)
     \<and> (\<forall>k \<in> set (accepted_rows s). accepted_well n s (in_rows s ! k))
     \<and> inj_on (\<lambda>k. iv_admin (in_rows s ! k)) (set (accepted_rows s))
     \<and> distinct (map iv_token (in_rows s)) \<and> distinct (map (\<lambda>a. map to_lower (na_email a)) (in_admins s))"

lemma accepted_update:
  assumes "k < length (in_rows s)" "iv_status (in_rows s ! k) \<noteq> InviteAccepted" "iv_status r \<noteq> InviteAccepted" "iv_token r = iv_token (in_rows s ! k)"
  shows "invites_fit n (s\<lparr>in_rows := (in_rows s)[k := r]\<rparr>) = invites_fit n s"
proof -
  let ?s = "s\<lparr>in_rows := (in_rows s)[k := r]\<rparr>"
  have a: "accepted_rows ?s = accepted_rows s" unfolding accepted_rows_def using assms by (intro filter_cong) (auto simp: nth_list_update)
  have row: "in_rows ?s ! j = in_rows s ! j" if "j \<in> set (accepted_rows s)" for j using that assms(2) by (cases "j = k") (auto simp: accepted_rows_def)
  have aw: "accepted_well n ?s q = accepted_well n s q" for q by (simp add: accepted_well_def)
  have wells: "(\<forall>j \<in> set (accepted_rows s). accepted_well n ?s (in_rows ?s ! j)) = (\<forall>j \<in> set (accepted_rows s). accepted_well n s (in_rows s ! j))"
    by (rule ball_cong [OF refl]) (simp only: row aw)
  have inj: "inj_on (\<lambda>j. iv_admin (in_rows ?s ! j)) (set (accepted_rows s)) = inj_on (\<lambda>j. iv_admin (in_rows s ! j)) (set (accepted_rows s))"
    by (rule inj_on_cong) (simp only: row)
  have toks: "map iv_token (in_rows ?s) = map iv_token (in_rows s)" using assms(1,4) by (simp add: map_update list_update_same_conv)
  show ?thesis unfolding invites_fit_def a wells inj toks by simp
qed

lemma invites_fit_insert:
  assumes inv: "invites_fit n s" and run: "insertInvite now e role by t s = (x, s')"
  shows "invites_fit n s'"
proof (cases "invite_index t s = None")
  case True
  let ?r = "\<lparr>iv_email = e, iv_role = role, iv_token = t, iv_by = by, iv_status = InvitePending, iv_expires = now + INVITE_TTL_MS, iv_accepted = None, iv_admin = None\<rparr>"
  have s': "s' = s\<lparr>in_rows := in_rows s @ [?r]\<rparr>" using run True by (simp add: insertInvite_def)
  have a: "accepted_rows s' = accepted_rows s" unfolding accepted_rows_def s' by (simp add: nth_append) (rule filter_cong [OF refl], simp)
  have row: "in_rows s' ! j = in_rows s ! j" if "j \<in> set (accepted_rows s)" for j using that by (simp add: accepted_rows_def s' nth_append)
  have "t \<notin> set (map iv_token (in_rows s))"
  proof
    assume "t \<in> set (map iv_token (in_rows s))"
    then obtain k where "k < length (in_rows s)" "iv_token (in_rows s ! k) = t" by (auto simp: in_set_conv_nth)
    then show False using True unfolding invite_index_def find_None_iff by auto
  qed
  then have "distinct (map iv_token (in_rows s'))" using inv by (simp add: invites_fit_def s')
  moreover have "inj_on (\<lambda>j. iv_admin (in_rows s' ! j)) (set (accepted_rows s))" using inv row unfolding invites_fit_def by (metis (mono_tags, lifting) inj_on_cong)
  moreover have "accepted_well n s' q = accepted_well n s q" for q by (simp add: accepted_well_def s')
  moreover have "in_admins s' = in_admins s" by (simp add: s')
  ultimately show ?thesis using inv unfolding invites_fit_def a by (auto simp: row)
next
  case False
  then show ?thesis using run inv by (simp add: insertInvite_def)
qed

lemma invites_fit_redeem:
  assumes inv: "invites_fit n s" and run: "redeemInvite now t password s = (x, s')"
  shows "invites_fit n s'"
  using run
proof (cases rule: redeem_cases)
  case 1
  then show ?thesis using inv by simp
next
  case (2 k)
  show ?thesis unfolding 2(5) using inv accepted_update [of k s] invite_index_some [OF 2(2)] 2(3) by simp
next
  case (3 k r)
  let ?q = "r\<lparr>iv_status := InviteAccepted, iv_accepted := Some now, iv_admin := Some (length (in_admins s))\<rparr>"
  let ?a = "\<lparr>na_email = iv_email r, na_password = password, na_role = iv_role r\<rparr>"
  have k: "k < length (in_rows s)" "iv_status (in_rows s ! k) = InvitePending" using invite_index_some [OF 3(2)] 3(3,4) by auto
  have rows: "in_rows s' = (in_rows s)[k := ?q]" "in_admins s' = in_admins s @ [?a]" by (simp_all add: 3(7))
  have not: "k \<notin> set (accepted_rows s)" using k by (simp add: accepted_rows_def)
  have set: "set (accepted_rows s') = insert k (set (accepted_rows s))" using k by (auto simp: accepted_rows_def rows nth_list_update)
  have "distinct (accepted_rows s')" "distinct (accepted_rows s)" by (simp_all add: accepted_rows_def)
  then have len: "length (accepted_rows s') = Suc (length (accepted_rows s))" using set not by (metis card_insert_disjoint distinct_card finite_set)
  have row: "in_rows s' ! j = in_rows s ! j" if "j \<in> set (accepted_rows s)" for j using that not by (cases "j = k") (simp_all add: rows)
  have new: "in_rows s' ! k = ?q" using k by (simp add: rows)
  have old: "accepted_well n s' q" if "accepted_well n s q" for q using that by (fastforce simp: accepted_well_def rows nth_append)
  have bound: "\<exists>a < length (in_admins s). iv_admin (in_rows s ! j) = Some a" if "j \<in> set (accepted_rows s)" for j
    using inv that unfolding invites_fit_def accepted_well_def by blast
  have "inj_on (\<lambda>j. iv_admin (in_rows s ! j)) (set (accepted_rows s))" using inv by (simp add: invites_fit_def)
  then have "inj_on (\<lambda>j. iv_admin (in_rows s' ! j)) (set (accepted_rows s))" using row by (metis (mono_tags, lifting) inj_on_cong)
  moreover have "iv_admin (in_rows s' ! k) \<notin> (\<lambda>j. iv_admin (in_rows s' ! j)) ` (set (accepted_rows s) - {k})" using bound by (fastforce simp: new row)
  ultimately have inj: "inj_on (\<lambda>j. iv_admin (in_rows s' ! j)) (set (accepted_rows s'))" unfolding set by simp
  have n: "n \<le> length (in_admins s)" using inv by (simp add: invites_fit_def)
  have "accepted_well n s' ?q" using 3(5) n by (simp add: accepted_well_def rows)
  then have well: "\<forall>j \<in> set (accepted_rows s'). accepted_well n s' (in_rows s' ! j)" using inv old unfolding set by (auto simp: new row invites_fit_def)
  have "map iv_token (in_rows s') = map iv_token (in_rows s)" using k by (simp add: rows map_update 3(3) list_update_same_conv)
  then have "distinct (map iv_token (in_rows s'))" using inv by (simp add: invites_fit_def)
  moreover have "distinct (map (\<lambda>a. map to_lower (na_email a)) (in_admins s'))" using inv 3(6) by (auto simp: invites_fit_def rows same_email_def)
  moreover have "length (in_admins s') = n + length (accepted_rows s')" using inv by (simp add: invites_fit_def rows len)
  ultimately show ?thesis using inj well unfolding invites_fit_def by blast
qed

lemma invites_fit_step: "invite_step s s' \<Longrightarrow> invites_fit n s \<Longrightarrow> invites_fit n s'"
proof (induction rule: invite_step.induct)
  case (creates s now e role by' t dup queued)
  obtain x s1 where i: "insertInvite now e role by' t s = (x, s1)" by fastforce
  have fit: "invites_fit n s1" using invites_fit_insert [OF creates i] .
  have mail: "invites_fit n (s1\<lparr>in_mails := m\<rparr>) = invites_fit n s1" for m by (simp add: invites_fit_def accepted_rows_def accepted_well_def)
  show ?case using creates fit by (cases x) (simp_all add: createInvite_def i mail)
next
  case (revokes s k)
  then show ?case using accepted_update [of k s] by (auto simp: revokeInvite_def)
next
  case (redeems s now t password)
  then show ?case using invites_fit_redeem by (metis surjective_pairing)
qed

text \<open>
  C31. An invitation makes one administrator. However invitations are created, revoked and redeemed, every accepted one belongs to an administrator of its own, with the invited address and
  role, who joined before it expired; no administrator arises in any other way, and no two share an address.
\<close>

theorem invitation_makes_one_admin:
  assumes "invite_step\<^sup>*\<^sup>* s0 s" and "in_rows s0 = []" "distinct (map (\<lambda>a. map to_lower (na_email a)) (in_admins s0))"
  shows "length (in_admins s) = length (in_admins s0) + length (accepted_rows s)
    \<and> (\<forall>k \<in> set (accepted_rows s). accepted_well (length (in_admins s0)) s (in_rows s ! k))
    \<and> inj_on (\<lambda>k. iv_admin (in_rows s ! k)) (set (accepted_rows s))
    \<and> distinct (map (\<lambda>a. map to_lower (na_email a)) (in_admins s))"
proof -
  have "invites_fit (length (in_admins s0)) s0" using assms(2,3) by (simp add: invites_fit_def accepted_rows_def)
  with assms(1) have "invites_fit (length (in_admins s0)) s" by (induction rule: rtranclp_induct) (simp_all add: invites_fit_step)
  then show ?thesis unfolding invites_fit_def by blast
qed

text \<open>Of any sequence of attempts, each with a password of its own, at most one redeems a given token.\<close>

lemma token_redeemed_once: "distinct (redemption.wins c ts s)"
  by (rule redemption.won_once)

subsection \<open>Runs at concrete inputs\<close>

definition no_invites :: invites where
  "no_invites = \<lparr>in_rows = [], in_admins = [\<lparr>na_email = ''root'', na_password = ''x'', na_role = ''super_admin''\<rparr>], in_mails = []\<rparr>"

theorem invitation_makes_one_admin_witness:
  "\<exists>s. invite_step\<^sup>*\<^sup>* no_invites s \<and> length (accepted_rows s) = 1 \<and> length (in_admins s) = 2"
proof -
  define s1 where "s1 = snd (createInvite 5 ''new'' ''ops'' 0 ''t'' False True no_invites)"
  define s2 where "s2 = snd (redeemInvite 6 ''t'' ''p'' s1)"
  have "invite_step no_invites s1" "invite_step s1 s2" unfolding s1_def s2_def by (rule invite_step.intros)+
  then have run: "invite_step\<^sup>*\<^sup>* no_invites s2" by (meson rtranclp.rtrancl_refl rtranclp.rtrancl_into_rtrancl)
  have one: "length (accepted_rows s2) = 1"
    by (simp add: s2_def s1_def createInvite_def insertInvite_def invite_index_def no_invites_def redeemInvite_def Let_def INVITE_TTL_MS_def same_email_def accepted_rows_def)
  have "in_rows no_invites = []" "distinct (map (\<lambda>a. map to_lower (na_email a)) (in_admins no_invites))" "length (in_admins no_invites) = 1" by (simp_all add: no_invites_def)
  then have "length (in_admins s2) = 2" using invitation_makes_one_admin [OF run] one by simp
  then show ?thesis using run one by blast
qed

text \<open>The mail queue is down: the invitation stands, nobody has its token, and a second one for the address is refused until it is revoked.\<close>

lemma invite_without_mail:
  "\<exists>s1. createInvite now e role by t False False no_invites = (Inl (http_err 500 ''''), s1) \<and> in_mails s1 = [] \<and> findPendingInviteByEmail e s1 \<noteq> None"
  by (simp add: createInvite_def insertInvite_def invite_index_def no_invites_def findPendingInviteByEmail_def same_email_def)

end
