(* ===== verification/RideTalk.thy ===== *)
theory RideTalk
  imports Otp RideCore
begin

text \<open>
  What the two people of a ride say to each other: chat messages (\<open>modules/ride-chat\<close>, migration 081) and masked calls with their budget (\<open>modules/call-masking\<close>). Sockets and push messages
  are left out, but for whether a message is announced.
\<close>

subsection \<open>Chat\<close>

datatype side = RiderSide | DriverSide

record message =
  cm_ride :: nat
  cm_side :: side
  cm_sender :: nat
  cm_body :: string
  cm_client :: string
  cm_read :: "int option"

record talk =
  tl_rides :: ride_db
  tl_messages :: "message list"
  tl_calls :: "nat \<Rightarrow> counter option"

definition not_a_party :: app_error where "not_a_party = http_err 403 ''AUTH_FORBIDDEN''"

text \<open>The caller's side and number, and the number of the other one.\<close>

definition resolveParticipant :: "nat option \<Rightarrow> nat option \<Rightarrow> ride_row option \<Rightarrow> (side \<times> nat \<times> nat option) res" where
  "resolveParticipant user driver seen =
     (case seen of None \<Rightarrow> Inl (http_err 404 ''RIDE_NOT_FOUND'')
      | Some r \<Rightarrow>
          if user = Some (rr_user r) then Inr (RiderSide, rr_user r, rr_driver r)
          else (case (driver, rr_driver r) of
              (Some d, Some e) \<Rightarrow> if d = e then Inr (DriverSide, d, Some (rr_user r)) else Inl not_a_party
            | _ \<Rightarrow> Inl not_a_party))"

definition CHAT_CLOSED_STATUSES :: "ride_status list" where
  "CHAT_CLOSED_STATUSES = [Completed, Cancelled, NoDrivers]"

definition message_key :: "message \<Rightarrow> nat \<times> side \<times> nat \<times> string" where
  "message_key m = (cm_ride m, cm_side m, cm_sender m, cm_client m)"

definition message_index :: "nat \<times> side \<times> nat \<times> string \<Rightarrow> talk \<Rightarrow> nat option" where
  "message_index key s = find (\<lambda>k. message_key (tl_messages s ! k) = key) [0..<length (tl_messages s)]"

text \<open>The number of the row, and whether it is new.\<close>

definition insertMessageIdempotent :: "nat \<Rightarrow> side \<Rightarrow> nat \<Rightarrow> string \<Rightarrow> string \<Rightarrow> talk \<Rightarrow> (nat \<times> bool) \<times> talk" where
  "insertMessageIdempotent i sd who body client s =
     (case message_index (i, sd, who, client) s of Some k \<Rightarrow> ((k, False), s)
      | None \<Rightarrow> ((length (tl_messages s), True), s\<lparr>tl_messages := tl_messages s @ [\<lparr>cm_ride = i, cm_side = sd, cm_sender = who, cm_body = body, cm_client = client, cm_read = None\<rparr>]\<rparr>))"

text \<open>The row, and whether the message is announced.\<close>

definition sendMessage :: "nat \<Rightarrow> nat option \<Rightarrow> nat option \<Rightarrow> string \<Rightarrow> string \<Rightarrow> ride_row option \<Rightarrow> talk \<Rightarrow> (nat \<times> bool) res \<times> talk" where
  "sendMessage i user driver body client seen s =
     (case resolveParticipant user driver seen of Inl err \<Rightarrow> (Inl err, s)
      | Inr (sd, who, other) \<Rightarrow>
          if (case seen of Some r \<Rightarrow> rr_status r \<in> set CHAT_CLOSED_STATUSES | None \<Rightarrow> False) then (Inl (http_err 422 ''RIDE_INVALID_STATUS''), s)
          else (let (x, s1) = insertMessageIdempotent i sd who body client s in (Inr x, s1)))"

definition listMessages :: "nat \<Rightarrow> nat option \<Rightarrow> talk \<Rightarrow> nat list" where
  "listMessages i after s = filter (\<lambda>k. cm_ride (tl_messages s ! k) = i \<and> (case after of None \<Rightarrow> True | Some a \<Rightarrow> a < k)) [0..<length (tl_messages s)]"

definition getHistory :: "nat \<Rightarrow> nat option \<Rightarrow> nat option \<Rightarrow> nat option \<Rightarrow> ride_row option \<Rightarrow> talk \<Rightarrow> nat list res" where
  "getHistory i user driver after seen s = bind_res (resolveParticipant user driver seen) (\<lambda>_. Inr (listMessages i after s))"

definition unread_by :: "nat \<Rightarrow> side \<Rightarrow> message \<Rightarrow> bool" where
  "unread_by i reader m \<longleftrightarrow> cm_ride m = i \<and> cm_side m \<noteq> reader \<and> cm_read m = None"

definition markMessagesRead :: "int \<Rightarrow> nat \<Rightarrow> side \<Rightarrow> talk \<Rightarrow> nat \<times> talk" where
  "markMessagesRead now i reader s = (length (filter (unread_by i reader) (tl_messages s)),
     s\<lparr>tl_messages := map (\<lambda>m. if unread_by i reader m then m\<lparr>cm_read := Some now\<rparr> else m) (tl_messages s)\<rparr>)"

definition markRead :: "int \<Rightarrow> nat \<Rightarrow> nat option \<Rightarrow> nat option \<Rightarrow> ride_row option \<Rightarrow> talk \<Rightarrow> nat res \<times> talk" where
  "markRead now i user driver seen s =
     (case resolveParticipant user driver seen of Inl err \<Rightarrow> (Inl err, s)
      | Inr (sd, _, _) \<Rightarrow> (let (n, s1) = markMessagesRead now i sd s in (Inr n, s1)))"

definition getUnreadMessageCount :: "nat \<Rightarrow> side \<Rightarrow> talk \<Rightarrow> nat" where
  "getUnreadMessageCount i reader s = length (filter (unread_by i reader) (tl_messages s))"

definition getUnreadCount :: "nat \<Rightarrow> nat option \<Rightarrow> nat option \<Rightarrow> ride_row option \<Rightarrow> talk \<Rightarrow> nat res" where
  "getUnreadCount i user driver seen s = bind_res (resolveParticipant user driver seen) (\<lambda>(sd, _, _). Inr (getUnreadMessageCount i sd s))"

subsection \<open>Masked calls\<close>

definition CALL_ELIGIBLE_STATUSES :: "ride_status list" where
  "CALL_ELIGIBLE_STATUSES = [Accepted, DriverArrived, InProgress, Returning]"

definition CALL_COUNT_TTL_SECONDS :: int where "CALL_COUNT_TTL_SECONDS = 24 * 60 * 60"

text \<open>\<open>Number(value) || 10\<close>; \<open>None\<close> is \<open>NaN\<close>.\<close>

definition max_calls :: "num option \<Rightarrow> num" where
  "max_calls v = (case v of Some n \<Rightarrow> if n = 0 then 10 else n | None \<Rightarrow> 10)"

text \<open>\<open>INCR\<close>, and \<open>EXPIRE\<close> when the counter is new.\<close>

definition call_hit :: "redis_fault \<Rightarrow> int \<Rightarrow> counter option \<Rightarrow> int res \<times> counter option" where
  "call_hit f now c =
     (if f = Discarded then (Inl (http_err 500 ''''), c)
      else let x = (case counter_at now c of Some x \<Rightarrow> x | None \<Rightarrow> \<lparr>ct_count = 0, ct_until = None\<rparr>); n = ct_count x + 1
           in if n \<noteq> 1 then (Inr n, Some (x\<lparr>ct_count := n\<rparr>))
              else if f = Dies then (Inl (http_err 500 ''''), Some (x\<lparr>ct_count := n\<rparr>))
              else (Inr n, Some \<lparr>ct_count = n, ct_until = Some (now + CALL_COUNT_TTL_SECONDS * 1000)\<rparr>))"

text \<open>\<open>DECR\<close>; a counter that has expired meanwhile starts at zero.\<close>

definition call_undo :: "int \<Rightarrow> counter option \<Rightarrow> counter option" where
  "call_undo now c = (let x = (case counter_at now c of Some x \<Rightarrow> x | None \<Rightarrow> \<lparr>ct_count = 0, ct_until = None\<rparr>) in Some (x\<lparr>ct_count := ct_count x - 1\<rparr>))"

definition call_error :: "string \<Rightarrow> app_error" where "call_error c = http_err 409 c"

text \<open>The checks before the counter; the result is the called and the calling number.\<close>

definition call_checks :: "bool \<Rightarrow> bool \<Rightarrow> side \<Rightarrow> nat \<Rightarrow> ride_row option \<Rightarrow> string option \<Rightarrow> string option \<Rightarrow> (string \<times> string) res" where
  "call_checks enabled configured role caller seen rider_phone driver_phone =
     (if \<not> enabled \<or> \<not> configured then Inl (call_error ''MASKING_DISABLED'')
      else case seen of None \<Rightarrow> Inl (http_err 404 ''RIDE_NOT_FOUND'')
      | Some r \<Rightarrow>
          if \<not> (role = RiderSide \<and> rr_user r = caller \<or> role = DriverSide \<and> rr_driver r = Some caller) then Inl not_a_party
          else if rr_status r \<notin> set CALL_ELIGIBLE_STATUSES then Inl (call_error ''CALL_NOT_AVAILABLE'')
          else (case (rider_phone, driver_phone) of
              (Some p, Some q) \<Rightarrow> if p = [] \<or> q = [] then Inl (call_error ''CALL_NOT_AVAILABLE'') else Inr (if role = RiderSide then (q, p) else (p, q))
            | _ \<Rightarrow> Inl (call_error ''CALL_NOT_AVAILABLE'')))"

text \<open>\<open>vendor\<close> makes the call; \<open>undone\<close>: the moment at which a failed one is given back, if Redis takes it.\<close>

definition triggerCall :: "redis_fault \<Rightarrow> int \<Rightarrow> bool \<Rightarrow> bool \<Rightarrow> num option \<Rightarrow> (string \<Rightarrow> string \<Rightarrow> bool) \<Rightarrow> int option \<Rightarrow> nat \<Rightarrow> side \<Rightarrow> nat \<Rightarrow> ride_row option \<Rightarrow> string option \<Rightarrow> string option \<Rightarrow> talk \<Rightarrow> (string \<times> string) res \<times> talk" where
  "triggerCall f now enabled configured most vendor undone i role caller seen rider_phone driver_phone s =
     (case call_checks enabled configured role caller seen rider_phone driver_phone of Inl err \<Rightarrow> (Inl err, s)
      | Inr (called, calling) \<Rightarrow>
          (case call_hit f now (tl_calls s i) of
             (Inl err, c) \<Rightarrow> (Inl err, s\<lparr>tl_calls := (tl_calls s)(i := c)\<rparr>)
           | (Inr n, c) \<Rightarrow>
               let s1 = s\<lparr>tl_calls := (tl_calls s)(i := c)\<rparr> in
               if max_calls most < of_int n then (Inl (call_error ''CALL_LIMIT_REACHED''), s1)
               else if vendor called calling then (Inr (called, calling), s1)
               else (Inl (call_error ''CALL_FAILED''), (case undone of None \<Rightarrow> s1 | Some t \<Rightarrow> s1\<lparr>tl_calls := (tl_calls s1)(i := call_undo t (tl_calls s1 i))\<rparr>))))"

text \<open>The switch goes off when the credit has run low; the second component: the administrators are told. \<open>credit\<close> is \<open>None\<close> if the vendor does not answer.\<close>

definition checkCreditBalance :: "num option \<Rightarrow> num option \<Rightarrow> bool \<Rightarrow> bool \<times> bool" where
  "checkCreditBalance floor_value credit on =
     (case (floor_value, credit) of (Some lo, Some c) \<Rightarrow> if lo \<le> c then (on, False) else (False, on) | _ \<Rightarrow> (on, False))"

subsection \<open>A message is stored once\<close>

text \<open>Anything the module does; messages are never removed.\<close>

inductive talk_step :: "talk \<Rightarrow> talk \<Rightarrow> bool" where
  sends: "talk_step s (snd (sendMessage i user driver body client seen s))"
| reads: "talk_step s (snd (markRead now i user driver seen s))"
| calls: "talk_step s (snd (triggerCall f now enabled configured most vendor undone i role caller seen rider_phone driver_phone s))"
| rides: "talk_step s (s\<lparr>tl_rides := db\<rparr>)"

definition same_text :: "message \<Rightarrow> message \<Rightarrow> bool" where
  "same_text m m' \<longleftrightarrow> message_key m' = message_key m \<and> cm_body m' = cm_body m"

definition messages_kept :: "talk \<Rightarrow> talk \<Rightarrow> bool" where
  "messages_kept s s' \<longleftrightarrow> length (tl_messages s) \<le> length (tl_messages s') \<and> (\<forall>k < length (tl_messages s). same_text (tl_messages s ! k) (tl_messages s' ! k))"

definition keys_distinct :: "talk \<Rightarrow> bool" where
  "keys_distinct s \<longleftrightarrow> distinct (map message_key (tl_messages s))"

lemma message_index_some: "message_index key s = Some k \<Longrightarrow> k < length (tl_messages s) \<and> message_key (tl_messages s ! k) = key"
  unfolding message_index_def by (auto simp: find_Some_iff)

lemma message_index_none: "message_index key s = None \<Longrightarrow> key \<notin> set (map message_key (tl_messages s))"
  unfolding message_index_def find_None_iff by (auto simp: in_set_conv_nth)

lemma message_index_distinct:
  assumes "keys_distinct s" "k < length (tl_messages s)"
  shows "message_index (message_key (tl_messages s ! k)) s = Some k"
proof -
  have "message_key (tl_messages s ! j) \<noteq> message_key (tl_messages s ! k)" if "j < k" for j
    using assms that nth_eq_iff_index_eq [of "map message_key (tl_messages s)" j k] by (simp add: keys_distinct_def)
  then show ?thesis unfolding message_index_def find_Some_iff using assms(2) by (intro exI [of _ k]) auto
qed

lemma insert_kept:
  assumes "keys_distinct s" "insertMessageIdempotent i sd who body client s = (x, s')"
  shows "messages_kept s s' \<and> keys_distinct s' \<and> message_index (i, sd, who, client) s' = Some (fst x) \<and> (snd x \<longrightarrow> cm_body (tl_messages s' ! fst x) = body) \<and> (\<not> snd x \<longrightarrow> s' = s)"
proof (cases "message_index (i, sd, who, client) s")
  case None
  let ?m = "\<lparr>cm_ride = i, cm_side = sd, cm_sender = who, cm_body = body, cm_client = client, cm_read = None\<rparr>"
  have e: "x = (length (tl_messages s), True)" "tl_messages s' = tl_messages s @ [?m]" using assms(2) None by (auto simp: insertMessageIdempotent_def)
  have d: "keys_distinct s'" using assms(1) message_index_none [OF None] by (simp add: keys_distinct_def e message_key_def)
  have "messages_kept s s'" by (simp add: messages_kept_def e same_text_def nth_append)
  moreover have "message_index (i, sd, who, client) s' = Some (length (tl_messages s))"
    using message_index_distinct [OF d, of "length (tl_messages s)"] by (simp add: e message_key_def)
  ultimately show ?thesis using d by (simp add: e)
next
  case (Some k)
  then have "x = (k, False)" "s' = s" using assms(2) by (simp_all add: insertMessageIdempotent_def)
  then show ?thesis using assms(1) Some by (simp add: messages_kept_def same_text_def)
qed

lemma send_cases:
  assumes "sendMessage i user driver body client seen s = (x, s')"
  obtains err where "x = Inl err" "s' = s"
  | sd who other y where "resolveParticipant user driver seen = Inr (sd, who, other)" "x = Inr y" "insertMessageIdempotent i sd who body client s = (y, s')"
proof (cases "resolveParticipant user driver seen")
  case (Inl err)
  then have "x = Inl err" "s' = s" using assms by (simp_all add: sendMessage_def)
  then show thesis by (rule that(1))
next
  case (Inr p)
  obtain sd who other where p: "p = (sd, who, other)" by (cases p) auto
  show thesis
  proof (cases "case seen of Some r \<Rightarrow> rr_status r \<in> set CHAT_CLOSED_STATUSES | None \<Rightarrow> False")
    case True
    then have "x = Inl (http_err 422 ''RIDE_INVALID_STATUS'')" "s' = s" using assms Inr p by (simp_all add: sendMessage_def)
    then show thesis by (rule that(1))
  next
    case False
    obtain y s1 where y: "insertMessageIdempotent i sd who body client s = (y, s1)" by fastforce
    then have "x = Inr y" "s' = s1" using assms Inr p False by (simp_all add: sendMessage_def)
    then show thesis using that(2) Inr p y by simp
  qed
qed

lemma calls_messages: "tl_messages (snd (triggerCall f now enabled configured most vendor undone i role caller seen rider_phone driver_phone s)) = tl_messages s"
  unfolding triggerCall_def by (simp add: Let_def split: sum.split prod.split option.split)

lemma messages_kept_refl: "messages_kept s s"
  by (simp add: messages_kept_def same_text_def)

lemma messages_kept_trans: "messages_kept s s1 \<Longrightarrow> messages_kept s1 s2 \<Longrightarrow> messages_kept s s2"
  unfolding messages_kept_def same_text_def by (metis order_less_le_trans le_trans)

lemma mark_kept: "messages_kept s (snd (markRead now i user driver seen s)) \<and> map message_key (tl_messages (snd (markRead now i user driver seen s))) = map message_key (tl_messages s)"
proof (cases "resolveParticipant user driver seen")
  case (Inl err)
  then show ?thesis by (simp add: markRead_def messages_kept_refl)
next
  case (Inr p)
  obtain sd who other where "p = (sd, who, other)" by (cases p) auto
  then have "tl_messages (snd (markRead now i user driver seen s)) = map (\<lambda>m. if unread_by i sd m then m\<lparr>cm_read := Some now\<rparr> else m) (tl_messages s)"
    using Inr by (simp add: markRead_def markMessagesRead_def)
  then show ?thesis by (simp add: messages_kept_def same_text_def message_key_def)
qed

lemma talk_step_kept: "talk_step s s' \<Longrightarrow> keys_distinct s \<Longrightarrow> messages_kept s s' \<and> keys_distinct s'"
proof (induction rule: talk_step.induct)
  case (sends s i user driver body client seen)
  obtain x s1 where run: "sendMessage i user driver body client seen s = (x, s1)" by fastforce
  then have "messages_kept s s1 \<and> keys_distinct s1"
    by (cases rule: send_cases) (use sends insert_kept messages_kept_refl in \<open>blast+\<close>)
  then show ?case by (simp add: run)
next
  case (reads s now i user driver seen)
  then show ?case using mark_kept [of s now i user driver seen] by (simp add: keys_distinct_def)
next
  case (calls s f now enabled configured most vendor undone i role caller seen rider_phone driver_phone)
  then show ?case by (simp add: keys_distinct_def messages_kept_def calls_messages same_text_def)
next
  case (rides s db)
  then show ?case by (simp add: keys_distinct_def messages_kept_def same_text_def)
qed

lemma talk_run_kept: "talk_step\<^sup>*\<^sup>* s s' \<Longrightarrow> keys_distinct s \<Longrightarrow> messages_kept s s' \<and> keys_distinct s'"
  by (induction rule: rtranclp_induct) (use messages_kept_refl messages_kept_trans talk_step_kept in blast)+

text \<open>
  C30. A message is stored once. Whatever is sent, read and called between, a sender's retry with the same client id, whatever body it carries, finds the row of the first attempt with its first
  body, changes nothing and is not announced again; it can only be refused once the chat is closed.
\<close>

theorem message_stored_once:
  assumes "keys_distinct s0" and first: "sendMessage i user driver body client (Some r) s0 = (Inr (k, True), s1)" and "talk_step\<^sup>*\<^sup>* s1 s2"
    and retry: "sendMessage i user driver body' client (Some r') s2 = (x, s3)" and same: "rr_user r' = rr_user r" "rr_driver r' = rr_driver r"
  shows "s3 = s2 \<and> (x = Inr (k, False) \<or> rr_status r' \<in> set CHAT_CLOSED_STATUSES) \<and> k < length (tl_messages s2) \<and> cm_body (tl_messages s2 ! k) = body"
proof -
  obtain sd who other where p: "resolveParticipant user driver (Some r) = Inr (sd, who, other)" and ins: "insertMessageIdempotent i sd who body client s0 = ((k, True), s1)"
    using first by (cases rule: send_cases) auto
  note i1 = insert_kept [OF assms(1) ins]
  then have k1: "k < length (tl_messages s1)" "message_key (tl_messages s1 ! k) = (i, sd, who, client)" "cm_body (tl_messages s1 ! k) = body"
    using message_index_some [of "(i, sd, who, client)" s1 k] by auto
  have run: "messages_kept s1 s2" "keys_distinct s2" using talk_run_kept [OF assms(3)] i1 by blast+
  then have k2: "k < length (tl_messages s2)" "message_key (tl_messages s2 ! k) = (i, sd, who, client)" "cm_body (tl_messages s2 ! k) = body"
    using k1 unfolding messages_kept_def same_text_def by (metis order_less_le_trans)+
  have idx: "message_index (i, sd, who, client) s2 = Some k" using message_index_distinct [OF run(2) k2(1)] k2(2) by simp
  have p': "resolveParticipant user driver (Some r') = Inr (sd, who, other)" using p unfolding resolveParticipant_def by (simp only: option.case same)
  have "sendMessage i user driver body' client (Some r') s2 =
      (if rr_status r' \<in> set CHAT_CLOSED_STATUSES then (Inl (http_err 422 ''RIDE_INVALID_STATUS''), s2) else (Inr (k, False), s2))"
    by (simp add: sendMessage_def p' insertMessageIdempotent_def idx)
  then show ?thesis using retry k2 by (auto split: if_splits)
qed

subsection \<open>The budget of calls\<close>

definition day :: int where "day = CALL_COUNT_TTL_SECONDS * 1000"

text \<open>Calls of one ride within a day of the first; a failed one is given back at once or not at all. The number counts the connected ones.\<close>

inductive call_step :: "nat \<Rightarrow> num option \<Rightarrow> int \<Rightarrow> nat \<times> talk \<Rightarrow> nat \<times> talk \<Rightarrow> bool" for i most t0 where
  "t0 \<le> now \<Longrightarrow> now < t0 + day \<Longrightarrow> undone = None \<or> undone = Some now
    \<Longrightarrow> triggerCall f now enabled configured most vendor undone i role caller seen rider_phone driver_phone s = (x, s')
    \<Longrightarrow> call_step i most t0 (n, s) (n + (if (\<exists>p. x = Inr p) then 1 else 0), s')"

definition budget_ok :: "num option \<Rightarrow> int \<Rightarrow> nat \<Rightarrow> counter option \<Rightarrow> bool" where
  "budget_ok most t0 n c \<longleftrightarrow> (n = 0 \<or> of_nat n \<le> max_calls most)
     \<and> (case c of None \<Rightarrow> n = 0 | Some x \<Rightarrow> int n \<le> ct_count x \<and> (\<forall>u. ct_until x = Some u \<longrightarrow> t0 + day \<le> u))"

lemma budget_alive: "budget_ok most t0 n c \<Longrightarrow> now < t0 + day \<Longrightarrow> counter_at now c = c"
  by (auto simp: budget_ok_def counter_at_def split: option.splits)

lemma budget_hit:
  assumes ok: "budget_ok most t0 n c" and t: "t0 \<le> now" "now < t0 + day" and run: "call_hit f now c = (x, c')"
  shows "budget_ok most t0 n c' \<and> (\<forall>k. x = Inr k \<longrightarrow> (\<exists>y. c' = Some y \<and> ct_count y = k \<and> int n + 1 \<le> k))"
proof (cases "f = Discarded")
  case True
  then have "c' = c" "x = Inl (http_err 500 '''')" using run by (simp_all add: call_hit_def)
  then show ?thesis using ok by simp
next
  case False
  define y where "y = (case c of Some x \<Rightarrow> x | None \<Rightarrow> \<lparr>ct_count = 0, ct_until = None\<rparr>)"
  have y: "int n \<le> ct_count y" "\<forall>u. ct_until y = Some u \<longrightarrow> t0 + day \<le> u" using ok by (auto simp: budget_ok_def y_def split: option.splits)
  have alive: "counter_at now c = c" using ok t(2) by (rule budget_alive)
  have "call_hit f now c = (if ct_count y + 1 \<noteq> 1 then (Inr (ct_count y + 1), Some (y\<lparr>ct_count := ct_count y + 1\<rparr>))
      else if f = Dies then (Inl (http_err 500 ''''), Some (y\<lparr>ct_count := ct_count y + 1\<rparr>))
      else (Inr (ct_count y + 1), Some \<lparr>ct_count = ct_count y + 1, ct_until = Some (now + day)\<rparr>))"
    unfolding call_hit_def alive y_def [symmetric] Let_def day_def using False by simp
  then have e: "(x, c') = (if ct_count y + 1 \<noteq> 1 then (Inr (ct_count y + 1), Some (y\<lparr>ct_count := ct_count y + 1\<rparr>))
      else if f = Dies then (Inl (http_err 500 ''''), Some (y\<lparr>ct_count := ct_count y + 1\<rparr>))
      else (Inr (ct_count y + 1), Some \<lparr>ct_count = ct_count y + 1, ct_until = Some (now + day)\<rparr>))"
    by (rule trans [OF run [symmetric]])
  have "n = 0 \<or> of_nat n \<le> max_calls most" using ok by (simp add: budget_ok_def)
  then show ?thesis using e y t by (auto simp: budget_ok_def split: if_splits)
qed

lemma call_step_budget:
  assumes "call_step i most t0 a b" "budget_ok most t0 (fst a) (tl_calls (snd a) i)"
  shows "budget_ok most t0 (fst b) (tl_calls (snd b) i)"
  using assms(1)
proof cases
  case (1 now undone f enabled configured vendor role caller seen rider_phone driver_phone s x s' n)
  have ok: "budget_ok most t0 n (tl_calls s i)" using assms(2) 1(1) by simp
  show ?thesis
  proof (cases "call_checks enabled configured role caller seen rider_phone driver_phone")
    case (Inl err)
    then have "x = Inl err" "s' = s" using 1(6) by (simp_all add: triggerCall_def)
    then show ?thesis using ok 1(2) by simp
  next
    case (Inr p)
    obtain called calling where p: "p = (called, calling)" by (cases p)
    obtain y c where hit: "call_hit f now (tl_calls s i) = (y, c)" by fastforce
    note h = budget_hit [OF ok 1(3,4) hit]
    show ?thesis
    proof (cases y)
      case (Inl err)
      then have "x = Inl err" "tl_calls s' i = c" using 1(6) by (auto simp: triggerCall_def \<open>call_checks _ _ _ _ _ _ _ = _\<close> p hit)
      then show ?thesis using h 1(2) by simp
    next
      case y: (Inr k)
      let ?s1 = "s\<lparr>tl_calls := (tl_calls s)(i := c)\<rparr>"
      obtain z where z: "c = Some z" "ct_count z = k" "int n + 1 \<le> k" using h y by blast
      have e: "(x, s') = (if max_calls most < of_int k then (Inl (call_error ''CALL_LIMIT_REACHED''), ?s1)
          else if vendor called calling then (Inr (called, calling), ?s1)
          else (Inl (call_error ''CALL_FAILED''), (case undone of None \<Rightarrow> ?s1 | Some t \<Rightarrow> ?s1\<lparr>tl_calls := (tl_calls ?s1)(i := call_undo t (tl_calls ?s1 i))\<rparr>)))"
        using 1(6) by (simp add: triggerCall_def Inr p hit y Let_def)
      consider "max_calls most < of_int k" | "\<not> max_calls most < of_int k" "vendor called calling" | "\<not> max_calls most < of_int k" "\<not> vendor called calling" by blast
      then show ?thesis
      proof cases
        case 1
        then have "x = Inl (call_error ''CALL_LIMIT_REACHED'')" "tl_calls s' i = c" using e by simp_all
        then show ?thesis using h \<open>b = _\<close> by simp
      next
        case 2
        have "x = Inr (called, calling)" "tl_calls s' i = c" using e 2 by simp_all
        moreover have "(of_int (int n + 1) :: num) \<le> of_int k" using z(3) by (simp only: of_int_le_iff)
        then have "of_nat (n + 1) \<le> max_calls most" using 2(1) by simp
        then have "budget_ok most t0 (n + 1) c" using h z by (simp add: budget_ok_def)
        ultimately show ?thesis using \<open>b = _\<close> by simp
      next
        case 3
        have x: "x = Inl (call_error ''CALL_FAILED'')" "tl_calls s' i = (case undone of None \<Rightarrow> c | Some t \<Rightarrow> call_undo t c)" using e 3 by (auto split: option.splits)
        have "counter_at now c = c" by (rule budget_alive [OF conjunct1 [OF h] 1(4)])
        then have "budget_ok most t0 n (call_undo now c)" using h z by (simp add: call_undo_def Let_def budget_ok_def)
        then have "budget_ok most t0 n (tl_calls s' i)" using h 1(5) x(2) by auto
        then show ?thesis using x(1) 1(2) by simp
      qed
    qed
  qed
qed

text \<open>
  C29. Calls stay within the budget. Within a day of the first one, no more masked calls of a ride are connected than the setting allows, from whichever side, whatever the vendor answers and
  whenever Redis or the process fails; failed calls are given back or count against the ride.
\<close>

theorem calls_within_budget:
  assumes "(call_step i most t0)\<^sup>*\<^sup>* (0, s0) (n, s)" and "tl_calls s0 i = None"
  shows "n = 0 \<or> of_nat n \<le> max_calls most"
proof -
  have "budget_ok most t0 (fst (0 :: nat, s0)) (tl_calls (snd (0 :: nat, s0)) i)" using assms(2) by (simp add: budget_ok_def)
  with assms(1) have "budget_ok most t0 (fst (n, s)) (tl_calls (snd (n, s)) i)" by (induction rule: rtranclp_induct) (use call_step_budget in blast)+
  then show ?thesis by (simp add: budget_ok_def)
qed

text \<open>The process dies between the two commands: the counter of the ride never expires.\<close>

lemma call_counter_without_end: "counter_at now c = None \<Longrightarrow> call_hit Dies now c = (Inl (http_err 500 ''''), Some \<lparr>ct_count = 1, ct_until = None\<rparr>)"
  by (simp add: call_hit_def)

text \<open>A failed call is given back after its day is over: the new counter starts below zero and without an end.\<close>

lemma call_given_back_late: "counter_at now c = None \<Longrightarrow> call_undo now c = Some \<lparr>ct_count = -1, ct_until = None\<rparr>"
  by (simp add: call_undo_def)

subsection \<open>Runs at concrete inputs\<close>

definition demo_talk :: talk where
  "demo_talk = \<lparr>tl_rides = demo_rides, tl_messages = [], tl_calls = (\<lambda>_. None)\<rparr>"

definition demo_met :: ride_row where
  "demo_met = demo_ride\<lparr>rr_driver := Some 5, rr_status := Accepted\<rparr>"

theorem message_stored_once_witness:
  "\<exists>s1. sendMessage 0 (Some 8) None ''hi'' ''m1'' (Some demo_met) demo_talk = (Inr (0, True), s1) \<and> sendMessage 0 (Some 8) None ''ho'' ''m1'' (Some demo_met) s1 = (Inr (0, False), s1)"
proof -
  have k: "keys_distinct demo_talk" by (simp add: keys_distinct_def demo_talk_def)
  obtain s1 where first: "sendMessage 0 (Some 8) None ''hi'' ''m1'' (Some demo_met) demo_talk = (Inr (0, True), s1)"
    by (simp add: sendMessage_def resolveParticipant_def demo_met_def demo_ride_def CHAT_CLOSED_STATUSES_def insertMessageIdempotent_def message_index_def demo_talk_def)
  obtain x s3 where retry: "sendMessage 0 (Some 8) None ''ho'' ''m1'' (Some demo_met) s1 = (x, s3)" by fastforce
  have "s3 = s1 \<and> (x = Inr (0, False) \<or> rr_status demo_met \<in> set CHAT_CLOSED_STATUSES)"
    using message_stored_once [OF k first rtranclp.rtrancl_refl retry] by blast
  then show ?thesis using first retry by (simp add: demo_met_def CHAT_CLOSED_STATUSES_def)
qed

theorem calls_within_budget_witness:
  "\<exists>s. (call_step 0 (Some 1) 0)\<^sup>*\<^sup>* (0, demo_talk) (1, s) \<and> (of_nat 1 :: num) \<le> max_calls (Some 1)"
proof -
  obtain s where run: "triggerCall Fine 0 True True (Some 1) (\<lambda>_ _. True) None 0 RiderSide 8 (Some demo_met) (Some ''1'') (Some ''2'') demo_talk = (Inr (''2'', ''1''), s)"
    by (simp add: triggerCall_def call_checks_def demo_met_def demo_ride_def CALL_ELIGIBLE_STATUSES_def call_hit_def counter_at_def demo_talk_def Let_def max_calls_def)
  have "call_step 0 (Some 1) 0 (0, demo_talk) (0 + (if (\<exists>p. Inr (''2'', ''1'') = (Inr p :: (string \<times> string) res)) then 1 else 0), s)"
    using run by (intro call_step.intros) (simp_all add: day_def CALL_COUNT_TTL_SECONDS_def)
  then have "(call_step 0 (Some 1) 0)\<^sup>*\<^sup>* (0, demo_talk) (1, s)" by (intro r_into_rtranclp) simp
  moreover have "tl_calls demo_talk 0 = None" by (simp add: demo_talk_def)
  ultimately show ?thesis using calls_within_budget [of 0 "Some 1" 0 demo_talk 1 s] by fastforce
qed

end
