(* ===== verification/BankAccounts.thy ===== *)
theory BankAccounts
  imports PayU "HOL-Library.Word"
begin

text \<open>
  Bank accounts and tax numbers of drivers (\<open>submodules/settlements/bank-accounts.service.ts\<close>, \<open>tax-profile.service.ts\<close>, migration 051): the stored form of an encrypted number, adding an
  account, verifying it with the payout gateway, and the tax number with its confirmation. The cipher and the gateway are parameters.
\<close>

subsection \<open>The stored form of a number\<close>

type_synonym bytes = "8 word list"

definition hex_digit :: "nat \<Rightarrow> char" where
  "hex_digit n = char_of (if n < 10 then 48 + n else 87 + n)"

definition hex_value :: "char \<Rightarrow> nat option" where
  "hex_value c = (let n = of_char c :: nat in if 48 \<le> n \<and> n \<le> 57 then Some (n - 48) else if 97 \<le> n \<and> n \<le> 102 then Some (n - 87) else if 65 \<le> n \<and> n \<le> 70 then Some (n - 55) else None)"

text \<open>\<open>toString('hex')\<close>, and \<open>Buffer.from(s, 'hex')\<close>, which stops at the first pair that is none.\<close>

definition to_hex :: "bytes \<Rightarrow> string" where
  "to_hex bs = concat (map (\<lambda>b. [hex_digit (unat b div 16), hex_digit (unat b mod 16)]) bs)"

fun from_hex :: "string \<Rightarrow> bytes" where
  "from_hex (a # b # r) = (case (hex_value a, hex_value b) of (Some x, Some y) \<Rightarrow> word_of_nat (16 * x + y) # from_hex r | _ \<Rightarrow> [])"
| "from_hex _ = []"

text \<open>The bytes of an ASCII text, which account and tax numbers are.\<close>

definition utf8 :: "string \<Rightarrow> bytes" where
  "utf8 s = map (\<lambda>c. word_of_nat (of_char c)) s"

definition utf8_text :: "bytes \<Rightarrow> string" where
  "utf8_text bs = map (\<lambda>b. char_of (unat b)) bs"

definition COLON :: char where "COLON = CHR '':''"

definition getEncryptionKey :: "string option \<Rightarrow> bytes res" where
  "getEncryptionKey hex = (case hex of Some k \<Rightarrow> if length k \<noteq> 64 then Inl (http_err 500 '''') else Inr (from_hex k) | None \<Rightarrow> Inl (http_err 500 ''''))"

text \<open>The cipher gives the text and the tag, and back the plain text if the tag is right. It takes a key of 32 bytes only: a key text with a stray character is shorter and is refused.\<close>

record gcm =
  gc_seal :: "bytes \<Rightarrow> bytes \<Rightarrow> bytes \<Rightarrow> bytes \<times> bytes"
  gc_open :: "bytes \<Rightarrow> bytes \<Rightarrow> bytes \<Rightarrow> bytes \<Rightarrow> bytes option"

definition encryptAccountNumber :: "gcm \<Rightarrow> string option \<Rightarrow> bytes \<Rightarrow> string \<Rightarrow> string res" where
  "encryptAccountNumber c key iv s = bind_res (getEncryptionKey key) (\<lambda>k.
     if length k \<noteq> 32 then Inl (http_err 500 '''') else
     let (data, tag) = gc_seal c k iv (utf8 s) in Inr (join COLON [to_hex iv, to_hex tag, to_hex data]))"

definition decryptAccountNumber :: "gcm \<Rightarrow> string option \<Rightarrow> string \<Rightarrow> string res" where
  "decryptAccountNumber c key stored =
     (case js_split COLON stored of
        iv # tag # data # _ \<Rightarrow> bind_res (getEncryptionKey key) (\<lambda>k.
          if length k \<noteq> 32 then Inl (http_err 500 '''') else
          case gc_open c k (from_hex iv) (from_hex tag) (from_hex data) of Some bs \<Rightarrow> Inr (utf8_text bs) | None \<Rightarrow> Inl (http_err 500 ''''))
      | _ \<Rightarrow> Inl (http_err 500 ''''))"

subsection \<open>Accounts\<close>

datatype bank_status = PendingVerification | Verified | Invalid

record driver_bank =
  db_driver :: nat
  db_holder :: string
  db_number :: string
  db_ifsc :: string
  db_upi :: "string option"
  db_fund :: "string option"
  db_status :: bank_status
  db_primary :: bool

record tax_profile =
  tx_pan :: string
  tx_verified :: bool

record bank_desk =
  bd_rows :: "driver_bank list"
  bd_taxes :: "nat \<Rightarrow> tax_profile option"

record gateway_setup =
  gs_dev :: bool
  gs_cipher :: gcm
  gs_key :: "string option"

record bank_input =
  bi_holder :: string
  bi_number :: string
  bi_ifsc :: string
  bi_upi :: "string option"

definition addBankAccount :: "gateway_setup \<Rightarrow> bytes \<Rightarrow> nat \<Rightarrow> bank_input \<Rightarrow> bank_desk \<Rightarrow> nat res \<times> bank_desk" where
  "addBankAccount g iv d x s =
     (case encryptAccountNumber (gs_cipher g) (gs_key g) iv (bi_number x) of Inl err \<Rightarrow> (Inl err, s)
      | Inr number \<Rightarrow> (Inr (length (bd_rows s)), s\<lparr>bd_rows := map (\<lambda>r. if db_driver r = d then r\<lparr>db_primary := False\<rparr> else r) (bd_rows s) @
          [\<lparr>db_driver = d, db_holder = bi_holder x, db_number = number, db_ifsc = bi_ifsc x, db_upi = bi_upi x, db_fund = None,
            db_status = (if gs_dev g then Verified else PendingVerification), db_primary = True\<rparr>]\<rparr>))"

definition getPrimaryVerifiedBankAccount :: "nat \<Rightarrow> bank_desk \<Rightarrow> nat option" where
  "getPrimaryVerifiedBankAccount d s = find (\<lambda>k. let r = bd_rows s ! k in db_driver r = d \<and> db_primary r \<and> db_status r = Verified) [0..<length (bd_rows s)]"

definition bank_at :: "nat \<Rightarrow> bank_desk \<Rightarrow> driver_bank option" where
  "bank_at k s = (if k < length (bd_rows s) then Some (bd_rows s ! k) else None)"

definition with_bank :: "nat \<Rightarrow> (driver_bank \<Rightarrow> driver_bank) \<Rightarrow> bank_desk \<Rightarrow> bank_desk" where
  "with_bank k f s = (if k < length (bd_rows s) then s\<lparr>bd_rows := (bd_rows s)[k := f (bd_rows s ! k)]\<rparr> else s)"

text \<open>
  The contact and the fund account at the gateway, for the row read before: \<open>answer\<close> gives the id of the fund account from the holder, the bank code and the number in the clear, or
  nothing. An error of the cipher is caught and is a refusal too.
\<close>

definition createRazorpayXFundAccount :: "gateway_setup \<Rightarrow> (string \<Rightarrow> string \<Rightarrow> string \<Rightarrow> string option) \<Rightarrow> nat \<Rightarrow> driver_bank \<Rightarrow> bank_desk \<Rightarrow> bool \<times> bank_desk" where
  "createRazorpayXFundAccount g answer k seen s =
     (case decryptAccountNumber (gs_cipher g) (gs_key g) (db_number seen) of Inl _ \<Rightarrow> (False, s)
      | Inr number \<Rightarrow> (case answer (db_holder seen) (db_ifsc seen) number of None \<Rightarrow> (False, s)
          | Some fund \<Rightarrow> (True, with_bank k (\<lambda>r. r\<lparr>db_fund := Some fund\<rparr>) s)))"

definition dev_fund :: "nat \<Rightarrow> string" where "dev_fund k = ''dev_fund_account_'' @ id_string k"

text \<open>The fund account first, in a statement of its own; the status follows only if that worked.\<close>

definition fund_account :: "gateway_setup \<Rightarrow> (string \<Rightarrow> string \<Rightarrow> string \<Rightarrow> string option) \<Rightarrow> nat \<Rightarrow> driver_bank option \<Rightarrow> bank_desk \<Rightarrow> bool \<times> bank_desk" where
  "fund_account g answer k seen s =
     (if gs_dev g then (True, with_bank k (\<lambda>r. r\<lparr>db_fund := Some (dev_fund k)\<rparr>) s)
      else case seen of None \<Rightarrow> (False, s) | Some r \<Rightarrow> createRazorpayXFundAccount g answer k r s)"

definition set_status :: "nat \<Rightarrow> bank_status \<Rightarrow> bank_desk \<Rightarrow> bank_desk" where
  "set_status k st s = with_bank k (\<lambda>r. r\<lparr>db_status := st\<rparr>) s"

definition setBankAccountStatus :: "gateway_setup \<Rightarrow> (string \<Rightarrow> string \<Rightarrow> string \<Rightarrow> string option) \<Rightarrow> nat \<Rightarrow> bank_status \<Rightarrow> bank_desk \<Rightarrow> bool \<times> bank_desk" where
  "setBankAccountStatus g answer k st s =
     (if st = Verified then (case fund_account g answer k (bank_at k s) s of (False, s1) \<Rightarrow> (False, s1) | (True, s1) \<Rightarrow> (True, set_status k st s1))
      else (True, set_status k st s))"

text \<open>What the deletion of a driver's account does here.\<close>

definition forget_banks :: "nat \<Rightarrow> bank_desk \<Rightarrow> bank_desk" where
  "forget_banks d s = s\<lparr>bd_rows := map (\<lambda>r. if db_driver r = d then r\<lparr>db_holder := ''deleted'', db_number := ''deleted'', db_ifsc := ''DELETED0000'', db_upi := None, db_fund := None\<rparr> else r) (bd_rows s)\<rparr>"

subsection \<open>Tax numbers\<close>

definition upper_case :: "char \<Rightarrow> char" where
  "upper_case c = (if 97 \<le> (of_char c :: nat) \<and> (of_char c :: nat) \<le> 122 then char_of ((of_char c :: nat) - 32) else c)"

definition is_capital :: "char \<Rightarrow> bool" where
  "is_capital c \<longleftrightarrow> 65 \<le> (of_char c :: nat) \<and> (of_char c :: nat) \<le> 90"

definition PAN_REGEX :: "string \<Rightarrow> bool" where
  "PAN_REGEX s \<longleftrightarrow> length s = 10 \<and> list_all is_capital (take 5 s) \<and> list_all is_digit (take 4 (drop 5 s)) \<and> list_all is_capital (drop 9 s)"

definition submitDriverPan :: "gateway_setup \<Rightarrow> bytes \<Rightarrow> nat \<Rightarrow> string \<Rightarrow> bank_desk \<Rightarrow> unit res \<times> bank_desk" where
  "submitDriverPan g iv d pan s =
     (let n = map upper_case (js_trim pan) in
      if \<not> PAN_REGEX n then (Inl (http_err 422 ''VALIDATION_ERROR''), s)
      else case encryptAccountNumber (gs_cipher g) (gs_key g) iv n of Inl err \<Rightarrow> (Inl err, s)
        | Inr e \<Rightarrow> (Inr (), s\<lparr>bd_taxes := (bd_taxes s)(d \<mapsto> \<lparr>tx_pan = e, tx_verified = False\<rparr>)\<rparr>))"

definition verifyDriverPan :: "nat \<Rightarrow> bool \<Rightarrow> bank_desk \<Rightarrow> bool \<times> bank_desk" where
  "verifyDriverPan d v s = (case bd_taxes s d of None \<Rightarrow> (False, s) | Some t \<Rightarrow> (True, s\<lparr>bd_taxes := (bd_taxes s)(d \<mapsto> t\<lparr>tx_verified := v\<rparr>)\<rparr>))"

subsection \<open>A number comes back as it went in\<close>

lemma hex_value_digit: "n < 16 \<Longrightarrow> hex_value (hex_digit n) = Some n"
  by (simp add: hex_value_def hex_digit_def Let_def of_char_of)

lemma hex_digit_no_colon: "n < 16 \<Longrightarrow> hex_digit n \<noteq> COLON"
  using hex_value_digit [of n] by (auto simp: COLON_def hex_value_def)

lemma unat_byte: "unat (b :: 8 word) < 256"
  using unsigned_less [of b, where 'a = nat] by simp

lemma from_to_hex: "from_hex (to_hex bs) = bs"
proof (induction bs)
  case (Cons b bs)
  have "unat b div 16 < 16" "unat b mod 16 < 16" using unat_byte [of b] by simp_all
  then have "hex_value (hex_digit (unat b div 16)) = Some (unat b div 16)" "hex_value (hex_digit (unat b mod 16)) = Some (unat b mod 16)" by (simp_all add: hex_value_digit)
  moreover have "(word_of_nat (16 * (unat b div 16) + unat b mod 16) :: 8 word) = b" by simp
  ultimately show ?case using Cons.IH by (simp add: to_hex_def)
qed (simp add: to_hex_def)

lemma to_hex_no_colon: "COLON \<notin> set (to_hex bs)"
proof -
  have "COLON \<noteq> hex_digit (unat (b :: 8 word) div 16)" "COLON \<noteq> hex_digit (unat b mod 16)" for b
    using hex_digit_no_colon [of "unat b div 16"] hex_digit_no_colon [of "unat b mod 16"] unat_byte [of b] by (auto simp: less_mult_imp_div_less)
  then show ?thesis by (auto simp: to_hex_def)
qed

lemma js_split_no: "d \<notin> set s \<Longrightarrow> js_split d s = [s]"
  by (induction s) auto

lemma js_split_at: "d \<notin> set s \<Longrightarrow> js_split d (s @ d # r) = s # js_split d r"
  by (induction s) auto

lemma utf8_back: "utf8_text (utf8 s) = s"
proof -
  have "char_of (unat (word_of_nat (of_char c) :: 8 word)) = c" for c
    by (simp add: unsigned_of_nat take_bit_eq_mod)
  then show ?thesis by (simp add: utf8_def utf8_text_def comp_def)
qed

lemma from_hex_length: "list_all (\<lambda>c. hex_value c \<noteq> None) s \<Longrightarrow> length (from_hex s) = length s div 2"
  by (induction s rule: from_hex.induct) auto

text \<open>
  A bank account number comes back as it went in. For every number, initial vector and key of 64 hexadecimal digits, decrypting what was stored gives the number, through the
  hexadecimal fields and the colons between them, provided the cipher opens what it sealed with such a key.
\<close>

theorem account_number_round_trip:
  assumes cipher: "\<And>k iv plain. length k = 32 \<Longrightarrow> gc_open c k iv (snd (gc_seal c k iv plain)) (fst (gc_seal c k iv plain)) = Some plain" 
    and key: "length k = 64" "list_all (\<lambda>c. hex_value c \<noteq> None) k"
  shows "\<exists>stored. encryptAccountNumber c (Some k) iv number = Inr stored \<and> decryptAccountNumber c (Some k) stored = Inr number"
proof -
  have k: "length (from_hex k) = 32" using from_hex_length [OF key(2)] key(1) by simp
  obtain data tag where seal: "gc_seal c (from_hex k) iv (utf8 number) = (data, tag)" by fastforce
  have opens: "gc_open c (from_hex k) iv tag data = Some (utf8 number)" using cipher [of "from_hex k" iv "utf8 number"] k by (simp add: seal)
  let ?s = "join COLON [to_hex iv, to_hex tag, to_hex data]"
  have "js_split COLON ?s = [to_hex iv, to_hex tag, to_hex data]" by (simp add: js_split_at js_split_no to_hex_no_colon)
  then have "decryptAccountNumber c (Some k) ?s = Inr number"
    by (simp add: decryptAccountNumber_def getEncryptionKey_def key(1) k from_to_hex opens utf8_back del: join.simps)
  moreover have "encryptAccountNumber c (Some k) iv number = Inr ?s" by (simp add: encryptAccountNumber_def getEncryptionKey_def key(1) k seal)
  ultimately show ?thesis by blast
qed

subsection \<open>Accounts that can be paid\<close>

text \<open>
  Every interleaving of the statements: an administrator's verification reads the row, makes the fund account and writes the status in separate steps, on a row that may have changed. The
  ghost \<open>bw_made\<close> holds the verifications whose fund account is made and whose status is still to come.
\<close>

record bank_run =
  bw_db :: bank_desk
  bw_seen :: "(nat \<times> driver_bank) list"
  bw_made :: "nat list"

inductive bank_step :: "gateway_setup \<Rightarrow> bank_run \<Rightarrow> bank_run \<Rightarrow> bool" for g where
  adds: "bank_step g w (w\<lparr>bw_db := snd (addBankAccount g iv d x (bw_db w))\<rparr>)"
| reads: "bank_at k (bw_db w) = Some r \<Longrightarrow> bank_step g w (w\<lparr>bw_seen := (k, r) # bw_seen w\<rparr>)"
| funds: "(k, r) \<in> set (bw_seen w) \<Longrightarrow> fund_account g answer k (Some r) (bw_db w) = (True, s') \<Longrightarrow> bank_step g w (w\<lparr>bw_db := s', bw_made := k # bw_made w\<rparr>)"
| verifies: "k \<in> set (bw_made w) \<Longrightarrow> bank_step g w (w\<lparr>bw_db := set_status k Verified (bw_db w)\<rparr>)"
| refuses: "st \<noteq> Verified \<Longrightarrow> bank_step g w (w\<lparr>bw_db := set_status k st (bw_db w)\<rparr>)"
| pans: "bank_step g w (w\<lparr>bw_db := snd (submitDriverPan g iv d pan (bw_db w))\<rparr>)"
| confirms: "bank_step g w (w\<lparr>bw_db := snd (verifyDriverPan d v (bw_db w))\<rparr>)"
| forgets: "bank_step g w (w\<lparr>bw_db := forget_banks d (bw_db w)\<rparr>)"

definition payable :: "driver_bank \<Rightarrow> bool" where
  "payable r \<longleftrightarrow> db_fund r \<noteq> None \<or> db_number r = ''deleted''"

definition single_primary :: "driver_bank list \<Rightarrow> bool" where
  "single_primary rs \<longleftrightarrow> (\<forall>j < length rs. \<forall>k < length rs. db_primary (rs ! j) \<and> db_primary (rs ! k) \<and> db_driver (rs ! j) = db_driver (rs ! k) \<longrightarrow> j = k)
     \<and> (\<forall>r \<in> set rs. \<exists>q \<in> set rs. db_driver q = db_driver r \<and> db_primary q)"

definition banks_fit :: "bank_run \<Rightarrow> bool" where
  "banks_fit w \<longleftrightarrow> single_primary (bd_rows (bw_db w)) \<and> (\<forall>r \<in> set (bd_rows (bw_db w)). db_status r = Verified \<longrightarrow> payable r)
     \<and> (\<forall>k \<in> set (bw_made w). k < length (bd_rows (bw_db w)) \<and> payable (bd_rows (bw_db w) ! k)) \<and> (\<forall>(k, r) \<in> set (bw_seen w). k < length (bd_rows (bw_db w)))"

lemma single_primary_update:
  assumes "single_primary rs" "k < length rs" "db_driver r = db_driver (rs ! k)" "db_primary r = db_primary (rs ! k)"
  shows "single_primary (rs[k := r])"
proof -
  have f: "db_driver (rs[k := r] ! j) = db_driver (rs ! j)" "db_primary (rs[k := r] ! j) = db_primary (rs ! j)" for j
    using assms(2-4) by (cases "j = k"; simp)+
  have "\<exists>q \<in> set (rs[k := r]). db_driver q = db_driver (rs[k := r] ! j) \<and> db_primary q" if j: "j < length rs" for j
  proof -
    obtain i where "i < length rs" "db_driver (rs ! i) = db_driver (rs ! j)" "db_primary (rs ! i)"
      using assms(1) nth_mem [OF j] unfolding single_primary_def by (metis in_set_conv_nth)
    then show ?thesis using f nth_mem [of i "rs[k := r]"] by (metis length_list_update)
  qed
  then show ?thesis using assms(1) unfolding single_primary_def by (auto simp: f in_set_conv_nth)
qed

lemma single_primary_add:
  assumes "single_primary rs" "db_driver r = d" "db_primary r"
  shows "single_primary (map (\<lambda>q. if db_driver q = d then q\<lparr>db_primary := False\<rparr> else q) rs @ [r])"
proof -
  let ?f = "\<lambda>q. if db_driver q = d then q\<lparr>db_primary := False\<rparr> else q"
  let ?rs = "map ?f rs @ [r]"
  have f: "db_driver (?f q) = db_driver q" "db_primary (?f q) \<longleftrightarrow> db_primary q \<and> db_driver q \<noteq> d" for q by simp_all
  have "j = k" if "j < length ?rs" "k < length ?rs" "db_primary (?rs ! j)" "db_primary (?rs ! k)" "db_driver (?rs ! j) = db_driver (?rs ! k)" for j k
    using that assms(1) unfolding single_primary_def by (cases "j < length rs"; cases "k < length rs") (auto simp: nth_append assms(2) split: if_splits)
  moreover have "\<exists>q \<in> set ?rs. db_driver q = db_driver p \<and> db_primary q" if "p \<in> set ?rs" for p
  proof (cases "db_driver p = d")
    case True
    then show ?thesis using assms(2,3) by (intro bexI [of _ r]) simp_all
  next
    case False
    then have "p \<in> set (map ?f rs)" using that assms(2) by auto
    then obtain q where "q \<in> set rs" "p = ?f q" unfolding set_map by (elim imageE)
    then have "\<exists>o' \<in> set rs. db_driver o' = db_driver q \<and> db_primary o'" using assms(1) unfolding single_primary_def by blast
    then obtain o' where o': "o' \<in> set rs" "db_driver o' = db_driver q" "db_primary o'" by blast
    have "db_driver q = db_driver p" using \<open>p = ?f q\<close> f(1) [of q] by argo
    then have "?f o' \<in> set ?rs" "db_driver (?f o') = db_driver p" "db_primary (?f o')" using o' False by simp_all
    then show ?thesis by blast
  qed
  ultimately show ?thesis unfolding single_primary_def by blast
qed

lemma single_primary_map:
  assumes "single_primary rs" "\<And>r. db_driver (f r) = db_driver r" "\<And>r. db_primary (f r) = db_primary r"
  shows "single_primary (map f rs)"
  using assms(1) unfolding single_primary_def by (simp add: assms(2,3))

text \<open>A change of one row that keeps its owner, its rank and the link of status and fund account.\<close>

lemma banks_fit_row:
  assumes inv: "banks_fit w" and f: "\<And>r. db_driver (f r) = db_driver r \<and> db_primary (f r) = db_primary r"
    and fund: "\<And>r. payable r \<Longrightarrow> payable (f r)"
    and ok: "k < length (bd_rows (bw_db w)) \<Longrightarrow> db_status (f (bd_rows (bw_db w) ! k)) = Verified \<Longrightarrow> payable (f (bd_rows (bw_db w) ! k))"
  shows "banks_fit (w\<lparr>bw_db := with_bank k f (bw_db w)\<rparr>)"
proof (cases "k < length (bd_rows (bw_db w))")
  case True
  let ?rs = "bd_rows (bw_db w)"
  have rows: "bd_rows (with_bank k f (bw_db w)) = ?rs[k := f (?rs ! k)]" using True by (simp add: with_bank_def)
  have "single_primary (?rs[k := f (?rs ! k)])" using inv True f by (intro single_primary_update) (simp_all add: banks_fit_def)
  moreover have "payable r" if "r \<in> set (?rs[k := f (?rs ! k)])" "db_status r = Verified" for r
    using that set_update_subset_insert [of ?rs k "f (?rs ! k)"] inv ok [OF True] unfolding banks_fit_def by blast
  moreover have "payable (?rs[k := f (?rs ! k)] ! j)" if "j \<in> set (bw_made w)" for j
    using inv that fund [of "?rs ! k"] True unfolding banks_fit_def by (cases "j = k") simp_all
  ultimately show ?thesis using inv unfolding banks_fit_def by (simp add: rows)
next
  case False
  then show ?thesis using inv by (simp add: with_bank_def)
qed

lemma banks_fit_same: "bd_rows s' = bd_rows (bw_db w) \<Longrightarrow> banks_fit w \<Longrightarrow> banks_fit (w\<lparr>bw_db := s'\<rparr>)"
  by (simp add: banks_fit_def)

lemma fund_account_some:
  assumes "fund_account g answer k (Some r) s = (True, s')"
  obtains fund where "s' = with_bank k (\<lambda>r. r\<lparr>db_fund := Some fund\<rparr>) s"
proof (cases "gs_dev g")
  case True
  then have "s' = with_bank k (\<lambda>r. r\<lparr>db_fund := Some (dev_fund k)\<rparr>) s" using assms by (simp add: fund_account_def)
  then show thesis by (rule that)
next
  case False
  then have run: "createRazorpayXFundAccount g answer k r s = (True, s')" using assms by (simp add: fund_account_def)
  show thesis
  proof (cases "decryptAccountNumber (gs_cipher g) (gs_key g) (db_number r)")
    case (Inl err)
    then show thesis using run by (simp add: createRazorpayXFundAccount_def)
  next
    case (Inr number)
    obtain fund where "answer (db_holder r) (db_ifsc r) number = Some fund"
      using run Inr by (cases "answer (db_holder r) (db_ifsc r) number") (simp_all add: createRazorpayXFundAccount_def)
    then have "s' = with_bank k (\<lambda>r. r\<lparr>db_fund := Some fund\<rparr>) s" using run Inr by (simp add: createRazorpayXFundAccount_def)
    then show thesis by (rule that)
  qed
qed

lemma banks_fit_step:
  assumes "bank_step g w w'" and dev: "\<not> gs_dev g" and inv: "banks_fit w"
  shows "banks_fit w'"
  using assms(1)
proof cases
  case (adds iv d x)
  show ?thesis
  proof (cases "encryptAccountNumber (gs_cipher g) (gs_key g) iv (bi_number x)")
    case (Inl err)
    then show ?thesis using inv by (simp add: adds addBankAccount_def)
  next
    case (Inr number)
    let ?r = "\<lparr>db_driver = d, db_holder = bi_holder x, db_number = number, db_ifsc = bi_ifsc x, db_upi = bi_upi x, db_fund = None, db_status = PendingVerification, db_primary = True\<rparr>"
    let ?f = "\<lambda>q. if db_driver q = d then q\<lparr>db_primary := False\<rparr> else q"
    have rows: "bd_rows (bw_db w') = map ?f (bd_rows (bw_db w)) @ [?r]" using Inr dev by (simp add: adds addBankAccount_def)
    have "single_primary (map ?f (bd_rows (bw_db w)) @ [?r])" using inv by (intro single_primary_add) (simp_all add: banks_fit_def)
    then have "single_primary (bd_rows (bw_db w'))" by (simp add: rows)
    moreover have "\<forall>r \<in> set (bd_rows (bw_db w')). db_status r = Verified \<longrightarrow> payable r" using inv unfolding rows banks_fit_def by (auto simp: payable_def)
    moreover have "\<forall>k \<in> set (bw_made w'). k < length (bd_rows (bw_db w')) \<and> payable (bd_rows (bw_db w') ! k)"
      using inv unfolding rows banks_fit_def by (auto simp: adds nth_append payable_def)
    moreover have "\<forall>(k, r) \<in> set (bw_seen w'). k < length (bd_rows (bw_db w'))" using inv unfolding rows banks_fit_def by (auto simp: adds)
    ultimately show ?thesis unfolding banks_fit_def by blast
  qed
next
  case (reads k r)
  then show ?thesis using inv by (auto simp: banks_fit_def bank_at_def split: if_splits)
next
  case (funds k r answer s')
  obtain fund where s': "s' = with_bank k (\<lambda>r. r\<lparr>db_fund := Some fund\<rparr>) (bw_db w)" using funds(3) by (rule fund_account_some)
  have fit: "banks_fit (w\<lparr>bw_db := s'\<rparr>)" unfolding s' by (rule banks_fit_row [OF inv]) (simp_all add: payable_def)
  have "k < length (bd_rows (bw_db w))" using inv funds(2) unfolding banks_fit_def by blast
  then have "k < length (bd_rows s')" "payable (bd_rows s' ! k)" by (simp_all add: s' with_bank_def payable_def)
  then show ?thesis using fit unfolding funds(1) banks_fit_def by simp
next
  case (verifies k)
  show ?thesis unfolding verifies(1) set_status_def
    by (rule banks_fit_row [OF inv]) (use inv verifies(2) in \<open>simp_all add: banks_fit_def payable_def\<close>)
next
  case (refuses st k)
  show ?thesis unfolding refuses(1) set_status_def by (rule banks_fit_row [OF inv]) (use refuses(2) in \<open>simp_all add: payable_def\<close>)
next
  case (pans iv d pan)
  then show ?thesis using inv by (auto intro!: banks_fit_same simp: submitDriverPan_def Let_def split: sum.split)
next
  case (confirms d v)
  then show ?thesis using inv by (auto intro!: banks_fit_same simp: verifyDriverPan_def split: option.split)
next
  case (forgets d)
  let ?e = "\<lambda>r. if db_driver r = d then r\<lparr>db_holder := ''deleted'', db_number := ''deleted'', db_ifsc := ''DELETED0000'', db_upi := None, db_fund := None\<rparr> else r"
  have rows: "bd_rows (bw_db w') = map ?e (bd_rows (bw_db w))" by (simp add: forgets forget_banks_def)
  have e: "db_driver (?e r) = db_driver r" "db_primary (?e r) = db_primary r" "db_status (?e r) = db_status r" "payable r \<Longrightarrow> payable (?e r)" for r
    by (simp_all add: payable_def)
  have "single_primary (map ?e (bd_rows (bw_db w)))" using inv e(1,2) by (intro single_primary_map) (simp_all add: banks_fit_def)
  moreover have "\<forall>r \<in> set (map ?e (bd_rows (bw_db w))). db_status r = Verified \<longrightarrow> payable r"
  proof
    fix q assume "q \<in> set (map ?e (bd_rows (bw_db w)))"
    then obtain r where r: "r \<in> set (bd_rows (bw_db w))" "q = ?e r" unfolding set_map by (elim imageE)
    then have "db_status r = Verified \<longrightarrow> payable r" using inv by (simp add: banks_fit_def)
    then show "db_status q = Verified \<longrightarrow> payable q" using e(3,4) [of r] by (simp only: r(2)) blast
  qed
  moreover have "\<forall>k \<in> set (bw_made w). k < length (bd_rows (bw_db w)) \<and> payable (map ?e (bd_rows (bw_db w)) ! k)"
  proof
    fix k assume "k \<in> set (bw_made w)"
    then have "k < length (bd_rows (bw_db w))" "payable (bd_rows (bw_db w) ! k)" using inv by (simp_all add: banks_fit_def)
    then show "k < length (bd_rows (bw_db w)) \<and> payable (map ?e (bd_rows (bw_db w)) ! k)" using e(4) by (simp only: nth_map)
  qed
  ultimately show ?thesis using inv unfolding banks_fit_def rows by (simp add: forgets)
qed

text \<open>
  C28. A verified account can be paid. With the gateway configured, however accounts are added, checked, refused, verified on rows read earlier and erased with their owner: an account
  that counts as verified has a fund account at the gateway unless it has been erased, and every driver with accounts has exactly one primary one. So the account a payout picks is the
  only candidate and can receive it.
\<close>

theorem verified_accounts_can_be_paid:
  assumes "(bank_step g)\<^sup>*\<^sup>* w0 w" and "\<not> gs_dev g" and "bd_rows (bw_db w0) = []" "bw_made w0 = []" "bw_seen w0 = []"
  shows "(\<forall>r \<in> set (bd_rows (bw_db w)). db_status r = Verified \<and> db_number r \<noteq> ''deleted'' \<longrightarrow> db_fund r \<noteq> None) \<and> single_primary (bd_rows (bw_db w))
    \<and> (\<forall>d k. getPrimaryVerifiedBankAccount d (bw_db w) = Some k \<longrightarrow> (db_number (bd_rows (bw_db w) ! k) \<noteq> ''deleted'' \<longrightarrow> db_fund (bd_rows (bw_db w) ! k) \<noteq> None) \<and> db_driver (bd_rows (bw_db w) ! k) = d)"
proof -
  have "banks_fit w0" using assms(3-5) by (simp add: banks_fit_def single_primary_def)
  with assms(1) have fit: "banks_fit w" by (induction rule: rtranclp_induct) (use banks_fit_step assms(2) in blast)+
  have "(db_number (bd_rows (bw_db w) ! k) \<noteq> ''deleted'' \<longrightarrow> db_fund (bd_rows (bw_db w) ! k) \<noteq> None) \<and> db_driver (bd_rows (bw_db w) ! k) = d" if a: "getPrimaryVerifiedBankAccount d (bw_db w) = Some k" for d k
  proof -
    have "k < length (bd_rows (bw_db w))" "db_driver (bd_rows (bw_db w) ! k) = d" "db_status (bd_rows (bw_db w) ! k) = Verified"
      using a unfolding getPrimaryVerifiedBankAccount_def by (auto simp: find_Some_iff Let_def)
    then show ?thesis using fit nth_mem [of k "bd_rows (bw_db w)"] unfolding banks_fit_def payable_def by blast
  qed
  then show ?thesis using fit unfolding banks_fit_def payable_def by blast
qed

text \<open>The confirmation of a tax number is not about the number the administrator has looked at: one submitted in between is confirmed.\<close>

lemma unseen_pan_confirmed:
  "bd_taxes s d = Some \<lparr>tx_pan = new, tx_verified = False\<rparr> \<Longrightarrow> verifyDriverPan d True s = (True, s\<lparr>bd_taxes := (bd_taxes s)(d \<mapsto> \<lparr>tx_pan = new, tx_verified = True\<rparr>)\<rparr>)"
  by (simp add: verifyDriverPan_def)

text \<open>An account added while no gateway was configured counts as verified and has no fund account.\<close>

lemma dev_account_without_fund:
  assumes "gs_dev g" "addBankAccount g iv d x s = (Inr k, s')"
  shows "\<exists>r \<in> set (bd_rows s'). db_driver r = d \<and> db_status r = Verified \<and> db_fund r = None"
  using assms by (auto simp: addBankAccount_def split: sum.splits)

subsection \<open>Runs at concrete inputs\<close>

definition toy_gcm :: gcm where
  "toy_gcm = \<lparr>gc_seal = (\<lambda>k iv p. (rev p, [])), gc_open = (\<lambda>k iv t d. Some (rev d))\<rparr>"

definition toy_key :: string where "toy_key = replicate 64 (CHR ''a'')"

theorem account_number_round_trip_witness:
  "\<exists>stored. encryptAccountNumber toy_gcm (Some toy_key) [1, 2] ''12345678'' = Inr stored \<and> decryptAccountNumber toy_gcm (Some toy_key) stored = Inr ''12345678''"
  by (rule account_number_round_trip) (simp_all add: toy_gcm_def toy_key_def list_all_iff hex_value_def)

text \<open>An account is added, checked and verified.\<close>

theorem verified_accounts_can_be_paid_witness:
  "\<exists>w. (bank_step \<lparr>gs_dev = False, gs_cipher = toy_gcm, gs_key = Some toy_key\<rparr>)\<^sup>*\<^sup>* \<lparr>bw_db = \<lparr>bd_rows = [], bd_taxes = Map.empty\<rparr>, bw_seen = [], bw_made = []\<rparr> w
     \<and> getPrimaryVerifiedBankAccount 7 (bw_db w) = Some 0 \<and> db_fund (bd_rows (bw_db w) ! 0) \<noteq> None"
proof -
  let ?g = "\<lparr>gs_dev = False, gs_cipher = toy_gcm, gs_key = Some toy_key\<rparr>"
  let ?w0 = "\<lparr>bw_db = \<lparr>bd_rows = [], bd_taxes = Map.empty\<rparr>, bw_seen = [], bw_made = []\<rparr>"
  let ?x = "\<lparr>bi_holder = ''A'', bi_number = ''12345678'', bi_ifsc = ''SBIN0000001'', bi_upi = None\<rparr>"
  obtain e where e: "encryptAccountNumber toy_gcm (Some toy_key) [1, 2] ''12345678'' = Inr e" "decryptAccountNumber toy_gcm (Some toy_key) e = Inr ''12345678''"
    using account_number_round_trip_witness by blast
  let ?r = "\<lparr>db_driver = 7, db_holder = ''A'', db_number = e, db_ifsc = ''SBIN0000001'', db_upi = None, db_fund = None, db_status = PendingVerification, db_primary = True\<rparr>"
  let ?w1 = "?w0\<lparr>bw_db := \<lparr>bd_rows = [?r], bd_taxes = Map.empty\<rparr>\<rparr>"
  let ?w2 = "?w1\<lparr>bw_seen := [(0, ?r)]\<rparr>"
  let ?w3 = "?w2\<lparr>bw_db := \<lparr>bd_rows = [?r\<lparr>db_fund := Some ''fa''\<rparr>], bd_taxes = Map.empty\<rparr>, bw_made := [0]\<rparr>"
  let ?w4 = "?w3\<lparr>bw_db := set_status 0 Verified (bw_db ?w3)\<rparr>"
  have "bank_step ?g ?w0 ?w1" using bank_step.adds [of ?g ?w0 "[1, 2]" 7 ?x] by (simp add: addBankAccount_def e(1))
  moreover have "bank_step ?g ?w1 ?w2" using bank_step.reads [of 0 ?w1 ?r ?g] by (simp add: bank_at_def)
  moreover have "fund_account ?g (\<lambda>_ _ _. Some ''fa'') 0 (Some ?r) (bw_db ?w2) = (True, bw_db ?w3)"
    by (simp add: fund_account_def createRazorpayXFundAccount_def e(2) with_bank_def)
  then have "bank_step ?g ?w2 ?w3" using bank_step.funds [of 0 ?r ?w2 ?g "\<lambda>_ _ _. Some ''fa''" "bw_db ?w3"] by simp
  moreover have "bank_step ?g ?w3 ?w4" using bank_step.verifies [of 0 ?w3 ?g] by simp
  ultimately have run: "(bank_step ?g)\<^sup>*\<^sup>* ?w0 ?w4" by (meson rtranclp.rtrancl_refl rtranclp.rtrancl_into_rtrancl)
  have "getPrimaryVerifiedBankAccount 7 (bw_db ?w4) = Some 0" by (simp add: getPrimaryVerifiedBankAccount_def set_status_def with_bank_def)
  moreover have "e \<noteq> ''deleted''" using e(2) by (auto simp: decryptAccountNumber_def COLON_def)
  then have "db_number (bd_rows (bw_db ?w4) ! 0) \<noteq> ''deleted''" by (simp add: set_status_def with_bank_def)
  moreover have "\<forall>d k. getPrimaryVerifiedBankAccount d (bw_db ?w4) = Some k \<longrightarrow>
      (db_number (bd_rows (bw_db ?w4) ! k) \<noteq> ''deleted'' \<longrightarrow> db_fund (bd_rows (bw_db ?w4) ! k) \<noteq> None) \<and> db_driver (bd_rows (bw_db ?w4) ! k) = d"
    by (rule verified_accounts_can_be_paid [OF run, THEN conjunct2, THEN conjunct2]) simp_all
  ultimately show ?thesis using run by blast
qed

end
