(* ===== verification/Spec2Isabelle.thy ===== *)
theory Spec2Isabelle
  imports Otp OfferLedger RideCore Wallets Settlements Payments RidePayments RideStops Booking RideOps TripEnd Dispatch RideLifecycle Auth AdminTotp Safety Settings Sharing Invites RideTalk BankAccounts
begin

text \<open>
  Ocar: the money and the ride life cycle of the API server (\<open>src/api\<close>, TypeScript on PostgreSQL and Redis).

  The program. A rider asks for a quote (\<open>modules/pricing\<close>, \<open>lib/fare.ts\<close>), may apply an offer (\<open>modules/offers\<close>) and books
  (\<open>createBooking\<close> of \<open>modules/rides/rides.service.ts\<close>). Jobs (\<open>jobs/processors\<close>) offer the ride to drivers in rounds; one accepts,
  arrives, starts with the rider's code, visits stops, and ends with a second code. The end fixes the fare and starts the
  settlement (\<open>modules/payments\<close>): a payment row, commission or package balance, the driver's earning, cashback and the offer.
  Earnings are paid out in batches or by cash-out (\<open>submodules/settlements\<close>). Sweeps close what nobody finishes. All of these
  share the tables; the server runs many handlers at once, so a handler may act on rows that have changed since it read them.

  Reading the models. A table is a list of rows or a map, a component's tables one record. A statement or a transaction is one
  function on that record, taken as atomic: PostgreSQL runs it so, and \<open>UPDATE \<dots> WHERE\<close> re-reads the row it locks. A handler that reads
  first and writes later takes the row it has read as an argument (\<open>seen\<close>), which need not be the current one. A thrown error is the
  left value of \<open>'a res\<close>, and the state beside it is what was already committed. Clocks, random bytes, hashes, gateway
  answers, configuration, spatial queries and the mathematical library are arguments.

  Numbers. A JavaScript number is the rational it stands for, and every operation rounds as binary64 does (\<open>fl\<close> in JSNum, for normal
  numbers; the ranges in the theorems stay far inside the exponent range). \<open>NaN\<close> is an option where it can arise. A
  \<open>NUMERIC(n, 2)\<close> column is an integer of paise with the bound on its digits checked.
\<close>

text \<open>
  The theories, in the order the code is layered.

  \<^item> Prelude: errors, results, options, maps. JSNum: binary64 rounding, \<open>Math.round(x * 100) / 100\<close>, paise and their exactness.
  \<^item> Fare (\<open>lib/fare.ts\<close>, \<open>lib/trip-window.ts\<close>): the four fare formulas, rental overage, the booked window. The lines of a
    breakdown add up, the total is monotone through every rounding and never below the minimum fare.
  \<^item> Pricing (\<open>modules/pricing\<close>): rate cards, surge and packages as tables, their lookups and writes, the estimate.
  \<^item> Offers and OfferLedger (\<open>modules/offers\<close>, migrations 121 and 122): rules, benefits and selection; redemptions, counters and
    budgets as a ledger with the step relation \<open>ledger_step\<close>, extended to releases whose statements commit one by one (\<open>offer_step\<close>), and the discount re-derived on the final fare.
  \<^item> Claims: the locales \<open>at_most_once\<close>, \<open>claim_once\<close> and \<open>paid_claim\<close> state the contract of a guarded update that only one caller can
    win; they are interpreted on redemptions (OfferLedger), on the completion of a ride (RideCore), and on top-ups and package
    purchases (Wallets).
  \<^item> RideCore (\<open>rides.repository.ts\<close>, migrations 002, 007, 109): the ride tables, the transition trigger, the partial unique indexes and
    every statement that writes them. RideStops: the waypoints, nearest-first order (a terminating loop whose measure is the
    number of stops left) and the two-phase renumbering; \<open>append_attempts\<close> retries three times, as the code does.
  \<^item> Wallets (migration 011, \<open>modules/packages\<close>): the rider, driver and package books; the locale \<open>signed_book\<close> with one interpretation each.
  \<^item> PayU (\<open>lib/payu.ts\<close>), Payments (\<open>payments.service.ts\<close>), Settlements (\<open>settlements.service.ts\<close>) and RidePayments (the settlement of a
    completed ride, cash collection, reconciliation): the step relations \<open>pay_step\<close> and \<open>payout_step\<close> interleave their operations, crashes
    included, and the payment of a ride refines a four-state machine. \<open>pay_step\<close> is indexed by the values the cash switch may take; that a ride is billed once needs
    the switch on. \<open>payout_step\<close> keeps the submissions under way and the settlements in doubt, whose transfers the books do not know or no longer back.
  \<^item> Booking (\<open>createBooking\<close>): checks, the trusted distance, and the one transaction.
  \<^item> RideOps, TripEnd, Dispatch: the handlers of \<open>rides.service.ts\<close> from the driver's session to the cancellation, the three ends of a
    trip with their fares, and the jobs. The state is the record \<open>ops\<close>: all tables, the codes and counters in Redis, and the queue.
  \<^item> RideLifecycle: the step relation \<open>ops_step\<close> lets every handler run on any row it may have read. Rides stay well formed and move
    only along the legal edges, however the handlers interleave.
  \<^item> Otp (\<open>lib/otp.ts\<close>): login codes, counters and locks in Redis; the limits hold over every interleaving of single commands. Auth
    (\<open>modules/auth\<close>, \<open>auth.middleware.ts\<close>, \<open>account.service.ts\<close>): sign-in, refresh-token families, one device per driver, deletion of an account. AdminTotp
    (\<open>modules/admin-totp\<close>): the second factor of administrators.
  \<^item> Drivers (\<open>modules/drivers\<close>, the review of drivers in \<open>modules/admin\<close>): onboarding, documents and their review, daily checks, the standing of a driver, and the gates
    of going on line. The step relation \<open>review_step\<close> interleaves uploads and reviews: a decision is about the file that was seen.
  \<^item> Safety (\<open>modules/safety\<close>, migrations 009 and 063): ratings, emergency alerts, disputes with their refunds, warnings and suspensions, and the two sweeps. The step
    relation \<open>safety_step\<close> interleaves their statements with the rest of the program (\<open>elsewhere\<close>): refunds stay within the payment, averages are those of the rows.
  \<^item> Sharing (\<open>modules/ride-shares\<close>, \<open>modules/emergency-contacts\<close>, migration 126): emergency contacts, links to a trip and the public page behind them. \<open>share_step\<close> interleaves
    creations, stops, purges and views while time passes: the limits hold, the hourly one over all rides only without overlapping
    creations on two rides (\<open>overlap\<close>), and a dead link stays dead. RideTalk (\<open>modules/ride-chat\<close>, \<open>modules/call-masking\<close>): the chat of a ride with
    its idempotent insert, and masked calls with their counter in Redis.
  \<^item> Settings (\<open>lib/system-config.ts\<close>, \<open>system-config-bounds.ts\<close>, \<open>modules/app-version\<close>, \<open>cash-discount-guard.ts\<close>): the settings an administrator changes, their types, bounds and
    the limits between them, the order of versions and the gate that shuts out old builds. Invites (\<open>modules/admin-invites\<close>, migration 038): an invitation is redeemed once.
  \<^item> BankAccounts (\<open>bank-accounts.service.ts\<close>, \<open>tax-profile.service.ts\<close>): encrypted numbers as bytes (\<open>8 word list\<close>), accounts and their verification with the gateway, tax numbers.
\<close>

text \<open>
  Simplifications. The statements after a ride is taken (\<open>verifyEndOTP\<close> after its status update, the fare and the status of an early
  end) are one function each: an interleaving in their middle shows only in the row the handler has read. Codes in Redis do not expire by
  themselves in the handlers; \<open>ops_step\<close> lets any of them vanish. Review texts are shortened. Rows that only feed a display or a log (ETA
  snapshots, advance-booking metadata, the daily cancellation counter) are left out, as are sockets, push messages
  and the trip-window nudges. Redis caches in front of table lookups are taken to hold the row they cache, except
  the principal cache: a driver's status may be up to twenty seconds old when the driver goes on line. The statement that accepts a ride (\<open>acceptAssignment\<close>) is one step; the
  index of migration 109 on a driver's live rides makes it so, and without the index the acceptances of one driver are taken one at a time. A failed update of a driver's
  standing after a review is an argument (\<open>sync\<close>).

  Not modelled: the web and mobile clients; the other forms and listings of the administration, and analytics; saved
  places and notifications; routing and places, which call external providers. Hashes, ciphers, signatures of access tokens and the check of a
  time-based code are arguments, and so is the row a request's principal cache holds. The queries that search drivers by position are arguments, since PostGIS is not part of the sources.
\<close>

end
